(* ===== verification/Prelude.thy ===== *)
theory Prelude
  imports Main "HOL-Library.Word" "HOL-Library.Multiset" "HOL-Library.AList"
begin

text \<open>
  Shared vocabulary of the development.

  The Go types that every component uses: \<open>uint64\<close> is \<open>64 word\<close>, a byte is
  \<open>8 word\<close>, \<open>common.Address\<close> (20 bytes, compared as a big-endian byte string) is
  \<open>160 word\<close>, \<open>common.Hash\<close> (32 bytes) is \<open>256 word\<close>, \<open>*big.Int\<close> is \<open>int\<close>, and the
  length of a slice is \<open>nat\<close>.

  A Go map that is iterated is an association list with distinct keys (\<open>gm_wf\<close>). Go
  leaves the order of \<open>range\<close> over a map unspecified; an operation that iterates takes that
  order as a parameter \<open>rng\<close>, a function that permutes the list of keys (\<open>range_ok\<close>), and
  the theorems hold for every such order.

  The collections: \<open>gomap_simps\<close> holds the rewriting rules of the association lists,
  \<open>heap_rules\<close> the facts on heaps that clients use, \<open>inv_rules\<close> the preservation lemmas.
\<close>

unbundle bit_operations_syntax

declare Let_def [simp]

named_theorems gomap_simps
named_theorems heap_rules
named_theorems inv_rules

type_synonym u64 = "64 word"
type_synonym byte = "8 word"
type_synonym bytes = "8 word list"
type_synonym address = "160 word"
type_synonym hash = "256 word"
type_synonym bigint = int

section \<open>Machine integers\<close>

lemma unat_of_nat_u64: "n < 2 ^ 64 \<Longrightarrow> unat (of_nat n :: u64) = n"
  by (simp add: unsigned_of_nat take_bit_nat_eq_self)

lemma unat_Suc_u64: "unat (n :: u64) + 1 < 2 ^ 64 \<Longrightarrow> unat (n + 1) = unat n + 1"
  by (subst unat_add_lem [THEN iffD1]) simp_all

section \<open>Hashes and addresses as bytes\<close>

text \<open>\<open>h[:]\<close> and \<open>BytesToHash\<close> (\<open>common/types.go\<close>): big-endian, longer input is cropped from the left.\<close>

definition hash_bytes :: "hash \<Rightarrow> bytes" where
  "hash_bytes h = map (\<lambda>i. ucast (drop_bit (8 * i) h)) (rev [0..<32])"

definition address_bytes :: "address \<Rightarrow> bytes" where
  "address_bytes a = map (\<lambda>i. ucast (drop_bit (8 * i) a)) (rev [0..<20])"

definition BytesToHash :: "bytes \<Rightarrow> hash" where
  "BytesToHash bs = foldl (\<lambda>acc b. push_bit 8 acc + ucast b) 0 bs"

lemma length_hash_bytes [simp]: "length (hash_bytes h) = 32"
  by (simp add: hash_bytes_def)

lemma ucast_byte_back: "(ucast (ucast w :: byte) :: 'a :: len word) = take_bit 8 w"
  by transfer (simp add: min.commute)

lemma fold_be_bytes:
  fixes w acc :: "'a :: len word"
  shows "foldl (\<lambda>acc b. push_bit 8 acc + ucast b) acc (map (\<lambda>i. ucast (drop_bit (8 * i) w) :: byte) (rev [0..<n]))
    = push_bit (8 * n) acc + take_bit (8 * n) w"
proof (induction n arbitrary: acc)
  case (Suc n)
  have "push_bit (8 * n) (take_bit 8 (drop_bit (8 * n) w)) + take_bit (8 * n) w = take_bit (8 * Suc n) w"
    using bits_ident [of "8 * n" "take_bit (8 * Suc n) w"] by (simp add: drop_bit_take_bit)
  then show ?case
    by (simp add: Suc.IH ucast_byte_back push_bit_add add.assoc push_bit_push_bit add.commute [of 8])
qed simp

lemma BytesToHash_hash_bytes [simp]: "BytesToHash (hash_bytes h) = h"
proof -
  have "take_bit 256 h = h" by transfer simp
  then show ?thesis unfolding BytesToHash_def hash_bytes_def fold_be_bytes by simp
qed

lemma drop_byte:
  fixes w :: "'a :: len word"
  assumes "w = take_bit n w" "n + 8 \<le> LENGTH('a)"
  shows "drop_bit 8 (push_bit 8 w + ucast (b :: byte)) = w" "ucast (push_bit 8 w + ucast b :: 'a word) = b"
    "take_bit (n + 8) (push_bit 8 w + ucast b) = push_bit 8 w + ucast b"
proof -
  have wb: "\<not> bit w i" if "i \<ge> n" for i
    using that assms(1) by (metis bit_take_bit_iff not_le)
  have bb: "\<not> bit b i" if "i \<ge> 8" for i using that bit_imp_le_length [of b i] by auto
  have e: "push_bit 8 w + ucast b = push_bit 8 w OR (ucast b :: 'a word)"
    by (rule disjunctive_add) (use bb in \<open>auto simp: bit_simps\<close>)
  have l: "i < n \<Longrightarrow> i < LENGTH('a) - 8" for i using assms(2) by linarith
  show "drop_bit 8 (push_bit 8 w + ucast b) = w" unfolding e
    by (rule bit_eqI) (use wb bb assms(2) in \<open>fastforce simp: bit_simps not_le\<close>)
  show "ucast (push_bit 8 w + ucast b :: 'a word) = b" unfolding e
    by (rule bit_eqI) (use bb assms(2) in \<open>auto simp: bit_simps\<close>)
  show "take_bit (n + 8) (push_bit 8 w + ucast b) = push_bit 8 w + ucast b" unfolding e
  proof (rule bit_word_eqI)
    fix i assume "i < LENGTH('a)"
    have "bit w (i - 8) \<Longrightarrow> i - 8 < n" using wb not_le by blast
    then show "bit (take_bit (n + 8) (push_bit 8 w OR ucast b)) i = bit (push_bit 8 w OR ucast b :: 'a word) i"
      using bb \<open>i < LENGTH('a)\<close> by (auto simp: bit_simps not_less not_le)
  qed
qed

lemma bytes_of_fold:
  fixes bs :: bytes
  defines "w \<equiv> foldl (\<lambda>acc b. push_bit 8 acc + ucast b) 0 bs :: 'a :: len word"
  assumes "8 * length bs \<le> LENGTH('a)"
  shows "map (\<lambda>i. ucast (drop_bit (8 * i) w)) (rev [0..<length bs]) = bs \<and> take_bit (8 * length bs) w = w"
  using assms(2) unfolding w_def
proof (induction bs rule: rev_induct)
  case (snoc b bs)
  let ?w = "foldl (\<lambda>acc b. push_bit 8 acc + ucast b) 0 bs :: 'a word"
  have IH: "map (\<lambda>i. ucast (drop_bit (8 * i) ?w)) (rev [0..<length bs]) = bs" "?w = take_bit (8 * length bs) ?w"
    using snoc by simp_all
  have n: "8 * length bs + 8 \<le> LENGTH('a)" using snoc.prems by simp
  note d = drop_byte [OF IH(2) n, of b]
  have "[0..<length (bs @ [b])] = 0 # map Suc [0..<length bs]"
    by (simp add: map_Suc_upt upt_conv_Cons del: upt_Suc)
  then have r: "rev [0..<length (bs @ [b])] = map Suc (rev [0..<length bs]) @ [0]" by (simp add: rev_map)
  have "drop_bit (8 * Suc i) (push_bit 8 ?w + ucast b) = drop_bit (8 * i) ?w" for i
  proof -
    have "drop_bit (8 * Suc i) (push_bit 8 ?w + ucast b) = drop_bit (8 * i) (drop_bit 8 (push_bit 8 ?w + ucast b))"
      by (simp add: add.commute)
    then show ?thesis by (simp only: d(1))
  qed
  then show ?case unfolding r using d(2,3) IH(1) by (simp add: comp_def add.commute)
qed simp

lemma hash_bytes_BytesToHash: "length bs = 32 \<Longrightarrow> hash_bytes (BytesToHash bs) = bs"
  using bytes_of_fold [where ?'a = 256 and bs = bs] by (simp add: hash_bytes_def BytesToHash_def)

section \<open>Lists\<close>

definition swap :: "'a list \<Rightarrow> nat \<Rightarrow> nat \<Rightarrow> 'a list" where
  "swap xs i j = xs[i := xs ! j, j := xs ! i]"

lemma length_swap [simp]: "length (swap xs i j) = length xs"
  by (simp add: swap_def)

lemma nth_swap:
  assumes "i < length xs" "j < length xs" "k < length xs"
  shows "swap xs i j ! k = (if k = i then xs ! j else if k = j then xs ! i else xs ! k)"
  using assms by (auto simp: swap_def nth_list_update)

lemma mset_swap_bounds [simp]:
  assumes "i < length xs" "j < length xs"
  shows "mset (swap xs i j) = mset xs"
  using assms by (simp add: swap_def mset_swap)

lemma set_swap_bounds:
  assumes "i < length xs" "j < length xs"
  shows "set (swap xs i j) = set xs"
proof -
  have "set_mset (mset (swap xs i j)) = set_mset (mset xs)"
    using assms by simp
  then show ?thesis by simp
qed

lemma mset_butlast_last:
  assumes "xs \<noteq> []"
  shows "mset xs = add_mset (last xs) (mset (butlast xs))"
proof -
  have "mset xs = mset (butlast xs @ [last xs])" using assms by simp
  then show ?thesis by simp
qed

lemma mset_eq_distinct: "mset xs = mset ys \<Longrightarrow> distinct xs = distinct ys"
  by (rule mset_eq_imp_distinct_iff)

section \<open>Go maps as association lists\<close>

type_synonym ('k, 'v) gomap = "('k \<times> 'v) list"

definition gm_wf :: "('k, 'v) gomap \<Rightarrow> bool" where
  "gm_wf m \<longleftrightarrow> distinct (map fst m)"

abbreviation gm_get :: "('k, 'v) gomap \<Rightarrow> 'k \<Rightarrow> 'v option" where
  "gm_get m k \<equiv> map_of m k"

abbreviation gm_put :: "('k, 'v) gomap \<Rightarrow> 'k \<Rightarrow> 'v \<Rightarrow> ('k, 'v) gomap" where
  "gm_put m k v \<equiv> AList.update k v m"

abbreviation gm_del :: "('k, 'v) gomap \<Rightarrow> 'k \<Rightarrow> ('k, 'v) gomap" where
  "gm_del m k \<equiv> AList.delete k m"

abbreviation gm_keys :: "('k, 'v) gomap \<Rightarrow> 'k list" where
  "gm_keys m \<equiv> map fst m"

definition range_ok :: "('k list \<Rightarrow> 'k list) \<Rightarrow> bool" where
  "range_ok rng \<longleftrightarrow> (\<forall>ks. mset (rng ks) = mset ks)"

lemma range_ok_id: "range_ok (\<lambda>ks. ks)"
  by (simp add: range_ok_def)

lemma range_ok_rev: "range_ok rev"
  by (simp add: range_ok_def)

lemma range_ok_mset: "range_ok rng \<Longrightarrow> mset (rng ks) = mset ks"
  by (simp add: range_ok_def)

lemma range_ok_set: "range_ok rng \<Longrightarrow> set (rng ks) = set ks"
  using range_ok_mset mset_eq_setD by blast

lemma range_ok_length: "range_ok rng \<Longrightarrow> length (rng ks) = length ks"
  by (metis range_ok_mset size_mset)

lemma range_ok_distinct: "range_ok rng \<Longrightarrow> distinct (rng ks) = distinct ks"
  by (metis range_ok_mset mset_eq_distinct)

lemma gm_wf_Nil [simp]: "gm_wf []"
  by (simp add: gm_wf_def)

lemma gm_get_put [gomap_simps]: "gm_get (gm_put m k v) = (gm_get m)(k \<mapsto> v)"
  by (rule update_conv')

lemma gm_get_del [gomap_simps]: "gm_get (gm_del m k) = (gm_get m)(k := None)"
  by (rule delete_conv')

lemma gm_wf_put [inv_rules]: "gm_wf m \<Longrightarrow> gm_wf (gm_put m k v)"
  by (simp add: gm_wf_def distinct_update)

lemma gm_wf_del [inv_rules]: "gm_wf m \<Longrightarrow> gm_wf (gm_del m k)"
  by (simp add: gm_wf_def distinct_delete)

lemma gm_keys_put: "set (gm_keys (gm_put m k v)) = insert k (set (gm_keys m))"
  by (metis dom_map_of_conv_image_fst image_set update_conv' dom_fun_upd option.discI)

lemma gm_keys_del: "set (gm_keys (gm_del m k)) = set (gm_keys m) - {k}"
  by (metis dom_map_of_conv_image_fst image_set delete_conv' dom_fun_upd)

lemma gm_keys_dom: "set (gm_keys m) = dom (gm_get m)"
  by (simp add: dom_map_of_conv_image_fst)

lemma gm_get_None_iff: "gm_get m k = None \<longleftrightarrow> k \<notin> set (gm_keys m)"
  by (metis gm_keys_dom domIff)

lemma gm_put_fresh: "k \<notin> set (gm_keys m) \<Longrightarrow> gm_put m k v = m @ [(k, v)]"
  by (induction m) auto

lemma gm_keys_put_list:
  "gm_keys (gm_put m k v) = (if k \<in> set (gm_keys m) then gm_keys m else gm_keys m @ [k])"
  by (induction m) auto

lemma gm_keys_del_list: "gm_keys (gm_del m k) = filter (\<lambda>x. x \<noteq> k) (gm_keys m)"
  by (induction m) (auto simp: AList.delete_eq)

lemma mset_gm_keys_put:
  "mset (gm_keys (gm_put m k v)) =
     (if k \<in> set (gm_keys m) then mset (gm_keys m) else add_mset k (mset (gm_keys m)))"
  by (simp only: gm_keys_put_list) (simp del: set_map)

lemma gm_del_absent [simp]: "k \<notin> set (gm_keys m) \<Longrightarrow> gm_del m k = m"
  by (induction m) (auto simp: AList.delete_eq)

lemma mset_gm_keys_del:
  assumes "gm_wf m"
  shows "mset (gm_keys (gm_del m k)) = mset (gm_keys m) - {#k#}"
proof -
  have "filter (\<lambda>x. x \<noteq> k) (gm_keys m) = remove1 k (gm_keys m)"
    using assms by (simp add: gm_wf_def distinct_remove1_removeAll flip: removeAll_filter_not_eq)
      (metis (mono_tags, lifting) filter_cong removeAll_filter_not_eq)
  then show ?thesis by (simp only: gm_keys_del_list) simp
qed

lemma length_gm_del:
  assumes "gm_wf m" "k \<in> set (gm_keys m)"
  shows "Suc (length (gm_del m k)) = length m"
proof -
  have "size (mset (gm_keys m)) = Suc (size (mset (gm_keys m) - {#k#}))"
    using assms(2) by (metis insert_DiffM set_mset_mset size_add_mset)
  then show ?thesis
    using mset_gm_keys_del [OF assms(1), of k] by (metis length_map size_mset)
qed

lemma length_gm_put:
  "length (gm_put m k v) = (if k \<in> set (gm_keys m) then length m else Suc (length m))"
  by (induction m) auto

end
