(* ===== verification/Go_Heap.thy ===== *)
theory Go_Heap
  imports Prelude
begin

text \<open>
  The binary heap of Go's standard package \<open>container/heap\<close>, which the transaction pool, the
  priority queue \<open>prque\<close> and the block assembler build on.

  A heap is a slice; \<open>lt\<close> compares two elements (a client's \<open>Less(i, j)\<close> compares the elements
  at \<open>i\<close> and \<open>j\<close>). \<open>up\<close>, \<open>down\<close>, \<open>Init\<close>, \<open>Push\<close>, \<open>Pop\<close> and \<open>Remove\<close> are the functions of the
  package. The locale \<open>go_order\<close> is the contract the package asks of \<open>Less\<close>: a strict weak
  order. Under it every operation keeps \<open>is_heap\<close>, permutes the elements, and puts a least
  element at index 0.
\<close>

function up :: "('a \<Rightarrow> 'a \<Rightarrow> bool) \<Rightarrow> 'a list \<Rightarrow> nat \<Rightarrow> 'a list" where
  "up lt h j = (let i = (j - 1) div 2
     in if i = j \<or> \<not> lt (h ! j) (h ! i) then h else up lt (swap h i j) i)"
  by pat_completeness auto
termination
  by (relation "measure (\<lambda>(lt, h, j). j)") auto

definition down_child :: "('a \<Rightarrow> 'a \<Rightarrow> bool) \<Rightarrow> 'a list \<Rightarrow> nat \<Rightarrow> nat \<Rightarrow> nat" where
  "down_child lt h i n =
     (let j1 = 2 * i + 1 in if j1 + 1 < n \<and> lt (h ! (j1 + 1)) (h ! j1) then j1 + 1 else j1)"

lemma down_child_bounds: "2 * i + 1 < n \<Longrightarrow> i < down_child lt h i n \<and> down_child lt h i n < n"
  by (auto simp: down_child_def Let_def)

lemma down_child_parent: "(down_child lt h i n - 1) div 2 = i \<and> 0 < down_child lt h i n"
  by (auto simp: down_child_def Let_def)

function down :: "('a \<Rightarrow> 'a \<Rightarrow> bool) \<Rightarrow> 'a list \<Rightarrow> nat \<Rightarrow> nat \<Rightarrow> 'a list \<times> nat" where
  "down lt h i n =
     (if n \<le> 2 * i + 1 then (h, i)
      else if \<not> lt (h ! down_child lt h i n) (h ! i) then (h, i)
      else down lt (swap h i (down_child lt h i n)) (down_child lt h i n) n)"
  by pat_completeness auto
termination
proof (relation "measure (\<lambda>(lt, h, i, n). n - i)", goal_cases)
  case (2 lt h i n)
  then show ?case using down_child_bounds [of i n lt h] by auto
qed simp

declare up.simps [simp del] down.simps [simp del]

fun heap_init_loop :: "('a \<Rightarrow> 'a \<Rightarrow> bool) \<Rightarrow> 'a list \<Rightarrow> nat \<Rightarrow> 'a list" where
  "heap_init_loop lt h 0 = h"
| "heap_init_loop lt h (Suc i) = heap_init_loop lt (fst (down lt h i (length h))) i"

definition heap_init :: "('a \<Rightarrow> 'a \<Rightarrow> bool) \<Rightarrow> 'a list \<Rightarrow> 'a list" where
  "heap_init lt h = heap_init_loop lt h (length h div 2)"

definition heap_push :: "('a \<Rightarrow> 'a \<Rightarrow> bool) \<Rightarrow> 'a list \<Rightarrow> 'a \<Rightarrow> 'a list" where
  "heap_push lt h x = up lt (h @ [x]) (length h)"

text \<open>\<open>heap.Pop\<close> on an empty heap indexes out of range and panics: the result is \<open>None\<close>.\<close>

definition heap_pop :: "('a \<Rightarrow> 'a \<Rightarrow> bool) \<Rightarrow> 'a list \<Rightarrow> ('a \<times> 'a list) option" where
  "heap_pop lt h = (if h = [] then None
     else let n = length h - 1; h' = fst (down lt (swap h 0 n) 0 n)
          in Some (last h', butlast h'))"

definition heap_remove :: "('a \<Rightarrow> 'a \<Rightarrow> bool) \<Rightarrow> 'a list \<Rightarrow> nat \<Rightarrow> ('a \<times> 'a list) option" where
  "heap_remove lt h i = (if length h \<le> i then None
     else let n = length h - 1;
              h' = (if n = i then h
                    else let h1 = swap h i n; (h2, i') = down lt h1 i n
                         in if i' > i then h2 else up lt h2 i)
          in Some (last h', butlast h'))"

text \<open>\<open>heap.Fix(h, i)\<close> re-establishes the order after the element at \<open>i\<close> changed.\<close>

definition heap_fix :: "('a \<Rightarrow> 'a \<Rightarrow> bool) \<Rightarrow> 'a list \<Rightarrow> nat \<Rightarrow> 'a list" where
  "heap_fix lt h i = (let (h', i') = down lt h i (length h) in if i' > i then h' else up lt h' i)"

section \<open>Facts that need no order\<close>

lemma length_up [simp]: "length (up lt h j) = length h"
proof (induction lt h j rule: up.induct)
  case (1 lt h j)
  then show ?case by (subst up.simps) (simp add: Let_def)
qed

lemma mset_up: "j < length h \<Longrightarrow> mset (up lt h j) = mset h"
proof (induction lt h j rule: up.induct)
  case (1 lt h j)
  then show ?case by (subst up.simps) (auto simp: Let_def)
qed

lemma length_down [simp]: "length (fst (down lt h i n)) = length h"
proof (induction lt h i n rule: down.induct)
  case (1 lt h i n)
  then show ?case by (subst down.simps) simp
qed

lemma mset_down: "n \<le> length h \<Longrightarrow> mset (fst (down lt h i n)) = mset h"
proof (induction lt h i n rule: down.induct)
  case (1 lt h i n)
  then show ?case
    using down_child_bounds [of i n lt h] by (subst down.simps) auto
qed

lemma down_index_ge: "i \<le> snd (down lt h i n)"
proof (induction lt h i n rule: down.induct)
  case (1 lt h i n)
  then show ?case
    using down_child_bounds [of i n lt h] by (subst down.simps) auto
qed

lemma down_beyond: "n \<le> length h \<Longrightarrow> n \<le> k \<Longrightarrow> k < length h \<Longrightarrow> fst (down lt h i n) ! k = h ! k"
proof (induction lt h i n rule: down.induct)
  case (1 lt h i n)
  then show ?case
    using down_child_bounds [of i n lt h] by (subst down.simps) (auto simp: nth_swap)
qed

lemma down_stays: "snd (down lt h i n) = i \<Longrightarrow> fst (down lt h i n) = h"
proof -
  assume a: "snd (down lt h i n) = i"
  show ?thesis
  proof (cases "2 * i + 1 < n \<and> lt (h ! down_child lt h i n) (h ! i)")
    case True
    then have "down_child lt h i n \<le> snd (down lt h i n)"
      using down_index_ge by (subst down.simps) auto
    with a True down_child_bounds [of i n lt h] show ?thesis by simp
  next
    case False
    then show ?thesis by (subst down.simps) auto
  qed
qed

lemma up_beyond: "j < k \<Longrightarrow> k < length h \<Longrightarrow> up lt h j ! k = h ! k"
proof (induction lt h j rule: up.induct)
  case (1 lt h j)
  show ?case
  proof (cases "(j - 1) div 2 = j \<or> \<not> lt (h ! j) (h ! ((j - 1) div 2))")
    case False
    then have "up lt h j = up lt (swap h ((j - 1) div 2) j) ((j - 1) div 2)"
      by (subst up.simps) (simp add: Let_def)
    then show ?thesis using "1.IH" [OF refl False] "1.prems" by (simp add: nth_swap)
  qed (subst up.simps, simp)
qed

lemma length_heap_init_loop [simp]: "length (heap_init_loop lt h k) = length h"
  by (induction k arbitrary: h) auto

lemma mset_heap_init_loop: "mset (heap_init_loop lt h k) = mset h"
  by (induction k arbitrary: h) (auto simp: mset_down)

lemma mset_heap_init [heap_rules]: "mset (heap_init lt h) = mset h"
  by (simp add: heap_init_def mset_heap_init_loop)

lemma set_heap_init [heap_rules]: "set (heap_init lt h) = set h"
  by (metis mset_heap_init set_mset_mset)

lemma length_heap_init [simp]: "length (heap_init lt h) = length h"
  by (simp add: heap_init_def)

lemma mset_heap_push [heap_rules]: "mset (heap_push lt h x) = add_mset x (mset h)"
  by (simp add: heap_push_def mset_up)

lemma mset_heap_fix [heap_rules]:
  assumes "i < length h"
  shows "mset (heap_fix lt h i) = mset h"
proof -
  obtain h' i' where d: "down lt h i (length h) = (h', i')" by (metis surj_pair)
  have "mset h' = mset h" "length h' = length h"
    using mset_down [of "length h" h lt i] length_down [of lt h i "length h"] by (simp_all add: d)
  then show ?thesis using assms by (simp add: heap_fix_def d mset_up)
qed

lemma heap_pop_None_iff [heap_rules]: "heap_pop lt h = None \<longleftrightarrow> h = []"
  by (simp add: heap_pop_def Let_def)

lemma heap_pop_cases:
  assumes "heap_pop lt h = Some (x, h')"
  shows "h \<noteq> [] \<and> x = h ! 0 \<and> mset h = add_mset x (mset h') \<and> length h = Suc (length h')"
proof -
  define n where "n = length h - 1"
  define d where "d = fst (down lt (swap h 0 n) 0 n)"
  from assms have ne: "h \<noteq> []" and x: "x = last d" and h': "h' = butlast d"
    by (auto simp: heap_pop_def n_def d_def Let_def split: if_splits)
  have len: "length d = length h" by (simp add: d_def)
  have n: "n < length h" "0 < length h" using ne by (simp_all add: n_def)
  have "d ! n = h ! 0"
    using n by (simp add: d_def down_beyond nth_swap)
  then have "last d = h ! 0"
    using len ne by (simp add: last_conv_nth n_def flip: length_greater_0_conv)
  moreover have "mset d = mset h"
    using n by (simp add: d_def mset_down)
  moreover have "d \<noteq> []" using len ne by auto
  ultimately show ?thesis
    using ne x h' len mset_butlast_last [of d] by simp
qed

section \<open>The heap order\<close>

definition is_heap :: "('a \<Rightarrow> 'a \<Rightarrow> bool) \<Rightarrow> 'a list \<Rightarrow> bool" where
  "is_heap lt h \<longleftrightarrow> (\<forall>c < length h. 0 < c \<longrightarrow> \<not> lt (h ! c) (h ! ((c - 1) div 2)))"

text \<open>The edges of the tree above nodes of index at least \<open>k\<close> are ordered, except those in \<open>X\<close>.\<close>

definition edges_ok :: "('a \<Rightarrow> 'a \<Rightarrow> bool) \<Rightarrow> 'a list \<Rightarrow> nat \<Rightarrow> nat \<Rightarrow> nat set \<Rightarrow> bool" where
  "edges_ok lt h k n X \<longleftrightarrow>
     (\<forall>c. 0 < c \<longrightarrow> c < n \<longrightarrow> k \<le> (c - 1) div 2 \<longrightarrow> c \<notin> X \<longrightarrow> \<not> lt (h ! c) (h ! ((c - 1) div 2)))"

definition grand_ok :: "('a \<Rightarrow> 'a \<Rightarrow> bool) \<Rightarrow> 'a list \<Rightarrow> nat \<Rightarrow> nat \<Rightarrow> nat \<Rightarrow> bool" where
  "grand_ok lt h k n i \<longleftrightarrow>
     (0 < i \<longrightarrow> k \<le> (i - 1) div 2 \<longrightarrow>
       (\<forall>c. 0 < c \<longrightarrow> c < n \<longrightarrow> (c - 1) div 2 = i \<longrightarrow> \<not> lt (h ! c) (h ! ((i - 1) div 2))))"

abbreviation children :: "nat \<Rightarrow> nat set" where
  "children i \<equiv> {2 * i + 1, 2 * i + 2}"

lemma parent_iff: "0 < c \<Longrightarrow> (c - 1) div 2 = i \<longleftrightarrow> c \<in> children i"
  by auto

lemma is_heap_edges: "is_heap lt h \<longleftrightarrow> edges_ok lt h 0 (length h) {}"
  by (auto simp: is_heap_def edges_ok_def)

lemma is_heap_Nil [simp]: "is_heap lt []"
  by (simp add: is_heap_def)

lemma edges_okD:
  "edges_ok lt h k n X \<Longrightarrow> 0 < c \<Longrightarrow> c < n \<Longrightarrow> k \<le> (c - 1) div 2 \<Longrightarrow> c \<notin> X \<Longrightarrow>
     \<not> lt (h ! c) (h ! ((c - 1) div 2))"
  by (simp add: edges_ok_def)

lemma edges_ok_mono: "edges_ok lt h k n X \<Longrightarrow> X \<subseteq> Y \<Longrightarrow> edges_ok lt h k n Y"
  by (auto simp: edges_ok_def)

section \<open>Clients whose \<open>Less\<close> is a strict weak order\<close>

locale go_order =
  fixes lt :: "'a \<Rightarrow> 'a \<Rightarrow> bool"
  assumes asym: "lt x y \<Longrightarrow> \<not> lt y x"
    and neg_trans: "\<not> lt x y \<Longrightarrow> \<not> lt y z \<Longrightarrow> \<not> lt x z"
begin

lemma irrefl: "\<not> lt x x"
  using asym by blast

lemma down_child_least:
  assumes "2 * i + 1 < n" "0 < c" "c < n" "(c - 1) div 2 = i"
  shows "\<not> lt (h ! c) (h ! down_child lt h i n)"
proof -
  have "c = 2 * i + 1 \<or> c = 2 * i + 2" using assms(2,4) by arith
  then show ?thesis
    using assms asym irrefl by (auto simp: down_child_def Let_def)
qed

lemma down_edges_step:
  assumes ok: "edges_ok lt h k n ({i} \<union> children i)" and grand: "grand_ok lt h k n i"
    and j: "j = down_child lt h i n" and lt: "lt (h ! j) (h ! i)"
    and n: "2 * i + 1 < n" "n \<le> length h"
  shows "edges_ok lt (swap h i j) k n (children j)" "grand_ok lt (swap h i j) k n j"
proof -
  have b: "i < j" "j < n" and par: "(j - 1) div 2 = i" "0 < j"
    using down_child_bounds [OF n(1), of lt h] down_child_parent [of lt h i n] by (simp_all add: j)
  have sw: "swap h i j ! m = (if m = i then h ! j else if m = j then h ! i else h ! m)" if "m < n" for m
    using that b n by (simp add: nth_swap)
  show "edges_ok lt (swap h i j) k n (children j)"
    unfolding edges_ok_def
  proof (intro allI impI)
    fix c assume c: "0 < c" "c < n" "k \<le> (c - 1) div 2" "c \<notin> children j"
    then have pj: "(c - 1) div 2 \<noteq> j" using parent_iff [of c j] by simp
    have pc: "(c - 1) div 2 < n" using c by arith
    consider (child) "(c - 1) div 2 = i" | (top) "c = i" | (other) "(c - 1) div 2 \<noteq> i" "c \<noteq> i"
      by blast
    then show "\<not> lt (swap h i j ! c) (swap h i j ! ((c - 1) div 2))"
    proof cases
      case child
      then have ci: "c \<noteq> i" using c by arith
      show ?thesis
        using down_child_least [OF n(1) c(1,2) child, of h] asym [OF lt] child ci b pc c(2)
        by (simp add: sw [of c] sw [of i] flip: j)
    next
      case top
      then have "\<not> lt (h ! j) (h ! ((i - 1) div 2))"
        using grand c par b by (simp add: grand_ok_def)
      then show ?thesis using top c pc b by (simp add: sw) arith
    next
      case other
      then have "c \<noteq> j" using par by blast
      moreover have "c \<notin> children i" using other c parent_iff [of c i] by simp
      ultimately show ?thesis
        using edges_okD [OF ok c(1-3)] other c pc pj by (simp add: sw)
    qed
  qed
  show "grand_ok lt (swap h i j) k n j"
    unfolding grand_ok_def
  proof (intro impI allI)
    fix c assume "k \<le> (j - 1) div 2" and c: "0 < c" "c < n" "(c - 1) div 2 = j"
    have "c \<noteq> i" "c \<noteq> j" using c b by arith+
    moreover have "c \<notin> children i" using c par(2) b parent_iff [of c i] by force
    moreover have "k \<le> (c - 1) div 2" using \<open>k \<le> (j - 1) div 2\<close> par b c by simp
    ultimately have "\<not> lt (h ! c) (h ! j)"
      using edges_okD [OF ok c(1,2)] c(3) by auto
    then show "\<not> lt (swap h i j ! c) (swap h i j ! ((j - 1) div 2))"
      using b c par \<open>c \<noteq> i\<close> \<open>c \<noteq> j\<close> by (simp add: sw)
  qed
qed

lemma down_edges:
  assumes "edges_ok lt h k n (X \<union> children i)" "X \<subseteq> {i}" "grand_ok lt h k n i" "n \<le> length h"
  shows "edges_ok lt (fst (down lt h i n)) k n (if i < snd (down lt h i n) then {} else X)"
  using assms
proof (induction "n - i" arbitrary: h i X rule: less_induct)
  case less
  define j where "j = down_child lt h i n"
  show ?case
  proof (cases "2 * i + 1 < n \<and> lt (h ! j) (h ! i)")
    case True
    then have d: "down lt h i n = down lt (swap h i j) j n"
      by (subst down.simps) (simp add: j_def)
    have b: "i < j" "j < n" using True down_child_bounds by (auto simp: j_def)
    have "edges_ok lt h k n ({i} \<union> children i)"
      by (rule edges_ok_mono [OF less.prems(1)]) (use less.prems(2) in auto)
    then have e: "edges_ok lt (swap h i j) k n (children j)" and g: "grand_ok lt (swap h i j) k n j"
      using down_edges_step [OF _ less.prems(3) j_def _ _ less.prems(4)] True by auto
    have le: "i < snd (down lt (swap h i j) j n)"
      using b down_index_ge [of j] by (meson less_le_trans)
    have "edges_ok lt (fst (down lt (swap h i j) j n)) k n
        (if j < snd (down lt (swap h i j) j n) then {} else {})"
      by (rule less.hyps) (use b e g less.prems(4) in auto)
    then show ?thesis using le by (simp add: d)
  next
    case False
    then have d: "down lt h i n = (h, i)"
      by (subst down.simps) (auto simp: j_def)
    have "edges_ok lt h k n X"
      unfolding edges_ok_def
    proof (intro allI impI)
      fix c assume c: "0 < c" "c < n" "k \<le> (c - 1) div 2" "c \<notin> X"
      show "\<not> lt (h ! c) (h ! ((c - 1) div 2))"
      proof (cases "(c - 1) div 2 = i")
        case True
        then have n: "2 * i + 1 < n" using c by arith
        then have "\<not> lt (h ! c) (h ! j)"
          using down_child_least [OF n c(1,2) True] by (simp add: j_def)
        then show ?thesis using False n True neg_trans by blast
      next
        case False
        then have "c \<notin> X \<union> children i" using c parent_iff [of c i] by simp
        then show ?thesis using edges_okD [OF less.prems(1)] c by blast
      qed
    qed
    then show ?thesis by (simp add: d)
  qed
qed

lemma up_edges:
  assumes "edges_ok lt h 0 (length h) {j}" "grand_ok lt h 0 (length h) j" "j < length h"
  shows "is_heap lt (up lt h j)"
  using assms
proof (induction j arbitrary: h rule: less_induct)
  case (less j)
  define i where "i = (j - 1) div 2"
  show ?case
  proof (cases "i = j \<or> \<not> lt (h ! j) (h ! i)")
    case True
    then have "up lt h j = h" by (subst up.simps) (simp add: i_def)
    moreover have "edges_ok lt h 0 (length h) {}"
      using less.prems(1) True irrefl by (auto simp: edges_ok_def i_def)
    ultimately show ?thesis by (simp add: is_heap_edges)
  next
    case False
    then have u: "up lt h j = up lt (swap h i j) i" by (subst up.simps) (simp add: i_def Let_def)
    have b: "i < j" "0 < j" using False by (auto simp: i_def)
    have sw: "swap h i j ! m = (if m = i then h ! j else if m = j then h ! i else h ! m)"
      if "m < length h" for m
      using that b less.prems(3) by (simp add: nth_swap)
    have "edges_ok lt (swap h i j) 0 (length h) {i}"
      unfolding edges_ok_def
    proof (intro allI impI)
      fix c assume c: "0 < c" "c < length h" "c \<notin> {i}"
      define p where "p = (c - 1) div 2"
      have p: "p < length h" using c by (simp add: p_def)
      consider "c = j" | "p = j" | "c \<noteq> j" "p \<noteq> j" "p = i" | "c \<noteq> j" "p \<noteq> j" "p \<noteq> i" by blast
      then have "\<not> lt (swap h i j ! c) (swap h i j ! p)"
      proof cases
        case 1
        then have "p = i" by (simp add: i_def p_def)
        then show ?thesis
          using 1 False c b asym [of "h ! j" "h ! i"] by (simp add: sw)
      next
        case 2
        have "\<not> lt (h ! c) (h ! i)"
          using less.prems(2) c 2 b by (auto simp: grand_ok_def i_def p_def)
        moreover have "c \<noteq> j" using 2 c by (auto simp: p_def)
        ultimately show ?thesis using 2 c p b by (simp add: sw)
      next
        case 3
        have "\<not> lt (h ! c) (h ! i)"
          using edges_okD [OF less.prems(1) c(1,2)] 3 by (simp add: p_def)
        then show ?thesis using 3 c p b False asym [of "h ! j" "h ! i"] neg_trans [of "h ! c" "h ! i" "h ! j"] by (simp add: sw)
      next
        case 4
        then show ?thesis
          using edges_okD [OF less.prems(1) c(1,2)] c p by (simp add: sw p_def)
      qed
      then show "\<not> lt (swap h i j ! c) (swap h i j ! ((c - 1) div 2))" by (simp add: p_def)
    qed
    moreover have "grand_ok lt (swap h i j) 0 (length h) i"
      unfolding grand_ok_def
    proof (intro impI allI)
      fix c assume i: "0 < i" and c: "0 < c" "c < length h" "(c - 1) div 2 = i"
      define q where "q = (i - 1) div 2"
      have q: "q < i" using i by (simp add: q_def)
      have top: "\<not> lt (h ! i) (h ! q)"
        using edges_okD [OF less.prems(1), of i] i b less.prems(3) by (simp add: q_def)
      have "\<not> lt (h ! c) (h ! q)" if "c \<noteq> j"
        using edges_okD [OF less.prems(1) c(1,2)] c(3) that top neg_trans by auto
      then show "\<not> lt (swap h i j ! c) (swap h i j ! ((i - 1) div 2))"
        using top c q b less.prems(3) unfolding q_def [symmetric] by (auto simp: sw)
    qed
    ultimately show ?thesis
      using less.IH [OF b(1), of "swap h i j"] b less.prems(3) by (simp add: u)
  qed
qed

lemma is_heap_init [heap_rules]: "is_heap lt (heap_init lt h)"
proof -
  have "edges_ok lt h k (length h) {} \<Longrightarrow> edges_ok lt (heap_init_loop lt h k) 0 (length h) {}" for k
  proof (induction k arbitrary: h)
    case (Suc i)
    have "edges_ok lt h i (length h) ({} \<union> children i)"
      unfolding edges_ok_def
    proof (intro allI impI)
      fix c assume c: "0 < c" "c < length h" "i \<le> (c - 1) div 2" "c \<notin> {} \<union> children i"
      then have "Suc i \<le> (c - 1) div 2" using parent_iff [of c i] by auto
      then show "\<not> lt (h ! c) (h ! ((c - 1) div 2))" using edges_okD [OF Suc.prems] c by blast
    qed
    moreover have "grand_ok lt h i (length h) i" by (simp add: grand_ok_def)
    ultimately have "edges_ok lt (fst (down lt h i (length h))) i (length h) {}"
      using down_edges [of h i "length h" "{}" i] by (auto split: if_splits)
    then show ?case using Suc.IH [of "fst (down lt h i (length h))"] by simp
  qed simp
  moreover have "edges_ok lt h (length h div 2) (length h) {}"
    by (auto simp: edges_ok_def)
  ultimately show ?thesis
    by (simp add: is_heap_edges heap_init_def)
qed

lemma is_heap_push [heap_rules]:
  assumes "is_heap lt h"
  shows "is_heap lt (heap_push lt h x)"
  unfolding heap_push_def
proof (rule up_edges)
  show "edges_ok lt (h @ [x]) 0 (length (h @ [x])) {length h}"
    using assms by (auto simp: edges_ok_def is_heap_def nth_append)
  show "grand_ok lt (h @ [x]) 0 (length (h @ [x])) (length h)"
    by (auto simp: grand_ok_def)
qed simp

lemma is_heap_butlast:
  assumes "edges_ok lt h 0 (length h - 1) {}"
  shows "is_heap lt (butlast h)"
  using assms by (auto simp: is_heap_def edges_ok_def nth_butlast)

lemma is_heap_pop [heap_rules]:
  assumes "is_heap lt h" "heap_pop lt h = Some (x, h')"
  shows "is_heap lt h'"
proof -
  define n where "n = length h - 1"
  define d where "d = down lt (swap h 0 n) 0 n"
  have ne: "h \<noteq> []" and h': "h' = butlast (fst d)"
    using assms(2) by (auto simp: heap_pop_def n_def d_def Let_def split: if_splits)
  have "edges_ok lt (swap h 0 n) 0 n ({} \<union> children 0)"
    unfolding edges_ok_def
  proof (intro allI impI)
    fix c assume c: "0 < c" "c < n" "c \<notin> {} \<union> children 0"
    have "(c - 1) div 2 \<noteq> 0" using c parent_iff [of c 0] by simp
    moreover have "(c - 1) div 2 < n" using c by arith
    ultimately show "\<not> lt (swap h 0 n ! c) (swap h 0 n ! ((c - 1) div 2))"
      using assms(1) c ne by (simp add: is_heap_def n_def nth_swap)
  qed
  then have "edges_ok lt (fst d) 0 n {}"
    using down_edges [of "swap h 0 n" 0 n "{}" 0]
    by (auto simp: d_def n_def grand_ok_def split: if_splits)
  then show ?thesis
    unfolding h' by (intro is_heap_butlast) (simp add: d_def n_def)
qed

lemma heap_head_least [heap_rules]:
  assumes "is_heap lt h" "y \<in> set h"
  shows "\<not> lt y (h ! 0)"
proof -
  have "c < length h \<Longrightarrow> \<not> lt (h ! c) (h ! 0)" for c
  proof (induction c rule: less_induct)
    case (less c)
    show ?case
    proof (cases "c = 0")
      case False
      then have p: "(c - 1) div 2 < c" by arith
      then have "\<not> lt (h ! c) (h ! ((c - 1) div 2))"
        using assms(1) less.prems False by (simp add: is_heap_def)
      moreover have "\<not> lt (h ! ((c - 1) div 2)) (h ! 0)"
        using less.IH [OF p] p less.prems by linarith
      ultimately show ?thesis using neg_trans by blast
    qed (simp add: irrefl)
  qed
  then show ?thesis using assms(2) by (metis in_set_conv_nth)
qed

lemma heap_pop_least [heap_rules]:
  assumes "is_heap lt h" "heap_pop lt h = Some (x, h')"
  shows "\<forall>y \<in> set h'. \<not> lt y x"
  using assms heap_pop_cases [OF assms(2)] heap_head_least [OF assms(1)]
  by (metis set_mset_mset union_iff set_mset_add_mset_insert insertCI)

lemma remove_edges:
  assumes "is_heap lt h" "i < n" "n = length h - 1" "h1 = swap h i n"
  shows "edges_ok lt h1 0 n ({i} \<union> children i)" "grand_ok lt h1 0 n i"
proof -
  have sw: "h1 ! m = (if m = i then h ! n else h ! m)" if "m < n" for m
    using that assms by (simp add: nth_swap)
  show "edges_ok lt h1 0 n ({i} \<union> children i)"
    unfolding edges_ok_def
  proof (intro allI impI)
    fix c assume c: "0 < c" "c < n" "c \<notin> {i} \<union> children i"
    have "(c - 1) div 2 \<noteq> i" using c parent_iff [of c i] by simp
    moreover have "(c - 1) div 2 < n" using c by arith
    ultimately show "\<not> lt (h1 ! c) (h1 ! ((c - 1) div 2))"
      using assms(1,3) c by (simp add: is_heap_def sw)
  qed
  show "grand_ok lt h1 0 n i"
    unfolding grand_ok_def
  proof (intro impI allI)
    fix c assume i: "0 < i" and c: "0 < c" "c < n" "(c - 1) div 2 = i"
    have "c < length h" "i < length h" using assms(2,3) c by simp_all
    then have "\<not> lt (h ! c) (h ! i)" and "\<not> lt (h ! i) (h ! ((i - 1) div 2))"
      using assms(1) c i unfolding is_heap_def by blast+
    moreover have "c \<noteq> i" "(i - 1) div 2 \<noteq> i" "(i - 1) div 2 < n" using c i by arith+
    ultimately show "\<not> lt (h1 ! c) (h1 ! ((i - 1) div 2))"
      using c neg_trans [of "h ! c" "h ! i" "h ! ((i - 1) div 2)"] by (simp add: sw)
  qed
qed

lemma edges_restrict_heap:
  "edges_ok lt h 0 n {} \<Longrightarrow> n = length h - 1 \<Longrightarrow> is_heap lt (butlast h)"
  using is_heap_butlast by blast

lemma up_butlast:
  assumes "i < n" "n = length h - 1"
  shows "up lt (butlast h) i = butlast (up lt h i)"
  using assms
proof (induction i arbitrary: h rule: less_induct)
  case (less i)
  define p where "p = (i - 1) div 2"
  have pn: "p \<le> i" by (simp add: p_def)
  have nth: "butlast h ! i = h ! i" "butlast h ! p = h ! p"
    using less.prems pn by (simp_all add: nth_butlast)
  show ?case
  proof (cases "p = i \<or> \<not> lt (h ! i) (h ! p)")
    case True
    then have "up lt h i = h" by (subst up.simps) (simp add: p_def)
    moreover have "up lt (butlast h) i = butlast h"
      using True nth by (subst up.simps) (simp add: p_def)
    ultimately show ?thesis by simp
  next
    case False
    have "up lt (butlast h) i = up lt (swap (butlast h) p i) p"
      using False nth by (subst up.simps) (simp add: p_def Let_def)
    also have "swap (butlast h) p i = butlast (swap h p i)"
      using less.prems pn nth by (simp add: swap_def butlast_list_update)
    also have "up lt \<dots> p = butlast (up lt (swap h p i) p)"
      using less.IH [of p "swap h p i"] False pn less.prems by simp
    also have "up lt (swap h p i) p = up lt h i"
      using False by (subst (2) up.simps) (simp add: p_def Let_def)
    finally show ?thesis .
  qed
qed

lemma is_heap_remove [heap_rules]:
  assumes heap: "is_heap lt h" and rem: "heap_remove lt h i = Some (x, h')"
  shows "is_heap lt h'"
proof -
  define n where "n = length h - 1"
  have i: "i < length h" using rem by (auto simp: heap_remove_def split: if_splits)
  show ?thesis
  proof (cases "n = i")
    case True
    then have "h' = butlast h" using rem by (auto simp: heap_remove_def n_def Let_def split: if_splits)
    then show ?thesis
      using heap edges_restrict_heap [OF _ n_def] by (auto simp: is_heap_def edges_ok_def n_def)
  next
    case False
    define h1 where "h1 = swap h i n"
    define d where "d = down lt h1 i n"
    have "i < n" "n \<le> length h1" using i False by (auto simp: n_def h1_def)
    note e = remove_edges [OF heap \<open>i < n\<close> n_def h1_def]
    have ed: "edges_ok lt (fst d) 0 n (if i < snd d then {} else {i})"
      using down_edges [OF e(1) _ e(2) \<open>n \<le> length h1\<close>] by (simp add: d_def)
    have len: "length (fst d) = length h" by (simp add: d_def h1_def)
    have h': "h' = butlast (if snd d > i then fst d else up lt (fst d) i)"
      using rem i False by (auto simp: heap_remove_def n_def d_def h1_def Let_def split: prod.splits if_splits)
    show ?thesis
    proof (cases "i < snd d")
      case True
      then show ?thesis using ed len h' edges_restrict_heap [of "fst d" n] by (simp add: n_def)
    next
      case stay: False
      then have "fst d = h1" using down_stays [of lt h1 i n] down_index_ge [of i lt h1 n]
        by (simp add: d_def)
      have lb: "length (butlast (fst d)) = n" using len by (simp add: n_def)
      have nb: "m < n \<Longrightarrow> butlast (fst d) ! m = fst d ! m" for m
        using lb by (simp add: nth_butlast)
      have "is_heap lt (up lt (butlast (fst d)) i)"
      proof (rule up_edges)
        show "edges_ok lt (butlast (fst d)) 0 (length (butlast (fst d))) {i}"
          using ed stay unfolding edges_ok_def lb
          by (auto simp: nb)
        show "grand_ok lt (butlast (fst d)) 0 (length (butlast (fst d))) i"
          using e(2) \<open>i < n\<close> unfolding grand_ok_def lb \<open>fst d = h1\<close> [symmetric]
          by (auto simp: nb)
        show "i < length (butlast (fst d))" using lb \<open>i < n\<close> by simp
      qed
      then show ?thesis
        using up_butlast [OF \<open>i < n\<close>, of "fst d"] len stay h' by (simp add: n_def)
    qed
  qed
qed

lemma is_heap_fix [heap_rules]:
  assumes heap: "is_heap lt h" and i: "i < length h"
  shows "is_heap lt (heap_fix lt (h[i := x]) i)"
proof -
  define g where "g = h[i := x]"
  define d where "d = down lt g i (length g)"
  have len: "length g = length h" by (simp add: g_def)
  have gn: "g ! c = (if c = i then x else h ! c)" if "c < length h" for c
    using that by (simp add: g_def nth_list_update)
  have e: "edges_ok lt g 0 (length g) ({i} \<union> children i)"
    unfolding edges_ok_def
  proof (intro allI impI)
    fix c assume c: "0 < c" "c < length g" "c \<notin> {i} \<union> children i"
    have "(c - 1) div 2 \<noteq> i" using c parent_iff [of c i] by simp
    moreover have "(c - 1) div 2 < length h" using c len by linarith
    ultimately show "\<not> lt (g ! c) (g ! ((c - 1) div 2))"
      using heap c len by (simp add: is_heap_def gn)
  qed
  have gr: "grand_ok lt g 0 (length g) i"
    unfolding grand_ok_def
  proof (intro impI allI)
    fix c assume i0: "0 < i" and c: "0 < c" "c < length g" "(c - 1) div 2 = i"
    have "c < length h" using c len by simp
    then have "\<not> lt (h ! c) (h ! i)"
      using heap c unfolding is_heap_def by blast
    moreover have "\<not> lt (h ! i) (h ! ((i - 1) div 2))"
      using heap i i0 unfolding is_heap_def by blast
    moreover have "c \<noteq> i" "(i - 1) div 2 \<noteq> i" "(i - 1) div 2 < length h" using c i0 i by arith+
    ultimately show "\<not> lt (g ! c) (g ! ((i - 1) div 2))"
      using c len neg_trans [of "h ! c" "h ! i" "h ! ((i - 1) div 2)"] by (simp add: gn)
  qed
  have ed: "edges_ok lt (fst d) 0 (length g) (if i < snd d then {} else {i})"
    using down_edges [OF e _ gr] by (simp add: d_def)
  show ?thesis
  proof (cases "i < snd d")
    case True
    then have "heap_fix lt g i = fst d" by (cases d) (simp add: heap_fix_def flip: d_def)
    then show ?thesis
      using True ed by (simp add: is_heap_edges d_def flip: g_def)
  next
    case False
    then have st: "fst d = g" using down_stays [of lt g i "length g"] down_index_ge [of i lt g "length g"]
      by (simp add: d_def)
    then have "heap_fix lt g i = up lt g i"
      using False by (cases d) (simp add: heap_fix_def flip: d_def)
    then show ?thesis
      using up_edges [of g i] ed False st gr i len by (simp flip: g_def)
  qed
qed

end

lemma heap_remove_cases:
  assumes "heap_remove lt h i = Some (x, h')"
  shows "i < length h \<and> x = h ! i \<and> mset h = add_mset x (mset h')"
proof -
  define n where "n = length h - 1"
  define g where "g = (if n = i then h else let h1 = swap h i n; (h2, i') = down lt h1 i n
                         in if i' > i then h2 else up lt h2 i)"
  have i: "i < length h" and g: "x = last g" "h' = butlast g"
    using assms by (auto simp: heap_remove_def g_def n_def Let_def split: if_splits)
  have n: "n < length h" "n \<noteq> i \<Longrightarrow> i < n" using i by (auto simp: n_def)
  have len: "length g = length h"
    by (simp add: g_def Let_def split: prod.split) (metis fst_conv length_down length_swap)
  have ms: "mset g = mset h"
  proof (cases "n = i")
    case False
    obtain h2 i' where d: "down lt (swap h i n) i n = (h2, i')" by (metis surj_pair)
    have "mset h2 = mset h" "length h2 = length h"
      using mset_down [of n "swap h i n" lt i] length_down [of lt "swap h i n" i n] n i
      by (simp_all add: d)
    then show ?thesis using False i by (simp add: g_def d mset_up)
  qed (simp add: g_def)
  have "g ! n = h ! i"
  proof (cases "n = i")
    case False
    obtain h2 i' where d: "down lt (swap h i n) i n = (h2, i')" by (metis surj_pair)
    have "h2 ! n = h ! i"
      using down_beyond [of n "swap h i n" n lt i] n i by (simp add: d nth_swap)
    moreover have "length h2 = length h"
      using length_down [of lt "swap h i n" i n] by (simp add: d)
    ultimately show ?thesis
      using False n i by (simp add: g_def d up_beyond)
  qed (simp add: g_def)
  moreover have "g \<noteq> []" using len i by auto
  ultimately show ?thesis
    using g i ms len mset_butlast_last [of g] by (simp add: last_conv_nth n_def)
qed

end
