(* ===== verification/Transactions.thy ===== *)
theory Transactions
  imports Go_Heap
begin

text \<open>
  Transactions (\<open>core/types/transaction.go\<close>): the fields of \<open>txdata\<close>, the derived cost, the
  difference of two lists, and the order in which the block assembler draws transactions from
  the pool (\<open>TransactionsByPriceAndNonce\<close>).

  The hash of a transaction (\<open>rlpHash\<close>, third-party RLP and Keccak) is a parameter \<open>txhash\<close>; the
  sender recovered from the signature (third-party secp256k1) is a parameter \<open>sender\<close> that
  returns \<open>None\<close> when recovery fails.
\<close>

record transaction =
  AccountNonce :: u64
  Price :: bigint
  GasLimit :: u64
  Recipient :: "address option"
  Amount :: bigint
  Payload :: bytes
  sigV :: bigint
  sigR :: bigint
  sigS :: bigint

type_synonym txptr = "transaction option"

definition newTransaction ::
  "u64 \<Rightarrow> address option \<Rightarrow> bigint option \<Rightarrow> u64 \<Rightarrow> bigint option \<Rightarrow> bytes \<Rightarrow> transaction" where
  "newTransaction nonce to amount gasLimit gasPrice data =
     \<lparr>AccountNonce = nonce,
      Price = (case gasPrice of None \<Rightarrow> 0 | Some p \<Rightarrow> p),
      GasLimit = gasLimit,
      Recipient = to,
      Amount = (case amount of None \<Rightarrow> 0 | Some a \<Rightarrow> a),
      Payload = data,
      sigV = 0, sigR = 0, sigS = 0\<rparr>"

definition isProtectedV :: "bigint \<Rightarrow> bool" where
  "isProtectedV v = (if \<bar>v\<bar> < 2 ^ 8 then \<bar>v\<bar> \<noteq> 27 \<and> \<bar>v\<bar> \<noteq> 28 else True)"

definition Cost :: "transaction \<Rightarrow> bigint" where
  "Cost tx = Price tx * uint (GasLimit tx) + Amount tx"

definition TxDifference :: "(transaction \<Rightarrow> hash) \<Rightarrow> transaction list \<Rightarrow> transaction list \<Rightarrow> transaction list" where
  "TxDifference txhash a b =
     (let remove = fold (\<lambda>tx r. insert (txhash tx) r) b {}
      in filter (\<lambda>tx. txhash tx \<notin> remove) a)"

record message =
  m_to :: "address option"
  m_from :: address
  m_nonce :: u64
  m_amount :: bigint
  m_gasLimit :: u64
  m_gasPrice :: bigint
  m_data :: bytes
  m_checkNonce :: bool

definition NewMessage ::
  "address \<Rightarrow> address option \<Rightarrow> u64 \<Rightarrow> bigint \<Rightarrow> u64 \<Rightarrow> bigint \<Rightarrow> bytes \<Rightarrow> bool \<Rightarrow> message" where
  "NewMessage from to nonce amount gasLimit gasPrice data checkNonce =
     \<lparr>m_to = to, m_from = from, m_nonce = nonce, m_amount = amount, m_gasLimit = gasLimit,
      m_gasPrice = gasPrice, m_data = data, m_checkNonce = checkNonce\<rparr>"

definition AsMessage :: "(transaction \<Rightarrow> address option) \<Rightarrow> transaction \<Rightarrow> message option" where
  "AsMessage sender tx = (case sender tx of None \<Rightarrow> None
     | Some from \<Rightarrow> Some (NewMessage from (Recipient tx) (AccountNonce tx) (Amount tx) (GasLimit tx)
                           (Price tx) (Payload tx) True))"

section \<open>Sorting by nonce\<close>

text \<open>\<open>sort.Sort(TxByNonce(txs))\<close>. The standard sort is not stable; the lists it is used on have
  pairwise different nonces, so its result is the one sorted list.\<close>

definition TxByNonce :: "transaction list \<Rightarrow> transaction list" where
  "TxByNonce txs = sort_key AccountNonce txs"

section \<open>Price heap and the block assembler's queue\<close>

definition TxByPrice_Less :: "transaction \<Rightarrow> transaction \<Rightarrow> bool" where
  "TxByPrice_Less a b \<longleftrightarrow> Price a > Price b"

record price_nonce_txs =
  pn_txs :: "(address, transaction list) gomap"
  pn_heads :: "transaction list"

definition sender_or_zero :: "(transaction \<Rightarrow> address option) \<Rightarrow> transaction \<Rightarrow> address" where
  "sender_or_zero sender tx = (case sender tx of None \<Rightarrow> 0 | Some a \<Rightarrow> a)"

text \<open>The loop of \<open>NewTransactionsByPriceAndNonce\<close> over the accounts; \<open>accTxs[0]\<close> panics on an empty
  list, which is \<open>None\<close>.\<close>

fun new_heads ::
  "(transaction \<Rightarrow> address option) \<Rightarrow> address list \<Rightarrow> (address, transaction list) gomap \<Rightarrow> transaction list \<Rightarrow>
     (transaction list \<times> (address, transaction list) gomap) option" where
  "new_heads sender [] txs heads = Some (heads, txs)"
| "new_heads sender (from # froms) txs heads =
     (case gm_get txs from of
        None \<Rightarrow> new_heads sender froms txs heads
      | Some [] \<Rightarrow> None
      | Some (tx # rest) \<Rightarrow>
          let acc = sender_or_zero sender tx; txs' = gm_put txs acc rest
          in new_heads sender froms (if from \<noteq> acc then gm_del txs' from else txs') (heads @ [tx]))"

definition NewTransactionsByPriceAndNonce ::
  "(address list \<Rightarrow> address list) \<Rightarrow> (transaction \<Rightarrow> address option) \<Rightarrow> (address, transaction list) gomap \<Rightarrow>
     price_nonce_txs option" where
  "NewTransactionsByPriceAndNonce rng sender txs =
     (case new_heads sender (rng (gm_keys txs)) txs [] of
        None \<Rightarrow> None
      | Some (heads, txs') \<Rightarrow> Some \<lparr>pn_txs = txs', pn_heads = heap_init TxByPrice_Less heads\<rparr>)"

definition Peek :: "price_nonce_txs \<Rightarrow> txptr" where
  "Peek t = (case pn_heads t of [] \<Rightarrow> None | h # _ \<Rightarrow> Some h)"

definition Shift :: "(transaction \<Rightarrow> address option) \<Rightarrow> price_nonce_txs \<Rightarrow> price_nonce_txs option" where
  "Shift sender t =
     (case pn_heads t of [] \<Rightarrow> None
      | h # _ \<Rightarrow>
          let acc = sender_or_zero sender h
          in (case gm_get (pn_txs t) acc of
               Some (tx # rest) \<Rightarrow>
                 Some (t\<lparr>pn_heads := heap_fix TxByPrice_Less ((pn_heads t)[0 := tx]) 0,
                         pn_txs := gm_put (pn_txs t) acc rest\<rparr>)
             | _ \<Rightarrow> map_option (\<lambda>(_, hs). t\<lparr>pn_heads := hs\<rparr>) (heap_pop TxByPrice_Less (pn_heads t))))"

definition Pop :: "price_nonce_txs \<Rightarrow> price_nonce_txs option" where
  "Pop t = map_option (\<lambda>(_, hs). t\<lparr>pn_heads := hs\<rparr>) (heap_pop TxByPrice_Less (pn_heads t))"

section \<open>Properties\<close>

interpretation price_desc: go_order TxByPrice_Less
  by unfold_locales (auto simp: TxByPrice_Less_def)

lemma TxDifference_filter: "TxDifference txhash a b = filter (\<lambda>tx. txhash tx \<notin> txhash ` set b) a"
proof -
  have "fold (\<lambda>tx r. insert (txhash tx) r) b r0 = r0 \<union> txhash ` set b" for r0
    by (induction b arbitrary: r0) auto
  then show ?thesis by (simp add: TxDifference_def)
qed

lemma sorted_TxByNonce: "sorted (map AccountNonce (TxByNonce txs))"
  by (simp add: TxByNonce_def)

lemma mset_TxByNonce: "mset (TxByNonce txs) = mset txs"
  by (simp add: TxByNonce_def)

text \<open>What is still to be drawn: the heads and the queued transactions of every account.\<close>

definition pn_remaining :: "price_nonce_txs \<Rightarrow> transaction multiset" where
  "pn_remaining t = mset (pn_heads t) + mset (concat (map snd (pn_txs t)))"

definition pn_inv :: "(transaction \<Rightarrow> address option) \<Rightarrow> price_nonce_txs \<Rightarrow> bool" where
  "pn_inv sender t \<longleftrightarrow> gm_wf (pn_txs t) \<and> is_heap TxByPrice_Less (pn_heads t)
     \<and> distinct (map (sender_or_zero sender) (pn_heads t))
     \<and> (\<forall>(a, l) \<in> set (pn_txs t). \<forall>tx \<in> set l. sender_or_zero sender tx = a)"

lemma concat_put:
  assumes "gm_wf m" "gm_get m k = Some (x # rest)"
  shows "mset (concat (map snd m)) = add_mset x (mset (concat (map snd (gm_put m k rest))))"
  using assms by (induction m) (auto simp: gm_wf_def split: if_splits)

lemma set_gm_put_cases:
  assumes "(a, l) \<in> set (gm_put m k v)"
  shows "(a, l) \<in> set m \<or> (a = k \<and> l = v)"
  using assms by (induction m) (auto split: if_splits)

lemma Peek_highest_price:
  assumes "pn_inv sender t" "Peek t = Some tx" "tx' \<in> set (pn_heads t)"
  shows "Price tx' \<le> Price tx"
proof -
  have "pn_heads t ! 0 = tx"
    using assms(2) by (auto simp: Peek_def split: list.splits)
  then have "\<not> TxByPrice_Less tx' tx"
    using price_desc.heap_head_least [of "pn_heads t" tx'] assms(1,3) by (auto simp: pn_inv_def)
  then show ?thesis by (simp add: TxByPrice_Less_def)
qed

lemma Shift_cases:
  assumes "Shift sender t = Some t'" "pn_heads t = h # hs"
  obtains (refill) tx rest where "gm_get (pn_txs t) (sender_or_zero sender h) = Some (tx # rest)"
      "t' = t\<lparr>pn_heads := heap_fix TxByPrice_Less ((pn_heads t)[0 := tx]) 0,
              pn_txs := gm_put (pn_txs t) (sender_or_zero sender h) rest\<rparr>"
    | (drop) x hs' where "heap_pop TxByPrice_Less (pn_heads t) = Some (x, hs')" "t' = t\<lparr>pn_heads := hs'\<rparr>"
  using assms by (auto simp: Shift_def Let_def split: option.splits list.splits)

lemma Shift_remaining:
  assumes "pn_inv sender t" "Peek t = Some tx" "Shift sender t = Some t'"
  shows "pn_remaining t = add_mset tx (pn_remaining t')"
proof -
  obtain hs where hd: "pn_heads t = tx # hs"
    using assms(2) by (auto simp: Peek_def split: list.splits)
  have wf: "gm_wf (pn_txs t)" using assms(1) by (simp add: pn_inv_def)
  from assms(3) hd show ?thesis
  proof (cases rule: Shift_cases)
    case (refill y rest)
    then show ?thesis
      using concat_put [OF wf refill(1)] hd by (simp add: pn_remaining_def mset_heap_fix)
  next
    case (drop x hs')
    then show ?thesis
      using heap_pop_cases [OF drop(1)] hd by (simp add: pn_remaining_def)
  qed
qed

lemma mset_map_eq: "mset xs = mset ys \<Longrightarrow> mset (map f xs) = mset (map f ys)"
  by (metis mset_map)

lemma pn_inv_Shift:
  assumes inv: "pn_inv sender t" and sh: "Shift sender t = Some t'"
  shows "pn_inv sender t'"
proof -
  obtain h hs where hd: "pn_heads t = h # hs"
    using sh by (auto simp: Shift_def split: list.splits)
  note i = inv [unfolded pn_inv_def]
  from sh hd show ?thesis
  proof (cases rule: Shift_cases)
    case (refill y rest)
    define a where "a = sender_or_zero sender h"
    have mem: "(a, y # rest) \<in> set (pn_txs t)"
      using refill(1) by (simp add: map_of_SomeD a_def)
    then have sy: "sender_or_zero sender y = a" using i by fastforce
    have "mset (map (sender_or_zero sender) (pn_heads t')) = mset (map (sender_or_zero sender) (y # hs))"
      using refill(2) hd by (intro mset_map_eq) (simp add: mset_heap_fix)
    then have "distinct (map (sender_or_zero sender) (pn_heads t'))
        = distinct (map (sender_or_zero sender) (y # hs))"
      by (rule mset_eq_distinct)
    then have "distinct (map (sender_or_zero sender) (pn_heads t'))"
      using i hd sy by (simp add: a_def)
    moreover have "\<forall>(b, l) \<in> set (pn_txs t'). \<forall>tx \<in> set l. sender_or_zero sender tx = b"
      using i mem refill(2) by (auto simp: a_def dest!: set_gm_put_cases)
    ultimately show ?thesis
      using i refill(2) hd price_desc.is_heap_fix [of "pn_heads t" 0 y]
      by (simp add: pn_inv_def gm_wf_put)
  next
    case (drop x hs')
    have "mset (map (sender_or_zero sender) (pn_heads t)) = mset (map (sender_or_zero sender) (x # hs'))"
      using heap_pop_cases [OF drop(1)] by (intro mset_map_eq) simp
    then have "distinct (map (sender_or_zero sender) (pn_heads t))
        = distinct (map (sender_or_zero sender) (x # hs'))"
      by (rule mset_eq_distinct)
    then have "distinct (map (sender_or_zero sender) hs')"
      using i by simp
    then show ?thesis
      using i drop price_desc.is_heap_pop [of "pn_heads t"] by (simp add: pn_inv_def)
  qed
qed

text \<open>The next transaction of the account takes the place of the head.\<close>

lemma Shift_next:
  assumes "Peek t = Some tx" "Shift sender t = Some t'"
  defines "a \<equiv> sender_or_zero sender tx"
  shows "(case gm_get (pn_txs t) a of
         Some (next_tx # rest) \<Rightarrow>
           mset (pn_heads t') = add_mset next_tx (mset (pn_heads t) - {#tx#}) \<and> gm_get (pn_txs t') a = Some rest
       | _ \<Rightarrow> mset (pn_heads t') = mset (pn_heads t) - {#tx#} \<and> gm_get (pn_txs t') a = gm_get (pn_txs t) a)
    \<and> (\<forall>b. b \<noteq> a \<longrightarrow> gm_get (pn_txs t') b = gm_get (pn_txs t) b)"
proof -
  obtain hs where hd: "pn_heads t = tx # hs"
    using assms(1) by (auto simp: Peek_def split: list.splits)
  show ?thesis
  proof (cases "\<exists>y rest. gm_get (pn_txs t) a = Some (y # rest)")
    case True
    then obtain y rest where g: "gm_get (pn_txs t) a = Some (y # rest)" by blast
    then have "t' = t\<lparr>pn_heads := heap_fix TxByPrice_Less ((pn_heads t)[0 := y]) 0, pn_txs := gm_put (pn_txs t) a rest\<rparr>"
      using assms(2) hd by (simp add: Shift_def a_def)
    then show ?thesis using g hd by (simp add: mset_heap_fix gm_get_put)
  next
    case False
    then obtain x hs' where x: "heap_pop TxByPrice_Less (pn_heads t) = Some (x, hs')" "t' = t\<lparr>pn_heads := hs'\<rparr>"
      using assms(2) hd by (auto simp: Shift_def a_def Let_def split: option.splits list.splits)
    have "mset hs' = mset (pn_heads t) - {#tx#}" using heap_pop_cases [OF x(1)] hd by simp
    then show ?thesis using False x(2) by (auto split: option.splits list.splits)
  qed
qed

text \<open>The accounts handed to \<open>NewTransactionsByPriceAndNonce\<close>: each has at least one transaction,
  and its transactions were sent by it.\<close>

definition accounts_ok :: "(transaction \<Rightarrow> address option) \<Rightarrow> (address, transaction list) gomap \<Rightarrow> bool" where
  "accounts_ok sender txs \<longleftrightarrow> gm_wf txs \<and>
     (\<forall>(a, l) \<in> set txs. l \<noteq> [] \<and> (\<forall>tx \<in> set l. sender_or_zero sender tx = a))"

lemma new_heads_total:
  assumes "gm_wf txs" "distinct ks" "set ks \<subseteq> set (gm_keys txs)"
    "\<forall>k \<in> set ks. gm_get txs k \<noteq> Some []"
    "\<forall>(a, l) \<in> set txs. \<forall>tx \<in> set l. sender_or_zero sender tx = a"
  shows "\<exists>heads' txs'. new_heads sender ks txs heads = Some (heads', txs') \<and> gm_wf txs'
     \<and> map (sender_or_zero sender) heads' = map (sender_or_zero sender) heads @ ks
     \<and> mset heads' + mset (concat (map snd txs')) = mset heads + mset (concat (map snd txs))
     \<and> (\<forall>(a, l) \<in> set txs'. \<forall>tx \<in> set l. sender_or_zero sender tx = a)"
  using assms
proof (induction ks arbitrary: txs heads)
  case (Cons k ks)
  have "gm_get txs k \<noteq> None" "gm_get txs k \<noteq> Some []"
    using Cons.prems(3,4) by (auto simp: gm_get_None_iff simp del: set_map)
  then obtain tx rest where g: "gm_get txs k = Some (tx # rest)"
    by (metis list.exhaust not_None_eq)
  then have mem: "(k, tx # rest) \<in> set txs" by (rule map_of_SomeD)
  then have s: "sender_or_zero sender tx = k" using Cons.prems(5) by fastforce
  let ?t = "gm_put txs k rest"
  have "\<exists>heads' txs'. new_heads sender ks ?t (heads @ [tx]) = Some (heads', txs') \<and> gm_wf txs'
     \<and> map (sender_or_zero sender) heads' = map (sender_or_zero sender) (heads @ [tx]) @ ks
     \<and> mset heads' + mset (concat (map snd txs')) = mset (heads @ [tx]) + mset (concat (map snd ?t))
     \<and> (\<forall>(a, l) \<in> set txs'. \<forall>tx \<in> set l. sender_or_zero sender tx = a)"
  proof (rule Cons.IH)
    show "gm_wf ?t" by (rule gm_wf_put) (rule Cons.prems(1))
    show "set ks \<subseteq> set (gm_keys ?t)" using Cons.prems(3) by (auto simp: gm_keys_put simp del: set_map)
    show "\<forall>k \<in> set ks. gm_get ?t k \<noteq> Some []"
      using Cons.prems(2,4) by (auto simp: gm_get_put)
    show "\<forall>(a, l) \<in> set ?t. \<forall>tx \<in> set l. sender_or_zero sender tx = a"
      using Cons.prems(5) mem by (fastforce dest!: set_gm_put_cases)
  qed (use Cons.prems in auto)
  then show ?case
    using concat_put [OF Cons.prems(1) g] by (auto simp: g s)
qed auto

lemma New_correct:
  assumes "accounts_ok sender txs" "range_ok rng"
  shows "\<exists>t. NewTransactionsByPriceAndNonce rng sender txs = Some t \<and> pn_inv sender t
     \<and> pn_remaining t = mset (concat (map snd txs))"
proof -
  let ?ks = "rng (gm_keys txs)"
  have ks: "distinct ?ks" "set ?ks = set (gm_keys txs)"
    using assms by (simp_all add: range_ok_distinct range_ok_set accounts_ok_def gm_wf_def del: set_map)
  have "\<exists>heads' txs'. new_heads sender ?ks txs [] = Some (heads', txs') \<and> gm_wf txs'
     \<and> map (sender_or_zero sender) heads' = map (sender_or_zero sender) [] @ ?ks
     \<and> mset heads' + mset (concat (map snd txs')) = mset [] + mset (concat (map snd txs))
     \<and> (\<forall>(a, l) \<in> set txs'. \<forall>tx \<in> set l. sender_or_zero sender tx = a)"
  proof (rule new_heads_total)
    show "\<forall>k \<in> set ?ks. gm_get txs k \<noteq> Some []"
      using assms(1) map_of_SomeD unfolding accounts_ok_def by fastforce
    show "\<forall>(a, l) \<in> set txs. \<forall>tx \<in> set l. sender_or_zero sender tx = a"
      using assms(1) unfolding accounts_ok_def by fast
  qed (use assms(1) ks in \<open>auto simp: accounts_ok_def\<close>)
  then obtain heads' txs' where h: "new_heads sender ?ks txs [] = Some (heads', txs')" "gm_wf txs'"
      "map (sender_or_zero sender) heads' = ?ks"
      "mset heads' + mset (concat (map snd txs')) = mset (concat (map snd txs))"
      "\<forall>(a, l) \<in> set txs'. \<forall>tx \<in> set l. sender_or_zero sender tx = a"
    by auto
  let ?t = "\<lparr>pn_txs = txs', pn_heads = heap_init TxByPrice_Less heads'\<rparr>"
  have "mset (map (sender_or_zero sender) (heap_init TxByPrice_Less heads')) = mset ?ks"
    using mset_map_eq [OF mset_heap_init] h(3) by metis
  then have "distinct (map (sender_or_zero sender) (heap_init TxByPrice_Less heads'))"
    using mset_eq_distinct ks(1) by blast
  then have "pn_inv sender ?t"
    using h(2,5) price_desc.is_heap_init by (simp add: pn_inv_def)
  moreover have "pn_remaining ?t = mset (concat (map snd txs))"
    using h(4) by (simp add: pn_remaining_def mset_heap_init)
  ultimately show ?thesis
    using h(1) by (simp add: NewTransactionsByPriceAndNonce_def)
qed

section \<open>The assembler draws the best-paying transactions and loses none\<close>

text \<open>A small transaction for the concrete instances below.\<close>

definition sample_tx :: "u64 \<Rightarrow> bigint \<Rightarrow> transaction" where
  "sample_tx nonce price = newTransaction nonce (Some 7) (Some 1) 21000 (Some price) []"

definition sample_accounts :: "(address, transaction list) gomap" where
  "sample_accounts = [(1, [sample_tx 0 5, sample_tx 1 9])]"

lemma sample_accounts_ok: "accounts_ok (\<lambda>_. Some 1) sample_accounts"
  by (auto simp: accounts_ok_def sample_accounts_def gm_wf_def sender_or_zero_def)

text \<open>Building the block assembler's queue from per-account lists succeeds for every map
  iteration order; the result holds exactly the given transactions, and the one it offers first has the
  highest gas price among the accounts' next transactions.\<close>

theorem assembler_new_complete:
  assumes "accounts_ok sender txs" "range_ok rng"
  shows "\<exists>t. NewTransactionsByPriceAndNonce rng sender txs = Some t
    \<and> pn_remaining t = mset (concat (map snd txs))
    \<and> (\<forall>tx. Peek t = Some tx \<longrightarrow> (\<forall>tx' \<in> set (pn_heads t). Price tx' \<le> Price tx))"
  using New_correct [OF assms] Peek_highest_price by metis

theorem assembler_new_complete_witness:
  "accounts_ok (\<lambda>_. Some 1) sample_accounts \<and> range_ok (rev :: address list \<Rightarrow> address list)
    \<and> (\<exists>t. NewTransactionsByPriceAndNonce rev (\<lambda>_. Some 1) sample_accounts = Some t
        \<and> pn_remaining t = mset (concat (map snd sample_accounts)))"
  using assembler_new_complete [OF sample_accounts_ok range_ok_rev] sample_accounts_ok range_ok_rev by blast

text \<open>C30: In a queue built as above, \<open>Shift\<close> removes exactly the transaction that \<open>Peek\<close> showed. If its account has a next
  transaction, that one takes its place among the heads and leaves the account's queue; otherwise the heads have one less.
  The queues of the other accounts stay, the queue stays well formed, and the following \<open>Peek\<close> shows a highest-priced
  head again.\<close>

theorem assembler_shift_exact:
  assumes "pn_inv sender t" "Peek t = Some tx" "Shift sender t = Some t'"
  shows "pn_remaining t = add_mset tx (pn_remaining t') \<and> pn_inv sender t'
    \<and> (\<forall>tx'. Peek t' = Some tx' \<longrightarrow> (\<forall>u \<in> set (pn_heads t'). Price u \<le> Price tx'))
    \<and> (case gm_get (pn_txs t) (sender_or_zero sender tx) of
         Some (next_tx # rest) \<Rightarrow>
           mset (pn_heads t') = add_mset next_tx (mset (pn_heads t) - {#tx#})
           \<and> gm_get (pn_txs t') (sender_or_zero sender tx) = Some rest
       | _ \<Rightarrow>
           mset (pn_heads t') = mset (pn_heads t) - {#tx#}
           \<and> gm_get (pn_txs t') (sender_or_zero sender tx) = gm_get (pn_txs t) (sender_or_zero sender tx))
    \<and> (\<forall>b. b \<noteq> sender_or_zero sender tx \<longrightarrow> gm_get (pn_txs t') b = gm_get (pn_txs t) b)"
  using Shift_remaining [OF assms] pn_inv_Shift [OF assms(1,3)] Peek_highest_price [OF pn_inv_Shift [OF assms(1,3)]]
    Shift_next [OF assms(2,3)]
  by blast

definition sample_queue :: price_nonce_txs where
  "sample_queue = \<lparr>pn_txs = [(1, [sample_tx 1 9])], pn_heads = [sample_tx 0 5]\<rparr>"

theorem assembler_shift_exact_witness:
  "pn_inv (\<lambda>_. Some 1) sample_queue \<and> Peek sample_queue = Some (sample_tx 0 5)
    \<and> (\<exists>t'. Shift (\<lambda>_. Some 1) sample_queue = Some t'
        \<and> pn_remaining sample_queue = add_mset (sample_tx 0 5) (pn_remaining t')
        \<and> mset (pn_heads t') = {#sample_tx 1 9#} \<and> gm_get (pn_txs t') 1 = Some [])"
proof -
  have i: "pn_inv (\<lambda>_. Some 1) sample_queue"
    by (simp add: pn_inv_def sample_queue_def gm_wf_def is_heap_def sender_or_zero_def)
  have p: "Peek sample_queue = Some (sample_tx 0 5)" by (simp add: Peek_def sample_queue_def)
  obtain t' where t': "Shift (\<lambda>_. Some 1) sample_queue = Some t'"
    by (simp add: Shift_def sample_queue_def sender_or_zero_def)
  have q: "gm_get (pn_txs sample_queue) 1 = Some [sample_tx 1 9]"
    "mset (pn_heads sample_queue) = {#sample_tx 0 5#}" "sender_or_zero (\<lambda>_. Some 1) (sample_tx 0 5) = 1"
    by (simp_all add: sample_queue_def sender_or_zero_def)
  note s = assembler_shift_exact [OF i p t']
  have "mset (pn_heads t') = {#sample_tx 1 9#}" "gm_get (pn_txs t') 1 = Some []" using s unfolding q by simp_all
  then show ?thesis using s i p t' by blast
qed

end
