(* ===== verification/Tx_Sorted_Map.thy ===== *)
theory Tx_Sorted_Map
  imports Transactions
begin

text \<open>
  \<open>txSortedMap\<close> of \<open>core/tx_list.go\<close>: the transactions of one account, keyed by nonce, with a heap of
  the nonces (\<open>index\<close>) and a cache of the nonce-sorted list.

  A \<open>nil\<close> cache is \<open>None\<close>. \<open>None\<close> as the result of \<open>Forward\<close> or \<open>Cap\<close> is a run-time panic (a slice
  bound out of range); \<open>sm_inv\<close> excludes it. The entries of a returned \<open>types.Transactions\<close> are
  pointers read from the map, hence \<open>txptr\<close> (a missing entry is \<open>nil\<close>).
\<close>

definition nonceHeap_Less :: "u64 \<Rightarrow> u64 \<Rightarrow> bool" where
  "nonceHeap_Less a b \<longleftrightarrow> a < b"

record txSortedMap =
  items :: "(u64, transaction) gomap"
  index :: "u64 list"
  cache :: "transaction list option"

definition newTxSortedMap :: txSortedMap where
  "newTxSortedMap = \<lparr>items = [], index = [], cache = None\<rparr>"

definition sm_Get :: "txSortedMap \<Rightarrow> u64 \<Rightarrow> txptr" where
  "sm_Get m nonce = gm_get (items m) nonce"

definition sm_Put :: "txSortedMap \<Rightarrow> transaction \<Rightarrow> txSortedMap" where
  "sm_Put m tx =
     (let nonce = AccountNonce tx;
          idx = (if gm_get (items m) nonce = None then heap_push nonceHeap_Less (index m) nonce else index m)
      in m\<lparr>items := gm_put (items m) nonce tx, index := idx, cache := None\<rparr>)"

function forward_loop ::
  "u64 \<Rightarrow> u64 list \<Rightarrow> (u64, transaction) gomap \<Rightarrow> txptr list \<Rightarrow>
     txptr list \<times> u64 list \<times> (u64, transaction) gomap" where
  "forward_loop threshold idx its removed =
     (case heap_pop nonceHeap_Less idx of
        None \<Rightarrow> (removed, idx, its)
      | Some (nonce, idx') \<Rightarrow>
          if idx ! 0 < threshold
          then forward_loop threshold idx' (gm_del its nonce) (removed @ [gm_get its nonce])
          else (removed, idx, its))"
  by pat_completeness auto
termination
  by (relation "measure (\<lambda>(threshold, idx, its, removed). length idx)")
     (auto dest: heap_pop_cases)

declare forward_loop.simps [simp del]

definition sm_Forward :: "txSortedMap \<Rightarrow> u64 \<Rightarrow> (txptr list \<times> txSortedMap) option" where
  "sm_Forward m threshold =
     (let (removed, idx, its) = forward_loop threshold (index m) (items m) []
      in case cache m of
           None \<Rightarrow> Some (removed, m\<lparr>items := its, index := idx\<rparr>)
         | Some c \<Rightarrow>
             if length removed \<le> length c
             then Some (removed, m\<lparr>items := its, index := idx, cache := Some (drop (length removed) c)\<rparr>)
             else None)"

fun filter_loop ::
  "(transaction \<Rightarrow> bool) \<Rightarrow> u64 list \<Rightarrow> (u64, transaction) gomap \<Rightarrow> transaction list \<Rightarrow>
     transaction list \<times> (u64, transaction) gomap" where
  "filter_loop p [] its removed = (removed, its)"
| "filter_loop p (nonce # nonces) its removed =
     (case gm_get its nonce of
        None \<Rightarrow> filter_loop p nonces its removed
      | Some tx \<Rightarrow> if p tx then filter_loop p nonces (gm_del its nonce) (removed @ [tx])
                   else filter_loop p nonces its removed)"

definition sm_Filter ::
  "(u64 list \<Rightarrow> u64 list) \<Rightarrow> txSortedMap \<Rightarrow> (transaction \<Rightarrow> bool) \<Rightarrow> transaction list \<times> txSortedMap" where
  "sm_Filter rng m p =
     (let (removed, its) = filter_loop p (rng (gm_keys (items m))) (items m) []
      in if 0 < length removed
         then (removed, m\<lparr>items := its, index := heap_init nonceHeap_Less (rng (gm_keys its)), cache := None\<rparr>)
         else (removed, m\<lparr>items := its\<rparr>))"

fun cap_loop ::
  "nat \<Rightarrow> u64 list \<Rightarrow> (u64, transaction) gomap \<Rightarrow> txptr list \<Rightarrow> nat \<Rightarrow>
     (txptr list \<times> (u64, transaction) gomap) option" where
  "cap_loop threshold idx its drops 0 = Some (drops, its)"
| "cap_loop threshold idx its drops (Suc s) =
     (if Suc s \<le> threshold then Some (drops, its)
      else if s < length idx
      then cap_loop threshold idx (gm_del its (idx ! s)) (drops @ [gm_get its (idx ! s)]) s
      else None)"

definition sm_Cap :: "txSortedMap \<Rightarrow> nat \<Rightarrow> (txptr list \<times> txSortedMap) option" where
  "sm_Cap m threshold =
     (if length (items m) \<le> threshold then Some ([], m)
      else let idx = sort (index m)
           in case cap_loop threshold idx (items m) [] (length (items m)) of
                None \<Rightarrow> None
              | Some (drops, its) \<Rightarrow>
                  let m' = m\<lparr>items := its, index := heap_init nonceHeap_Less (take threshold idx)\<rparr>
                  in case cache m of
                       None \<Rightarrow> Some (drops, m')
                     | Some c \<Rightarrow>
                         if length drops \<le> length c
                         then Some (drops, m'\<lparr>cache := Some (take (length c - length drops) c)\<rparr>)
                         else None)"

fun find_pos :: "u64 \<Rightarrow> u64 list \<Rightarrow> nat option" where
  "find_pos nonce [] = None"
| "find_pos nonce (n # ns) = (if n = nonce then Some 0 else map_option Suc (find_pos nonce ns))"

definition sm_Remove :: "txSortedMap \<Rightarrow> u64 \<Rightarrow> bool \<times> txSortedMap" where
  "sm_Remove m nonce =
     (if gm_get (items m) nonce = None then (False, m)
      else let idx = (case find_pos nonce (index m) of
                        None \<Rightarrow> index m
                      | Some i \<Rightarrow> (case heap_remove nonceHeap_Less (index m) i of
                                     None \<Rightarrow> index m | Some (_, h) \<Rightarrow> h))
           in (True, m\<lparr>items := gm_del (items m) nonce, index := idx, cache := None\<rparr>))"

function ready_loop ::
  "u64 \<Rightarrow> u64 list \<Rightarrow> (u64, transaction) gomap \<Rightarrow> txptr list \<Rightarrow>
     txptr list \<times> u64 list \<times> (u64, transaction) gomap" where
  "ready_loop nxt idx its ready =
     (case heap_pop nonceHeap_Less idx of
        None \<Rightarrow> (ready, idx, its)
      | Some (_, idx') \<Rightarrow>
          if idx ! 0 = nxt
          then ready_loop (nxt + 1) idx' (gm_del its nxt) (ready @ [gm_get its nxt])
          else (ready, idx, its))"
  by pat_completeness auto
termination
  by (relation "measure (\<lambda>(nxt, idx, its, ready). length idx)")
     (auto dest: heap_pop_cases)

declare ready_loop.simps [simp del]

definition sm_Ready :: "txSortedMap \<Rightarrow> u64 \<Rightarrow> txptr list \<times> txSortedMap" where
  "sm_Ready m start =
     (if index m = [] \<or> index m ! 0 > start then ([], m)
      else let (ready, idx, its) = ready_loop (index m ! 0) (index m) (items m) []
           in (ready, m\<lparr>items := its, index := idx, cache := None\<rparr>))"

definition sm_Len :: "txSortedMap \<Rightarrow> nat" where
  "sm_Len m = length (items m)"

definition sm_Flatten :: "(u64 list \<Rightarrow> u64 list) \<Rightarrow> txSortedMap \<Rightarrow> transaction list \<times> txSortedMap" where
  "sm_Flatten rng m =
     (case cache m of
        Some c \<Rightarrow> (c, m)
      | None \<Rightarrow> let c = TxByNonce (List.map_filter (gm_get (items m)) (rng (gm_keys (items m))))
                in (c, m\<lparr>cache := Some c\<rparr>))"

section \<open>The invariant\<close>

interpretation nonce_order: go_order nonceHeap_Less
  by unfold_locales (auto simp: nonceHeap_Less_def)

definition items_ok :: "(u64, transaction) gomap \<Rightarrow> bool" where
  "items_ok its \<longleftrightarrow> gm_wf its \<and> (\<forall>(n, tx) \<in> set its. AccountNonce tx = n)"

text \<open>The nonce-sorted list of the contents: the abstract value of the map.\<close>

definition sm_flat :: "(u64, transaction) gomap \<Rightarrow> transaction list" where
  "sm_flat its = TxByNonce (map snd its)"

definition index_ok :: "(u64, transaction) gomap \<Rightarrow> u64 list \<Rightarrow> bool" where
  "index_ok its idx \<longleftrightarrow> mset idx = mset (gm_keys its) \<and> is_heap nonceHeap_Less idx"

definition sm_inv :: "txSortedMap \<Rightarrow> bool" where
  "sm_inv m \<longleftrightarrow> items_ok (items m) \<and> index_ok (items m) (index m)
     \<and> (cache m = None \<or> cache m = Some (sm_flat (items m)))"

lemma keys_are_nonces: "items_ok its \<Longrightarrow> gm_keys its = map AccountNonce (map snd its)"
  by (auto simp: items_ok_def)

lemma items_ok_filter: "items_ok its \<Longrightarrow> items_ok (filter P its)"
  by (auto simp: items_ok_def gm_wf_def distinct_map_filter)

lemma sm_flat_filter: "sm_flat (filter (\<lambda>(n, tx). P tx) its) = filter P (sm_flat its)"
proof -
  have "map snd (filter (\<lambda>(n, tx). P tx) its) = filter P (map snd its)"
    by (induction its) auto
  then show ?thesis by (simp add: sm_flat_def TxByNonce_def filter_sort)
qed

lemma filter_key_nonce:
  "items_ok its \<Longrightarrow> filter (\<lambda>(n, tx). P n) its = filter (\<lambda>(n, tx). P (AccountNonce tx)) its"
  by (rule filter_cong) (auto simp: items_ok_def)

lemma sm_flat_nonces: "items_ok its \<Longrightarrow> map AccountNonce (sm_flat its) = sort (gm_keys its)"
proof -
  assume "items_ok its"
  then have "mset (map AccountNonce (sm_flat its)) = mset (gm_keys its)"
    by (simp only: keys_are_nonces sm_flat_def) (rule mset_map_eq [OF mset_TxByNonce])
  then show ?thesis
    using properties_for_sort [of "map AccountNonce (sm_flat its)"]
    by (simp add: sm_flat_def sorted_TxByNonce)
qed

lemma set_flat_nonces: "items_ok its \<Longrightarrow> AccountNonce ` set (sm_flat its) = set (gm_keys its)"
  by (metis list.set_map set_sort sm_flat_nonces)

lemma image_filter_key: "f ` {x \<in> A. P (f x)} = {y \<in> f ` A. P y}"
  by auto

lemma distinct_sm_flat: "items_ok its \<Longrightarrow> distinct (map AccountNonce (sm_flat its))"
  by (simp add: sm_flat_nonces) (simp add: items_ok_def gm_wf_def)

lemma sorted_sm_flat: "sorted (map AccountNonce (sm_flat its))"
  by (simp add: sm_flat_def TxByNonce_def)

lemma set_sm_flat: "set (sm_flat its) = snd ` set its"
  by (simp add: sm_flat_def TxByNonce_def)

lemma gm_get_flat: "items_ok its \<Longrightarrow> tx \<in> set (sm_flat its) \<Longrightarrow> gm_get its (AccountNonce tx) = Some tx"
  by (auto simp: set_sm_flat items_ok_def gm_wf_def)

lemma map_get_flat:
  assumes "items_ok its" "set txs \<subseteq> set (sm_flat its)"
  shows "map (gm_get its) (map AccountNonce txs) = map Some txs"
  using assms gm_get_flat by (induction txs) auto

lemma sort_index: "index_ok its idx \<Longrightarrow> sort idx = sort (gm_keys its)"
  unfolding index_ok_def by (metis properties_for_sort mset_sort sorted_sort)

lemma sort_pop:
  assumes "is_heap nonceHeap_Less idx" "heap_pop nonceHeap_Less idx = Some (x, idx')"
  shows "sort idx = x # sort idx'" "is_heap nonceHeap_Less idx'" "idx ! 0 = x"
proof -
  have le: "\<forall>y \<in> set idx'. x \<le> y"
    using nonce_order.heap_pop_least [OF assms] by (auto simp: nonceHeap_Less_def not_less)
  have "mset (x # sort idx') = mset idx" using heap_pop_cases [OF assms(2)] by simp
  moreover have "sorted (x # sort idx')" using le by simp
  ultimately show "sort idx = x # sort idx'" by (rule properties_for_sort)
  show "is_heap nonceHeap_Less idx'" by (rule nonce_order.is_heap_pop [OF assms])
  show "idx ! 0 = x" using heap_pop_cases [OF assms(2)] by simp
qed

lemma gm_del_filter: "gm_del its k = filter (\<lambda>(n, tx). n \<noteq> k) its"
  by (auto simp: AList.delete_eq intro: filter_cong)

section \<open>What the loops compute\<close>

lemma filter_get:
  assumes "P k"
  shows "gm_get (filter (\<lambda>(n, tx). P n) its) k = gm_get its k"
  using assms by (induction its) auto

lemma forward_loop_spec:
  assumes "is_heap nonceHeap_Less idx" "distinct idx" "forward_loop th idx its removed = (removed', idx', its')"
  shows "removed' = removed @ map (gm_get its) (takeWhile (\<lambda>n. n < th) (sort idx))
    \<and> sort idx' = dropWhile (\<lambda>n. n < th) (sort idx) \<and> is_heap nonceHeap_Less idx'
    \<and> mset idx' = {#n \<in># mset idx. \<not> n < th#}
    \<and> its' = filter (\<lambda>(n, tx). n \<notin> set (takeWhile (\<lambda>n. n < th) (sort idx))) its"
  using assms
proof (induction th idx its removed rule: forward_loop.induct)
  case (1 th idx its removed)
  show ?case
  proof (cases "heap_pop nonceHeap_Less idx")
    case None
    then have "idx = []" by (simp add: heap_pop_None_iff)
    then show ?thesis using "1.prems"(3) None by (auto simp: forward_loop.simps [of th "[]"])
  next
    case (Some r)
    obtain x h where r: "r = (x, h)" by fastforce
    note p = sort_pop [OF "1.prems"(1) Some [unfolded r]]
    have ms: "mset idx = add_mset x (mset h)" using heap_pop_cases [OF Some [unfolded r]] by simp
    have dh: "distinct h" "x \<notin> set h"
      using "1.prems"(2) ms mset_eq_distinct [of idx "x # h"] by auto
    show ?thesis
    proof (cases "x < th")
      case True
      define tw where "tw = takeWhile (\<lambda>n. n < th) (sort h)"
      have "x \<notin> set tw" using dh set_takeWhileD unfolding tw_def by fastforce
      then have get: "map (gm_get (gm_del its x)) tw = map (gm_get its) tw"
        by (auto simp: gm_get_del)
      have "forward_loop th h (gm_del its x) (removed @ [gm_get its x]) = (removed', idx', its')"
        using "1.prems"(3) Some r p(3) True by (simp add: forward_loop.simps [of th idx])
      from "1.IH" [OF Some r [symmetric] _ p(2) dh(1) this] p(3) True
      have "removed' = (removed @ [gm_get its x]) @ map (gm_get (gm_del its x)) tw"
        "sort idx' = dropWhile (\<lambda>n. n < th) (sort h)" "is_heap nonceHeap_Less idx'"
        "mset idx' = {#n \<in># mset h. \<not> n < th#}"
        "its' = filter (\<lambda>(n, tx). n \<notin> set tw) (gm_del its x)"
        by (simp_all add: tw_def)
      then show ?thesis
        using True get by (auto simp: p(1) ms gm_del_filter filter_filter tw_def intro!: filter_cong)
    next
      case False
      then have "\<forall>y \<in> set idx. \<not> y < th"
        using nonce_order.heap_head_least [OF "1.prems"(1)] p(3)
        by (meson nonceHeap_Less_def not_less order_trans)
      then have "mset idx = {#n \<in># mset idx. \<not> n < th#}"
        using filter_True [of idx "\<lambda>n. \<not> n < th"] by (simp flip: mset_filter)
      then show ?thesis
        using "1.prems"(1,3) Some r p False by (simp add: forward_loop.simps [of th idx])
    qed
  qed
qed

lemma filter_loop_spec:
  assumes "items_ok its" "distinct ks" "filter_loop p ks its removed = (removed', its')"
  shows "removed' = removed @ filter p (List.map_filter (gm_get its) ks)
    \<and> its' = filter (\<lambda>(n, tx). \<not> (p tx \<and> n \<in> set ks)) its"
  using assms
proof (induction ks arbitrary: its removed)
  case (Cons k ks)
  show ?case
  proof (cases "gm_get its k")
    case None
    then have k: "k \<notin> set (gm_keys its)" by (simp add: gm_get_None_iff)
    then have "filter (\<lambda>(n, tx). \<not> (p tx \<and> n \<in> set (k # ks))) its
        = filter (\<lambda>(n, tx). \<not> (p tx \<and> n \<in> set ks)) its"
      by (intro filter_cong) force+
    then show ?thesis using Cons None by (simp add: List.map_filter_def)
  next
    case (Some tx)
    have mem: "n = k \<Longrightarrow> (n, t) \<in> set its \<Longrightarrow> t = tx" for n t
      using Some Cons.prems(1) by (auto simp: items_ok_def gm_wf_def)
    show ?thesis
    proof (cases "p tx")
      case True
      have "gm_get (gm_del its k) n = gm_get its n" if "n \<in> set ks" for n
        using that Cons.prems(2) by (auto simp: gm_get_del)
      then have "List.map_filter (gm_get (gm_del its k)) ks = List.map_filter (gm_get its) ks"
        unfolding List.map_filter_def by (auto intro!: map_cong filter_cong)
      moreover have "filter (\<lambda>(n, tx). \<not> (p tx \<and> n \<in> set ks)) (gm_del its k)
          = filter (\<lambda>(n, tx). \<not> (p tx \<and> n \<in> set (k # ks))) its"
        using mem True by (auto simp: gm_del_filter filter_filter intro!: filter_cong)
      moreover have "items_ok (gm_del its k)"
        by (simp add: gm_del_filter items_ok_filter [OF Cons.prems(1)])
      ultimately show ?thesis
        using Cons.IH [of "gm_del its k" "removed @ [tx]"] Cons.prems True Some
        by (simp add: List.map_filter_simps)
    next
      case False
      have "filter (\<lambda>(n, tx). \<not> (p tx \<and> n \<in> set ks)) its
          = filter (\<lambda>(n, tx). \<not> (p tx \<and> n \<in> set (k # ks))) its"
        using mem False by (auto intro!: filter_cong)
      then show ?thesis
        using Cons False Some by (simp add: List.map_filter_simps)
    qed
  qed
qed (simp add: List.map_filter_def)

lemma cap_loop_spec:
  assumes "items_ok its" "distinct idx" "sz \<le> length idx" "th \<le> sz"
  shows "cap_loop th idx its drops sz = Some
     (drops @ map (gm_get its) (rev (take (sz - th) (drop th idx))),
      filter (\<lambda>(n, tx). n \<notin> set (take (sz - th) (drop th idx))) its)"
  using assms
proof (induction sz arbitrary: its drops)
  case (Suc s)
  show ?case
  proof (cases "Suc s \<le> th")
    case True
    then have th: "th = Suc s" using Suc.prems(4) by simp
    show ?thesis unfolding th by (simp add: filter_True case_prod_beta)
  next
    case False
    define x where "x = idx ! s"
    define ds where "ds = take (s - th) (drop th idx)"
    have e: "take (Suc s - th) (drop th idx) = ds @ [x]"
      using False Suc.prems(3) by (simp add: ds_def x_def Suc_diff_le take_Suc_conv_app_nth)
    have "distinct (ds @ [x])"
      using Suc.prems(2) by (simp flip: e)
    then have x: "x \<notin> set ds" by simp
    have "cap_loop th idx its drops (Suc s)
        = cap_loop th idx (gm_del its x) (drops @ [gm_get its x]) s"
      using False Suc.prems(3) by (simp add: x_def)
    also have "\<dots> = Some ((drops @ [gm_get its x]) @ map (gm_get (gm_del its x)) (rev ds),
        filter (\<lambda>(n, tx). n \<notin> set ds) (gm_del its x))"
      using Suc.IH [of "gm_del its x" "drops @ [gm_get its x]"] Suc.prems False
      by (simp add: ds_def gm_del_filter items_ok_filter)
    also have "map (gm_get (gm_del its x)) (rev ds) = map (gm_get its) (rev ds)"
      using x by (auto simp: gm_get_del)
    also have "filter (\<lambda>(n, tx). n \<notin> set ds) (gm_del its x) = filter (\<lambda>(n, tx). n \<notin> set (ds @ [x])) its"
      by (auto simp: gm_del_filter intro!: filter_cong)
    finally show ?thesis by (simp add: e)
  qed
qed (simp add: filter_True case_prod_beta)

text \<open>The longest run of consecutive nonces (modulo \<open>2 ^ 64\<close>) at the front of a list.\<close>

fun run :: "u64 \<Rightarrow> u64 list \<Rightarrow> u64 list" where
  "run nxt [] = []"
| "run nxt (n # ns) = (if n = nxt then n # run (nxt + 1) ns else [])"

lemma run_prefix: "run nxt ns = take (length (run nxt ns)) ns"
  by (induction nxt ns rule: run.induct) auto

lemma set_run: "set (run nxt ns) \<subseteq> set ns"
  by (metis run_prefix set_take_subset)

lemma ready_loop_spec:
  assumes "is_heap nonceHeap_Less idx" "distinct idx" "ready_loop nxt idx its ready = (ready', idx', its')"
  shows "ready' = ready @ map (gm_get its) (run nxt (sort idx))
    \<and> is_heap nonceHeap_Less idx' \<and> mset idx' = mset idx - mset (run nxt (sort idx))
    \<and> its' = filter (\<lambda>(n, tx). n \<notin> set (run nxt (sort idx))) its"
  using assms
proof (induction nxt idx its ready rule: ready_loop.induct)
  case (1 nxt idx its ready)
  show ?case
  proof (cases "heap_pop nonceHeap_Less idx")
    case None
    then have "idx = []" by (simp add: heap_pop_None_iff)
    then show ?thesis
      using "1.prems"(3) None by (auto simp: ready_loop.simps [of nxt "[]"])
  next
    case (Some r)
    obtain x h where r: "r = (x, h)" by fastforce
    note p = sort_pop [OF "1.prems"(1) Some [unfolded r]]
    have ms: "mset idx = add_mset x (mset h)" using heap_pop_cases [OF Some [unfolded r]] by simp
    have dh: "distinct h" "x \<notin> set h"
      using "1.prems"(2) ms mset_eq_distinct [of idx "x # h"] by auto
    show ?thesis
    proof (cases "x = nxt")
      case True
      define ru where "ru = run (nxt + 1) (sort h)"
      have "x \<notin> set ru" using dh set_run [of "nxt + 1" "sort h"] by (auto simp: ru_def)
      then have get: "map (gm_get (gm_del its nxt)) ru = map (gm_get its) ru"
        using True by (auto simp: gm_get_del)
      have "ready_loop (nxt + 1) h (gm_del its nxt) (ready @ [gm_get its nxt]) = (ready', idx', its')"
        using "1.prems"(3) Some r p(3) True by (simp add: ready_loop.simps [of nxt idx])
      from "1.IH" [OF Some r [symmetric] _ p(2) dh(1) this] p(3) True
      have "ready' = (ready @ [gm_get its nxt]) @ map (gm_get (gm_del its nxt)) ru"
        "is_heap nonceHeap_Less idx'" "mset idx' = mset h - mset ru"
        "its' = filter (\<lambda>(n, tx). n \<notin> set ru) (gm_del its nxt)"
        by (simp_all add: ru_def)
      then show ?thesis
        using True get by (auto simp: p(1) ms gm_del_filter filter_filter ru_def intro!: filter_cong)
    next
      case False
      then show ?thesis
        using "1.prems"(1,3) Some r p by (auto simp: ready_loop.simps [of nxt idx] filter_True case_prod_beta)
    qed
  qed
qed

lemma find_pos_spec: "nonce \<in> set ns \<Longrightarrow> \<exists>i. find_pos nonce ns = Some i \<and> i < length ns \<and> ns ! i = nonce"
  by (induction ns) force+

section \<open>What the operations do to the contents\<close>

lemma sm_invD:
  assumes "sm_inv m"
  shows "items_ok (items m)" "index_ok (items m) (index m)" "is_heap nonceHeap_Less (index m)"
    "distinct (index m)" "sort (index m) = map AccountNonce (sm_flat (items m))"
proof -
  show i: "items_ok (items m)" "index_ok (items m) (index m)" "is_heap nonceHeap_Less (index m)"
    using assms by (simp_all add: sm_inv_def index_ok_def)
  show "distinct (index m)"
    using i mset_eq_distinct [of "index m" "gm_keys (items m)"]
    by (auto simp: index_ok_def items_ok_def gm_wf_def)
  show "sort (index m) = map AccountNonce (sm_flat (items m))"
    using i by (simp add: sort_index sm_flat_nonces)
qed

lemma index_ok_filter:
  assumes "index_ok its idx" "is_heap nonceHeap_Less idx'" "mset idx' = {#n \<in># mset idx. P n#}"
  shows "index_ok (filter (\<lambda>(n, tx). P n) its) idx'"
proof -
  have "map fst (filter (\<lambda>(n, tx). P n) its) = filter P (gm_keys its)"
    by (induction its) auto
  then show ?thesis using assms by (simp add: index_ok_def)
qed

lemma takeWhile_nonce_sorted:
  assumes "sorted (map AccountNonce txs)"
  shows "takeWhile (\<lambda>n. n < th) (map AccountNonce txs) = map AccountNonce (filter (\<lambda>tx. AccountNonce tx < th) txs)"
  using assms by (induction txs) (auto simp: filter_empty_conv dest: le_less_trans)

lemma drop_filter_sorted:
  assumes "sorted (map AccountNonce txs)"
  shows "drop (length (filter (\<lambda>tx. AccountNonce tx < th) txs)) txs = filter (\<lambda>tx. \<not> AccountNonce tx < th) txs"
  using assms
proof (induction txs)
  case (Cons t txs)
  show ?case
  proof (cases "AccountNonce t < th")
    case False
    then have "\<forall>x \<in> set (t # txs). \<not> AccountNonce x < th"
      using Cons.prems by (auto dest: le_less_trans)
    then have "filter (\<lambda>tx. AccountNonce tx < th) (t # txs) = []"
      and "filter (\<lambda>tx. \<not> AccountNonce tx < th) (t # txs) = t # txs"
      by (simp_all only: filter_False filter_True simp_thms)
    then show ?thesis by (simp only: list.size drop0)
  qed (use Cons in simp)
qed simp

lemma sm_Forward_spec:
  fixes th :: u64
  assumes inv: "sm_inv m"
  defines "low \<equiv> filter (\<lambda>tx. AccountNonce tx < th) (sm_flat (items m))"
  shows "\<exists>m'. sm_Forward m th = Some (map Some low, m') \<and> sm_inv m'
    \<and> items m' = filter (\<lambda>(n, tx). \<not> n < th) (items m)"
proof -
  note i = sm_invD [OF inv]
  obtain r idx its where f: "forward_loop th (index m) (items m) [] = (r, idx, its)"
    by (metis surj_pair)
  have tw: "takeWhile (\<lambda>n. n < th) (sort (index m)) = map AccountNonce low"
    by (simp add: i(5) low_def takeWhile_nonce_sorted sorted_sm_flat)
  have "set (map AccountNonce low) = {n \<in> set (gm_keys (items m)). n < th}"
    using set_flat_nonces [OF i(1)] image_filter_key [of AccountNonce "set (sm_flat (items m))" "\<lambda>n. n < th"]
    by (simp add: low_def)
  then have its: "its = filter (\<lambda>(n, tx). \<not> n < th) (items m)"
    using forward_loop_spec [OF i(3,4) f] unfolding tw by (auto intro!: filter_cong) force
  have r: "r = map Some low"
    using forward_loop_spec [OF i(3,4) f] map_get_flat [OF i(1), of low] unfolding tw
    by (simp add: low_def)
  have idx: "index_ok its idx"
    unfolding its using forward_loop_spec [OF i(3,4) f] by (intro index_ok_filter [OF i(2)]) auto
  have flat: "sm_flat its = filter (\<lambda>tx. \<not> AccountNonce tx < th) (sm_flat (items m))"
    by (simp add: its filter_key_nonce [OF i(1)] sm_flat_filter)
  have "drop (length low) (sm_flat (items m)) = sm_flat its"
    unfolding flat low_def by (rule drop_filter_sorted [OF sorted_sm_flat])
  moreover have "length low \<le> length (sm_flat (items m))" by (simp add: low_def)
  ultimately show ?thesis
    using inv f r idx items_ok_filter [OF i(1)] its
    by (auto simp: sm_Forward_def sm_inv_def split: option.splits)
qed

lemma sm_flat_perm:
  assumes "items_ok its" "distinct ks" "set ks = set (gm_keys its)"
  shows "TxByNonce (List.map_filter (gm_get its) ks) = sm_flat its"
proof -
  have all: "filter (\<lambda>k. gm_get its k \<noteq> None) ks = ks"
    using assms(3) by (simp add: filter_id_conv gm_get_None_iff del: set_map not_None_eq)
  have "map (\<lambda>k. AccountNonce (the (gm_get its k))) ks = ks"
    using assms(1,3) by (intro map_idI) (auto simp: items_ok_def gm_wf_def)
  then have n: "map AccountNonce (List.map_filter (gm_get its) ks) = ks"
    by (simp add: List.map_filter_def all comp_def del: not_None_eq)
  then have "distinct (map AccountNonce (List.map_filter (gm_get its) ks))"
    using assms(2) by simp
  then have i: "inj_on AccountNonce (set (List.map_filter (gm_get its) ks))" and
    d: "distinct (List.map_filter (gm_get its) ks)"
    by (simp_all add: distinct_map)
  have "set (List.map_filter (gm_get its) ks) = snd ` set its"
    using assms by (force simp: List.map_filter_def all items_ok_def gm_wf_def simp del: not_None_eq)
  moreover have d2: "distinct (map snd its)"
    using assms(1) distinct_map [of AccountNonce "map snd its"]
    unfolding items_ok_def gm_wf_def keys_are_nonces [OF assms(1)] by blast
  ultimately have "mset (List.map_filter (gm_get its) ks) = mset (map snd its)"
    using d set_eq_iff_mset_eq_distinct [of "List.map_filter (gm_get its) ks" "map snd its"] by simp
  then show ?thesis
    using sort_key_inj_key_eq [OF _ i, of "sort_key AccountNonce (map snd its)"]
    by (simp add: sm_flat_def TxByNonce_def)
qed

lemma sm_Flatten_spec:
  assumes "sm_inv m" "range_ok rng"
  shows "\<exists>m'. sm_Flatten rng m = (sm_flat (items m), m') \<and> sm_inv m' \<and> items m' = items m"
proof -
  have "distinct (rng (gm_keys (items m)))" "set (rng (gm_keys (items m))) = set (gm_keys (items m))"
    using assms sm_invD(1) [OF assms(1)]
    by (simp_all add: range_ok_distinct range_ok_set items_ok_def gm_wf_def del: set_map)
  then have "TxByNonce (List.map_filter (gm_get (items m)) (rng (gm_keys (items m)))) = sm_flat (items m)"
    using sm_flat_perm sm_invD(1) [OF assms(1)] by blast
  then show ?thesis
    using assms(1) by (auto simp: sm_Flatten_def sm_inv_def Let_def split: option.splits)
qed

lemma sm_Filter_spec:
  assumes inv: "sm_inv m" and rng: "range_ok rng"
  shows "\<exists>r m'. sm_Filter rng m p = (r, m') \<and> sm_inv m' \<and> set r = {tx \<in> set (sm_flat (items m)). p tx}
     \<and> items m' = filter (\<lambda>(n, tx). \<not> p tx) (items m)"
proof -
  note i = sm_invD [OF inv]
  let ?ks = "rng (gm_keys (items m))"
  have ks: "distinct ?ks" "set ?ks = set (gm_keys (items m))"
    using i(1) rng by (simp_all add: range_ok_distinct range_ok_set items_ok_def gm_wf_def del: set_map)
  obtain r its where f: "filter_loop p ?ks (items m) [] = (r, its)" by fastforce
  note sp = filter_loop_spec [OF i(1) ks(1) f]
  have its: "its = filter (\<lambda>(n, tx). \<not> p tx) (items m)"
    using sp ks(2) by (auto intro!: filter_cong simp: rev_image_eqI)
  have "set (List.map_filter (gm_get (items m)) ?ks) = set (sm_flat (items m))"
    by (metis mset_TxByNonce mset_eq_setD sm_flat_perm [OF i(1) ks])
  then have r: "set r = {tx \<in> set (sm_flat (items m)). p tx}" using sp by auto
  have ok: "items_ok its" using its items_ok_filter [OF i(1)] by simp
  show ?thesis
  proof (cases "r = []")
    case True
    then have "its = items m"
      using r its by (auto simp: filter_id_conv set_sm_flat)
    then show ?thesis using True f inv r its by (auto simp: sm_Filter_def)
  next
    case False
    have "index_ok its (heap_init nonceHeap_Less (rng (gm_keys its)))"
      by (simp add: index_ok_def mset_heap_init range_ok_mset [OF rng] nonce_order.is_heap_init)
    then show ?thesis using False f ok r its by (auto simp: sm_Filter_def sm_inv_def)
  qed
qed

lemma take_nonces_flat:
  "items_ok its \<Longrightarrow> take k (sort (gm_keys its)) = map AccountNonce (take k (sm_flat its))"
  by (simp add: take_map flip: sm_flat_nonces)

lemma filter_take_sorted:
  assumes "distinct (map f xs)"
  shows "filter (\<lambda>x. f x \<in> f ` set (take k xs)) xs = take k xs"
  using assms
proof (induction xs arbitrary: k)
  case (Cons x xs)
  show ?case
  proof (cases k)
    case (Suc j)
    have "filter (\<lambda>y. f y \<in> insert (f x) (f ` set (take j xs))) xs = filter (\<lambda>y. f y \<in> f ` set (take j xs)) xs"
      using Cons.prems by (intro filter_cong) (auto, metis imageI)
    then show ?thesis using Cons Suc by simp
  qed simp
qed simp

lemma sm_Cap_spec:
  assumes inv: "sm_inv m"
  shows "\<exists>m'. sm_Cap m th = Some (map Some (rev (drop th (sm_flat (items m)))), m') \<and> sm_inv m'
     \<and> sm_flat (items m') = take th (sm_flat (items m))"
proof (cases "length (items m) \<le> th")
  case True
  then have "length (sm_flat (items m)) \<le> th" by (simp add: sm_flat_def TxByNonce_def)
  then show ?thesis using True inv by (simp add: sm_Cap_def)
next
  case False
  note i = sm_invD [OF inv]
  let ?fl = "sm_flat (items m)" and ?idx = "sort (index m)"
  have len: "length ?fl = length (items m)" by (simp add: sm_flat_def TxByNonce_def)
  have drop: "take (length (items m) - th) (drop th ?idx) = map AccountNonce (drop th ?fl)"
    using len by (simp add: i(5) drop_map)
  have part: "set ?fl = set (take th ?fl) \<union> set (drop th ?fl)"
    by (metis append_take_drop_id set_append)
  have disj: "AccountNonce ` set (take th ?fl) \<inter> AccountNonce ` set (drop th ?fl) = {}"
    using distinct_sm_flat [OF i(1)] by (metis append_take_drop_id distinct_append map_append list.set_map)
  define its where "its = filter (\<lambda>(n, tx). n \<notin> AccountNonce ` set (drop th ?fl)) (items m)"
  have "cap_loop th ?idx (items m) [] (length (items m)) = Some
      ([] @ map (gm_get (items m)) (rev (take (length (items m) - th) (drop th ?idx))),
       filter (\<lambda>(n, tx). n \<notin> set (take (length (items m) - th) (drop th ?idx))) (items m))"
    by (rule cap_loop_spec) (use i False len in \<open>auto simp: i(5) distinct_sm_flat\<close>)
  moreover have "map (gm_get (items m)) (rev (map AccountNonce (drop th ?fl))) = map Some (rev (drop th ?fl))"
    using map_get_flat [OF i(1), of "rev (drop th ?fl)"] part by (simp add: rev_map)
  ultimately have loop: "cap_loop th ?idx (items m) [] (length (items m)) = Some (map Some (rev (drop th ?fl)), its)"
    by (simp add: drop its_def)
  have "its = filter (\<lambda>(n, tx). AccountNonce tx \<in> AccountNonce ` set (take th ?fl)) (items m)"
    unfolding its_def
  proof (rule filter_cong [OF refl])
    fix x assume x: "x \<in> set (items m)"
    then have n: "AccountNonce (snd x) = fst x" and "snd x \<in> set ?fl"
      using i(1) by (auto simp: set_sm_flat items_ok_def)
    then have "fst x \<in> AccountNonce ` set ?fl" by (metis imageI)
    then show "(case x of (n, tx) \<Rightarrow> n \<notin> AccountNonce ` set (drop th ?fl))
        = (case x of (n, tx) \<Rightarrow> AccountNonce tx \<in> AccountNonce ` set (take th ?fl))"
      using part disj n by (simp add: case_prod_beta image_Un) blast
  qed
  then have flat: "sm_flat its = take th ?fl"
    using filter_take_sorted [OF distinct_sm_flat [OF i(1)]] by (simp add: sm_flat_filter)
  have ok: "items_ok its" unfolding its_def by (rule items_ok_filter [OF i(1)])
  have "mset (take th ?idx) = mset (gm_keys its)"
    using sm_flat_nonces [OF ok] by (metis flat i(5) mset_sort take_map)
  then have "index_ok its (heap_init nonceHeap_Less (take th ?idx))"
    by (simp add: index_ok_def mset_heap_init nonce_order.is_heap_init)
  then show ?thesis
    using loop False inv ok flat len by (auto simp: sm_Cap_def sm_inv_def Let_def split: option.splits)
qed

lemma drop_filter_distinct:
  assumes "distinct (map f xs)"
  shows "filter (\<lambda>x. f x \<notin> f ` set (take k xs)) xs = drop k xs"
  using assms
proof (induction xs arbitrary: k)
  case (Cons x xs)
  show ?case
  proof (cases k)
    case (Suc j)
    have "filter (\<lambda>y. f y \<notin> insert (f x) (f ` set (take j xs))) xs = filter (\<lambda>y. f y \<notin> f ` set (take j xs)) xs"
      using Cons.prems by (intro filter_cong) (auto, metis imageI)
    then show ?thesis using Cons Suc by simp
  qed (simp add: filter_True)
qed simp

text \<open>What \<open>Ready(start)\<close> is to return: the consecutive run from the lowest nonce, unless that
  nonce lies above \<open>start\<close>.\<close>

definition ready_run :: "u64 \<Rightarrow> transaction list \<Rightarrow> transaction list" where
  "ready_run start fl = (case fl of [] \<Rightarrow> []
     | tx # _ \<Rightarrow> if AccountNonce tx > start then []
                 else take (length (run (AccountNonce tx) (map AccountNonce fl))) fl)"

lemma index_head:
  assumes "sm_inv m" "index m \<noteq> []"
  shows "sm_flat (items m) \<noteq> []" "AccountNonce (hd (sm_flat (items m))) = index m ! 0"
proof -
  note i = sm_invD [OF assms(1)]
  obtain x h where p: "heap_pop nonceHeap_Less (index m) = Some (x, h)"
    using assms(2) heap_pop_None_iff by (metis not_None_eq surj_pair)
  have "map AccountNonce (sm_flat (items m)) = index m ! 0 # sort h"
    using sort_pop [OF i(3) p] i(5) by simp
  then show "sm_flat (items m) \<noteq> []" "AccountNonce (hd (sm_flat (items m))) = index m ! 0"
    by auto
qed

lemma sm_Ready_spec:
  assumes inv: "sm_inv m"
  shows "\<exists>m'. sm_Ready m start = (map Some (ready_run start (sm_flat (items m))), m') \<and> sm_inv m'
     \<and> sm_flat (items m') = drop (length (ready_run start (sm_flat (items m)))) (sm_flat (items m))"
proof (cases "index m = [] \<or> index m ! 0 > start")
  case True
  note i = sm_invD [OF inv]
  have "ready_run start (sm_flat (items m)) = []"
  proof (cases "index m = []")
    case True
    then have "sm_flat (items m) = []" using i(5) by simp
    then show ?thesis by (simp add: ready_run_def)
  next
    case False
    then show ?thesis
      using True index_head [OF inv False] by (auto simp: ready_run_def split: list.splits)
  qed
  then show ?thesis using True inv by (auto simp: sm_Ready_def)
next
  case False
  note i = sm_invD [OF inv]
  let ?fl = "sm_flat (items m)"
  define k where "k = length (run (index m ! 0) (map AccountNonce ?fl))"
  have hd: "?fl \<noteq> []" "AccountNonce (hd ?fl) = index m ! 0" using False index_head [OF inv] by auto
  then have rr: "ready_run start ?fl = take k ?fl"
    using False by (auto simp: ready_run_def k_def split: list.splits)
  have kl: "k \<le> length ?fl"
    unfolding k_def by (metis length_map length_take min.cobounded1 run_prefix)
  have run: "run (index m ! 0) (sort (index m)) = map AccountNonce (take k ?fl)"
    unfolding i(5) k_def by (metis run_prefix take_map)
  obtain r idx its where f: "ready_loop (index m ! 0) (index m) (items m) [] = (r, idx, its)"
    by (metis surj_pair)
  note sp = ready_loop_spec [OF i(3,4) f, unfolded run]
  have r: "r = map Some (take k ?fl)"
    using sp map_get_flat [OF i(1), of "take k ?fl"] by (simp add: set_take_subset)
  have its: "its = filter (\<lambda>(n, tx). AccountNonce tx \<notin> AccountNonce ` set (take k ?fl)) (items m)"
    using sp filter_key_nonce [OF i(1), of "\<lambda>n. n \<notin> AccountNonce ` set (take k ?fl)"] by simp
  have flat: "sm_flat its = drop k ?fl"
    using drop_filter_distinct [OF distinct_sm_flat [OF i(1)]] by (simp add: its sm_flat_filter)
  have ok: "items_ok its" unfolding its by (rule items_ok_filter [OF i(1)])
  have "mset (index m) = mset (map AccountNonce (take k ?fl)) + mset (map AccountNonce (drop k ?fl))"
    by (metis append_take_drop_id i(5) map_append mset_append mset_sort)
  then have "mset idx = mset (map AccountNonce (drop k ?fl))" using sp by simp
  also have "\<dots> = mset (gm_keys its)" using sm_flat_nonces [OF ok] flat by (metis mset_sort)
  finally have "index_ok its idx" using sp by (simp add: index_ok_def)
  then show ?thesis
    using False f r ok flat kl rr by (auto simp: sm_Ready_def sm_inv_def min_def)
qed

lemma sm_Remove_spec:
  assumes inv: "sm_inv m"
  shows "\<exists>m'. sm_Remove m nonce = (gm_get (items m) nonce \<noteq> None, m') \<and> sm_inv m'
     \<and> items m' = gm_del (items m) nonce"
proof (cases "gm_get (items m) nonce")
  case None
  then have "gm_del (items m) nonce = items m" by (simp add: gm_get_None_iff)
  then show ?thesis using None inv by (simp add: sm_Remove_def)
next
  case (Some tx)
  note i = sm_invD [OF inv]
  have "nonce \<in> set (index m)"
    using Some i(2) by (metis index_ok_def gm_get_None_iff mset_eq_setD option.discI)
  then obtain j where j: "find_pos nonce (index m) = Some j" "j < length (index m)" "index m ! j = nonce"
    using find_pos_spec by blast
  then obtain y h where h: "heap_remove nonceHeap_Less (index m) j = Some (y, h)"
    by (simp add: heap_remove_def Let_def)
  have "mset (index m) = add_mset nonce (mset h)" using heap_remove_cases [OF h] j(3) by simp
  then have "mset h = mset (index m) - {#nonce#}" by simp
  also have "\<dots> = mset (gm_keys (gm_del (items m) nonce))"
    using i(1,2) mset_gm_keys_del [of "items m" nonce] by (simp add: index_ok_def items_ok_def)
  finally have "mset h = mset (gm_keys (gm_del (items m) nonce))" .
  then have "index_ok (gm_del (items m) nonce) h"
    using nonce_order.is_heap_remove [OF i(3) h] by (simp add: index_ok_def)
  moreover have "items_ok (gm_del (items m) nonce)"
    by (simp add: gm_del_filter items_ok_filter [OF i(1)])
  ultimately show ?thesis using Some j h by (simp add: sm_Remove_def sm_inv_def)
qed

lemma sm_inv_new [inv_rules]: "sm_inv newTxSortedMap"
  by (simp add: sm_inv_def newTxSortedMap_def items_ok_def index_ok_def)

lemma sm_inv_Put [inv_rules]:
  assumes inv: "sm_inv m"
  shows "sm_inv (sm_Put m tx)"
proof -
  note i = sm_invD [OF inv]
  have "items_ok (gm_put (items m) (AccountNonce tx) tx)"
    using i(1) by (auto simp: items_ok_def gm_wf_put dest!: set_gm_put_cases)
  moreover have "index_ok (gm_put (items m) (AccountNonce tx) tx)
      (if gm_get (items m) (AccountNonce tx) = None
       then heap_push nonceHeap_Less (index m) (AccountNonce tx) else index m)"
    using i(2) by (auto simp: index_ok_def mset_gm_keys_put gm_get_None_iff mset_heap_push
        nonce_order.is_heap_push simp del: set_map mset_map)
  ultimately show ?thesis by (simp add: sm_Put_def sm_inv_def)
qed

lemma sm_Get_Put [simp]: "sm_Get (sm_Put m tx) n = (if n = AccountNonce tx then Some tx else sm_Get m n)"
  by (simp add: sm_Get_def sm_Put_def gm_get_put)

section \<open>Every map the pool can build satisfies the invariant\<close>

inductive sm_reachable :: "txSortedMap \<Rightarrow> bool" where
  new: "sm_reachable newTxSortedMap"
| put: "sm_reachable m \<Longrightarrow> sm_reachable (sm_Put m tx)"
| forward: "sm_reachable m \<Longrightarrow> sm_Forward m th = Some (r, m') \<Longrightarrow> sm_reachable m'"
| filter: "sm_reachable m \<Longrightarrow> range_ok rng \<Longrightarrow> sm_reachable (snd (sm_Filter rng m p))"
| cap: "sm_reachable m \<Longrightarrow> sm_Cap m k = Some (r, m') \<Longrightarrow> sm_reachable m'"
| remove: "sm_reachable m \<Longrightarrow> sm_reachable (snd (sm_Remove m nonce))"
| ready: "sm_reachable m \<Longrightarrow> sm_reachable (snd (sm_Ready m start))"
| flatten: "sm_reachable m \<Longrightarrow> range_ok rng \<Longrightarrow> sm_reachable (snd (sm_Flatten rng m))"

lemma reachable_inv: "sm_reachable m \<Longrightarrow> sm_inv m"
proof (induction rule: sm_reachable.induct)
  case (forward m th r m')
  then show ?case using sm_Forward_spec [of m th] by auto
next
  case (filter m rng p)
  then show ?case using sm_Filter_spec [of m rng p] by auto
next
  case (cap m k r m')
  then show ?case using sm_Cap_spec [of m k] by auto
next
  case (remove m nonce)
  then show ?case using sm_Remove_spec [of m nonce] by auto
next
  case (ready m start)
  then show ?case using sm_Ready_spec [of m start] by auto
next
  case (flatten m rng)
  then show ?case using sm_Flatten_spec [of m rng] by auto
qed (auto intro: sm_inv_new sm_inv_Put)

text \<open>The same two transactions, inserted out of order, serve all instances below.\<close>

definition sample_map :: txSortedMap where
  "sample_map = sm_Put (sm_Put newTxSortedMap (sample_tx 5 1)) (sample_tx 3 1)"

lemma sample_map_reachable: "sm_reachable sample_map"
  unfolding sample_map_def by (intro sm_reachable.put sm_reachable.new)

lemma sample_map_flat: "sm_flat (items sample_map) = [sample_tx 3 1, sample_tx 5 1]"
  by (simp add: sm_flat_def TxByNonce_def sample_map_def sm_Put_def newTxSortedMap_def sample_tx_def
      newTransaction_def)

text \<open>In every map reachable through the operations, the heap of nonces holds exactly the nonces of
  the stored transactions in heap order, every transaction is stored under its own nonce, and the cache,
  when present, is the nonce-sorted list of the contents; so \<open>Flatten\<close> returns that list, cached or not, for
  every map iteration order.\<close>

theorem sorted_map_flatten_correct:
  assumes "sm_reachable m" "range_ok rng"
  shows "sm_inv m \<and> fst (sm_Flatten rng m) = sm_flat (items m)
    \<and> sorted (map AccountNonce (fst (sm_Flatten rng m))) \<and> distinct (map AccountNonce (fst (sm_Flatten rng m)))"
proof -
  have inv: "sm_inv m" by (rule reachable_inv [OF assms(1)])
  obtain m' where "sm_Flatten rng m = (sm_flat (items m), m')"
    using sm_Flatten_spec [OF inv assms(2)] by blast
  then show ?thesis
    using inv sorted_sm_flat distinct_sm_flat [OF sm_invD(1) [OF inv]] by simp
qed

theorem sorted_map_flatten_correct_witness:
  "sm_reachable sample_map \<and> range_ok (rev :: u64 list \<Rightarrow> u64 list)
    \<and> fst (sm_Flatten rev sample_map) = [sample_tx 3 1, sample_tx 5 1]"
  using sorted_map_flatten_correct [OF sample_map_reachable range_ok_rev] sample_map_reachable range_ok_rev
  by (simp add: sample_map_flat)

text \<open>\<open>Forward(threshold)\<close> on a reachable map never panics; it returns the transactions with a nonce
  below the threshold in increasing nonce order and leaves exactly the others.\<close>

theorem sorted_map_forward_correct:
  assumes "sm_reachable m"
  shows "\<exists>m'. sm_Forward m th = Some (map Some (filter (\<lambda>tx. AccountNonce tx < th) (sm_flat (items m))), m')
    \<and> sm_flat (items m') = filter (\<lambda>tx. \<not> AccountNonce tx < th) (sm_flat (items m))"
proof -
  have inv: "sm_inv m" by (rule reachable_inv [OF assms])
  show ?thesis
    using sm_Forward_spec [OF inv, of th] filter_key_nonce [OF sm_invD(1) [OF inv], of "\<lambda>n. \<not> n < th"]
    by (auto simp: sm_flat_filter)
qed

theorem sorted_map_forward_correct_witness:
  "sm_reachable sample_map \<and> (\<exists>m'. sm_Forward sample_map 4 = Some ([Some (sample_tx 3 1)], m')
     \<and> sm_flat (items m') = [sample_tx 5 1])"
  using sorted_map_forward_correct [OF sample_map_reachable, of 4] sample_map_reachable
  by (simp add: sample_map_flat) (simp add: sample_tx_def newTransaction_def)

text \<open>\<open>Ready(start)\<close> on a reachable map returns, in order, the longest run of consecutive nonces from
  the lowest stored nonce (and nothing when that nonce lies above \<open>start\<close>), and removes just these.\<close>

theorem sorted_map_ready_correct:
  assumes "sm_reachable m"
  shows "\<exists>m'. sm_Ready m start = (map Some (ready_run start (sm_flat (items m))), m')
    \<and> sm_flat (items m') = drop (length (ready_run start (sm_flat (items m)))) (sm_flat (items m))"
  using sm_Ready_spec [OF reachable_inv [OF assms], of start] by blast

theorem sorted_map_ready_correct_witness:
  "sm_reachable sample_map \<and> (\<exists>m'. sm_Ready sample_map 3 = ([Some (sample_tx 3 1)], m')
     \<and> sm_flat (items m') = [sample_tx 5 1])"
  using sorted_map_ready_correct [OF sample_map_reachable, of 3] sample_map_reachable
  by (simp add: sample_map_flat ready_run_def) (simp add: sample_tx_def newTransaction_def)

text \<open>\<open>Cap(k)\<close> on a reachable map never panics; it keeps the \<open>k\<close> lowest nonces and returns the
  dropped transactions from the highest nonce downwards.\<close>

theorem sorted_map_cap_correct:
  assumes "sm_reachable m"
  shows "\<exists>m'. sm_Cap m k = Some (map Some (rev (drop k (sm_flat (items m)))), m')
    \<and> sm_flat (items m') = take k (sm_flat (items m))"
  using sm_Cap_spec [OF reachable_inv [OF assms], of k] by blast

theorem sorted_map_cap_correct_witness:
  "sm_reachable sample_map \<and> (\<exists>m'. sm_Cap sample_map 1 = Some ([Some (sample_tx 5 1)], m')
     \<and> sm_flat (items m') = [sample_tx 3 1])"
  using sorted_map_cap_correct [OF sample_map_reachable, of 1] sample_map_reachable
  by (simp add: sample_map_flat)

end
