(* ===== verification/Tx_List.thy ===== *)
theory Tx_List
  imports Tx_Sorted_Map
begin

text \<open>
  \<open>txList\<close> and \<open>txPricedList\<close> of \<open>core/tx_list.go\<close>, with \<open>accountSet\<close> and \<open>txLookup\<close> of
  \<open>core/tx_pool.go\<close> that they use.

  \<open>txList\<close> keeps one account's transactions and two cached bounds, the highest cost and the highest
  gas limit, that let \<open>Filter\<close> return without a scan. The locale \<open>nonce_store\<close> is the contract it
  relies on, and \<open>txSortedMap\<close> satisfies it. \<open>txPricedList\<close> is a heap of all transactions by price with
  lazily removed (stale) entries.
\<close>

section \<open>txList\<close>

record txList =
  strict :: bool
  txs :: txSortedMap
  costcap :: bigint
  gascap :: u64

definition newTxList :: "bool \<Rightarrow> txList" where
  "newTxList s = \<lparr>strict = s, txs = newTxSortedMap, costcap = 0, gascap = 0\<rparr>"

definition Overlaps :: "txList \<Rightarrow> transaction \<Rightarrow> bool" where
  "Overlaps l tx \<longleftrightarrow> sm_Get (txs l) (AccountNonce tx) \<noteq> None"

text \<open>\<open>big.NewInt(100 + int64(priceBump))\<close>: the conversion and the sum are 64-bit and signed.\<close>

definition bump_threshold :: "bigint \<Rightarrow> u64 \<Rightarrow> bigint" where
  "bump_threshold price priceBump = price * sint (100 + priceBump) div 100"

definition tl_Add :: "txList \<Rightarrow> transaction \<Rightarrow> u64 \<Rightarrow> (bool \<times> txptr) \<times> txList" where
  "tl_Add l tx priceBump =
     (let old = sm_Get (txs l) (AccountNonce tx)
      in if (case old of None \<Rightarrow> False
             | Some o' \<Rightarrow> Price o' \<ge> Price tx \<or> bump_threshold (Price o') priceBump > Price tx)
         then ((False, None), l)
         else ((True, old),
               l\<lparr>txs := sm_Put (txs l) tx,
                 costcap := (if costcap l < Cost tx then Cost tx else costcap l),
                 gascap := (if gascap l < GasLimit tx then GasLimit tx else gascap l)\<rparr>))"

definition tl_Forward :: "txList \<Rightarrow> u64 \<Rightarrow> (txptr list \<times> txList) option" where
  "tl_Forward l threshold = map_option (\<lambda>(r, m). (r, l\<lparr>txs := m\<rparr>)) (sm_Forward (txs l) threshold)"

definition lowest_nonce :: "transaction list \<Rightarrow> u64" where
  "lowest_nonce removed = fold (\<lambda>tx lowest. if lowest > AccountNonce tx then AccountNonce tx else lowest) removed (- 1)"

definition tl_Filter ::
  "(u64 list \<Rightarrow> u64 list) \<Rightarrow> txList \<Rightarrow> bigint \<Rightarrow> u64 \<Rightarrow> (transaction list \<times> transaction list) \<times> txList" where
  "tl_Filter rng l costLimit gasLimit =
     (if costcap l \<le> costLimit \<and> gascap l \<le> gasLimit then (([], []), l)
      else let (removed, m) = sm_Filter rng (txs l) (\<lambda>tx. Cost tx > costLimit \<or> GasLimit tx > gasLimit);
               l' = l\<lparr>txs := m, costcap := costLimit, gascap := gasLimit\<rparr>
           in if strict l \<and> 0 < length removed
              then let (invalids, m') = sm_Filter rng m (\<lambda>tx. AccountNonce tx > lowest_nonce removed)
                   in ((removed, invalids), l'\<lparr>txs := m'\<rparr>)
              else ((removed, []), l'))"

definition tl_Cap :: "txList \<Rightarrow> nat \<Rightarrow> (txptr list \<times> txList) option" where
  "tl_Cap l threshold = map_option (\<lambda>(r, m). (r, l\<lparr>txs := m\<rparr>)) (sm_Cap (txs l) threshold)"

text \<open>The threshold of \<open>Cap\<close> is an \<open>int\<close>: below zero the loop indexes before the first entry and panics.\<close>

definition tl_Cap_int :: "txList \<Rightarrow> int \<Rightarrow> (txptr list \<times> txList) option" where
  "tl_Cap_int l threshold = (if threshold < 0 then None else tl_Cap l (nat threshold))"

definition tl_Remove ::
  "(u64 list \<Rightarrow> u64 list) \<Rightarrow> txList \<Rightarrow> transaction \<Rightarrow> (bool \<times> transaction list) \<times> txList" where
  "tl_Remove rng l tx =
     (let nonce = AccountNonce tx; (removed, m) = sm_Remove (txs l) nonce
      in if \<not> removed then ((False, []), l\<lparr>txs := m\<rparr>)
         else if strict l
         then let (invalids, m') = sm_Filter rng m (\<lambda>tx. AccountNonce tx > nonce)
              in ((True, invalids), l\<lparr>txs := m'\<rparr>)
         else ((True, []), l\<lparr>txs := m\<rparr>))"

definition tl_Ready :: "txList \<Rightarrow> u64 \<Rightarrow> txptr list \<times> txList" where
  "tl_Ready l start = (let (r, m) = sm_Ready (txs l) start in (r, l\<lparr>txs := m\<rparr>))"

definition tl_Len :: "txList \<Rightarrow> nat" where
  "tl_Len l = sm_Len (txs l)"

definition tl_Empty :: "txList \<Rightarrow> bool" where
  "tl_Empty l \<longleftrightarrow> tl_Len l = 0"

definition tl_Flatten :: "(u64 list \<Rightarrow> u64 list) \<Rightarrow> txList \<Rightarrow> transaction list \<times> txList" where
  "tl_Flatten rng l = (let (r, m) = sm_Flatten rng (txs l) in (r, l\<lparr>txs := m\<rparr>))"

section \<open>The contract of a nonce-keyed store\<close>

locale nonce_store =
  fixes inv :: "'m \<Rightarrow> bool"
    and contents :: "'m \<Rightarrow> transaction set"
    and put :: "'m \<Rightarrow> transaction \<Rightarrow> 'm"
    and sfilter :: "(u64 list \<Rightarrow> u64 list) \<Rightarrow> 'm \<Rightarrow> (transaction \<Rightarrow> bool) \<Rightarrow> transaction list \<times> 'm"
  assumes put_inv: "inv m \<Longrightarrow> inv (put m tx)"
    and put_contents: "inv m \<Longrightarrow>
      contents (put m tx) = insert tx {t \<in> contents m. AccountNonce t \<noteq> AccountNonce tx}"
    and filter_inv: "inv m \<Longrightarrow> range_ok rng \<Longrightarrow> inv (snd (sfilter rng m p))"
    and filter_removed: "inv m \<Longrightarrow> range_ok rng \<Longrightarrow> set (fst (sfilter rng m p)) = {t \<in> contents m. p t}"
    and filter_contents: "inv m \<Longrightarrow> range_ok rng \<Longrightarrow> contents (snd (sfilter rng m p)) = {t \<in> contents m. \<not> p t}"
begin

lemma put_bounded:
  fixes f :: "transaction \<Rightarrow> 'b :: linorder"
  assumes "inv m" "\<forall>t \<in> contents m. f t \<le> c"
  shows "\<forall>t \<in> contents (put m tx). f t \<le> (if c < f tx then f tx else c)"
  using assms by (auto simp: put_contents)

lemma filter_idle:
  assumes "inv m" "range_ok rng" "\<forall>t \<in> contents m. \<not> p t"
  shows "fst (sfilter rng m p) = []" "contents (snd (sfilter rng m p)) = contents m"
proof -
  have "set (fst (sfilter rng m p)) = {}" using assms by (simp add: filter_removed)
  then show "fst (sfilter rng m p) = []" by simp
  show "contents (snd (sfilter rng m p)) = contents m"
    using assms by (auto simp: filter_contents)
qed

lemma filter_twice:
  assumes "inv m" "range_ok rng"
  shows "contents (snd (sfilter rng (snd (sfilter rng m p)) q)) = {t \<in> contents m. \<not> p t \<and> \<not> q t}"
    "set (fst (sfilter rng (snd (sfilter rng m p)) q)) = {t \<in> contents m. \<not> p t \<and> q t}"
  using assms by (auto simp: filter_contents filter_removed filter_inv)

end

definition sm_contents :: "txSortedMap \<Rightarrow> transaction set" where
  "sm_contents m = set (sm_flat (items m))"

lemma sm_contents_eq: "sm_contents m = snd ` set (items m)"
  by (simp add: sm_contents_def set_sm_flat)

lemma sm_Put_contents:
  assumes "sm_inv m"
  shows "sm_contents (sm_Put m tx) = insert tx {t \<in> sm_contents m. AccountNonce t \<noteq> AccountNonce tx}"
proof -
  have ok: "items_ok its \<Longrightarrow> snd ` set its = {t. gm_get its (AccountNonce t) = Some t}" for its
    by (force simp: items_ok_def gm_wf_def)
  have "items_ok (items (sm_Put m tx))" "items_ok (items m)"
    using assms sm_inv_Put [OF assms, of tx] by (simp_all add: sm_inv_def)
  then show ?thesis
    by (auto simp: sm_contents_eq ok sm_Put_def gm_get_put)
qed

interpretation sm: nonce_store sm_inv sm_contents sm_Put sm_Filter
proof
  fix m tx p and rng :: "u64 list \<Rightarrow> u64 list" assume inv: "sm_inv m"
  show "sm_inv (sm_Put m tx)" by (rule sm_inv_Put [OF inv])
  show "sm_contents (sm_Put m tx) = insert tx {t \<in> sm_contents m. AccountNonce t \<noteq> AccountNonce tx}"
    by (rule sm_Put_contents [OF inv])
  assume rng: "range_ok rng"
  obtain r m' where "sm_Filter rng m p = (r, m')" "sm_inv m'" "set r = {tx \<in> set (sm_flat (items m)). p tx}"
    "items m' = filter (\<lambda>(n, tx). \<not> p tx) (items m)"
    using sm_Filter_spec [OF inv rng] by blast
  then show "sm_inv (snd (sm_Filter rng m p))"
    "set (fst (sm_Filter rng m p)) = {t \<in> sm_contents m. p t}"
    "sm_contents (snd (sm_Filter rng m p)) = {t \<in> sm_contents m. \<not> p t}"
    by (simp_all add: sm_contents_def sm_flat_filter)
qed

section \<open>Properties of txList\<close>

definition tl_inv :: "txList \<Rightarrow> bool" where
  "tl_inv l \<longleftrightarrow> sm_inv (txs l)
     \<and> (\<forall>t \<in> sm_contents (txs l). Cost t \<le> costcap l) \<and> (\<forall>t \<in> sm_contents (txs l). GasLimit t \<le> gascap l)"

lemma tl_inv_new [inv_rules]: "tl_inv (newTxList s)"
  using sm_inv_new by (simp add: tl_inv_def newTxList_def sm_contents_eq newTxSortedMap_def)

lemma tl_inv_Add [inv_rules]:
  assumes "tl_inv l"
  shows "tl_inv (snd (tl_Add l tx bump))"
  using assms sm.put_bounded [of "txs l" Cost "costcap l" tx] sm.put_bounded [of "txs l" GasLimit "gascap l" tx]
  by (simp add: tl_inv_def tl_Add_def sm_inv_Put)

lemma lowest_nonce_le: "t \<in> set ts \<Longrightarrow> lowest_nonce ts \<le> AccountNonce t"
  and lowest_nonce_in: "ts \<noteq> [] \<Longrightarrow> lowest_nonce ts \<in> AccountNonce ` set ts"
proof -
  let ?f = "\<lambda>tx lowest. if lowest > AccountNonce tx then AccountNonce tx else lowest"
  have eq: "fold ?f xs a = fold min (map AccountNonce xs) a" for xs a
    by (induction xs arbitrary: a) (auto simp: min_def not_less)
  have top: "min (AccountNonce x) (- 1) = AccountNonce x" for x
    by (simp add: min_def word_n1_ge)
  have min: "fold min xs a = Min (set (a # xs))" for xs :: "u64 list" and a
    by (rule Min.set_eq_fold [symmetric])
  show "lowest_nonce ts \<le> AccountNonce t" if "t \<in> set ts"
    unfolding lowest_nonce_def eq min by (rule Min_le) (use that in auto)
  show "lowest_nonce ts \<in> AccountNonce ` set ts" if ne: "ts \<noteq> []"
  proof -
    obtain x xs where ts: "ts = x # xs" using ne by (cases ts) auto
    have "lowest_nonce ts = fold min (map AccountNonce xs) (min (AccountNonce x) (- 1))"
      unfolding lowest_nonce_def eq by (simp only: ts list.map fold_Cons comp_apply)
    then have "lowest_nonce ts = Min (set (map AccountNonce ts))"
      by (simp only: top min) (simp add: ts)
    then show ?thesis using Min_in [of "set (map AccountNonce ts)"] ts by simp
  qed
qed

text \<open>A list that is not strict keeps what is within the limits; a strict one also drops every
  transaction above the lowest removed nonce.\<close>

definition within :: "bigint \<Rightarrow> u64 \<Rightarrow> transaction \<Rightarrow> bool" where
  "within costLimit gasLimit t \<longleftrightarrow> Cost t \<le> costLimit \<and> GasLimit t \<le> gasLimit"

definition kept :: "bool \<Rightarrow> bigint \<Rightarrow> u64 \<Rightarrow> transaction set \<Rightarrow> transaction set" where
  "kept st costLimit gasLimit T = {t \<in> T. within costLimit gasLimit t
     \<and> (st \<longrightarrow> (\<forall>u \<in> T. \<not> within costLimit gasLimit u \<longrightarrow> AccountNonce t \<le> AccountNonce u))}"

lemma tl_Filter_spec:
  assumes inv: "tl_inv l" and rng: "range_ok rng"
    and res: "tl_Filter rng l costLimit gasLimit = ((removed, invalids), l')"
  shows "set removed = {t \<in> sm_contents (txs l). \<not> within costLimit gasLimit t}"
    and "sm_contents (txs l') = kept (strict l) costLimit gasLimit (sm_contents (txs l))"
    and "set invalids = sm_contents (txs l) - set removed - sm_contents (txs l')"
    and "tl_inv l'"
proof -
  let ?T = "sm_contents (txs l)" and ?p = "\<lambda>tx. Cost tx > costLimit \<or> GasLimit tx > gasLimit"
  have p: "?p t \<longleftrightarrow> \<not> within costLimit gasLimit t" for t by (auto simp: within_def not_le)
  have sinv: "sm_inv (txs l)" using inv by (simp add: tl_inv_def)
  note f = sm.filter_inv [OF sinv rng, of ?p] sm.filter_removed [OF sinv rng, of ?p]
    sm.filter_contents [OF sinv rng, of ?p]
  have all: "set removed = {t \<in> ?T. \<not> within costLimit gasLimit t}
    \<and> sm_contents (txs l') = kept (strict l) costLimit gasLimit ?T
    \<and> set invalids = ?T - set removed - sm_contents (txs l') \<and> tl_inv l'"
  proof (cases "costcap l \<le> costLimit \<and> gascap l \<le> gasLimit")
    case True
    then have "\<forall>t \<in> ?T. within costLimit gasLimit t"
      using inv by (fastforce simp: tl_inv_def within_def intro: order_trans)
    then show ?thesis using True res inv by (auto simp: tl_Filter_def kept_def)
  next
    case slow: False
    obtain r m where r: "sm_Filter rng (txs l) ?p = (r, m)" by fastforce
    have m: "sm_inv m" "set r = {t \<in> ?T. \<not> within costLimit gasLimit t}"
      "sm_contents m = {t \<in> ?T. within costLimit gasLimit t}"
      using f [unfolded r fst_conv snd_conv] by (simp_all add: p)
    show ?thesis
    proof (cases "strict l \<and> r \<noteq> []")
      case True
      let ?q = "\<lambda>tx. AccountNonce tx > lowest_nonce r"
      obtain r2 m2 where r2: "sm_Filter rng m ?q = (r2, m2)" by fastforce
      note g = sm.filter_inv [OF m(1) rng, of ?q] sm.filter_removed [OF m(1) rng, of ?q]
        sm.filter_contents [OF m(1) rng, of ?q]
      have low: "\<not> ?q t \<longleftrightarrow> (\<forall>u \<in> set r. AccountNonce t \<le> AccountNonce u)" for t
        using lowest_nonce_le [of _ r] lowest_nonce_in [of r] True
        by (auto simp: not_less intro: order_trans)
      have res': "removed = r" "invalids = r2"
        "l' = l\<lparr>txs := m2, costcap := costLimit, gascap := gasLimit\<rparr>"
        using res slow True r r2 by (auto simp: tl_Filter_def)
      have lowT: "(\<forall>u \<in> ?T. \<not> within costLimit gasLimit u \<longrightarrow> AccountNonce t \<le> AccountNonce u) \<longleftrightarrow> \<not> ?q t" for t
        unfolding low m(2) by blast
      have "sm_contents m2 = {t \<in> ?T. within costLimit gasLimit t \<and> \<not> ?q t}"
        using g(3) [unfolded r2 snd_conv] by (simp add: m(3) conj_assoc)
      then have "sm_contents m2 = kept (strict l) costLimit gasLimit ?T"
        using True by (simp only: kept_def lowT simp_thms)
      then show ?thesis
        using g m res' low by (auto simp: r2 tl_inv_def within_def not_less)
    next
      case False
      then have res': "removed = r" "invalids = []"
        "l' = l\<lparr>txs := m, costcap := costLimit, gascap := gasLimit\<rparr>"
        using res slow r by (auto simp: tl_Filter_def)
      have "strict l \<Longrightarrow> \<forall>u \<in> ?T. within costLimit gasLimit u"
        using False m(2) by auto
      then have "sm_contents m = kept (strict l) costLimit gasLimit ?T"
        using m(3) by (auto simp: kept_def)
      then show ?thesis using m res' by (auto simp: tl_inv_def within_def)
    qed
  qed
  from all show "set removed = {t \<in> ?T. \<not> within costLimit gasLimit t}"
    "sm_contents (txs l') = kept (strict l) costLimit gasLimit ?T"
    "set invalids = ?T - set removed - sm_contents (txs l')" "tl_inv l'"
    by blast+
qed

lemma tl_inv_shrink:
  assumes "tl_inv l" "sm_inv m" "sm_contents m \<subseteq> sm_contents (txs l)"
  shows "tl_inv (l\<lparr>txs := m\<rparr>)"
  using assms by (auto simp: tl_inv_def)

lemma tl_inv_Forward:
  assumes "tl_inv l" "tl_Forward l th = Some (r, l')"
  shows "tl_inv l'"
proof -
  have sm: "sm_inv (txs l)" using assms(1) by (simp add: tl_inv_def)
  obtain m where m: "sm_Forward (txs l) th = Some (r, m)" "l' = l\<lparr>txs := m\<rparr>"
    using assms(2) by (auto simp: tl_Forward_def)
  then have "sm_inv m" "items m = filter (\<lambda>(n, tx). \<not> n < th) (items (txs l))"
    using sm_Forward_spec [OF sm, of th] by auto
  then show ?thesis using tl_inv_shrink [OF assms(1)] m(2) by (force simp: sm_contents_eq)
qed

lemma tl_inv_Cap:
  assumes "tl_inv l" "tl_Cap l k = Some (r, l')"
  shows "tl_inv l'"
proof -
  have sm: "sm_inv (txs l)" using assms(1) by (simp add: tl_inv_def)
  obtain m where m: "sm_Cap (txs l) k = Some (r, m)" "l' = l\<lparr>txs := m\<rparr>"
    using assms(2) by (auto simp: tl_Cap_def)
  then have "sm_inv m" "sm_flat (items m) = take k (sm_flat (items (txs l)))"
    using sm_Cap_spec [OF sm, of k] by auto
  then show ?thesis
    using tl_inv_shrink [OF assms(1)] m(2) set_take_subset by (metis sm_contents_def)
qed

lemma tl_inv_Ready:
  assumes "tl_inv l"
  shows "tl_inv (snd (tl_Ready l start))"
proof -
  have sm: "sm_inv (txs l)" using assms(1) by (simp add: tl_inv_def)
  obtain r m where m: "sm_Ready (txs l) start = (r, m)" by fastforce
  then have "sm_inv m" "sm_flat (items m) = drop (length (ready_run start (sm_flat (items (txs l))))) (sm_flat (items (txs l)))"
    using sm_Ready_spec [OF sm, of start] by auto
  then have "tl_inv (l\<lparr>txs := m\<rparr>)"
    using tl_inv_shrink [OF assms(1)] set_drop_subset by (metis sm_contents_def)
  then show ?thesis by (simp add: tl_Ready_def m)
qed

lemma tl_inv_Flatten:
  assumes "tl_inv l" "range_ok rng"
  shows "tl_inv (snd (tl_Flatten rng l))"
proof -
  have sm: "sm_inv (txs l)" using assms(1) by (simp add: tl_inv_def)
  obtain m where "sm_Flatten rng (txs l) = (sm_flat (items (txs l)), m)" "sm_inv m" "items m = items (txs l)"
    using sm_Flatten_spec [OF sm assms(2)] by blast
  then show ?thesis
    using tl_inv_shrink [OF assms(1), of m] by (simp add: tl_Flatten_def sm_contents_def)
qed

lemma tl_inv_Remove:
  assumes "tl_inv l" "range_ok rng"
  shows "tl_inv (snd (tl_Remove rng l tx))"
proof -
  have sm: "sm_inv (txs l)" using assms(1) by (simp add: tl_inv_def)
  obtain b m where m: "sm_Remove (txs l) (AccountNonce tx) = (b, m)" by fastforce
  then have im: "sm_inv m" "items m = gm_del (items (txs l)) (AccountNonce tx)"
    using sm_Remove_spec [OF sm, of "AccountNonce tx"] by auto
  then have sub: "sm_contents m \<subseteq> sm_contents (txs l)"
    by (auto simp: sm_contents_eq gm_del_filter)
  let ?q = "\<lambda>t. AccountNonce t > AccountNonce tx"
  obtain r2 m2 where m2: "sm_Filter rng m ?q = (r2, m2)" by fastforce
  have "sm_inv m2" "sm_contents m2 \<subseteq> sm_contents m"
    using sm.filter_inv [OF im(1) assms(2), of ?q] sm.filter_contents [OF im(1) assms(2), of ?q] by (auto simp: m2)
  then have "tl_inv (l\<lparr>txs := m2\<rparr>)" "tl_inv (l\<lparr>txs := m\<rparr>)"
    using tl_inv_shrink [OF assms(1)] im(1) sub by blast+
  then show ?thesis by (simp add: tl_Remove_def m m2)
qed

inductive tl_reachable :: "txList \<Rightarrow> bool" where
  new: "tl_reachable (newTxList s)"
| add: "tl_reachable l \<Longrightarrow> tl_reachable (snd (tl_Add l tx bump))"
| forward: "tl_reachable l \<Longrightarrow> tl_Forward l th = Some (r, l') \<Longrightarrow> tl_reachable l'"
| filter: "tl_reachable l \<Longrightarrow> range_ok rng \<Longrightarrow> tl_reachable (snd (tl_Filter rng l c g))"
| cap: "tl_reachable l \<Longrightarrow> tl_Cap l k = Some (r, l') \<Longrightarrow> tl_reachable l'"
| remove: "tl_reachable l \<Longrightarrow> range_ok rng \<Longrightarrow> tl_reachable (snd (tl_Remove rng l tx))"
| ready: "tl_reachable l \<Longrightarrow> tl_reachable (snd (tl_Ready l start))"
| flatten: "tl_reachable l \<Longrightarrow> range_ok rng \<Longrightarrow> tl_reachable (snd (tl_Flatten rng l))"

lemma tl_reachable_inv: "tl_reachable l \<Longrightarrow> tl_inv l"
proof (induction rule: tl_reachable.induct)
  case (filter l rng c g)
  obtain a b l' where "tl_Filter rng l c g = ((a, b), l')" by (metis surj_pair)
  then show ?case using tl_Filter_spec(4) [OF filter(3,2)] by simp
qed (auto intro: tl_inv_new tl_inv_Add tl_inv_Forward tl_inv_Cap tl_inv_Remove tl_inv_Ready tl_inv_Flatten)

definition sample_list :: txList where
  "sample_list = snd (tl_Add (snd (tl_Add (newTxList True) (sample_tx 3 7) 10)) (sample_tx 4 1) 10)"

lemma sample_list_reachable: "tl_reachable sample_list"
  unfolding sample_list_def by (intro tl_reachable.add tl_reachable.new)

lemmas sample_list_eval = sample_list_def tl_Add_def newTxList_def newTxSortedMap_def sm_Get_def sm_Put_def
  sample_tx_def newTransaction_def Cost_def bump_threshold_def

text \<open>C25: Whenever \<open>Filter(costLimit, gasLimit)\<close> runs on a list built through the operations, whether it
  takes the shortcut through the cached caps or scans, it removes exactly the transactions above a limit; a
  strict list also gives up everything above the lowest removed nonce, and nothing else is lost.\<close>

theorem tx_list_filter_exact:
  assumes "tl_reachable l" "range_ok rng" "tl_Filter rng l costLimit gasLimit = ((removed, invalids), l')"
  shows "set removed = {t \<in> sm_contents (txs l). \<not> within costLimit gasLimit t}
    \<and> sm_contents (txs l') = kept (strict l) costLimit gasLimit (sm_contents (txs l))
    \<and> set invalids = sm_contents (txs l) - set removed - sm_contents (txs l')"
  using tl_Filter_spec [OF tl_reachable_inv [OF assms(1)] assms(2,3)] by blast

theorem tx_list_filter_exact_witness:
  "tl_reachable sample_list \<and> range_ok (\<lambda>ks :: u64 list. ks)
    \<and> (\<exists>removed invalids l'. tl_Filter (\<lambda>ks. ks) sample_list 30000 50000 = ((removed, invalids), l')
        \<and> set removed = {t \<in> sm_contents (txs sample_list). \<not> within 30000 50000 t})"
proof -
  obtain a b l' where f: "tl_Filter (\<lambda>ks. ks) sample_list 30000 50000 = ((a, b), l')" by (metis surj_pair)
  show ?thesis
    using tx_list_filter_exact [OF sample_list_reachable range_ok_id f] f sample_list_reachable range_ok_id
    by blast
qed

lemma sint_bump:
  fixes b :: u64
  assumes "unat b + 100 < 2 ^ 63"
  shows "sint (100 + b) = 100 + int (unat b)"
proof -
  have lt: "unat (100 :: u64) + unat b < 2 ^ 64" using assms by simp
  have n: "unat (100 + b) = 100 + unat b" using unat_add_lem [of 100 b, THEN iffD1] lt by simp
  have "uint (100 + b) = 100 + int (unat b)" using arg_cong [OF n, of int] by simp
  moreover have "100 + int (unat b) < 2 ^ 63"
    using assms by (metis add.commute of_nat_add of_nat_less_iff of_nat_numeral of_nat_power)
  ultimately show ?thesis by (simp only: sint_uint) (rule signed_take_bit_int_eq_self, simp_all)
qed

text \<open>C26: \<open>Add\<close> accepts a transaction exactly when its nonce is free or the stored one is cheaper and
  the new price reaches the old price raised by \<open>priceBump\<close> percent (rounded down); an accepted one replaces the
  stored one, which is returned, and no other nonce changes; a rejected one changes nothing.\<close>

theorem tx_list_add_replacement:
  assumes "unat priceBump + 100 < 2 ^ 63" "tl_Add l tx priceBump = ((inserted, old), l')"
  shows "(inserted \<longleftrightarrow> (case sm_Get (txs l) (AccountNonce tx) of None \<Rightarrow> True
       | Some o' \<Rightarrow> Price o' < Price tx \<and> Price o' * (100 + int (unat priceBump)) div 100 \<le> Price tx))
    \<and> (inserted \<longrightarrow> old = sm_Get (txs l) (AccountNonce tx)
         \<and> (\<forall>n. sm_Get (txs l') n = (if n = AccountNonce tx then Some tx else sm_Get (txs l) n)))
    \<and> (\<not> inserted \<longrightarrow> l' = l)"
proof -
  have "sint (100 + priceBump) = 100 + int (unat priceBump)" by (rule sint_bump [OF assms(1)])
  then have bt: "bump_threshold p priceBump = p * (100 + int (unat priceBump)) div 100" for p
    by (simp only: bump_threshold_def)
  show ?thesis
  proof (cases "sm_Get (txs l) (AccountNonce tx)")
    case None
    then have "inserted" "old = None" "txs l' = sm_Put (txs l) tx" using assms(2) by (auto simp: tl_Add_def)
    then show ?thesis using None by simp
  next
    case (Some o')
    show ?thesis
    proof (cases "Price o' \<ge> Price tx \<or> bump_threshold (Price o') priceBump > Price tx")
      case True
      then have "\<not> inserted" "l' = l" using assms(2) Some by (auto simp: tl_Add_def)
      then show ?thesis using True Some by (auto simp: bt)
    next
      case False
      then have "inserted" "old = Some o'" "txs l' = sm_Put (txs l) tx" using assms(2) Some by (auto simp: tl_Add_def)
      then show ?thesis using False Some by (auto simp: bt)
    qed
  qed
qed

theorem tx_list_add_replacement_witness:
  "unat (10 :: u64) + 100 < 2 ^ 63
    \<and> tl_Add sample_list (sample_tx 3 7) 10 = ((False, None), sample_list)
    \<and> \<not> (case sm_Get (txs sample_list) 3 of None \<Rightarrow> True
           | Some o' \<Rightarrow> Price o' < 7 \<and> Price o' * 110 div 100 \<le> 7)"
proof -
  have h: "unat (10 :: u64) + 100 < 2 ^ 63" by simp
  have r: "tl_Add sample_list (sample_tx 3 7) 10 = ((False, None), sample_list)"
    by (simp add: sample_list_eval)
  have n: "AccountNonce (sample_tx 3 7) = 3" "Price (sample_tx 3 7) = 7" "100 + int (unat (10 :: u64)) = 110"
    by (simp_all add: sample_tx_def newTransaction_def)
  show ?thesis using tx_list_add_replacement [OF h r, unfolded n] h r by simp
qed

end
