(* ===== verification/Tx_Priced.thy ===== *)
theory Tx_Priced
  imports Transactions
begin

text \<open>
  \<open>txPricedList\<close> of \<open>core/tx_list.go\<close> with the \<open>accountSet\<close> and \<open>txLookup\<close> of \<open>core/tx_pool.go\<close>: a
  heap of the pool's transactions, cheapest first. A transaction that leaves the pool stays in
  the heap as a stale entry until it is popped or the heap is rebuilt; \<open>stales\<close> counts these.

  The pool's map \<open>all\<close> is shared with the pool, so the operations take it as an argument. The loss
  of an entry from \<open>all\<close> is what makes it stale.
\<close>

section \<open>accountSet and txLookup\<close>

record accountSet =
  accounts :: "(address, unit) gomap"
  as_cache :: "address list option"

definition newAccountSet :: accountSet where
  "newAccountSet = \<lparr>accounts = [], as_cache = None\<rparr>"

definition as_contains :: "accountSet \<Rightarrow> address \<Rightarrow> bool" where
  "as_contains s addr \<longleftrightarrow> gm_get (accounts s) addr \<noteq> None"

definition containsTx :: "(transaction \<Rightarrow> address option) \<Rightarrow> accountSet \<Rightarrow> transaction \<Rightarrow> bool" where
  "containsTx sender s tx = (case sender tx of Some addr \<Rightarrow> as_contains s addr | None \<Rightarrow> False)"

definition as_add :: "accountSet \<Rightarrow> address \<Rightarrow> accountSet" where
  "as_add s addr = s\<lparr>accounts := gm_put (accounts s) addr (), as_cache := None\<rparr>"

definition as_flatten :: "(address list \<Rightarrow> address list) \<Rightarrow> accountSet \<Rightarrow> address list \<times> accountSet" where
  "as_flatten rng s = (case as_cache s of
     Some c \<Rightarrow> (c, s)
   | None \<Rightarrow> let c = rng (gm_keys (accounts s)) in (c, s\<lparr>as_cache := Some c\<rparr>))"

type_synonym txLookup = "(hash, transaction) gomap"

fun lookup_Range :: "(hash \<Rightarrow> transaction \<Rightarrow> 's \<Rightarrow> bool \<times> 's) \<Rightarrow> hash list \<Rightarrow> txLookup \<Rightarrow> 's \<Rightarrow> 's" where
  "lookup_Range f [] all s = s"
| "lookup_Range f (k # ks) all s =
     (case gm_get all k of
        None \<Rightarrow> lookup_Range f ks all s
      | Some tx \<Rightarrow> let (continue, s') = f k tx s in if continue then lookup_Range f ks all s' else s')"

definition lookup_Add :: "(transaction \<Rightarrow> hash) \<Rightarrow> txLookup \<Rightarrow> transaction \<Rightarrow> txLookup" where
  "lookup_Add txhash all tx = gm_put all (txhash tx) tx"

definition lookup_Remove :: "txLookup \<Rightarrow> hash \<Rightarrow> txLookup" where
  "lookup_Remove all h = gm_del all h"

section \<open>The price heap\<close>

definition priceHeap_Less :: "transaction \<Rightarrow> transaction \<Rightarrow> bool" where
  "priceHeap_Less a b = (if Price a < Price b then True else if Price a > Price b then False
     else AccountNonce a > AccountNonce b)"

record txPricedList =
  pitems :: "transaction list"
  stales :: int

definition newTxPricedList :: txPricedList where
  "newTxPricedList = \<lparr>pitems = [], stales = 0\<rparr>"

definition pl_Put :: "txPricedList \<Rightarrow> transaction \<Rightarrow> txPricedList" where
  "pl_Put l tx = l\<lparr>pitems := heap_push priceHeap_Less (pitems l) tx\<rparr>"

definition pl_Removed :: "(hash list \<Rightarrow> hash list) \<Rightarrow> txLookup \<Rightarrow> txPricedList \<Rightarrow> txPricedList" where
  "pl_Removed rng all l =
     (let l1 = l\<lparr>stales := stales l + 1\<rparr>
      in if stales l1 \<le> int (length (pitems l1) div 4) then l1
         else let reheap = lookup_Range (\<lambda>_ tx acc. (True, acc @ [tx])) (rng (gm_keys all)) all []
              in \<lparr>pitems = heap_init priceHeap_Less reheap, stales = 0\<rparr>)"

function pl_cap_loop ::
  "(transaction \<Rightarrow> bool) \<Rightarrow> (transaction \<Rightarrow> bool) \<Rightarrow> bigint \<Rightarrow> transaction list \<Rightarrow> int \<Rightarrow>
     transaction list \<Rightarrow> transaction list \<Rightarrow> (transaction list \<times> int) \<times> transaction list \<times> transaction list" where
  "pl_cap_loop stale is_local threshold its st drops save =
     (case heap_pop priceHeap_Less its of
        None \<Rightarrow> ((its, st), drops, save)
      | Some (tx, its') \<Rightarrow>
          if stale tx then pl_cap_loop stale is_local threshold its' (st - 1) drops save
          else if Price tx \<ge> threshold then ((its', st), drops, save @ [tx])
          else if is_local tx then pl_cap_loop stale is_local threshold its' st drops (save @ [tx])
          else pl_cap_loop stale is_local threshold its' st (drops @ [tx]) save)"
  by pat_completeness auto
termination
  by (relation "measure (\<lambda>(stale, is_local, threshold, its, st, drops, save). length its)")
     (auto dest: heap_pop_cases)

definition pl_push_all :: "transaction list \<Rightarrow> transaction list \<Rightarrow> transaction list" where
  "pl_push_all save its = fold (\<lambda>tx h. heap_push priceHeap_Less h tx) save its"

definition pl_Cap ::
  "(transaction \<Rightarrow> hash) \<Rightarrow> (transaction \<Rightarrow> address option) \<Rightarrow> txLookup \<Rightarrow> accountSet \<Rightarrow> bigint \<Rightarrow> txPricedList \<Rightarrow>
     transaction list \<times> txPricedList" where
  "pl_Cap txhash sender all local threshold l =
     (let ((its, st), drops, save) =
            pl_cap_loop (\<lambda>tx. gm_get all (txhash tx) = None) (containsTx sender local) threshold
              (pitems l) (stales l) [] []
      in (drops, l\<lparr>pitems := pl_push_all save its, stales := st\<rparr>))"

function underpriced_loop :: "(transaction \<Rightarrow> bool) \<Rightarrow> transaction list \<Rightarrow> int \<Rightarrow> transaction list \<times> int" where
  "underpriced_loop stale its st =
     (case heap_pop priceHeap_Less its of
        None \<Rightarrow> (its, st)
      | Some (_, its') \<Rightarrow> if stale (its ! 0) then underpriced_loop stale its' (st - 1) else (its, st))"
  by pat_completeness auto
termination
  by (relation "measure (\<lambda>(stale, its, st). length its)") (auto dest: heap_pop_cases)

definition Underpriced ::
  "(transaction \<Rightarrow> hash) \<Rightarrow> (transaction \<Rightarrow> address option) \<Rightarrow> txLookup \<Rightarrow> accountSet \<Rightarrow> transaction \<Rightarrow> txPricedList \<Rightarrow>
     bool \<times> txPricedList" where
  "Underpriced txhash sender all local tx l =
     (if containsTx sender local tx then (False, l)
      else let (its, st) = underpriced_loop (\<lambda>tx. gm_get all (txhash tx) = None) (pitems l) (stales l);
               l' = l\<lparr>pitems := its, stales := st\<rparr>
           in case its of [] \<Rightarrow> (False, l') | cheapest # _ \<Rightarrow> (Price cheapest \<ge> Price tx, l'))"

function discard_loop ::
  "(transaction \<Rightarrow> bool) \<Rightarrow> (transaction \<Rightarrow> bool) \<Rightarrow> int \<Rightarrow> transaction list \<Rightarrow> int \<Rightarrow>
     transaction list \<Rightarrow> transaction list \<Rightarrow> (transaction list \<times> int) \<times> transaction list \<times> transaction list" where
  "discard_loop stale is_local cnt its st drops save =
     (case heap_pop priceHeap_Less its of
        None \<Rightarrow> ((its, st), drops, save)
      | Some (tx, its') \<Rightarrow>
          if \<not> cnt > 0 then ((its, st), drops, save)
          else if stale tx then discard_loop stale is_local cnt its' (st - 1) drops save
          else if is_local tx then discard_loop stale is_local cnt its' st drops (save @ [tx])
          else discard_loop stale is_local (cnt - 1) its' st (drops @ [tx]) save)"
  by pat_completeness auto
termination
  by (relation "measure (\<lambda>(stale, is_local, cnt, its, st, drops, save). length its)")
     (auto dest: heap_pop_cases)

text \<open>\<open>make(types.Transactions, 0, count)\<close> panics on a negative capacity: that is the value \<^const>\<open>None\<close>.\<close>

definition Discard ::
  "(transaction \<Rightarrow> hash) \<Rightarrow> (transaction \<Rightarrow> address option) \<Rightarrow> txLookup \<Rightarrow> accountSet \<Rightarrow> int \<Rightarrow> txPricedList \<Rightarrow>
     (transaction list \<times> txPricedList) option" where
  "Discard txhash sender all local cnt l =
     (if cnt < 0 then None
      else let ((its, st), drops, save) =
            discard_loop (\<lambda>tx. gm_get all (txhash tx) = None) (containsTx sender local) cnt
              (pitems l) (stales l) [] []
      in Some (drops, l\<lparr>pitems := pl_push_all save its, stales := st\<rparr>))"

declare pl_cap_loop.simps [simp del] underpriced_loop.simps [simp del] discard_loop.simps [simp del]

section \<open>Properties\<close>

interpretation price_asc: go_order priceHeap_Less
  by unfold_locales (auto simp: priceHeap_Less_def split: if_splits)

definition pl_inv :: "txPricedList \<Rightarrow> bool" where
  "pl_inv l \<longleftrightarrow> is_heap priceHeap_Less (pitems l)"

lemma lookup_Range_collect:
  assumes "gm_wf all" "distinct ks" "set ks \<subseteq> set (gm_keys all)"
  shows "lookup_Range (\<lambda>_ tx acc. (True, acc @ [tx])) ks all acc = acc @ map (\<lambda>k. the (gm_get all k)) ks"
  using assms by (induction ks arbitrary: acc) (auto simp: gm_wf_def)

lemma map_the_get: "gm_wf m \<Longrightarrow> map (\<lambda>k. the (gm_get m k)) (gm_keys m) = map snd m"
  by (auto simp: gm_wf_def)

lemma pl_Removed_cases:
  assumes "gm_wf all" "range_ok rng"
  shows "pl_Removed rng all l = l\<lparr>stales := stales l + 1\<rparr> \<and> stales l + 1 \<le> int (length (pitems l) div 4)
    \<or> (stales (pl_Removed rng all l) = 0 \<and> mset (pitems (pl_Removed rng all l)) = mset (map snd all)
        \<and> pl_inv (pl_Removed rng all l))"
proof -
  let ?ks = "rng (gm_keys all)"
  have ks: "distinct ?ks" "set ?ks = set (gm_keys all)" "mset ?ks = mset (gm_keys all)"
    using assms by (simp_all add: range_ok_distinct range_ok_set range_ok_mset gm_wf_def del: set_map mset_map)
  have "lookup_Range (\<lambda>_ tx acc. (True, acc @ [tx])) ?ks all [] = map (\<lambda>k. the (gm_get all k)) ?ks"
    using lookup_Range_collect [of all ?ks "[]"] assms(1) ks by simp
  moreover have "mset (map (\<lambda>k. the (gm_get all k)) ?ks) = mset (map snd all)"
    using mset_map_eq [OF ks(3), of "\<lambda>k. the (gm_get all k)"] map_the_get [OF assms(1)] by metis
  ultimately show ?thesis
    by (auto simp: pl_Removed_def pl_inv_def mset_heap_init price_asc.is_heap_init)
qed

lemma mset_push_all: "mset (pl_push_all save its) = mset save + mset its"
  unfolding pl_push_all_def by (induction save arbitrary: its) (simp_all add: mset_heap_push)

lemma heap_push_all: "is_heap priceHeap_Less its \<Longrightarrow> is_heap priceHeap_Less (pl_push_all save its)"
  unfolding pl_push_all_def by (induction save arbitrary: its) (simp_all add: price_asc.is_heap_push)

lemma pop_facts:
  assumes "is_heap priceHeap_Less its" "heap_pop priceHeap_Less its = Some (tx, its')"
  shows "is_heap priceHeap_Less its'" "mset its = add_mset tx (mset its')"
    "\<forall>u \<in> set its'. \<not> priceHeap_Less u tx" "its ! 0 = tx" "set its' \<subseteq> set its" "tx \<in> set its"
proof -
  note c = heap_pop_cases [OF assms(2)]
  show "is_heap priceHeap_Less its'" by (rule price_asc.is_heap_pop [OF assms])
  show m: "mset its = add_mset tx (mset its')" and "its ! 0 = tx" using c by simp_all
  show "\<forall>u \<in> set its'. \<not> priceHeap_Less u tx" by (rule price_asc.heap_pop_least [OF assms])
  have "set its = insert tx (set its')" using m by (metis set_mset_add_mset_insert set_mset_mset)
  then show "set its' \<subseteq> set its" "tx \<in> set its" by auto
qed

lemma discard_loop_spec:
  assumes "is_heap priceHeap_Less its" "\<forall>t \<in> set drops. \<forall>u \<in> set its. \<not> priceHeap_Less u t"
    "discard_loop stale is_local cnt its st drops save = ((its', st'), drops', save')"
  shows "is_heap priceHeap_Less its' \<and> (\<forall>t \<in> set drops'. \<forall>u \<in> set its'. \<not> priceHeap_Less u t) \<and>
    (\<exists>ds sv. drops' = drops @ ds \<and> save' = save @ sv \<and> int (length ds) \<le> max cnt 0
       \<and> (its' \<noteq> [] \<longrightarrow> int (length ds) = max cnt 0)
       \<and> (\<forall>t \<in> set ds. \<not> stale t \<and> \<not> is_local t) \<and> (\<forall>t \<in> set sv. \<not> stale t \<and> is_local t)
       \<and> {#t \<in># mset its. \<not> stale t#} = mset ds + mset sv + {#t \<in># mset its'. \<not> stale t#}
       \<and> st' - st = int (size {#t \<in># mset its'. stale t#}) - int (size {#t \<in># mset its. stale t#}))"
  using assms
proof (induction stale is_local cnt its st drops save rule: discard_loop.induct)
  case (1 stale is_local cnt its st drops save)
  show ?case
  proof (cases "heap_pop priceHeap_Less its")
    case None
    then have "its = []" by (simp add: heap_pop_None_iff)
    then show ?thesis using "1.prems" None by (auto simp: discard_loop.simps [of _ _ _ "[]"])
  next
    case (Some r)
    obtain tx h where r: "r = (tx, h)" by fastforce
    note p = pop_facts [OF "1.prems"(1) Some [unfolded r]]
    have keep: "\<forall>t \<in> set drops. \<forall>u \<in> set h. \<not> priceHeap_Less u t" using "1.prems"(2) p(5) by blast
    consider (stop) "\<not> cnt > 0" | (stale) "cnt > 0" "stale tx" | (loc) "cnt > 0" "\<not> stale tx" "is_local tx"
      | (drop) "cnt > 0" "\<not> stale tx" "\<not> is_local tx" by blast
    then show ?thesis
    proof cases
      case stop
      then show ?thesis using "1.prems" Some r by (auto simp: discard_loop.simps [of _ _ _ its])
    next
      case stale
      then have "discard_loop stale is_local cnt h (st - 1) drops save = ((its', st'), drops', save')"
        using "1.prems"(3) Some r by (simp add: discard_loop.simps [of _ _ _ its])
      from "1.IH"(1) [OF Some r [symmetric] _ stale(2) p(1) keep this] stale show ?thesis
        by (simp add: p(2)) fastforce
    next
      case loc
      then have "discard_loop stale is_local cnt h st drops (save @ [tx]) = ((its', st'), drops', save')"
        using "1.prems"(3) Some r by (simp add: discard_loop.simps [of _ _ _ its])
      from "1.IH"(2) [OF Some r [symmetric] _ loc(2,3) p(1) keep this] loc show ?thesis
        by (simp add: p(2)) fastforce
    next
      case drop
      have call: "discard_loop stale is_local (cnt - 1) h st (drops @ [tx]) save = ((its', st'), drops', save')"
        using drop "1.prems"(3) Some r by (simp add: discard_loop.simps [of _ _ _ its])
      have keep': "\<forall>t \<in> set (drops @ [tx]). \<forall>u \<in> set h. \<not> priceHeap_Less u t"
        using keep p(3) by auto
      have nn: "\<not> \<not> cnt > 0" using drop by simp
      from "1.IH"(3) [OF Some r [symmetric] nn drop(2,3) p(1) keep' call]
      obtain ds sv where "is_heap priceHeap_Less its'" "\<forall>t \<in> set drops'. \<forall>u \<in> set its'. \<not> priceHeap_Less u t"
        "drops' = (drops @ [tx]) @ ds" "save' = save @ sv"
        "int (length ds) \<le> max (cnt - 1) 0" "its' \<noteq> [] \<longrightarrow> int (length ds) = max (cnt - 1) 0"
        "\<forall>t \<in> set ds. \<not> stale t \<and> \<not> is_local t" "\<forall>t \<in> set sv. \<not> stale t \<and> is_local t"
        "{#t \<in># mset h. \<not> stale t#} = mset ds + mset sv + {#t \<in># mset its'. \<not> stale t#}"
        "st' - st = int (size {#t \<in># mset its'. stale t#}) - int (size {#t \<in># mset h. stale t#})"
        by blast
      then show ?thesis
        using drop by (intro conjI exI [of _ "tx # ds"] exI [of _ sv]) (simp_all add: p(2))
    qed
  qed
qed

lemma pl_cap_loop_spec:
  assumes "is_heap priceHeap_Less its"
    "pl_cap_loop stale is_local threshold its st drops save = ((its', st'), drops', save')"
  shows "is_heap priceHeap_Less its' \<and>
    (\<exists>ds sv. drops' = drops @ ds \<and> save' = save @ sv
       \<and> (\<forall>t \<in> set ds. \<not> stale t \<and> \<not> is_local t \<and> Price t < threshold)
       \<and> (\<forall>t \<in> set sv. \<not> stale t \<and> (is_local t \<or> threshold \<le> Price t))
       \<and> (\<forall>u \<in> set its'. threshold \<le> Price u)
       \<and> {#t \<in># mset its. \<not> stale t#} = mset ds + mset sv + {#t \<in># mset its'. \<not> stale t#}
       \<and> st' - st = int (size {#t \<in># mset its'. stale t#}) - int (size {#t \<in># mset its. stale t#}))"
  using assms
proof (induction stale is_local threshold its st drops save rule: pl_cap_loop.induct)
  case (1 stale is_local threshold its st drops save)
  show ?case
  proof (cases "heap_pop priceHeap_Less its")
    case None
    then have "its = []" by (simp add: heap_pop_None_iff)
    then show ?thesis using "1.prems" None by (auto simp: pl_cap_loop.simps [of _ _ _ "[]"])
  next
    case (Some r)
    obtain tx h where r: "r = (tx, h)" by fastforce
    note p = pop_facts [OF "1.prems"(1) Some [unfolded r]]
    consider (stale) "stale tx" | (stop) "\<not> stale tx" "Price tx \<ge> threshold"
      | (loc) "\<not> stale tx" "\<not> Price tx \<ge> threshold" "is_local tx"
      | (drop) "\<not> stale tx" "\<not> Price tx \<ge> threshold" "\<not> is_local tx" by blast
    then show ?thesis
    proof cases
      case stale
      then have "pl_cap_loop stale is_local threshold h (st - 1) drops save = ((its', st'), drops', save')"
        using "1.prems"(2) Some r by (simp add: pl_cap_loop.simps [of _ _ _ its])
      from "1.IH"(1) [OF Some r [symmetric] stale p(1) this] stale show ?thesis
        by (simp add: p(2)) fastforce
    next
      case stop
      then have "\<forall>u \<in> set h. threshold \<le> Price u"
        using p(3) by (force simp: priceHeap_Less_def split: if_splits)
      then show ?thesis
        using "1.prems"(2) Some r stop p(1,2) by (auto simp: pl_cap_loop.simps [of _ _ _ its])
    next
      case loc
      then have "pl_cap_loop stale is_local threshold h st drops (save @ [tx]) = ((its', st'), drops', save')"
        using "1.prems"(2) Some r by (simp add: pl_cap_loop.simps [of _ _ _ its])
      from "1.IH"(2) [OF Some r [symmetric] loc p(1) this] loc show ?thesis
        by (simp add: p(2)) fastforce
    next
      case drop
      then have "pl_cap_loop stale is_local threshold h st (drops @ [tx]) save = ((its', st'), drops', save')"
        using "1.prems"(2) Some r by (simp add: pl_cap_loop.simps [of _ _ _ its])
      from "1.IH"(3) [OF Some r [symmetric] drop p(1) this] drop show ?thesis
        by (simp add: p(2)) fastforce
    qed
  qed
qed

lemma underpriced_loop_spec:
  assumes "is_heap priceHeap_Less its" "underpriced_loop stale its st = (its', st')"
  shows "is_heap priceHeap_Less its' \<and> (its' \<noteq> [] \<longrightarrow> \<not> stale (its' ! 0))
    \<and> {#t \<in># mset its. \<not> stale t#} = {#t \<in># mset its'. \<not> stale t#}
    \<and> st' - st = int (size {#t \<in># mset its'. stale t#}) - int (size {#t \<in># mset its. stale t#})"
  using assms
proof (induction stale its st rule: underpriced_loop.induct)
  case (1 stale its st)
  show ?case
  proof (cases "heap_pop priceHeap_Less its")
    case None
    then have "its = []" by (simp add: heap_pop_None_iff)
    then show ?thesis using "1.prems" None by (auto simp: underpriced_loop.simps [of _ "[]"])
  next
    case (Some r)
    obtain tx h where r: "r = (tx, h)" by fastforce
    note p = pop_facts [OF "1.prems"(1) Some [unfolded r]]
    show ?thesis
    proof (cases "stale tx")
      case True
      then have "underpriced_loop stale h (st - 1) = (its', st')"
        using "1.prems"(2) Some r p(4) by (simp add: underpriced_loop.simps [of _ its])
      from "1.IH" [OF Some r [symmetric] _ p(1) this] True p(4) show ?thesis by (simp add: p(2))
    next
      case False
      then show ?thesis using "1.prems" Some r p(4) by (auto simp: underpriced_loop.simps [of _ its])
    qed
  qed
qed

text \<open>An entry of the heap is live when its transaction is still in the pool's map.\<close>

definition live :: "(transaction \<Rightarrow> hash) \<Rightarrow> txLookup \<Rightarrow> transaction \<Rightarrow> bool" where
  "live txhash all t \<longleftrightarrow> gm_get all (txhash t) \<noteq> None"

lemma stale_live: "(gm_get all (txhash t) = None) = (\<not> live txhash all t)"
  by (simp add: live_def)

lemma not_Less_price: "\<not> priceHeap_Less u t \<Longrightarrow> Price t \<le> Price u"
  by (auto simp: priceHeap_Less_def split: if_splits)

lemma Discard_spec:
  assumes inv: "pl_inv l" and res: "Discard txhash sender all local cnt l = Some (drops, l')"
  shows "pl_inv l' \<and> int (length drops) \<le> cnt
    \<and> (\<forall>t \<in> set drops. live txhash all t \<and> \<not> containsTx sender local t)
    \<and> {#t \<in># mset (pitems l). live txhash all t#} = mset drops + {#t \<in># mset (pitems l'). live txhash all t#}
    \<and> (\<forall>t \<in> set drops. \<forall>u \<in> set (pitems l'). \<not> containsTx sender local u \<longrightarrow> Price t \<le> Price u)
    \<and> ((\<exists>u \<in> set (pitems l'). \<not> containsTx sender local u) \<longrightarrow> int (length drops) = cnt)
    \<and> stales l' - stales l = int (size {#t \<in># mset (pitems l'). \<not> live txhash all t#})
        - int (size {#t \<in># mset (pitems l). \<not> live txhash all t#})"
proof -
  obtain its st ds' sv' where loop:
    "discard_loop (\<lambda>t. \<not> live txhash all t) (containsTx sender local) cnt (pitems l) (stales l) [] []
       = ((its, st), ds', sv')" by (metis surj_pair)
  from discard_loop_spec [OF inv [unfolded pl_inv_def] _ loop] obtain ds sv where
    sp: "is_heap priceHeap_Less its" "\<forall>t \<in> set ds. \<forall>u \<in> set its. \<not> priceHeap_Less u t" "ds' = ds" "sv' = sv"
      "int (length ds) \<le> max cnt 0" "its \<noteq> [] \<longrightarrow> int (length ds) = max cnt 0"
      "\<forall>t \<in> set ds. live txhash all t \<and> \<not> containsTx sender local t"
      "\<forall>t \<in> set sv. live txhash all t \<and> containsTx sender local t"
      "{#t \<in># mset (pitems l). live txhash all t#} = mset ds + mset sv + {#t \<in># mset its. live txhash all t#}"
      "st - stales l = int (size {#t \<in># mset its. \<not> live txhash all t#})
         - int (size {#t \<in># mset (pitems l). \<not> live txhash all t#})"
    by auto
  have nn: "0 \<le> cnt" using res by (simp add: Discard_def split: if_splits)
  have d: "drops = ds" "l' = l\<lparr>pitems := pl_push_all sv its, stales := st\<rparr>"
    using res nn by (simp_all add: Discard_def stale_live loop sp(3,4))
  have sv: "{#t \<in># mset sv. live txhash all t#} = mset sv" "{#t \<in># mset sv. \<not> live txhash all t#} = {#}"
    using sp(8) by (simp_all add: filter_mset_eq_conv filter_mset_eq_mempty_iff)
  have items: "set (pitems l') = set sv \<union> set its"
    by (simp add: d) (metis mset_append mset_eq_setD mset_push_all set_append)
  show ?thesis
  proof (intro conjI)
    show "pl_inv l'" using heap_push_all [OF sp(1)] by (simp add: d pl_inv_def)
    show "\<forall>t \<in> set drops. \<forall>u \<in> set (pitems l'). \<not> containsTx sender local u \<longrightarrow> Price t \<le> Price u"
      using items sp(2,8) not_Less_price by (auto simp: d(1))
    show "(\<exists>u \<in> set (pitems l'). \<not> containsTx sender local u) \<longrightarrow> int (length drops) = cnt"
      using items sp(6,8) nn by (auto simp: d(1))
  qed (use sp sv nn in \<open>simp_all add: d mset_push_all\<close>)
qed

text \<open>C29: \<open>Discard(count)\<close> drops only live, remote transactions, at most \<open>count\<close> of them and exactly
  \<open>count\<close> while other remote ones remain; none of those that remain is cheaper than a dropped one, no other
  live entry is lost, and \<open>stales\<close> goes down by the number of stale entries thrown away.\<close>

theorem priced_discard_cheapest:
  assumes "pl_inv l" "Discard txhash sender all local cnt l = Some (drops, l')"
  shows "pl_inv l' \<and> int (length drops) \<le> cnt
    \<and> (\<forall>t \<in> set drops. live txhash all t \<and> \<not> containsTx sender local t)
    \<and> {#t \<in># mset (pitems l). live txhash all t#} = mset drops + {#t \<in># mset (pitems l'). live txhash all t#}
    \<and> (\<forall>t \<in> set drops. \<forall>u \<in> set (pitems l'). \<not> containsTx sender local u \<longrightarrow> Price t \<le> Price u)
    \<and> ((\<exists>u \<in> set (pitems l'). \<not> containsTx sender local u) \<longrightarrow> int (length drops) = cnt)
    \<and> stales l' - stales l = int (size {#t \<in># mset (pitems l'). \<not> live txhash all t#})
        - int (size {#t \<in># mset (pitems l). \<not> live txhash all t#})"
  by (rule Discard_spec [OF assms])

definition sample_priced :: txPricedList where
  "sample_priced = pl_Put (pl_Put newTxPricedList (sample_tx 0 9)) (sample_tx 1 4)"

lemma sample_priced_inv: "pl_inv sample_priced"
  by (simp add: sample_priced_def pl_inv_def pl_Put_def newTxPricedList_def price_asc.is_heap_push)

theorem priced_discard_cheapest_witness:
  "pl_inv sample_priced
    \<and> (\<exists>drops l'. Discard (\<lambda>t. ucast (AccountNonce t)) (\<lambda>_. Some 1) [(0, sample_tx 0 9), (1, sample_tx 1 4)]
          newAccountSet 1 sample_priced = Some (drops, l') \<and> pl_inv l' \<and> int (length drops) \<le> 1)"
proof -
  obtain ds l' where r: "Discard (\<lambda>t. ucast (AccountNonce t)) (\<lambda>_. Some 1) [(0, sample_tx 0 9), (1, sample_tx 1 4)]
          newAccountSet 1 sample_priced = Some (ds, l')"
    by (fastforce simp: Discard_def split: prod.splits)
  show ?thesis using priced_discard_cheapest [OF sample_priced_inv r] r sample_priced_inv by auto
qed

lemma Underpriced_spec:
  assumes "pl_inv l" "Underpriced txhash sender all local tx l = (b, l')"
  shows "(b \<longleftrightarrow> \<not> containsTx sender local tx \<and> (\<exists>t \<in> set (pitems l). live txhash all t)
           \<and> (\<forall>t \<in> set (pitems l). live txhash all t \<longrightarrow> Price tx \<le> Price t))
    \<and> pl_inv l' \<and> {#t \<in># mset (pitems l). live txhash all t#} = {#t \<in># mset (pitems l'). live txhash all t#}"
proof (cases "containsTx sender local tx")
  case True
  then show ?thesis using assms by (simp add: Underpriced_def)
next
  case False
  obtain its st where loop: "underpriced_loop (\<lambda>t. \<not> live txhash all t) (pitems l) (stales l) = (its, st)" by fastforce
  note sp = underpriced_loop_spec [OF assms(1) [unfolded pl_inv_def] loop, simplified]
  have mem: "{t \<in> set (pitems l). live txhash all t} = {t \<in> set its. live txhash all t}"
    using sp by (metis set_mset_filter set_mset_mset)
  have l': "l' = l\<lparr>pitems := its, stales := st\<rparr>" and b: "b = (its \<noteq> [] \<and> Price tx \<le> Price (its ! 0))"
    using assms(2) False by (auto simp: Underpriced_def stale_live loop split: list.splits)
  have hd: "its \<noteq> [] \<Longrightarrow> live txhash all (its ! 0) \<and> its ! 0 \<in> set its" using sp by simp
  have le: "Price (its ! 0) \<le> Price t" if "t \<in> set its" for t
    using price_asc.heap_head_least [of its t] sp that not_Less_price by blast
  have "b \<longleftrightarrow> {t \<in> set its. live txhash all t} \<noteq> {} \<and> (\<forall>t \<in> {t \<in> set its. live txhash all t}. Price tx \<le> Price t)"
  proof (cases "its = []")
    case ne: False
    have m: "its ! 0 \<in> {t \<in> set its. live txhash all t}" using hd [OF ne] by simp
    have "Price tx \<le> Price (its ! 0) \<longleftrightarrow> (\<forall>t \<in> {t \<in> set its. live txhash all t}. Price tx \<le> Price t)"
      using m le order_trans by blast
    then show ?thesis using b ne m by blast
  qed (simp add: b)
  then show ?thesis
    using False sp unfolding mem [symmetric] by (auto simp: l' pl_inv_def)
qed

text \<open>\<open>Underpriced\<close> answers true exactly for a transaction that is not local when live entries exist and
  all of them pay at least as much; it drops stale entries only.\<close>

theorem priced_underpriced_correct:
  assumes "pl_inv l" "Underpriced txhash sender all local tx l = (b, l')"
  shows "(b \<longleftrightarrow> \<not> containsTx sender local tx \<and> (\<exists>t \<in> set (pitems l). live txhash all t)
           \<and> (\<forall>t \<in> set (pitems l). live txhash all t \<longrightarrow> Price tx \<le> Price t))
    \<and> pl_inv l' \<and> {#t \<in># mset (pitems l). live txhash all t#} = {#t \<in># mset (pitems l'). live txhash all t#}"
  using Underpriced_spec [OF assms] .

theorem priced_underpriced_correct_witness:
  "pl_inv sample_priced
    \<and> (\<exists>b l'. Underpriced (\<lambda>t. ucast (AccountNonce t)) (\<lambda>_. Some 1) [(0, sample_tx 0 9), (1, sample_tx 1 4)]
          newAccountSet (sample_tx 2 3) sample_priced = (b, l') \<and> pl_inv l')"
proof -
  obtain b l' where r: "Underpriced (\<lambda>t. ucast (AccountNonce t)) (\<lambda>_. Some 1) [(0, sample_tx 0 9), (1, sample_tx 1 4)]
          newAccountSet (sample_tx 2 3) sample_priced = (b, l')" by fastforce
  show ?thesis using priced_underpriced_correct [OF sample_priced_inv r] r sample_priced_inv by auto
qed

end
