(* ===== verification/Memory_DB.thy ===== *)
theory Memory_DB
  imports Prelude "HOL-Library.Sublist" "HOL-Library.List_Lexorder"
begin

text \<open>
  The key-value store of the simulator: \<open>ethdb/memorydb/memorydb.go\<close>.

  A database is a Go map from byte strings to byte strings, or \<^const>\<open>None\<close> once it is closed (the nil map).
  A batch is the list of its buffered writes; its pointer to the host database is the argument of \<open>Write\<close>.
  Byte strings are compared as Go compares strings, byte by byte.

  Proved: a batch has the effect of its last write per key, replaying equals writing, and an iterator visits
  exactly the entries with the prefix, in ascending order.
\<close>

datatype db_error = errMemorydbClosed | errMemorydbNotFound

type_synonym memdb = "(bytes, bytes) gomap option"

definition memdb_New :: memdb where
  "memdb_New = Some []"

definition memdb_Close :: "memdb \<Rightarrow> memdb" where
  "memdb_Close db = None"

definition memdb_Has :: "memdb \<Rightarrow> bytes \<Rightarrow> db_error + bool" where
  "memdb_Has db k = (case db of None \<Rightarrow> Inl errMemorydbClosed | Some m \<Rightarrow> Inr (gm_get m k \<noteq> None))"

definition memdb_Get :: "memdb \<Rightarrow> bytes \<Rightarrow> db_error + bytes" where
  "memdb_Get db k =
     (case db of None \<Rightarrow> Inl errMemorydbClosed
      | Some m \<Rightarrow> (case gm_get m k of Some v \<Rightarrow> Inr v | None \<Rightarrow> Inl errMemorydbNotFound))"

definition memdb_Put :: "memdb \<Rightarrow> bytes \<Rightarrow> bytes \<Rightarrow> db_error + memdb" where
  "memdb_Put db k v = (case db of None \<Rightarrow> Inl errMemorydbClosed | Some m \<Rightarrow> Inr (Some (gm_put m k v)))"

definition memdb_Delete :: "memdb \<Rightarrow> bytes \<Rightarrow> db_error + memdb" where
  "memdb_Delete db k = (case db of None \<Rightarrow> Inl errMemorydbClosed | Some m \<Rightarrow> Inr (Some (gm_del m k)))"

definition memdb_Len :: "memdb \<Rightarrow> nat" where
  "memdb_Len db = (case db of None \<Rightarrow> 0 | Some m \<Rightarrow> length m)"

section \<open>Batches\<close>

record keyvalue =
  kv_key :: bytes
  kv_value :: bytes
  kv_delete :: bool

record batch =
  writes :: "keyvalue list"
  batch_size :: int

definition NewBatch :: batch where
  "NewBatch = \<lparr>writes = [], batch_size = 0\<rparr>"

definition batch_Put :: "batch \<Rightarrow> bytes \<Rightarrow> bytes \<Rightarrow> batch" where
  "batch_Put b k v =
     b\<lparr>writes := writes b @ [\<lparr>kv_key = k, kv_value = v, kv_delete = False\<rparr>], batch_size := batch_size b + int (length v)\<rparr>"

definition batch_Delete :: "batch \<Rightarrow> bytes \<Rightarrow> batch" where
  "batch_Delete b k =
     b\<lparr>writes := writes b @ [\<lparr>kv_key = k, kv_value = [], kv_delete = True\<rparr>], batch_size := batch_size b + 1\<rparr>"

text \<open>\<open>Write\<close> does not check that the host is open: on a nil map a deletion does nothing and an assignment
  panics, the value \<^const>\<open>None\<close>.\<close>

fun write_loop :: "keyvalue list \<Rightarrow> memdb \<Rightarrow> memdb option" where
  "write_loop [] db = Some db"
| "write_loop (kv # kvs) db =
     (if kv_delete kv then write_loop kvs (map_option (\<lambda>m. gm_del m (kv_key kv)) db)
      else case db of None \<Rightarrow> None | Some m \<Rightarrow> write_loop kvs (Some (gm_put m (kv_key kv) (kv_value kv))))"

definition batch_Write :: "batch \<Rightarrow> memdb \<Rightarrow> memdb option" where
  "batch_Write b db = write_loop (writes b) db"

definition batch_Reset :: "batch \<Rightarrow> batch" where
  "batch_Reset b = b\<lparr>writes := [], batch_size := 0\<rparr>"

text \<open>\<open>Replay\<close> stops at the first error of the writer, here a database; the writes before it stay.\<close>

fun replay_loop :: "keyvalue list \<Rightarrow> memdb \<Rightarrow> db_error option \<times> memdb" where
  "replay_loop [] db = (None, db)"
| "replay_loop (kv # kvs) db =
     (case (if kv_delete kv then memdb_Delete db (kv_key kv) else memdb_Put db (kv_key kv) (kv_value kv)) of
        Inl e \<Rightarrow> (Some e, db)
      | Inr db' \<Rightarrow> replay_loop kvs db')"

definition batch_Replay :: "batch \<Rightarrow> memdb \<Rightarrow> db_error option \<times> memdb" where
  "batch_Replay b db = replay_loop (writes b) db"

section \<open>Iterators\<close>

record 'v kv_iterator =
  inited :: bool
  it_keys :: "bytes list"
  it_values :: "'v list"

definition NewIteratorWithPrefix :: "(bytes list \<Rightarrow> bytes list) \<Rightarrow> bytes \<Rightarrow> memdb \<Rightarrow> bytes kv_iterator" where
  "NewIteratorWithPrefix rng pr db =
     (let m = (case db of None \<Rightarrow> [] | Some m \<Rightarrow> m);
          keys = sort (filter (prefix pr) (rng (gm_keys m)))
      in \<lparr>inited = False, it_keys = keys,
          it_values = map (\<lambda>k. case gm_get m k of Some v \<Rightarrow> v | None \<Rightarrow> []) keys\<rparr>)"

definition it_Next :: "'v kv_iterator \<Rightarrow> bool \<times> 'v kv_iterator" where
  "it_Next it =
     (if \<not> inited it then (length (it_keys it) > 0, it\<lparr>inited := True\<rparr>)
      else let it' = (if length (it_keys it) > 0 then it\<lparr>it_keys := tl (it_keys it), it_values := tl (it_values it)\<rparr> else it)
           in (length (it_keys it') > 0, it'))"

definition it_Key :: "'v kv_iterator \<Rightarrow> bytes option" where
  "it_Key it = (case it_keys it of k # _ \<Rightarrow> Some k | [] \<Rightarrow> None)"

definition it_Value :: "'v kv_iterator \<Rightarrow> 'v option" where
  "it_Value it = (case it_values it of v # _ \<Rightarrow> Some v | [] \<Rightarrow> None)"

definition it_Release :: "'v kv_iterator \<Rightarrow> 'v kv_iterator" where
  "it_Release it = it\<lparr>it_keys := [], it_values := []\<rparr>"

text \<open>What a client sees: \<open>for it.Next() { use it.Key(), it.Value() }\<close>.\<close>

function drain :: "'v kv_iterator \<Rightarrow> (bytes option \<times> 'v option) list" where
  "drain it = (let (more, it') = it_Next it in if more then (it_Key it', it_Value it') # drain it' else [])"
  by pat_completeness auto
termination
  by (relation "measure (\<lambda>it. 2 * length (it_keys it) + (if inited it then 0 else 1))")
     (auto simp: it_Next_def split: if_splits)

declare drain.simps [simp del]

section \<open>Batches: properties\<close>

text \<open>The last write about a key.\<close>

definition last_write :: "keyvalue list \<Rightarrow> bytes \<Rightarrow> keyvalue option" where
  "last_write kvs k = (case rev (filter (\<lambda>kv. kv_key kv = k) kvs) of kv # _ \<Rightarrow> Some kv | [] \<Rightarrow> None)"

lemma last_write_Cons:
  "last_write (kv # kvs) k =
     (case last_write kvs k of Some x \<Rightarrow> Some x | None \<Rightarrow> if kv_key kv = k then Some kv else None)"
  by (auto simp: last_write_def split: list.splits)

lemma write_loop_get:
  "write_loop kvs (Some m) = Some db' \<Longrightarrow> \<exists>m'. db' = Some m' \<and> (gm_wf m \<longrightarrow> gm_wf m')
     \<and> (\<forall>k. gm_get m' k = (case last_write kvs k of None \<Rightarrow> gm_get m k
                           | Some kv \<Rightarrow> if kv_delete kv then None else Some (kv_value kv)))"
proof (induction kvs arbitrary: m)
  case Nil
  then show ?case by (intro exI [of _ m]) (simp add: last_write_def)
next
  case (Cons kv kvs)
  define m1 where "m1 = (if kv_delete kv then gm_del m (kv_key kv) else gm_put m (kv_key kv) (kv_value kv))"
  have "write_loop kvs (Some m1) = Some db'" using Cons.prems by (simp add: m1_def split: if_splits)
  from Cons.IH [OF this] obtain m' where m': "db' = Some m'" "gm_wf m1 \<longrightarrow> gm_wf m'"
    "\<forall>k. gm_get m' k = (case last_write kvs k of None \<Rightarrow> gm_get m1 k
       | Some kv \<Rightarrow> if kv_delete kv then None else Some (kv_value kv))" by blast
  have "gm_wf m \<longrightarrow> gm_wf m1" by (simp add: m1_def gm_wf_put gm_wf_del)
  moreover have "gm_get m' k = (case last_write (kv # kvs) k of None \<Rightarrow> gm_get m k
       | Some kv \<Rightarrow> if kv_delete kv then None else Some (kv_value kv))" for k
    using m'(3) by (auto simp: last_write_Cons m1_def gm_get_put gm_get_del split: option.splits)
  ultimately show ?case using m'(1,2) by blast
qed

lemma write_loop_open: "\<exists>m'. write_loop kvs (Some m) = Some (Some m')"
  by (induction kvs arbitrary: m) simp_all

lemma replay_loop_open: "replay_loop kvs (Some m) = (None, the (write_loop kvs (Some m)))"
  by (induction kvs arbitrary: m) (simp_all add: memdb_Delete_def memdb_Put_def)

text \<open>Writing a batch to an open database never fails; afterwards each key holds the value of the last
  buffered write about it, is absent when that was a deletion, and is unchanged when the batch does not name it.
  Replaying the batch onto the database has the same effect, without an error.\<close>

theorem batch_write_last_wins:
  "\<exists>m'. batch_Write b (Some m) = Some (Some m') \<and> batch_Replay b (Some m) = (None, Some m')
    \<and> (\<forall>k. memdb_Get (Some m') k = (case last_write (writes b) k of
           None \<Rightarrow> memdb_Get (Some m) k
         | Some kv \<Rightarrow> if kv_delete kv then Inl errMemorydbNotFound else Inr (kv_value kv)))"
proof -
  obtain m' where w: "write_loop (writes b) (Some m) = Some (Some m')" using write_loop_open by blast
  from write_loop_get [OF w] have g: "gm_get m' k = (case last_write (writes b) k of None \<Rightarrow> gm_get m k
       | Some kv \<Rightarrow> if kv_delete kv then None else Some (kv_value kv))" for k by simp
  have "memdb_Get (Some m') k = (case last_write (writes b) k of None \<Rightarrow> memdb_Get (Some m) k
         | Some kv \<Rightarrow> if kv_delete kv then Inl errMemorydbNotFound else Inr (kv_value kv))" for k
    by (simp add: memdb_Get_def g split: option.splits)
  then show ?thesis using w by (auto simp: batch_Write_def batch_Replay_def replay_loop_open)
qed

section \<open>Iterators: properties\<close>

lemma drain_inited:
  assumes "inited it" "length (it_values it) = length (it_keys it)"
  shows "drain it = zip (map Some (tl (it_keys it))) (map Some (tl (it_values it)))"
  using assms
proof (induction "length (it_keys it)" arbitrary: it rule: less_induct)
  case less
  show ?case
  proof (cases "it_keys it")
    case Nil
    then show ?thesis using less.prems by (subst drain.simps) (simp add: it_Next_def)
  next
    case (Cons k ks)
    obtain v vs where vs: "it_values it = v # vs" "length vs = length ks" using less.prems Cons by (cases "it_values it") auto
    let ?it = "it\<lparr>it_keys := ks, it_values := vs\<rparr>"
    have d: "drain ?it = zip (map Some (tl ks)) (map Some (tl vs))"
      using less.hyps [of ?it] less.prems Cons vs by simp
    show ?thesis
      using less.prems Cons vs d by (subst drain.simps) (cases ks; cases vs; simp add: it_Next_def it_Key_def it_Value_def)
  qed
qed

lemma drain_new:
  assumes "\<not> inited it" "length (it_values it) = length (it_keys it)"
  shows "drain it = zip (map Some (it_keys it)) (map Some (it_values it))"
  using assms drain_inited [of "it\<lparr>inited := True\<rparr>"]
  by (subst drain.simps) (cases "it_keys it"; cases "it_values it"; simp add: it_Next_def it_Key_def it_Value_def)

lemma zip_pairs: "zip (map Some ks) (map Some (map f ks)) = map (\<lambda>(k, v). (Some k, Some v)) (map (\<lambda>k. (k, f k)) ks)"
  by (induction ks) simp_all

text \<open>Iterating with a prefix visits exactly the stored entries whose key starts with it, each once, in
  strictly ascending order of the keys, whatever the order in which the map is walked.\<close>

theorem iterator_visits_sorted:
  assumes "range_ok rng" "gm_wf m"
  shows "\<exists>kvs. drain (NewIteratorWithPrefix rng pr (Some m)) = map (\<lambda>(k, v). (Some k, Some v)) kvs
    \<and> sorted (map fst kvs) \<and> distinct (map fst kvs)
    \<and> set kvs = {(k, v). gm_get m k = Some v \<and> prefix pr k}"
proof -
  let ?keys = "sort (filter (prefix pr) (rng (gm_keys m)))"
  let ?val = "\<lambda>k. case gm_get m k of Some v \<Rightarrow> v | None \<Rightarrow> []"
  define kvs where "kvs = map (\<lambda>k. (k, ?val k)) ?keys"
  have "drain (NewIteratorWithPrefix rng pr (Some m)) = zip (map Some ?keys) (map Some (map ?val ?keys))"
    using drain_new [of "NewIteratorWithPrefix rng pr (Some m)"] by (simp add: NewIteratorWithPrefix_def)
  also have "\<dots> = map (\<lambda>(k, v). (Some k, Some v)) kvs"
    unfolding kvs_def by (rule zip_pairs)
  finally have d: "drain (NewIteratorWithPrefix rng pr (Some m)) = map (\<lambda>(k, v). (Some k, Some v)) kvs" .
  have f: "map fst kvs = ?keys" by (simp add: kvs_def comp_def)
  have ks: "set ?keys = {k. gm_get m k \<noteq> None \<and> prefix pr k}"
    using range_ok_set [OF assms(1)] gm_keys_dom [of m] by (auto simp: dom_def simp del: set_map)
  have "distinct ?keys" using range_ok_distinct [OF assms(1)] assms(2) by (simp add: gm_wf_def)
  moreover have "set kvs = {(k, v). gm_get m k = Some v \<and> prefix pr k}"
    unfolding kvs_def set_map ks by force
  ultimately show ?thesis using d f by (intro exI [of _ kvs]) simp
qed

theorem iterator_visits_sorted_witness:
  "range_ok (rev :: bytes list \<Rightarrow> _) \<and> gm_wf [([1, 2], [5 :: byte]), ([1 :: byte], [6]), ([3], [7])]
    \<and> (\<exists>kvs. drain (NewIteratorWithPrefix rev [1] (Some [([1, 2], [5]), ([1], [6]), ([3], [7])]))
               = map (\<lambda>(k, v). (Some k, Some v)) kvs \<and> sorted (map fst kvs))"
proof -
  have w: "gm_wf [([1, 2], [5 :: byte]), ([1 :: byte], [6]), ([3], [7])]" by (simp add: gm_wf_def)
  show ?thesis using iterator_visits_sorted [OF range_ok_rev w, of "[1]"] range_ok_rev w by blast
qed

end
