(* ===== verification/Blocks.thy ===== *)
theory Blocks
  imports Transactions
begin

text \<open>
  Headers and blocks: \<open>core/types/block.go\<close>.

  A \<open>*big.Int\<close> field that the code compares with \<open>nil\<close> (\<open>Number\<close>, \<open>Difficulty\<close>) is an option. A
  \<open>BlockNonce\<close> is its 8 bytes. The caches of hash and size hold derived values and are left out. RLP and
  Keccak are third-party code: the functions that hash take them as parameters, collected in the record
  \<open>crypto\<close>, with the signature recovery the consensus engines use.
\<close>

record header =
  ParentHash :: hash
  UncleHash :: hash
  Coinbase :: address
  Root :: hash
  TxHash :: hash
  ReceiptHash :: hash
  Bloom :: bytes
  Difficulty :: "bigint option"
  Number :: "bigint option"
  GasLimit :: u64
  GasUsed :: u64
  Time :: u64
  Extra :: bytes
  MixDigest :: hash
  Nonce :: bytes

record block =
  bheader :: header
  uncles :: "header list"
  transactions :: "transaction list"
  td :: "bigint option"

text \<open>The libraries: the RLP encoding of a header (the list of its 15 fields), of a list of headers, the
  Keccak-256 hash and the secp256k1 recovery of a public key (an error is \<^const>\<open>None\<close>).\<close>

record crypto =
  rlp_header :: "header \<Rightarrow> bytes"
  rlp_headers :: "header list \<Rightarrow> bytes"
  keccak256 :: "bytes \<Rightarrow> hash"
  Ecrecover_lib :: "hash \<Rightarrow> bytes \<Rightarrow> bytes option"

definition header_Hash :: "crypto \<Rightarrow> header \<Rightarrow> hash" where
  "header_Hash cr h = keccak256 cr (rlp_header cr h)"

text \<open>\<open>(*big.Int).Uint64\<close>: the low 64 bits of the magnitude; on a nil pointer it panics.\<close>

definition Uint64 :: "bigint option \<Rightarrow> u64 option" where
  "Uint64 x = map_option (\<lambda>n. word_of_int \<bar>n\<bar>) x"

section \<open>Block nonces\<close>

definition EncodeNonce :: "u64 \<Rightarrow> bytes" where
  "EncodeNonce i = map (\<lambda>k. ucast (drop_bit (8 * k) i)) [7, 6, 5, 4, 3, 2, 1, 0]"

definition BlockNonce_Uint64 :: "bytes \<Rightarrow> u64" where
  "BlockNonce_Uint64 n = foldl (\<lambda>acc b. push_bit 8 acc + ucast b) 0 n"

section \<open>Construction and copying\<close>

definition CopyHeader :: "header \<Rightarrow> header" where
  "CopyHeader h = h\<lparr>Difficulty := Some (case Difficulty h of None \<Rightarrow> 0 | Some d \<Rightarrow> d),
                    Number := Some (case Number h of None \<Rightarrow> 0 | Some n \<Rightarrow> n)\<rparr>"

definition EmptyUncleHash :: "crypto \<Rightarrow> hash" where
  "EmptyUncleHash cr = keccak256 cr (rlp_headers cr [])"

definition CalcUncleHash :: "crypto \<Rightarrow> header list \<Rightarrow> hash" where
  "CalcUncleHash cr us = (if length us = 0 then EmptyUncleHash cr else keccak256 cr (rlp_headers cr us))"

text \<open>\<open>NewBlock\<close> over the root hash of a list of transactions and of receipts (\<open>DeriveSha\<close>, over the trie
  library) and the bloom filter of the receipts.\<close>

definition NewBlock ::
  "crypto \<Rightarrow> (transaction list \<Rightarrow> hash) \<Rightarrow> ('r list \<Rightarrow> hash) \<Rightarrow> ('r list \<Rightarrow> bytes) \<Rightarrow>
     header \<Rightarrow> transaction list \<Rightarrow> header list \<Rightarrow> 'r list \<Rightarrow> block" where
  "NewBlock cr deriveTxs deriveReceipts createBloom h txs us receipts =
     (let emptyRoot = deriveTxs [];
          h0 = CopyHeader h;
          h1 = h0\<lparr>TxHash := (if length txs = 0 then emptyRoot else deriveTxs txs)\<rparr>;
          h2 = (if length receipts = 0 then h1\<lparr>ReceiptHash := emptyRoot\<rparr>
                else h1\<lparr>ReceiptHash := deriveReceipts receipts, Bloom := createBloom receipts\<rparr>);
          h3 = h2\<lparr>UncleHash := (if length us = 0 then EmptyUncleHash cr else CalcUncleHash cr us)\<rparr>
      in \<lparr>bheader = h3, uncles = map CopyHeader us, transactions = txs, td = Some 0\<rparr>)"

definition NewBlockWithHeader :: "header \<Rightarrow> block" where
  "NewBlockWithHeader h = \<lparr>bheader = CopyHeader h, uncles = [], transactions = [], td = None\<rparr>"

fun block_Transaction :: "(transaction \<Rightarrow> hash) \<Rightarrow> hash \<Rightarrow> transaction list \<Rightarrow> txptr" where
  "block_Transaction txhash k [] = None"
| "block_Transaction txhash k (t # ts) = (if txhash t = k then Some t else block_Transaction txhash k ts)"

definition block_Header :: "block \<Rightarrow> header" where
  "block_Header b = CopyHeader (bheader b)"

definition WithSeal :: "block \<Rightarrow> header \<Rightarrow> block" where
  "WithSeal b h = \<lparr>bheader = h, uncles = uncles b, transactions = transactions b, td = None\<rparr>"

definition WithBody :: "block \<Rightarrow> transaction list \<Rightarrow> header list \<Rightarrow> block" where
  "WithBody b txs us =
     \<lparr>bheader = CopyHeader (bheader b), uncles = map CopyHeader us, transactions = txs, td = None\<rparr>"

section \<open>Properties\<close>

lemma CopyHeader_idem: "CopyHeader (CopyHeader h) = CopyHeader h"
  by (simp add: CopyHeader_def)

lemma CopyHeader_id: "Number h \<noteq> None \<Longrightarrow> Difficulty h \<noteq> None \<Longrightarrow> CopyHeader h = h"
  by (auto simp: CopyHeader_def)

lemma length_EncodeNonce [simp]: "length (EncodeNonce i) = 8"
  by (simp add: EncodeNonce_def)

lemma block_Transaction_find:
  "block_Transaction txhash k ts = (case filter (\<lambda>t. txhash t = k) ts of [] \<Rightarrow> None | t # _ \<Rightarrow> Some t)"
  by (induction ts) auto

lemma Uint64_Some [simp]: "Uint64 (Some n) = Some (word_of_int \<bar>n\<bar>)" and Uint64_None [simp]: "Uint64 None = None"
  by (simp_all add: Uint64_def)

lemma Uint64_of_unat [simp]: "Uint64 (Some (int (unat n))) = Some n"
  by (simp add: Uint64_def)

end
