(* ===== verification/Consensus.thy ===== *)
theory Consensus
  imports Blocks
begin

text \<open>
  What the two consensus engines share: their error values (\<open>consensus/clique/clique.go\<close>,
  \<open>consensus/aura/aura.go\<close> and \<open>consensus/errors.go\<close>), the recovery of the signer of a header with its
  signature cache, and the layout of the extra-data field.

  A run-time panic of the Go code is the error value \<open>Panic\<close>. The ARC cache of golang-lru is third-party
  code: a record of its two operations, with the property the engines rely on stated as \<open>arc_ok\<close>: what
  \<open>Get\<close> returns for a key is the value last stored under it, \<open>Add\<close> stores one entry and may evict others.
\<close>

datatype error =
    errUnknownBlock | errInvalidCheckpointBeneficiary | errInvalidVote | errInvalidCheckpointVote
  | errMissingVanity | errMissingSignature | errExtraSigners | errInvalidCheckpointSigners
  | errMismatchingCheckpointSigners | errInvalidMixDigest | errInvalidUncleHash | errInvalidDifficulty
  | errWrongDifficulty | ErrInvalidTimestamp | errInvalidVotingChain | errUnauthorizedSigner
  | errRecentlySigned | errInvalidExtraData | errUnauthorized | errWaitTransactions
  | ErrUnknownAncestor | ErrFutureBlock | errEcrecover | errUncles | errDatabase | errSign | Panic

type_synonym 'a res = "error + 'a"

record ('c, 'v) arc =
  arc_Get :: "'c \<Rightarrow> hash \<Rightarrow> 'v option \<times> 'c"
  arc_Add :: "'c \<Rightarrow> hash \<Rightarrow> 'v \<Rightarrow> 'c"

definition arc_ok :: "('c, 'v) arc \<Rightarrow> ('c \<Rightarrow> hash \<rightharpoonup> 'v) \<Rightarrow> bool" where
  "arc_ok a view \<longleftrightarrow> (\<forall>c k. fst (arc_Get a c k) = view c k \<and> view (snd (arc_Get a c k)) = view c)
     \<and> (\<forall>c k v. view (arc_Add a c k v) \<subseteq>\<^sub>m (view c)(k \<mapsto> v) \<and> view (arc_Add a c k v) k = Some v)"

definition extraVanity :: nat where "extraVanity = 32"
definition extraSeal :: nat where "extraSeal = 65"
definition addressLength :: nat where "addressLength = 20"

definition nonceAuthVote :: bytes where "nonceAuthVote = replicate 8 255"
definition nonceDropVote :: bytes where "nonceDropVote = replicate 8 0"

definition encodeSigHeader :: "crypto \<Rightarrow> header \<Rightarrow> bytes res" where
  "encodeSigHeader cr h =
     (if length (Extra h) < 65 then Inl Panic
      else Inr (rlp_header cr (h\<lparr>Extra := take (length (Extra h) - 65) (Extra h)\<rparr>)))"

definition SealHash :: "crypto \<Rightarrow> header \<Rightarrow> hash res" where
  "SealHash cr h = map_sum id (keccak256 cr) (encodeSigHeader cr h)"

text \<open>The signer is the last 20 bytes of the hash of the public key without its first byte.\<close>

definition ecrecover :: "crypto \<Rightarrow> ('c, address) arc \<Rightarrow> header \<Rightarrow> 'c \<Rightarrow> address res \<times> 'c" where
  "ecrecover cr a h c =
     (let k = header_Hash cr h in
      case arc_Get a c k of
        (Some addr, c1) \<Rightarrow> (Inr addr, c1)
      | (None, c1) \<Rightarrow>
          if length (Extra h) < extraSeal then (Inl errMissingSignature, c1)
          else let signature = drop (length (Extra h) - extraSeal) (Extra h) in
            case SealHash cr h of
              Inl e \<Rightarrow> (Inl e, c1)
            | Inr sh \<Rightarrow>
                (case Ecrecover_lib cr sh signature of
                   None \<Rightarrow> (Inl errEcrecover, c1)
                 | Some [] \<Rightarrow> (Inl Panic, c1)
                 | Some (_ # pub) \<Rightarrow>
                     let signer = ucast (keccak256 cr pub) in (Inr signer, arc_Add a c1 k signer)))"

text \<open>The recovery without the cache.\<close>

definition recover :: "crypto \<Rightarrow> header \<Rightarrow> address res" where
  "recover cr h =
     (if length (Extra h) < extraSeal then Inl errMissingSignature
      else case SealHash cr h of
             Inl e \<Rightarrow> Inl e
           | Inr sh \<Rightarrow> (case Ecrecover_lib cr sh (drop (length (Extra h) - extraSeal) (Extra h)) of
                          None \<Rightarrow> Inl errEcrecover | Some [] \<Rightarrow> Inl Panic
                        | Some (_ # pub) \<Rightarrow> Inr (ucast (keccak256 cr pub))))"

definition collision_free :: "crypto \<Rightarrow> bool" where
  "collision_free cr \<longleftrightarrow> (\<forall>h h'. header_Hash cr h = header_Hash cr h' \<longrightarrow> recover cr h = recover cr h')"

definition sigs_ok :: "crypto \<Rightarrow> ('c \<Rightarrow> hash \<rightharpoonup> address) \<Rightarrow> 'c \<Rightarrow> bool" where
  "sigs_ok cr view c \<longleftrightarrow> (\<forall>h a. view c (header_Hash cr h) = Some a \<longrightarrow> recover cr h = Inr a)"

text \<open>With a sound cache the recovery returns what the computation without the cache returns, and the
  cache stays sound.\<close>

lemma map_leD: "m \<subseteq>\<^sub>m n \<Longrightarrow> m k = Some v \<Longrightarrow> n k = Some v"
  by (auto simp: map_le_def dom_def)

lemma ecrecover_correct:
  assumes "arc_ok a view" "collision_free cr" "sigs_ok cr view c" "ecrecover cr a h c = (r, c')"
  shows "r = recover cr h" "sigs_ok cr view c'"
proof -
  obtain v c1 where g: "arc_Get a c (header_Hash cr h) = (v, c1)" by fastforce
  have "fst (arc_Get a c (header_Hash cr h)) = view c (header_Hash cr h)"
    "view (snd (arc_Get a c (header_Hash cr h))) = view c"
    using assms(1) by (simp_all add: arc_ok_def)
  then have v: "v = view c (header_Hash cr h)" and c1: "view c1 = view c" by (simp_all add: g)
  have s1: "sigs_ok cr view c1" using assms(3) c1 by (simp add: sigs_ok_def)
  have add: "sigs_ok cr view (arc_Add a c1 (header_Hash cr h) x)" if "recover cr h = Inr x" for x
  proof -
    have le: "view (arc_Add a c1 (header_Hash cr h) x) \<subseteq>\<^sub>m (view c1)(header_Hash cr h \<mapsto> x)"
      using assms(1) by (simp add: arc_ok_def)
    show ?thesis unfolding sigs_ok_def
    proof (intro allI impI)
      fix h' a' assume "view (arc_Add a c1 (header_Hash cr h) x) (header_Hash cr h') = Some a'"
      then have m: "((view c1)(header_Hash cr h \<mapsto> x)) (header_Hash cr h') = Some a'"
        by (rule map_leD [OF le])
      show "recover cr h' = Inr a'"
      proof (cases "header_Hash cr h' = header_Hash cr h")
        case True
        then have "recover cr h' = recover cr h" using assms(2) unfolding collision_free_def by blast
        then show ?thesis using that m True by simp
      next
        case False
        then show ?thesis using m s1 unfolding sigs_ok_def by simp
      qed
    qed
  qed
  have "r = recover cr h \<and> sigs_ok cr view c'"
  proof (cases v)
    case None
    then show ?thesis
      using assms(4) g s1 add
      by (auto simp: ecrecover_def recover_def simp del: fun_upd_apply
          split: if_splits sum.splits option.splits list.splits)
  next
    case (Some x)
    then show ?thesis using assms(3,4) g s1 v by (auto simp: ecrecover_def sigs_ok_def)
  qed
  then show "r = recover cr h" "sigs_ok cr view c'" by auto
qed

section \<open>An instance of the libraries\<close>

text \<open>Functions that satisfy the hypotheses on the libraries, to evaluate the engines on: the signer of a
  header is the last byte of its signature, and the cache is an association list that never evicts.\<close>

definition toy_crypto :: crypto where
  "toy_crypto = \<lparr>rlp_header = (\<lambda>h. if length (Extra h) < 65 then [] else [last (Extra h), 0]),
     rlp_headers = (\<lambda>_. [7]),
     keccak256 = (\<lambda>bs. case bs of [] \<Rightarrow> 0 | [x] \<Rightarrow> ucast x | x # _ \<Rightarrow> ucast x + 1),
     Ecrecover_lib = (\<lambda>_ sig. Some [0, last sig])\<rparr>"

definition toy_arc :: "((hash \<times> 'v) list, 'v) arc" where
  "toy_arc = \<lparr>arc_Get = (\<lambda>c k. (map_of c k, c)), arc_Add = (\<lambda>c k v. (k, v) # c)\<rparr>"

lemma toy_arc_ok: "arc_ok toy_arc map_of"
  by (auto simp: arc_ok_def toy_arc_def map_le_def)

lemma ucast_byte_plus: "(ucast (x :: byte) :: hash) + 1 = ucast y + 1 \<longleftrightarrow> x = y"
  by (simp, transfer) simp

lemma ucast_byte_Suc: "(ucast (x :: byte) :: hash) + 1 \<noteq> 0"
proof
  assume "(ucast x :: hash) + 1 = 0"
  then have "(ucast x :: hash) = - 1" by (simp add: eq_neg_iff_add_eq_0)
  then have "unat (ucast x :: hash) = unat (- 1 :: hash)" by simp
  moreover have "unat (ucast x :: hash) = unat x" by transfer (simp add: take_bit_take_bit)
  moreover have "unat x < 2 ^ 8" using unsigned_less [of x] by simp
  ultimately show False by (simp add: unsigned_minus_1_eq_mask mask_eq_exp_minus_1)
qed

lemma toy_recover:
  "recover toy_crypto h = (if length (Extra h) < 65 then Inl errMissingSignature else Inr (ucast (ucast (last (Extra h)) :: hash)))"
  by (auto simp: recover_def toy_crypto_def SealHash_def encodeSigHeader_def extraSeal_def last_drop)

lemma toy_collision_free: "collision_free toy_crypto"
proof -
  have h: "header_Hash toy_crypto h = (if length (Extra h) < 65 then 0 else ucast (last (Extra h)) + 1)" for h
    by (simp add: header_Hash_def toy_crypto_def)
  show ?thesis unfolding collision_free_def toy_recover h
    using ucast_byte_plus ucast_byte_Suc by (auto split: if_splits)
qed

lemma toy_sigs_ok: "sigs_ok toy_crypto map_of []"
  by (simp add: sigs_ok_def)

definition toy_header :: "int \<Rightarrow> address \<Rightarrow> bytes \<Rightarrow> byte \<Rightarrow> header" where
  "toy_header n coinbase nonce sg =
     \<lparr>ParentHash = 0, UncleHash = 0, Coinbase = coinbase, Root = 0, TxHash = 0, ReceiptHash = 0, Bloom = [],
      Difficulty = Some 1, Number = Some n, GasLimit = 0, GasUsed = 0, Time = 0,
      Extra = replicate 96 0 @ [sg], MixDigest = 0, Nonce = nonce\<rparr>"

end
