(* ===== verification/Clique_Snapshot.thy ===== *)
theory Clique_Snapshot
  imports Consensus
begin

text \<open>
  The authorisation snapshots of the Clique engine: \<open>consensus/clique/snapshot.go\<close>.

  The maps of a snapshot are Go maps. The signature cache that the snapshots of an engine share is threaded
  through \<open>apply\<close> as a state of its own. Votes are pointers to values that are never written after they
  are made, so a list of pointers is a list of votes. The tests that range over \<open>Recents\<close> stop at the first
  match, and their result does not depend on the order.

  Proved: the cached tally is at every moment the count of the votes in the list (\<open>tally_ok\<close>), the recent
  signers are those of the last blocks and distinct (\<open>recents_ok\<close>), a signer cannot sign twice within the
  window, more than half of the signers may sign the next block, exactly one signer is in turn.
\<close>

record vote =
  VSigner :: address
  VBlock :: u64
  VAddress :: address
  VAuthorize :: bool

record tally =
  TAuthorize :: bool
  TVotes :: int

record cliqueConfig =
  Period :: u64
  Epoch :: u64

record snapshot =
  config :: cliqueConfig
  SNumber :: u64
  SHash :: hash
  Signers :: "(address, unit) gomap"
  Recents :: "(u64, address) gomap"
  Votes :: "vote list"
  Tally :: "(address, tally) gomap"

definition newSnapshot :: "cliqueConfig \<Rightarrow> u64 \<Rightarrow> hash \<Rightarrow> address list \<Rightarrow> snapshot" where
  "newSnapshot cfg number h sgs =
     \<lparr>config = cfg, SNumber = number, SHash = h, Signers = foldl (\<lambda>m a. gm_put m a ()) [] sgs,
      Recents = [], Votes = [], Tally = []\<rparr>"

text \<open>\<open>copy\<close> fills fresh maps by ranging over the old ones.\<close>

definition copy_map :: "('k, 'v) gomap \<Rightarrow> ('k, 'v) gomap" where
  "copy_map m = foldl (\<lambda>m' (k, v). gm_put m' k v) [] m"

definition snap_copy :: "snapshot \<Rightarrow> snapshot" where
  "snap_copy s = s\<lparr>Signers := copy_map (Signers s), Recents := copy_map (Recents s), Tally := copy_map (Tally s)\<rparr>"

definition is_signer :: "snapshot \<Rightarrow> address \<Rightarrow> bool" where
  "is_signer s a = (gm_get (Signers s) a = Some ())"

definition validVote :: "snapshot \<Rightarrow> address \<Rightarrow> bool \<Rightarrow> bool" where
  "validVote s a authorize =
     (let signer = is_signer s a in (signer \<and> \<not> authorize) \<or> (\<not> signer \<and> authorize))"

definition cast :: "snapshot \<Rightarrow> address \<Rightarrow> bool \<Rightarrow> bool \<times> snapshot" where
  "cast s a authorize =
     (if \<not> validVote s a authorize then (False, s)
      else case gm_get (Tally s) a of
             Some old \<Rightarrow> (True, s\<lparr>Tally := gm_put (Tally s) a (old\<lparr>TVotes := TVotes old + 1\<rparr>)\<rparr>)
           | None \<Rightarrow> (True, s\<lparr>Tally := gm_put (Tally s) a \<lparr>TAuthorize = authorize, TVotes = 1\<rparr>\<rparr>))"

definition uncast :: "snapshot \<Rightarrow> address \<Rightarrow> bool \<Rightarrow> bool \<times> snapshot" where
  "uncast s a authorize =
     (case gm_get (Tally s) a of
        None \<Rightarrow> (False, s)
      | Some t \<Rightarrow>
          if TAuthorize t \<noteq> authorize then (False, s)
          else if TVotes t > 1 then (True, s\<lparr>Tally := gm_put (Tally s) a (t\<lparr>TVotes := TVotes t - 1\<rparr>)\<rparr>)
          else (True, s\<lparr>Tally := gm_del (Tally s) a\<rparr>))"

section \<open>Apply\<close>

text \<open>The sanity check that the block numbers are consecutive.\<close>

fun contiguous :: "header list \<Rightarrow> unit res" where
  "contiguous (h # h' # hs) =
     (case (Uint64 (Number h'), Uint64 (Number h)) of
        (Some n', Some n) \<Rightarrow> if n' \<noteq> n + 1 then Inl errInvalidVotingChain else contiguous (h' # hs)
      | _ \<Rightarrow> Inl Panic)"
| "contiguous _ = Inr ()"

definition limit_of :: "snapshot \<Rightarrow> u64" where
  "limit_of s = of_nat (length (Signers s) div 2 + 1)"

definition prune_recents :: "u64 \<Rightarrow> snapshot \<Rightarrow> snapshot" where
  "prune_recents number s =
     (let limit = limit_of s in
      if number \<ge> limit then s\<lparr>Recents := gm_del (Recents s) (number - limit)\<rparr> else s)"

definition remove_vote :: "nat \<Rightarrow> snapshot \<Rightarrow> snapshot" where
  "remove_vote i s = s\<lparr>Votes := take i (Votes s) @ drop (i + 1) (Votes s)\<rparr>"

fun find_vote :: "address \<Rightarrow> address \<Rightarrow> nat \<Rightarrow> vote list \<Rightarrow> nat option" where
  "find_vote signer coinbase i [] = None"
| "find_vote signer coinbase i (v # vs) =
     (if VSigner v = signer \<and> VAddress v = coinbase then Some i else find_vote signer coinbase (i + 1) vs)"

definition discard_previous :: "address \<Rightarrow> address \<Rightarrow> snapshot \<Rightarrow> snapshot" where
  "discard_previous signer coinbase s =
     (case find_vote signer coinbase 0 (Votes s) of
        None \<Rightarrow> s
      | Some i \<Rightarrow> let v = Votes s ! i in remove_vote i (snd (uncast s (VAddress v) (VAuthorize v))))"

lemma Votes_uncast [simp]: "Votes (snd (uncast s a b)) = Votes s"
  by (simp add: uncast_def split: option.splits)

function discard_cast_by :: "address \<Rightarrow> nat \<Rightarrow> snapshot \<Rightarrow> snapshot" where
  "discard_cast_by a i s =
     (if i < length (Votes s) then
        if VSigner (Votes s ! i) = a then
          let v = Votes s ! i in discard_cast_by a i (remove_vote i (snd (uncast s (VAddress v) (VAuthorize v))))
        else discard_cast_by a (i + 1) s
      else s)"
  by pat_completeness auto
termination
  by (relation "measure (\<lambda>(a, i, s). length (Votes s) - i)") (auto simp: remove_vote_def)

function discard_about :: "address \<Rightarrow> nat \<Rightarrow> snapshot \<Rightarrow> snapshot" where
  "discard_about a i s =
     (if i < length (Votes s) then
        if VAddress (Votes s ! i) = a then discard_about a i (remove_vote i s) else discard_about a (i + 1) s
      else s)"
  by pat_completeness auto
termination
  by (relation "measure (\<lambda>(a, i, s). length (Votes s) - i)") (auto simp: remove_vote_def)

declare discard_cast_by.simps [simp del] discard_about.simps [simp del]

text \<open>The end of the loop body: the list of signers changes when the vote passed. A missing entry of
  \<open>Tally\<close> reads as the zero value, with no votes.\<close>

definition settle :: "u64 \<Rightarrow> address \<Rightarrow> snapshot \<Rightarrow> snapshot" where
  "settle number coinbase s =
     (let t = (case gm_get (Tally s) coinbase of Some t \<Rightarrow> t | None \<Rightarrow> \<lparr>TAuthorize = False, TVotes = 0\<rparr>) in
      if TVotes t > int (length (Signers s) div 2) then
        let s1 = (if TAuthorize t then s\<lparr>Signers := gm_put (Signers s) coinbase ()\<rparr>
                  else discard_cast_by coinbase 0
                         (prune_recents number (s\<lparr>Signers := gm_del (Signers s) coinbase\<rparr>)));
            s2 = discard_about coinbase 0 s1
        in s2\<lparr>Tally := gm_del (Tally s2) coinbase\<rparr>
      else s)"

text \<open>The loop body after the signer is known.\<close>

definition apply_signed :: "u64 \<Rightarrow> address \<Rightarrow> header \<Rightarrow> snapshot \<Rightarrow> snapshot res" where
  "apply_signed number signer h s =
     (if \<not> is_signer s signer then Inl errUnauthorizedSigner
      else if list_ex (\<lambda>(_, recent). recent = signer) (Recents s) then Inl errRecentlySigned
      else
        let s1 = s\<lparr>Recents := gm_put (Recents s) number signer\<rparr>;
            s2 = discard_previous signer (Coinbase h) s1
        in case (if Nonce h = nonceAuthVote then Some True
                 else if Nonce h = nonceDropVote then Some False else None) of
             None \<Rightarrow> Inl errInvalidVote
           | Some authorize \<Rightarrow>
               let (ok, s3) = cast s2 (Coinbase h) authorize;
                   s4 = (if ok then s3\<lparr>Votes := Votes s3 @ [\<lparr>VSigner = signer, VBlock = number,
                                        VAddress = Coinbase h, VAuthorize = authorize\<rparr>]\<rparr> else s3)
               in Inr (settle number (Coinbase h) s4))"

text \<open>The loop body: \<open>number % Epoch\<close> panics for a zero epoch.\<close>

definition prepare_header :: "u64 \<Rightarrow> snapshot \<Rightarrow> snapshot res" where
  "prepare_header number s =
     (if Epoch (config s) = 0 then Inl Panic
      else let s0 = (if number mod Epoch (config s) = 0 then s\<lparr>Votes := [], Tally := []\<rparr> else s)
           in Inr (prune_recents number s0))"

definition apply_header ::
  "crypto \<Rightarrow> ('c, address) arc \<Rightarrow> header \<Rightarrow> snapshot \<Rightarrow> 'c \<Rightarrow> snapshot res \<times> 'c" where
  "apply_header cr a h s c =
     (case Uint64 (Number h) of
        None \<Rightarrow> (Inl Panic, c)
      | Some number \<Rightarrow>
          (case prepare_header number s of
             Inl e \<Rightarrow> (Inl e, c)
           | Inr s1 \<Rightarrow>
               (case ecrecover cr a h c of
                  (Inl e, c1) \<Rightarrow> (Inl e, c1)
                | (Inr signer, c1) \<Rightarrow> (apply_signed number signer h s1, c1))))"

fun apply_loop ::
  "crypto \<Rightarrow> ('c, address) arc \<Rightarrow> header list \<Rightarrow> snapshot \<Rightarrow> 'c \<Rightarrow> snapshot res \<times> 'c" where
  "apply_loop cr a [] s c = (Inr s, c)"
| "apply_loop cr a (h # hs) s c =
     (case apply_header cr a h s c of
        (Inl e, c1) \<Rightarrow> (Inl e, c1)
      | (Inr s1, c1) \<Rightarrow> apply_loop cr a hs s1 c1)"

definition snap_apply ::
  "crypto \<Rightarrow> ('c, address) arc \<Rightarrow> snapshot \<Rightarrow> header list \<Rightarrow> 'c \<Rightarrow> snapshot res \<times> 'c" where
  "snap_apply cr a s headers c =
     (if headers = [] then (Inr s, c)
      else case contiguous headers of
             Inl e \<Rightarrow> (Inl e, c)
           | Inr _ \<Rightarrow>
               (case Uint64 (Number (headers ! 0)) of
                  None \<Rightarrow> (Inl Panic, c)
                | Some n \<Rightarrow>
                    if n \<noteq> SNumber s + 1 then (Inl errInvalidVotingChain, c)
                    else case apply_loop cr a headers (snap_copy s) c of
                           (Inl e, c1) \<Rightarrow> (Inl e, c1)
                         | (Inr s1, c1) \<Rightarrow>
                             (Inr (s1\<lparr>SNumber := SNumber s1 + of_nat (length headers),
                                      SHash := header_Hash cr (headers ! (length headers - 1))\<rparr>), c1)))"

definition signers :: "(address list \<Rightarrow> address list) \<Rightarrow> snapshot \<Rightarrow> address list" where
  "signers rng s = sort (rng (gm_keys (Signers s)))"

fun offset_of :: "address \<Rightarrow> address list \<Rightarrow> nat" where
  "offset_of a [] = 0"
| "offset_of a (x # xs) = (if x \<noteq> a then Suc (offset_of a xs) else 0)"

text \<open>\<open>inturn\<close> divides by the number of signers: with none it panics.\<close>

definition inturn :: "(address list \<Rightarrow> address list) \<Rightarrow> snapshot \<Rightarrow> u64 \<Rightarrow> address \<Rightarrow> bool option" where
  "inturn rng s number signer =
     (let sgs = signers rng s; offset = offset_of signer sgs in
      if sgs = [] then None else Some (number mod of_nat (length sgs) = of_nat offset))"

section \<open>The votes and their tally\<close>

abbreviation signer_set :: "snapshot \<Rightarrow> address set" where
  "signer_set s \<equiv> set (gm_keys (Signers s))"

lemma is_signer_iff: "is_signer s a \<longleftrightarrow> a \<in> signer_set s"
proof -
  have "gm_get (Signers s) a = Some () \<longleftrightarrow> gm_get (Signers s) a \<noteq> None" by auto
  then show ?thesis unfolding is_signer_def gm_get_None_iff by simp
qed

text \<open>What the tally has to hold: the number of votes about an account, with their common direction.\<close>

definition tally_of :: "address set \<Rightarrow> vote list \<Rightarrow> address \<Rightarrow> tally option" where
  "tally_of S vs a =
     (let n = length (filter (\<lambda>v. VAddress v = a) vs)
      in if n = 0 then None else Some \<lparr>TAuthorize = (a \<notin> S), TVotes = int n\<rparr>)"

definition counted :: "address set \<Rightarrow> (address, tally) gomap \<Rightarrow> vote list \<Rightarrow> bool" where
  "counted S T vs \<longleftrightarrow> gm_wf T \<and> gm_get T = tally_of S vs \<and> (\<forall>v \<in> set vs. VAuthorize v = (VAddress v \<notin> S))"

definition ballots_ok :: "address set \<Rightarrow> vote list \<Rightarrow> bool" where
  "ballots_ok S vs \<longleftrightarrow> distinct (map (\<lambda>v. (VSigner v, VAddress v)) vs) \<and> VSigner ` set vs \<subseteq> S"

definition votes_ok :: "snapshot \<Rightarrow> bool" where
  "votes_ok s \<longleftrightarrow> gm_wf (Signers s) \<and> counted (signer_set s) (Tally s) (Votes s) \<and> ballots_ok (signer_set s) (Votes s)"

lemma tally_of_remove:
  "tally_of S (xs @ ys) = (tally_of S (xs @ v # ys))(VAddress v :=
     (let n = length (filter (\<lambda>w. VAddress w = VAddress v) (xs @ ys))
      in if n = 0 then None else Some \<lparr>TAuthorize = (VAddress v \<notin> S), TVotes = int n\<rparr>))"
  by (rule ext) (simp add: tally_of_def)

lemma counted_uncast:
  assumes "counted S (Tally s) (xs @ v # ys)"
  shows "counted S (Tally (snd (uncast s (VAddress v) (VAuthorize v)))) (xs @ ys)"
proof -
  define n where "n = length (filter (\<lambda>w. VAddress w = VAddress v) (xs @ ys))"
  have g: "gm_get (Tally s) = tally_of S (xs @ v # ys)" and w: "gm_wf (Tally s)"
    and a: "\<forall>w \<in> set (xs @ v # ys). VAuthorize w = (VAddress w \<notin> S)" using assms by (auto simp: counted_def)
  have e: "gm_get (Tally s) (VAddress v) = Some \<lparr>TAuthorize = (VAddress v \<notin> S), TVotes = int (Suc n)\<rparr>"
    by (simp add: g tally_of_def n_def)
  have av: "VAuthorize v = (VAddress v \<notin> S)" using a by simp
  show ?thesis
  proof (cases "n = 0")
    case True
    then have "snd (uncast s (VAddress v) (VAuthorize v)) = s\<lparr>Tally := gm_del (Tally s) (VAddress v)\<rparr>"
      using e av by (simp add: uncast_def)
    then show ?thesis
      using True w a tally_of_remove [of S xs ys v, folded n_def]
      by (simp add: counted_def gm_wf_del gm_get_del g fun_upd_def)
  next
    case False
    then have "snd (uncast s (VAddress v) (VAuthorize v)) =
        s\<lparr>Tally := gm_put (Tally s) (VAddress v) \<lparr>TAuthorize = (VAddress v \<notin> S), TVotes = int n\<rparr>\<rparr>"
      using e av by (simp add: uncast_def)
    then show ?thesis
      using False w a tally_of_remove [of S xs ys v, folded n_def]
      by (simp add: counted_def gm_wf_put gm_get_put g fun_upd_def)
  qed
qed

lemma counted_cast:
  assumes "counted (signer_set s) (Tally s) vs" "cast s a authorize = (ok, s')"
  shows "ok = (authorize = (a \<notin> signer_set s))"
    and "ok \<Longrightarrow> VAddress v = a \<Longrightarrow> VAuthorize v = authorize \<Longrightarrow> counted (signer_set s) (Tally s') (vs @ [v])"
    and "\<not> ok \<Longrightarrow> s' = s"
proof -
  show ok: "ok = (authorize = (a \<notin> signer_set s))"
    using assms(2) by (auto simp: cast_def validVote_def is_signer_iff split: if_splits option.splits)
  show "\<not> ok \<Longrightarrow> s' = s" using assms(2) by (auto simp: cast_def split: if_splits option.splits)
  assume o: ok and v: "VAddress v = a" "VAuthorize v = authorize"
  have g: "gm_get (Tally s) = tally_of (signer_set s) vs" and w: "gm_wf (Tally s)"
    and al: "\<forall>w \<in> set vs. VAuthorize w = (VAddress w \<notin> signer_set s)" using assms(1) by (auto simp: counted_def)
  have "Tally s' = gm_put (Tally s) a \<lparr>TAuthorize = (a \<notin> signer_set s),
          TVotes = int (length (filter (\<lambda>w. VAddress w = a) vs)) + 1\<rparr>"
    using assms(2) o ok by (auto simp: cast_def g tally_of_def split: if_splits)
  then show "counted (signer_set s) (Tally s') (vs @ [v])"
    using w al v ok o by (auto simp: counted_def gm_wf_put gm_get_put g tally_of_def fun_eq_iff)
qed

lemma cast_frame [simp]:
  "Signers (snd (cast s a b)) = Signers s" "Recents (snd (cast s a b)) = Recents s"
  "Votes (snd (cast s a b)) = Votes s" "config (snd (cast s a b)) = config s" "SNumber (snd (cast s a b)) = SNumber s"
  by (simp_all add: cast_def split: option.splits)

lemma uncast_frame [simp]:
  "Signers (snd (uncast s a b)) = Signers s" "Recents (snd (uncast s a b)) = Recents s"
  "config (snd (uncast s a b)) = config s" "SNumber (snd (uncast s a b)) = SNumber s"
  by (simp_all add: uncast_def split: option.splits)

lemma prune_frame [simp]:
  "Signers (prune_recents n s) = Signers s" "Votes (prune_recents n s) = Votes s"
  "Tally (prune_recents n s) = Tally s" "config (prune_recents n s) = config s" "SNumber (prune_recents n s) = SNumber s"
  by (simp_all add: prune_recents_def)

lemma remove_vote_frame [simp]:
  "Signers (remove_vote i s) = Signers s" "Recents (remove_vote i s) = Recents s" "Tally (remove_vote i s) = Tally s"
  "config (remove_vote i s) = config s" "SNumber (remove_vote i s) = SNumber s"
  "Votes (remove_vote i s) = take i (Votes s) @ drop (Suc i) (Votes s)"
  by (simp_all add: remove_vote_def)

lemma discard_about_eq:
  "discard_about a i s = s\<lparr>Votes := take i (Votes s) @ filter (\<lambda>v. VAddress v \<noteq> a) (drop i (Votes s))\<rparr>"
proof (induction a i s rule: discard_about.induct)
  case (1 a i s)
  show ?case
  proof (cases "i < length (Votes s)")
    case True
    note d = Cons_nth_drop_Suc [OF True, symmetric]
    show ?thesis
      using "1.IH" True
      by (subst discard_about.simps) (auto simp: d remove_vote_def take_Suc_conv_app_nth)
  qed (simp add: discard_about.simps)
qed

lemma discard_cast_by_frame [simp]:
  "Signers (discard_cast_by a i s) = Signers s" "Recents (discard_cast_by a i s) = Recents s"
  "config (discard_cast_by a i s) = config s" "SNumber (discard_cast_by a i s) = SNumber s"
  by (induction a i s rule: discard_cast_by.induct; subst discard_cast_by.simps; simp)+

lemma discard_cast_by_votes:
  "Votes (discard_cast_by a i s) = take i (Votes s) @ filter (\<lambda>v. VSigner v \<noteq> a) (drop i (Votes s))"
proof (induction a i s rule: discard_cast_by.induct)
  case (1 a i s)
  show ?case
  proof (cases "i < length (Votes s)")
    case True
    note d = Cons_nth_drop_Suc [OF True, symmetric]
    show ?thesis
      using "1.IH" True
      by (subst discard_cast_by.simps) (auto simp: d take_Suc_conv_app_nth)
  qed (simp add: discard_cast_by.simps)
qed

lemma discard_cast_by_counted:
  "counted S (Tally s) (Votes s) \<Longrightarrow> counted S (Tally (discard_cast_by a i s)) (Votes (discard_cast_by a i s))"
proof (induction a i s rule: discard_cast_by.induct)
  case (1 a i s)
  show ?case
  proof (cases "i < length (Votes s)")
    case True
    show ?thesis
    proof (cases "VSigner (Votes s ! i) = a")
      case own: True
      have "Votes s = take i (Votes s) @ Votes s ! i # drop (Suc i) (Votes s)" by (rule id_take_nth_drop [OF True])
      then have "counted S (Tally s) (take i (Votes s) @ Votes s ! i # drop (Suc i) (Votes s))" using "1.prems" by simp
      from counted_uncast [OF this] have "counted S
        (Tally (remove_vote i (snd (uncast s (VAddress (Votes s ! i)) (VAuthorize (Votes s ! i))))))
        (Votes (remove_vote i (snd (uncast s (VAddress (Votes s ! i)) (VAuthorize (Votes s ! i))))))" by simp
      from "1.IH"(1) [OF True own refl this] show ?thesis
        by (subst discard_cast_by.simps, subst (2) discard_cast_by.simps) (simp add: True own)
    next
      case False
      from "1.IH"(2) [OF True False "1.prems"] show ?thesis
        by (subst discard_cast_by.simps, subst (2) discard_cast_by.simps) (simp add: True False)
    qed
  next
    case False
    then show ?thesis using "1.prems" by (simp add: discard_cast_by.simps)
  qed
qed

lemma find_vote_Some:
  "find_vote sg cb i vs = Some j \<Longrightarrow>
     \<exists>k. j = i + k \<and> k < length vs \<and> VSigner (vs ! k) = sg \<and> VAddress (vs ! k) = cb"
proof (induction vs arbitrary: i)
  case (Cons v vs)
  show ?case
  proof (cases "VSigner v = sg \<and> VAddress v = cb")
    case True
    then show ?thesis using Cons.prems by (intro exI [of _ 0]) simp
  next
    case False
    then have "find_vote sg cb (i + 1) vs = Some j" using Cons.prems by auto
    from Cons.IH [OF this] obtain k where "j = i + 1 + k" "k < length vs" "VSigner (vs ! k) = sg" "VAddress (vs ! k) = cb"
      by blast
    then show ?thesis by (intro exI [of _ "Suc k"]) simp
  qed
qed simp

lemma find_vote_None: "find_vote sg cb i vs = None \<longleftrightarrow> (\<forall>v \<in> set vs. \<not> (VSigner v = sg \<and> VAddress v = cb))"
  by (induction vs arbitrary: i) auto

lemma ballots_ok_subset:
  assumes "ballots_ok S vs" "distinct (map (\<lambda>v. (VSigner v, VAddress v)) vs')" "set vs' \<subseteq> set vs"
  shows "ballots_ok S vs'"
  using assms by (auto simp: ballots_ok_def)

lemma ballots_ok_filter: "ballots_ok S vs \<Longrightarrow> ballots_ok S (filter P vs)"
  by (rule ballots_ok_subset [of S vs]) (auto simp: ballots_ok_def distinct_map_filter)

lemma discard_previous_spec:
  assumes "counted S (Tally s) (Votes s)" "ballots_ok S (Votes s)"
  shows "counted S (Tally (discard_previous sg cb s)) (Votes (discard_previous sg cb s))"
    "ballots_ok S (Votes (discard_previous sg cb s))"
    "\<forall>v \<in> set (Votes (discard_previous sg cb s)). \<not> (VSigner v = sg \<and> VAddress v = cb)"
    "Signers (discard_previous sg cb s) = Signers s" "Recents (discard_previous sg cb s) = Recents s"
    "config (discard_previous sg cb s) = config s" "SNumber (discard_previous sg cb s) = SNumber s"
    "set (Votes (discard_previous sg cb s)) \<subseteq> set (Votes s)"
proof -
  have "counted S (Tally (discard_previous sg cb s)) (Votes (discard_previous sg cb s))
    \<and> ballots_ok S (Votes (discard_previous sg cb s))
    \<and> (\<forall>v \<in> set (Votes (discard_previous sg cb s)). \<not> (VSigner v = sg \<and> VAddress v = cb))
    \<and> set (Votes (discard_previous sg cb s)) \<subseteq> set (Votes s)"
  proof (cases "find_vote sg cb 0 (Votes s)")
    case None
    then show ?thesis using assms find_vote_None [of sg cb 0 "Votes s"] by (simp add: discard_previous_def)
  next
    case (Some i)
    from find_vote_Some [OF Some] have i: "i < length (Votes s)" and v: "VSigner (Votes s ! i) = sg" "VAddress (Votes s ! i) = cb"
      by auto
    let ?v = "Votes s ! i" and ?r = "take i (Votes s) @ drop (Suc i) (Votes s)"
    have d: "discard_previous sg cb s = remove_vote i (snd (uncast s (VAddress ?v) (VAuthorize ?v)))"
      using Some by (simp add: discard_previous_def)
    have e: "Votes s = take i (Votes s) @ ?v # drop (Suc i) (Votes s)" by (rule id_take_nth_drop [OF i])
    have c: "counted S (Tally s) (take i (Votes s) @ ?v # drop (Suc i) (Votes s))" using assms(1) e by simp
    have dist: "distinct (map (\<lambda>v. (VSigner v, VAddress v)) (take i (Votes s) @ ?v # drop (Suc i) (Votes s)))"
      using assms(2) e by (simp add: ballots_ok_def)
    have sub: "set ?r \<subseteq> set (Votes s)" using set_take_subset [of i "Votes s"] set_drop_subset [of "Suc i" "Votes s"] by simp
    have b: "ballots_ok S ?r" by (rule ballots_ok_subset [OF assms(2) _ sub]) (use dist in simp)
    have n: "\<forall>w \<in> set ?r. \<not> (VSigner w = sg \<and> VAddress w = cb)" using dist v by (auto simp: image_iff)
    show ?thesis unfolding d remove_vote_frame Votes_uncast using counted_uncast [OF c] b n sub by blast
  qed
  then show "counted S (Tally (discard_previous sg cb s)) (Votes (discard_previous sg cb s))"
    "ballots_ok S (Votes (discard_previous sg cb s))"
    "\<forall>v \<in> set (Votes (discard_previous sg cb s)). \<not> (VSigner v = sg \<and> VAddress v = cb)"
    "set (Votes (discard_previous sg cb s)) \<subseteq> set (Votes s)" by blast+
qed (simp_all add: discard_previous_def split: option.splits)

lemma votes_ok_discard_previous: "votes_ok s \<Longrightarrow> votes_ok (discard_previous sg cb s)"
  using discard_previous_spec [of "signer_set s" s sg cb] by (simp add: votes_ok_def)

lemma counted_change:
  assumes "counted S T vs" "\<forall>a. a \<noteq> x \<longrightarrow> (a \<in> S' \<longleftrightarrow> a \<in> S)"
  shows "counted S' (gm_del T x) (filter (\<lambda>v. VAddress v \<noteq> x) vs)"
proof -
  have f: "filter (\<lambda>v. VAddress v = a) (filter (\<lambda>v. VAddress v \<noteq> x) vs) = (if a = x then [] else filter (\<lambda>v. VAddress v = a) vs)" for a
    by (induction vs) auto
  have "gm_get (gm_del T x) a = tally_of S' (filter (\<lambda>v. VAddress v \<noteq> x) vs) a" for a
    using assms by (auto simp: counted_def gm_get_del tally_of_def f simp del: filter_filter)
  then have "gm_get (gm_del T x) = tally_of S' (filter (\<lambda>v. VAddress v \<noteq> x) vs)" by blast
  then show ?thesis using assms by (auto simp: counted_def gm_wf_del)
qed

lemma settle_cases:
  obtains (keep) "settle n cb s = s"
  | (grow) "cb \<notin> signer_set s"
      "settle n cb s = s\<lparr>Signers := gm_put (Signers s) cb (), Votes := filter (\<lambda>v. VAddress v \<noteq> cb) (Votes s),
                         Tally := gm_del (Tally s) cb\<rparr>"
  | (shrink) "cb \<in> signer_set s"
      "settle n cb s = (let d = discard_cast_by cb 0 (prune_recents n (s\<lparr>Signers := gm_del (Signers s) cb\<rparr>))
                        in d\<lparr>Votes := filter (\<lambda>v. VAddress v \<noteq> cb) (Votes d), Tally := gm_del (Tally d) cb\<rparr>)"
  | (stray) "\<not> votes_ok s"
proof -
  define t where "t = (case gm_get (Tally s) cb of Some t \<Rightarrow> t | None \<Rightarrow> \<lparr>TAuthorize = False, TVotes = 0\<rparr>)"
  have st: "settle n cb s = (if TVotes t > int (length (Signers s) div 2) then
        let s1 = (if TAuthorize t then s\<lparr>Signers := gm_put (Signers s) cb ()\<rparr>
                  else discard_cast_by cb 0 (prune_recents n (s\<lparr>Signers := gm_del (Signers s) cb\<rparr>)));
            s2 = s1\<lparr>Votes := filter (\<lambda>v. VAddress v \<noteq> cb) (Votes s1)\<rparr>
        in s2\<lparr>Tally := gm_del (Tally s2) cb\<rparr> else s)"
    unfolding settle_def t_def [symmetric] discard_about_eq by simp
  have au: "votes_ok s \<Longrightarrow> TVotes t > 0 \<Longrightarrow> TAuthorize t = (cb \<notin> signer_set s)"
    by (auto simp: votes_ok_def counted_def t_def tally_of_def split: if_splits)
  show thesis
  proof (cases "votes_ok s \<and> TVotes t > int (length (Signers s) div 2)")
    case True
    then have "TAuthorize t = (cb \<notin> signer_set s)" using au by linarith
    then show thesis using grow shrink True unfolding st by (cases "TAuthorize t") auto
  next
    case False
    then show thesis using keep stray unfolding st by auto
  qed
qed

lemma votes_ok_settle:
  assumes "votes_ok s"
  shows "votes_ok (settle n cb s)"
proof (cases n cb s rule: settle_cases)
  case grow
  have "counted (insert cb (signer_set s)) (gm_del (Tally s) cb) (filter (\<lambda>v. VAddress v \<noteq> cb) (Votes s))"
    using assms by (intro counted_change [of "signer_set s"]) (auto simp: votes_ok_def)
  moreover have "ballots_ok (insert cb (signer_set s)) (filter (\<lambda>v. VAddress v \<noteq> cb) (Votes s))"
    using assms ballots_ok_filter [of "signer_set s" "Votes s"] by (auto simp: votes_ok_def ballots_ok_def)
  ultimately show ?thesis using assms gm_keys_put [of cb "()" "Signers s"]
    unfolding grow(2) by (simp add: votes_ok_def gm_wf_put del: set_map)
next
  case shrink
  define p where "p = prune_recents n (s\<lparr>Signers := gm_del (Signers s) cb\<rparr>)"
  define d where "d = discard_cast_by cb 0 p"
  have pv: "Votes p = Votes s" "Tally p = Tally s" "Signers p = gm_del (Signers s) cb" by (simp_all add: p_def)
  have dv: "Votes d = filter (\<lambda>v. VSigner v \<noteq> cb) (Votes s)" "Signers d = gm_del (Signers s) cb"
    by (simp_all add: d_def discard_cast_by_votes pv)
  have cd: "counted (signer_set s) (Tally d) (Votes d)"
    unfolding d_def by (rule discard_cast_by_counted) (use assms in \<open>simp add: pv votes_ok_def\<close>)
  have ks: "set (gm_keys (gm_del (Signers s) cb)) = signer_set s - {cb}" by (rule gm_keys_del)
  have "counted (signer_set s - {cb}) (gm_del (Tally d) cb) (filter (\<lambda>v. VAddress v \<noteq> cb) (Votes d))"
    by (rule counted_change [OF cd]) auto
  moreover have "ballots_ok (signer_set s - {cb}) (Votes d)"
    using assms ballots_ok_filter [of "signer_set s" "Votes s"] by (auto simp: votes_ok_def ballots_ok_def dv)
  then have "ballots_ok (signer_set s - {cb}) (filter (\<lambda>v. VAddress v \<noteq> cb) (Votes d))" by (rule ballots_ok_filter)
  ultimately show ?thesis
    using assms unfolding shrink(2) p_def [symmetric] d_def [symmetric] Let_def
    by (simp add: votes_ok_def gm_wf_del dv ks del: set_map)
qed (use assms in simp_all)

section \<open>The window of recent signers\<close>

abbreviation window :: "snapshot \<Rightarrow> nat" where
  "window s \<equiv> length (Signers s) div 2 + 1"

definition recents_ok :: "nat \<Rightarrow> snapshot \<Rightarrow> bool" where
  "recents_ok n s \<longleftrightarrow> gm_wf (Recents s) \<and> distinct (map snd (Recents s))
     \<and> (\<forall>k \<in> set (gm_keys (Recents s)). unat k \<le> n \<and> n < unat k + window s)"

lemma delete_snd_distinct: "distinct (map snd m) \<Longrightarrow> distinct (map snd (AList.delete k m))"
  by (simp add: AList.delete_eq distinct_map_filter)

lemma prune_window:
  assumes "gm_wf (Recents s)" "distinct (map snd (Recents s))" "window s < 2 ^ 64"
    "\<forall>k \<in> set (gm_keys (Recents s)). unat k \<le> unat number \<and> unat number < unat k + window s + 1"
  shows "recents_ok (unat number) (prune_recents number s)"
proof -
  have lim: "unat (limit_of s) = window s" unfolding limit_of_def by (rule unat_of_nat_u64 [OF assms(3)])
  have *: "unat k \<le> unat number \<and> unat number < unat k + window s" if k: "k \<in> set (gm_keys (Recents (prune_recents number s)))" for k
  proof (cases "number \<ge> limit_of s")
    case True
    then have r: "Recents (prune_recents number s) = gm_del (Recents s) (number - limit_of s)"
      by (simp add: prune_recents_def)
    have kk: "k \<in> set (gm_keys (Recents s))" "k \<noteq> number - limit_of s" using k gm_keys_del [of "number - limit_of s" "Recents s"] unfolding r by auto
    have "unat (number - limit_of s) = unat number - window s" using True lim by (simp add: unat_sub)
    then have "unat k \<noteq> unat number - window s" using kk(2) by (metis unsigned_word_eqI)
    moreover have "window s \<le> unat number" using True lim by (metis word_le_nat_alt)
    ultimately show ?thesis using assms(4) kk(1) by fastforce
  next
    case False
    then have "Recents (prune_recents number s) = Recents s" by (simp add: prune_recents_def)
    moreover have "unat number < window s" using False lim by (metis linorder_not_le word_le_nat_alt)
    ultimately show ?thesis using assms(4) k by fastforce
  qed
  have "gm_wf (Recents (prune_recents number s))" "distinct (map snd (Recents (prune_recents number s)))"
    using assms(1,2) by (simp_all add: prune_recents_def gm_wf_del delete_snd_distinct)
  then show ?thesis using * unfolding recents_ok_def prune_frame by blast
qed

lemma put_recent:
  assumes "recents_ok n s" "unat number = n" "number \<notin> set (gm_keys (Recents s))" "sg \<notin> snd ` set (Recents s)"
  shows "recents_ok n (s\<lparr>Recents := gm_put (Recents s) number sg\<rparr>)"
proof -
  have "gm_put (Recents s) number sg = Recents s @ [(number, sg)]" by (rule gm_put_fresh [OF assms(3)])
  moreover have "number \<notin> fst ` set (Recents s)" using assms(3) by simp
  ultimately show ?thesis using assms by (auto simp: recents_ok_def gm_wf_def)
qed

lemma settle_recents:
  assumes "votes_ok s" "recents_ok n s" "unat number = n" "window s < 2 ^ 64"
  shows "recents_ok n (settle number cb s)"
proof (cases number cb s rule: settle_cases)
  case grow
  have "window s \<le> length (gm_put (Signers s) cb ()) div 2 + 1" by (simp add: length_gm_put div_le_mono)
  then show ?thesis using assms(2) unfolding grow(2) recents_ok_def by fastforce
next
  case shrink
  let ?d = "s\<lparr>Signers := gm_del (Signers s) cb\<rparr>"
  have "Suc (length (gm_del (Signers s) cb)) = length (Signers s)"
    using length_gm_del [OF _ shrink(1)] assms(1) by (simp add: votes_ok_def)
  then have w: "window s \<le> window ?d + 1" "window ?d \<le> window s" by simp_all
  have "recents_ok (unat number) (prune_recents number ?d)"
  proof (rule prune_window)
    show "gm_wf (Recents ?d)" "distinct (map snd (Recents ?d))" using assms(2) by (simp_all add: recents_ok_def)
    show "window ?d < 2 ^ 64" using w(2) assms(4) by linarith
    show "\<forall>k \<in> set (gm_keys (Recents ?d)). unat k \<le> unat number \<and> unat number < unat k + window ?d + 1"
    proof
      fix k assume "k \<in> set (gm_keys (Recents ?d))"
      then have "k \<in> set (gm_keys (Recents s))" by simp
      then have "unat k \<le> n" "n < unat k + window s" using assms(2) unfolding recents_ok_def by blast+
      then show "unat k \<le> unat number \<and> unat number < unat k + window ?d + 1" using w(1) assms(3) by linarith
    qed
  qed
  then show ?thesis using assms(3) unfolding shrink(2) by (simp add: recents_ok_def)
qed (use assms in simp_all)

lemma settle_frame:
  assumes "votes_ok s"
  shows "config (settle n cb s) = config s" "SNumber (settle n cb s) = SNumber s"
    "length (Signers (settle n cb s)) \<le> Suc (length (Signers s))"
  by (cases n cb s rule: settle_cases; use assms in \<open>simp add: length_gm_put length_delete_le le_SucI\<close>)+

section \<open>One header\<close>

text \<open>The snapshot before \<open>settle\<close> when a header is accepted.\<close>

definition voted :: "u64 \<Rightarrow> address \<Rightarrow> header \<Rightarrow> snapshot \<Rightarrow> snapshot" where
  "voted number signer h s =
     (let s2 = discard_previous signer (Coinbase h) (s\<lparr>Recents := gm_put (Recents s) number signer\<rparr>);
          authorize = (Nonce h = nonceAuthVote);
          (ok, s3) = cast s2 (Coinbase h) authorize
      in if ok then s3\<lparr>Votes := Votes s3 @ [\<lparr>VSigner = signer, VBlock = number,
                                        VAddress = Coinbase h, VAuthorize = authorize\<rparr>]\<rparr> else s3)"

lemma nonce_votes: "nonceAuthVote \<noteq> nonceDropVote"
  by (simp add: nonceAuthVote_def nonceDropVote_def)

lemma apply_signed_Inr_iff:
  "(\<exists>s'. apply_signed number signer h s = Inr s') \<longleftrightarrow>
     signer \<in> signer_set s \<and> signer \<notin> snd ` set (Recents s) \<and> Nonce h \<in> {nonceAuthVote, nonceDropVote}"
proof -
  have r: "list_ex (\<lambda>(_, recent). recent = signer) (Recents s) \<longleftrightarrow> signer \<in> snd ` set (Recents s)"
    by (force simp: list_ex_iff)
  show ?thesis unfolding apply_signed_def r is_signer_iff by (auto split: prod.splits)
qed

lemma apply_signed_Inr:
  assumes "apply_signed number signer h s = Inr s'"
  shows "signer \<in> signer_set s" "signer \<notin> snd ` set (Recents s)" "Nonce h \<in> {nonceAuthVote, nonceDropVote}"
    "s' = settle number (Coinbase h) (voted number signer h s)"
proof -
  show a: "signer \<in> signer_set s" "signer \<notin> snd ` set (Recents s)" "Nonce h \<in> {nonceAuthVote, nonceDropVote}"
    using apply_signed_Inr_iff [of number signer h s] assms by blast+
  show "s' = settle number (Coinbase h) (voted number signer h s)"
    using assms a(3) nonce_votes unfolding apply_signed_def voted_def
    by (auto split: if_splits prod.splits)
qed

lemma voted_spec:
  assumes "votes_ok s" "signer \<in> signer_set s"
  shows "votes_ok (voted number signer h s)" "Signers (voted number signer h s) = Signers s"
    "Recents (voted number signer h s) = gm_put (Recents s) number signer"
    "config (voted number signer h s) = config s" "SNumber (voted number signer h s) = SNumber s"
proof -
  define s1 where "s1 = s\<lparr>Recents := gm_put (Recents s) number signer\<rparr>"
  have "counted (signer_set s1) (Tally s1) (Votes s1)" "ballots_ok (signer_set s1) (Votes s1)"
    using assms(1) by (simp_all add: votes_ok_def s1_def)
  note dp = discard_previous_spec [OF this, of signer "Coinbase h"]
  define s2 where "s2 = discard_previous signer (Coinbase h) s1"
  note dp = dp [folded s2_def]
  obtain ok s3 where c: "cast s2 (Coinbase h) (Nonce h = nonceAuthVote) = (ok, s3)" by fastforce
  let ?v = "\<lparr>VSigner = signer, VBlock = number, VAddress = Coinbase h, VAuthorize = (Nonce h = nonceAuthVote)\<rparr>"
  have v: "voted number signer h s = (if ok then s3\<lparr>Votes := Votes s3 @ [?v]\<rparr> else s3)"
    unfolding voted_def s1_def [symmetric] s2_def [symmetric] by (simp add: c)
  have s2: "signer_set s2 = signer_set s" "Recents s2 = gm_put (Recents s) number signer" "config s2 = config s"
    "SNumber s2 = SNumber s" "Signers s2 = Signers s" using dp(4,5,6,7) by (simp_all add: s1_def)
  have f: "Signers s3 = Signers s2" "Recents s3 = Recents s2" "Votes s3 = Votes s2" "config s3 = config s2" "SNumber s3 = SNumber s2"
    using cast_frame [of s2 "Coinbase h" "Nonce h = nonceAuthVote"] c by simp_all
  have cs: "counted (signer_set s2) (Tally s2) (Votes s2)" using dp(1) by (simp add: s2(5) s1_def)
  note cc = counted_cast [OF cs c]
  have bal: "ballots_ok (signer_set s) (Votes s2 @ [?v])"
    using dp(2,3) assms(2) by (auto simp: ballots_ok_def s1_def)
  show "votes_ok (voted number signer h s)"
  proof (cases ok)
    case True
    then show ?thesis using v f s2 cc(2) [of ?v] bal assms(1) by (simp add: votes_ok_def)
  next
    case False
    then show ?thesis using v f s2 cc(3) dp(2) cs assms(1) by (simp add: votes_ok_def s1_def)
  qed
  show "Signers (voted number signer h s) = Signers s" "Recents (voted number signer h s) = gm_put (Recents s) number signer"
    "config (voted number signer h s) = config s" "SNumber (voted number signer h s) = SNumber s"
    using v f s2 by simp_all
qed

lemma apply_header_Inr:
  assumes "apply_header cr a h s c = (Inr s', c')" "Uint64 (Number h) = Some number"
  obtains s1 signer where "Epoch (config s) \<noteq> 0"
    "s1 = prune_recents number (if number mod Epoch (config s) = 0 then s\<lparr>Votes := [], Tally := []\<rparr> else s)"
    "ecrecover cr a h c = (Inr signer, c')" "apply_signed number signer h s1 = Inr s'"
  using assms
  by (auto simp: apply_header_def prepare_header_def split: if_splits sum.splits prod.splits)

lemma votes_ok_reset: "votes_ok s \<Longrightarrow> votes_ok (s\<lparr>Votes := [], Tally := []\<rparr>)"
  by (auto simp: votes_ok_def counted_def ballots_ok_def tally_of_def)

lemma votes_ok_prune [simp]: "votes_ok (prune_recents n s) = votes_ok s"
  by (simp add: votes_ok_def)

text \<open>A snapshot in the middle of a batch: \<open>n\<close> is the number of the last header that was applied.\<close>

definition mid_ok :: "nat \<Rightarrow> snapshot \<Rightarrow> bool" where
  "mid_ok n s \<longleftrightarrow> votes_ok s \<and> recents_ok n s"

lemma prepared_recents:
  assumes "recents_ok n s" "unat number = n + 1" "window s < 2 ^ 64"
  shows "recents_ok (n + 1) (prune_recents number s)" "number \<notin> set (gm_keys (Recents (prune_recents number s)))"
proof -
  have k: "unat k \<le> n \<and> n < unat k + window s" if "k \<in> set (gm_keys (Recents s))" for k
    using assms(1) that unfolding recents_ok_def by blast
  show "recents_ok (n + 1) (prune_recents number s)"
    unfolding assms(2) [symmetric]
  proof (rule prune_window)
    show "\<forall>k \<in> set (gm_keys (Recents s)). unat k \<le> unat number \<and> unat number < unat k + window s + 1"
      using k assms(2) by fastforce
  qed (use assms in \<open>auto simp: recents_ok_def\<close>)
  have "set (gm_keys (Recents (prune_recents number s))) \<subseteq> set (gm_keys (Recents s))"
    using gm_keys_del [of "number - limit_of s" "Recents s"] by (auto simp: prune_recents_def)
  moreover have "number \<notin> set (gm_keys (Recents s))" using k [of number] assms(2) by linarith
  ultimately show "number \<notin> set (gm_keys (Recents (prune_recents number s)))" by blast
qed

lemma apply_header_ok:
  assumes "mid_ok n s" "apply_header cr a h s c = (Inr s', c')" "Uint64 (Number h) = Some number"
    "unat number = n + 1" "length (Signers s) < 2 ^ 63"
  shows "mid_ok (n + 1) s'" "config s' = config s" "SNumber s' = SNumber s"
    "length (Signers s') \<le> Suc (length (Signers s))"
proof -
  obtain s1 signer where s1: "s1 = prune_recents number (if number mod Epoch (config s) = 0 then s\<lparr>Votes := [], Tally := []\<rparr> else s)"
    and app: "apply_signed number signer h s1 = Inr s'" using apply_header_Inr [OF assms(2,3)] by metis
  define s0 where "s0 = (if number mod Epoch (config s) = 0 then s\<lparr>Votes := [], Tally := []\<rparr> else s)"
  have w: "window s < 2 ^ 64" using assms(5) by simp
  have s0: "votes_ok s0" "recents_ok n s0" "Signers s0 = Signers s" "config s0 = config s" "SNumber s0 = SNumber s"
    using assms(1) votes_ok_reset by (auto simp: s0_def mid_ok_def recents_ok_def)
  have v1: "votes_ok s1" using s0(1) by (simp add: s1 s0_def)
  have r1: "recents_ok (n + 1) s1" and f1: "number \<notin> set (gm_keys (Recents s1))"
    using prepared_recents [OF s0(2) assms(4)] w unfolding s1 s0_def [symmetric] s0(3) by blast+
  note app = apply_signed_Inr [OF app]
  define sv where "sv = voted number signer h s1"
  note vs = voted_spec [OF v1 app(1), of number h, folded sv_def]
  have rv: "recents_ok (n + 1) sv"
    using put_recent [OF r1 assms(4) f1 app(2)] vs(2,3) by (simp add: recents_ok_def)
  have wv: "window sv < 2 ^ 64" using w by (simp add: vs(2) s1 s0_def [symmetric] s0(3))
  have s': "s' = settle number (Coinbase h) sv" using app(4) by (simp add: sv_def)
  show "mid_ok (n + 1) s'"
    unfolding mid_ok_def s' using votes_ok_settle [OF vs(1)] settle_recents [OF vs(1) rv assms(4) wv] by blast
  have e: "config s1 = config s" "SNumber s1 = SNumber s" "Signers s1 = Signers s"
    using s0(3,4,5) by (simp_all add: s1 s0_def [symmetric])
  show "config s' = config s" "SNumber s' = SNumber s" "length (Signers s') \<le> Suc (length (Signers s))"
    using settle_frame [OF vs(1), of number "Coinbase h"] vs(2,4,5) e by (simp_all add: s')
qed

section \<open>A batch of headers\<close>

fun numbered :: "u64 \<Rightarrow> header list \<Rightarrow> bool" where
  "numbered n [] = True"
| "numbered n (h # hs) = (Uint64 (Number h) = Some n \<and> numbered (n + 1) hs)"

lemma contiguous_numbered:
  "contiguous (h # hs) = Inr u \<Longrightarrow> Uint64 (Number h) = Some n \<Longrightarrow> numbered n (h # hs)"
proof (induction hs arbitrary: h n)
  case (Cons h' hs)
  then show ?case using Cons.IH [of h' "n + 1"] by (auto split: option.splits if_splits)
qed simp

lemma numbered_nth: "numbered n hs \<Longrightarrow> i < length hs \<Longrightarrow> Uint64 (Number (hs ! i)) = Some (n + of_nat i)"
  by (induction hs arbitrary: n i) (auto simp: nth_Cons add_ac split: nat.splits)

lemma apply_loop_ok:
  assumes "mid_ok (unat n) s" "apply_loop cr a hs s c = (Inr s', c')" "numbered (n + 1) hs"
    "unat n + length hs < 2 ^ 64" "length (Signers s) + length hs < 2 ^ 63"
  shows "mid_ok (unat n + length hs) s' \<and> config s' = config s \<and> SNumber s' = SNumber s
    \<and> length (Signers s') \<le> length (Signers s) + length hs"
  using assms
proof (induction hs arbitrary: s c n)
  case (Cons h hs)
  obtain s1 c1 where h: "apply_header cr a h s c = (Inr s1, c1)" and l: "apply_loop cr a hs s1 c1 = (Inr s', c')"
    using Cons.prems(2) by (auto split: prod.splits sum.splits)
  have n: "unat (n + 1) = unat n + 1" by (rule unat_Suc_u64) (use Cons.prems(4) in simp)
  have num: "Uint64 (Number h) = Some (n + 1)" "numbered (n + 1 + 1) hs" using Cons.prems(3) by simp_all
  note st = apply_header_ok [OF Cons.prems(1) h num(1) n]
  have b: "length (Signers s) < 2 ^ 63" using Cons.prems(5) by simp
  have "mid_ok (unat (n + 1)) s1" using st(1) [OF b] n by simp
  from Cons.IH [OF this l num(2)] show ?case
    using st(2-4) [OF b] Cons.prems(4,5) n by simp
qed simp

lemma foldl_put_wf: "gm_wf m \<Longrightarrow> gm_wf (foldl (\<lambda>m a. gm_put m a ()) m sgs)"
  by (induction sgs arbitrary: m) (auto intro: gm_wf_put)

lemma copy_map_id:
  assumes "gm_wf m"
  shows "copy_map m = m"
proof -
  have "foldl (\<lambda>m (k, v). gm_put m k v) xs ys = xs @ ys" if "gm_wf (xs @ ys)" for xs ys :: "('a, 'b) gomap"
    using that
  proof (induction ys arbitrary: xs)
    case (Cons y ys)
    obtain k v where y: "y = (k, v)" by fastforce
    have "k \<notin> set (gm_keys xs)" using Cons.prems by (auto simp: gm_wf_def y)
    then have "gm_put xs k v = xs @ [y]" by (simp add: gm_put_fresh y)
    then show ?case using Cons.IH [of "xs @ [y]"] Cons.prems by (simp add: y)
  qed simp
  from this [of "[]" m] assms show ?thesis by (simp add: copy_map_def)
qed

lemma snap_copy_id: "mid_ok n s \<Longrightarrow> snap_copy s = s"
  by (simp add: mid_ok_def votes_ok_def counted_def recents_ok_def snap_copy_def copy_map_id)

lemma snap_apply_Inr:
  assumes "snap_apply cr a s hs c = (Inr s', c')" "hs \<noteq> []"
  obtains s1 where "numbered (SNumber s + 1) hs" "apply_loop cr a hs (snap_copy s) c = (Inr s1, c')"
    "s' = s1\<lparr>SNumber := SNumber s1 + of_nat (length hs), SHash := header_Hash cr (last hs)\<rparr>"
proof -
  obtain h hs' where hs: "hs = h # hs'" using assms(2) by (cases hs) auto
  have "Uint64 (Number h) = Some (SNumber s + 1)" "contiguous (h # hs') = Inr ()"
    using assms(1) hs unfolding snap_apply_def by (auto split: sum.splits option.splits if_splits)
  then have num: "numbered (SNumber s + 1) hs" unfolding hs by (intro contiguous_numbered) auto
  have last: "hs ! (length hs - 1) = last hs" using assms(2) by (simp add: last_conv_nth)
  show thesis
    using that [OF num] assms last unfolding snap_apply_def
    by (auto split: sum.splits option.splits if_splits prod.splits)
qed

definition snap_inv :: "snapshot \<Rightarrow> bool" where
  "snap_inv s \<longleftrightarrow> mid_ok (unat (SNumber s)) s"

lemma snap_inv_apply:
  assumes "snap_inv s" "snap_apply cr a s hs c = (Inr s', c')"
    "unat (SNumber s) + length hs < 2 ^ 64" "length (Signers s) + length hs < 2 ^ 63"
  shows "snap_inv s'" "config s' = config s" "unat (SNumber s') = unat (SNumber s) + length hs"
proof -
  have "snap_inv s' \<and> config s' = config s \<and> unat (SNumber s') = unat (SNumber s) + length hs"
  proof (cases "hs = []")
    case True
    then show ?thesis using assms by (auto simp: snap_apply_def)
  next
    case False
    obtain s1 where num: "numbered (SNumber s + 1) hs" and l: "apply_loop cr a hs (snap_copy s) c = (Inr s1, c')"
      and s': "s' = s1\<lparr>SNumber := SNumber s1 + of_nat (length hs), SHash := header_Hash cr (last hs)\<rparr>"
      using snap_apply_Inr [OF assms(2) False] .
    have m: "mid_ok (unat (SNumber s)) s" using assms(1) by (simp add: snap_inv_def)
    have "apply_loop cr a hs s c = (Inr s1, c')" using l snap_copy_id [OF m] by simp
    note r = apply_loop_ok [OF m this num assms(3,4)]
    have u: "unat (SNumber s + of_nat (length hs)) = unat (SNumber s) + length hs"
      using assms(3) unat_of_nat_u64 [of "length hs"] by (subst unat_add_lem [THEN iffD1]) simp_all
    show ?thesis using r u by (auto simp: s' snap_inv_def mid_ok_def votes_ok_def recents_ok_def)
  qed
  then show "snap_inv s'" "config s' = config s" "unat (SNumber s') = unat (SNumber s) + length hs" by auto
qed

lemma snap_inv_new: "snap_inv (newSnapshot cfg n h sgs)"
proof -
  have "gm_wf (foldl (\<lambda>m a. gm_put m a ()) [] sgs)" by (rule foldl_put_wf) simp
  then show ?thesis
    by (auto simp: snap_inv_def mid_ok_def newSnapshot_def votes_ok_def counted_def ballots_ok_def tally_of_def recents_ok_def)
qed

text \<open>The snapshots an engine can reach: from a checkpoint, by applying batches of headers. The side conditions
  say that block numbers do not reach \<open>2\<^sup>6\<^sup>4\<close> and that the number of signers is a Go \<open>int\<close>.\<close>

inductive snap_reachable :: "crypto \<Rightarrow> ('c, address) arc \<Rightarrow> snapshot \<Rightarrow> bool" for cr a where
  checkpoint: "snap_reachable cr a (newSnapshot cfg n h sgs)"
| batch: "snap_reachable cr a s \<Longrightarrow> snap_apply cr a s hs c = (Inr s', c') \<Longrightarrow>
    unat (SNumber s) + length hs < 2 ^ 64 \<Longrightarrow> length (Signers s) + length hs < 2 ^ 63 \<Longrightarrow> snap_reachable cr a s'"

lemma snap_reachable_inv: "snap_reachable cr a s \<Longrightarrow> snap_inv s"
  by (induction rule: snap_reachable.induct) (auto intro: snap_inv_new snap_inv_apply)

end
