(* ===== verification/Clique_Voting.thy ===== *)
theory Clique_Voting
  imports Clique_Snapshot
begin

text \<open>
  The properties of the Clique snapshots (\<open>consensus/clique/snapshot.go\<close>): what voting decides, that no
  signer signs twice within the window, that a signer can always go on, and whose turn it is.
\<close>

section \<open>Evaluation on a small network\<close>

definition three_signers :: snapshot where
  "three_signers = newSnapshot \<lparr>Period = 15, Epoch = 30000\<rparr> 0 0 [1, 2, 3]"

lemma three_signers_eq:
  "three_signers = \<lparr>config = \<lparr>Period = 15, Epoch = 30000\<rparr>, SNumber = 0, SHash = 0,
     Signers = [(1, ()), (2, ()), (3, ())], Recents = [], Votes = [], Tally = []\<rparr>"
  by (simp add: three_signers_def newSnapshot_def)

definition one_vote :: snapshot where
  "one_vote = \<lparr>config = \<lparr>Period = 15, Epoch = 30000\<rparr>, SNumber = 1, SHash = 2,
     Signers = [(1, ()), (2, ()), (3, ())], Recents = [(1, 1)],
     Votes = [\<lparr>VSigner = 1, VBlock = 1, VAddress = 9, VAuthorize = True\<rparr>],
     Tally = [(9, \<lparr>TAuthorize = True, TVotes = 1\<rparr>)]\<rparr>"

lemmas snapshot_eval = snap_apply_def apply_header_def prepare_header_def apply_signed_def prune_recents_def
  limit_of_def snap_copy_def copy_map_def is_signer_def discard_previous_def cast_def validVote_def
  settle_def uncast_def remove_vote_def

lemma toy_ecrecover_miss:
  "map_of c (header_Hash toy_crypto (toy_header n cb nc sg)) = None \<Longrightarrow>
   ecrecover toy_crypto toy_arc (toy_header n cb nc sg) c =
     (Inr (ucast (ucast sg :: hash)), (ucast sg + 1, ucast (ucast sg :: hash)) # c)"
  by (simp add: ecrecover_def toy_arc_def toy_crypto_def SealHash_def encodeSigHeader_def extraSeal_def
      toy_header_def header_Hash_def)

lemma toy_header_simps [simp]:
  "Number (toy_header n cb nc sg) = Some n" "Coinbase (toy_header n cb nc sg) = cb"
  "Nonce (toy_header n cb nc sg) = nc" "header_Hash toy_crypto (toy_header n cb nc sg) = ucast sg + 1"
  by (simp_all add: toy_header_def header_Hash_def toy_crypto_def)

lemma one_vote_apply:
  "snap_apply toy_crypto toy_arc three_signers [toy_header 1 9 nonceAuthVote 1] [] = (Inr one_vote, [(2, 1)])"
  by (simp add: three_signers_eq snapshot_eval toy_ecrecover_miss one_vote_def)

lemma one_vote_reachable: "snap_reachable toy_crypto toy_arc one_vote"
proof (rule snap_reachable.batch [OF _ one_vote_apply])
  show "snap_reachable toy_crypto toy_arc three_signers" unfolding three_signers_def by (rule snap_reachable.checkpoint)
qed (simp_all add: three_signers_eq)

section \<open>The tally\<close>

text \<open>C1: In every reachable snapshot the cached tally of an account is exactly the number of stored votes
  about it, and asks for the change that is possible; every stored vote is by an authorised signer, is still
  meaningful, and a signer has at most one vote per account.\<close>

theorem clique_tally_recount:
  assumes "snap_reachable cr a s"
  shows "gm_get (Tally s) x =
      (let n = length (filter (\<lambda>v. VAddress v = x) (Votes s))
       in if n = 0 then None else Some \<lparr>TAuthorize = (\<not> is_signer s x), TVotes = int n\<rparr>)
    \<and> (\<forall>v \<in> set (Votes s). is_signer s (VSigner v) \<and> validVote s (VAddress v) (VAuthorize v))
    \<and> distinct (map (\<lambda>v. (VSigner v, VAddress v)) (Votes s))"
proof -
  have "votes_ok s" using snap_reachable_inv [OF assms] by (simp add: snap_inv_def mid_ok_def)
  then show ?thesis
    unfolding votes_ok_def counted_def ballots_ok_def tally_of_def validVote_def is_signer_iff by auto
qed

theorem clique_tally_recount_witness:
  "snap_reachable toy_crypto toy_arc one_vote
    \<and> gm_get (Tally one_vote) 9 = Some \<lparr>TAuthorize = (\<not> is_signer one_vote 9), TVotes = 1\<rparr>"
  using clique_tally_recount [OF one_vote_reachable, of 9] one_vote_reachable
  by (simp add: one_vote_def)

text \<open>The voters for a change of an account once a header of \<open>signer\<close> is counted.\<close>

definition voters_after :: "snapshot \<Rightarrow> address \<Rightarrow> header \<Rightarrow> address set" where
  "voters_after s signer h =
     VSigner ` {v \<in> set (Votes s). VAddress v = Coinbase h} - {signer}
     \<union> (if validVote s (Coinbase h) (Nonce h = nonceAuthVote) then {signer} else {})"

lemma discard_previous_set:
  assumes "ballots_ok S (Votes s)"
  shows "set (Votes (discard_previous sg cb s)) = {v \<in> set (Votes s). \<not> (VSigner v = sg \<and> VAddress v = cb)}"
proof (cases "find_vote sg cb 0 (Votes s)")
  case None
  then show ?thesis using find_vote_None [of sg cb 0 "Votes s"] by (auto simp: discard_previous_def)
next
  case (Some i)
  from find_vote_Some [OF Some] have i: "i < length (Votes s)" and v: "VSigner (Votes s ! i) = sg" "VAddress (Votes s ! i) = cb"
    by auto
  have r: "Votes (discard_previous sg cb s) = take i (Votes s) @ drop (Suc i) (Votes s)"
    using Some by (simp add: discard_previous_def)
  have e: "Votes s = take i (Votes s) @ Votes s ! i # drop (Suc i) (Votes s)" by (rule id_take_nth_drop [OF i])
  have "distinct (map (\<lambda>v. (VSigner v, VAddress v)) (take i (Votes s) @ Votes s ! i # drop (Suc i) (Votes s)))"
    using assms e by (simp add: ballots_ok_def)
  then have n: "\<forall>w \<in> set (take i (Votes s) @ drop (Suc i) (Votes s)). \<not> (VSigner w = sg \<and> VAddress w = cb)"
    using v by (auto simp: image_iff)
  have "set (Votes s) = set (take i (Votes s) @ Votes s ! i # drop (Suc i) (Votes s))" using e by simp
  then have sv: "set (Votes s) = insert (Votes s ! i) (set (take i (Votes s) @ drop (Suc i) (Votes s)))" by auto
  show ?thesis unfolding r sv using n v by auto
qed

lemma voted_votes:
  assumes "votes_ok s"
  shows "VSigner ` {v \<in> set (Votes (voted number sg h s)). VAddress v = Coinbase h} = voters_after s sg h"
proof -
  let ?s1 = "s\<lparr>Recents := gm_put (Recents s) number sg\<rparr>"
  define s2 where "s2 = discard_previous sg (Coinbase h) ?s1"
  have b: "counted (signer_set ?s1) (Tally ?s1) (Votes ?s1)" "ballots_ok (signer_set s) (Votes ?s1)"
    using assms by (simp_all add: votes_ok_def)
  have set2: "set (Votes s2) = {v \<in> set (Votes s). \<not> (VSigner v = sg \<and> VAddress v = Coinbase h)}"
    unfolding s2_def using discard_previous_set [OF b(2)] by simp
  have sg2: "Signers s2 = Signers s" unfolding s2_def using discard_previous_spec(4) [OF b(1)] assms
    by (simp add: votes_ok_def)
  obtain ok s3 where c: "cast s2 (Coinbase h) (Nonce h = nonceAuthVote) = (ok, s3)" by fastforce
  have v3: "Votes s3 = Votes s2" using cast_frame(3) [of s2 "Coinbase h" "Nonce h = nonceAuthVote"] c by simp
  have ok: "ok = validVote s (Coinbase h) (Nonce h = nonceAuthVote)"
    using c by (auto simp: cast_def validVote_def is_signer_def sg2 split: if_splits option.splits)
  have v: "Votes (voted number sg h s) = (if ok then Votes s2 @ [\<lparr>VSigner = sg, VBlock = number,
             VAddress = Coinbase h, VAuthorize = (Nonce h = nonceAuthVote)\<rparr>] else Votes s2)"
    unfolding voted_def s2_def [symmetric] using c v3 by simp
  let ?new = "\<lparr>VSigner = sg, VBlock = number, VAddress = Coinbase h, VAuthorize = (Nonce h = nonceAuthVote)\<rparr>"
  have "{w \<in> set (Votes (voted number sg h s)). VAddress w = Coinbase h}
      = {w \<in> set (Votes s). VAddress w = Coinbase h \<and> VSigner w \<noteq> sg} \<union> (if ok then {?new} else {})"
    unfolding v by (auto simp: set2)
  then show ?thesis unfolding voters_after_def ok [symmetric] by (simp add: image_Un) auto
qed

lemma count_voters:
  assumes "ballots_ok S vs"
  shows "length (filter (\<lambda>v. VAddress v = a) vs) = card (VSigner ` {v \<in> set vs. VAddress v = a})"
proof -
  let ?f = "filter (\<lambda>v. VAddress v = a) vs"
  have "inj_on (\<lambda>v. (VSigner v, VAddress v)) (set vs)" "distinct vs"
    using assms by (auto simp: ballots_ok_def distinct_map)
  then have "inj_on VSigner (set ?f)" "distinct ?f" by (auto simp: inj_on_def)
  then have "distinct (map VSigner ?f)" by (simp add: distinct_map)
  then have "card (set (map VSigner ?f)) = length (map VSigner ?f)" by (rule distinct_card)
  then show ?thesis by simp
qed

lemma settle_signers:
  assumes "votes_ok s"
  shows "signer_set (settle n cb s) =
    (if length (filter (\<lambda>v. VAddress v = cb) (Votes s)) > length (Signers s) div 2
     then (if cb \<in> signer_set s then signer_set s - {cb} else insert cb (signer_set s)) else signer_set s)"
proof -
  define c where "c = length (filter (\<lambda>v. VAddress v = cb) (Votes s))"
  have g: "gm_get (Tally s) cb = (if c = 0 then None else Some \<lparr>TAuthorize = (cb \<notin> signer_set s), TVotes = int c\<rparr>)"
    using assms by (simp add: votes_ok_def counted_def tally_of_def c_def)
  show ?thesis
  proof (cases "c > length (Signers s) div 2")
    case True
    then have "c \<noteq> 0" by simp
    then have "Signers (settle n cb s) = (if cb \<notin> signer_set s then gm_put (Signers s) cb () else gm_del (Signers s) cb)"
      unfolding settle_def discard_about_eq using g True by simp
    then show ?thesis using True gm_keys_put [of cb "()" "Signers s"] gm_keys_del [of cb "Signers s"]
      unfolding c_def [symmetric] by (simp del: set_map)
  next
    case False
    then have "settle n cb s = s" unfolding settle_def using g by auto
    then show ?thesis using False unfolding c_def [symmetric] by simp
  qed
qed

lemma apply_one:
  assumes "snap_reachable cr a s" "arc_ok a view" "collision_free cr" "sigs_ok cr view c"
    "snap_apply cr a s [h] c = (Inr s', c')"
  obtains s0 s1 s2 sg number where "number = SNumber s + 1" "Epoch (config s) \<noteq> 0" "recover cr h = Inr sg"
    "s0 = (if number mod Epoch (config s) = 0 then s\<lparr>Votes := [], Tally := []\<rparr> else s)"
    "s1 = prune_recents number s0" "votes_ok s1" "apply_signed number sg h s1 = Inr s2" "Signers s' = Signers s2"
    "votes_ok s0"
proof -
  have m: "mid_ok (unat (SNumber s)) s" using snap_reachable_inv [OF assms(1)] by (simp add: snap_inv_def)
  obtain s2 where num: "Uint64 (Number h) = Some (SNumber s + 1)" and l: "apply_loop cr a [h] s c = (Inr s2, c')"
    and s': "s' = s2\<lparr>SNumber := SNumber s2 + of_nat (length [h]), SHash := header_Hash cr (last [h])\<rparr>"
    using snap_apply_Inr [OF assms(5)] snap_copy_id [OF m] by auto
  from l have ah: "apply_header cr a h s c = (Inr s2, c')" by (auto split: prod.splits sum.splits)
  obtain s1 sg where *: "Epoch (config s) \<noteq> 0"
    "s1 = prune_recents (SNumber s + 1) (if (SNumber s + 1) mod Epoch (config s) = 0 then s\<lparr>Votes := [], Tally := []\<rparr> else s)"
    "ecrecover cr a h c = (Inr sg, c')" "apply_signed (SNumber s + 1) sg h s1 = Inr s2"
    using apply_header_Inr [OF ah num] by metis
  have r: "recover cr h = Inr sg" using ecrecover_correct(1) [OF assms(2,3,4) *(3)] by simp
  have v: "votes_ok (if (SNumber s + 1) mod Epoch (config s) = 0 then s\<lparr>Votes := [], Tally := []\<rparr> else s)"
    using m votes_ok_reset by (simp add: mid_ok_def)
  then have "votes_ok s1" unfolding *(2) votes_ok_prune .
  from that [OF refl *(1) r refl *(2) this *(4) _ v] show thesis by (simp add: s')
qed

text \<open>C2: Counting one header on a reachable snapshot changes the signer list exactly when more than half of
  the signers, the new voter included and its earlier vote replaced, now ask for the change of the header's
  beneficiary: then that account is removed when it was a signer and added when it was not; nothing else ever
  changes the list. At an epoch boundary the earlier votes do not count.\<close>

theorem clique_vote_decides:
  assumes "snap_reachable cr a s" "arc_ok a view" "collision_free cr" "sigs_ok cr view c"
    "snap_apply cr a s [h] c = (Inr s', c')"
  shows "\<exists>sg. recover cr h = Inr sg \<and>
    (let S = set (gm_keys (Signers s));
         s0 = (if (SNumber s + 1) mod Epoch (config s) = 0 then s\<lparr>Votes := [], Tally := []\<rparr> else s)
     in set (gm_keys (Signers s')) =
          (if card (voters_after s0 sg h) > length (Signers s) div 2
           then (if Coinbase h \<in> S then S - {Coinbase h} else insert (Coinbase h) S) else S))"
proof (rule apply_one [OF assms])
  fix s0 s1 s2 sg number
  assume num: "number = SNumber s + 1" and rec: "recover cr h = Inr sg"
    and s0: "s0 = (if number mod Epoch (config s) = 0 then s\<lparr>Votes := [], Tally := []\<rparr> else s)"
    and s1: "s1 = prune_recents number s0" "votes_ok s1" and app: "apply_signed number sg h s1 = Inr s2"
    and s': "Signers s' = Signers s2" and v0: "votes_ok s0"
  note ap = apply_signed_Inr [OF app]
  define sv where "sv = voted number sg h s1"
  note vs = voted_spec [OF s1(2) ap(1), of number h, folded sv_def]
  have e: "Signers s1 = Signers s" "Votes s1 = Votes s0" "Signers s0 = Signers s" by (simp_all add: s1(1) s0)
  have va: "voters_after s1 sg h = voters_after s0 sg h"
    by (simp add: voters_after_def e validVote_def is_signer_def)
  have "ballots_ok (signer_set sv) (Votes sv)" using vs(1) by (simp add: votes_ok_def)
  from count_voters [OF this, of "Coinbase h"]
  have "length (filter (\<lambda>v. VAddress v = Coinbase h) (Votes sv)) = card (voters_after s0 sg h)"
    using voted_votes [OF s1(2), of number sg h] by (simp add: sv_def va)
  then have "signer_set s2 = (if card (voters_after s0 sg h) > length (Signers s) div 2
      then (if Coinbase h \<in> signer_set s then signer_set s - {Coinbase h} else insert (Coinbase h) (signer_set s))
      else signer_set s)"
    unfolding ap(4) sv_def [symmetric] settle_signers [OF vs(1)] vs(2) e(1) by simp
  then show ?thesis using rec unfolding s' s0 num Let_def by blast
qed

theorem clique_vote_decides_witness:
  "snap_reachable toy_crypto toy_arc three_signers \<and> arc_ok toy_arc (map_of :: (hash \<times> address) list \<Rightarrow> _)
    \<and> collision_free toy_crypto \<and> sigs_ok toy_crypto map_of []
    \<and> snap_apply toy_crypto toy_arc three_signers [toy_header 1 9 nonceAuthVote 1] [] = (Inr one_vote, [(2, 1)])
    \<and> set (gm_keys (Signers one_vote)) = {1, 2, 3}"
proof -
  have r: "snap_reachable toy_crypto toy_arc three_signers"
    unfolding three_signers_def by (rule snap_reachable.checkpoint)
  have "voters_after three_signers sg (toy_header 1 9 nonceAuthVote 1) = {sg}" for sg
    by (auto simp: voters_after_def three_signers_eq validVote_def is_signer_def)
  then have "set (gm_keys (Signers one_vote)) = {1, 2, 3}"
    using clique_vote_decides [OF r toy_arc_ok toy_collision_free toy_sigs_ok one_vote_apply]
    by (auto simp: three_signers_eq voters_after_def split: if_splits)
  then show ?thesis using r toy_arc_ok toy_collision_free toy_sigs_ok one_vote_apply by simp
qed

section \<open>Signing\<close>

text \<open>C4: With authorised signers left, the next block can always be signed: at least half of the signers,
  rounded up, are accepted by the checks of \<open>apply\<close> for the next number, whatever was signed before.\<close>

theorem clique_next_signer:
  assumes "snap_reachable cr a s" "Signers s \<noteq> []" "unat (SNumber s) + 1 < 2 ^ 64"
    "length (Signers s) < 2 ^ 63" "Epoch (config s) \<noteq> 0" "Nonce h \<in> {nonceAuthVote, nonceDropVote}"
  shows "\<exists>s1. prepare_header (SNumber s + 1) s = Inr s1 \<and>
    card {x. \<exists>s2. apply_signed (SNumber s + 1) x h s1 = Inr s2} \<ge> length (Signers s) - length (Signers s) div 2"
proof -
  define s0 where "s0 = (if (SNumber s + 1) mod Epoch (config s) = 0 then s\<lparr>Votes := [], Tally := []\<rparr> else s)"
  define s1 where "s1 = prune_recents (SNumber s + 1) s0"
  have p: "prepare_header (SNumber s + 1) s = Inr s1" using assms(5) by (simp add: prepare_header_def s1_def s0_def)
  have m: "votes_ok s" "recents_ok (unat (SNumber s)) s"
    using snap_reachable_inv [OF assms(1)] by (auto simp: snap_inv_def mid_ok_def)
  have n: "unat (SNumber s + 1) = unat (SNumber s) + 1" by (rule unat_Suc_u64 [OF assms(3)])
  have s0: "recents_ok (unat (SNumber s)) s0" "Signers s0 = Signers s" using m(2) by (auto simp: s0_def recents_ok_def)
  have w: "window s0 < 2 ^ 64" using assms(4) by (simp add: s0(2))
  have r: "recents_ok (unat (SNumber s) + 1) s1" "SNumber s + 1 \<notin> set (gm_keys (Recents s1))"
    using prepared_recents [OF s0(1) n w] by (simp_all add: s1_def)
  have sg1: "Signers s1 = Signers s" by (simp add: s1_def s0(2))
  let ?N = "unat (SNumber s) + 1" and ?w = "window s1"
  have keys: "unat ` set (gm_keys (Recents s1)) \<subseteq> {?N + 1 - ?w ..< ?N}"
  proof
    fix x assume "x \<in> unat ` set (gm_keys (Recents s1))"
    then obtain k where k: "k \<in> set (gm_keys (Recents s1))" "x = unat k" by blast
    then have "unat k \<le> ?N" "?N < unat k + ?w" using r(1) unfolding recents_ok_def by blast+
    moreover have "unat k \<noteq> ?N" using k(1) r(2) n by (metis unsigned_word_eqI)
    ultimately show "x \<in> {?N + 1 - ?w ..< ?N}" using k(2) by simp
  qed
  have "inj_on unat (set (gm_keys (Recents s1)))" by (rule inj_onI) (rule unsigned_word_eqI)
  then have "card (set (gm_keys (Recents s1))) \<le> card {?N + 1 - ?w ..< ?N}"
    using card_mono [OF _ keys] by (simp add: card_image del: set_map)
  moreover have "card (set (gm_keys (Recents s1))) = length (gm_keys (Recents s1))"
    by (rule distinct_card) (use r(1) in \<open>simp add: recents_ok_def gm_wf_def\<close>)
  ultimately have len: "length (Recents s1) \<le> length (Signers s) div 2" by (simp add: sg1)
  have "card (snd ` set (Recents s1)) \<le> length (Recents s1)"
    by (metis card_image_le card_length le_trans List.finite_set)
  then have c: "card (snd ` set (Recents s1)) \<le> length (Signers s) div 2" using len by linarith
  have S: "card (signer_set s) = length (Signers s)"
    using distinct_card [of "gm_keys (Signers s)"] m(1) by (simp add: votes_ok_def gm_wf_def)
  have "{x. \<exists>s2. apply_signed (SNumber s + 1) x h s1 = Inr s2} = signer_set s - snd ` set (Recents s1)"
    unfolding apply_signed_Inr_iff using assms(6) by (auto simp: sg1)
  moreover have "card (signer_set s - snd ` set (Recents s1)) \<ge> card (signer_set s) - card (snd ` set (Recents s1))"
    by (rule diff_card_le_card_Diff) simp
  ultimately show ?thesis using p c S by fastforce
qed

theorem clique_next_signer_witness:
  "snap_reachable toy_crypto toy_arc one_vote \<and> Signers one_vote \<noteq> [] \<and> unat (SNumber one_vote) + 1 < 2 ^ 64
    \<and> length (Signers one_vote) < 2 ^ 63 \<and> Epoch (config one_vote) \<noteq> 0
    \<and> Nonce (toy_header 2 0 nonceDropVote 2) \<in> {nonceAuthVote, nonceDropVote}
    \<and> (\<exists>s1. prepare_header 2 one_vote = Inr s1 \<and>
         card {x. \<exists>s2. apply_signed 2 x (toy_header 2 0 nonceDropVote 2) s1 = Inr s2} \<ge> 2)"
proof -
  have h: "Signers one_vote \<noteq> []" "unat (SNumber one_vote) + 1 < 2 ^ 64" "length (Signers one_vote) < 2 ^ 63"
    "Epoch (config one_vote) \<noteq> 0" "Nonce (toy_header 2 0 nonceDropVote 2) \<in> {nonceAuthVote, nonceDropVote}"
    "SNumber one_vote + 1 = 2" "length (Signers one_vote) - length (Signers one_vote) div 2 = 2"
    by (simp_all add: one_vote_def)
  show ?thesis
    using clique_next_signer [OF one_vote_reachable h(1-5)] one_vote_reachable h by simp
qed

text \<open>The snapshots a batch goes through.\<close>

fun clique_trace ::
  "crypto \<Rightarrow> ('c, address) arc \<Rightarrow> header list \<Rightarrow> snapshot \<Rightarrow> 'c \<Rightarrow> snapshot list" where
  "clique_trace cr a [] s c = [s]"
| "clique_trace cr a (h # hs) s c =
     s # (case apply_header cr a h s c of (Inl e, c1) \<Rightarrow> [] | (Inr s1, c1) \<Rightarrow> clique_trace cr a hs s1 c1)"

definition remembers :: "nat \<Rightarrow> nat \<Rightarrow> snapshot \<Rightarrow> (u64 \<times> address) set \<Rightarrow> bool" where
  "remembers n L s H \<longleftrightarrow> (\<forall>(k, sg) \<in> H. unat k \<le> n \<and> (n < unat k + L \<longrightarrow> gm_get (Recents s) k = Some sg))"

lemma prune_get:
  assumes "unat number < unat k + window s" "window s < 2 ^ 64"
  shows "gm_get (Recents (prune_recents number s)) k = gm_get (Recents s) k"
proof (cases "number \<ge> limit_of s")
  case True
  have lim: "unat (limit_of s) = window s" unfolding limit_of_def by (rule unat_of_nat_u64 [OF assms(2)])
  have "window s \<le> unat number" using True lim by (metis word_le_nat_alt)
  moreover have "unat (number - limit_of s) = unat number - window s" using True lim by (simp add: unat_sub)
  ultimately have "unat (number - limit_of s) \<noteq> unat k" using assms(1) by linarith
  then have "number - limit_of s \<noteq> k" by blast
  then show ?thesis using True by (auto simp: prune_recents_def gm_get_del)
qed (simp add: prune_recents_def)

lemma settle_get:
  assumes "votes_ok s" "unat number < unat k + window (settle number cb s)" "window s < 2 ^ 64"
  shows "gm_get (Recents (settle number cb s)) k = gm_get (Recents s) k"
proof (cases number cb s rule: settle_cases)
  case shrink
  let ?d = "s\<lparr>Signers := gm_del (Signers s) cb\<rparr>"
  have w: "window (settle number cb s) = window ?d" by (simp add: shrink(2))
  have "window ?d \<le> window s" using length_delete_le [of cb "Signers s"] by (simp add: div_le_mono)
  then have "gm_get (Recents (prune_recents number ?d)) k = gm_get (Recents ?d) k"
    using prune_get [of number k ?d] assms(2,3) w by linarith
  then show ?thesis by (simp add: shrink(2))
qed (use assms in simp_all)

lemma apply_header_remembers:
  assumes "mid_ok n s" "apply_header cr a h s c = (Inr s', c')" "Uint64 (Number h) = Some number" "unat number = n + 1"
    "length (Signers s) < 2 ^ 63" "remembers n L s H" "L \<le> window s" "L \<le> window s'" "ecrecover cr a h c = (Inr sg, c')"
  shows "remembers (n + 1) L s' (insert (number, sg) H)" "\<forall>(k, x) \<in> H. n + 1 < unat k + L \<longrightarrow> x \<noteq> sg"
proof -
  obtain s1 where s1: "s1 = prune_recents number (if number mod Epoch (config s) = 0 then s\<lparr>Votes := [], Tally := []\<rparr> else s)"
    and app: "apply_signed number sg h s1 = Inr s'"
    using apply_header_Inr [OF assms(2,3)] assms(9) by (metis Pair_inject sum.inject(2))
  define s0 where "s0 = (if number mod Epoch (config s) = 0 then s\<lparr>Votes := [], Tally := []\<rparr> else s)"
  have w: "window s < 2 ^ 64" using assms(5) by simp
  have s0: "votes_ok s0" "Signers s0 = Signers s" "Recents s0 = Recents s"
    using assms(1) votes_ok_reset by (auto simp: s0_def mid_ok_def)
  have v1: "votes_ok s1" and e1: "Signers s1 = Signers s" using s0 by (simp_all add: s1 s0_def [symmetric])
  have keep1: "gm_get (Recents s1) k = gm_get (Recents s) k" if "n + 1 < unat k + L" for k
    using prune_get [of number k s0] that assms(4,7) w unfolding s1 s0_def [symmetric] by (simp add: s0)
  note ap = apply_signed_Inr [OF app]
  define sv where "sv = voted number sg h s1"
  note vs = voted_spec [OF v1 ap(1), of number h, folded sv_def]
  have s': "s' = settle number (Coinbase h) sv" using ap(4) by (simp add: sv_def)
  have wv: "window sv < 2 ^ 64" using w by (simp add: vs(2) e1)
  have keep2: "gm_get (Recents s') k = (if k = number then Some sg else gm_get (Recents s) k)" if "n + 1 < unat k + L" for k
    using settle_get [OF vs(1), of number k "Coinbase h"] that assms(4,8) wv keep1 [OF that]
    unfolding s' [symmetric] by (simp add: vs(3) gm_get_put)
  have old: "unat k \<le> n" "n < unat k + L \<Longrightarrow> gm_get (Recents s) k = Some x" if "(k, x) \<in> H" for k x
    using assms(6) that by (auto simp: remembers_def)
  have keyd: "number \<noteq> k" if "(k, x) \<in> H" for k x using old(1) [OF that] assms(4) by auto
  show "remembers (n + 1) L s' (insert (number, sg) H)"
    unfolding remembers_def
  proof clarify
    fix k x assume m: "(k, x) \<in> insert (number, sg) H"
    show "unat k \<le> n + 1 \<and> (n + 1 < unat k + L \<longrightarrow> gm_get (Recents s') k = Some x)"
    proof (cases "(k, x) = (number, sg)")
      case True
      then show ?thesis using assms(4) keep2 by simp
    next
      case False
      then have i: "(k, x) \<in> H" using m by blast
      show ?thesis using old [OF i] keep2 [of k] keyd [OF i] by auto
    qed
  qed
  show "\<forall>(k, x) \<in> H. n + 1 < unat k + L \<longrightarrow> x \<noteq> sg"
  proof clarify
    fix k x assume m: "(k, sg) \<in> H" and lt: "n + 1 < unat k + L"
    have "gm_get (Recents s1) k = Some sg" using old(2) [OF m] lt keep1 [OF lt] by simp
    then have "sg \<in> snd ` set (Recents s1)" by (metis map_of_SomeD image_eqI snd_conv)
    then show False using ap(2) by blast
  qed
qed

lemma apply_loop_distinct:
  assumes "arc_ok a view" "collision_free cr" "sigs_ok cr view c" "mid_ok (unat n) s"
    "apply_loop cr a hs s c = (Inr s', c')" "numbered (n + 1) hs" "unat n + length hs < 2 ^ 64"
    "length (Signers s) + length hs < 2 ^ 63" "remembers (unat n) L s H" "\<forall>x \<in> set (clique_trace cr a hs s c). L \<le> window x"
  shows "(\<forall>j < length hs. \<forall>(k, sg) \<in> H. unat n + 1 + j < unat k + L \<longrightarrow> recover cr (hs ! j) \<noteq> Inr sg)
    \<and> (\<forall>j < length hs. \<forall>i < j. j - i < L \<longrightarrow> recover cr (hs ! i) \<noteq> recover cr (hs ! j))"
  using assms(3-)
proof (induction hs arbitrary: s c n H)
  case (Cons h hs)
  obtain s1 c1 where h: "apply_header cr a h s c = (Inr s1, c1)" and l: "apply_loop cr a hs s1 c1 = (Inr s', c')"
    using Cons.prems(3) by (auto split: prod.splits sum.splits)
  have n: "unat (n + 1) = unat n + 1" by (rule unat_Suc_u64) (use Cons.prems(5) in simp)
  have num: "Uint64 (Number h) = Some (n + 1)" "numbered (n + 1 + 1) hs" using Cons.prems(4) by simp_all
  have b: "length (Signers s) < 2 ^ 63" using Cons.prems(6) by simp
  note st = apply_header_ok [OF Cons.prems(2) h num(1) n b]
  obtain sg where ec: "ecrecover cr a h c = (Inr sg, c1)" using apply_header_Inr [OF h num(1)] by metis
  note rec = ecrecover_correct [OF assms(1,2) Cons.prems(1) ec]
  have tr: "clique_trace cr a (h # hs) s c = s # clique_trace cr a hs s1 c1" using h by simp
  have first: "s1 \<in> set (clique_trace cr a hs s1 c1)" by (cases hs) simp_all
  have L: "L \<le> window s" "L \<le> window s1" "\<forall>x \<in> set (clique_trace cr a hs s1 c1). L \<le> window x"
    using Cons.prems(8) first unfolding tr by auto
  note rm = apply_header_remembers [OF Cons.prems(2) h num(1) n b Cons.prems(7) L(1,2) ec]
  note IH = Cons.IH [OF rec(2) st(1) [folded n] l num(2) _ _ rm(1) [folded n] L(3)]
  have IH1: "\<forall>j < length hs. \<forall>(k, x) \<in> insert (n + 1, sg) H. unat n + 1 + 1 + j < unat k + L \<longrightarrow> recover cr (hs ! j) \<noteq> Inr x"
    and IH2: "\<forall>j < length hs. \<forall>i < j. j - i < L \<longrightarrow> recover cr (hs ! i) \<noteq> recover cr (hs ! j)"
    using IH Cons.prems(5,6) st(4) n by simp_all
  have r: "recover cr h = Inr sg" using rec(1) by simp
  show ?case
  proof (intro conjI allI impI)
    fix j assume j: "j < length (h # hs)"
    show "\<forall>(k, x) \<in> H. unat n + 1 + j < unat k + L \<longrightarrow> recover cr ((h # hs) ! j) \<noteq> Inr x"
    proof (cases j)
      case 0
      then show ?thesis using rm(2) r by fastforce
    next
      case (Suc j')
      then show ?thesis using IH1 j by fastforce
    qed
    fix i assume i: "i < j" "j - i < L"
    obtain j' where j': "j = Suc j'" using i(1) by (cases j) auto
    show "recover cr ((h # hs) ! i) \<noteq> recover cr ((h # hs) ! j)"
    proof (cases i)
      case 0
      then have "recover cr (hs ! j') \<noteq> Inr sg" using IH1 i j j' n by auto
      then show ?thesis using 0 j' r by auto
    next
      case (Suc i')
      then show ?thesis using IH2 i j j' by auto
    qed
  qed
qed simp

text \<open>C3: In a batch that \<open>apply\<close> accepts, two headers signed by the same account are never closer than the
  signing limit: as long as every snapshot on the way has a limit (half of the signers, plus one) of at least
  \<open>L\<close>, any two headers fewer than \<open>L\<close> blocks apart have different signers.\<close>

theorem clique_no_double_sign:
  assumes "snap_reachable cr a s" "arc_ok a view" "collision_free cr" "sigs_ok cr view c"
    "snap_apply cr a s hs c = (Inr s', c')" "unat (SNumber s) + length hs < 2 ^ 64"
    "length (Signers s) + length hs < 2 ^ 63"
    "\<forall>x \<in> set (clique_trace cr a hs s c). L \<le> length (Signers x) div 2 + 1"
    "i < j" "j < length hs" "j - i < L"
  shows "recover cr (hs ! i) \<noteq> recover cr (hs ! j)"
proof -
  have m: "mid_ok (unat (SNumber s)) s" using snap_reachable_inv [OF assms(1)] by (simp add: snap_inv_def)
  have ne: "hs \<noteq> []" using assms(10) by auto
  obtain s1 where num: "numbered (SNumber s + 1) hs" and "apply_loop cr a hs (snap_copy s) c = (Inr s1, c')"
    using snap_apply_Inr [OF assms(5) ne] .
  then have l: "apply_loop cr a hs s c = (Inr s1, c')" using snap_copy_id [OF m] by simp
  have "remembers (unat (SNumber s)) L s {}" by (simp add: remembers_def)
  from apply_loop_distinct [OF assms(2-4) m l num assms(6,7) this assms(8)] show ?thesis
    using assms(9-11) by blast
qed

lemma one_vote_apply2:
  "snap_apply toy_crypto toy_arc three_signers [toy_header 1 9 nonceAuthVote 1, toy_header 2 0 nonceDropVote 2] []
     = (Inr (one_vote\<lparr>SNumber := 2, SHash := 3, Recents := [(1, 1), (2, 2)]\<rparr>), [(3, 2), (2, 1)])"
  by (simp add: three_signers_eq snapshot_eval toy_ecrecover_miss one_vote_def nonceAuthVote_def nonceDropVote_def)

theorem clique_no_double_sign_witness:
  "recover toy_crypto (toy_header 1 9 nonceAuthVote 1) \<noteq> recover toy_crypto (toy_header 2 0 nonceDropVote 2)"
proof -
  have r: "snap_reachable toy_crypto toy_arc three_signers"
    unfolding three_signers_def by (rule snap_reachable.checkpoint)
  have t: "\<forall>x \<in> set (clique_trace toy_crypto toy_arc [toy_header 1 9 nonceAuthVote 1, toy_header 2 0 nonceDropVote 2] three_signers []).
      2 \<le> length (Signers x) div 2 + 1"
    by (simp add: three_signers_eq snapshot_eval toy_ecrecover_miss nonceAuthVote_def nonceDropVote_def)
  show ?thesis
    using clique_no_double_sign [OF r toy_arc_ok toy_collision_free toy_sigs_ok one_vote_apply2 _ _ t, of 0 1]
    by (simp add: three_signers_eq)
qed

section \<open>Turns\<close>

lemma offset_of_less: "offset_of a xs < length xs \<longleftrightarrow> a \<in> set xs"
  by (induction xs) auto

lemma offset_of_le: "offset_of a xs \<le> length xs"
  by (induction xs) auto

lemma nth_offset_of: "a \<in> set xs \<Longrightarrow> xs ! offset_of a xs = a"
  by (induction xs) auto

lemma offset_of_nth: "distinct xs \<Longrightarrow> i < length xs \<Longrightarrow> offset_of (xs ! i) xs = i"
  by (induction xs arbitrary: i) (auto simp: nth_Cons split: nat.splits)

lemma signers_props:
  assumes "range_ok rng" "gm_wf (Signers s)"
  shows "set (signers rng s) = signer_set s" "distinct (signers rng s)" "length (signers rng s) = length (Signers s)"
    "sorted (signers rng s)"
  using assms range_ok_set [OF assms(1)] range_ok_distinct [OF assms(1)] range_ok_length [OF assms(1)]
  by (simp_all add: signers_def gm_wf_def)

lemma inturn_nth:
  assumes "range_ok rng" "gm_wf (Signers s)" "Signers s \<noteq> []" "length (Signers s) < 2 ^ 63"
  shows "inturn rng s number a = Some (a = signers rng s ! (unat number mod length (Signers s)))"
proof -
  note sp = signers_props [OF assms(1,2)]
  let ?xs = "signers rng s" and ?n = "length (Signers s)"
  have n0: "0 < ?n" using assms(3) by simp
  have u: "unat (of_nat ?n :: u64) = ?n" by (rule unat_of_nat_u64) (use assms(4) in simp)
  have m: "unat (number mod of_nat ?n) = unat number mod ?n" using u by (simp add: unat_mod)
  have off: "unat (of_nat (offset_of a ?xs) :: u64) = offset_of a ?xs"
    by (rule unat_of_nat_u64) (use offset_of_le [of a ?xs] sp(3) assms(4) in simp)
  have "number mod of_nat ?n = of_nat (offset_of a ?xs) \<longleftrightarrow> unat number mod ?n = offset_of a ?xs"
    using m off by (metis unsigned_word_eqI)
  also have "\<dots> \<longleftrightarrow> a = ?xs ! (unat number mod ?n)"
  proof
    assume e: "unat number mod ?n = offset_of a ?xs"
    have "offset_of a ?xs < length ?xs" using n0 by (simp add: sp(3) flip: e)
    then have "a \<in> set ?xs" by (simp add: offset_of_less)
    then show "a = ?xs ! (unat number mod ?n)" unfolding e by (simp add: nth_offset_of)
  next
    assume "a = ?xs ! (unat number mod ?n)"
    then show "unat number mod ?n = offset_of a ?xs" using offset_of_nth [OF sp(2)] n0 by (simp add: sp(3))
  qed
  finally have "number mod of_nat ?n = of_nat (offset_of a ?xs) \<longleftrightarrow> a = ?xs ! (unat number mod ?n)" .
  moreover have "?xs \<noteq> []" using n0 sp(3) by auto
  ultimately show ?thesis by (simp add: inturn_def sp(3))
qed

lemma mod_shift_inj:
  fixes a :: nat
  assumes "(a + i) mod n = (a + j) mod n" "i < n" "j < n" "i \<le> j"
  shows "i = j"
proof -
  have "n dvd (a + j) - (a + i)" using assms(1,4) by (metis add_le_cancel_left mod_eq_dvd_iff_nat)
  then have "n dvd j - i" by simp
  moreover have "j - i < n" using assms(3) by simp
  ultimately have "j - i = 0" by (metis dvd_imp_le linorder_not_less not_gr_zero)
  then show ?thesis using assms(4) by simp
qed

lemma mod_shift_unique:
  fixes a :: nat
  assumes "k < n"
  shows "\<exists>!i. i < n \<and> (a + i) mod n = k"
proof -
  define d where "d = (k + (n - a mod n)) mod n"
  have "a mod n < n" using assms by simp
  then have e: "a mod n + (k + (n - a mod n)) = k + n" by linarith
  have "(a + d) mod n = (a mod n + (k + (n - a mod n))) mod n" unfolding d_def by (simp only: mod_add_left_eq mod_add_right_eq)
  also have "\<dots> = k" unfolding e using assms by simp
  finally have d: "(a + d) mod n = k" .
  have dn: "d < n" using assms by (simp add: d_def)
  have "i = d" if "i < n" "(a + i) mod n = k" for i
    using mod_shift_inj [of a i n d] mod_shift_inj [of a d n i] that d dn by (metis linear)
  then show ?thesis using d dn by blast
qed

text \<open>Whatever the order in which the signer map is walked, every block number has exactly one signer in
  turn, an authorised one, and the turns go round: in every run of as many blocks as there are signers each
  signer is in turn exactly once. With no signers \<open>inturn\<close> panics.\<close>

theorem clique_inturn_round_robin:
  assumes "snap_reachable cr a s" "range_ok rng" "length (Signers s) < 2 ^ 63"
  shows "(Signers s = [] \<longrightarrow> inturn rng s number x = None)
    \<and> (Signers s \<noteq> [] \<longrightarrow> (\<exists>!y. inturn rng s number y = Some True)
        \<and> (inturn rng s number x = Some True \<longrightarrow> is_signer s x)
        \<and> (is_signer s x \<and> unat number + length (Signers s) < 2 ^ 64 \<longrightarrow>
             (\<exists>!i. i < length (Signers s) \<and> inturn rng s (number + of_nat i) x = Some True)))"
proof (cases "Signers s = []")
  case True
  then have "rng (gm_keys (Signers s)) = []" using range_ok_length [OF assms(2), of "[]"] by simp
  then show ?thesis using True by (simp add: inturn_def signers_def)
next
  case ne: False
  have wf: "gm_wf (Signers s)" using snap_reachable_inv [OF assms(1)] by (simp add: snap_inv_def mid_ok_def votes_ok_def)
  note it = inturn_nth [OF assms(2) wf ne assms(3)] and sp = signers_props [OF assms(2) wf]
  let ?xs = "signers rng s" and ?n = "length (Signers s)"
  have n0: "0 < ?n" using ne by simp
  have "\<exists>!i. i < ?n \<and> inturn rng s (number + of_nat i) x = Some True"
    if x: "is_signer s x" and nw: "unat number + ?n < 2 ^ 64"
  proof -
    have xm: "x \<in> set ?xs" using x is_signer_iff sp(1) by blast
    then have o: "offset_of x ?xs < ?n" using offset_of_less [of x ?xs] sp(3) by simp
    have un: "unat (number + of_nat i) = unat number + i" if "i < ?n" for i
      using that nw unat_of_nat_u64 [of i] by (subst unat_add_lem [THEN iffD1]) simp_all
    have key: "inturn rng s (number + of_nat i) x = Some True \<longleftrightarrow> (unat number + i) mod ?n = offset_of x ?xs" if "i < ?n" for i
    proof -
      have "x = ?xs ! ((unat number + i) mod ?n) \<longleftrightarrow> (unat number + i) mod ?n = offset_of x ?xs"
        using nth_offset_of [OF xm] offset_of_nth [OF sp(2), of "(unat number + i) mod ?n"] n0 sp(3) by auto
      then show ?thesis by (simp add: it un that)
    qed
    have "\<exists>!i. i < ?n \<and> (unat number + i) mod ?n = offset_of x ?xs" by (rule mod_shift_unique [OF o])
    then show ?thesis using key by blast
  qed
  moreover have "is_signer s x" if "inturn rng s number x = Some True"
  proof -
    have "x = ?xs ! (unat number mod ?n)" using that it by simp
    then have "x \<in> set ?xs" using n0 sp(3) by (metis mod_less_divisor nth_mem)
    then show ?thesis using is_signer_iff sp(1) by blast
  qed
  moreover have "\<exists>!y. inturn rng s number y = Some True" by (simp add: it)
  ultimately show ?thesis using ne by blast
qed

theorem clique_inturn_round_robin_witness:
  "snap_reachable toy_crypto toy_arc one_vote \<and> range_ok (rev :: address list \<Rightarrow> _) \<and> length (Signers one_vote) < 2 ^ 63
    \<and> (\<exists>!y. inturn rev one_vote 2 y = Some True) \<and> inturn rev one_vote 2 3 = Some True"
proof -
  have h: "length (Signers one_vote) < 2 ^ 63" "Signers one_vote \<noteq> []" by (simp_all add: one_vote_def)
  have "inturn rev one_vote 2 3 = Some True" by (simp add: inturn_def signers_def one_vote_def word_le_nat_alt)
  then show ?thesis
    using clique_inturn_round_robin [OF one_vote_reachable range_ok_rev h(1), of 2] one_vote_reachable range_ok_rev h
    by simp
qed

end
