(* ===== verification/Clique_Engine.thy ===== *)
theory Clique_Engine
  imports Clique_Voting Memory_DB
begin

text \<open>
  The Clique engine: \<open>consensus/clique/clique.go\<close>.

  Constant through a run: the libraries, the chain the engine reads headers from, the clock and the order in
  which maps are walked (the record \<open>clique_env\<close>; \<open>json.Marshal\<close> of a snapshot and its inverse are two of
  its functions). What the engine changes, its two caches and its database, is the state \<open>clique_st\<close> that
  every operation takes and returns. The search for a snapshot walks back along the parents and might not
  end on a chain without a genesis block: it is a \<open>partial_function\<close>, and \<^const>\<open>None\<close> means that it does
  not return. Durations are in nanoseconds; times are taken to be below \<open>2\<^sup>3\<^sup>3\<close> seconds, where the Go
  conversions do not overflow.
\<close>

record ('c, 'r) clique_env =
  libs :: crypto
  sig_arc :: "('c, address) arc"
  snap_arc :: "('r, snapshot) arc"
  json_marshal :: "snapshot \<Rightarrow> bytes"
  json_unmarshal :: "bytes \<Rightarrow> snapshot option"
  GetHeader :: "hash \<Rightarrow> u64 \<Rightarrow> header option"
  GetHeaderByNumber :: "u64 \<Rightarrow> header option"
  walk :: "address list \<Rightarrow> address list"

record ('c, 'r) clique_st =
  recents :: 'r
  signatures :: 'c
  db :: memdb

record clique =
  engine_config :: cliqueConfig
  proposals :: "(address, bool) gomap"
  signer :: address
  fakeDiff :: bool

definition checkpointInterval :: u64 where "checkpointInterval = 1024"
definition epochLength :: u64 where "epochLength = 30000"
definition diffInTurn :: bigint where "diffInTurn = 2"
definition diffNoTurn :: bigint where "diffNoTurn = 1"
definition wiggleTime :: int where "wiggleTime = 500 * 10 ^ 6"

definition clique_New :: "cliqueConfig \<Rightarrow> clique" where
  "clique_New cfg =
     \<lparr>engine_config = (if Epoch cfg = 0 then cfg\<lparr>Epoch := epochLength\<rparr> else cfg), proposals = [], signer = 0, fakeDiff = False\<rparr>"

definition clique_Authorize :: "clique \<Rightarrow> address \<Rightarrow> clique" where
  "clique_Authorize c a = c\<lparr>signer := a\<rparr>"

definition clique_Author :: "('c, 'r) clique_env \<Rightarrow> header \<Rightarrow> ('c, 'r) clique_st \<Rightarrow> address res \<times> ('c, 'r) clique_st" where
  "clique_Author env h st =
     (let (r, c) = ecrecover (libs env) (sig_arc env) h (signatures st) in (r, st\<lparr>signatures := c\<rparr>))"

section \<open>Snapshots on disk\<close>

definition bytes_address :: "bytes \<Rightarrow> address" where
  "bytes_address bs = foldl (\<lambda>acc b. push_bit 8 acc + ucast b) 0 bs"

definition clique_key :: "hash \<Rightarrow> bytes" where
  "clique_key h = [99, 108, 105, 113, 117, 101, 45] @ hash_bytes h"

definition loadSnapshot :: "('c, 'r) clique_env \<Rightarrow> cliqueConfig \<Rightarrow> memdb \<Rightarrow> hash \<Rightarrow> snapshot res" where
  "loadSnapshot env cfg d h =
     (case memdb_Get d (clique_key h) of
        Inl _ \<Rightarrow> Inl errDatabase
      | Inr blob \<Rightarrow> (case json_unmarshal env blob of None \<Rightarrow> Inl errDatabase | Some s \<Rightarrow> Inr (s\<lparr>config := cfg\<rparr>)))"

definition store_snapshot :: "('c, 'r) clique_env \<Rightarrow> snapshot \<Rightarrow> memdb \<Rightarrow> memdb res" where
  "store_snapshot env s d =
     (case memdb_Put d (clique_key (SHash s)) (json_marshal env s) of Inl _ \<Rightarrow> Inl errDatabase | Inr d' \<Rightarrow> Inr d')"

text \<open>The signers of a checkpoint header, 20 bytes each between vanity and seal. The length is a Go \<open>int\<close>
  divided towards zero; \<open>make\<close> panics when it is negative.\<close>

definition decode_signers :: "bytes \<Rightarrow> address list option" where
  "decode_signers extra =
     (if length extra < extraVanity + extraSeal then
        (if (extraVanity + extraSeal - length extra) div addressLength = 0 then Some [] else None)
      else Some (map (\<lambda>i. bytes_address (take addressLength (drop (extraVanity + i * addressLength) extra)))
             [0..<(length extra - extraVanity - extraSeal) div addressLength]))"

section \<open>The snapshot at a block\<close>

text \<open>One round of the search: the snapshot, or the header to go back over and the remaining parents.\<close>

definition search_step ::
  "('c, 'r) clique_env \<Rightarrow> cliqueConfig \<Rightarrow> u64 \<Rightarrow> hash \<Rightarrow> header list \<Rightarrow> ('c, 'r) clique_st \<Rightarrow>
     (snapshot + (header \<times> header list)) res \<times> ('c, 'r) clique_st" where
  "search_step env cfg number h parents st =
     (case arc_Get (snap_arc env) (recents st) h of
        (Some s, r) \<Rightarrow> (Inr (Inl s), st\<lparr>recents := r\<rparr>)
      | (None, r) \<Rightarrow>
          let st1 = st\<lparr>recents := r\<rparr>;
              go_back =
                (if parents \<noteq> [] then
                   let p = last parents in
                   if header_Hash (libs env) p \<noteq> h then Inl ErrUnknownAncestor
                   else (case Uint64 (Number p) of
                           None \<Rightarrow> Inl Panic
                         | Some n \<Rightarrow> if n \<noteq> number then Inl ErrUnknownAncestor else Inr (Inr (p, butlast parents)))
                 else (case GetHeader env h number of None \<Rightarrow> Inl ErrUnknownAncestor | Some p \<Rightarrow> Inr (Inr (p, []))))
          in case (if number mod checkpointInterval = 0 then loadSnapshot env cfg (db st1) h else Inl errDatabase) of
               Inr s \<Rightarrow> (Inr (Inl s), st1)
             | Inl _ \<Rightarrow>
                 if number \<noteq> 0 \<and> Epoch cfg = 0 then (Inl Panic, st1)
                 else if number = 0 \<or> (number mod Epoch cfg = 0 \<and> GetHeaderByNumber env (number - 1) = None) then
                   (case GetHeaderByNumber env number of
                      None \<Rightarrow> (go_back, st1)
                    | Some cp \<Rightarrow>
                        (case decode_signers (Extra cp) of
                           None \<Rightarrow> (Inl Panic, st1)
                         | Some sgs \<Rightarrow>
                             let s = newSnapshot cfg number (header_Hash (libs env) cp) sgs in
                             (case store_snapshot env s (db st1) of
                                Inl e \<Rightarrow> (Inl e, st1)
                              | Inr d \<Rightarrow> (Inr (Inl s), st1\<lparr>db := d\<rparr>))))
                 else (go_back, st1))"

partial_function (option) search_snapshot ::
  "('c, 'r) clique_env \<Rightarrow> cliqueConfig \<Rightarrow> u64 \<Rightarrow> hash \<Rightarrow> header list \<Rightarrow> header list \<Rightarrow> ('c, 'r) clique_st \<Rightarrow>
     ((snapshot \<times> header list) res \<times> ('c, 'r) clique_st) option" where
  "search_snapshot env cfg number h parents headers st =
     (case search_step env cfg number h parents st of
        (Inl e, st1) \<Rightarrow> Some (Inl e, st1)
      | (Inr (Inl s), st1) \<Rightarrow> Some (Inr (s, headers), st1)
      | (Inr (Inr (p, ps)), st1) \<Rightarrow> search_snapshot env cfg (number - 1) (ParentHash p) ps (headers @ [p]) st1)"

text \<open>The headers that were gathered are put in ascending order and applied.\<close>

definition finish_snapshot ::
  "('c, 'r) clique_env \<Rightarrow> snapshot \<Rightarrow> header list \<Rightarrow> ('c, 'r) clique_st \<Rightarrow> snapshot res \<times> ('c, 'r) clique_st" where
  "finish_snapshot env s0 headers st =
     (case snap_apply (libs env) (sig_arc env) s0 (rev headers) (signatures st) of
        (Inl e, c) \<Rightarrow> (Inl e, st\<lparr>signatures := c\<rparr>)
      | (Inr s, c) \<Rightarrow>
          let st1 = st\<lparr>signatures := c, recents := arc_Add (snap_arc env) (recents st) (SHash s) s\<rparr> in
          if SNumber s mod checkpointInterval = 0 \<and> headers \<noteq> [] then
            (case store_snapshot env s (db st1) of Inl e \<Rightarrow> (Inl e, st1) | Inr d \<Rightarrow> (Inr s, st1\<lparr>db := d\<rparr>))
          else (Inr s, st1))"

definition clique_snapshot ::
  "('c, 'r) clique_env \<Rightarrow> cliqueConfig \<Rightarrow> u64 \<Rightarrow> hash \<Rightarrow> header list \<Rightarrow> ('c, 'r) clique_st \<Rightarrow>
     (snapshot res \<times> ('c, 'r) clique_st) option" where
  "clique_snapshot env cfg number h parents st =
     (case search_snapshot env cfg number h parents [] st of
        None \<Rightarrow> None
      | Some (Inl e, st1) \<Rightarrow> Some (Inl e, st1)
      | Some (Inr (s, headers), st1) \<Rightarrow> Some (finish_snapshot env s headers st1))"

section \<open>Verification\<close>

text \<open>The two tests for a recent signature: of \<open>verifySeal\<close>, and of \<open>Seal\<close>, which also covers the first blocks
  of a chain. The subtraction is at \<open>uint64\<close>.\<close>

definition recently_signed :: "snapshot \<Rightarrow> u64 \<Rightarrow> address \<Rightarrow> bool" where
  "recently_signed snap number sg =
     list_ex (\<lambda>(seen, recent). recent = sg \<and> seen > number - limit_of snap) (Recents snap)"

definition seal_must_wait :: "snapshot \<Rightarrow> u64 \<Rightarrow> address \<Rightarrow> bool" where
  "seal_must_wait snap number sg =
     list_ex (\<lambda>(seen, recent). recent = sg \<and> (number < limit_of snap \<or> seen > number - limit_of snap)) (Recents snap)"

definition verifySeal ::
  "('c, 'r) clique_env \<Rightarrow> clique \<Rightarrow> header \<Rightarrow> header list \<Rightarrow> ('c, 'r) clique_st \<Rightarrow>
     (unit res \<times> ('c, 'r) clique_st) option" where
  "verifySeal env c h parents st =
     (case Uint64 (Number h) of
        None \<Rightarrow> Some (Inl Panic, st)
      | Some number \<Rightarrow>
          if number = 0 then Some (Inl errUnknownBlock, st)
          else case clique_snapshot env (engine_config c) (number - 1) (ParentHash h) parents st of
            None \<Rightarrow> None
          | Some (Inl e, st1) \<Rightarrow> Some (Inl e, st1)
          | Some (Inr snap, st1) \<Rightarrow>
              (case clique_Author env h st1 of
                 (Inl e, st2) \<Rightarrow> Some (Inl e, st2)
               | (Inr sg, st2) \<Rightarrow> Some
                   (if \<not> is_signer snap sg then Inl errUnauthorizedSigner
                    else if recently_signed snap number sg then Inl errRecentlySigned
                    else if fakeDiff c then Inr ()
                    else case inturn (walk env) snap number sg of
                      None \<Rightarrow> Inl Panic
                    | Some turn \<Rightarrow>
                        (case Difficulty h of
                           None \<Rightarrow> Inl Panic
                         | Some d \<Rightarrow> if d \<noteq> (if turn then diffInTurn else diffNoTurn) then Inl errWrongDifficulty
                                     else Inr ()), st2)))"

text \<open>The fields of a header that depend on its parents.\<close>

definition verifyCascadingFields ::
  "('c, 'r) clique_env \<Rightarrow> clique \<Rightarrow> header \<Rightarrow> header list \<Rightarrow> ('c, 'r) clique_st \<Rightarrow>
     (unit res \<times> ('c, 'r) clique_st) option" where
  "verifyCascadingFields env c h parents st =
     (case Uint64 (Number h) of
        None \<Rightarrow> Some (Inl Panic, st)
      | Some number \<Rightarrow>
          if number = 0 then Some (Inr (), st)
          else case (if parents \<noteq> [] then Some (last parents) else GetHeader env (ParentHash h) (number - 1)) of
            None \<Rightarrow> Some (Inl ErrUnknownAncestor, st)
          | Some parent \<Rightarrow>
              (case Uint64 (Number parent) of
                 None \<Rightarrow> Some (Inl Panic, st)
               | Some pn \<Rightarrow>
                  if pn \<noteq> number - 1 \<or> header_Hash (libs env) parent \<noteq> ParentHash h then Some (Inl ErrUnknownAncestor, st)
                  else if Time parent + Period (engine_config c) > Time h then Some (Inl ErrInvalidTimestamp, st)
                  else case clique_snapshot env (engine_config c) (number - 1) (ParentHash h) parents st of
                    None \<Rightarrow> None
                  | Some (Inl e, st1) \<Rightarrow> Some (Inl e, st1)
                  | Some (Inr snap, st1) \<Rightarrow>
                      if Epoch (engine_config c) = 0 then Some (Inl Panic, st1)
                      else if number mod Epoch (engine_config c) = 0 \<and> length (Extra h) < extraVanity + extraSeal
                      then Some (Inl Panic, st1)
                      else if number mod Epoch (engine_config c) = 0
                          \<and> take (length (Extra h) - extraSeal - extraVanity) (drop extraVanity (Extra h))
                              \<noteq> concat (map address_bytes (signers (walk env) snap))
                      then Some (Inl errMismatchingCheckpointSigners, st1)
                      else verifySeal env c h parents st1))"

text \<open>The checks that need the header only; \<open>now\<close> is the clock.\<close>

definition basic_checks :: "crypto \<Rightarrow> clique \<Rightarrow> u64 \<Rightarrow> u64 \<Rightarrow> header \<Rightarrow> unit res" where
  "basic_checks cr c now number h =
     (let checkpoint = (number mod Epoch (engine_config c) = 0);
          signersBytes = int (length (Extra h)) - int extraVanity - int extraSeal in
      if Time h > now then Inl ErrFutureBlock
      else if Epoch (engine_config c) = 0 then Inl Panic
      else if checkpoint \<and> Coinbase h \<noteq> 0 then Inl errInvalidCheckpointBeneficiary
      else if Nonce h \<noteq> nonceAuthVote \<and> Nonce h \<noteq> nonceDropVote then Inl errInvalidVote
      else if checkpoint \<and> Nonce h \<noteq> nonceDropVote then Inl errInvalidCheckpointVote
      else if length (Extra h) < extraVanity then Inl errMissingVanity
      else if length (Extra h) < extraVanity + extraSeal then Inl errMissingSignature
      else if \<not> checkpoint \<and> signersBytes \<noteq> 0 then Inl errExtraSigners
      else if checkpoint \<and> signersBytes mod int addressLength \<noteq> 0 then Inl errInvalidCheckpointSigners
      else if MixDigest h \<noteq> 0 then Inl errInvalidMixDigest
      else if UncleHash h \<noteq> CalcUncleHash cr [] then Inl errInvalidUncleHash
      else if number > 0 \<and> Difficulty h \<noteq> Some diffInTurn \<and> Difficulty h \<noteq> Some diffNoTurn then Inl errInvalidDifficulty
      else Inr ())"

definition verifyHeader ::
  "('c, 'r) clique_env \<Rightarrow> clique \<Rightarrow> u64 \<Rightarrow> header \<Rightarrow> header list \<Rightarrow> ('c, 'r) clique_st \<Rightarrow>
     (unit res \<times> ('c, 'r) clique_st) option" where
  "verifyHeader env c now h parents st =
     (case Uint64 (Number h) of
        None \<Rightarrow> Some (Inl errUnknownBlock, st)
      | Some number \<Rightarrow>
          (case basic_checks (libs env) c now number h of
             Inl e \<Rightarrow> Some (Inl e, st)
           | Inr _ \<Rightarrow> verifyCascadingFields env c h parents st))"

text \<open>\<open>VerifyHeaders\<close> checks a batch, each header with the earlier ones as its parents; \<open>aborted i\<close> says that
  the caller closed the channel before the result of header \<open>i\<close> was taken.\<close>

fun VerifyHeaders_loop ::
  "('c, 'r) clique_env \<Rightarrow> clique \<Rightarrow> u64 \<Rightarrow> (nat \<Rightarrow> bool) \<Rightarrow> header list \<Rightarrow> header list \<Rightarrow> unit res list \<Rightarrow>
     ('c, 'r) clique_st \<Rightarrow> (unit res list \<times> ('c, 'r) clique_st) option" where
  "VerifyHeaders_loop env c now aborted seen [] results st = Some (results, st)"
| "VerifyHeaders_loop env c now aborted seen (h # hs) results st =
     (case verifyHeader env c now h seen st of
        None \<Rightarrow> None
      | Some (r, st1) \<Rightarrow>
          if aborted (length seen) then Some (results, st1)
          else VerifyHeaders_loop env c now aborted (seen @ [h]) hs (results @ [r]) st1)"

definition VerifyHeaders ::
  "('c, 'r) clique_env \<Rightarrow> clique \<Rightarrow> u64 \<Rightarrow> (nat \<Rightarrow> bool) \<Rightarrow> header list \<Rightarrow> ('c, 'r) clique_st \<Rightarrow>
     (unit res list \<times> ('c, 'r) clique_st) option" where
  "VerifyHeaders env c now aborted hs st = VerifyHeaders_loop env c now aborted [] hs [] st"

definition VerifyUncles :: "block \<Rightarrow> unit res" where
  "VerifyUncles b = (if length (uncles b) > 0 then Inl errUncles else Inr ())"

section \<open>Preparing and sealing\<close>

definition CalcDifficulty :: "(address list \<Rightarrow> address list) \<Rightarrow> snapshot \<Rightarrow> address \<Rightarrow> bigint res" where
  "CalcDifficulty rng snap sg =
     (case inturn rng snap (SNumber snap + 1) sg of
        None \<Rightarrow> Inl Panic | Some turn \<Rightarrow> Inr (if turn then diffInTurn else diffNoTurn))"

text \<open>The vote of a header: a random one (\<open>pick n\<close> is \<open>rand.Intn(n)\<close>) of the proposals that make sense.\<close>

definition choose_vote ::
  "('c, 'r) clique_env \<Rightarrow> clique \<Rightarrow> (nat \<Rightarrow> nat) \<Rightarrow> bool \<Rightarrow> snapshot \<Rightarrow> header \<Rightarrow> header" where
  "choose_vote env c pick checkpoint snap h =
     (if checkpoint then h
      else let addresses = filter (\<lambda>a. validVote snap a (gm_get (proposals c) a = Some True)) (walk env (gm_keys (proposals c))) in
      if length addresses > 0 then
        let a = addresses ! pick (length addresses) in
        h\<lparr>Coinbase := a, Nonce := (if gm_get (proposals c) a = Some True then nonceAuthVote else nonceDropVote)\<rparr>
      else h)"

text \<open>The extra-data: the vanity padded or cut to its length, the signers on a checkpoint, room for the seal.\<close>

definition prepare_extra :: "(address list \<Rightarrow> address list) \<Rightarrow> bool \<Rightarrow> snapshot \<Rightarrow> bytes \<Rightarrow> bytes" where
  "prepare_extra rng checkpoint snap extra =
     (let x1 = (if length extra < extraVanity then extra @ replicate (extraVanity - length extra) 0 else extra);
          x2 = take extraVanity x1;
          x3 = (if checkpoint then x2 @ concat (map address_bytes (signers rng snap)) else x2)
      in x3 @ replicate extraSeal 0)"

text \<open>The result of \<open>Prepare\<close> is the error, if any, and the header as it was left.\<close>

definition Prepare ::
  "('c, 'r) clique_env \<Rightarrow> clique \<Rightarrow> u64 \<Rightarrow> (nat \<Rightarrow> nat) \<Rightarrow> header \<Rightarrow> ('c, 'r) clique_st \<Rightarrow>
     ((error option \<times> header) \<times> ('c, 'r) clique_st) option" where
  "Prepare env c now pick h st =
     (let h0 = h\<lparr>Coinbase := 0, Nonce := replicate 8 0\<rparr> in
      case Uint64 (Number h0) of
        None \<Rightarrow> Some ((Some Panic, h0), st)
      | Some number \<Rightarrow>
          (case clique_snapshot env (engine_config c) (number - 1) (ParentHash h0) [] st of
             None \<Rightarrow> None
           | Some (Inl e, st1) \<Rightarrow> Some ((Some e, h0), st1)
           | Some (Inr snap, st1) \<Rightarrow>
               if Epoch (engine_config c) = 0 then Some ((Some Panic, h0), st1)
               else
                 let checkpoint = (number mod Epoch (engine_config c) = 0);
                     h1 = choose_vote env c pick checkpoint snap h0
                 in case CalcDifficulty (walk env) snap (signer c) of
                      Inl e \<Rightarrow> Some ((Some e, h1), st1)
                    | Inr d \<Rightarrow>
                        let h3 = h1\<lparr>Difficulty := Some d, Extra := prepare_extra (walk env) checkpoint snap (Extra h1),
                                    MixDigest := 0\<rparr>
                        in case GetHeader env (ParentHash h3) (number - 1) of
                             None \<Rightarrow> Some ((Some ErrUnknownAncestor, h3), st1)
                           | Some parent \<Rightarrow>
                               let t = Time parent + Period (engine_config c)
                               in Some ((None, h3\<lparr>Time := (if t < now then now else t)\<rparr>), st1)))"

definition Finalize ::
  "crypto \<Rightarrow> (transaction list \<Rightarrow> hash) \<Rightarrow> ('t list \<Rightarrow> hash) \<Rightarrow> ('t list \<Rightarrow> bytes) \<Rightarrow> hash \<Rightarrow>
     header \<Rightarrow> transaction list \<Rightarrow> 't list \<Rightarrow> header \<times> block" where
  "Finalize cr dt dr bloom root h txs receipts =
     (let h1 = h\<lparr>Root := root, UncleHash := CalcUncleHash cr []\<rparr> in (h1, NewBlock cr dt dr bloom h1 txs [] receipts))"

datatype seal_result = SealError error | SealSkipped | Sealed int block

text \<open>\<open>copy(header.Extra[len(header.Extra)-extraSeal:], sighash)\<close>: as many bytes as both have.\<close>

definition put_seal :: "bytes \<Rightarrow> bytes \<Rightarrow> bytes" where
  "put_seal extra sig =
     (let n = length extra - extraSeal; sg = take extraSeal sig in take n extra @ sg @ drop (n + length sg) extra)"

definition Seal ::
  "('c, 'r) clique_env \<Rightarrow> clique \<Rightarrow> (address \<Rightarrow> bytes \<Rightarrow> bytes option) \<Rightarrow> u64 \<Rightarrow> (int \<Rightarrow> int) \<Rightarrow> block \<Rightarrow>
     ('c, 'r) clique_st \<Rightarrow> (seal_result \<times> ('c, 'r) clique_st) option" where
  "Seal env c signFn now rnd b st =
     (let h = block_Header b in
      case Uint64 (Number h) of
        None \<Rightarrow> Some (SealError Panic, st)
      | Some number \<Rightarrow>
          if number = 0 then Some (SealError errUnknownBlock, st)
          else if Period (engine_config c) = 0 \<and> length (transactions b) = 0 then Some (SealSkipped, st)
          else case clique_snapshot env (engine_config c) (number - 1) (ParentHash h) [] st of
            None \<Rightarrow> None
          | Some (Inl e, st1) \<Rightarrow> Some (SealError e, st1)
          | Some (Inr snap, st1) \<Rightarrow> Some
              (if \<not> is_signer snap (signer c) then SealError errUnauthorizedSigner
               else if seal_must_wait snap number (signer c) then SealSkipped
               else
                 let wiggle = int (length (Signers snap) div 2 + 1) * wiggleTime;
                     delay = (int (unat (Time h)) - int (unat now)) * 10 ^ 9
                             + (if Difficulty h = Some diffNoTurn then rnd wiggle else 0)
                 in case encodeSigHeader (libs env) h of
                      Inl e \<Rightarrow> SealError e
                    | Inr msg \<Rightarrow>
                        (case signFn (signer c) msg of
                           None \<Rightarrow> SealError errSign
                         | Some sig \<Rightarrow> Sealed delay (WithSeal b (h\<lparr>Extra := put_seal (Extra h) sig\<rparr>))), st1))"

text \<open>The method \<open>CalcDifficulty\<close> of the engine; on an error it returns \<open>nil\<close>.\<close>

definition clique_CalcDifficulty ::
  "('c, 'r) clique_env \<Rightarrow> clique \<Rightarrow> header \<Rightarrow> ('c, 'r) clique_st \<Rightarrow> (bigint option res \<times> ('c, 'r) clique_st) option" where
  "clique_CalcDifficulty env c parent st =
     (case Uint64 (Number parent) of
        None \<Rightarrow> Some (Inl Panic, st)
      | Some n \<Rightarrow>
          (case clique_snapshot env (engine_config c) n (header_Hash (libs env) parent) [] st of
             None \<Rightarrow> None
           | Some (Inl e, st1) \<Rightarrow> Some (Inr None, st1)
           | Some (Inr snap, st1) \<Rightarrow> Some (map_sum id Some (CalcDifficulty (walk env) snap (signer c)), st1)))"

end
