(* ===== verification/Clique_Rules.thy ===== *)
theory Clique_Rules
  imports Clique_Engine
begin

text \<open>
  Properties of the Clique engine (\<open>consensus/clique/clique.go\<close>): the search for a snapshot ends, the three
  places that decide whether a signer signed recently agree except on the first blocks of a chain, and a block
  made by \<open>Prepare\<close>, \<open>Finalize\<close> and \<open>Seal\<close> is accepted by \<open>verifyHeader\<close>.
\<close>

section \<open>The search ends\<close>

lemma search_step_back_number:
  assumes "GetHeaderByNumber env 0 = Some g" "search_step env cfg number h parents st = (Inr (Inr (p, ps)), st1)"
  shows "number \<noteq> 0"
proof
  assume z: "number = 0"
  show False using assms(2)
    by (auto simp: search_step_def z assms(1) split: prod.splits option.splits sum.splits if_splits)
qed

lemma search_terminates:
  assumes "GetHeaderByNumber env 0 = Some g"
  shows "\<exists>r. search_snapshot env cfg number h parents headers st = Some r"
proof (induction "unat number" arbitrary: number h parents headers st rule: less_induct)
  case less
  obtain o1 st1 where o: "search_step env cfg number h parents st = (o1, st1)" by fastforce
  show ?case
  proof (cases "\<exists>p ps. o1 = Inr (Inr (p, ps))")
    case True
    then obtain p ps where b: "search_step env cfg number h parents st = (Inr (Inr (p, ps)), st1)" using o by auto
    have n: "number \<noteq> 0" by (rule search_step_back_number [OF assms b])
    then have "unat (number - 1) < unat number" by (simp add: measure_unat)
    from less [OF this, of "ParentHash p" ps "headers @ [p]" st1] show ?thesis
      by (subst search_snapshot.simps) (simp add: b)
  next
    case False
    then show ?thesis by (subst search_snapshot.simps) (auto simp: o split: sum.splits)
  qed
qed

text \<open>C22: On a chain that has its genesis header, \<open>snapshot\<close> returns from every block, hash and list of
  parents: the search never runs past block 0.\<close>

theorem clique_snapshot_returns:
  assumes "GetHeaderByNumber env 0 = Some g"
  shows "\<exists>r st'. clique_snapshot env cfg number h parents st = Some (r, st')"
proof -
  obtain r st1 where "search_snapshot env cfg number h parents [] st = Some (r, st1)"
    using search_terminates [OF assms, of cfg number h parents "[]" st] by auto
  then show ?thesis by (cases r) (auto simp: clique_snapshot_def split: prod.splits)
qed

text \<open>A small environment: a chain of one header, and snapshots that are not kept on disk.\<close>

definition toy_env :: "((hash \<times> address) list, (hash \<times> snapshot) list) clique_env" where
  "toy_env = \<lparr>libs = toy_crypto, sig_arc = toy_arc, snap_arc = toy_arc, json_marshal = (\<lambda>_. []),
     json_unmarshal = (\<lambda>_. None), GetHeader = (\<lambda>h n. if h = 8 \<and> n = 0 then Some (toy_header 0 0 nonceDropVote 7) else None),
     GetHeaderByNumber = (\<lambda>n. if n = 0 then Some (toy_header 0 0 nonceDropVote 7) else None), walk = rev\<rparr>"

theorem clique_snapshot_returns_witness:
  "GetHeaderByNumber toy_env 0 = Some (toy_header 0 0 nonceDropVote 7)
    \<and> (\<exists>r st'. clique_snapshot toy_env \<lparr>Period = 15, Epoch = 30000\<rparr> 5 0 [] \<lparr>recents = [], signatures = [], db = None\<rparr> = Some (r, st'))"
proof -
  have g: "GetHeaderByNumber toy_env 0 = Some (toy_header 0 0 nonceDropVote 7)" by (simp add: toy_env_def)
  show ?thesis using clique_snapshot_returns [OF g] g by blast
qed

section \<open>Recent signers\<close>

lemma unat_limit: "window s < 2 ^ 64 \<Longrightarrow> unat (limit_of s) = window s"
  unfolding limit_of_def by (rule unat_of_nat_u64)

lemma apply_signed_recent:
  assumes "is_signer s sg"
  shows "apply_signed number sg h s = Inl errRecentlySigned \<longleftrightarrow> sg \<in> snd ` set (Recents s)"
proof -
  have r: "list_ex (\<lambda>(_, recent). recent = sg) (Recents s) \<longleftrightarrow> sg \<in> snd ` set (Recents s)"
    by (force simp: list_ex_iff)
  show ?thesis unfolding apply_signed_def r using assms by (auto split: prod.splits)
qed

lemma prepare_header_Inr:
  assumes "prepare_header number s = Inr s1"
  shows "Signers s1 = Signers s"
    "Recents s1 = (if number \<ge> limit_of s then gm_del (Recents s) (number - limit_of s) else Recents s)"
  using assms by (auto simp: prepare_header_def prune_recents_def limit_of_def split: if_splits)

lemma set_gm_del: "set (AList.delete k m) = {(x, v) \<in> set m. x \<noteq> k}"
  by (auto simp: AList.delete_eq)

text \<open>C20: For the next block after a reachable snapshot, an authorised signer is refused by \<open>apply\<close> as a recent
  one exactly when \<open>Seal\<close> would have waited; from the block number on that equals the signing limit, this is
  also exactly when \<open>verifySeal\<close> refuses the header.\<close>

theorem clique_recent_rules_agree:
  assumes "snap_reachable cr a snap" "number = SNumber snap + 1" "unat (SNumber snap) + 1 < 2 ^ 64"
    "length (Signers snap) < 2 ^ 63" "prepare_header number snap = Inr s1" "is_signer snap sg"
  shows "(apply_signed number sg h s1 = Inl errRecentlySigned \<longleftrightarrow> seal_must_wait snap number sg)
    \<and> (number \<ge> limit_of snap \<longrightarrow>
         (apply_signed number sg h s1 = Inl errRecentlySigned \<longleftrightarrow> recently_signed snap number sg))"
proof -
  have r: "recents_ok (unat (SNumber snap)) snap" using snap_reachable_inv [OF assms(1)]
    by (simp add: snap_inv_def mid_ok_def)
  have n: "unat number = unat (SNumber snap) + 1" unfolding assms(2) by (rule unat_Suc_u64 [OF assms(3)])
  have lim: "unat (limit_of snap) = window snap" by (rule unat_limit) (use assms(4) in simp)
  note pr = prepare_header_Inr [OF assms(5)]
  have a: "apply_signed number sg h s1 = Inl errRecentlySigned \<longleftrightarrow> sg \<in> snd ` set (Recents s1)"
    by (rule apply_signed_recent) (use assms(6) pr(1) in \<open>simp add: is_signer_def\<close>)
  show ?thesis
  proof (cases "number \<ge> limit_of snap")
    case True
    have w: "window snap \<le> unat number" using True lim by (metis word_le_nat_alt)
    have sub: "unat (number - limit_of snap) = unat number - window snap" using True lim by (simp add: unat_sub)
    have key: "seen > number - limit_of snap \<longleftrightarrow> seen \<noteq> number - limit_of snap" if "(seen, x) \<in> set (Recents snap)" for seen x
    proof -
      have "seen \<in> set (gm_keys (Recents snap))" using that by force
      then have "unat number < unat seen + window snap + 1" using r n unfolding recents_ok_def by fastforce
      then have "unat (number - limit_of snap) \<le> unat seen" using sub w by linarith
      then have "number - limit_of snap \<le> seen" by (simp add: word_le_nat_alt)
      then show ?thesis by auto
    qed
    have e: "seal_must_wait snap number sg = recently_signed snap number sg"
      using True by (simp add: seal_must_wait_def recently_signed_def linorder_not_less [symmetric])
    have "sg \<in> snd ` set (Recents s1) \<longleftrightarrow> (\<exists>seen. (seen, sg) \<in> set (Recents snap) \<and> seen \<noteq> number - limit_of snap)"
      unfolding pr(2) using True by (force simp: set_gm_del)
    also have "\<dots> \<longleftrightarrow> recently_signed snap number sg"
      unfolding recently_signed_def list_ex_iff using key by fastforce
    finally show ?thesis using a e by simp
  next
    case False
    then have "seal_must_wait snap number sg \<longleftrightarrow> sg \<in> snd ` set (Recents snap)"
      unfolding seal_must_wait_def list_ex_iff by force
    then show ?thesis using a False by (simp add: pr(2))
  qed
qed

lemma one_vote_prepared:
  "prepare_header 2 one_vote = Inr one_vote"
  by (simp add: prepare_header_def prune_recents_def limit_of_def one_vote_def)

theorem clique_recent_rules_agree_witness:
  "snap_reachable toy_crypto toy_arc one_vote \<and> prepare_header 2 one_vote = Inr one_vote \<and> is_signer one_vote 1
    \<and> apply_signed 2 1 (toy_header 2 0 nonceDropVote 1) one_vote = Inl errRecentlySigned \<and> recently_signed one_vote 2 1"
proof -
  have h: "2 = SNumber one_vote + 1" "unat (SNumber one_vote) + 1 < 2 ^ 64" "length (Signers one_vote) < 2 ^ 63"
    "is_signer one_vote 1" "2 \<ge> limit_of one_vote" "recently_signed one_vote 2 1"
    by (simp_all add: one_vote_def is_signer_def limit_of_def recently_signed_def)
  show ?thesis
    using clique_recent_rules_agree [OF one_vote_reachable h(1-3) one_vote_prepared h(4)]
      one_vote_reachable one_vote_prepared h by blast
qed

text \<open>C21: On the first blocks of a chain, below the signing limit, the subtraction in \<open>verifySeal\<close> wraps around
  and its test never refuses a recent signer, although \<open>apply\<close> refuses the very same header.\<close>

theorem clique_early_resign_missed:
  assumes "snap_reachable cr a snap" "number = SNumber snap + 1" "unat (SNumber snap) + 1 < 2 ^ 64"
    "length (Signers snap) < 2 ^ 63" "number < limit_of snap" "prepare_header number snap = Inr s1"
    "is_signer snap sg" "sg \<in> snd ` set (Recents snap)"
  shows "\<not> recently_signed snap number sg \<and> apply_signed number sg h s1 = Inl errRecentlySigned"
proof
  have r: "recents_ok (unat (SNumber snap)) snap" using snap_reachable_inv [OF assms(1)]
    by (simp add: snap_inv_def mid_ok_def)
  have lim: "unat (limit_of snap) = window snap" by (rule unat_limit) (use assms(4) in simp)
  have n: "unat number = unat (SNumber snap) + 1" unfolding assms(2) by (rule unat_Suc_u64 [OF assms(3)])
  have "unat number < window snap" using assms(5) lim by (metis word_less_nat_alt)
  moreover have "unat (number - limit_of snap) = 2 ^ 64 + unat number - window snap"
    using calculation lim by (simp add: unat_sub_if' not_le)
  ultimately have big: "unat (SNumber snap) < unat (number - limit_of snap)" using assms(4) n by simp
  have "\<not> seen > number - limit_of snap" if "(seen, x) \<in> set (Recents snap)" for seen x
  proof -
    have "seen \<in> set (gm_keys (Recents snap))" using that by force
    then have "unat seen \<le> unat (SNumber snap)" using r unfolding recents_ok_def by blast
    then show ?thesis using big by (simp add: word_less_nat_alt)
  qed
  then show "\<not> recently_signed snap number sg" unfolding recently_signed_def list_ex_iff by fastforce
  note pr = prepare_header_Inr [OF assms(6)]
  have "Recents s1 = Recents snap" using pr(2) assms(5) by (simp add: linorder_not_less [symmetric])
  then show "apply_signed number sg h s1 = Inl errRecentlySigned"
    using apply_signed_recent [of s1 sg number h] assms(7,8) pr(1) by (simp add: is_signer_def)
qed

definition five_signers :: snapshot where
  "five_signers = newSnapshot \<lparr>Period = 15, Epoch = 30000\<rparr> 0 0 [1, 2, 3, 4, 5]"

definition first_block :: snapshot where
  "first_block = \<lparr>config = \<lparr>Period = 15, Epoch = 30000\<rparr>, SNumber = 1, SHash = 2,
     Signers = [(1, ()), (2, ()), (3, ()), (4, ()), (5, ())], Recents = [(1, 1)], Votes = [], Tally = []\<rparr>"

lemma first_block_apply:
  "snap_apply toy_crypto toy_arc five_signers [toy_header 1 0 nonceDropVote 1] [] = (Inr first_block, [(2, 1)])"
  by (simp add: five_signers_def newSnapshot_def snapshot_eval toy_ecrecover_miss first_block_def nonceAuthVote_def nonceDropVote_def)

lemma first_block_reachable: "snap_reachable toy_crypto toy_arc first_block"
proof (rule snap_reachable.batch [OF _ first_block_apply])
  show "snap_reachable toy_crypto toy_arc five_signers" unfolding five_signers_def by (rule snap_reachable.checkpoint)
qed (simp_all add: five_signers_def newSnapshot_def)

theorem clique_early_resign_missed_witness:
  "snap_reachable toy_crypto toy_arc first_block \<and> 2 < limit_of first_block \<and> is_signer first_block 1
    \<and> \<not> recently_signed first_block 2 1
    \<and> apply_signed 2 1 (toy_header 2 0 nonceDropVote 1) first_block = Inl errRecentlySigned"
proof -
  have h: "2 = SNumber first_block + 1" "unat (SNumber first_block) + 1 < 2 ^ 64" "length (Signers first_block) < 2 ^ 63"
    "2 < limit_of first_block" "prepare_header 2 first_block = Inr first_block" "is_signer first_block 1"
    "1 \<in> snd ` set (Recents first_block)"
    by (simp_all add: first_block_def is_signer_def limit_of_def prepare_header_def prune_recents_def)
  show ?thesis using clique_early_resign_missed [OF first_block_reachable h] first_block_reachable h by blast
qed

section \<open>An honest signer's block is accepted\<close>

text \<open>The snapshot of the parent is in the cache of the engine.\<close>

definition cached :: "('c, 'r) clique_env \<Rightarrow> ('r \<Rightarrow> hash \<rightharpoonup> snapshot) \<Rightarrow> hash \<Rightarrow> snapshot \<Rightarrow> ('c, 'r) clique_st \<Rightarrow> bool" where
  "cached env rview h snap st \<longleftrightarrow> arc_ok (snap_arc env) rview \<and> rview (recents st) h = Some snap \<and> SHash snap = h"

lemma cached_snapshot:
  assumes "cached env rview h snap st"
  obtains st1 where "clique_snapshot env cfg number h parents st = Some (Inr snap, st1)" "cached env rview h snap st1"
    "signatures st1 = signatures st"
proof -
  obtain v r where g: "arc_Get (snap_arc env) (recents st) h = (v, r)" by fastforce
  have "fst (arc_Get (snap_arc env) (recents st) h) = rview (recents st) h"
    using assms by (simp add: cached_def arc_ok_def)
  then have v: "v = Some snap" using assms g by (simp add: cached_def)
  have ss: "search_step env cfg number h parents st = (Inr (Inl snap), st\<lparr>recents := r\<rparr>)"
    by (simp add: search_step_def g v)
  have se: "search_snapshot env cfg number h parents [] st = Some (Inr (snap, []), st\<lparr>recents := r\<rparr>)"
    by (subst search_snapshot.simps) (simp add: ss)
  let ?st1 = "st\<lparr>recents := arc_Add (snap_arc env) r h snap\<rparr>"
  have "finish_snapshot env snap [] (st\<lparr>recents := r\<rparr>) = (Inr snap, ?st1)"
    using assms by (simp add: finish_snapshot_def snap_apply_def cached_def)
  then have sn: "clique_snapshot env cfg number h parents st = Some (Inr snap, ?st1)"
    by (simp add: clique_snapshot_def se)
  have "cached env rview h snap ?st1" using assms by (simp add: cached_def arc_ok_def)
  then show thesis using that [OF sn] by simp
qed

text \<open>Signing and recovery fit together: a signature has 65 bytes and recovers to the address it is for.\<close>

definition sign_ok :: "crypto \<Rightarrow> (address \<Rightarrow> bytes \<Rightarrow> bytes option) \<Rightarrow> bool" where
  "sign_ok cr signFn \<longleftrightarrow> (\<forall>a msg sig. signFn a msg = Some sig \<longrightarrow> length sig = 65 \<and>
     (\<exists>x pub. Ecrecover_lib cr (keccak256 cr msg) sig = Some (x # pub) \<and> ucast (keccak256 cr pub) = a))"

text \<open>The chain indexes its headers by their hash and number.\<close>

definition chain_ok :: "('c, 'r) clique_env \<Rightarrow> bool" where
  "chain_ok env \<longleftrightarrow> (\<forall>h n p. GetHeader env h n = Some p \<longrightarrow>
     header_Hash (libs env) p = h \<and> Uint64 (Number p) = Some n)"

lemma length_address_bytes: "length (concat (map address_bytes as)) = 20 * length as"
  by (induction as) (simp_all add: address_bytes_def)

lemma choose_vote_frame [simp]:
  "ParentHash (choose_vote env c pick ck snap h) = ParentHash h" "Extra (choose_vote env c pick ck snap h) = Extra h"
  "Number (choose_vote env c pick ck snap h) = Number h"
  by (simp_all add: choose_vote_def)

text \<open>What \<open>Prepare\<close> leaves in the header.\<close>

lemma Prepare_header:
  assumes "cached env rview (ParentHash h) snap st" "Uint64 (Number h) = Some n"
    "Prepare env c now pick h st = Some ((None, h1), st1)" "range_ok (walk env)" "\<forall>k > 0. pick k < k"
  obtains parent turn where
    "Epoch (engine_config c) \<noteq> 0" "cached env rview (ParentHash h) snap st1" "signatures st1 = signatures st"
    "GetHeader env (ParentHash h) (n - 1) = Some parent" "\<not> Time parent + Period (engine_config c) > Time h1"
    "ParentHash h1 = ParentHash h" "Number h1 = Number h" "MixDigest h1 = 0"
    "inturn (walk env) snap (SNumber snap + 1) (signer c) = Some turn"
    "Difficulty h1 = Some (if turn then diffInTurn else diffNoTurn)"
    "Nonce h1 \<in> {nonceAuthVote, nonceDropVote}"
    "n mod Epoch (engine_config c) = 0 \<longrightarrow> Coinbase h1 = 0 \<and> Nonce h1 = nonceDropVote"
    "\<exists>vanity. length vanity = 32 \<and> Extra h1 = vanity @ (if n mod Epoch (engine_config c) = 0
        then concat (map address_bytes (signers (walk env) snap)) else []) @ replicate 65 0"
proof -
  let ?h0 = "h\<lparr>Coinbase := 0, Nonce := replicate 8 0\<rparr>"
  obtain st' where sn: "clique_snapshot env (engine_config c) (n - 1) (ParentHash h) [] st = Some (Inr snap, st')"
    and ca: "cached env rview (ParentHash h) snap st'" "signatures st' = signatures st"
    using cached_snapshot [OF assms(1)] by metis
  define ck where "ck = (n mod Epoch (engine_config c) = 0)"
  define hv where "hv = choose_vote env c pick ck snap ?h0"
  have cv: "ParentHash hv = ParentHash h" "Number hv = Number h" "Extra hv = Extra h" "MixDigest hv = MixDigest h"
    "Nonce hv \<in> {nonceAuthVote, nonceDropVote}" "ck \<longrightarrow> Coinbase hv = 0 \<and> Nonce hv = nonceDropVote"
    by (auto simp: hv_def choose_vote_def nonceDropVote_def)
  define x2 where "x2 = take extraVanity (if length (Extra h) < extraVanity
      then Extra h @ replicate (extraVanity - length (Extra h)) 0 else Extra h)"
  have lx2: "length x2 = 32" by (simp add: x2_def extraVanity_def)
  define xe where "xe = prepare_extra (walk env) ck snap (Extra h)"
  have xe: "xe = x2 @ (if ck then concat (map address_bytes (signers (walk env) snap)) else []) @ replicate 65 0"
    by (simp add: xe_def prepare_extra_def x2_def extraSeal_def)
  have e0: "Epoch (engine_config c) \<noteq> 0" using assms(2,3) sn by (auto simp: Prepare_def)
  obtain turn where turn: "inturn (walk env) snap (SNumber snap + 1) (signer c) = Some turn"
    using assms(2,3) sn e0 by (auto simp: Prepare_def CalcDifficulty_def split: option.splits)
  have cd: "CalcDifficulty (walk env) snap (signer c) = Inr (if turn then diffInTurn else diffNoTurn)"
    by (simp add: CalcDifficulty_def turn)
  let ?h3 = "hv\<lparr>Difficulty := Some (if turn then diffInTurn else diffNoTurn), Extra := xe, MixDigest := 0\<rparr>"
  have P: "Prepare env c now pick h st =
      (case GetHeader env (ParentHash h) (n - 1) of None \<Rightarrow> Some ((Some ErrUnknownAncestor, ?h3), st')
       | Some parent \<Rightarrow> let t = Time parent + Period (engine_config c)
           in Some ((None, ?h3\<lparr>Time := (if t < now then now else t)\<rparr>), st'))"
    unfolding Prepare_def using assms(2) sn e0 cd
    by (cases "GetHeader env (ParentHash h) (n - 1)") (simp_all add: ck_def hv_def xe_def)
  obtain parent where par: "GetHeader env (ParentHash h) (n - 1) = Some parent"
    using assms(3) unfolding P by (cases "GetHeader env (ParentHash h) (n - 1)") auto
  define t where "t = Time parent + Period (engine_config c)"
  have h1: "h1 = ?h3\<lparr>Time := (if t < now then now else t)\<rparr>" and st1: "st1 = st'"
    using assms(3) unfolding P by (auto simp: par t_def)
  show thesis
  proof (rule that)
    show "\<exists>vanity. length vanity = 32 \<and> Extra h1 = vanity @ (if n mod Epoch (engine_config c) = 0
        then concat (map address_bytes (signers (walk env) snap)) else []) @ replicate 65 0"
      using lx2 by (intro exI [of _ x2]) (simp add: h1 ck_def [symmetric] xe)
    show "\<not> Time parent + Period (engine_config c) > Time h1"
      unfolding t_def [symmetric] by (auto simp: h1)
  qed (use e0 ca st1 par turn cv in \<open>auto simp: h1 ck_def\<close>)
qed

text \<open>What \<open>Seal\<close> does to a block whose snapshot is cached.\<close>

lemma Seal_header:
  assumes "cached env rview (ParentHash hdr) snap st" "block_Header b = hdr" "Uint64 (Number hdr) = Some n" "n \<noteq> 0"
    "Seal env c signFn now rnd b st = Some (Sealed delay b', st')"
  obtains sig where "cached env rview (ParentHash hdr) snap st'" "signatures st' = signatures st"
    "is_signer snap (signer c)" "\<not> seal_must_wait snap n (signer c)"
    "signFn (signer c) (rlp_header (libs env) (hdr\<lparr>Extra := take (length (Extra hdr) - 65) (Extra hdr)\<rparr>)) = Some sig"
    "bheader b' = hdr\<lparr>Extra := put_seal (Extra hdr) sig\<rparr>"
proof -
  obtain st1 where sn: "clique_snapshot env (engine_config c) (n - 1) (ParentHash hdr) [] st = Some (Inr snap, st1)"
    and ca: "cached env rview (ParentHash hdr) snap st1" "signatures st1 = signatures st"
    using cached_snapshot [OF assms(1)] by metis
  show thesis
    using assms(2-5) sn ca that
    by (auto simp: Seal_def encodeSigHeader_def WithSeal_def split: if_splits option.splits)
qed

lemma put_seal_same:
  assumes "length sig = 65" "65 \<le> length extra"
  shows "put_seal extra sig = take (length extra - 65) extra @ sig"
  using assms by (simp add: put_seal_def extraSeal_def)

text \<open>The seal on a header recovers to the signer.\<close>

lemma recover_sealed:
  assumes "sign_ok cr signFn" "signFn a (rlp_header cr (h\<lparr>Extra := take (length (Extra h) - 65) (Extra h)\<rparr>)) = Some sig"
    "65 \<le> length (Extra h)" "h' = h\<lparr>Extra := put_seal (Extra h) sig\<rparr>"
  shows "recover cr h' = Inr a"
proof -
  let ?msg = "rlp_header cr (h\<lparr>Extra := take (length (Extra h) - 65) (Extra h)\<rparr>)"
  have l: "length sig = 65" using assms(1,2) by (auto simp: sign_ok_def)
  obtain x pub where r: "Ecrecover_lib cr (keccak256 cr ?msg) sig = Some (x # pub)" "ucast (keccak256 cr pub) = a"
    using assms(1,2) unfolding sign_ok_def by blast
  have e: "Extra h' = take (length (Extra h) - 65) (Extra h) @ sig" using put_seal_same [OF l assms(3)] assms(4) by simp
  have m: "encodeSigHeader cr h' = Inr ?msg" using assms(3) l unfolding encodeSigHeader_def e by (simp add: assms(4))
  show ?thesis using r l by (simp add: recover_def SealHash_def m e extraSeal_def)
qed

lemma wait_covers_recent: "\<not> seal_must_wait snap n a \<Longrightarrow> \<not> recently_signed snap n a"
  by (auto simp: seal_must_wait_def recently_signed_def list_ex_iff)

lemma Finalize_header:
  assumes "Finalize cr dt dr bloom root h1 txs receipts = (h2, b)" "Number h1 \<noteq> None" "Difficulty h1 \<noteq> None"
  shows "block_Header b = bheader b" "ParentHash (bheader b) = ParentHash h1" "Number (bheader b) = Number h1"
    "MixDigest (bheader b) = MixDigest h1" "Difficulty (bheader b) = Difficulty h1" "Nonce (bheader b) = Nonce h1"
    "Coinbase (bheader b) = Coinbase h1" "Extra (bheader b) = Extra h1" "Time (bheader b) = Time h1"
    "UncleHash (bheader b) = CalcUncleHash cr []"
proof -
  obtain n d where nd: "Number h1 = Some n" "Difficulty h1 = Some d" using assms(2,3) by auto
  have b: "b = NewBlock cr dt dr bloom (h1\<lparr>Root := root, UncleHash := CalcUncleHash cr []\<rparr>) txs [] receipts"
    using assms(1) by (auto simp: Finalize_def)
  show "block_Header b = bheader b" "ParentHash (bheader b) = ParentHash h1" "Number (bheader b) = Number h1"
    "MixDigest (bheader b) = MixDigest h1" "Difficulty (bheader b) = Difficulty h1" "Nonce (bheader b) = Nonce h1"
    "Coinbase (bheader b) = Coinbase h1" "Extra (bheader b) = Extra h1" "Time (bheader b) = Time h1"
    "UncleHash (bheader b) = CalcUncleHash cr []"
    unfolding b by (simp_all add: NewBlock_def block_Header_def CopyHeader_def CalcUncleHash_def nd)
qed

text \<open>C5: A block that an engine itself prepares, finalises and seals on a cached parent snapshot passes the
  engine's \<open>verifyHeader\<close> once its time has come: right vote and beneficiary, well-formed extra-data with the
  checkpoint's signers, right difficulty, authorised and not recent signer.\<close>

theorem clique_honest_block_accepted:
  assumes "arc_ok (sig_arc env) sview" "collision_free (libs env)" "sigs_ok (libs env) sview (signatures st)"
    "cached env rview (ParentHash h) snap st" "Uint64 (Number h) = Some n" "n \<noteq> 0" "SNumber snap = n - 1"
    "Prepare env c now pick h st = Some ((None, h1), st1)" "range_ok (walk env)" "\<forall>k > 0. pick k < k"
    "Finalize (libs env) dt dr bloom root h1 txs receipts = (h2, b)"
    "Seal env c signFn now2 rnd b st1 = Some (Sealed delay b', st2)"
    "sign_ok (libs env) signFn" "chain_ok env" "Time (bheader b') \<le> now3"
  shows "\<exists>st3. verifyHeader env c now3 (bheader b') [] st2 = Some (Inr (), st3)"
proof (rule Prepare_header [OF assms(4,5,8-10)])
  fix parent turn
  assume ep: "Epoch (engine_config c) \<noteq> 0" and ca1: "cached env rview (ParentHash h) snap st1" and s1: "signatures st1 = signatures st"
    and par: "GetHeader env (ParentHash h) (n - 1) = Some parent" "\<not> Time parent + Period (engine_config c) > Time h1"
    and h1: "ParentHash h1 = ParentHash h" "Number h1 = Number h" "MixDigest h1 = 0"
    and turn: "inturn (walk env) snap (SNumber snap + 1) (signer c) = Some turn"
    and dif: "Difficulty h1 = Some (if turn then diffInTurn else diffNoTurn)"
    and nc: "Nonce h1 \<in> {nonceAuthVote, nonceDropVote}"
    and ck: "n mod Epoch (engine_config c) = 0 \<longrightarrow> Coinbase h1 = 0 \<and> Nonce h1 = nonceDropVote"
    and ex: "\<exists>vanity. length vanity = 32 \<and> Extra h1 = vanity @ (if n mod Epoch (engine_config c) = 0
        then concat (map address_bytes (signers (walk env) snap)) else []) @ replicate 65 0"
  define hb where "hb = bheader b"
  have hb: "block_Header b = hb" "ParentHash hb = ParentHash h" "Number hb = Number h" "MixDigest hb = 0"
    "Difficulty hb = Difficulty h1" "Nonce hb = Nonce h1" "Coinbase hb = Coinbase h1" "Extra hb = Extra h1" "Time hb = Time h1"
    "UncleHash hb = CalcUncleHash (libs env) []"
    using Finalize_header [OF assms(11)] assms(5) h1 dif by (auto simp: hb_def Uint64_def)
  have num: "Uint64 (Number hb) = Some n" using assms(5) hb(3) by simp
  have ca1': "cached env rview (ParentHash hb) snap st1" using ca1 by (simp add: hb(2))
  obtain sig where ca2: "cached env rview (ParentHash hb) snap st2" "signatures st2 = signatures st1"
    and auth: "is_signer snap (signer c)" "\<not> seal_must_wait snap n (signer c)"
    and sg: "signFn (signer c) (rlp_header (libs env) (hb\<lparr>Extra := take (length (Extra hb) - 65) (Extra hb)\<rparr>)) = Some sig"
    and b': "bheader b' = hb\<lparr>Extra := put_seal (Extra hb) sig\<rparr>"
    by (rule Seal_header [OF ca1' hb(1) num assms(6,12)])
  define hs where "hs = bheader b'"
  obtain v where v: "length v = 32" "Extra hb = v @ (if n mod Epoch (engine_config c) = 0
      then concat (map address_bytes (signers (walk env) snap)) else []) @ replicate 65 0" using ex hb(8) by auto
  have sl: "length sig = 65" using assms(13) sg by (auto simp: sign_ok_def)
  have ext: "Extra hs = v @ (if n mod Epoch (engine_config c) = 0
      then concat (map address_bytes (signers (walk env) snap)) else []) @ sig"
    using put_seal_same [OF sl, of "Extra hb"] v by (simp add: hs_def b')
  have f: "Number hs = Number h" "ParentHash hs = ParentHash h" "Time hs = Time h1" "Difficulty hs = Difficulty h1"
    "MixDigest hs = 0" "UncleHash hs = CalcUncleHash (libs env) []" "Nonce hs = Nonce h1" "Coinbase hs = Coinbase h1"
    using hb by (simp_all add: hs_def b')
  have rec: "recover (libs env) hs = Inr (signer c)"
    by (rule recover_sealed [OF assms(13) sg]) (simp_all add: v hs_def b')
  have basic: "basic_checks (libs env) c now3 n hs = Inr ()"
    using assms(15) nc ck ep dif v(1) sl
    by (auto simp: basic_checks_def f ext hs_def [symmetric] extraVanity_def extraSeal_def addressLength_def length_address_bytes)
  obtain st3 where sn3: "clique_snapshot env (engine_config c) (n - 1) (ParentHash h) [] st2 = Some (Inr snap, st3)"
    and ca3: "cached env rview (ParentHash h) snap st3" "signatures st3 = signatures st2"
    using cached_snapshot [OF ca2(1)] unfolding hb(2) by metis
  obtain st4 where sn4: "clique_snapshot env (engine_config c) (n - 1) (ParentHash h) [] st3 = Some (Inr snap, st4)"
    and ca4: "signatures st4 = signatures st3" using cached_snapshot [OF ca3(1)] by metis
  obtain r c5 where ec: "ecrecover (libs env) (sig_arc env) hs (signatures st4) = (r, c5)" by fastforce
  have r: "r = Inr (signer c)"
    using ecrecover_correct(1) [OF assms(1,2) _ ec] assms(3) ca4 ca3(2) ca2(2) s1 rec by simp
  have pn: "header_Hash (libs env) parent = ParentHash h" "Uint64 (Number parent) = Some (n - 1)"
    using assms(14) par(1) by (auto simp: chain_ok_def)
  have tn: "inturn (walk env) snap n (signer c) = Some turn" using turn assms(7) by simp
  have seal: "verifySeal env c hs [] st3 = Some (Inr (), st4\<lparr>signatures := c5\<rparr>)"
    using assms(5,6) auth(1) wait_covers_recent [OF auth(2)] tn dif
    by (simp add: verifySeal_def f sn4 clique_Author_def ec r)
  have mid: "take (length (Extra hs) - extraSeal - extraVanity) (drop extraVanity (Extra hs))
      = (if n mod Epoch (engine_config c) = 0 then concat (map address_bytes (signers (walk env) snap)) else [])"
    using v(1) sl unfolding ext by (simp add: extraSeal_def extraVanity_def)
  have "verifyCascadingFields env c hs [] st2 = Some (Inr (), st4\<lparr>signatures := c5\<rparr>)"
    using assms(5,6) par ep pn mid sl v(1)
    by (simp add: verifyCascadingFields_def f sn3 seal) (simp add: ext extraSeal_def extraVanity_def)
  then show ?thesis using assms(5) basic by (simp add: verifyHeader_def f hs_def [symmetric])
qed

text \<open>A run of it: the second of three signers makes block 1.\<close>

definition toy_engine :: clique where
  "toy_engine = \<lparr>engine_config = \<lparr>Period = 15, Epoch = 30000\<rparr>, proposals = [], signer = 2, fakeDiff = False\<rparr>"

definition genesis_snap :: snapshot where
  "genesis_snap = newSnapshot \<lparr>Period = 15, Epoch = 30000\<rparr> 0 8 [1, 2, 3]"

definition toy_state :: "((hash \<times> address) list, (hash \<times> snapshot) list) clique_st" where
  "toy_state = \<lparr>recents = [(8, genesis_snap)], signatures = [], db = None\<rparr>"

definition toy_sign :: "address \<Rightarrow> bytes \<Rightarrow> bytes option" where
  "toy_sign a msg = (if a < 256 then Some (replicate 64 0 @ [ucast a]) else None)"

definition toy_draft :: header where
  "toy_draft = (toy_header 1 0 nonceDropVote 0)\<lparr>ParentHash := 8, Extra := []\<rparr>"

lemma genesis_snap_eq:
  "genesis_snap = \<lparr>config = \<lparr>Period = 15, Epoch = 30000\<rparr>, SNumber = 0, SHash = 8,
     Signers = [(1, ()), (2, ()), (3, ())], Recents = [], Votes = [], Tally = []\<rparr>"
  by (simp add: genesis_snap_def newSnapshot_def)

lemma toy_sign_ok: "sign_ok toy_crypto toy_sign"
proof -
  have "ucast (ucast (ucast a :: byte) :: hash) = (a :: address)" if "a < 256" for a :: address
  proof -
    have "unat a < 2 ^ 8" using that by (simp add: word_less_nat_alt)
    then have "unat (ucast (ucast (ucast a :: byte) :: hash) :: address) = unat a"
      by (simp add: unsigned_ucast_eq unsigned_take_bit_eq take_bit_nat_eq_self)
    then show ?thesis by (rule unsigned_word_eqI)
  qed
  then show ?thesis by (auto simp: sign_ok_def toy_sign_def toy_crypto_def)
qed

lemma toy_chain_ok: "chain_ok toy_env"
  by (auto simp: chain_ok_def toy_env_def toy_header_def header_Hash_def toy_crypto_def Uint64_def)

lemma toy_snapshot:
  assumes "map_of (recents st) 8 = Some genesis_snap"
  shows "clique_snapshot toy_env cfg number 8 [] st = Some (Inr genesis_snap, st\<lparr>recents := (8, genesis_snap) # recents st\<rparr>)"
proof -
  have s: "search_step toy_env cfg number 8 [] st = (Inr (Inl genesis_snap), st)"
    using assms by (simp add: search_step_def toy_env_def toy_arc_def)
  have "search_snapshot toy_env cfg number 8 [] [] st = Some (Inr (genesis_snap, []), st)"
    by (subst search_snapshot.simps) (simp add: s)
  then show ?thesis
    by (simp add: clique_snapshot_def finish_snapshot_def snap_apply_def genesis_snap_eq toy_env_def toy_arc_def)
qed

lemma toy_turn: "inturn rev genesis_snap 1 2 = Some True"
  by (simp add: inturn_def signers_def genesis_snap_eq word_le_nat_alt)

lemma toy_prepare: "\<exists>h1 st1. Prepare toy_env toy_engine 20 (\<lambda>_. 0) toy_draft toy_state = Some ((None, h1), st1)
    \<and> map_of (recents st1) 8 = Some genesis_snap \<and> Number h1 = Some 1 \<and> ParentHash h1 = 8 \<and> length (Extra h1) = 97
    \<and> Difficulty h1 = Some diffInTurn \<and> Time h1 = 20"
proof -
  have sn: "clique_snapshot toy_env cfg number 8 [] toy_state
      = Some (Inr genesis_snap, toy_state\<lparr>recents := (8, genesis_snap) # recents toy_state\<rparr>)" for cfg number
    by (rule toy_snapshot) (simp add: toy_state_def)
  have cd: "CalcDifficulty (walk toy_env) genesis_snap (signer toy_engine) = Inr diffInTurn"
    using toy_turn by (simp add: CalcDifficulty_def toy_env_def toy_engine_def genesis_snap_eq)
  show ?thesis
    unfolding Prepare_def
    by (simp add: toy_draft_def sn cd) (simp add: toy_engine_def toy_env_def toy_header_def
        choose_vote_def prepare_extra_def extraVanity_def extraSeal_def toy_state_def)
qed

lemma toy_seal:
  assumes "map_of (recents st) 8 = Some genesis_snap" "block_Header b = bheader b" "Number (bheader b) = Some 1"
    "ParentHash (bheader b) = 8" "length (Extra (bheader b)) = 97"
  shows "\<exists>delay b' st2. Seal toy_env toy_engine toy_sign 20 (\<lambda>_. 0) b st = Some (Sealed delay b', st2)
     \<and> Time (bheader b') = Time (bheader b)"
  using assms toy_snapshot [OF assms(1)]
  by (simp add: Seal_def is_signer_def seal_must_wait_def genesis_snap_eq toy_engine_def encodeSigHeader_def toy_sign_def WithSeal_def)

theorem clique_honest_block_accepted_witness:
  "\<exists>h1 st1 h2 b delay b' st2. Prepare toy_env toy_engine 20 (\<lambda>_. 0) toy_draft toy_state = Some ((None, h1), st1)
    \<and> Finalize toy_crypto (\<lambda>_. 1) (\<lambda>_ :: unit list. 2) (\<lambda>_. []) 5 h1 [] [] = (h2, b)
    \<and> Seal toy_env toy_engine toy_sign 20 (\<lambda>_. 0) b st1 = Some (Sealed delay b', st2)
    \<and> (\<exists>st3. verifyHeader toy_env toy_engine 20 (bheader b') [] st2 = Some (Inr (), st3))"
proof -
  obtain h1 st1 where P: "Prepare toy_env toy_engine 20 (\<lambda>_. 0) toy_draft toy_state = Some ((None, h1), st1)"
    and p: "map_of (recents st1) 8 = Some genesis_snap" "Number h1 = Some 1" "ParentHash h1 = 8" "length (Extra h1) = 97"
      "Difficulty h1 = Some diffInTurn" "Time h1 = 20" using toy_prepare by blast
  obtain h2 b where F: "Finalize toy_crypto (\<lambda>_. 1) (\<lambda>_ :: unit list. 2) (\<lambda>_. []) 5 h1 [] [] = (h2, b)" by fastforce
  have nn: "Number h1 \<noteq> None" "Difficulty h1 \<noteq> None" by (simp_all add: p)
  note fh = Finalize_header [OF F nn]
  obtain delay b' st2 where S: "Seal toy_env toy_engine toy_sign 20 (\<lambda>_. 0) b st1 = Some (Sealed delay b', st2)"
    and t: "Time (bheader b') = 20" using toy_seal [OF p(1) fh(1)] fh p by auto
  have e: "libs toy_env = toy_crypto" "sig_arc toy_env = toy_arc" "snap_arc toy_env = toy_arc" "walk toy_env = rev"
    by (simp_all add: toy_env_def)
  have ca: "cached toy_env map_of (ParentHash toy_draft) genesis_snap toy_state"
    using toy_arc_ok by (simp add: cached_def e toy_draft_def toy_state_def genesis_snap_eq)
  have "\<exists>st3. verifyHeader toy_env toy_engine 20 (bheader b') [] st2 = Some (Inr (), st3)"
  proof (rule clique_honest_block_accepted [OF _ _ _ ca _ _ _ P _ _ _ S])
    show "Finalize (libs toy_env) (\<lambda>_. 1) (\<lambda>_ :: unit list. 2) (\<lambda>_. []) 5 h1 [] [] = (h2, b)" by (simp add: e F)
  qed (use toy_arc_ok toy_collision_free toy_sigs_ok toy_sign_ok toy_chain_ok range_ok_rev t in
      \<open>simp_all add: e toy_draft_def toy_header_def toy_state_def genesis_snap_eq\<close>)
  then show ?thesis using P F S by blast
qed

section \<open>Checkpoint signers\<close>

lemma bytes_address_bytes: "bytes_address (address_bytes a) = a"
proof -
  have "take_bit 160 a = a" by transfer simp
  then show ?thesis unfolding bytes_address_def address_bytes_def fold_be_bytes by simp
qed

lemma nth_chunk:
  assumes "\<forall>x \<in> set xs. length (f x) = k" "i < length xs"
  shows "take k (drop (i * k) (concat (map f xs) @ rest)) = f (xs ! i)"
  using assms
proof (induction xs arbitrary: i)
  case (Cons x xs)
  show ?case
  proof (cases i)
    case (Suc j)
    have "drop (k + j * k) (f x @ concat (map f xs) @ rest) = drop (j * k) (concat (map f xs) @ rest)"
      using Cons.prems(1) by simp
    then show ?thesis using Cons Suc by simp
  qed (use Cons.prems in simp)
qed simp

text \<open>The signers a checkpoint header carries are read back exactly: decoding the extra-data that
  \<open>Prepare\<close> writes gives the signers of the snapshot, in ascending order.\<close>

theorem checkpoint_signers_roundtrip:
  "decode_signers (prepare_extra rng True snap extra) = Some (signers rng snap)"
proof -
  define v where "v = take extraVanity (if length extra < extraVanity
      then extra @ replicate (extraVanity - length extra) 0 else extra)"
  let ?sgs = "signers rng snap" and ?seal = "replicate extraSeal (0 :: byte)"
  let ?body = "concat (map address_bytes ?sgs)"
  have lv: "length v = extraVanity" by (simp add: v_def)
  have e: "prepare_extra rng True snap extra = v @ ?body @ ?seal" by (simp add: prepare_extra_def v_def)
  have l: "length (v @ ?body @ ?seal) = extraVanity + addressLength * length ?sgs + extraSeal"
    by (simp add: lv length_address_bytes addressLength_def)
  have n: "(length (v @ ?body @ ?seal) - extraVanity - extraSeal) div addressLength = length ?sgs"
    unfolding l by (simp add: addressLength_def)
  have "bytes_address (take addressLength (drop (extraVanity + i * addressLength) (v @ ?body @ ?seal))) = ?sgs ! i"
    if "i < length ?sgs" for i
  proof -
    have "drop (extraVanity + i * addressLength) (v @ ?body @ ?seal) = drop (i * addressLength) (?body @ ?seal)"
      by (simp add: lv)
    moreover have "take addressLength (drop (i * addressLength) (?body @ ?seal)) = address_bytes (?sgs ! i)"
      by (rule nth_chunk) (use that in \<open>simp_all add: address_bytes_def addressLength_def\<close>)
    ultimately show ?thesis by (simp add: bytes_address_bytes)
  qed
  then have "map (\<lambda>i. bytes_address (take addressLength (drop (extraVanity + i * addressLength) (v @ ?body @ ?seal))))
      [0..<length ?sgs] = ?sgs" by (intro nth_equalityI) simp_all
  moreover have "\<not> length (v @ ?body @ ?seal) < extraVanity + extraSeal" unfolding l by simp
  ultimately show ?thesis unfolding decode_signers_def e n by simp
qed

end
