(* ===== verification/Aura_Engine.thy ===== *)
theory Aura_Engine
  imports Clique_Rules
begin

text \<open>
  The Aura engine: \<open>consensus/aura/aura.go\<close>, \<open>snapshot.go\<close> and \<open>api.go\<close>.

  The authorities take turns by time. The snapshots have the type and the helper methods of Clique's (the
  Go files repeat them word for word), so this theory reuses those definitions and models what differs:
  \<open>apply\<close>, which no longer casts votes, and \<open>snapshot\<close>, which looks in the cache only. The environment and
  the state of the engine are those of \<open>Clique_Engine\<close>.
\<close>

record auraConfig =
  aPeriod :: u64
  aEpoch :: u64
  Authorities :: "address list"
  aDifficulty :: "bigint option"

record aura =
  aura_config :: auraConfig
  aura_proposals :: "(address, bool) gomap"
  aura_signer :: address

definition aura_New :: "auraConfig \<Rightarrow> aura" where
  "aura_New cfg =
     \<lparr>aura_config = (if aEpoch cfg = 0 then cfg\<lparr>aEpoch := epochLength\<rparr> else cfg), aura_proposals = [], aura_signer = 0\<rparr>"

definition aura_Authorize :: "aura \<Rightarrow> address \<Rightarrow> aura" where
  "aura_Authorize c a = c\<lparr>aura_signer := a\<rparr>"

section \<open>Turns\<close>

text \<open>Whose turn it is at a time; \<^const>\<open>None\<close> is the panic of a division by a zero period or by zero
  authorities (an index out of range cannot happen then).\<close>

definition aura_inTurn :: "auraConfig \<Rightarrow> address \<Rightarrow> u64 \<Rightarrow> bool option" where
  "aura_inTurn cfg sg time =
     (if aPeriod cfg = 0 \<or> (of_nat (length (Authorities cfg)) :: u64) = 0 then None
      else let step = time div aPeriod cfg;
               authNum = of_nat (length (Authorities cfg));
               turn0 = step mod authNum;
               turn = (if time mod aPeriod cfg = 0 then (if turn0 = 0 then authNum else turn0) - 1 else turn0)
           in if unat turn < length (Authorities cfg) then Some (sg = Authorities cfg ! unat turn) else None)"

section \<open>Verification\<close>

definition aura_verifySeal ::
  "('c, 'r) clique_env \<Rightarrow> aura \<Rightarrow> header \<Rightarrow> ('c, 'r) clique_st \<Rightarrow> unit res \<times> ('c, 'r) clique_st" where
  "aura_verifySeal env c h st =
     (case Uint64 (Number h) of
        None \<Rightarrow> (Inl Panic, st)
      | Some number \<Rightarrow>
          if number = 0 then (Inl errUnknownBlock, st)
          else (case clique_Author env h st of
                  (Inl e, st1) \<Rightarrow> (Inl e, st1)
                | (Inr sg, st1) \<Rightarrow>
                    (case aura_inTurn (aura_config c) sg (Time h) of
                       None \<Rightarrow> Inl Panic | Some t \<Rightarrow> if \<not> t then Inl errUnauthorized else Inr (), st1)))"

definition aura_verifyCascadingFields ::
  "('c, 'r) clique_env \<Rightarrow> aura \<Rightarrow> header \<Rightarrow> header list \<Rightarrow> ('c, 'r) clique_st \<Rightarrow> unit res \<times> ('c, 'r) clique_st" where
  "aura_verifyCascadingFields env c h parents st =
     (case Uint64 (Number h) of
        None \<Rightarrow> (Inl Panic, st)
      | Some number \<Rightarrow>
          if number = 0 then (Inr (), st)
          else case (if parents \<noteq> [] then Some (last parents) else GetHeader env (ParentHash h) (number - 1)) of
            None \<Rightarrow> (Inl ErrUnknownAncestor, st)
          | Some parent \<Rightarrow>
              (case Uint64 (Number parent) of
                 None \<Rightarrow> (Inl Panic, st)
               | Some pn \<Rightarrow>
                  if pn \<noteq> number - 1 \<or> header_Hash (libs env) parent \<noteq> ParentHash h then (Inl ErrUnknownAncestor, st)
                  else if Time parent + aPeriod (aura_config c) > Time h then (Inl ErrInvalidTimestamp, st)
                  else aura_verifySeal env c h st))"

text \<open>The difficulty is compared with the one of the chain's configuration, \<open>chain.Config().Aura\<close>.\<close>

definition aura_verifyHeader ::
  "('c, 'r) clique_env \<Rightarrow> bigint option \<Rightarrow> aura \<Rightarrow> u64 \<Rightarrow> header \<Rightarrow> header list \<Rightarrow> ('c, 'r) clique_st \<Rightarrow>
     unit res \<times> ('c, 'r) clique_st" where
  "aura_verifyHeader env chainDifficulty c now h parents st =
     (case Uint64 (Number h) of
        None \<Rightarrow> (Inl errUnknownBlock, st)
      | Some number \<Rightarrow>
          let signersBytes = int (length (Extra h)) - int extraVanity - int extraSeal in
          if Time h > now then (Inl ErrFutureBlock, st)
          else if signersBytes \<noteq> 0 then (Inl errInvalidExtraData, st)
          else if MixDigest h \<noteq> 0 then (Inl errInvalidMixDigest, st)
          else if UncleHash h \<noteq> CalcUncleHash (libs env) [] then (Inl errInvalidUncleHash, st)
          else if number > 0 \<and> Difficulty h = None then (Inl errInvalidDifficulty, st)
          else if number > 0 \<and> chainDifficulty = None then (Inl Panic, st)
          else if number > 0 \<and> Difficulty h \<noteq> chainDifficulty then (Inl errInvalidDifficulty, st)
          else aura_verifyCascadingFields env c h parents st)"

section \<open>Preparing and sealing\<close>

definition aura_Prepare ::
  "('c, 'r) clique_env \<Rightarrow> bigint option \<Rightarrow> aura \<Rightarrow> u64 \<Rightarrow> header \<Rightarrow> error option \<times> header" where
  "aura_Prepare env chainDifficulty c now h =
     (let pad = (\<lambda>x. if length x < extraVanity then x @ replicate (extraVanity - length x) 0 else x);
          h1 = h\<lparr>Coinbase := 0, Nonce := replicate 8 0, Difficulty := chainDifficulty,
                 Extra := take extraVanity (pad (Extra h))\<rparr>
      in case Uint64 (Number h1) of
           None \<Rightarrow> (Some Panic, h1)
         | Some number \<Rightarrow>
             let h2 = h1\<lparr>Extra := take extraVanity (pad (Extra h1)) @ replicate extraSeal 0, MixDigest := 0\<rparr>
             in case GetHeader env (ParentHash h2) (number - 1) of
                  None \<Rightarrow> (Some ErrUnknownAncestor, h2)
                | Some parent \<Rightarrow>
                    let t = Time parent + aPeriod (aura_config c) in (None, h2\<lparr>Time := (if t < now then now else t)\<rparr>))"

definition aura_Seal ::
  "('c, 'r) clique_env \<Rightarrow> aura \<Rightarrow> (address \<Rightarrow> bytes \<Rightarrow> bytes option) \<Rightarrow> u64 \<Rightarrow> block \<Rightarrow> seal_result" where
  "aura_Seal env c signFn now b =
     (let h = block_Header b in
      case Uint64 (Number h) of
        None \<Rightarrow> SealError Panic
      | Some number \<Rightarrow>
          if number = 0 then SealError errUnknownBlock
          else if aPeriod (aura_config c) = 0 \<and> length (transactions b) = 0 then SealError errWaitTransactions
          else case aura_inTurn (aura_config c) (aura_signer c) (Time h) of
            None \<Rightarrow> SealError Panic
          | Some t \<Rightarrow>
              if \<not> t then SealError errUnauthorized
              else
                let delay = (int (unat (Time h)) - int (unat now)) * 10 ^ 9
                in case encodeSigHeader (libs env) h of
                     Inl e \<Rightarrow> SealError e
                   | Inr msg \<Rightarrow>
                       (case signFn (aura_signer c) msg of
                          None \<Rightarrow> SealError errSign
                        | Some sig \<Rightarrow> Sealed delay (WithSeal b (h\<lparr>Extra := put_seal (Extra h) sig\<rparr>))))"

section \<open>Snapshots\<close>

text \<open>\<open>apply\<close> of the Aura snapshots: the vote of the header is not cast; both refusals are one error.\<close>

definition aura_apply_signed :: "u64 \<Rightarrow> address \<Rightarrow> header \<Rightarrow> snapshot \<Rightarrow> snapshot res" where
  "aura_apply_signed number sg h s =
     (if \<not> is_signer s sg then Inl errUnauthorized
      else if list_ex (\<lambda>(_, recent). recent = sg) (Recents s) then Inl errUnauthorized
      else Inr (settle number (Coinbase h)
                  (discard_previous sg (Coinbase h) (s\<lparr>Recents := gm_put (Recents s) number sg\<rparr>))))"

definition aura_apply_header ::
  "crypto \<Rightarrow> ('c, address) arc \<Rightarrow> header \<Rightarrow> snapshot \<Rightarrow> 'c \<Rightarrow> snapshot res \<times> 'c" where
  "aura_apply_header cr a h s c =
     (case Uint64 (Number h) of
        None \<Rightarrow> (Inl Panic, c)
      | Some number \<Rightarrow>
          (case prepare_header number s of
             Inl e \<Rightarrow> (Inl e, c)
           | Inr s1 \<Rightarrow>
               (case ecrecover cr a h c of
                  (Inl e, c1) \<Rightarrow> (Inl e, c1)
                | (Inr sg, c1) \<Rightarrow> (aura_apply_signed number sg h s1, c1))))"

fun aura_apply_loop ::
  "crypto \<Rightarrow> ('c, address) arc \<Rightarrow> header list \<Rightarrow> snapshot \<Rightarrow> 'c \<Rightarrow> snapshot res \<times> 'c" where
  "aura_apply_loop cr a [] s c = (Inr s, c)"
| "aura_apply_loop cr a (h # hs) s c =
     (case aura_apply_header cr a h s c of
        (Inl e, c1) \<Rightarrow> (Inl e, c1)
      | (Inr s1, c1) \<Rightarrow> aura_apply_loop cr a hs s1 c1)"

definition aura_apply ::
  "crypto \<Rightarrow> ('c, address) arc \<Rightarrow> snapshot \<Rightarrow> header list \<Rightarrow> 'c \<Rightarrow> snapshot res \<times> 'c" where
  "aura_apply cr a s headers c =
     (if headers = [] then (Inr s, c)
      else case contiguous headers of
             Inl e \<Rightarrow> (Inl e, c)
           | Inr _ \<Rightarrow>
               (case Uint64 (Number (headers ! 0)) of
                  None \<Rightarrow> (Inl Panic, c)
                | Some n \<Rightarrow>
                    if n \<noteq> SNumber s + 1 then (Inl errInvalidVotingChain, c)
                    else case aura_apply_loop cr a headers (snap_copy s) c of
                           (Inl e, c1) \<Rightarrow> (Inl e, c1)
                         | (Inr s1, c1) \<Rightarrow>
                             (Inr (s1\<lparr>SNumber := SNumber s1 + of_nat (length headers),
                                      SHash := header_Hash cr (headers ! (length headers - 1))\<rparr>), c1)))"

definition aura_search_step ::
  "('c, 'r) clique_env \<Rightarrow> u64 \<Rightarrow> hash \<Rightarrow> header list \<Rightarrow> ('c, 'r) clique_st \<Rightarrow>
     (snapshot + (header \<times> header list)) res \<times> ('c, 'r) clique_st" where
  "aura_search_step env number h parents st =
     (case arc_Get (snap_arc env) (recents st) h of
        (Some s, r) \<Rightarrow> (Inr (Inl s), st\<lparr>recents := r\<rparr>)
      | (None, r) \<Rightarrow>
          (if parents \<noteq> [] then
             let p = last parents in
             if header_Hash (libs env) p \<noteq> h then Inl ErrUnknownAncestor
             else (case Uint64 (Number p) of
                     None \<Rightarrow> Inl Panic
                   | Some n \<Rightarrow> if n \<noteq> number then Inl ErrUnknownAncestor else Inr (Inr (p, butlast parents)))
           else (case GetHeader env h number of None \<Rightarrow> Inl ErrUnknownAncestor | Some p \<Rightarrow> Inr (Inr (p, []))),
           st\<lparr>recents := r\<rparr>))"

partial_function (option) aura_search ::
  "('c, 'r) clique_env \<Rightarrow> u64 \<Rightarrow> hash \<Rightarrow> header list \<Rightarrow> header list \<Rightarrow> ('c, 'r) clique_st \<Rightarrow>
     ((snapshot \<times> header list) res \<times> ('c, 'r) clique_st) option" where
  "aura_search env number h parents headers st =
     (case aura_search_step env number h parents st of
        (Inl e, st1) \<Rightarrow> Some (Inl e, st1)
      | (Inr (Inl s), st1) \<Rightarrow> Some (Inr (s, headers), st1)
      | (Inr (Inr (p, ps)), st1) \<Rightarrow> aura_search env (number - 1) (ParentHash p) ps (headers @ [p]) st1)"

definition aura_snapshot ::
  "('c, 'r) clique_env \<Rightarrow> u64 \<Rightarrow> hash \<Rightarrow> header list \<Rightarrow> ('c, 'r) clique_st \<Rightarrow>
     (snapshot res \<times> ('c, 'r) clique_st) option" where
  "aura_snapshot env number h parents st =
     (case aura_search env number h parents [] st of
        None \<Rightarrow> None
      | Some (Inl e, st1) \<Rightarrow> Some (Inl e, st1)
      | Some (Inr (s, headers), st1) \<Rightarrow> Some
          (case aura_apply (libs env) (sig_arc env) s (rev headers) (signatures st1) of
             (Inl e, c) \<Rightarrow> (Inl e, st1\<lparr>signatures := c\<rparr>)
           | (Inr s1, c) \<Rightarrow>
               (Inr s1, st1\<lparr>signatures := c, recents := arc_Add (snap_arc env) (recents st1) (SHash s1) s1\<rparr>)))"

section \<open>The user interface\<close>

text \<open>\<open>GetSnapshot\<close> takes a block number or none; \<open>-1\<close> is \<open>rpc.LatestBlockNumber\<close>. The current header and
  the headers by hash are those of the chain.\<close>

definition api_header ::
  "('c, 'r) clique_env \<Rightarrow> header option \<Rightarrow> int option \<Rightarrow> header option" where
  "api_header env current number =
     (case number of None \<Rightarrow> current
      | Some n \<Rightarrow> if n = - 1 then current else GetHeaderByNumber env (word_of_int n))"

definition api_snapshot_of ::
  "('c, 'r) clique_env \<Rightarrow> header option \<Rightarrow> ('c, 'r) clique_st \<Rightarrow> (snapshot res \<times> ('c, 'r) clique_st) option" where
  "api_snapshot_of env hdr st =
     (case hdr of
        None \<Rightarrow> Some (Inl errUnknownBlock, st)
      | Some h \<Rightarrow> (case Uint64 (Number h) of
                     None \<Rightarrow> Some (Inl Panic, st)
                   | Some n \<Rightarrow> aura_snapshot env n (header_Hash (libs env) h) [] st))"

definition GetSnapshot ::
  "('c, 'r) clique_env \<Rightarrow> header option \<Rightarrow> int option \<Rightarrow> ('c, 'r) clique_st \<Rightarrow> (snapshot res \<times> ('c, 'r) clique_st) option" where
  "GetSnapshot env current number st = api_snapshot_of env (api_header env current number) st"

definition GetSnapshotAtHash ::
  "('c, 'r) clique_env \<Rightarrow> (hash \<Rightarrow> header option) \<Rightarrow> hash \<Rightarrow> ('c, 'r) clique_st \<Rightarrow> (snapshot res \<times> ('c, 'r) clique_st) option" where
  "GetSnapshotAtHash env byHash h st = api_snapshot_of env (byHash h) st"

definition GetSigners ::
  "('c, 'r) clique_env \<Rightarrow> header option \<Rightarrow> int option \<Rightarrow> ('c, 'r) clique_st \<Rightarrow> (address list res \<times> ('c, 'r) clique_st) option" where
  "GetSigners env current number st =
     map_option (\<lambda>(r, st1). (map_sum id (signers (walk env)) r, st1)) (GetSnapshot env current number st)"

definition GetSignersAtHash ::
  "('c, 'r) clique_env \<Rightarrow> (hash \<Rightarrow> header option) \<Rightarrow> hash \<Rightarrow> ('c, 'r) clique_st \<Rightarrow> (address list res \<times> ('c, 'r) clique_st) option" where
  "GetSignersAtHash env byHash h st =
     map_option (\<lambda>(r, st1). (map_sum id (signers (walk env)) r, st1)) (GetSnapshotAtHash env byHash h st)"

definition Propose :: "aura \<Rightarrow> address \<Rightarrow> bool \<Rightarrow> aura" where
  "Propose c a auth = c\<lparr>aura_proposals := gm_put (aura_proposals c) a auth\<rparr>"

definition api_Discard :: "aura \<Rightarrow> address \<Rightarrow> aura" where
  "api_Discard c a = c\<lparr>aura_proposals := gm_del (aura_proposals c) a\<rparr>"

section \<open>Turns: properties\<close>

lemma aura_turn:
  assumes "aPeriod cfg \<noteq> 0" "Authorities cfg \<noteq> []" "length (Authorities cfg) < 2 ^ 63"
    "k * unat (aPeriod cfg) < unat time" "unat time \<le> (k + 1) * unat (aPeriod cfg)"
  shows "aura_inTurn cfg sg time = Some (sg = Authorities cfg ! (k mod length (Authorities cfg)))"
proof -
  let ?n = "length (Authorities cfg)" and ?p = "unat (aPeriod cfg)"
  have p: "0 < ?p" using assms(1) by (simp add: unat_gt_0)
  have n: "0 < ?n" using assms(2) by simp
  have un: "unat (of_nat ?n :: u64) = ?n" by (rule unat_of_nat_u64) (use assms(3) in simp)
  then have n0: "(of_nat ?n :: u64) \<noteq> 0" using n by (metis less_numeral_extra(3) unsigned_0)
  have t0: "unat (time div aPeriod cfg mod of_nat ?n) = unat time div ?p mod ?n"
    by (simp add: unat_mod unat_div un)
  show ?thesis
  proof (cases "time mod aPeriod cfg = 0")
    case True
    then have z: "unat time mod ?p = 0" by (metis unat_mod unsigned_0)
    have "unat time = (k + 1) * ?p"
    proof -
      obtain m where m: "unat time = ?p * m" using z by blast
      have "k < m" using assms(4) m p by (metis mult.commute mult_less_cancel2)
      moreover have "m \<le> k + 1" using assms(5) m p by (metis mult.commute mult_le_cancel2)
      ultimately have "m = k + 1" by simp
      then show ?thesis using m by simp
    qed
    then have q: "unat time div ?p = k + 1" using p by simp
    define w where "w = time div aPeriod cfg mod of_nat ?n"
    have w: "unat w = (k + 1) mod ?n" using t0 q by (simp add: w_def)
    have "unat ((if w = 0 then of_nat ?n else w) - 1) = k mod ?n"
    proof (cases "w = 0")
      case True
      then have d: "(k + 1) mod ?n = 0" using w by simp
      have "unat ((of_nat ?n :: u64) - 1) = ?n - 1" using n0 un by (simp add: unat_minus_one)
      moreover have "k mod ?n = ?n - 1"
        using d n by (metis Suc_eq_plus1 Suc_pred diff_Suc_1 mod_Suc nat.distinct(1))
      ultimately show ?thesis using True by simp
    next
      case False
      then have "(k + 1) mod ?n \<noteq> 0" using w by (metis unat_eq_zero)
      then have "(k + 1) mod ?n = k mod ?n + 1" by (metis Suc_eq_plus1 mod_Suc)
      moreover have "unat (w - 1) = unat w - 1" using False by (simp add: unat_minus_one)
      ultimately show ?thesis using False w by simp
    qed
    then show ?thesis using assms(1) n0 n True unfolding aura_inTurn_def Let_def w_def by simp
  next
    case False
    then have "unat time mod ?p \<noteq> 0" by (metis unat_mod unat_eq_zero)
    then have "unat time \<noteq> (k + 1) * ?p" by auto
    then have "unat time < (k + 1) * ?p" using assms(5) by simp
    then have q: "unat time div ?p = k" using assms(4) by (intro div_nat_eqI) (simp_all add: mult.commute)
    then show ?thesis using assms(1) n0 n False t0 unfolding aura_inTurn_def Let_def by simp
  qed
qed

end
