(* ===== verification/Aura_Rules.thy ===== *)
theory Aura_Rules
  imports Aura_Engine
begin

text \<open>
  Properties of the Aura engine (\<open>consensus/aura\<close>): the schedule of the turns, acceptance of honest blocks,
  and what is left of the snapshots.
\<close>

section \<open>Turns\<close>

text \<open>C23: The turns go round by time: for \<open>k * Period < t \<le> (k + 1) * Period\<close> exactly the authority at index
  \<open>k mod n\<close> may sign, so that a slot ends with the multiple of the period; time 0 belongs to the last one.\<close>

theorem aura_turn_schedule:
  assumes "aPeriod cfg \<noteq> 0" "Authorities cfg \<noteq> []" "length (Authorities cfg) < 2 ^ 63"
  shows "(k * unat (aPeriod cfg) < unat time \<and> unat time \<le> (k + 1) * unat (aPeriod cfg) \<longrightarrow>
      aura_inTurn cfg sg time = Some (sg = Authorities cfg ! (k mod length (Authorities cfg))))
    \<and> aura_inTurn cfg sg 0 = Some (sg = last (Authorities cfg))"
proof -
  let ?n = "length (Authorities cfg)"
  have un: "unat (of_nat ?n :: u64) = ?n" by (rule unat_of_nat_u64) (use assms(3) in simp)
  have n: "0 < ?n" using assms(2) by simp
  then have n0: "(of_nat ?n :: u64) \<noteq> 0" using un by (metis less_numeral_extra(3) unsigned_0)
  have "unat ((of_nat ?n :: u64) - 1) = ?n - 1" using n0 un by (simp add: unat_minus_one)
  then have "aura_inTurn cfg sg 0 = Some (sg = last (Authorities cfg))"
    using assms(1,2) n0 n unfolding aura_inTurn_def by (simp add: last_conv_nth)
  then show ?thesis using aura_turn [OF assms] by blast
qed

definition toy_aura :: aura where
  "toy_aura = \<lparr>aura_config = \<lparr>aPeriod = 15, aEpoch = 30000, Authorities = [1, 2, 3], aDifficulty = Some 1\<rparr>,
     aura_proposals = [], aura_signer = 2\<rparr>"

theorem aura_turn_schedule_witness:
  "aPeriod (aura_config toy_aura) \<noteq> 0 \<and> Authorities (aura_config toy_aura) \<noteq> []
    \<and> length (Authorities (aura_config toy_aura)) < 2 ^ 63 \<and> aura_inTurn (aura_config toy_aura) 2 30 = Some True"
proof -
  have h: "aPeriod (aura_config toy_aura) \<noteq> 0" "Authorities (aura_config toy_aura) \<noteq> []"
    "length (Authorities (aura_config toy_aura)) < 2 ^ 63" by (simp_all add: toy_aura_def)
  show ?thesis using aura_turn_schedule [OF h, of 1 30 2] h by (simp add: toy_aura_def)
qed

section \<open>Honest blocks\<close>

lemma aura_Prepare_header:
  assumes "aura_Prepare env cd c now h = (None, h1)" "Uint64 (Number h) = Some n"
  obtains parent where "GetHeader env (ParentHash h) (n - 1) = Some parent"
    "\<not> Time parent + aPeriod (aura_config c) > Time h1" "ParentHash h1 = ParentHash h" "Number h1 = Number h"
    "MixDigest h1 = 0" "Difficulty h1 = cd" "length (Extra h1) = 97"
  using assms
  by (auto simp: aura_Prepare_def extraVanity_def extraSeal_def split: option.splits if_splits)

lemma aura_Seal_header:
  assumes "block_Header b = hb" "Uint64 (Number hb) = Some n" "aura_Seal env c signFn now b = Sealed delay b'"
  obtains sig where "aura_inTurn (aura_config c) (aura_signer c) (Time hb) = Some True" "n \<noteq> 0"
    "signFn (aura_signer c) (rlp_header (libs env) (hb\<lparr>Extra := take (length (Extra hb) - 65) (Extra hb)\<rparr>)) = Some sig"
    "bheader b' = hb\<lparr>Extra := put_seal (Extra hb) sig\<rparr>"
  using assms
  by (auto simp: aura_Seal_def encodeSigHeader_def WithSeal_def split: if_splits option.splits)

text \<open>C24: A block that an engine itself prepares, finalises and seals passes \<open>verifyHeader\<close> once its time has
  come, with the difficulty of the chain and a signer whose turn it is.\<close>

theorem aura_honest_block_accepted:
  assumes "arc_ok (sig_arc env) sview" "collision_free (libs env)" "sigs_ok (libs env) sview (signatures st)"
    "Uint64 (Number h) = Some n" "cd \<noteq> None"
    "aura_Prepare env cd c now h = (None, h1)"
    "Finalize (libs env) dt dr bloom root h1 txs receipts = (h2, b)"
    "aura_Seal env c signFn now2 b = Sealed delay b'"
    "sign_ok (libs env) signFn" "chain_ok env" "Time (bheader b') \<le> now3"
  shows "\<exists>st1. aura_verifyHeader env cd c now3 (bheader b') [] st = (Inr (), st1)"
proof (rule aura_Prepare_header [OF assms(6,4)])
  fix parent
  assume par: "GetHeader env (ParentHash h) (n - 1) = Some parent" "\<not> Time parent + aPeriod (aura_config c) > Time h1"
    and h1: "ParentHash h1 = ParentHash h" "Number h1 = Number h" "MixDigest h1 = 0" "Difficulty h1 = cd" "length (Extra h1) = 97"
  have nn: "Number h1 \<noteq> None" "Difficulty h1 \<noteq> None" using assms(4,5) h1 by (auto simp: Uint64_def)
  define hb where "hb = bheader b"
  note fh = Finalize_header [OF assms(7) nn, folded hb_def]
  have num: "Uint64 (Number hb) = Some n" using assms(4) fh(3) h1(2) by simp
  obtain sig where turn: "aura_inTurn (aura_config c) (aura_signer c) (Time hb) = Some True" and n: "n \<noteq> 0"
    and sg: "signFn (aura_signer c) (rlp_header (libs env) (hb\<lparr>Extra := take (length (Extra hb) - 65) (Extra hb)\<rparr>)) = Some sig"
    and b': "bheader b' = hb\<lparr>Extra := put_seal (Extra hb) sig\<rparr>"
    by (rule aura_Seal_header [OF fh(1) num assms(8)])
  define hs where "hs = bheader b'"
  have sl: "length sig = 65" using assms(9) sg by (auto simp: sign_ok_def)
  have ex: "65 \<le> length (Extra hb)" using fh(8) h1(5) by simp
  have le: "length (Extra hs) = 97" using put_seal_same [OF sl ex] fh(8) h1(5) sl by (simp add: hs_def b')
  have f: "Number hs = Number h" "ParentHash hs = ParentHash h" "Time hs = Time hb" "Difficulty hs = cd" "MixDigest hs = 0"
    "UncleHash hs = CalcUncleHash (libs env) []" "Time hb = Time h1" using fh h1 by (simp_all add: hs_def b')
  have rec: "recover (libs env) hs = Inr (aura_signer c)"
    by (rule recover_sealed [OF assms(9) sg ex]) (simp add: hs_def b')
  obtain r c5 where ec: "ecrecover (libs env) (sig_arc env) hs (signatures st) = (r, c5)" by fastforce
  have r: "r = Inr (aura_signer c)" using ecrecover_correct(1) [OF assms(1,2,3) ec] rec by simp
  have pn: "header_Hash (libs env) parent = ParentHash h" "Uint64 (Number parent) = Some (n - 1)"
    using assms(10) par(1) by (auto simp: chain_ok_def)
  have seal: "aura_verifySeal env c hs st = (Inr (), st\<lparr>signatures := c5\<rparr>)"
    using assms(4) n turn by (simp add: aura_verifySeal_def f clique_Author_def ec r)
  have "aura_verifyCascadingFields env c hs [] st = (Inr (), st\<lparr>signatures := c5\<rparr>)"
    using assms(4) n par pn seal by (simp add: aura_verifyCascadingFields_def f)
  then show ?thesis
    using assms(4,5,11) le by (simp add: aura_verifyHeader_def f hs_def [symmetric] extraVanity_def extraSeal_def)
qed

lemma toy_aura_prepare: "\<exists>h1. aura_Prepare toy_env (Some 1) toy_aura 20 toy_draft = (None, h1) \<and> Number h1 = Some 1
    \<and> Difficulty h1 = Some 1 \<and> Time h1 = 20 \<and> length (Extra h1) = 97 \<and> ParentHash h1 = 8"
  by (simp add: aura_Prepare_def toy_draft_def toy_env_def toy_header_def toy_aura_def extraVanity_def extraSeal_def)

lemma toy_aura_turn: "aura_inTurn (aura_config toy_aura) 2 20 = Some True"
  by (simp add: aura_inTurn_def toy_aura_def)

theorem aura_honest_block_accepted_witness:
  "\<exists>h1 h2 b delay b'. aura_Prepare toy_env (Some 1) toy_aura 20 toy_draft = (None, h1)
    \<and> Finalize toy_crypto (\<lambda>_. 1) (\<lambda>_ :: unit list. 2) (\<lambda>_. []) 5 h1 [] [] = (h2, b)
    \<and> aura_Seal toy_env toy_aura toy_sign 20 b = Sealed delay b'
    \<and> (\<exists>st1. aura_verifyHeader toy_env (Some 1) toy_aura 20 (bheader b') [] toy_state = (Inr (), st1))"
proof -
  obtain h1 where P: "aura_Prepare toy_env (Some 1) toy_aura 20 toy_draft = (None, h1)"
    and p: "Number h1 = Some 1" "Difficulty h1 = Some 1" "Time h1 = 20" "length (Extra h1) = 97" "ParentHash h1 = 8"
    using toy_aura_prepare by blast
  obtain h2 b where F: "Finalize toy_crypto (\<lambda>_. 1) (\<lambda>_ :: unit list. 2) (\<lambda>_. []) 5 h1 [] [] = (h2, b)" by fastforce
  have nn: "Number h1 \<noteq> None" "Difficulty h1 \<noteq> None" by (simp_all add: p)
  note fh = Finalize_header [OF F nn]
  have a: "aura_signer toy_aura = 2" "aPeriod (aura_config toy_aura) = 15" by (simp_all add: toy_aura_def)
  have "\<exists>delay b'. aura_Seal toy_env toy_aura toy_sign 20 b = Sealed delay b' \<and> Time (bheader b') = 20"
    using fh p toy_aura_turn a by (simp add: aura_Seal_def encodeSigHeader_def toy_sign_def WithSeal_def)
  then obtain delay b' where S: "aura_Seal toy_env toy_aura toy_sign 20 b = Sealed delay b'" and t: "Time (bheader b') = 20"
    by blast
  have e: "libs toy_env = toy_crypto" "sig_arc toy_env = toy_arc" by (simp_all add: toy_env_def)
  have "\<exists>st1. aura_verifyHeader toy_env (Some 1) toy_aura 20 (bheader b') [] toy_state = (Inr (), st1)"
  proof (rule aura_honest_block_accepted [OF _ _ _ _ _ P _ S])
    show "Finalize (libs toy_env) (\<lambda>_. 1) (\<lambda>_ :: unit list. 2) (\<lambda>_. []) 5 h1 [] [] = (h2, b)" by (simp add: e F)
  qed (use toy_arc_ok toy_collision_free toy_sigs_ok toy_sign_ok toy_chain_ok t in
      \<open>simp_all add: e toy_draft_def toy_header_def toy_state_def\<close>)
  then show ?thesis using P F S by blast
qed

section \<open>Snapshots\<close>

text \<open>An engine's snapshot cache starts empty and nothing but a successful \<open>snapshot\<close> fills it.\<close>

definition uncached :: "('c, 'r) clique_env \<Rightarrow> ('r \<Rightarrow> hash \<rightharpoonup> snapshot) \<Rightarrow> ('c, 'r) clique_st \<Rightarrow> bool" where
  "uncached env rview st \<longleftrightarrow> arc_ok (snap_arc env) rview \<and> rview (recents st) = Map.empty"

lemma aura_step_uncached:
  assumes "uncached env rview st" "aura_search_step env number h parents st = (r, st1)"
  shows "uncached env rview st1" "\<nexists>s. r = Inr (Inl s)"
    "r = Inr (Inr (p, ps)) \<Longrightarrow> parents \<noteq> [] \<Longrightarrow> length ps < length parents"
    "r = Inr (Inr (p, ps)) \<Longrightarrow> parents = [] \<Longrightarrow> ps = [] \<and> GetHeader env h number = Some p"
proof -
  obtain v c1 where g: "arc_Get (snap_arc env) (recents st) h = (v, c1)" by fastforce
  have "fst (arc_Get (snap_arc env) (recents st) h) = rview (recents st) h"
    "rview (snd (arc_Get (snap_arc env) (recents st) h)) = rview (recents st)"
    using assms(1) by (simp_all add: uncached_def arc_ok_def)
  then have v: "v = None" "rview c1 = Map.empty" using assms(1) by (simp_all add: g uncached_def)
  show "uncached env rview st1" using assms v by (auto simp: aura_search_step_def g uncached_def)
  show "\<nexists>s. r = Inr (Inl s)" "r = Inr (Inr (p, ps)) \<Longrightarrow> parents \<noteq> [] \<Longrightarrow> length ps < length parents"
    "r = Inr (Inr (p, ps)) \<Longrightarrow> parents = [] \<Longrightarrow> ps = [] \<and> GetHeader env h number = Some p"
    using assms(2) by (auto simp: aura_search_step_def g v split: if_splits option.splits)
qed

lemma aura_search_fails_no_parents:
  assumes "uncached env rview st" "\<forall>h. GetHeader env h (- 1) = None"
  shows "\<exists>e st1. aura_search env number h [] headers st = Some (Inl e, st1) \<and> uncached env rview st1"
  using assms(1)
proof (induction "unat (number + 1)" arbitrary: number h headers st rule: less_induct)
  case less
  obtain r st1 where r: "aura_search_step env number h [] st = (r, st1)" by fastforce
  note st = aura_step_uncached [OF less.prems r]
  show ?case
  proof (cases "\<exists>e. r = Inl e")
    case True
    then show ?thesis using st(1) by (subst aura_search.simps) (auto simp: r)
  next
    case False
    then obtain p ps where p: "r = Inr (Inr (p, ps))" using st(2) by (metis sum.exhaust prod.exhaust)
    then have ps: "ps = []" "GetHeader env h number = Some p" using st(4) by auto
    then have "number + 1 \<noteq> 0" using assms(2) by (metis add.commute eq_neg_iff_add_eq_0 option.discI)
    then have "unat ((number - 1) + 1) < unat (number + 1)"
      using unat_minus_one [of "number + 1"] by (simp add: unat_gt_0)
    from less.hyps [OF this st(1)] show ?thesis by (subst aura_search.simps) (simp add: r p ps(1))
  qed
qed

lemma aura_search_fails:
  assumes "uncached env rview st" "\<forall>h. GetHeader env h (- 1) = None"
  shows "\<exists>e st1. aura_search env number h parents headers st = Some (Inl e, st1) \<and> uncached env rview st1"
  using assms(1)
proof (induction "length parents" arbitrary: parents number h headers st rule: less_induct)
  case less
  show ?case
  proof (cases "parents = []")
    case True
    then show ?thesis using aura_search_fails_no_parents [OF less.prems assms(2)] by simp
  next
    case False
    obtain r st1 where r: "aura_search_step env number h parents st = (r, st1)" by fastforce
    note st = aura_step_uncached [OF less.prems r]
    show ?thesis
    proof (cases "\<exists>e. r = Inl e")
      case True
      then show ?thesis using st(1) by (subst aura_search.simps) (auto simp: r)
    next
      case noerr: False
      then obtain p ps where p: "r = Inr (Inr (p, ps))" using st(2) by (metis sum.exhaust prod.exhaust)
      from less.hyps [OF st(3) [OF p False] st(1)] show ?thesis by (subst aura_search.simps) (simp add: r p)
    qed
  qed
qed

text \<open>C33: Nothing puts a first snapshot into the cache of an Aura engine, so \<open>snapshot\<close> fails for every block
  and leaves the cache empty: it returns, with an error, and so do all the calls of the user interface.\<close>

theorem aura_snapshot_never_succeeds:
  assumes "uncached env rview st" "\<forall>h. GetHeader env h (- 1) = None"
  shows "(\<exists>e st1. aura_snapshot env number h parents st = Some (Inl e, st1) \<and> uncached env rview st1)
    \<and> (\<exists>e st1. GetSnapshot env current k st = Some (Inl e, st1) \<and> uncached env rview st1)
    \<and> (\<exists>e st1. GetSigners env current k st = Some (Inl e, st1) \<and> uncached env rview st1)"
proof -
  have s: "\<exists>e st1. aura_snapshot env n x ps st = Some (Inl e, st1) \<and> uncached env rview st1" for n x ps
    using aura_search_fails [OF assms, of n x ps "[]"] by (auto simp: aura_snapshot_def)
  have g: "\<exists>e st1. GetSnapshot env current k st = Some (Inl e, st1) \<and> uncached env rview st1"
    using s assms(1) by (auto simp: GetSnapshot_def api_snapshot_of_def split: option.splits)
  then have "\<exists>e st1. GetSigners env current k st = Some (Inl e, st1) \<and> uncached env rview st1"
    by (auto simp: GetSigners_def)
  then show ?thesis using s g by blast
qed

theorem aura_snapshot_never_succeeds_witness:
  "uncached toy_env map_of \<lparr>recents = [], signatures = [], db = None\<rparr> \<and> (\<forall>h. GetHeader toy_env h (- 1) = None)
    \<and> (\<exists>e st1. GetSigners toy_env (Some (toy_header 0 0 nonceDropVote 7)) None \<lparr>recents = [], signatures = [], db = None\<rparr>
         = Some (Inl e, st1))"
proof -
  have h: "uncached toy_env map_of \<lparr>recents = [], signatures = [], db = None\<rparr>" "\<forall>h. GetHeader toy_env h (- 1) = None"
    using toy_arc_ok by (simp_all add: uncached_def toy_env_def)
  show ?thesis using aura_snapshot_never_succeeds [OF h] h by blast
qed

lemma aura_step_quiet:
  assumes "Votes s = []" "Tally s = []" "aura_apply_header cr a h s c = (Inr s1, c1)"
  shows "Votes s1 = [] \<and> Tally s1 = [] \<and> Signers s1 = Signers s \<and> config s1 = config s"
  using assms
  by (auto simp: aura_apply_header_def prepare_header_def aura_apply_signed_def settle_def discard_previous_def
      split: option.splits sum.splits prod.splits if_splits)

lemma aura_loop_quiet:
  assumes "Votes s = []" "Tally s = []" "aura_apply_loop cr a hs s c = (Inr s1, c1)"
  shows "Votes s1 = [] \<and> Tally s1 = [] \<and> Signers s1 = Signers s"
  using assms
proof (induction hs arbitrary: s c)
  case (Cons h hs)
  obtain s2 c2 where "aura_apply_header cr a h s c = (Inr s2, c2)" "aura_apply_loop cr a hs s2 c2 = (Inr s1, c1)"
    using Cons.prems(3) by (auto split: prod.splits sum.splits)
  then show ?case using aura_step_quiet [of s cr a h c s2 c2] Cons by auto
qed simp

text \<open>C34: Since the votes of headers are no longer cast, applying any headers to a new snapshot leaves the signer list as
  it was, with no votes and an empty tally, whatever the headers propose: the proposals of the user interface have no
  effect on it.\<close>

theorem aura_signers_never_change:
  assumes "aura_apply cr a (newSnapshot cfg n h sgs) hs c = (Inr s', c')"
  shows "signer_set s' = set sgs \<and> Votes s' = [] \<and> Tally s' = []"
proof -
  let ?s = "newSnapshot cfg n h sgs"
  have sg: "set (gm_keys (foldl (\<lambda>m a. gm_put m a ()) m xs)) = set (gm_keys m) \<union> set xs" for m xs
    by (induction xs arbitrary: m) (auto simp: gm_keys_put simp del: set_map)
  have ss: "signer_set ?s = set sgs" "Votes ?s = []" "Tally ?s = []"
    using sg [of "[]" sgs] by (simp_all add: newSnapshot_def)
  have "mid_ok (unat n) ?s" using snap_inv_new [of cfg n h sgs] by (simp add: snap_inv_def newSnapshot_def)
  then have cp: "snap_copy ?s = ?s" by (rule snap_copy_id)
  have "Votes s' = [] \<and> Tally s' = [] \<and> Signers s' = Signers ?s"
  proof (cases "hs = []")
    case True
    then show ?thesis using assms ss by (simp add: aura_apply_def)
  next
    case False
    then obtain s1 where "aura_apply_loop cr a hs ?s c = (Inr s1, c')" "Votes s' = Votes s1" "Tally s' = Tally s1" "Signers s' = Signers s1"
      using assms cp by (auto simp: aura_apply_def split: sum.splits option.splits if_splits prod.splits)
    then show ?thesis using aura_loop_quiet [OF ss(2,3)] by metis
  qed
  then show ?thesis using ss(1) by simp
qed

theorem aura_signers_never_change_witness:
  "\<exists>s' c'. aura_apply toy_crypto toy_arc (newSnapshot \<lparr>Period = 15, Epoch = 30000\<rparr> 0 0 [1]) [toy_header 1 9 nonceAuthVote 1] []
     = (Inr s', c') \<and> SNumber s' = 1 \<and> signer_set s' = {1} \<and> Votes s' = [] \<and> Tally s' = []"
proof -
  obtain s' c' where a: "aura_apply toy_crypto toy_arc (newSnapshot \<lparr>Period = 15, Epoch = 30000\<rparr> 0 0 [1])
     [toy_header 1 9 nonceAuthVote 1] [] = (Inr s', c')" "SNumber s' = 1"
    by (simp add: aura_apply_def aura_apply_header_def aura_apply_signed_def newSnapshot_def snapshot_eval toy_ecrecover_miss)
  show ?thesis using a aura_signers_never_change [OF a(1)] by simp
qed

end
