(* ===== verification/Hex_Encoding.thy ===== *)
theory Hex_Encoding
  imports Prelude "HOL-Library.Sublist"
begin

unbundle bit_operations_syntax

text \<open>
  The key encodings of the trie: \<open>trie/encoding.go\<close>.

  A hex key is a list of nibbles, one per byte, which ends with the terminator 16 when it is the key of a
  value. An index out of range (an odd number of nibbles) and the explicit panic are \<^const>\<open>None\<close>.
\<close>

definition hasTerm :: "bytes \<Rightarrow> bool" where
  "hasTerm s = (length s > 0 \<and> s ! (length s - 1) = 16)"

fun decodeNibbles :: "bytes \<Rightarrow> bytes option" where
  "decodeNibbles [] = Some []"
| "decodeNibbles [x] = None"
| "decodeNibbles (x # y # zs) = map_option (\<lambda>bs. (push_bit 4 x OR y) # bs) (decodeNibbles zs)"

definition hexToCompact :: "bytes \<Rightarrow> bytes option" where
  "hexToCompact hex =
     (let terminator = (if hasTerm hex then 1 else 0) :: byte;
          hex1 = (if hasTerm hex then take (length hex - 1) hex else hex);
          b0 = push_bit 5 terminator
      in if odd (length hex1)
         then map_option (\<lambda>bs. (b0 OR push_bit 4 1 OR hex1 ! 0) # bs) (decodeNibbles (drop 1 hex1))
         else map_option (\<lambda>bs. b0 # bs) (decodeNibbles hex1))"

definition keybytesToHex :: "bytes \<Rightarrow> bytes" where
  "keybytesToHex str = concat (map (\<lambda>b. [b div 16, b mod 16]) str) @ [16]"

definition compactToHex :: "bytes \<Rightarrow> bytes" where
  "compactToHex compact =
     (if length compact = 0 then compact
      else let base = keybytesToHex compact;
               base1 = (if base ! 0 < 2 then take (length base - 1) base else base);
               chop = 2 - unat (base1 ! 0 AND 1)
           in drop chop base1)"

definition hexToKeybytes :: "bytes \<Rightarrow> bytes option" where
  "hexToKeybytes hex =
     (let hex1 = (if hasTerm hex then take (length hex - 1) hex else hex)
      in if odd (length hex1) then None else decodeNibbles hex1)"

text \<open>The loop of \<open>prefixLen\<close> stops at the end of the shorter key or at the first difference.\<close>

fun prefixLen :: "bytes \<Rightarrow> bytes \<Rightarrow> nat" where
  "prefixLen (x # xs) (y # ys) = (if x \<noteq> y then 0 else Suc (prefixLen xs ys))"
| "prefixLen _ _ = 0"

section \<open>Nibbles\<close>

definition nibbles :: "bytes \<Rightarrow> bool" where
  "nibbles ks \<longleftrightarrow> (\<forall>x \<in> set ks. x < 16)"

lemma nibbles_simps [simp]:
  "nibbles []" "nibbles (x # xs) \<longleftrightarrow> x < 16 \<and> nibbles xs" "nibbles (xs @ ys) \<longleftrightarrow> nibbles xs \<and> nibbles ys"
  by (auto simp: nibbles_def)

lemma div16: "(b :: byte) div 16 = drop_bit 4 b" and mod16: "(b :: byte) mod 16 = take_bit 4 b"
  by (simp_all add: drop_bit_eq_div take_bit_eq_mod)

lemma nibble_take:
  assumes "(x :: byte) < 16"
  shows "take_bit 4 x = x"
proof -
  have "unat x < 2 ^ 4" using assms by (simp add: word_less_nat_alt)
  then have "unat (take_bit 4 x) = unat x" by (simp add: unsigned_take_bit_eq take_bit_nat_eq_self)
  then show ?thesis by (rule unsigned_word_eqI)
qed

lemma nibble_drop:
  assumes "(x :: byte) < 16"
  shows "drop_bit 4 x = 0"
proof -
  have "unat x < 16" using assms by (simp add: word_less_nat_alt)
  then have "unat (x div 16) = 0" by (simp add: unat_div)
  then have "x div 16 = 0" by (simp only: unat_eq_zero)
  then show ?thesis by (simp only: div16)
qed

lemma join_div: "(x :: byte) < 16 \<Longrightarrow> y < 16 \<Longrightarrow> (push_bit 4 x OR y) div 16 = x"
proof -
  assume x: "x < 16" and y: "y < 16"
  have "drop_bit 4 (push_bit 4 x) = take_bit 4 x" by (rule bit_eqI) (auto simp: bit_simps)
  then show ?thesis using x y by (simp add: div16 drop_bit_or nibble_drop nibble_take)
qed

lemma join_mod: "(x :: byte) < 16 \<Longrightarrow> y < 16 \<Longrightarrow> (push_bit 4 x OR y) mod 16 = y"
  by (simp add: mod16 take_bit_or take_bit_push_bit nibble_take)

lemma split_nibbles: "(b :: byte) div 16 < 16" "(b :: byte) mod 16 < 16"
proof -
  have "unat b < 256" using unsigned_less [of b] by simp
  then show "b div 16 < 16" "b mod 16 < 16" by (simp_all add: word_less_nat_alt unat_div unat_mod)
qed

lemma join_split: "push_bit 4 ((b :: byte) div 16) OR (b mod 16) = b"
proof -
  have "push_bit 4 (drop_bit 4 b) OR take_bit 4 b = b" by (rule bit_eqI) (auto simp: bit_simps)
  then show ?thesis by (simp add: div16 mod16)
qed

lemma decode_keybytes: "decodeNibbles (concat (map (\<lambda>b. [b div 16, b mod 16]) bs)) = Some bs"
  by (induction bs) (simp_all add: join_split)

lemma decodeNibbles_Some:
  "nibbles ks \<Longrightarrow> even (length ks) \<Longrightarrow>
     \<exists>bs. decodeNibbles ks = Some bs \<and> concat (map (\<lambda>b. [b div 16, b mod 16]) bs) = ks"
proof (induction ks rule: decodeNibbles.induct)
  case (3 x y zs)
  then obtain bs where "decodeNibbles zs = Some bs" "concat (map (\<lambda>b. [b div 16, b mod 16]) bs) = zs" by auto
  then show ?case using 3 by (simp add: join_div join_mod)
qed simp_all

lemma nibbles_keybytes: "nibbles (concat (map (\<lambda>b. [b div 16, b mod 16]) bs))"
  by (induction bs) (simp_all add: split_nibbles)

lemma hasTerm_append [simp]: "hasTerm (xs @ [16])"
  by (simp add: hasTerm_def nth_append)

lemma nibbles_not_hasTerm: "nibbles xs \<Longrightarrow> \<not> hasTerm xs"
proof
  assume n: "nibbles xs" and t: "hasTerm xs"
  have "xs ! (length xs - 1) \<in> set xs" using t by (intro nth_mem) (simp add: hasTerm_def)
  then show False using n t by (auto simp: nibbles_def hasTerm_def)
qed

section \<open>Round trips\<close>

lemma hexToKeybytes_keybytes [simp]: "hexToKeybytes (keybytesToHex key) = Some key"
  by (simp add: hexToKeybytes_def keybytesToHex_def decode_keybytes length_concat comp_def sum_list_triv)

lemma inj_keybytesToHex: "inj keybytesToHex"
  by (rule injI) (metis hexToKeybytes_keybytes option.inject)

text \<open>C40: The encodings are inverse to each other: key bytes survive the way to hex and back, and every hex
  key, of even or odd length, with or without the terminator, survives the compact form used on disk.\<close>

theorem hex_encodings_roundtrip:
  "hexToKeybytes (keybytesToHex key) = Some key
    \<and> (nibbles ks \<longrightarrow> (\<exists>c. hexToCompact (ks @ [16]) = Some c \<and> compactToHex c = ks @ [16])
         \<and> (\<exists>c. hexToCompact ks = Some c \<and> compactToHex c = ks))"
proof -
  have flag: "(32 :: byte) div 16 = 2" "(32 :: byte) mod 16 = 0" "(16 :: byte) div 16 = 1" by simp_all
  have even_len: "\<exists>bs. decodeNibbles xs = Some bs \<and> concat (map (\<lambda>b. [b div 16, b mod 16]) bs) = xs"
    if "nibbles xs" "even (length xs)" for xs using decodeNibbles_Some [OF that] .
  have odd1: "(push_bit 5 t OR push_bit 4 1 OR x) div 16 = 2 * t + 1" "(push_bit 5 t OR push_bit 4 1 OR x) mod 16 = x"
    if "t = 0 \<or> t = 1" "x < 16" for t x :: byte
  proof -
    have e: "push_bit 5 t OR push_bit 4 1 OR x = push_bit 4 (2 * t + 1) OR x" and l: "2 * t + 1 < 16"
      using that(1) by (auto simp: or.assoc [symmetric])
    show "(push_bit 5 t OR push_bit 4 1 OR x) div 16 = 2 * t + 1" "(push_bit 5 t OR push_bit 4 1 OR x) mod 16 = x"
      unfolding e using join_div [OF l that(2)] join_mod [OF l that(2)] .
  qed
  have main: "\<exists>c. hexToCompact (ks @ (if t = 1 then [16] else [])) = Some c \<and> compactToHex c = ks @ (if t = 1 then [16] else [])"
    if n: "nibbles ks" and t: "t = 0 \<or> t = (1 :: byte)" for t
  proof -
    have ht: "hasTerm (ks @ (if t = 1 then [16] else [])) = (t = 1)" using nibbles_not_hasTerm [OF n] by simp
    have h1: "(if t = 1 then take (length (ks @ (if t = 1 then [16] else [])) - 1) (ks @ (if t = 1 then [16] else []))
        else ks @ (if t = 1 then [16] else [])) = ks" by simp
    have tt: "(if t = 1 then 1 else 0) = t" using t by auto
    show ?thesis
    proof (cases "odd (length ks)")
      case True
      then obtain x xs where ks: "ks = x # xs" by (cases ks) auto
      obtain bs where bs: "decodeNibbles xs = Some bs" "concat (map (\<lambda>b. [b div 16, b mod 16]) bs) = xs"
        using even_len [of xs] n True ks by auto
      let ?b = "push_bit 5 t OR push_bit 4 1 OR x"
      have c: "hexToCompact (ks @ (if t = 1 then [16] else [])) = Some (?b # bs)"
        unfolding hexToCompact_def Let_def ht h1 tt using True bs(1) by (simp add: ks)
      have k: "keybytesToHex (?b # bs) = (2 * t + 1) # x # xs @ [16]"
        using odd1 [OF t, of x] n bs(2) by (simp add: keybytesToHex_def ks)
      have "compactToHex (?b # bs) = ks @ (if t = 1 then [16] else [])"
        unfolding compactToHex_def k Let_def using t by (auto simp: ks)
      then show ?thesis using c by blast
    next
      case False
      obtain bs where bs: "decodeNibbles ks = Some bs" "concat (map (\<lambda>b. [b div 16, b mod 16]) bs) = ks"
        using even_len [of ks] n False by auto
      have c: "hexToCompact (ks @ (if t = 1 then [16] else [])) = Some (push_bit 5 t # bs)"
        unfolding hexToCompact_def Let_def ht h1 tt using False bs(1) by simp
      have k: "keybytesToHex (push_bit 5 t # bs) = (2 * t) # 0 # ks @ [16]"
        using t bs(2) by (auto simp: keybytesToHex_def)
      have "compactToHex (push_bit 5 t # bs) = ks @ (if t = 1 then [16] else [])"
        unfolding compactToHex_def k Let_def using t by auto
      then show ?thesis using c by blast
    qed
  qed
  from main [of 0] main [of 1] show ?thesis by simp
qed

theorem hex_encodings_roundtrip_witness:
  "nibbles [1, 2, 3] \<and> (\<exists>c. hexToCompact ([1, 2, 3] @ [16]) = Some c \<and> compactToHex c = [1, 2, 3] @ [16])"
proof -
  have n: "nibbles [1, 2, 3]" by simp
  then show ?thesis using hex_encodings_roundtrip [of "[]" "[1, 2, 3]"] by blast
qed

lemma prefixLen_le: "prefixLen xs ys \<le> length xs" "prefixLen xs ys \<le> length ys"
  by (induction xs ys rule: prefixLen.induct) auto

lemma prefixLen_take: "take (prefixLen xs ys) xs = take (prefixLen xs ys) ys"
  by (induction xs ys rule: prefixLen.induct) auto

lemma prefixLen_full: "prefixLen xs ys = length ys \<longleftrightarrow> prefix ys xs"
  by (induction xs ys rule: prefixLen.induct) auto

lemma prefixLen_differ:
  "prefixLen xs ys < length xs \<Longrightarrow> prefixLen xs ys < length ys \<Longrightarrow> xs ! prefixLen xs ys \<noteq> ys ! prefixLen xs ys"
  by (induction xs ys rule: prefixLen.induct) (auto split: if_splits)

end
