(* ===== verification/Trie_Ops.thy ===== *)
theory Trie_Ops
  imports Hex_Encoding "HOL-Library.Monad_Syntax"
begin

text \<open>
  The Merkle Patricia trie: \<open>trie/trie.go\<close> with the nodes of \<open>trie/node.go\<close>.

  A node is the sum of the four Go types and \<open>nil\<close>. The cached hash and dirty flag of a node serve hashing
  and storage only and are left out. Nodes that are not loaded are hashes; the database that resolves them is
  the parameter \<open>db\<close>. Since a hash may stand for any node, \<open>tryGet\<close>, \<open>insert\<close> and \<open>delete\<close> are
  \<open>partial_function\<close>s, with the value \<^const>\<open>None\<close> where the code would not return; that they
  return on every well-formed trie is part of the theorems. Errors are \<open>MissingNodeError\<close>, with the path of the node, and the
  panics of the code.
\<close>

datatype node = NilNode | ValueNode bytes | ShortNode bytes node | FullNode "node list" | HashNode bytes

datatype trie_error = MissingNodeError bytes | TriePanic

type_synonym 'a trie_res = "(trie_error + 'a) option"

definition resolveHash :: "(bytes \<Rightarrow> node option) \<Rightarrow> bytes \<Rightarrow> bytes \<Rightarrow> trie_error + node" where
  "resolveHash db h path = (case db h of Some n \<Rightarrow> Inr n | None \<Rightarrow> Inl (MissingNodeError path))"

definition resolve :: "(bytes \<Rightarrow> node option) \<Rightarrow> node \<Rightarrow> bytes \<Rightarrow> trie_error + node" where
  "resolve db n path = (case n of HashNode h \<Rightarrow> resolveHash db h path | _ \<Rightarrow> Inr n)"

section \<open>Lookup\<close>

partial_function (option) tryGet ::
  "(bytes \<Rightarrow> node option) \<Rightarrow> node \<Rightarrow> bytes \<Rightarrow> nat \<Rightarrow> (bytes option \<times> node \<times> bool) trie_res" where
  "tryGet db n key pos =
     (case n of
        NilNode \<Rightarrow> Some (Inr (None, NilNode, False))
      | ValueNode v \<Rightarrow> Some (Inr (Some v, n, False))
      | ShortNode nkey nval \<Rightarrow>
          if int (length key) - int pos < int (length nkey) \<or> nkey \<noteq> take (length nkey) (drop pos key)
          then Some (Inr (None, n, False))
          else tryGet db nval key (pos + length nkey) \<bind> (\<lambda>r. Some
            (case r of Inl e \<Rightarrow> Inl e
             | Inr (v, nn, did) \<Rightarrow> Inr (v, (if did then ShortNode nkey nn else n), did)))
      | FullNode ch \<Rightarrow>
          if pos \<ge> length key \<or> unat (key ! pos) \<ge> length ch then Some (Inl TriePanic)
          else tryGet db (ch ! unat (key ! pos)) key (pos + 1) \<bind> (\<lambda>r. Some
            (case r of Inl e \<Rightarrow> Inl e
             | Inr (v, nn, did) \<Rightarrow> Inr (v, (if did then FullNode (ch[unat (key ! pos) := nn]) else n), did)))
      | HashNode h \<Rightarrow>
          (case resolveHash db h (take pos key) of
             Inl e \<Rightarrow> Some (Inl e)
           | Inr child \<Rightarrow> tryGet db child key pos \<bind> (\<lambda>r. Some
               (case r of Inl e \<Rightarrow> Inl e | Inr (v, nn, _) \<Rightarrow> Inr (v, nn, True)))))"

text \<open>\<open>TryGet\<close> returns the value and the new root: nodes that were loaded stay in the trie.\<close>

definition TryGet :: "(bytes \<Rightarrow> node option) \<Rightarrow> node \<Rightarrow> bytes \<Rightarrow> (bytes option \<times> node) trie_res" where
  "TryGet db root key =
     tryGet db root (keybytesToHex key) 0 \<bind> (\<lambda>r. Some
       (case r of Inl e \<Rightarrow> Inl e | Inr (v, nn, did) \<Rightarrow> Inr (v, (if did then nn else root))))"

section \<open>Insertion\<close>

text \<open>A branch gets a child at the index of a nibble; out of its 17 entries the code panics.\<close>

definition set_child :: "node list \<Rightarrow> byte \<Rightarrow> node \<Rightarrow> trie_error + node list" where
  "set_child ch i n = (if unat i < length ch then Inr (ch[unat i := n]) else Inl TriePanic)"

partial_function (option) trie_insert ::
  "(bytes \<Rightarrow> node option) \<Rightarrow> node \<Rightarrow> bytes \<Rightarrow> bytes \<Rightarrow> node \<Rightarrow> (bool \<times> node) trie_res" where
  "trie_insert db n path key val =
     (if length key = 0 then
        (case n of
           ValueNode v \<Rightarrow> (case val of ValueNode v' \<Rightarrow> Some (Inr (v \<noteq> v', val)) | _ \<Rightarrow> Some (Inl TriePanic))
         | _ \<Rightarrow> Some (Inr (True, val)))
      else case n of
        ShortNode nkey nval \<Rightarrow>
          let matchlen = prefixLen key nkey in
          if matchlen = length nkey then
            trie_insert db nval (path @ take matchlen key) (drop matchlen key) val \<bind> (\<lambda>r. Some
              (case r of Inl e \<Rightarrow> Inl e
               | Inr (dirty, nn) \<Rightarrow> if \<not> dirty then Inr (False, n) else Inr (True, ShortNode nkey nn)))
          else
            trie_insert db NilNode (path @ take (matchlen + 1) nkey) (drop (matchlen + 1) nkey) nval \<bind> (\<lambda>r1.
              case r1 of Inl e \<Rightarrow> Some (Inl e)
              | Inr (_, c1) \<Rightarrow>
                  (case set_child (replicate 17 NilNode) (nkey ! matchlen) c1 of
                     Inl e \<Rightarrow> Some (Inl e)
                   | Inr ch1 \<Rightarrow>
                       if matchlen \<ge> length key then Some (Inl TriePanic)
                       else
                         trie_insert db NilNode (path @ take (matchlen + 1) key) (drop (matchlen + 1) key) val \<bind> (\<lambda>r2. Some
                           (case r2 of Inl e \<Rightarrow> Inl e
                            | Inr (_, c2) \<Rightarrow>
                                (case set_child ch1 (key ! matchlen) c2 of
                                   Inl e \<Rightarrow> Inl e
                                 | Inr ch2 \<Rightarrow>
                                     if matchlen = 0 then Inr (True, FullNode ch2)
                                     else Inr (True, ShortNode (take matchlen key) (FullNode ch2)))))))
      | FullNode ch \<Rightarrow>
          if unat (key ! 0) \<ge> length ch then Some (Inl TriePanic)
          else trie_insert db (ch ! unat (key ! 0)) (path @ [key ! 0]) (drop 1 key) val \<bind> (\<lambda>r. Some
            (case r of Inl e \<Rightarrow> Inl e
             | Inr (dirty, nn) \<Rightarrow> if \<not> dirty then Inr (False, n) else Inr (True, FullNode (ch[unat (key ! 0) := nn]))))
      | NilNode \<Rightarrow> Some (Inr (True, ShortNode key val))
      | HashNode h \<Rightarrow>
          (case resolveHash db h path of
             Inl e \<Rightarrow> Some (Inl e)
           | Inr rn \<Rightarrow> trie_insert db rn path key val \<bind> (\<lambda>r. Some
               (case r of Inl e \<Rightarrow> Inl e
                | Inr (dirty, nn) \<Rightarrow> if \<not> dirty then Inr (False, rn) else Inr (True, nn))))
      | ValueNode v \<Rightarrow> Some (Inl TriePanic))"

section \<open>Deletion\<close>

text \<open>The loop over the children: the index of the only entry that is left, \<open>-2\<close> when there are more, \<open>-1\<close>
  when there is none.\<close>

fun only_child :: "int \<Rightarrow> nat \<Rightarrow> node list \<Rightarrow> int" where
  "only_child pos i [] = pos"
| "only_child pos i (c # cs) =
     (if c \<noteq> NilNode then if pos = - 1 then only_child (int i) (i + 1) cs else - 2 else only_child pos (i + 1) cs)"

text \<open>What becomes of a branch after a deletion below it.\<close>

definition shrink_full :: "(bytes \<Rightarrow> node option) \<Rightarrow> bytes \<Rightarrow> node list \<Rightarrow> trie_error + (bool \<times> node)" where
  "shrink_full db path ch =
     (let pos = only_child (- 1) 0 ch in
      if pos \<ge> 0 then
        let i = nat pos in
        if i \<noteq> 16 then
          (case resolve db (ch ! i) path of
             Inl e \<Rightarrow> Inl e
           | Inr (ShortNode ckey cval) \<Rightarrow> Inr (True, ShortNode (of_nat i # ckey) cval)
           | Inr _ \<Rightarrow> Inr (True, ShortNode [of_nat i] (ch ! i)))
        else Inr (True, ShortNode [of_nat i] (ch ! i))
      else Inr (True, FullNode ch))"

partial_function (option) trie_delete ::
  "(bytes \<Rightarrow> node option) \<Rightarrow> node \<Rightarrow> bytes \<Rightarrow> bytes \<Rightarrow> (bool \<times> node) trie_res" where
  "trie_delete db n path key =
     (case n of
        ShortNode nkey nval \<Rightarrow>
          let matchlen = prefixLen key nkey in
          if matchlen < length nkey then Some (Inr (False, n))
          else if matchlen = length key then Some (Inr (True, NilNode))
          else trie_delete db nval (path @ take (length nkey) key) (drop (length nkey) key) \<bind> (\<lambda>r. Some
            (case r of Inl e \<Rightarrow> Inl e
             | Inr (dirty, child) \<Rightarrow>
                 if \<not> dirty then Inr (False, n)
                 else (case child of
                         ShortNode ckey cval \<Rightarrow> Inr (True, ShortNode (nkey @ ckey) cval)
                       | _ \<Rightarrow> Inr (True, ShortNode nkey child))))
      | FullNode ch \<Rightarrow>
          if length key = 0 \<or> unat (key ! 0) \<ge> length ch then Some (Inl TriePanic)
          else trie_delete db (ch ! unat (key ! 0)) (path @ [key ! 0]) (drop 1 key) \<bind> (\<lambda>r. Some
            (case r of Inl e \<Rightarrow> Inl e
             | Inr (dirty, nn) \<Rightarrow>
                 if \<not> dirty then Inr (False, n) else shrink_full db path (ch[unat (key ! 0) := nn])))
      | ValueNode v \<Rightarrow> Some (Inr (True, NilNode))
      | NilNode \<Rightarrow> Some (Inr (False, NilNode))
      | HashNode h \<Rightarrow>
          (case resolveHash db h path of
             Inl e \<Rightarrow> Some (Inl e)
           | Inr rn \<Rightarrow> trie_delete db rn path key \<bind> (\<lambda>r. Some
               (case r of Inl e \<Rightarrow> Inl e
                | Inr (dirty, nn) \<Rightarrow> if \<not> dirty then Inr (False, rn) else Inr (True, nn)))))"

section \<open>The operations on keys\<close>

definition TryDelete :: "(bytes \<Rightarrow> node option) \<Rightarrow> node \<Rightarrow> bytes \<Rightarrow> node trie_res" where
  "TryDelete db root key =
     trie_delete db root [] (keybytesToHex key) \<bind> (\<lambda>r. Some (case r of Inl e \<Rightarrow> Inl e | Inr (_, n) \<Rightarrow> Inr n))"

definition TryUpdate :: "(bytes \<Rightarrow> node option) \<Rightarrow> node \<Rightarrow> bytes \<Rightarrow> bytes \<Rightarrow> node trie_res" where
  "TryUpdate db root key val =
     (if length val \<noteq> 0
      then trie_insert db root [] (keybytesToHex key) (ValueNode val) \<bind>
             (\<lambda>r. Some (case r of Inl e \<Rightarrow> Inl e | Inr (_, n) \<Rightarrow> Inr n))
      else trie_delete db root [] (keybytesToHex key) \<bind>
             (\<lambda>r. Some (case r of Inl e \<Rightarrow> Inl e | Inr (_, n) \<Rightarrow> Inr n)))"

text \<open>\<open>New\<close>: the zero hash and the hash of the empty trie give an empty trie.\<close>

definition emptyRoot :: bytes where
  "emptyRoot = [0x56, 0xe8, 0x1f, 0x17, 0x1b, 0xcc, 0x55, 0xa6, 0xff, 0x83, 0x45, 0xe6, 0x92, 0xc0, 0xf8, 0x6e,
     0x5b, 0x48, 0xe0, 0x1b, 0x99, 0x6c, 0xad, 0xc0, 0x01, 0x62, 0x2f, 0xb5, 0xe3, 0x63, 0xb4, 0x21]"

definition trie_New :: "(bytes \<Rightarrow> node option) \<Rightarrow> bytes \<Rightarrow> trie_error + node" where
  "trie_New db root =
     (if root \<noteq> replicate 32 0 \<and> root \<noteq> emptyRoot then resolveHash db root [] else Inr NilNode)"

end
