(* ===== verification/Trie_Refine.thy ===== *)
theory Trie_Refine
  imports Trie_Ops
begin

text \<open>
  The trie implements a map (\<open>trie/trie.go\<close>).

  \<open>rep db n full f\<close> says that node \<open>n\<close>, with the unloaded nodes of \<open>db\<close>, is a well-formed trie in canonical
  form that stores the map \<open>f\<close> from hex keys to values; \<open>full\<close> tells whether its top, once loaded, is a branch.
  Canonical means what the comments of \<open>delete\<close> rely on: a branch has at least two children, the child of an
  extension is a branch. The operations return on every such trie, keep it one, and act on the map as
  lookup, update and removal.
\<close>

definition tkey :: "bytes \<Rightarrow> bool" where
  "tkey k \<longleftrightarrow> (\<exists>ns. nibbles ns \<and> k = ns @ [16])"

lemma tkey_Cons: "tkey (x # r) \<longleftrightarrow> (x = 16 \<and> r = []) \<or> (x < 16 \<and> tkey r)"
proof
  assume "tkey (x # r)"
  then obtain ns where ns: "nibbles ns" "x # r = ns @ [16]" by (auto simp: tkey_def)
  then show "(x = 16 \<and> r = []) \<or> (x < 16 \<and> tkey r)" by (cases ns) (auto simp: tkey_def)
next
  assume a: "(x = 16 \<and> r = []) \<or> (x < 16 \<and> tkey r)"
  show "tkey (x # r)"
  proof (cases "x = 16 \<and> r = []")
    case True
    then show ?thesis by (auto simp: tkey_def intro: exI [of _ "[]"])
  next
    case False
    then obtain ns where "x < 16" "nibbles ns" "r = ns @ [16]" using a by (auto simp: tkey_def)
    then show ?thesis by (auto simp: tkey_def intro!: exI [of _ "x # ns"])
  qed
qed

lemma tkey_Nil [simp]: "\<not> tkey []"
  by (simp add: tkey_def)

lemma tkey_append: "nibbles p \<Longrightarrow> tkey (p @ k) = tkey k"
  by (induction p) (auto simp: tkey_Cons)

lemma tkey_keybytes: "tkey (keybytesToHex key)"
  unfolding tkey_def keybytesToHex_def using nibbles_keybytes by blast

lemma tkey_prefix: "tkey a \<Longrightarrow> tkey b \<Longrightarrow> prefix a b \<Longrightarrow> a = b"
proof (induction a arbitrary: b)
  case (Cons x a)
  then obtain b' where b: "b = x # b'" "prefix a b'" by (cases b) auto
  then show ?case using Cons by (auto simp: tkey_Cons)
qed simp

lemma tkey_not_nibble_prefix: "tkey a \<Longrightarrow> nibbles b \<Longrightarrow> \<not> prefix a b"
  by (auto simp: tkey_def prefix_def)

section \<open>The maps of the nodes\<close>

definition m_ext :: "bytes \<Rightarrow> (bytes \<Rightarrow> bytes option) \<Rightarrow> bytes \<Rightarrow> bytes option" where
  "m_ext p f k = (if prefix p k then f (drop (length p) k) else None)"

definition m_full :: "(nat \<Rightarrow> bytes \<Rightarrow> bytes option) \<Rightarrow> bytes \<Rightarrow> bytes option" where
  "m_full F k = (case k of [] \<Rightarrow> None | x # r \<Rightarrow> if unat x < 17 then F (unat x) r else None)"

lemma m_ext_append [simp]: "m_ext p f (p @ k) = f k"
  by (simp add: m_ext_def)

lemma m_ext_upd: "(m_ext p f)(p @ k := o') = m_ext p (f(k := o'))"
  by (rule ext) (auto simp: m_ext_def prefix_def)

lemma m_ext_m_ext: "m_ext p (m_ext q f) = m_ext (p @ q) f"
  by (rule ext) (auto simp: m_ext_def prefix_def)

lemma m_ext_leaf: "m_ext p [k \<mapsto> v] = [p @ k \<mapsto> v]"
  by (rule ext) (auto simp: m_ext_def prefix_def)

lemma m_full_Cons [simp]: "unat x < 17 \<Longrightarrow> m_full F (x # r) = F (unat x) r"
  by (simp add: m_full_def)

lemma m_full_upd:
  assumes "unat x < 17"
  shows "(m_full F)(x # r := o') = m_full (F(unat x := (F (unat x))(r := o')))"
proof
  fix k
  show "((m_full F)(x # r := o')) k = m_full (F(unat x := (F (unat x))(r := o'))) k"
    using assms by (cases k) (auto simp: m_full_def dest: unsigned_word_eqI)
qed

lemma m_full_single:
  assumes "unat x < 17" "\<forall>i < 17. i \<noteq> unat x \<longrightarrow> F i = Map.empty"
  shows "m_full F = m_ext [x] (F (unat x))"
proof
  fix k
  show "m_full F k = m_ext [x] (F (unat x)) k"
    using assms by (cases k) (auto simp: m_full_def m_ext_def dest: unsigned_word_eqI)
qed

lemma tkey_index: "tkey (x # r) \<Longrightarrow> unat x < 17" "tkey (x # r) \<Longrightarrow> unat x = 16 \<longleftrightarrow> r = []"
proof -
  assume t: "tkey (x # r)"
  have "x < 16 \<longleftrightarrow> unat x < 16" by (simp add: word_less_nat_alt)
  then show "unat x < 17" "unat x = 16 \<longleftrightarrow> r = []" using t by (auto simp: tkey_Cons)
qed

section \<open>The representation\<close>

inductive rep :: "(bytes \<Rightarrow> node option) \<Rightarrow> node \<Rightarrow> bool \<Rightarrow> (bytes \<Rightarrow> bytes option) \<Rightarrow> bool" for db where
  leaf: "tkey key \<Longrightarrow> rep db (ShortNode key (ValueNode v)) False [key \<mapsto> v]"
| extension: "key \<noteq> [] \<Longrightarrow> nibbles key \<Longrightarrow> rep db c True f \<Longrightarrow> rep db (ShortNode key c) False (m_ext key f)"
| branch: "length ch = 17 \<Longrightarrow> (\<And>i. i < 17 \<Longrightarrow> ch ! i = NilNode \<Longrightarrow> F i = Map.empty) \<Longrightarrow>
    (\<And>i. i < 16 \<Longrightarrow> ch ! i \<noteq> NilNode \<Longrightarrow> \<exists>b. rep db (ch ! i) b (F i)) \<Longrightarrow>
    (ch ! 16 \<noteq> NilNode \<Longrightarrow> \<exists>v. ch ! 16 = ValueNode v \<and> F 16 = [[] \<mapsto> v]) \<Longrightarrow>
    2 \<le> card {i. i < 17 \<and> ch ! i \<noteq> NilNode} \<Longrightarrow> rep db (FullNode ch) True (m_full F)"
| unloaded: "db h = Some n \<Longrightarrow> (\<exists>k c. n = ShortNode k c) \<or> (\<exists>ch. n = FullNode ch) \<Longrightarrow> rep db n b f \<Longrightarrow>
    rep db (HashNode h) b f"

inductive_cases rep_NilE: "rep db NilNode b f"
inductive_cases rep_ValueE: "rep db (ValueNode v) b f"
inductive_cases rep_ShortE: "rep db (ShortNode key c) b f"
inductive_cases rep_FullE: "rep db (FullNode ch) b f"

lemma rep_FullD: "rep db (FullNode ch) b f \<Longrightarrow> b"
  by (cases rule: rep.cases) auto

lemma rep_not_nil: "rep db n b f \<Longrightarrow> n \<noteq> NilNode"
  using rep_NilE by blast

text \<open>A whole trie may be empty.\<close>

definition trie_rep :: "(bytes \<Rightarrow> node option) \<Rightarrow> node \<Rightarrow> (bytes \<Rightarrow> bytes option) \<Rightarrow> bool" where
  "trie_rep db n f \<longleftrightarrow> (n = NilNode \<and> f = Map.empty) \<or> (\<exists>b. rep db n b f)"

text \<open>What may stand at index \<open>i\<close> of a branch.\<close>

definition child_rep :: "(bytes \<Rightarrow> node option) \<Rightarrow> nat \<Rightarrow> node \<Rightarrow> (bytes \<Rightarrow> bytes option) \<Rightarrow> bool" where
  "child_rep db i c f \<longleftrightarrow> (c = NilNode \<and> f = Map.empty) \<or> (i < 16 \<and> (\<exists>b. rep db c b f))
     \<or> (i = 16 \<and> (\<exists>v. c = ValueNode v \<and> f = [[] \<mapsto> v]))"

lemma branchI:
  assumes "length ch = 17" "\<And>i. i < 17 \<Longrightarrow> child_rep db i (ch ! i) (F i)" "2 \<le> card {i. i < 17 \<and> ch ! i \<noteq> NilNode}"
  shows "rep db (FullNode ch) True (m_full F)"
proof (rule rep.branch [OF assms(1) _ _ _ assms(3)])
  show "F i = Map.empty" if "i < 17" "ch ! i = NilNode" for i
    using assms(2) [OF that(1)] that(2) by (auto simp: child_rep_def elim: rep_NilE)
  show "\<exists>b. rep db (ch ! i) b (F i)" if "i < 16" "ch ! i \<noteq> NilNode" for i
    using assms(2) [of i] that by (auto simp: child_rep_def)
  show "\<exists>v. ch ! 16 = ValueNode v \<and> F 16 = [[] \<mapsto> v]" if "ch ! 16 \<noteq> NilNode"
    using assms(2) [of 16] that by (auto simp: child_rep_def)
qed

lemma branch_child:
  assumes "length ch = 17" "\<And>i. i < 17 \<Longrightarrow> ch ! i = NilNode \<Longrightarrow> F i = Map.empty"
    "\<And>i. i < 16 \<Longrightarrow> ch ! i \<noteq> NilNode \<Longrightarrow> \<exists>b. rep db (ch ! i) b (F i)"
    "ch ! 16 \<noteq> NilNode \<Longrightarrow> \<exists>v. ch ! 16 = ValueNode v \<and> F 16 = [[] \<mapsto> v]" "i < 17"
  shows "child_rep db i (ch ! i) (F i)"
proof (cases "ch ! i = NilNode")
  case False
  then show ?thesis using assms(3-5) unfolding child_rep_def by (cases "i = 16") auto
qed (use assms(2,5) in \<open>simp add: child_rep_def\<close>)

lemma branch_update:
  assumes "length ch = 17" "\<And>i. i < 17 \<Longrightarrow> child_rep db i (ch ! i) (F i)" "2 \<le> card {i. i < 17 \<and> ch ! i \<noteq> NilNode}"
    "child_rep db j c g" "c \<noteq> NilNode" "j < 17"
  shows "rep db (FullNode (ch[j := c])) True (m_full (F(j := g)))"
proof (rule branchI)
  show "length (ch[j := c]) = 17" using assms(1) by simp
  show "child_rep db i (ch[j := c] ! i) ((F(j := g)) i)" if "i < 17" for i
    using assms that by (cases "i = j") simp_all
  have "{i. i < 17 \<and> ch ! i \<noteq> NilNode} \<subseteq> {i. i < 17 \<and> ch[j := c] ! i \<noteq> NilNode}"
  proof
    fix x assume "x \<in> {i. i < 17 \<and> ch ! i \<noteq> NilNode}"
    then show "x \<in> {i. i < 17 \<and> ch[j := c] ! i \<noteq> NilNode}" using assms(1,5) by (cases "x = j") simp_all
  qed
  then have "card {i. i < 17 \<and> ch ! i \<noteq> NilNode} \<le> card {i. i < 17 \<and> ch[j := c] ! i \<noteq> NilNode}"
    by (rule card_mono [rotated]) simp
  then show "2 \<le> card {i. i < 17 \<and> ch[j := c] ! i \<noteq> NilNode}" using assms(3) by linarith
qed

section \<open>Lookup\<close>

lemma tkey_drop_length: "tkey (drop pos key) \<Longrightarrow> pos < length key"
  by (cases "pos < length key") simp_all

lemma drop_Cons_nth: "drop pos key = x # r \<Longrightarrow> pos < length key \<and> key ! pos = x \<and> drop (pos + 1) key = r"
proof -
  assume e: "drop pos key = x # r"
  then have l: "pos < length key" by (cases "pos < length key") simp_all
  then show ?thesis using e Cons_nth_drop_Suc [OF l] by simp
qed

lemma tryGet_rep:
  "rep db n b f \<Longrightarrow> tkey (drop pos key) \<Longrightarrow>
     \<exists>nn did. tryGet db n key pos = Some (Inr (f (drop pos key), nn, did)) \<and> rep db nn b f \<and> (\<not> did \<longrightarrow> nn = n)"
proof (induction arbitrary: pos rule: rep.induct)
  case (leaf k v)
  have len: "pos < length key" using leaf.prems by (rule tkey_drop_length)
  show ?case
  proof (cases "length (drop pos key) < length k \<or> k \<noteq> take (length k) (drop pos key)")
    case True
    then have "drop pos key \<noteq> k" by auto
    then show ?thesis using True rep.leaf [OF leaf.hyps, of db v] len
      by (subst tryGet.simps) auto
  next
    case False
    then have "prefix k (drop pos key)" by (metis take_is_prefix)
    then have e: "drop pos key = k" using tkey_prefix leaf by metis
    have "tryGet db (ValueNode v) key (pos + length k) = Some (Inr (Some v, ValueNode v, False))"
      by (subst tryGet.simps) simp
    then show ?thesis using False e rep.leaf [OF leaf.hyps, of db v] len
      by (subst tryGet.simps) auto
  qed
next
  case (extension k c f)
  have len: "pos < length key" using extension.prems by (rule tkey_drop_length)
  have r: "rep db (ShortNode k c) False (m_ext k f)" by (rule rep.extension [OF extension.hyps])
  show ?case
  proof (cases "length (drop pos key) < length k \<or> k \<noteq> take (length k) (drop pos key)")
    case True
    then have "\<not> prefix k (drop pos key)"
      using prefix_length_le [of k "drop pos key"] by (auto simp: prefix_def simp del: length_drop)
    then show ?thesis using True r len by (subst tryGet.simps) (auto simp: m_ext_def)
  next
    case False
    then have e: "drop pos key = k @ drop (pos + length k) key"
      by (metis add.commute append_take_drop_id drop_drop)
    then have "tkey (drop (pos + length k) key)" using extension.prems extension.hyps(2) tkey_append by metis
    from extension.IH [OF this] obtain nn did where
      g: "tryGet db c key (pos + length k) = Some (Inr (f (drop (pos + length k) key), nn, did))" "rep db nn True f" "\<not> did \<longrightarrow> nn = c"
      by blast
    have v: "m_ext k f (drop pos key) = f (drop (pos + length k) key)" by (subst e) simp
    have "rep db (ShortNode k nn) False (m_ext k f)" by (rule rep.extension [OF extension.hyps(1,2) g(2)])
    then show ?thesis using False g v r len by (subst tryGet.simps) auto
  qed
next
  case (branch ch F)
  obtain x r where e: "drop pos key = x # r" using branch.prems by (cases "drop pos key") auto
  then have kp: "pos < length key" "key ! pos = x" "drop (pos + 1) key = r"
    using drop_Cons_nth [OF e] by auto
  have t: "tkey (x # r)" using branch.prems e by simp
  note ix = tkey_index [OF t]
  have IH: "\<exists>b. rep db (ch ! i) b (F i)" if "i < 16" "ch ! i \<noteq> NilNode" for i using branch.IH(1) that by blast
  have crep: "child_rep db i (ch ! i) (F i)" if "i < 17" for i
    by (rule branch_child [OF branch.hyps(1,2) IH branch.hyps(3) that])
  have R: "rep db (FullNode ch) True (m_full F)" by (rule branchI [OF branch.hyps(1) crep branch.hyps(4)])
  have "\<exists>nn did. tryGet db (ch ! unat x) key (pos + 1) = Some (Inr (F (unat x) r, nn, did))
      \<and> child_rep db (unat x) nn (F (unat x)) \<and> (\<not> did \<longrightarrow> nn = ch ! unat x) \<and> (did \<longrightarrow> nn \<noteq> NilNode)"
  proof (cases "ch ! unat x = NilNode")
    case True
    then have "F (unat x) = Map.empty" using branch.hyps(2) ix(1) by blast
    then show ?thesis using True by (subst tryGet.simps) (auto simp: child_rep_def)
  next
    case nn: False
    show ?thesis
    proof (cases "unat x = 16")
      case True
      then obtain v where "ch ! 16 = ValueNode v" "F 16 = [[] \<mapsto> v]" using branch.hyps(3) nn by auto
      then show ?thesis using True ix(2) by (subst tryGet.simps) (auto simp: child_rep_def)
    next
      case False
      then have "unat x < 16" "tkey (drop (pos + 1) key)" using ix t kp(3) by (auto simp: tkey_Cons)
      then show ?thesis using branch.IH(1) [OF _ nn] kp(3) rep_not_nil by (fastforce simp: child_rep_def)
    qed
  qed
  then obtain nn did where g: "tryGet db (ch ! unat x) key (pos + 1) = Some (Inr (F (unat x) r, nn, did))"
    "child_rep db (unat x) nn (F (unat x))" "\<not> did \<longrightarrow> nn = ch ! unat x" "did \<longrightarrow> nn \<noteq> NilNode" by blast
  have "did \<Longrightarrow> rep db (FullNode (ch[unat x := nn])) True (m_full F)"
    using branch_update [OF branch.hyps(1) crep branch.hyps(4) g(2) _ ix(1)] g(4) by simp
  then show ?case using e kp g R ix(1) branch.hyps(1) by (subst tryGet.simps) auto
next
  case (unloaded h n b f)
  from unloaded.IH [OF unloaded.prems] obtain nn did where
    "tryGet db n key pos = Some (Inr (f (drop pos key), nn, did))" "rep db nn b f" by blast
  then show ?case using unloaded.hyps by (subst tryGet.simps) (auto simp: resolveHash_def intro!: exI [of _ True])
qed

section \<open>Insertion\<close>

lemma insert_Nil [simp]:
  "trie_insert db NilNode path key val = Some (Inr (True, if key = [] then val else ShortNode key val))"
  by (subst trie_insert.simps) simp

lemma child_leaf:
  assumes "tkey (x # r)"
  shows "child_rep db (unat x) (if r = [] then ValueNode v else ShortNode r (ValueNode v)) [r \<mapsto> v]"
proof (cases "r = []")
  case True
  then show ?thesis using tkey_index(2) [OF assms] by (simp add: child_rep_def)
next
  case False
  then have "tkey r" "unat x < 16" using assms tkey_index [OF assms] by (auto simp: tkey_Cons)
  then show ?thesis using False rep.leaf by (auto simp: child_rep_def)
qed

lemma child_extension:
  assumes "nibbles (y # s)" "rep db c True f"
  shows "child_rep db (unat y) (if s = [] then c else ShortNode s c) (m_ext s f)"
proof -
  have "unat y < 16" using assms(1) by (simp add: word_less_nat_alt)
  moreover have "m_ext [] f = f" by (rule ext) (simp add: m_ext_def)
  ultimately show ?thesis using assms rep.extension [of s db c f] by (auto simp: child_rep_def)
qed

text \<open>A branch made of two children.\<close>

lemma branch_two:
  assumes "x \<noteq> y" "unat x < 17" "unat y < 17" "child_rep db (unat y) c g" "c \<noteq> NilNode"
    "child_rep db (unat x) c' [r \<mapsto> v]" "c' \<noteq> NilNode"
  shows "rep db (FullNode ((replicate 17 NilNode)[unat y := c, unat x := c'])) True ((m_ext [y] g)(x # r \<mapsto> v))"
proof -
  have ne: "unat x \<noteq> unat y" using assms(1) unsigned_word_eqI by blast
  let ?F = "(\<lambda>_. Map.empty)(unat y := g)"
  have e: "m_full ?F = m_ext [y] g" using m_full_single [OF assms(3), of ?F] by simp
  have "?F (unat x) = Map.empty" using ne by simp
  then have m: "(m_ext [y] g)(x # r \<mapsto> v) = m_full (?F(unat x := [r \<mapsto> v]))"
    unfolding e [symmetric] m_full_upd [OF assms(2)] by (rule arg_cong)
  let ?ch = "(replicate 17 NilNode)[unat y := c, unat x := c']"
  have "{unat x, unat y} \<subseteq> {i. i < 17 \<and> ?ch ! i \<noteq> NilNode}"
    using assms ne by (auto simp: nth_list_update)
  then have "card {unat x, unat y} \<le> card {i. i < 17 \<and> ?ch ! i \<noteq> NilNode}" by (rule card_mono [rotated]) simp
  then have "2 \<le> card {i. i < 17 \<and> ?ch ! i \<noteq> NilNode}" using ne by simp
  moreover have "child_rep db i (?ch ! i) ((?F(unat x := [r \<mapsto> v])) i)" if "i < 17" for i
    using assms ne that by (auto simp: nth_list_update child_rep_def)
  ultimately show ?thesis unfolding m by (intro branchI) simp_all
qed

lemma prefixLen_common: "x \<noteq> y \<Longrightarrow> prefixLen (p @ x # r) (p @ y # s) = length p"
  by (induction p) auto

lemma insert_split:
  assumes "x \<noteq> y" "nibbles p" "tkey (p @ x # r)" "unat y < 17"
    "child_rep db (unat y) (if s = [] then nval else ShortNode s nval) g" "nval \<noteq> NilNode"
  shows "\<exists>nn b. trie_insert db (ShortNode (p @ y # s) nval) path (p @ x # r) (ValueNode v) = Some (Inr (True, nn))
    \<and> rep db nn b ((m_ext (p @ [y]) g)(p @ x # r \<mapsto> v))"
proof -
  let ?c = "if s = [] then nval else ShortNode s nval" and ?c' = "if r = [] then ValueNode v else ShortNode r (ValueNode v)"
  let ?ch = "(replicate 17 NilNode)[unat y := ?c, unat x := ?c']"
  have t: "tkey (x # r)" using assms(2,3) tkey_append by blast
  have R: "rep db (FullNode ?ch) True ((m_ext [y] g)(x # r \<mapsto> v))"
    by (rule branch_two [OF assms(1) tkey_index(1) [OF t] assms(4,5) _ child_leaf [OF t]]) (use assms(6) in auto)
  have m: "(m_ext (p @ [y]) g)(p @ x # r \<mapsto> v) = m_ext p ((m_ext [y] g)(x # r \<mapsto> v))"
    by (simp add: m_ext_m_ext [symmetric] m_ext_upd)
  have ins: "trie_insert db (ShortNode (p @ y # s) nval) path (p @ x # r) (ValueNode v)
      = Some (Inr (True, if p = [] then FullNode ?ch else ShortNode p (FullNode ?ch)))"
    using assms(1,4) tkey_index(1) [OF t]
    by (subst trie_insert.simps) (simp add: prefixLen_common set_child_def nth_append)
  have "m_ext [] h = h" for h by (rule ext) (simp add: m_ext_def)
  then have "\<exists>b. rep db (if p = [] then FullNode ?ch else ShortNode p (FullNode ?ch)) b (m_ext p ((m_ext [y] g)(x # r \<mapsto> v)))"
    using R rep.extension [OF _ assms(2) R] by (cases "p = []") auto
  then show ?thesis using ins m by auto
qed

lemma split_mismatch:
  assumes "prefixLen a b < length b" "prefixLen a b < length a"
  obtains p x r y s where "a = p @ x # r" "b = p @ y # s" "x \<noteq> y"
proof
  let ?l = "prefixLen a b"
  show "a = take ?l a @ a ! ?l # drop (Suc ?l) a" by (rule id_take_nth_drop [OF assms(2)])
  show "b = take ?l a @ b ! ?l # drop (Suc ?l) b" 
    using id_take_nth_drop [OF assms(1)] prefixLen_take [of a b] by simp
  show "a ! ?l \<noteq> b ! ?l" by (rule prefixLen_differ [OF assms(2,1)])
qed

lemma nibbles_prefix: "prefix p k \<Longrightarrow> nibbles k \<Longrightarrow> nibbles p"
  by (auto simp: prefix_def nibbles_def)

lemma tkey_split: "tkey (p @ y # s) \<Longrightarrow> nibbles p \<and> tkey (y # s)"
  by (induction p) (auto simp: tkey_Cons)

lemma insert_rep:
  "rep db n b f \<Longrightarrow> tkey key \<Longrightarrow>
     \<exists>d nn b'. trie_insert db n path key (ValueNode v) = Some (Inr (d, nn)) \<and> rep db nn b' (f(key \<mapsto> v))
       \<and> (b \<longrightarrow> b') \<and> (\<not> d \<longrightarrow> f key = Some v)"
proof (induction arbitrary: key path rule: rep.induct)
  case (leaf k w)
  show ?case
  proof (cases "prefixLen key k = length k")
    case True
    then have "key = k" using tkey_prefix [OF leaf.hyps leaf.prems] prefixLen_full by metis
    moreover have "trie_insert db (ValueNode w) (path @ key) [] (ValueNode v) = Some (Inr (w \<noteq> v, ValueNode v))"
      by (subst trie_insert.simps) simp
    ultimately show ?thesis using True leaf rep.leaf [of k db] by (subst trie_insert.simps) auto
  next
    case False
    then have "prefixLen key k < length k" using prefixLen_le(2) [of key k] by linarith
    moreover have "prefixLen key k < length key"
    proof (rule ccontr)
      assume "\<not> ?thesis"
      then have "prefixLen key k = length key" using prefixLen_le(1) [of key k] by linarith
      then have "prefix key k" using prefixLen_take [of key k] by (metis take_all order_refl take_is_prefix)
      then show False using tkey_prefix [OF leaf.prems leaf.hyps] False \<open>prefixLen key k = length key\<close> by simp
    qed
    ultimately obtain p x r y s where e: "key = p @ x # r" "k = p @ y # s" "x \<noteq> y" by (rule split_mismatch)
    have ts: "nibbles p" "tkey (y # s)" using tkey_split leaf.hyps e by blast+
    obtain nn b where i: "trie_insert db (ShortNode k (ValueNode w)) path key (ValueNode v) = Some (Inr (True, nn))"
      "rep db nn b ((m_ext (p @ [y]) [s \<mapsto> w])(key \<mapsto> v))"
      using insert_split [OF e(3) ts(1) _ tkey_index(1) [OF ts(2)] child_leaf [OF ts(2), of db w], of r path v]
        leaf.prems unfolding e by auto
    have "m_ext (p @ [y]) [s \<mapsto> w] = [k \<mapsto> w]" by (simp add: m_ext_leaf e)
    with i(2) have "rep db nn b ([k \<mapsto> w](key \<mapsto> v))" by (simp only:)
    with i(1) show ?thesis by blast
  qed
next
  case (extension k c f)
  show ?case
  proof (cases "prefixLen key k = length k")
    case True
    then obtain r where r: "key = k @ r" using prefixLen_full by (metis prefix_def)
    then have "tkey r" using extension.prems extension.hyps(2) tkey_append by blast
    from extension.IH [OF this] obtain d nn where
      i: "trie_insert db c (path @ k) r (ValueNode v) = Some (Inr (d, nn))" "rep db nn True (f(r \<mapsto> v))"
        "\<not> d \<longrightarrow> f r = Some v" by (metis (full_types))
    show ?thesis
    proof (cases d)
      case True
      have "rep db (ShortNode k nn) False ((m_ext k f)(key \<mapsto> v))"
        using rep.extension [OF extension.hyps(1,2) i(2)] by (simp add: r m_ext_upd)
      then show ?thesis using True \<open>prefixLen key k = length k\<close> r i extension.hyps(1) extension.prems
        by (subst trie_insert.simps) auto
    next
      case False
      then have "(m_ext k f)(key \<mapsto> v) = m_ext k f" using i(3) by (simp add: r m_ext_upd fun_upd_idem)
      then show ?thesis using False \<open>prefixLen key k = length k\<close> r i extension.prems
          rep.extension [OF extension.hyps]
        by (subst trie_insert.simps) auto
    qed
  next
    case False
    then have "prefixLen key k < length k" using prefixLen_le(2) [of key k] by linarith
    moreover have "prefixLen key k < length key"
    proof (rule ccontr)
      assume "\<not> ?thesis"
      then have "prefixLen key k = length key" using prefixLen_le(1) [of key k] by linarith
      then have "prefix key k" using prefixLen_take [of key k] by (metis take_all order_refl take_is_prefix)
      then show False using tkey_not_nibble_prefix [OF extension.prems extension.hyps(2)] by blast
    qed
    ultimately obtain p x r y s where e: "key = p @ x # r" "k = p @ y # s" "x \<noteq> y" by (rule split_mismatch)
    have ts: "nibbles p" "nibbles (y # s)" using extension.hyps(2) e by (auto simp: nibbles_def)
    have y: "unat y < 17" using ts(2) by (simp add: word_less_nat_alt)
    obtain nn b where i: "trie_insert db (ShortNode k c) path key (ValueNode v) = Some (Inr (True, nn))"
      "rep db nn b ((m_ext (p @ [y]) (m_ext s f))(key \<mapsto> v))"
      using insert_split [OF e(3) ts(1) _ y child_extension [OF ts(2) extension.hyps(3)], of r path v]
        extension.prems rep_not_nil [OF extension.hyps(3)] unfolding e by auto
    have "m_ext (p @ [y]) (m_ext s f) = m_ext k f" by (simp add: m_ext_m_ext e)
    with i(2) have "rep db nn b ((m_ext k f)(key \<mapsto> v))" by (simp only:)
    with i(1) show ?thesis by blast
  qed
next
  case (branch ch F)
  obtain x r where e: "key = x # r" using branch.prems by (cases key) auto
  have t: "tkey (x # r)" using branch.prems e by simp
  note ix = tkey_index [OF t]
  have IH: "\<exists>b. rep db (ch ! i) b (F i)" if "i < 16" "ch ! i \<noteq> NilNode" for i using branch.IH(1) that by blast
  have crep: "child_rep db i (ch ! i) (F i)" if "i < 17" for i
    by (rule branch_child [OF branch.hyps(1,2) IH branch.hyps(3) that])
  have "\<exists>d nn. trie_insert db (ch ! unat x) (path @ [x]) r (ValueNode v) = Some (Inr (d, nn))
      \<and> child_rep db (unat x) nn ((F (unat x))(r \<mapsto> v)) \<and> nn \<noteq> NilNode \<and> (\<not> d \<longrightarrow> F (unat x) r = Some v)"
  proof (cases "unat x = 16")
    case True
    then have r: "r = []" using ix(2) by simp
    have f: "(F 16)([] \<mapsto> v) = [[] \<mapsto> v]"
      using crep [of 16] by (auto simp: child_rep_def)
    show ?thesis using True r f crep [of 16] by (subst trie_insert.simps) (auto simp: child_rep_def)
  next
    case n16: False
    then have x: "unat x < 16" and tr: "tkey r" using ix t by (auto simp: tkey_Cons)
    show ?thesis
    proof (cases "ch ! unat x = NilNode")
      case True
      then have "F (unat x) = Map.empty" using branch.hyps(2) ix(1) by blast
      then show ?thesis using True x tr rep.leaf [OF tr, of db v] by (auto simp: child_rep_def)
    next
      case False
      from branch.IH(1) [OF x False] tr obtain d nn b' where
        "trie_insert db (ch ! unat x) (path @ [x]) r (ValueNode v) = Some (Inr (d, nn))"
        "rep db nn b' ((F (unat x))(r \<mapsto> v))" "\<not> d \<longrightarrow> F (unat x) r = Some v" by blast
      then show ?thesis using rep_not_nil x by (auto simp: child_rep_def)
    qed
  qed
  then obtain d nn where g: "trie_insert db (ch ! unat x) (path @ [x]) r (ValueNode v) = Some (Inr (d, nn))"
    "child_rep db (unat x) nn ((F (unat x))(r \<mapsto> v))" "nn \<noteq> NilNode" "\<not> d \<longrightarrow> F (unat x) r = Some v" by blast
  show ?case
  proof (cases d)
    case True
    have "rep db (FullNode (ch[unat x := nn])) True ((m_full F)(key \<mapsto> v))"
      using branch_update [OF branch.hyps(1) crep branch.hyps(4) g(2,3) ix(1)] by (simp add: e m_full_upd [OF ix(1)])
    then show ?thesis using True e g ix(1) branch.hyps(1) by (subst trie_insert.simps) auto
  next
    case False
    then have "m_full F key = Some v" using g(4) e ix(1) by simp
    then have "(m_full F)(key \<mapsto> v) = m_full F" by (simp add: fun_upd_idem)
    then show ?thesis using False e g ix(1) branch.hyps(1) branchI [OF branch.hyps(1) crep branch.hyps(4)]
      \<open>m_full F key = Some v\<close> by (subst trie_insert.simps) auto
  qed
next
  case (unloaded h n b f)
  from unloaded.IH [OF unloaded.prems] obtain d nn b' where
    i: "trie_insert db n path key (ValueNode v) = Some (Inr (d, nn))" "rep db nn b' (f(key \<mapsto> v))" "b \<longrightarrow> b'"
      "\<not> d \<longrightarrow> f key = Some v" by blast
  have k: "key \<noteq> []" using unloaded.prems by auto
  have "f(key \<mapsto> v) = f" if "\<not> d" using i(4) that by (simp add: fun_upd_idem)
  then show ?case using unloaded.hyps i k by (subst trie_insert.simps) (auto simp: resolveHash_def)
qed

section \<open>Deletion\<close>

lemma only_child_found: "0 \<le> pos \<Longrightarrow> only_child pos i cs = (if \<forall>c \<in> set cs. c = NilNode then pos else - 2)"
  by (induction cs arbitrary: i) auto

lemma only_child_one:
  "j < length cs \<Longrightarrow> cs ! j \<noteq> NilNode \<Longrightarrow> \<forall>k < length cs. k \<noteq> j \<longrightarrow> cs ! k = NilNode \<Longrightarrow>
     only_child (- 1) i cs = int (i + j)"
proof (induction cs arbitrary: i j)
  case (Cons c cs)
  show ?case
  proof (cases j)
    case 0
    then have "\<forall>d \<in> set cs. d = NilNode" using Cons.prems(3) by (fastforce simp: in_set_conv_nth)
    then show ?thesis using 0 Cons.prems by (simp add: only_child_found)
  next
    case (Suc j')
    then have "c = NilNode" using Cons.prems(3) by force
    moreover have "\<forall>k < length cs. k \<noteq> j' \<longrightarrow> cs ! k = NilNode" using Cons.prems(3) Suc by force
    ultimately show ?thesis using Suc Cons.prems Cons.IH [of j' "i + 1"] by simp
  qed
qed simp

lemma only_child_many:
  "j < k \<Longrightarrow> k < length cs \<Longrightarrow> cs ! j \<noteq> NilNode \<Longrightarrow> cs ! k \<noteq> NilNode \<Longrightarrow> only_child (- 1) i cs = - 2"
proof (induction cs arbitrary: i j k)
  case (Cons c cs)
  show ?case
  proof (cases "c = NilNode")
    case True
    then show ?thesis using Cons.prems Cons.IH [of "j - 1" "k - 1" "i + 1"] by (cases j; cases k) auto
  next
    case False
    have "cs ! (k - 1) \<in> set cs" "cs ! (k - 1) \<noteq> NilNode" using Cons.prems by auto
    then show ?thesis using False by (auto simp: only_child_found)
  qed
qed simp

definition node_shape :: "node \<Rightarrow> bool" where
  "node_shape n \<longleftrightarrow> (\<exists>k c. n = ShortNode k c) \<or> (\<exists>ch. n = FullNode ch)"

definition del_ok :: "(bytes \<Rightarrow> node option) \<Rightarrow> node \<Rightarrow> bool \<Rightarrow> (bytes \<Rightarrow> bytes option) \<Rightarrow> bool" where
  "del_ok db n b f \<longleftrightarrow> (n = NilNode \<and> f = Map.empty \<and> \<not> b) \<or> (node_shape n \<and> (\<exists>b'. rep db n b' f))"

lemma rep_prepend:
  assumes "rep db (ShortNode k c) b f" "nibbles p"
  shows "rep db (ShortNode (p @ k) c) False (m_ext p f)"
  using assms(1)
proof (cases rule: rep.cases)
  case (leaf v)
  then show ?thesis using rep.leaf [of "p @ k" db v] tkey_append [OF assms(2)] by (simp add: m_ext_leaf)
next
  case (extension g)
  have "nibbles (p @ k)" using extension assms(2) by (auto simp: nibbles_def)
  then show ?thesis using rep.extension [of "p @ k" db c g] extension by (simp add: m_ext_m_ext)
qed

lemma resolve_rep:
  assumes "rep db n b f"
  shows "\<exists>n'. resolve db n path = Inr n' \<and> node_shape n' \<and> rep db n' b f"
  using assms
proof (cases rule: rep.cases)
  case (unloaded h m)
  then show ?thesis by (auto simp: resolve_def resolveHash_def node_shape_def)
qed (use assms in \<open>auto simp: resolve_def node_shape_def\<close>)

lemma shrink_rep:
  assumes len: "length ch = 17" and c: "\<And>i. i < 17 \<Longrightarrow> child_rep db i (ch ! i) (F i)"
    and ne: "j < 17" "ch ! j \<noteq> NilNode"
  shows "\<exists>nn b. shrink_full db path ch = Inr (True, nn) \<and> node_shape nn \<and> rep db nn b (m_full F)"
proof (cases "\<exists>k < 17. k \<noteq> j \<and> ch ! k \<noteq> NilNode")
  case True
  then obtain k where k: "k < 17" "k \<noteq> j" "ch ! k \<noteq> NilNode" by blast
  have "only_child (- 1) 0 ch = - 2"
    using only_child_many [of "min j k" "max j k" ch 0] k ne len by (auto simp: min_def max_def split: if_splits)
  moreover have "card {j, k} \<le> card {i. i < 17 \<and> ch ! i \<noteq> NilNode}" using k ne by (intro card_mono) auto
  then have "rep db (FullNode ch) True (m_full F)" using k by (intro branchI len c) auto
  ultimately show ?thesis by (auto simp: shrink_full_def node_shape_def)
next
  case False
  then have oc: "only_child (- 1) 0 ch = int j" using only_child_one [of j ch 0] ne len by auto
  have jn: "unat (of_nat j :: byte) = j" using ne(1) by (simp add: unat_of_nat)
  have "F i = Map.empty" if "i < 17" "i \<noteq> j" for i
  proof -
    have "ch ! i = NilNode" using False that by blast
    then show ?thesis using c [OF that(1)] by (auto simp: child_rep_def elim: rep_NilE)
  qed
  then have m: "m_full F = m_ext [of_nat j] (F j)" using m_full_single [of "of_nat j" F] ne jn by simp
  show ?thesis
  proof (cases "j = 16")
    case True
    then obtain v where v: "ch ! 16 = ValueNode v" "F 16 = [[] \<mapsto> v]"
      using c [of 16] ne by (auto simp: child_rep_def)
    have "tkey [16]" by (simp add: tkey_Cons)
    then show ?thesis using True v oc m rep.leaf [of "[16]" db v]
      by (auto simp: shrink_full_def m_ext_leaf node_shape_def)
  next
    case False
    then obtain b where b: "rep db (ch ! j) b (F j)" using c [of j] ne by (auto simp: child_rep_def)
    then obtain n' where n': "resolve db (ch ! j) path = Inr n'" "node_shape n'" "rep db n' b (F j)"
      using resolve_rep by blast
    have nib: "nibbles [of_nat j]" using False ne jn by (simp add: word_less_nat_alt)
    show ?thesis
    proof (cases "\<exists>k c. n' = ShortNode k c")
      case True
      then obtain k d where d: "n' = ShortNode k d" by blast
      then show ?thesis using rep_prepend [of db k d b "F j" "[of_nat j]"] n' nib oc False m
        by (auto simp: shrink_full_def node_shape_def)
    next
      case nshort: False
      then obtain cs where cs: "n' = FullNode cs" using n'(2) by (auto simp: node_shape_def)
      then have b: "rep db (ch ! j) True (F j)" using n'(3) b rep_FullD by (cases b) auto
      have "rep db (ShortNode [of_nat j] (ch ! j)) False (m_ext [of_nat j] (F j))"
        by (rule rep.extension [OF _ nib b]) simp
      then show ?thesis using cs n' oc False m by (auto simp: shrink_full_def node_shape_def)
    qed
  qed
qed

lemma delete_rep:
  "rep db n b f \<Longrightarrow> tkey key \<Longrightarrow>
     \<exists>d nn. trie_delete db n path key = Some (Inr (d, nn))
       \<and> (if d then del_ok db nn b (f(key := None)) else f key = None \<and> rep db nn b f)"
proof (induction arbitrary: key path rule: rep.induct)
  case (leaf k w)
  show ?case
  proof (cases "prefixLen key k < length k")
    case True
    then have "key \<noteq> k" using prefixLen_full [of key k] by auto
    then show ?thesis using True rep.leaf [OF leaf.hyps, of db w] by (subst trie_delete.simps) auto
  next
    case False
    then have "prefixLen key k = length k" using prefixLen_le(2) [of key k] by linarith
    then have "key = k" using tkey_prefix [OF leaf.hyps leaf.prems] prefixLen_full by metis
    then show ?thesis using False \<open>prefixLen key k = length k\<close> by (subst trie_delete.simps) (auto simp: del_ok_def)
  qed
next
  case (extension k c f)
  have R: "rep db (ShortNode k c) False (m_ext k f)" by (rule rep.extension [OF extension.hyps])
  show ?case
  proof (cases "prefixLen key k < length k")
    case True
    then have "\<not> prefix k key" using prefixLen_full [of key k] by auto
    then show ?thesis using True R by (subst trie_delete.simps) (auto simp: m_ext_def)
  next
    case False
    then have pl: "prefixLen key k = length k" using prefixLen_le(2) [of key k] by linarith
    then obtain r where r: "key = k @ r" using prefixLen_full by (metis prefix_def)
    then have tr: "tkey r" using extension.prems extension.hyps(2) tkey_append by blast
    then have ne: "r \<noteq> []" by auto
    from extension.IH [OF tr] obtain d nn where
      i: "trie_delete db c (path @ k) r = Some (Inr (d, nn))"
        "if d then del_ok db nn True (f(r := None)) else f r = None \<and> rep db nn True f" by blast
    have m: "(m_ext k f)(key := None) = m_ext k (f(r := None))" by (simp add: r m_ext_upd)
    show ?thesis
    proof (cases d)
      case False
      then show ?thesis using pl r ne i R by (subst trie_delete.simps) auto
    next
      case True
      then obtain b' where nn: "node_shape nn" "rep db nn b' (f(r := None))" using i(2) by (auto simp: del_ok_def)
      show ?thesis
      proof (cases "\<exists>k' c'. nn = ShortNode k' c'")
        case True
        then obtain k' c' where s: "nn = ShortNode k' c'" by blast
        then have "rep db (ShortNode (k @ k') c') False ((m_ext k f)(key := None))"
          unfolding m using rep_prepend nn(2) extension.hyps(2) by blast
        then have "del_ok db (ShortNode (k @ k') c') False ((m_ext k f)(key := None))" by (auto simp: del_ok_def node_shape_def)
        moreover have "trie_delete db (ShortNode k c) path key = Some (Inr (True, ShortNode (k @ k') c'))"
          using \<open>d\<close> pl r ne i(1) s by (subst trie_delete.simps) simp
        ultimately show ?thesis by auto
      next
        case False
        then obtain ch where ch: "nn = FullNode ch" using nn(1) by (auto simp: node_shape_def)
        then have "rep db nn True (f(r := None))" using nn(2) rep_FullD by (cases b') auto
        from rep.extension [OF extension.hyps(1,2) this]
        have "del_ok db (ShortNode k nn) False ((m_ext k f)(key := None))" by (auto simp: m del_ok_def node_shape_def)
        moreover have "trie_delete db (ShortNode k c) path key = Some (Inr (True, ShortNode k nn))"
          using \<open>d\<close> pl r ne i(1) ch by (subst trie_delete.simps) simp
        ultimately show ?thesis by auto
      qed
    qed
  qed
next
  case (branch ch F)
  obtain x r where e: "key = x # r" using branch.prems by (cases key) auto
  have t: "tkey (x # r)" using branch.prems e by simp
  note ix = tkey_index [OF t]
  have IH: "\<exists>b. rep db (ch ! i) b (F i)" if "i < 16" "ch ! i \<noteq> NilNode" for i using branch.IH(1) that by blast
  have crep: "child_rep db i (ch ! i) (F i)" if "i < 17" for i
    by (rule branch_child [OF branch.hyps(1,2) IH branch.hyps(3) that])
  have R: "rep db (FullNode ch) True (m_full F)" by (rule branchI [OF branch.hyps(1) crep branch.hyps(4)])
  have "\<exists>d nn. trie_delete db (ch ! unat x) (path @ [x]) r = Some (Inr (d, nn))
      \<and> (if d then child_rep db (unat x) nn ((F (unat x))(r := None)) else F (unat x) r = None)"
  proof (cases "unat x = 16")
    case True
    then have r: "r = []" using ix(2) by simp
    consider "ch ! 16 = NilNode" "F 16 = Map.empty" | w where "ch ! 16 = ValueNode w" "F 16 = [[] \<mapsto> w]"
      using crep [of 16] by (auto simp: child_rep_def)
    then show ?thesis
    proof cases
      case 1
      have "trie_delete db NilNode (path @ [x]) r = Some (Inr (False, NilNode))" by (subst trie_delete.simps) simp
      then show ?thesis using True 1 by (auto intro: exI [of _ False])
    next
      case (2 w)
      have "trie_delete db (ValueNode w) (path @ [x]) r = Some (Inr (True, NilNode))" by (subst trie_delete.simps) simp
      moreover have "child_rep db 16 NilNode ([[] \<mapsto> w]([] := None))" by (simp add: child_rep_def)
      ultimately show ?thesis using True 2 r by (auto intro: exI [of _ True])
    qed
  next
    case n16: False
    then have x: "unat x < 16" and tr: "tkey r" using ix t by (auto simp: tkey_Cons)
    show ?thesis
    proof (cases "ch ! unat x = NilNode")
      case True
      then have "F (unat x) = Map.empty" using branch.hyps(2) ix(1) by blast
      then show ?thesis using True by (subst trie_delete.simps) (auto intro: exI [of _ False])
    next
      case False
      from branch.IH(1) [OF x False] tr obtain b d nn where
        "trie_delete db (ch ! unat x) (path @ [x]) r = Some (Inr (d, nn))"
        "if d then del_ok db nn b ((F (unat x))(r := None)) else F (unat x) r = None \<and> rep db nn b (F (unat x))" by blast
      then show ?thesis using x by (auto simp: child_rep_def del_ok_def)
    qed
  qed
  then obtain d nn where g: "trie_delete db (ch ! unat x) (path @ [x]) r = Some (Inr (d, nn))"
    "if d then child_rep db (unat x) nn ((F (unat x))(r := None)) else F (unat x) r = None" by blast
  show ?case
  proof (cases d)
    case False
    then show ?thesis using e g ix(1) branch.hyps(1) R by (subst trie_delete.simps) auto
  next
    case True
    let ?ch = "ch[unat x := nn]" and ?F = "F(unat x := (F (unat x))(r := None))"
    have "\<exists>j < 17. j \<noteq> unat x \<and> ch ! j \<noteq> NilNode"
    proof (rule ccontr)
      assume "\<not> ?thesis"
      then have "{i. i < 17 \<and> ch ! i \<noteq> NilNode} \<subseteq> {unat x}" by blast
      then have "card {i. i < 17 \<and> ch ! i \<noteq> NilNode} \<le> card {unat x}" by (rule card_mono [rotated]) simp
      then show False using branch.hyps(4) by simp
    qed
    then obtain j where j: "j < 17" "j \<noteq> unat x" "ch ! j \<noteq> NilNode" by blast
    have "child_rep db i (?ch ! i) (?F i)" if "i < 17" for i
      using crep [OF that] g(2) True that branch.hyps(1) by (cases "i = unat x") simp_all
    then obtain n' b' where "shrink_full db path ?ch = Inr (True, n')" "node_shape n'" "rep db n' b' (m_full ?F)"
      using shrink_rep [of ?ch db ?F j path] j branch.hyps(1) by auto
    then have "del_ok db n' True ((m_full F)(key := None))"
      unfolding e m_full_upd [OF ix(1)] del_ok_def by blast
    moreover have "trie_delete db (FullNode ch) path key = Some (Inr (True, n'))"
      using True e g(1) ix(1) branch.hyps(1) \<open>shrink_full db path ?ch = Inr (True, n')\<close>
      by (subst trie_delete.simps) simp
    ultimately show ?thesis by auto
  qed
next
  case (unloaded h n b f)
  from unloaded.IH [OF unloaded.prems] obtain d nn where
    "trie_delete db n path key = Some (Inr (d, nn))"
    "if d then del_ok db nn b (f(key := None)) else f key = None \<and> rep db nn b f" by blast
  then show ?case using unloaded.hyps by (subst trie_delete.simps) (auto simp: resolveHash_def)
qed

section \<open>The contract of the trie\<close>

text \<open>The abstract state is a map from key bytes to values; its keys are hex encoded in the trie.\<close>

definition hexmap :: "(bytes \<Rightarrow> bytes option) \<Rightarrow> bytes \<Rightarrow> bytes option" where
  "hexmap m k = (if k \<in> range keybytesToHex then m (inv keybytesToHex k) else None)"

lemma hexmap_key [simp]: "hexmap m (keybytesToHex k) = m k"
  by (simp add: hexmap_def inv_f_f [OF inj_keybytesToHex])

lemma hexmap_upd: "(hexmap m)(keybytesToHex k := o') = hexmap (m(k := o'))"
  by (rule ext) (auto simp: hexmap_def inv_f_f [OF inj_keybytesToHex] dest: injD [OF inj_keybytesToHex])

lemma hexmap_empty [simp]: "hexmap Map.empty = Map.empty"
  by (rule ext) (simp add: hexmap_def)

definition trie_map :: "(bytes \<Rightarrow> node option) \<Rightarrow> node \<Rightarrow> (bytes \<Rightarrow> bytes option) \<Rightarrow> bool" where
  "trie_map db n m \<longleftrightarrow> trie_rep db n (hexmap m)"

text \<open>What an update means: an empty value deletes.\<close>

definition map_update :: "(bytes \<Rightarrow> bytes option) \<Rightarrow> bytes \<Rightarrow> bytes \<Rightarrow> bytes \<Rightarrow> bytes option" where
  "map_update m key val = (if val = [] then m(key := None) else m(key \<mapsto> val))"

lemma trie_map_empty [simp]: "trie_map db NilNode Map.empty"
  by (simp add: trie_map_def trie_rep_def)

lemma delete_trie_rep:
  assumes "trie_rep db root f"
  shows "\<exists>d root'. trie_delete db root [] (keybytesToHex key) = Some (Inr (d, root'))
    \<and> trie_rep db root' (f(keybytesToHex key := None))"
proof (cases "root = NilNode")
  case True
  then have "f = Map.empty" using assms rep_NilE by (auto simp: trie_rep_def)
  then have "trie_rep db NilNode (f(keybytesToHex key := None))" by (simp add: trie_rep_def)
  moreover have "trie_delete db NilNode [] (keybytesToHex key) = Some (Inr (False, NilNode))"
    by (subst trie_delete.simps) simp
  ultimately show ?thesis unfolding True by blast
next
  case False
  then obtain b where r: "rep db root b f" using assms by (auto simp: trie_rep_def)
  from delete_rep [OF r tkey_keybytes, of "[]" key] obtain d nn where
    i: "trie_delete db root [] (keybytesToHex key) = Some (Inr (d, nn))"
      "if d then del_ok db nn b (f(keybytesToHex key := None)) else f (keybytesToHex key) = None \<and> rep db nn b f"
    by blast
  have "trie_rep db nn (f(keybytesToHex key := None))"
  proof (cases d)
    case True
    then show ?thesis using i(2) by (auto simp: trie_rep_def del_ok_def)
  next
    case False
    then have "f(keybytesToHex key := None) = f" using i(2) by (simp add: fun_upd_idem)
    then show ?thesis using i(2) False by (auto simp: trie_rep_def)
  qed
  then show ?thesis using i(1) by blast
qed

lemma insert_trie_rep:
  assumes "trie_rep db root f"
  shows "\<exists>d root'. trie_insert db root [] (keybytesToHex key) (ValueNode v) = Some (Inr (d, root'))
    \<and> trie_rep db root' (f(keybytesToHex key \<mapsto> v))"
proof (cases "root = NilNode")
  case True
  then have "f = Map.empty" using assms rep_NilE by (auto simp: trie_rep_def)
  then have "trie_rep db (ShortNode (keybytesToHex key) (ValueNode v)) (f(keybytesToHex key \<mapsto> v))"
    using rep.leaf [OF tkey_keybytes, of db key v] by (auto simp: trie_rep_def)
  moreover have "keybytesToHex key \<noteq> []" using tkey_keybytes [of key] by auto
  ultimately show ?thesis using True by (auto intro: exI [of _ True])
next
  case False
  then obtain b where r: "rep db root b f" using assms by (auto simp: trie_rep_def)
  from insert_rep [OF r tkey_keybytes, of "[]" key v] show ?thesis by (auto simp: trie_rep_def)
qed

lemma get_trie_rep:
  assumes "trie_rep db root f"
  shows "\<exists>root'. TryGet db root key = Some (Inr (f (keybytesToHex key), root')) \<and> trie_rep db root' f"
proof (cases "root = NilNode")
  case True
  then have "f = Map.empty" using assms rep_NilE by (auto simp: trie_rep_def)
  then show ?thesis using assms unfolding TryGet_def True by (subst tryGet.simps) simp
next
  case False
  then obtain b where r: "rep db root b f" using assms by (auto simp: trie_rep_def)
  have "tkey (drop 0 (keybytesToHex key))" by (simp add: tkey_keybytes)
  from tryGet_rep [OF r this] obtain nn did where
    "tryGet db root (keybytesToHex key) 0 = Some (Inr (f (keybytesToHex key), nn, did))" "rep db nn b f" by auto
  then show ?thesis using r by (auto simp: TryGet_def trie_rep_def)
qed

lemma delete_trie_map:
  assumes "trie_map db root m"
  shows "\<exists>d root'. trie_delete db root [] (keybytesToHex key) = Some (Inr (d, root')) \<and> trie_map db root' (m(key := None))"
  using delete_trie_rep [of db root "hexmap m" key] assms by (simp add: trie_map_def hexmap_upd)

lemma insert_trie_map:
  assumes "trie_map db root m"
  shows "\<exists>d root'. trie_insert db root [] (keybytesToHex key) (ValueNode v) = Some (Inr (d, root')) \<and> trie_map db root' (m(key \<mapsto> v))"
  using insert_trie_rep [of db root "hexmap m" key v] assms by (simp add: trie_map_def hexmap_upd)

lemma TryUpdate_trie_map:
  assumes "trie_map db root m"
  shows "\<exists>root'. TryUpdate db root key val = Some (Inr root') \<and> trie_map db root' (map_update m key val)"
  using insert_trie_map [OF assms, of key val] delete_trie_map [OF assms, of key]
  by (cases "val = []") (auto simp: TryUpdate_def map_update_def)

text \<open>On a well-formed trie \<open>TryGet\<close> returns, without an error, the value stored under the key, or nothing;
  the nodes it loads stay in the trie and do not change its map.\<close>

theorem trie_get_correct:
  assumes "trie_map db root m"
  shows "\<exists>root'. TryGet db root key = Some (Inr (m key, root')) \<and> trie_map db root' m"
  using get_trie_rep [of db root "hexmap m" key] assms by (simp add: trie_map_def)

lemma toy_trie:
  "trie_map (\<lambda>_. None) (ShortNode (keybytesToHex [0xab]) (ValueNode [7])) [[0xab] \<mapsto> [7]]"
proof -
  have "hexmap [[0xab] \<mapsto> [7]] = [keybytesToHex [0xab] \<mapsto> [7]]"
    using hexmap_upd [of Map.empty "[0xab]" "Some [7]"] by simp
  then show ?thesis unfolding trie_map_def trie_rep_def using rep.leaf [OF tkey_keybytes] by metis
qed

theorem trie_get_correct_witness:
  "\<exists>root'. TryGet (\<lambda>_. None) (ShortNode (keybytesToHex [0xab]) (ValueNode [7])) [0xab] = Some (Inr (Some [7], root'))"
  using trie_get_correct [OF toy_trie, of "[0xab]"] by auto

text \<open>C36: \<open>TryUpdate\<close> and \<open>TryDelete\<close> refine the update of a map: on every well-formed trie, with any part of it still
  unloaded, they return without an error a well-formed trie of the updated map.\<close>

theorem trie_update_correct:
  assumes "trie_map db root m"
  shows "(\<exists>root'. TryUpdate db root key val = Some (Inr root') \<and> trie_map db root' (map_update m key val))
    \<and> (\<exists>root'. TryDelete db root key = Some (Inr root') \<and> trie_map db root' (m(key := None)))"
  using TryUpdate_trie_map [OF assms, of key val] delete_trie_map [OF assms, of key] by (auto simp: TryDelete_def)

theorem trie_update_correct_witness:
  "(\<exists>root'. TryUpdate (\<lambda>_. None) (ShortNode (keybytesToHex [0xab]) (ValueNode [7])) [0xac] [8] = Some (Inr root')
      \<and> trie_map (\<lambda>_. None) root' [[0xab] \<mapsto> [7], [0xac] \<mapsto> [8]])
   \<and> (\<exists>root'. TryDelete (\<lambda>_. None) (ShortNode (keybytesToHex [0xab]) (ValueNode [7])) [0xab] = Some (Inr root')
      \<and> trie_map (\<lambda>_. None) root' (Map.empty([0xab] := None)))"
  using trie_update_correct [OF toy_trie, of "[0xac]" "[8]"] trie_update_correct [OF toy_trie, of "[0xab]" "[8]"]
  by (simp add: map_update_def)

end
