(* ===== verification/Trie_Canonical.thy ===== *)
theory Trie_Canonical
  imports Trie_Refine
begin

text \<open>
  The shape of a trie is determined by its contents (\<open>trie/trie.go\<close>): a fully loaded well-formed trie of a map is unique,
  so the root does not depend on the order of the updates. This is what lets blocks carry a root hash for a state.
\<close>

section \<open>Canonical form\<close>

text \<open>A branch stores two keys that part at once; a leaf or an extension does not. This fixes the shape.\<close>

definition parts :: "(bytes \<Rightarrow> bytes option) \<Rightarrow> bool" where
  "parts f \<longleftrightarrow> (\<exists>x r y s. x \<noteq> y \<and> f (x # r) \<noteq> None \<and> f (y # s) \<noteq> None)"

lemma parts_m_ext: "k \<noteq> [] \<Longrightarrow> \<not> parts (m_ext k f)"
  by (cases k) (auto simp: parts_def m_ext_def split: if_splits)

lemma two_children:
  assumes "2 \<le> card {i. i < (17 :: nat) \<and> P i}"
  obtains i j where "i < 17" "j < 17" "i \<noteq> j" "P i" "P j"
proof -
  let ?S = "{i. i < 17 \<and> P i}"
  have "\<not> (\<exists>i. ?S \<subseteq> {i})"
  proof
    assume "\<exists>i. ?S \<subseteq> {i}"
    then obtain i where "?S \<subseteq> {i}" by blast
    then have "card ?S \<le> card {i}" by (rule card_mono [rotated]) simp
    then show False using assms by simp
  qed
  then obtain i where i: "i < 17" "P i" by blast
  then obtain j where "j < 17" "P j" "j \<noteq> i" using \<open>\<not> (\<exists>i. ?S \<subseteq> {i})\<close> by blast
  then show ?thesis using that i by blast
qed

lemma byte_of_index: "i < 17 \<Longrightarrow> unat (of_nat i :: byte) = i"
  by (simp add: unat_of_nat)

lemma m_full_at: "i < 17 \<Longrightarrow> m_full F (of_nat i # r) = F i r"
  by (simp add: m_full_def byte_of_index)

lemma rep_nonempty_parts: "rep db n b f \<Longrightarrow> (\<exists>k. f k \<noteq> None) \<and> (parts f \<longleftrightarrow> b)"
proof (induction rule: rep.induct)
  case (leaf key v)
  have "\<not> parts [key \<mapsto> v]" by (auto simp: parts_def split: if_splits)
  moreover have "[key \<mapsto> v] key \<noteq> None" by simp
  ultimately show ?case by blast
next
  case (extension key c f)
  then obtain k where "f k \<noteq> None" by blast
  then have "m_ext key f (key @ k) \<noteq> None" by simp
  then show ?case using parts_m_ext [OF extension.hyps(1)] by blast
next
  case (branch ch F)
  have k: "\<exists>k. F i k \<noteq> None" if "i < 17" "ch ! i \<noteq> NilNode" for i
  proof (cases "i = 16")
    case True
    then show ?thesis using branch.hyps(3) that by force
  next
    case False
    then show ?thesis using branch.IH(1) [of i] that by force
  qed
  obtain i j where ij: "i < 17" "j < 17" "i \<noteq> j" "ch ! i \<noteq> NilNode" "ch ! j \<noteq> NilNode"
    using two_children [OF branch.hyps(4)] by blast
  obtain r s where rs: "F i r \<noteq> None" "F j s \<noteq> None" using k ij by blast
  have ne: "(of_nat i :: byte) \<noteq> of_nat j" using ij byte_of_index by metis
  have "m_full F (of_nat i # r) \<noteq> None" "m_full F (of_nat j # s) \<noteq> None" using rs ij m_full_at by simp_all
  then show ?case using ne unfolding parts_def by blast
qed simp

lemma m_ext_same_key:
  assumes "parts f" "parts g" "m_ext k f = m_ext l g"
  shows "k = l \<and> f = g"
proof -
  have no: False if "parts f" "m_ext k f = m_ext (k @ z # w) g" for f g :: "bytes \<Rightarrow> bytes option" and k z w
  proof -
    have "m_ext k f = m_ext k (m_ext (z # w) g)" using that(2) by (simp add: m_ext_m_ext)
    then have "f r = m_ext (z # w) g r" for r using m_ext_append by metis
    then have "f = m_ext (z # w) g" by blast
    then show False using that(1) parts_m_ext by blast
  qed
  obtain x r where "f (x # r) \<noteq> None" using assms(1) by (auto simp: parts_def)
  then have "m_ext k f (k @ x # r) \<noteq> None" by simp
  then have "m_ext l g (k @ x # r) \<noteq> None" by (simp add: assms(3))
  then have "prefix l (k @ x # r)" by (auto simp: m_ext_def split: if_splits)
  then have "prefix l k \<or> prefix k l" using prefix_same_cases [of l "k @ x # r" k] by auto
  then have e: "k = l"
  proof
    assume "prefix l k"
    then obtain u where u: "k = l @ u" by (auto simp: prefix_def)
    then show ?thesis using no [OF assms(2), of l _ _ f] assms(3) [symmetric] by (cases u) auto
  next
    assume "prefix k l"
    then obtain u where u: "l = k @ u" by (auto simp: prefix_def)
    then show ?thesis using no [OF assms(1), of k _ _ g] assms(3) by (cases u) auto
  qed
  have "f r = g r" for r using assms(3) m_ext_append [of k f r] m_ext_append [of l g r] e by metis
  then show ?thesis using e by blast
qed

lemma map_single_inj: "[k \<mapsto> v] = [l \<mapsto> w] \<Longrightarrow> k = l \<and> v = w"
  by (metis fun_upd_apply option.distinct(1) option.inject)

lemma m_ext_not_single:
  assumes "parts g"
  shows "m_ext k g \<noteq> [key \<mapsto> v]"
proof
  assume e: "m_ext k g = [key \<mapsto> v]"
  obtain x r y s where g: "x \<noteq> y" "g (x # r) \<noteq> None" "g (y # s) \<noteq> None" using assms unfolding parts_def by blast
  have "m_ext k g (k @ x # r) \<noteq> None" "m_ext k g (k @ y # s) \<noteq> None" using g by simp_all
  then have "k @ x # r = key" "k @ y # s = key" unfolding e by (auto split: if_splits)
  then show False using g(1) by auto
qed

lemma rep_unique: "rep (\<lambda>_. None) n b f \<Longrightarrow> rep (\<lambda>_. None) n' b' f \<Longrightarrow> n = n'"
proof (induction arbitrary: n' b' rule: rep.induct)
  case (leaf key v)
  from leaf.prems show ?case
  proof (cases rule: rep.cases)
    case (extension k c g)
    have "parts g" using rep_nonempty_parts [OF extension(6)] by simp
    then show ?thesis using m_ext_not_single extension(3) by metis
  next
    case (branch ch F)
    then have "parts [key \<mapsto> v]" using rep_nonempty_parts [OF leaf.prems] by simp
    then show ?thesis by (auto simp: parts_def split: if_splits)
  next
    case (leaf l w)
    then show ?thesis using map_single_inj [of key v l w] by simp
  qed simp
next
  case (extension k c f)
  have pf: "parts f" using rep_nonempty_parts [OF extension.hyps(3)] by simp
  from extension.prems show ?case
  proof (cases rule: rep.cases)
    case (leaf key v)
    then show ?thesis using m_ext_not_single [OF pf] by metis
  next
    case (extension l d g)
    have "parts g" using rep_nonempty_parts [OF extension(6)] by simp
    then have "k = l \<and> f = g" using m_ext_same_key [OF pf] extension by blast
    then show ?thesis using extension extension.IH by blast
  next
    case (branch ch F)
    then have "parts (m_ext k f)" using rep_nonempty_parts [OF extension.prems] by simp
    then show ?thesis using parts_m_ext extension.hyps(1) by blast
  qed simp
next
  case (branch ch F)
  have k: "\<exists>k. F i k \<noteq> None" if "i < 17" "ch ! i \<noteq> NilNode" for i
  proof (cases "i = 16")
    case True
    then show ?thesis using branch.hyps(3) that by force
  next
    case False
    then have "i < 16" using that(1) by simp
    then obtain b where "rep (\<lambda>_. None) (ch ! i) b (F i)" using branch.IH(1) \<open>ch ! i \<noteq> NilNode\<close> by blast
    then show ?thesis using rep_nonempty_parts by blast
  qed
  have R: "rep (\<lambda>_. None) (FullNode ch) True (m_full F)"
  proof (rule rep.branch)
    show "\<exists>b. rep (\<lambda>_. None) (ch ! i) b (F i)" if "i < 16" "ch ! i \<noteq> NilNode" for i using branch.IH(1) that by blast
  qed (use branch.hyps in auto)
  from branch.prems show ?case
  proof (cases rule: rep.cases)
    case (leaf key v)
    have "\<not> parts (m_full F)" using rep_nonempty_parts [OF branch.prems] leaf(2) by blast
    then show ?thesis using rep_nonempty_parts [OF R] by simp
  next
    case (extension l d g)
    have "\<not> parts (m_full F)" using rep_nonempty_parts [OF branch.prems] extension(2) by blast
    then show ?thesis using rep_nonempty_parts [OF R] by simp
  next
    case b': (branch ch' G)
    have FG: "F i = G i" if "i < 17" for i
    proof
      fix r
      show "F i r = G i r" using m_full_at [OF that] b'(3) by metis
    qed
    have "ch ! i = ch' ! i" if i: "i < 17" for i
    proof (cases "ch ! i = NilNode")
      case True
      then have e: "G i = Map.empty" using branch.hyps(2) [OF i] FG [OF i] by simp
      show ?thesis
      proof (rule ccontr)
        assume "ch ! i \<noteq> ch' ! i"
        then have "ch' ! i \<noteq> NilNode" using True by simp
        then have "\<exists>k. G i k \<noteq> None"
          using b'(6) [of i] b'(7) i rep_nonempty_parts by (cases "i = 16") force+
        then show False using e by simp
      qed
    next
      case False
      then have "ch' ! i \<noteq> NilNode" using k [OF i] b'(5) [OF i] FG [OF i] by auto
      then show ?thesis using False FG [OF i] branch.IH(1) [of i] b'(6) [of i] branch.hyps(3) b'(7) i map_single_inj
        by (cases "i = 16") fastforce+
    qed
    then have "ch = ch'" using branch.hyps(1) b'(4) by (intro nth_equalityI) simp_all
    then show ?thesis using b'(1) by blast
  next
    case (unloaded h n)
    then show ?thesis by blast
  qed
next
  case (unloaded h n b f)
  then show ?case by blast
qed

section \<open>Histories\<close>

text \<open>A sequence of updates on an empty, fully loaded trie, and the map it means.\<close>

fun run_updates :: "node \<Rightarrow> (bytes \<times> bytes) list \<Rightarrow> node trie_res" where
  "run_updates n [] = Some (Inr n)"
| "run_updates n ((k, v) # us) =
     (case TryUpdate (\<lambda>_. None) n k v of None \<Rightarrow> None | Some (Inl e) \<Rightarrow> Some (Inl e) | Some (Inr n') \<Rightarrow> run_updates n' us)"

fun updates_map :: "(bytes \<Rightarrow> bytes option) \<Rightarrow> (bytes \<times> bytes) list \<Rightarrow> bytes \<Rightarrow> bytes option" where
  "updates_map m [] = m"
| "updates_map m ((k, v) # us) = updates_map (map_update m k v) us"

lemma run_updates_map:
  "trie_map (\<lambda>_. None) n m \<Longrightarrow> \<exists>n'. run_updates n us = Some (Inr n') \<and> trie_map (\<lambda>_. None) n' (updates_map m us)"
proof (induction us arbitrary: n m)
  case (Cons u us)
  obtain k v where u: "u = (k, v)" by fastforce
  obtain n1 where "TryUpdate (\<lambda>_. None) n k v = Some (Inr n1)" "trie_map (\<lambda>_. None) n1 (map_update m k v)"
    using TryUpdate_trie_map [OF Cons.prems] by blast
  then show ?case using Cons.IH u by simp
qed simp

lemma trie_map_unique:
  assumes "trie_map (\<lambda>_. None) n m" "trie_map (\<lambda>_. None) n' m"
  shows "n = n'"
proof -
  have ne: "hexmap m \<noteq> Map.empty" if "rep (\<lambda>_. None) k b (hexmap m)" for k b
    using rep_nonempty_parts [OF that] by auto
  show ?thesis
  proof (cases "hexmap m = Map.empty")
    case True
    then show ?thesis using assms ne unfolding trie_map_def trie_rep_def by blast
  next
    case False
    then obtain b b' where "rep (\<lambda>_. None) n b (hexmap m)" "rep (\<lambda>_. None) n' b' (hexmap m)"
      using assms unfolding trie_map_def trie_rep_def by blast
    then show ?thesis by (rule rep_unique)
  qed
qed

text \<open>C37: The trie does not depend on its history: two sequences of updates and deletions that leave the same contents
  leave the same trie, node for node, and every sequence returns without an error.\<close>

theorem trie_history_independent:
  assumes "updates_map Map.empty us = updates_map Map.empty vs"
  shows "\<exists>n. run_updates NilNode us = Some (Inr n) \<and> run_updates NilNode vs = Some (Inr n)"
  using run_updates_map [OF trie_map_empty, of us] run_updates_map [OF trie_map_empty, of vs] trie_map_unique assms by metis

theorem trie_history_independent_witness:
  "\<exists>n. run_updates NilNode [([1], [7]), ([2], [8]), ([1], [9])] = Some (Inr n)
     \<and> run_updates NilNode [([3], [5]), ([2], [8]), ([1], [9]), ([3], [])] = Some (Inr n)"
proof -
  have "updates_map Map.empty [([1], [7]), ([2], [8]), ([1], [9])]
      = updates_map Map.empty [([3], [5]), ([2], [8]), ([1], [9]), ([3], [])]"
    by (rule ext) (simp add: map_update_def)
  then show ?thesis by (rule trie_history_independent)
qed

end
