(* ===== verification/State_DB.thy ===== *)
theory State_DB
  imports Trie_Ops
begin

text \<open>
  The state database (\<open>core/state/statedb.go\<close>), its objects (\<open>core/state/state_object.go\<close>) and its journal
  (\<open>core/state/journal.go\<close>).

  The code works on the interfaces \<open>Trie\<close> and \<open>Database\<close> of \<open>core/state/database.go\<close>; here they are the record
  \<open>senv\<close> over a type \<open>'t\<close> of tries, together with RLP and Keccak, which are third-party. An operation on a trie
  returns the trie after it, since looking up loads nodes. A \<open>*stateObject\<close> is always found again under its
  address, so the objects are values of the map \<open>stateObjects\<close>; the object an entry \<open>resetObjectChange\<close>
  remembers is unreachable otherwise and cannot change. Maps that are iterated are association lists. The time
  measurements are left out. A panic is the value \<^const>\<open>None\<close>.
\<close>

datatype db_error = TrieErr trie_error | RlpError | CodeError

record account =
  a_Nonce :: u64
  a_Balance :: bigint
  a_Root :: hash
  a_CodeHash :: bytes

record 't senv =
  keccak :: "bytes \<Rightarrow> hash"
  OpenTrie :: "hash \<Rightarrow> db_error + 't"
  OpenStorageTrie :: "hash \<Rightarrow> hash \<Rightarrow> db_error + 't"
  CopyTrie :: "'t \<Rightarrow> 't"
  ContractCode :: "hash \<Rightarrow> hash \<Rightarrow> bytes option \<times> db_error option"
  ContractCodeSize :: "hash \<Rightarrow> hash \<Rightarrow> nat \<times> db_error option"
  t_TryGet :: "'t \<Rightarrow> bytes \<Rightarrow> bytes \<times> db_error option \<times> 't"
  t_TryUpdate :: "'t \<Rightarrow> bytes \<Rightarrow> bytes \<Rightarrow> db_error option \<times> 't"
  t_TryDelete :: "'t \<Rightarrow> bytes \<Rightarrow> db_error option \<times> 't"
  t_Hash :: "'t \<Rightarrow> hash \<times> 't"
  decodeAccount :: "bytes \<Rightarrow> account option"
  encodeAccount :: "account \<Rightarrow> bytes option"
  rlp_Split :: "bytes \<Rightarrow> bytes \<times> db_error option"
  rlp_bytes :: "bytes \<Rightarrow> bytes"

section \<open>State\<close>

record 't stateObject =
  so_address :: address
  so_addrHash :: hash
  so_data :: account
  so_dbErr :: "db_error option"
  so_trie :: "'t option"
  so_code :: "bytes option"
  so_originStorage :: "(hash, hash) gomap"
  so_dirtyStorage :: "(hash, hash) gomap"
  so_dirtyCode :: bool
  so_suicided :: bool
  so_deleted :: bool

datatype 't journalEntry =
    createObjectChange address
  | resetObjectChange "'t stateObject"
  | suicideChange address bool bigint
  | balanceChange address bigint
  | nonceChange address u64
  | storageChange address hash hash
  | codeChange address "bytes option" bytes
  | refundChange u64
  | addLogChange hash
  | addPreimageChange hash
  | touchChange address

record log =
  l_Address :: address
  l_Topics :: "hash list"
  l_Data :: bytes
  l_BlockNumber :: u64
  l_TxHash :: hash
  l_TxIndex :: u64
  l_BlockHash :: hash
  l_Index :: u64
  l_Removed :: bool

record 't stateDB =
  sdb_trie :: 't
  stateObjects :: "(address, 't stateObject) gomap"
  stateObjectsDirty :: "(address, unit) gomap"
  sdb_dbErr :: "db_error option"
  sdb_refund :: u64
  thash :: hash
  bhash :: hash
  txIndex :: int
  sdb_logs :: "(hash, log list) gomap"
  logSize :: u64
  sdb_preimages :: "(hash, bytes) gomap"
  j_entries :: "'t journalEntry list"
  j_dirties :: "(address, int) gomap"
  validRevisions :: "(int \<times> nat) list"
  nextRevisionId :: int

definition emptyCodeHash :: "'t senv \<Rightarrow> bytes" where
  "emptyCodeHash env = hash_bytes (keccak env [])"

text \<open>\<open>New\<close> and \<open>Reset\<close>.\<close>

definition fresh_stateDB :: "'t \<Rightarrow> 't stateDB" where
  "fresh_stateDB tr = \<lparr>sdb_trie = tr, stateObjects = [], stateObjectsDirty = [], sdb_dbErr = None, sdb_refund = 0,
     thash = 0, bhash = 0, txIndex = 0, sdb_logs = [], logSize = 0, sdb_preimages = [], j_entries = [],
     j_dirties = [], validRevisions = [], nextRevisionId = 0\<rparr>"

definition state_New :: "'t senv \<Rightarrow> hash \<Rightarrow> db_error + 't stateDB" where
  "state_New env root = map_sum id fresh_stateDB (OpenTrie env root)"

definition sdb_setError :: "db_error option \<Rightarrow> 't stateDB \<Rightarrow> 't stateDB" where
  "sdb_setError e s = (if sdb_dbErr s = None then s\<lparr>sdb_dbErr := e\<rparr> else s)"

definition clearJournalAndRefund :: "'t stateDB \<Rightarrow> 't stateDB" where
  "clearJournalAndRefund s = s\<lparr>j_entries := [], j_dirties := [], validRevisions := [], sdb_refund := 0\<rparr>"

definition state_Reset :: "'t senv \<Rightarrow> hash \<Rightarrow> 't stateDB \<Rightarrow> db_error option \<times> 't stateDB" where
  "state_Reset env root s =
     (case OpenTrie env root of
        Inl e \<Rightarrow> (Some e, s)
      | Inr tr \<Rightarrow> (None, clearJournalAndRefund (s\<lparr>sdb_trie := tr, stateObjects := [], stateObjectsDirty := [],
          thash := 0, bhash := 0, txIndex := 0, sdb_logs := [], logSize := 0, sdb_preimages := []\<rparr>)))"

section \<open>The journal\<close>

fun dirtied :: "'t journalEntry \<Rightarrow> address option" where
  "dirtied (createObjectChange a) = Some a"
| "dirtied (resetObjectChange _) = None"
| "dirtied (suicideChange a _ _) = Some a"
| "dirtied (balanceChange a _) = Some a"
| "dirtied (nonceChange a _) = Some a"
| "dirtied (storageChange a _ _) = Some a"
| "dirtied (codeChange a _ _) = Some a"
| "dirtied (refundChange _) = None"
| "dirtied (addLogChange _) = None"
| "dirtied (addPreimageChange _) = None"
| "dirtied (touchChange a) = Some a"

text \<open>\<open>j.dirties[addr]++\<close>: a missing counter reads as zero.\<close>

definition count_of :: "(address, int) gomap \<Rightarrow> address \<Rightarrow> int" where
  "count_of m a = (case gm_get m a of None \<Rightarrow> 0 | Some n \<Rightarrow> n)"

definition journal_dirty :: "address \<Rightarrow> 't stateDB \<Rightarrow> 't stateDB" where
  "journal_dirty a s = s\<lparr>j_dirties := gm_put (j_dirties s) a (count_of (j_dirties s) a + 1)\<rparr>"

definition journal_append :: "'t journalEntry \<Rightarrow> 't stateDB \<Rightarrow> 't stateDB" where
  "journal_append e s =
     (let s1 = s\<lparr>j_entries := j_entries s @ [e]\<rparr> in
      case dirtied e of None \<Rightarrow> s1 | Some a \<Rightarrow> journal_dirty a s1)"

section \<open>State objects\<close>

text \<open>The object of the value \<open>Account{}\<close> has no balance and the hash of the empty code.\<close>

definition zero_account :: "'t senv \<Rightarrow> account" where
  "zero_account env = \<lparr>a_Nonce = 0, a_Balance = 0, a_Root = 0, a_CodeHash = emptyCodeHash env\<rparr>"

definition newObject :: "'t senv \<Rightarrow> address \<Rightarrow> account \<Rightarrow> 't stateObject" where
  "newObject env addr data =
     \<lparr>so_address = addr, so_addrHash = keccak env (address_bytes addr), so_data = data, so_dbErr = None, so_trie = None,
      so_code = None, so_originStorage = [], so_dirtyStorage = [], so_dirtyCode = False, so_suicided = False,
      so_deleted = False\<rparr>"

definition so_empty :: "'t senv \<Rightarrow> 't stateObject \<Rightarrow> bool" where
  "so_empty env o' \<longleftrightarrow> a_Nonce (so_data o') = 0 \<and> a_Balance (so_data o') = 0 \<and> a_CodeHash (so_data o') = emptyCodeHash env"

definition so_setError :: "db_error option \<Rightarrow> 't stateObject \<Rightarrow> 't stateObject" where
  "so_setError e o' = (if so_dbErr o' = None then o'\<lparr>so_dbErr := e\<rparr> else o')"

definition so_setBalance :: "bigint \<Rightarrow> 't stateObject \<Rightarrow> 't stateObject" where
  "so_setBalance b o' = o'\<lparr>so_data := (so_data o')\<lparr>a_Balance := b\<rparr>\<rparr>"

definition so_setNonce :: "u64 \<Rightarrow> 't stateObject \<Rightarrow> 't stateObject" where
  "so_setNonce n o' = o'\<lparr>so_data := (so_data o')\<lparr>a_Nonce := n\<rparr>\<rparr>"

definition so_setCode :: "hash \<Rightarrow> bytes option \<Rightarrow> 't stateObject \<Rightarrow> 't stateObject" where
  "so_setCode h c o' = o'\<lparr>so_code := c, so_data := (so_data o')\<lparr>a_CodeHash := hash_bytes h\<rparr>, so_dirtyCode := True\<rparr>"

definition so_setState :: "hash \<Rightarrow> hash \<Rightarrow> 't stateObject \<Rightarrow> 't stateObject" where
  "so_setState k v o' = o'\<lparr>so_dirtyStorage := gm_put (so_dirtyStorage o') k v\<rparr>"

text \<open>\<open>getTrie\<close>: a storage trie that cannot be opened is replaced by an empty one.\<close>

definition open_storage :: "'t senv \<Rightarrow> hash \<Rightarrow> hash \<Rightarrow> 't \<times> db_error option" where
  "open_storage env ah root =
     (case OpenStorageTrie env ah root of
        Inr t \<Rightarrow> (t, None)
      | Inl e \<Rightarrow> (projr (OpenStorageTrie env ah 0), Some e))"

definition so_getTrie :: "'t senv \<Rightarrow> 't stateObject \<Rightarrow> 't \<times> 't stateObject" where
  "so_getTrie env o' =
     (case so_trie o' of
        Some t \<Rightarrow> (t, o')
      | None \<Rightarrow>
          let (t, e) = open_storage env (so_addrHash o') (a_Root (so_data o')) in
          (t, (case e of None \<Rightarrow> o'\<lparr>so_trie := Some t\<rparr> | Some _ \<Rightarrow> so_setError e (o'\<lparr>so_trie := Some t\<rparr>))))"

definition so_GetCommittedState :: "'t senv \<Rightarrow> hash \<Rightarrow> 't stateObject \<Rightarrow> hash \<times> 't stateObject" where
  "so_GetCommittedState env key o' =
     (case gm_get (so_originStorage o') key of
        Some v \<Rightarrow> (v, o')
      | None \<Rightarrow>
          let (t, o1) = so_getTrie env o'; (enc, err, t') = t_TryGet env t (hash_bytes key); o2 = o1\<lparr>so_trie := Some t'\<rparr> in
          case err of
            Some _ \<Rightarrow> (0, so_setError err o2)
          | None \<Rightarrow>
              let (value, o3) =
                (if length enc > 0
                 then let (content, e) = rlp_Split env enc in
                   (BytesToHash content, if e \<noteq> None then so_setError e o2 else o2)
                 else (0, o2))
              in (value, o3\<lparr>so_originStorage := gm_put (so_originStorage o3) key value\<rparr>))"

definition so_GetState :: "'t senv \<Rightarrow> hash \<Rightarrow> 't stateObject \<Rightarrow> hash \<times> 't stateObject" where
  "so_GetState env key o' =
     (case gm_get (so_dirtyStorage o') key of Some v \<Rightarrow> (v, o') | None \<Rightarrow> so_GetCommittedState env key o')"

definition so_Code :: "'t senv \<Rightarrow> 't stateObject \<Rightarrow> bytes option \<times> 't stateObject" where
  "so_Code env o' =
     (if so_code o' \<noteq> None then (so_code o', o')
      else if a_CodeHash (so_data o') = emptyCodeHash env then (None, o')
      else let (code, err) = ContractCode env (so_addrHash o') (BytesToHash (a_CodeHash (so_data o')));
               o1 = (if err \<noteq> None then so_setError (Some CodeError) o' else o') in
        (code, o1\<lparr>so_code := code\<rparr>))"

text \<open>\<open>updateTrie\<close>: the dirty slots in the order of the range over the map. The value is written without its
  leading zero bytes.\<close>

definition trim_zeros :: "bytes \<Rightarrow> bytes" where
  "trim_zeros bs = dropWhile (\<lambda>b. b = 0) bs"

definition flush_slot :: "'t senv \<Rightarrow> hash \<Rightarrow> 't \<times> 't stateObject \<Rightarrow> 't \<times> 't stateObject" where
  "flush_slot env key x =
     (let (t, o') = x in
      case gm_get (so_dirtyStorage o') key of
        None \<Rightarrow> (t, o')
      | Some value \<Rightarrow>
          let o1 = o'\<lparr>so_dirtyStorage := gm_del (so_dirtyStorage o') key\<rparr> in
          if value = (case gm_get (so_originStorage o1) key of None \<Rightarrow> 0 | Some v \<Rightarrow> v) then (t, o1)
          else
            let o2 = o1\<lparr>so_originStorage := gm_put (so_originStorage o1) key value\<rparr>;
                (e, t') = (if value = 0 then t_TryDelete env t (hash_bytes key)
                           else t_TryUpdate env t (hash_bytes key) (rlp_bytes env (trim_zeros (hash_bytes value)))) in
            (t', so_setError e o2))"

definition so_updateTrie :: "'t senv \<Rightarrow> (hash list \<Rightarrow> hash list) \<Rightarrow> 't stateObject \<Rightarrow> 't stateObject" where
  "so_updateTrie env rng o' =
     (let (t, o1) = so_getTrie env o'; (t', o2) = fold (flush_slot env) (rng (gm_keys (so_dirtyStorage o1))) (t, o1) in
      o2\<lparr>so_trie := Some t'\<rparr>)"

definition so_updateRoot :: "'t senv \<Rightarrow> (hash list \<Rightarrow> hash list) \<Rightarrow> 't stateObject \<Rightarrow> 't stateObject" where
  "so_updateRoot env rng o' =
     (let o1 = so_updateTrie env rng o' in
      case so_trie o1 of
        None \<Rightarrow> o1
      | Some t \<Rightarrow> let (h, t') = t_Hash env t in o1\<lparr>so_trie := Some t', so_data := (so_data o1)\<lparr>a_Root := h\<rparr>\<rparr>)"

definition so_deepCopy :: "'t senv \<Rightarrow> 't stateObject \<Rightarrow> 't stateObject" where
  "so_deepCopy env o' =
     (newObject env (so_address o') (so_data o'))
       \<lparr>so_trie := map_option (CopyTrie env) (so_trie o'), so_code := so_code o',
        so_dirtyStorage := so_dirtyStorage o', so_originStorage := so_originStorage o',
        so_suicided := so_suicided o', so_dirtyCode := so_dirtyCode o', so_deleted := so_deleted o'\<rparr>"

section \<open>Finding and creating objects\<close>

definition setStateObject :: "'t stateObject \<Rightarrow> 't stateDB \<Rightarrow> 't stateDB" where
  "setStateObject o' s = s\<lparr>stateObjects := gm_put (stateObjects s) (so_address o') o'\<rparr>"

definition getStateObject :: "'t senv \<Rightarrow> address \<Rightarrow> 't stateDB \<Rightarrow> 't stateObject option \<times> 't stateDB" where
  "getStateObject env addr s =
     (case gm_get (stateObjects s) addr of
        Some obj \<Rightarrow> (if so_deleted obj then None else Some obj, s)
      | None \<Rightarrow>
          let (enc, err, t') = t_TryGet env (sdb_trie s) (address_bytes addr); s1 = s\<lparr>sdb_trie := t'\<rparr> in
          if length enc = 0 then (None, sdb_setError err s1)
          else case decodeAccount env enc of
                 None \<Rightarrow> (None, s1)
               | Some data \<Rightarrow> let obj = newObject env addr data in (Some obj, setStateObject obj s1))"

definition createObject :: "'t senv \<Rightarrow> address \<Rightarrow> 't stateDB \<Rightarrow> ('t stateObject \<times> 't stateObject option) \<times> 't stateDB" where
  "createObject env addr s =
     (let (prev, s1) = getStateObject env addr s;
          newobj = so_setNonce 0 (newObject env addr (zero_account env));
          s2 = journal_append (case prev of None \<Rightarrow> createObjectChange addr | Some p \<Rightarrow> resetObjectChange p) s1
      in ((newobj, prev), setStateObject newobj s2))"

definition GetOrNewStateObject :: "'t senv \<Rightarrow> address \<Rightarrow> 't stateDB \<Rightarrow> 't stateObject \<times> 't stateDB" where
  "GetOrNewStateObject env addr s =
     (case getStateObject env addr s of
        (None, s1) \<Rightarrow> (let ((newobj, _), s2) = createObject env addr s1 in (newobj, s2))
      | (Some obj, s1) \<Rightarrow>
          if so_deleted obj then (let ((newobj, _), s2) = createObject env addr s1 in (newobj, s2)) else (obj, s1))"

definition CreateAccount :: "'t senv \<Rightarrow> address \<Rightarrow> 't stateDB \<Rightarrow> 't stateDB" where
  "CreateAccount env addr s =
     (let ((newObj, prev), s1) = createObject env addr s in
      case prev of None \<Rightarrow> s1 | Some p \<Rightarrow> setStateObject (so_setBalance (a_Balance (so_data p)) newObj) s1)"

end
