(* ===== verification/State_Ops.thy ===== *)
theory State_Ops
  imports State_DB
begin

text \<open>
  The operations of the state database (\<open>core/state/statedb.go\<close>): readers, setters that write the journal,
  snapshots and reverting, and \<open>Finalise\<close>.
\<close>

section \<open>Setters of objects\<close>

definition ripemd :: address where "ripemd = 3"

definition so_touch :: "'t stateObject \<Rightarrow> 't stateDB \<Rightarrow> 't stateDB" where
  "so_touch o' s =
     (let s1 = journal_append (touchChange (so_address o')) s in
      if so_address o' = ripemd then journal_dirty (so_address o') s1 else s1)"

definition so_SetBalance :: "bigint \<Rightarrow> 't stateObject \<Rightarrow> 't stateDB \<Rightarrow> 't stateDB" where
  "so_SetBalance amount o' s =
     setStateObject (so_setBalance amount o') (journal_append (balanceChange (so_address o') (a_Balance (so_data o'))) s)"

definition so_AddBalance :: "'t senv \<Rightarrow> bigint \<Rightarrow> 't stateObject \<Rightarrow> 't stateDB \<Rightarrow> 't stateDB" where
  "so_AddBalance env amount o' s =
     (if amount = 0 then (if so_empty env o' then so_touch o' s else s)
      else so_SetBalance (a_Balance (so_data o') + amount) o' s)"

definition so_SubBalance :: "bigint \<Rightarrow> 't stateObject \<Rightarrow> 't stateDB \<Rightarrow> 't stateDB" where
  "so_SubBalance amount o' s =
     (if amount = 0 then s else so_SetBalance (a_Balance (so_data o') - amount) o' s)"

definition so_SetNonce :: "u64 \<Rightarrow> 't stateObject \<Rightarrow> 't stateDB \<Rightarrow> 't stateDB" where
  "so_SetNonce nonce o' s =
     setStateObject (so_setNonce nonce o') (journal_append (nonceChange (so_address o') (a_Nonce (so_data o'))) s)"

definition so_SetCode :: "'t senv \<Rightarrow> hash \<Rightarrow> bytes option \<Rightarrow> 't stateObject \<Rightarrow> 't stateDB \<Rightarrow> 't stateDB" where
  "so_SetCode env codeHash code o' s =
     (let (prevcode, o1) = so_Code env o' in
      setStateObject (so_setCode codeHash code o1)
        (journal_append (codeChange (so_address o1) prevcode (a_CodeHash (so_data o1))) s))"

definition so_SetState :: "'t senv \<Rightarrow> hash \<Rightarrow> hash \<Rightarrow> 't stateObject \<Rightarrow> 't stateDB \<Rightarrow> 't stateDB" where
  "so_SetState env key value o' s =
     (let (prev, o1) = so_GetState env key o' in
      if prev = value then setStateObject o1 s
      else setStateObject (so_setState key value o1) (journal_append (storageChange (so_address o1) key prev) s))"

section \<open>Readers\<close>

text \<open>Readers load objects, code and slots, so they return the state as well.\<close>

definition Exist :: "'t senv \<Rightarrow> address \<Rightarrow> 't stateDB \<Rightarrow> bool \<times> 't stateDB" where
  "Exist env addr s = (let (o', s1) = getStateObject env addr s in (o' \<noteq> None, s1))"

definition state_Empty :: "'t senv \<Rightarrow> address \<Rightarrow> 't stateDB \<Rightarrow> bool \<times> 't stateDB" where
  "state_Empty env addr s =
     (let (o', s1) = getStateObject env addr s in (case o' of None \<Rightarrow> True | Some x \<Rightarrow> so_empty env x, s1))"

definition GetBalance :: "'t senv \<Rightarrow> address \<Rightarrow> 't stateDB \<Rightarrow> bigint \<times> 't stateDB" where
  "GetBalance env addr s =
     (let (o', s1) = getStateObject env addr s in (case o' of None \<Rightarrow> 0 | Some x \<Rightarrow> a_Balance (so_data x), s1))"

definition GetNonce :: "'t senv \<Rightarrow> address \<Rightarrow> 't stateDB \<Rightarrow> u64 \<times> 't stateDB" where
  "GetNonce env addr s =
     (let (o', s1) = getStateObject env addr s in (case o' of None \<Rightarrow> 0 | Some x \<Rightarrow> a_Nonce (so_data x), s1))"

definition GetCode :: "'t senv \<Rightarrow> address \<Rightarrow> 't stateDB \<Rightarrow> bytes option \<times> 't stateDB" where
  "GetCode env addr s =
     (let (o', s1) = getStateObject env addr s in
      case o' of None \<Rightarrow> (None, s1) | Some x \<Rightarrow> let (code, x') = so_Code env x in (code, setStateObject x' s1))"

definition GetCodeSize :: "'t senv \<Rightarrow> address \<Rightarrow> 't stateDB \<Rightarrow> nat \<times> 't stateDB" where
  "GetCodeSize env addr s =
     (let (o', s1) = getStateObject env addr s in
      case o' of
        None \<Rightarrow> (0, s1)
      | Some x \<Rightarrow>
          (case so_code x of
             Some c \<Rightarrow> (length c, s1)
           | None \<Rightarrow>
               let (size, err) = ContractCodeSize env (so_addrHash x) (BytesToHash (a_CodeHash (so_data x))) in
               (size, if err \<noteq> None then sdb_setError err s1 else s1)))"

definition GetCodeHash :: "'t senv \<Rightarrow> address \<Rightarrow> 't stateDB \<Rightarrow> hash \<times> 't stateDB" where
  "GetCodeHash env addr s =
     (let (o', s1) = getStateObject env addr s in
      (case o' of None \<Rightarrow> 0 | Some x \<Rightarrow> BytesToHash (a_CodeHash (so_data x)), s1))"

definition GetState :: "'t senv \<Rightarrow> address \<Rightarrow> hash \<Rightarrow> 't stateDB \<Rightarrow> hash \<times> 't stateDB" where
  "GetState env addr key s =
     (let (o', s1) = getStateObject env addr s in
      case o' of None \<Rightarrow> (0, s1) | Some x \<Rightarrow> let (v, x') = so_GetState env key x in (v, setStateObject x' s1))"

definition GetCommittedState :: "'t senv \<Rightarrow> address \<Rightarrow> hash \<Rightarrow> 't stateDB \<Rightarrow> hash \<times> 't stateDB" where
  "GetCommittedState env addr key s =
     (let (o', s1) = getStateObject env addr s in
      case o' of None \<Rightarrow> (0, s1) | Some x \<Rightarrow> let (v, x') = so_GetCommittedState env key x in (v, setStateObject x' s1))"

definition HasSuicided :: "'t senv \<Rightarrow> address \<Rightarrow> 't stateDB \<Rightarrow> bool \<times> 't stateDB" where
  "HasSuicided env addr s =
     (let (o', s1) = getStateObject env addr s in (case o' of None \<Rightarrow> False | Some x \<Rightarrow> so_suicided x, s1))"

definition GetRefund :: "'t stateDB \<Rightarrow> u64" where "GetRefund s = sdb_refund s"

definition GetLogs :: "hash \<Rightarrow> 't stateDB \<Rightarrow> log list" where
  "GetLogs h s = (case gm_get (sdb_logs s) h of None \<Rightarrow> [] | Some ls \<Rightarrow> ls)"

definition Logs :: "(hash list \<Rightarrow> hash list) \<Rightarrow> 't stateDB \<Rightarrow> log list" where
  "Logs rng s = concat (map (\<lambda>h. GetLogs h s) (rng (gm_keys (sdb_logs s))))"

section \<open>Setters\<close>

definition AddBalance :: "'t senv \<Rightarrow> address \<Rightarrow> bigint \<Rightarrow> 't stateDB \<Rightarrow> 't stateDB" where
  "AddBalance env addr amount s = (let (o', s1) = GetOrNewStateObject env addr s in so_AddBalance env amount o' s1)"

definition SubBalance :: "'t senv \<Rightarrow> address \<Rightarrow> bigint \<Rightarrow> 't stateDB \<Rightarrow> 't stateDB" where
  "SubBalance env addr amount s = (let (o', s1) = GetOrNewStateObject env addr s in so_SubBalance amount o' s1)"

definition SetBalance :: "'t senv \<Rightarrow> address \<Rightarrow> bigint \<Rightarrow> 't stateDB \<Rightarrow> 't stateDB" where
  "SetBalance env addr amount s = (let (o', s1) = GetOrNewStateObject env addr s in so_SetBalance amount o' s1)"

definition SetNonce :: "'t senv \<Rightarrow> address \<Rightarrow> u64 \<Rightarrow> 't stateDB \<Rightarrow> 't stateDB" where
  "SetNonce env addr nonce s = (let (o', s1) = GetOrNewStateObject env addr s in so_SetNonce nonce o' s1)"

definition SetCode :: "'t senv \<Rightarrow> address \<Rightarrow> bytes option \<Rightarrow> 't stateDB \<Rightarrow> 't stateDB" where
  "SetCode env addr code s =
     (let (o', s1) = GetOrNewStateObject env addr s in
      so_SetCode env (keccak env (case code of None \<Rightarrow> [] | Some c \<Rightarrow> c)) code o' s1)"

definition SetState :: "'t senv \<Rightarrow> address \<Rightarrow> hash \<Rightarrow> hash \<Rightarrow> 't stateDB \<Rightarrow> 't stateDB" where
  "SetState env addr key value s = (let (o', s1) = GetOrNewStateObject env addr s in so_SetState env key value o' s1)"

definition Suicide :: "'t senv \<Rightarrow> address \<Rightarrow> 't stateDB \<Rightarrow> bool \<times> 't stateDB" where
  "Suicide env addr s =
     (case getStateObject env addr s of
        (None, s1) \<Rightarrow> (False, s1)
      | (Some x, s1) \<Rightarrow>
          (True, setStateObject (so_setBalance 0 (x\<lparr>so_suicided := True\<rparr>))
                   (journal_append (suicideChange addr (so_suicided x) (a_Balance (so_data x))) s1)))"

definition AddLog :: "log \<Rightarrow> 't stateDB \<Rightarrow> 't stateDB" where
  "AddLog l s =
     (let s1 = journal_append (addLogChange (thash s)) s;
          l' = l\<lparr>l_TxHash := thash s, l_BlockHash := bhash s, l_TxIndex := word_of_int (txIndex s), l_Index := logSize s\<rparr>
      in s1\<lparr>sdb_logs := gm_put (sdb_logs s1) (thash s) (GetLogs (thash s) s1 @ [l']), logSize := logSize s1 + 1\<rparr>)"

definition AddPreimage :: "hash \<Rightarrow> bytes \<Rightarrow> 't stateDB \<Rightarrow> 't stateDB" where
  "AddPreimage h pre s =
     (if gm_get (sdb_preimages s) h = None
      then let s1 = journal_append (addPreimageChange h) s in s1\<lparr>sdb_preimages := gm_put (sdb_preimages s1) h pre\<rparr>
      else s)"

definition AddRefund :: "u64 \<Rightarrow> 't stateDB \<Rightarrow> 't stateDB" where
  "AddRefund gas s = (let s1 = journal_append (refundChange (sdb_refund s)) s in s1\<lparr>sdb_refund := sdb_refund s1 + gas\<rparr>)"

definition SubRefund :: "u64 \<Rightarrow> 't stateDB \<Rightarrow> 't stateDB option" where
  "SubRefund gas s =
     (let s1 = journal_append (refundChange (sdb_refund s)) s in
      if gas > sdb_refund s1 then None else Some (s1\<lparr>sdb_refund := sdb_refund s1 - gas\<rparr>))"

definition state_Prepare :: "hash \<Rightarrow> hash \<Rightarrow> int \<Rightarrow> 't stateDB \<Rightarrow> 't stateDB" where
  "state_Prepare th bh ti s = s\<lparr>thash := th, bhash := bh, txIndex := ti\<rparr>"

section \<open>Reverting\<close>

text \<open>An object that must be there for the entry to be undone: a nil object is a panic.\<close>

definition undo_on :: "'t senv \<Rightarrow> address \<Rightarrow> ('t stateObject \<Rightarrow> 't stateObject) \<Rightarrow> 't stateDB \<Rightarrow> 't stateDB option" where
  "undo_on env a f s =
     (case getStateObject env a s of (None, _) \<Rightarrow> None | (Some x, s1) \<Rightarrow> Some (setStateObject (f x) s1))"

fun entry_revert :: "'t senv \<Rightarrow> 't journalEntry \<Rightarrow> 't stateDB \<Rightarrow> 't stateDB option" where
  "entry_revert env (createObjectChange a) s =
     Some (s\<lparr>stateObjects := gm_del (stateObjects s) a, stateObjectsDirty := gm_del (stateObjectsDirty s) a\<rparr>)"
| "entry_revert env (resetObjectChange prev) s = Some (setStateObject prev s)"
| "entry_revert env (suicideChange a prev prevbalance) s =
     (case getStateObject env a s of
        (None, s1) \<Rightarrow> Some s1
      | (Some x, s1) \<Rightarrow> Some (setStateObject (so_setBalance prevbalance (x\<lparr>so_suicided := prev\<rparr>)) s1))"
| "entry_revert env (balanceChange a prev) s = undo_on env a (so_setBalance prev) s"
| "entry_revert env (nonceChange a prev) s = undo_on env a (so_setNonce prev) s"
| "entry_revert env (storageChange a key prevalue) s = undo_on env a (so_setState key prevalue) s"
| "entry_revert env (codeChange a prevcode prevhash) s = undo_on env a (so_setCode (BytesToHash prevhash) prevcode) s"
| "entry_revert env (refundChange prev) s = Some (s\<lparr>sdb_refund := prev\<rparr>)"
| "entry_revert env (addLogChange h) s =
     (let logs = GetLogs h s in
      if length logs = 1 then Some (s\<lparr>sdb_logs := gm_del (sdb_logs s) h, logSize := logSize s - 1\<rparr>)
      else if logs = [] then None
      else Some (s\<lparr>sdb_logs := gm_put (sdb_logs s) h (butlast logs), logSize := logSize s - 1\<rparr>))"
| "entry_revert env (addPreimageChange h) s = Some (s\<lparr>sdb_preimages := gm_del (sdb_preimages s) h\<rparr>)"
| "entry_revert env (touchChange a) s = Some s"

text \<open>Dropping the dirty tracking of an entry.\<close>

definition undirty :: "'t journalEntry \<Rightarrow> 't stateDB \<Rightarrow> 't stateDB" where
  "undirty e s =
     (case dirtied e of
        None \<Rightarrow> s
      | Some a \<Rightarrow>
          let n = count_of (j_dirties s) a - 1 in
          if n = 0 then s\<lparr>j_dirties := gm_del (j_dirties s) a\<rparr> else s\<lparr>j_dirties := gm_put (j_dirties s) a n\<rparr>)"

fun revert_entries :: "'t senv \<Rightarrow> 't journalEntry list \<Rightarrow> 't stateDB \<Rightarrow> 't stateDB option" where
  "revert_entries env [] s = Some s"
| "revert_entries env (e # es) s =
     (case entry_revert env e s of None \<Rightarrow> None | Some s1 \<Rightarrow> revert_entries env es (undirty e s1))"

definition journal_revert :: "'t senv \<Rightarrow> nat \<Rightarrow> 't stateDB \<Rightarrow> 't stateDB option" where
  "journal_revert env snapshot s =
     (case revert_entries env (rev (drop snapshot (j_entries s))) s of
        None \<Rightarrow> None
      | Some s1 \<Rightarrow> Some (s1\<lparr>j_entries := take snapshot (j_entries s1)\<rparr>))"

definition Snapshot :: "'t stateDB \<Rightarrow> int \<times> 't stateDB" where
  "Snapshot s =
     (let i = nextRevisionId s in
      (i, s\<lparr>nextRevisionId := i + 1, validRevisions := validRevisions s @ [(i, length (j_entries s))]\<rparr>))"

text \<open>\<open>sort.Search\<close> of the standard library: binary search for the first index where the predicate holds.\<close>

function search_between :: "(nat \<Rightarrow> bool) \<Rightarrow> nat \<Rightarrow> nat \<Rightarrow> nat" where
  "search_between f i j =
     (if i < j then let h = (i + j) div 2 in if \<not> f h then search_between f (h + 1) j else search_between f i h else i)"
  by pat_completeness auto
termination by (relation "measure (\<lambda>(f, i, j). j - i)") auto

declare search_between.simps [simp del]

definition sort_Search :: "nat \<Rightarrow> (nat \<Rightarrow> bool) \<Rightarrow> nat" where
  "sort_Search n f = search_between f 0 n"

definition RevertToSnapshot :: "'t senv \<Rightarrow> int \<Rightarrow> 't stateDB \<Rightarrow> 't stateDB option" where
  "RevertToSnapshot env revid s =
     (let idx = sort_Search (length (validRevisions s)) (\<lambda>i. fst (validRevisions s ! i) \<ge> revid) in
      if idx = length (validRevisions s) \<or> fst (validRevisions s ! idx) \<noteq> revid then None
      else (case journal_revert env (snd (validRevisions s ! idx)) s of
              None \<Rightarrow> None
            | Some s1 \<Rightarrow> Some (s1\<lparr>validRevisions := take idx (validRevisions s1)\<rparr>)))"

section \<open>Finalising\<close>

text \<open>An account that RLP cannot encode (a negative balance) is a panic.\<close>

definition updateStateObject :: "'t senv \<Rightarrow> 't stateObject \<Rightarrow> 't stateDB \<Rightarrow> 't stateDB option" where
  "updateStateObject env x s =
     (case encodeAccount env (so_data x) of
        None \<Rightarrow> None
      | Some data \<Rightarrow>
          let (e, t') = t_TryUpdate env (sdb_trie s) (address_bytes (so_address x)) data in
          Some (sdb_setError e (s\<lparr>sdb_trie := t'\<rparr>)))"

definition deleteStateObject :: "'t senv \<Rightarrow> 't stateObject \<Rightarrow> 't stateDB \<Rightarrow> 't stateDB" where
  "deleteStateObject env x s =
     (let s1 = setStateObject (x\<lparr>so_deleted := True\<rparr>) s;
          (e, t') = t_TryDelete env (sdb_trie s1) (address_bytes (so_address x)) in
      sdb_setError e (s1\<lparr>sdb_trie := t'\<rparr>))"

definition finalise_step ::
  "'t senv \<Rightarrow> (hash list \<Rightarrow> hash list) \<Rightarrow> bool \<Rightarrow> address \<Rightarrow> 't stateDB \<Rightarrow> 't stateDB option" where
  "finalise_step env rng deleteEmptyObjects addr s =
     (case gm_get (stateObjects s) addr of
        None \<Rightarrow> Some s
      | Some x \<Rightarrow>
          (case (if so_suicided x \<or> (deleteEmptyObjects \<and> so_empty env x) then Some (deleteStateObject env x s)
                 else let x' = so_updateRoot env rng x in updateStateObject env x' (setStateObject x' s)) of
             None \<Rightarrow> None
           | Some s1 \<Rightarrow> Some (s1\<lparr>stateObjectsDirty := gm_put (stateObjectsDirty s1) addr ()\<rparr>)))"

fun finalise_loop ::
  "'t senv \<Rightarrow> (hash list \<Rightarrow> hash list) \<Rightarrow> bool \<Rightarrow> address list \<Rightarrow> 't stateDB \<Rightarrow> 't stateDB option" where
  "finalise_loop env rng deleteEmptyObjects [] s = Some s"
| "finalise_loop env rng deleteEmptyObjects (a # as) s =
     (case finalise_step env rng deleteEmptyObjects a s of
        None \<Rightarrow> None
      | Some s1 \<Rightarrow> finalise_loop env rng deleteEmptyObjects as s1)"

text \<open>The order of the range over the dirty accounts and the one over the slots are the functions \<open>arng\<close> and \<open>rng\<close>.\<close>

definition Finalise ::
  "'t senv \<Rightarrow> (address list \<Rightarrow> address list) \<Rightarrow> (hash list \<Rightarrow> hash list) \<Rightarrow> bool \<Rightarrow> 't stateDB \<Rightarrow> 't stateDB option" where
  "Finalise env arng rng deleteEmptyObjects s =
     map_option clearJournalAndRefund (finalise_loop env rng deleteEmptyObjects (arng (gm_keys (j_dirties s))) s)"

definition IntermediateRoot ::
  "'t senv \<Rightarrow> (address list \<Rightarrow> address list) \<Rightarrow> (hash list \<Rightarrow> hash list) \<Rightarrow> bool \<Rightarrow> 't stateDB \<Rightarrow> (hash \<times> 't stateDB) option" where
  "IntermediateRoot env arng rng deleteEmptyObjects s =
     map_option (\<lambda>s1. let (h, t') = t_Hash env (sdb_trie s1) in (h, s1\<lparr>sdb_trie := t'\<rparr>))
       (Finalise env arng rng deleteEmptyObjects s)"

section \<open>Copying\<close>

definition copy_object :: "'t senv \<Rightarrow> 't stateDB \<Rightarrow> address \<Rightarrow> 't stateDB \<Rightarrow> 't stateDB" where
  "copy_object env self addr s =
     (case gm_get (stateObjects self) addr of
        None \<Rightarrow> s
      | Some x \<Rightarrow> s\<lparr>stateObjects := gm_put (stateObjects s) addr (so_deepCopy env x),
                     stateObjectsDirty := gm_put (stateObjectsDirty s) addr ()\<rparr>)"

text \<open>The second loop dereferences the objects of the dirty set: a missing one is a nil pointer.\<close>

fun copy_dirty :: "'t senv \<Rightarrow> 't stateDB \<Rightarrow> address list \<Rightarrow> 't stateDB \<Rightarrow> 't stateDB option" where
  "copy_dirty env self [] s = Some s"
| "copy_dirty env self (a # as) s =
     (if gm_get (stateObjects s) a \<noteq> None then copy_dirty env self as s
      else if gm_get (stateObjects self) a = None then None
      else copy_dirty env self as (copy_object env self a s))"

definition state_Copy :: "'t senv \<Rightarrow> (address list \<Rightarrow> address list) \<Rightarrow> 't stateDB \<Rightarrow> 't stateDB option" where
  "state_Copy env rng self =
     (let s0 = (fresh_stateDB (CopyTrie env (sdb_trie self)))
                 \<lparr>sdb_refund := sdb_refund self, logSize := logSize self,
                  sdb_logs := sdb_logs self, sdb_preimages := sdb_preimages self\<rparr>;
          s1 = fold (copy_object env self) (rng (gm_keys (j_dirties self))) s0
      in copy_dirty env self (rng (gm_keys (stateObjectsDirty self))) s1)"

end
