(* ===== verification/State_View.thy ===== *)
theory State_View
  imports State_Ops
begin

text \<open>
  What a client can observe of the state database, and how loading and reverting act on it
  (\<open>core/state/statedb.go\<close>, \<open>core/state/journal.go\<close>).

  \<open>state_view\<close> is the abstract state: the accounts with their code and storage, the refund counter, the logs
  and the preimages. Reading caches objects, code and slots; none of this shows in the view.
\<close>

record account_view =
  v_nonce :: u64
  v_balance :: bigint
  v_root :: hash
  v_codehash :: bytes
  v_code :: "bytes option"
  v_storage :: "hash \<Rightarrow> hash"
  v_committed :: "hash \<Rightarrow> hash"
  v_suicided :: bool

record state_view =
  v_accounts :: "address \<Rightarrow> account_view option"
  v_refund :: u64
  v_logs :: "hash \<Rightarrow> log list"
  v_logSize :: u64
  v_preimages :: "hash \<Rightarrow> bytes option"
  v_trie :: "bytes \<Rightarrow> bytes"

definition stored :: "'t senv \<Rightarrow> 't \<Rightarrow> bytes \<Rightarrow> bytes" where
  "stored env t k = fst (t_TryGet env t k)"

definition storage_of :: "'t senv \<Rightarrow> 't stateObject \<Rightarrow> 't" where
  "storage_of env x = (case so_trie x of Some t \<Rightarrow> t | None \<Rightarrow> fst (open_storage env (so_addrHash x) (a_Root (so_data x))))"

definition committed_of :: "'t senv \<Rightarrow> 't stateObject \<Rightarrow> hash \<Rightarrow> hash" where
  "committed_of env x key =
     (case gm_get (so_originStorage x) key of
        Some v \<Rightarrow> v
      | None \<Rightarrow> let enc = stored env (storage_of env x) (hash_bytes key) in
                if enc = [] then 0 else BytesToHash (fst (rlp_Split env enc)))"

definition code_of :: "'t senv \<Rightarrow> 't stateObject \<Rightarrow> bytes option" where
  "code_of env x =
     (if so_code x \<noteq> None then so_code x
      else if a_CodeHash (so_data x) = emptyCodeHash env then None
      else fst (ContractCode env (so_addrHash x) (BytesToHash (a_CodeHash (so_data x)))))"

definition object_view :: "'t senv \<Rightarrow> 't stateObject \<Rightarrow> account_view" where
  "object_view env x =
     \<lparr>v_nonce = a_Nonce (so_data x), v_balance = a_Balance (so_data x), v_root = a_Root (so_data x),
      v_codehash = a_CodeHash (so_data x), v_code = code_of env x,
      v_storage = (\<lambda>k. case gm_get (so_dirtyStorage x) k of Some v \<Rightarrow> v | None \<Rightarrow> committed_of env x k),
      v_committed = committed_of env x, v_suicided = so_suicided x\<rparr>"

text \<open>The object at an address, loaded from the trie when it is not live.\<close>

definition load_object :: "'t senv \<Rightarrow> (bytes \<Rightarrow> bytes) \<Rightarrow> address \<Rightarrow> 't stateObject option" where
  "load_object env content a =
     (let enc = content (address_bytes a) in
      if enc = [] then None else map_option (newObject env a) (decodeAccount env enc))"

definition lookup_object :: "'t senv \<Rightarrow> 't stateDB \<Rightarrow> address \<Rightarrow> 't stateObject option" where
  "lookup_object env s a =
     (case gm_get (stateObjects s) a of
        Some x \<Rightarrow> if so_deleted x then None else Some x
      | None \<Rightarrow> load_object env (stored env (sdb_trie s)) a)"

definition view :: "'t senv \<Rightarrow> 't stateDB \<Rightarrow> state_view" where
  "view env s =
     \<lparr>v_accounts = (\<lambda>a. map_option (object_view env) (lookup_object env s a)), v_refund = sdb_refund s,
      v_logs = (\<lambda>h. GetLogs h s), v_logSize = logSize s, v_preimages = gm_get (sdb_preimages s),
      v_trie = stored env (sdb_trie s)\<rparr>"

lemma object_view_cong:
  "so_data x' = so_data x \<Longrightarrow> so_suicided x' = so_suicided x \<Longrightarrow> so_dirtyStorage x' = so_dirtyStorage x \<Longrightarrow>
     code_of env x' = code_of env x \<Longrightarrow> committed_of env x' = committed_of env x \<Longrightarrow> object_view env x' = object_view env x"
  by (simp add: object_view_def cong: option.case_cong)

section \<open>The interface of the tries\<close>

locale trie_laws =
  fixes env :: "'t senv" and tok :: "'t \<Rightarrow> bool"
  assumes get: "tok t \<Longrightarrow> \<exists>t'. t_TryGet env t k = (stored env t k, None, t') \<and> tok t' \<and> stored env t' = stored env t"
    and update: "tok t \<Longrightarrow> v \<noteq> [] \<Longrightarrow> \<exists>t'. t_TryUpdate env t k v = (None, t') \<and> tok t' \<and>
      (\<forall>k'. stored env t' k' = (if keccak env k' = keccak env k then v else stored env t k'))"
    and delete: "tok t \<Longrightarrow> \<exists>t'. t_TryDelete env t k = (None, t') \<and> tok t' \<and>
      (\<forall>k'. stored env t' k' = (if keccak env k' = keccak env k then [] else stored env t k'))"
    and open_wf: "OpenTrie env r = Inr t \<Longrightarrow> tok t" "OpenStorageTrie env h r = Inr t \<Longrightarrow> tok t"
    and open_empty: "\<exists>t. OpenStorageTrie env h 0 = Inr t"
    and hash_wf: "tok t \<Longrightarrow> tok (snd (t_Hash env t)) \<and> stored env (snd (t_Hash env t)) = stored env t"

text \<open>The invariant of an object and of the state. A code hash has 32 bytes. A deleted object is in the map
  only when the trie does not have the account any more, so that it may be forgotten.\<close>

definition object_ok :: "'t senv \<Rightarrow> ('t \<Rightarrow> bool) \<Rightarrow> address \<Rightarrow> 't stateObject \<Rightarrow> bool" where
  "object_ok env tok a x \<longleftrightarrow> so_address x = a \<and> so_addrHash x = keccak env (address_bytes a) \<and> length (a_CodeHash (so_data x)) = 32 \<and> (\<forall>t. so_trie x = Some t \<longrightarrow> tok t)"

fun entry_ok :: "'t senv \<Rightarrow> ('t \<Rightarrow> bool) \<Rightarrow> 't journalEntry \<Rightarrow> bool" where
  "entry_ok env tok (resetObjectChange prev) = (object_ok env tok (so_address prev) prev \<and> \<not> so_deleted prev)"
| "entry_ok env tok (codeChange _ _ prevhash) = (length prevhash = 32)"
| "entry_ok env tok _ = True"

definition state_ok :: "'t senv \<Rightarrow> ('t \<Rightarrow> bool) \<Rightarrow> 't stateDB \<Rightarrow> bool" where
  "state_ok env tok s \<longleftrightarrow> tok (sdb_trie s)
     \<and> (\<forall>a x. gm_get (stateObjects s) a = Some x \<longrightarrow> object_ok env tok a x
          \<and> (so_deleted x \<longrightarrow> load_object env (stored env (sdb_trie s)) a = None))
     \<and> (\<forall>a x. load_object env (stored env (sdb_trie s)) a = Some x \<longrightarrow> length (a_CodeHash (so_data x)) = 32)
     \<and> (\<forall>e \<in> set (j_entries s). entry_ok env tok e)"

text \<open>Two states that differ only in what is cached and in the journal.\<close>

definition frame :: "'t stateDB \<Rightarrow> 't stateDB \<Rightarrow> bool" where
  "frame s s' \<longleftrightarrow> j_entries s' = j_entries s \<and> validRevisions s' = validRevisions s \<and> nextRevisionId s' = nextRevisionId s"

lemma frame_refl [simp]: "frame s s"
  by (simp add: frame_def)

lemma frame_trans: "frame s s' \<Longrightarrow> frame s' s'' \<Longrightarrow> frame s s''"
  by (simp add: frame_def)

lemma frame_put [simp]: "frame s (setStateObject x s') = frame s s'"
  by (simp add: frame_def setStateObject_def)

section \<open>Objects\<close>

lemma lookup_put [simp]:
  "lookup_object env (setStateObject x s) a =
     (if a = so_address x then (if so_deleted x then None else Some x) else lookup_object env s a)"
  by (auto simp: lookup_object_def setStateObject_def gomap_simps split: option.splits)

lemma view_put:
  "view env (setStateObject x s) =
     (view env s)\<lparr>v_accounts := (v_accounts (view env s))(so_address x := if so_deleted x then None else Some (object_view env x))\<rparr>"
  by (auto simp: view_def fun_eq_iff) (simp_all add: setStateObject_def GetLogs_def)

lemma object_view_setBalance [simp]: "object_view env (so_setBalance b x) = (object_view env x)\<lparr>v_balance := b\<rparr>"
  by (auto simp: object_view_def so_setBalance_def code_of_def committed_of_def storage_of_def fun_eq_iff split: option.splits)

lemma object_view_setNonce [simp]: "object_view env (so_setNonce n x) = (object_view env x)\<lparr>v_nonce := n\<rparr>"
  by (auto simp: object_view_def so_setNonce_def code_of_def committed_of_def storage_of_def fun_eq_iff split: option.splits)

lemma object_view_suicided [simp]: "object_view env (x\<lparr>so_suicided := b\<rparr>) = (object_view env x)\<lparr>v_suicided := b\<rparr>"
  by (auto simp: object_view_def code_of_def committed_of_def storage_of_def fun_eq_iff split: option.splits)

lemma object_view_setState [simp]:
  "object_view env (so_setState k v x) = (object_view env x)\<lparr>v_storage := (v_storage (object_view env x))(k := v)\<rparr>"
proof -
  have "committed_of env (so_setState k v x) = committed_of env x"
    by (auto simp: so_setState_def committed_of_def storage_of_def fun_eq_iff split: option.splits)
  then show ?thesis
    by (auto simp: object_view_def so_setState_def code_of_def fun_eq_iff gomap_simps split: option.splits)
qed

lemma object_view_setCode:
  assumes "length h = 32"
  shows "object_view env (so_setCode (BytesToHash h) c x) = (object_view env x)
    \<lparr>v_codehash := hash_bytes (BytesToHash h),
     v_code := if c \<noteq> None then c else if hash_bytes (BytesToHash h) = emptyCodeHash env then None
               else fst (ContractCode env (so_addrHash x) (BytesToHash h))\<rparr>"
  by (auto simp: object_view_def so_setCode_def code_of_def committed_of_def storage_of_def fun_eq_iff split: option.splits)

lemma object_view_setError [simp]: "object_view env (so_setError e x) = object_view env x"
  by (auto simp: so_setError_def object_view_def code_of_def committed_of_def storage_of_def fun_eq_iff split: option.splits)

definition same_object :: "'t senv \<Rightarrow> 't stateObject \<Rightarrow> 't stateObject \<Rightarrow> bool" where
  "same_object env x x' \<longleftrightarrow> object_view env x' = object_view env x \<and> so_deleted x' = so_deleted x
     \<and> so_data x' = so_data x \<and> so_suicided x' = so_suicided x"

lemma same_object_refl [simp]: "same_object env x x"
  by (simp add: same_object_def)

lemma object_ok_setters [simp]:
  "object_ok env tok a (so_setBalance b x) = object_ok env tok a x"
  "object_ok env tok a (so_setNonce n x) = object_ok env tok a x"
  "object_ok env tok a (so_setState k v x) = object_ok env tok a x"
  "object_ok env tok a (x\<lparr>so_suicided := d\<rparr>) = object_ok env tok a x"
  "object_ok env tok a (so_setError e x) = object_ok env tok a x"
  by (auto simp: object_ok_def so_setBalance_def so_setNonce_def so_setState_def so_setError_def)

lemma deleted_setters [simp]:
  "so_deleted (so_setBalance b x) = so_deleted x" "so_deleted (so_setNonce n x) = so_deleted x"
  "so_deleted (so_setState k v x) = so_deleted x" "so_deleted (so_setCode h c x) = so_deleted x"
  "so_deleted (so_setError e x) = so_deleted x" "so_deleted (newObject env a d) = False"
  by (auto simp: so_setBalance_def so_setNonce_def so_setState_def so_setCode_def so_setError_def newObject_def)

lemma address_setters [simp]:
  "so_address (so_setBalance b x) = so_address x" "so_address (so_setNonce n x) = so_address x"
  "so_address (so_setState k v x) = so_address x" "so_address (so_setCode h c x) = so_address x"
  "so_address (so_setError e x) = so_address x" "so_address (newObject env a d) = a"
  by (auto simp: so_setBalance_def so_setNonce_def so_setState_def so_setCode_def so_setError_def newObject_def)

lemma fields_setError [simp]:
  "so_data (so_setError e x) = so_data x" "so_suicided (so_setError e x) = so_suicided x" "so_trie (so_setError e x) = so_trie x"
  "so_originStorage (so_setError e x) = so_originStorage x" "so_dirtyStorage (so_setError e x) = so_dirtyStorage x"
  "so_code (so_setError e x) = so_code x" "so_addrHash (so_setError e x) = so_addrHash x"
  by (auto simp: so_setError_def)

lemma object_ok_setCode: "object_ok env tok a x \<Longrightarrow> object_ok env tok a (so_setCode h c x)"
  by (simp add: object_ok_def so_setCode_def)

lemma object_ok_new: "length (a_CodeHash d) = 32 \<Longrightarrow> object_ok env tok a (newObject env a d)"
  by (simp add: object_ok_def newObject_def)

section \<open>Loading does not show\<close>

lemma view_trie:
  assumes "stored env t' = stored env (sdb_trie s)"
  shows "view env (s\<lparr>sdb_trie := t'\<rparr>) = view env s"
  by (simp add: view_def lookup_object_def GetLogs_def assms cong: option.case_cong)

lemma view_dbErr [simp]: "view env (sdb_setError e s) = view env s"
  by (simp add: sdb_setError_def view_def lookup_object_def GetLogs_def cong: option.case_cong)

lemma frame_cached [simp]: "frame s (s'\<lparr>sdb_trie := t'\<rparr>) = frame s s'" "frame s (sdb_setError e s') = frame s s'"
  by (simp_all add: frame_def sdb_setError_def)

lemma state_ok_dbErr [simp]: "state_ok env tok (sdb_setError e s) = state_ok env tok s"
  by (simp add: state_ok_def sdb_setError_def)

lemma state_ok_put:
  assumes "state_ok env tok s" "object_ok env tok (so_address x) x" "\<not> so_deleted x"
  shows "state_ok env tok (setStateObject x s)"
proof -
  have "gm_get (stateObjects (setStateObject x s)) = (gm_get (stateObjects s))(so_address x \<mapsto> x)"
    by (auto simp: setStateObject_def gomap_simps fun_eq_iff)
  moreover have "sdb_trie (setStateObject x s) = sdb_trie s" "j_entries (setStateObject x s) = j_entries s"
    by (simp_all add: setStateObject_def)
  ultimately show ?thesis using assms unfolding state_ok_def by (simp split: if_splits)
qed

lemma state_ok_trie:
  assumes "state_ok env tok s" "tok t'" "stored env t' = stored env (sdb_trie s)"
  shows "state_ok env tok (s\<lparr>sdb_trie := t'\<rparr>)"
  using assms by (simp add: state_ok_def)

lemma view_put_same:
  assumes "lookup_object env s (so_address x) = Some y" "object_view env x = object_view env y" "\<not> so_deleted x"
  shows "view env (setStateObject x s) = view env s"
proof -
  have "(v_accounts (view env s))(so_address x := Some (object_view env x)) = v_accounts (view env s)"
    using assms by (auto simp: view_def fun_eq_iff)
  then show ?thesis using assms(3) by (simp add: view_put)
qed

context trie_laws
begin

lemma getStateObject_ok:
  assumes "state_ok env tok s"
  shows "\<exists>s'. getStateObject env a s = (lookup_object env s a, s') \<and> state_ok env tok s' \<and> view env s' = view env s
    \<and> frame s s' \<and> lookup_object env s' = lookup_object env s
    \<and> (\<forall>x. lookup_object env s a = Some x \<longrightarrow> object_ok env tok a x \<and> so_address x = a \<and> \<not> so_deleted x)"
proof (cases "gm_get (stateObjects s) a")
  case (Some x)
  then have "object_ok env tok a x" using assms by (simp add: state_ok_def)
  then show ?thesis using Some assms by (simp add: getStateObject_def lookup_object_def object_ok_def)
next
  case None
  let ?k = "address_bytes a"
  obtain t' where t': "t_TryGet env (sdb_trie s) ?k = (stored env (sdb_trie s) ?k, None, t')" "tok t'"
    "stored env t' = stored env (sdb_trie s)" using get assms by (metis state_ok_def)
  have ok: "state_ok env tok (s\<lparr>sdb_trie := t'\<rparr>)" and v: "view env (s\<lparr>sdb_trie := t'\<rparr>) = view env s"
    using state_ok_trie [OF assms t'(2,3)] view_trie [OF t'(3)] by simp_all
  have l: "lookup_object env (sdb_setError e (s\<lparr>sdb_trie := t'\<rparr>)) = lookup_object env s"
    "lookup_object env (s\<lparr>sdb_trie := t'\<rparr>) = lookup_object env s" for e
    by (rule ext, simp add: lookup_object_def sdb_setError_def t'(3) cong: option.case_cong)+
  show ?thesis
  proof (cases "load_object env (stored env (sdb_trie s)) a")
    case N: None
    then show ?thesis using None t' ok v l
      by (auto simp: getStateObject_def lookup_object_def load_object_def split: if_splits)
  next
    case (Some x)
    then obtain d where d: "x = newObject env a d" "stored env (sdb_trie s) ?k \<noteq> []"
      "decodeAccount env (stored env (sdb_trie s) ?k) = Some d" by (auto simp: load_object_def split: if_splits)
    have lo: "lookup_object env s a = Some x" using None Some by (simp add: lookup_object_def)
    have "length (a_CodeHash (so_data x)) = 32" using assms Some by (simp add: state_ok_def)
    then have xo: "object_ok env tok a x" by (simp add: d object_ok_def newObject_def)
    have e: "getStateObject env a s = (Some x, setStateObject x (s\<lparr>sdb_trie := t'\<rparr>))"
      using None t' d by (simp add: getStateObject_def)
    have "view env (setStateObject x (s\<lparr>sdb_trie := t'\<rparr>)) = view env s"
      using view_put_same [of env "s\<lparr>sdb_trie := t'\<rparr>" x x] lo l v d by simp
    moreover have "state_ok env tok (setStateObject x (s\<lparr>sdb_trie := t'\<rparr>))" using state_ok_put [OF ok] xo d by simp
    moreover have "lookup_object env (setStateObject x (s\<lparr>sdb_trie := t'\<rparr>)) = lookup_object env s"
      using lo l d by (auto simp: fun_eq_iff)
    ultimately show ?thesis using e lo xo d by simp
  qed
qed

lemma so_getTrie_ok:
  assumes "object_ok env tok a x"
  shows "\<exists>x'. so_getTrie env x = (storage_of env x, x') \<and> tok (storage_of env x) \<and> so_trie x' = Some (storage_of env x)
    \<and> same_object env x x' \<and> object_ok env tok a x' \<and> so_originStorage x' = so_originStorage x
    \<and> so_dirtyStorage x' = so_dirtyStorage x \<and> so_code x' = so_code x \<and> so_address x' = so_address x"
proof (cases "so_trie x")
  case (Some t)
  then show ?thesis using assms by (auto simp: so_getTrie_def storage_of_def object_ok_def)
next
  case None
  obtain t e where te: "open_storage env (so_addrHash x) (a_Root (so_data x)) = (t, e)" by fastforce
  have t: "tok t"
  proof (cases "OpenStorageTrie env (so_addrHash x) (a_Root (so_data x))")
    case (Inl e)
    obtain t0 where t0: "OpenStorageTrie env (so_addrHash x) 0 = Inr t0" using open_empty by blast
    then show ?thesis using te open_wf(2) [OF t0] Inl by (simp add: open_storage_def)
  next
    case (Inr t1)
    then show ?thesis using te open_wf(2) [OF Inr] by (simp add: open_storage_def)
  qed
  have s: "storage_of env x = t" using None te by (simp add: storage_of_def)
  let ?x = "x\<lparr>so_trie := Some t\<rparr>"
  have v: "object_view env ?x = object_view env x"
    using s by (auto simp: object_view_def code_of_def committed_of_def storage_of_def fun_eq_iff split: option.splits)
  have o1: "object_ok env tok a ?x" using assms t by (simp add: object_ok_def)
  show ?thesis using None te s t v o1
    by (cases e) (simp_all add: so_getTrie_def same_object_def)
qed

text \<open>Reading a slot or the code caches it and shows nothing else.\<close>

lemma so_GetCommittedState_ok:
  assumes "object_ok env tok a x"
  shows "\<exists>x'. so_GetCommittedState env k x = (committed_of env x k, x') \<and> same_object env x x' \<and> object_ok env tok a x'
    \<and> so_address x' = so_address x"
proof (cases "gm_get (so_originStorage x) k")
  case (Some v)
  then show ?thesis using assms by (simp add: so_GetCommittedState_def committed_of_def)
next
  case None
  let ?t = "storage_of env x"
  obtain x1 where x1: "so_getTrie env x = (?t, x1)" "tok ?t" "so_trie x1 = Some ?t" "same_object env x x1"
    "object_ok env tok a x1" "so_originStorage x1 = so_originStorage x" "so_dirtyStorage x1 = so_dirtyStorage x"
    "so_code x1 = so_code x" "so_address x1 = so_address x"
    using so_getTrie_ok [OF assms] by blast
  obtain t' where t': "t_TryGet env ?t (hash_bytes k) = (stored env ?t (hash_bytes k), None, t')" "tok t'"
    "stored env t' = stored env ?t" using get [OF x1(2)] by blast
  let ?enc = "stored env ?t (hash_bytes k)"
  define v where "v = (if ?enc = [] then 0 else BytesToHash (fst (rlp_Split env ?enc)))"
  have c: "committed_of env x k = v" using None by (simp add: committed_of_def v_def)
  define y where "y = (if ?enc \<noteq> [] \<and> snd (rlp_Split env ?enc) \<noteq> None
    then so_setError (snd (rlp_Split env ?enc)) (x1\<lparr>so_trie := Some t'\<rparr>) else x1\<lparr>so_trie := Some t'\<rparr>)"
  have yf: "so_data y = so_data x1" "so_suicided y = so_suicided x1" "so_trie y = Some t'" "so_originStorage y = so_originStorage x1"
    "so_dirtyStorage y = so_dirtyStorage x1" "so_code y = so_code x1" "so_addrHash y = so_addrHash x1"
    "so_deleted y = so_deleted x1" "so_address y = so_address x1" "object_ok env tok a y"
    using x1(5) t'(2) by (auto simp: y_def object_ok_def)
  define x' where "x' = y\<lparr>so_originStorage := gm_put (so_originStorage y) k v\<rparr>"
  have e: "so_GetCommittedState env k x = (v, x')"
    using None x1(1) t'(1) by (auto simp: so_GetCommittedState_def y_def x'_def v_def split: prod.splits)
  have com: "committed_of env x' = committed_of env x"
  proof
    fix k'
    have "storage_of env x' = t'" by (simp add: storage_of_def x'_def yf(3))
    moreover have "gm_get (so_originStorage x') = (gm_get (so_originStorage x))(k \<mapsto> v)"
      by (simp add: x'_def yf(4) x1(6) gm_get_put fun_eq_iff)
    ultimately show "committed_of env x' k' = committed_of env x k'"
      using c t'(3) None by (cases "k' = k") (simp_all add: committed_of_def cong: option.case_cong)
  qed
  have data: "so_data x1 = so_data x" "so_suicided x1 = so_suicided x" "so_deleted x1 = so_deleted x" using x1(4) by (simp_all add: same_object_def)
  have xf: "so_data x' = so_data x" "so_suicided x' = so_suicided x" "so_dirtyStorage x' = so_dirtyStorage x"
    "so_deleted x' = so_deleted x" "so_address x' = so_address x" "so_code x' = so_code x" "so_addrHash x' = so_addrHash x"
    using yf data x1 assms by (simp_all add: x'_def object_ok_def)
  have "code_of env x' = code_of env x" using xf by (simp add: code_of_def)
  then have "object_view env x' = object_view env x" using com xf by (intro object_view_cong) simp_all
  moreover have "object_ok env tok a x'" using yf(10) by (simp add: object_ok_def x'_def)
  ultimately show ?thesis using e c xf by (simp add: same_object_def)
qed

lemma so_GetState_ok:
  assumes "object_ok env tok a x"
  shows "\<exists>x'. so_GetState env k x = (v_storage (object_view env x) k, x') \<and> same_object env x x' \<and> object_ok env tok a x'
    \<and> so_address x' = so_address x"
  using so_GetCommittedState_ok [OF assms, of k] assms
  by (cases "gm_get (so_dirtyStorage x) k") (simp_all add: so_GetState_def object_view_def)

lemma so_Code_ok:
  assumes "object_ok env tok a x"
  shows "\<exists>x'. so_Code env x = (code_of env x, x') \<and> same_object env x x' \<and> object_ok env tok a x' \<and> so_address x' = so_address x"
proof (cases "so_code x \<noteq> None \<or> a_CodeHash (so_data x) = emptyCodeHash env")
  case True
  then show ?thesis using assms by (auto simp: so_Code_def code_of_def)
next
  case False
  obtain c err where ce: "ContractCode env (so_addrHash x) (BytesToHash (a_CodeHash (so_data x))) = (c, err)" by fastforce
  define y where "y = (if err \<noteq> None then so_setError (Some CodeError) x else x)"
  have yf: "so_data y = so_data x" "so_suicided y = so_suicided x" "so_trie y = so_trie x" "so_originStorage y = so_originStorage x"
    "so_dirtyStorage y = so_dirtyStorage x" "so_addrHash y = so_addrHash x"
    "so_deleted y = so_deleted x" "so_address y = so_address x" "object_ok env tok a y"
    using assms by (auto simp: y_def)
  have e: "so_Code env x = (c, y\<lparr>so_code := c\<rparr>)" using False ce by (auto simp: so_Code_def y_def)
  have c: "code_of env x = c" using False ce by (simp add: code_of_def)
  have "code_of env (y\<lparr>so_code := c\<rparr>) = c" using False ce yf by (simp add: code_of_def)
  moreover have "committed_of env (y\<lparr>so_code := c\<rparr>) = committed_of env x"
  proof -
    have "storage_of env (y\<lparr>so_code := c\<rparr>) = storage_of env x" using yf by (simp add: storage_of_def cong: option.case_cong)
    then show ?thesis using yf by (simp add: committed_of_def fun_eq_iff cong: option.case_cong)
  qed
  ultimately have "object_view env (y\<lparr>so_code := c\<rparr>) = object_view env x" using yf c by (intro object_view_cong) simp_all
  moreover have "object_ok env tok a (y\<lparr>so_code := c\<rparr>)" using yf(9) by (simp add: object_ok_def)
  ultimately show ?thesis using e c yf by (simp add: same_object_def)
qed

end

end
