(* ===== verification/State_Revert.thy ===== *)
theory State_Revert
  imports State_View
begin

text \<open>
  Snapshots and reverting (\<open>core/state/statedb.go\<close>, \<open>core/state/journal.go\<close>): undoing the journal refines undoing
  on views, every operation journals enough to be undone, and therefore \<open>RevertToSnapshot\<close> restores the view of
  the moment of the snapshot.
\<close>

section \<open>Undoing on views\<close>

definition on_account :: "address \<Rightarrow> (account_view \<Rightarrow> account_view) \<Rightarrow> state_view \<Rightarrow> state_view option" where
  "on_account a g v =
     (case v_accounts v a of None \<Rightarrow> None | Some x \<Rightarrow> Some (v\<lparr>v_accounts := (v_accounts v)(a \<mapsto> g x)\<rparr>))"

definition undo_code :: "'t senv \<Rightarrow> address \<Rightarrow> bytes option \<Rightarrow> bytes \<Rightarrow> account_view \<Rightarrow> account_view" where
  "undo_code env a c h x =
     x\<lparr>v_codehash := hash_bytes (BytesToHash h),
       v_code := if c \<noteq> None then c else if hash_bytes (BytesToHash h) = emptyCodeHash env then None
                 else fst (ContractCode env (keccak env (address_bytes a)) (BytesToHash h))\<rparr>"

fun view_entry :: "'t senv \<Rightarrow> 't journalEntry \<Rightarrow> state_view \<Rightarrow> state_view option" where
  "view_entry env (createObjectChange a) v =
     Some (v\<lparr>v_accounts := (v_accounts v)(a := map_option (object_view env) (load_object env (v_trie v) a))\<rparr>)"
| "view_entry env (resetObjectChange prev) v =
     Some (v\<lparr>v_accounts := (v_accounts v)(so_address prev \<mapsto> object_view env prev)\<rparr>)"
| "view_entry env (suicideChange a p b) v =
     (case v_accounts v a of
        None \<Rightarrow> Some v
      | Some x \<Rightarrow> Some (v\<lparr>v_accounts := (v_accounts v)(a \<mapsto> x\<lparr>v_suicided := p, v_balance := b\<rparr>)\<rparr>))"
| "view_entry env (balanceChange a p) v = on_account a (\<lambda>x. x\<lparr>v_balance := p\<rparr>) v"
| "view_entry env (nonceChange a p) v = on_account a (\<lambda>x. x\<lparr>v_nonce := p\<rparr>) v"
| "view_entry env (storageChange a k p) v = on_account a (\<lambda>x. x\<lparr>v_storage := (v_storage x)(k := p)\<rparr>) v"
| "view_entry env (codeChange a c h) v = on_account a (undo_code env a c h) v"
| "view_entry env (refundChange p) v = Some (v\<lparr>v_refund := p\<rparr>)"
| "view_entry env (addLogChange h) v =
     (if v_logs v h = [] then None
      else Some (v\<lparr>v_logs := (v_logs v)(h := butlast (v_logs v h)), v_logSize := v_logSize v - 1\<rparr>))"
| "view_entry env (addPreimageChange h) v = Some (v\<lparr>v_preimages := (v_preimages v)(h := None)\<rparr>)"
| "view_entry env (touchChange a) v = Some v"

fun view_undo :: "'t senv \<Rightarrow> 't journalEntry list \<Rightarrow> state_view \<Rightarrow> state_view option" where
  "view_undo env [] v = Some v"
| "view_undo env (e # es) v = (case view_entry env e v of None \<Rightarrow> None | Some v' \<Rightarrow> view_undo env es v')"

lemma view_undo_append:
  "view_undo env (es @ fs) v = (case view_undo env es v of None \<Rightarrow> None | Some v' \<Rightarrow> view_undo env fs v')"
  by (induction es arbitrary: v) (auto split: option.splits)

lemma v_accounts_view [simp]: "v_accounts (view env s) a = map_option (object_view env) (lookup_object env s a)"
  by (simp add: view_def)

text \<open>\<open>r\<close> is the outcome on states, \<open>v\<close> the one on views.\<close>

definition refines :: "'t senv \<Rightarrow> ('t \<Rightarrow> bool) \<Rightarrow> 't stateDB \<Rightarrow> 't stateDB option \<Rightarrow> state_view option \<Rightarrow> bool" where
  "refines env tok s r v \<longleftrightarrow>
     (case r of None \<Rightarrow> v = None | Some s' \<Rightarrow> v = Some (view env s') \<and> state_ok env tok s' \<and> frame s s')"

lemma state_ok_other [simp]:
  "state_ok env tok (s\<lparr>sdb_refund := r\<rparr>) = state_ok env tok s"
  "state_ok env tok (s\<lparr>sdb_logs := l, logSize := n\<rparr>) = state_ok env tok s"
  "state_ok env tok (s\<lparr>sdb_preimages := m\<rparr>) = state_ok env tok s"
  "state_ok env tok (s\<lparr>j_dirties := d\<rparr>) = state_ok env tok s"
  "state_ok env tok (s\<lparr>validRevisions := vr\<rparr>) = state_ok env tok s"
  "state_ok env tok (s\<lparr>nextRevisionId := i\<rparr>) = state_ok env tok s"
  "state_ok env tok (s\<lparr>validRevisions := vr, nextRevisionId := i\<rparr>) = state_ok env tok s"
  "state_ok env tok (s\<lparr>nextRevisionId := i, validRevisions := vr\<rparr>) = state_ok env tok s"
  by (simp_all add: state_ok_def)

context trie_laws
begin

lemma undo_on_refines:
  assumes ok: "state_ok env tok s"
    and f: "\<And>x. object_ok env tok a x \<Longrightarrow> \<not> so_deleted x \<Longrightarrow>
      object_ok env tok a (f x) \<and> \<not> so_deleted (f x) \<and> object_view env (f x) = g (object_view env x)"
  shows "refines env tok s (undo_on env a f s) (on_account a g (view env s))"
proof -
  obtain s' where s': "getStateObject env a s = (lookup_object env s a, s')" "state_ok env tok s'" "view env s' = view env s"
    "frame s s'" "\<forall>x. lookup_object env s a = Some x \<longrightarrow> object_ok env tok a x \<and> so_address x = a \<and> \<not> so_deleted x"
    using getStateObject_ok [OF ok] by blast
  show ?thesis
  proof (cases "lookup_object env s a")
    case None
    then show ?thesis using s'(1) by (simp add: refines_def undo_on_def on_account_def)
  next
    case (Some x)
    then have x: "object_ok env tok a (f x)" "\<not> so_deleted (f x)" "object_view env (f x) = g (object_view env x)"
      using f s'(5) by blast+
    then have a: "so_address (f x) = a" by (simp add: object_ok_def)
    have "state_ok env tok (setStateObject (f x) s')" using state_ok_put [OF s'(2)] x a by simp
    then show ?thesis using Some s' x a
      by (simp add: refines_def undo_on_def on_account_def view_put)
  qed
qed

lemma suicide_refines:
  assumes ok: "state_ok env tok s"
  shows "refines env tok s (entry_revert env (suicideChange a p b) s) (view_entry env (suicideChange a p b) (view env s))"
proof -
  obtain s' where s': "getStateObject env a s = (lookup_object env s a, s')" "state_ok env tok s'" "view env s' = view env s"
    "frame s s'" "\<forall>x. lookup_object env s a = Some x \<longrightarrow> object_ok env tok a x \<and> so_address x = a \<and> \<not> so_deleted x"
    using getStateObject_ok [OF ok] by blast
  show ?thesis
  proof (cases "lookup_object env s a")
    case None
    then show ?thesis using s' by (simp add: refines_def)
  next
    case (Some x)
    let ?y = "so_setBalance b (x\<lparr>so_suicided := p\<rparr>)"
    have y: "object_ok env tok a ?y" "\<not> so_deleted ?y" "so_address ?y = a" using s'(5) Some by simp_all
    have "state_ok env tok (setStateObject ?y s')" using state_ok_put [OF s'(2)] y by simp
    then show ?thesis using Some s' y by (simp add: refines_def view_put)
  qed
qed

lemma view_del:
  assumes "state_ok env tok s"
  shows "refines env tok s (entry_revert env (createObjectChange a) s) (view_entry env (createObjectChange a) (view env s))"
proof -
  let ?s = "s\<lparr>stateObjects := gm_del (stateObjects s) a, stateObjectsDirty := gm_del (stateObjectsDirty s) a\<rparr>"
  have g: "gm_get (stateObjects ?s) = (gm_get (stateObjects s))(a := None)" by (simp add: gm_get_del fun_eq_iff)
  have "lookup_object env ?s = (lookup_object env s)(a := load_object env (stored env (sdb_trie s)) a)"
    unfolding lookup_object_def g by (auto simp: fun_eq_iff cong: option.case_cong)
  then have "view env ?s = (view env s)\<lparr>v_accounts := (v_accounts (view env s))(a :=
      map_option (object_view env) (load_object env (stored env (sdb_trie s)) a))\<rparr>"
    by (auto simp: view_def GetLogs_def fun_eq_iff)
  moreover have "state_ok env tok ?s" using assms g unfolding state_ok_def by simp
  ultimately show ?thesis by (simp add: refines_def frame_def view_def)
qed

lemma entry_revert_refines:
  assumes ok: "state_ok env tok s" and e: "entry_ok env tok e"
  shows "refines env tok s (entry_revert env e s) (view_entry env e (view env s))"
proof (cases e)
  case (createObjectChange a)
  then show ?thesis using view_del [OF ok] by simp
next
  case (resetObjectChange prev)
  then have "object_ok env tok (so_address prev) prev" "\<not> so_deleted prev" using e by simp_all
  then show ?thesis using resetObjectChange state_ok_put [OF ok] by (simp add: refines_def view_put)
next
  case (suicideChange a p b)
  then show ?thesis using suicide_refines [OF ok] by simp
next
  case (balanceChange a p)
  then show ?thesis using undo_on_refines [OF ok, of a "so_setBalance p" "\<lambda>x. x\<lparr>v_balance := p\<rparr>"] by simp
next
  case (nonceChange a p)
  then show ?thesis using undo_on_refines [OF ok, of a "so_setNonce p" "\<lambda>x. x\<lparr>v_nonce := p\<rparr>"] by simp
next
  case (storageChange a k p)
  then show ?thesis using undo_on_refines [OF ok, of a "so_setState k p" "\<lambda>x. x\<lparr>v_storage := (v_storage x)(k := p)\<rparr>"] by simp
next
  case (codeChange a c h)
  then have "length h = 32" using e by simp
  then have "object_ok env tok a (so_setCode (BytesToHash h) c x) \<and> \<not> so_deleted (so_setCode (BytesToHash h) c x)
      \<and> object_view env (so_setCode (BytesToHash h) c x) = undo_code env a c h (object_view env x)"
    if "object_ok env tok a x" "\<not> so_deleted x" for x
    using that object_view_setCode [of h env c x] object_ok_setCode [OF that(1)] by (simp add: undo_code_def object_ok_def)
  then show ?thesis using undo_on_refines [OF ok] codeChange by simp
next
  case (addLogChange h)
  have nil: "GetLogs h' (s\<lparr>sdb_logs := gm_del (sdb_logs s) h, logSize := n\<rparr>) = (if h' = h then [] else GetLogs h' s)" for h' n
    by (simp add: GetLogs_def gm_get_del)
  have put: "GetLogs h' (s\<lparr>sdb_logs := gm_put (sdb_logs s) h l, logSize := n\<rparr>) = (if h' = h then l else GetLogs h' s)" for h' l n
    by (simp add: GetLogs_def gm_get_put)
  have v: "lookup_object env (s\<lparr>sdb_logs := l, logSize := n\<rparr>) = lookup_object env s" for l n
    by (simp add: lookup_object_def fun_eq_iff cong: option.case_cong)
  have l1: "butlast l = []" if "length l = 1" for l :: "log list" using that by (cases l) auto
  show ?thesis
    using addLogChange ok l1 [of "GetLogs h s"]
    by (auto simp: refines_def view_def nil put v frame_def fun_eq_iff split: if_splits)
qed (use ok in \<open>auto simp: refines_def view_def frame_def lookup_object_def GetLogs_def fun_eq_iff gm_get_del cong: option.case_cong\<close>)

lemma view_undirty [simp]: "view env (undirty e s) = view env s"
  by (simp add: undirty_def view_def lookup_object_def GetLogs_def split: option.split cong: option.case_cong)

lemma undirty_other [simp]: "state_ok env tok (undirty e s) = state_ok env tok s" "frame s (undirty e s') = frame s s'"
  "frame (undirty e s) s' = frame s s'"
  by (simp_all add: undirty_def frame_def split: option.split)

lemma revert_entries_refines:
  "state_ok env tok s \<Longrightarrow> \<forall>e \<in> set es. entry_ok env tok e \<Longrightarrow>
     refines env tok s (revert_entries env es s) (view_undo env es (view env s))"
proof (induction es arbitrary: s)
  case (Cons e es)
  have r: "refines env tok s (entry_revert env e s) (view_entry env e (view env s))"
    using entry_revert_refines Cons.prems by simp
  show ?case
  proof (cases "entry_revert env e s")
    case None
    then show ?thesis using r by (simp add: refines_def)
  next
    case (Some s1)
    then have s1: "view_entry env e (view env s) = Some (view env s1)" "state_ok env tok s1" "frame s s1"
      using r by (simp_all add: refines_def)
    have "refines env tok (undirty e s1) (revert_entries env es (undirty e s1)) (view_undo env es (view env s1))"
      using Cons.IH [of "undirty e s1"] s1 Cons.prems by simp
    then show ?thesis using Some s1 frame_trans [OF s1(3)] by (auto simp: refines_def split: option.splits)
  qed
qed (simp add: refines_def)

end

section \<open>Every operation can be undone\<close>

text \<open>A step appends entries that undo it.\<close>

definition good_step :: "'t senv \<Rightarrow> ('t \<Rightarrow> bool) \<Rightarrow> 't stateDB \<Rightarrow> 't stateDB \<Rightarrow> bool" where
  "good_step env tok s s' \<longleftrightarrow> state_ok env tok s' \<and> validRevisions s' = validRevisions s \<and> nextRevisionId s' = nextRevisionId s
     \<and> (\<exists>es. j_entries s' = j_entries s @ es \<and> view_undo env (rev es) (view env s') = Some (view env s))"

lemma good_same: "state_ok env tok s' \<Longrightarrow> view env s' = view env s \<Longrightarrow> frame s s' \<Longrightarrow> good_step env tok s s'"
  unfolding good_step_def frame_def by (intro conjI exI [of _ "[]"]) simp_all

lemma good_trans: "good_step env tok s s' \<Longrightarrow> good_step env tok s' s'' \<Longrightarrow> good_step env tok s s''"
  unfolding good_step_def
proof (elim conjE exE)
  fix es fs
  assume "j_entries s' = j_entries s @ es" "view_undo env (rev es) (view env s') = Some (view env s)"
    "j_entries s'' = j_entries s' @ fs" "view_undo env (rev fs) (view env s'') = Some (view env s')"
    "state_ok env tok s''" "validRevisions s'' = validRevisions s'" "nextRevisionId s'' = nextRevisionId s'"
    "validRevisions s' = validRevisions s" "nextRevisionId s' = nextRevisionId s"
  then show "state_ok env tok s'' \<and> validRevisions s'' = validRevisions s \<and> nextRevisionId s'' = nextRevisionId s
     \<and> (\<exists>gs. j_entries s'' = j_entries s @ gs \<and> view_undo env (rev gs) (view env s'') = Some (view env s))"
    by (intro conjI exI [of _ "es @ fs"]) (simp_all add: view_undo_append)
qed

lemma journal_append_fields [simp]:
  "j_entries (journal_append e s) = j_entries s @ [e]" "validRevisions (journal_append e s) = validRevisions s"
  "nextRevisionId (journal_append e s) = nextRevisionId s" "stateObjects (journal_append e s) = stateObjects s"
  "sdb_trie (journal_append e s) = sdb_trie s" "sdb_refund (journal_append e s) = sdb_refund s"
  "sdb_logs (journal_append e s) = sdb_logs s" "logSize (journal_append e s) = logSize s"
  "sdb_preimages (journal_append e s) = sdb_preimages s" "thash (journal_append e s) = thash s"
  by (simp_all add: journal_append_def journal_dirty_def split: option.split)

lemma view_append [simp]: "view env (journal_append e s) = view env s"
  by (simp add: view_def lookup_object_def GetLogs_def cong: option.case_cong)

lemma lookup_append [simp]: "lookup_object env (journal_append e s) = lookup_object env s"
  by (simp add: lookup_object_def fun_eq_iff cong: option.case_cong)

lemma state_ok_append [simp]: "state_ok env tok (journal_append e s) \<longleftrightarrow> state_ok env tok s \<and> entry_ok env tok e"
  by (auto simp: state_ok_def)

lemma put_fields [simp]:
  "j_entries (setStateObject x s) = j_entries s" "validRevisions (setStateObject x s) = validRevisions s"
  "nextRevisionId (setStateObject x s) = nextRevisionId s" "sdb_refund (setStateObject x s) = sdb_refund s"
  by (simp_all add: setStateObject_def)

text \<open>A setter: one entry, one object.\<close>

lemma good_setter:
  assumes ok: "state_ok env tok s" and e: "entry_ok env tok e" and y: "object_ok env tok a y" "\<not> so_deleted y"
    and u: "view_entry env e ((view env s)\<lparr>v_accounts := (v_accounts (view env s))(a \<mapsto> object_view env y)\<rparr>) = Some (view env s)"
  shows "good_step env tok s (setStateObject y (journal_append e s))"
proof -
  have a: "so_address y = a" using y(1) by (simp add: object_ok_def)
  have "state_ok env tok (setStateObject y (journal_append e s))" 
    by (rule state_ok_put) (use ok e y a in simp_all)
  then show ?thesis unfolding good_step_def
    using u y(2) a by (intro conjI exI [of _ "[e]"]) (simp_all add: view_put)
qed

lemma account_back:
  assumes "v_accounts v a = Some x" "h y = x"
  shows "on_account a h (v\<lparr>v_accounts := (v_accounts v)(a \<mapsto> y)\<rparr>) = Some v"
proof -
  have "(v_accounts v)(a \<mapsto> x) = v_accounts v" using assms(1) by (auto simp: fun_eq_iff)
  then show ?thesis using assms(2) by (simp add: on_account_def)
qed

context trie_laws
begin

lemma createObject_good:
  assumes ok: "state_ok env tok s"
  shows "\<exists>s'. createObject env a s = ((so_setNonce 0 (newObject env a (zero_account env)), lookup_object env s a), s')
    \<and> good_step env tok s s' \<and> lookup_object env s' a = Some (so_setNonce 0 (newObject env a (zero_account env)))
    \<and> object_ok env tok a (so_setNonce 0 (newObject env a (zero_account env)))"
proof -
  let ?n = "so_setNonce 0 (newObject env a (zero_account env))"
  obtain s1 where s1: "getStateObject env a s = (lookup_object env s a, s1)" "state_ok env tok s1" "view env s1 = view env s"
    "frame s s1" "lookup_object env s1 = lookup_object env s"
    "\<forall>x. lookup_object env s a = Some x \<longrightarrow> object_ok env tok a x \<and> so_address x = a \<and> \<not> so_deleted x"
    using getStateObject_ok [OF ok] by blast
  have n: "object_ok env tok a ?n" by (simp add: object_ok_new zero_account_def emptyCodeHash_def)
  let ?e = "case lookup_object env s a of None \<Rightarrow> createObjectChange a | Some p \<Rightarrow> resetObjectChange p"
  have eok: "entry_ok env tok ?e" using s1(6) by (auto split: option.splits)
  have "view_entry env ?e ((view env s1)\<lparr>v_accounts := (v_accounts (view env s1))(a \<mapsto> object_view env ?n)\<rparr>) = Some (view env s1)"
  proof (cases "lookup_object env s a")
    case None
    have "load_object env (stored env (sdb_trie s1)) a = None"
      using None s1(2) unfolding s1(5) [symmetric]
      by (auto simp: lookup_object_def state_ok_def split: option.splits if_splits)
    moreover have "v_trie (view env s1) = stored env (sdb_trie s1)" by (simp add: view_def)
    moreover have "(v_accounts (view env s1))(a := None) = v_accounts (view env s1)"
      using None s1(5) by (auto simp: fun_eq_iff)
    ultimately show ?thesis using None by simp
  next
    case (Some p)
    have "(v_accounts (view env s1))(a \<mapsto> object_view env p) = v_accounts (view env s1)"
      using Some s1(5) by (auto simp: fun_eq_iff)
    then show ?thesis using Some s1(6) by simp
  qed
  then have "good_step env tok s1 (setStateObject ?n (journal_append ?e s1))"
    by (intro good_setter [OF s1(2) eok n]) simp_all
  then have "good_step env tok s (setStateObject ?n (journal_append ?e s1))"
    using good_trans good_same [OF s1(2-4)] by blast
  moreover have "createObject env a s = ((?n, lookup_object env s a), setStateObject ?n (journal_append ?e s1))"
    by (simp add: createObject_def s1(1))
  ultimately show ?thesis using n by simp
qed

lemma GetOrNew_good:
  assumes ok: "state_ok env tok s"
  shows "\<exists>x s'. GetOrNewStateObject env a s = (x, s') \<and> good_step env tok s s' \<and> lookup_object env s' a = Some x
    \<and> object_ok env tok a x \<and> \<not> so_deleted x"
proof -
  obtain s1 where s1: "getStateObject env a s = (lookup_object env s a, s1)" "state_ok env tok s1" "view env s1 = view env s"
    "frame s s1" "lookup_object env s1 = lookup_object env s"
    "\<forall>x. lookup_object env s a = Some x \<longrightarrow> object_ok env tok a x \<and> so_address x = a \<and> \<not> so_deleted x"
    using getStateObject_ok [OF ok] by blast
  have g1: "good_step env tok s s1" by (rule good_same [OF s1(2-4)])
  show ?thesis
  proof (cases "lookup_object env s a")
    case None
    then show ?thesis using createObject_good [OF s1(2), of a] good_trans [OF g1] s1(1)
      by (auto simp: GetOrNewStateObject_def)
  next
    case (Some x)
    then show ?thesis using s1 g1 by (auto simp: GetOrNewStateObject_def)
  qed
qed

end

end
