(* ===== verification/State_Snapshots.thy ===== *)
theory State_Snapshots
  imports State_Revert
begin

text \<open>
  Sequences of operations on the state database, with nested snapshots, and what \<open>RevertToSnapshot\<close> restores.
\<close>

section \<open>Setters\<close>

lemma account_view_back [simp]:
  "v_balance (object_view env x) = a_Balance (so_data x)" "v_nonce (object_view env x) = a_Nonce (so_data x)"
  "v_codehash (object_view env x) = a_CodeHash (so_data x)" "v_code (object_view env x) = code_of env x"
  "v_suicided (object_view env x) = so_suicided x"
  by (simp_all add: object_view_def)

lemma view_update_same [simp]:
  "v\<lparr>v_balance := v_balance v\<rparr> = v" "v\<lparr>v_nonce := v_nonce v\<rparr> = v" "v\<lparr>v_storage := v_storage v\<rparr> = v"
  "v\<lparr>v_codehash := v_codehash v, v_code := v_code v\<rparr> = v" "v\<lparr>v_suicided := v_suicided v, v_balance := v_balance v\<rparr> = v"
  for v :: account_view by simp_all

lemma accounts_back:
  assumes "v_accounts v a = Some x"
  shows "v\<lparr>v_accounts := (v_accounts v)(a \<mapsto> y, a \<mapsto> x)\<rparr> = v"
proof -
  have "(v_accounts v)(a \<mapsto> y, a \<mapsto> x) = v_accounts v" using assms by (auto simp: fun_eq_iff)
  then show ?thesis by (simp only:) simp
qed

lemma suicide_back:
  "(object_view env x)\<lparr>v_suicided := so_suicided x, v_balance := a_Balance (so_data x)\<rparr> = object_view env x"
  unfolding account_view_back(1,5) [where env = env and x = x, symmetric] by (simp del: account_view_back)

lemma ripemd_dirty [simp]:
  "view env (journal_dirty a s) = view env s" "state_ok env tok (journal_dirty a s) = state_ok env tok s"
  "j_entries (journal_dirty a s) = j_entries s" "validRevisions (journal_dirty a s) = validRevisions s"
  "nextRevisionId (journal_dirty a s) = nextRevisionId s"
  by (simp_all add: journal_dirty_def view_def lookup_object_def GetLogs_def state_ok_def cong: option.case_cong)

context trie_laws
begin

lemma so_SetBalance_good:
  assumes "state_ok env tok s" "lookup_object env s a = Some x" "object_ok env tok a x" "\<not> so_deleted x"
  shows "good_step env tok s (so_SetBalance b x s)"
proof -
  have a: "so_address x = a" using assms(3) by (simp add: object_ok_def)
  have eq: "(object_view env x)\<lparr>v_balance := a_Balance (so_data x)\<rparr> = object_view env x"
    using view_update_same(1) [of "object_view env x"] by simp
  have "view_entry env (balanceChange a (a_Balance (so_data x)))
      ((view env s)\<lparr>v_accounts := (v_accounts (view env s))(a \<mapsto> object_view env (so_setBalance b x))\<rparr>) = Some (view env s)"
    unfolding view_entry.simps by (rule account_back [where x = "object_view env x"]) (use assms(2) eq in simp_all)
  then show ?thesis unfolding so_SetBalance_def a using assms by (intro good_setter) simp_all
qed

lemma so_AddBalance_good:
  assumes "state_ok env tok s" "lookup_object env s a = Some x" "object_ok env tok a x" "\<not> so_deleted x"
  shows "good_step env tok s (so_AddBalance env b x s)"
proof -
  have "good_step env tok s (so_touch x s)" unfolding good_step_def
    by (intro conjI exI [of _ "[touchChange (so_address x)]"]) (use assms(1) in \<open>simp_all add: so_touch_def\<close>)
  moreover have "good_step env tok s s" by (rule good_same [OF assms(1)]) simp_all
  ultimately show ?thesis using so_SetBalance_good [OF assms] by (simp add: so_AddBalance_def)
qed

lemma so_SubBalance_good:
  assumes "state_ok env tok s" "lookup_object env s a = Some x" "object_ok env tok a x" "\<not> so_deleted x"
  shows "good_step env tok s (so_SubBalance b x s)"
  using so_SetBalance_good [OF assms] good_same [OF assms(1)] by (simp add: so_SubBalance_def)

lemma so_SetNonce_good:
  assumes "state_ok env tok s" "lookup_object env s a = Some x" "object_ok env tok a x" "\<not> so_deleted x"
  shows "good_step env tok s (so_SetNonce n x s)"
proof -
  have a: "so_address x = a" using assms(3) by (simp add: object_ok_def)
  have eq: "(object_view env x)\<lparr>v_nonce := a_Nonce (so_data x)\<rparr> = object_view env x"
    using view_update_same(2) [of "object_view env x"] by simp
  have "view_entry env (nonceChange a (a_Nonce (so_data x)))
      ((view env s)\<lparr>v_accounts := (v_accounts (view env s))(a \<mapsto> object_view env (so_setNonce n x))\<rparr>) = Some (view env s)"
    unfolding view_entry.simps by (rule account_back [where x = "object_view env x"]) (use assms(2) eq in simp_all)
  then show ?thesis unfolding so_SetNonce_def a using assms by (intro good_setter) simp_all
qed

lemma so_SetState_good:
  assumes "state_ok env tok s" "lookup_object env s a = Some x" "object_ok env tok a x" "\<not> so_deleted x"
  shows "good_step env tok s (so_SetState env k v x s)"
proof -
  obtain x1 where x1: "so_GetState env k x = (v_storage (object_view env x) k, x1)" "same_object env x x1"
    "object_ok env tok a x1" "so_address x1 = so_address x" using so_GetState_ok [OF assms(3)] by blast
  let ?p = "v_storage (object_view env x) k"
  have x1v: "object_view env x1 = object_view env x" "\<not> so_deleted x1" "so_address x1 = a"
    using x1 assms(3,4) by (simp_all add: same_object_def object_ok_def)
  have "good_step env tok s (setStateObject x1 s)"
  proof (rule good_same)
    show "state_ok env tok (setStateObject x1 s)" using state_ok_put [OF assms(1)] x1(3) x1v by simp
    show "view env (setStateObject x1 s) = view env s" using view_put_same [of env s x1 x] assms(2) x1v by simp
  qed simp
  moreover have "good_step env tok s (setStateObject (so_setState k v x1) (journal_append (storageChange a k ?p) s))"
  proof (rule good_setter [OF assms(1)])
    have "(object_view env x)\<lparr>v_storage := (v_storage (object_view env x))(k := v, k := ?p)\<rparr> = object_view env x" by simp
    then show "view_entry env (storageChange a k ?p)
        ((view env s)\<lparr>v_accounts := (v_accounts (view env s))(a \<mapsto> object_view env (so_setState k v x1))\<rparr>) = Some (view env s)"
      unfolding view_entry.simps
      by (intro account_back [where x = "object_view env x"]) (use assms(2) x1v(1) in simp_all)
  qed (use x1(3) x1v in simp_all)
  ultimately show ?thesis using x1 x1v by (simp add: so_SetState_def)
qed

lemma so_SetCode_good:
  assumes "state_ok env tok s" "lookup_object env s a = Some x" "object_ok env tok a x" "\<not> so_deleted x"
  shows "good_step env tok s (so_SetCode env h c x s)"
proof -
  obtain x1 where x1: "so_Code env x = (code_of env x, x1)" "same_object env x x1"
    "object_ok env tok a x1" "so_address x1 = so_address x" using so_Code_ok [OF assms(3)] by blast
  have x1v: "object_view env x1 = object_view env x" "\<not> so_deleted x1" "so_address x1 = a" "so_data x1 = so_data x"
    using x1 assms(3,4) by (simp_all add: same_object_def object_ok_def)
  let ?h = "a_CodeHash (so_data x)" and ?y = "so_setCode h c x1"
  have len: "length ?h = 32" and ah: "so_addrHash x = keccak env (address_bytes a)" using assms(3) by (simp_all add: object_ok_def)
  have yv: "object_view env ?y = (object_view env x1)\<lparr>v_codehash := hash_bytes h, v_code := code_of env ?y\<rparr>"
    by (simp add: object_view_def so_setCode_def committed_of_def storage_of_def fun_eq_iff cong: option.case_cong)
  have "undo_code env a (code_of env x) ?h (object_view env ?y) = object_view env x"
  proof -
    have "(if code_of env x \<noteq> None then code_of env x else if hash_bytes (BytesToHash ?h) = emptyCodeHash env then None
        else fst (ContractCode env (keccak env (address_bytes a)) (BytesToHash ?h))) = code_of env x"
      using ah hash_bytes_BytesToHash [OF len] by (simp add: code_of_def emptyCodeHash_def)
    then show ?thesis using hash_bytes_BytesToHash [OF len] view_update_same(4) [of "object_view env x"]
      by (simp add: undo_code_def yv x1v(1))
  qed
  then have "view_entry env (codeChange a (code_of env x) ?h)
      ((view env s)\<lparr>v_accounts := (v_accounts (view env s))(a \<mapsto> object_view env ?y)\<rparr>) = Some (view env s)"
    unfolding view_entry.simps by (intro account_back [where x = "object_view env x"]) (use assms(2) in simp_all)
  then have "good_step env tok s (setStateObject ?y (journal_append (codeChange a (code_of env x) ?h) s))"
    using len x1(3) x1v object_ok_setCode by (intro good_setter [OF assms(1)]) simp_all
  then show ?thesis using x1 x1v by (simp add: so_SetCode_def)
qed

end

section \<open>Sequences of operations\<close>

text \<open>The operations of a transaction: a client of the state database calls these.\<close>

datatype state_op =
    OpAddBalance address bigint | OpSubBalance address bigint | OpSetBalance address bigint | OpSetNonce address u64
  | OpSetCode address "bytes option" | OpSetState address hash hash | OpSuicide address | OpCreateAccount address
  | OpAddLog log | OpAddPreimage hash bytes | OpAddRefund u64 | OpSubRefund u64 | OpPrepare hash hash int
  | OpExist address | OpGetBalance address | OpGetNonce address | OpGetCode address | OpGetState address hash
  | OpGetCommittedState address hash | OpSnapshot | OpRevert int

fun exec_op :: "'t senv \<Rightarrow> state_op \<Rightarrow> 't stateDB \<Rightarrow> 't stateDB option" where
  "exec_op env (OpAddBalance a b) s = Some (AddBalance env a b s)"
| "exec_op env (OpSubBalance a b) s = Some (SubBalance env a b s)"
| "exec_op env (OpSetBalance a b) s = Some (SetBalance env a b s)"
| "exec_op env (OpSetNonce a n) s = Some (SetNonce env a n s)"
| "exec_op env (OpSetCode a c) s = Some (SetCode env a c s)"
| "exec_op env (OpSetState a k v) s = Some (SetState env a k v s)"
| "exec_op env (OpSuicide a) s = Some (snd (Suicide env a s))"
| "exec_op env (OpCreateAccount a) s = Some (CreateAccount env a s)"
| "exec_op env (OpAddLog l) s = Some (AddLog l s)"
| "exec_op env (OpAddPreimage h p) s = Some (AddPreimage h p s)"
| "exec_op env (OpAddRefund g) s = Some (AddRefund g s)"
| "exec_op env (OpSubRefund g) s = SubRefund g s"
| "exec_op env (OpPrepare th bh i) s = Some (state_Prepare th bh i s)"
| "exec_op env (OpExist a) s = Some (snd (Exist env a s))"
| "exec_op env (OpGetBalance a) s = Some (snd (GetBalance env a s))"
| "exec_op env (OpGetNonce a) s = Some (snd (GetNonce env a s))"
| "exec_op env (OpGetCode a) s = Some (snd (GetCode env a s))"
| "exec_op env (OpGetState a k) s = Some (snd (GetState env a k s))"
| "exec_op env (OpGetCommittedState a k) s = Some (snd (GetCommittedState env a k s))"
| "exec_op env OpSnapshot s = Some (snd (Snapshot s))"
| "exec_op env (OpRevert i) s = RevertToSnapshot env i s"

fun run_ops :: "'t senv \<Rightarrow> state_op list \<Rightarrow> 't stateDB \<Rightarrow> 't stateDB option" where
  "run_ops env [] s = Some s"
| "run_ops env (c # cs) s = (case exec_op env c s of None \<Rightarrow> None | Some s1 \<Rightarrow> run_ops env cs s1)"

text \<open>The steps that append to the journal.\<close>

definition plain :: "state_op \<Rightarrow> bool" where
  "plain c \<longleftrightarrow> c \<noteq> OpSnapshot \<and> (\<forall>i. c \<noteq> OpRevert i)"

lemma view_plain_fields [simp]:
  "view env (s\<lparr>sdb_refund := r\<rparr>) = (view env s)\<lparr>v_refund := r\<rparr>"
  "view env (s\<lparr>thash := th, bhash := bh, txIndex := i\<rparr>) = view env s"
  "view env (s\<lparr>validRevisions := vr, nextRevisionId := n\<rparr>) = view env s"
  "view env (s\<lparr>validRevisions := vr\<rparr>) = view env s"
  "view env (s\<lparr>nextRevisionId := n\<rparr>) = view env s"
  "view env (s\<lparr>j_entries := es\<rparr>) = view env s"
  by (simp_all add: view_def lookup_object_def GetLogs_def cong: option.case_cong)

lemma AddLog_good:
  assumes "state_ok env tok s"
  shows "good_step env tok s (AddLog l s)"
proof -
  let ?s = "AddLog l s"
  obtain l' where l': "sdb_logs ?s = gm_put (sdb_logs s) (thash s) (GetLogs (thash s) s @ [l'])" "logSize ?s = logSize s + 1"
    by (simp add: AddLog_def GetLogs_def)
  have f: "stateObjects ?s = stateObjects s" "sdb_trie ?s = sdb_trie s" "sdb_refund ?s = sdb_refund s"
    "sdb_preimages ?s = sdb_preimages s" "validRevisions ?s = validRevisions s" "nextRevisionId ?s = nextRevisionId s"
    "j_entries ?s = j_entries s @ [addLogChange (thash s)]" by (simp_all add: AddLog_def)
  have g: "GetLogs h ?s = (if h = thash s then GetLogs h s @ [l'] else GetLogs h s)" for h
    by (simp add: GetLogs_def l' gm_get_put)
  have lo: "lookup_object env ?s = lookup_object env s"
    using f by (simp add: lookup_object_def fun_eq_iff cong: option.case_cong)
  have "view_entry env (addLogChange (thash s)) (view env ?s) = Some (view env s)"
    using f g lo l'(2) by (auto simp: view_def fun_eq_iff)
  moreover have "state_ok env tok ?s" using assms f by (simp add: state_ok_def)
  ultimately show ?thesis unfolding good_step_def using f by (intro conjI exI [of _ "[addLogChange (thash s)]"]) simp_all
qed

lemma AddPreimage_good:
  assumes "state_ok env tok s"
  shows "good_step env tok s (AddPreimage h p s)"
proof (cases "gm_get (sdb_preimages s) h")
  case None
  let ?s = "AddPreimage h p s"
  have f: "stateObjects ?s = stateObjects s" "sdb_trie ?s = sdb_trie s" "sdb_refund ?s = sdb_refund s" "sdb_logs ?s = sdb_logs s"
    "logSize ?s = logSize s"
    "sdb_preimages ?s = gm_put (sdb_preimages s) h p" "validRevisions ?s = validRevisions s" "nextRevisionId ?s = nextRevisionId s"
    "j_entries ?s = j_entries s @ [addPreimageChange h]" using None by (simp_all add: AddPreimage_def)
  have lo: "lookup_object env ?s = lookup_object env s"
    using f by (simp add: lookup_object_def fun_eq_iff cong: option.case_cong)
  have "view_entry env (addPreimageChange h) (view env ?s) = Some (view env s)"
    using f lo None by (auto simp: view_def fun_eq_iff GetLogs_def gm_get_put)
  moreover have "state_ok env tok ?s" using assms f by (simp add: state_ok_def)
  ultimately show ?thesis unfolding good_step_def using f by (intro conjI exI [of _ "[addPreimageChange h]"]) simp_all
next
  case (Some v)
  then show ?thesis using good_same [OF assms] by (simp add: AddPreimage_def)
qed

lemma refund_good:
  assumes "state_ok env tok s"
  shows "good_step env tok s ((journal_append (refundChange (sdb_refund s)) s)\<lparr>sdb_refund := r\<rparr>)"
proof -
  have "(view env s)\<lparr>v_refund := sdb_refund s\<rparr> = view env s" by (simp add: view_def)
  then show ?thesis unfolding good_step_def
    by (intro conjI exI [of _ "[refundChange (sdb_refund s)]"]) (use assms in simp_all)
qed

context trie_laws
begin

lemma getStateObject_good:
  assumes "state_ok env tok s"
  shows "good_step env tok s (snd (getStateObject env a s))"
  using getStateObject_ok [OF assms, of a] good_same by fastforce

lemma Suicide_good:
  assumes ok: "state_ok env tok s"
  shows "good_step env tok s (snd (Suicide env a s))"
proof -
  obtain s1 where s1: "getStateObject env a s = (lookup_object env s a, s1)" "state_ok env tok s1" "view env s1 = view env s"
    "frame s s1" "lookup_object env s1 = lookup_object env s"
    "\<forall>x. lookup_object env s a = Some x \<longrightarrow> object_ok env tok a x \<and> so_address x = a \<and> \<not> so_deleted x"
    using getStateObject_ok [OF ok] by blast
  have g1: "good_step env tok s s1" by (rule good_same [OF s1(2-4)])
  show ?thesis
  proof (cases "lookup_object env s a")
    case None
    then show ?thesis using s1(1) g1 by (simp add: Suicide_def)
  next
    case (Some x)
    let ?y = "so_setBalance 0 (x\<lparr>so_suicided := True\<rparr>)" and ?e = "suicideChange a (so_suicided x) (a_Balance (so_data x))"
    have x: "object_ok env tok a ?y" "\<not> so_deleted ?y" using s1(6) Some by simp_all
    have "v_accounts (view env s1) a = Some (object_view env x)" using Some s1(5) by simp
    then have u: "view_entry env ?e ((view env s1)\<lparr>v_accounts := (v_accounts (view env s1))(a \<mapsto> object_view env ?y)\<rparr>)
        = Some (view env s1)"
      using accounts_back [of "view env s1" a "object_view env x" "object_view env ?y"] 
      by (simp only: view_entry.simps) (simp add: suicide_back)
    have "good_step env tok s1 (setStateObject ?y (journal_append ?e s1))"
      by (rule good_setter [OF s1(2) _ x u]) simp
    then show ?thesis using good_trans [OF g1] s1(1) Some by (simp add: Suicide_def)
  qed
qed

lemma CreateAccount_good:
  assumes ok: "state_ok env tok s"
  shows "good_step env tok s (CreateAccount env a s)"
proof -
  let ?n = "so_setNonce 0 (newObject env a (zero_account env))"
  obtain s1 where s1: "createObject env a s = ((?n, lookup_object env s a), s1)" "good_step env tok s s1"
    "lookup_object env s1 a = Some ?n" "object_ok env tok a ?n" using createObject_good [OF ok] by blast
  show ?thesis
  proof (cases "lookup_object env s a")
    case None
    then show ?thesis using s1 by (simp add: CreateAccount_def)
  next
    case (Some p)
    let ?y = "so_setBalance (a_Balance (so_data p)) ?n"
    obtain s0 where s0: "getStateObject env a s = (lookup_object env s a, s0)" "state_ok env tok s0" "view env s0 = view env s"
      "frame s s0" "lookup_object env s0 = lookup_object env s"
      "\<forall>x. lookup_object env s a = Some x \<longrightarrow> object_ok env tok a x \<and> so_address x = a \<and> \<not> so_deleted x"
      using getStateObject_ok [OF ok] by blast
    have pa: "so_address p = a" "entry_ok env tok (resetObjectChange p)" using s0(6) Some by simp_all
    have e: "CreateAccount env a s = setStateObject ?y (journal_append (resetObjectChange p) s0)"
      using Some s0(1) by (simp add: CreateAccount_def createObject_def setStateObject_def update_last)
    have "v_accounts (view env s0) a = Some (object_view env p)" using Some s0(5) by simp
    then have u: "view_entry env (resetObjectChange p) ((view env s0)\<lparr>v_accounts := (v_accounts (view env s0))(a \<mapsto> object_view env ?y)\<rparr>)
        = Some (view env s0)"
      using accounts_back [of "view env s0" a "object_view env p" "object_view env ?y"] pa(1) by (simp only: view_entry.simps) simp
    have "good_step env tok s0 (setStateObject ?y (journal_append (resetObjectChange p) s0))"
      by (rule good_setter [OF s0(2) pa(2) _ _ u]) (use s1(4) in simp_all)
    then show ?thesis using good_trans [OF good_same [OF s0(2-4)]] e by simp
  qed
qed

lemma GetOrNew_then:
  assumes ok: "state_ok env tok s"
    and f: "\<And>s' x. state_ok env tok s' \<Longrightarrow> lookup_object env s' a = Some x \<Longrightarrow> object_ok env tok a x \<Longrightarrow> \<not> so_deleted x \<Longrightarrow>
      good_step env tok s' (f x s')"
  shows "good_step env tok s (let (x, s') = GetOrNewStateObject env a s in f x s')"
proof -
  obtain x s' where "GetOrNewStateObject env a s = (x, s')" "good_step env tok s s'" "lookup_object env s' a = Some x"
    "object_ok env tok a x" "\<not> so_deleted x" using GetOrNew_good [OF ok] by blast
  moreover from this have "state_ok env tok s'" by (simp add: good_step_def)
  ultimately have "good_step env tok s (f x s')" using f good_trans by blast
  then show ?thesis using \<open>GetOrNewStateObject env a s = (x, s')\<close> by simp
qed

lemma cached_good:
  assumes ok: "state_ok env tok s"
    and f: "\<And>x. object_ok env tok a x \<Longrightarrow> \<exists>v x'. f x = (v, x') \<and> same_object env x x' \<and> object_ok env tok a x'"
  shows "good_step env tok s (snd (let (o', s1) = getStateObject env a s in
      case o' of None \<Rightarrow> (d, s1) | Some x \<Rightarrow> let (v, x') = f x in (v, setStateObject x' s1)))"
proof -
  obtain s1 where s1: "getStateObject env a s = (lookup_object env s a, s1)" "state_ok env tok s1" "view env s1 = view env s"
    "frame s s1" "lookup_object env s1 = lookup_object env s"
    "\<forall>x. lookup_object env s a = Some x \<longrightarrow> object_ok env tok a x \<and> so_address x = a \<and> \<not> so_deleted x"
    using getStateObject_ok [OF ok] by blast
  have g1: "good_step env tok s s1" by (rule good_same [OF s1(2-4)])
  show ?thesis
  proof (cases "lookup_object env s a")
    case None
    then show ?thesis using s1(1) g1 by simp
  next
    case (Some x)
    then obtain v x' where x': "f x = (v, x')" "same_object env x x'" "object_ok env tok a x'" using f s1(6) by blast
    have nd: "\<not> so_deleted x'" "so_address x' = a" using x' s1(6) Some by (simp_all add: same_object_def object_ok_def)
    have "good_step env tok s1 (setStateObject x' s1)"
    proof (rule good_same)
      show "state_ok env tok (setStateObject x' s1)" using state_ok_put [OF s1(2)] x'(3) nd by simp
      show "view env (setStateObject x' s1) = view env s1"
        using view_put_same [of env s1 x' x] Some s1(5) x'(2) nd by (simp add: same_object_def)
    qed simp
    then show ?thesis using Some s1(1) x'(1) good_trans [OF g1] by simp
  qed
qed

lemma plain_good:
  assumes ok: "state_ok env tok s" and p: "plain c" and e: "exec_op env c s = Some s'"
  shows "good_step env tok s s'"
proof (cases c)
  case (OpAddBalance a b)
  then show ?thesis using e GetOrNew_then [OF ok, of a "so_AddBalance env b"] so_AddBalance_good by (simp add: AddBalance_def)
next
  case (OpSubBalance a b)
  then show ?thesis using e GetOrNew_then [OF ok, of a "so_SubBalance b"] so_SubBalance_good by (simp add: SubBalance_def)
next
  case (OpSetBalance a b)
  then show ?thesis using e GetOrNew_then [OF ok, of a "so_SetBalance b"] so_SetBalance_good by (simp add: SetBalance_def)
next
  case (OpSetNonce a n)
  then show ?thesis using e GetOrNew_then [OF ok, of a "so_SetNonce n"] so_SetNonce_good by (simp add: SetNonce_def)
next
  case (OpSetCode a h)
  then show ?thesis using e GetOrNew_then [OF ok, of a "so_SetCode env _ h"] so_SetCode_good by (auto simp: SetCode_def)
next
  case (OpSetState a k v)
  then show ?thesis using e GetOrNew_then [OF ok, of a "so_SetState env k v"] so_SetState_good by (simp add: SetState_def)
next
  case (OpSuicide a)
  then show ?thesis using e Suicide_good [OF ok] by auto
next
  case (OpCreateAccount a)
  then show ?thesis using e CreateAccount_good [OF ok] by auto
next
  case (OpAddLog l)
  then show ?thesis using e AddLog_good [OF ok] by auto
next
  case (OpAddPreimage h b)
  then show ?thesis using e AddPreimage_good [OF ok] by auto
next
  case (OpAddRefund g)
  then show ?thesis using e refund_good [OF ok, of "sdb_refund s + g"] by (simp add: AddRefund_def)
next
  case (OpSubRefund g)
  then show ?thesis using e refund_good [OF ok, of "sdb_refund s - g"] by (simp add: SubRefund_def split: if_splits)
next
  case (OpPrepare th bh i)
  then have s': "s' = s\<lparr>thash := th, bhash := bh, txIndex := i\<rparr>" using e by (simp add: state_Prepare_def)
  have "state_ok env tok s'" using ok by (simp add: s' state_ok_def)
  then show ?thesis by (rule good_same) (simp_all add: s' frame_def)
next
  case (OpExist a)
  then show ?thesis using e getStateObject_good [OF ok, of a] by (auto simp: Exist_def split: prod.splits)
next
  case (OpGetBalance a)
  then show ?thesis using e getStateObject_good [OF ok, of a] by (auto simp: GetBalance_def split: prod.splits)
next
  case (OpGetNonce a)
  then show ?thesis using e getStateObject_good [OF ok, of a] by (auto simp: GetNonce_def split: prod.splits)
next
  case (OpGetCode a)
  then show ?thesis using e cached_good [OF ok, of a "so_Code env" None] so_Code_ok by (fastforce simp: GetCode_def)
next
  case (OpGetState a k)
  then show ?thesis using e cached_good [OF ok, of a "so_GetState env k" 0] so_GetState_ok by (fastforce simp: GetState_def)
next
  case (OpGetCommittedState a k)
  then show ?thesis using e cached_good [OF ok, of a "so_GetCommittedState env k" 0] so_GetCommittedState_ok
    by (fastforce simp: GetCommittedState_def)
qed (use p in \<open>simp_all add: plain_def\<close>)

end

end
