(* ===== verification/State_Histories.thy ===== *)
theory State_Histories
  imports State_Snapshots
begin

text \<open>
  \<open>Snapshot\<close> and \<open>RevertToSnapshot\<close> over arbitrary sequences of operations (\<open>core/state/statedb.go\<close>): as long as
  a revision is valid, reverting to it succeeds and gives back the view of the moment it was taken.
\<close>

section \<open>Finding the revision\<close>

lemma search_between_spec:
  "i \<le> j \<Longrightarrow> \<forall>k < i. \<not> f k \<Longrightarrow> \<forall>k. j \<le> k \<and> k < n \<longrightarrow> f k \<Longrightarrow> j \<le> n \<Longrightarrow> \<forall>k l. k \<le> l \<and> l < n \<and> f k \<longrightarrow> f l \<Longrightarrow>
     search_between f i j \<le> j \<and> (\<forall>k < search_between f i j. \<not> f k) \<and> (\<forall>k. search_between f i j \<le> k \<and> k < n \<longrightarrow> f k)"
proof (induction f i j rule: search_between.induct)
  case (1 f i j)
  show ?case
  proof (cases "i < j")
    case False
    then have e: "i = j" using 1(3) by simp
    have s: "search_between f j j = j" by (subst search_between.simps) simp
    show ?thesis unfolding e s using "1.prems"(2,3) unfolding e by blast
  next
    case True
    let ?h = "(i + j) div 2"
    have h: "i \<le> ?h" "?h < j" using True by simp_all
    show ?thesis
    proof (cases "f ?h")
      case fh: True
      have A: "\<forall>k. ?h \<le> k \<and> k < n \<longrightarrow> f k" using fh "1.prems"(5) by blast
      have "search_between f i ?h \<le> ?h \<and> (\<forall>k < search_between f i ?h. \<not> f k)
          \<and> (\<forall>k. search_between f i ?h \<le> k \<and> k < n \<longrightarrow> f k)"
        by (rule "1.IH"(2) [OF True refl _ h(1) "1.prems"(2) A _ "1.prems"(5)]) (use fh h "1.prems"(4) in simp_all)
      moreover have "search_between f i j = search_between f i ?h" using True fh by (subst search_between.simps) simp
      ultimately show ?thesis using h by simp
    next
      case fh: False
      have A: "\<forall>k < ?h + 1. \<not> f k"
      proof (intro allI impI notI)
        fix k assume "k < ?h + 1" "f k"
        then show False using fh "1.prems"(5) [rule_format, of k ?h] h "1.prems"(4) by simp
      qed
      have "search_between f (?h + 1) j \<le> j \<and> (\<forall>k < search_between f (?h + 1) j. \<not> f k)
          \<and> (\<forall>k. search_between f (?h + 1) j \<le> k \<and> k < n \<longrightarrow> f k)"
        by (rule "1.IH"(1) [OF True refl _ _ A "1.prems"(3-5)]) (use fh h in simp_all)
      moreover have "search_between f i j = search_between f (?h + 1) j" using True fh by (subst search_between.simps) simp
      ultimately show ?thesis by simp
    qed
  qed
qed

lemma sort_Search_spec:
  assumes "\<forall>k l. k \<le> l \<and> l < n \<and> f k \<longrightarrow> f l"
  shows "sort_Search n f \<le> n" "k < sort_Search n f \<Longrightarrow> \<not> f k" "sort_Search n f \<le> k \<Longrightarrow> k < n \<Longrightarrow> f k"
proof -
  have "search_between f 0 n \<le> n \<and> (\<forall>k < search_between f 0 n. \<not> f k) \<and> (\<forall>k. search_between f 0 n \<le> k \<and> k < n \<longrightarrow> f k)"
    by (rule search_between_spec [OF _ _ _ _ assms]) auto
  then show "sort_Search n f \<le> n" "k < sort_Search n f \<Longrightarrow> \<not> f k" "sort_Search n f \<le> k \<Longrightarrow> k < n \<Longrightarrow> f k"
    unfolding sort_Search_def by blast+
qed

text \<open>The revisions are numbered upwards and their positions in the journal do not decrease.\<close>

definition revs_ok :: "'t stateDB \<Rightarrow> bool" where
  "revs_ok s \<longleftrightarrow> sorted_wrt (<) (map fst (validRevisions s)) \<and> sorted (map snd (validRevisions s))
     \<and> (\<forall>(i, j) \<in> set (validRevisions s). i < nextRevisionId s \<and> j \<le> length (j_entries s))"

lemma revision_index:
  assumes "revs_ok s" "k < length (validRevisions s)" "validRevisions s ! k = (i, j)"
  shows "sort_Search (length (validRevisions s)) (\<lambda>m. fst (validRevisions s ! m) \<ge> i) = k"
proof -
  let ?n = "length (validRevisions s)" and ?f = "\<lambda>m. fst (validRevisions s ! m) \<ge> i"
  have lt: "fst (validRevisions s ! a) < fst (validRevisions s ! b)" if "a < b" "b < ?n" for a b
    using assms(1) that sorted_wrt_nth_less [of "(<)" "map fst (validRevisions s)" a b] by (simp add: revs_ok_def)
  have "\<forall>k l. k \<le> l \<and> l < ?n \<and> ?f k \<longrightarrow> ?f l"
  proof (intro allI impI)
    fix a b assume "a \<le> b \<and> b < ?n \<and> ?f a"
    then show "?f b" using lt [of a b] by (cases "a = b") auto
  qed
  note sp = sort_Search_spec [OF this]
  let ?r = "sort_Search ?n ?f"
  have "\<not> ?r < k" using sp(3) [of ?r] lt [of ?r k] assms by auto
  moreover have "\<not> k < ?r" using sp(2) [of k] assms(3) by auto
  ultimately show ?thesis by linarith
qed

lemma revision_absent:
  assumes "revs_ok s" "i \<notin> fst ` set (validRevisions s)"
  shows "RevertToSnapshot env i s = None"
proof -
  let ?n = "length (validRevisions s)" and ?f = "\<lambda>m. fst (validRevisions s ! m) \<ge> i"
  let ?r = "sort_Search ?n ?f"
  have "fst (validRevisions s ! ?r) \<noteq> i" if "?r < ?n" using assms(2) that by (metis image_eqI nth_mem)
  moreover have "\<forall>k l. k \<le> l \<and> l < ?n \<and> ?f k \<longrightarrow> ?f l"
  proof (intro allI impI)
    fix a b assume ab: "a \<le> b \<and> b < ?n \<and> ?f a"
    show "?f b"
    proof (cases "a = b")
      case False
      then have "fst (validRevisions s ! a) < fst (validRevisions s ! b)"
        using assms(1) ab sorted_wrt_nth_less [of "(<)" "map fst (validRevisions s)" a b] by (simp add: revs_ok_def)
      then show ?thesis using ab by simp
    qed (use ab in simp)
  qed
  then have "?r \<le> ?n" by (rule sort_Search_spec)
  ultimately show ?thesis by (cases "?r = ?n") (simp_all add: RevertToSnapshot_def)
qed

section \<open>The invariant of a history\<close>

text \<open>\<open>H\<close> records the view at each snapshot; undoing the journal down to its revision gives it.\<close>

definition history :: "'t senv \<Rightarrow> ('t \<Rightarrow> bool) \<Rightarrow> (int \<Rightarrow> state_view) \<Rightarrow> 't stateDB \<Rightarrow> bool" where
  "history env tok H s \<longleftrightarrow> state_ok env tok s \<and> revs_ok s
     \<and> (\<forall>(i, j) \<in> set (validRevisions s). view_undo env (rev (drop j (j_entries s))) (view env s) = Some (H i))"

lemma history_step:
  assumes "history env tok H s" "good_step env tok s s'"
  shows "history env tok H s'"
proof -
  obtain es where es: "j_entries s' = j_entries s @ es" "view_undo env (rev es) (view env s') = Some (view env s)"
    using assms(2) by (auto simp: good_step_def)
  have r: "validRevisions s' = validRevisions s" "nextRevisionId s' = nextRevisionId s" "state_ok env tok s'"
    using assms(2) by (simp_all add: good_step_def)
  have "view_undo env (rev (drop j (j_entries s'))) (view env s') = Some (H i)"
    if "(i, j) \<in> set (validRevisions s)" for i j
  proof -
    have "j \<le> length (j_entries s)" "view_undo env (rev (drop j (j_entries s))) (view env s) = Some (H i)"
      using assms(1) that by (auto simp: history_def revs_ok_def)
    then show ?thesis by (simp add: es view_undo_append)
  qed
  moreover have "revs_ok s'" using assms(1) es(1) unfolding history_def revs_ok_def r by fastforce
  ultimately show ?thesis using r by (auto simp: history_def)
qed

lemma history_snapshot:
  assumes "history env tok H s"
  shows "history env tok (H(nextRevisionId s := view env s)) (snd (Snapshot s))"
proof -
  let ?s = "snd (Snapshot s)"
  have s: "validRevisions ?s = validRevisions s @ [(nextRevisionId s, length (j_entries s))]" "nextRevisionId ?s = nextRevisionId s + 1"
    "j_entries ?s = j_entries s" "view env ?s = view env s" by (simp_all add: Snapshot_def)
  have h: "state_ok env tok s" "revs_ok s" using assms by (simp_all add: history_def)
  have "state_ok env tok ?s" using h(1) by (simp add: Snapshot_def)
  moreover have "revs_ok ?s" using h(2) unfolding revs_ok_def s
    by (fastforce simp: sorted_wrt_append sorted_append)
  moreover have "view_undo env (rev (drop j (j_entries s))) (view env s) = Some ((H(nextRevisionId s := view env s)) i)"
    if "(i, j) \<in> set (validRevisions ?s)" for i j
  proof (cases "(i, j) \<in> set (validRevisions s)")
    case True
    then have "i < nextRevisionId s" "view_undo env (rev (drop j (j_entries s))) (view env s) = Some (H i)"
      using assms by (auto simp: history_def revs_ok_def)
    then show ?thesis by simp
  next
    case False
    then show ?thesis using that s by simp
  qed
  ultimately show ?thesis unfolding history_def s by blast
qed

context trie_laws
begin

lemma history_revert:
  assumes h: "history env tok H s" and i: "i \<in> fst ` set (validRevisions s)"
  shows "\<exists>u. RevertToSnapshot env i s = Some u \<and> view env u = H i \<and> history env tok H u
    \<and> nextRevisionId u = nextRevisionId s \<and> set (validRevisions u) \<subseteq> set (validRevisions s)"
proof -
  obtain k j where k: "k < length (validRevisions s)" "validRevisions s ! k = (i, j)"
    using i by (metis imageE in_set_conv_nth prod.collapse)
  have ok: "state_ok env tok s" "revs_ok s" using h by (simp_all add: history_def)
  have mem: "(i, j) \<in> set (validRevisions s)" using k by (metis nth_mem)
  have j: "j \<le> length (j_entries s)" using ok(2) mem by (auto simp: revs_ok_def)
  have u: "view_undo env (rev (drop j (j_entries s))) (view env s) = Some (H i)"
    using h mem by (auto simp: history_def)
  have es: "\<forall>e \<in> set (rev (drop j (j_entries s))). entry_ok env tok e"
    using ok(1) in_set_dropD by (fastforce simp: state_ok_def)
  obtain s1 where s1: "revert_entries env (rev (drop j (j_entries s))) s = Some s1" "view env s1 = H i"
    "state_ok env tok s1" "frame s s1"
    using revert_entries_refines [OF ok(1) es] u by (auto simp: refines_def split: option.splits)
  define u' where "u' = s1\<lparr>j_entries := take j (j_entries s), validRevisions := take k (validRevisions s)\<rparr>"
  have f: "j_entries s1 = j_entries s" "validRevisions s1 = validRevisions s" "nextRevisionId s1 = nextRevisionId s"
    using s1(4) by (simp_all add: frame_def)
  have "RevertToSnapshot env i s = Some u'"
    using revision_index [OF ok(2) k] k s1(1) f
    by (simp add: RevertToSnapshot_def journal_revert_def u'_def)
  moreover have v: "view env u' = H i" by (simp add: u'_def s1(2) view_def [of env u'] view_def [of env s1] lookup_object_def
      GetLogs_def fun_eq_iff s1(2) [unfolded view_def [of env s1] lookup_object_def GetLogs_def] cong: option.case_cong)
  moreover have "history env tok H u'"
  proof -
    have "state_ok env tok u'" using s1(3) f in_set_takeD by (fastforce simp: u'_def state_ok_def)
    moreover have jl: "j' \<le> j" if "(i', j') \<in> set (take k (validRevisions s))" for i' j'
    proof -
      obtain m where "m < length (take k (validRevisions s))" "take k (validRevisions s) ! m = (i', j')"
        using \<open>(i', j') \<in> set (take k (validRevisions s))\<close> by (metis in_set_conv_nth)
      then have m: "m < k" "validRevisions s ! m = (i', j')" by simp_all
      then have "map snd (validRevisions s) ! m \<le> map snd (validRevisions s) ! k"
        using ok(2) k(1) sorted_nth_mono [of "map snd (validRevisions s)" m k] by (simp add: revs_ok_def)
      then show ?thesis using m k by simp
    qed
    moreover have "revs_ok u'"
    proof -
      have "sorted_wrt (<) (map fst (take k (validRevisions s)))" "sorted (map snd (take k (validRevisions s)))"
        using ok(2) sorted_wrt_take [of "(<)" "map fst (validRevisions s)" k] sorted_wrt_take [of "(\<le>)" "map snd (validRevisions s)" k]
        by (simp_all add: revs_ok_def take_map)
      moreover have "i' < nextRevisionId u' \<and> j' \<le> length (j_entries u')" if "(i', j') \<in> set (take k (validRevisions s))" for i' j'
        using jl [OF that] in_set_takeD [OF that] ok(2) j f by (auto simp: revs_ok_def u'_def)
      ultimately show ?thesis by (auto simp: revs_ok_def u'_def)
    qed
    moreover have "view_undo env (rev (drop j' (j_entries u'))) (view env u') = Some (H i')"
      if m: "(i', j') \<in> set (take k (validRevisions s))" for i' j'
    proof -
      have "drop j' (j_entries s) = drop j' (take j (j_entries s)) @ drop j (j_entries s)"
        using jl [OF m] j by (metis append_take_drop_id drop_append drop_take length_take min.absorb2 diff_is_0_eq drop_0)
      then have "view_undo env (rev (drop j (j_entries s)) @ rev (drop j' (take j (j_entries s)))) (view env s) = Some (H i')"
        using h in_set_takeD [OF m] by (auto simp: history_def)
      then show ?thesis using u v by (simp add: view_undo_append u'_def)
    qed
    ultimately show ?thesis by (auto simp: history_def u'_def)
  qed
  moreover have "nextRevisionId u' = nextRevisionId s" "set (validRevisions u') \<subseteq> set (validRevisions s)"
    using f set_take_subset by (simp_all add: u'_def)
  ultimately show ?thesis by blast
qed

lemma exec_history:
  assumes h: "history env tok H s" and e: "exec_op env c s = Some t"
  shows "\<exists>H'. history env tok H' t \<and> (\<forall>i < nextRevisionId s. H' i = H i) \<and> nextRevisionId s \<le> nextRevisionId t"
proof -
  have ok: "state_ok env tok s" "revs_ok s" using h by (simp_all add: history_def)
  consider "plain c" | "c = OpSnapshot" | i where "c = OpRevert i" by (auto simp: plain_def)
  then show ?thesis
  proof cases
    case 1
    then have g: "good_step env tok s t" using plain_good [OF ok(1) _ e] by simp
    then show ?thesis using history_step [OF h g] by (auto simp: good_step_def)
  next
    case 2
    then have t: "t = snd (Snapshot s)" using e by simp
    show ?thesis
      by (intro exI [of _ "H(nextRevisionId s := view env s)"])
        (use history_snapshot [OF h] in \<open>simp_all add: t\<close>, simp add: Snapshot_def)
  next
    case (3 i)
    then have r: "RevertToSnapshot env i s = Some t" using e by simp
    then have "i \<in> fst ` set (validRevisions s)" using revision_absent [OF ok(2), of i env] by fastforce
    then have "history env tok H t" "nextRevisionId t = nextRevisionId s" 
      using history_revert [OF h, of i] r by fastforce+
    then show ?thesis by (intro exI [of _ H]) simp
  qed
qed

lemma run_history:
  "history env tok H s \<Longrightarrow> run_ops env cs s = Some t \<Longrightarrow>
     \<exists>H'. history env tok H' t \<and> (\<forall>i < nextRevisionId s. H' i = H i) \<and> nextRevisionId s \<le> nextRevisionId t"
proof (induction cs arbitrary: s H)
  case (Cons c cs)
  then obtain s1 where s1: "exec_op env c s = Some s1" "run_ops env cs s1 = Some t" by (auto split: option.splits)
  obtain H1 where H1: "history env tok H1 s1" "\<forall>i < nextRevisionId s. H1 i = H i" "nextRevisionId s \<le> nextRevisionId s1"
    using exec_history [OF Cons.prems(1) s1(1)] by blast
  obtain H2 where H2: "history env tok H2 t" "\<forall>i < nextRevisionId s1. H2 i = H1 i" "nextRevisionId s1 \<le> nextRevisionId t"
    using Cons.IH [OF H1(1) s1(2)] by blast
  have "\<forall>i < nextRevisionId s. H2 i = H i" using H1(2,3) H2(2) by simp
  then show ?case using H1(3) H2 by (intro exI [of _ H2]) simp
qed auto

lemma plain_run:
  "state_ok env tok s \<Longrightarrow> \<forall>c \<in> set cs. plain c \<Longrightarrow> run_ops env cs s = Some t \<Longrightarrow> good_step env tok s t"
proof (induction cs arbitrary: s)
  case Nil
  then show ?case using good_same [of env tok s s] by simp
next
  case (Cons c cs)
  then obtain s1 where s1: "exec_op env c s = Some s1" "run_ops env cs s1 = Some t" by (auto split: option.splits)
  have g: "good_step env tok s s1" using plain_good [OF Cons.prems(1) _ s1(1)] Cons.prems(2) by simp
  moreover have "good_step env tok s1 t" using Cons.IH [OF _ _ s1(2)] Cons.prems(2) g by (simp add: good_step_def)
  ultimately show ?case by (rule good_trans)
qed

lemma revert_restores_view:
  assumes "state_ok env tok s0" "validRevisions s0 = []" "run_ops env before s0 = Some s" "Snapshot s = (i, s1)"
    "run_ops env after s1 = Some t" "i \<in> fst ` set (validRevisions t)"
  shows "\<exists>u. RevertToSnapshot env i t = Some u \<and> view env u = view env s \<and> state_ok env tok u"
proof -
  have "history env tok (\<lambda>_. view env s0) s0" using assms(1,2) by (simp add: history_def revs_ok_def)
  then obtain H where H: "history env tok H s" using run_history assms(3) by blast
  have s1: "s1 = snd (Snapshot s)" "i = nextRevisionId s" using assms(4) by (auto simp: Snapshot_def)
  then have "history env tok (H(i := view env s)) s1" using history_snapshot [OF H] by simp
  then obtain H' where H': "history env tok H' t" "\<forall>k < nextRevisionId s1. H' k = (H(i := view env s)) k"
    using run_history [OF _ assms(5)] by blast
  have "H' i = view env s" using H'(2) s1 by (simp add: Snapshot_def)
  moreover obtain u where "RevertToSnapshot env i t = Some u" "view env u = H' i" "history env tok H' u"
    using history_revert [OF H'(1) assms(6)] by blast
  ultimately show ?thesis by (auto simp: history_def)
qed

end

end
