(* ===== verification/Secure_Trie.thy ===== *)
theory Secure_Trie
  imports Trie_Refine
begin

text \<open>
  \<open>trie/secure_trie.go\<close>: a trie whose keys are hashed, with a cache of the keys behind the hashes. The cache belongs
  to one copy of the trie: \<open>secKeyCacheOwner\<close> points to the trie itself, or the cache is replaced on its next use;
  here \<open>cacheOwned\<close> tells which. \<open>kec\<close> is the Keccak hash.
\<close>

record secureTrie =
  sec_root :: node
  secKeyCache :: "(bytes, bytes) gomap"
  cacheOwned :: bool

definition hashKey :: "(bytes \<Rightarrow> hash) \<Rightarrow> bytes \<Rightarrow> bytes" where
  "hashKey kec key = hash_bytes (kec key)"

definition NewSecure :: "(bytes \<Rightarrow> node option) \<Rightarrow> hash \<Rightarrow> trie_error + secureTrie" where
  "NewSecure db root =
     (case trie_New db (hash_bytes root) of
        Inl e \<Rightarrow> Inl e
      | Inr n \<Rightarrow> Inr \<lparr>sec_root = n, secKeyCache = [], cacheOwned = False\<rparr>)"

definition getSecKeyCache :: "secureTrie \<Rightarrow> secureTrie" where
  "getSecKeyCache t = (if cacheOwned t then t else t\<lparr>secKeyCache := [], cacheOwned := True\<rparr>)"

definition sec_TryGet ::
  "(bytes \<Rightarrow> hash) \<Rightarrow> (bytes \<Rightarrow> node option) \<Rightarrow> secureTrie \<Rightarrow> bytes \<Rightarrow> (bytes \<times> secureTrie) trie_res" where
  "sec_TryGet kec db t key =
     map_option (map_sum id (\<lambda>(v, root'). (case v of None \<Rightarrow> [] | Some b \<Rightarrow> b, t\<lparr>sec_root := root'\<rparr>)))
       (TryGet db (sec_root t) (hashKey kec key))"

definition sec_TryUpdate ::
  "(bytes \<Rightarrow> hash) \<Rightarrow> (bytes \<Rightarrow> node option) \<Rightarrow> secureTrie \<Rightarrow> bytes \<Rightarrow> bytes \<Rightarrow> secureTrie trie_res" where
  "sec_TryUpdate kec db t key val =
     map_option (map_sum id (\<lambda>root'.
         let t1 = getSecKeyCache (t\<lparr>sec_root := root'\<rparr>) in
         t1\<lparr>secKeyCache := gm_put (secKeyCache t1) (hashKey kec key) key\<rparr>))
       (TryUpdate db (sec_root t) (hashKey kec key) val)"

text \<open>The deletion forgets the key even when the trie then fails.\<close>

definition sec_TryDelete ::
  "(bytes \<Rightarrow> hash) \<Rightarrow> (bytes \<Rightarrow> node option) \<Rightarrow> secureTrie \<Rightarrow> bytes \<Rightarrow> (trie_error option \<times> secureTrie) option" where
  "sec_TryDelete kec db t key =
     (let t0 = getSecKeyCache t; t1 = t0\<lparr>secKeyCache := gm_del (secKeyCache t0) (hashKey kec key)\<rparr> in
      map_option (\<lambda>r. case r of Inl e \<Rightarrow> (Some e, t1) | Inr root' \<Rightarrow> (None, t1\<lparr>sec_root := root'\<rparr>))
        (TryDelete db (sec_root t1) (hashKey kec key)))"

definition sec_GetKey :: "(bytes \<Rightarrow> bytes) \<Rightarrow> secureTrie \<Rightarrow> bytes \<Rightarrow> bytes \<times> secureTrie" where
  "sec_GetKey preimage t shaKey =
     (let t1 = getSecKeyCache t in
      (case gm_get (secKeyCache t1) shaKey of Some key \<Rightarrow> key | None \<Rightarrow> preimage shaKey, t1))"

definition sec_Copy :: "secureTrie \<Rightarrow> secureTrie" where
  "sec_Copy t = t\<lparr>cacheOwned := False\<rparr>"

section \<open>The contract\<close>

text \<open>The node database is complete: what it stores is a well-formed trie.\<close>

definition nodes_ok :: "(bytes \<Rightarrow> node option) \<Rightarrow> bool" where
  "nodes_ok db \<longleftrightarrow> (\<forall>h n. db h = Some n \<longrightarrow> (\<exists>b f. rep db n b f))"

lemma nodes_ok_empty [simp]: "nodes_ok (\<lambda>_. None)"
  by (simp add: nodes_ok_def)

definition sec_ok :: "(bytes \<Rightarrow> node option) \<Rightarrow> secureTrie \<Rightarrow> bool" where
  "sec_ok db t \<longleftrightarrow> (\<exists>f. trie_rep db (sec_root t) f)"

definition sec_value :: "(bytes \<Rightarrow> hash) \<Rightarrow> (bytes \<Rightarrow> bytes option) \<Rightarrow> bytes \<Rightarrow> bytes" where
  "sec_value kec f k = (case f (keybytesToHex (hashKey kec k)) of None \<Rightarrow> [] | Some b \<Rightarrow> b)"

lemma hashKey_inj: "keybytesToHex (hashKey kec k) = keybytesToHex (hashKey kec k') \<longleftrightarrow> kec k = kec k'"
proof
  assume "keybytesToHex (hashKey kec k) = keybytesToHex (hashKey kec k')"
  then have "hashKey kec k = hashKey kec k'" using injD [OF inj_keybytesToHex] by blast
  then have "BytesToHash (hashKey kec k) = BytesToHash (hashKey kec k')" by simp
  then show "kec k = kec k'" by (simp add: hashKey_def)
qed (simp add: hashKey_def)

lemma sec_get:
  assumes "trie_rep db (sec_root t) f"
  shows "\<exists>t'. sec_TryGet kec db t k = Some (Inr (sec_value kec f k, t')) \<and> trie_rep db (sec_root t') f"
proof -
  obtain root' where "TryGet db (sec_root t) (hashKey kec k) = Some (Inr (f (keybytesToHex (hashKey kec k)), root'))"
    "trie_rep db root' f" using get_trie_rep [OF assms] by blast
  then show ?thesis by (simp add: sec_TryGet_def sec_value_def)
qed

lemma sec_root_cache [simp]: "sec_root (getSecKeyCache t) = sec_root t"
  by (simp add: getSecKeyCache_def)

lemma sec_update:
  assumes "trie_rep db (sec_root t) f" "v \<noteq> []"
  shows "\<exists>t'. sec_TryUpdate kec db t k v = Some (Inr t') \<and> trie_rep db (sec_root t') (f(keybytesToHex (hashKey kec k) \<mapsto> v))"
proof -
  obtain d root' where "trie_insert db (sec_root t) [] (keybytesToHex (hashKey kec k)) (ValueNode v) = Some (Inr (d, root'))"
    "trie_rep db root' (f(keybytesToHex (hashKey kec k) \<mapsto> v))" using insert_trie_rep [OF assms(1)] by blast
  then show ?thesis using assms(2) by (simp add: sec_TryUpdate_def TryUpdate_def)
qed

lemma sec_delete:
  assumes "trie_rep db (sec_root t) f"
  shows "\<exists>t'. sec_TryDelete kec db t k = Some (None, t') \<and> trie_rep db (sec_root t') (f(keybytesToHex (hashKey kec k) := None))"
proof -
  obtain d root' where "trie_delete db (sec_root t) [] (keybytesToHex (hashKey kec k)) = Some (Inr (d, root'))"
    "trie_rep db root' (f(keybytesToHex (hashKey kec k) := None))" using delete_trie_rep [OF assms] by blast
  then show ?thesis by (simp add: sec_TryDelete_def TryDelete_def)
qed

lemma NewSecure_ok:
  assumes "nodes_ok db" "NewSecure db root = Inr t"
  shows "sec_ok db t"
proof (cases "hash_bytes root \<noteq> replicate 32 0 \<and> hash_bytes root \<noteq> emptyRoot")
  case True
  then obtain n where "db (hash_bytes root) = Some n" "sec_root t = n"
    using assms(2) by (auto simp: NewSecure_def trie_New_def resolveHash_def split: option.splits sum.splits)
  moreover then obtain b f where "rep db n b f" using assms(1) unfolding nodes_ok_def by blast
  ultimately show ?thesis unfolding sec_ok_def trie_rep_def by blast
next
  case False
  then have "sec_root t = NilNode" using assms(2) by (auto simp: NewSecure_def trie_New_def)
  then show ?thesis by (auto simp: sec_ok_def trie_rep_def)
qed

lemma hash_bytes_0: "hash_bytes 0 = replicate 32 0"
  by (simp add: hash_bytes_def map_replicate_const)

lemma NewSecure_empty: "NewSecure db 0 = Inr \<lparr>sec_root = NilNode, secKeyCache = [], cacheOwned = False\<rparr>"
  by (simp add: NewSecure_def trie_New_def hash_bytes_0)

end
