(* ===== verification/State_Secure.thy ===== *)
theory State_Secure
  imports State_Histories Secure_Trie
begin

text \<open>
  The state database over secure tries (\<open>core/state/database.go\<close>): \<open>OpenTrie\<close> and \<open>OpenStorageTrie\<close> open secure tries
  over one node database, which satisfy the laws the state database relies on.

  \<open>libs\<close> gives what is left: Keccak, RLP and the contract code; \<open>rootHash\<close> is the hash of a node, which the
  hasher computes. Where the trie would not return, the value is unspecified; the laws show that it returns.
\<close>

definition trieResult :: "'a trie_res \<Rightarrow> 'a \<Rightarrow> 'a \<times> db_error option" where
  "trieResult r d = (case the r of Inl e \<Rightarrow> (d, Some (TrieErr e)) | Inr x \<Rightarrow> (x, None))"

definition secure_env :: "(bytes \<Rightarrow> node option) \<Rightarrow> (node \<Rightarrow> hash) \<Rightarrow> secureTrie senv \<Rightarrow> secureTrie senv" where
  "secure_env db rootHash libs = libs
     \<lparr>OpenTrie := (\<lambda>root. map_sum TrieErr id (NewSecure db root)),
      OpenStorageTrie := (\<lambda>_ root. map_sum TrieErr id (NewSecure db root)),
      CopyTrie := sec_Copy,
      t_TryGet := (\<lambda>t k. let ((v, t'), e) = trieResult (sec_TryGet (keccak libs) db t k) ([], t) in (v, e, t')),
      t_TryUpdate := (\<lambda>t k v. let (t', e) = trieResult (sec_TryUpdate (keccak libs) db t k v) t in (e, t')),
      t_TryDelete := (\<lambda>t k. let (e, t') = the (sec_TryDelete (keccak libs) db t k) in (map_option TrieErr e, t')),
      t_Hash := (\<lambda>t. (if sec_root t = NilNode then BytesToHash emptyRoot else rootHash (sec_root t), t))\<rparr>"

lemma secure_fields [simp]:
  "keccak (secure_env db rh libs) = keccak libs" "decodeAccount (secure_env db rh libs) = decodeAccount libs"
  "encodeAccount (secure_env db rh libs) = encodeAccount libs" "rlp_bytes (secure_env db rh libs) = rlp_bytes libs"
  by (simp_all add: secure_env_def)

lemma secure_TryGet:
  assumes "trie_rep db (sec_root t) f"
  shows "\<exists>t'. t_TryGet (secure_env db rh libs) t k = (sec_value (keccak libs) f k, None, t') \<and> trie_rep db (sec_root t') f"
proof -
  obtain t' where "sec_TryGet (keccak libs) db t k = Some (Inr (sec_value (keccak libs) f k, t'))" "trie_rep db (sec_root t') f"
    using sec_get [OF assms] by blast
  then show ?thesis by (simp add: secure_env_def trieResult_def)
qed

lemma secure_stored:
  assumes "trie_rep db (sec_root t) f"
  shows "stored (secure_env db rh libs) t = sec_value (keccak libs) f"
proof
  fix k
  show "stored (secure_env db rh libs) t k = sec_value (keccak libs) f k"
    using secure_TryGet [OF assms, of rh libs k] by (auto simp: stored_def)
qed

lemma secure_laws:
  assumes "nodes_ok db"
  shows "trie_laws (secure_env db rh libs) (sec_ok db)"
proof unfold_locales
  let ?e = "secure_env db rh libs"
  show "\<exists>t'. t_TryGet ?e t k = (stored ?e t k, None, t') \<and> sec_ok db t' \<and> stored ?e t' = stored ?e t" if ok: "sec_ok db t" for t k
  proof -
    obtain f where f: "trie_rep db (sec_root t) f" using ok by (auto simp: sec_ok_def)
    then obtain t' where t': "t_TryGet ?e t k = (sec_value (keccak libs) f k, None, t')" "trie_rep db (sec_root t') f"
      using secure_TryGet by blast
    then show ?thesis using secure_stored [OF f] secure_stored [OF t'(2)] by (auto simp: sec_ok_def)
  qed
  show "\<exists>t'. t_TryUpdate ?e t k v = (None, t') \<and> sec_ok db t' \<and>
      (\<forall>k'. stored ?e t' k' = (if keccak ?e k' = keccak ?e k then v else stored ?e t k'))"
    if ok: "sec_ok db t" and v: "v \<noteq> []" for t k v
  proof -
    obtain f where f: "trie_rep db (sec_root t) f" using ok by (auto simp: sec_ok_def)
    then obtain t' where t': "sec_TryUpdate (keccak libs) db t k v = Some (Inr t')"
      "trie_rep db (sec_root t') (f(keybytesToHex (hashKey (keccak libs) k) \<mapsto> v))" using sec_update [OF _ v] by blast
    then have "t_TryUpdate ?e t k v = (None, t')" by (simp add: secure_env_def trieResult_def)
    then show ?thesis using secure_stored [OF f] secure_stored [OF t'(2)] t'(2)
      by (auto simp: sec_ok_def sec_value_def hashKey_inj)
  qed
  show "\<exists>t'. t_TryDelete ?e t k = (None, t') \<and> sec_ok db t' \<and>
      (\<forall>k'. stored ?e t' k' = (if keccak ?e k' = keccak ?e k then [] else stored ?e t k'))"
    if ok: "sec_ok db t" for t k
  proof -
    obtain f where f: "trie_rep db (sec_root t) f" using ok by (auto simp: sec_ok_def)
    then obtain t' where t': "sec_TryDelete (keccak libs) db t k = Some (None, t')"
      "trie_rep db (sec_root t') (f(keybytesToHex (hashKey (keccak libs) k) := None))" using sec_delete by blast
    then have "t_TryDelete ?e t k = (None, t')" by (simp add: secure_env_def)
    then show ?thesis using secure_stored [OF f] secure_stored [OF t'(2)] t'(2)
      by (auto simp: sec_ok_def sec_value_def hashKey_inj)
  qed
  show "OpenTrie ?e r = Inr t \<Longrightarrow> sec_ok db t" for r t
    using NewSecure_ok [OF assms, of r t] by (cases "NewSecure db r") (auto simp: secure_env_def)
  show "OpenStorageTrie ?e h r = Inr t \<Longrightarrow> sec_ok db t" for h r t
    using NewSecure_ok [OF assms, of r t] by (cases "NewSecure db r") (auto simp: secure_env_def)
  show "\<exists>t. OpenStorageTrie ?e h 0 = Inr t" for h by (simp add: secure_env_def NewSecure_empty)
  show "sec_ok db (snd (t_Hash ?e t)) \<and> stored ?e (snd (t_Hash ?e t)) = stored ?e t" if "sec_ok db t" for t
    using that by (simp add: secure_env_def)
qed

text \<open>An empty node database gives a state database for every library; with it the laws hold without a condition.\<close>

interpretation empty_db: trie_laws "secure_env (\<lambda>_. None) rh libs" "sec_ok (\<lambda>_. None)"
  for rh :: "node \<Rightarrow> hash" and libs :: "secureTrie senv"
  by (rule secure_laws) simp

lemma fresh_state_ok:
  assumes "nodes_ok db" "state_New (secure_env db rh libs) root = Inr s"
    "\<forall>bs d. decodeAccount libs bs = Some d \<longrightarrow> length (a_CodeHash d) = 32"
  shows "state_ok (secure_env db rh libs) (sec_ok db) s"
proof -
  obtain tr where tr: "OpenTrie (secure_env db rh libs) root = Inr tr" "s = fresh_stateDB tr"
    using assms(2) by (cases "OpenTrie (secure_env db rh libs) root") (auto simp: state_New_def)
  have "sec_ok db tr" using trie_laws.open_wf(1) [OF secure_laws [OF assms(1)] tr(1)] .
  then show ?thesis using tr(2) assms(3)
    by (auto simp: state_ok_def fresh_stateDB_def load_object_def newObject_def split: if_splits)
qed

text \<open>C35: Reverting restores the state. Whatever a client does after taking a snapshot, including further snapshots
  and reverts, as long as the snapshot is still valid \<open>RevertToSnapshot\<close> succeeds and every account (nonce, balance,
  code, storage), the refund counter, the logs and the preimages are what they were.\<close>

theorem revert_to_snapshot_restores:
  assumes "nodes_ok db" "state_ok (secure_env db rh libs) (sec_ok db) s0" "validRevisions s0 = []"
    "run_ops (secure_env db rh libs) before s0 = Some s" "Snapshot s = (i, s1)"
    "run_ops (secure_env db rh libs) after s1 = Some t" "i \<in> fst ` set (validRevisions t)"
  shows "\<exists>u. RevertToSnapshot (secure_env db rh libs) i t = Some u
    \<and> view (secure_env db rh libs) u = view (secure_env db rh libs) s"
  using trie_laws.revert_restores_view [OF secure_laws [OF assms(1)] assms(2-7)] by blast

text \<open>A library for examples: accounts are not stored, hashes are sums.\<close>

definition toy_libs :: "secureTrie senv" where
  "toy_libs = \<lparr>keccak = (\<lambda>bs. of_nat (length bs)), OpenTrie = (\<lambda>_. Inl RlpError), OpenStorageTrie = (\<lambda>_ _. Inl RlpError),
     CopyTrie = id, ContractCode = (\<lambda>_ _. (None, Some CodeError)), ContractCodeSize = (\<lambda>_ _. (0, Some CodeError)),
     t_TryGet = (\<lambda>t _. ([], None, t)), t_TryUpdate = (\<lambda>t _ _. (None, t)), t_TryDelete = (\<lambda>t _. (None, t)), t_Hash = (\<lambda>t. (0, t)),
     decodeAccount = (\<lambda>_. None), encodeAccount = (\<lambda>_. None), rlp_Split = (\<lambda>b. (b, None)), rlp_bytes = (\<lambda>b. b)\<rparr>"

definition toy_state_env :: "secureTrie senv" where
  "toy_state_env = secure_env (\<lambda>_. None) (\<lambda>_. 0) toy_libs"

definition toy_state :: "secureTrie stateDB" where
  "toy_state = fresh_stateDB \<lparr>sec_root = NilNode, secKeyCache = [], cacheOwned = False\<rparr>"

lemma toy_state_ok: "state_ok toy_state_env (sec_ok (\<lambda>_. None)) toy_state"
  unfolding toy_state_env_def
proof (rule fresh_state_ok [of _ _ _ 0])
  show "state_New (secure_env (\<lambda>_. None) (\<lambda>_. 0) toy_libs) 0 = Inr toy_state"
    by (simp add: state_New_def secure_env_def NewSecure_empty toy_state_def)
qed (simp_all add: toy_libs_def)

theorem revert_to_snapshot_restores_witness:
  "\<exists>s i s1 t u. run_ops toy_state_env [OpAddBalance 1 5] toy_state = Some s \<and> Snapshot s = (i, s1)
     \<and> run_ops toy_state_env [OpSubBalance 1 3, OpSetNonce 1 1, OpCreateAccount 2] s1 = Some t
     \<and> RevertToSnapshot toy_state_env i t = Some u \<and> view toy_state_env u = view toy_state_env s"
proof -
  define s where "s = AddBalance toy_state_env 1 5 toy_state"
  have run1: "run_ops toy_state_env [OpAddBalance 1 5] toy_state = Some s" by (simp add: s_def)
  obtain i s1 where S: "Snapshot s = (i, s1)" by fastforce
  obtain t where run2: "run_ops toy_state_env [OpSubBalance 1 3, OpSetNonce 1 1, OpCreateAccount 2] s1 = Some t" by simp
  have g1: "good_step toy_state_env (sec_ok (\<lambda>_. None)) toy_state s"
    by (rule empty_db.plain_run [of "\<lambda>_. 0" toy_libs, folded toy_state_env_def, OF toy_state_ok _ run1]) (simp add: plain_def)
  then have "state_ok toy_state_env (sec_ok (\<lambda>_. None)) s" by (simp add: good_step_def)
  then have ok1: "state_ok toy_state_env (sec_ok (\<lambda>_. None)) s1" using S by (auto simp: Snapshot_def)
  have "good_step toy_state_env (sec_ok (\<lambda>_. None)) s1 t"
    by (rule empty_db.plain_run [of "\<lambda>_. 0" toy_libs, folded toy_state_env_def, OF ok1 _ run2]) (simp add: plain_def)
  then have "i \<in> fst ` set (validRevisions t)" using S by (auto simp: good_step_def Snapshot_def)
  moreover have "validRevisions toy_state = []" by (simp add: toy_state_def fresh_stateDB_def)
  ultimately have "\<exists>u. RevertToSnapshot toy_state_env i t = Some u \<and> view toy_state_env u = view toy_state_env s"
    using revert_to_snapshot_restores [of "\<lambda>_. None" "\<lambda>_. 0" toy_libs, folded toy_state_env_def,
      OF nodes_ok_empty toy_state_ok _ run1 S run2] by blast
  then show ?thesis using run1 S run2 by blast
qed

end
