(* ===== verification/State_Transition.thy ===== *)
theory State_Transition
  imports State_Ops Transactions
begin

text \<open>
  Applying a message: \<open>core/gaspool.go\<close>, \<open>core/state_transition.go\<close>, \<open>core/evm.go\<close> and \<open>core/vm/evm.go\<close>.

  The simulator has no interpreter: a call transfers value. Errors are values; \<open>AddGas\<close> panics when the pool would
  overflow, which is \<^const>\<open>None\<close>. The return data of a call is always empty and left out.
\<close>

datatype core_error =
    ErrGasLimitReached | ErrNonceTooHigh | ErrNonceTooLow | errInsufficientBalanceForGas | ErrOutOfGas | ErrDepth
  | ErrInsufficientBalance | ErrInvalidSig
  | ErrInvalidSender | ErrUnderpriced | ErrReplaceUnderpriced | ErrInsufficientFunds | ErrIntrinsicGas | ErrGasLimit
  | ErrNegativeValue | ErrOversizedData | ErrKnownTransaction

section \<open>The gas pool\<close>

definition MaxUint64 :: u64 where "MaxUint64 = - 1"

definition AddGas :: "u64 \<Rightarrow> u64 \<Rightarrow> u64 option" where
  "AddGas gp amount = (if gp > MaxUint64 - amount then None else Some (gp + amount))"

definition SubGas :: "u64 \<Rightarrow> u64 \<Rightarrow> core_error + u64" where
  "SubGas gp amount = (if gp < amount then Inl ErrGasLimitReached else Inr (gp - amount))"

section \<open>Intrinsic gas\<close>

definition TxGas :: u64 where "TxGas = 21000"
definition TxGasContractCreation :: u64 where "TxGasContractCreation = 53000"
definition TxDataZeroGas :: u64 where "TxDataZeroGas = 4"
definition TxDataNonZeroGas :: u64 where "TxDataNonZeroGas = 68"

fun nonzero_bytes :: "bytes \<Rightarrow> u64 \<Rightarrow> u64" where
  "nonzero_bytes [] nz = nz"
| "nonzero_bytes (b # bs) nz = nonzero_bytes bs (if b \<noteq> 0 then nz + 1 else nz)"

definition IntrinsicGas :: "bytes \<Rightarrow> bool \<Rightarrow> core_error + u64" where
  "IntrinsicGas data contractCreation =
     (let gas = (if contractCreation then TxGasContractCreation else TxGas) in
      if length data > 0 then
        let nz = nonzero_bytes data 0 in
        if (MaxUint64 - gas) div TxDataNonZeroGas < nz then Inl ErrOutOfGas
        else
          let gas1 = gas + nz * TxDataNonZeroGas; z = of_nat (length data) - nz in
          if (MaxUint64 - gas1) div TxDataZeroGas < z then Inl ErrOutOfGas
          else Inr (gas1 + z * TxDataZeroGas)
      else Inr gas)"

section \<open>Value transfer\<close>

definition CanTransfer :: "'t senv \<Rightarrow> address \<Rightarrow> bigint \<Rightarrow> 't stateDB \<Rightarrow> bool \<times> 't stateDB" where
  "CanTransfer env addr amount s = (let (b, s1) = GetBalance env addr s in (b \<ge> amount, s1))"

definition Transfer :: "'t senv \<Rightarrow> address \<Rightarrow> address \<Rightarrow> bigint \<Rightarrow> 't stateDB \<Rightarrow> 't stateDB" where
  "Transfer env sender recipient amount s = AddBalance env recipient amount (SubBalance env sender amount s)"

definition CallCreateDepth :: int where "CallCreateDepth = 1024"

text \<open>\<open>EVM.Call\<close>: the gas that is left and the error, \<^const>\<open>None\<close> for nil.\<close>

definition evm_Call ::
  "'t senv \<Rightarrow> int \<Rightarrow> address \<Rightarrow> address \<Rightarrow> u64 \<Rightarrow> bigint \<Rightarrow> 't stateDB \<Rightarrow> (u64 \<times> core_error option) \<times> 't stateDB" where
  "evm_Call env depth caller addr gas val s =
     (if depth > CallCreateDepth then ((gas, Some ErrDepth), s)
      else
        let (can, s1) = CanTransfer env caller val s in
        if \<not> can then ((gas, Some ErrInsufficientBalance), s1)
        else
          let (ex, s2) = Exist env addr s1 in
          if \<not> ex \<and> val = 0 then ((gas, None), s2)
          else
            let s3 = (if \<not> ex then CreateAccount env addr s2 else s2) in
            ((gas, None), Transfer env caller addr val s3))"

section \<open>The transition\<close>

record 't stateTransition =
  st_gp :: u64
  st_gas :: u64
  st_initialGas :: u64
  st_state :: "'t stateDB"

definition NewStateTransition :: "u64 \<Rightarrow> 't stateDB \<Rightarrow> 't stateTransition" where
  "NewStateTransition gp s = \<lparr>st_gp = gp, st_gas = 0, st_initialGas = 0, st_state = s\<rparr>"

definition st_to :: "message \<Rightarrow> address" where
  "st_to msg = (case m_to msg of None \<Rightarrow> 0 | Some a \<Rightarrow> a)"

definition useGas :: "u64 \<Rightarrow> 't stateTransition \<Rightarrow> core_error option \<times> 't stateTransition" where
  "useGas amount st = (if st_gas st < amount then (Some ErrOutOfGas, st) else (None, st\<lparr>st_gas := st_gas st - amount\<rparr>))"

definition gasUsed :: "'t stateTransition \<Rightarrow> u64" where
  "gasUsed st = st_initialGas st - st_gas st"

definition buyGas :: "'t senv \<Rightarrow> message \<Rightarrow> 't stateTransition \<Rightarrow> core_error option \<times> 't stateTransition" where
  "buyGas env msg st =
     (let mgval = uint (m_gasLimit msg) * m_gasPrice msg; (bal, s1) = GetBalance env (m_from msg) (st_state st);
          st1 = st\<lparr>st_state := s1\<rparr> in
      if bal < mgval then (Some errInsufficientBalanceForGas, st1)
      else case SubGas (st_gp st) (m_gasLimit msg) of
             Inl e \<Rightarrow> (Some e, st1)
           | Inr gp \<Rightarrow> (None, st1\<lparr>st_gp := gp, st_gas := st_gas st1 + m_gasLimit msg, st_initialGas := m_gasLimit msg,
                               st_state := SubBalance env (m_from msg) mgval s1\<rparr>))"

definition preCheck :: "'t senv \<Rightarrow> message \<Rightarrow> 't stateTransition \<Rightarrow> core_error option \<times> 't stateTransition" where
  "preCheck env msg st =
     (if m_checkNonce msg then
        let (nonce, s1) = GetNonce env (m_from msg) (st_state st); st1 = st\<lparr>st_state := s1\<rparr> in
        if nonce < m_nonce msg then (Some ErrNonceTooHigh, st1)
        else if nonce > m_nonce msg then (Some ErrNonceTooLow, st1)
        else buyGas env msg st1
      else buyGas env msg st)"

definition refundGas :: "'t senv \<Rightarrow> message \<Rightarrow> 't stateTransition \<Rightarrow> 't stateTransition option" where
  "refundGas env msg st =
     (let half = gasUsed st div 2;
          refund = (if half > GetRefund (st_state st) then GetRefund (st_state st) else half);
          gas = st_gas st + refund;
          remaining = uint gas * m_gasPrice msg
      in case AddGas (st_gp st) gas of
           None \<Rightarrow> None
         | Some gp \<Rightarrow> Some (st\<lparr>st_gas := gas, st_gp := gp, st_state := AddBalance env (m_from msg) remaining (st_state st)\<rparr>))"

text \<open>\<open>TransitionDb\<close>: the used gas and whether the call failed, or the error; the transition is returned in any case,
  since the state and the pool keep what was done before an error.\<close>

definition TransitionDb ::
  "'t senv \<Rightarrow> address \<Rightarrow> message \<Rightarrow> 't stateTransition \<Rightarrow> ((core_error + u64 \<times> bool) \<times> 't stateTransition) option" where
  "TransitionDb env coinbase msg st =
     (case preCheck env msg st of
        (Some e, st1) \<Rightarrow> Some (Inl e, st1)
      | (None, st1) \<Rightarrow>
          (case IntrinsicGas (m_data msg) False of
             Inl e \<Rightarrow> Some (Inl e, st1)
           | Inr gas \<Rightarrow>
               (case useGas gas st1 of
                  (Some e, st2) \<Rightarrow> Some (Inl e, st2)
                | (None, st2) \<Rightarrow>
                    let (nonce, s3) = GetNonce env (m_from msg) (st_state st2);
                        s4 = SetNonce env (m_from msg) (nonce + 1) s3;
                        ((left, vmerr), s5) = evm_Call env 0 (m_from msg) (st_to msg) (st_gas st2) (m_amount msg) s4;
                        st3 = st2\<lparr>st_gas := left, st_state := s5\<rparr> in
                    if vmerr = Some ErrInsufficientBalance then Some (Inl ErrInsufficientBalance, st3)
                    else case refundGas env msg st3 of
                           None \<Rightarrow> None
                         | Some st4 \<Rightarrow>
                             let fee = uint (gasUsed st4) * m_gasPrice msg;
                                 st5 = st4\<lparr>st_state := AddBalance env coinbase fee (st_state st4)\<rparr> in
                             Some (Inr (gasUsed st5, vmerr \<noteq> None), st5))))"

definition ApplyMessage ::
  "'t senv \<Rightarrow> address \<Rightarrow> message \<Rightarrow> u64 \<Rightarrow> 't stateDB \<Rightarrow> ((core_error + u64 \<times> bool) \<times> 't stateTransition) option" where
  "ApplyMessage env coinbase msg gp s = TransitionDb env coinbase msg (NewStateTransition gp s)"

end
