(* ===== verification/State_Balance.thy ===== *)
theory State_Balance
  imports State_Secure State_Transition
begin

text \<open>
  What the operations of a message do to balances and nonces (\<open>core/state/statedb.go\<close>, \<open>core/evm.go\<close>,
  \<open>core/vm/evm.go\<close>). A missing account has balance and nonce zero.
\<close>

definition bal :: "state_view \<Rightarrow> address \<Rightarrow> bigint" where
  "bal v a = (case v_accounts v a of None \<Rightarrow> 0 | Some x \<Rightarrow> v_balance x)"

definition nonceOf :: "state_view \<Rightarrow> address \<Rightarrow> u64" where
  "nonceOf v a = (case v_accounts v a of None \<Rightarrow> 0 | Some x \<Rightarrow> v_nonce x)"

text \<open>\<open>f\<close> are the balances, \<open>g\<close> the nonces after the step, the refund counter is the same.\<close>

definition effect ::
  "'t senv \<Rightarrow> ('t \<Rightarrow> bool) \<Rightarrow> 't stateDB \<Rightarrow> 't stateDB \<Rightarrow> (address \<Rightarrow> bigint) \<Rightarrow> (address \<Rightarrow> u64) \<Rightarrow> bool" where
  "effect env tok s s' f g \<longleftrightarrow> state_ok env tok s' \<and> bal (view env s') = f \<and> nonceOf (view env s') = g
     \<and> sdb_refund s' = sdb_refund s"

lemma effect_same: "state_ok env tok s' \<Longrightarrow> view env s' = view env s \<Longrightarrow> effect env tok s s' (bal (view env s)) (nonceOf (view env s))"
  by (simp add: effect_def) (metis state_view.select_convs(2) view_def)

lemma bal_put:
  assumes "\<not> so_deleted y"
  shows "bal (view env (setStateObject y s)) = (bal (view env s))(so_address y := a_Balance (so_data y))"
    "nonceOf (view env (setStateObject y s)) = (nonceOf (view env s))(so_address y := a_Nonce (so_data y))"
  using assms by (auto simp: view_put bal_def nonceOf_def fun_eq_iff)

lemma bal_lookup:
  "bal (view env s) a = (case lookup_object env s a of None \<Rightarrow> 0 | Some x \<Rightarrow> a_Balance (so_data x))"
  "nonceOf (view env s) a = (case lookup_object env s a of None \<Rightarrow> 0 | Some x \<Rightarrow> a_Nonce (so_data x))"
  by (simp_all add: bal_def nonceOf_def split: option.splits)

lemma refund_append [simp]: "sdb_refund (journal_dirty a s) = sdb_refund s"
  by (simp add: journal_dirty_def)

lemma view_refund: "view env s' = view env s \<Longrightarrow> sdb_refund s' = sdb_refund s"
  by (simp add: view_def)

context trie_laws
begin

lemma createObject_effect:
  assumes ok: "state_ok env tok s"
    and n_def: "n = so_setNonce 0 (newObject env a (zero_account env))"
  shows "\<exists>s'. createObject env a s = ((n, lookup_object env s a), s')
    \<and> effect env tok s s' ((bal (view env s))(a := 0)) ((nonceOf (view env s))(a := 0))
    \<and> lookup_object env s' a = Some n \<and> object_ok env tok a n"
proof -
  obtain s' where s': "createObject env a s = ((n, lookup_object env s a), s')" "good_step env tok s s'"
    "lookup_object env s' a = Some n" "object_ok env tok a n" using createObject_good [OF ok] unfolding n_def by blast
  obtain s1 where s1: "getStateObject env a s = (lookup_object env s a, s1)" "view env s1 = view env s"
    using getStateObject_ok [OF ok] by blast
  have n: "\<not> so_deleted n" "so_address n = a" "a_Balance (so_data n) = 0" "a_Nonce (so_data n) = 0"
    by (simp_all add: n_def so_setNonce_def newObject_def zero_account_def)
  let ?e = "case lookup_object env s a of None \<Rightarrow> createObjectChange a | Some p \<Rightarrow> resetObjectChange p"
  have e: "s' = setStateObject n (journal_append ?e s1)" using s'(1) s1(1) by (simp add: createObject_def n_def)
  then have "bal (view env s') = (bal (view env s))(a := 0)" "nonceOf (view env s') = (nonceOf (view env s))(a := 0)"
    "sdb_refund s' = sdb_refund s" using n s1(2) bal_put [OF n(1)] view_refund by simp_all
  then show ?thesis using s' by (auto simp: effect_def good_step_def)
qed

lemma GetOrNew_effect:
  assumes ok: "state_ok env tok s"
  shows "\<exists>x s'. GetOrNewStateObject env a s = (x, s') \<and> effect env tok s s' (bal (view env s)) (nonceOf (view env s))
    \<and> lookup_object env s' a = Some x \<and> object_ok env tok a x \<and> so_address x = a \<and> \<not> so_deleted x
    \<and> a_Balance (so_data x) = bal (view env s) a \<and> a_Nonce (so_data x) = nonceOf (view env s) a"
proof -
  obtain s1 where s1: "getStateObject env a s = (lookup_object env s a, s1)" "state_ok env tok s1" "view env s1 = view env s"
    "frame s s1" "lookup_object env s1 = lookup_object env s"
    "\<forall>x. lookup_object env s a = Some x \<longrightarrow> object_ok env tok a x \<and> so_address x = a \<and> \<not> so_deleted x"
    using getStateObject_ok [OF ok] by blast
  show ?thesis
  proof (cases "lookup_object env s a")
    case (Some x)
    have "effect env tok s s1 (bal (view env s)) (nonceOf (view env s))" by (rule effect_same [OF s1(2,3)])
    moreover have "GetOrNewStateObject env a s = (x, s1)" using Some s1(1,6) by (simp add: GetOrNewStateObject_def)
    ultimately show ?thesis using Some s1 by (simp add: bal_lookup)
  next
    case None
    let ?n = "so_setNonce 0 (newObject env a (zero_account env))"
    obtain s2 where s2: "createObject env a s1 = ((?n, lookup_object env s1 a), s2)"
      "effect env tok s1 s2 ((bal (view env s1))(a := 0)) ((nonceOf (view env s1))(a := 0))"
      "lookup_object env s2 a = Some ?n" "object_ok env tok a ?n" using createObject_effect [OF s1(2) refl] by blast
    have z: "bal (view env s) a = 0" "nonceOf (view env s) a = 0" using None by (simp_all add: bal_lookup)
    then have "effect env tok s s2 (bal (view env s)) (nonceOf (view env s))"
      using s2(2) s1(3) view_refund [OF s1(3)] by (simp add: effect_def fun_upd_idem)
    moreover have "GetOrNewStateObject env a s = (?n, s2)" using None s1(1) s2(1) by (simp add: GetOrNewStateObject_def)
    moreover have "a_Balance (so_data ?n) = 0" "a_Nonce (so_data ?n) = 0"
      by (simp_all add: so_setNonce_def newObject_def zero_account_def)
    ultimately show ?thesis using s2(3,4) z by simp
  qed
qed

lemma SetBalance_effect:
  assumes "state_ok env tok s" "lookup_object env s a = Some x" "object_ok env tok a x" "\<not> so_deleted x"
  shows "effect env tok s (so_SetBalance b x s) ((bal (view env s))(a := b)) (nonceOf (view env s))"
proof -
  have a: "so_address x = a" using assms(3) by (simp add: object_ok_def)
  have n: "nonceOf (view env s) a = a_Nonce (so_data x)" using assms(2) by (simp add: bal_lookup)
  have "state_ok env tok (so_SetBalance b x s)" using so_SetBalance_good [OF assms] by (simp add: good_step_def)
  then show ?thesis using bal_put [of "so_setBalance b x" env "journal_append (balanceChange a (a_Balance (so_data x))) s"] a n assms(4)
    by (simp add: effect_def so_SetBalance_def so_setBalance_def fun_upd_idem)
qed

lemma AddBalance_effect:
  assumes ok: "state_ok env tok s"
  shows "effect env tok s (AddBalance env a b s) ((bal (view env s))(a := bal (view env s) a + b)) (nonceOf (view env s))"
proof -
  obtain x s1 where x: "GetOrNewStateObject env a s = (x, s1)" "effect env tok s s1 (bal (view env s)) (nonceOf (view env s))"
    "lookup_object env s1 a = Some x" "object_ok env tok a x" "so_address x = a" "\<not> so_deleted x"
    "a_Balance (so_data x) = bal (view env s) a" using GetOrNew_effect [OF ok] by blast
  have ok1: "state_ok env tok s1" and v1: "bal (view env s1) = bal (view env s)" "nonceOf (view env s1) = nonceOf (view env s)"
    "sdb_refund s1 = sdb_refund s" using x(2) by (simp_all add: effect_def)
  have e: "AddBalance env a b s = so_AddBalance env b x s1" using x(1) by (simp add: AddBalance_def)
  show ?thesis
  proof (cases "b = 0")
    case True
    have "effect env tok s (so_touch x s1) (bal (view env s)) (nonceOf (view env s))"
      using ok1 v1 by (simp add: effect_def so_touch_def)
    then show ?thesis using True x(2) e by (simp add: so_AddBalance_def fun_upd_idem)
  next
    case False
    then show ?thesis using SetBalance_effect [OF ok1 x(3,4,6), of "bal (view env s) a + b"] e v1 x(7)
      by (simp add: so_AddBalance_def effect_def)
  qed
qed

lemma SubBalance_effect:
  assumes ok: "state_ok env tok s"
  shows "effect env tok s (SubBalance env a b s) ((bal (view env s))(a := bal (view env s) a - b)) (nonceOf (view env s))"
proof -
  obtain x s1 where x: "GetOrNewStateObject env a s = (x, s1)" "effect env tok s s1 (bal (view env s)) (nonceOf (view env s))"
    "lookup_object env s1 a = Some x" "object_ok env tok a x" "so_address x = a" "\<not> so_deleted x"
    "a_Balance (so_data x) = bal (view env s) a" using GetOrNew_effect [OF ok] by blast
  have ok1: "state_ok env tok s1" and v1: "bal (view env s1) = bal (view env s)" "nonceOf (view env s1) = nonceOf (view env s)"
    "sdb_refund s1 = sdb_refund s" using x(2) by (simp_all add: effect_def)
  have e: "SubBalance env a b s = so_SubBalance b x s1" using x(1) by (simp add: SubBalance_def)
  show ?thesis
  proof (cases "b = 0")
    case True
    then show ?thesis using x(2) e by (simp add: so_SubBalance_def fun_upd_idem)
  next
    case False
    then show ?thesis using SetBalance_effect [OF ok1 x(3,4,6), of "bal (view env s) a - b"] e v1 x(7)
      by (simp add: so_SubBalance_def effect_def)
  qed
qed

lemma SetNonce_effect:
  assumes ok: "state_ok env tok s"
  shows "effect env tok s (SetNonce env a n s) (bal (view env s)) ((nonceOf (view env s))(a := n))"
proof -
  obtain x s1 where x: "GetOrNewStateObject env a s = (x, s1)" "effect env tok s s1 (bal (view env s)) (nonceOf (view env s))"
    "lookup_object env s1 a = Some x" "object_ok env tok a x" "so_address x = a" "\<not> so_deleted x"
    "a_Balance (so_data x) = bal (view env s) a" using GetOrNew_effect [OF ok] by blast
  have ok1: "state_ok env tok s1" and v1: "bal (view env s1) = bal (view env s)" "nonceOf (view env s1) = nonceOf (view env s)"
    "sdb_refund s1 = sdb_refund s" using x(2) by (simp_all add: effect_def)
  have e: "SetNonce env a n s = so_SetNonce n x s1" using x(1) by (simp add: SetNonce_def)
  have "state_ok env tok (so_SetNonce n x s1)" using so_SetNonce_good [OF ok1 x(3,4,6)] by (simp add: good_step_def)
  then show ?thesis using bal_put [of "so_setNonce n x" env "journal_append (nonceChange a (a_Nonce (so_data x))) s1"] e v1 x
    by (simp add: effect_def so_SetNonce_def so_setNonce_def fun_upd_idem)
qed

lemma reader_effect:
  assumes ok: "state_ok env tok s"
  shows "effect env tok s (snd (getStateObject env a s)) (bal (view env s)) (nonceOf (view env s))"
    "view env (snd (getStateObject env a s)) = view env s"
    "fst (GetBalance env a s) = bal (view env s) a" "fst (GetNonce env a s) = nonceOf (view env s) a"
    "fst (Exist env a s) = (v_accounts (view env s) a \<noteq> None)"
    "snd (GetBalance env a s) = snd (getStateObject env a s)" "snd (GetNonce env a s) = snd (getStateObject env a s)"
    "snd (Exist env a s) = snd (getStateObject env a s)"
proof -
  obtain s1 where s1: "getStateObject env a s = (lookup_object env s a, s1)" "state_ok env tok s1" "view env s1 = view env s"
    using getStateObject_ok [OF ok] by blast
  then show "effect env tok s (snd (getStateObject env a s)) (bal (view env s)) (nonceOf (view env s))"
    "view env (snd (getStateObject env a s)) = view env s"
    "fst (GetBalance env a s) = bal (view env s) a" "fst (GetNonce env a s) = nonceOf (view env s) a"
    "fst (Exist env a s) = (v_accounts (view env s) a \<noteq> None)"
    "snd (GetBalance env a s) = snd (getStateObject env a s)" "snd (GetNonce env a s) = snd (getStateObject env a s)"
    "snd (Exist env a s) = snd (getStateObject env a s)"
    using effect_same [OF s1(2,3)]
    by (simp_all add: GetBalance_def GetNonce_def Exist_def bal_lookup split: option.splits)
qed

lemma CreateAccount_effect:
  assumes ok: "state_ok env tok s" and a: "v_accounts (view env s) a = None"
  shows "effect env tok s (CreateAccount env a s) (bal (view env s)) (nonceOf (view env s))"
proof -
  have l: "lookup_object env s a = None" using a by simp
  let ?n = "so_setNonce 0 (newObject env a (zero_account env))"
  obtain s' where s': "createObject env a s = ((?n, lookup_object env s a), s')"
    "effect env tok s s' ((bal (view env s))(a := 0)) ((nonceOf (view env s))(a := 0))"
    using createObject_effect [OF ok refl] by blast
  have "bal (view env s) a = 0" "nonceOf (view env s) a = 0" using l by (simp_all add: bal_lookup)
  then show ?thesis using s' l by (simp add: CreateAccount_def fun_upd_idem)
qed

end

end
