(* ===== verification/Transition_Rules.thy ===== *)
theory Transition_Rules
  imports State_Balance
begin

text \<open>
  What applying a message does (\<open>core/state_transition.go\<close>): intrinsic gas is the exact sum or an error, a
  transition never panics, moves the value and the fee and nothing else, and accounts for every unit of gas.
\<close>

section \<open>Intrinsic gas\<close>

abbreviation nonzeros :: "bytes \<Rightarrow> nat" where
  "nonzeros data \<equiv> length (filter (\<lambda>b. b \<noteq> 0) data)"

lemma nonzero_bytes_count:
  "unat n + length data < 2 ^ 64 \<Longrightarrow> unat (nonzero_bytes data n) = unat n + nonzeros data"
proof (induction data arbitrary: n)
  case (Cons b bs)
  show ?case
  proof (cases "b = 0")
    case False
    have "unat (n + 1) = unat n + 1" using Cons.prems by (intro unat_Suc_u64) simp
    then show ?thesis using Cons False by simp
  qed (use Cons in simp)
qed simp

lemma unat_MaxUint64: "unat MaxUint64 = 2 ^ 64 - 1"
  by (simp add: MaxUint64_def unsigned_minus_1_eq_mask mask_eq_exp_minus_1)

lemma le_MaxUint64 [simp]: "x \<le> MaxUint64"
  by (simp add: MaxUint64_def)

text \<open>The overflow test of the code: \<open>(max - g) / d < n\<close>.\<close>

lemma overflow_test:
  assumes "0 < unat d"
  shows "(MaxUint64 - g) div d < n \<longleftrightarrow> unat g + unat n * unat d \<ge> 2 ^ 64"
proof -
  have "unat (MaxUint64 - g) = 2 ^ 64 - 1 - unat g" by (simp add: unat_sub unat_MaxUint64)
  moreover have "unat g < 2 ^ 64" using unsigned_less [of g] by simp
  moreover have "(2 ^ 64 - 1 - unat g) div unat d < unat n \<longleftrightarrow> 2 ^ 64 - 1 - unat g < unat n * unat d"
    using div_less_iff_less_mult [OF assms] by simp
  ultimately show ?thesis unfolding word_less_nat_alt unat_div_distrib by (simp only:) linarith
qed

lemma no_overflow:
  assumes "unat g + unat n * unat d < 2 ^ 64"
  shows "unat (g + n * d :: u64) = unat g + unat n * unat d"
  using assms unat_mult_lem [of n d] unat_add_lem [of g "n * d"] by simp

text \<open>The intrinsic gas is exactly the base price plus 68 for each non-zero and 4 for each zero byte of the
  data; when that does not fit into 64 bits the result is \<open>ErrOutOfGas\<close> and never a wrapped number.\<close>

theorem intrinsic_gas_exact:
  assumes "length data < 2 ^ 63"
  shows "IntrinsicGas data creation =
    (let g = (if creation then 53000 else 21000) + 68 * nonzeros data + 4 * (length data - nonzeros data) in
     if g < 2 ^ 64 then Inr (of_nat g) else Inl ErrOutOfGas)"
proof -
  define b where "b = (if creation then TxGasContractCreation else TxGas)"
  define nz where "nz = nonzero_bytes data 0"
  have ub: "unat b = (if creation then 53000 else 21000)" by (simp add: b_def TxGas_def TxGasContractCreation_def)
  have un: "unat nz = nonzeros data" using nonzero_bytes_count [of 0 data] assms by (simp add: nz_def)
  have le: "nonzeros data \<le> length data" by (rule length_filter_le)
  have ul: "unat (of_nat (length data) :: u64) = length data" using assms by (simp add: unat_of_nat_u64)
  then have "nz \<le> of_nat (length data)" using un le by (simp add: word_le_nat_alt)
  then have uz: "unat (of_nat (length data) - nz) = length data - nonzeros data" using ul un by (simp add: unat_sub)
  have d: "unat TxDataNonZeroGas = 68" "unat TxDataZeroGas = 4" by (simp_all add: TxDataNonZeroGas_def TxDataZeroGas_def)
  let ?z = "of_nat (length data) - nz" and ?g1 = "b + nz * TxDataNonZeroGas"
  show ?thesis
  proof (cases "length data = 0")
    case True
    then have "IntrinsicGas data creation = Inr b" by (simp add: IntrinsicGas_def b_def)
    moreover have "b = of_nat (if creation then 53000 else 21000)" by (simp add: b_def TxGas_def TxGasContractCreation_def)
    ultimately show ?thesis using True by simp
  next
    case False
    have e: "IntrinsicGas data creation = (if (MaxUint64 - b) div TxDataNonZeroGas < nz then Inl ErrOutOfGas
        else if (MaxUint64 - ?g1) div TxDataZeroGas < ?z then Inl ErrOutOfGas else Inr (?g1 + ?z * TxDataZeroGas))"
      using False by (simp add: IntrinsicGas_def b_def nz_def)
    show ?thesis
    proof (cases "unat b + unat nz * 68 < 2 ^ 64")
      case False
      then show ?thesis using e overflow_test [of TxDataNonZeroGas b nz] d ub un by auto
    next
      case True
      then have g1: "unat ?g1 = unat b + unat nz * 68" using no_overflow [of b nz TxDataNonZeroGas] d by simp
      have t1: "\<not> (MaxUint64 - b) div TxDataNonZeroGas < nz" using True overflow_test [of TxDataNonZeroGas b nz] d by simp
      show ?thesis
      proof (cases "unat ?g1 + unat ?z * 4 < 2 ^ 64")
        case False
        then show ?thesis using e t1 overflow_test [of TxDataZeroGas ?g1 ?z] d g1 ub un uz by auto
      next
        case True
        then have "unat (?g1 + ?z * TxDataZeroGas) = unat ?g1 + unat ?z * 4" using no_overflow [of ?g1 ?z TxDataZeroGas] d by simp
        then have w: "?g1 + ?z * TxDataZeroGas = of_nat (unat ?g1 + unat ?z * 4)" by (metis of_nat_unat ucast_id)
        have t2: "\<not> (MaxUint64 - ?g1) div TxDataZeroGas < ?z" using True overflow_test [of TxDataZeroGas ?g1 ?z] d by simp
        define g where "g = (if creation then 53000 else 21000) + 68 * nonzeros data + 4 * (length data - nonzeros data)"
        have gn: "unat ?g1 + unat ?z * 4 = g" using g1 ub un uz by (simp add: g_def)
        have "IntrinsicGas data creation = Inr (of_nat g)" using e t1 t2 w unfolding gn by (simp only: if_False)
        moreover have "g < 2 ^ 64" using True gn by simp
        ultimately show ?thesis unfolding g_def [symmetric] by (simp only: Let_def if_True)
      qed
    qed
  qed
qed

theorem intrinsic_gas_exact_witness:
  "IntrinsicGas [0, 1, 2] False = (let g = (21000 :: nat) + 68 * 2 + 4 * 1 in if g < 2 ^ 64 then Inr (of_nat g) else Inl ErrOutOfGas)"
  using intrinsic_gas_exact [of "[0, 1, 2]" False] by simp

section \<open>The phases of a transition\<close>

text \<open>Gas at 64 bits: what is used never exceeds the intrinsic gas, and giving the rest back cannot overflow.\<close>

lemma gas_back:
  fixes gl ig r gp :: u64
  assumes "ig \<le> gl" "gl \<le> gp" "r \<le> ig"
  shows "ig - r \<le> gl" "uint (gl - ig + r) = uint gl - uint (ig - r)" "AddGas (gp - gl) (gl - ig + r) = Some (gp - (ig - r))"
    "gl - (gl - ig + r) = ig - r"
proof -
  have le: "ig - r \<le> ig" using assms(3) by (rule word_sub_le)
  then show u: "ig - r \<le> gl" using assms(1) by (rule order_trans)
  have e: "gl - ig + r = gl - (ig - r)" by simp
  show "uint (gl - ig + r) = uint gl - uint (ig - r)" unfolding e using u by (simp add: uint_sub_lem word_le_def)
  have n: "unat (gl - (ig - r)) = unat gl - unat (ig - r)" "unat (gp - gl) = unat gp - unat gl"
    "unat (ig - r) \<le> unat gl" "unat gl \<le> unat gp" using u assms(2) by (simp_all add: unat_sub word_le_nat_alt)
  have "unat (MaxUint64 - (gl - (ig - r))) = 2 ^ 64 - 1 - (unat gl - unat (ig - r))"
    using n(1) by (simp add: unat_sub unat_MaxUint64)
  moreover have "unat gp \<le> 2 ^ 64 - 1" using unsigned_less [of gp, where ?'a = nat] by simp
  ultimately have "\<not> gp - gl > MaxUint64 - (gl - (ig - r))" using n by (simp add: word_less_nat_alt)
  then show "AddGas (gp - gl) (gl - ig + r) = Some (gp - (ig - r))" unfolding e by (simp add: AddGas_def)
  show "gl - (gl - ig + r) = ig - r" by simp
qed

definition gas_used :: "u64 \<Rightarrow> u64 \<Rightarrow> u64" where
  "gas_used ig refunds = ig - (if ig div 2 > refunds then refunds else ig div 2)"

lemma refund_le: "(if ig div 2 > rf then rf else ig div 2) \<le> (ig :: u64)"
proof -
  have "ig div 2 \<le> ig" by (simp add: word_le_nat_alt unat_div)
  then show ?thesis by auto
qed

text \<open>The whole transition: what it does when it succeeds.\<close>

definition transition_spec ::
  "'t senv \<Rightarrow> address \<Rightarrow> message \<Rightarrow> u64 \<Rightarrow> 't stateDB \<Rightarrow> u64 \<Rightarrow> 't stateTransition \<Rightarrow> bool" where
  "transition_spec env coinbase msg gp s used st' \<longleftrightarrow>
     (\<exists>ig. IntrinsicGas (m_data msg) False = Inr ig \<and> ig \<le> m_gasLimit msg \<and> m_gasLimit msg \<le> gp
        \<and> used = gas_used ig (sdb_refund s) \<and> used \<le> ig \<and> st_gp st' = gp - used)
     \<and> (m_checkNonce msg \<longrightarrow> m_nonce msg = nonceOf (view env s) (m_from msg))
     \<and> uint (m_gasLimit msg) * m_gasPrice msg + m_amount msg \<le> bal (view env s) (m_from msg)
     \<and> nonceOf (view env (st_state st')) = (nonceOf (view env s))(m_from msg := nonceOf (view env s) (m_from msg) + 1)
     \<and> bal (view env (st_state st')) = (\<lambda>a. bal (view env s) a
          - (if a = m_from msg then uint used * m_gasPrice msg + m_amount msg else 0)
          + (if a = st_to msg then m_amount msg else 0) + (if a = coinbase then uint used * m_gasPrice msg else 0))"

text \<open>When it succeeds.\<close>

definition can_apply :: "'t senv \<Rightarrow> message \<Rightarrow> u64 \<Rightarrow> 't stateDB \<Rightarrow> bool" where
  "can_apply env msg gp s \<longleftrightarrow> (m_checkNonce msg \<longrightarrow> m_nonce msg = nonceOf (view env s) (m_from msg)) \<and> m_gasLimit msg \<le> gp
     \<and> uint (m_gasLimit msg) * m_gasPrice msg \<le> bal (view env s) (m_from msg)
     \<and> uint (m_gasLimit msg) * m_gasPrice msg + m_amount msg \<le> bal (view env s) (m_from msg)
     \<and> (\<exists>ig. IntrinsicGas (m_data msg) False = Inr ig \<and> ig \<le> m_gasLimit msg)"

context trie_laws
begin

lemma buyGas_ok:
  assumes ok: "state_ok env tok (st_state st)" and b: "buyGas env msg st = (r, st')"
  shows "state_ok env tok (st_state st') \<and> (case r of
      None \<Rightarrow> uint (m_gasLimit msg) * m_gasPrice msg \<le> bal (view env (st_state st)) (m_from msg) \<and> m_gasLimit msg \<le> st_gp st
        \<and> st_gp st' = st_gp st - m_gasLimit msg \<and> st_gas st' = st_gas st + m_gasLimit msg \<and> st_initialGas st' = m_gasLimit msg
        \<and> effect env tok (st_state st) (st_state st') ((bal (view env (st_state st)))(m_from msg :=
            bal (view env (st_state st)) (m_from msg) - uint (m_gasLimit msg) * m_gasPrice msg)) (nonceOf (view env (st_state st)))
    | Some e \<Rightarrow> view env (st_state st') = view env (st_state st) \<and> st_gp st' = st_gp st
        \<and> e = (if bal (view env (st_state st)) (m_from msg) < uint (m_gasLimit msg) * m_gasPrice msg
               then errInsufficientBalanceForGas else ErrGasLimitReached)
        \<and> (bal (view env (st_state st)) (m_from msg) < uint (m_gasLimit msg) * m_gasPrice msg \<or> st_gp st < m_gasLimit msg))"
proof -
  let ?s1 = "snd (getStateObject env (m_from msg) (st_state st))" and ?mg = "uint (m_gasLimit msg) * m_gasPrice msg"
  have g: "GetBalance env (m_from msg) (st_state st) = (bal (view env (st_state st)) (m_from msg), ?s1)"
    using reader_effect(3,6) [OF ok, of "m_from msg"] by (intro prod_eqI) simp_all
  have ok1: "state_ok env tok ?s1" and v1: "view env ?s1 = view env (st_state st)"
    using reader_effect(1,2) [OF ok, of "m_from msg"] by (simp_all add: effect_def)
  have sub: "effect env tok (st_state st) (SubBalance env (m_from msg) ?mg ?s1) ((bal (view env (st_state st)))(m_from msg :=
            bal (view env (st_state st)) (m_from msg) - ?mg)) (nonceOf (view env (st_state st)))"
    using SubBalance_effect [OF ok1, of "m_from msg" ?mg] v1 view_refund [OF v1] by (simp add: effect_def)
  show ?thesis using b g ok1 v1 sub
    by (auto simp: buyGas_def SubGas_def not_less effect_def split: if_splits)
qed

lemma preCheck_ok:
  assumes ok: "state_ok env tok (st_state st)" and p: "preCheck env msg st = (None, st')"
  shows "uint (m_gasLimit msg) * m_gasPrice msg \<le> bal (view env (st_state st)) (m_from msg) \<and> m_gasLimit msg \<le> st_gp st
    \<and> st_gp st' = st_gp st - m_gasLimit msg \<and> st_gas st' = st_gas st + m_gasLimit msg \<and> st_initialGas st' = m_gasLimit msg
    \<and> (m_checkNonce msg \<longrightarrow> m_nonce msg = nonceOf (view env (st_state st)) (m_from msg))
    \<and> effect env tok (st_state st) (st_state st') ((bal (view env (st_state st)))(m_from msg :=
        bal (view env (st_state st)) (m_from msg) - uint (m_gasLimit msg) * m_gasPrice msg)) (nonceOf (view env (st_state st)))"
proof (cases "m_checkNonce msg")
  case False
  then show ?thesis using p buyGas_ok [OF ok, of msg None st'] by (simp add: preCheck_def)
next
  case True
  let ?s1 = "snd (getStateObject env (m_from msg) (st_state st))"
  have g: "GetNonce env (m_from msg) (st_state st) = (nonceOf (view env (st_state st)) (m_from msg), ?s1)"
    using reader_effect(4,7) [OF ok, of "m_from msg"] by (intro prod_eqI) simp_all
  have ok1: "state_ok env tok (st_state (st\<lparr>st_state := ?s1\<rparr>))" and v1: "view env ?s1 = view env (st_state st)"
    using reader_effect(1,2) [OF ok, of "m_from msg"] by (simp_all add: effect_def)
  have n: "\<not> nonceOf (view env (st_state st)) (m_from msg) < m_nonce msg" "\<not> nonceOf (view env (st_state st)) (m_from msg) > m_nonce msg"
    and bg: "buyGas env msg (st\<lparr>st_state := ?s1\<rparr>) = (None, st')"
    using p True g by (auto simp: preCheck_def split: if_splits)
  then have "m_nonce msg = nonceOf (view env (st_state st)) (m_from msg)" by simp
  then show ?thesis using buyGas_ok [OF ok1 bg] v1 view_refund [OF v1] by (simp add: effect_def)
qed

lemma preCheck_state_ok:
  assumes ok: "state_ok env tok (st_state st)" and p: "preCheck env msg st = (r, st')"
  shows "state_ok env tok (st_state st') \<and> (\<forall>e. r = Some e \<longrightarrow> (m_checkNonce msg \<and> m_nonce msg \<noteq> nonceOf (view env (st_state st)) (m_from msg))
    \<or> bal (view env (st_state st)) (m_from msg) < uint (m_gasLimit msg) * m_gasPrice msg \<or> st_gp st < m_gasLimit msg)"
proof (cases "m_checkNonce msg")
  case False
  then show ?thesis using p buyGas_ok [OF ok, of msg r st'] by (auto simp: preCheck_def)
next
  case True
  let ?s1 = "snd (getStateObject env (m_from msg) (st_state st))"
  have g: "GetNonce env (m_from msg) (st_state st) = (nonceOf (view env (st_state st)) (m_from msg), ?s1)"
    using reader_effect(4,7) [OF ok, of "m_from msg"] by (intro prod_eqI) simp_all
  have ok1: "state_ok env tok (st_state (st\<lparr>st_state := ?s1\<rparr>))" and v1: "view env ?s1 = view env (st_state st)"
    using reader_effect(1,2) [OF ok, of "m_from msg"] by (simp_all add: effect_def)
  show ?thesis using p True g ok1 v1 buyGas_ok [OF ok1, of msg r st'] by (auto simp: preCheck_def split: if_splits)
qed

lemma call_ok:
  assumes ok: "state_ok env tok s" and c: "evm_Call env 0 caller addr gas val s = ((left, err), s')"
  shows "left = gas \<and> state_ok env tok s' \<and> (case err of
      None \<Rightarrow> val \<le> bal (view env s) caller \<and> effect env tok s s'
        (\<lambda>a. bal (view env s) a - (if a = caller then val else 0) + (if a = addr then val else 0)) (nonceOf (view env s))
    | Some e \<Rightarrow> e = ErrInsufficientBalance \<and> bal (view env s) caller < val \<and> view env s' = view env s)"
proof -
  let ?s1 = "snd (getStateObject env caller s)"
  have g: "GetBalance env caller s = (bal (view env s) caller, ?s1)"
    using reader_effect(3,6) [OF ok, of caller] by (intro prod_eqI) simp_all
  have ok1: "state_ok env tok ?s1" and v1: "view env ?s1 = view env s"
    using reader_effect(1,2) [OF ok, of caller] by (simp_all add: effect_def)
  have can: "CanTransfer env caller val s = (val \<le> bal (view env s) caller, ?s1)" using g by (simp add: CanTransfer_def)
  show ?thesis
  proof (cases "val \<le> bal (view env s) caller")
    case False
    then show ?thesis using c can ok1 v1 by (auto simp: evm_Call_def CallCreateDepth_def)
  next
    case True
    let ?s2 = "snd (getStateObject env addr ?s1)"
    have ex: "Exist env addr ?s1 = (v_accounts (view env s) addr \<noteq> None, ?s2)"
      using reader_effect(5,8) [OF ok1, of addr] v1 by (intro prod_eqI) simp_all
    have ok2: "state_ok env tok ?s2" and v2: "view env ?s2 = view env s"
      using reader_effect(1,2) [OF ok1, of addr] v1 by (simp_all add: effect_def)
    show ?thesis
    proof (cases "v_accounts (view env s) addr = None \<and> val = 0")
      case True
      then have "s' = ?s2" "left = gas" "err = None" using c can ex \<open>val \<le> _\<close>
        by (auto simp: evm_Call_def CallCreateDepth_def split: if_splits)
      then show ?thesis using ok2 v2 True \<open>val \<le> _\<close> view_refund [OF v2] by (simp add: effect_def cong: if_cong)
    next
      case False
      define s3 where "s3 = (if v_accounts (view env s) addr = None then CreateAccount env addr ?s2 else ?s2)"
      have e3: "effect env tok s s3 (bal (view env s)) (nonceOf (view env s))"
        using CreateAccount_effect [OF ok2, of addr] v2 effect_same [OF ok2 v2] view_refund [OF v2]
        by (simp add: s3_def effect_def)
      then have ok3: "state_ok env tok s3" by (simp add: effect_def)
      let ?s4 = "SubBalance env caller val s3"
      have e4: "effect env tok s3 ?s4 ((bal (view env s))(caller := bal (view env s) caller - val)) (nonceOf (view env s))"
        using SubBalance_effect [OF ok3, of caller val] e3 by (simp add: effect_def)
      then have ok4: "state_ok env tok ?s4" by (simp add: effect_def)
      have e5: "effect env tok ?s4 (AddBalance env addr val ?s4)
          (((bal (view env s))(caller := bal (view env s) caller - val))
             (addr := ((bal (view env s))(caller := bal (view env s) caller - val)) addr + val)) (nonceOf (view env s))"
        using AddBalance_effect [OF ok4, of addr val] e4 by (simp add: effect_def)
      have "left = gas" "err = None" "s' = AddBalance env addr val ?s4"
        using c can ex \<open>val \<le> _\<close> False by (auto simp: evm_Call_def CallCreateDepth_def Transfer_def s3_def split: if_splits)
      moreover have "((bal (view env s))(caller := bal (view env s) caller - val))
             (addr := ((bal (view env s))(caller := bal (view env s) caller - val)) addr + val)
          = (\<lambda>a. bal (view env s) a - (if a = caller then val else 0) + (if a = addr then val else 0))"
        by (auto simp: fun_eq_iff)
      ultimately show ?thesis using e3 e4 e5 \<open>val \<le> _\<close> by (simp add: effect_def)
    qed
  qed
qed

lemma refundGas_ok:
  assumes ok: "state_ok env tok (st_state st)"
    and g: "st_initialGas st = gl" "st_gas st = gl - ig" "st_gp st = gp - gl" "ig \<le> gl" "gl \<le> gp"
  defines "used \<equiv> gas_used ig (sdb_refund (st_state st))"
  shows "\<exists>st'. refundGas env msg st = Some st' \<and> st_gp st' = gp - used \<and> gasUsed st' = used \<and> used \<le> gl \<and> used \<le> ig
    \<and> effect env tok (st_state st) (st_state st') ((bal (view env (st_state st)))(m_from msg :=
        bal (view env (st_state st)) (m_from msg) + (uint gl - uint used) * m_gasPrice msg)) (nonceOf (view env (st_state st)))"
proof -
  let ?rf = "sdb_refund (st_state st)"
  let ?r = "if ig div 2 > ?rf then ?rf else ig div 2"
  have u: "gasUsed st = ig" by (simp add: gasUsed_def g)
  note gb = gas_back [OF g(4,5) refund_le [of ?rf ig]]
  have used: "used = ig - ?r" by (simp add: used_def gas_used_def)
  let ?st = "st\<lparr>st_gas := gl - ig + ?r, st_gp := gp - used,
    st_state := AddBalance env (m_from msg) (uint (gl - ig + ?r) * m_gasPrice msg) (st_state st)\<rparr>"
  have "refundGas env msg st = Some ?st"
    unfolding refundGas_def Let_def u g GetRefund_def gb(3) used by (simp only: option.case)
  moreover have "gasUsed ?st = used" unfolding gasUsed_def used by (simp add: g gb(4))
  moreover have "used \<le> ig" unfolding used by (rule word_sub_le [OF refund_le])
  moreover have "used \<le> gl" using gb(1) unfolding used .
  ultimately show ?thesis
    using AddBalance_effect [OF ok, of "m_from msg" "uint (gl - ig + ?r) * m_gasPrice msg"] unfolding gb(2) used [symmetric]
    by (intro exI [of _ ?st]) (simp add: gb(2) used [symmetric])
qed

lemma transition_ok:
  assumes ok: "state_ok env tok s"
  shows "\<exists>r st'. TransitionDb env coinbase msg (NewStateTransition gp s) = Some (r, st') \<and> state_ok env tok (st_state st')
    \<and> (\<forall>used failed. r = Inr (used, failed) \<longrightarrow> \<not> failed \<and> transition_spec env coinbase msg gp s used st')
    \<and> (\<forall>e. r = Inl e \<longrightarrow> \<not> can_apply env msg gp s)"
proof -
  let ?st = "NewStateTransition gp s" and ?gl = "m_gasLimit msg" and ?from = "m_from msg" and ?P = "m_gasPrice msg"
  have ok0: "state_ok env tok (st_state ?st)" using ok by (simp add: NewStateTransition_def)
  obtain pr st1 where p: "preCheck env msg ?st = (pr, st1)" by fastforce
  have okp: "state_ok env tok (st_state st1)" using preCheck_state_ok [OF ok0 p] by simp
  show ?thesis
  proof (cases pr)
    case (Some e)
    then have "\<not> can_apply env msg gp s"
      using preCheck_state_ok [OF ok0 p] by (auto simp: can_apply_def NewStateTransition_def)
    then show ?thesis using p okp Some by (simp add: TransitionDb_def)
  next
    case None
    note pc = preCheck_ok [OF ok0 p [unfolded None]]
    show ?thesis
    proof (cases "IntrinsicGas (m_data msg) False")
      case (Inl e)
      then show ?thesis using p None okp by (simp add: TransitionDb_def can_apply_def)
    next
      case (Inr ig)
      show ?thesis
      proof (cases "st_gas st1 < ig")
        case True
        moreover have "st_gas st1 = ?gl" using pc by (simp add: NewStateTransition_def)
        ultimately show ?thesis using p None okp Inr by (auto simp: TransitionDb_def useGas_def can_apply_def)
      next
        case False
        then have ig: "ig \<le> ?gl" "st_gas st1 = ?gl" using pc by (simp_all add: NewStateTransition_def)
        have gp: "st_gp st1 = gp - ?gl" "?gl \<le> gp" "st_initialGas st1 = ?gl" using pc by (simp_all add: NewStateTransition_def)
        have mg: "uint ?gl * ?P \<le> bal (view env s) ?from" and nn: "m_checkNonce msg \<longrightarrow> m_nonce msg = nonceOf (view env s) ?from"
          using pc by (simp_all add: NewStateTransition_def)
        define f1 where "f1 = (bal (view env s))(?from := bal (view env s) ?from - uint ?gl * ?P)"
        define n0 where "n0 = nonceOf (view env s)"
        have e1: "effect env tok s (st_state st1) f1 n0" using pc by (simp add: NewStateTransition_def f1_def n0_def)
        let ?s3 = "snd (getStateObject env ?from (st_state st1))"
        have gn: "GetNonce env ?from (st_state st1) = (n0 ?from, ?s3)"
          using reader_effect(4,7) [OF okp, of ?from] e1 by (intro prod_eqI) (simp_all add: effect_def)
        have e3: "effect env tok s ?s3 f1 n0" using reader_effect(1) [OF okp, of ?from] e1 by (simp add: effect_def)
        then have ok3: "state_ok env tok ?s3" by (simp add: effect_def)
        let ?s4 = "SetNonce env ?from (n0 ?from + 1) ?s3"
        have e4: "effect env tok s ?s4 f1 (n0(?from := n0 ?from + 1))"
          using SetNonce_effect [OF ok3, of ?from "n0 ?from + 1"] e3 by (simp add: effect_def)
        then have ok4: "state_ok env tok ?s4" by (simp add: effect_def)
        obtain left err s5 where c: "evm_Call env 0 ?from (st_to msg) (?gl - ig) (m_amount msg) ?s4 = ((left, err), s5)"
          by (metis prod.collapse)
        note co = call_ok [OF ok4 c]
        let ?st3 = "st1\<lparr>st_gas := ?gl - ig, st_state := s5\<rparr>"
        have run: "TransitionDb env coinbase msg ?st =
            (if err = Some ErrInsufficientBalance then Some (Inl ErrInsufficientBalance, ?st3)
             else case refundGas env msg ?st3 of None \<Rightarrow> None
               | Some st4 \<Rightarrow> Some (Inr (gasUsed st4, err \<noteq> None),
                   st4\<lparr>st_state := AddBalance env coinbase (uint (gasUsed st4) * ?P) (st_state st4)\<rparr>))"
          using p None Inr False ig gn c co by (simp add: TransitionDb_def useGas_def gasUsed_def cong: option.case_cong)
        show ?thesis
        proof (cases err)
          case (Some e)
          then have "f1 ?from < m_amount msg" using co e4 by (simp add: effect_def)
          then have "\<not> can_apply env msg gp s" by (simp add: can_apply_def f1_def)
          then show ?thesis using run co Some by simp
        next
          case N: None
          define f5 where "f5 = (\<lambda>a. f1 a - (if a = ?from then m_amount msg else 0) + (if a = st_to msg then m_amount msg else 0))"
          have e5: "effect env tok s s5 f5 (n0(?from := n0 ?from + 1))" and amt: "m_amount msg \<le> f1 ?from"
            using co N e4 by (simp_all add: effect_def f5_def)
          define used where "used = gas_used ig (sdb_refund s)"
          have "sdb_refund s5 = sdb_refund s" using e5 by (simp add: effect_def)
          then obtain st4 where st4: "refundGas env msg ?st3 = Some st4" "st_gp st4 = gp - used" "gasUsed st4 = used" "used \<le> ?gl" "used \<le> ig"
            "effect env tok s (st_state st4) (f5(?from := f5 ?from + (uint ?gl - uint used) * ?P)) (n0(?from := n0 ?from + 1))"
            using refundGas_ok [of ?st3 ?gl ig gp msg] e5 ig gp by (auto simp: effect_def used_def)
          then have ok6: "state_ok env tok (st_state st4)" by (simp add: effect_def)
          define st' where "st' = st4\<lparr>st_state := AddBalance env coinbase (uint used * ?P) (st_state st4)\<rparr>"
          let ?f6 = "f5(?from := f5 ?from + (uint ?gl - uint used) * ?P)"
          have e7: "effect env tok s (st_state st') (?f6(coinbase := ?f6 coinbase + uint used * ?P)) (n0(?from := n0 ?from + 1))"
            using AddBalance_effect [OF ok6, of coinbase "uint used * ?P"] st4(6) by (simp add: effect_def st'_def)
          have r: "TransitionDb env coinbase msg ?st = Some (Inr (used, False), st')" using run N st4(1,3) by (simp add: st'_def)
          have "?f6(coinbase := ?f6 coinbase + uint used * ?P) = (\<lambda>a. bal (view env s) a
              - (if a = ?from then uint used * ?P + m_amount msg else 0)
              + (if a = st_to msg then m_amount msg else 0) + (if a = coinbase then uint used * ?P else 0))"
            by (auto simp: fun_eq_iff f5_def f1_def algebra_simps)
          then have "transition_spec env coinbase msg gp s used st'"
            using e7 Inr ig gp st4(2,5) nn amt unfolding transition_spec_def
            by (intro conjI exI [of _ ig]) (simp_all add: effect_def n0_def used_def f1_def st'_def)
          moreover have "state_ok env tok (st_state st')" using e7 by (simp add: effect_def)
          ultimately show ?thesis using r by auto
        qed
      qed
    qed
  qed
qed

lemma transition_succeeds:
  assumes "state_ok env tok s" "can_apply env msg gp s"
  obtains used st' where "TransitionDb env coinbase msg (NewStateTransition gp s) = Some (Inr (used, False), st')"
    "transition_spec env coinbase msg gp s used st'"
proof -
  obtain r st' where t: "TransitionDb env coinbase msg (NewStateTransition gp s) = Some (r, st')"
    and s: "\<forall>used failed. r = Inr (used, failed) \<longrightarrow> \<not> failed \<and> transition_spec env coinbase msg gp s used st'"
    and e: "\<forall>e. r = Inl e \<longrightarrow> \<not> can_apply env msg gp s"
    using transition_ok [OF assms(1), of coinbase msg gp] by (elim exE conjE)
  show thesis
  proof (cases r)
    case (Inl e)
    then show thesis using e assms(2) by simp
  next
    case (Inr p)
    obtain used failed where "p = (used, failed)" by fastforce
    then show thesis using that t s Inr by simp
  qed
qed

end

section \<open>The claims\<close>

text \<open>C38: A transition that succeeds moves the value to the recipient and the fee, the gas used at its price, to the
  coinbase, counts the nonce of the sender up by one, and changes no other balance and no other nonce; it succeeds
  whenever the nonce is right, the pool and the gas limit cover the gas, and the sender can pay both gas and value.\<close>

theorem transition_moves_value:
  fixes libs :: "secureTrie senv"
  assumes "nodes_ok db" "state_ok (secure_env db rh libs) (sec_ok db) s" "can_apply (secure_env db rh libs) msg gp s"
  shows "\<exists>used st'. TransitionDb (secure_env db rh libs) coinbase msg (NewStateTransition gp s) = Some (Inr (used, False), st')
    \<and> bal (view (secure_env db rh libs) (st_state st')) = (\<lambda>a. bal (view (secure_env db rh libs) s) a
          - (if a = m_from msg then uint used * m_gasPrice msg + m_amount msg else 0)
          + (if a = st_to msg then m_amount msg else 0) + (if a = coinbase then uint used * m_gasPrice msg else 0))
    \<and> nonceOf (view (secure_env db rh libs) (st_state st')) =
        (nonceOf (view (secure_env db rh libs) s))(m_from msg := nonceOf (view (secure_env db rh libs) s) (m_from msg) + 1)"
proof -
  let ?env = "secure_env db rh libs"
  obtain used st' where t: "TransitionDb ?env coinbase msg (NewStateTransition gp s) = Some (Inr (used, False), st')"
    and sp: "transition_spec ?env coinbase msg gp s used st'"
    by (rule trie_laws.transition_succeeds [OF secure_laws [OF assms(1)] assms(2,3)])
  show ?thesis
    by (intro exI [of _ used] exI [of _ st'] conjI t) (use sp in \<open>simp_all only: transition_spec_def\<close>)
qed

text \<open>C39: Gas is accounted for: a transition never panics, whatever the pool; when it succeeds, the gas used is the
  intrinsic gas less the refund, at most half of it, it lies within the gas limit, and the pool loses exactly the gas
  used.\<close>

theorem transition_gas_bounds:
  fixes libs :: "secureTrie senv"
  assumes "nodes_ok db" "state_ok (secure_env db rh libs) (sec_ok db) s"
  shows "\<exists>r st'. TransitionDb (secure_env db rh libs) coinbase msg (NewStateTransition gp s) = Some (r, st')
    \<and> (\<forall>used failed. r = Inr (used, failed) \<longrightarrow>
        (\<exists>ig. IntrinsicGas (m_data msg) False = Inr ig \<and> used = ig - min (ig div 2) (sdb_refund s) \<and> used \<le> ig
           \<and> ig \<le> m_gasLimit msg \<and> m_gasLimit msg \<le> gp \<and> st_gp st' = gp - used))"
proof -
  have g: "gas_used ig rf = ig - min (ig div 2) rf" for ig rf
    by (cases "rf < ig div 2") (auto simp: gas_used_def min_def not_less [symmetric])
  obtain r st' where t: "TransitionDb (secure_env db rh libs) coinbase msg (NewStateTransition gp s) = Some (r, st')"
    and sp: "\<forall>used failed. r = Inr (used, failed) \<longrightarrow> \<not> failed \<and> transition_spec (secure_env db rh libs) coinbase msg gp s used st'"
    using trie_laws.transition_ok [OF secure_laws [OF assms(1)] assms(2), where coinbase = coinbase and msg = msg and gp = gp]
    by (elim exE conjE)
  show ?thesis
  proof (intro exI [of _ r] exI [of _ st'] conjI t allI impI)
    fix used failed
    assume "r = Inr (used, failed)"
    then have "transition_spec (secure_env db rh libs) coinbase msg gp s used st'" using sp by simp
    then show "\<exists>ig. IntrinsicGas (m_data msg) False = Inr ig \<and> used = ig - min (ig div 2) (sdb_refund s) \<and> used \<le> ig
           \<and> ig \<le> m_gasLimit msg \<and> m_gasLimit msg \<le> gp \<and> st_gp st' = gp - used"
      unfolding transition_spec_def g by blast
  qed
qed

section \<open>An example\<close>

definition toy_msg :: message where
  "toy_msg = NewMessage 1 (Some 2) 0 5 30000 1 [] True"

definition toy_rich :: "secureTrie stateDB" where
  "toy_rich = AddBalance toy_state_env 1 100000 toy_state"

lemma toy_rich_ok: "effect toy_state_env (sec_ok (\<lambda>_. None)) toy_state toy_rich
    ((bal (view toy_state_env toy_state))(1 := bal (view toy_state_env toy_state) 1 + 100000)) (nonceOf (view toy_state_env toy_state))"
  unfolding toy_rich_def toy_state_env_def
  by (rule empty_db.AddBalance_effect) (rule toy_state_ok [unfolded toy_state_env_def])

lemma toy_view: "bal (view toy_state_env toy_state) a = 0" "nonceOf (view toy_state_env toy_state) a = 0"
proof -
  have "lookup_object toy_state_env toy_state a = None"
    by (simp add: lookup_object_def toy_state_def fresh_stateDB_def load_object_def toy_state_env_def toy_libs_def)
  then show "bal (view toy_state_env toy_state) a = 0" "nonceOf (view toy_state_env toy_state) a = 0"
    by (simp_all add: bal_lookup)
qed

lemma toy_can_apply: "can_apply toy_state_env toy_msg 50000 toy_rich"
  using toy_rich_ok toy_view by (simp add: effect_def can_apply_def toy_msg_def NewMessage_def IntrinsicGas_def TxGas_def)

theorem transition_moves_value_witness:
  "\<exists>used st'. TransitionDb toy_state_env 3 toy_msg (NewStateTransition 50000 toy_rich) = Some (Inr (used, False), st')
    \<and> bal (view toy_state_env (st_state st')) 2 = 5"
proof -
  have ok: "state_ok toy_state_env (sec_ok (\<lambda>_. None)) toy_rich" using toy_rich_ok by (simp add: effect_def)
  have b: "bal (view toy_state_env toy_rich) 2 = 0" using toy_rich_ok toy_view by (simp add: effect_def)
  show ?thesis
    using transition_moves_value [where db = "\<lambda>_. None" and rh = "\<lambda>_. 0" and libs = toy_libs and s = toy_rich and msg = toy_msg
      and gp = 50000 and coinbase = 3, folded toy_state_env_def,
      OF nodes_ok_empty ok toy_can_apply] b
    by (auto simp: toy_msg_def NewMessage_def st_to_def)
qed

theorem transition_gas_bounds_witness:
  "\<exists>r st'. TransitionDb toy_state_env 3 toy_msg (NewStateTransition 50000 toy_rich) = Some (r, st')"
  using transition_gas_bounds [where db = "\<lambda>_. None" and rh = "\<lambda>_. 0" and libs = toy_libs and s = toy_rich and msg = toy_msg
      and gp = 50000 and coinbase = 3, folded toy_state_env_def,
      OF nodes_ok_empty] toy_rich_ok by (auto simp: effect_def)

end
