(* ===== verification/Prque.thy ===== *)
theory Prque
  imports Go_Heap
begin

text \<open>
  The priority queue of \<open>common/prque\<close>: the standard heap over a stack of items, greatest priority first. The stack
  keeps its items in blocks of a fixed size; here it is the list of the items. Priorities are \<open>int64\<close> and compared by
  the sign of their difference.
\<close>

record 'a pq_item =
  pq_value :: 'a
  pq_priority :: "64 word"

definition sstack_Less :: "'a pq_item \<Rightarrow> 'a pq_item \<Rightarrow> bool" where
  "sstack_Less a b \<longleftrightarrow> sint (pq_priority a - pq_priority b) > 0"

type_synonym 'a prque = "'a pq_item list"

definition pq_Push :: "'a \<Rightarrow> 64 word \<Rightarrow> 'a prque \<Rightarrow> 'a prque" where
  "pq_Push v pr q = heap_push sstack_Less q \<lparr>pq_value = v, pq_priority = pr\<rparr>"

definition pq_Pop :: "'a prque \<Rightarrow> (('a \<times> 64 word) \<times> 'a prque) option" where
  "pq_Pop q = map_option (\<lambda>(it, q'). ((pq_value it, pq_priority it), q')) (heap_pop sstack_Less q)"

definition pq_Empty :: "'a prque \<Rightarrow> bool" where
  "pq_Empty q \<longleftrightarrow> length q = 0"

definition pq_Size :: "'a prque \<Rightarrow> nat" where
  "pq_Size q = length q"

definition pq_PopItem :: "'a prque \<Rightarrow> ('a \<times> 'a prque) option" where
  "pq_PopItem q = map_option (\<lambda>((v, _), q'). (v, q')) (pq_Pop q)"

text \<open>\<open>Remove\<close> returns the item as it is on the stack, with its priority, or nil below index 0.\<close>

definition pq_Remove :: "int \<Rightarrow> 'a prque \<Rightarrow> ('a pq_item option \<times> 'a prque) option" where
  "pq_Remove i q =
     (if i < 0 then Some (None, q) else map_option (\<lambda>(it, q'). (Some it, q')) (heap_remove sstack_Less q (nat i)))"

definition pq_New :: "'a prque" where
  "pq_New = []"

definition pq_Reset :: "'a prque \<Rightarrow> 'a prque" where
  "pq_Reset q = pq_New"

end
