(* ===== verification/Managed_State.thy ===== *)
theory Managed_State
  imports State_Ops
begin

text \<open>
  The managed state of the transaction pool: \<open>core/state/managed_state.go\<close>, a copy of the state database with virtual
  nonces on top. The pointer that an account keeps to its state object is never read and left out.
\<close>

record m_account =
  nstart :: u64
  m_nonces :: "bool list"

record 't managedState =
  ms_db :: "'t stateDB"
  ms_accounts :: "(address, m_account) gomap"

definition newAccount :: "'t stateObject \<Rightarrow> m_account" where
  "newAccount so = \<lparr>nstart = a_Nonce (so_data so), m_nonces = []\<rparr>"

definition ManageState :: "'t senv \<Rightarrow> (address list \<Rightarrow> address list) \<Rightarrow> 't stateDB \<Rightarrow> 't managedState option" where
  "ManageState env rng s = map_option (\<lambda>c. \<lparr>ms_db = c, ms_accounts = []\<rparr>) (state_Copy env rng s)"

definition ms_SetState :: "'t stateDB \<Rightarrow> 't managedState \<Rightarrow> 't managedState" where
  "ms_SetState s ms = ms\<lparr>ms_db := s\<rparr>"

definition hasAccount :: "address \<Rightarrow> 't managedState \<Rightarrow> bool" where
  "hasAccount addr ms \<longleftrightarrow> gm_get (ms_accounts ms) addr \<noteq> None"

definition next_nonce :: "m_account \<Rightarrow> u64" where
  "next_nonce acc = of_nat (length (m_nonces acc)) + nstart acc"

definition getAccount :: "'t senv \<Rightarrow> address \<Rightarrow> 't managedState \<Rightarrow> m_account \<times> 't managedState" where
  "getAccount env addr ms =
     (case gm_get (ms_accounts ms) addr of
        None \<Rightarrow>
          let (so, s1) = GetOrNewStateObject env addr (ms_db ms); acc = newAccount so
          in (acc, ms\<lparr>ms_db := s1, ms_accounts := gm_put (ms_accounts ms) addr acc\<rparr>)
      | Some acc \<Rightarrow>
          (case getStateObject env addr (ms_db ms) of
             (Some so, s1) \<Rightarrow>
               if next_nonce acc < a_Nonce (so_data so)
               then (newAccount so, ms\<lparr>ms_db := s1, ms_accounts := gm_put (ms_accounts ms) addr (newAccount so)\<rparr>)
               else (acc, ms\<lparr>ms_db := s1\<rparr>)
           | (None, s1) \<Rightarrow> (acc, ms\<lparr>ms_db := s1\<rparr>)))"

definition RemoveNonce :: "'t senv \<Rightarrow> address \<Rightarrow> u64 \<Rightarrow> 't managedState \<Rightarrow> 't managedState" where
  "RemoveNonce env addr n ms =
     (if hasAccount addr ms then
        let (acc, ms1) = getAccount env addr ms in
        if n - nstart acc \<le> of_nat (length (m_nonces acc))
        then ms1\<lparr>ms_accounts := gm_put (ms_accounts ms1) addr (acc\<lparr>m_nonces := take (unat (n - nstart acc)) (m_nonces acc)\<rparr>)\<rparr>
        else ms1
      else ms)"

fun free_nonce :: "u64 \<Rightarrow> bool list \<Rightarrow> u64 option" where
  "free_nonce n [] = None"
| "free_nonce n (used # us) = (if \<not> used then Some n else free_nonce (n + 1) us)"

definition NewNonce :: "'t senv \<Rightarrow> address \<Rightarrow> 't managedState \<Rightarrow> u64 \<times> 't managedState" where
  "NewNonce env addr ms =
     (let (acc, ms1) = getAccount env addr ms in
      case free_nonce (nstart acc) (m_nonces acc) of
        Some n \<Rightarrow> (n, ms1)
      | None \<Rightarrow>
          let acc1 = acc\<lparr>m_nonces := m_nonces acc @ [True]\<rparr>
          in (of_nat (length (m_nonces acc1)) - 1 + nstart acc1, ms1\<lparr>ms_accounts := gm_put (ms_accounts ms1) addr acc1\<rparr>))"

definition ms_GetNonce :: "'t senv \<Rightarrow> address \<Rightarrow> 't managedState \<Rightarrow> u64 \<times> 't managedState" where
  "ms_GetNonce env addr ms =
     (if hasAccount addr ms then
        let (acc, ms1) = getAccount env addr ms in (next_nonce acc, ms1)
      else let (n, s1) = GetNonce env addr (ms_db ms) in (n, ms\<lparr>ms_db := s1\<rparr>))"

definition ms_SetNonce :: "'t senv \<Rightarrow> address \<Rightarrow> u64 \<Rightarrow> 't managedState \<Rightarrow> 't managedState" where
  "ms_SetNonce env addr nonce ms =
     (let (so, s1) = GetOrNewStateObject env addr (ms_db ms) in
      ms\<lparr>ms_db := so_SetNonce nonce so s1, ms_accounts := gm_put (ms_accounts ms) addr (newAccount (so_setNonce nonce so))\<rparr>)"

end
