(* ===== verification/Tx_Pool.thy ===== *)
theory Tx_Pool
  imports Tx_List Tx_Priced Blocks Prque Managed_State State_Transition "HOL-Library.Monad_Syntax" Complex_Main
begin

text \<open>
  The transaction pool: \<open>core/tx_pool.go\<close>.

  An operation takes the pool and returns the new one; \<^const>\<open>None\<close> is a panic (a nil pointer, an index out of range) or
  a loop that does not end. The lists of an account live in the maps \<open>pending\<close> and \<open>queue\<close>, so a method that changes a
  list puts it back. Reading an account loads it into the current state, which is passed on.

  What is outside of the code is in the record \<open>pool_env\<close>: the state libraries, the sender, hash and size of a
  transaction, the header hash, the blocks of the chain, and the order in which Go ranges over each kind of map. The events
  the pool sends to its subscribers are collected in \<open>pool_events\<close>. Log and metrics are left out.
\<close>

section \<open>Configuration\<close>

record poolConfig =
  Locals :: "address list"
  NoLocals :: bool
  Rejournal :: int
  PriceLimit :: u64
  PriceBump :: u64
  AccountSlots :: u64
  GlobalSlots :: u64
  AccountQueue :: u64
  GlobalQueue :: u64
  Lifetime :: int

definition time_Second :: int where "time_Second = 10 ^ 9"

definition DefaultTxPoolConfig :: poolConfig where
  "DefaultTxPoolConfig =
     \<lparr>Locals = [], NoLocals = False, Rejournal = 3600 * time_Second, PriceLimit = 1, PriceBump = 10, AccountSlots = 16,
      GlobalSlots = 4096, AccountQueue = 64, GlobalQueue = 1024, Lifetime = 3 * 3600 * time_Second\<rparr>"

definition sanitize :: "poolConfig \<Rightarrow> poolConfig" where
  "sanitize conf =
     (let c1 = (if Rejournal conf < time_Second then conf\<lparr>Rejournal := time_Second\<rparr> else conf);
          c2 = (if PriceLimit c1 < 1 then c1\<lparr>PriceLimit := PriceLimit DefaultTxPoolConfig\<rparr> else c1);
          c3 = (if PriceBump c2 < 1 then c2\<lparr>PriceBump := PriceBump DefaultTxPoolConfig\<rparr> else c2);
          c4 = (if AccountSlots c3 < 1 then c3\<lparr>AccountSlots := AccountSlots DefaultTxPoolConfig\<rparr> else c3);
          c5 = (if GlobalSlots c4 < 1 then c4\<lparr>GlobalSlots := GlobalSlots DefaultTxPoolConfig\<rparr> else c4);
          c6 = (if AccountQueue c5 < 1 then c5\<lparr>AccountQueue := AccountQueue DefaultTxPoolConfig\<rparr> else c5);
          c7 = (if GlobalQueue c6 < 1 then c6\<lparr>GlobalQueue := GlobalQueue DefaultTxPoolConfig\<rparr> else c6)
      in (if Lifetime c7 < 1 then c7\<lparr>Lifetime := Lifetime DefaultTxPoolConfig\<rparr> else c7))"

section \<open>The state of the pool\<close>

record 't pool_env =
  pe_state :: "'t senv"
  pe_crypto :: crypto
  pe_sender :: "transaction \<Rightarrow> address option"
  pe_txhash :: "transaction \<Rightarrow> hash"
  pe_size :: "transaction \<Rightarrow> int"
  pe_GetBlock :: "hash \<Rightarrow> u64 \<Rightarrow> block option"
  rngA :: "address list \<Rightarrow> address list"
  rngN :: "u64 list \<Rightarrow> u64 list"
  rngH :: "hash list \<Rightarrow> hash list"

record 't txPool =
  pconfig :: poolConfig
  gasPrice :: bigint
  currentState :: "'t stateDB"
  pendingState :: "'t managedState"
  currentMaxGas :: u64
  locals :: accountSet
  pending :: "(address, txList) gomap"
  queue :: "(address, txList) gomap"
  beats :: "(address, real) gomap"
  pool_all :: txLookup
  priced :: txPricedList
  pool_head :: block
  pool_events :: "transaction list list"

abbreviation senderOf :: "'t pool_env \<Rightarrow> transaction \<Rightarrow> address" where
  "senderOf E tx \<equiv> sender_or_zero (pe_sender E) tx"

definition feedNewTxEvent :: "transaction list \<Rightarrow> 't txPool \<Rightarrow> 't txPool" where
  "feedNewTxEvent ts p = p\<lparr>pool_events := pool_events p @ [ts]\<rparr>"

text \<open>Reading an account in the current and in the pending state.\<close>

definition cur_nonce :: "'t pool_env \<Rightarrow> address \<Rightarrow> 't txPool \<Rightarrow> u64 \<times> 't txPool" where
  "cur_nonce E a p = (let (n, s) = GetNonce (pe_state E) a (currentState p) in (n, p\<lparr>currentState := s\<rparr>))"

definition cur_balance :: "'t pool_env \<Rightarrow> address \<Rightarrow> 't txPool \<Rightarrow> bigint \<times> 't txPool" where
  "cur_balance E a p = (let (b, s) = GetBalance (pe_state E) a (currentState p) in (b, p\<lparr>currentState := s\<rparr>))"

definition pend_nonce :: "'t pool_env \<Rightarrow> address \<Rightarrow> 't txPool \<Rightarrow> u64 \<times> 't txPool" where
  "pend_nonce E a p = (let (n, ms) = ms_GetNonce (pe_state E) a (pendingState p) in (n, p\<lparr>pendingState := ms\<rparr>))"

definition set_pend_nonce :: "'t pool_env \<Rightarrow> address \<Rightarrow> u64 \<Rightarrow> 't txPool \<Rightarrow> 't txPool" where
  "set_pend_nonce E a n p = p\<lparr>pendingState := ms_SetNonce (pe_state E) a n (pendingState p)\<rparr>"

definition lower_nonce :: "'t pool_env \<Rightarrow> address \<Rightarrow> u64 \<Rightarrow> 't txPool \<Rightarrow> 't txPool" where
  "lower_nonce E a nonce p = (let (n, p1) = pend_nonce E a p in if n > nonce then set_pend_nonce E a nonce p1 else p1)"

text \<open>\<open>all.Remove(hash); priced.Removed()\<close> and \<open>all.Add(tx); priced.Put(tx)\<close>.\<close>

definition price_removed :: "'t pool_env \<Rightarrow> 't txPool \<Rightarrow> 't txPool" where
  "price_removed E p = p\<lparr>priced := pl_Removed (rngH E) (pool_all p) (priced p)\<rparr>"

definition forget :: "'t pool_env \<Rightarrow> hash \<Rightarrow> 't txPool \<Rightarrow> 't txPool" where
  "forget E h p = price_removed E (p\<lparr>pool_all := lookup_Remove (pool_all p) h\<rparr>)"

definition track :: "'t pool_env \<Rightarrow> transaction \<Rightarrow> 't txPool \<Rightarrow> 't txPool" where
  "track E tx p = p\<lparr>pool_all := lookup_Add (pe_txhash E) (pool_all p) tx, priced := pl_Put (priced p) tx\<rparr>"

definition forget_all :: "'t pool_env \<Rightarrow> transaction list \<Rightarrow> 't txPool \<Rightarrow> 't txPool" where
  "forget_all E ts p = fold (\<lambda>tx. forget E (pe_txhash E tx)) ts p"

text \<open>A list of transaction pointers that the code dereferences one by one.\<close>

definition deref_all :: "txptr list \<Rightarrow> transaction list option" where
  "deref_all ts = (if None \<in> set ts then None else Some (map the ts))"

section \<open>Queueing, promoting and removing a transaction\<close>

definition enqueueTx :: "'t pool_env \<Rightarrow> hash \<Rightarrow> transaction \<Rightarrow> 't txPool \<Rightarrow> (core_error + bool) \<times> 't txPool" where
  "enqueueTx E h tx p =
     (let from = senderOf E tx;
          l = (case gm_get (queue p) from of None \<Rightarrow> newTxList False | Some l \<Rightarrow> l);
          ((inserted, old), l') = tl_Add l tx (PriceBump (pconfig p));
          p1 = p\<lparr>queue := gm_put (queue p) from l'\<rparr>
      in if \<not> inserted then (Inl ErrReplaceUnderpriced, p1)
         else
           let p2 = (case old of None \<Rightarrow> p1 | Some o' \<Rightarrow> forget E (pe_txhash E o') p1);
               p3 = (if gm_get (pool_all p2) h = None then track E tx p2 else p2)
           in (Inr (old \<noteq> None), p3))"

definition enqueue_all :: "'t pool_env \<Rightarrow> transaction list \<Rightarrow> 't txPool \<Rightarrow> 't txPool" where
  "enqueue_all E ts p = fold (\<lambda>tx p. snd (enqueueTx E (pe_txhash E tx) tx p)) ts p"

definition promoteTx :: "'t pool_env \<Rightarrow> real \<Rightarrow> address \<Rightarrow> hash \<Rightarrow> transaction \<Rightarrow> 't txPool \<Rightarrow> bool \<times> 't txPool" where
  "promoteTx E now addr h tx p =
     (let l = (case gm_get (pending p) addr of None \<Rightarrow> newTxList True | Some l \<Rightarrow> l);
          ((inserted, old), l') = tl_Add l tx (PriceBump (pconfig p));
          p1 = p\<lparr>pending := gm_put (pending p) addr l'\<rparr>
      in if \<not> inserted then (False, forget E h p1)
         else
           let p2 = (case old of None \<Rightarrow> p1 | Some o' \<Rightarrow> forget E (pe_txhash E o') p1);
               p3 = (if gm_get (pool_all p2) h = None then track E tx p2 else p2)
           in (True, set_pend_nonce E addr (AccountNonce tx + 1) (p3\<lparr>beats := gm_put (beats p3) addr now\<rparr>)))"

definition remove_queued :: "'t pool_env \<Rightarrow> address \<Rightarrow> transaction \<Rightarrow> 't txPool \<Rightarrow> 't txPool" where
  "remove_queued E addr tx p =
     (case gm_get (queue p) addr of
        None \<Rightarrow> p
      | Some l \<Rightarrow>
          let (_, l') = tl_Remove (rngN E) l tx in
          if tl_Empty l' then p\<lparr>queue := gm_del (queue p) addr\<rparr> else p\<lparr>queue := gm_put (queue p) addr l'\<rparr>)"

definition removeTx :: "'t pool_env \<Rightarrow> hash \<Rightarrow> bool \<Rightarrow> 't txPool \<Rightarrow> 't txPool" where
  "removeTx E h outofbound p =
     (case gm_get (pool_all p) h of
        None \<Rightarrow> p
      | Some tx \<Rightarrow>
          let addr = senderOf E tx;
              p1 = p\<lparr>pool_all := lookup_Remove (pool_all p) h\<rparr>;
              p2 = (if outofbound then price_removed E p1 else p1)
          in (case gm_get (pending p2) addr of
                None \<Rightarrow> remove_queued E addr tx p2
              | Some l \<Rightarrow>
                  let ((removed, invalids), l') = tl_Remove (rngN E) l tx in
                  if \<not> removed then remove_queued E addr tx (p2\<lparr>pending := gm_put (pending p2) addr l'\<rparr>)
                  else
                    let p3 = (if tl_Empty l' then p2\<lparr>pending := gm_del (pending p2) addr, beats := gm_del (beats p2) addr\<rparr>
                              else p2\<lparr>pending := gm_put (pending p2) addr l'\<rparr>)
                    in lower_nonce E addr (AccountNonce tx) (enqueue_all E invalids p3)))"

definition remove_all :: "'t pool_env \<Rightarrow> bool \<Rightarrow> transaction list \<Rightarrow> 't txPool \<Rightarrow> 't txPool" where
  "remove_all E outofbound ts p = fold (\<lambda>tx. removeTx E (pe_txhash E tx) outofbound) ts p"

section \<open>Validation and insertion\<close>

definition validateTx :: "'t pool_env \<Rightarrow> transaction \<Rightarrow> bool \<Rightarrow> 't txPool \<Rightarrow> core_error option \<times> 't txPool" where
  "validateTx E tx isLocal p =
     (if pe_size E tx > 32 * 1024 then (Some ErrOversizedData, p)
      else if Amount tx < 0 then (Some ErrNegativeValue, p)
      else if currentMaxGas p < transaction.GasLimit tx then (Some ErrGasLimit, p)
      else case pe_sender E tx of
        None \<Rightarrow> (Some ErrInvalidSender, p)
      | Some from \<Rightarrow>
          if \<not> (isLocal \<or> as_contains (locals p) from) \<and> gasPrice p > Price tx then (Some ErrUnderpriced, p)
          else
            let (nonce, p1) = cur_nonce E from p in
            if nonce > AccountNonce tx then (Some ErrNonceTooLow, p1)
            else
              let (balance, p2) = cur_balance E from p1 in
              if balance < Cost tx then (Some ErrInsufficientFunds, p2)
              else case IntrinsicGas (Payload tx) (Recipient tx = None) of
                Inl e \<Rightarrow> (Some e, p2)
              | Inr intrGas \<Rightarrow> if transaction.GasLimit tx < intrGas then (Some ErrIntrinsicGas, p2) else (None, p2))"

text \<open>Making room in a full pool: the cheapest transactions go, or the new one is refused.\<close>

definition make_room :: "'t pool_env \<Rightarrow> transaction \<Rightarrow> bool \<Rightarrow> 't txPool \<Rightarrow> (core_error option \<times> 't txPool) option" where
  "make_room E tx isLocal p =
     (let cfg = pconfig p; count = length (pool_all p) in
      if (of_nat count :: u64) \<ge> GlobalSlots cfg + GlobalQueue cfg then
        let (under, pl) = (if isLocal then (False, priced p)
              else Underpriced (pe_txhash E) (pe_sender E) (pool_all p) (locals p) tx (priced p));
            p1 = p\<lparr>priced := pl\<rparr>
        in if under then Some (Some ErrUnderpriced, p1)
           else do {
             (drops, pl') \<leftarrow> Discard (pe_txhash E) (pe_sender E) (pool_all p1) (locals p1)
               (sint (of_nat count - (GlobalSlots cfg + GlobalQueue cfg - 1))) (priced p1);
             Some (None, remove_all E False drops (p1\<lparr>priced := pl'\<rparr>))
           }
      else Some (None, p))"

text \<open>The second half of \<open>add\<close>: into the queue.\<close>

definition add_future :: "'t pool_env \<Rightarrow> transaction \<Rightarrow> bool \<Rightarrow> 't txPool \<Rightarrow> (core_error + bool) \<times> 't txPool" where
  "add_future E tx isLocal p =
     (case enqueueTx E (pe_txhash E tx) tx p of
        (Inl e, p1) \<Rightarrow> (Inl e, p1)
      | (Inr replace, p1) \<Rightarrow>
          (Inr replace, if isLocal \<and> \<not> as_contains (locals p1) (senderOf E tx)
                        then p1\<lparr>locals := as_add (locals p1) (senderOf E tx)\<rparr> else p1))"

definition pool_add :: "'t pool_env \<Rightarrow> transaction \<Rightarrow> bool \<Rightarrow> 't txPool \<Rightarrow> ((core_error + bool) \<times> 't txPool) option" where
  "pool_add E tx isLocal p =
     (let h = pe_txhash E tx in
      if gm_get (pool_all p) h \<noteq> None then Some (Inl ErrKnownTransaction, p)
      else case validateTx E tx isLocal p of
        (Some e, p1) \<Rightarrow> Some (Inl e, p1)
      | (None, p1) \<Rightarrow> do {
          (full, p2) \<leftarrow> make_room E tx isLocal p1;
          case full of
            Some e \<Rightarrow> Some (Inl e, p2)
          | None \<Rightarrow>
              let from = senderOf E tx in
              (case gm_get (pending p2) from of
                 Some l \<Rightarrow>
                   if Overlaps l tx then
                     let ((inserted, old), l') = tl_Add l tx (PriceBump (pconfig p2));
                         p3 = p2\<lparr>pending := gm_put (pending p2) from l'\<rparr>
                     in if \<not> inserted then Some (Inl ErrReplaceUnderpriced, p3)
                        else
                          let p4 = (case old of None \<Rightarrow> p3 | Some o' \<Rightarrow> forget E (pe_txhash E o') p3)
                          in Some (Inr (old \<noteq> None), feedNewTxEvent [tx] (track E tx p4))
                   else Some (add_future E tx isLocal p2)
               | None \<Rightarrow> Some (add_future E tx isLocal p2))
        })"

section \<open>Promotion\<close>

text \<open>One account of \<open>promoteExecutables\<close>: drop what is too old or too expensive, promote what is ready, cap the rest. The
  result lists the promoted transactions.\<close>

fun promote_ready :: "'t pool_env \<Rightarrow> real \<Rightarrow> address \<Rightarrow> transaction list \<Rightarrow> 't txPool \<Rightarrow> transaction list \<times> 't txPool" where
  "promote_ready E now addr [] p = ([], p)"
| "promote_ready E now addr (tx # ts) p =
     (let (ok, p1) = promoteTx E now addr (pe_txhash E tx) tx p; (promoted, p2) = promote_ready E now addr ts p1
      in (if ok then tx # promoted else promoted, p2))"

definition promote_account ::
  "'t pool_env \<Rightarrow> real \<Rightarrow> address \<Rightarrow> 't txPool \<Rightarrow> (transaction list \<times> 't txPool) option" where
  "promote_account E now addr p =
     (case gm_get (queue p) addr of
        None \<Rightarrow> Some ([], p)
      | Some l \<Rightarrow> do {
          let (nonce, p1) = cur_nonce E addr p;
          (olds, l1) \<leftarrow> tl_Forward l nonce;
          old \<leftarrow> deref_all olds;
          let p2 = forget_all E old (p1\<lparr>queue := gm_put (queue p1) addr l1\<rparr>);
          let (balance, p3) = cur_balance E addr p2;
          let ((drops, _), l2) = tl_Filter (rngN E) l1 balance (currentMaxGas p3);
          let p4 = forget_all E drops (p3\<lparr>queue := gm_put (queue p3) addr l2\<rparr>);
          let (pnonce, p5) = pend_nonce E addr p4;
          let (readys, l3) = tl_Ready l2 pnonce;
          ready \<leftarrow> deref_all readys;
          let (promoted, p6) = promote_ready E now addr ready (p5\<lparr>queue := gm_put (queue p5) addr l3\<rparr>);
          (l4, p7) \<leftarrow>
            (if as_contains (locals p6) addr then Some (l3, p6)
             else do {
               (caps, l4) \<leftarrow> tl_Cap_int l3 (sint (AccountQueue (pconfig p6)));
               cap \<leftarrow> deref_all caps;
               Some (l4, forget_all E cap (p6\<lparr>queue := gm_put (queue p6) addr l4\<rparr>))
             });
          Some (promoted, if tl_Empty l4 then p7\<lparr>queue := gm_del (queue p7) addr\<rparr> else p7)
        })"

fun promote_accounts ::
  "'t pool_env \<Rightarrow> real \<Rightarrow> address list \<Rightarrow> 't txPool \<Rightarrow> (transaction list \<times> 't txPool) option" where
  "promote_accounts E now [] p = Some ([], p)"
| "promote_accounts E now (a # as) p = do {
     (txs1, p1) \<leftarrow> promote_account E now a p;
     (txs2, p2) \<leftarrow> promote_accounts E now as p1;
     Some (txs1 @ txs2, p2)
   }"

section \<open>The limits of the pool\<close>

text \<open>The number of transactions in a map of lists, as a \<open>uint64\<close>.\<close>

definition list_total :: "(address, txList) gomap \<Rightarrow> u64" where
  "list_total m = foldl (\<lambda>n (_, l). n + of_nat (tl_Len l)) 0 m"

text \<open>The last transaction of an account is dropped: \<open>list.Cap(list.Len() - 1)\<close> and what follows.\<close>

definition drop_last :: "'t pool_env \<Rightarrow> address \<Rightarrow> 't txPool \<Rightarrow> 't txPool option" where
  "drop_last E a p = do {
     l \<leftarrow> gm_get (pending p) a;
     (caps, l') \<leftarrow> tl_Cap_int l (int (tl_Len l) - 1);
     cap \<leftarrow> deref_all caps;
     Some (fold (\<lambda>tx p. lower_nonce E a (AccountNonce tx) (forget E (pe_txhash E tx) p)) cap
             (p\<lparr>pending := gm_put (pending p) a l'\<rparr>))
   }"

fun drop_round :: "'t pool_env \<Rightarrow> address list \<Rightarrow> 't txPool \<Rightarrow> u64 \<Rightarrow> ('t txPool \<times> u64) option" where
  "drop_round E [] p n = Some (p, n)"
| "drop_round E (a # as) p n = do { p1 \<leftarrow> drop_last E a p; drop_round E as p1 (n - 1) }"

text \<open>Rounds over the offenders, while there are too many pending transactions and the list of the account \<open>ref\<close> is
  still longer than wanted.\<close>

partial_function (option) equalize ::
  "'t pool_env \<Rightarrow> (nat \<Rightarrow> bool) \<Rightarrow> address list \<Rightarrow> address \<Rightarrow> 't txPool \<Rightarrow> u64 \<Rightarrow> ('t txPool \<times> u64) option" where
  "equalize E longer offs ref p n =
     (if n > GlobalSlots (pconfig p) then do {
        l \<leftarrow> gm_get (pending p) ref;
        if longer (tl_Len l) then do { (p1, n1) \<leftarrow> drop_round E offs p n; equalize E longer offs ref p1 n1 }
        else Some (p, n)
      } else Some (p, n))"

partial_function (option) drop_offenders ::
  "'t pool_env \<Rightarrow> address prque \<Rightarrow> address list \<Rightarrow> 't txPool \<Rightarrow> u64 \<Rightarrow> (address list \<times> 't txPool \<times> u64) option" where
  "drop_offenders E spammers offs p n =
     (if n > GlobalSlots (pconfig p) \<and> \<not> pq_Empty spammers then do {
        ((off, _), spammers1) \<leftarrow> pq_Pop spammers;
        (p1, n1) \<leftarrow>
          (if offs \<noteq> [] then do {
             l \<leftarrow> gm_get (pending p) off;
             equalize E (\<lambda>k. k > tl_Len l) offs (last offs) p n
           } else Some (p, n));
        drop_offenders E spammers1 (offs @ [off]) p1 n1
      } else Some (offs, p, n))"

declare equalize.simps [code] drop_offenders.simps [code]

definition spam_order :: "'t pool_env \<Rightarrow> 't txPool \<Rightarrow> address prque" where
  "spam_order E p = fold (\<lambda>a q. case gm_get (pending p) a of
       None \<Rightarrow> q
     | Some l \<Rightarrow> if \<not> as_contains (locals p) a \<and> of_nat (tl_Len l) > AccountSlots (pconfig p)
                 then pq_Push a (of_nat (tl_Len l)) q else q) (rngA E (gm_keys (pending p))) []"

definition limit_pending :: "'t pool_env \<Rightarrow> 't txPool \<Rightarrow> 't txPool option" where
  "limit_pending E p =
     (let n = list_total (pending p) in
      if n > GlobalSlots (pconfig p) then do {
        (offs, p1, n1) \<leftarrow> drop_offenders E (spam_order E p) [] p n;
        if n1 > GlobalSlots (pconfig p1) \<and> offs \<noteq> []
        then map_option fst (equalize E (\<lambda>k. of_nat k > AccountSlots (pconfig p1)) offs (last offs) p1 n1)
        else Some p1
      } else Some p)"

fun drop_tail :: "'t pool_env \<Rightarrow> transaction list \<Rightarrow> u64 \<Rightarrow> 't txPool \<Rightarrow> u64 \<times> 't txPool" where
  "drop_tail E [] over p = (over, p)"
| "drop_tail E (tx # ts) over p =
     (if over > 0 then drop_tail E ts (over - 1) (removeTx E (pe_txhash E tx) True p) else (over, p))"

text \<open>The accounts are taken from the end of the order by heartbeat.\<close>

fun drop_queued :: "'t pool_env \<Rightarrow> address list \<Rightarrow> u64 \<Rightarrow> 't txPool \<Rightarrow> 't txPool option" where
  "drop_queued E [] over p = Some p"
| "drop_queued E (a # as) over p =
     (if over > 0 then do {
        l \<leftarrow> gm_get (queue p) a;
        let (ts, l') = tl_Flatten (rngN E) l;
        let p1 = p\<lparr>queue := gm_put (queue p) a l'\<rparr>;
        let size = of_nat (tl_Len l);
        if size \<le> over then drop_queued E as (over - size) (remove_all E True ts p1)
        else let (rest, p2) = drop_tail E (rev ts) over p1 in drop_queued E as rest p2
      } else Some p)"

text \<open>The order of accounts with the same heartbeat is left to the order of the range, which is arbitrary.\<close>

definition beat_of :: "'t txPool \<Rightarrow> address \<Rightarrow> real" where
  "beat_of p a = (case gm_get (beats p) a of None \<Rightarrow> 0 | Some t \<Rightarrow> t)"

definition limit_queue :: "'t pool_env \<Rightarrow> 't txPool \<Rightarrow> 't txPool option" where
  "limit_queue E p =
     (let queued = list_total (queue p) in
      if queued > GlobalQueue (pconfig p) then
        let addresses = sort_key (beat_of p) (filter (\<lambda>a. \<not> as_contains (locals p) a) (rngA E (gm_keys (queue p))))
        in drop_queued E (rev addresses) (queued - GlobalQueue (pconfig p)) p
      else Some p)"

definition promoteExecutables :: "'t pool_env \<Rightarrow> real \<Rightarrow> address list option \<Rightarrow> 't txPool \<Rightarrow> 't txPool option" where
  "promoteExecutables E now addrs p = do {
     (promoted, p1) \<leftarrow> promote_accounts E now (case addrs of None \<Rightarrow> rngA E (gm_keys (queue p)) | Some as \<Rightarrow> as) p;
     let p2 = (if length promoted > 0 then feedNewTxEvent promoted p1 else p1);
     p3 \<leftarrow> limit_pending E p2;
     limit_queue E p3
   }"

section \<open>Adding transactions\<close>

definition addTx :: "'t pool_env \<Rightarrow> real \<Rightarrow> transaction \<Rightarrow> bool \<Rightarrow> 't txPool \<Rightarrow> (core_error option \<times> 't txPool) option" where
  "addTx E now tx isLocal p = do {
     (r, p1) \<leftarrow> pool_add E tx isLocal p;
     case r of
       Inl e \<Rightarrow> Some (Some e, p1)
     | Inr replace \<Rightarrow>
         if \<not> replace then map_option (Pair None) (promoteExecutables E now (Some [senderOf E tx]) p1) else Some (None, p1)
   }"

definition AddLocal :: "'t pool_env \<Rightarrow> real \<Rightarrow> transaction \<Rightarrow> 't txPool \<Rightarrow> (core_error option \<times> 't txPool) option" where
  "AddLocal E now tx p = addTx E now tx (\<not> NoLocals (pconfig p)) p"

definition AddRemote :: "'t pool_env \<Rightarrow> real \<Rightarrow> transaction \<Rightarrow> 't txPool \<Rightarrow> (core_error option \<times> 't txPool) option" where
  "AddRemote E now tx p = addTx E now tx False p"

fun add_each ::
  "'t pool_env \<Rightarrow> bool \<Rightarrow> transaction list \<Rightarrow> (address, unit) gomap \<Rightarrow> 't txPool \<Rightarrow>
     (core_error option list \<times> (address, unit) gomap \<times> 't txPool) option" where
  "add_each E isLocal [] dirty p = Some ([], dirty, p)"
| "add_each E isLocal (tx # ts) dirty p = do {
     (r, p1) \<leftarrow> pool_add E tx isLocal p;
     (errs, dirty2, p2) \<leftarrow> add_each E isLocal ts (if r = Inr False then gm_put dirty (senderOf E tx) () else dirty) p1;
     Some ((case r of Inl e \<Rightarrow> Some e | Inr _ \<Rightarrow> None) # errs, dirty2, p2)
   }"

definition addTxsLocked ::
  "'t pool_env \<Rightarrow> real \<Rightarrow> transaction list \<Rightarrow> bool \<Rightarrow> 't txPool \<Rightarrow> (core_error option list \<times> 't txPool) option" where
  "addTxsLocked E now ts isLocal p = do {
     (errs, dirty, p1) \<leftarrow> add_each E isLocal ts [] p;
     if length dirty > 0
     then map_option (Pair errs) (promoteExecutables E now (Some (rngA E (gm_keys dirty))) p1)
     else Some (errs, p1)
   }"

definition AddLocals ::
  "'t pool_env \<Rightarrow> real \<Rightarrow> transaction list \<Rightarrow> 't txPool \<Rightarrow> (core_error option list \<times> 't txPool) option" where
  "AddLocals E now ts p = addTxsLocked E now ts (\<not> NoLocals (pconfig p)) p"

definition AddRemotes ::
  "'t pool_env \<Rightarrow> real \<Rightarrow> transaction list \<Rightarrow> 't txPool \<Rightarrow> (core_error option list \<times> 't txPool) option" where
  "AddRemotes E now ts p = addTxsLocked E now ts False p"

end
