(* ===== verification/Tx_Pool_Lists.thy ===== *)
theory Tx_Pool_Lists
  imports Tx_Pool
begin

text \<open>
  What the operations of an account's list do to its set of transactions (\<open>core/tx_list.go\<close>), in the form the pool uses:
  every pointer the list returns is a transaction, and the returned ones and the kept ones are the old ones.
\<close>

abbreviation ctxs :: "txList \<Rightarrow> transaction set" where
  "ctxs l \<equiv> sm_contents (txs l)"

lemma ctxs_new [simp]: "ctxs (newTxList b) = {}"
  by (simp add: newTxList_def newTxSortedMap_def sm_contents_eq)

lemma deref_all_Some [simp]: "deref_all (map Some ts) = Some ts"
proof -
  have "None \<notin> set (map Some ts)" "map (the \<circ> Some) ts = ts" by (auto simp: comp_def)
  then show ?thesis unfolding deref_all_def by simp
qed

lemma sm_items_ok: "sm_inv m \<Longrightarrow> items_ok (items m)"
  by (simp add: sm_inv_def)

lemma sm_Get_iff:
  assumes "sm_inv m"
  shows "sm_Get m n = Some t \<longleftrightarrow> t \<in> sm_contents m \<and> AccountNonce t = n"
proof -
  have i: "items_ok (items m)" using assms by (rule sm_items_ok)
  then show ?thesis by (force simp: sm_Get_def sm_contents_eq items_ok_def gm_wf_def)
qed

lemma ctxs_inj: "tl_inv l \<Longrightarrow> t \<in> ctxs l \<Longrightarrow> u \<in> ctxs l \<Longrightarrow> AccountNonce t = AccountNonce u \<Longrightarrow> t = u"
  by (metis sm_Get_iff tl_inv_def option.inject)

lemma distinct_mapI: "distinct (map f xs) \<Longrightarrow> distinct xs"
  by (simp add: distinct_map)

lemma take_drop_parts:
  assumes "distinct xs"
  shows "set (take k xs) \<inter> set (drop k xs) = {}" "set (take k xs) \<union> set (drop k xs) = set xs"
  using assms set_take_disj_set_drop_if_distinct [of xs k k] by simp (metis append_take_drop_id set_append)

lemma tl_Len_card: "tl_inv l \<Longrightarrow> tl_Len l = card (ctxs l)"
proof -
  assume "tl_inv l"
  then have i: "items_ok (items (txs l))" by (simp add: tl_inv_def sm_items_ok)
  then have "distinct (map AccountNonce (map snd (items (txs l))))"
    using keys_are_nonces [OF i] by (simp add: items_ok_def gm_wf_def)
  then have "distinct (map snd (items (txs l)))" by (rule distinct_mapI)
  then show ?thesis using distinct_card [of "map snd (items (txs l))"] by (simp add: tl_Len_def sm_Len_def sm_contents_eq)
qed

lemma finite_ctxs [simp]: "finite (ctxs l)"
  by (simp add: sm_contents_eq)

lemma tl_Empty_iff: "tl_inv l \<Longrightarrow> tl_Empty l \<longleftrightarrow> ctxs l = {}"
  by (simp add: tl_Empty_def tl_Len_card)

lemma distinct_flat: "tl_inv l \<Longrightarrow> distinct (map AccountNonce (sm_flat (items (txs l))))"
  by (simp add: distinct_sm_flat sm_items_ok tl_inv_def)

lemma tl_Add_cases:
  assumes "tl_inv l" "tl_Add l tx bump = ((ins, old), l')"
  shows "tl_inv l' \<and> strict l' = strict l
    \<and> (ins \<longrightarrow> ctxs l' = insert tx {t \<in> ctxs l. AccountNonce t \<noteq> AccountNonce tx})
    \<and> (\<not> ins \<longrightarrow> l' = l \<and> (\<exists>u \<in> ctxs l. AccountNonce u = AccountNonce tx))
    \<and> (\<forall>u. ins \<longrightarrow> old = Some u \<longrightarrow> u \<in> ctxs l \<and> AccountNonce u = AccountNonce tx \<and> u \<noteq> tx)
    \<and> (ins \<longrightarrow> old = None \<longrightarrow> (\<forall>u \<in> ctxs l. AccountNonce u \<noteq> AccountNonce tx))"
proof -
  have i: "sm_inv (txs l)" using assms(1) by (simp add: tl_inv_def)
  have l': "tl_inv l'" using tl_inv_Add [OF assms(1), of tx bump] assms(2) by simp
  show ?thesis
  proof (cases "sm_Get (txs l) (AccountNonce tx)")
    case None
    then have "\<forall>u \<in> ctxs l. AccountNonce u \<noteq> AccountNonce tx"
      using sm_Get_iff [OF i] by (metis option.distinct(1))
    then show ?thesis using assms(2) None l' by (auto simp: tl_Add_def sm_Put_contents [OF i])
  next
    case (Some o')
    then have o': "o' \<in> ctxs l" "AccountNonce o' = AccountNonce tx" using sm_Get_iff [OF i] by auto
    show ?thesis
    proof (cases "Price o' \<ge> Price tx \<or> bump_threshold (Price o') bump > Price tx")
      case True
      then have "\<not> ins" "l' = l" using assms(2) Some by (auto simp: tl_Add_def)
      then show ?thesis using o' l' by auto
    next
      case False
      then have "ins" "old = Some o'" "txs l' = sm_Put (txs l) tx" "strict l' = strict l"
        using assms(2) Some by (auto simp: tl_Add_def)
      then show ?thesis using o' l' False by (auto simp: sm_Put_contents [OF i])
    qed
  qed
qed

lemma tl_Remove_cases:
  assumes "tl_inv l" "range_ok rng" "tl_Remove rng l tx = ((removed, invalids), l')"
  shows "tl_inv l' \<and> strict l' = strict l \<and> (removed \<longleftrightarrow> (\<exists>u \<in> ctxs l. AccountNonce u = AccountNonce tx))
    \<and> (\<not> removed \<longrightarrow> ctxs l' = ctxs l)
    \<and> (removed \<longrightarrow> strict l \<longrightarrow> set invalids = {t \<in> ctxs l. AccountNonce t > AccountNonce tx}
         \<and> ctxs l' = {t \<in> ctxs l. AccountNonce t < AccountNonce tx})
    \<and> (removed \<longrightarrow> \<not> strict l \<longrightarrow> invalids = [] \<and> ctxs l' = {t \<in> ctxs l. AccountNonce t \<noteq> AccountNonce tx})"
proof -
  have i: "sm_inv (txs l)" using assms(1) by (simp add: tl_inv_def)
  have ok: "items_ok (items (txs l))" by (rule sm_items_ok [OF i])
  have l': "tl_inv l'" using tl_inv_Remove [OF assms(1,2), of tx] assms(3) by simp
  obtain m where m: "sm_Remove (txs l) (AccountNonce tx) = (gm_get (items (txs l)) (AccountNonce tx) \<noteq> None, m)"
    "sm_inv m" "items m = gm_del (items (txs l)) (AccountNonce tx)"
    using sm_Remove_spec [OF i, of "AccountNonce tx"] by blast
  have cm: "sm_contents m = {t \<in> ctxs l. AccountNonce t \<noteq> AccountNonce tx}"
  proof -
    have "t \<in> sm_contents m \<longleftrightarrow> t \<in> ctxs l \<and> AccountNonce t \<noteq> AccountNonce tx" for t
      using sm_Get_iff [OF m(2), of "AccountNonce t" t] sm_Get_iff [OF i, of "AccountNonce t" t]
      by (auto simp: sm_Get_def m(3) gm_get_del split: if_splits)
    then show ?thesis by blast
  qed
  have r: "gm_get (items (txs l)) (AccountNonce tx) \<noteq> None \<longleftrightarrow> (\<exists>u \<in> ctxs l. AccountNonce u = AccountNonce tx)"
    using sm_Get_iff [OF i, of "AccountNonce tx"] by (fastforce simp: sm_Get_def)
  let ?q = "\<lambda>t. AccountNonce t > AccountNonce tx"
  obtain r2 m2 where m2: "sm_Filter (rng) m ?q = (r2, m2)" by fastforce
  note f = sm.filter_removed [OF m(2) assms(2), of ?q, unfolded m2 fst_conv]
    sm.filter_contents [OF m(2) assms(2), of ?q, unfolded m2 snd_conv]
  show ?thesis
  proof (cases "gm_get (items (txs l)) (AccountNonce tx) = None")
    case True
    then have "\<not> removed" "l' = l\<lparr>txs := m\<rparr>" using assms(3) m(1) by (auto simp: tl_Remove_def)
    moreover have "sm_contents m = ctxs l" using True r cm by auto
    ultimately show ?thesis using l' True r by simp
  next
    case False
    then have "removed" using assms(3) m(1) by (auto simp: tl_Remove_def split: if_splits prod.splits)
    moreover have "strict l \<Longrightarrow> invalids = r2 \<and> l' = l\<lparr>txs := m2\<rparr>"
      "\<not> strict l \<Longrightarrow> invalids = [] \<and> l' = l\<lparr>txs := m\<rparr>"
      using assms(3) m(1) m2 False by (auto simp: tl_Remove_def)
    moreover have "set r2 = {t \<in> ctxs l. AccountNonce t > AccountNonce tx}"
      "sm_contents m2 = {t \<in> ctxs l. AccountNonce t < AccountNonce tx}"
      unfolding f cm by (auto simp: not_less order.order_iff_strict)
    ultimately show ?thesis using l' False r cm by auto
  qed
qed

lemma tl_Forward_total:
  assumes "tl_inv l"
  obtains r l' where "tl_Forward l th = Some (map Some r, l')" "tl_inv l'" "strict l' = strict l"
    "set r = {t \<in> ctxs l. AccountNonce t < th}" "ctxs l' = {t \<in> ctxs l. \<not> AccountNonce t < th}"
proof -
  have i: "sm_inv (txs l)" using assms(1) by (simp add: tl_inv_def)
  obtain m where m: "sm_Forward (txs l) th = Some (map Some (filter (\<lambda>tx. AccountNonce tx < th) (sm_flat (items (txs l)))), m)"
    "sm_inv m" "items m = filter (\<lambda>(n, tx). \<not> n < th) (items (txs l))"
    using sm_Forward_spec [OF i, of th] by auto
  have f: "tl_Forward l th = Some (map Some (filter (\<lambda>tx. AccountNonce tx < th) (sm_flat (items (txs l)))), l\<lparr>txs := m\<rparr>)"
    by (simp add: tl_Forward_def m(1))
  have "ctxs (l\<lparr>txs := m\<rparr>) = {t \<in> ctxs l. \<not> AccountNonce t < th}"
    using sm_items_ok [OF i] by (fastforce simp: sm_contents_eq m(3) items_ok_def)
  then show thesis
    using that [OF f] tl_inv_Forward [OF assms f] by (simp add: sm_contents_def)
qed

lemma tl_Cap_total:
  assumes "tl_inv l"
  obtains r l' where "tl_Cap l k = Some (map Some r, l')" "tl_inv l'" "strict l' = strict l"
    "set r \<inter> ctxs l' = {}" "set r \<union> ctxs l' = ctxs l" "distinct r" "card (ctxs l') = min k (card (ctxs l))"
    "\<forall>t \<in> ctxs l'. \<forall>u \<in> set r. AccountNonce t < AccountNonce u"
proof -
  let ?fl = "sm_flat (items (txs l))"
  have i: "sm_inv (txs l)" using assms(1) by (simp add: tl_inv_def)
  obtain m where m: "sm_Cap (txs l) k = Some (map Some (rev (drop k ?fl)), m)" "sm_inv m" "sm_flat (items m) = take k ?fl"
    using sm_Cap_spec [OF i, of k] by auto
  have f: "tl_Cap l k = Some (map Some (rev (drop k ?fl)), l\<lparr>txs := m\<rparr>)" by (simp add: tl_Cap_def m(1))
  have d: "distinct (map AccountNonce ?fl)" by (rule distinct_flat [OF assms])
  then have d': "distinct ?fl" by (rule distinct_mapI)
  have s: "sorted (map AccountNonce ?fl)" by (rule sorted_sm_flat)
  have c: "card (set (take k ?fl)) = min k (card (set ?fl))"
    using d' by (simp add: distinct_card min.commute)
  have lt: "AccountNonce t < AccountNonce u" if t: "t \<in> set (take k ?fl)" and u: "u \<in> set (drop k ?fl)" for t u
  proof -
    have "map AccountNonce ?fl = map AccountNonce (take k ?fl) @ map AccountNonce (drop k ?fl)"
      by (metis append_take_drop_id map_append)
    then have "AccountNonce t \<le> AccountNonce u" "AccountNonce t \<noteq> AccountNonce u"
      using s d t u by (auto simp: sorted_append)
    then show ?thesis by simp
  qed
  have "set (rev (drop k ?fl)) \<inter> set (take k ?fl) = {}" "set (rev (drop k ?fl)) \<union> set (take k ?fl) = set ?fl"
    using take_drop_parts [OF d', of k] by auto
  then show thesis
    using that [OF f] tl_inv_Cap [OF assms f] d' c lt by (simp add: sm_contents_def m(3))
qed

lemma tl_Ready_total:
  assumes "tl_inv l"
  obtains r l' where "tl_Ready l start = (map Some r, l')" "tl_inv l'" "strict l' = strict l"
    "set r \<inter> ctxs l' = {}" "set r \<union> ctxs l' = ctxs l" "distinct (map AccountNonce r)"
proof -
  let ?fl = "sm_flat (items (txs l))"
  let ?k = "length (ready_run start ?fl)"
  have i: "sm_inv (txs l)" using assms(1) by (simp add: tl_inv_def)
  obtain m where m: "sm_Ready (txs l) start = (map Some (ready_run start ?fl), m)" "sm_inv m" "sm_flat (items m) = drop ?k ?fl"
    using sm_Ready_spec [OF i, of start] by auto
  have f: "tl_Ready l start = (map Some (ready_run start ?fl), l\<lparr>txs := m\<rparr>)" by (simp add: tl_Ready_def m(1))
  have d: "distinct (map AccountNonce ?fl)" by (rule distinct_flat [OF assms])
  then have d': "distinct ?fl" by (rule distinct_mapI)
  have t: "ready_run start ?fl = take ?k ?fl"
  proof -
    obtain n where "ready_run start ?fl = take n ?fl"
      by (cases ?fl) (simp_all add: ready_run_def that [of 0] split: if_splits, metis take0)
    then show ?thesis by (cases "n \<le> length ?fl") simp_all
  qed
  have "set (take ?k ?fl) \<inter> set (drop ?k ?fl) = {}" "set (take ?k ?fl) \<union> set (drop ?k ?fl) = set ?fl"
    using take_drop_parts [OF d', of ?k] by auto
  moreover have "distinct (map AccountNonce (take ?k ?fl))" using d by (metis distinct_take take_map)
  ultimately show thesis
    using that [OF f] tl_inv_Ready [OF assms, of start] t by (simp add: sm_contents_def m(3) f)
qed

lemma tl_Flatten_total:
  assumes "tl_inv l" "range_ok rng"
  obtains l' where "tl_Flatten rng l = (sm_flat (items (txs l)), l')" "tl_inv l'" "strict l' = strict l"
    "ctxs l' = ctxs l" "tl_Len l' = tl_Len l"
proof -
  have i: "sm_inv (txs l)" using assms(1) by (simp add: tl_inv_def)
  obtain m where m: "sm_Flatten rng (txs l) = (sm_flat (items (txs l)), m)" "sm_inv m" "items m = items (txs l)"
    using sm_Flatten_spec [OF i assms(2)] by blast
  have f: "tl_Flatten rng l = (sm_flat (items (txs l)), l\<lparr>txs := m\<rparr>)" by (simp add: tl_Flatten_def m(1))
  show thesis
    using that [OF f] tl_inv_Flatten [OF assms] by (simp add: f sm_contents_def m(3) tl_Len_def sm_Len_def)
qed

lemma tl_Filter_total:
  assumes "tl_inv l" "range_ok rng"
  obtains removed invalids l' where "tl_Filter rng l costLimit gasLimit = ((removed, invalids), l')" "tl_inv l'"
    "strict l' = strict l" "set removed \<union> set invalids \<union> ctxs l' = ctxs l" "set removed \<inter> set invalids = {}"
    "(set removed \<union> set invalids) \<inter> ctxs l' = {}" "\<not> strict l \<longrightarrow> set invalids = {}"
proof -
  obtain r i l' where f: "tl_Filter rng l costLimit gasLimit = ((r, i), l')" by (metis surj_pair)
  note s = tl_Filter_spec [OF assms f]
  have "strict l' = strict l" using f by (auto simp: tl_Filter_def split: if_splits prod.splits)
  then show thesis
    using that [OF f s(4)] s(1,2,3) by (auto simp: kept_def)
qed

end
