(* ===== verification/Tx_Pool_Inv.thy ===== *)
theory Tx_Pool_Inv
  imports Tx_Pool_Lists
begin

text \<open>
  The transaction pool refines sets (\<open>core/tx_pool.go\<close>): what is pending and what is queued of each account, and the set
  of the transactions the pool knows by hash. Every step of the pool is a step on these sets.
\<close>

section \<open>The abstraction\<close>

text \<open>A map of lists holds the sets \<open>F\<close>: every list is in order and has only transactions of its account.\<close>

fun slot_ok :: "'t pool_env \<Rightarrow> bool \<Rightarrow> address \<Rightarrow> txList option \<Rightarrow> transaction set \<Rightarrow> bool" where
  "slot_ok E b a None S \<longleftrightarrow> S = {}"
| "slot_ok E b a (Some l) S \<longleftrightarrow> tl_inv l \<and> strict l = b \<and> ctxs l = S \<and> (\<forall>t \<in> S. pe_sender E t = Some a)"

definition maps_to :: "'t pool_env \<Rightarrow> bool \<Rightarrow> (address, txList) gomap \<Rightarrow> (address \<Rightarrow> transaction set) \<Rightarrow> bool" where
  "maps_to E b m F \<longleftrightarrow> gm_wf m \<and> (\<forall>a. slot_ok E b a (gm_get m a) (F a))"

lemma slot_okD:
  assumes "slot_ok E b a lo S"
  shows "finite S" "t \<in> S \<Longrightarrow> pe_sender E t = Some a"
    "t \<in> S \<Longrightarrow> u \<in> S \<Longrightarrow> AccountNonce t = AccountNonce u \<Longrightarrow> t = u"
  using assms by (cases lo; auto intro: ctxs_inj)+

text \<open>The pool knows exactly the transactions of \<open>A\<close>, and those outside of \<open>D\<close> have an entry in the price heap.\<close>

definition knows :: "'t pool_env \<Rightarrow> txLookup \<Rightarrow> txPricedList \<Rightarrow> transaction set \<Rightarrow> transaction set \<Rightarrow> bool" where
  "knows E m pl A D \<longleftrightarrow> gm_wf m \<and> (\<forall>h t. gm_get m h = Some t \<longleftrightarrow> t \<in> A \<and> pe_txhash E t = h)
     \<and> pl_inv pl \<and> A - D \<subseteq> set (pitems pl)"

definition pool_is ::
  "'t pool_env \<Rightarrow> 't txPool \<Rightarrow> (address \<Rightarrow> transaction set) \<Rightarrow> (address \<Rightarrow> transaction set) \<Rightarrow> transaction set \<Rightarrow>
     transaction set \<Rightarrow> bool" where
  "pool_is E p P Q A D \<longleftrightarrow> maps_to E True (pending p) P \<and> maps_to E False (queue p) Q \<and> knows E (pool_all p) (priced p) A D"

definition ranges_ok :: "'t pool_env \<Rightarrow> bool" where
  "ranges_ok E \<longleftrightarrow> range_ok (rngA E) \<and> range_ok (rngN E) \<and> range_ok (rngH E)"

lemma maps_to_put:
  assumes "maps_to E b m F" "tl_inv l" "strict l = b" "\<forall>t \<in> ctxs l. pe_sender E t = Some a"
  shows "maps_to E b (gm_put m a l) (F(a := ctxs l))"
  using assms by (auto simp: maps_to_def gm_get_put gm_wf_put)

lemma maps_to_del: "maps_to E b m F \<Longrightarrow> maps_to E b (gm_del m a) (F(a := {}))"
  by (auto simp: maps_to_def gm_get_del gm_wf_del)

lemma maps_to_slot: "maps_to E b m F \<Longrightarrow> slot_ok E b a (gm_get m a) (F a)"
  by (simp add: maps_to_def)

lemma maps_to_get:
  assumes "maps_to E b m F" "gm_get m a = Some l"
  shows "tl_inv l" "strict l = b" "ctxs l = F a"
  using maps_to_slot [OF assms(1), of a] assms(2) by simp_all

lemma maps_to_None: "maps_to E b m F \<Longrightarrow> gm_get m a = None \<Longrightarrow> F a = {}"
  using maps_to_slot [of E b m F a] by simp

lemmas maps_to_sender = slot_okD(2) [OF maps_to_slot]
  and maps_to_inj = slot_okD(3) [OF maps_to_slot]
  and maps_to_finite = slot_okD(1) [OF maps_to_slot]

lemma pool_is_other [simp]:
  "pool_is E (p\<lparr>currentState := s\<rparr>) P Q A D = pool_is E p P Q A D"
  "pool_is E (p\<lparr>pendingState := ms\<rparr>) P Q A D = pool_is E p P Q A D"
  "pool_is E (p\<lparr>currentMaxGas := g\<rparr>) P Q A D = pool_is E p P Q A D"
  "pool_is E (p\<lparr>beats := b\<rparr>) P Q A D = pool_is E p P Q A D"
  "pool_is E (p\<lparr>locals := ls\<rparr>) P Q A D = pool_is E p P Q A D"
  "pool_is E (p\<lparr>gasPrice := gp\<rparr>) P Q A D = pool_is E p P Q A D"
  "pool_is E (p\<lparr>pool_events := ev\<rparr>) P Q A D = pool_is E p P Q A D"
  "pool_is E (p\<lparr>pool_head := hd'\<rparr>) P Q A D = pool_is E p P Q A D"
  by (simp_all add: pool_is_def)

text \<open>What an operation leaves alone: the configuration.\<close>

lemma cur_nonce_is [simp]: "pool_is E (snd (cur_nonce E a p)) P Q A D = pool_is E p P Q A D"
  "pending (snd (cur_nonce E a p)) = pending p" "queue (snd (cur_nonce E a p)) = queue p"
  "pconfig (snd (cur_nonce E a p)) = pconfig p" "locals (snd (cur_nonce E a p)) = locals p"
  by (simp_all add: cur_nonce_def split: prod.splits)

lemma cur_balance_is [simp]: "pool_is E (snd (cur_balance E a p)) P Q A D = pool_is E p P Q A D"
  "pending (snd (cur_balance E a p)) = pending p" "queue (snd (cur_balance E a p)) = queue p"
  "pconfig (snd (cur_balance E a p)) = pconfig p" "locals (snd (cur_balance E a p)) = locals p"
  by (simp_all add: cur_balance_def split: prod.splits)

lemma pend_nonce_is [simp]: "pool_is E (snd (pend_nonce E a p)) P Q A D = pool_is E p P Q A D"
  "pending (snd (pend_nonce E a p)) = pending p" "queue (snd (pend_nonce E a p)) = queue p"
  "pconfig (snd (pend_nonce E a p)) = pconfig p" "locals (snd (pend_nonce E a p)) = locals p"
  by (simp_all add: pend_nonce_def split: prod.splits)

lemma set_pend_nonce_is [simp]: "pool_is E (set_pend_nonce E a n p) P Q A D = pool_is E p P Q A D"
  "pending (set_pend_nonce E a n p) = pending p" "queue (set_pend_nonce E a n p) = queue p"
  "pconfig (set_pend_nonce E a n p) = pconfig p" "locals (set_pend_nonce E a n p) = locals p"
  by (simp_all add: set_pend_nonce_def)

lemma lower_nonce_is [simp]: "pool_is E (lower_nonce E a n p) P Q A D = pool_is E p P Q A D"
  "pending (lower_nonce E a n p) = pending p" "queue (lower_nonce E a n p) = queue p"
  "pconfig (lower_nonce E a n p) = pconfig p" "locals (lower_nonce E a n p) = locals p"
  using pend_nonce_is [of E a p] by (cases "pend_nonce E a p"; simp add: lower_nonce_def)+

section \<open>Knowing and forgetting\<close>

lemma knows_Removed:
  assumes "knows E m pl A D" "ranges_ok E"
  shows "knows E m (pl_Removed (rngH E) m pl) A D"
proof -
  have m: "gm_wf m" "A = set (map snd m)"
  proof -
    show "gm_wf m" using assms by (simp add: knows_def)
    then show "A = set (map snd m)" using assms by (force simp: knows_def gm_wf_def)
  qed
  have r: "range_ok (rngH E)" using assms by (simp add: ranges_ok_def)
  show ?thesis using pl_Removed_cases [OF m(1) r, of pl]
  proof
    assume "pl_Removed (rngH E) m pl = pl\<lparr>stales := stales pl + 1\<rparr> \<and> stales pl + 1 \<le> int (length (pitems pl) div 4)"
    then show ?thesis using assms by (simp add: knows_def pl_inv_def)
  next
    assume n: "stales (pl_Removed (rngH E) m pl) = 0 \<and> mset (pitems (pl_Removed (rngH E) m pl)) = mset (map snd m)
      \<and> pl_inv (pl_Removed (rngH E) m pl)"
    then have "set (pitems (pl_Removed (rngH E) m pl)) = A" using m(2) by (metis set_mset_mset)
    then show ?thesis using assms n by (auto simp: knows_def)
  qed
qed

lemma knows_inj: "knows E m pl A D \<Longrightarrow> t \<in> A \<Longrightarrow> u \<in> A \<Longrightarrow> pe_txhash E t = pe_txhash E u \<Longrightarrow> t = u"
  by (metis knows_def option.inject)

lemma knows_remove: "knows E m pl A D \<Longrightarrow> knows E (lookup_Remove m h) pl {u \<in> A. pe_txhash E u \<noteq> h} D"
  by (auto simp: knows_def lookup_Remove_def gm_get_del gm_wf_del)

lemma price_removed_is:
  assumes "pool_is E p P Q A D" "ranges_ok E"
  shows "pool_is E (price_removed E p) P Q A D"
  using assms knows_Removed [of E "pool_all p" "priced p" A D] by (simp add: pool_is_def price_removed_def)

lemma forget_is:
  assumes "pool_is E p P Q A D" "ranges_ok E"
  shows "pool_is E (forget E h p) P Q {u \<in> A. pe_txhash E u \<noteq> h} D"
  unfolding forget_def
  by (rule price_removed_is) (use assms knows_remove in \<open>auto simp: pool_is_def\<close>)

lemma forget_one:
  assumes "pool_is E p P Q A D" "ranges_ok E" "t \<in> A"
  shows "pool_is E (forget E (pe_txhash E t) p) P Q (A - {t}) D"
proof -
  have "{u \<in> A. pe_txhash E u \<noteq> pe_txhash E t} = A - {t}"
    using assms knows_inj [of E "pool_all p" "priced p" A D] by (auto simp: pool_is_def)
  then show ?thesis using forget_is [OF assms(1,2), of "pe_txhash E t"] by simp
qed

lemma forget_fields [simp]: "pending (forget E h p) = pending p" "queue (forget E h p) = queue p"
  "pconfig (forget E h p) = pconfig p" "locals (forget E h p) = locals p"
  by (simp_all add: forget_def price_removed_def)

lemma forget_all_is:
  assumes "pool_is E p P Q A D" "ranges_ok E" "set ts \<subseteq> A"
  shows "pool_is E (forget_all E ts p) P Q (A - set ts) D"
proof -
  have "pool_is E (forget_all E ts p) P Q {u \<in> A. pe_txhash E u \<notin> pe_txhash E ` set ts} D"
    using assms(1)
  proof (induction ts arbitrary: p A)
    case Nil
    then show ?case by (simp add: forget_all_def)
  next
    case (Cons t ts)
    have "{u \<in> {u \<in> A. pe_txhash E u \<noteq> pe_txhash E t}. pe_txhash E u \<notin> pe_txhash E ` set ts}
        = {u \<in> A. pe_txhash E u \<notin> pe_txhash E ` set (t # ts)}" by auto
    then show ?case using Cons.IH [OF forget_is [OF Cons.prems assms(2), of "pe_txhash E t"]] by (simp add: forget_all_def)
  qed
  moreover have "{u \<in> A. pe_txhash E u \<notin> pe_txhash E ` set ts} = A - set ts"
    using assms(3) knows_inj [of E "pool_all p" "priced p" A D] assms(1) by (auto simp: pool_is_def)
  ultimately show ?thesis by simp
qed

lemma forget_all_fields [simp]: "pending (forget_all E ts p) = pending p" "queue (forget_all E ts p) = queue p"
  "pconfig (forget_all E ts p) = pconfig p" "locals (forget_all E ts p) = locals p"
  by (induction ts arbitrary: p) (simp_all add: forget_all_def)

lemma track_is:
  assumes "pool_is E p P Q A D" "\<forall>u \<in> A. pe_txhash E u \<noteq> pe_txhash E tx"
  shows "pool_is E (track E tx p) P Q (insert tx A) D"
proof -
  let ?pl = "pl_Put (priced p) tx"
  have k: "knows E (pool_all p) (priced p) A D" using assms(1) by (simp add: pool_is_def)
  then have "pl_inv ?pl" "set (pitems ?pl) = insert tx (set (pitems (priced p)))"
    using arg_cong [OF mset_heap_push [of priceHeap_Less "pitems (priced p)" tx], of set_mset]
    by (simp_all add: knows_def pl_inv_def pl_Put_def price_asc.is_heap_push)
  then have "knows E (lookup_Add (pe_txhash E) (pool_all p) tx) ?pl (insert tx A) D"
    using k assms(2) by (auto simp: knows_def lookup_Add_def gm_get_put gm_wf_put)
  then show ?thesis using assms(1) by (simp add: pool_is_def track_def)
qed

lemma track_fields [simp]: "pending (track E tx p) = pending p" "queue (track E tx p) = queue p"
  "pconfig (track E tx p) = pconfig p" "locals (track E tx p) = locals p"
  by (simp_all add: track_def)

lemma pool_is_all:
  assumes "pool_is E p P Q A D"
  shows "gm_get (pool_all p) h = Some t \<longleftrightarrow> t \<in> A \<and> pe_txhash E t = h"
    "gm_get (pool_all p) h = None \<longleftrightarrow> (\<forall>t \<in> A. pe_txhash E t \<noteq> h)"
proof -
  show g: "gm_get (pool_all p) h = Some t \<longleftrightarrow> t \<in> A \<and> pe_txhash E t = h" for t
    using assms by (simp add: pool_is_def knows_def)
  show "gm_get (pool_all p) h = None \<longleftrightarrow> (\<forall>t \<in> A. pe_txhash E t \<noteq> h)"
    using g by (metis not_Some_eq)
qed

lemma put_queue:
  assumes "pool_is E p P Q A D" "tl_inv l" "\<not> strict l" "\<forall>t \<in> ctxs l. pe_sender E t = Some a"
  shows "pool_is E (p\<lparr>queue := gm_put (queue p) a l\<rparr>) P (Q(a := ctxs l)) A D"
  using assms maps_to_put [of E False "queue p" Q l a] by (simp add: pool_is_def)

lemma put_pending:
  assumes "pool_is E p P Q A D" "tl_inv l" "strict l" "\<forall>t \<in> ctxs l. pe_sender E t = Some a"
  shows "pool_is E (p\<lparr>pending := gm_put (pending p) a l\<rparr>) (P(a := ctxs l)) Q A D"
  using assms maps_to_put [of E True "pending p" P l a] by (simp add: pool_is_def)

lemma del_queue: "pool_is E p P Q A D \<Longrightarrow> pool_is E (p\<lparr>queue := gm_del (queue p) a\<rparr>) P (Q(a := {})) A D"
  by (simp add: pool_is_def maps_to_del)

lemma del_pending: "pool_is E p P Q A D \<Longrightarrow> pool_is E (p\<lparr>pending := gm_del (pending p) a\<rparr>) (P(a := {})) Q A D"
  by (simp add: pool_is_def maps_to_del)

lemma del_empty:
  assumes "pool_is E p P Q A D" "tl_inv l" "tl_Empty l"
  shows "pool_is E (p\<lparr>queue := gm_del (queue p) a\<rparr>) P (Q(a := ctxs l)) A D"
    "pool_is E (p\<lparr>pending := gm_del (pending p) a\<rparr>) (P(a := ctxs l)) Q A D"
proof -
  have "ctxs l = {}" using assms(2,3) by (simp add: tl_Empty_iff)
  then show "pool_is E (p\<lparr>queue := gm_del (queue p) a\<rparr>) P (Q(a := ctxs l)) A D"
    "pool_is E (p\<lparr>pending := gm_del (pending p) a\<rparr>) (P(a := ctxs l)) Q A D"
    using del_queue [OF assms(1)] del_pending [OF assms(1)] by (simp_all only:)
qed

lemma pool_list:
  assumes "pool_is E p P Q A D"
  shows "gm_get (pending p) a = Some l \<Longrightarrow> tl_inv l \<and> strict l \<and> ctxs l = P a" "gm_get (pending p) a = None \<Longrightarrow> P a = {}"
    "gm_get (queue p) a = Some l \<Longrightarrow> tl_inv l \<and> \<not> strict l \<and> ctxs l = Q a" "gm_get (queue p) a = None \<Longrightarrow> Q a = {}"
proof -
  have m: "maps_to E True (pending p) P" "maps_to E False (queue p) Q" using assms by (simp_all add: pool_is_def)
  show "gm_get (pending p) a = Some l \<Longrightarrow> tl_inv l \<and> strict l \<and> ctxs l = P a" "gm_get (pending p) a = None \<Longrightarrow> P a = {}"
    using maps_to_slot [OF m(1), of a] by simp_all
  show "gm_get (queue p) a = Some l \<Longrightarrow> tl_inv l \<and> \<not> strict l \<and> ctxs l = Q a" "gm_get (queue p) a = None \<Longrightarrow> Q a = {}"
    using maps_to_slot [OF m(2), of a] by simp_all
qed

lemma strict_new [simp]: "strict (newTxList b) = b"
  by (simp add: newTxList_def)

text \<open>The list of an account, or a new one.\<close>

lemma queue_list:
  assumes "pool_is E p P Q A D" "l = (case gm_get (queue p) a of None \<Rightarrow> newTxList False | Some l \<Rightarrow> l)"
  shows "tl_inv l \<and> \<not> strict l \<and> ctxs l = Q a"
  using assms maps_to_get [of E False "queue p" Q a] maps_to_None [of E False "queue p" Q a] tl_inv_new
  by (auto simp: pool_is_def split: option.splits)

lemma pending_list:
  assumes "pool_is E p P Q A D" "l = (case gm_get (pending p) a of None \<Rightarrow> newTxList True | Some l \<Rightarrow> l)"
  shows "tl_inv l \<and> strict l \<and> ctxs l = P a"
  using assms maps_to_get [of E True "pending p" P a] maps_to_None [of E True "pending p" P a] tl_inv_new
  by (auto simp: pool_is_def split: option.splits)

section \<open>Queueing and promoting\<close>

definition same_nonce :: "transaction \<Rightarrow> transaction set \<Rightarrow> transaction set" where
  "same_nonce tx S = {u \<in> S. AccountNonce u = AccountNonce tx}"

lemma know_tx:
  assumes "pool_is E p P Q A D" "\<forall>u \<in> A. pe_txhash E u = pe_txhash E tx \<longrightarrow> u = tx"
  shows "pool_is E (if gm_get (pool_all p) (pe_txhash E tx) = None then track E tx p else p) P Q (insert tx A) D"
proof (cases "gm_get (pool_all p) (pe_txhash E tx)")
  case None
  then show ?thesis using track_is [OF assms(1)] pool_is_all(2) [OF assms(1)] by simp
next
  case (Some u)
  then have "u \<in> A" "u = tx" using pool_is_all(1) [OF assms(1)] assms(2) by auto
  then show ?thesis using assms(1) Some by (simp add: insert_absorb)
qed

lemma replace_known:
  assumes "pool_is E p P Q A D" "ranges_ok E" "S \<subseteq> A" "\<forall>u \<in> A. pe_txhash E u = pe_txhash E tx \<longrightarrow> u = tx"
    "old = None \<Longrightarrow> S = {}" "\<And>u. old = Some u \<Longrightarrow> S = {u}"
  defines "p2 \<equiv> case old of None \<Rightarrow> p | Some u \<Rightarrow> forget E (pe_txhash E u) p"
  shows "pool_is E (if gm_get (pool_all p2) (pe_txhash E tx) = None then track E tx p2 else p2) P Q (insert tx (A - S)) D"
proof -
  have "pool_is E p2 P Q (A - S) D"
  proof (cases old)
    case None
    then show ?thesis using assms by simp
  next
    case (Some u)
    then show ?thesis using forget_one [OF assms(1,2), of u] assms(3,6) by (simp add: p2_def)
  qed
  then show ?thesis by (rule know_tx) (use assms(4) in blast)
qed

lemma replaced_one:
  assumes "slot_ok E b a lo S" "ins"
    "\<forall>u. ins \<longrightarrow> old = Some u \<longrightarrow> u \<in> S \<and> AccountNonce u = AccountNonce tx \<and> u \<noteq> tx"
    "ins \<longrightarrow> old = None \<longrightarrow> (\<forall>u \<in> S. AccountNonce u \<noteq> AccountNonce tx)"
  shows "old = None \<Longrightarrow> same_nonce tx S = {}" "old = Some u \<Longrightarrow> same_nonce tx S = {u}"
  using assms slot_okD(3) [OF assms(1)] by (auto simp: same_nonce_def)

lemma enqueue_cases:
  assumes ab: "pool_is E p P Q A D" and rng: "ranges_ok E" and tx: "pe_sender E tx = Some a" "Q a \<subseteq> A"
    "\<forall>u \<in> A. pe_txhash E u = pe_txhash E tx \<longrightarrow> u = tx" and e: "enqueueTx E (pe_txhash E tx) tx p = (r, p')"
  shows "pending p' = pending p \<and> pconfig p' = pconfig p \<and> locals p' = locals p
    \<and> (case r of Inl e \<Rightarrow> e = ErrReplaceUnderpriced \<and> same_nonce tx (Q a) \<noteq> {} \<and> pool_is E p' P Q A D
       | Inr replaced \<Rightarrow> tx \<notin> Q a \<and> (replaced \<longleftrightarrow> same_nonce tx (Q a) \<noteq> {})
           \<and> pool_is E p' P (Q(a := insert tx (Q a - same_nonce tx (Q a)))) (insert tx (A - same_nonce tx (Q a))) D)"
proof -
  have sd: "senderOf E tx = a" using tx(1) by (simp add: sender_or_zero_def)
  define l where "l = (case gm_get (queue p) a of None \<Rightarrow> newTxList False | Some l \<Rightarrow> l)"
  obtain ins old l' where add: "tl_Add l tx (PriceBump (pconfig p)) = ((ins, old), l')" by (metis surj_pair)
  have l: "tl_inv l" "\<not> strict l" "ctxs l = Q a" using queue_list [OF ab l_def] by simp_all
  note c = tl_Add_cases [OF l(1) add, unfolded l(3)]
  have senders: "\<forall>t \<in> Q a. pe_sender E t = Some a" using ab maps_to_sender by (fastforce simp: pool_is_def)
  have slot: "slot_ok E False a (gm_get (queue p) a) (Q a)" using ab maps_to_slot by (auto simp: pool_is_def)
  define p1 where "p1 = p\<lparr>queue := gm_put (queue p) a l'\<rparr>"
  show ?thesis
  proof (cases ins)
    case False
    then have "l' = l" "\<exists>u \<in> Q a. AccountNonce u = AccountNonce tx" using c by auto
    moreover have "r = Inl ErrReplaceUnderpriced" "p' = p1"
      using e add False by (simp_all add: enqueueTx_def sd l_def p1_def)
    moreover have "pool_is E p1 P (Q(a := ctxs l)) A D"
      unfolding p1_def \<open>l' = l\<close> by (rule put_queue [OF ab l(1,2)]) (use senders l(3) in simp)
    ultimately show ?thesis by (auto simp: l(3) p1_def same_nonce_def)
  next
    case True
    have l': "tl_inv l'" "\<not> strict l'" "ctxs l' = insert tx (Q a - same_nonce tx (Q a))"
      using c True l(2) by (auto simp: same_nonce_def)
    have is1: "pool_is E p1 P (Q(a := insert tx (Q a - same_nonce tx (Q a)))) A D"
      using put_queue [OF ab l'(1,2), of a] senders tx(1) by (simp add: l'(3) p1_def)
    have tx_new: "tx \<notin> Q a"
    proof
      assume "tx \<in> Q a"
      then show False using c True slot_okD(3) [OF slot] by (cases old) auto
    qed
    have c': "\<forall>u. ins \<longrightarrow> old = Some u \<longrightarrow> u \<in> Q a \<and> AccountNonce u = AccountNonce tx \<and> u \<noteq> tx"
      "ins \<longrightarrow> old = None \<longrightarrow> (\<forall>u \<in> Q a. AccountNonce u \<noteq> AccountNonce tx)" using c by simp_all
    note o = replaced_one [OF slot True c']
    define p2 where "p2 = (case old of None \<Rightarrow> p1 | Some u \<Rightarrow> forget E (pe_txhash E u) p1)"
    have "(r, p') = (Inr (old \<noteq> None), if gm_get (pool_all p2) (pe_txhash E tx) = None then track E tx p2 else p2)"
      unfolding e [symmetric]
      by (simp only: enqueueTx_def Let_def sd l_def [symmetric] add prod.case p1_def [symmetric] p2_def [symmetric] True
          not_True_eq_False if_False)
    then have "r = Inr (old \<noteq> None)"
      "p' = (if gm_get (pool_all p2) (pe_txhash E tx) = None then track E tx p2 else p2)" by simp_all
    moreover have "pool_is E (if gm_get (pool_all p2) (pe_txhash E tx) = None then track E tx p2 else p2)
        P (Q(a := insert tx (Q a - same_nonce tx (Q a)))) (insert tx (A - same_nonce tx (Q a))) D"
      unfolding p2_def
      by (rule replace_known [OF is1 rng _ tx(3) o]) (use tx(2) in \<open>auto simp: same_nonce_def\<close>)
    moreover have "pending p2 = pending p \<and> pconfig p2 = pconfig p \<and> locals p2 = locals p"
      by (simp add: p2_def p1_def split: option.splits)
    moreover have "old \<noteq> None \<longleftrightarrow> same_nonce tx (Q a) \<noteq> {}" using o by (cases old) auto
    ultimately show ?thesis using tx_new by simp
  qed
qed

lemma promote_cases:
  assumes ab: "pool_is E p P Q A D" and rng: "ranges_ok E" and tx: "pe_sender E tx = Some a" "tx \<in> A"
    "\<forall>u \<in> P a. AccountNonce u \<noteq> AccountNonce tx" and e: "promoteTx E now a (pe_txhash E tx) tx p = (r, p')"
  shows "r \<and> pool_is E p' (P(a := insert tx (P a))) Q A D \<and> (\<exists>l. pending p' = gm_put (pending p) a l)
    \<and> queue p' = queue p \<and> pconfig p' = pconfig p \<and> locals p' = locals p"
proof -
  define l where "l = (case gm_get (pending p) a of None \<Rightarrow> newTxList True | Some l \<Rightarrow> l)"
  obtain ins old l' where add: "tl_Add l tx (PriceBump (pconfig p)) = ((ins, old), l')" by (metis surj_pair)
  have l: "tl_inv l" "strict l" "ctxs l = P a" using pending_list [OF ab l_def] by simp_all
  note c = tl_Add_cases [OF l(1) add, unfolded l(3)]
  have senders: "\<forall>t \<in> P a. pe_sender E t = Some a" using ab maps_to_sender by (fastforce simp: pool_is_def)
  have ins: "ins" using c tx(3) by blast
  then have "old \<noteq> Some u" for u using c tx(3) by blast
  then have ins: "ins" "old = None" using ins by (cases old; simp)+
  have l': "tl_inv l'" "strict l'" "ctxs l' = insert tx (P a)" using c ins tx(3) l(2) by auto
  define p1 where "p1 = p\<lparr>pending := gm_put (pending p) a l'\<rparr>"
  have is1: "pool_is E p1 (P(a := insert tx (P a))) Q A D"
    using put_pending [OF ab l'(1,2), of a] senders tx(1) by (simp add: l'(3) p1_def)
  have known: "(gm_get (pool_all p1) (pe_txhash E tx) = None) = False"
    using pool_is_all(1) [OF is1, of "pe_txhash E tx" tx] tx(2) by simp
  have "(r, p') = (True, set_pend_nonce E a (AccountNonce tx + 1) (p1\<lparr>beats := gm_put (beats p1) a now\<rparr>))"
    unfolding e [symmetric]
    by (simp only: promoteTx_def Let_def l_def [symmetric] add prod.case p1_def [symmetric] ins option.case known
        not_True_eq_False if_False)
  then show ?thesis using is1 by (auto simp: p1_def)
qed

definition filled :: "(address, txList) gomap \<Rightarrow> (address \<Rightarrow> transaction set) \<Rightarrow> bool" where
  "filled m F \<longleftrightarrow> (\<forall>a. gm_get m a \<noteq> None \<longrightarrow> F a \<noteq> {})"

lemma filled_put: "filled m F \<Longrightarrow> S \<noteq> {} \<Longrightarrow> filled (gm_put m a l) (F(a := S))"
  by (simp add: filled_def gm_get_put)

lemma filled_del: "filled m F \<Longrightarrow> filled (gm_del m a) (F(a := S))"
  by (simp add: filled_def gm_get_del)

section \<open>Several transactions of an account\<close>

lemma enqueue_all_is:
  assumes "pool_is E p P Q A D" "ranges_ok E" "\<forall>t \<in> set ts. pe_sender E t = Some a" "Q a \<union> set ts \<subseteq> A"
    "inj_on AccountNonce (Q a \<union> set ts)"
  shows "pool_is E (enqueue_all E ts p) P (Q(a := Q a \<union> set ts)) A D \<and> pending (enqueue_all E ts p) = pending p
    \<and> pconfig (enqueue_all E ts p) = pconfig p \<and> locals (enqueue_all E ts p) = locals p"
  using assms
proof (induction ts arbitrary: p Q)
  case Nil
  then show ?case by (simp add: enqueue_all_def)
next
  case (Cons t ts)
  obtain r p1 where e: "enqueueTx E (pe_txhash E t) t p = (r, p1)" by fastforce
  have t: "pe_sender E t = Some a" "Q a \<subseteq> A" "t \<in> A" using Cons.prems by auto
  then have coll: "\<forall>u \<in> A. pe_txhash E u = pe_txhash E t \<longrightarrow> u = t"
    using Cons.prems(1) knows_inj by (auto simp: pool_is_def)
  note c = enqueue_cases [OF Cons.prems(1,2) t(1,2) coll e]
  have "same_nonce t (Q a) = (if t \<in> Q a then {t} else {})"
    using Cons.prems(5) by (auto simp: same_nonce_def inj_on_def)
  then have p1: "pool_is E p1 P (Q(a := insert t (Q a))) A D"
    using c t(3) by (cases r) (auto simp: insert_absorb split: if_splits)
  have u: "insert t (Q a) \<union> set ts = Q a \<union> set (t # ts)" by auto
  show ?case using Cons.IH [OF p1 Cons.prems(2), unfolded fun_upd_same fun_upd_upd u] Cons.prems(3,4,5) c
    by (simp add: enqueue_all_def e)
qed

lemma promote_ready_is:
  assumes "pool_is E p P Q A D" "ranges_ok E" "\<forall>t \<in> set ts. pe_sender E t = Some a" "set ts \<subseteq> A"
    "AccountNonce ` P a \<inter> AccountNonce ` set ts = {}" "distinct (map AccountNonce ts)"
  shows "\<exists>p'. promote_ready E now a ts p = (ts, p') \<and> pool_is E p' (P(a := P a \<union> set ts)) Q A D
    \<and> (filled (pending p) P \<longrightarrow> filled (pending p') (P(a := P a \<union> set ts)))
    \<and> queue p' = queue p \<and> pconfig p' = pconfig p \<and> locals p' = locals p"
  using assms
proof (induction ts arbitrary: p P)
  case Nil
  then show ?case by simp
next
  case (Cons t ts)
  obtain r p1 where e: "promoteTx E now a (pe_txhash E t) t p = (r, p1)" by fastforce
  have c: "r \<and> pool_is E p1 (P(a := insert t (P a))) Q A D \<and> (\<exists>l. pending p1 = gm_put (pending p) a l)
    \<and> queue p1 = queue p \<and> pconfig p1 = pconfig p \<and> locals p1 = locals p"
  proof (rule promote_cases [OF Cons.prems(1,2) _ _ _ e])
    show "pe_sender E t = Some a" "t \<in> A" using Cons.prems by simp_all
    show "\<forall>u \<in> P a. AccountNonce u \<noteq> AccountNonce t" using Cons.prems(5)
      by (metis disjoint_iff image_eqI list.set_intros(1))
  qed
  have u: "insert t (P a) \<union> set ts = P a \<union> set (t # ts)" by auto
  have "\<exists>p'. promote_ready E now a ts p1 = (ts, p') \<and> 
      pool_is E p' ((P(a := insert t (P a)))(a := (P(a := insert t (P a))) a \<union> set ts)) Q A D
    \<and> (filled (pending p1) (P(a := insert t (P a))) \<longrightarrow>
         filled (pending p') ((P(a := insert t (P a)))(a := (P(a := insert t (P a))) a \<union> set ts)))
    \<and> queue p' = queue p1 \<and> pconfig p' = pconfig p1 \<and> locals p' = locals p1"
  proof (rule Cons.IH)
    show "pool_is E p1 (P(a := insert t (P a))) Q A D" using c by simp
  qed (use Cons.prems in auto)
  then obtain p' where p': "promote_ready E now a ts p1 = (ts, p')" "pool_is E p' (P(a := P a \<union> set (t # ts))) Q A D"
    "filled (pending p1) (P(a := insert t (P a))) \<longrightarrow> filled (pending p') (P(a := P a \<union> set (t # ts)))"
    "queue p' = queue p1" "pconfig p' = pconfig p1" "locals p' = locals p1"
    unfolding fun_upd_same fun_upd_upd u by blast
  have "filled (pending p) P \<longrightarrow> filled (pending p1) (P(a := insert t (P a)))" using c by (auto simp: filled_put)
  then have "filled (pending p) P \<longrightarrow> filled (pending p') (P(a := P a \<union> set (t # ts)))" using p'(3) by blast
  moreover have "promote_ready E now a (t # ts) p = (t # ts, p')" using c by (simp add: e p'(1))
  ultimately show ?case using p'(2-) c by (intro exI [of _ p'] conjI) (simp_all only: simp_thms)
qed

section \<open>The invariant\<close>

definition pooled :: "(address \<Rightarrow> transaction set) \<Rightarrow> (address \<Rightarrow> transaction set) \<Rightarrow> transaction set" where
  "pooled P Q = {t. \<exists>a. t \<in> P a \<or> t \<in> Q a}"

definition apart :: "(address \<Rightarrow> transaction set) \<Rightarrow> (address \<Rightarrow> transaction set) \<Rightarrow> bool" where
  "apart P Q \<longleftrightarrow> (\<forall>a. AccountNonce ` P a \<inter> AccountNonce ` Q a = {})"

lemma apart_mono: "apart P Q \<Longrightarrow> (\<And>a. P' a \<subseteq> P a) \<Longrightarrow> (\<And>a. Q' a \<subseteq> Q a) \<Longrightarrow> apart P' Q'"
  unfolding apart_def by blast

lemma pool_home:
  assumes "pool_is E p P Q A D"
  shows "t \<in> P a \<Longrightarrow> pe_sender E t = Some a" "t \<in> Q a \<Longrightarrow> pe_sender E t = Some a"
    "t \<in> P a \<Longrightarrow> u \<in> P a \<Longrightarrow> AccountNonce t = AccountNonce u \<Longrightarrow> t = u"
    "t \<in> Q a \<Longrightarrow> u \<in> Q a \<Longrightarrow> AccountNonce t = AccountNonce u \<Longrightarrow> t = u"
  using assms maps_to_sender maps_to_inj by (fastforce simp: pool_is_def)+

lemma pooled_shrink:
  assumes "pool_is E p P Q A D" "apart P Q"
  shows "X \<subseteq> P a \<Longrightarrow> pooled (P(a := P a - X)) Q = pooled P Q - X"
    "X \<subseteq> Q a \<Longrightarrow> pooled P (Q(a := Q a - X)) = pooled P Q - X"
proof -
  have one: "b = a" if "t \<in> P a \<union> Q a" "t \<in> P b \<union> Q b" for t b
    using that pool_home(1,2) [OF assms(1)] by (metis Un_iff option.inject)
  have two: "t \<notin> Q a" if "t \<in> P a" for t using that assms(2) by (auto simp: apart_def)
  have at: "t \<in> pooled F G \<longleftrightarrow> t \<in> F a \<or> t \<in> G a \<or> (\<exists>b. b \<noteq> a \<and> (t \<in> F b \<or> t \<in> G b))" for t F G
    by (auto simp: pooled_def)
  show "pooled (P(a := P a - X)) Q = pooled P Q - X" if "X \<subseteq> P a"
  proof (rule set_eqI)
    fix t
    show "t \<in> pooled (P(a := P a - X)) Q \<longleftrightarrow> t \<in> pooled P Q - X"
      unfolding at Diff_iff using that one [of t] two [of t] by (cases "t \<in> P a") auto
  qed
  show "pooled P (Q(a := Q a - X)) = pooled P Q - X" if "X \<subseteq> Q a"
  proof (rule set_eqI)
    fix t
    show "t \<in> pooled P (Q(a := Q a - X)) \<longleftrightarrow> t \<in> pooled P Q - X"
      unfolding at Diff_iff using that one [of t] two [of t] by (cases "t \<in> Q a") auto
  qed
qed

text \<open>The invariant between operations: the pool knows exactly what is pending or queued, no nonce of an account is both,
  and no list of pending transactions is empty.\<close>

definition pool_ok ::
  "'t pool_env \<Rightarrow> 't txPool \<Rightarrow> (address \<Rightarrow> transaction set) \<Rightarrow> (address \<Rightarrow> transaction set) \<Rightarrow> transaction set \<Rightarrow> bool" where
  "pool_ok E p P Q D \<longleftrightarrow> pool_is E p P Q (pooled P Q) D \<and> apart P Q \<and> filled (pending p) P"

section \<open>Removing a transaction\<close>

lemma remove_queued_is:
  assumes ab: "pool_is E p P Q A D" and rng: "ranges_ok E" and tx: "tx \<in> Q a"
  shows "pool_is E (remove_queued E a tx p) P (Q(a := Q a - {tx})) A D \<and> pending (remove_queued E a tx p) = pending p
    \<and> (\<forall>c. c \<noteq> a \<longrightarrow> gm_get (queue (remove_queued E a tx p)) c = gm_get (queue p) c)
    \<and> pconfig (remove_queued E a tx p) = pconfig p \<and> locals (remove_queued E a tx p) = locals p"
proof -
  obtain l where l: "gm_get (queue p) a = Some l"
    using pool_list(4) [OF ab, of a] tx by (cases "gm_get (queue p) a") auto
  have li: "tl_inv l" "\<not> strict l" "ctxs l = Q a" using pool_list(3) [OF ab l] by simp_all
  obtain removed invalids l' where r: "tl_Remove (rngN E) l tx = ((removed, invalids), l')" by (metis surj_pair)
  have rn: "range_ok (rngN E)" using rng by (simp add: ranges_ok_def)
  have "{t \<in> Q a. AccountNonce t \<noteq> AccountNonce tx} = Q a - {tx}" using pool_home(4) [OF ab] tx by auto
  then have l': "tl_inv l'" "\<not> strict l'" "ctxs l' = Q a - {tx}"
    using tl_Remove_cases [OF li(1) rn r] li tx by auto
  have "\<forall>t \<in> ctxs l'. pe_sender E t = Some a" using pool_home(2) [OF ab] l'(3) by auto
  then have "pool_is E (p\<lparr>queue := gm_put (queue p) a l'\<rparr>) P (Q(a := Q a - {tx})) A D"
    using put_queue [OF ab l'(1,2)] l'(3) by simp
  moreover have "pool_is E (p\<lparr>queue := gm_del (queue p) a\<rparr>) P (Q(a := Q a - {tx})) A D" if "tl_Empty l'"
    using del_empty(1) [OF ab l'(1) that, of a] l'(3) by simp
  ultimately show ?thesis by (simp add: remove_queued_def l r gm_get_put gm_get_del)
qed

lemma removeTx_ok:
  assumes ok: "pool_ok E p P Q D" and rng: "ranges_ok E"
  shows "\<exists>P' Q'. pool_ok E (removeTx E h b p) P' Q' D \<and> pooled P' Q' = {u \<in> pooled P Q. pe_txhash E u \<noteq> h}
    \<and> (\<forall>a. P' a \<subseteq> P a) \<and> (\<forall>t a. t \<in> Q a \<longrightarrow> pe_txhash E t = h \<longrightarrow> P' = P \<and> Q' = Q(a := Q a - {t})
         \<and> (\<forall>c. c \<noteq> a \<longrightarrow> gm_get (queue (removeTx E h b p)) c = gm_get (queue p) c))
    \<and> pconfig (removeTx E h b p) = pconfig p \<and> locals (removeTx E h b p) = locals p"
proof -
  let ?A = "pooled P Q"
  have ab: "pool_is E p P Q ?A D" and ap: "apart P Q" and fl: "filled (pending p) P" using ok by (simp_all add: pool_ok_def)
  show ?thesis
  proof (cases "gm_get (pool_all p) h")
    case None
    then have "{u \<in> ?A. pe_txhash E u \<noteq> h} = ?A" "\<forall>t a. t \<in> Q a \<longrightarrow> pe_txhash E t \<noteq> h"
      using pool_is_all(2) [OF ab] by (auto simp: pooled_def)
    then show ?thesis by - (rule exI [of _ P], rule exI [of _ Q], use None ok in \<open>auto simp: removeTx_def\<close>)
  next
    case (Some tx)
    then have tx: "tx \<in> ?A" "pe_txhash E tx = h" using pool_is_all(1) [OF ab] by auto
    then obtain a where a: "tx \<in> P a \<or> tx \<in> Q a" by (auto simp: pooled_def)
    then have sd: "pe_sender E tx = Some a" "senderOf E tx = a" using pool_home(1,2) [OF ab] by (auto simp: sender_or_zero_def)
    have A1: "{u \<in> ?A. pe_txhash E u \<noteq> h} = ?A - {tx}"
      using tx ab knows_inj [of E "pool_all p" "priced p" ?A D] by (auto simp: pool_is_def)
    have only: "t = tx \<and> a' = a" if "t \<in> Q a'" "pe_txhash E t = h" for t a'
    proof -
      have "t \<in> ?A" using that(1) by (auto simp: pooled_def)
      moreover have "t \<notin> ?A - {tx}" unfolding A1 [symmetric] using that(2) by simp
      ultimately show ?thesis using pool_home(2) [OF ab that(1)] sd(1) by simp
    qed
    define p1 where "p1 = p\<lparr>pool_all := lookup_Remove (pool_all p) h\<rparr>"
    define p2 where "p2 = (if b then price_removed E p1 else p1)"
    have "pool_is E p1 P Q (?A - {tx}) D" using ab knows_remove [of E "pool_all p" "priced p" ?A D h]
      by (simp add: pool_is_def p1_def A1)
    then have ab2: "pool_is E p2 P Q (?A - {tx}) D" using price_removed_is [OF _ rng] by (simp add: p2_def)
    have p2: "pending p2 = pending p" "queue p2 = queue p" "pconfig p2 = pconfig p" "locals p2 = locals p"
      by (simp_all add: p2_def p1_def price_removed_def)
    have queued: ?thesis if q: "tx \<in> Q a" and e: "removeTx E h b p = remove_queued E a tx p3"
      and p3: "pool_is E p3 P Q (?A - {tx}) D" "filled (pending p3) P" "pconfig p3 = pconfig p2" "locals p3 = locals p2"
        "queue p3 = queue p2" for p3
    proof -
      have P': "pooled P (Q(a := Q a - {tx})) = ?A - {tx}" by (rule pooled_shrink(2) [OF ab ap]) (use q in simp)
      note rq = remove_queued_is [OF p3(1) rng q]
      have "apart P (Q(a := Q a - {tx}))" by (rule apart_mono [OF ap]) auto
      then have "pool_ok E (remove_queued E a tx p3) P (Q(a := Q a - {tx})) D"
        using rq p3(2) by (simp add: pool_ok_def P')
      moreover have "\<forall>t a'. t \<in> Q a' \<longrightarrow> pe_txhash E t = h \<longrightarrow> P = P \<and> Q(a := Q a - {tx}) = Q(a' := Q a' - {t})
          \<and> (\<forall>c. c \<noteq> a' \<longrightarrow> gm_get (queue (remove_queued E a tx p3)) c = gm_get (queue p) c)"
        using only rq p3(5) p2(2) by (auto dest: only)
      ultimately show ?thesis unfolding e A1
        by - (rule exI [of _ P], rule exI [of _ "Q(a := Q a - {tx})"], use P' rq p3(3,4) p2 in simp)
    qed
    show ?thesis
    proof (cases "gm_get (pending p2) a")
      case None
      then have "P a = {}" by (rule pool_list(2) [OF ab2])
      moreover have "removeTx E h b p = remove_queued E a tx p2"
        by (simp only: removeTx_def Some option.case Let_def sd p1_def [symmetric] p2_def [symmetric] None)
      ultimately show ?thesis using queued [of p2] a ab2 fl p2 by simp
    next
      case l: (Some l)
      have li: "tl_inv l" "strict l" "ctxs l = P a" using pool_list(1) [OF ab2 l] by simp_all
      obtain removed invalids l' where r: "tl_Remove (rngN E) l tx = ((removed, invalids), l')" by (metis surj_pair)
      have rn: "range_ok (rngN E)" using rng by (simp add: ranges_ok_def)
      note c = tl_Remove_cases [OF li(1) rn r]
      have senders: "\<forall>t \<in> P a. pe_sender E t = Some a" using pool_home(1) [OF ab] by simp
      show ?thesis
      proof (cases removed)
        case False
        define p3 where "p3 = p2\<lparr>pending := gm_put (pending p2) a l'\<rparr>"
        have l': "tl_inv l'" "strict l'" "ctxs l' = P a" using c False li by auto
        then have "pool_is E p3 P Q (?A - {tx}) D"
          using put_pending [OF ab2 l'(1,2), of a] senders by (simp add: p3_def)
        moreover have "tx \<in> Q a" using a c False li(3) by auto
        moreover have "removeTx E h b p = remove_queued E a tx p3"
          by (simp only: removeTx_def Some option.case Let_def sd p1_def [symmetric] p2_def [symmetric] l r prod.case False
              not_False_eq_True if_True p3_def)
        moreover have "filled (pending p3) P"
          using fl l filled_put [OF fl, of "P a" a l'] by (auto simp: p3_def p2 filled_def)
        ultimately show ?thesis using queued [of p3] by (simp add: p3_def)
      next
        case True
        have "tx \<in> P a"
        proof (rule ccontr)
          assume "tx \<notin> P a"
          then have "tx \<in> Q a" using a by simp
          moreover obtain u where "u \<in> P a" "AccountNonce u = AccountNonce tx" using c True li(3) by auto
          ultimately show False using ap by (auto simp: apart_def disjoint_iff image_iff)
        qed
        let ?lo = "{t \<in> P a. AccountNonce t < AccountNonce tx}" and ?hi = "{t \<in> P a. AccountNonce t > AccountNonce tx}"
        have l': "tl_inv l'" "strict l'" "ctxs l' = ?lo" "set invalids = ?hi" using c True li by auto
        define p3 where "p3 = (if tl_Empty l' then p2\<lparr>pending := gm_del (pending p2) a, beats := gm_del (beats p2) a\<rparr>
              else p2\<lparr>pending := gm_put (pending p2) a l'\<rparr>)"
        let ?P = "P(a := ?lo)" and ?Q = "Q(a := Q a \<union> ?hi)"
        have e: "removeTx E h b p = lower_nonce E a (AccountNonce tx) (enqueue_all E invalids p3)"
          by (simp only: removeTx_def Some option.case Let_def sd p1_def [symmetric] p2_def [symmetric] l r prod.case True
              not_True_eq_False if_False p3_def)
        have "pool_is E (p2\<lparr>pending := gm_put (pending p2) a l'\<rparr>) ?P Q (?A - {tx}) D"
          using put_pending [OF ab2 l'(1,2), of a] senders l'(3) by simp
        then have ab3: "pool_is E p3 ?P Q (?A - {tx}) D"
          using del_empty(2) [OF ab2 l'(1), of a] by (simp add: p3_def l'(3))
        have fl3: "filled (pending p3) ?P"
          using filled_del [OF fl, of a] filled_put [OF fl] tl_Empty_iff [OF l'(1)] l'(3) by (simp add: p3_def p2)
        have sub: "Q a \<union> ?hi \<subseteq> ?A - {tx}"
          using \<open>tx \<in> P a\<close> ap by (auto simp: pooled_def apart_def)
        have inj: "inj_on AccountNonce (Q a \<union> ?hi)"
          using pool_home(3,4) [OF ab] ap by (auto simp: inj_on_def apart_def disjoint_iff image_iff; metis)
        note en = enqueue_all_is [OF ab3 rng, of invalids a, unfolded l'(4), OF _ sub inj]
        have P': "pooled ?P ?Q = ?A - {tx}"
        proof (rule set_eqI)
          fix t
          have at: "t \<in> pooled F G \<longleftrightarrow> t \<in> F a \<or> t \<in> G a \<or> (\<exists>b. b \<noteq> a \<and> (t \<in> F b \<or> t \<in> G b))" for F G
            by (auto simp: pooled_def)
          have "t \<in> P a \<and> t \<noteq> tx \<longleftrightarrow> t \<in> ?lo \<union> ?hi"
            using pool_home(3) [OF ab \<open>tx \<in> P a\<close>, of t]
              less_linear [of "AccountNonce t" "AccountNonce tx"] by auto
          moreover have "t = tx \<Longrightarrow> t \<notin> Q a" using \<open>tx \<in> P a\<close> ap by (auto simp: apart_def)
          moreover have "t = tx \<Longrightarrow> \<not> (\<exists>b. b \<noteq> a \<and> (t \<in> P b \<or> t \<in> Q b))"
            using pool_home(1,2) [OF ab] sd(1) by auto
          ultimately show "t \<in> pooled ?P ?Q \<longleftrightarrow> t \<in> ?A - {tx}" unfolding at Diff_iff by auto
        qed
        have "apart ?P ?Q"
          using ap pool_home(3) [OF ab] by (auto simp: apart_def disjoint_iff image_iff)
        then have "pool_ok E (removeTx E h b p) ?P ?Q D"
          unfolding e using en senders fl3 by (simp add: pool_ok_def P')
        moreover have "\<forall>b. ?P b \<subseteq> P b" by auto
        moreover have "\<forall>t a'. t \<in> Q a' \<longrightarrow> pe_txhash E t = h \<longrightarrow> ?P = P \<and> ?Q = Q(a' := Q a' - {t})
            \<and> (\<forall>c. c \<noteq> a' \<longrightarrow> gm_get (queue (removeTx E h b p)) c = gm_get (queue p) c)"
          using only \<open>tx \<in> P a\<close> ap by (fastforce simp: apart_def)
        moreover have "pconfig (removeTx E h b p) = pconfig p" "locals (removeTx E h b p) = locals p"
          unfolding e using en senders by (simp_all add: p3_def p2)
        ultimately show ?thesis unfolding A1 using P' by blast
      qed
    qed
  qed
qed

end
