(* ===== verification/Tx_Pool_Add.thy ===== *)
theory Tx_Pool_Add
  imports Tx_Pool_Inv
begin

text \<open>
  Adding a transaction to the pool (\<open>core/tx_pool.go\<close>): validation, room in a full pool, replacement of a pending
  transaction, the queue. Every outcome leaves a pool in order.
\<close>

section \<open>Removing several transactions\<close>

lemma pool_ok_except:
  assumes "pool_ok E p P Q D" "pooled P Q \<inter> D \<subseteq> D'"
  shows "pool_ok E p P Q D'"
  using assms by (auto simp: pool_ok_def pool_is_def knows_def)

lemma pool_ok_other [simp]:
  "pool_ok E (p\<lparr>currentState := s\<rparr>) P Q D = pool_ok E p P Q D"
  "pool_ok E (p\<lparr>pendingState := ms\<rparr>) P Q D = pool_ok E p P Q D"
  "pool_ok E (p\<lparr>currentMaxGas := g\<rparr>) P Q D = pool_ok E p P Q D"
  "pool_ok E (p\<lparr>locals := ls\<rparr>) P Q D = pool_ok E p P Q D"
  "pool_ok E (p\<lparr>gasPrice := gp\<rparr>) P Q D = pool_ok E p P Q D"
  "pool_ok E (p\<lparr>pool_events := ev\<rparr>) P Q D = pool_ok E p P Q D"
  "pool_ok E (p\<lparr>pool_head := hd'\<rparr>) P Q D = pool_ok E p P Q D"
  by (simp_all add: pool_ok_def)

lemma pool_ok_reads [simp]:
  "pool_ok E (snd (cur_nonce E a p)) P Q D = pool_ok E p P Q D"
  "pool_ok E (snd (cur_balance E a p)) P Q D = pool_ok E p P Q D"
  "pool_ok E (snd (pend_nonce E a p)) P Q D = pool_ok E p P Q D"
  "pool_ok E (set_pend_nonce E a n p) P Q D = pool_ok E p P Q D"
  "pool_ok E (lower_nonce E a n p) P Q D = pool_ok E p P Q D"
  by (simp_all add: pool_ok_def)

text \<open>What every operation keeps.\<close>

definition kept_fields :: "'t txPool \<Rightarrow> 't txPool \<Rightarrow> bool" where
  "kept_fields p p' \<longleftrightarrow> pconfig p' = pconfig p \<and> (\<forall>a. as_contains (locals p) a \<longrightarrow> as_contains (locals p') a)"

lemma kept_fields_refl [simp]: "kept_fields p p"
  by (simp add: kept_fields_def)

lemma kept_fields_trans: "kept_fields p q \<Longrightarrow> kept_fields q r \<Longrightarrow> kept_fields p r"
  by (simp add: kept_fields_def)

lemma kept_same: "pconfig p' = pconfig p \<Longrightarrow> locals p' = locals p \<Longrightarrow> kept_fields p p'"
  by (simp add: kept_fields_def)

lemma remove_all_ok:
  assumes "pool_ok E p P Q D" "ranges_ok E"
  shows "\<exists>P' Q'. pool_ok E (remove_all E b ts p) P' Q' D
    \<and> pooled P' Q' = {u \<in> pooled P Q. pe_txhash E u \<notin> pe_txhash E ` set ts}
    \<and> (\<forall>a. P' a \<subseteq> P a) \<and> pconfig (remove_all E b ts p) = pconfig p \<and> locals (remove_all E b ts p) = locals p"
  using assms(1)
proof (induction ts arbitrary: p P Q)
  case Nil
  then show ?case by (intro exI [of _ P] exI [of _ Q]) (simp add: remove_all_def)
next
  case (Cons t ts)
  let ?p1 = "removeTx E (pe_txhash E t) b p"
  obtain P1 Q1 where 1: "pool_ok E ?p1 P1 Q1 D" "pooled P1 Q1 = {u \<in> pooled P Q. pe_txhash E u \<noteq> pe_txhash E t}"
    "\<forall>a. P1 a \<subseteq> P a" "pconfig ?p1 = pconfig p" "locals ?p1 = locals p"
    using removeTx_ok [OF Cons.prems assms(2)] by blast
  obtain P2 Q2 where 2: "pool_ok E (remove_all E b ts ?p1) P2 Q2 D"
    "pooled P2 Q2 = {u \<in> pooled P1 Q1. pe_txhash E u \<notin> pe_txhash E ` set ts}"
    "\<forall>a. P2 a \<subseteq> P1 a" "pconfig (remove_all E b ts ?p1) = pconfig ?p1" "locals (remove_all E b ts ?p1) = locals ?p1"
    using Cons.IH [OF 1(1)] by blast
  have e: "remove_all E b (t # ts) p = remove_all E b ts ?p1" by (simp add: remove_all_def)
  show ?case unfolding e
  proof (rule exI [of _ P2], rule exI [of _ Q2], intro conjI)
    show "\<forall>a. P2 a \<subseteq> P a" using 1(3) 2(3) by blast
    show "pooled P2 Q2 = {u \<in> pooled P Q. pe_txhash E u \<notin> pe_txhash E ` set (t # ts)}" using 1(2) 2(2) by auto
  qed (use 1 2 in simp_all)
qed

section \<open>Making room\<close>

lemma filter_live_subset:
  assumes "{#t \<in># mset xs. R t#} = mset ds + {#t \<in># mset ys. R t#}" "t \<in> set xs" "R t"
  shows "t \<in> set ds \<or> t \<in> set ys"
proof -
  have "t \<in># {#t \<in># mset xs. R t#}" using assms(2,3) by simp
  then show ?thesis unfolding assms(1) by auto
qed

lemma pool_reprice:
  assumes "pool_ok E p P Q {}" "pl_inv pl"
    "{#t \<in># mset (pitems (priced p)). live (pe_txhash E) (pool_all p) t#} =
       mset ds + {#t \<in># mset (pitems pl). live (pe_txhash E) (pool_all p) t#}"
  shows "pool_ok E (p\<lparr>priced := pl\<rparr>) P Q (set ds)"
proof -
  have k: "knows E (pool_all p) (priced p) (pooled P Q) {}" using assms(1) by (simp add: pool_ok_def pool_is_def)
  have "t \<in> set ds \<or> t \<in> set (pitems pl)" if "t \<in> pooled P Q" for t
  proof (rule filter_live_subset [OF assms(3)])
    show "t \<in> set (pitems (priced p))" "live (pe_txhash E) (pool_all p) t"
      using k that by (auto simp: knows_def live_def)
  qed
  then have "knows E (pool_all p) pl (pooled P Q) (set ds)" using k assms(2) by (auto simp: knows_def)
  then show ?thesis using assms(1) by (simp add: pool_ok_def pool_is_def)
qed

lemma pool_reprice_all:
  assumes "pool_ok E p P Q {}" "pl_inv pl"
    "{#t \<in># mset (pitems (priced p)). live (pe_txhash E) (pool_all p) t#} =
       {#t \<in># mset (pitems pl). live (pe_txhash E) (pool_all p) t#}"
  shows "pool_ok E (p\<lparr>priced := pl\<rparr>) P Q {}"
  using pool_reprice [OF assms(1,2), of "[]"] assms(3) by simp

text \<open>The transactions the price list gives up are removed from the pool.\<close>

lemma give_up_ok:
  assumes "pool_ok E (p\<lparr>priced := pl\<rparr>) P Q (set ds)" "ranges_ok E"
  shows "\<exists>P' Q'. pool_ok E (remove_all E b ds (p\<lparr>priced := pl\<rparr>)) P' Q' {} \<and> pooled P' Q' \<subseteq> pooled P Q
    \<and> (\<forall>a. P' a \<subseteq> P a) \<and> pconfig (remove_all E b ds (p\<lparr>priced := pl\<rparr>)) = pconfig p
    \<and> locals (remove_all E b ds (p\<lparr>priced := pl\<rparr>)) = locals p"
proof -
  obtain P' Q' where 1: "pool_ok E (remove_all E b ds (p\<lparr>priced := pl\<rparr>)) P' Q' (set ds)"
    "pooled P' Q' = {u \<in> pooled P Q. pe_txhash E u \<notin> pe_txhash E ` set ds}" "\<forall>a. P' a \<subseteq> P a"
    "pconfig (remove_all E b ds (p\<lparr>priced := pl\<rparr>)) = pconfig p" "locals (remove_all E b ds (p\<lparr>priced := pl\<rparr>)) = locals p"
    using remove_all_ok [OF assms, of b ds] by auto
  then have "pooled P' Q' \<inter> set ds \<subseteq> {}" by auto
  then show ?thesis using 1 pool_ok_except [OF 1(1)] by blast
qed

lemma knows_card:
  assumes "knows E m pl A D"
  shows "finite A" "card A = length m"
proof -
  have m: "gm_wf m" "set (map snd m) = A" using assms by (force simp: knows_def gm_wf_def)+
  have e: "map (pe_txhash E) (map snd m) = map fst m" using assms by (force simp: knows_def gm_wf_def)
  have "distinct (map (pe_txhash E) (map snd m))" unfolding e using m(1) by (simp add: gm_wf_def)
  then have "distinct (map snd m)" by (rule distinct_mapI)
  then show "card A = length m" using distinct_card [of "map snd m"] m(2) by simp
  show "finite A" using m(2) by (metis finite_set)
qed

lemma pool_ok_card: "pool_ok E p P Q D \<Longrightarrow> finite (pooled P Q) \<and> card (pooled P Q) = length (pool_all p)"
  using knows_card by (fastforce simp: pool_ok_def pool_is_def)

lemma room_positive:
  fixes s :: u64
  assumes "n < 2 ^ 62" "of_nat n \<ge> s"
  shows "sint (of_nat n - (s - 1)) > 0"
proof -
  have n: "unat (of_nat n :: u64) = n" by (rule unat_of_nat_u64) (use assms(1) in simp)
  have "of_nat n - (s - 1) = (of_nat n - s) + 1" by simp
  moreover have d: "unat (of_nat n - s) = n - unat s" using assms(2) n by (simp add: unat_sub)
  moreover have "unat ((of_nat n - s) + 1) = n - unat s + 1"
    by (subst unat_Suc_u64) (use assms(1) d in simp_all)
  ultimately have u: "uint (of_nat n - (s - 1)) = int (n - unat s + 1)" by (metis uint_nat)
  have "int (n - unat s + 1) < 2 ^ 63" using assms(1) by simp
  then have "sint (of_nat n - (s - 1)) = int (n - unat s + 1)"
    unfolding sint_uint u by (intro signed_take_bit_int_eq_self) simp_all
  then show ?thesis by simp
qed

lemma make_room_ok:
  assumes ok: "pool_ok E p P Q {}" and rng: "ranges_ok E" and n: "length (pool_all p) < 2 ^ 62"
  shows "\<exists>r p' P' Q'. make_room E tx isLocal p = Some (r, p') \<and> pool_ok E p' P' Q' {} \<and> pooled P' Q' \<subseteq> pooled P Q
    \<and> pconfig p' = pconfig p \<and> locals p' = locals p"
proof -
  let ?full = "(of_nat (length (pool_all p)) :: u64) \<ge> GlobalSlots (pconfig p) + GlobalQueue (pconfig p)"
  show ?thesis
  proof (cases ?full)
    case False
    then show ?thesis using ok by (intro exI [of _ None] exI [of _ p]) (auto simp: make_room_def)
  next
    case full: True
    obtain under pl where u: "(if isLocal then (False, priced p)
        else Underpriced (pe_txhash E) (pe_sender E) (pool_all p) (locals p) tx (priced p)) = (under, pl)" by fastforce
    define p1 where "p1 = p\<lparr>priced := pl\<rparr>"
    have inv: "pl_inv (priced p)" using ok by (simp add: pool_ok_def pool_is_def knows_def)
    have "pl_inv pl \<and> {#t \<in># mset (pitems (priced p)). live (pe_txhash E) (pool_all p) t#} =
       {#t \<in># mset (pitems pl). live (pe_txhash E) (pool_all p) t#}"
    proof (cases isLocal)
      case True
      then show ?thesis using u inv by simp
    next
      case False
      then show ?thesis using Underpriced_spec [OF inv] u by fastforce
    qed
    then have ok1: "pool_ok E p1 P Q {}" using pool_reprice_all [OF ok] by (simp add: p1_def)
    show ?thesis
    proof (cases under)
      case True
      then have "make_room E tx isLocal p = Some (Some ErrUnderpriced, p1)"
        using full u by (simp add: make_room_def p1_def)
      then show ?thesis using ok1 by (intro exI [of _ "Some ErrUnderpriced"] exI [of _ p1]) (auto simp: p1_def)
    next
      case False
      let ?cnt = "sint (of_nat (length (pool_all p)) - (GlobalSlots (pconfig p) + GlobalQueue (pconfig p) - 1))"
      have "?cnt > 0" by (rule room_positive [OF n]) (use full in simp)
      then have "Discard (pe_txhash E) (pe_sender E) (pool_all p1) (locals p1) ?cnt (priced p1) \<noteq> None"
        by (simp add: Discard_def split: prod.splits)
      then obtain drops pl' where d: "Discard (pe_txhash E) (pe_sender E) (pool_all p1) (locals p1) ?cnt (priced p1) = Some (drops, pl')"
        by auto
      have inv1: "pl_inv (priced p1)" using ok1 by (simp add: pool_ok_def pool_is_def knows_def)
      have ok2: "pool_ok E (p1\<lparr>priced := pl'\<rparr>) P Q (set drops)"
        by (rule pool_reprice [OF ok1]) (use Discard_spec [OF inv1 d] in auto)
      have "make_room E tx isLocal p = Some (None, remove_all E False drops (p1\<lparr>priced := pl'\<rparr>))"
        using full u False d by (simp add: make_room_def p1_def)
      then show ?thesis using give_up_ok [OF ok2 rng, of False]
        by (auto simp: p1_def)
    qed
  qed
qed

section \<open>Adding\<close>

lemma read_fields [simp]:
  "pool_all (snd (cur_nonce E a p)) = pool_all p" "pool_all (snd (cur_balance E a p)) = pool_all p"
  by (simp_all add: cur_nonce_def cur_balance_def split: prod.splits)

lemma validate_keeps:
  assumes "validateTx E tx isLocal p = (r, p')"
  shows "pool_ok E p' P Q D = pool_ok E p P Q D" "pconfig p' = pconfig p" "locals p' = locals p" "pool_all p' = pool_all p"
    "r = None \<Longrightarrow> pe_sender E tx \<noteq> None"
proof -
  have "(pool_ok E p' P Q D = pool_ok E p P Q D \<and> pconfig p' = pconfig p \<and> locals p' = locals p \<and> pool_all p' = pool_all p)
    \<and> (r = None \<longrightarrow> pe_sender E tx \<noteq> None)"
  proof (cases "pe_sender E tx")
    case None
    then show ?thesis using assms by (auto simp: validateTx_def split: if_splits)
  next
    case (Some a)
    obtain n p1 where 1: "cur_nonce E a p = (n, p1)" by fastforce
    obtain b p2 where 2: "cur_balance E a p1 = (b, p2)" by fastforce
    have k1: "pool_ok E p1 P Q D = pool_ok E p P Q D \<and> pconfig p1 = pconfig p \<and> locals p1 = locals p \<and> pool_all p1 = pool_all p"
      using 1 pool_ok_reads(1) [of E a p P Q D] cur_nonce_is(4,5) [of E a p] read_fields(1) [of E a p] by simp
    have k2: "pool_ok E p2 P Q D = pool_ok E p1 P Q D \<and> pconfig p2 = pconfig p1 \<and> locals p2 = locals p1 \<and> pool_all p2 = pool_all p1"
      using 2 pool_ok_reads(2) [of E a p1 P Q D] cur_balance_is(4,5) [of E a p1] read_fields(2) [of E a p1] by simp
    have "p' = p \<or> p' = p1 \<or> p' = p2"
      using assms by (auto simp: validateTx_def Some 1 2 split: if_splits sum.splits)
    then show ?thesis using k1 k2 Some by auto
  qed
  then show "pool_ok E p' P Q D = pool_ok E p P Q D" "pconfig p' = pconfig p" "locals p' = locals p" "pool_all p' = pool_all p"
    "r = None \<Longrightarrow> pe_sender E tx \<noteq> None" by simp_all
qed

lemma pooled_put:
  assumes "pool_is E p P Q A D" "apart P Q" "tx \<notin> pooled P Q"
  shows "pooled (P(a := insert tx (P a - same_nonce tx (P a)))) Q = insert tx (pooled P Q - same_nonce tx (P a))"
    "pooled P (Q(a := insert tx (Q a - same_nonce tx (Q a)))) = insert tx (pooled P Q - same_nonce tx (Q a))"
proof -
  have s: "same_nonce tx S \<subseteq> S" for S by (auto simp: same_nonce_def)
  have ins: "pooled (P(a := insert tx S)) Q = insert tx (pooled (P(a := S)) Q)"
    "pooled P (Q(a := insert tx S)) = insert tx (pooled P (Q(a := S)))" for S by (auto simp: pooled_def split: if_splits)
  show "pooled (P(a := insert tx (P a - same_nonce tx (P a)))) Q = insert tx (pooled P Q - same_nonce tx (P a))"
    "pooled P (Q(a := insert tx (Q a - same_nonce tx (Q a)))) = insert tx (pooled P Q - same_nonce tx (Q a))"
    unfolding ins pooled_shrink(1) [OF assms(1,2) s] pooled_shrink(2) [OF assms(1,2) s] by simp_all
qed

text \<open>The transaction with the same nonce that the new one replaces.\<close>

lemma replace_pending_ok:
  assumes ok: "pool_ok E p P Q {}" and rng: "ranges_ok E" and tx: "pe_sender E tx = Some a" "\<forall>u \<in> pooled P Q. pe_txhash E u \<noteq> pe_txhash E tx"
    and l: "gm_get (pending p) a = Some l" "Overlaps l tx" and add: "tl_Add l tx bump = ((ins, old), l')"
  shows "pool_ok E (p\<lparr>pending := gm_put (pending p) a l\<rparr>) P Q {}"
    "\<not> ins \<Longrightarrow> l' = l"
    "ins \<Longrightarrow> pool_ok E (track E tx (case old of None \<Rightarrow> p\<lparr>pending := gm_put (pending p) a l'\<rparr>
        | Some u \<Rightarrow> forget E (pe_txhash E u) (p\<lparr>pending := gm_put (pending p) a l'\<rparr>)))
      (P(a := insert tx (P a - same_nonce tx (P a)))) Q {}"
    "pooled (P(a := insert tx (P a - same_nonce tx (P a)))) Q \<subseteq> insert tx (pooled P Q)"
proof -
  let ?A = "pooled P Q" and ?S = "same_nonce tx (P a)"
  have ab: "pool_is E p P Q ?A {}" and ap: "apart P Q" and fl: "filled (pending p) P" using ok by (simp_all add: pool_ok_def)
  have li: "tl_inv l" "strict l" "ctxs l = P a" using pool_list(1) [OF ab l(1)] by simp_all
  note c = tl_Add_cases [OF li(1) add, unfolded li(3)]
  have senders: "\<forall>t \<in> P a. pe_sender E t = Some a" using pool_home(1) [OF ab] by simp
  have PA: "P a \<subseteq> ?A" by (auto simp: pooled_def)
  have tx_new: "tx \<notin> ?A" using tx(2) by auto
  have "P a \<noteq> {}" using fl l(1) by (auto simp: filled_def)
  then show "pool_ok E (p\<lparr>pending := gm_put (pending p) a l\<rparr>) P Q {}"
    using put_pending [OF ab li(1,2), of a] senders filled_put [OF fl, of "P a" a l] ap by (simp add: pool_ok_def li(3))
  show "\<not> ins \<Longrightarrow> l' = l" using c by simp
  have P': "pooled (P(a := insert tx (P a - ?S))) Q = insert tx (?A - ?S)" by (rule pooled_put(1) [OF ab ap tx_new])
  then show "pooled (P(a := insert tx (P a - ?S))) Q \<subseteq> insert tx ?A" by auto
  assume ins
  let ?p1 = "p\<lparr>pending := gm_put (pending p) a l'\<rparr>"
  have l': "tl_inv l'" "strict l'" "ctxs l' = insert tx (P a - ?S)" using c \<open>ins\<close> li(2) by (auto simp: same_nonce_def)
  have is1: "pool_is E ?p1 (P(a := insert tx (P a - ?S))) Q ?A {}"
    using put_pending [OF ab l'(1,2), of a] senders tx(1) by (simp add: l'(3))
  have slot: "slot_ok E True a (gm_get (pending p) a) (P a)" using ab maps_to_slot by (auto simp: pool_is_def)
  have c': "\<forall>u. ins \<longrightarrow> old = Some u \<longrightarrow> u \<in> P a \<and> AccountNonce u = AccountNonce tx \<and> u \<noteq> tx"
    "ins \<longrightarrow> old = None \<longrightarrow> (\<forall>u \<in> P a. AccountNonce u \<noteq> AccountNonce tx)" using c by simp_all
  note o = replaced_one [OF slot \<open>ins\<close> c']
  define p2 where "p2 = (case old of None \<Rightarrow> ?p1 | Some u \<Rightarrow> forget E (pe_txhash E u) ?p1)"
  have "pool_is E p2 (P(a := insert tx (P a - ?S))) Q (?A - ?S) {}"
  proof (cases old)
    case None
    then show ?thesis using is1 o(1) by (simp add: p2_def)
  next
    case (Some u)
    then have "u \<in> ?A" "?S = {u}" using c' \<open>ins\<close> PA o(2) by auto
    then show ?thesis using forget_one [OF is1 rng, of u] Some by (simp add: p2_def)
  qed
  then have "pool_is E (track E tx p2) (P(a := insert tx (P a - ?S))) Q (insert tx (?A - ?S)) {}"
    by (rule track_is) (use tx(2) in auto)
  moreover have "apart (P(a := insert tx (P a - ?S))) Q"
  proof -
    obtain u where "u \<in> P a" "AccountNonce u = AccountNonce tx"
      using l(2) sm_Get_iff [of "txs l" "AccountNonce tx"] li by (auto simp: Overlaps_def tl_inv_def)
    then have "AccountNonce ` insert tx (P a - ?S) \<subseteq> AccountNonce ` P a" by (auto intro: rev_image_eqI)
    then show ?thesis using ap by (auto simp: apart_def)
  qed
  moreover have "pending p2 = gm_put (pending p) a l'" by (simp add: p2_def split: option.splits)
  ultimately show "pool_ok E (track E tx (case old of None \<Rightarrow> ?p1 | Some u \<Rightarrow> forget E (pe_txhash E u) ?p1))
      (P(a := insert tx (P a - ?S))) Q {}"
    unfolding p2_def [symmetric] using filled_put [OF fl] by (simp add: pool_ok_def P')
qed

text \<open>The outcome of adding: nothing else comes in, and the new transaction is in exactly when it is accepted.\<close>

definition add_outcome :: "transaction \<Rightarrow> 'e + 'b \<Rightarrow> transaction set \<Rightarrow> transaction set \<Rightarrow> bool" where
  "add_outcome tx r A A' \<longleftrightarrow> (case r of Inl _ \<Rightarrow> A' \<subseteq> A | Inr _ \<Rightarrow> tx \<in> A' \<and> A' \<subseteq> insert tx A)"

lemma add_outcome_insert: "add_outcome tx r A A' \<Longrightarrow> A' \<subseteq> insert tx A"
  by (auto simp: add_outcome_def split: sum.splits)

lemma add_outcome_mono: "add_outcome tx r A A' \<Longrightarrow> A \<subseteq> B \<Longrightarrow> add_outcome tx r B A'"
  by (auto simp: add_outcome_def split: sum.splits)

lemma add_future_ok:
  assumes ok: "pool_ok E p P Q {}" and rng: "ranges_ok E" and tx: "pe_sender E tx = Some a" "\<forall>u \<in> pooled P Q. pe_txhash E u \<noteq> pe_txhash E tx"
    and free: "\<forall>u \<in> P a. AccountNonce u \<noteq> AccountNonce tx" and r: "add_future E tx isLocal p = (r, p')"
  shows "\<exists>P' Q'. pool_ok E p' P' Q' {} \<and> add_outcome tx r (pooled P Q) (pooled P' Q') \<and> kept_fields p p'"
proof -
  let ?A = "pooled P Q" and ?S = "same_nonce tx (Q a)"
  have ab: "pool_is E p P Q ?A {}" and ap: "apart P Q" and fl: "filled (pending p) P" using ok by (simp_all add: pool_ok_def)
  obtain r1 p1 where e: "enqueueTx E (pe_txhash E tx) tx p = (r1, p1)" by fastforce
  have QA: "Q a \<subseteq> ?A" by (auto simp: pooled_def)
  have tx_new: "tx \<notin> ?A" using tx(2) by auto
  note c = enqueue_cases [OF ab rng tx(1) QA _ e]
  have rr: "r = r1" using r e by (auto simp: add_future_def split: sum.splits)
  have kf: "pool_ok E p' P' Q' {} = pool_ok E p1 P' Q' {}" "kept_fields p1 p'" for P' Q'
    using r e by (auto simp: add_future_def kept_fields_def as_contains_def as_add_def gm_get_put split: sum.splits if_splits)
  show ?thesis
  proof (cases r1)
    case (Inl e)
    then have "pool_ok E p1 P Q {}" using c tx(2) ap fl by (auto simp: pool_ok_def)
    then show ?thesis using kf c tx(2) kept_same [of p1 p] kept_fields_trans [of p p1 p']
      by (intro exI [of _ P] exI [of _ Q]) (auto simp: rr Inl add_outcome_def)
  next
    case (Inr b)
    let ?Q = "Q(a := insert tx (Q a - ?S))"
    have Q': "pooled P ?Q = insert tx (?A - ?S)" by (rule pooled_put(2) [OF ab ap tx_new])
    have "apart P ?Q" using ap free by (auto simp: apart_def disjoint_iff image_iff)
    then have "pool_ok E p1 P ?Q {}" using c Inr tx(2) fl by (auto simp: pool_ok_def Q')
    then show ?thesis using kf c tx(2) kept_same [of p1 p] kept_fields_trans [of p p1 p'] Q'
      by (intro exI [of _ P] exI [of _ ?Q]) (auto simp: rr Inr add_outcome_def)
  qed
qed

lemma pool_add_ok:
  assumes ok: "pool_ok E p P Q {}" and rng: "ranges_ok E" and n: "length (pool_all p) < 2 ^ 62"
  shows "\<exists>r p' P' Q'. pool_add E tx isLocal p = Some (r, p') \<and> pool_ok E p' P' Q' {}
    \<and> add_outcome tx r (pooled P Q) (pooled P' Q') \<and> kept_fields p p'"
proof (cases "gm_get (pool_all p) (pe_txhash E tx)")
  case (Some u)
  then show ?thesis using ok by (auto simp: pool_add_def add_outcome_def)
next
  case unknown: None
  obtain v p1 where v: "validateTx E tx isLocal p = (v, p1)" by fastforce
  note vk = validate_keeps [OF v]
  show ?thesis
  proof (cases v)
    case (Some e)
    then show ?thesis using ok vk(1,2,3) unknown v by (auto simp: pool_add_def kept_fields_def add_outcome_def)
  next
    case None
    then obtain a where a: "pe_sender E tx = Some a" "senderOf E tx = a" using vk(5) by (auto simp: sender_or_zero_def)
    have ok1: "pool_ok E p1 P Q {}" using ok vk(1) by simp
    obtain f p2 P2 Q2 where room: "make_room E tx isLocal p1 = Some (f, p2)" "pool_ok E p2 P2 Q2 {}"
      "pooled P2 Q2 \<subseteq> pooled P Q" "pconfig p2 = pconfig p1" "locals p2 = locals p1"
      using make_room_ok [OF ok1 rng, of tx isLocal] n vk(4) by auto
    have kf2: "kept_fields p p2" using room(4,5) vk(2,3) by (simp add: kept_fields_def)
    have add: "pool_add E tx isLocal p = (case f of
            Some e \<Rightarrow> Some (Inl e, p2)
          | None \<Rightarrow>
              (case gm_get (pending p2) a of
                 Some l \<Rightarrow>
                   if Overlaps l tx then
                     let ((inserted, old), l') = tl_Add l tx (PriceBump (pconfig p2));
                         p3 = p2\<lparr>pending := gm_put (pending p2) a l'\<rparr>
                     in if \<not> inserted then Some (Inl ErrReplaceUnderpriced, p3)
                        else
                          let p4 = (case old of None \<Rightarrow> p3 | Some o' \<Rightarrow> forget E (pe_txhash E o') p3)
                          in Some (Inr (old \<noteq> None), feedNewTxEvent [tx] (track E tx p4))
                   else Some (add_future E tx isLocal p2)
               | None \<Rightarrow> Some (add_future E tx isLocal p2)))"
      using unknown v None room(1) by (simp add: pool_add_def a(2) cong: option.case_cong)
    show ?thesis
    proof (cases f)
      case (Some e)
      then show ?thesis using add room(2,3) kf2 by (auto simp: add_outcome_def)
    next
      case room_made: None
      have ab: "pool_is E p (P) Q (pooled P Q) {}" using ok by (simp add: pool_ok_def)
      have new: "\<forall>u \<in> pooled P2 Q2. pe_txhash E u \<noteq> pe_txhash E tx"
        using unknown pool_is_all(2) [OF ab] room(3) by blast
      have ab2: "pool_is E p2 P2 Q2 (pooled P2 Q2) {}" using room(2) by (simp add: pool_ok_def)
      have future: ?thesis if free: "\<forall>u \<in> P2 a. AccountNonce u \<noteq> AccountNonce tx"
        and e: "pool_add E tx isLocal p = Some (add_future E tx isLocal p2)"
      proof -
        obtain r p' where r: "add_future E tx isLocal p2 = (r, p')" by fastforce
        obtain P' Q' where "pool_ok E p' P' Q' {}" and "add_outcome tx r (pooled P2 Q2) (pooled P' Q')" "kept_fields p2 p'"
          using add_future_ok [OF room(2) rng a(1) new free r] by blast
        moreover have "pool_add E tx isLocal p = Some (r, p')" using e r by simp
        moreover have "add_outcome tx r (pooled P Q) (pooled P' Q')" "kept_fields p p'"
          using calculation add_outcome_mono [OF _ room(3)] kept_fields_trans [OF kf2] by auto
        ultimately show ?thesis by blast
      qed
      show ?thesis
      proof (cases "gm_get (pending p2) a")
        case None
        then show ?thesis using future add room_made pool_list(2) [OF ab2 None] by simp
      next
        case l: (Some l)
        have li: "sm_inv (txs l)" "ctxs l = P2 a" using pool_list(1) [OF ab2 l] by (simp_all add: tl_inv_def)
        show ?thesis
        proof (cases "Overlaps l tx")
          case False
          have "\<forall>u \<in> P2 a. AccountNonce u \<noteq> AccountNonce tx"
            using False sm_Get_iff [OF li(1), of "AccountNonce tx"] li(2) by (auto simp: Overlaps_def)
          then show ?thesis using future add room_made l False by simp
        next
          case ov: True
          obtain ins old l' where t: "tl_Add l tx (PriceBump (pconfig p2)) = ((ins, old), l')" by (metis surj_pair)
          note rp = replace_pending_ok [OF room(2) rng a(1) new l ov t]
          define p3 where "p3 = p2\<lparr>pending := gm_put (pending p2) a l'\<rparr>"
          show ?thesis
          proof (cases ins)
            case False
            then have "pool_ok E p3 P2 Q2 {}" using rp(1,2) by (simp add: p3_def)
            moreover have "pool_add E tx isLocal p = Some (Inl ErrReplaceUnderpriced, p3)"
              using add room_made l ov t False by (simp add: p3_def)
            moreover have "kept_fields p p3" using kf2 by (simp add: p3_def kept_fields_def)
            moreover have "add_outcome tx (Inl ErrReplaceUnderpriced :: core_error + bool) (pooled P Q) (pooled P2 Q2)"
              using room(3) by (simp add: add_outcome_def)
            ultimately show ?thesis by blast
          next
            case True
            define p4 where "p4 = (case old of None \<Rightarrow> p3 | Some u \<Rightarrow> forget E (pe_txhash E u) p3)"
            let ?P = "P2(a := insert tx (P2 a - same_nonce tx (P2 a)))"
            have "pool_ok E (feedNewTxEvent [tx] (track E tx p4)) ?P Q2 {}"
              using rp(3) [OF True, folded p3_def, folded p4_def] by (simp add: feedNewTxEvent_def)
            moreover have "pool_add E tx isLocal p = Some (Inr (old \<noteq> None), feedNewTxEvent [tx] (track E tx p4))"
              unfolding add by (simp only: room_made option.case l ov if_True t Let_def prod.case p3_def [symmetric] True
                  not_True_eq_False if_False p4_def [symmetric])
            moreover have "kept_fields p (feedNewTxEvent [tx] (track E tx p4))"
              using kf2 by (simp add: p4_def p3_def kept_fields_def feedNewTxEvent_def split: option.splits)
            moreover have "add_outcome tx (Inr (old \<noteq> None) :: core_error + bool) (pooled P Q) (pooled ?P Q2)"
            proof -
              have "tx \<in> pooled ?P Q2" by (auto simp: pooled_def)
              then show ?thesis using room(3) rp(4) by (auto simp: add_outcome_def)
            qed
            ultimately show ?thesis by blast
          qed
        qed
      qed
    qed
  qed
qed

end
