(* ===== verification/Tx_Pool_Chain.thy ===== *)
theory Tx_Pool_Chain
  imports Tx_Pool
begin

text \<open>
  The transaction pool and the chain: \<open>core/tx_pool.go\<close>, continued. Demotion, the reset at a new head with the
  transactions of abandoned blocks, eviction, the price limit, what the pool shows of itself, and its construction.
\<close>

section \<open>Demotion\<close>

definition demote_account :: "'t pool_env \<Rightarrow> address \<Rightarrow> 't txPool \<Rightarrow> 't txPool option" where
  "demote_account E addr p =
     (case gm_get (pending p) addr of
        None \<Rightarrow> Some p
      | Some l \<Rightarrow> do {
          let (nonce, p1) = cur_nonce E addr p;
          (olds, l1) \<leftarrow> tl_Forward l nonce;
          old \<leftarrow> deref_all olds;
          let p2 = forget_all E old (p1\<lparr>pending := gm_put (pending p1) addr l1\<rparr>);
          let (balance, p3) = cur_balance E addr p2;
          let ((drops, invalids), l2) = tl_Filter (rngN E) l1 balance (currentMaxGas p3);
          let p4 = enqueue_all E invalids (forget_all E drops (p3\<lparr>pending := gm_put (pending p3) addr l2\<rparr>));
          (l3, p5) \<leftarrow>
            (if tl_Len l2 > 0 \<and> sm_Get (txs l2) nonce = None then do {
               (caps, l3) \<leftarrow> tl_Cap l2 0;
               cap \<leftarrow> deref_all caps;
               Some (l3, enqueue_all E cap (p4\<lparr>pending := gm_put (pending p4) addr l3\<rparr>))
             } else Some (l2, p4));
          Some (if tl_Empty l3 then p5\<lparr>pending := gm_del (pending p5) addr, beats := gm_del (beats p5) addr\<rparr> else p5)
        })"

fun demote_accounts :: "'t pool_env \<Rightarrow> address list \<Rightarrow> 't txPool \<Rightarrow> 't txPool option" where
  "demote_accounts E [] p = Some p"
| "demote_accounts E (a # as) p = do { p1 \<leftarrow> demote_account E a p; demote_accounts E as p1 }"

definition demoteUnexecutables :: "'t pool_env \<Rightarrow> 't txPool \<Rightarrow> 't txPool option" where
  "demoteUnexecutables E p = demote_accounts E (rngA E (gm_keys (pending p))) p"

section \<open>What the pool shows\<close>

fun flatten_lists ::
  "(u64 list \<Rightarrow> u64 list) \<Rightarrow> address list \<Rightarrow> (address, txList) gomap \<Rightarrow>
     (address, transaction list) gomap \<times> (address, txList) gomap" where
  "flatten_lists rng [] m = ([], m)"
| "flatten_lists rng (a # as) m =
     (case gm_get m a of
        None \<Rightarrow> flatten_lists rng as m
      | Some l \<Rightarrow>
          let (ts, l') = tl_Flatten rng l; (rest, m') = flatten_lists rng as (gm_put m a l')
          in (gm_put rest a ts, m'))"

definition pool_Pending :: "'t pool_env \<Rightarrow> 't txPool \<Rightarrow> (address, transaction list) gomap \<times> 't txPool" where
  "pool_Pending E p =
     (let (r, m) = flatten_lists (rngN E) (rngA E (gm_keys (pending p))) (pending p) in (r, p\<lparr>pending := m\<rparr>))"

definition PendingCount :: "'t pool_env \<Rightarrow> 't txPool \<Rightarrow> nat \<times> 't txPool" where
  "PendingCount E p = (let (r, p1) = pool_Pending E p in (foldl (\<lambda>n (_, ts). n + length ts) 0 r, p1))"

definition pool_Content ::
  "'t pool_env \<Rightarrow> 't txPool \<Rightarrow> ((address, transaction list) gomap \<times> (address, transaction list) gomap) \<times> 't txPool" where
  "pool_Content E p =
     (let (r, p1) = pool_Pending E p; (q, m) = flatten_lists (rngN E) (rngA E (gm_keys (queue p1))) (queue p1)
      in ((r, q), p1\<lparr>queue := m\<rparr>))"

definition pool_stats :: "'t txPool \<Rightarrow> nat \<times> nat" where
  "pool_stats p = (foldl (\<lambda>n (_, l). n + tl_Len l) 0 (pending p), foldl (\<lambda>n (_, l). n + tl_Len l) 0 (queue p))"

definition pool_Locals :: "'t pool_env \<Rightarrow> 't txPool \<Rightarrow> address list \<times> 't txPool" where
  "pool_Locals E p = (let (as, s) = as_flatten (rngA E) (locals p) in (as, p\<lparr>locals := s\<rparr>))"

text \<open>One account of \<open>local\<close>: what is pending, then what is queued; an account without either gets no entry.\<close>

definition local_account ::
  "'t pool_env \<Rightarrow> (address, transaction list) gomap \<times> 't txPool \<Rightarrow> address \<Rightarrow> (address, transaction list) gomap \<times> 't txPool" where
  "local_account E x a =
     (let (r, p) = x;
          (r1, p1) = (case gm_get (pending p) a of
             None \<Rightarrow> (r, p)
           | Some l \<Rightarrow> let (ts, l') = tl_Flatten (rngN E) l
                       in (gm_put r a (case gm_get r a of None \<Rightarrow> ts | Some us \<Rightarrow> us @ ts), p\<lparr>pending := gm_put (pending p) a l'\<rparr>))
      in (case gm_get (queue p1) a of
             None \<Rightarrow> (r1, p1)
           | Some l \<Rightarrow> let (ts, l') = tl_Flatten (rngN E) l
                       in (gm_put r1 a (case gm_get r1 a of None \<Rightarrow> ts | Some us \<Rightarrow> us @ ts), p1\<lparr>queue := gm_put (queue p1) a l'\<rparr>)))"

definition pool_local :: "'t pool_env \<Rightarrow> 't txPool \<Rightarrow> (address, transaction list) gomap \<times> 't txPool" where
  "pool_local E p = foldl (local_account E) ([], p) (rngA E (gm_keys (accounts (locals p))))"

datatype TxStatus = TxStatusUnknown | TxStatusQueued | TxStatusPending | TxStatusIncluded

definition pool_Get :: "'t txPool \<Rightarrow> hash \<Rightarrow> txptr" where
  "pool_Get p h = gm_get (pool_all p) h"

definition tx_status :: "'t pool_env \<Rightarrow> 't txPool \<Rightarrow> hash \<Rightarrow> TxStatus" where
  "tx_status E p h =
     (case pool_Get p h of
        None \<Rightarrow> TxStatusUnknown
      | Some tx \<Rightarrow>
          (case gm_get (pending p) (senderOf E tx) of
             None \<Rightarrow> TxStatusQueued
           | Some l \<Rightarrow> if sm_Get (txs l) (AccountNonce tx) \<noteq> None then TxStatusPending else TxStatusQueued))"

definition pool_Status :: "'t pool_env \<Rightarrow> 't txPool \<Rightarrow> hash list \<Rightarrow> TxStatus list" where
  "pool_Status E p hs = map (tx_status E p) hs"

section \<open>Price limit and eviction\<close>

definition SetGasPrice :: "'t pool_env \<Rightarrow> bigint \<Rightarrow> 't txPool \<Rightarrow> 't txPool" where
  "SetGasPrice E price p =
     (let (drops, pl) = pl_Cap (pe_txhash E) (pe_sender E) (pool_all p) (locals p) price (priced p)
      in remove_all E False drops (p\<lparr>gasPrice := price, priced := pl\<rparr>))"

text \<open>One account of the loop in \<open>Run\<close>; an account whose queue is gone is not visited any more.\<close>

definition evict_account :: "'t pool_env \<Rightarrow> real \<Rightarrow> address \<Rightarrow> 't txPool \<Rightarrow> 't txPool" where
  "evict_account E now a p =
     (case gm_get (queue p) a of
        None \<Rightarrow> p
      | Some l \<Rightarrow>
          if as_contains (locals p) a then p
          else if now - beat_of p a > real_of_int (Lifetime (pconfig p)) / 10 ^ 9 then
            let (ts, l') = tl_Flatten (rngN E) l in remove_all E True ts (p\<lparr>queue := gm_put (queue p) a l'\<rparr>)
          else p)"

definition evict :: "'t pool_env \<Rightarrow> real \<Rightarrow> 't txPool \<Rightarrow> 't txPool" where
  "evict E now p = fold (evict_account E now) (rngA E (gm_keys (queue p))) p"

section \<open>Reset at a new head\<close>

text \<open>The distance of the heads goes over \<open>float64\<close>: a number of more than 53 bits is rounded, half to even.\<close>

fun excess_bits :: "nat \<Rightarrow> nat" where
  "excess_bits n = (if n < 2 ^ 53 then 0 else Suc (excess_bits (n div 2)))"

declare excess_bits.simps [simp del]

definition to_float64 :: "nat \<Rightarrow> nat" where
  "to_float64 n =
     (let e = excess_bits n; q = n div 2 ^ e; r = n mod 2 ^ e in
      (if 2 * r > 2 ^ e \<or> (2 * r = 2 ^ e \<and> odd q) then q + 1 else q) * 2 ^ e)"

definition head_distance :: "u64 \<Rightarrow> u64 \<Rightarrow> nat" where
  "head_distance oldNum newNum = to_float64 (nat \<bar>int (to_float64 (unat oldNum)) - int (to_float64 (unat newNum))\<bar>)"

definition NumberU64 :: "block \<Rightarrow> u64 option" where
  "NumberU64 b = Uint64 (Number (bheader b))"

definition block_Hash :: "'t pool_env \<Rightarrow> block \<Rightarrow> hash" where
  "block_Hash E b = header_Hash (pe_crypto E) (bheader b)"

text \<open>From a block down to a number, with the transactions on the way. The inner \<^const>\<open>None\<close> is the early return at a
  block whose parent is missing.\<close>

partial_function (option) walk_down ::
  "'t pool_env \<Rightarrow> u64 \<Rightarrow> block \<Rightarrow> transaction list \<Rightarrow> (block \<times> transaction list) option option" where
  "walk_down E m b acc = do {
     n \<leftarrow> NumberU64 b;
     if n > m then
       (case pe_GetBlock E (ParentHash (bheader b)) (n - 1) of
          None \<Rightarrow> Some None
        | Some b' \<Rightarrow> walk_down E m b' (acc @ transactions b))
     else Some (Some (b, acc))
   }"

partial_function (option) walk_both ::
  "'t pool_env \<Rightarrow> block \<Rightarrow> block \<Rightarrow> transaction list \<Rightarrow> transaction list \<Rightarrow>
     (transaction list \<times> transaction list) option option" where
  "walk_both E rem add disc incl =
     (if block_Hash E rem \<noteq> block_Hash E add then do {
        rn \<leftarrow> NumberU64 rem;
        (case pe_GetBlock E (ParentHash (bheader rem)) (rn - 1) of
           None \<Rightarrow> Some None
         | Some rem' \<Rightarrow> do {
             an \<leftarrow> NumberU64 add;
             (case pe_GetBlock E (ParentHash (bheader add)) (an - 1) of
                None \<Rightarrow> Some None
              | Some add' \<Rightarrow> walk_both E rem' add' (disc @ transactions rem) (incl @ transactions add))
           })
      } else Some (Some (disc, incl)))"

declare walk_down.simps [code] walk_both.simps [code]

definition abandoned :: "'t pool_env \<Rightarrow> header \<Rightarrow> header \<Rightarrow> transaction list option option" where
  "abandoned E old new = do {
     oldNum \<leftarrow> Uint64 (Number old);
     newNum \<leftarrow> Uint64 (Number new);
     if head_distance oldNum newNum > 64 then Some (Some [])
     else
       (case pe_GetBlock E (header_Hash (pe_crypto E) old) oldNum of
          None \<Rightarrow> Some None
        | Some rem \<Rightarrow> do {
            add \<leftarrow> pe_GetBlock E (header_Hash (pe_crypto E) new) newNum;
            an \<leftarrow> NumberU64 add;
            r1 \<leftarrow> walk_down E an rem [];
            (case r1 of
               None \<Rightarrow> Some None
             | Some (rem1, disc) \<Rightarrow> do {
                 rn \<leftarrow> NumberU64 rem1;
                 r2 \<leftarrow> walk_down E rn add [];
                 (case r2 of
                    None \<Rightarrow> Some None
                  | Some (add1, incl) \<Rightarrow> do {
                      r3 \<leftarrow> walk_both E rem1 add1 disc incl;
                      Some (map_option (\<lambda>(d, i). TxDifference (pe_txhash E) d i) r3)
                    })
               })
          })
   }"

text \<open>The transactions to add again at the new head; \<^const>\<open>None\<close> inside is a return that leaves the pool as it is.\<close>

definition reinject :: "'t pool_env \<Rightarrow> header option \<Rightarrow> header \<Rightarrow> transaction list option option" where
  "reinject E oldHead newHead =
     (case oldHead of
        None \<Rightarrow> Some (Some [])
      | Some old \<Rightarrow> if header_Hash (pe_crypto E) old \<noteq> ParentHash newHead then abandoned E old newHead else Some (Some []))"

fun latest_nonces :: "'t pool_env \<Rightarrow> address list \<Rightarrow> 't txPool \<Rightarrow> 't txPool option" where
  "latest_nonces E [] p = Some p"
| "latest_nonces E (a # as) p =
     (case gm_get (pending p) a of
        None \<Rightarrow> latest_nonces E as p
      | Some l \<Rightarrow>
          let (ts, l') = tl_Flatten (rngN E) l in
          if ts = [] then None
          else latest_nonces E as (set_pend_nonce E a (AccountNonce (last ts) + 1) (p\<lparr>pending := gm_put (pending p) a l'\<rparr>)))"

definition pool_reset :: "'t pool_env \<Rightarrow> real \<Rightarrow> header option \<Rightarrow> header \<Rightarrow> 't txPool \<Rightarrow> 't txPool option" where
  "pool_reset E now oldHead newHead p = do {
     r \<leftarrow> reinject E oldHead newHead;
     (case r of
        None \<Rightarrow> Some p
      | Some ts \<Rightarrow>
          (case state_New (pe_state E) (Root newHead) of
             Inl _ \<Rightarrow> Some p
           | Inr s \<Rightarrow> do {
               ms \<leftarrow> ManageState (pe_state E) (rngA E) s;
               (_, p1) \<leftarrow> addTxsLocked E now ts False
                 (p\<lparr>currentState := s, pendingState := ms, currentMaxGas := header.GasLimit newHead\<rparr>);
               p2 \<leftarrow> demoteUnexecutables E p1;
               p3 \<leftarrow> latest_nonces E (rngA E (gm_keys (pending p2))) p2;
               p4 \<leftarrow> promoteExecutables E now None p3;
               Some (snd (PendingCount E p4))
             }))
   }"

definition handleChainHead :: "'t pool_env \<Rightarrow> real \<Rightarrow> block option \<Rightarrow> 't txPool \<Rightarrow> 't txPool option" where
  "handleChainHead E now ev p =
     (case ev of
        None \<Rightarrow> Some p
      | Some b \<Rightarrow> map_option (\<lambda>p1. p1\<lparr>pool_head := b\<rparr>)
          (pool_reset E now (Some (block_Header (pool_head p))) (block_Header b) p))"

text \<open>A new pool over the current block. If the state of the block cannot be opened, the code returns a pool without a
  state, which panics at its first use; here there is no pool then.\<close>

definition NewTxPool :: "'t pool_env \<Rightarrow> real \<Rightarrow> poolConfig \<Rightarrow> block \<Rightarrow> 't txPool option" where
  "NewTxPool E now conf current =
     (case state_New (pe_state E) (Root (block_Header current)) of
        Inl _ \<Rightarrow> None
      | Inr s \<Rightarrow> do {
          let cfg = sanitize conf;
          ms \<leftarrow> ManageState (pe_state E) (rngA E) s;
          pool_reset E now None (block_Header current)
            \<lparr>pconfig = cfg, gasPrice = uint (PriceLimit cfg), currentState = s, pendingState = ms, currentMaxGas = 0,
             locals = fold (\<lambda>a s. as_add s a) (Locals cfg) newAccountSet, pending = [], queue = [], beats = [],
             pool_all = [], priced = newTxPricedList, pool_head = current, pool_events = []\<rparr>
        })"

end
