(* ===== verification/Tx_Pool_Promote.thy ===== *)
theory Tx_Pool_Promote
  imports Tx_Pool_Add Tx_Pool_Chain
begin

text \<open>
  Promotion (\<open>core/tx_pool.go\<close>): the accounts of \<open>promoteExecutables\<close>, one by one, and the limit of the queue.
\<close>

definition config_ok :: "poolConfig \<Rightarrow> bool" where
  "config_ok cfg \<longleftrightarrow> 1 \<le> AccountSlots cfg \<and> unat (AccountQueue cfg) < 2 ^ 63"

lemma Cap_int: "unat (w :: u64) < 2 ^ 63 \<Longrightarrow> tl_Cap_int l (sint w) = tl_Cap l (unat w)"
proof -
  assume w: "unat w < 2 ^ 63"
  have u: "uint w = int (unat w)" by simp
  have "uint w < 2 ^ 63" unfolding u using w by (metis of_nat_less_iff of_nat_numeral of_nat_power)
  then have "sint w = uint w"
    unfolding sint_uint by (intro signed_take_bit_int_eq_self) (simp_all add: order_trans [of _ 0])
  then show ?thesis by (simp add: tl_Cap_int_def)
qed

lemma remove_all_queued:
  assumes "pool_ok E p P Q D" "ranges_ok E" "set ts \<subseteq> Q a" "distinct ts"
  shows "pool_ok E (remove_all E b ts p) P (Q(a := Q a - set ts)) D
    \<and> (\<forall>c. c \<noteq> a \<longrightarrow> gm_get (queue (remove_all E b ts p)) c = gm_get (queue p) c)
    \<and> pconfig (remove_all E b ts p) = pconfig p \<and> locals (remove_all E b ts p) = locals p"
  using assms
proof (induction ts arbitrary: p Q)
  case Nil
  then show ?case by (simp add: remove_all_def)
next
  case (Cons t ts)
  let ?p1 = "removeTx E (pe_txhash E t) b p" and ?Q = "Q(a := Q a - {t})"
  have t: "t \<in> Q a" using Cons.prems by simp
  have 1: "pool_ok E ?p1 P ?Q D" "\<forall>c. c \<noteq> a \<longrightarrow> gm_get (queue ?p1) c = gm_get (queue p) c" "pconfig ?p1 = pconfig p"
    "locals ?p1 = locals p"
    using removeTx_ok [OF Cons.prems(1,2), of "pe_txhash E t" b] t by blast+
  have e: "remove_all E b (t # ts) p = remove_all E b ts ?p1" by (simp add: remove_all_def)
  have d: "?Q a - set ts = Q a - set (t # ts)" by auto
  have "pool_ok E (remove_all E b ts ?p1) P (?Q(a := ?Q a - set ts)) D
    \<and> (\<forall>c. c \<noteq> a \<longrightarrow> gm_get (queue (remove_all E b ts ?p1)) c = gm_get (queue ?p1) c)
    \<and> pconfig (remove_all E b ts ?p1) = pconfig ?p1 \<and> locals (remove_all E b ts ?p1) = locals ?p1"
    by (rule Cons.IH [OF 1(1) Cons.prems(2)]) (use Cons.prems in auto)
  then have 2: "pool_ok E (remove_all E b ts ?p1) P (Q(a := Q a - set (t # ts))) D"
    "\<forall>c. c \<noteq> a \<longrightarrow> gm_get (queue (remove_all E b ts ?p1)) c = gm_get (queue p) c"
    "pconfig (remove_all E b ts ?p1) = pconfig p" "locals (remove_all E b ts ?p1) = locals p"
    unfolding d fun_upd_upd using 1 by simp_all
  show ?case unfolding e by (intro conjI 2)
qed

text \<open>A list of the queue gives up some of its transactions, which the pool forgets.\<close>

lemma shrink_queue:
  assumes ok: "pool_ok E p P Q {}" and rng: "ranges_ok E" and l: "tl_inv l" "\<not> strict l" "set r \<inter> ctxs l = {}" "set r \<union> ctxs l = Q a"
  shows "pool_ok E (forget_all E r (p\<lparr>queue := gm_put (queue p) a l\<rparr>)) P (Q(a := ctxs l)) {}"
proof -
  let ?A = "pooled P Q"
  have ab: "pool_is E p P Q ?A {}" and ap: "apart P Q" and fl: "filled (pending p) P" using ok by (simp_all add: pool_ok_def)
  have c: "ctxs l = Q a - set r" "set r \<subseteq> Q a" "set r \<subseteq> ?A" using l(3,4) by (auto simp: pooled_def)
  have "pool_is E (p\<lparr>queue := gm_put (queue p) a l\<rparr>) P (Q(a := ctxs l)) ?A {}"
    by (rule put_queue [OF ab l(1,2)]) (use pool_home(2) [OF ab] c in auto)
  then have "pool_is E (forget_all E r (p\<lparr>queue := gm_put (queue p) a l\<rparr>)) P (Q(a := ctxs l)) (?A - set r) {}"
    by (rule forget_all_is [OF _ rng c(3)])
  moreover have "pooled P (Q(a := ctxs l)) = ?A - set r" unfolding c(1) by (rule pooled_shrink(2) [OF ab ap c(2)])
  moreover have "apart P (Q(a := ctxs l))" by (rule apart_mono [OF ap]) (use c in auto)
  ultimately show ?thesis using fl by (simp add: pool_ok_def)
qed

lemma promote_ok:
  assumes ok: "pool_ok E p P Q {}" and rng: "ranges_ok E" and l: "tl_inv l" "\<not> strict l" "set r \<inter> ctxs l = {}" "set r \<union> ctxs l = Q a"
    "distinct (map AccountNonce r)"
  shows "\<exists>p'. promote_ready E now a r (p\<lparr>queue := gm_put (queue p) a l\<rparr>) = (r, p')
    \<and> pool_ok E p' (P(a := P a \<union> set r)) (Q(a := ctxs l)) {} \<and> queue p' = gm_put (queue p) a l
    \<and> pconfig p' = pconfig p \<and> locals p' = locals p \<and> pooled (P(a := P a \<union> set r)) (Q(a := ctxs l)) = pooled P Q"
proof -
  let ?A = "pooled P Q" and ?p = "p\<lparr>queue := gm_put (queue p) a l\<rparr>"
  have ab: "pool_is E p P Q ?A {}" and ap: "apart P Q" and fl: "filled (pending p) P" using ok by (simp_all add: pool_ok_def)
  have c: "ctxs l = Q a - set r" "set r \<subseteq> Q a" "set r \<subseteq> ?A" using l(3,4) by (auto simp: pooled_def)
  have "pool_is E ?p P (Q(a := ctxs l)) ?A {}"
    by (rule put_queue [OF ab l(1,2)]) (use pool_home(2) [OF ab] c in auto)
  moreover have "AccountNonce ` P a \<inter> AccountNonce ` set r = {}" using ap c(2) by (auto simp: apart_def)
  moreover have "\<forall>t \<in> set r. pe_sender E t = Some a" using c(2) pool_home(2) [OF ab] by blast
  ultimately obtain p' where p': "promote_ready E now a r ?p = (r, p')" "pool_is E p' (P(a := P a \<union> set r)) (Q(a := ctxs l)) ?A {}"
    "filled (pending p) P \<longrightarrow> filled (pending p') (P(a := P a \<union> set r))" "queue p' = gm_put (queue p) a l"
    "pconfig p' = pconfig p" "locals p' = locals p"
    using promote_ready_is [of E ?p P "Q(a := ctxs l)" ?A "{}" r a now] rng c(3) l(5) by auto
  have pl: "pooled (P(a := P a \<union> set r)) (Q(a := ctxs l)) = ?A"
  proof (rule set_eqI)
    fix t
    have at: "t \<in> pooled F G \<longleftrightarrow> t \<in> F a \<or> t \<in> G a \<or> (\<exists>b. b \<noteq> a \<and> (t \<in> F b \<or> t \<in> G b))" for F G
      by (auto simp: pooled_def)
    show "t \<in> pooled (P(a := P a \<union> set r)) (Q(a := ctxs l)) \<longleftrightarrow> t \<in> ?A" unfolding at using l(4) by auto
  qed
  have "apart (P(a := P a \<union> set r)) (Q(a := ctxs l))"
    using ap c(1,2) pool_home(4) [OF ab] by (auto simp: apart_def disjoint_iff image_iff; blast)
  then have "pool_ok E p' (P(a := P a \<union> set r)) (Q(a := ctxs l)) {}"
    using p'(2,3) fl pl by (simp add: pool_ok_def)
  then show ?thesis using p' pl by auto
qed

lemma promote_account_ok:
  assumes ok: "pool_ok E p P Q {}" and rng: "ranges_ok E" and cfg: "config_ok (pconfig p)"
  shows "\<exists>ts p' P' Q'. promote_account E now a p = Some (ts, p') \<and> pool_ok E p' P' Q' {} \<and> pooled P' Q' \<subseteq> pooled P Q
    \<and> pconfig p' = pconfig p \<and> locals p' = locals p \<and> (\<forall>b. b \<noteq> a \<longrightarrow> Q' b = Q b)
    \<and> Q' a \<subseteq> Q a \<and> (\<not> as_contains (locals p) a \<longrightarrow> card (Q' a) \<le> unat (AccountQueue (pconfig p)))"
proof (cases "gm_get (queue p) a")
  case None
  have "pool_is E p P Q (pooled P Q) {}" using ok by (simp add: pool_ok_def)
  then have "Q a = {}" using None by (rule pool_list(4))
  then show ?thesis 
    by - (rule exI [of _ "[]"], rule exI [of _ p], rule exI [of _ P], rule exI [of _ Q],
      use None ok in \<open>simp add: promote_account_def\<close>)
next
  case (Some l)
  have rn: "range_ok (rngN E)" using rng by (simp add: ranges_ok_def)
  have li: "tl_inv l" "\<not> strict l" "ctxs l = Q a" using ok pool_list(3) Some by (fastforce simp: pool_ok_def)+
  obtain nonce p1 where n: "cur_nonce E a p = (nonce, p1)" by fastforce
  have k1: "pool_ok E p1 P Q {}" "queue p1 = queue p" "pconfig p1 = pconfig p" "locals p1 = locals p"
    using ok n pool_ok_reads(1) [of E a p P Q "{}"] cur_nonce_is(3,4,5) [of E a p] by simp_all
  obtain r1 l1 where f: "tl_Forward l nonce = Some (map Some r1, l1)" "tl_inv l1" "strict l1 = strict l"
    "set r1 = {t \<in> ctxs l. AccountNonce t < nonce}" "ctxs l1 = {t \<in> ctxs l. \<not> AccountNonce t < nonce}"
    by (rule tl_Forward_total [OF li(1)])
  define p2 where "p2 = forget_all E r1 (p1\<lparr>queue := gm_put (queue p1) a l1\<rparr>)"
  have s1: "\<not> strict l1" "set r1 \<inter> ctxs l1 = {}" "set r1 \<union> ctxs l1 = Q a" using f li by auto
  have k2: "pool_ok E p2 P (Q(a := ctxs l1)) {}" "pconfig p2 = pconfig p" "locals p2 = locals p"
    using shrink_queue [OF k1(1) rng f(2) s1] k1 by (simp_all add: p2_def)
  obtain bal p3 where b: "cur_balance E a p2 = (bal, p3)" by fastforce
  have k3: "pool_ok E p3 P (Q(a := ctxs l1)) {}" "pconfig p3 = pconfig p" "locals p3 = locals p"
    using k2 b pool_ok_reads(2) [of E a p2 P "Q(a := ctxs l1)" "{}"] cur_balance_is(4,5) [of E a p2] by simp_all
  obtain r2 i2 l2 where g: "tl_Filter (rngN E) l1 bal (currentMaxGas p3) = ((r2, i2), l2)" "tl_inv l2" "strict l2 = strict l1"
    "set r2 \<union> set i2 \<union> ctxs l2 = ctxs l1" "set r2 \<inter> set i2 = {}" "(set r2 \<union> set i2) \<inter> ctxs l2 = {}"
    "\<not> strict l1 \<longrightarrow> set i2 = {}"
    by (rule tl_Filter_total [OF f(2) rn, where costLimit = bal and gasLimit = "currentMaxGas p3"])
  define p4 where "p4 = forget_all E r2 (p3\<lparr>queue := gm_put (queue p3) a l2\<rparr>)"
  have s2: "\<not> strict l2" "set r2 \<inter> ctxs l2 = {}" "set r2 \<union> ctxs l2 = (Q(a := ctxs l1)) a" using g s1(1) by auto
  have k4: "pool_ok E p4 P (Q(a := ctxs l2)) {}" "pconfig p4 = pconfig p" "locals p4 = locals p"
    using shrink_queue [where Q = "Q(a := ctxs l1)", OF k3(1) rng g(2) s2] k3 by (simp_all add: p4_def)
  obtain pn p5 where pn: "pend_nonce E a p4 = (pn, p5)" by fastforce
  have k5: "pool_ok E p5 P (Q(a := ctxs l2)) {}" "pconfig p5 = pconfig p" "locals p5 = locals p"
    using k4 pn pool_ok_reads(3) [of E a p4 P "Q(a := ctxs l2)" "{}"] pend_nonce_is(4,5) [of E a p4] by simp_all
  obtain r3 l3 where h: "tl_Ready l2 pn = (map Some r3, l3)" "tl_inv l3" "strict l3 = strict l2"
    "set r3 \<inter> ctxs l3 = {}" "set r3 \<union> ctxs l3 = ctxs l2" "distinct (map AccountNonce r3)"
    by (rule tl_Ready_total [OF g(2)])
  have s3: "\<not> strict l3" "set r3 \<union> ctxs l3 = (Q(a := ctxs l2)) a" using h s2(1) by auto
  obtain p6 where p6: "promote_ready E now a r3 (p5\<lparr>queue := gm_put (queue p5) a l3\<rparr>) = (r3, p6)"
    "pool_ok E p6 (P(a := P a \<union> set r3)) (Q(a := ctxs l3)) {}" "pconfig p6 = pconfig p" "locals p6 = locals p"
    "queue p6 = gm_put (queue p5) a l3"
    using promote_ok [where Q = "Q(a := ctxs l2)" and now = now, OF k5(1) rng h(2) s3(1) h(4) s3(2) h(6)] k5 by auto
  obtain l4 p7 where c: "(if as_contains (locals p6) a then Some (l3, p6)
             else do {
               (caps, l4) \<leftarrow> tl_Cap_int l3 (sint (AccountQueue (pconfig p6)));
               cap \<leftarrow> deref_all caps;
               Some (l4, forget_all E cap (p6\<lparr>queue := gm_put (queue p6) a l4\<rparr>))
             }) = Some (l4, p7)" "tl_inv l4" "\<not> strict l4" "ctxs l4 \<subseteq> ctxs l3"
    "pool_ok E p7 (P(a := P a \<union> set r3)) (Q(a := ctxs l4)) {}" "pconfig p7 = pconfig p" "locals p7 = locals p"
    "\<not> as_contains (locals p) a \<longrightarrow> card (ctxs l4) \<le> unat (AccountQueue (pconfig p))"
  proof (cases "as_contains (locals p6) a")
    case True
    then show thesis using that [of l3 p6] h(2) s3(1) p6 by simp
  next
    case False
    obtain r4 l4 where q: "tl_Cap l3 (unat (AccountQueue (pconfig p))) = Some (map Some r4, l4)" "tl_inv l4" "strict l4 = strict l3"
      "set r4 \<inter> ctxs l4 = {}" "set r4 \<union> ctxs l4 = ctxs l3" "card (ctxs l4) = min (unat (AccountQueue (pconfig p))) (card (ctxs l3))"
      using tl_Cap_total [OF h(2), of "unat (AccountQueue (pconfig p))"] by metis
    have s4: "\<not> strict l4" "set r4 \<union> ctxs l4 = (Q(a := ctxs l3)) a" using q s3(1) by auto
    show thesis
      by (rule that [of l4 "forget_all E r4 (p6\<lparr>queue := gm_put (queue p6) a l4\<rparr>)"])
        (use False q s4 p6 cfg shrink_queue [where Q = "Q(a := ctxs l3)", OF p6(2) rng q(2) s4(1) q(4) s4(2)]
         in \<open>auto simp: Cap_int config_ok_def\<close>)
  qed
  define p8 where "p8 = (if tl_Empty l4 then p7\<lparr>queue := gm_del (queue p7) a\<rparr> else p7)"
  have k8: "pool_ok E p8 (P(a := P a \<union> set r3)) (Q(a := ctxs l4)) {}" "pconfig p8 = pconfig p" "locals p8 = locals p"
    using c(5,6,7) del_empty(1) [of E p7 "P(a := P a \<union> set r3)" "Q(a := ctxs l4)" _ "{}" l4 a] c(2)
    by (auto simp: p8_def pool_ok_def)
  have run: "promote_account E now a p = Some (r3, p8)"
    by (simp add: promote_account_def Some n f(1) b g(1) pn h(1) p6(1) c(1) flip: p2_def p4_def p8_def)
  have sub: "ctxs l4 \<subseteq> Q a" "set r3 \<subseteq> Q a" using c(4) h(5) g(4) f(5) li(3) by auto
  have "pooled (P(a := P a \<union> set r3)) (Q(a := ctxs l4)) \<subseteq> pooled P Q"
    using sub by (auto simp: pooled_def split: if_splits)
  then show ?thesis
    by - (rule exI [of _ r3], rule exI [of _ p8], rule exI [of _ "P(a := P a \<union> set r3)"], rule exI [of _ "Q(a := ctxs l4)"],
      use run k8 c(8) sub(1) in simp)
qed

lemma promote_accounts_ok:
  assumes "pool_ok E p P Q {}" "ranges_ok E" "config_ok (pconfig p)"
  shows "\<exists>ts p' P' Q'. promote_accounts E now as p = Some (ts, p') \<and> pool_ok E p' P' Q' {} \<and> pooled P' Q' \<subseteq> pooled P Q
    \<and> pconfig p' = pconfig p \<and> locals p' = locals p \<and> (\<forall>b. Q' b \<subseteq> Q b)
    \<and> (\<forall>b \<in> set as. \<not> as_contains (locals p) b \<longrightarrow> card (Q' b) \<le> unat (AccountQueue (pconfig p)))"
  using assms
proof (induction as arbitrary: p P Q)
  case Nil
  then show ?case by - (rule exI [of _ "[]"], rule exI [of _ p], rule exI [of _ P], rule exI [of _ Q], simp)
next
  case (Cons a as)
  obtain t1 p1 P1 Q1 where 1: "promote_account E now a p = Some (t1, p1)" "pool_ok E p1 P1 Q1 {}" "pooled P1 Q1 \<subseteq> pooled P Q"
    "pconfig p1 = pconfig p" "locals p1 = locals p" "\<forall>b. b \<noteq> a \<longrightarrow> Q1 b = Q b" "Q1 a \<subseteq> Q a"
    "\<not> as_contains (locals p) a \<longrightarrow> card (Q1 a) \<le> unat (AccountQueue (pconfig p))"
    using promote_account_ok [OF Cons.prems, of now a] by (elim exE conjE)
  have cfg: "config_ok (pconfig p1)" using Cons.prems(3) 1(4) by simp
  obtain t2 p2 P2 Q2 where 2: "promote_accounts E now as p1 = Some (t2, p2)" "pool_ok E p2 P2 Q2 {}" "pooled P2 Q2 \<subseteq> pooled P1 Q1"
    "pconfig p2 = pconfig p1" "locals p2 = locals p1" "\<forall>b. Q2 b \<subseteq> Q1 b"
    "\<forall>b \<in> set as. \<not> as_contains (locals p1) b \<longrightarrow> card (Q2 b) \<le> unat (AccountQueue (pconfig p1))"
    using Cons.IH [OF 1(2) Cons.prems(2) cfg] by (elim exE conjE)
  have "pool_is E p1 P1 Q1 (pooled P1 Q1) {}" using 1(2) by (simp add: pool_ok_def)
  then have fin: "finite (Q1 a)" using maps_to_finite by (fastforce simp: pool_is_def)
  have "card (Q2 a) \<le> card (Q1 a)" by (rule card_mono [OF fin]) (use 2(6) in simp)
  then have caps: "\<forall>b \<in> set (a # as). \<not> as_contains (locals p) b \<longrightarrow> card (Q2 b) \<le> unat (AccountQueue (pconfig p))"
    using 1(4,5,8) 2(7) by auto
  have sub: "Q2 b \<subseteq> Q b" for b
  proof -
    have "Q1 b \<subseteq> Q b" using 1(6,7) by (cases "b = a") auto
    then show ?thesis using 2(6) by blast
  qed
  show ?case
    by (rule exI [of _ "t1 @ t2"], rule exI [of _ p2], rule exI [of _ P2], rule exI [of _ Q2])
      (use 1 2 caps sub in auto)
qed

section \<open>The limit of the queue\<close>

lemma pool_ok_flatten:
  assumes ok: "pool_ok E p P Q D" and rng: "ranges_ok E" and l: "gm_get (queue p) a = Some l"
  shows "\<exists>l' ts. tl_Flatten (rngN E) l = (ts, l') \<and> pool_ok E (p\<lparr>queue := gm_put (queue p) a l'\<rparr>) P Q D
    \<and> set ts = Q a \<and> distinct ts \<and> tl_Len l = length ts"
proof -
  have ab: "pool_is E p P Q (pooled P Q) D" using ok by (simp add: pool_ok_def)
  have li: "tl_inv l" "\<not> strict l" "ctxs l = Q a" using pool_list(3) [OF ab l] by simp_all
  have rn: "range_ok (rngN E)" using rng by (simp add: ranges_ok_def)
  obtain l' where f: "tl_Flatten (rngN E) l = (sm_flat (items (txs l)), l')" "tl_inv l'" "strict l' = strict l" "ctxs l' = ctxs l"
    using tl_Flatten_total [OF li(1) rn] by metis
  have "pool_is E (p\<lparr>queue := gm_put (queue p) a l'\<rparr>) P (Q(a := ctxs l')) (pooled P Q) D"
    by (rule put_queue [OF ab f(2)]) (use f li pool_home(2) [OF ab] in auto)
  then have "pool_ok E (p\<lparr>queue := gm_put (queue p) a l'\<rparr>) P Q D"
    using ok f(4) li(3) by (simp add: pool_ok_def)
  moreover have d: "distinct (sm_flat (items (txs l)))" using distinct_flat [OF li(1)] by (rule distinct_mapI)
  moreover have "set (sm_flat (items (txs l))) = Q a" using li(3) by (simp add: sm_contents_def)
  moreover have "tl_Len l = length (sm_flat (items (txs l)))"
    using tl_Len_card [OF li(1)] distinct_card [OF d] by (simp add: sm_contents_def)
  ultimately show ?thesis using f(1) by auto
qed

lemma drop_tail_take: "drop_tail E ts n p = (n - of_nat (min (unat n) (length ts)), remove_all E True (take (unat n) ts) p)"
proof (induction ts arbitrary: n p)
  case Nil
  then show ?case by (simp add: remove_all_def)
next
  case (Cons t ts)
  show ?case
  proof (cases "n = 0")
    case True
    then show ?thesis by (simp add: remove_all_def)
  next
    case False
    then have n: "unat n = Suc (unat (n - 1))" by (simp add: unat_minus_one unat_gt_0)
    have "of_nat (min (Suc (unat (n - 1))) (Suc (length ts))) = 1 + (of_nat (min (unat (n - 1)) (length ts)) :: u64)"
      by (simp add: min_Suc_Suc)
    then show ?thesis using Cons.IH [of "n - 1"] False n by (simp add: remove_all_def word_gt_0 del: of_nat_Suc)
  qed
qed

lemma pool_ok_finite: "pool_ok E p P Q D \<Longrightarrow> finite (P a) \<and> finite (Q a)"
  using maps_to_finite by (fastforce simp: pool_ok_def pool_is_def)

lemma pool_ok_list:
  assumes "pool_ok E p P Q D"
  shows "gm_get (queue p) a = Some l \<Longrightarrow> tl_inv l \<and> \<not> strict l \<and> ctxs l = Q a" "gm_get (queue p) a = None \<Longrightarrow> Q a = {}"
    "gm_get (pending p) a = Some l \<Longrightarrow> tl_inv l \<and> strict l \<and> ctxs l = P a" "gm_get (pending p) a = None \<Longrightarrow> P a = {}"
proof -
  have ab: "pool_is E p P Q (pooled P Q) D" using assms by (simp add: pool_ok_def)
  show "gm_get (queue p) a = Some l \<Longrightarrow> tl_inv l \<and> \<not> strict l \<and> ctxs l = Q a" "gm_get (queue p) a = None \<Longrightarrow> Q a = {}"
    "gm_get (pending p) a = Some l \<Longrightarrow> tl_inv l \<and> strict l \<and> ctxs l = P a" "gm_get (pending p) a = None \<Longrightarrow> P a = {}"
    using pool_list [OF ab] by simp_all
qed

lemma drop_queued_ok:
  assumes "pool_ok E p P Q {}" "ranges_ok E" "distinct as" "\<forall>a \<in> set as. gm_get (queue p) a \<noteq> None"
    "\<forall>a. card (Q a) < 2 ^ 62"
  shows "\<exists>p' Q'. drop_queued E as n p = Some p' \<and> pool_ok E p' P Q' {} \<and> (\<forall>b. Q' b \<subseteq> Q b) \<and> (\<forall>b. b \<notin> set as \<longrightarrow> Q' b = Q b)
    \<and> (\<Sum>a \<in> set as. card (Q' a)) = (\<Sum>a \<in> set as. card (Q a)) - unat n \<and> pconfig p' = pconfig p \<and> locals p' = locals p"
  using assms
proof (induction as arbitrary: n p Q)
  case Nil
  then show ?case by - (rule exI [of _ p], rule exI [of _ Q], simp)
next
  case (Cons a as)
  show ?case
  proof (cases "n = 0")
    case True
    then show ?thesis using Cons.prems by - (rule exI [of _ p], rule exI [of _ Q], simp)
  next
    case False
    obtain l where l: "gm_get (queue p) a = Some l" using Cons.prems(4) by auto
    obtain l' ts where f: "tl_Flatten (rngN E) l = (ts, l')" "pool_ok E (p\<lparr>queue := gm_put (queue p) a l'\<rparr>) P Q {}"
      "set ts = Q a" "distinct ts" "tl_Len l = length ts"
      using pool_ok_flatten [OF Cons.prems(1,2) l] by blast
    let ?p1 = "p\<lparr>queue := gm_put (queue p) a l'\<rparr>" and ?k = "unat n"
    have len: "length ts = card (Q a)" using f(3,4) distinct_card by metis
    then have sz: "unat (of_nat (length ts) :: u64) = card (Q a)"
      using Cons.prems(5) [rule_format, of a] by (simp add: unat_of_nat_u64)
    define d where "d = (if length ts \<le> ?k then ts else take ?k (rev ts))"
    define n' where "n' = (if length ts \<le> ?k then n - of_nat (length ts) else 0)"
    define p2 where "p2 = remove_all E True d ?p1"
    let ?Q = "Q(a := Q a - set d)"
    have d: "set d \<subseteq> Q a" "distinct d" "length d = min ?k (card (Q a))"
      using f(3,4) len set_take_subset [of ?k "rev ts"] by (auto simp: d_def)
    have p2: "pool_ok E p2 P ?Q {}" "\<forall>c. c \<noteq> a \<longrightarrow> gm_get (queue p2) c = gm_get (queue p) c" "pconfig p2 = pconfig p" "locals p2 = locals p"
      using remove_all_queued [OF f(2) Cons.prems(2) d(1,2), of True] by (auto simp: p2_def gm_get_put)
    have n': "unat n' = ?k - card (Q a)" using sz len by (simp add: n'_def unat_sub word_le_nat_alt)
    have cd: "card (Q a - set d) = card (Q a) - min ?k (card (Q a))"
      using card_Diff_subset [OF _ d(1)] distinct_card [OF d(2)] d(3) by simp
    have run: "drop_queued E (a # as) n p = drop_queued E as n' p2"
    proof (cases "length ts \<le> ?k")
      case True
      then have "of_nat (length ts) \<le> n" using sz len by (simp add: word_le_nat_alt)
      then show ?thesis using l f(1,5) False True by (simp add: p2_def d_def n'_def word_gt_0)
    next
      case c: False
      then have "\<not> of_nat (length ts) \<le> n" using sz len by (simp add: word_le_nat_alt)
      then show ?thesis using l f(1,5) False c by (simp add: p2_def d_def n'_def drop_tail_take word_gt_0)
    qed
    have pre: "distinct as" "\<forall>b \<in> set as. gm_get (queue p2) b \<noteq> None" "\<forall>b. card (?Q b) < 2 ^ 62"
    proof -
      show "distinct as" "\<forall>b \<in> set as. gm_get (queue p2) b \<noteq> None" using Cons.prems(3,4) p2(2) by auto
      have "card (Q a - set d) \<le> card (Q a)" using cd by simp
      then show "\<forall>b. card (?Q b) < 2 ^ 62" using Cons.prems(5) le_less_trans by auto
    qed
    obtain p' Q' where 3: "drop_queued E as n' p2 = Some p'" "pool_ok E p' P Q' {}" "\<forall>b. Q' b \<subseteq> ?Q b"
      "\<forall>b. b \<notin> set as \<longrightarrow> Q' b = ?Q b" "(\<Sum>a \<in> set as. card (Q' a)) = (\<Sum>a \<in> set as. card (?Q a)) - unat n'"
      "pconfig p' = pconfig p2" "locals p' = locals p2"
      using Cons.IH [OF p2(1) Cons.prems(2) pre, of n'] by (elim exE conjE)
    have a: "a \<notin> set as" using Cons.prems(3) by simp
    then have "(\<Sum>c \<in> set as. card (?Q c)) = (\<Sum>c \<in> set as. card (Q c))" by (intro sum.cong) auto
    moreover have "Q' a = Q a - set d" using 3(4) a by simp
    moreover have "unat n' = 0 \<or> min ?k (card (Q a)) = card (Q a)" using n' by auto
    ultimately have sum: "(\<Sum>c \<in> set (a # as). card (Q' c)) = (\<Sum>c \<in> set (a # as). card (Q c)) - ?k"
      using a 3(5) cd n' by (auto simp: min_def split: if_splits)
    have sub: "Q' b \<subseteq> Q b" for b using 3(3) [rule_format, of b] by (cases "b = a") auto
    have out: "Q' b = Q b" if "b \<notin> set (a # as)" for b using 3(4) that by simp
    show ?thesis unfolding run
      by (rule exI [of _ p'], rule exI [of _ Q']) (use 3 p2 sub out sum in simp)
  qed
qed

text \<open>The sizes of the lists add up to the number of transactions in them.\<close>

lemma gm_sum:
  assumes "gm_wf m"
  shows "sum_list (map (\<lambda>(a, l). f a l) m) = (\<Sum>a \<in> set (gm_keys m). f a (the (gm_get m a)))"
proof -
  have e: "map (\<lambda>(a, l). f a l) m = map (\<lambda>a. f a (the (gm_get m a))) (gm_keys m)"
    using assms by (auto simp: gm_wf_def)
  have d: "distinct (gm_keys m)" using assms by (simp add: gm_wf_def)
  show ?thesis unfolding e by (rule sum_list_distinct_conv_sum_set [OF d])
qed

lemma maps_to_size:
  assumes m: "maps_to E b m F" and S: "finite S" "\<forall>a. a \<notin> S \<longrightarrow> F a = {}"
  shows "sum_list (map (\<lambda>(a, l). tl_Len l) m) = (\<Sum>a \<in> S. card (F a))"
proof -
  have w: "gm_wf m" using m by (simp add: maps_to_def)
  have "tl_Len (the (gm_get m a)) = card (F a)" if "a \<in> set (gm_keys m)" for a
    using that maps_to_get [OF m, of a] by (cases "gm_get m a") (auto simp: gm_get_None_iff tl_Len_card)
  then have "sum_list (map (\<lambda>(a, l). tl_Len l) m) = (\<Sum>a \<in> set (gm_keys m). card (F a))"
    unfolding gm_sum [OF w] by (intro sum.cong refl)
  also have "\<dots> = (\<Sum>a \<in> set (gm_keys m) \<union> S. card (F a))"
  proof (rule sum.mono_neutral_left)
    show "finite (set (gm_keys m) \<union> S)" using S(1) by simp
    have "card (F a) = 0" if "a \<notin> set (gm_keys m)" for a
      using maps_to_None [OF m, of a] that gm_get_None_iff [of m a] by simp
    then show "\<forall>a \<in> set (gm_keys m) \<union> S - set (gm_keys m). card (F a) = 0" by blast
  qed blast
  also have "\<dots> = (\<Sum>a \<in> S. card (F a))"
    by (rule sum.mono_neutral_right) (use S in auto)
  finally show ?thesis .
qed

lemma stats_sum: "foldl (\<lambda>n (_, l). n + tl_Len l) k m = k + sum_list (map (\<lambda>(a, l). tl_Len l) m)"
  by (induction m arbitrary: k) auto

lemma list_total_sum: "list_total m = of_nat (sum_list (map (\<lambda>(a, l). tl_Len l) m))"
proof -
  have "foldl (\<lambda>n (_, l). n + of_nat (tl_Len l)) k m = (k :: u64) + of_nat (sum_list (map (\<lambda>(a, l). tl_Len l) m))" for k
    by (induction m arbitrary: k) (auto simp: add.assoc)
  then show ?thesis by (simp add: list_total_def)
qed

lemma pool_sizes:
  assumes ok: "pool_ok E p P Q D" and S: "finite S"
  shows "(\<forall>a. a \<notin> S \<longrightarrow> P a = {}) \<Longrightarrow> fst (pool_stats p) = (\<Sum>a \<in> S. card (P a))"
    "(\<forall>a. a \<notin> S \<longrightarrow> Q a = {}) \<Longrightarrow> snd (pool_stats p) = (\<Sum>a \<in> S. card (Q a))"
proof -
  have m: "maps_to E True (pending p) P" "maps_to E False (queue p) Q" using ok by (simp_all add: pool_ok_def pool_is_def)
  show "(\<forall>a. a \<notin> S \<longrightarrow> P a = {}) \<Longrightarrow> fst (pool_stats p) = (\<Sum>a \<in> S. card (P a))"
    using maps_to_size [OF m(1) S] by (simp add: pool_stats_def stats_sum)
  show "(\<forall>a. a \<notin> S \<longrightarrow> Q a = {}) \<Longrightarrow> snd (pool_stats p) = (\<Sum>a \<in> S. card (Q a))"
    using maps_to_size [OF m(2) S] by (simp add: pool_stats_def stats_sum)
qed

lemma sum_card_pooled:
  assumes ok: "pool_ok E p P Q D" and S: "finite S"
  shows "(\<Sum>a \<in> S. card (P a)) \<le> length (pool_all p)" "(\<Sum>a \<in> S. card (Q a)) \<le> length (pool_all p)"
proof -
  have ab: "pool_is E p P Q (pooled P Q) D" using ok by (simp add: pool_ok_def)
  have fin: "finite (P a)" "finite (Q a)" for a using pool_ok_finite [OF ok] by blast+
  have dj: "P a \<inter> P b = {}" "Q a \<inter> Q b = {}" if "a \<noteq> b" for a b
    using that pool_home(1,2) [OF ab] by (metis disjoint_iff option.inject)+
  have c: "finite (pooled P Q)" "card (pooled P Q) = length (pool_all p)" using pool_ok_card [OF ok] by simp_all
  have "(\<Sum>a \<in> S. card (P a)) = card (\<Union>a \<in> S. P a)"
    by (rule card_UN_disjoint [symmetric]) (use S fin dj in simp_all)
  also have "\<dots> \<le> card (pooled P Q)" by (rule card_mono [OF c(1)]) (auto simp: pooled_def)
  finally show "(\<Sum>a \<in> S. card (P a)) \<le> length (pool_all p)" using c(2) by simp
  have "(\<Sum>a \<in> S. card (Q a)) = card (\<Union>a \<in> S. Q a)"
    by (rule card_UN_disjoint [symmetric]) (use S fin dj in simp_all)
  also have "\<dots> \<le> card (pooled P Q)" by (rule card_mono [OF c(1)]) (auto simp: pooled_def)
  finally show "(\<Sum>a \<in> S. card (Q a)) \<le> length (pool_all p)" using c(2) by simp
qed

lemma pool_keys_empty:
  assumes "pool_ok E p P Q D"
  shows "a \<notin> set (gm_keys (pending p)) \<Longrightarrow> P a = {}" "a \<notin> set (gm_keys (queue p)) \<Longrightarrow> Q a = {}"
  using pool_ok_list(2,4) [OF assms] by (simp_all only: gm_get_None_iff not_False_eq_True)

lemma limit_queue_ok:
  assumes ok: "pool_ok E p P Q {}" and rng: "ranges_ok E" and n: "length (pool_all p) < 2 ^ 62"
  shows "\<exists>p' Q'. limit_queue E p = Some p' \<and> pool_ok E p' P Q' {} \<and> (\<forall>a. Q' a \<subseteq> Q a)
    \<and> (snd (pool_stats p') \<le> unat (GlobalQueue (pconfig p)) \<or> (\<forall>a. \<not> as_contains (locals p) a \<longrightarrow> Q' a = {}))
    \<and> pconfig p' = pconfig p \<and> locals p' = locals p"
proof -
  let ?K = "set (gm_keys (queue p))" and ?g = "unat (GlobalQueue (pconfig p))" and ?loc = "as_contains (locals p)"
  have out: "Q a = {}" if "a \<notin> ?K" for a using pool_keys_empty(2) [OF ok that] .
  have tot: "snd (pool_stats p) = (\<Sum>a \<in> ?K. card (Q a))" by (rule pool_sizes(2) [OF ok]) (use out in simp_all)
  have small: "snd (pool_stats p) < 2 ^ 62" using sum_card_pooled(2) [OF ok, of ?K] n tot by simp
  have lt: "list_total (queue p) = of_nat (snd (pool_stats p))" by (simp add: list_total_sum pool_stats_def stats_sum)
  have u: "unat (list_total (queue p)) = snd (pool_stats p)" using small by (simp add: lt unat_of_nat_u64)
  show ?thesis
  proof (cases "list_total (queue p) > GlobalQueue (pconfig p)")
    case False
    then have "snd (pool_stats p) \<le> ?g" using u by (simp add: word_less_nat_alt)
    then show ?thesis using False ok by (intro exI [of _ p] exI [of _ Q]) (simp add: limit_queue_def)
  next
    case True
    define as where "as = rev (sort_key (beat_of p) (filter (\<lambda>a. \<not> ?loc a) (rngA E (gm_keys (queue p)))))"
    define d where "d = list_total (queue p) - GlobalQueue (pconfig p)"
    have ra: "range_ok (rngA E)" using rng by (simp add: ranges_ok_def)
    have w: "gm_wf (queue p)" using ok by (simp add: pool_ok_def pool_is_def maps_to_def)
    have as: "distinct as" "set as = {a \<in> ?K. \<not> ?loc a}"
      using w range_ok_distinct [OF ra] range_ok_set [OF ra] by (auto simp: as_def gm_wf_def)
    have ud: "unat d = snd (pool_stats p) - ?g" using True u by (simp add: d_def unat_sub less_imp_le)
    have pre: "\<forall>a \<in> set as. gm_get (queue p) a \<noteq> None" "\<forall>a. card (Q a) < 2 ^ 62"
    proof -
      show "\<forall>a \<in> set as. gm_get (queue p) a \<noteq> None" using as(2) by (simp only: gm_get_None_iff) blast
      have "card (Q a) \<le> length (pool_all p)" for a using sum_card_pooled(2) [OF ok, of "{a}"] by simp
      then show "\<forall>a. card (Q a) < 2 ^ 62" using n le_less_trans by blast
    qed
    obtain p' Q' where 1: "drop_queued E as d p = Some p'" "pool_ok E p' P Q' {}" "\<forall>b. Q' b \<subseteq> Q b"
      "\<forall>b. b \<notin> set as \<longrightarrow> Q' b = Q b" "(\<Sum>a \<in> set as. card (Q' a)) = (\<Sum>a \<in> set as. card (Q a)) - unat d"
      "pconfig p' = pconfig p" "locals p' = locals p"
      using drop_queued_ok [OF ok rng as(1) pre, of d] by (elim exE conjE)
    have out': "Q' a = {}" if "a \<notin> ?K" for a using 1(3) out [OF that] by blast
    have tot': "snd (pool_stats p') = (\<Sum>a \<in> ?K. card (Q' a))" by (rule pool_sizes(2) [OF 1(2)]) (use out' in simp_all)
    have split: "(\<Sum>a \<in> ?K. card (F a)) = (\<Sum>a \<in> set as. card (F a)) + (\<Sum>a \<in> ?K - set as. card (F a))" for F :: "address \<Rightarrow> transaction set"
      using sum.subset_diff [of "set as" ?K "\<lambda>a. card (F a)"] as(2) by (simp add: add.commute subset_iff)
    have rest: "(\<Sum>a \<in> ?K - set as. card (Q' a)) = (\<Sum>a \<in> ?K - set as. card (Q a))" using 1(4) by simp
    have "snd (pool_stats p') \<le> ?g \<or> (\<Sum>a \<in> set as. card (Q' a)) = 0"
      using tot tot' split [of Q] split [of Q'] rest 1(5) ud by linarith
    then have bound: "snd (pool_stats p') \<le> ?g \<or> (\<forall>a. \<not> ?loc a \<longrightarrow> Q' a = {})"
      using out' as(2) pool_ok_finite [OF 1(2)] by fastforce
    have run: "limit_queue E p = Some p'"
      unfolding limit_queue_def Let_def if_P [OF True] using 1(1) by (simp only: as_def d_def)
    show ?thesis by (rule exI [of _ p'], rule exI [of _ Q']) (intro conjI run 1 bound)
  qed
qed

end
