(* ===== verification/Prque_Order.thy ===== *)
theory Prque_Order
  imports Prque
begin

text \<open>
  The priority queue pops a greatest item (\<open>common/prque\<close>), as long as the priorities are not negative: the sign of a
  difference is the order of the priorities then.
\<close>

section \<open>A heap only looks at the order of its own elements\<close>

lemma up_cong:
  assumes "\<forall>x \<in> set h. \<forall>y \<in> set h. lt x y = lt' x y" "j < length h"
  shows "up lt h j = up lt' h j"
  using assms
proof (induction lt h j rule: up.induct)
  case (1 lt h j)
  let ?i = "(j - 1) div 2"
  have i: "?i < length h" using 1(3) by linarith
  have e: "lt (h ! j) (h ! ?i) = lt' (h ! j) (h ! ?i)" using 1(2,3) i by simp
  have "up lt (swap h ?i j) ?i = up lt' (swap h ?i j) ?i" if "\<not> (?i = j \<or> \<not> lt (h ! j) (h ! ?i))"
    by (rule 1(1) [OF refl that]) (use 1(2,3) i set_swap_bounds [OF i 1(3)] in simp_all)
  then show ?case
    by (subst up.simps, subst (2) up.simps) (use e in \<open>simp add: Let_def\<close>)
qed

lemma down_child_cong:
  assumes "\<forall>x \<in> set h. \<forall>y \<in> set h. lt x y = lt' x y" "2 * i + 1 < n" "n \<le> length h"
  shows "down_child lt h i n = down_child lt' h i n"
  using assms by (auto simp: down_child_def Let_def)

lemma down_cong:
  assumes "\<forall>x \<in> set h. \<forall>y \<in> set h. lt x y = lt' x y" "n \<le> length h"
  shows "down lt h i n = down lt' h i n"
  using assms
proof (induction lt h i n rule: down.induct)
  case (1 lt h i n)
  show ?case
  proof (cases "n \<le> 2 * i + 1")
    case True
    then show ?thesis by (subst down.simps, subst (2) down.simps) simp
  next
    case False
    define c where "c = down_child lt h i n"
    have c': "down_child lt' h i n = c" unfolding c_def using down_child_cong [of h lt lt' i n] 1(2,3) False by simp
    have b: "i < c" "c < n" using down_child_bounds [of i n lt h] False by (simp_all add: c_def)
    have e: "lt (h ! c) (h ! i) = lt' (h ! c) (h ! i)" using 1(2,3) b by simp
    have s: "set (swap h i c) = set h" by (rule set_swap_bounds) (use b 1(3) in simp_all)
    have "down lt (swap h i c) c n = down lt' (swap h i c) c n" if "lt (h ! c) (h ! i)"
      unfolding c_def by (rule 1(1) [OF False]) (use that 1(2,3) s in \<open>simp_all add: c_def\<close>)
    then show ?thesis
      by (subst down.simps, subst (2) down.simps) (use False e c' in \<open>simp add: c_def [symmetric]\<close>)
  qed
qed

lemma heap_push_cong:
  assumes "\<forall>y \<in> insert x (set h). \<forall>z \<in> insert x (set h). lt y z = lt' y z"
  shows "heap_push lt h x = heap_push lt' h x"
  unfolding heap_push_def by (rule up_cong) (use assms in simp_all)

lemma heap_pop_cong:
  assumes "\<forall>y \<in> set h. \<forall>z \<in> set h. lt y z = lt' y z"
  shows "heap_pop lt h = heap_pop lt' h"
proof (cases "h = []")
  case False
  have "set (swap h 0 (length h - 1)) = set h" by (rule set_swap_bounds) (use False in simp_all)
  then have "down lt (swap h 0 (length h - 1)) 0 (length h - 1) = down lt' (swap h 0 (length h - 1)) 0 (length h - 1)"
    by (intro down_cong) (use assms in simp_all)
  then show ?thesis using False by (simp add: heap_pop_def Let_def)
qed (simp add: heap_pop_def)

section \<open>The order by priority\<close>

definition pq_greater :: "'a pq_item \<Rightarrow> 'a pq_item \<Rightarrow> bool" where
  "pq_greater a b \<longleftrightarrow> unat (pq_priority b) < unat (pq_priority a)"

interpretation pq: go_order pq_greater
  by unfold_locales (auto simp: pq_greater_def)

definition pq_ok :: "'a prque \<Rightarrow> bool" where
  "pq_ok q \<longleftrightarrow> is_heap pq_greater q \<and> (\<forall>it \<in> set q. unat (pq_priority it) < 2 ^ 63)"

lemma sint_diff_pos:
  assumes "unat (a :: 64 word) < 2 ^ 63" "unat (b :: 64 word) < 2 ^ 63"
  shows "0 < sint (a - b) \<longleftrightarrow> unat b < unat a"
proof -
  have u: "uint a < 2 ^ 63" "uint b < 2 ^ 63" "0 \<le> uint a" "0 \<le> uint b"
    using assms by (simp_all flip: uint_nat of_nat_less_iff [where 'a = int])
  have "a - b = word_of_int (uint a - uint b)" by (rule word_sub_wi)
  then have "sint (a - b) = sint (word_of_int (uint a - uint b) :: 64 word)" by (rule arg_cong)
  also have "\<dots> = signed_take_bit 63 (uint a - uint b)" unfolding signed_of_int by simp
  also have "\<dots> = uint a - uint b" 
  proof (rule signed_take_bit_int_eq_self)
    show "- (2 ^ 63) \<le> uint a - uint b" "uint a - uint b < 2 ^ 63" using u by linarith+
  qed
  finally show ?thesis using word_less_def [of b a] word_less_nat_alt [of b a] by simp
qed

lemma Less_greater:
  "unat (pq_priority a) < 2 ^ 63 \<Longrightarrow> unat (pq_priority b) < 2 ^ 63 \<Longrightarrow> sstack_Less a b = pq_greater a b"
  by (simp add: sstack_Less_def pq_greater_def sint_diff_pos)

lemma pq_ok_Nil [simp]: "pq_ok []"
  by (simp add: pq_ok_def)

lemma pq_Push_ok:
  assumes "pq_ok q" "unat pr < 2 ^ 63"
  shows "pq_ok (pq_Push v pr q)" "mset (pq_Push v pr q) = add_mset \<lparr>pq_value = v, pq_priority = pr\<rparr> (mset q)"
proof -
  let ?it = "\<lparr>pq_value = v, pq_priority = pr\<rparr>"
  have e: "pq_Push v pr q = heap_push pq_greater q ?it"
    unfolding pq_Push_def by (rule heap_push_cong) (use assms in \<open>auto simp: pq_ok_def Less_greater\<close>)
  show m: "mset (pq_Push v pr q) = add_mset ?it (mset q)" unfolding pq_Push_def by (rule mset_heap_push)
  have "is_heap pq_greater (heap_push pq_greater q ?it)" by (rule pq.is_heap_push) (use assms in \<open>simp add: pq_ok_def\<close>)
  moreover have "set (pq_Push v pr q) = insert ?it (set q)" using m by (metis set_mset_add_mset_insert set_mset_mset)
  ultimately show "pq_ok (pq_Push v pr q)" using assms by (simp add: pq_ok_def e)
qed

lemma pq_Pop_ok:
  assumes q: "pq_ok q" "q \<noteq> []"
  obtains v pr q' where "pq_Pop q = Some ((v, pr), q')" "mset q = add_mset \<lparr>pq_value = v, pq_priority = pr\<rparr> (mset q')" "pq_ok q'"
    "\<forall>it \<in> set q'. unat (pq_priority it) \<le> unat pr"
proof -
  have e: "heap_pop sstack_Less q = heap_pop pq_greater q"
    by (rule heap_pop_cong) (use q in \<open>auto simp: pq_ok_def Less_greater\<close>)
  obtain it q' where p: "heap_pop pq_greater q = Some (it, q')"
    using heap_pop_None_iff [of pq_greater q] q(2) by fastforce
  note c = heap_pop_cases [OF p]
  have h: "is_heap pq_greater q" using q(1) by (simp add: pq_ok_def)
  have le: "\<forall>y \<in> set q'. \<not> pq_greater y it" by (rule pq.heap_pop_least [OF h p])
  have "is_heap pq_greater q'" by (rule pq.is_heap_pop [OF h p])
  moreover have "set q = insert it (set q')" using c by (metis set_mset_add_mset_insert set_mset_mset)
  ultimately have "pq_ok q'" using q(1) by (simp add: pq_ok_def)
  then show thesis
    using that [of "pq_value it" "pq_priority it" q'] c le p by (auto simp: pq_Pop_def e pq_greater_def not_less)
qed

end
