(* ===== verification/Tx_Pool_Limit.thy ===== *)
theory Tx_Pool_Limit
  imports Tx_Pool_Promote Prque_Order
begin

text \<open>
  The limit of the pending transactions (\<open>promoteExecutables\<close> of \<open>core/tx_pool.go\<close>): the accounts with the most
  transactions lose their last ones, round by round.
\<close>

section \<open>A round over the offenders\<close>

abbreviation pend_total :: "address set \<Rightarrow> (address \<Rightarrow> transaction set) \<Rightarrow> nat" where
  "pend_total K P \<equiv> \<Sum>a \<in> K. card (P a)"

lemma drop_last_ok:
  assumes ok: "pool_ok E p P Q {}" and rng: "ranges_ok E" and a: "2 \<le> card (P a)"
  shows "\<exists>p' S. drop_last E a p = Some p' \<and> pool_ok E p' (P(a := S)) Q {} \<and> S \<subseteq> P a \<and> card S = card (P a) - 1
    \<and> pconfig p' = pconfig p \<and> locals p' = locals p"
proof -
  have ab: "pool_is E p P Q (pooled P Q) {}" and ap: "apart P Q" and fl: "filled (pending p) P" using ok by (simp_all add: pool_ok_def)
  obtain l where l: "gm_get (pending p) a = Some l" using pool_list(2) [OF ab, of a] a by (cases "gm_get (pending p) a") auto
  have li: "tl_inv l" "strict l" "ctxs l = P a" using pool_list(1) [OF ab l] by simp_all
  have len: "tl_Len l = card (P a)" using tl_Len_card [OF li(1)] li(3) by simp
  obtain r l' where c: "tl_Cap l (card (P a) - 1) = Some (map Some r, l')" "tl_inv l'" "strict l' = strict l"
    "set r \<inter> ctxs l' = {}" "set r \<union> ctxs l' = ctxs l" "distinct r" "card (ctxs l') = min (card (P a) - 1) (card (ctxs l))"
    using tl_Cap_total [OF li(1), of "card (P a) - 1"] by metis
  have n: "\<not> int (tl_Len l) - 1 < 0" "nat (int (tl_Len l) - 1) = card (P a) - 1" using a len by simp_all
  have cl: "card (ctxs l') = card (P a) - 1" using c(7) li(3) by simp
  have "card (set r \<union> ctxs l') = card (set r) + card (ctxs l')" by (rule card_Un_disjoint) (use c(4) in simp_all)
  then have "length r = 1" using cl c(5,6) li(3) a distinct_card [OF c(6)] by simp
  then obtain t where t: "r = [t]" by (metis One_nat_def length_0_conv length_Suc_conv)
  let ?p1 = "p\<lparr>pending := gm_put (pending p) a l'\<rparr>" and ?P = "P(a := ctxs l')"
  have sub: "ctxs l' = P a - {t}" "t \<in> P a" using c(4,5) li(3) t by auto
  have "\<forall>u \<in> ctxs l'. pe_sender E u = Some a" using pool_home(1) [OF ab] sub by auto
  then have "pool_is E ?p1 ?P Q (pooled P Q) {}" using put_pending [OF ab c(2), of a] c(3) li(2) by simp
  then have "pool_is E (forget_all E [t] ?p1) ?P Q (pooled P Q - {t}) {}"
    using forget_all_is [of E ?p1 ?P Q "pooled P Q" "{}" "[t]"] rng sub(2) by (auto simp: pooled_def)
  moreover have "pooled ?P Q = pooled P Q - {t}" unfolding sub(1) by (rule pooled_shrink(1) [OF ab ap]) (use sub(2) in simp)
  moreover have "apart ?P Q" by (rule apart_mono [OF ap]) (use sub in auto)
  moreover have "filled (gm_put (pending p) a l') ?P" by (rule filled_put [OF fl]) (use cl a in auto)
  ultimately have fin: "pool_ok E (forget_all E [t] ?p1) ?P Q {}" by (simp add: pool_ok_def)
  have "drop_last E a p = Some (lower_nonce E a (AccountNonce t) (forget_all E [t] ?p1))"
    using n by (simp add: drop_last_def l tl_Cap_int_def c(1) [unfolded One_nat_def] t deref_all_def forget_all_def)
  then show ?thesis using fin cl sub by (intro exI [of _ "lower_nonce E a (AccountNonce t) (forget_all E [t] ?p1)"] exI [of _ "ctxs l'"]) auto
qed

lemma pend_total_upd:
  assumes "finite K" "a \<in> K" "card S = card (P a) - 1" "1 \<le> card (P a)"
  shows "Suc (pend_total K (P(a := S))) = pend_total K P"
proof -
  have "pend_total K F = card (F a) + pend_total (K - {a}) F" for F :: "address \<Rightarrow> transaction set"
    by (rule sum.remove [OF assms(1,2)])
  moreover have "pend_total (K - {a}) (P(a := S)) = pend_total (K - {a}) P" by (rule sum.cong) auto
  ultimately show ?thesis using assms(3,4) by simp
qed

lemma drop_round_ok:
  assumes "pool_ok E p P Q {}" "ranges_ok E" "distinct as" "\<forall>a \<in> set as. 2 \<le> card (P a)" "finite K" "set as \<subseteq> K"
    "n = of_nat (pend_total K P)"
  shows "\<exists>p' P' n'. drop_round E as p n = Some (p', n') \<and> pool_ok E p' P' Q {} \<and> (\<forall>a. P' a \<subseteq> P a)
    \<and> (\<forall>a. card (P' a) = (if a \<in> set as then card (P a) - 1 else card (P a))) \<and> (\<forall>a. a \<notin> set as \<longrightarrow> P' a = P a)
    \<and> n' = of_nat (pend_total K P') \<and> pconfig p' = pconfig p \<and> locals p' = locals p"
  using assms
proof (induction as arbitrary: p P n)
  case Nil
  then show ?case by - (rule exI [of _ p], rule exI [of _ P], rule exI [of _ n], simp)
next
  case (Cons a as)
  obtain p1 S where 1: "drop_last E a p = Some p1" "pool_ok E p1 (P(a := S)) Q {}" "S \<subseteq> P a" "card S = card (P a) - 1"
    "pconfig p1 = pconfig p" "locals p1 = locals p"
    using drop_last_ok [OF Cons.prems(1,2), of a] Cons.prems(4) by auto
  let ?P = "P(a := S)"
  have a: "a \<notin> set as" "a \<in> K" using Cons.prems(3,6) by simp_all
  have "Suc (pend_total K ?P) = pend_total K P"
    by (rule pend_total_upd [where P = P and a = a and S = S, OF Cons.prems(5) a(2) 1(4)]) (use Cons.prems(4) in auto)
  then have n: "n - 1 = of_nat (pend_total K ?P)" unfolding Cons.prems(7) by (metis add_diff_cancel_left' of_nat_Suc)
  have pre: "distinct as" "\<forall>b \<in> set as. 2 \<le> card (?P b)" "set as \<subseteq> K" using Cons.prems(3,4,6) a by auto
  obtain p' P' n' where 2: "drop_round E as p1 (n - 1) = Some (p', n')" "pool_ok E p' P' Q {}" "\<forall>a. P' a \<subseteq> ?P a"
    "\<forall>b. card (P' b) = (if b \<in> set as then card (?P b) - 1 else card (?P b))" "\<forall>b. b \<notin> set as \<longrightarrow> P' b = ?P b"
    "n' = of_nat (pend_total K P')" "pconfig p' = pconfig p1" "locals p' = locals p1"
    using Cons.IH [OF 1(2) Cons.prems(2), of "n - 1"] Cons.prems(3-6) n a by fastforce
  have sub: "P' b \<subseteq> P b" for b using 2(3) [rule_format, of b] 1(3) by (cases "b = a") auto
  have cards: "card (P' b) = (if b \<in> set (a # as) then card (P b) - 1 else card (P b))" for b
    using 2(4) [rule_format, of b] 1(4) a(1) by (cases "b = a") auto
  have "drop_round E (a # as) p n = Some (p', n')" using 1(1) 2(1) by simp
  then show ?case
    by - (rule exI [of _ p'], rule exI [of _ P'], rule exI [of _ n'], use 1(5,6) 2 sub cards in simp)
qed

lemma equalize_ok:
  assumes "pool_ok E p P Q {}" "ranges_ok E" "distinct offs" "ref \<in> set offs" "\<forall>a \<in> set offs. card (P a) = card (P ref)"
    "finite K" "set offs \<subseteq> K" "n = of_nat (pend_total K P)" "\<forall>k. longer k \<longrightarrow> 2 \<le> k" "1 \<le> card (P ref)"
  shows "\<exists>p' P' n'. equalize E longer offs ref p n = Some (p', n') \<and> pool_ok E p' P' Q {} \<and> (\<forall>a. P' a \<subseteq> P a)
    \<and> (\<forall>a \<in> set offs. card (P' a) = card (P' ref)) \<and> (\<forall>a. a \<notin> set offs \<longrightarrow> P' a = P a) \<and> n' = of_nat (pend_total K P')
    \<and> (n' \<le> GlobalSlots (pconfig p) \<or> \<not> longer (card (P' ref))) \<and> 1 \<le> card (P' ref)
    \<and> (card (P' ref) = card (P ref) \<or> longer (Suc (card (P' ref)))) \<and> pconfig p' = pconfig p \<and> locals p' = locals p"
  using assms
proof (induction "card (P ref)" arbitrary: p P n rule: less_induct)
  case less
  have ab: "pool_is E p P Q (pooled P Q) {}" using less.prems(1) by (simp add: pool_ok_def)
  obtain l where l: "gm_get (pending p) ref = Some l"
    using pool_list(2) [OF ab, of ref] less.prems(10) by (cases "gm_get (pending p) ref") auto
  have len: "tl_Len l = card (P ref)" using pool_list(1) [OF ab l] tl_Len_card by auto
  show ?case
  proof (cases "n > GlobalSlots (pconfig p) \<and> longer (card (P ref))")
    case False
    then have "equalize E longer offs ref p n = Some (p, n)" by (subst equalize.simps) (auto simp: l len)
    then show ?thesis
      by - (rule exI [of _ p], rule exI [of _ P], rule exI [of _ n], intro conjI,
        use False in \<open>simp_all only: less.prems(1,5,8,10) refl subset_refl de_Morgan_conj not_less simp_thms\<close>, use less.prems(5) in auto)
  next
    case True
    then have k: "2 \<le> card (P ref)" using less.prems(9) by blast
    then have k': "\<forall>a \<in> set offs. 2 \<le> card (P a)" using less.prems(5) by simp
    obtain p1 P1 n1 where 1: "drop_round E offs p n = Some (p1, n1)" "pool_ok E p1 P1 Q {}" "\<forall>a. P1 a \<subseteq> P a"
      "\<forall>a. card (P1 a) = (if a \<in> set offs then card (P a) - 1 else card (P a))" "\<forall>a. a \<notin> set offs \<longrightarrow> P1 a = P a"
      "n1 = of_nat (pend_total K P1)" "pconfig p1 = pconfig p" "locals p1 = locals p"
      using drop_round_ok [OF less.prems(1-3) k' less.prems(6,7,8)] by (elim exE conjE)
    have r: "card (P1 ref) = card (P ref) - 1" using 1(4) less.prems(4) by simp
    have dec: "card (P1 ref) < card (P ref)" "1 \<le> card (P1 ref)" using r k by simp_all
    have eq1: "\<forall>a \<in> set offs. card (P1 a) = card (P1 ref)"
    proof
      fix a assume a: "a \<in> set offs"
      have "card (P1 a) = card (P a) - 1" using 1(4) a by simp
      also have "card (P a) = card (P ref)" using less.prems(5) a by blast
      finally show "card (P1 a) = card (P1 ref)" using r by simp
    qed
    obtain p' P' n' where 2: "equalize E longer offs ref p1 n1 = Some (p', n')" "pool_ok E p' P' Q {}" "\<forall>a. P' a \<subseteq> P1 a"
      "\<forall>a \<in> set offs. card (P' a) = card (P' ref)" "\<forall>a. a \<notin> set offs \<longrightarrow> P' a = P1 a" "n' = of_nat (pend_total K P')"
      "n' \<le> GlobalSlots (pconfig p1) \<or> \<not> longer (card (P' ref))" "1 \<le> card (P' ref)"
      "card (P' ref) = card (P1 ref) \<or> longer (Suc (card (P' ref)))" "pconfig p' = pconfig p1" "locals p' = locals p1"
      using less.hyps [OF dec(1) 1(2) less.prems(2-4) eq1 less.prems(6,7) 1(6) less.prems(9) dec(2)] by (elim exE conjE)
    have e: "equalize E longer offs ref p n = Some (p', n')"
      by (subst equalize.simps) (use True l len 1(1) 2(1) in simp)
    have lg: "card (P' ref) = card (P ref) \<or> longer (Suc (card (P' ref)))" using 2(9) r dec True by auto
    have sub: "P' a \<subseteq> P a" for a using 1(3) 2(3) by blast
    show ?thesis
      by - (rule exI [of _ p'], rule exI [of _ P'], rule exI [of _ n'], intro conjI e 2(2,4,6,8) lg allI sub,
        use 1(5,7,8) 2(5,7,10,11) in simp_all)
  qed
qed

section \<open>The order of the spammers\<close>

abbreviation spam_item :: "(address \<Rightarrow> transaction set) \<Rightarrow> address \<Rightarrow> address pq_item" where
  "spam_item P a \<equiv> \<lparr>pq_value = a, pq_priority = of_nat (card (P a))\<rparr>"

definition spams :: "'t txPool \<Rightarrow> (address \<Rightarrow> transaction set) \<Rightarrow> address \<Rightarrow> bool" where
  "spams p P a \<longleftrightarrow> \<not> as_contains (locals p) a \<and> (of_nat (card (P a)) :: u64) > AccountSlots (pconfig p)"

lemma card_small: "pool_ok E p P Q D \<Longrightarrow> length (pool_all p) < 2 ^ 62 \<Longrightarrow> card (P a) < 2 ^ 62"
  using sum_card_pooled(1) [of E p P Q D "{a}"] by simp

lemma unat_card: "card (S :: transaction set) < 2 ^ 62 \<Longrightarrow> unat (of_nat (card S) :: u64) = card S"
  by (simp add: unat_of_nat_u64)

lemma spam_order_ok:
  assumes ok: "pool_ok E p P Q {}" and rng: "ranges_ok E" and n: "length (pool_all p) < 2 ^ 62"
  obtains bs where "pq_ok (spam_order E p)" "mset (spam_order E p) = image_mset (spam_item P) (mset bs)" "distinct bs"
    "set bs = {a. spams p P a}"
proof -
  let ?f = "\<lambda>a q. case gm_get (pending p) a of
       None \<Rightarrow> q
     | Some l \<Rightarrow> if \<not> as_contains (locals p) a \<and> of_nat (tl_Len l) > AccountSlots (pconfig p)
                 then pq_Push a (of_nat (tl_Len l)) q else q"
  have step: "?f a q = (if spams p P a then pq_Push a (of_nat (card (P a))) q else q)" for a q
  proof (cases "gm_get (pending p) a")
    case None
    then show ?thesis using pool_ok_list(4) [OF ok None] by (simp add: spams_def)
  next
    case (Some l)
    then have "tl_Len l = card (P a)" using pool_ok_list(3) [OF ok Some] tl_Len_card by auto
    then show ?thesis using Some by (simp add: spams_def)
  qed
  have small: "unat (of_nat (card (P a)) :: u64) < 2 ^ 63" for a
    using card_small [OF ok n, of a] unat_card [of "P a"] by simp
  have "pq_ok (fold ?f ks q) \<and> mset (fold ?f ks q) = mset q + image_mset (spam_item P) (mset (filter (spams p P) ks))"
    if "pq_ok q" for ks q
    using that
  proof (induction ks arbitrary: q)
    case (Cons a ks)
    have "pq_ok (?f a q)" using Cons.prems pq_Push_ok(1) [OF Cons.prems small] by (simp add: step)
    then show ?case using Cons.IH [of "?f a q"] pq_Push_ok(2) [OF Cons.prems small] by (simp add: step)
  qed simp
  note f = this [of "[]" "rngA E (gm_keys (pending p))"]
  have ra: "range_ok (rngA E)" using rng by (simp add: ranges_ok_def)
  have w: "gm_wf (pending p)" using ok by (simp add: pool_ok_def pool_is_def maps_to_def)
  have "a \<in> set (gm_keys (pending p))" if "spams p P a" for a
    using that pool_keys_empty(1) [OF ok, of a] by (fastforce simp: spams_def)
  then have "set (filter (spams p P) (rngA E (gm_keys (pending p)))) = {a. spams p P a}" using range_ok_set [OF ra] by auto
  then show thesis
    using that [of "filter (spams p P) (rngA E (gm_keys (pending p)))"] f w range_ok_distinct [OF ra]
    by (simp add: spam_order_def gm_wf_def)
qed

lemma pop_spammer:
  assumes q: "pq_ok q" "mset q = image_mset (spam_item P) (mset bs)" "bs \<noteq> []" and small: "\<forall>a. card (P a) < 2 ^ 62"
  obtains off q' bs' where "pq_Pop q = Some ((off, of_nat (card (P off))), q')" "pq_ok q'" "mset bs = add_mset off (mset bs')"
    "mset q' = image_mset (spam_item P) (mset bs')" "\<forall>b \<in> set bs'. card (P b) \<le> card (P off)"
proof -
  have "q \<noteq> []" using q(2,3) by auto
  then obtain v pr q' where p: "pq_Pop q = Some ((v, pr), q')" "mset q = add_mset \<lparr>pq_value = v, pq_priority = pr\<rparr> (mset q')"
    "pq_ok q'" "\<forall>it \<in> set q'. unat (pq_priority it) \<le> unat pr"
    using pq_Pop_ok [OF q(1)] by metis
  then have "\<lparr>pq_value = v, pq_priority = pr\<rparr> \<in># image_mset (spam_item P) (mset bs)" using q(2) by simp
  then have v: "v \<in> set bs" "pr = of_nat (card (P v))" by auto
  define bs' where "bs' = remove1 v bs"
  have m: "mset bs = add_mset v (mset bs')" using v(1) by (simp add: bs'_def)
  have q': "mset q' = image_mset (spam_item P) (mset bs')" using p(2) q(2) m v(2) by simp
  have "card (P b) \<le> card (P v)" if "b \<in> set bs'" for b
  proof -
    have "spam_item P b \<in># mset q'" unfolding q' using that by simp
    then have "unat (of_nat (card (P b)) :: u64) \<le> unat pr" using p(4) by fastforce
    then show ?thesis using unat_card [of "P b"] unat_card [of "P v"] small v(2) by simp
  qed
  then show thesis using that [of v q' bs'] p(1,3) v(2) m q' by blast
qed

section \<open>All offenders\<close>

definition levelled :: "(address \<Rightarrow> transaction set) \<Rightarrow> address list \<Rightarrow> bool" where
  "levelled P offs \<longleftrightarrow> (offs \<noteq> [] \<longrightarrow> (\<forall>a \<in> set offs. card (P a) = card (P (last offs))) \<and> 1 \<le> card (P (last offs)))"

lemma drop_offenders_ok:
  assumes "pool_ok E p P Q {}" "ranges_ok E" "distinct (offs @ bs)" "finite K" "set (offs @ bs) \<subseteq> K" "n = of_nat (pend_total K P)"
    "pq_ok q" "mset q = image_mset (spam_item P) (mset bs)" "\<forall>a. card (P a) < 2 ^ 62" "\<forall>b \<in> set bs. 2 \<le> card (P b)"
    "n > GlobalSlots (pconfig p) \<longrightarrow> levelled P offs \<and> (offs \<noteq> [] \<longrightarrow> (\<forall>b \<in> set bs. card (P b) \<le> card (P (last offs))))"
  shows "\<exists>offs' p' P' n'. drop_offenders E q offs p n = Some (offs', p', n') \<and> pool_ok E p' P' Q {} \<and> (\<forall>a. P' a \<subseteq> P a)
    \<and> distinct offs' \<and> set offs' \<subseteq> set (offs @ bs) \<and> (\<forall>a. a \<notin> set (offs @ bs) \<longrightarrow> P' a = P a) \<and> n' = of_nat (pend_total K P')
    \<and> (n' > GlobalSlots (pconfig p) \<longrightarrow> set offs' = set (offs @ bs) \<and> levelled P' offs')
    \<and> pconfig p' = pconfig p \<and> locals p' = locals p"
  using assms
proof (induction "length bs" arbitrary: bs offs p P n q rule: less_induct)
  case less
  have emp: "pq_Empty q \<longleftrightarrow> bs = []" using arg_cong [OF less.prems(8), of size] by (simp add: pq_Empty_def)
  show ?case
  proof (cases "n > GlobalSlots (pconfig p) \<and> bs \<noteq> []")
    case False
    then have g: "\<not> (n > GlobalSlots (pconfig p) \<and> \<not> pq_Empty q)" using emp by simp
    have "drop_offenders E q offs p n = Some (offs, p, n)" by (subst drop_offenders.simps) (simp only: if_not_P [OF g])
    moreover have "distinct offs" using less.prems(3) by simp
    moreover have "n > GlobalSlots (pconfig p) \<longrightarrow> set offs = set (offs @ bs) \<and> levelled P offs" using False less.prems(11) by auto
    ultimately show ?thesis
      by - (rule exI [of _ offs], rule exI [of _ p], rule exI [of _ P], rule exI [of _ n], use less.prems(1,6) in simp)
  next
    case True
    then have lv: "levelled P offs" "offs \<noteq> [] \<longrightarrow> (\<forall>b \<in> set bs. card (P b) \<le> card (P (last offs)))" using less.prems(11) by blast+
    obtain off q' bs' where pop: "pq_Pop q = Some ((off, of_nat (card (P off))), q')" "pq_ok q'" "mset bs = add_mset off (mset bs')"
      "mset q' = image_mset (spam_item P) (mset bs')" "\<forall>b \<in> set bs'. card (P b) \<le> card (P off)"
      using pop_spammer [OF less.prems(7,8) _ less.prems(9)] True by blast
    have bs: "set bs = insert off (set bs')" "length bs = Suc (length bs')" "distinct (off # bs')"
    proof -
      show "set bs = insert off (set bs')" using arg_cong [OF pop(3), of set_mset] by simp
      show "length bs = Suc (length bs')" using arg_cong [OF pop(3), of size] by simp
      have "mset bs = mset (off # bs')" using pop(3) by simp
      then show "distinct (off # bs')" using less.prems(3) by (metis distinct_append mset_eq_imp_distinct_iff)
    qed
    have off: "off \<notin> set offs" "2 \<le> card (P off)" using less.prems(3,10) bs(1) by auto
    define longer where "longer = (\<lambda>k. k > card (P off))"
    obtain p1 P1 n1 where e: "(if offs \<noteq> [] then do {
             l \<leftarrow> gm_get (pending p) off;
             equalize E (\<lambda>k. k > tl_Len l) offs (last offs) p n
           } else Some (p, n)) = Some (p1, n1)" "pool_ok E p1 P1 Q {}" "\<forall>a. P1 a \<subseteq> P a" "\<forall>a. a \<notin> set offs \<longrightarrow> P1 a = P a"
      "n1 = of_nat (pend_total K P1)" "pconfig p1 = pconfig p" "locals p1 = locals p"
      "n1 > GlobalSlots (pconfig p) \<longrightarrow> levelled P1 (offs @ [off])"
    proof (cases "offs = []")
      case True
      then show thesis using that [of p n P] less.prems(1,6) off(2) by (simp add: levelled_def)
    next
      case False
      obtain l where l: "gm_get (pending p) off = Some l"
        using pool_ok_list(4) [OF less.prems(1), of off] off(2) by (cases "gm_get (pending p) off") auto
      have len: "tl_Len l = card (P off)" using pool_ok_list(3) [OF less.prems(1) l] tl_Len_card by auto
      have pre: "distinct offs" "last offs \<in> set offs" "set offs \<subseteq> K" "\<forall>k. longer k \<longrightarrow> 2 \<le> k" "1 \<le> card (P (last offs))"
        "\<forall>a \<in> set offs. card (P a) = card (P (last offs))"
      proof -
        show "distinct offs" "last offs \<in> set offs" "set offs \<subseteq> K" "\<forall>k. longer k \<longrightarrow> 2 \<le> k"
          using less.prems(3,5) False off(2) by (auto simp: longer_def)
        show "1 \<le> card (P (last offs))" "\<forall>a \<in> set offs. card (P a) = card (P (last offs))"
          using lv(1) False unfolding levelled_def by blast+
      qed
      obtain p1 P1 n1 where 1: "equalize E longer offs (last offs) p n = Some (p1, n1)" "pool_ok E p1 P1 Q {}" "\<forall>a. P1 a \<subseteq> P a"
        "\<forall>a \<in> set offs. card (P1 a) = card (P1 (last offs))" "\<forall>a. a \<notin> set offs \<longrightarrow> P1 a = P a" "n1 = of_nat (pend_total K P1)"
        "n1 \<le> GlobalSlots (pconfig p) \<or> \<not> longer (card (P1 (last offs)))" "1 \<le> card (P1 (last offs))"
        "card (P1 (last offs)) = card (P (last offs)) \<or> longer (Suc (card (P1 (last offs))))"
        "pconfig p1 = pconfig p" "locals p1 = locals p"
        using equalize_ok [OF less.prems(1,2) pre(1,2,6) less.prems(4) pre(3) less.prems(6) pre(4,5)] by (elim exE conjE)
      have ge: "card (P off) \<le> card (P1 (last offs))" using 1(9) lv(2) False bs(1) by (auto simp: longer_def)
      have "levelled P1 (offs @ [off])" if "n1 > GlobalSlots (pconfig p)"
      proof -
        have "card (P1 (last offs)) = card (P off)" using 1(7) that ge by (auto simp: longer_def)
        moreover have "P1 off = P off" using 1(5) off(1) by blast
        ultimately show ?thesis using 1(4) off(2) by (auto simp: levelled_def)
      qed
      moreover have "(if offs \<noteq> [] then do {
             l \<leftarrow> gm_get (pending p) off;
             equalize E (\<lambda>k. k > tl_Len l) offs (last offs) p n
           } else Some (p, n)) = Some (p1, n1)" using False l len 1(1) by (simp add: longer_def)
      ultimately show thesis using that [of p1 n1 P1] 1(2,3,5,6,10,11) by blast
    qed
    have pre: "distinct ((offs @ [off]) @ bs')" "set ((offs @ [off]) @ bs') \<subseteq> K" "\<forall>b \<in> set bs'. 2 \<le> card (P1 b)"
      "mset q' = image_mset (spam_item P1) (mset bs')" "\<forall>a. card (P1 a) < 2 ^ 62"
    proof -
      have P1: "P1 b = P b" if "b \<in> set (off # bs')" for b using e(4) that less.prems(3) bs(1) by auto
      show "distinct ((offs @ [off]) @ bs')" using less.prems(3) bs(1,3) by auto
      show "set ((offs @ [off]) @ bs') \<subseteq> K" using less.prems(5) bs(1) by auto
      show "\<forall>b \<in> set bs'. 2 \<le> card (P1 b)" using less.prems(10) bs(1) P1 by simp
      show "mset q' = image_mset (spam_item P1) (mset bs')" unfolding pop(4) by (rule image_mset_cong) (use P1 in simp)
      have "card (P1 a) \<le> card (P a)" for a by (rule card_mono) (use e(3) pool_ok_finite [OF less.prems(1)] in auto)
      then show "\<forall>a. card (P1 a) < 2 ^ 62" using less.prems(9) le_less_trans by blast
    qed
    have inv: "n1 > GlobalSlots (pconfig p1) \<longrightarrow> levelled P1 (offs @ [off])
        \<and> (offs @ [off] \<noteq> [] \<longrightarrow> (\<forall>b \<in> set bs'. card (P1 b) \<le> card (P1 (last (offs @ [off])))))"
    proof -
      have "P1 b = P b" if "b \<in> set (off # bs')" for b using e(4) that less.prems(3) bs(1) by auto
      then show ?thesis using e(6,8) pop(5) by simp
    qed
    obtain offs' p' P' n' where 2: "drop_offenders E q' (offs @ [off]) p1 n1 = Some (offs', p', n')" "pool_ok E p' P' Q {}"
      "\<forall>a. P' a \<subseteq> P1 a" "distinct offs'" "set offs' \<subseteq> set ((offs @ [off]) @ bs')"
      "\<forall>a. a \<notin> set ((offs @ [off]) @ bs') \<longrightarrow> P' a = P1 a" "n' = of_nat (pend_total K P')"
      "n' > GlobalSlots (pconfig p1) \<longrightarrow> set offs' = set ((offs @ [off]) @ bs') \<and> levelled P' offs'"
      "pconfig p' = pconfig p1" "locals p' = locals p1"
      using less.hyps [OF _ e(2) less.prems(2) pre(1) less.prems(4) pre(2) e(5) pop(2) pre(4,5,3) inv] bs(2) by auto
    have S: "set ((offs @ [off]) @ bs') = set (offs @ bs)" using bs(1) by auto
    have run: "drop_offenders E q offs p n = Some (offs', p', n')"
      by (subst drop_offenders.simps) (use True emp pop(1) e(1) 2(1) in simp)
    have sub: "P' a \<subseteq> P a" for a using e(3) 2(3) by blast
    have frame: "P' a = P a" if "a \<notin> set (offs @ bs)" for a using that 2(6) [unfolded S] e(4) by simp
    show ?thesis
      by - (rule exI [of _ offs'], rule exI [of _ p'], rule exI [of _ P'], rule exI [of _ n'], intro conjI run 2(2,4,7) allI sub impI frame,
        use 2(5,8,9,10) e(6,7) S in simp_all)
  qed
qed

lemma limit_pending_ok:
  assumes ok: "pool_ok E p P Q {}" and rng: "ranges_ok E" and n: "length (pool_all p) < 2 ^ 62" and cfg: "1 \<le> AccountSlots (pconfig p)"
  shows "\<exists>p' P'. limit_pending E p = Some p' \<and> pool_ok E p' P' Q {} \<and> (\<forall>a. P' a \<subseteq> P a)
    \<and> (\<forall>a. as_contains (locals p) a \<longrightarrow> P' a = P a)
    \<and> (fst (pool_stats p') \<le> unat (GlobalSlots (pconfig p))
       \<or> (\<forall>a. \<not> as_contains (locals p) a \<longrightarrow> card (P' a) \<le> unat (AccountSlots (pconfig p))))
    \<and> pconfig p' = pconfig p \<and> locals p' = locals p"
proof -
  let ?K = "set (gm_keys (pending p))" and ?g = "GlobalSlots (pconfig p)" and ?loc = "as_contains (locals p)"
    and ?s = "AccountSlots (pconfig p)" and ?n = "list_total (pending p)"
  have out: "F a = {}" if "a \<notin> ?K" "\<forall>a. F a \<subseteq> P a" for F a using pool_keys_empty(1) [OF ok that(1)] that(2) by blast
  have tot: "fst (pool_stats p') = pend_total ?K P'" if "pool_ok E p' P' Q {}" "\<forall>a. P' a \<subseteq> P a" for p' P'
    by (rule pool_sizes(1) [OF that(1)]) (use out that(2) in simp_all)
  have small: "pend_total ?K P < 2 ^ 62" using sum_card_pooled(1) [OF ok, of ?K] n by simp
  have nn: "?n = of_nat (pend_total ?K P)"
    using tot [OF ok] by (simp add: list_total_sum pool_stats_def stats_sum)
  have sizes: "\<forall>a. card (P a) < 2 ^ 62" using card_small [OF ok n] by simp
  have le: "card (P' a) \<le> card (P a)" "pend_total ?K P' \<le> pend_total ?K P" if "\<forall>a. P' a \<subseteq> P a" for P' a
  proof -
    show "card (P' a) \<le> card (P a)" for a by (rule card_mono) (use that pool_ok_finite [OF ok] in auto)
    then show "pend_total ?K P' \<le> pend_total ?K P" by (rule sum_mono)
  qed
  have within: "fst (pool_stats p') \<le> unat ?g" if "pool_ok E p' P' Q {}" "\<forall>a. P' a \<subseteq> P a" "n' = of_nat (pend_total ?K P')" "n' \<le> ?g" for p' P' n'
  proof -
    have "pend_total ?K P' < 2 ^ 64" using le_less_trans [OF le(2) [OF that(2)] small] by (rule less_trans) simp
    then have "unat n' = pend_total ?K P'" unfolding that(3) by (rule unat_of_nat_u64)
    then show ?thesis using that(4) tot [OF that(1,2)] by (simp only: word_le_nat_alt)
  qed
  show ?thesis
  proof (cases "?n > ?g")
    case False
    then have "fst (pool_stats p) \<le> unat ?g" using within [OF ok _ nn] by simp
    then show ?thesis using False ok by (intro exI [of _ p] exI [of _ P]) (simp add: limit_pending_def)
  next
    case True
    obtain bs where bs: "pq_ok (spam_order E p)" "mset (spam_order E p) = image_mset (spam_item P) (mset bs)" "distinct bs"
      "set bs = {a. spams p P a}"
      by (rule spam_order_ok [OF ok rng n])
    have two: "2 \<le> card (F a)" if "(of_nat (card (F a)) :: u64) > ?s" for F :: "address \<Rightarrow> transaction set" and a
    proof (rule ccontr)
      assume "\<not> 2 \<le> card (F a)"
      then have "card (F a) = 0 \<or> card (F a) = 1" by auto
      then show False using that cfg by (auto simp: word_less_nat_alt word_le_nat_alt)
    qed
    have pre: "distinct ([] @ bs)" "finite ?K" "set ([] @ bs) \<subseteq> ?K" "\<forall>b \<in> set bs. 2 \<le> card (P b)"
    proof -
      show "distinct ([] @ bs)" "finite ?K" using bs(3) by simp_all
      show two': "\<forall>b \<in> set bs. 2 \<le> card (P b)" using bs(4) two [of P] by (simp add: spams_def)
      show "set ([] @ bs) \<subseteq> ?K"
      proof
        fix b assume "b \<in> set ([] @ bs)"
        then have "2 \<le> card (P b)" using two' by simp
        then show "b \<in> ?K" using out [of b P] by (cases "b \<in> ?K") simp_all
      qed
    qed
    obtain offs p1 P1 n1 where 1: "drop_offenders E (spam_order E p) [] p ?n = Some (offs, p1, n1)" "pool_ok E p1 P1 Q {}"
      "\<forall>a. P1 a \<subseteq> P a" "distinct offs" "set offs \<subseteq> set ([] @ bs)" "\<forall>a. a \<notin> set ([] @ bs) \<longrightarrow> P1 a = P a"
      "n1 = of_nat (pend_total ?K P1)" "n1 > ?g \<longrightarrow> set offs = set ([] @ bs) \<and> levelled P1 offs"
      "pconfig p1 = pconfig p" "locals p1 = locals p"
      using drop_offenders_ok [where offs = "[]", OF ok rng pre(1,2,3) nn bs(1,2) sizes pre(4)] by (auto simp: levelled_def)
    have far: "card (P a) \<le> unat ?s" if "\<not> ?loc a" "a \<notin> set bs" for a
      using that bs(4) unat_card [of "P a"] sizes by (auto simp: spams_def word_less_nat_alt not_less)
    show ?thesis
    proof (cases "n1 > ?g \<and> offs \<noteq> []")
      case False
      have run: "limit_pending E p = Some p1" unfolding limit_pending_def Let_def if_P [OF True] using 1(1,9) False by auto
      have loc: "\<forall>a. ?loc a \<longrightarrow> P1 a = P a" using 1(6) bs(4) by (auto simp: spams_def)
      have "fst (pool_stats p1) \<le> unat ?g \<or> (\<forall>a. \<not> ?loc a \<longrightarrow> card (P1 a) \<le> unat ?s)"
      proof (cases "n1 > ?g")
        case True
        then have "bs = []" using False 1(8) by auto
        then show ?thesis using far le(1) [OF 1(3)] by (metis empty_iff empty_set le_trans)
      next
        case False
        then show ?thesis using within [OF 1(2,3,7)] by simp
      qed
      then show ?thesis using run 1(2,3,9,10) loc by - (rule exI [of _ p1], rule exI [of _ P1], simp)
    next
      case more: True
      define longer where "longer = (\<lambda>k. (of_nat k :: u64) > AccountSlots (pconfig p1))"
      have lg: "\<forall>k. longer k \<longrightarrow> 2 \<le> k"
      proof (intro allI impI, rule ccontr)
        fix k assume k: "longer k" "\<not> 2 \<le> k"
        then have "k = 0 \<or> k = 1" by auto
        then show False using k(1) cfg 1(9) by (auto simp: longer_def word_less_nat_alt word_le_nat_alt)
      qed
      have lv: "set offs = set bs" "\<forall>a \<in> set offs. card (P1 a) = card (P1 (last offs))" "1 \<le> card (P1 (last offs))"
        "last offs \<in> set offs" "set offs \<subseteq> ?K"
      proof -
        have *: "set offs = set bs" "levelled P1 offs" "offs \<noteq> []" using more 1(8) by simp_all
        then show "set offs = set bs" "\<forall>a \<in> set offs. card (P1 a) = card (P1 (last offs))" "1 \<le> card (P1 (last offs))"
          unfolding levelled_def by blast+
        show "last offs \<in> set offs" by (rule last_in_set [OF *(3)])
        show "set offs \<subseteq> ?K" using *(1) pre(3) by simp
      qed
      obtain p2 P2 n2 where 2: "equalize E longer offs (last offs) p1 n1 = Some (p2, n2)" "pool_ok E p2 P2 Q {}" "\<forall>a. P2 a \<subseteq> P1 a"
        "\<forall>a \<in> set offs. card (P2 a) = card (P2 (last offs))" "\<forall>a. a \<notin> set offs \<longrightarrow> P2 a = P1 a" "n2 = of_nat (pend_total ?K P2)"
        "n2 \<le> GlobalSlots (pconfig p1) \<or> \<not> longer (card (P2 (last offs)))" "pconfig p2 = pconfig p1" "locals p2 = locals p1"
        using equalize_ok [OF 1(2) rng 1(4) lv(4,2) pre(2) lv(5) 1(7) lg lv(3)] by (elim exE conjE)
      have sub: "\<forall>a. P2 a \<subseteq> P a" using 1(3) 2(3) by blast
      have run: "limit_pending E p = Some p2"
        unfolding limit_pending_def Let_def if_P [OF True] using 1(1,9) more 2(1) by (simp add: longer_def)
      have loc: "\<forall>a. ?loc a \<longrightarrow> P2 a = P a" using 1(6) 2(5) lv(1) bs(4) by (auto simp: spams_def)
      have "fst (pool_stats p2) \<le> unat ?g \<or> (\<forall>a. \<not> ?loc a \<longrightarrow> card (P2 a) \<le> unat ?s)"
      proof (cases "n2 \<le> ?g")
        case True
        then show ?thesis using within [OF 2(2) sub 2(6)] by simp
      next
        case False
        have "card (P2 (last offs)) \<le> unat ?s"
        proof -
          have "card (P2 (last offs)) < 2 ^ 62" by (rule le_less_trans [OF le(1) [OF sub]]) (use sizes in blast)
          then show ?thesis using False 2(7) 1(9) unat_card [of "P2 (last offs)"] by (auto simp: longer_def word_less_nat_alt not_less)
        qed
        then have "card (P2 a) \<le> unat ?s" if "a \<in> set bs" for a using 2(4) lv(1) that by (metis)
        then show ?thesis using far le(1) [OF sub] by (metis le_trans)
      qed
      then show ?thesis using run 2(2,8,9) 1(9,10) sub loc by - (rule exI [of _ p2], rule exI [of _ P2], simp)
    qed
  qed
qed

end
