(* ===== verification/Tx_Pool_Run.thy ===== *)
theory Tx_Pool_Run
  imports Tx_Pool_Limit
begin

text \<open>
  \<open>promoteExecutables\<close>, \<open>addTx\<close> and \<open>addTxsLocked\<close> of \<open>core/tx_pool.go\<close> as a whole: they return, leave a pool in
  order, and the limits of the configuration hold afterwards.
\<close>

section \<open>Promotion with its limits\<close>

lemma pool_all_mono:
  assumes "pool_ok E p P Q D" "pool_ok E' p' P' Q' D'" "pooled P' Q' \<subseteq> pooled P Q"
  shows "length (pool_all p') \<le> length (pool_all p)"
  using card_mono [OF _ assms(3)] pool_ok_card [OF assms(1)] pool_ok_card [OF assms(2)] by simp

lemma pool_all_insert:
  assumes "pool_ok E p P Q D" "pool_ok E' p' P' Q' D'" "pooled P' Q' \<subseteq> insert t (pooled P Q)"
  shows "length (pool_all p') \<le> Suc (length (pool_all p))"
proof -
  have c: "finite (pooled P Q)" "card (pooled P Q) = length (pool_all p)" using pool_ok_card [OF assms(1)] by simp_all
  have "card (pooled P' Q') \<le> card (insert t (pooled P Q))" by (rule card_mono [OF _ assms(3)]) (use c in simp)
  also have "\<dots> \<le> Suc (card (pooled P Q))" by (simp add: card_insert_if c(1))
  finally show ?thesis using pool_ok_card [OF assms(2)] c by simp
qed

lemma pooled_mono: "\<forall>a. P' a \<subseteq> P a \<Longrightarrow> \<forall>a. Q' a \<subseteq> Q a \<Longrightarrow> pooled P' Q' \<subseteq> pooled P Q"
  unfolding pooled_def by blast

text \<open>The limits after a promotion: of all pending transactions, of the whole queue, and of each account in \<open>as\<close>.\<close>

definition limits_hold :: "address set \<Rightarrow> 't txPool \<Rightarrow> (address \<Rightarrow> transaction set) \<Rightarrow> (address \<Rightarrow> transaction set) \<Rightarrow> bool" where
  "limits_hold as p P Q \<longleftrightarrow>
     (fst (pool_stats p) \<le> unat (GlobalSlots (pconfig p))
        \<or> (\<forall>a. \<not> as_contains (locals p) a \<longrightarrow> card (P a) \<le> unat (AccountSlots (pconfig p))))
   \<and> (snd (pool_stats p) \<le> unat (GlobalQueue (pconfig p)) \<or> (\<forall>a. \<not> as_contains (locals p) a \<longrightarrow> Q a = {}))
   \<and> (\<forall>a \<in> as. \<not> as_contains (locals p) a \<longrightarrow> card (Q a) \<le> unat (AccountQueue (pconfig p)))"

definition promoted_accounts :: "address list option \<Rightarrow> address set" where
  "promoted_accounts addrs = (case addrs of None \<Rightarrow> UNIV | Some as \<Rightarrow> set as)"

lemma promoteExecutables_ok:
  assumes ok: "pool_ok E p P Q {}" and rng: "ranges_ok E" and cfg: "config_ok (pconfig p)" and n: "length (pool_all p) < 2 ^ 62"
  shows "\<exists>p' P' Q'. promoteExecutables E now addrs p = Some p' \<and> pool_ok E p' P' Q' {} \<and> pooled P' Q' \<subseteq> pooled P Q
    \<and> pconfig p' = pconfig p \<and> locals p' = locals p \<and> limits_hold (promoted_accounts addrs) p' P' Q'"
proof -
  define as where "as = (case addrs of None \<Rightarrow> rngA E (gm_keys (queue p)) | Some as \<Rightarrow> as)"
  have ra: "range_ok (rngA E)" using rng by (simp add: ranges_ok_def)
  obtain ts p1 P1 Q1 where 1: "promote_accounts E now as p = Some (ts, p1)" "pool_ok E p1 P1 Q1 {}" "pooled P1 Q1 \<subseteq> pooled P Q"
    "pconfig p1 = pconfig p" "locals p1 = locals p" "\<forall>b. Q1 b \<subseteq> Q b"
    "\<forall>b \<in> set as. \<not> as_contains (locals p) b \<longrightarrow> card (Q1 b) \<le> unat (AccountQueue (pconfig p))"
    using promote_accounts_ok [OF ok rng cfg, of now as] by (elim exE conjE)
  define p2 where "p2 = (if length ts > 0 then feedNewTxEvent ts p1 else p1)"
  have p2: "pool_ok E p2 P1 Q1 {}" "pconfig p2 = pconfig p" "locals p2 = locals p" "length (pool_all p2) < 2 ^ 62"
    using 1(2,4,5) pool_all_mono [OF ok 1(2,3)] n by (simp_all add: p2_def feedNewTxEvent_def)
  have slots: "1 \<le> AccountSlots (pconfig p2)" using cfg p2(2) by (simp add: config_ok_def)
  obtain p3 P3 where 3: "limit_pending E p2 = Some p3" "pool_ok E p3 P3 Q1 {}" "\<forall>a. P3 a \<subseteq> P1 a"
    "fst (pool_stats p3) \<le> unat (GlobalSlots (pconfig p2))
       \<or> (\<forall>a. \<not> as_contains (locals p2) a \<longrightarrow> card (P3 a) \<le> unat (AccountSlots (pconfig p2)))"
    "pconfig p3 = pconfig p2" "locals p3 = locals p2"
    using limit_pending_ok [OF p2(1) rng p2(4) slots] by (elim exE conjE)
  have sub3: "pooled P3 Q1 \<subseteq> pooled P1 Q1" using 3(3) by (rule pooled_mono) simp
  have n3: "length (pool_all p3) < 2 ^ 62" using pool_all_mono [OF p2(1) 3(2) sub3] p2(4) by simp
  obtain p4 Q4 where 4: "limit_queue E p3 = Some p4" "pool_ok E p4 P3 Q4 {}" "\<forall>a. Q4 a \<subseteq> Q1 a"
    "snd (pool_stats p4) \<le> unat (GlobalQueue (pconfig p3)) \<or> (\<forall>a. \<not> as_contains (locals p3) a \<longrightarrow> Q4 a = {})"
    "pconfig p4 = pconfig p3" "locals p4 = locals p3"
    using limit_queue_ok [OF 3(2) rng n3] by (elim exE conjE)
  have sub: "pooled P3 Q4 \<subseteq> pooled P Q" using pooled_mono [OF _ 4(3), of P3 P3] sub3 1(3) by simp
  have st: "fst (pool_stats p4) = fst (pool_stats p3)"
  proof -
    let ?K = "set (gm_keys (pending p3))"
    have "\<forall>a. a \<notin> ?K \<longrightarrow> P3 a = {}" using pool_keys_empty(1) [OF 3(2)] by simp
    then show ?thesis using pool_sizes(1) [OF 3(2), of ?K] pool_sizes(1) [OF 4(2), of ?K] by simp
  qed
  have caps: "\<forall>a \<in> promoted_accounts addrs. \<not> as_contains (locals p) a \<longrightarrow> card (Q4 a) \<le> unat (AccountQueue (pconfig p))"
  proof (intro ballI impI)
    fix a assume a: "a \<in> promoted_accounts addrs" "\<not> as_contains (locals p) a"
    have le: "card (Q4 a) \<le> card (Q1 a)" by (rule card_mono) (use 4(3) pool_ok_finite [OF 1(2)] in auto)
    show "card (Q4 a) \<le> unat (AccountQueue (pconfig p))"
    proof (cases "a \<in> set as")
      case True
      then show ?thesis using 1(7) a(2) le by fastforce
    next
      case False
      then have "a \<notin> set (gm_keys (queue p))"
        using a(1) range_ok_set [OF ra] by (auto simp: as_def promoted_accounts_def split: option.splits)
      then have "Q a = {}" using pool_keys_empty(2) [OF ok] by simp
      then show ?thesis using le 1(6) by (metis card.empty le_zero_eq subset_empty zero_le)
    qed
  qed
  have run: "promoteExecutables E now addrs p = Some p4"
    using 1(1) 3(1) 4(1) by (simp add: promoteExecutables_def as_def p2_def)
  show ?thesis
    by - (rule exI [of _ p4], rule exI [of _ P3], rule exI [of _ Q4], intro conjI run 4(2) sub,
      use 3(4,5,6) 4(4,5,6) p2(2,3) st caps in \<open>simp_all add: limits_hold_def\<close>)
qed

section \<open>Adding\<close>

lemma kept_config: "kept_fields p p' \<Longrightarrow> pconfig p' = pconfig p"
  by (simp add: kept_fields_def)

lemma addTx_ok:
  assumes ok: "pool_ok E p P Q {}" and rng: "ranges_ok E" and cfg: "config_ok (pconfig p)" and n: "Suc (length (pool_all p)) < 2 ^ 62"
  shows "\<exists>e p' P' Q'. addTx E now tx isLocal p = Some (e, p') \<and> pool_ok E p' P' Q' {} \<and> pooled P' Q' \<subseteq> insert tx (pooled P Q)
    \<and> (e \<noteq> None \<longrightarrow> pooled P' Q' \<subseteq> pooled P Q) \<and> kept_fields p p'"
proof -
  have n': "length (pool_all p) < 2 ^ 62" using n by simp
  obtain r p1 P1 Q1 where 0: "pool_add E tx isLocal p = Some (r, p1)" "pool_ok E p1 P1 Q1 {}"
    "add_outcome tx r (pooled P Q) (pooled P1 Q1)" "kept_fields p p1"
    using pool_add_ok [OF ok rng n', of tx isLocal] by (elim exE conjE)
  note 1 = 0(1,2) add_outcome_insert [OF 0(3)] 0(4)
  show ?thesis
  proof (cases "r = Inr False")
    case True
    have c1: "config_ok (pconfig p1)" using cfg kept_config [OF 1(4)] by simp
    have n1: "length (pool_all p1) < 2 ^ 62" using pool_all_insert [OF ok 1(2,3)] n by simp
    obtain p2 P2 Q2 where 2: "promoteExecutables E now (Some [senderOf E tx]) p1 = Some p2" "pool_ok E p2 P2 Q2 {}"
      "pooled P2 Q2 \<subseteq> pooled P1 Q1" "pconfig p2 = pconfig p1" "locals p2 = locals p1"
      using promoteExecutables_ok [OF 1(2) rng c1 n1] by blast
    have "addTx E now tx isLocal p = Some (None, p2)" using 1(1) 2(1) True by (simp add: addTx_def)
    then show ?thesis using 2 1(3,4) kept_fields_trans [OF 1(4) kept_same [OF 2(4,5)]] by blast
  next
    case False
    then have "\<exists>e. addTx E now tx isLocal p = Some (e, p1) \<and> (e \<noteq> None \<longrightarrow> pooled P1 Q1 \<subseteq> pooled P Q)"
      using 1(1) 0(3) by (cases r) (auto simp: addTx_def add_outcome_def)
    then show ?thesis using 1 by blast
  qed
qed

lemma add_each_ok:
  assumes "pool_ok E p P Q {}" "ranges_ok E" "length (pool_all p) + length ts < 2 ^ 62"
  shows "\<exists>errs dirty' p' P' Q'. add_each E isLocal ts dirty p = Some (errs, dirty', p') \<and> pool_ok E p' P' Q' {}
    \<and> pooled P' Q' \<subseteq> set ts \<union> pooled P Q \<and> kept_fields p p' \<and> length errs = length ts
    \<and> length (pool_all p') \<le> length (pool_all p) + length ts"
  using assms
proof (induction ts arbitrary: p P Q dirty)
  case Nil
  then show ?case by - (rule exI [of _ "[]"], rule exI [of _ dirty], rule exI [of _ p], rule exI [of _ P], rule exI [of _ Q], simp)
next
  case (Cons t ts)
  have n: "length (pool_all p) < 2 ^ 62" using Cons.prems(3) by simp
  obtain r p1 P1 Q1 where 0: "pool_add E t isLocal p = Some (r, p1)" "pool_ok E p1 P1 Q1 {}"
    "add_outcome t r (pooled P Q) (pooled P1 Q1)" "kept_fields p p1"
    using pool_add_ok [OF Cons.prems(1,2) n, of t isLocal] by (elim exE conjE)
  note 1 = 0(1,2) add_outcome_insert [OF 0(3)] 0(4)
  have le: "length (pool_all p1) \<le> Suc (length (pool_all p))" by (rule pool_all_insert [OF Cons.prems(1) 1(2,3)])
  then have n1: "length (pool_all p1) + length ts < 2 ^ 62" using Cons.prems(3) by simp
  let ?d = "if r = Inr False then gm_put dirty (senderOf E t) () else dirty"
  obtain errs d' p2 P2 Q2 where 2: "add_each E isLocal ts ?d p1 = Some (errs, d', p2)" "pool_ok E p2 P2 Q2 {}"
    "pooled P2 Q2 \<subseteq> set ts \<union> pooled P1 Q1" "kept_fields p1 p2" "length errs = length ts"
    "length (pool_all p2) \<le> length (pool_all p1) + length ts"
    using Cons.IH [OF 1(2) Cons.prems(2) n1, of ?d] by (elim exE conjE)
  have run: "add_each E isLocal (t # ts) dirty p = Some ((case r of Inl e \<Rightarrow> Some e | Inr _ \<Rightarrow> None) # errs, d', p2)"
    using 1(1) 2(1) by simp
  have "pooled P2 Q2 \<subseteq> set (t # ts) \<union> pooled P Q" using 1(3) 2(3) by auto
  moreover have "kept_fields p p2" by (rule kept_fields_trans [OF 1(4) 2(4)])
  moreover have "length ((case r of Inl e \<Rightarrow> Some e | Inr _ \<Rightarrow> None) # errs) = length (t # ts)" using 2(5) by simp
  moreover have "length (pool_all p2) \<le> length (pool_all p) + length (t # ts)" using 2(6) le by simp
  ultimately show ?case using run 2(2) by blast
qed

lemma addTxsLocked_ok:
  assumes ok: "pool_ok E p P Q {}" and rng: "ranges_ok E" and cfg: "config_ok (pconfig p)"
    and n: "length (pool_all p) + length ts < 2 ^ 62"
  shows "\<exists>errs p' P' Q'. addTxsLocked E now ts isLocal p = Some (errs, p') \<and> pool_ok E p' P' Q' {}
    \<and> pooled P' Q' \<subseteq> set ts \<union> pooled P Q \<and> kept_fields p p' \<and> length errs = length ts
    \<and> length (pool_all p') \<le> length (pool_all p) + length ts"
proof -
  obtain errs d p1 P1 Q1 where 1: "add_each E isLocal ts [] p = Some (errs, d, p1)" "pool_ok E p1 P1 Q1 {}"
    "pooled P1 Q1 \<subseteq> set ts \<union> pooled P Q" "kept_fields p p1" "length errs = length ts"
    "length (pool_all p1) \<le> length (pool_all p) + length ts"
    using add_each_ok [OF ok rng n, of isLocal "[]"] by (elim exE conjE)
  show ?thesis
  proof (cases "length d > 0")
    case True
    have c1: "config_ok (pconfig p1)" using cfg kept_config [OF 1(4)] by simp
    have n1: "length (pool_all p1) < 2 ^ 62" using 1(6) n by simp
    obtain p2 P2 Q2 where 2: "promoteExecutables E now (Some (rngA E (gm_keys d))) p1 = Some p2" "pool_ok E p2 P2 Q2 {}"
      "pooled P2 Q2 \<subseteq> pooled P1 Q1" "pconfig p2 = pconfig p1" "locals p2 = locals p1"
      using promoteExecutables_ok [OF 1(2) rng c1 n1] by blast
    have "addTxsLocked E now ts isLocal p = Some (errs, p2)" using 1(1) 2(1) True by (simp add: addTxsLocked_def)
    moreover have "length (pool_all p2) \<le> length (pool_all p) + length ts" using pool_all_mono [OF 1(2) 2(2,3)] 1(6) by simp
    moreover have "pooled P2 Q2 \<subseteq> set ts \<union> pooled P Q" using 2(3) 1(3) by blast
    ultimately show ?thesis using 2(2) 1(5) kept_fields_trans [OF 1(4) kept_same [OF 2(4,5)]] by blast
  next
    case False
    then have "addTxsLocked E now ts isLocal p = Some (errs, p1)" using 1(1) by (simp add: addTxsLocked_def)
    then show ?thesis using 1 by blast
  qed
qed

end
