(* ===== verification/Tx_Pool_Demote.thy ===== *)
theory Tx_Pool_Demote
  imports Tx_Pool_Run
begin

text \<open>
  Demotion (\<open>demoteUnexecutables\<close> of \<open>core/tx_pool.go\<close>), the price limit, eviction and the views of the pool: each of
  them keeps the pool in order and brings no transaction into it.
\<close>

section \<open>Demotion\<close>

text \<open>While an account is treated, its list may be empty.\<close>

definition lists_ok :: "'t pool_env \<Rightarrow> 't txPool \<Rightarrow> (address \<Rightarrow> transaction set) \<Rightarrow> (address \<Rightarrow> transaction set) \<Rightarrow> bool" where
  "lists_ok E p P Q \<longleftrightarrow> pool_is E p P Q (pooled P Q) {} \<and> apart P Q"

lemma pool_ok_lists: "pool_ok E p P Q {} \<longleftrightarrow> lists_ok E p P Q \<and> filled (pending p) P"
  by (auto simp: pool_ok_def lists_ok_def)

lemma lists_ok_reads [simp]:
  "lists_ok E (snd (cur_nonce E a p)) P Q = lists_ok E p P Q" "lists_ok E (snd (cur_balance E a p)) P Q = lists_ok E p P Q"
  by (simp_all add: lists_ok_def)

lemma demote_step:
  assumes ok: "lists_ok E p P Q" and rng: "ranges_ok E" and l: "tl_inv l" "strict l"
    and parts: "set d \<union> set i \<union> ctxs l = P a" "set d \<inter> set i = {}" "(set d \<union> set i) \<inter> ctxs l = {}"
    and p': "p' = enqueue_all E i (forget_all E d (p\<lparr>pending := gm_put (pending p) a l\<rparr>))"
  shows "lists_ok E p' (P(a := ctxs l)) (Q(a := Q a \<union> set i)) \<and> pooled (P(a := ctxs l)) (Q(a := Q a \<union> set i)) \<subseteq> pooled P Q
    \<and> pending p' = gm_put (pending p) a l \<and> pconfig p' = pconfig p \<and> locals p' = locals p"
proof -
  let ?A = "pooled P Q" and ?P = "P(a := ctxs l)" and ?Q = "Q(a := Q a \<union> set i)" and ?p = "p\<lparr>pending := gm_put (pending p) a l\<rparr>"
  have ab: "pool_is E p P Q ?A {}" and ap: "apart P Q" using ok by (simp_all add: lists_ok_def)
  have send: "\<forall>t \<in> P a. pe_sender E t = Some a" using pool_home(1) [OF ab] by simp
  have one: "b = a" if "t \<in> P a" "t \<in> P b \<union> Q b" for t b
    using that pool_home(1,2) [OF ab] by (metis Un_iff option.inject)
  have two: "t \<notin> Q a" if "t \<in> P a" for t using that ap by (auto simp: apart_def)
  have dA: "set d \<subseteq> ?A" using parts(1) by (auto simp: pooled_def)
  have "pool_is E ?p ?P Q ?A {}" using put_pending [OF ab l] send parts(1) by auto
  then have 1: "pool_is E (forget_all E d ?p) ?P Q (?A - set d) {}" by (rule forget_all_is [OF _ rng dA])
  have sub: "Q a \<union> set i \<subseteq> ?A - set d" using parts two by (auto simp: pooled_def)
  have "inj_on AccountNonce (Q a \<union> set i)"
  proof (rule inj_onI)
    fix t u assume tu: "t \<in> Q a \<union> set i" "u \<in> Q a \<union> set i" "AccountNonce t = AccountNonce u"
    have "t \<in> P a \<or> t \<in> Q a" "u \<in> P a \<or> u \<in> Q a" using tu(1,2) parts(1) by auto
    moreover have "AccountNonce v \<noteq> AccountNonce w" if "v \<in> P a" "w \<in> Q a" for v w
      using that ap by (auto simp: apart_def disjoint_iff image_iff)
    ultimately show "t = u" using pool_home(3,4) [OF ab] tu(3) by metis
  qed
  moreover have "\<forall>t \<in> set i. pe_sender E t = Some a" using send parts(1) by auto
  ultimately have 2: "pool_is E p' ?P ?Q (?A - set d) {}" "pending p' = gm_put (pending p) a l" "pconfig p' = pconfig p"
    "locals p' = locals p"
    unfolding p' using enqueue_all_is [OF 1 rng _ sub] by simp_all
  have pl: "pooled ?P ?Q = ?A - set d"
  proof (rule set_eqI)
    fix t
    have at: "t \<in> pooled F G \<longleftrightarrow> t \<in> F a \<or> t \<in> G a \<or> (\<exists>b. b \<noteq> a \<and> (t \<in> F b \<or> t \<in> G b))" for F G
      by (auto simp: pooled_def)
    show "t \<in> pooled ?P ?Q \<longleftrightarrow> t \<in> ?A - set d" unfolding at Diff_iff using parts one [of t] two [of t] by auto
  qed
  have "AccountNonce t \<noteq> AccountNonce u" if tu: "t \<in> ?P b" "u \<in> ?Q b" for t u b
  proof (cases "b = a")
    case True
    then have t: "t \<in> ctxs l" "t \<in> P a" and u: "u \<in> Q a \<or> u \<in> set i \<and> u \<in> P a" using tu parts(1) by auto
    then have "t \<noteq> u" using parts(3) two by blast
    then show ?thesis using t u ap pool_home(3) [OF ab] by (auto simp: apart_def disjoint_iff image_iff)
  next
    case False
    then show ?thesis using tu ap by (auto simp: apart_def disjoint_iff image_iff)
  qed
  then have "apart ?P ?Q" unfolding apart_def disjoint_iff image_iff by metis
  then show ?thesis using 2 pl by (auto simp: lists_ok_def)
qed

lemma read_lists [simp]:
  "pending (snd (cur_nonce E a p)) = pending p" "pending (snd (cur_balance E a p)) = pending p"
  by (simp_all add: cur_nonce_def cur_balance_def split: prod.splits)

lemma demote_account_ok:
  assumes ok: "pool_ok E p P Q {}" and rng: "ranges_ok E"
  shows "\<exists>p' P' Q'. demote_account E a p = Some p' \<and> pool_ok E p' P' Q' {} \<and> pooled P' Q' \<subseteq> pooled P Q
    \<and> pconfig p' = pconfig p \<and> locals p' = locals p"
proof (cases "gm_get (pending p) a")
  case None
  then show ?thesis using ok by (auto simp: demote_account_def)
next
  case (Some l)
  have rn: "range_ok (rngN E)" using rng by (simp add: ranges_ok_def)
  have lo: "lists_ok E p P Q" and fl: "filled (pending p) P" using ok by (simp_all add: pool_ok_lists)
  have li: "tl_inv l" "strict l" "ctxs l = P a" using pool_ok_list(3) [OF ok Some] by simp_all
  obtain nonce p1 where n: "cur_nonce E a p = (nonce, p1)" by fastforce
  have k1: "lists_ok E p1 P Q" "pending p1 = pending p" "pconfig p1 = pconfig p" "locals p1 = locals p"
    using lo n lists_ok_reads(1) [of E a p P Q] read_lists(1) [of E a p] cur_nonce_is(4,5) [of E a p] by simp_all
  obtain r1 l1 where f: "tl_Forward l nonce = Some (map Some r1, l1)" "tl_inv l1" "strict l1 = strict l"
    "set r1 = {t \<in> ctxs l. AccountNonce t < nonce}" "ctxs l1 = {t \<in> ctxs l. \<not> AccountNonce t < nonce}"
    by (rule tl_Forward_total [OF li(1)])
  define p2 where "p2 = forget_all E r1 (p1\<lparr>pending := gm_put (pending p1) a l1\<rparr>)"
  have e2: "p2 = enqueue_all E [] (forget_all E r1 (p1\<lparr>pending := gm_put (pending p1) a l1\<rparr>))"
    by (simp add: p2_def enqueue_all_def)
  have q1: "set r1 \<union> set [] \<union> ctxs l1 = P a" "set r1 \<inter> set [] = {}" "(set r1 \<union> set []) \<inter> ctxs l1 = {}"
    using f(4,5) li(3) by auto
  have s1: "strict l1" using f(3) li(2) by simp
  note d2 = demote_step [OF k1(1) rng f(2) s1 q1 e2]
  let ?P1 = "P(a := ctxs l1)" and ?Q1 = "Q(a := Q a \<union> set [])"
  obtain bal p3 where b: "cur_balance E a p2 = (bal, p3)" by fastforce
  have k3: "lists_ok E p3 ?P1 ?Q1" "pending p3 = pending p2" "pconfig p3 = pconfig p2" "locals p3 = locals p2"
    using d2 b lists_ok_reads(2) [of E a p2 ?P1 ?Q1] read_lists(2) [of E a p2] cur_balance_is(4,5) [of E a p2] by simp_all
  obtain r2 i2 l2 where g: "tl_Filter (rngN E) l1 bal (currentMaxGas p3) = ((r2, i2), l2)" "tl_inv l2" "strict l2 = strict l1"
    "set r2 \<union> set i2 \<union> ctxs l2 = ctxs l1" "set r2 \<inter> set i2 = {}" "(set r2 \<union> set i2) \<inter> ctxs l2 = {}"
    "\<not> strict l1 \<longrightarrow> set i2 = {}"
    by (rule tl_Filter_total [OF f(2) rn, where costLimit = bal and gasLimit = "currentMaxGas p3"])
  define p4 where "p4 = enqueue_all E i2 (forget_all E r2 (p3\<lparr>pending := gm_put (pending p3) a l2\<rparr>))"
  have q2: "set r2 \<union> set i2 \<union> ctxs l2 = ?P1 a" using g(4) by simp
  have s2: "strict l2" using g(3) s1 by simp
  note d4 = demote_step [OF k3(1) rng g(2) s2 q2 g(5,6) p4_def, unfolded fun_upd_upd fun_upd_same]
  let ?P2 = "P(a := ctxs l2)" and ?Q2 = "Q(a := Q a \<union> set [] \<union> set i2)"
  have lo4: "lists_ok E p4 ?P2 ?Q2" and pd4: "pending p4 = gm_put (gm_put (pending p) a l1) a l2"
    using d4 k3(2) d2 k1(2) by simp_all
  obtain l3 p5 P5 Q5 where c: "(if tl_Len l2 > 0 \<and> sm_Get (txs l2) nonce = None then do {
               (caps, l3) \<leftarrow> tl_Cap l2 0;
               cap \<leftarrow> deref_all caps;
               Some (l3, enqueue_all E cap (p4\<lparr>pending := gm_put (pending p4) a l3\<rparr>))
             } else Some (l2, p4)) = Some (l3, p5)" "lists_ok E p5 P5 Q5" "pooled P5 Q5 \<subseteq> pooled ?P2 ?Q2" "tl_inv l3"
    "ctxs l3 = P5 a" "\<forall>b. b \<noteq> a \<longrightarrow> P5 b = P b" "\<forall>b. b \<noteq> a \<longrightarrow> gm_get (pending p5) b = gm_get (pending p) b"
    "gm_get (pending p5) a = Some l3" "pconfig p5 = pconfig p4" "locals p5 = locals p4"
  proof (cases "tl_Len l2 > 0 \<and> sm_Get (txs l2) nonce = None")
    case False
    have run: "(if tl_Len l2 > 0 \<and> sm_Get (txs l2) nonce = None then do {
               (caps, l3) \<leftarrow> tl_Cap l2 0;
               cap \<leftarrow> deref_all caps;
               Some (l3, enqueue_all E cap (p4\<lparr>pending := gm_put (pending p4) a l3\<rparr>))
             } else Some (l2, p4)) = Some (l2, p4)" using False by (simp only: if_False)
    show thesis by (rule that [OF run lo4 subset_refl g(2)]) (simp_all add: pd4 gm_get_put)
  next
    case True
    obtain r3 l3 where h: "tl_Cap l2 0 = Some (map Some r3, l3)" "tl_inv l3" "strict l3 = strict l2" "set r3 \<inter> ctxs l3 = {}"
      "set r3 \<union> ctxs l3 = ctxs l2"
      using tl_Cap_total [OF g(2), of 0] by metis
    define p5 where "p5 = enqueue_all E r3 (p4\<lparr>pending := gm_put (pending p4) a l3\<rparr>)"
    have e5: "p5 = enqueue_all E r3 (forget_all E [] (p4\<lparr>pending := gm_put (pending p4) a l3\<rparr>))"
      by (simp add: p5_def forget_all_def)
    have q3: "set [] \<union> set r3 \<union> ctxs l3 = ?P2 a" "set [] \<inter> set r3 = {}" "(set [] \<union> set r3) \<inter> ctxs l3 = {}" using h(4,5) by auto
    have s3: "strict l3" using h(3) s2 by simp
    note d5 = demote_step [OF lo4 rng h(2) s3 q3 e5]
    have run: "(if tl_Len l2 > 0 \<and> sm_Get (txs l2) nonce = None then do {
               (caps, l3) \<leftarrow> tl_Cap l2 0;
               cap \<leftarrow> deref_all caps;
               Some (l3, enqueue_all E cap (p4\<lparr>pending := gm_put (pending p4) a l3\<rparr>))
             } else Some (l2, p4)) = Some (l3, p5)" unfolding if_P [OF True] by (simp add: h(1) p5_def)
    show thesis by (rule that [OF run conjunct1 [OF d5] conjunct1 [OF conjunct2 [OF d5]] h(2)]) (use d5 in \<open>simp_all add: pd4 gm_get_put\<close>)
  qed
  define p6 where "p6 = (if tl_Empty l3 then p5\<lparr>pending := gm_del (pending p5) a, beats := gm_del (beats p5) a\<rparr> else p5)"
  have run: "demote_account E a p = Some p6"
    by (simp only: demote_account_def Some option.case Let_def n prod.case f(1) Option.bind.bind_lunit deref_all_Some
        p2_def [symmetric] b g(1) p4_def [symmetric] c(1) p6_def [symmetric])
  have "pool_is E p5 P5 Q5 (pooled P5 Q5) {}" using c(2) by (simp add: lists_ok_def)
  then have "pool_is E (p5\<lparr>pending := gm_del (pending p5) a\<rparr>) (P5(a := ctxs l3)) Q5 (pooled P5 Q5) {}" if "tl_Empty l3"
    using del_empty(2) [OF _ c(4) that] by blast
  then have lo6: "lists_ok E p6 P5 Q5" using c(2) c(5) by (auto simp: lists_ok_def p6_def fun_upd_idem)
  have "filled (pending p6) P5"
    unfolding filled_def
  proof (intro allI impI)
    fix b assume b: "gm_get (pending p6) b \<noteq> None"
    show "P5 b \<noteq> {}"
    proof (cases "b = a")
      case True
      then have "\<not> tl_Empty l3" using b by (auto simp: p6_def gm_get_del)
      then show ?thesis using True c(5) tl_Empty_iff [OF c(4)] by simp
    next
      case False
      then have "gm_get (pending p) b \<noteq> None" using b c(7) by (auto simp: p6_def gm_get_del split: if_splits)
      then show ?thesis using False c(6) fl by (simp add: filled_def)
    qed
  qed
  then have "pool_ok E p6 P5 Q5 {}" using lo6 by (simp add: pool_ok_lists)
  moreover have "pooled P5 Q5 \<subseteq> pooled P Q"
    by (rule order_trans [OF c(3) order_trans [OF conjunct1 [OF conjunct2 [OF d4]] conjunct1 [OF conjunct2 [OF d2]]]])
  moreover have "pconfig p6 = pconfig p" "locals p6 = locals p" using c(9,10) d4 d2 k3 k1 by (simp_all add: p6_def)
  ultimately show ?thesis using run by blast
qed

lemma demote_accounts_ok:
  assumes "pool_ok E p P Q {}" "ranges_ok E"
  shows "\<exists>p' P' Q'. demote_accounts E as p = Some p' \<and> pool_ok E p' P' Q' {} \<and> pooled P' Q' \<subseteq> pooled P Q
    \<and> pconfig p' = pconfig p \<and> locals p' = locals p"
  using assms
proof (induction as arbitrary: p P Q)
  case Nil
  then show ?case by auto
next
  case (Cons a as)
  obtain p1 P1 Q1 where 1: "demote_account E a p = Some p1" "pool_ok E p1 P1 Q1 {}" "pooled P1 Q1 \<subseteq> pooled P Q"
    "pconfig p1 = pconfig p" "locals p1 = locals p"
    using demote_account_ok [OF Cons.prems, of a] by (elim exE conjE)
  obtain p2 P2 Q2 where 2: "demote_accounts E as p1 = Some p2" "pool_ok E p2 P2 Q2 {}" "pooled P2 Q2 \<subseteq> pooled P1 Q1"
    "pconfig p2 = pconfig p1" "locals p2 = locals p1"
    using Cons.IH [OF 1(2) Cons.prems(2)] by (elim exE conjE)
  have "demote_accounts E (a # as) p = Some p2" "pooled P2 Q2 \<subseteq> pooled P Q" using 1(1,3) 2(1,3) by auto
  then show ?case using 1(4,5) 2(2,4,5) by (metis)
qed

section \<open>Views\<close>

lemma maps_to_flatten:
  assumes m: "maps_to E b m F" and rn: "range_ok rng" and l: "gm_get m a = Some l"
  obtains l' where "tl_Flatten rng l = (sm_flat (items (txs l)), l')" "maps_to E b (gm_put m a l') F"
    "set (sm_flat (items (txs l))) = F a" "sorted (map AccountNonce (sm_flat (items (txs l))))"
proof -
  note li = maps_to_get [OF m l]
  obtain l' where f: "tl_Flatten rng l = (sm_flat (items (txs l)), l')" "tl_inv l'" "strict l' = strict l" "ctxs l' = ctxs l"
    using tl_Flatten_total [OF li(1) rn] by metis
  have s: "\<forall>t \<in> F a. pe_sender E t = Some a" using maps_to_sender [OF m] by blast
  have "maps_to E b (gm_put m a l') (F(a := ctxs l'))" by (rule maps_to_put [OF m f(2)]) (use f(3,4) li s in simp_all)
  then have "maps_to E b (gm_put m a l') F" using f(4) li(3) by simp
  moreover have "set (sm_flat (items (txs l))) = F a" using li(3) by (simp add: sm_contents_def)
  ultimately show thesis using that [OF f(1)] sorted_sm_flat by blast
qed

text \<open>The result of a view has the transactions of each account in the order of their nonces.\<close>

lemma flatten_lists_ok:
  assumes "maps_to E b m F" "range_ok rng" "flatten_lists rng as m = (r, m')" "distinct as" "set as \<subseteq> set (gm_keys m)"
  shows "maps_to E b m' F \<and> set (gm_keys m') = set (gm_keys m) \<and> set (gm_keys r) = set as
    \<and> (\<forall>a ts. gm_get r a = Some ts \<longrightarrow> set ts = F a \<and> sorted (map AccountNonce ts) \<and> distinct ts)"
  using assms
proof (induction as arbitrary: m r m')
  case Nil
  then show ?case by simp
next
  case (Cons a as)
  obtain l where l: "gm_get m a = Some l" using Cons.prems(5) gm_get_None_iff [of m a] by (cases "gm_get m a") simp_all
  obtain l' where f: "tl_Flatten rng l = (sm_flat (items (txs l)), l')" "maps_to E b (gm_put m a l') F"
    "set (sm_flat (items (txs l))) = F a" "sorted (map AccountNonce (sm_flat (items (txs l))))"
    by (rule maps_to_flatten [OF Cons.prems(1,2) l])
  obtain r1 m1 where r: "flatten_lists rng as (gm_put m a l') = (r1, m1)" by fastforce
  have "a \<in> set (gm_keys m)" by (rule subsetD [OF Cons.prems(5)]) simp
  then have keys: "set (gm_keys (gm_put m a l')) = set (gm_keys m)" unfolding gm_keys_put by blast
  have d: "distinct as" "set as \<subseteq> set (gm_keys (gm_put m a l'))" using Cons.prems(4,5) keys by simp_all
  note IH = Cons.IH [OF f(2) Cons.prems(2) r d]
  have e: "r = gm_put r1 a (sm_flat (items (txs l)))" "m' = m1" using Cons.prems(3) l f(1) r by simp_all
  have di: "distinct (sm_flat (items (txs l)))"
    using distinct_flat [OF maps_to_get(1) [OF Cons.prems(1) l]] by (rule distinct_mapI)
  have "set (gm_keys r) = set (a # as)" unfolding e(1) gm_keys_put using IH by simp
  moreover have "\<forall>c ts. gm_get r c = Some ts \<longrightarrow> set ts = F c \<and> sorted (map AccountNonce ts) \<and> distinct ts"
    using IH f(3,4) di by (simp add: e(1) gm_get_put)
  ultimately show ?case using IH keys by (simp only: e(2))
qed

lemma range_keys:
  assumes "maps_to E b m F" "range_ok rng"
  shows "distinct (rng (gm_keys m))" "set (rng (gm_keys m)) = set (gm_keys m)"
  using assms(1) range_ok_distinct [OF assms(2), of "gm_keys m"] range_ok_set [OF assms(2), of "gm_keys m"]
  by (simp_all add: maps_to_def gm_wf_def)

lemma pool_Pending_ok:
  assumes ok: "pool_ok E p P Q D" and rng: "ranges_ok E" and r: "pool_Pending E p = (r, p')"
  shows "pool_ok E p' P Q D \<and> pconfig p' = pconfig p \<and> locals p' = locals p \<and> set (gm_keys r) = set (gm_keys (pending p))
    \<and> (\<forall>a ts. gm_get r a = Some ts \<longrightarrow> set ts = P a \<and> sorted (map AccountNonce ts) \<and> distinct ts)"
proof -
  have m: "maps_to E True (pending p) P" using ok by (simp add: pool_ok_def pool_is_def)
  have rn: "range_ok (rngN E)" "range_ok (rngA E)" using rng by (simp_all add: ranges_ok_def)
  obtain m' where f: "flatten_lists (rngN E) (rngA E (gm_keys (pending p))) (pending p) = (r, m')" "p' = p\<lparr>pending := m'\<rparr>"
    using r by (auto simp: pool_Pending_def split: prod.splits)
  note fl = flatten_lists_ok [OF m rn(1) f(1)] and k = range_keys [OF m rn(2)]
  have 1: "maps_to E True m' P" "set (gm_keys m') = set (gm_keys (pending p))" "set (gm_keys r) = set (gm_keys (pending p))"
    "\<forall>a ts. gm_get r a = Some ts \<longrightarrow> set ts = P a \<and> sorted (map AccountNonce ts) \<and> distinct ts"
    using fl k by (blast intro: equalityD1)+
  have "filled m' P" using ok 1(2) gm_get_None_iff [of m'] gm_get_None_iff [of "pending p"] by (auto simp: pool_ok_def filled_def)
  then have "pool_ok E p' P Q D" using ok 1(1) by (simp add: f(2) pool_ok_def pool_is_def)
  then show ?thesis using 1(3,4) by (simp add: f(2))
qed

lemma latest_nonces_ok:
  assumes "pool_ok E p P Q {}" "ranges_ok E"
  shows "\<exists>p'. latest_nonces E as p = Some p' \<and> pool_ok E p' P Q {} \<and> pconfig p' = pconfig p \<and> locals p' = locals p"
  using assms
proof (induction as arbitrary: p)
  case Nil
  then show ?case by simp
next
  case (Cons a as)
  show ?case
  proof (cases "gm_get (pending p) a")
    case None
    then show ?thesis using Cons by simp
  next
    case (Some l)
    have m: "maps_to E True (pending p) P" using Cons.prems(1) by (simp add: pool_ok_def pool_is_def)
    have rn: "range_ok (rngN E)" using Cons.prems(2) by (simp add: ranges_ok_def)
    obtain l' where f: "tl_Flatten (rngN E) l = (sm_flat (items (txs l)), l')" "maps_to E True (gm_put (pending p) a l') P"
      "set (sm_flat (items (txs l))) = P a"
      by (rule maps_to_flatten [OF m rn Some]) blast
    have fl: "filled (pending p) P" using Cons.prems(1) by (simp add: pool_ok_def)
    then have ne: "P a \<noteq> {}" using Some by (simp add: filled_def)
    let ?ts = "sm_flat (items (txs l))" and ?p1 = "p\<lparr>pending := gm_put (pending p) a l'\<rparr>"
    define p2 where "p2 = set_pend_nonce E a (AccountNonce (last ?ts) + 1) ?p1"
    have "filled (gm_put (pending p) a l') P" using filled_put [OF fl ne, of a l'] by simp
    then have "pool_ok E ?p1 P Q {}" using Cons.prems(1) f(2) by (simp add: pool_ok_def pool_is_def)
    then have 2: "pool_ok E p2 P Q {}" "pconfig p2 = pconfig p" "locals p2 = locals p" by (simp_all add: p2_def)
    have "latest_nonces E (a # as) p = latest_nonces E as p2"
      using Some f(1,3) ne by (auto simp: p2_def)
    then show ?thesis using Cons.IH [OF 2(1) Cons.prems(2)] 2(2,3) by simp
  qed
qed

section \<open>Price limit and eviction\<close>

lemma pl_Cap_spec:
  assumes inv: "pl_inv l" and res: "pl_Cap txhash sender all local threshold l = (drops, l')"
  shows "pl_inv l' \<and> (\<forall>t \<in> set drops. live txhash all t \<and> \<not> containsTx sender local t \<and> Price t < threshold)
    \<and> {#t \<in># mset (pitems l). live txhash all t#} = mset drops + {#t \<in># mset (pitems l'). live txhash all t#}
    \<and> (\<forall>u \<in> set (pitems l'). containsTx sender local u \<or> threshold \<le> Price u)"
proof -
  let ?st = "\<lambda>t. \<not> live txhash all t"
  obtain its st ds sv where c: "pl_cap_loop ?st (containsTx sender local) threshold (pitems l) (stales l) [] [] = ((its, st), ds, sv)"
    by (metis surj_pair)
  have h: "is_heap priceHeap_Less (pitems l)" using inv by (simp add: pl_inv_def)
  have s: "is_heap priceHeap_Less its" "\<forall>t \<in> set ds. live txhash all t \<and> \<not> containsTx sender local t \<and> Price t < threshold"
    "\<forall>t \<in> set sv. live txhash all t \<and> (containsTx sender local t \<or> threshold \<le> Price t)" "\<forall>u \<in> set its. threshold \<le> Price u"
    "{#t \<in># mset (pitems l). live txhash all t#} = mset ds + mset sv + {#t \<in># mset its. live txhash all t#}"
    using pl_cap_loop_spec [OF h c] by auto
  have e: "drops = ds" "l' = l\<lparr>pitems := pl_push_all sv its, stales := st\<rparr>"
    using res c by (simp_all add: pl_Cap_def stale_live)
  have m: "mset (pitems l') = mset sv + mset its" by (simp add: e(2) mset_push_all)
  then have "set (pitems l') = set sv \<union> set its" by (metis set_mset_mset set_mset_union)
  moreover have "{#t \<in># mset sv. live txhash all t#} = mset sv" using s(3) by (simp add: filter_mset_eq_conv)
  moreover have "pl_inv l'" using heap_push_all [OF s(1)] by (simp add: pl_inv_def e(2))
  ultimately show ?thesis using s(2-5) m by (auto simp: e(1))
qed

text \<open>Nothing remote below the price stays. If no two transactions in the books share a hash, nothing else goes.\<close>

lemma SetGasPrice_ok:
  assumes ok: "pool_ok E p P Q {}" and rng: "ranges_ok E"
  shows "\<exists>P' Q'. pool_ok E (SetGasPrice E price p) P' Q' {} \<and> (\<forall>a. P' a \<subseteq> P a)
    \<and> pooled P' Q' \<subseteq> {t \<in> pooled P Q. containsTx (pe_sender E) (locals p) t \<or> price \<le> Price t}
    \<and> (inj_on (pe_txhash E) (pooled P Q \<union> set (pitems (priced p))) \<longrightarrow>
         pooled P' Q' = {t \<in> pooled P Q. containsTx (pe_sender E) (locals p) t \<or> price \<le> Price t})
    \<and> pconfig (SetGasPrice E price p) = pconfig p \<and> locals (SetGasPrice E price p) = locals p"
proof -
  let ?A = "pooled P Q" and ?loc = "containsTx (pe_sender E) (locals p)"
  obtain ds pl where c: "pl_Cap (pe_txhash E) (pe_sender E) (pool_all p) (locals p) price (priced p) = (ds, pl)" by fastforce
  have k: "knows E (pool_all p) (priced p) ?A {}" using ok by (simp add: pool_ok_def pool_is_def)
  have inv: "pl_inv (priced p)" using k by (simp add: knows_def)
  note s = pl_Cap_spec [OF inv c]
  define p1 where "p1 = p\<lparr>gasPrice := price, priced := pl\<rparr>"
  have "pool_ok E (p\<lparr>priced := pl\<rparr>) P Q (set ds)" by (rule pool_reprice [OF ok]) (use s in simp_all)
  moreover have "p1 = (p\<lparr>priced := pl\<rparr>)\<lparr>gasPrice := price\<rparr>" by (simp add: p1_def)
  ultimately have ok1: "pool_ok E p1 P Q (set ds)" by simp
  obtain P' Q' where 1: "pool_ok E (remove_all E False ds p1) P' Q' (set ds)"
    "pooled P' Q' = {u \<in> ?A. pe_txhash E u \<notin> pe_txhash E ` set ds}" "\<forall>a. P' a \<subseteq> P a"
    "pconfig (remove_all E False ds p1) = pconfig p1" "locals (remove_all E False ds p1) = locals p1"
    using remove_all_ok [OF ok1 rng, of False ds] by auto
  have "pooled P' Q' \<inter> set ds \<subseteq> {}" using 1(2) by auto
  then have fin: "pool_ok E (remove_all E False ds p1) P' Q' {}" by (rule pool_ok_except [OF 1(1)])
  have stays: "?loc u \<or> price \<le> Price u" if u: "u \<in> ?A" "pe_txhash E u \<notin> pe_txhash E ` set ds" for u
  proof -
    have "u \<in> set ds \<or> u \<in> set (pitems pl)"
    proof (rule filter_live_subset)
      show "u \<in> set (pitems (priced p))" "live (pe_txhash E) (pool_all p) u" using k u by (auto simp: knows_def live_def)
    qed (use s in simp)
    then show ?thesis using s u(2) by auto
  qed
  have goes: "u \<in> set ds" if u: "u \<in> ?A" "pe_txhash E u \<in> pe_txhash E ` set ds"
    and inj: "inj_on (pe_txhash E) (?A \<union> set (pitems (priced p)))" for u
  proof -
    obtain d where d: "d \<in> set ds" "pe_txhash E u = pe_txhash E d" using u(2) by auto
    have "d \<in># {#t \<in># mset (pitems (priced p)). live (pe_txhash E) (pool_all p) t#}" using s d(1) by simp
    then have "d \<in> set (pitems (priced p))" by simp
    then have "u = d" using inj_onD [OF inj d(2)] u(1) by simp
    then show ?thesis using d(1) by simp
  qed
  have sub: "pooled P' Q' \<subseteq> {t \<in> ?A. ?loc t \<or> price \<le> Price t}" using 1(2) stays by blast
  have all: "pooled P' Q' = {t \<in> ?A. ?loc t \<or> price \<le> Price t}" if "inj_on (pe_txhash E) (?A \<union> set (pitems (priced p)))"
  proof (rule equalityI [OF sub], rule subsetI)
    fix t assume t: "t \<in> {t \<in> ?A. ?loc t \<or> price \<le> Price t}"
    have "t \<notin> set ds" using t s by auto
    then have "pe_txhash E t \<notin> pe_txhash E ` set ds" using goes [OF _ _ that] t by blast
    then show "t \<in> pooled P' Q'" using 1(2) t by blast
  qed
  have "SetGasPrice E price p = remove_all E False ds p1" by (simp add: SetGasPrice_def c p1_def)
  then show ?thesis using fin 1(3,4,5) sub all by (intro exI [of _ P'] exI [of _ Q']) (simp add: p1_def)
qed

lemma evict_account_ok:
  assumes ok: "pool_ok E p P Q {}" and rng: "ranges_ok E"
  shows "\<exists>Q'. pool_ok E (evict_account E now a p) P Q' {} \<and> (\<forall>b. Q' b \<subseteq> Q b)
    \<and> pconfig (evict_account E now a p) = pconfig p \<and> locals (evict_account E now a p) = locals p"
proof (cases "gm_get (queue p) a")
  case None
  then show ?thesis using ok by (auto simp: evict_account_def)
next
  case (Some l)
  obtain l' ts where f: "tl_Flatten (rngN E) l = (ts, l')" "pool_ok E (p\<lparr>queue := gm_put (queue p) a l'\<rparr>) P Q {}"
    "set ts = Q a" "distinct ts"
    using pool_ok_flatten [OF ok rng Some] by blast
  have "pool_ok E (remove_all E True ts (p\<lparr>queue := gm_put (queue p) a l'\<rparr>)) P (Q(a := Q a - set ts)) {}"
    "pconfig (remove_all E True ts (p\<lparr>queue := gm_put (queue p) a l'\<rparr>)) = pconfig p"
    "locals (remove_all E True ts (p\<lparr>queue := gm_put (queue p) a l'\<rparr>)) = locals p"
    using remove_all_queued [OF f(2) rng _ f(4), of a True] f(3) by simp_all
  moreover have "\<forall>b. (Q(a := Q a - set ts)) b \<subseteq> Q b" by auto
  ultimately show ?thesis using ok Some f(1)
    by (cases "\<not> as_contains (locals p) a \<and> now - beat_of p a > real_of_int (Lifetime (pconfig p)) / 10 ^ 9")
      (auto simp: evict_account_def simp del: fun_upd_apply)
qed

lemma evict_ok:
  assumes "pool_ok E p P Q {}" "ranges_ok E"
  shows "\<exists>Q'. pool_ok E (evict E now p) P Q' {} \<and> (\<forall>b. Q' b \<subseteq> Q b)
    \<and> pconfig (evict E now p) = pconfig p \<and> locals (evict E now p) = locals p"
proof -
  have "\<exists>Q'. pool_ok E (fold (evict_account E now) as p) P Q' {} \<and> (\<forall>b. Q' b \<subseteq> Q b)
    \<and> pconfig (fold (evict_account E now) as p) = pconfig p \<and> locals (fold (evict_account E now) as p) = locals p" for as
    using assms
  proof (induction as arbitrary: p Q)
    case Nil
    then show ?case by auto
  next
    case (Cons a as)
    obtain Q1 where 1: "pool_ok E (evict_account E now a p) P Q1 {}" "\<forall>b. Q1 b \<subseteq> Q b"
      "pconfig (evict_account E now a p) = pconfig p" "locals (evict_account E now a p) = locals p"
      using evict_account_ok [OF Cons.prems, of now a] by blast
    show ?case using Cons.IH [OF 1(1) Cons.prems(2)] 1(2,3,4) by (simp, blast)
  qed
  then show ?thesis by (simp add: evict_def)
qed

end
