(* ===== verification/Tx_Pool_Walk.thy ===== *)
theory Tx_Pool_Walk
  imports Tx_Pool_Chain
begin

text \<open>
  The walk of \<open>reset\<close> over the ancestors of two heads (\<open>core/tx_pool.go\<close>) returns: the law of the chain the pool relies on,
  and the loops under this law, by the number of the block they stand at.
\<close>

section \<open>The chain the pool sees\<close>

text \<open>What \<open>GetBlock\<close> promises: every block it finds has a number, and the parent, looked up one number below, has that
  number; a genesis has no parent. Blocks that are not found are allowed everywhere.\<close>

definition parent_steps :: "(hash \<Rightarrow> u64 \<Rightarrow> block option) \<Rightarrow> block \<Rightarrow> bool" where
  "parent_steps get b \<longleftrightarrow> (case NumberU64 b of
     None \<Rightarrow> False
   | Some k \<Rightarrow>
       (case get (ParentHash (bheader b)) (k - 1) of
          None \<Rightarrow> True
        | Some p \<Rightarrow> k \<noteq> 0 \<and> NumberU64 p = Some (k - 1)))"

definition chain_walks :: "(hash \<Rightarrow> u64 \<Rightarrow> block option) \<Rightarrow> bool" where
  "chain_walks get \<longleftrightarrow> (\<forall>h n b. get h n = Some b \<longrightarrow> parent_steps get b)"

lemma found_steps: "chain_walks get \<Longrightarrow> get h n = Some b \<Longrightarrow> parent_steps get b"
  by (simp add: chain_walks_def)

lemma parent_below:
  assumes "chain_walks get" "parent_steps get b" "NumberU64 b = Some k" "get (ParentHash (bheader b)) (k - 1) = Some p"
  shows "NumberU64 p = Some (k - 1)" "unat (k - 1) < unat k" "parent_steps get p"
proof -
  have k: "k \<noteq> 0" "NumberU64 p = Some (k - 1)" using assms(2-4) by (simp_all add: parent_steps_def)
  then show "NumberU64 p = Some (k - 1)" "unat (k - 1) < unat k" "parent_steps get p"
    using found_steps [OF assms(1,4)] unat_gt_0 [of k] by (simp_all add: unat_minus_one)
qed

lemma steps_number: "parent_steps get b \<Longrightarrow> \<exists>k. NumberU64 b = Some k"
  by (auto simp: parent_steps_def split: option.splits)

lemma walk_down_returns:
  assumes ch: "chain_walks (pe_GetBlock E)" and "parent_steps (pe_GetBlock E) b"
  shows "\<exists>r. walk_down E m b acc = Some r \<and> (\<forall>b' acc'. r = Some (b', acc') \<longrightarrow> parent_steps (pe_GetBlock E) b')"
  using assms(2)
proof (induction "unat (the (NumberU64 b))" arbitrary: b acc rule: less_induct)
  case less
  obtain k where k: "NumberU64 b = Some k" using steps_number [OF less.prems] by blast
  show ?case
  proof (cases "k > m")
    case False
    then show ?thesis using k less.prems by (subst walk_down.simps) simp
  next
    case True
    show ?thesis
    proof (cases "pe_GetBlock E (ParentHash (bheader b)) (k - 1)")
      case None
      then show ?thesis using k True by (subst walk_down.simps) simp
    next
      case (Some p)
      note p = parent_below [OF ch less.prems k Some]
      have "walk_down E m b acc = walk_down E m p (acc @ transactions b)"
        using k True Some by (subst walk_down.simps) simp
      moreover have "unat (the (NumberU64 p)) < unat (the (NumberU64 b))" using p k by simp
      note less.hyps [OF this p(3), of "acc @ transactions b"]
      ultimately show ?thesis by (simp only:)
    qed
  qed
qed

lemma walk_both_returns:
  assumes ch: "chain_walks (pe_GetBlock E)" and "parent_steps (pe_GetBlock E) rem" "parent_steps (pe_GetBlock E) add"
  shows "walk_both E rem add disc incl \<noteq> None"
  using assms(2,3)
proof (induction "unat (the (NumberU64 rem))" arbitrary: rem add disc incl rule: less_induct)
  case less
  obtain k where k: "NumberU64 rem = Some k" using steps_number [OF less.prems(1)] by blast
  obtain j where j: "NumberU64 add = Some j" using steps_number [OF less.prems(2)] by blast
  show ?case
  proof (cases "block_Hash E rem = block_Hash E add \<or> pe_GetBlock E (ParentHash (bheader rem)) (k - 1) = None
      \<or> pe_GetBlock E (ParentHash (bheader add)) (j - 1) = None")
    case True
    then show ?thesis using k j by (subst walk_both.simps) (auto split: option.splits)
  next
    case False
    then obtain r a where ra: "pe_GetBlock E (ParentHash (bheader rem)) (k - 1) = Some r"
      "pe_GetBlock E (ParentHash (bheader add)) (j - 1) = Some a" by auto
    note r = parent_below [OF ch less.prems(1) k ra(1)] and a = parent_below [OF ch less.prems(2) j ra(2)]
    have "walk_both E rem add disc incl = walk_both E r a (disc @ transactions rem) (incl @ transactions add)"
      using k j ra False by (subst walk_both.simps) simp
    moreover have "unat (the (NumberU64 r)) < unat (the (NumberU64 rem))" using r k by simp
    note less.hyps [OF this r(3) a(3), of "disc @ transactions rem" "incl @ transactions add"]
    ultimately show ?thesis by simp
  qed
qed

lemma abandoned_returns:
  assumes ch: "chain_walks (pe_GetBlock E)" and "Number old \<noteq> None" "Uint64 (Number new) = Some n" "pe_GetBlock E (header_Hash (pe_crypto E) new) n \<noteq> None"
  shows "abandoned E old new \<noteq> None"
proof -
  obtain on where o: "Uint64 (Number old) = Some on" using assms(2) by (auto simp: Uint64_def)
  obtain add where add: "pe_GetBlock E (header_Hash (pe_crypto E) new) n = Some add" using assms(4) by auto
  note sa = found_steps [OF ch add]
  obtain an where an: "NumberU64 add = Some an" using steps_number [OF sa] by blast
  show ?thesis
  proof (cases "pe_GetBlock E (header_Hash (pe_crypto E) old) on")
    case None
    then show ?thesis by (simp add: abandoned_def o assms(3))
  next
    case (Some rem)
    obtain r1 where r1: "walk_down E an rem [] = Some r1"
      "\<forall>b' acc'. r1 = Some (b', acc') \<longrightarrow> parent_steps (pe_GetBlock E) b'"
      using walk_down_returns [OF ch found_steps [OF ch Some], of an "[]"] by blast
    show ?thesis
    proof (cases r1)
      case None
      then show ?thesis using r1 by (simp add: abandoned_def o assms(3) Some add an)
    next
      case (Some rd)
      obtain rem1 disc where rd: "r1 = Some (rem1, disc)" using Some by (cases rd) simp
      then have s1: "parent_steps (pe_GetBlock E) rem1" using r1(2) by simp
      obtain rn where rn: "NumberU64 rem1 = Some rn" using steps_number [OF s1] by blast
      obtain r2 where r2: "walk_down E rn add [] = Some r2"
        "\<forall>b' acc'. r2 = Some (b', acc') \<longrightarrow> parent_steps (pe_GetBlock E) b'"
        using walk_down_returns [OF ch sa, of rn "[]"] by blast
      show ?thesis
      proof (cases r2)
        case None
        then show ?thesis using r1 r2 rd rn
          by (simp add: abandoned_def o assms(3) \<open>pe_GetBlock E (header_Hash (pe_crypto E) old) on = Some rem\<close> add an)
      next
        case (Some ad)
        obtain add1 incl where ad: "r2 = Some (add1, incl)" using Some by (cases ad) simp
        then have s2: "parent_steps (pe_GetBlock E) add1" using r2(2) by simp
        obtain r3 where "walk_both E rem1 add1 disc incl = Some r3" using walk_both_returns [OF ch s1 s2] by blast
        then show ?thesis using r1 r2 rd rn ad
          by (simp add: abandoned_def o assms(3) \<open>pe_GetBlock E (header_Hash (pe_crypto E) old) on = Some rem\<close> add an)
      qed
    qed
  qed
qed

lemma reinject_returns:
  assumes ch: "chain_walks (pe_GetBlock E)"
    and "\<And>n. Uint64 (Number new) = Some n \<Longrightarrow> pe_GetBlock E (header_Hash (pe_crypto E) new) n \<noteq> None"
    "Number new \<noteq> None" "\<And>oh. old = Some oh \<Longrightarrow> Number oh \<noteq> None"
  shows "reinject E old new \<noteq> None"
proof (cases old)
  case None
  then show ?thesis by (simp add: reinject_def)
next
  case (Some oh)
  obtain n where n: "Uint64 (Number new) = Some n" using assms(3) by (auto simp: Uint64_def)
  show ?thesis using abandoned_returns [OF ch assms(4) [OF Some] n assms(2) [OF n]] by (simp add: reinject_def Some)
qed

section \<open>The state of a new head can be managed\<close>

lemma ManageState_new:
  assumes "state_New env rt = Inr s" "range_ok rng"
  shows "ManageState env rng s \<noteq> None"
proof -
  have "mset (rng []) = mset []" using assms(2) unfolding range_ok_def by (rule spec)
  then have "rng [] = []" by simp
  moreover obtain t where "s = fresh_stateDB t" using assms(1) by (cases "OpenTrie env rt") (auto simp: state_New_def)
  ultimately show ?thesis by (simp add: ManageState_def state_Copy_def fresh_stateDB_def Let_def)
qed

end
