(* ===== verification/Tx_Pool_Reach.thy ===== *)
theory Tx_Pool_Reach
  imports Tx_Pool_Demote Tx_Pool_Walk
begin

text \<open>
  The pool over its life (\<open>core/tx_pool.go\<close>): it is built by \<open>NewTxPool\<close> and changed by the calls of its clients and
  the events of the chain. Every pool it becomes is in order, and no call panics or hangs over a chain that keeps its law.
\<close>

section \<open>Reset\<close>

lemma empty_pool_ok: "pool_is E \<lparr>pconfig = cfg, gasPrice = gp, currentState = s, pendingState = ms, currentMaxGas = g, locals = ls,
    pending = [], queue = [], beats = bs, pool_all = [], priced = newTxPricedList, pool_head = hd', pool_events = ev\<rparr>
    (\<lambda>_. {}) (\<lambda>_. {}) {} {}"
  by (simp add: pool_is_def maps_to_def knows_def pl_inv_def newTxPricedList_def)

lemma pool_reset_ok:
  assumes ok: "pool_ok E p P Q {}" and rng: "ranges_ok E" and cfg: "config_ok (pconfig p)" and r: "reinject E old new = Some r"
    and few: "\<And>ts. r = Some ts \<Longrightarrow> length (pool_all p) + length ts < 2 ^ 62"
  shows "\<exists>p' P' Q'. pool_reset E now old new p = Some p' \<and> pool_ok E p' P' Q' {} \<and> kept_fields p p'"
proof -
  show ?thesis
  proof (cases "\<exists>ts s. r = Some ts \<and> state_New (pe_state E) (Root new) = Inr s")
    case False
    then have "pool_reset E now old new p = Some p" using r by (auto simp: pool_reset_def split: option.splits sum.splits)
    then show ?thesis using ok by auto
  next
    case True
    then obtain ts s where ts: "r = Some ts" "state_New (pe_state E) (Root new) = Inr s" by blast
    have "range_ok (rngA E)" using rng by (simp add: ranges_ok_def)
    then obtain ms where ms: "ManageState (pe_state E) (rngA E) s = Some ms" using ManageState_new [OF ts(2)] by blast
    have n: "length (pool_all p) + length ts < 2 ^ 62" using few ts(1) by simp
    let ?p0 = "p\<lparr>currentState := s, pendingState := ms, currentMaxGas := header.GasLimit new\<rparr>"
    have 0: "pool_ok E ?p0 P Q {}" "config_ok (pconfig ?p0)" "length (pool_all ?p0) + length ts < 2 ^ 62" "kept_fields p ?p0"
      using ok cfg n by (simp_all add: kept_fields_def)
    obtain errs p1 P1 Q1 where 1: "addTxsLocked E now ts False ?p0 = Some (errs, p1)" "pool_ok E p1 P1 Q1 {}" "kept_fields ?p0 p1"
      "length (pool_all p1) \<le> length (pool_all ?p0) + length ts"
      using addTxsLocked_ok [OF 0(1) rng 0(2,3), of now False] by blast
    obtain p2 P2 Q2 where 2: "demoteUnexecutables E p1 = Some p2" "pool_ok E p2 P2 Q2 {}" "pooled P2 Q2 \<subseteq> pooled P1 Q1"
      "pconfig p2 = pconfig p1" "locals p2 = locals p1"
      using demote_accounts_ok [OF 1(2) rng, of "rngA E (gm_keys (pending p1))"] by (auto simp: demoteUnexecutables_def)
    obtain p3 where 3: "latest_nonces E (rngA E (gm_keys (pending p2))) p2 = Some p3" "pool_ok E p3 P2 Q2 {}"
      "pconfig p3 = pconfig p2" "locals p3 = locals p2"
      using latest_nonces_ok [OF 2(2) rng] by blast
    have k3: "kept_fields p p3"
      by (rule kept_fields_trans [OF 0(4) kept_fields_trans [OF 1(3) kept_same]]) (use 2(4,5) 3(3,4) in simp_all)
    have c3: "config_ok (pconfig p3)" using cfg kept_config [OF k3] by simp
    have "length (pool_all p3) \<le> length (pool_all p1)" by (rule pool_all_mono [OF 1(2) 3(2) 2(3)])
    then have n3: "length (pool_all p3) < 2 ^ 62" using 1(4) n by simp
    obtain p4 P4 Q4 where 4: "promoteExecutables E now None p3 = Some p4" "pool_ok E p4 P4 Q4 {}"
      "pconfig p4 = pconfig p3" "locals p4 = locals p3"
      using promoteExecutables_ok [OF 3(2) rng c3 n3] by blast
    obtain v p5 where v: "pool_Pending E p4 = (v, p5)" by fastforce
    note pd = pool_Pending_ok [OF 4(2) rng v]
    have "pool_reset E now old new p = Some (snd (PendingCount E p4))"
      using r ts ms 1(1) 2(1) 3(1) 4(1) by (simp add: pool_reset_def)
    then have "pool_reset E now old new p = Some p5" by (simp add: PendingCount_def v)
    moreover have "kept_fields p p5" by (rule kept_fields_trans [OF k3 kept_same]) (use pd 4(3,4) in simp_all)
    ultimately show ?thesis using pd by blast
  qed
qed

lemma sanitize_config: "unat (AccountQueue conf) < 2 ^ 63 \<Longrightarrow> config_ok (sanitize conf)"
  by (auto simp: sanitize_def config_ok_def Let_def DefaultTxPoolConfig_def word_le_nat_alt word_less_nat_alt)

lemma NewTxPool_ok:
  assumes rng: "ranges_ok E" and q: "unat (AccountQueue conf) < 2 ^ 63" and new: "NewTxPool E now conf b = Some p"
  shows "\<exists>P Q. pool_ok E p P Q {} \<and> config_ok (pconfig p)"
proof -
  obtain s where s: "state_New (pe_state E) (Root (block_Header b)) = Inr s"
    using new by (auto simp: NewTxPool_def split: sum.splits)
  obtain ms where ms: "ManageState (pe_state E) (rngA E) s = Some ms"
    using new s by (cases "ManageState (pe_state E) (rngA E) s") (auto simp: NewTxPool_def)
  define p0 where "p0 = \<lparr>pconfig = sanitize conf, gasPrice = uint (PriceLimit (sanitize conf)), currentState = s, pendingState = ms,
      currentMaxGas = 0, locals = fold (\<lambda>a s. as_add s a) (Locals (sanitize conf)) newAccountSet, pending = [], queue = [], beats = [],
      pool_all = [], priced = newTxPricedList, pool_head = b, pool_events = []\<rparr>"
  have p: "pool_reset E now None (block_Header b) p0 = Some p" using new s ms by (simp add: NewTxPool_def p0_def)
  have "pool_is E p0 (\<lambda>_. {}) (\<lambda>_. {}) {} {}" unfolding p0_def by (rule empty_pool_ok)
  then have ok: "pool_ok E p0 (\<lambda>_. {}) (\<lambda>_. {}) {}"
    by (simp add: pool_ok_def pooled_def apart_def filled_def) (simp add: p0_def)
  have cfg: "config_ok (pconfig p0)" by (simp add: p0_def sanitize_config [OF q])
  have "reinject E None (block_Header b) = Some (Some [])" by (simp add: reinject_def)
  from pool_reset_ok [OF ok rng cfg this, of now] show ?thesis using p cfg kept_config by (fastforce simp: p0_def)
qed

section \<open>The calls\<close>

datatype pool_call =
    CallAddLocal transaction | CallAddRemote transaction
  | CallAddLocals "transaction list" | CallAddRemotes "transaction list"
  | CallChainHead "block option" | CallSetGasPrice bigint | CallEvict
  | CallPending | CallContent | CallLocals | CallLocal

definition run_call :: "'t pool_env \<Rightarrow> real \<Rightarrow> pool_call \<Rightarrow> 't txPool \<Rightarrow> 't txPool option" where
  "run_call E now c p = (case c of
     CallAddLocal tx \<Rightarrow> map_option snd (AddLocal E now tx p)
   | CallAddRemote tx \<Rightarrow> map_option snd (AddRemote E now tx p)
   | CallAddLocals ts \<Rightarrow> map_option snd (AddLocals E now ts p)
   | CallAddRemotes ts \<Rightarrow> map_option snd (AddRemotes E now ts p)
   | CallChainHead b \<Rightarrow> handleChainHead E now b p
   | CallSetGasPrice price \<Rightarrow> Some (SetGasPrice E price p)
   | CallEvict \<Rightarrow> Some (evict E now p)
   | CallPending \<Rightarrow> Some (snd (pool_Pending E p))
   | CallContent \<Rightarrow> Some (snd (pool_Content E p))
   | CallLocals \<Rightarrow> Some (snd (pool_Locals E p))
   | CallLocal \<Rightarrow> Some (snd (pool_local E p)))"

text \<open>A pool holds fewer than \<open>2^62\<close> transactions, those that a call adds and those that a new head brings back
  included.\<close>

definition few_txs :: "'t pool_env \<Rightarrow> pool_call \<Rightarrow> 't txPool \<Rightarrow> bool" where
  "few_txs E c p \<longleftrightarrow> (case c of
     CallAddLocal tx \<Rightarrow> Suc (length (pool_all p)) < 2 ^ 62
   | CallAddRemote tx \<Rightarrow> Suc (length (pool_all p)) < 2 ^ 62
   | CallAddLocals ts \<Rightarrow> length (pool_all p) + length ts < 2 ^ 62
   | CallAddRemotes ts \<Rightarrow> length (pool_all p) + length ts < 2 ^ 62
   | CallChainHead (Some b) \<Rightarrow>
       (\<forall>ts. reinject E (Some (block_Header (pool_head p))) (block_Header b) = Some (Some ts) \<longrightarrow>
          length (pool_all p) + length ts < 2 ^ 62)
   | _ \<Rightarrow> True)"

text \<open>The block that the chain announces as its new head is in the chain.\<close>

definition head_known :: "'t pool_env \<Rightarrow> pool_call \<Rightarrow> bool" where
  "head_known E c \<longleftrightarrow> (\<forall>b. c = CallChainHead (Some b) \<longrightarrow>
     pe_GetBlock E (header_Hash (pe_crypto E) (block_Header b)) (the (Uint64 (Number (block_Header b)))) \<noteq> None)"

inductive pool_reachable :: "'t pool_env \<Rightarrow> 't txPool \<Rightarrow> bool" for E where
  reach_new: "unat (AccountQueue conf) < 2 ^ 63 \<Longrightarrow> NewTxPool E now conf b = Some p \<Longrightarrow> pool_reachable E p"
| reach_call: "pool_reachable E p \<Longrightarrow> few_txs E c p \<Longrightarrow> run_call E now c p = Some p' \<Longrightarrow> pool_reachable E p'"

lemma pool_Content_ok:
  assumes ok: "pool_ok E p P Q {}" and rng: "ranges_ok E"
  shows "pool_ok E (snd (pool_Content E p)) P Q {} \<and> kept_fields p (snd (pool_Content E p))"
proof -
  obtain r p1 where 1: "pool_Pending E p = (r, p1)" by fastforce
  note pd = pool_Pending_ok [OF ok rng 1]
  have rn: "range_ok (rngN E)" "range_ok (rngA E)" using rng by (simp_all add: ranges_ok_def)
  obtain q m where 2: "flatten_lists (rngN E) (rngA E (gm_keys (queue p1))) (queue p1) = (q, m)" by fastforce
  have mq: "maps_to E False (queue p1) Q" using pd by (simp add: pool_ok_def pool_is_def)
  have "maps_to E False m Q" using flatten_lists_ok [OF mq rn(1) 2 range_keys(1) [OF mq rn(2)]] range_keys(2) [OF mq rn(2)] by blast
  then have "pool_ok E (p1\<lparr>queue := m\<rparr>) P Q {}" using pd by (simp add: pool_ok_def pool_is_def)
  then show ?thesis using pd by (simp add: pool_Content_def 1 2 kept_fields_def)
qed

lemma pool_Locals_ok:
  assumes "pool_ok E p P Q {}"
  shows "pool_ok E (snd (pool_Locals E p)) P Q {} \<and> kept_fields p (snd (pool_Locals E p))"
  using assms by (auto simp: pool_Locals_def as_flatten_def kept_fields_def as_contains_def split: prod.splits option.splits)

lemma local_account_ok:
  assumes ok: "pool_ok E (snd x) P Q {}" and rng: "ranges_ok E"
  shows "pool_ok E (snd (local_account E x a)) P Q {} \<and> pconfig (snd (local_account E x a)) = pconfig (snd x)
    \<and> locals (snd (local_account E x a)) = locals (snd x)"
proof -
  obtain r p where x: "x = (r, p)" by fastforce
  have ok': "pool_ok E p P Q {}" using ok x by simp
  have rn: "range_ok (rngN E)" using rng by (simp add: ranges_ok_def)
  obtain r1 p1 where 1: "(case gm_get (pending p) a of
             None \<Rightarrow> (r, p)
           | Some l \<Rightarrow> let (ts, l') = tl_Flatten (rngN E) l
                       in (gm_put r a (case gm_get r a of None \<Rightarrow> ts | Some us \<Rightarrow> us @ ts), p\<lparr>pending := gm_put (pending p) a l'\<rparr>))
           = (r1, p1)" "pool_ok E p1 P Q {}" "pconfig p1 = pconfig p" "locals p1 = locals p"
  proof (cases "gm_get (pending p) a")
    case None
    then show thesis using that [of r p] ok' by simp
  next
    case (Some l)
    have m: "maps_to E True (pending p) P" and fl: "filled (pending p) P" using ok' by (simp_all add: pool_ok_def pool_is_def)
    obtain l' where f: "tl_Flatten (rngN E) l = (sm_flat (items (txs l)), l')" "maps_to E True (gm_put (pending p) a l') P"
      by (rule maps_to_flatten [OF m rn Some])
    have "filled (gm_put (pending p) a l') P" using filled_put [OF fl, of "P a" a l'] fl Some by (simp add: filled_def)
    then have "pool_ok E (p\<lparr>pending := gm_put (pending p) a l'\<rparr>) P Q {}" using ok' f(2) by (simp add: pool_ok_def pool_is_def)
    then show thesis using that Some f(1) by simp
  qed
  show ?thesis
  proof (cases "gm_get (queue p1) a")
    case None
    then have "local_account E x a = (r1, p1)" by (simp only: local_account_def x Let_def prod.case 1(1) [unfolded Let_def] option.case None)
    then show ?thesis using 1 x by simp
  next
    case (Some l)
    have m: "maps_to E False (queue p1) Q" using 1(2) by (simp add: pool_ok_def pool_is_def)
    obtain l' where f: "tl_Flatten (rngN E) l = (sm_flat (items (txs l)), l')" "maps_to E False (gm_put (queue p1) a l') Q"
      by (rule maps_to_flatten [OF m rn Some])
    have "snd (local_account E x a) = p1\<lparr>queue := gm_put (queue p1) a l'\<rparr>"
      by (simp only: local_account_def x Let_def prod.case 1(1) [unfolded Let_def] Some option.case f(1) snd_conv)
    moreover have "pool_ok E (p1\<lparr>queue := gm_put (queue p1) a l'\<rparr>) P Q {}" using 1(2) f(2) by (simp add: pool_ok_def pool_is_def)
    ultimately show ?thesis using 1(3,4) x by simp
  qed
qed

lemma pool_local_ok:
  assumes "pool_ok E p P Q {}" "ranges_ok E"
  shows "pool_ok E (snd (pool_local E p)) P Q {} \<and> kept_fields p (snd (pool_local E p))"
proof -
  have "pool_ok E (snd (foldl (local_account E) x as)) P Q {} \<and> pconfig (snd (foldl (local_account E) x as)) = pconfig (snd x)
    \<and> locals (snd (foldl (local_account E) x as)) = locals (snd x)" if "pool_ok E (snd x) P Q {}" for as x
    using that
  proof (induction as arbitrary: x)
    case (Cons a as)
    note l = local_account_ok [OF Cons.prems assms(2), of a]
    show ?case using Cons.IH [of "local_account E x a"] l by simp
  qed simp
  from this [of "([], p)"] show ?thesis using assms(1) by (simp add: pool_local_def kept_same)
qed

lemma run_call_ok:
  assumes ok: "pool_ok E p P Q {}" and rng: "ranges_ok E" and cfg: "config_ok (pconfig p)" and few: "few_txs E c p"
    and head: "\<And>b. c = CallChainHead (Some b) \<Longrightarrow> reinject E (Some (block_Header (pool_head p))) (block_Header b) \<noteq> None"
  shows "\<exists>p' P' Q'. run_call E now c p = Some p' \<and> pool_ok E p' P' Q' {} \<and> kept_fields p p'"
proof (cases c)
  case (CallAddLocal tx)
  then have n: "Suc (length (pool_all p)) < 2 ^ 62" using few by (simp add: few_txs_def)
  show ?thesis using addTx_ok [OF ok rng cfg n, of now tx "\<not> NoLocals (pconfig p)"] CallAddLocal
    by (fastforce simp: run_call_def AddLocal_def)
next
  case (CallAddRemote tx)
  then have n: "Suc (length (pool_all p)) < 2 ^ 62" using few by (simp add: few_txs_def)
  show ?thesis using addTx_ok [OF ok rng cfg n, of now tx False] CallAddRemote
    by (fastforce simp: run_call_def AddRemote_def)
next
  case (CallAddLocals ts)
  then have n: "length (pool_all p) + length ts < 2 ^ 62" using few by (simp add: few_txs_def)
  show ?thesis using addTxsLocked_ok [OF ok rng cfg n, of now "\<not> NoLocals (pconfig p)"] CallAddLocals
    by (fastforce simp: run_call_def AddLocals_def)
next
  case (CallAddRemotes ts)
  then have n: "length (pool_all p) + length ts < 2 ^ 62" using few by (simp add: few_txs_def)
  show ?thesis using addTxsLocked_ok [OF ok rng cfg n, of now False] CallAddRemotes
    by (fastforce simp: run_call_def AddRemotes_def)
next
  case (CallChainHead bo)
  show ?thesis
  proof (cases bo)
    case None
    then show ?thesis using ok CallChainHead by (auto simp: run_call_def handleChainHead_def)
  next
    case (Some b)
    then obtain r where r: "reinject E (Some (block_Header (pool_head p))) (block_Header b) = Some r"
      using head CallChainHead by blast
    have "length (pool_all p) + length ts < 2 ^ 62" if "r = Some ts" for ts
      using few CallChainHead Some r that by (simp add: few_txs_def)
    from pool_reset_ok [OF ok rng cfg r this, of now] obtain p' P' Q' where
      "pool_reset E now (Some (block_Header (pool_head p))) (block_Header b) p = Some p'" "pool_ok E p' P' Q' {}" "kept_fields p p'"
      by blast
    then show ?thesis using Some CallChainHead
      by (intro exI [of _ "p'\<lparr>pool_head := b\<rparr>"] exI [of _ P'] exI [of _ Q']) (simp add: run_call_def handleChainHead_def kept_fields_def)
  qed
next
  case (CallSetGasPrice price)
  then show ?thesis using SetGasPrice_ok [OF ok rng, of price] kept_same by (fastforce simp: run_call_def)
next
  case CallEvict
  then show ?thesis using evict_ok [OF ok rng, of now] kept_same by (fastforce simp: run_call_def)
next
  case CallPending
  obtain r p' where "pool_Pending E p = (r, p')" by fastforce
  then show ?thesis using pool_Pending_ok [OF ok rng] kept_same [of p' p] CallPending by (fastforce simp: run_call_def)
next
  case CallContent
  then show ?thesis using pool_Content_ok [OF ok rng] by (auto simp: run_call_def)
next
  case CallLocals
  then show ?thesis using pool_Locals_ok [OF ok] by (auto simp: run_call_def)
next
  case CallLocal
  then show ?thesis using pool_local_ok [OF ok rng] by (auto simp: run_call_def)
qed

text \<open>A call that has returned has found the blocks of its walk; over a chain that keeps its law it always does.\<close>

lemma head_returned:
  assumes "run_call E now (CallChainHead (Some b)) p = Some p'"
  shows "reinject E (Some (block_Header (pool_head p))) (block_Header b) \<noteq> None"
  using assms by (auto simp: run_call_def handleChainHead_def pool_reset_def bind_eq_Some_conv)

lemma head_returns:
  assumes "chain_walks (pe_GetBlock E)" "head_known E (CallChainHead (Some b))"
    "\<And>oh. old = Some oh \<Longrightarrow> Number oh \<noteq> None"
  shows "reinject E old (block_Header b) \<noteq> None"
  by (rule reinject_returns [OF assms(1) _ _ assms(3)])
    (use assms(2) in \<open>auto simp: head_known_def block_Header_def CopyHeader_def\<close>)

lemma pool_reachable_ok:
  assumes "pool_reachable E p" "ranges_ok E"
  shows "\<exists>P Q. pool_ok E p P Q {} \<and> config_ok (pconfig p)"
  using assms
proof (induction rule: pool_reachable.induct)
  case (reach_new conf now b p)
  then show ?case using NewTxPool_ok by blast
next
  case (reach_call p c now p')
  then obtain P Q where ok: "pool_ok E p P Q {}" "config_ok (pconfig p)" by blast
  have "reinject E (Some (block_Header (pool_head p))) (block_Header b) \<noteq> None" if "c = CallChainHead (Some b)" for b
    using head_returned reach_call.hyps(3) that by blast
  from run_call_ok [OF ok(1) reach_call.prems ok(2) reach_call.hyps(2) this, of now] reach_call.hyps(3) ok(2)
  show ?case using kept_config by fastforce
qed

lemma run_call_returns:
  assumes "pool_reachable E p" "ranges_ok E" "few_txs E c p" "chain_walks (pe_GetBlock E)" "head_known E c"
  shows "\<exists>p'. run_call E now c p = Some p' \<and> pool_reachable E p' \<and> kept_fields p p'"
proof -
  obtain P Q where ok: "pool_ok E p P Q {}" "config_ok (pconfig p)" using pool_reachable_ok [OF assms(1,2)] by blast
  have "reinject E (Some (block_Header (pool_head p))) (block_Header b) \<noteq> None" if "c = CallChainHead (Some b)" for b
    by (rule head_returns [OF assms(4)]) (use assms(5) that in \<open>auto simp: block_Header_def CopyHeader_def\<close>)
  from run_call_ok [OF ok(1) assms(2) ok(2) assms(3) this, of now] show ?thesis
    using reach_call [OF assms(1,3)] by blast
qed

end
