(* ===== verification/Tx_Pool_Rules.thy ===== *)
theory Tx_Pool_Rules
  imports Tx_Pool_Reach
begin

text \<open>
  The promises of the transaction pool (\<open>core/tx_pool.go\<close>), over the state of the pool itself: what every pool a client
  can see looks like, that every call returns, the limits after a promotion, what adding and the price limit do.
\<close>

section \<open>The invariant over the state\<close>

definition pool_txs :: "'t txPool \<Rightarrow> transaction set" where
  "pool_txs p = {t. \<exists>h. gm_get (pool_all p) h = Some t}"

definition list_holds :: "(address, txList) gomap \<Rightarrow> address \<Rightarrow> transaction \<Rightarrow> bool" where
  "list_holds m a t \<longleftrightarrow> (case gm_get m a of None \<Rightarrow> False | Some l \<Rightarrow> t \<in> ctxs l)"

definition list_size :: "(address, txList) gomap \<Rightarrow> address \<Rightarrow> nat" where
  "list_size m a = (case gm_get m a of None \<Rightarrow> 0 | Some l \<Rightarrow> tl_Len l)"

text \<open>Every list is in order; a pending list is strict and not empty; a list has only transactions of its account; no nonce
  of an account is pending and queued; the lookup by hash has exactly the listed transactions. The price heap is
  ordered and has all of them; its other entries are stale, which is: the lookup does not have them.\<close>

definition pool_inv :: "'t pool_env \<Rightarrow> 't txPool \<Rightarrow> bool" where
  "pool_inv E p \<longleftrightarrow>
     (\<forall>a l. gm_get (pending p) a = Some l \<longrightarrow> tl_inv l \<and> strict l \<and> \<not> tl_Empty l)
   \<and> (\<forall>a l. gm_get (queue p) a = Some l \<longrightarrow> tl_inv l \<and> \<not> strict l)
   \<and> (\<forall>a t. list_holds (pending p) a t \<or> list_holds (queue p) a t \<longrightarrow> pe_sender E t = Some a)
   \<and> (\<forall>a t u. list_holds (pending p) a t \<longrightarrow> list_holds (queue p) a u \<longrightarrow> AccountNonce t \<noteq> AccountNonce u)
   \<and> (\<forall>h t. gm_get (pool_all p) h = Some t \<longleftrightarrow>
          pe_txhash E t = h \<and> (\<exists>a. list_holds (pending p) a t \<or> list_holds (queue p) a t))
   \<and> pl_inv (priced p) \<and> pool_txs p = {t \<in> set (pitems (priced p)). gm_get (pool_all p) (pe_txhash E t) = Some t}"

lemma pool_ok_holds:
  assumes "pool_ok E p P Q D"
  shows "list_holds (pending p) a t \<longleftrightarrow> t \<in> P a" "list_holds (queue p) a t \<longleftrightarrow> t \<in> Q a"
  using pool_ok_list [OF assms, of a] by (auto simp: list_holds_def split: option.splits)

lemma pool_ok_size:
  assumes "pool_ok E p P Q D"
  shows "list_size (pending p) a = card (P a)" "list_size (queue p) a = card (Q a)"
  using pool_ok_list [OF assms, of a] tl_Len_card by (auto simp: list_size_def split: option.splits)

lemma pool_ok_txs:
  assumes "pool_ok E p P Q D"
  shows "pool_txs p = pooled P Q"
  using assms by (auto simp: pool_txs_def pool_ok_def pool_is_def knows_def)

lemma pool_ok_inv:
  assumes ok: "pool_ok E p P Q {}"
  shows "pool_inv E p"
proof -
  have ab: "pool_is E p P Q (pooled P Q) {}" and ap: "apart P Q" and fl: "filled (pending p) P" using ok by (simp_all add: pool_ok_def)
  have k: "knows E (pool_all p) (priced p) (pooled P Q) {}" using ab by (simp add: pool_is_def)
  have "\<forall>a l. gm_get (pending p) a = Some l \<longrightarrow> tl_inv l \<and> strict l \<and> \<not> tl_Empty l"
  proof (intro allI impI)
    fix a l assume l: "gm_get (pending p) a = Some l"
    then have "P a \<noteq> {}" using fl by (simp add: filled_def)
    then show "tl_inv l \<and> strict l \<and> \<not> tl_Empty l" using pool_ok_list(3) [OF ok l] tl_Empty_iff by auto
  qed
  moreover have "\<forall>a l. gm_get (queue p) a = Some l \<longrightarrow> tl_inv l \<and> \<not> strict l" using pool_ok_list(1) [OF ok] by blast
  moreover have "\<forall>a t. list_holds (pending p) a t \<or> list_holds (queue p) a t \<longrightarrow> pe_sender E t = Some a"
    unfolding pool_ok_holds [OF ok] using pool_home(1,2) [OF ab] by blast
  moreover have "\<forall>a t u. list_holds (pending p) a t \<longrightarrow> list_holds (queue p) a u \<longrightarrow> AccountNonce t \<noteq> AccountNonce u"
    unfolding pool_ok_holds [OF ok] using ap by (auto simp: apart_def disjoint_iff image_iff)
  moreover have "\<forall>h t. gm_get (pool_all p) h = Some t \<longleftrightarrow>
          pe_txhash E t = h \<and> (\<exists>a. list_holds (pending p) a t \<or> list_holds (queue p) a t)"
    unfolding pool_ok_holds [OF ok] using k by (auto simp: knows_def pooled_def)
  moreover have "pl_inv (priced p)" using k by (simp add: knows_def)
  moreover have "pool_txs p = {t \<in> set (pitems (priced p)). gm_get (pool_all p) (pe_txhash E t) = Some t}"
    unfolding pool_ok_txs [OF ok] using k by (auto simp: knows_def)
  ultimately show ?thesis unfolding pool_inv_def by (intro conjI)
qed

section \<open>An example\<close>

text \<open>Every account is rich and has nonce 0; all transactions come from account 1.\<close>

definition pool_libs :: "unit senv" where
  "pool_libs = \<lparr>keccak = (\<lambda>bs. 0), OpenTrie = (\<lambda>_. Inr ()), OpenStorageTrie = (\<lambda>_ _. Inr ()),
     CopyTrie = id, ContractCode = (\<lambda>_ _. (None, None)), ContractCodeSize = (\<lambda>_ _. (0, None)),
     t_TryGet = (\<lambda>t _. ([1], None, t)), t_TryUpdate = (\<lambda>t _ _. (None, t)), t_TryDelete = (\<lambda>t _. (None, t)), t_Hash = (\<lambda>t. (0, t)),
     decodeAccount = (\<lambda>_. Some \<lparr>a_Nonce = 0, a_Balance = 10 ^ 9, a_Root = 0, a_CodeHash = []\<rparr>),
     encodeAccount = (\<lambda>_. None), rlp_Split = (\<lambda>b. (b, None)), rlp_bytes = (\<lambda>b. b)\<rparr>"

definition pool_crypto :: crypto where
  "pool_crypto = \<lparr>rlp_header = (\<lambda>h. [0]), rlp_headers = (\<lambda>_. [0]), keccak256 = (\<lambda>_. 0), Ecrecover_lib = (\<lambda>_ _. None)\<rparr>"

definition sample_env :: "unit pool_env" where
  "sample_env = \<lparr>pe_state = pool_libs, pe_crypto = pool_crypto, pe_sender = (\<lambda>_. Some 1), pe_txhash = (\<lambda>t. ucast (AccountNonce t)),
     pe_size = (\<lambda>_. 100), pe_GetBlock = (\<lambda>_ _. None), rngA = (\<lambda>ks. ks), rngN = (\<lambda>ks. ks), rngH = (\<lambda>ks. ks)\<rparr>"

definition sample_block :: block where
  "sample_block = \<lparr>bheader = \<lparr>ParentHash = 0, UncleHash = 0, Coinbase = 0, Root = 0, TxHash = 0, ReceiptHash = 0, Bloom = [],
     Difficulty = Some 1, Number = Some 0, GasLimit = 1000000, GasUsed = 0, Time = 0, Extra = [], MixDigest = 0, header.Nonce = []\<rparr>,
     uncles = [], transactions = [], td = None\<rparr>"

definition sample_config :: poolConfig where
  "sample_config = DefaultTxPoolConfig\<lparr>GlobalSlots := 2, AccountSlots := 1, GlobalQueue := 2, AccountQueue := 8\<rparr>"

text \<open>A pool with the transactions 0 and 1 pending and 4 queued.\<close>

definition sample_pool :: "unit txPool option" where
  "sample_pool = do {
     p \<leftarrow> NewTxPool sample_env 0 sample_config sample_block;
     run_call sample_env 1 (CallAddRemotes [sample_tx 0 5, sample_tx 1 5, sample_tx 4 3]) p
   }"

lemma sample_env_ranges: "ranges_ok sample_env"
  by (simp add: ranges_ok_def sample_env_def range_ok_id)

lemma sample_pool_runs: "map_option (\<lambda>p. (pool_stats p, length (pool_all p))) sample_pool = Some ((2, 1), 3)"
  by code_simp

lemma sample_pool_reachable: "\<exists>p. sample_pool = Some p \<and> pool_reachable sample_env p \<and> length (pool_all p) = 3 \<and> pool_stats p = (2, 1)"
proof -
  obtain p where p: "sample_pool = Some p" "length (pool_all p) = 3" "pool_stats p = (2, 1)" using sample_pool_runs by auto
  then obtain p0 where p0: "NewTxPool sample_env 0 sample_config sample_block = Some p0"
    "run_call sample_env 1 (CallAddRemotes [sample_tx 0 5, sample_tx 1 5, sample_tx 4 3]) p0 = Some p"
    by (auto simp: sample_pool_def bind_eq_Some_conv)
  have "pool_reachable sample_env p0"
    by (rule reach_new [OF _ p0(1)]) (simp add: sample_config_def DefaultTxPoolConfig_def)
  moreover have "map_option (\<lambda>p. length (pool_all p)) (NewTxPool sample_env 0 sample_config sample_block) = Some 0" by code_simp
  then have "length (pool_all p0) = 0" using p0(1) by simp
  then have "few_txs sample_env (CallAddRemotes [sample_tx 0 5, sample_tx 1 5, sample_tx 4 3]) p0" by (simp add: few_txs_def)
  ultimately have "pool_reachable sample_env p" using p0(2) by (rule reach_call)
  then show ?thesis using p by blast
qed

text \<open>A limit of the queue of an account that is no \<open>int\<close> is let through by \<open>sanitize\<close>, and then the first queued
  transaction makes the pool panic.\<close>

lemma huge_account_queue_panics:
  "map_option (\<lambda>p. run_call sample_env 1 (CallAddRemote (sample_tx 4 5)) p = None)
     (NewTxPool sample_env 0 (sample_config\<lparr>AccountQueue := 2 ^ 63\<rparr>) sample_block) = Some True"
proof -
  have "map_option (\<lambda>p. case run_call sample_env 1 (CallAddRemote (sample_tx 4 5)) p of None \<Rightarrow> True | Some _ \<Rightarrow> False)
     (NewTxPool sample_env 0 (sample_config\<lparr>AccountQueue := 2 ^ 63\<rparr>) sample_block) = Some True" by code_simp
  then show ?thesis by (auto split: option.splits)
qed

text \<open>Two blocks on a genesis block. Their hashes are 1, 2 and 3, the length of the extra data; a transaction is only in
  the left one, and comes back to the pool when the right one becomes the head.\<close>

definition fork_block :: "nat \<Rightarrow> nat \<Rightarrow> u64 \<Rightarrow> transaction list \<Rightarrow> block" where
  "fork_block k parent n ts = sample_block
     \<lparr>bheader := (bheader sample_block)\<lparr>ParentHash := of_nat parent, Number := Some (uint n), Extra := replicate k 0\<rparr>, transactions := ts\<rparr>"

definition root_block :: block where "root_block = fork_block 1 0 0 []"

definition left_block :: block where "left_block = fork_block 2 1 1 [sample_tx 0 5]"

definition right_block :: block where "right_block = fork_block 3 1 1 []"

definition fork_blocks :: "hash \<Rightarrow> u64 \<Rightarrow> block option" where
  "fork_blocks h n = map_of [((1, 0), root_block), ((2, 1), left_block), ((3, 1), right_block)] (h, n)"

definition fork_env :: "unit pool_env" where
  "fork_env = sample_env\<lparr>pe_GetBlock := fork_blocks,
     pe_crypto := pool_crypto\<lparr>rlp_header := Extra, keccak256 := (\<lambda>bs. of_nat (length bs))\<rparr>\<rparr>"

lemma fork_ranges: "ranges_ok fork_env"
  by (simp add: ranges_ok_def fork_env_def sample_env_def range_ok_id)

lemma fork_numbers:
  "NumberU64 root_block = Some 0" "NumberU64 left_block = Some 1" "NumberU64 right_block = Some 1"
  "ParentHash (bheader root_block) = 0" "ParentHash (bheader left_block) = 1" "ParentHash (bheader right_block) = 1"
  by (simp_all add: NumberU64_def root_block_def left_block_def right_block_def fork_block_def)

lemma fork_walks: "chain_walks (pe_GetBlock fork_env)"
  by (auto simp: chain_walks_def parent_steps_def fork_env_def fork_blocks_def fork_numbers split: if_splits)

lemma fork_head: "head_known fork_env (CallChainHead (Some right_block))"
proof -
  have "pe_GetBlock fork_env (header_Hash (pe_crypto fork_env) (block_Header right_block))
     (the (Uint64 (Number (block_Header right_block)))) = Some right_block" by code_simp
  then show ?thesis by (simp add: head_known_def)
qed

text \<open>Heads of the same number are at distance 0; the kernel need not go over \<open>float64\<close> then.\<close>

lemma head_distance_same [code]:
  "head_distance a b = (if a = b then 0 else to_float64 (nat \<bar>int (to_float64 (unat a)) - int (to_float64 (unat b))\<bar>))"
proof -
  have "excess_bits 0 = 0" by (subst excess_bits.simps) simp
  then have "to_float64 0 = 0" by (simp add: to_float64_def)
  then show ?thesis by (simp add: head_distance_def)
qed

lemma fork_reinject: "reinject fork_env (Some (block_Header left_block)) (block_Header right_block) = Some (Some [sample_tx 0 5])"
  by code_simp

lemma fork_pool_runs:
  "map_option (\<lambda>p. (pool_head p = left_block, length (pool_all p), pool_stats p,
       map_option pool_stats (run_call fork_env 1 (CallChainHead (Some right_block)) p)))
     (NewTxPool fork_env 0 sample_config left_block) = Some (True, 0, (0, 0), Some (1, 0))"
  by code_simp

section \<open>The promises\<close>

text \<open>C6: Every pool a client can see is in order: whatever calls and events came before, the pending lists are strict,
  not empty and sorted by nonce, every list has only transactions of its account, no nonce is pending and queued, the
  lookup has exactly the listed transactions under their hashes, and the price heap is ordered by price and has all of
  them: the entries that the lookup has are exactly the listed transactions. Entries the lookup does not have may stay in
  the heap (the code leaves them there as stale ones), and their count is not part of this.\<close>

theorem pool_invariant:
  assumes "ranges_ok E" "pool_reachable E p"
  shows "pool_inv E p"
  using pool_reachable_ok [OF assms(2,1)] pool_ok_inv by blast

theorem pool_invariant_witness:
  "\<exists>p. sample_pool = Some p \<and> pool_stats p = (2, 1) \<and> pool_inv sample_env p"
  using sample_pool_reachable pool_invariant [OF sample_env_ranges] by blast

text \<open>C7: No call of a client and no event of the chain makes the pool panic or hang: from any pool it can reach, each
  returns a pool, with the same configuration and no local account lost. The chain has to keep the law of a chain
  (\<open>chain_walks\<close>: a found block has a number, a parent that is found is one below, and a genesis has none), it has to have
  the block it announces as its head, and the pool holds fewer than \<open>2^62\<close> transactions. That the walk of a reset over the
  ancestors of the old and the new head ends, whichever of them are missing, is proved from this.\<close>

theorem pool_calls_return:
  assumes "ranges_ok E" "pool_reachable E p" "few_txs E c p" "chain_walks (pe_GetBlock E)" "head_known E c"
  shows "\<exists>p'. run_call E now c p = Some p' \<and> pool_reachable E p' \<and> pconfig p' = pconfig p
    \<and> (\<forall>a. as_contains (locals p) a \<longrightarrow> as_contains (locals p') a)"
  using run_call_returns [OF assms(2,1,3,4,5), of now] unfolding kept_fields_def by blast

theorem pool_calls_return_witness:
  "\<exists>p p'. NewTxPool fork_env 0 sample_config left_block = Some p \<and> pool_stats p = (0, 0)
    \<and> run_call fork_env 1 (CallChainHead (Some right_block)) p = Some p' \<and> pool_reachable fork_env p' \<and> pool_stats p' = (1, 0)"
proof -
  obtain p where p: "NewTxPool fork_env 0 sample_config left_block = Some p" "pool_head p = left_block" "length (pool_all p) = 0"
    "pool_stats p = (0, 0)" "map_option pool_stats (run_call fork_env 1 (CallChainHead (Some right_block)) p) = Some (1, 0)"
    using fork_pool_runs by (auto simp: map_option_eq_Some)
  have r: "pool_reachable fork_env p" by (rule reach_new [OF _ p(1)]) (simp add: sample_config_def DefaultTxPoolConfig_def)
  have f: "few_txs fork_env (CallChainHead (Some right_block)) p" by (simp add: few_txs_def p(2,3) fork_reinject)
  from pool_calls_return [OF fork_ranges r f fork_walks fork_head, of 1] show ?thesis using p(1,4,5) by auto
qed

text \<open>C8: A promotion enforces the limits. It returns, brings nothing new into the pool, and leaves at most
  \<open>GlobalSlots\<close> pending transactions, unless every account that is not local has at most \<open>AccountSlots\<close>; at most
  \<open>GlobalQueue\<close> queued ones, unless only local accounts have any; and at most \<open>AccountQueue\<close> queued ones of each promoted
  account that is not local.\<close>

theorem pool_limits:
  assumes "ranges_ok E" "pool_reachable E p" "length (pool_all p) < 2 ^ 62"
  shows "\<exists>p'. promoteExecutables E now addrs p = Some p' \<and> pool_txs p' \<subseteq> pool_txs p
    \<and> (fst (pool_stats p') \<le> unat (GlobalSlots (pconfig p))
        \<or> (\<forall>a. \<not> as_contains (locals p) a \<longrightarrow> list_size (pending p') a \<le> unat (AccountSlots (pconfig p))))
    \<and> (snd (pool_stats p') \<le> unat (GlobalQueue (pconfig p))
        \<or> (\<forall>a. \<not> as_contains (locals p) a \<longrightarrow> list_size (queue p') a = 0))
    \<and> (\<forall>a. addrs = None \<or> a \<in> set (the addrs) \<longrightarrow> \<not> as_contains (locals p) a \<longrightarrow>
          list_size (queue p') a \<le> unat (AccountQueue (pconfig p)))"
proof -
  obtain P Q where ok: "pool_ok E p P Q {}" and cfg: "config_ok (pconfig p)" using pool_reachable_ok [OF assms(2,1)] by blast
  obtain p' P' Q' where 1: "promoteExecutables E now addrs p = Some p'" "pool_ok E p' P' Q' {}" "pooled P' Q' \<subseteq> pooled P Q"
    "pconfig p' = pconfig p" "locals p' = locals p" "limits_hold (promoted_accounts addrs) p' P' Q'"
    using promoteExecutables_ok [OF ok assms(1) cfg assms(3), of now addrs] by (elim exE conjE)
  have a: "a \<in> promoted_accounts addrs" if "addrs = None \<or> a \<in> set (the addrs)" for a
    using that by (auto simp: promoted_accounts_def split: option.splits)
  show ?thesis
    by (rule exI [of _ p'], insert 1(1,3-6) a)
      (simp only: limits_hold_def pool_ok_size [OF 1(2)] pool_ok_txs [OF ok] pool_ok_txs [OF 1(2)], metis card.empty)
qed

theorem pool_limits_witness:
  "\<exists>p p'. sample_pool = Some p \<and> promoteExecutables sample_env 2 None p = Some p' \<and> pool_txs p' \<subseteq> pool_txs p"
proof -
  obtain p where p: "sample_pool = Some p" "pool_reachable sample_env p" "length (pool_all p) = 3" using sample_pool_reachable by blast
  have "length (pool_all p) < 2 ^ 62" by (simp add: p(3))
  from pool_limits [OF sample_env_ranges p(2) this, of 2 None] show ?thesis using p(1) by blast
qed

text \<open>C27: \<open>add\<close> returns from every reachable pool. If it refuses the transaction, nothing new is in the pool; if it
  accepts it, the pool knows it and nothing else that is new. A transaction the pool has already is refused and leaves the
  pool as it is.\<close>

theorem pool_add_outcome:
  assumes "ranges_ok E" "pool_reachable E p" "length (pool_all p) < 2 ^ 62"
  shows "\<exists>r p'. pool_add E tx isLocal p = Some (r, p')
    \<and> (case r of Inl _ \<Rightarrow> pool_txs p' \<subseteq> pool_txs p
       | Inr _ \<Rightarrow> tx \<in> pool_txs p' \<and> tx \<notin> pool_txs p \<and> pool_txs p' \<subseteq> insert tx (pool_txs p))
    \<and> (tx \<in> pool_txs p \<longrightarrow> r = Inl ErrKnownTransaction \<and> p' = p)
    \<and> pool_inv E p'"
proof -
  obtain P Q where ok: "pool_ok E p P Q {}" using pool_reachable_ok [OF assms(2,1)] by blast
  obtain r p' P' Q' where 1: "pool_add E tx isLocal p = Some (r, p')" "pool_ok E p' P' Q' {}"
    "add_outcome tx r (pooled P Q) (pooled P' Q')"
    using pool_add_ok [OF ok assms(1,3), of tx isLocal] by (elim exE conjE)
  have known: "r = Inl ErrKnownTransaction \<and> p' = p" if "tx \<in> pool_txs p"
  proof -
    have "gm_get (pool_all p) (pe_txhash E tx) = Some tx"
      using that ok unfolding pool_ok_txs [OF ok] by (simp add: pool_ok_def pool_is_def knows_def)
    then show ?thesis using 1(1) by (auto simp: pool_add_def)
  qed
  show ?thesis
    using 1 known pool_ok_inv [OF 1(2)] pool_ok_txs [OF ok] pool_ok_txs [OF 1(2)]
    by (intro exI [of _ r] exI [of _ p']) (auto simp: add_outcome_def split: sum.splits)
qed

theorem pool_add_outcome_witness:
  "\<exists>p r p'. sample_pool = Some p \<and> pool_add sample_env (sample_tx 2 7) True p = Some (r, p') \<and> pool_inv sample_env p'"
proof -
  obtain p where p: "sample_pool = Some p" "pool_reachable sample_env p" "length (pool_all p) = 3" using sample_pool_reachable by blast
  have "length (pool_all p) < 2 ^ 62" by (simp add: p(3))
  from pool_add_outcome [OF sample_env_ranges p(2) this, of "sample_tx 2 7" True] show ?thesis using p(1) by blast
qed

text \<open>C28: A new price limit drops exactly the transactions below it that are not of local accounts, when no two
  transactions in the books of the pool share a hash; without that, still nothing remote stays below the price.\<close>

theorem pool_price_limit:
  assumes "ranges_ok E" "pool_reachable E p"
  shows "(\<forall>t \<in> pool_txs (SetGasPrice E price p). t \<in> pool_txs p \<and> (containsTx (pe_sender E) (locals p) t \<or> price \<le> Price t))
    \<and> (inj_on (pe_txhash E) (pool_txs p \<union> set (pitems (priced p))) \<longrightarrow>
         pool_txs (SetGasPrice E price p) = {t \<in> pool_txs p. containsTx (pe_sender E) (locals p) t \<or> price \<le> Price t})
    \<and> pool_inv E (SetGasPrice E price p)"
proof -
  obtain P Q where ok: "pool_ok E p P Q {}" using pool_reachable_ok [OF assms(2,1)] by blast
  obtain P' Q' where 1: "pool_ok E (SetGasPrice E price p) P' Q' {}"
    "pooled P' Q' \<subseteq> {t \<in> pooled P Q. containsTx (pe_sender E) (locals p) t \<or> price \<le> Price t}"
    "inj_on (pe_txhash E) (pooled P Q \<union> set (pitems (priced p))) \<longrightarrow>
         pooled P' Q' = {t \<in> pooled P Q. containsTx (pe_sender E) (locals p) t \<or> price \<le> Price t}"
    using SetGasPrice_ok [OF ok assms(1), of price] by blast
  show ?thesis
    unfolding pool_ok_txs [OF ok] pool_ok_txs [OF 1(1)] using 1(2,3) pool_ok_inv [OF 1(1)] by blast
qed

theorem pool_price_limit_witness:
  "\<exists>p. sample_pool = Some p \<and> pool_inv sample_env (SetGasPrice sample_env 4 p)
    \<and> (\<forall>t \<in> pool_txs (SetGasPrice sample_env 4 p). containsTx (pe_sender sample_env) (locals p) t \<or> 4 \<le> Price t)"
  using sample_pool_reachable pool_price_limit [OF sample_env_ranges] by blast

end
