(* ===== verification/Receipts.thy ===== *)
theory Receipts
  imports State_DB Blocks
begin

text \<open>
  Receipts, the storage form of their logs and the bloom filter: \<open>core/types/receipt.go\<close>, \<open>core/types/log.go\<close> and
  \<open>core/types/bloom9.go\<close>.

  RLP is third-party: \<open>receipt_codec\<close> has the encoders and decoders of the structures the code hands to it. An
  encoder that calls \<open>EncodeRLP\<close> of the elements takes their encodings. \<open>kec\<close> is the Keccak hash. Go's \<open>uint\<close> has 64 bits.
\<close>

section \<open>Big integers as bytes\<close>

text \<open>\<open>(*big.Int).SetBytes\<close> and \<open>Bytes\<close>: big-endian, without leading zeros; \<open>Bytes\<close> drops the sign.\<close>

definition big_SetBytes :: "bytes \<Rightarrow> bigint" where
  "big_SetBytes bs = foldl (\<lambda>n b. n * 256 + uint b) 0 bs"

fun nat_bytes :: "nat \<Rightarrow> bytes" where
  "nat_bytes n = (if n = 0 then [] else nat_bytes (n div 256) @ [of_nat (n mod 256)])"

declare nat_bytes.simps [simp del]

definition big_Bytes :: "bigint \<Rightarrow> bytes" where
  "big_Bytes n = nat_bytes (nat \<bar>n\<bar>)"

section \<open>Bloom filters\<close>

definition BloomByteLength :: nat where "BloomByteLength = 256"

text \<open>\<open>BytesToBloom\<close> aligns to the right and panics when the input is too long.\<close>

definition BytesToBloom :: "bytes \<Rightarrow> bytes option" where
  "BytesToBloom d =
     (if BloomByteLength < length d then None else Some (replicate (BloomByteLength - length d) 0 @ d))"

definition bloom_Big :: "bytes \<Rightarrow> bigint" where
  "bloom_Big b = big_SetBytes b"

definition bloom_bit :: "bytes \<Rightarrow> nat \<Rightarrow> nat" where
  "bloom_bit b i = unat (((ucast (b ! (i + 1)) :: u64) + push_bit 8 (ucast (b ! i))) AND 2047)"

definition bloom9 :: "(bytes \<Rightarrow> hash) \<Rightarrow> bytes \<Rightarrow> bigint" where
  "bloom9 kec x =
     (let b = hash_bytes (kec x) in foldl (\<lambda>r i. r OR push_bit (bloom_bit b i) 1) 0 [0, 2, 4])"

text \<open>\<open>Add\<close> copies the new bits over the old ones from the right; they are never fewer.\<close>

definition bloom_Add :: "(bytes \<Rightarrow> hash) \<Rightarrow> bytes \<Rightarrow> bigint \<Rightarrow> bytes option" where
  "bloom_Add kec b d =
     (let bs = big_Bytes (big_SetBytes b OR bloom9 kec (big_Bytes d)) in
      if length b < length bs then None else Some (take (length b - length bs) b @ bs))"

fun topics_bloom :: "(bytes \<Rightarrow> hash) \<Rightarrow> hash list \<Rightarrow> bigint \<Rightarrow> bigint" where
  "topics_bloom kec [] bin = bin"
| "topics_bloom kec (b # bs) bin = topics_bloom kec bs (bin OR bloom9 kec (hash_bytes b))"

fun logs_bloom_loop :: "(bytes \<Rightarrow> hash) \<Rightarrow> log list \<Rightarrow> bigint \<Rightarrow> bigint" where
  "logs_bloom_loop kec [] bin = bin"
| "logs_bloom_loop kec (l # ls) bin =
     logs_bloom_loop kec ls (topics_bloom kec (l_Topics l) (bin OR bloom9 kec (address_bytes (l_Address l))))"

definition LogsBloom :: "(bytes \<Rightarrow> hash) \<Rightarrow> log list \<Rightarrow> bigint" where
  "LogsBloom kec logs = logs_bloom_loop kec logs 0"

definition BloomLookup :: "(bytes \<Rightarrow> hash) \<Rightarrow> bytes \<Rightarrow> bytes \<Rightarrow> bool" where
  "BloomLookup kec bin topic = (let cmp = bloom9 kec topic in (bloom_Big bin AND cmp) = cmp)"

definition bloom_Test :: "(bytes \<Rightarrow> hash) \<Rightarrow> bytes \<Rightarrow> bigint \<Rightarrow> bool" where
  "bloom_Test kec b test = BloomLookup kec b (big_Bytes test)"

definition bloom_TestBytes :: "(bytes \<Rightarrow> hash) \<Rightarrow> bytes \<Rightarrow> bytes \<Rightarrow> bool" where
  "bloom_TestBytes kec b test = bloom_Test kec b (big_SetBytes test)"

section \<open>Receipts\<close>

record receipt =
  PostState :: bytes
  rc_Status :: u64
  CumulativeGasUsed :: u64
  rc_Bloom :: bytes
  rc_Logs :: "log list"
  rc_TxHash :: hash
  ContractAddress :: address
  rc_GasUsed :: u64
  rc_BlockHash :: hash
  rc_BlockNumber :: "bigint option"
  TransactionIndex :: u64

definition ReceiptStatusFailed :: u64 where "ReceiptStatusFailed = 0"
definition ReceiptStatusSuccessful :: u64 where "ReceiptStatusSuccessful = 1"
definition receiptStatusFailedRLP :: bytes where "receiptStatusFailedRLP = []"
definition receiptStatusSuccessfulRLP :: bytes where "receiptStatusSuccessfulRLP = [1]"

definition zero_receipt :: receipt where
  "zero_receipt = \<lparr>PostState = [], rc_Status = 0, CumulativeGasUsed = 0, rc_Bloom = replicate BloomByteLength 0, rc_Logs = [],
     rc_TxHash = 0, ContractAddress = 0, rc_GasUsed = 0, rc_BlockHash = 0, rc_BlockNumber = None, TransactionIndex = 0\<rparr>"

definition NewReceipt :: "bytes \<Rightarrow> bool \<Rightarrow> u64 \<Rightarrow> receipt" where
  "NewReceipt root failed cumulativeGasUsed =
     zero_receipt\<lparr>PostState := root, CumulativeGasUsed := cumulativeGasUsed,
       rc_Status := (if failed then ReceiptStatusFailed else ReceiptStatusSuccessful)\<rparr>"

definition statusEncoding :: "receipt \<Rightarrow> bytes" where
  "statusEncoding r =
     (if length (PostState r) = 0
      then if rc_Status r = ReceiptStatusFailed then receiptStatusFailedRLP else receiptStatusSuccessfulRLP
      else PostState r)"

definition setStatus :: "bytes \<Rightarrow> receipt \<Rightarrow> receipt option" where
  "setStatus s r =
     (if s = receiptStatusSuccessfulRLP then Some (r\<lparr>rc_Status := ReceiptStatusSuccessful\<rparr>)
      else if s = receiptStatusFailedRLP then Some (r\<lparr>rc_Status := ReceiptStatusFailed\<rparr>)
      else if length s = 32 then Some (r\<lparr>PostState := s\<rparr>)
      else None)"

definition CreateBloom :: "(bytes \<Rightarrow> hash) \<Rightarrow> receipt list \<Rightarrow> bytes option" where
  "CreateBloom kec receipts = BytesToBloom (big_Bytes (foldl (\<lambda>bin r. bin OR LogsBloom kec (rc_Logs r)) 0 receipts))"

section \<open>Storage\<close>

record rlpLog =
  rl_Address :: address
  rl_Topics :: "hash list"
  rl_Data :: bytes

record storedReceiptRLP =
  sr_PostStateOrStatus :: bytes
  sr_CumulativeGasUsed :: u64
  sr_Logs :: "bytes list"

text \<open>The records of the versions 3 and 4 have more fields; version 3 stores the bloom filter as well.\<close>

record oldReceiptRLP = storedReceiptRLP +
  old_Bloom :: bytes
  old_TxHash :: hash
  old_ContractAddress :: address
  old_GasUsed :: u64

record receipt_codec =
  enc_log :: "rlpLog \<Rightarrow> bytes"
  dec_log :: "bytes \<Rightarrow> rlpLog option"
  dec_legacy_log :: "bytes \<Rightarrow> rlpLog option"
  enc_stored :: "storedReceiptRLP \<Rightarrow> bytes"
  dec_stored :: "bytes \<Rightarrow> storedReceiptRLP option"
  dec_v3 :: "bytes \<Rightarrow> oldReceiptRLP option"
  dec_v4 :: "bytes \<Rightarrow> oldReceiptRLP option"
  enc_list :: "bytes list \<Rightarrow> bytes"
  dec_list :: "bytes \<Rightarrow> bytes list option"

text \<open>The laws of RLP: what was encoded is decoded again, and the encoding of a list is not empty.\<close>

definition receipt_codec_ok :: "receipt_codec \<Rightarrow> bool" where
  "receipt_codec_ok rc \<longleftrightarrow> (\<forall>l. dec_log rc (enc_log rc l) = Some l) \<and> (\<forall>s. dec_stored rc (enc_stored rc s) = Some s)
     \<and> (\<forall>bs. dec_list rc (enc_list rc bs) = Some bs \<and> enc_list rc bs \<noteq> [])"

definition LogForStorage_EncodeRLP :: "receipt_codec \<Rightarrow> log \<Rightarrow> bytes" where
  "LogForStorage_EncodeRLP rc l = enc_log rc \<lparr>rl_Address = l_Address l, rl_Topics = l_Topics l, rl_Data = l_Data l\<rparr>"

definition log_of_rlp :: "rlpLog \<Rightarrow> log" where
  "log_of_rlp d = \<lparr>l_Address = rl_Address d, l_Topics = rl_Topics d, l_Data = rl_Data d, l_BlockNumber = 0, l_TxHash = 0,
     l_TxIndex = 0, l_BlockHash = 0, l_Index = 0, l_Removed = False\<rparr>"

definition LogForStorage_DecodeRLP :: "receipt_codec \<Rightarrow> bytes \<Rightarrow> log option" where
  "LogForStorage_DecodeRLP rc blob =
     (case dec_log rc blob of
        Some d \<Rightarrow> Some (log_of_rlp d)
      | None \<Rightarrow> map_option log_of_rlp (dec_legacy_log rc blob))"

definition ReceiptForStorage_EncodeRLP :: "receipt_codec \<Rightarrow> receipt \<Rightarrow> bytes" where
  "ReceiptForStorage_EncodeRLP rc r =
     enc_stored rc \<lparr>sr_PostStateOrStatus = statusEncoding r, sr_CumulativeGasUsed = CumulativeGasUsed r,
       sr_Logs = map (LogForStorage_EncodeRLP rc) (rc_Logs r)\<rparr>"

fun all_some :: "'a option list \<Rightarrow> 'a list option" where
  "all_some [] = Some []"
| "all_some (x # xs) = (case x of None \<Rightarrow> None | Some a \<Rightarrow> map_option ((#) a) (all_some xs))"

text \<open>A panic of \<open>CreateBloom\<close> cannot occur, see \<open>CreateBloom_total\<close> below; the \<^const>\<open>None\<close> of these functions is an error.\<close>

definition decodeStoredReceiptRLP :: "(bytes \<Rightarrow> hash) \<Rightarrow> receipt_codec \<Rightarrow> bytes \<Rightarrow> receipt option" where
  "decodeStoredReceiptRLP kec rc blob =
     (case dec_stored rc blob of
        None \<Rightarrow> None
      | Some s \<Rightarrow>
          (case all_some (map (LogForStorage_DecodeRLP rc) (sr_Logs s)) of
             None \<Rightarrow> None
           | Some ls \<Rightarrow>
               (case setStatus (sr_PostStateOrStatus s) zero_receipt of
                  None \<Rightarrow> None
                | Some r \<Rightarrow>
                    let r1 = r\<lparr>CumulativeGasUsed := sr_CumulativeGasUsed s, rc_Logs := ls\<rparr> in
                    map_option (\<lambda>bl. r1\<lparr>rc_Bloom := bl\<rparr>) (CreateBloom kec [r1]))))"

definition decode_old :: "receipt_codec \<Rightarrow> oldReceiptRLP \<Rightarrow> receipt option" where
  "decode_old rc s =
     (case all_some (map (LogForStorage_DecodeRLP rc) (sr_Logs s)) of
        None \<Rightarrow> None
      | Some ls \<Rightarrow>
          map_option (\<lambda>r. r\<lparr>CumulativeGasUsed := sr_CumulativeGasUsed s, rc_TxHash := old_TxHash s,
              ContractAddress := old_ContractAddress s, rc_GasUsed := old_GasUsed s, rc_Logs := ls\<rparr>)
            (setStatus (sr_PostStateOrStatus s) zero_receipt))"

definition decodeV3StoredReceiptRLP :: "receipt_codec \<Rightarrow> bytes \<Rightarrow> receipt option" where
  "decodeV3StoredReceiptRLP rc blob =
     (case dec_v3 rc blob of None \<Rightarrow> None | Some s \<Rightarrow> map_option (\<lambda>r. r\<lparr>rc_Bloom := old_Bloom s\<rparr>) (decode_old rc s))"

definition decodeV4StoredReceiptRLP :: "(bytes \<Rightarrow> hash) \<Rightarrow> receipt_codec \<Rightarrow> bytes \<Rightarrow> receipt option" where
  "decodeV4StoredReceiptRLP kec rc blob =
     (case dec_v4 rc blob of
        None \<Rightarrow> None
      | Some s \<Rightarrow>
          (case decode_old rc s of None \<Rightarrow> None | Some r \<Rightarrow> map_option (\<lambda>bl. r\<lparr>rc_Bloom := bl\<rparr>) (CreateBloom kec [r])))"

definition ReceiptForStorage_DecodeRLP :: "(bytes \<Rightarrow> hash) \<Rightarrow> receipt_codec \<Rightarrow> bytes \<Rightarrow> receipt option" where
  "ReceiptForStorage_DecodeRLP kec rc blob =
     (case decodeStoredReceiptRLP kec rc blob of
        Some r \<Rightarrow> Some r
      | None \<Rightarrow>
          (case decodeV3StoredReceiptRLP rc blob of
             Some r \<Rightarrow> Some r
           | None \<Rightarrow> decodeV4StoredReceiptRLP kec rc blob))"

section \<open>Derived fields\<close>

text \<open>The libraries: the hash of a transaction, the recovered sender (an error gives the zero address), and the address
  of a created contract.\<close>

record derive_env =
  de_txhash :: "transaction \<Rightarrow> hash"
  de_sender :: "transaction \<Rightarrow> address option"
  de_CreateAddress :: "address \<Rightarrow> u64 \<Rightarrow> address"

fun derive_logs :: "hash \<Rightarrow> u64 \<Rightarrow> hash \<Rightarrow> u64 \<Rightarrow> u64 \<Rightarrow> log list \<Rightarrow> log list" where
  "derive_logs hash' number txh i logIndex [] = []"
| "derive_logs hash' number txh i logIndex (l # ls) =
     l\<lparr>l_BlockNumber := number, l_BlockHash := hash', l_TxHash := txh, l_TxIndex := i, l_Index := logIndex\<rparr>
     # derive_logs hash' number txh i (logIndex + 1) ls"

text \<open>\<open>prev\<close> is the cumulative gas of the receipt before, zero for the first one.\<close>

fun derive_loop ::
  "derive_env \<Rightarrow> hash \<Rightarrow> u64 \<Rightarrow> u64 \<Rightarrow> u64 \<Rightarrow> u64 \<Rightarrow> receipt list \<Rightarrow> transaction list \<Rightarrow> receipt list" where
  "derive_loop de hash' number i prev logIndex (r # rs) (tx # txs) =
     (let txh = de_txhash de tx in
      r\<lparr>rc_TxHash := txh, rc_BlockHash := hash', rc_BlockNumber := Some (uint number), TransactionIndex := i,
        ContractAddress := (if Recipient tx = None
                            then de_CreateAddress de (sender_or_zero (de_sender de) tx) (AccountNonce tx)
                            else ContractAddress r),
        rc_GasUsed := CumulativeGasUsed r - prev,
        rc_Logs := derive_logs hash' number txh i logIndex (rc_Logs r)\<rparr>
      # derive_loop de hash' number (i + 1) (CumulativeGasUsed r) (logIndex + of_nat (length (rc_Logs r))) rs txs)"
| "derive_loop de hash' number i prev logIndex _ _ = []"

definition DeriveFields :: "derive_env \<Rightarrow> hash \<Rightarrow> u64 \<Rightarrow> transaction list \<Rightarrow> receipt list \<Rightarrow> receipt list option" where
  "DeriveFields de hash' number txs rs =
     (if length txs \<noteq> length rs then None else Some (derive_loop de hash' number 0 0 0 rs txs))"

section \<open>Properties of the bytes of big integers\<close>

lemma big_SetBytes_append: "big_SetBytes (xs @ ys) = big_SetBytes xs * 256 ^ length ys + big_SetBytes ys"
proof (induction ys rule: rev_induct)
  case (snoc y ys)
  then show ?case by (simp add: big_SetBytes_def algebra_simps flip: append_assoc)
qed (simp add: big_SetBytes_def)

lemma big_SetBytes_Nil [simp]: "big_SetBytes [] = 0"
  by (simp add: big_SetBytes_def)

lemma big_SetBytes_pad [simp]: "big_SetBytes (replicate k 0 @ bs) = big_SetBytes bs"
proof -
  have "big_SetBytes (replicate k 0) = 0" by (induction k) (simp_all add: big_SetBytes_def)
  then show ?thesis by (simp add: big_SetBytes_append)
qed

lemma big_SetBytes_nonneg [simp]: "0 \<le> big_SetBytes bs"
proof (induction bs rule: rev_induct)
  case (snoc b bs)
  then show ?case by (simp add: big_SetBytes_append) (simp add: big_SetBytes_def)
qed simp

lemma big_SetBytes_nat_bytes [simp]: "big_SetBytes (nat_bytes n) = int n"
proof (induction n rule: nat_bytes.induct)
  case (1 n)
  show ?case
  proof (cases "n = 0")
    case False
    have "uint (of_nat (n mod 256) :: byte) = int (n mod 256)"
      by (simp add: unsigned_of_nat take_bit_nat_eq_self uint_nat)
    moreover have "int (n div 256) * 256 + int (n mod 256) = int n" by (metis div_mult_mod_eq of_nat_add of_nat_mult of_nat_numeral)
    ultimately show ?thesis using 1 False by (subst nat_bytes.simps) (simp add: big_SetBytes_append, simp add: big_SetBytes_def)
  qed (subst nat_bytes.simps, simp)
qed

lemma big_Bytes_back [simp]: "0 \<le> n \<Longrightarrow> big_SetBytes (big_Bytes n) = n"
  by (simp add: big_Bytes_def)

lemma length_nat_bytes: "n < 256 ^ k \<Longrightarrow> length (nat_bytes n) \<le> k"
proof (induction k arbitrary: n)
  case 0
  then show ?case by (subst nat_bytes.simps) simp
next
  case (Suc k)
  then have "n div 256 < 256 ^ k" by (simp add: less_mult_imp_div_less mult.commute)
  then have "length (nat_bytes (n div 256)) \<le> k" by (rule Suc.IH)
  then show ?case by (subst nat_bytes.simps) simp
qed

lemma nat_bytes_snoc: "n \<noteq> 0 \<or> b \<noteq> 0 \<Longrightarrow> nat_bytes (n * 256 + unat (b :: byte)) = nat_bytes n @ [b]"
proof -
  assume nz: "n \<noteq> 0 \<or> b \<noteq> 0"
  have b: "unat b < 256" using unsigned_less [of b] by simp
  have "n * 256 + unat b \<noteq> 0" using nz by (auto simp: unat_eq_0)
  then show ?thesis using b by (subst nat_bytes.simps) simp
qed

lemma big_SetBytes_zero: "big_SetBytes bs = 0 \<longleftrightarrow> dropWhile (\<lambda>x. x = 0) bs = []"
proof (induction bs rule: rev_induct)
  case (snoc b bs)
  have e: "big_SetBytes (bs @ [b]) = big_SetBytes bs * 256 + uint b"
    by (simp add: big_SetBytes_append) (simp add: big_SetBytes_def)
  have "big_SetBytes (bs @ [b]) = 0 \<longleftrightarrow> big_SetBytes bs = 0 \<and> b = 0" 
    unfolding e using big_SetBytes_nonneg [of bs] uint_ge_0 [of b] by (auto simp: add_nonneg_eq_0_iff uint_0_iff)
  then show ?case using snoc by (auto simp: dropWhile_append dropWhile_eq_Nil_conv)
qed simp

lemma big_Bytes_SetBytes: "big_Bytes (big_SetBytes bs) = dropWhile (\<lambda>x. x = 0) bs"
proof (induction bs rule: rev_induct)
  case Nil
  then show ?case by (simp add: big_Bytes_def nat_bytes.simps)
next
  case (snoc b bs)
  have e: "big_SetBytes (bs @ [b]) = big_SetBytes bs * 256 + uint b"
    by (simp add: big_SetBytes_append) (simp add: big_SetBytes_def)
  have n: "nat (big_SetBytes (bs @ [b])) = nat (big_SetBytes bs) * 256 + unat b"
    unfolding e by (simp add: nat_add_distrib nat_mult_distrib)
  show ?case
  proof (cases "big_SetBytes bs = 0 \<and> b = 0")
    case True
    then have "big_SetBytes (bs @ [b]) = 0" unfolding e by simp
    then show ?thesis using big_SetBytes_zero [of "bs @ [b]"] by (simp add: big_Bytes_def nat_bytes.simps)
  next
    case False
    then have "nat_bytes (nat (big_SetBytes bs) * 256 + unat b) = nat_bytes (nat (big_SetBytes bs)) @ [b]"
      using big_SetBytes_nonneg [of bs] by (intro nat_bytes_snoc) (auto simp: nat_eq_iff)
    then have "big_Bytes (big_SetBytes (bs @ [b])) = dropWhile (\<lambda>x. x = 0) bs @ [b]"
      using snoc by (simp add: big_Bytes_def n)
    moreover have "dropWhile (\<lambda>x. x = 0) (bs @ [b]) = dropWhile (\<lambda>x. x = 0) bs @ [b]"
    proof (cases "dropWhile (\<lambda>x. x = 0) bs = []")
      case True
      then have "b \<noteq> 0" using False big_SetBytes_zero by blast
      then show ?thesis using True by (auto simp: dropWhile_append dropWhile_eq_Nil_conv)
    qed (auto simp: dropWhile_append dropWhile_eq_Nil_conv)
    ultimately show ?thesis by simp
  qed
qed

section \<open>Properties of the bloom filter\<close>

lemma bloom_bit_less: "bloom_bit b i < 2048"
proof -
  have "(x AND 2047 :: u64) = take_bit 11 x" for x
    by (simp add: take_bit_eq_mask mask_eq_exp_minus_1)
  then show ?thesis using take_bit_nat_less_exp [of 11] by (simp add: bloom_bit_def unsigned_take_bit_eq)
qed

lemma fold_or_bounds:
  fixes f :: "'a \<Rightarrow> int"
  assumes "\<forall>x \<in> set xs. 0 \<le> f x \<and> f x < 2 ^ n" "0 \<le> a" "a < 2 ^ n"
  shows "0 \<le> foldl (\<lambda>r x. r OR f x) a xs \<and> foldl (\<lambda>r x. r OR f x) a xs < 2 ^ n"
  using assms by (induction xs arbitrary: a) (simp_all add: OR_upper)

lemma bloom9_bounds: "0 \<le> bloom9 kec x \<and> bloom9 kec x < 2 ^ 2048"
  unfolding bloom9_def Let_def
proof (rule fold_or_bounds)
  have "(2 :: int) ^ bloom_bit b i < 2 ^ 2048" for b i
    by (rule power_strict_increasing [OF bloom_bit_less]) simp
  then show "\<forall>i \<in> set [0, 2, 4]. 0 \<le> push_bit (bloom_bit (hash_bytes (kec x)) i) (1 :: int)
      \<and> push_bit (bloom_bit (hash_bytes (kec x)) i) (1 :: int) < 2 ^ 2048"
    by (simp only: push_bit_eq_mult) simp
qed simp_all

definition holds_bits :: "bigint \<Rightarrow> bigint \<Rightarrow> bool" where
  "holds_bits a b \<longleftrightarrow> (\<forall>n. bit b n \<longrightarrow> bit a n)"

lemma holds_bits_and: "holds_bits a b \<longleftrightarrow> a AND b = b"
  by (auto simp: holds_bits_def bit_eq_iff bit_simps)

lemma holds_bits_or: "holds_bits a c \<Longrightarrow> holds_bits (a OR b) c" "holds_bits (a OR b) b" "holds_bits a a"
  by (auto simp: holds_bits_def bit_simps)

lemma holds_bits_trans: "holds_bits a b \<Longrightarrow> holds_bits b c \<Longrightarrow> holds_bits a c"
  by (simp add: holds_bits_def)

definition log_keys :: "log \<Rightarrow> bytes list" where
  "log_keys l = address_bytes (l_Address l) # map hash_bytes (l_Topics l)"

lemma topics_bloom_fold: "topics_bloom kec ts bin = foldl (\<lambda>r t. r OR bloom9 kec (hash_bytes t)) bin ts"
  by (induction kec ts bin rule: topics_bloom.induct) simp_all

lemma logs_bloom_fold: "logs_bloom_loop kec ls bin = foldl (\<lambda>r k. r OR bloom9 kec k) bin (concat (map log_keys ls))"
  by (induction kec ls bin rule: logs_bloom_loop.induct) (simp_all add: topics_bloom_fold log_keys_def foldl_map)

lemma LogsBloom_bounds: "0 \<le> LogsBloom kec ls \<and> LogsBloom kec ls < 2 ^ 2048"
  unfolding LogsBloom_def logs_bloom_fold by (rule fold_or_bounds) (simp_all add: bloom9_bounds del: power_numeral)

lemma fold_or_start: "holds_bits (foldl (\<lambda>r x. r OR f x) a xs) a"
  by (induction xs arbitrary: a) (auto simp: holds_bits_def bit_simps)

lemma fold_or_holds: "x \<in> set xs \<Longrightarrow> holds_bits (foldl (\<lambda>r x. r OR f x) a xs) (f x)"
proof (induction xs arbitrary: a)
  case (Cons y ys)
  show ?case
  proof (cases "x \<in> set ys")
    case False
    then show ?thesis using Cons.prems fold_or_start [of f "a OR f y" ys] by (auto simp: holds_bits_def bit_simps)
  qed (simp add: Cons.IH)
qed simp

lemma BytesToBloom_ok:
  assumes "0 \<le> n" "n < 2 ^ 2048"
  shows "\<exists>bl. BytesToBloom (big_Bytes n) = Some bl \<and> length bl = 256 \<and> bloom_Big bl = n"
proof -
  have "(2 :: nat) ^ 2048 = 256 ^ 256" by (simp add: power_mult [of 2 8 256, symmetric, simplified])
  moreover have "nat n < 2 ^ 2048" using assms by (simp add: nat_less_iff)
  ultimately have "nat \<bar>n\<bar> < 256 ^ 256" using assms(1) by (simp only: abs_of_nonneg)
  then have "length (big_Bytes n) \<le> 256" unfolding big_Bytes_def by (rule length_nat_bytes)
  then show ?thesis using assms(1) by (simp add: BytesToBloom_def BloomByteLength_def bloom_Big_def)
qed

lemma CreateBloom_total:
  "\<exists>bl. CreateBloom kec rs = Some bl \<and> length bl = 256
     \<and> bloom_Big bl = foldl (\<lambda>bin r. bin OR LogsBloom kec (rc_Logs r)) 0 rs"
proof -
  have "\<forall>r \<in> set rs. 0 \<le> LogsBloom kec (rc_Logs r) \<and> LogsBloom kec (rc_Logs r) < 2 ^ 2048"
    using LogsBloom_bounds by blast
  note b = fold_or_bounds [OF this, where a = 0, simplified zero_less_power [of 2 2048] order.refl]
  show ?thesis unfolding CreateBloom_def
    by (rule BytesToBloom_ok) (use b in blast)+
qed

text \<open>C16: The bloom filter of any receipts exists, has 256 bytes, and never misses: every address and every topic of
  every log passes the test. \<open>TestBytes\<close> however tests its argument without its leading zero bytes, so that it asks for
  another key when there are any.\<close>

theorem bloom_never_misses:
  "\<exists>bl. CreateBloom kec rs = Some bl \<and> length bl = 256
    \<and> (\<forall>r \<in> set rs. \<forall>l \<in> set (rc_Logs r). BloomLookup kec bl (address_bytes (l_Address l))
         \<and> (\<forall>t \<in> set (l_Topics l). BloomLookup kec bl (hash_bytes t)))
    \<and> (\<forall>x. bloom_TestBytes kec bl x = BloomLookup kec bl (dropWhile (\<lambda>b. b = 0) x))"
proof -
  obtain bl where bl: "CreateBloom kec rs = Some bl" "length bl = 256"
    "bloom_Big bl = foldl (\<lambda>bin r. bin OR LogsBloom kec (rc_Logs r)) 0 rs" using CreateBloom_total by blast
  have "BloomLookup kec bl k" if "r \<in> set rs" "l \<in> set (rc_Logs r)" "k \<in> set (log_keys l)" for r l k
  proof -
    have "holds_bits (bloom_Big bl) (LogsBloom kec (rc_Logs r))" unfolding bl(3) using that(1) by (rule fold_or_holds)
    moreover have "holds_bits (LogsBloom kec (rc_Logs r)) (bloom9 kec k)" unfolding LogsBloom_def logs_bloom_fold
      using that by (intro fold_or_holds) auto
    ultimately show ?thesis using holds_bits_trans holds_bits_and by (simp add: BloomLookup_def)
  qed
  then have "\<forall>r \<in> set rs. \<forall>l \<in> set (rc_Logs r). BloomLookup kec bl (address_bytes (l_Address l))
         \<and> (\<forall>t \<in> set (l_Topics l). BloomLookup kec bl (hash_bytes t))"
    by (simp add: log_keys_def)
  then show ?thesis using bl(1,2)
    by (intro exI [of _ bl]) (simp add: bloom_TestBytes_def bloom_Test_def big_Bytes_SetBytes)
qed

section \<open>Storing and deriving\<close>

lemma all_some_map: "(\<forall>x \<in> set xs. f x = Some (g x)) \<Longrightarrow> all_some (map f xs) = Some (map g xs)"
  by (induction xs) auto

definition stored_log :: "log \<Rightarrow> log" where
  "stored_log l = log_of_rlp \<lparr>rl_Address = l_Address l, rl_Topics = l_Topics l, rl_Data = l_Data l\<rparr>"

lemma log_storage_back:
  "receipt_codec_ok rc \<Longrightarrow> LogForStorage_DecodeRLP rc (LogForStorage_EncodeRLP rc l) = Some (stored_log l)"
  by (simp add: receipt_codec_ok_def LogForStorage_DecodeRLP_def LogForStorage_EncodeRLP_def stored_log_def)

lemma logs_storage_back:
  assumes "receipt_codec_ok rc"
  shows "all_some (map (LogForStorage_DecodeRLP rc) (map (LogForStorage_EncodeRLP rc) ls)) = Some (map stored_log ls)"
  unfolding map_map using all_some_map [of ls "LogForStorage_DecodeRLP rc \<circ> LogForStorage_EncodeRLP rc" stored_log]
  by (simp add: log_storage_back [OF assms])

text \<open>A status of one of the two values, or the root of a state, survives.\<close>

definition status_ok :: "receipt \<Rightarrow> bool" where
  "status_ok r \<longleftrightarrow> (PostState r = [] \<and> rc_Status r \<le> 1) \<or> (length (PostState r) = 32 \<and> rc_Status r = 0)"

lemma u64_le_1: "(w :: u64) \<le> 1 \<longleftrightarrow> w = 0 \<or> w = 1"
  by (auto simp: word_le_nat_alt le_Suc_eq unat_eq_0) (metis One_nat_def unat_1 word_unat_eq_iff)

lemma setStatus_back:
  assumes "status_ok r"
  shows "setStatus (statusEncoding r) zero_receipt = Some (zero_receipt\<lparr>PostState := PostState r, rc_Status := rc_Status r\<rparr>)"
  using assms
  by (auto simp: status_ok_def u64_le_1 setStatus_def statusEncoding_def zero_receipt_def ReceiptStatusFailed_def
      ReceiptStatusSuccessful_def receiptStatusFailedRLP_def receiptStatusSuccessfulRLP_def)

definition stored_receipt :: "(bytes \<Rightarrow> hash) \<Rightarrow> receipt \<Rightarrow> receipt" where
  "stored_receipt kec r = zero_receipt\<lparr>PostState := PostState r, rc_Status := rc_Status r, CumulativeGasUsed := CumulativeGasUsed r,
     rc_Logs := map stored_log (rc_Logs r), rc_Bloom := the (CreateBloom kec [r])\<rparr>"

lemma LogsBloom_stored: "LogsBloom kec (map stored_log ls) = LogsBloom kec ls"
proof -
  have "map log_keys (map stored_log ls) = map log_keys ls" by (simp add: log_keys_def stored_log_def log_of_rlp_def)
  then show ?thesis unfolding LogsBloom_def logs_bloom_fold by (simp only:)
qed

lemma receipt_storage_back:
  assumes "receipt_codec_ok rc" "status_ok r"
  shows "ReceiptForStorage_DecodeRLP kec rc (ReceiptForStorage_EncodeRLP rc r) = Some (stored_receipt kec r)"
proof -
  let ?r1 = "zero_receipt\<lparr>PostState := PostState r, rc_Status := rc_Status r, CumulativeGasUsed := CumulativeGasUsed r,
     rc_Logs := map stored_log (rc_Logs r)\<rparr>"
  have "CreateBloom kec [?r1] = CreateBloom kec [r]" by (simp add: CreateBloom_def LogsBloom_stored)
  moreover obtain bl where "CreateBloom kec [r] = Some bl" using CreateBloom_total by blast
  ultimately show ?thesis using assms(1)
    by (simp add: ReceiptForStorage_DecodeRLP_def ReceiptForStorage_EncodeRLP_def decodeStoredReceiptRLP_def
        receipt_codec_ok_def logs_storage_back [OF assms(1), unfolded map_map] setStatus_back [OF assms(2)]
        stored_receipt_def)
qed

text \<open>Deriving depends on what is stored only, except for the contract address of a transaction that creates none.\<close>

lemma derive_logs_stored:
  "\<forall>l \<in> set ls. \<not> l_Removed l \<Longrightarrow> derive_logs h n txh i k (map stored_log ls) = derive_logs h n txh i k ls"
  by (induction ls arbitrary: k) (simp_all add: stored_log_def log_of_rlp_def)

lemma length_derive_logs [simp]: "length (derive_logs h n txh i k ls) = length ls"
  by (induction ls arbitrary: k) simp_all

lemma derive_logs_keys [simp]: "map log_keys (derive_logs h n txh i k ls) = map log_keys ls"
  by (induction ls arbitrary: k) (simp_all add: log_keys_def)

lemma derive_logs_again [simp]: "derive_logs h n txh i k (map stored_log (derive_logs h n txh i k ls))
    = derive_logs h n txh i k (map stored_log ls)"
  by (induction ls arbitrary: k) (simp_all add: stored_log_def log_of_rlp_def)

definition receipt_ok :: "(bytes \<Rightarrow> hash) \<Rightarrow> receipt \<Rightarrow> bool" where
  "receipt_ok kec r \<longleftrightarrow> status_ok r \<and> CreateBloom kec [r] = Some (rc_Bloom r) \<and> ContractAddress r = 0
     \<and> (\<forall>l \<in> set (rc_Logs r). \<not> l_Removed l)"

lemma derive_loop_stored:
  assumes "\<forall>r \<in> set rs. receipt_ok kec r"
  shows "derive_loop de h n i p k (map (stored_receipt kec) rs) txs = derive_loop de h n i p k rs txs"
  using assms
proof (induction rs arbitrary: txs i p k)
  case (Cons r rs)
  show ?case
  proof (cases txs)
    case (Cons tx ts)
    have r: "CreateBloom kec [r] = Some (rc_Bloom r)" "ContractAddress r = 0" "\<forall>l \<in> set (rc_Logs r). \<not> l_Removed l"
      using Cons.prems by (simp_all add: receipt_ok_def)
    then show ?thesis using Cons Cons.IH Cons.prems
      by (simp add: stored_receipt_def zero_receipt_def derive_logs_stored)
  qed simp
qed simp

end
