(* ===== verification/Raw_DB.thy ===== *)
theory Raw_DB
  imports Receipts Memory_DB "HOL-Library.Monad_Syntax"
begin

text \<open>
  The chain data in the key-value store: \<open>core/rawdb/schema.go\<close>, \<open>accessors_chain.go\<close>, \<open>accessors_indexes.go\<close> and
  \<open>accessors_metadata.go\<close>.

  The accessors write to an \<open>ethdb.Writer\<close>, a database or a batch: the record \<open>writer\<close>, with the instances
  \<open>db_writer\<close> and \<open>batch_writer\<close> on the memory database. \<open>log.Crit\<close> ends the process, the value \<^const>\<open>None\<close>. A reader
  ignores the error of \<open>Get\<close> and goes on with no data. RLP and JSON are parameters.
\<close>

section \<open>Keys\<close>

definition ascii :: "string \<Rightarrow> bytes" where
  "ascii s = map of_char s"

definition databaseVerisionKey :: bytes where "databaseVerisionKey = ascii ''DatabaseVersion''"
definition headHeaderKey :: bytes where "headHeaderKey = ascii ''LastHeader''"
definition headBlockKey :: bytes where "headBlockKey = ascii ''LastBlock''"
definition headFastBlockKey :: bytes where "headFastBlockKey = ascii ''LastFast''"
definition fastTrieProgressKey :: bytes where "fastTrieProgressKey = ascii ''TrieSync''"
definition headerPrefix :: bytes where "headerPrefix = ascii ''h''"
definition headerTDSuffix :: bytes where "headerTDSuffix = ascii ''t''"
definition headerHashSuffix :: bytes where "headerHashSuffix = ascii ''n''"
definition headerNumberPrefix :: bytes where "headerNumberPrefix = ascii ''H''"
definition blockBodyPrefix :: bytes where "blockBodyPrefix = ascii ''b''"
definition blockReceiptsPrefix :: bytes where "blockReceiptsPrefix = ascii ''r''"
definition txLookupPrefix :: bytes where "txLookupPrefix = ascii ''l''"
definition bloomBitsPrefix :: bytes where "bloomBitsPrefix = ascii ''B''"
definition preimagePrefix :: bytes where "preimagePrefix = ascii ''secure-key-''"
definition configPrefix :: bytes where "configPrefix = ascii ''ethereum-config-''"

lemmas key_constants = databaseVerisionKey_def headHeaderKey_def headBlockKey_def headFastBlockKey_def fastTrieProgressKey_def
  headerPrefix_def headerTDSuffix_def headerHashSuffix_def headerNumberPrefix_def blockBodyPrefix_def blockReceiptsPrefix_def
  txLookupPrefix_def bloomBitsPrefix_def preimagePrefix_def configPrefix_def ascii_def

definition encodeBlockNumber :: "u64 \<Rightarrow> bytes" where
  "encodeBlockNumber number = map (\<lambda>k. ucast (drop_bit (8 * k) number)) (rev [0..<8])"

definition headerKeyPrefix :: "u64 \<Rightarrow> bytes" where
  "headerKeyPrefix number = headerPrefix @ encodeBlockNumber number"

definition headerKey :: "u64 \<Rightarrow> hash \<Rightarrow> bytes" where
  "headerKey number h = headerPrefix @ encodeBlockNumber number @ hash_bytes h"

definition headerTDKey :: "u64 \<Rightarrow> hash \<Rightarrow> bytes" where
  "headerTDKey number h = headerKey number h @ headerTDSuffix"

definition headerHashKey :: "u64 \<Rightarrow> bytes" where
  "headerHashKey number = headerPrefix @ encodeBlockNumber number @ headerHashSuffix"

definition headerNumberKey :: "hash \<Rightarrow> bytes" where
  "headerNumberKey h = headerNumberPrefix @ hash_bytes h"

definition blockBodyKey :: "u64 \<Rightarrow> hash \<Rightarrow> bytes" where
  "blockBodyKey number h = blockBodyPrefix @ encodeBlockNumber number @ hash_bytes h"

definition blockReceiptsKey :: "u64 \<Rightarrow> hash \<Rightarrow> bytes" where
  "blockReceiptsKey number h = blockReceiptsPrefix @ encodeBlockNumber number @ hash_bytes h"

definition txLookupKey :: "hash \<Rightarrow> bytes" where
  "txLookupKey h = txLookupPrefix @ hash_bytes h"

definition bloomBitsKey :: "u64 \<Rightarrow> u64 \<Rightarrow> hash \<Rightarrow> bytes" where
  "bloomBitsKey b section' h =
     bloomBitsPrefix @ map (\<lambda>k. ucast (drop_bit (8 * k) b)) (rev [0..<2]) @ encodeBlockNumber section' @ hash_bytes h"

definition preimageKey :: "hash \<Rightarrow> bytes" where
  "preimageKey h = preimagePrefix @ hash_bytes h"

definition configKey :: "hash \<Rightarrow> bytes" where
  "configKey h = configPrefix @ hash_bytes h"

section \<open>Readers and writers\<close>

record 'w writer =
  w_Put :: "'w \<Rightarrow> bytes \<Rightarrow> bytes \<Rightarrow> Memory_DB.db_error + 'w"
  w_Delete :: "'w \<Rightarrow> bytes \<Rightarrow> Memory_DB.db_error + 'w"

definition db_writer :: "memdb writer" where
  "db_writer = \<lparr>w_Put = memdb_Put, w_Delete = memdb_Delete\<rparr>"

definition batch_writer :: "batch writer" where
  "batch_writer = \<lparr>w_Put = (\<lambda>b k v. Inr (batch_Put b k v)), w_Delete = (\<lambda>b k. Inr (batch_Delete b k))\<rparr>"

definition log_Crit :: "'e + 'a \<Rightarrow> 'a option" where
  "log_Crit r = (case r of Inl _ \<Rightarrow> None | Inr x \<Rightarrow> Some x)"

definition db_data :: "memdb \<Rightarrow> bytes \<Rightarrow> bytes" where
  "db_data db k = (case memdb_Get db k of Inl _ \<Rightarrow> [] | Inr v \<Rightarrow> v)"

definition db_has :: "memdb \<Rightarrow> bytes \<Rightarrow> bool" where
  "db_has db k = (case memdb_Has db k of Inl _ \<Rightarrow> False | Inr b \<Rightarrow> b)"

record body =
  bd_Transactions :: "transaction list"
  bd_Uncles :: "header list"

text \<open>The libraries. An encoder fails on a negative number. \<open>dec_entry\<close> is the block hash of a legacy lookup entry.\<close>

record chain_codec =
  cc_crypto :: crypto
  enc_header :: "header \<Rightarrow> bytes option"
  dec_header :: "bytes \<Rightarrow> header option"
  enc_body :: "body \<Rightarrow> bytes option"
  dec_body :: "bytes \<Rightarrow> body option"
  enc_td :: "bigint \<Rightarrow> bytes option"
  dec_td :: "bytes \<Rightarrow> bigint option"
  enc_u64 :: "u64 \<Rightarrow> bytes"
  dec_u64 :: "bytes \<Rightarrow> u64 option"
  cc_receipts :: receipt_codec
  cc_derive :: derive_env
  dec_entry :: "bytes \<Rightarrow> hash option"

section \<open>Canonical hashes and heads\<close>

definition read_hash :: "memdb \<Rightarrow> bytes \<Rightarrow> hash" where
  "read_hash db k = (let data = db_data db k in if length data = 0 then 0 else BytesToHash data)"

definition ReadCanonicalHash :: "memdb \<Rightarrow> u64 \<Rightarrow> hash" where
  "ReadCanonicalHash db number = read_hash db (headerHashKey number)"

definition WriteCanonicalHash :: "'w writer \<Rightarrow> 'w \<Rightarrow> hash \<Rightarrow> u64 \<Rightarrow> 'w option" where
  "WriteCanonicalHash W db h number = log_Crit (w_Put W db (headerHashKey number) (hash_bytes h))"

definition DeleteCanonicalHash :: "'w writer \<Rightarrow> 'w \<Rightarrow> u64 \<Rightarrow> 'w option" where
  "DeleteCanonicalHash W db number = log_Crit (w_Delete W db (headerHashKey number))"

definition ReadHeaderNumber :: "memdb \<Rightarrow> hash \<Rightarrow> u64 option" where
  "ReadHeaderNumber db h =
     (let data = db_data db (headerNumberKey h) in if length data \<noteq> 8 then None else Some (BlockNonce_Uint64 data))"

definition ReadHeadHeaderHash :: "memdb \<Rightarrow> hash" where "ReadHeadHeaderHash db = read_hash db headHeaderKey"

definition WriteHeadHeaderHash :: "'w writer \<Rightarrow> 'w \<Rightarrow> hash \<Rightarrow> 'w option" where
  "WriteHeadHeaderHash W db h = log_Crit (w_Put W db headHeaderKey (hash_bytes h))"

definition ReadHeadBlockHash :: "memdb \<Rightarrow> hash" where "ReadHeadBlockHash db = read_hash db headBlockKey"

definition WriteHeadBlockHash :: "'w writer \<Rightarrow> 'w \<Rightarrow> hash \<Rightarrow> 'w option" where
  "WriteHeadBlockHash W db h = log_Crit (w_Put W db headBlockKey (hash_bytes h))"

definition ReadHeadFastBlockHash :: "memdb \<Rightarrow> hash" where "ReadHeadFastBlockHash db = read_hash db headFastBlockKey"

definition WriteHeadFastBlockHash :: "'w writer \<Rightarrow> 'w \<Rightarrow> hash \<Rightarrow> 'w option" where
  "WriteHeadFastBlockHash W db h = log_Crit (w_Put W db headFastBlockKey (hash_bytes h))"

definition ReadFastTrieProgress :: "memdb \<Rightarrow> u64" where
  "ReadFastTrieProgress db =
     (let data = db_data db fastTrieProgressKey in if length data = 0 then 0 else word_of_int (big_SetBytes data))"

definition WriteFastTrieProgress :: "'w writer \<Rightarrow> 'w \<Rightarrow> u64 \<Rightarrow> 'w option" where
  "WriteFastTrieProgress W db n = log_Crit (w_Put W db fastTrieProgressKey (big_Bytes (uint n)))"

section \<open>Headers\<close>

definition ReadHeaderRLP :: "memdb \<Rightarrow> hash \<Rightarrow> u64 \<Rightarrow> bytes" where
  "ReadHeaderRLP db h number = db_data db (headerKey number h)"

definition rawdb_HasHeader :: "memdb \<Rightarrow> hash \<Rightarrow> u64 \<Rightarrow> bool" where
  "rawdb_HasHeader db h number = db_has db (headerKey number h)"

definition ReadHeader :: "chain_codec \<Rightarrow> memdb \<Rightarrow> hash \<Rightarrow> u64 \<Rightarrow> header option" where
  "ReadHeader cc db h number =
     (let data = ReadHeaderRLP db h number in if length data = 0 then None else dec_header cc data)"

text \<open>A header without a number is a nil pointer.\<close>

definition WriteHeader :: "chain_codec \<Rightarrow> 'w writer \<Rightarrow> 'w \<Rightarrow> header \<Rightarrow> 'w option" where
  "WriteHeader cc W db hdr =
     do { number \<leftarrow> Uint64 (Number hdr);
          db \<leftarrow> log_Crit (w_Put W db (headerNumberKey (header_Hash (cc_crypto cc) hdr)) (encodeBlockNumber number));
          data \<leftarrow> enc_header cc hdr;
          log_Crit (w_Put W db (headerKey number (header_Hash (cc_crypto cc) hdr)) data) }"

definition deleteHeaderWithoutNumber :: "'w writer \<Rightarrow> 'w \<Rightarrow> hash \<Rightarrow> u64 \<Rightarrow> 'w option" where
  "deleteHeaderWithoutNumber W db h number = log_Crit (w_Delete W db (headerKey number h))"

definition DeleteHeader :: "'w writer \<Rightarrow> 'w \<Rightarrow> hash \<Rightarrow> u64 \<Rightarrow> 'w option" where
  "DeleteHeader W db h number =
     do { db \<leftarrow> deleteHeaderWithoutNumber W db h number; log_Crit (w_Delete W db (headerNumberKey h)) }"

section \<open>Bodies, difficulties and receipts\<close>

definition ReadBodyRLP :: "memdb \<Rightarrow> hash \<Rightarrow> u64 \<Rightarrow> bytes" where
  "ReadBodyRLP db h number = db_data db (blockBodyKey number h)"

definition WriteBodyRLP :: "'w writer \<Rightarrow> 'w \<Rightarrow> hash \<Rightarrow> u64 \<Rightarrow> bytes \<Rightarrow> 'w option" where
  "WriteBodyRLP W db h number rlp = log_Crit (w_Put W db (blockBodyKey number h) rlp)"

definition HasBody :: "memdb \<Rightarrow> hash \<Rightarrow> u64 \<Rightarrow> bool" where
  "HasBody db h number = db_has db (blockBodyKey number h)"

definition ReadBody :: "chain_codec \<Rightarrow> memdb \<Rightarrow> hash \<Rightarrow> u64 \<Rightarrow> body option" where
  "ReadBody cc db h number = (let data = ReadBodyRLP db h number in if length data = 0 then None else dec_body cc data)"

definition WriteBody :: "chain_codec \<Rightarrow> 'w writer \<Rightarrow> 'w \<Rightarrow> hash \<Rightarrow> u64 \<Rightarrow> body \<Rightarrow> 'w option" where
  "WriteBody cc W db h number b = do { data \<leftarrow> enc_body cc b; WriteBodyRLP W db h number data }"

definition DeleteBody :: "'w writer \<Rightarrow> 'w \<Rightarrow> hash \<Rightarrow> u64 \<Rightarrow> 'w option" where
  "DeleteBody W db h number = log_Crit (w_Delete W db (blockBodyKey number h))"

definition ReadTdRLP :: "memdb \<Rightarrow> hash \<Rightarrow> u64 \<Rightarrow> bytes" where
  "ReadTdRLP db h number = db_data db (headerTDKey number h)"

definition ReadTd :: "chain_codec \<Rightarrow> memdb \<Rightarrow> hash \<Rightarrow> u64 \<Rightarrow> bigint option" where
  "ReadTd cc db h number = (let data = ReadTdRLP db h number in if length data = 0 then None else dec_td cc data)"

definition WriteTd :: "chain_codec \<Rightarrow> 'w writer \<Rightarrow> 'w \<Rightarrow> hash \<Rightarrow> u64 \<Rightarrow> bigint \<Rightarrow> 'w option" where
  "WriteTd cc W db h number d = do { data \<leftarrow> enc_td cc d; log_Crit (w_Put W db (headerTDKey number h) data) }"

definition DeleteTd :: "'w writer \<Rightarrow> 'w \<Rightarrow> hash \<Rightarrow> u64 \<Rightarrow> 'w option" where
  "DeleteTd W db h number = log_Crit (w_Delete W db (headerTDKey number h))"

definition rawdb_HasReceipts :: "memdb \<Rightarrow> hash \<Rightarrow> u64 \<Rightarrow> bool" where
  "rawdb_HasReceipts db h number = db_has db (blockReceiptsKey number h)"

definition ReadReceiptsRLP :: "memdb \<Rightarrow> hash \<Rightarrow> u64 \<Rightarrow> bytes" where
  "ReadReceiptsRLP db h number = db_data db (blockReceiptsKey number h)"

text \<open>\<^const>\<open>None\<close> is the nil list.\<close>

definition ReadRawReceipts :: "chain_codec \<Rightarrow> memdb \<Rightarrow> hash \<Rightarrow> u64 \<Rightarrow> receipt list option" where
  "ReadRawReceipts cc db h number =
     (let data = ReadReceiptsRLP db h number in
      if length data = 0 then None
      else case dec_list (cc_receipts cc) data of
             None \<Rightarrow> None
           | Some blobs \<Rightarrow> all_some (map (ReceiptForStorage_DecodeRLP (keccak256 (cc_crypto cc)) (cc_receipts cc)) blobs))"

definition ReadReceipts :: "chain_codec \<Rightarrow> memdb \<Rightarrow> hash \<Rightarrow> u64 \<Rightarrow> receipt list option" where
  "ReadReceipts cc db h number =
     (case ReadRawReceipts cc db h number of
        None \<Rightarrow> None
      | Some rs \<Rightarrow>
          (case ReadBody cc db h number of
             None \<Rightarrow> None
           | Some b \<Rightarrow> DeriveFields (cc_derive cc) h number (bd_Transactions b) rs))"

definition WriteReceipts :: "chain_codec \<Rightarrow> 'w writer \<Rightarrow> 'w \<Rightarrow> hash \<Rightarrow> u64 \<Rightarrow> receipt list \<Rightarrow> 'w option" where
  "WriteReceipts cc W db h number rs =
     log_Crit (w_Put W db (blockReceiptsKey number h)
       (enc_list (cc_receipts cc) (map (ReceiptForStorage_EncodeRLP (cc_receipts cc)) rs)))"

definition DeleteReceipts :: "'w writer \<Rightarrow> 'w \<Rightarrow> hash \<Rightarrow> u64 \<Rightarrow> 'w option" where
  "DeleteReceipts W db h number = log_Crit (w_Delete W db (blockReceiptsKey number h))"

section \<open>Blocks\<close>

definition block_hash :: "chain_codec \<Rightarrow> block \<Rightarrow> hash" where
  "block_hash cc b = header_Hash (cc_crypto cc) (bheader b)"

definition block_Body :: "block \<Rightarrow> body" where
  "block_Body b = \<lparr>bd_Transactions = transactions b, bd_Uncles = uncles b\<rparr>"

definition ReadBlock :: "chain_codec \<Rightarrow> memdb \<Rightarrow> hash \<Rightarrow> u64 \<Rightarrow> block option" where
  "ReadBlock cc db h number =
     (case ReadHeader cc db h number of
        None \<Rightarrow> None
      | Some hdr \<Rightarrow>
          (case ReadBody cc db h number of
             None \<Rightarrow> None
           | Some b \<Rightarrow> Some (WithBody (NewBlockWithHeader hdr) (bd_Transactions b) (bd_Uncles b))))"

definition WriteBlock :: "chain_codec \<Rightarrow> 'w writer \<Rightarrow> 'w \<Rightarrow> block \<Rightarrow> 'w option" where
  "WriteBlock cc W db b =
     do { number \<leftarrow> Uint64 (Number (bheader b));
          db \<leftarrow> WriteBody cc W db (block_hash cc b) number (block_Body b);
          WriteHeader cc W db (block_Header b) }"

definition DeleteBlock :: "'w writer \<Rightarrow> 'w \<Rightarrow> hash \<Rightarrow> u64 \<Rightarrow> 'w option" where
  "DeleteBlock W db h number =
     do { db \<leftarrow> DeleteReceipts W db h number; db \<leftarrow> DeleteHeader W db h number; db \<leftarrow> DeleteBody W db h number;
          DeleteTd W db h number }"

definition deleteBlockWithoutNumber :: "'w writer \<Rightarrow> 'w \<Rightarrow> hash \<Rightarrow> u64 \<Rightarrow> 'w option" where
  "deleteBlockWithoutNumber W db h number =
     do { db \<leftarrow> DeleteReceipts W db h number; db \<leftarrow> deleteHeaderWithoutNumber W db h number;
          db \<leftarrow> DeleteBody W db h number; DeleteTd W db h number }"

text \<open>The loops of \<open>FindCommonAncestor\<close>: \<open>Some None\<close> is the nil result, \<^const>\<open>None\<close> a nil pointer or a loop without end.\<close>

definition parent_header :: "chain_codec \<Rightarrow> memdb \<Rightarrow> header \<Rightarrow> header option option" where
  "parent_header cc db a = map_option (\<lambda>n. ReadHeader cc db (ParentHash a) (n - 1)) (Uint64 (Number a))"

partial_function (option) descend_to :: "chain_codec \<Rightarrow> memdb \<Rightarrow> u64 \<Rightarrow> header \<Rightarrow> header option option" where
  "descend_to cc db bn a =
     (case Uint64 (Number a) of
        None \<Rightarrow> None
      | Some an \<Rightarrow>
          if an > bn then
            (case ReadHeader cc db (ParentHash a) (an - 1) of None \<Rightarrow> Some None | Some a' \<Rightarrow> descend_to cc db bn a')
          else Some (Some a))"

partial_function (option) meet :: "chain_codec \<Rightarrow> memdb \<Rightarrow> header \<Rightarrow> header \<Rightarrow> header option option" where
  "meet cc db a b =
     (if header_Hash (cc_crypto cc) a = header_Hash (cc_crypto cc) b then Some (Some a)
      else case parent_header cc db a of
             None \<Rightarrow> None
           | Some None \<Rightarrow> Some None
           | Some (Some a') \<Rightarrow>
               (case parent_header cc db b of
                  None \<Rightarrow> None
                | Some None \<Rightarrow> Some None
                | Some (Some b') \<Rightarrow> meet cc db a' b'))"

definition FindCommonAncestor :: "chain_codec \<Rightarrow> memdb \<Rightarrow> header \<Rightarrow> header \<Rightarrow> header option option" where
  "FindCommonAncestor cc db a b =
     do { bn \<leftarrow> Uint64 (Number b);
          ra \<leftarrow> descend_to cc db bn a;
          case ra of
            None \<Rightarrow> Some None
          | Some a \<Rightarrow>
              do { an \<leftarrow> Uint64 (Number a);
                   rb \<leftarrow> descend_to cc db an b;
                   case rb of None \<Rightarrow> Some None | Some b \<Rightarrow> meet cc db a b } }"

section \<open>Indexes and metadata\<close>

definition ReadTxLookupEntry :: "chain_codec \<Rightarrow> memdb \<Rightarrow> hash \<Rightarrow> hash" where
  "ReadTxLookupEntry cc db h =
     (let data = db_data db (txLookupKey h) in
      if length data = 0 then 0
      else if length data = 32 then BytesToHash data
      else case dec_entry cc data of None \<Rightarrow> 0 | Some bh \<Rightarrow> bh)"

fun WriteTxLookup_loop :: "chain_codec \<Rightarrow> 'w writer \<Rightarrow> hash \<Rightarrow> transaction list \<Rightarrow> 'w \<Rightarrow> 'w option" where
  "WriteTxLookup_loop cc W bh [] db = Some db"
| "WriteTxLookup_loop cc W bh (tx # txs) db =
     do { db \<leftarrow> log_Crit (w_Put W db (txLookupKey (de_txhash (cc_derive cc) tx)) (hash_bytes bh));
          WriteTxLookup_loop cc W bh txs db }"

definition WriteTxLookupEntries :: "chain_codec \<Rightarrow> 'w writer \<Rightarrow> 'w \<Rightarrow> block \<Rightarrow> 'w option" where
  "WriteTxLookupEntries cc W db b = WriteTxLookup_loop cc W (block_hash cc b) (transactions b) db"

text \<open>The error of the deletion is ignored.\<close>

definition DeleteTxLookupEntry :: "'w writer \<Rightarrow> 'w \<Rightarrow> hash \<Rightarrow> 'w" where
  "DeleteTxLookupEntry W db h = (case w_Delete W db (txLookupKey h) of Inl _ \<Rightarrow> db | Inr db' \<Rightarrow> db')"

fun find_index :: "('a \<Rightarrow> bool) \<Rightarrow> nat \<Rightarrow> 'a list \<Rightarrow> ('a \<times> nat) option" where
  "find_index p i [] = None"
| "find_index p i (x # xs) = (if p x then Some (x, i) else find_index p (i + 1) xs)"

definition ReadTransaction :: "chain_codec \<Rightarrow> memdb \<Rightarrow> hash \<Rightarrow> txptr \<times> hash \<times> u64 \<times> u64" where
  "ReadTransaction cc db h =
     (let bh = ReadTxLookupEntry cc db h in
      if bh = 0 then (None, 0, 0, 0)
      else case ReadHeaderNumber db bh of
             None \<Rightarrow> (None, 0, 0, 0)
           | Some number \<Rightarrow>
               (case ReadBody cc db bh number of
                  None \<Rightarrow> (None, 0, 0, 0)
                | Some b \<Rightarrow>
                    (case find_index (\<lambda>tx. de_txhash (cc_derive cc) tx = h) 0 (bd_Transactions b) of
                       None \<Rightarrow> (None, 0, 0, 0)
                     | Some (tx, i) \<Rightarrow> (Some tx, bh, number, of_nat i))))"

definition ReadReceipt :: "chain_codec \<Rightarrow> memdb \<Rightarrow> hash \<Rightarrow> receipt option \<times> hash \<times> u64 \<times> u64" where
  "ReadReceipt cc db h =
     (let bh = ReadTxLookupEntry cc db h in
      if bh = 0 then (None, 0, 0, 0)
      else case ReadHeaderNumber db bh of
             None \<Rightarrow> (None, 0, 0, 0)
           | Some number \<Rightarrow>
               (let rs = (case ReadReceipts cc db bh number of None \<Rightarrow> [] | Some rs \<Rightarrow> rs) in
                case find_index (\<lambda>r. rc_TxHash r = h) 0 rs of
                  None \<Rightarrow> (None, 0, 0, 0)
                | Some (r, i) \<Rightarrow> (Some r, bh, number, of_nat i)))"

definition ReadBloomBits :: "memdb \<Rightarrow> u64 \<Rightarrow> u64 \<Rightarrow> hash \<Rightarrow> Memory_DB.db_error + bytes" where
  "ReadBloomBits db b section' h = memdb_Get db (bloomBitsKey b section' h)"

definition WriteBloomBits :: "'w writer \<Rightarrow> 'w \<Rightarrow> u64 \<Rightarrow> u64 \<Rightarrow> hash \<Rightarrow> bytes \<Rightarrow> 'w option" where
  "WriteBloomBits W db b section' h bits = log_Crit (w_Put W db (bloomBitsKey b section' h) bits)"

definition ReadDatabaseVersion :: "chain_codec \<Rightarrow> memdb \<Rightarrow> u64 option" where
  "ReadDatabaseVersion cc db =
     (let e = db_data db databaseVerisionKey in if length e = 0 then None else dec_u64 cc e)"

definition WriteDatabaseVersion :: "chain_codec \<Rightarrow> 'w writer \<Rightarrow> 'w \<Rightarrow> u64 \<Rightarrow> 'w option" where
  "WriteDatabaseVersion cc W db v = log_Crit (w_Put W db databaseVerisionKey (enc_u64 cc v))"

definition ReadChainConfig :: "(bytes \<Rightarrow> 'g option) \<Rightarrow> memdb \<Rightarrow> hash \<Rightarrow> 'g option" where
  "ReadChainConfig json_Unmarshal db h =
     (let data = db_data db (configKey h) in if length data = 0 then None else json_Unmarshal data)"

definition WriteChainConfig :: "('g \<Rightarrow> bytes option) \<Rightarrow> 'w writer \<Rightarrow> 'w \<Rightarrow> hash \<Rightarrow> 'g option \<Rightarrow> 'w option" where
  "WriteChainConfig json_Marshal W db h cfg =
     (case cfg of
        None \<Rightarrow> Some db
      | Some c \<Rightarrow> do { data \<leftarrow> json_Marshal c; log_Crit (w_Put W db (configKey h) data) })"

definition ReadPreimage :: "memdb \<Rightarrow> hash \<Rightarrow> bytes" where
  "ReadPreimage db h = db_data db (preimageKey h)"

fun WritePreimages_loop :: "'w writer \<Rightarrow> (hash, bytes) gomap \<Rightarrow> hash list \<Rightarrow> 'w \<Rightarrow> 'w option" where
  "WritePreimages_loop W ps [] db = Some db"
| "WritePreimages_loop W ps (h # hs) db =
     do { db \<leftarrow> (case gm_get ps h of None \<Rightarrow> Some db | Some p \<Rightarrow> log_Crit (w_Put W db (preimageKey h) p));
          WritePreimages_loop W ps hs db }"

text \<open>The order of the range is the function \<open>rng\<close>.\<close>

definition WritePreimages :: "'w writer \<Rightarrow> (hash list \<Rightarrow> hash list) \<Rightarrow> 'w \<Rightarrow> (hash, bytes) gomap \<Rightarrow> 'w option" where
  "WritePreimages W rng db ps = WritePreimages_loop W ps (rng (gm_keys ps)) db"

end
