(* ===== verification/Raw_View.thy ===== *)
theory Raw_View
  imports Raw_DB
begin

text \<open>
  What the accessors of \<open>core/rawdb\<close> make of the key-value store: a collection of separate maps.

  The keys of different kinds never collide (\<open>schema_key\<close>, \<open>key_bytes\<close>), with those of the trie nodes and of the
  snapshots of the consensus engine included, which live in the same database. The abstract store is \<open>chain_view\<close>; every
  writer is an update of one or two of its maps. The locale \<open>chain_writer\<close> is the contract of \<open>ethdb.Writer\<close>: the
  database satisfies it, and so does a batch, seen as the database it will give when it is written.
\<close>

section \<open>The keys\<close>

datatype schema_key =
    VersionKey | HeadHeaderKey | HeadBlockKey | HeadFastKey | TrieProgressKey
  | HeaderKey u64 hash | TdKey u64 hash | CanonKey u64 | NumberKey hash | BodyKey u64 hash | ReceiptsKey u64 hash
  | LookupKey hash | BloomKey "16 word" u64 hash | PreimageKey hash | ConfigKey hash | NodeKey hash | CliqueKey hash

fun key_bytes :: "schema_key \<Rightarrow> bytes" where
  "key_bytes VersionKey = databaseVerisionKey"
| "key_bytes HeadHeaderKey = headHeaderKey"
| "key_bytes HeadBlockKey = headBlockKey"
| "key_bytes HeadFastKey = headFastBlockKey"
| "key_bytes TrieProgressKey = fastTrieProgressKey"
| "key_bytes (HeaderKey n h) = headerKey n h"
| "key_bytes (TdKey n h) = headerTDKey n h"
| "key_bytes (CanonKey n) = headerHashKey n"
| "key_bytes (NumberKey h) = headerNumberKey h"
| "key_bytes (BodyKey n h) = blockBodyKey n h"
| "key_bytes (ReceiptsKey n h) = blockReceiptsKey n h"
| "key_bytes (LookupKey h) = txLookupKey h"
| "key_bytes (BloomKey b s h) = bloomBitsKey (ucast b) s h"
| "key_bytes (PreimageKey h) = preimageKey h"
| "key_bytes (ConfigKey h) = configKey h"
| "key_bytes (NodeKey h) = hash_bytes h"
| "key_bytes (CliqueKey h) = ascii ''clique-'' @ hash_bytes h"

lemma length_encodeBlockNumber [simp]: "length (encodeBlockNumber n) = 8"
  by (simp add: encodeBlockNumber_def)

lemma number_decode: "BlockNonce_Uint64 (encodeBlockNumber n) = n"
proof -
  have "take_bit 64 n = n" by transfer simp
  then show ?thesis unfolding BlockNonce_Uint64_def encodeBlockNumber_def fold_be_bytes by simp
qed

lemma encodeBlockNumber_inj [simp]: "encodeBlockNumber n = encodeBlockNumber n' \<longleftrightarrow> n = n'"
  by (metis number_decode)

lemma hash_bytes_inj [simp]: "hash_bytes h = hash_bytes h' \<longleftrightarrow> h = h'"
  by (metis BytesToHash_hash_bytes)

lemma two_bytes_inj:
  "map (\<lambda>k. ucast (drop_bit (8 * k) (ucast (b :: 16 word) :: u64)) :: byte) (rev [0..<2])
     = map (\<lambda>k. ucast (drop_bit (8 * k) (ucast b' :: u64))) (rev [0..<2]) \<longleftrightarrow> b = b'"
  (is "?f b = ?f b' \<longleftrightarrow> _")
proof
  assume e: "?f b = ?f b'"
  have "foldl (\<lambda>acc b. push_bit 8 acc + ucast b) 0 (?f b) = take_bit 16 (ucast b :: u64)" for b
    unfolding fold_be_bytes by simp
  then have "take_bit 16 (ucast b :: u64) = take_bit 16 (ucast b' :: u64)" using e by (metis (no_types))
  then show "b = b'" by transfer simp
qed simp

lemma key_append_inj:
  "length xs = length xs' \<Longrightarrow> xs @ ys = xs' @ ys' \<longleftrightarrow> xs = xs' \<and> ys = ys'"
  by simp

lemma key_heads:
  "\<exists>t. key_bytes k = (case k of VersionKey \<Rightarrow> 68 | HeadHeaderKey \<Rightarrow> 76 | HeadBlockKey \<Rightarrow> 76 | HeadFastKey \<Rightarrow> 76 | TrieProgressKey \<Rightarrow> 84
     | HeaderKey _ _ \<Rightarrow> 104 | TdKey _ _ \<Rightarrow> 104 | CanonKey _ \<Rightarrow> 104 | NumberKey _ \<Rightarrow> 72 | BodyKey _ _ \<Rightarrow> 98 | ReceiptsKey _ _ \<Rightarrow> 114
     | LookupKey _ \<Rightarrow> 108 | BloomKey _ _ _ \<Rightarrow> 66 | PreimageKey _ \<Rightarrow> 115 | ConfigKey _ \<Rightarrow> 101 | NodeKey h \<Rightarrow> hd (hash_bytes h)
     | CliqueKey _ \<Rightarrow> 99) # t
   \<and> length t + 1 = (case k of VersionKey \<Rightarrow> 15 | HeadHeaderKey \<Rightarrow> 10 | HeadBlockKey \<Rightarrow> 9 | HeadFastKey \<Rightarrow> 8 | TrieProgressKey \<Rightarrow> 8
     | HeaderKey _ _ \<Rightarrow> 41 | TdKey _ _ \<Rightarrow> 42 | CanonKey _ \<Rightarrow> 10 | NumberKey _ \<Rightarrow> 33 | BodyKey _ _ \<Rightarrow> 41 | ReceiptsKey _ _ \<Rightarrow> 41
     | LookupKey _ \<Rightarrow> 33 | BloomKey _ _ _ \<Rightarrow> 43 | PreimageKey _ \<Rightarrow> 43 | ConfigKey _ \<Rightarrow> 48 | NodeKey h \<Rightarrow> 32
     | CliqueKey _ \<Rightarrow> 39)"
proof (cases k)
  case (NodeKey h)
  have "hash_bytes h \<noteq> []" using length_hash_bytes [of h] by (metis length_0_conv zero_neq_numeral)
  then show ?thesis using NodeKey by (intro exI [of _ "tl (hash_bytes h)"]) simp
qed (simp_all add: key_constants headerKey_def headerTDKey_def headerHashKey_def headerNumberKey_def blockBodyKey_def
    blockReceiptsKey_def txLookupKey_def bloomBitsKey_def preimageKey_def configKey_def)

text \<open>Two keys of the same kind are equal when their arguments are; of different kinds they differ in length or in the
  first byte.\<close>

lemma key_same_kind:
  "key_bytes k = key_bytes k' \<Longrightarrow>
     (case (k, k') of (HeaderKey n h, HeaderKey n' h') \<Rightarrow> n = n' \<and> h = h' | (TdKey n h, TdKey n' h') \<Rightarrow> n = n' \<and> h = h'
      | (CanonKey n, CanonKey n') \<Rightarrow> n = n' | (NumberKey h, NumberKey h') \<Rightarrow> h = h' | (BodyKey n h, BodyKey n' h') \<Rightarrow> n = n' \<and> h = h'
      | (ReceiptsKey n h, ReceiptsKey n' h') \<Rightarrow> n = n' \<and> h = h' | (LookupKey h, LookupKey h') \<Rightarrow> h = h'
      | (BloomKey b n h, BloomKey b' n' h') \<Rightarrow> b = b' \<and> n = n' \<and> h = h' | (PreimageKey h, PreimageKey h') \<Rightarrow> h = h'
      | (ConfigKey h, ConfigKey h') \<Rightarrow> h = h' | (NodeKey h, NodeKey h') \<Rightarrow> h = h' | (CliqueKey h, CliqueKey h') \<Rightarrow> h = h'
      | _ \<Rightarrow> True)"
  by (auto split: schema_key.split simp: headerKey_def headerTDKey_def headerHashKey_def headerNumberKey_def blockBodyKey_def
    blockReceiptsKey_def txLookupKey_def bloomBitsKey_def preimageKey_def configKey_def key_append_inj two_bytes_inj
    simp del: map_eq_conv)

fun key_kind :: "schema_key \<Rightarrow> nat" where
  "key_kind VersionKey = 0" | "key_kind HeadHeaderKey = 1" | "key_kind HeadBlockKey = 2" | "key_kind HeadFastKey = 3"
| "key_kind TrieProgressKey = 4" | "key_kind (HeaderKey _ _) = 5" | "key_kind (TdKey _ _) = 6" | "key_kind (CanonKey _) = 7"
| "key_kind (NumberKey _) = 8" | "key_kind (BodyKey _ _) = 9" | "key_kind (ReceiptsKey _ _) = 10" | "key_kind (LookupKey _) = 11"
| "key_kind (BloomKey _ _ _) = 12" | "key_kind (PreimageKey _) = 13" | "key_kind (ConfigKey _) = 14" | "key_kind (NodeKey _) = 15"
| "key_kind (CliqueKey _) = 16"

definition kind_of_bytes :: "byte \<Rightarrow> nat \<Rightarrow> nat" where
  "kind_of_bytes c n =
     (if n = 32 then 15 else if c = 68 then 0 else if c = 76 then (if n = 10 then 1 else if n = 9 then 2 else 3)
      else if c = 84 then 4 else if c = 104 then (if n = 41 then 5 else if n = 42 then 6 else 7)
      else if c = 72 then 8 else if c = 98 then 9 else if c = 114 then 10 else if c = 108 then 11 else if c = 66 then 12
      else if c = 115 then 13 else if c = 101 then 14 else 16)"

lemma key_kind_bytes: "kind_of_bytes (hd (key_bytes k)) (length (key_bytes k)) = key_kind k"
proof -
  have k: "kind_of_bytes (case k of VersionKey \<Rightarrow> 68 | HeadHeaderKey \<Rightarrow> 76 | HeadBlockKey \<Rightarrow> 76 | HeadFastKey \<Rightarrow> 76 | TrieProgressKey \<Rightarrow> 84
     | HeaderKey _ _ \<Rightarrow> 104 | TdKey _ _ \<Rightarrow> 104 | CanonKey _ \<Rightarrow> 104 | NumberKey _ \<Rightarrow> 72 | BodyKey _ _ \<Rightarrow> 98 | ReceiptsKey _ _ \<Rightarrow> 114
     | LookupKey _ \<Rightarrow> 108 | BloomKey _ _ _ \<Rightarrow> 66 | PreimageKey _ \<Rightarrow> 115 | ConfigKey _ \<Rightarrow> 101 | NodeKey h \<Rightarrow> hd (hash_bytes h)
     | CliqueKey _ \<Rightarrow> 99) (case k of VersionKey \<Rightarrow> 15 | HeadHeaderKey \<Rightarrow> 10 | HeadBlockKey \<Rightarrow> 9 | HeadFastKey \<Rightarrow> 8 | TrieProgressKey \<Rightarrow> 8
     | HeaderKey _ _ \<Rightarrow> 41 | TdKey _ _ \<Rightarrow> 42 | CanonKey _ \<Rightarrow> 10 | NumberKey _ \<Rightarrow> 33 | BodyKey _ _ \<Rightarrow> 41 | ReceiptsKey _ _ \<Rightarrow> 41
     | LookupKey _ \<Rightarrow> 33 | BloomKey _ _ _ \<Rightarrow> 43 | PreimageKey _ \<Rightarrow> 43 | ConfigKey _ \<Rightarrow> 48 | NodeKey h \<Rightarrow> 32
     | CliqueKey _ \<Rightarrow> 39) = key_kind k"
    by (cases k) (simp_all add: kind_of_bytes_def)
  from key_heads [of k] show ?thesis
    by (elim exE conjE) (simp only: list.sel(1) list.size(4) One_nat_def [symmetric] k)
qed

lemma key_kinds_differ: "key_bytes k = key_bytes k' \<Longrightarrow> key_kind k = key_kind k'"
  by (metis key_kind_bytes)

lemma key_bytes_inj: "key_bytes k = key_bytes k' \<longleftrightarrow> k = k'"
proof
  assume e: "key_bytes k = key_bytes k'"
  show "k = k'" using key_same_kind [OF e] key_kinds_differ [OF e] by (cases k; cases k') simp_all
qed simp

section \<open>The store as maps\<close>

definition db_at :: "memdb \<Rightarrow> schema_key \<Rightarrow> bytes option" where
  "db_at db k = (case db of None \<Rightarrow> None | Some m \<Rightarrow> gm_get m (key_bytes k))"

record chain_view =
  vw_canon :: "u64 \<Rightarrow> hash"
  vw_number :: "hash \<Rightarrow> u64 option"
  vw_header :: "hash \<times> u64 \<Rightarrow> header option"
  vw_body :: "hash \<times> u64 \<Rightarrow> body option"
  vw_td :: "hash \<times> u64 \<Rightarrow> bigint option"
  vw_receipts :: "hash \<times> u64 \<Rightarrow> receipt list option"
  vw_lookup :: "hash \<Rightarrow> hash"
  vw_headHeader :: hash
  vw_headBlock :: hash
  vw_headFast :: hash

definition at_data :: "(schema_key \<Rightarrow> bytes option) \<Rightarrow> schema_key \<Rightarrow> bytes" where
  "at_data f k = (case f k of None \<Rightarrow> [] | Some v \<Rightarrow> v)"

definition at_hash :: "(schema_key \<Rightarrow> bytes option) \<Rightarrow> schema_key \<Rightarrow> hash" where
  "at_hash f k = (if at_data f k = [] then 0 else BytesToHash (at_data f k))"

definition at_rlp :: "(bytes \<Rightarrow> 'a option) \<Rightarrow> (schema_key \<Rightarrow> bytes option) \<Rightarrow> schema_key \<Rightarrow> 'a option" where
  "at_rlp dec f k = (if at_data f k = [] then None else dec (at_data f k))"

definition dec_receipts :: "chain_codec \<Rightarrow> bytes \<Rightarrow> receipt list option" where
  "dec_receipts cc data = (case dec_list (cc_receipts cc) data of
     None \<Rightarrow> None
   | Some blobs \<Rightarrow> all_some (map (ReceiptForStorage_DecodeRLP (keccak256 (cc_crypto cc)) (cc_receipts cc)) blobs))"

definition cview :: "chain_codec \<Rightarrow> (schema_key \<Rightarrow> bytes option) \<Rightarrow> chain_view" where
  "cview cc f =
     \<lparr>vw_canon = (\<lambda>n. at_hash f (CanonKey n)),
      vw_number = (\<lambda>h. if length (at_data f (NumberKey h)) = 8 then Some (BlockNonce_Uint64 (at_data f (NumberKey h))) else None),
      vw_header = (\<lambda>(h, n). at_rlp (dec_header cc) f (HeaderKey n h)),
      vw_body = (\<lambda>(h, n). at_rlp (dec_body cc) f (BodyKey n h)),
      vw_td = (\<lambda>(h, n). at_rlp (dec_td cc) f (TdKey n h)),
      vw_receipts = (\<lambda>(h, n). at_rlp (dec_receipts cc) f (ReceiptsKey n h)),
      vw_lookup = (\<lambda>h. let d = at_data f (LookupKey h) in if d = [] then 0 else if length d = 32 then BytesToHash d
                       else case dec_entry cc d of None \<Rightarrow> 0 | Some bh \<Rightarrow> bh),
      vw_headHeader = at_hash f HeadHeaderKey, vw_headBlock = at_hash f HeadBlockKey, vw_headFast = at_hash f HeadFastKey\<rparr>"

abbreviation db_view :: "chain_codec \<Rightarrow> memdb \<Rightarrow> chain_view" where
  "db_view cc db \<equiv> cview cc (db_at db)"

lemma db_data_at: "db_data db (key_bytes k) = at_data (db_at db) k"
  by (simp add: db_data_def memdb_Get_def at_data_def db_at_def split: option.split)

lemmas db_data_keys =
  db_data_at [of _ VersionKey, simplified] db_data_at [of _ HeadHeaderKey, simplified] db_data_at [of _ HeadBlockKey, simplified]
  db_data_at [of _ HeadFastKey, simplified] db_data_at [of _ TrieProgressKey, simplified] db_data_at [of _ "HeaderKey n h" for n h, simplified]
  db_data_at [of _ "TdKey n h" for n h, simplified] db_data_at [of _ "CanonKey n" for n, simplified]
  db_data_at [of _ "NumberKey h" for h, simplified] db_data_at [of _ "BodyKey n h" for n h, simplified]
  db_data_at [of _ "ReceiptsKey n h" for n h, simplified] db_data_at [of _ "LookupKey h" for h, simplified]

lemma reads_view:
  fixes cc :: chain_codec
  shows
  "ReadCanonicalHash db n = vw_canon (db_view cc db) n"
  "ReadHeaderNumber db h = vw_number (db_view cc db) h"
  "ReadHeader cc db h n = vw_header (db_view cc db) (h, n)"
  "ReadBody cc db h n = vw_body (db_view cc db) (h, n)"
  "ReadTd cc db h n = vw_td (db_view cc db) (h, n)"
  "ReadRawReceipts cc db h n = vw_receipts (db_view cc db) (h, n)"
  "ReadTxLookupEntry cc db h = vw_lookup (db_view cc db) h"
  "ReadHeadHeaderHash db = vw_headHeader (db_view cc db)"
  "ReadHeadBlockHash db = vw_headBlock (db_view cc db)"
  "ReadHeadFastBlockHash db = vw_headFast (db_view cc db)"
  by (simp_all add: cview_def ReadCanonicalHash_def ReadHeaderNumber_def ReadHeader_def ReadHeaderRLP_def ReadBody_def ReadBodyRLP_def
      ReadTd_def ReadTdRLP_def ReadRawReceipts_def ReadReceiptsRLP_def ReadTxLookupEntry_def ReadHeadHeaderHash_def
      ReadHeadBlockHash_def ReadHeadFastBlockHash_def read_hash_def db_data_keys at_hash_def at_rlp_def dec_receipts_def)

section \<open>The laws of the libraries\<close>

text \<open>RLP decodes what it encoded, a nil number as zero, and its output is never empty. It encodes everything that has
  no negative number.\<close>

definition header_encodable :: "header \<Rightarrow> bool" where
  "header_encodable h \<longleftrightarrow> (\<forall>n. Number h = Some n \<longrightarrow> 0 \<le> n) \<and> (\<forall>d. Difficulty h = Some d \<longrightarrow> 0 \<le> d)"

definition body_encodable :: "body \<Rightarrow> bool" where
  "body_encodable b \<longleftrightarrow> (\<forall>u \<in> set (bd_Uncles b). header_encodable u)
     \<and> (\<forall>t \<in> set (bd_Transactions b). 0 \<le> Price t \<and> 0 \<le> Amount t \<and> 0 \<le> sigV t \<and> 0 \<le> sigR t \<and> 0 \<le> sigS t)"

definition codec_ok :: "chain_codec \<Rightarrow> bool" where
  "codec_ok cc \<longleftrightarrow> (\<forall>h bs. enc_header cc h = Some bs \<longrightarrow> bs \<noteq> [] \<and> dec_header cc bs = Some (CopyHeader h))
     \<and> (\<forall>h. header_encodable h \<longrightarrow> enc_header cc h \<noteq> None)
     \<and> (\<forall>b bs. enc_body cc b = Some bs \<longrightarrow>
          bs \<noteq> [] \<and> dec_body cc bs = Some \<lparr>bd_Transactions = bd_Transactions b, bd_Uncles = map CopyHeader (bd_Uncles b)\<rparr>)
     \<and> (\<forall>b. body_encodable b \<longrightarrow> enc_body cc b \<noteq> None)
     \<and> (\<forall>d bs. enc_td cc d = Some bs \<longrightarrow> bs \<noteq> [] \<and> dec_td cc bs = Some d) \<and> (\<forall>d \<ge> 0. enc_td cc d \<noteq> None)
     \<and> receipt_codec_ok (cc_receipts cc)"

lemma at_data_upd: "at_data (f(k \<mapsto> v)) k' = (if k' = k then v else at_data f k')"
  "at_data (f(k := None)) k' = (if k' = k then [] else at_data f k')"
  by (simp_all add: at_data_def)

lemma at_hash_upd: "at_hash (f(k \<mapsto> hash_bytes h)) k' = (if k' = k then h else at_hash f k')"
proof -
  have "hash_bytes h \<noteq> []" using length_hash_bytes [of h] by (metis length_0_conv zero_neq_numeral)
  then show ?thesis by (simp add: at_hash_def at_data_upd)
qed

lemma at_hash_other: "k' \<noteq> k \<Longrightarrow> at_hash (f(k := v)) k' = at_hash f k'"
  by (simp add: at_hash_def at_data_def)

lemma at_hash_del: "at_hash (f(k := None)) k' = (if k' = k then 0 else at_hash f k')"
  by (simp add: at_hash_def at_data_def)

lemma at_rlp_upd: "bs \<noteq> [] \<Longrightarrow> at_rlp dec (f(k \<mapsto> bs)) k' = (if k' = k then dec bs else at_rlp dec f k')"
  by (simp add: at_rlp_def at_data_upd)

lemma at_rlp_other: "k' \<noteq> k \<Longrightarrow> at_rlp dec (f(k := v)) k' = at_rlp dec f k'"
  by (simp add: at_rlp_def at_data_def)

lemma at_rlp_del: "at_rlp dec (f(k := None)) k' = (if k' = k then None else at_rlp dec f k')"
  by (simp add: at_rlp_def at_data_def)

lemma at_data_other: "k' \<noteq> k \<Longrightarrow> at_data (f(k := v)) k' = at_data f k'"
  by (simp add: at_data_def)

lemmas at_upd = at_hash_upd at_hash_other at_hash_del at_rlp_other at_rlp_del at_data_other at_data_upd

lemma cview_put:
  "cview cc (f(CanonKey n \<mapsto> hash_bytes h)) = (cview cc f)\<lparr>vw_canon := (vw_canon (cview cc f))(n := h)\<rparr>"
  "cview cc (f(CanonKey n := None)) = (cview cc f)\<lparr>vw_canon := (vw_canon (cview cc f))(n := 0)\<rparr>"
  "cview cc (f(HeadHeaderKey \<mapsto> hash_bytes h)) = (cview cc f)\<lparr>vw_headHeader := h\<rparr>"
  "cview cc (f(HeadBlockKey \<mapsto> hash_bytes h)) = (cview cc f)\<lparr>vw_headBlock := h\<rparr>"
  "cview cc (f(HeadFastKey \<mapsto> hash_bytes h)) = (cview cc f)\<lparr>vw_headFast := h\<rparr>"
  "cview cc (f(NumberKey h \<mapsto> encodeBlockNumber n)) = (cview cc f)\<lparr>vw_number := (vw_number (cview cc f))(h \<mapsto> n)\<rparr>"
  "cview cc (f(NumberKey h := None)) = (cview cc f)\<lparr>vw_number := (vw_number (cview cc f))(h := None)\<rparr>"
  "bs \<noteq> [] \<Longrightarrow> cview cc (f(HeaderKey n h \<mapsto> bs)) = (cview cc f)\<lparr>vw_header := (vw_header (cview cc f))((h, n) := dec_header cc bs)\<rparr>"
  "cview cc (f(HeaderKey n h := None)) = (cview cc f)\<lparr>vw_header := (vw_header (cview cc f))((h, n) := None)\<rparr>"
  "bs \<noteq> [] \<Longrightarrow> cview cc (f(BodyKey n h \<mapsto> bs)) = (cview cc f)\<lparr>vw_body := (vw_body (cview cc f))((h, n) := dec_body cc bs)\<rparr>"
  "cview cc (f(BodyKey n h := None)) = (cview cc f)\<lparr>vw_body := (vw_body (cview cc f))((h, n) := None)\<rparr>"
  "bs \<noteq> [] \<Longrightarrow> cview cc (f(TdKey n h \<mapsto> bs)) = (cview cc f)\<lparr>vw_td := (vw_td (cview cc f))((h, n) := dec_td cc bs)\<rparr>"
  "cview cc (f(TdKey n h := None)) = (cview cc f)\<lparr>vw_td := (vw_td (cview cc f))((h, n) := None)\<rparr>"
  "bs \<noteq> [] \<Longrightarrow> cview cc (f(ReceiptsKey n h \<mapsto> bs)) = (cview cc f)\<lparr>vw_receipts := (vw_receipts (cview cc f))((h, n) := dec_receipts cc bs)\<rparr>"
  "cview cc (f(ReceiptsKey n h := None)) = (cview cc f)\<lparr>vw_receipts := (vw_receipts (cview cc f))((h, n) := None)\<rparr>"
  "cview cc (f(LookupKey h \<mapsto> hash_bytes bh)) = (cview cc f)\<lparr>vw_lookup := (vw_lookup (cview cc f))(h := bh)\<rparr>"
  "cview cc (f(LookupKey h := None)) = (cview cc f)\<lparr>vw_lookup := (vw_lookup (cview cc f))(h := 0)\<rparr>"
  "cview cc (f(PreimageKey h \<mapsto> bs)) = cview cc f"
proof -
  have "hash_bytes bh \<noteq> []" using length_hash_bytes [of bh] by (metis length_0_conv zero_neq_numeral)
  then show "cview cc (f(LookupKey h \<mapsto> hash_bytes bh)) = (cview cc f)\<lparr>vw_lookup := (vw_lookup (cview cc f))(h := bh)\<rparr>"
    by (simp add: cview_def at_upd fun_eq_iff)
qed (simp_all add: cview_def at_upd at_rlp_upd number_decode fun_eq_iff)

section \<open>Writers\<close>

text \<open>\<open>content w\<close> is what a writer holds, by key. \<open>fits w\<close> is the condition under which it works: an open database.\<close>

locale chain_writer =
  fixes W :: "'w writer" and fits :: "'w \<Rightarrow> bool" and content :: "'w \<Rightarrow> schema_key \<Rightarrow> bytes option"
  assumes put: "fits w \<Longrightarrow> \<exists>w'. w_Put W w (key_bytes k) v = Inr w' \<and> fits w' \<and> content w' = (content w)(k \<mapsto> v)"
    and del: "fits w \<Longrightarrow> \<exists>w'. w_Delete W w (key_bytes k) = Inr w' \<and> fits w' \<and> content w' = (content w)(k := None)"
begin

definition writes_view :: "chain_codec \<Rightarrow> 'w \<Rightarrow> 'w option \<Rightarrow> (chain_view \<Rightarrow> chain_view) \<Rightarrow> bool" where
  "writes_view cc w r g \<longleftrightarrow> (\<exists>w'. r = Some w' \<and> fits w' \<and> cview cc (content w') = g (cview cc (content w)))"

lemma put_key: "fits w \<Longrightarrow> key_bytes k = bs \<Longrightarrow>
    \<exists>w'. log_Crit (w_Put W w bs v) = Some w' \<and> fits w' \<and> content w' = (content w)(k \<mapsto> v)"
  using put [of w k v] by (auto simp: log_Crit_def)

lemma del_key: "fits w \<Longrightarrow> key_bytes k = bs \<Longrightarrow>
    \<exists>w'. log_Crit (w_Delete W w bs) = Some w' \<and> fits w' \<and> content w' = (content w)(k := None)"
  using del [of w k] by (auto simp: log_Crit_def)

lemma writes_view_put:
  assumes "fits w" "key_bytes k = bs" "cview cc ((content w)(k \<mapsto> v)) = g (cview cc (content w))"
  shows "writes_view cc w (log_Crit (w_Put W w bs v)) g"
  using put_key [OF assms(1,2), of v] assms(3) by (auto simp: writes_view_def)

lemma writes_view_del:
  assumes "fits w" "key_bytes k = bs" "cview cc ((content w)(k := None)) = g (cview cc (content w))"
  shows "writes_view cc w (log_Crit (w_Delete W w bs)) g"
  using del_key [OF assms(1,2)] assms(3) by (auto simp: writes_view_def)

lemma writes_view_seq:
  assumes "writes_view cc w r g" "\<forall>w'. fits w' \<longrightarrow> writes_view cc w' (q w') g'"
  shows "writes_view cc w (Option.bind r q) (\<lambda>v. g' (g v))"
proof -
  obtain w1 where w1: "r = Some w1" "fits w1" "cview cc (content w1) = g (cview cc (content w))"
    using assms(1) by (auto simp: writes_view_def)
  then have "writes_view cc w1 (q w1) g'" using assms(2) by blast
  then show ?thesis using w1 by (simp add: writes_view_def)
qed

lemma WriteCanonicalHash_view:
  "fits w \<Longrightarrow> writes_view cc w (WriteCanonicalHash W w h n) (\<lambda>v. v\<lparr>vw_canon := (vw_canon v)(n := h)\<rparr>)"
  unfolding WriteCanonicalHash_def by (rule writes_view_put [of _ "CanonKey n"]) (simp_all add: cview_put)

lemma DeleteCanonicalHash_view:
  "fits w \<Longrightarrow> writes_view cc w (DeleteCanonicalHash W w n) (\<lambda>v. v\<lparr>vw_canon := (vw_canon v)(n := 0)\<rparr>)"
  unfolding DeleteCanonicalHash_def by (rule writes_view_del [of _ "CanonKey n"]) (simp_all add: cview_put)

lemma WriteHeadHeaderHash_view: "fits w \<Longrightarrow> writes_view cc w (WriteHeadHeaderHash W w h) (\<lambda>v. v\<lparr>vw_headHeader := h\<rparr>)"
  unfolding WriteHeadHeaderHash_def by (rule writes_view_put [of _ HeadHeaderKey]) (simp_all add: cview_put)

lemma WriteHeadBlockHash_view: "fits w \<Longrightarrow> writes_view cc w (WriteHeadBlockHash W w h) (\<lambda>v. v\<lparr>vw_headBlock := h\<rparr>)"
  unfolding WriteHeadBlockHash_def by (rule writes_view_put [of _ HeadBlockKey]) (simp_all add: cview_put)

lemma WriteHeadFastBlockHash_view: "fits w \<Longrightarrow> writes_view cc w (WriteHeadFastBlockHash W w h) (\<lambda>v. v\<lparr>vw_headFast := h\<rparr>)"
  unfolding WriteHeadFastBlockHash_def by (rule writes_view_put [of _ HeadFastKey]) (simp_all add: cview_put)

lemma WriteHeader_view:
  assumes "fits w" "codec_ok cc" "header_encodable hdr" "Uint64 (Number hdr) = Some n"
  defines "h \<equiv> header_Hash (cc_crypto cc) hdr"
  shows "writes_view cc w (WriteHeader cc W w hdr)
    (\<lambda>v. v\<lparr>vw_number := (vw_number v)(h \<mapsto> n), vw_header := (vw_header v)((h, n) \<mapsto> CopyHeader hdr)\<rparr>)"
proof -
  obtain bs where bs: "enc_header cc hdr = Some bs" "bs \<noteq> []" "dec_header cc bs = Some (CopyHeader hdr)"
    using assms(2,3) by (fastforce simp: codec_ok_def)
  have 1: "writes_view cc w (log_Crit (w_Put W w (headerNumberKey h) (encodeBlockNumber n))) (\<lambda>v. v\<lparr>vw_number := (vw_number v)(h \<mapsto> n)\<rparr>)"
    by (rule writes_view_put [of _ "NumberKey h"]) (simp_all add: cview_put assms(1))
  have 2: "\<forall>w'. fits w' \<longrightarrow> writes_view cc w' (log_Crit (w_Put W w' (headerKey n h) bs)) (\<lambda>v. v\<lparr>vw_header := (vw_header v)((h, n) \<mapsto> CopyHeader hdr)\<rparr>)"
    by (intro allI impI writes_view_put [of _ "HeaderKey n h"]) (simp_all add: cview_put bs)
  show ?thesis using writes_view_seq [OF 1 2] assms(4) bs(1) by (simp add: WriteHeader_def h_def)
qed

lemma DeleteHeader_view:
  assumes "fits w"
  shows "writes_view cc w (DeleteHeader W w h n)
    (\<lambda>v. v\<lparr>vw_header := (vw_header v)((h, n) := None), vw_number := (vw_number v)(h := None)\<rparr>)"
proof -
  have 1: "writes_view cc w (deleteHeaderWithoutNumber W w h n) (\<lambda>v. v\<lparr>vw_header := (vw_header v)((h, n) := None)\<rparr>)"
    unfolding deleteHeaderWithoutNumber_def
    by (rule writes_view_del [of _ "HeaderKey n h"]) (simp_all add: cview_put assms(1))
  have 2: "\<forall>w'. fits w' \<longrightarrow> writes_view cc w' (log_Crit (w_Delete W w' (headerNumberKey h))) (\<lambda>v. v\<lparr>vw_number := (vw_number v)(h := None)\<rparr>)"
    by (intro allI impI writes_view_del [of _ "NumberKey h"]) (simp_all add: cview_put)
  show ?thesis using writes_view_seq [OF 1 2] by (simp add: DeleteHeader_def)
qed

lemma WriteBody_view:
  assumes "fits w" "codec_ok cc" "body_encodable b"
  shows "writes_view cc w (WriteBody cc W w h n b)
    (\<lambda>v. v\<lparr>vw_body := (vw_body v)((h, n) \<mapsto> \<lparr>bd_Transactions = bd_Transactions b, bd_Uncles = map CopyHeader (bd_Uncles b)\<rparr>)\<rparr>)"
proof -
  obtain bs where bs: "enc_body cc b = Some bs" "bs \<noteq> []"
    "dec_body cc bs = Some \<lparr>bd_Transactions = bd_Transactions b, bd_Uncles = map CopyHeader (bd_Uncles b)\<rparr>"
    using assms(2,3) by (fastforce simp: codec_ok_def)
  then show ?thesis unfolding WriteBody_def WriteBodyRLP_def bs(1) Option.bind.simps
    by (intro writes_view_put [of _ "BodyKey n h"]) (simp_all add: cview_put assms(1))
qed

lemma DeleteBody_view: "fits w \<Longrightarrow> writes_view cc w (DeleteBody W w h n) (\<lambda>v. v\<lparr>vw_body := (vw_body v)((h, n) := None)\<rparr>)"
  unfolding DeleteBody_def by (rule writes_view_del [of _ "BodyKey n h"]) (simp_all add: cview_put)

lemma WriteTd_view:
  assumes "fits w" "codec_ok cc" "0 \<le> d"
  shows "writes_view cc w (WriteTd cc W w h n d) (\<lambda>v. v\<lparr>vw_td := (vw_td v)((h, n) \<mapsto> d)\<rparr>)"
proof -
  obtain bs where bs: "enc_td cc d = Some bs" "bs \<noteq> []" "dec_td cc bs = Some d"
    using assms(2,3) by (fastforce simp: codec_ok_def)
  then show ?thesis unfolding WriteTd_def bs(1) Option.bind.simps
    by (intro writes_view_put [of _ "TdKey n h"]) (simp_all add: cview_put assms(1))
qed

lemma DeleteTd_view: "fits w \<Longrightarrow> writes_view cc w (DeleteTd W w h n) (\<lambda>v. v\<lparr>vw_td := (vw_td v)((h, n) := None)\<rparr>)"
  unfolding DeleteTd_def by (rule writes_view_del [of _ "TdKey n h"]) (simp_all add: cview_put)

lemma DeleteReceipts_view:
  "fits w \<Longrightarrow> writes_view cc w (DeleteReceipts W w h n) (\<lambda>v. v\<lparr>vw_receipts := (vw_receipts v)((h, n) := None)\<rparr>)"
  unfolding DeleteReceipts_def by (rule writes_view_del [of _ "ReceiptsKey n h"]) (simp_all add: cview_put)

lemma WriteReceipts_view:
  assumes "fits w" "codec_ok cc" "\<forall>r \<in> set rs. status_ok r"
  shows "writes_view cc w (WriteReceipts cc W w h n rs)
    (\<lambda>v. v\<lparr>vw_receipts := (vw_receipts v)((h, n) \<mapsto> map (stored_receipt (keccak256 (cc_crypto cc))) rs)\<rparr>)"
proof -
  let ?rc = "cc_receipts cc" and ?kec = "keccak256 (cc_crypto cc)"
  have rc: "receipt_codec_ok ?rc" using assms(2) by (simp add: codec_ok_def)
  let ?bs = "enc_list ?rc (map (ReceiptForStorage_EncodeRLP ?rc) rs)"
  have "all_some (map (ReceiptForStorage_DecodeRLP ?kec ?rc \<circ> ReceiptForStorage_EncodeRLP ?rc) rs)
      = Some (map (stored_receipt ?kec) rs)"
    by (rule all_some_map) (simp add: receipt_storage_back [OF rc] assms(3))
  then have d: "dec_receipts cc ?bs = Some (map (stored_receipt ?kec) rs)"
    using rc by (simp add: dec_receipts_def receipt_codec_ok_def)
  have "?bs \<noteq> []" using rc by (simp add: receipt_codec_ok_def)
  then show ?thesis unfolding WriteReceipts_def
    by (intro writes_view_put [of _ "ReceiptsKey n h"]) (simp_all add: cview_put assms(1) d)
qed

lemma WriteBlock_view:
  assumes "fits w" "codec_ok cc" "header_encodable (bheader b)" "body_encodable (block_Body b)"
    "Number (bheader b) \<noteq> None" "Difficulty (bheader b) \<noteq> None" "Uint64 (Number (bheader b)) = Some n"
  defines "h \<equiv> block_hash cc b"
  shows "writes_view cc w (WriteBlock cc W w b)
    (\<lambda>v. v\<lparr>vw_body := (vw_body v)((h, n) \<mapsto> \<lparr>bd_Transactions = transactions b, bd_Uncles = map CopyHeader (uncles b)\<rparr>),
          vw_number := (vw_number v)(h \<mapsto> n), vw_header := (vw_header v)((h, n) \<mapsto> bheader b)\<rparr>)"
proof -
  have c: "block_Header b = bheader b" using assms(5,6) by (simp add: block_Header_def CopyHeader_id)
  note 1 = WriteBody_view [OF assms(1,2,4), of h n]
  have 2: "\<forall>w'. fits w' \<longrightarrow> writes_view cc w' (WriteHeader cc W w' (bheader b))
      (\<lambda>v. v\<lparr>vw_number := (vw_number v)(h \<mapsto> n), vw_header := (vw_header v)((h, n) \<mapsto> bheader b)\<rparr>)"
    using WriteHeader_view [OF _ assms(2,3,7)] assms(5,6) by (simp add: h_def block_hash_def CopyHeader_id)
  show ?thesis using writes_view_seq [OF 1 2] assms(7)
    by (simp add: WriteBlock_def c block_Body_def h_def)
qed

lemma writes_view_loop:
  assumes "\<forall>x \<in> set xs. \<forall>w. fits w \<longrightarrow> writes_view cc w (f x w) (g x)" "fits w"
  shows "writes_view cc w (foldr (\<lambda>x q w. Option.bind (f x w) q) xs Some w) (fold g xs)"
  using assms
proof (induction xs arbitrary: w)
  case Nil
  then show ?case by (auto simp: writes_view_def)
next
  case (Cons x xs)
  have "writes_view cc w (Option.bind (f x w) (foldr (\<lambda>x q w. Option.bind (f x w) q) xs Some)) (\<lambda>v. fold g xs (g x v))"
    by (rule writes_view_seq) (use Cons in auto)
  then show ?case by (simp add: comp_def)
qed

lemma WriteTxLookup_view:
  assumes "fits w"
  shows "writes_view cc w (WriteTxLookup_loop cc W bh txs w)
    (fold (\<lambda>tx v. v\<lparr>vw_lookup := (vw_lookup v)(de_txhash (cc_derive cc) tx := bh)\<rparr>) txs)"
proof -
  have e: "WriteTxLookup_loop cc W bh txs
      = foldr (\<lambda>x q w. Option.bind (log_Crit (w_Put W w (txLookupKey (de_txhash (cc_derive cc) x)) (hash_bytes bh))) q) txs Some"
  proof (induction txs)
    case (Cons tx txs)
    show ?case by (rule ext) (simp only: WriteTxLookup_loop.simps foldr.simps o_apply Cons.IH)
  qed (rule ext, simp)
  show ?thesis unfolding e
  proof (rule writes_view_loop [OF _ assms], intro ballI allI impI)
    fix x w assume "fits w"
    then show "writes_view cc w (log_Crit (w_Put W w (txLookupKey (de_txhash (cc_derive cc) x)) (hash_bytes bh)))
        (\<lambda>v. v\<lparr>vw_lookup := (vw_lookup v)(de_txhash (cc_derive cc) x := bh)\<rparr>)"
      by (rule writes_view_put [of _ "LookupKey (de_txhash (cc_derive cc) x)"]) (simp_all add: cview_put)
  qed
qed

lemma WritePreimages_view:
  assumes "fits w"
  shows "writes_view cc w (WritePreimages W rng w ps) (\<lambda>v. v)"
proof -
  have e: "WritePreimages_loop W ps hs = foldr (\<lambda>h q w. Option.bind
      (case gm_get ps h of None \<Rightarrow> Some w | Some p \<Rightarrow> log_Crit (w_Put W w (preimageKey h) p)) q) hs Some" for hs
  proof (induction hs)
    case (Cons h hs)
    show ?case by (rule ext) (simp only: WritePreimages_loop.simps foldr.simps o_apply Cons.IH)
  qed (rule ext, simp)
  have i: "fold (\<lambda>_ v. v) hs = (\<lambda>v. v)" for hs :: "hash list" by (induction hs) (simp_all add: comp_def)
  have "writes_view cc w (case gm_get ps h of None \<Rightarrow> Some w | Some p \<Rightarrow> log_Crit (w_Put W w (preimageKey h) p)) (\<lambda>v. v)"
    if "fits w" for h w
    using writes_view_put [of w "PreimageKey h" "preimageKey h"] that
    by (auto simp: cview_put writes_view_def split: option.split)
  then show ?thesis unfolding WritePreimages_def e using writes_view_loop [OF _ assms, of "rng (gm_keys ps)" cc _ "\<lambda>_ v. v"]
    by (simp add: i)
qed

lemma DeleteTxLookupEntry_view:
  "fits w \<Longrightarrow> writes_view cc w (Some (DeleteTxLookupEntry W w h)) (\<lambda>v. v\<lparr>vw_lookup := (vw_lookup v)(h := 0)\<rparr>)"
  using del [of w "LookupKey h"] by (auto simp: DeleteTxLookupEntry_def writes_view_def cview_put)

lemma DeleteBlock_view:
  assumes "fits w"
  shows "writes_view cc w (DeleteBlock W w h n)
    (\<lambda>v. v\<lparr>vw_receipts := (vw_receipts v)((h, n) := None), vw_header := (vw_header v)((h, n) := None),
          vw_number := (vw_number v)(h := None), vw_body := (vw_body v)((h, n) := None), vw_td := (vw_td v)((h, n) := None)\<rparr>)"
proof -
  have 4: "\<forall>w. fits w \<longrightarrow> writes_view cc w (DeleteTd W w h n) (\<lambda>v. v\<lparr>vw_td := (vw_td v)((h, n) := None)\<rparr>)"
    by (simp add: DeleteTd_view)
  have 3: "\<forall>w. fits w \<longrightarrow> writes_view cc w (do { w \<leftarrow> DeleteBody W w h n; DeleteTd W w h n })
      (\<lambda>v. v\<lparr>vw_body := (vw_body v)((h, n) := None), vw_td := (vw_td v)((h, n) := None)\<rparr>)"
    using writes_view_seq [OF DeleteBody_view 4] by simp
  have 2: "\<forall>w. fits w \<longrightarrow> writes_view cc w (do { w \<leftarrow> DeleteHeader W w h n; w \<leftarrow> DeleteBody W w h n; DeleteTd W w h n })
      (\<lambda>v. v\<lparr>vw_header := (vw_header v)((h, n) := None), vw_number := (vw_number v)(h := None),
            vw_body := (vw_body v)((h, n) := None), vw_td := (vw_td v)((h, n) := None)\<rparr>)"
    using writes_view_seq [OF DeleteHeader_view 3] by simp
  show ?thesis using writes_view_seq [OF DeleteReceipts_view [OF assms] 2] by (simp add: DeleteBlock_def)
qed

end

section \<open>The database and its batches\<close>

definition db_open :: "memdb \<Rightarrow> bool" where
  "db_open db \<longleftrightarrow> db \<noteq> None"

interpretation dbw: chain_writer db_writer db_open db_at
  by unfold_locales
    (auto simp: db_writer_def db_open_def memdb_Put_def memdb_Delete_def db_at_def gm_get_put gm_get_del key_bytes_inj fun_eq_iff)

text \<open>A batch holds what the database \<open>m\<close> will hold after \<open>Write\<close>.\<close>

definition batch_at :: "(bytes, bytes) gomap \<Rightarrow> batch \<Rightarrow> schema_key \<Rightarrow> bytes option" where
  "batch_at m b = db_at (the (batch_Write b (Some m)))"

lemma write_loop_append:
  "write_loop (xs @ ys) db = Option.bind (write_loop xs db) (write_loop ys)"
  by (induction xs db rule: write_loop.induct) (auto split: option.split)

interpretation batchw: chain_writer batch_writer "\<lambda>_. True" "batch_at m" for m
proof unfold_locales
  fix w :: batch and k v
  obtain m' where "write_loop (writes w) (Some m) = Some (Some m')" using write_loop_open by blast
  then show "\<exists>w'. w_Put batch_writer w (key_bytes k) v = Inr w' \<and> True \<and> batch_at m w' = (batch_at m w)(k \<mapsto> v)"
    "\<exists>w'. w_Delete batch_writer w (key_bytes k) = Inr w' \<and> True \<and> batch_at m w' = (batch_at m w)(k := None)"
    by (auto simp: batch_writer_def batch_at_def batch_Write_def batch_Put_def batch_Delete_def write_loop_append db_at_def
        gm_get_put gm_get_del key_bytes_inj fun_eq_iff)
qed

lemma batch_at_new: "batch_at m NewBatch = db_at (Some m)"
  by (simp add: batch_at_def NewBatch_def batch_Write_def)

lemma batch_Write_at: "\<exists>m'. batch_Write b (Some m) = Some (Some m') \<and> db_at (Some m') = batch_at m b"
  using write_loop_open [of "writes b" m] by (auto simp: batch_at_def batch_Write_def)

section \<open>A block comes back\<close>

definition storable :: "block \<Rightarrow> bool" where
  "storable b \<longleftrightarrow> header_encodable (bheader b) \<and> body_encodable (block_Body b) \<and> Number (bheader b) \<noteq> None
     \<and> Difficulty (bheader b) \<noteq> None \<and> (\<forall>u \<in> set (uncles b). Number u \<noteq> None \<and> Difficulty u \<noteq> None)"

definition num_of :: "header \<Rightarrow> u64" where
  "num_of h = (case Number h of None \<Rightarrow> 0 | Some n \<Rightarrow> word_of_int \<bar>n\<bar>)"

lemma Uint64_num: "Number h \<noteq> None \<Longrightarrow> Uint64 (Number h) = Some (num_of h)"
  by (auto simp: num_of_def)

lemma copied_uncles: "\<forall>u \<in> set us. Number u \<noteq> None \<and> Difficulty u \<noteq> None \<Longrightarrow> map CopyHeader us = us"
  by (induction us) (auto simp: CopyHeader_id)

lemma WriteBlock_stores:
  assumes "codec_ok cc" "storable b" "db_open db"
  shows "\<exists>db'. WriteBlock cc db_writer db b = Some db' \<and> db_open db' \<and> db_view cc db' =
    (db_view cc db)\<lparr>vw_body := (vw_body (db_view cc db))((block_hash cc b, num_of (bheader b)) \<mapsto> block_Body b),
      vw_number := (vw_number (db_view cc db))(block_hash cc b \<mapsto> num_of (bheader b)),
      vw_header := (vw_header (db_view cc db))((block_hash cc b, num_of (bheader b)) \<mapsto> bheader b)\<rparr>"
proof -
  have s: "header_encodable (bheader b)" "body_encodable (block_Body b)" "Number (bheader b) \<noteq> None"
    "Difficulty (bheader b) \<noteq> None" "\<forall>u \<in> set (uncles b). Number u \<noteq> None \<and> Difficulty u \<noteq> None"
    using assms(2) by (simp_all add: storable_def)
  from dbw.WriteBlock_view [OF assms(3,1) s(1-4) Uint64_num [OF s(3)]]
  show ?thesis using copied_uncles [OF s(5)] by (auto simp: dbw.writes_view_def block_Body_def)
qed

text \<open>C15: A block and its receipts that are stored are read back: the block as it was, the receipts with all their
  derived fields. Every other block, its receipts and its difficulty, the canonical numbering and the heads are what
  they were: no key of one kind is a key of another.\<close>

theorem stored_block_read_back:
  assumes "codec_ok cc" "storable b" "td b = None" "db_open db"
    "length rs = length (transactions b)" "\<forall>r \<in> set rs. receipt_ok (keccak256 (cc_crypto cc)) r"
  defines "h \<equiv> block_hash cc b" and "n \<equiv> num_of (bheader b)"
  shows "\<exists>db1 db2. WriteBlock cc db_writer db b = Some db1 \<and> WriteReceipts cc db_writer db1 h n rs = Some db2
    \<and> ReadBlock cc db2 h n = Some b \<and> ReadHeaderNumber db2 h = Some n
    \<and> ReadReceipts cc db2 h n = DeriveFields (cc_derive cc) h n (transactions b) rs
    \<and> (\<forall>h' n'. (h', n') \<noteq> (h, n) \<longrightarrow> ReadBlock cc db2 h' n' = ReadBlock cc db h' n'
         \<and> ReadReceipts cc db2 h' n' = ReadReceipts cc db h' n')
    \<and> (\<forall>h' n'. ReadTd cc db2 h' n' = ReadTd cc db h' n' \<and> ReadCanonicalHash db2 n' = ReadCanonicalHash db n'
         \<and> ReadTxLookupEntry cc db2 h' = ReadTxLookupEntry cc db h')
    \<and> ReadHeadHeaderHash db2 = ReadHeadHeaderHash db \<and> ReadHeadBlockHash db2 = ReadHeadBlockHash db"
proof -
  obtain db1 where db1: "WriteBlock cc db_writer db b = Some db1" "db_open db1" "db_view cc db1 =
    (db_view cc db)\<lparr>vw_body := (vw_body (db_view cc db))((h, n) \<mapsto> block_Body b), vw_number := (vw_number (db_view cc db))(h \<mapsto> n),
      vw_header := (vw_header (db_view cc db))((h, n) \<mapsto> bheader b)\<rparr>"
    using WriteBlock_stores [OF assms(1,2,4)] by (auto simp: h_def n_def)
  have "\<forall>r \<in> set rs. status_ok r" using assms(6) by (simp add: receipt_ok_def)
  from dbw.WriteReceipts_view [OF db1(2) assms(1) this, of h n]
  obtain db2 where db2: "WriteReceipts cc db_writer db1 h n rs = Some db2"
    "db_view cc db2 = (db_view cc db1)\<lparr>vw_receipts := (vw_receipts (db_view cc db1))((h, n) \<mapsto> map (stored_receipt (keccak256 (cc_crypto cc))) rs)\<rparr>"
    by (auto simp: dbw.writes_view_def)
  have s: "Number (bheader b) \<noteq> None" "Difficulty (bheader b) \<noteq> None" "\<forall>u \<in> set (uncles b). Number u \<noteq> None \<and> Difficulty u \<noteq> None"
    using assms(2) by (simp_all add: storable_def)
  have w: "WithBody (NewBlockWithHeader (bheader b)) (transactions b) (uncles b) = b"
    using CopyHeader_id [OF s(1,2)] copied_uncles [OF s(3)] assms(3)
    by (simp add: WithBody_def NewBlockWithHeader_def)
  have d: "DeriveFields (cc_derive cc) h n txs (map (stored_receipt (keccak256 (cc_crypto cc))) rs)
      = DeriveFields (cc_derive cc) h n txs rs" for txs
    by (simp add: DeriveFields_def derive_loop_stored [OF assms(6)])
  show ?thesis using db1(1) db2(1)
    by - (rule exI [of _ db1], rule exI [of _ db2],
      simp add: ReadBlock_def ReadReceipts_def reads_view [where cc = cc] db2(2) db1(3) w d block_Body_def
        cong: option.case_cong)
qed

end
