(* ===== verification/Header_Chain.thy ===== *)
theory Header_Chain
  imports Raw_View Consensus
begin

text \<open>
  The header chain: \<open>core/headerchain.go\<close>.

  The LRU caches of golang-lru are third-party: a record of operations over one type of caches, with the law \<open>lru_ok\<close>. A
  cache stores values of any type, so its operations are given for each type that is put into one. Loops over the
  chain are \<open>partial_function\<close>s; \<^const>\<open>None\<close> is a nil pointer, \<open>log.Crit\<close>, or a loop that does not end. The coin
  \<open>mrand.Float64() < 0.5\<close>, the draws of \<open>Intn\<close>, the results of \<open>VerifyHeaders\<close> and the interrupt flag are arguments.
\<close>

record ('c, 'v) lru =
  lru_Get :: "'c \<Rightarrow> hash \<Rightarrow> 'v option \<times> 'c"
  lru_Add :: "'c \<Rightarrow> hash \<Rightarrow> 'v \<Rightarrow> 'c"
  lru_Contains :: "'c \<Rightarrow> hash \<Rightarrow> bool"
  lru_Purge :: "'c \<Rightarrow> 'c"
  lru_Remove :: "'c \<Rightarrow> hash \<Rightarrow> 'c"
  lru_Keys :: "'c \<Rightarrow> hash list"
  lru_Peek :: "'c \<Rightarrow> hash \<Rightarrow> 'v option"

text \<open>\<open>view\<close> is what a cache holds: \<open>Get\<close> returns it and changes nothing but the order of use, \<open>Add\<close> stores an entry and may
  evict others.\<close>

definition lru_ok :: "('c, 'v) lru \<Rightarrow> ('c \<Rightarrow> hash \<rightharpoonup> 'v) \<Rightarrow> bool" where
  "lru_ok L view \<longleftrightarrow> (\<forall>c k. fst (lru_Get L c k) = view c k \<and> view (snd (lru_Get L c k)) = view c)
     \<and> (\<forall>c k v. view (lru_Add L c k v) \<subseteq>\<^sub>m (view c)(k \<mapsto> v) \<and> view (lru_Add L c k v) k = Some v)
     \<and> (\<forall>c k. lru_Contains L c k = (view c k \<noteq> None)) \<and> (\<forall>c. view (lru_Purge L c) = Map.empty)
     \<and> (\<forall>c k. view (lru_Remove L c k) = (view c)(k := None)) \<and> (\<forall>c k. lru_Peek L c k = view c k)
     \<and> (\<forall>c. set (lru_Keys L c) = dom (view c) \<and> distinct (lru_Keys L c))"

datatype chain_error =
    EngineErr error | ErrKnownBlock | ErrPrunedAncestor | ErrNoGenesis | errAborted | errNonContiguous
  | errInvalidOldChain | errInvalidNewChain | errUncleRoot | errTxRoot | errGasUsed | errBloom | errReceiptRoot | errStateRoot
  | errFutureTime | errGhostState | errMissingParent | errMissingBlock | errStateMissing | errProcess | errCommit

datatype writeStatus = NonStatTy | CanonStatTy | SideStatTy

record 'c hc_env =
  hc_codec :: chain_codec
  headerLru :: "('c, header) lru"
  tdLru :: "('c, bigint) lru"
  numberLru :: "('c, u64) lru"

record 'c headerChain =
  chainDb :: memdb
  genesisHeader :: "header option"
  currentHeader :: "header option"
  currentHeaderHash :: hash
  headerCache :: 'c
  tdCache :: 'c
  numberCache :: 'c

abbreviation hdr_hash :: "'c hc_env \<Rightarrow> header \<Rightarrow> hash" where
  "hdr_hash E h \<equiv> header_Hash (cc_crypto (hc_codec E)) h"

section \<open>Lookups\<close>

definition GetBlockNumber :: "'c hc_env \<Rightarrow> hash \<Rightarrow> 'c headerChain \<Rightarrow> u64 option \<times> 'c headerChain" where
  "GetBlockNumber E h hc =
     (case lru_Get (numberLru E) (numberCache hc) h of
        (Some n, c) \<Rightarrow> (Some n, hc\<lparr>numberCache := c\<rparr>)
      | (None, c) \<Rightarrow>
          (case ReadHeaderNumber (chainDb hc) h of
             None \<Rightarrow> (None, hc\<lparr>numberCache := c\<rparr>)
           | Some n \<Rightarrow> (Some n, hc\<lparr>numberCache := lru_Add (numberLru E) c h n\<rparr>)))"

definition GetTd :: "'c hc_env \<Rightarrow> hash \<Rightarrow> u64 \<Rightarrow> 'c headerChain \<Rightarrow> bigint option \<times> 'c headerChain" where
  "GetTd E h number hc =
     (case lru_Get (tdLru E) (tdCache hc) h of
        (Some d, c) \<Rightarrow> (Some d, hc\<lparr>tdCache := c\<rparr>)
      | (None, c) \<Rightarrow>
          (case ReadTd (hc_codec E) (chainDb hc) h number of
             None \<Rightarrow> (None, hc\<lparr>tdCache := c\<rparr>)
           | Some d \<Rightarrow> (Some d, hc\<lparr>tdCache := lru_Add (tdLru E) c h d\<rparr>)))"

definition GetTdByHash :: "'c hc_env \<Rightarrow> hash \<Rightarrow> 'c headerChain \<Rightarrow> bigint option \<times> 'c headerChain" where
  "GetTdByHash E h hc =
     (case GetBlockNumber E h hc of (None, hc1) \<Rightarrow> (None, hc1) | (Some n, hc1) \<Rightarrow> GetTd E h n hc1)"

definition hc_WriteTd :: "'c hc_env \<Rightarrow> hash \<Rightarrow> u64 \<Rightarrow> bigint \<Rightarrow> 'c headerChain \<Rightarrow> 'c headerChain option" where
  "hc_WriteTd E h number d hc =
     do { db \<leftarrow> WriteTd (hc_codec E) db_writer (chainDb hc) h number d;
          Some (hc\<lparr>chainDb := db, tdCache := lru_Add (tdLru E) (tdCache hc) h d\<rparr>) }"

definition hc_GetHeader :: "'c hc_env \<Rightarrow> hash \<Rightarrow> u64 \<Rightarrow> 'c headerChain \<Rightarrow> header option \<times> 'c headerChain" where
  "hc_GetHeader E h number hc =
     (case lru_Get (headerLru E) (headerCache hc) h of
        (Some x, c) \<Rightarrow> (Some x, hc\<lparr>headerCache := c\<rparr>)
      | (None, c) \<Rightarrow>
          (case ReadHeader (hc_codec E) (chainDb hc) h number of
             None \<Rightarrow> (None, hc\<lparr>headerCache := c\<rparr>)
           | Some x \<Rightarrow> (Some x, hc\<lparr>headerCache := lru_Add (headerLru E) c h x\<rparr>)))"

definition hc_GetHeaderByHash :: "'c hc_env \<Rightarrow> hash \<Rightarrow> 'c headerChain \<Rightarrow> header option \<times> 'c headerChain" where
  "hc_GetHeaderByHash E h hc =
     (case GetBlockNumber E h hc of (None, hc1) \<Rightarrow> (None, hc1) | (Some n, hc1) \<Rightarrow> hc_GetHeader E h n hc1)"

definition hc_HasHeader :: "'c hc_env \<Rightarrow> hash \<Rightarrow> u64 \<Rightarrow> 'c headerChain \<Rightarrow> bool" where
  "hc_HasHeader E h number hc =
     (if lru_Contains (numberLru E) (numberCache hc) h \<or> lru_Contains (headerLru E) (headerCache hc) h then True
      else rawdb_HasHeader (chainDb hc) h number)"

definition hc_GetHeaderByNumber :: "'c hc_env \<Rightarrow> u64 \<Rightarrow> 'c headerChain \<Rightarrow> header option \<times> 'c headerChain" where
  "hc_GetHeaderByNumber E number hc =
     (let h = ReadCanonicalHash (chainDb hc) number in if h = 0 then (None, hc) else hc_GetHeader E h number hc)"

section \<open>The head\<close>

definition SetCurrentHeader :: "'c hc_env \<Rightarrow> header \<Rightarrow> 'c headerChain \<Rightarrow> 'c headerChain option" where
  "SetCurrentHeader E head hc =
     do { db \<leftarrow> WriteHeadHeaderHash db_writer (chainDb hc) (hdr_hash E head);
          Some (hc\<lparr>chainDb := db, currentHeader := Some head, currentHeaderHash := hdr_hash E head\<rparr>) }"

definition SetGenesis :: "header \<Rightarrow> 'c headerChain \<Rightarrow> 'c headerChain" where
  "SetGenesis head hc = hc\<lparr>genesisHeader := Some head\<rparr>"

text \<open>\<open>NewHeaderChain\<close>: \<open>c0\<close> is a new cache.\<close>

definition NewHeaderChain :: "'c hc_env \<Rightarrow> 'c \<Rightarrow> memdb \<Rightarrow> chain_error + 'c headerChain" where
  "NewHeaderChain E c0 db =
     (let hc = \<lparr>chainDb = db, genesisHeader = None, currentHeader = None, currentHeaderHash = 0,
                headerCache = c0, tdCache = c0, numberCache = c0\<rparr> in
      case hc_GetHeaderByNumber E 0 hc of
        (None, _) \<Rightarrow> Inl ErrNoGenesis
      | (Some g, hc1) \<Rightarrow>
          let hc2 = hc1\<lparr>genesisHeader := Some g, currentHeader := Some g\<rparr>;
              head = ReadHeadBlockHash db;
              (cur, hc3) = (if head \<noteq> 0 then
                              (case hc_GetHeaderByHash E head hc2 of
                                 (Some chead, hc3) \<Rightarrow> (chead, hc3\<lparr>currentHeader := Some chead\<rparr>)
                               | (None, hc3) \<Rightarrow> (g, hc3))
                            else (g, hc2))
          in Inr (hc3\<lparr>currentHeaderHash := hdr_hash E cur\<rparr>))"

section \<open>Writing a header\<close>

text \<open>The canonical numbers above the new head, as long as there are any, are deleted in a batch.\<close>

partial_function (option) delete_above :: "memdb \<Rightarrow> u64 \<Rightarrow> batch \<Rightarrow> batch option" where
  "delete_above db i b =
     (if ReadCanonicalHash db i = 0 then Some b
      else Option.bind (DeleteCanonicalHash batch_writer b i) (delete_above db (i + 1)))"

text \<open>The stale numbers below it are overwritten along the parents.\<close>

partial_function (option) overwrite_canonical ::
  "'c hc_env \<Rightarrow> hash \<Rightarrow> u64 \<Rightarrow> header option \<Rightarrow> 'c headerChain \<Rightarrow> 'c headerChain option" where
  "overwrite_canonical E headHash headNumber headHeader hc =
     (if ReadCanonicalHash (chainDb hc) headNumber = headHash then Some hc
      else
        case WriteCanonicalHash db_writer (chainDb hc) headHash headNumber of
          None \<Rightarrow> None
        | Some db \<Rightarrow>
            (case headHeader of
               None \<Rightarrow> None
             | Some x \<Rightarrow>
                 (case Uint64 (Number x) of
                    None \<Rightarrow> None
                  | Some n \<Rightarrow>
                      (case hc_GetHeader E (ParentHash x) (n - 1) (hc\<lparr>chainDb := db\<rparr>) of
                         (p, hc1) \<Rightarrow> overwrite_canonical E (ParentHash x) (n - 1) p hc1))))"

definition make_canonical :: "'c hc_env \<Rightarrow> header \<Rightarrow> hash \<Rightarrow> u64 \<Rightarrow> 'c headerChain \<Rightarrow> 'c headerChain option" where
  "make_canonical E header h number hc =
     do { b \<leftarrow> delete_above (chainDb hc) (number + 1) NewBatch;
          db \<leftarrow> batch_Write b (chainDb hc);
          let (p, hc1) = hc_GetHeader E (ParentHash header) (number - 1) (hc\<lparr>chainDb := db\<rparr>);
          hc2 \<leftarrow> overwrite_canonical E (ParentHash header) (number - 1) p hc1;
          db2 \<leftarrow> WriteCanonicalHash db_writer (chainDb hc2) h number;
          db3 \<leftarrow> WriteHeadHeaderHash db_writer db2 h;
          Some (hc2\<lparr>chainDb := db3, currentHeaderHash := h, currentHeader := Some (CopyHeader header)\<rparr>) }"

definition hc_WriteHeader ::
  "'c hc_env \<Rightarrow> bool \<Rightarrow> header \<Rightarrow> 'c headerChain \<Rightarrow> ((writeStatus \<times> chain_error option) \<times> 'c headerChain) option" where
  "hc_WriteHeader E coin header hc =
     do { number \<leftarrow> Uint64 (Number header);
          let h = hdr_hash E header;
          case GetTd E (ParentHash header) (number - 1) hc of
            (None, hc1) \<Rightarrow> Some ((NonStatTy, Some (EngineErr ErrUnknownAncestor)), hc1)
          | (Some ptd, hc1) \<Rightarrow>
              do { cur \<leftarrow> currentHeader hc1;
                   curNumber \<leftarrow> Uint64 (Number cur);
                   let (localTd, hc2) = GetTd E (currentHeaderHash hc1) curNumber hc1;
                   d \<leftarrow> Difficulty header;
                   let externTd = d + ptd;
                   hc3 \<leftarrow> hc_WriteTd E h number externTd hc2;
                   db \<leftarrow> WriteHeader (hc_codec E) db_writer (chainDb hc3) header;
                   let hc4 = hc3\<lparr>chainDb := db\<rparr>;
                   ltd \<leftarrow> localTd;
                   (status, hc5) \<leftarrow>
                     (if externTd > ltd \<or> (externTd = ltd \<and> coin)
                      then map_option (Pair CanonStatTy) (make_canonical E header h number hc4)
                      else Some (SideStatTy, hc4));
                   Some ((status, None), hc5\<lparr>headerCache := lru_Add (headerLru E) (headerCache hc5) h header,
                                            numberCache := lru_Add (numberLru E) (numberCache hc5) h number\<rparr>) } }"

section \<open>Chains of headers\<close>

fun contiguous_headers :: "'c hc_env \<Rightarrow> header list \<Rightarrow> bool option" where
  "contiguous_headers E (a # b # hs) =
     do { bn \<leftarrow> Uint64 (Number b);
          an \<leftarrow> Uint64 (Number a);
          if bn \<noteq> an + 1 \<or> ParentHash b \<noteq> hdr_hash E a then Some False else contiguous_headers E (b # hs) }"
| "contiguous_headers E _ = Some True"

text \<open>Which seals to verify: one random header of each stretch of \<open>checkFreq\<close>, and the last. \<open>draw i\<close> is the result of
  \<open>Intn(checkFreq)\<close> in round \<open>i\<close>. An empty chain has no last element, which panics.\<close>

definition pick_seals :: "(nat \<Rightarrow> nat) \<Rightarrow> nat \<Rightarrow> nat \<Rightarrow> bool list option" where
  "pick_seals draw checkFreq n =
     (if checkFreq = 0 then Some (replicate n False)
      else
        let seals = fold (\<lambda>i s. let index = i * checkFreq + draw i in s[(if index \<ge> n then n - 1 else index) := True])
                      [0..<n div checkFreq] (replicate n False)
        in if n = 0 then None else Some (seals[n - 1 := True]))"

text \<open>One result is read for each header, the interrupt flag is tested before each; an error ends the loop with its
  index. Waiting for a result that never comes is \<^const>\<open>None\<close>.\<close>

fun await_results :: "bool \<Rightarrow> nat \<Rightarrow> nat \<Rightarrow> chain_error option list \<Rightarrow> (nat \<times> chain_error option) option" where
  "await_results interrupted i 0 rs = Some (0, None)"
| "await_results interrupted i (Suc n) rs =
     (if interrupted then Some (0, Some errAborted)
      else case rs of
             [] \<Rightarrow> None
           | r # rs' \<Rightarrow> (case r of Some e \<Rightarrow> Some (i, Some e) | None \<Rightarrow> await_results interrupted (i + 1) n rs'))"

definition ValidateHeaderChain ::
  "'c hc_env \<Rightarrow> (header list \<Rightarrow> bool list \<Rightarrow> chain_error option list) \<Rightarrow> bool \<Rightarrow> (nat \<Rightarrow> nat) \<Rightarrow> header list \<Rightarrow> nat \<Rightarrow>
     (nat \<times> chain_error option) option" where
  "ValidateHeaderChain E verify interrupted draw chain checkFreq =
     do { ordered \<leftarrow> contiguous_headers E chain;
          if \<not> ordered then Some (0, Some errNonContiguous)
          else do { seals \<leftarrow> pick_seals draw checkFreq (length chain);
                    await_results interrupted 0 (length chain) (verify chain seals) } }"

text \<open>\<open>writeHeader\<close> is the callback; the coins are tossed by it.\<close>

fun InsertHeaderChain_loop ::
  "'c hc_env \<Rightarrow> (nat \<Rightarrow> header \<Rightarrow> 'c headerChain \<Rightarrow> (chain_error option \<times> 'c headerChain) option) \<Rightarrow> bool \<Rightarrow> nat \<Rightarrow>
     header list \<Rightarrow> 'c headerChain \<Rightarrow> ((nat \<times> chain_error option) \<times> 'c headerChain) option" where
  "InsertHeaderChain_loop E writeHeader interrupted i [] hc = Some ((0, None), hc)"
| "InsertHeaderChain_loop E writeHeader interrupted i (x # xs) hc =
     (if interrupted then Some ((i, Some errAborted), hc)
      else case Uint64 (Number x) of
             None \<Rightarrow> None
           | Some n \<Rightarrow>
               if hc_HasHeader E (hdr_hash E x) n hc then InsertHeaderChain_loop E writeHeader interrupted (i + 1) xs hc
               else (case writeHeader i x hc of
                       None \<Rightarrow> None
                     | Some (Some e, hc1) \<Rightarrow> Some ((i, Some e), hc1)
                     | Some (None, hc1) \<Rightarrow> InsertHeaderChain_loop E writeHeader interrupted (i + 1) xs hc1))"

definition hc_InsertHeaderChain ::
  "'c hc_env \<Rightarrow> (nat \<Rightarrow> header \<Rightarrow> 'c headerChain \<Rightarrow> (chain_error option \<times> 'c headerChain) option) \<Rightarrow> bool \<Rightarrow>
     header list \<Rightarrow> 'c headerChain \<Rightarrow> ((nat \<times> chain_error option) \<times> 'c headerChain) option" where
  "hc_InsertHeaderChain E writeHeader interrupted chain hc = InsertHeaderChain_loop E writeHeader interrupted 0 chain hc"

section \<open>Ancestors\<close>

fun hashes_loop :: "'c hc_env \<Rightarrow> nat \<Rightarrow> header \<Rightarrow> 'c headerChain \<Rightarrow> (hash list \<times> 'c headerChain) option" where
  "hashes_loop E 0 x hc = Some ([], hc)"
| "hashes_loop E (Suc k) x hc =
     (case Uint64 (Number x) of
        None \<Rightarrow> None
      | Some n \<Rightarrow>
          (case hc_GetHeader E (ParentHash x) (n - 1) hc of
             (None, hc1) \<Rightarrow> Some ([], hc1)
           | (Some p, hc1) \<Rightarrow>
               (case Number p of
                  None \<Rightarrow> None
                | Some pn \<Rightarrow>
                    if pn = 0 then Some ([ParentHash x], hc1)
                    else map_option (\<lambda>(hs, hc2). (ParentHash x # hs, hc2)) (hashes_loop E k p hc1))))"

definition hc_GetBlockHashesFromHash :: "'c hc_env \<Rightarrow> hash \<Rightarrow> u64 \<Rightarrow> 'c headerChain \<Rightarrow> (hash list \<times> 'c headerChain) option" where
  "hc_GetBlockHashesFromHash E h n hc =
     (case hc_GetHeaderByHash E h hc of
        (None, hc1) \<Rightarrow> Some ([], hc1)
      | (Some x, hc1) \<Rightarrow> hashes_loop E (unat n) x hc1)"

text \<open>The counter \<open>maxNonCanonical\<close> is a pointer: its new value is returned.\<close>

fun ancestor_loop ::
  "'c hc_env \<Rightarrow> nat \<Rightarrow> hash \<Rightarrow> u64 \<Rightarrow> u64 \<Rightarrow> 'c headerChain \<Rightarrow> (hash \<times> u64) \<times> u64 \<times> 'c headerChain" where
  "ancestor_loop E 0 h number m hc = ((h, number), m, hc)"
| "ancestor_loop E (Suc a) h number m hc =
     (if ReadCanonicalHash (chainDb hc) number = h
      then let number' = number - of_nat (Suc a) in ((ReadCanonicalHash (chainDb hc) number', number'), m, hc)
      else if m = 0 then ((0, 0), m, hc)
      else case hc_GetHeader E h number hc of
             (None, hc1) \<Rightarrow> ((0, 0), m - 1, hc1)
           | (Some x, hc1) \<Rightarrow> ancestor_loop E a (ParentHash x) (number - 1) (m - 1) hc1)"

definition hc_GetAncestor ::
  "'c hc_env \<Rightarrow> hash \<Rightarrow> u64 \<Rightarrow> u64 \<Rightarrow> u64 \<Rightarrow> 'c headerChain \<Rightarrow> (hash \<times> u64) \<times> u64 \<times> 'c headerChain" where
  "hc_GetAncestor E h number ancestor m hc =
     (if ancestor > number then ((0, 0), m, hc)
      else if ancestor = 1 then
        (case hc_GetHeader E h number hc of
           (Some x, hc1) \<Rightarrow> ((ParentHash x, number - 1), m, hc1)
         | (None, hc1) \<Rightarrow> ((0, 0), m, hc1))
      else ancestor_loop E (unat ancestor) h number m hc)"

section \<open>Rewinding\<close>

text \<open>\<open>delFn\<close> is the callback that deletes what else belongs to a block.\<close>

partial_function (option) rewind ::
  "'c hc_env \<Rightarrow> (batch \<Rightarrow> hash \<Rightarrow> u64 \<Rightarrow> batch option) option \<Rightarrow> u64 \<Rightarrow> batch \<Rightarrow> 'c headerChain \<Rightarrow> (batch \<times> 'c headerChain) option" where
  "rewind E delFn head b hc =
     (case currentHeader hc of
        None \<Rightarrow> Some (b, hc)
      | Some x \<Rightarrow>
          (case Uint64 (Number x) of
             None \<Rightarrow> None
           | Some n \<Rightarrow>
               if n > head then
                 (case Option.bind (case delFn of None \<Rightarrow> Some b | Some f \<Rightarrow> f b (hdr_hash E x) n)
                         (\<lambda>b. Option.bind (DeleteHeader batch_writer b (hdr_hash E x) n)
                           (\<lambda>b. DeleteTd batch_writer b (hdr_hash E x) n)) of
                    None \<Rightarrow> None
                  | Some b1 \<Rightarrow>
                      (case hc_GetHeader E (ParentHash x) (n - 1) hc of
                         (p, hc1) \<Rightarrow> rewind E delFn head b1 (hc1\<lparr>currentHeader := p\<rparr>)))
               else Some (b, hc)))"

text \<open>\<open>for i := height; i > head; i--\<close>\<close>

fun delete_numbers :: "nat \<Rightarrow> u64 \<Rightarrow> batch \<Rightarrow> batch option" where
  "delete_numbers 0 head b = Some b"
| "delete_numbers (Suc i) head b =
     (if of_nat (Suc i) > head
      then Option.bind (DeleteCanonicalHash batch_writer b (of_nat (Suc i))) (delete_numbers i head)
      else Some b)"

definition hc_SetHead ::
  "'c hc_env \<Rightarrow> u64 \<Rightarrow> (batch \<Rightarrow> hash \<Rightarrow> u64 \<Rightarrow> batch option) option \<Rightarrow> 'c headerChain \<Rightarrow> 'c headerChain option" where
  "hc_SetHead E head delFn hc =
     do { height \<leftarrow> (case currentHeader hc of None \<Rightarrow> Some 0 | Some x \<Rightarrow> Uint64 (Number x));
          (b, hc1) \<leftarrow> rewind E delFn head NewBatch hc;
          b2 \<leftarrow> delete_numbers (unat height) head b;
          db \<leftarrow> batch_Write b2 (chainDb hc1);
          let hc2 = hc1\<lparr>chainDb := db, headerCache := lru_Purge (headerLru E) (headerCache hc1),
                        tdCache := lru_Purge (tdLru E) (tdCache hc1), numberCache := lru_Purge (numberLru E) (numberCache hc1)\<rparr>;
          let hc3 = (if currentHeader hc2 = None then hc2\<lparr>currentHeader := genesisHeader hc2\<rparr> else hc2);
          cur \<leftarrow> currentHeader hc3;
          db \<leftarrow> WriteHeadHeaderHash db_writer (chainDb hc3) (hdr_hash E cur);
          Some (hc3\<lparr>chainDb := db, currentHeaderHash := hdr_hash E cur\<rparr>) }"

end
