(* ===== verification/State_Process.thy ===== *)
theory State_Process
  imports State_Transition Receipts "HOL-Library.Monad_Syntax"
begin

text \<open>
  Processing a block and validating its result: \<open>core/state_processor.go\<close>, \<open>core/block_validator.go\<close> and \<open>NewEVMContext\<close>,
  \<open>GetHashFn\<close> of \<open>core/evm.go\<close>.

  The hash and the signer of a transaction, the engine (its author of a header and its \<open>Finalize\<close>), the root hash of a list
  (\<open>DeriveSha\<close>, over the trie hasher) and the order of the ranges over maps are arguments. A panic is \<^const>\<open>None\<close>.
\<close>

record 't proc_env =
  pr_state :: "'t senv"
  pr_sender :: "transaction \<Rightarrow> address option"
  pr_txhash :: "transaction \<Rightarrow> hash"
  pr_arng :: "address list \<Rightarrow> address list"
  pr_rng :: "hash list \<Rightarrow> hash list"
  pr_Author :: "header \<Rightarrow> address"
  pr_Finalize :: "header \<Rightarrow> 't stateDB \<Rightarrow> transaction list \<Rightarrow> header list \<Rightarrow> receipt list \<Rightarrow> 't stateDB option"
  pr_kec :: "bytes \<Rightarrow> hash"
  pr_deriveTxs :: "transaction list \<Rightarrow> hash"
  pr_deriveReceipts :: "receipt list \<Rightarrow> hash"

section \<open>The context of a message\<close>

record evm_context =
  ctx_Origin :: address
  ctx_Coinbase :: address
  ctx_BlockNumber :: bigint
  ctx_Difficulty :: bigint
  ctx_GasLimit :: u64
  ctx_GasPrice :: bigint

text \<open>The author is an argument for the miner and comes from the header otherwise. A header without number or difficulty is
  a nil pointer.\<close>

definition NewEVMContext :: "'t proc_env \<Rightarrow> message \<Rightarrow> header \<Rightarrow> address option \<Rightarrow> evm_context option" where
  "NewEVMContext E msg h author =
     (case Number h of
        None \<Rightarrow> None
      | Some n \<Rightarrow>
          (case Difficulty h of
             None \<Rightarrow> None
           | Some d \<Rightarrow> Some \<lparr>ctx_Origin = m_from msg, ctx_Coinbase = (case author of None \<Rightarrow> pr_Author E h | Some a \<Rightarrow> a),
               ctx_BlockNumber = n, ctx_Difficulty = d, ctx_GasLimit = header.GasLimit h, ctx_GasPrice = m_gasPrice msg\<rparr>))"

text \<open>\<open>GetHashFn\<close>: the function keeps a map from numbers to hashes, filled along the parents; here it takes the map and
  returns it. \<open>get\<close> is \<open>GetHeader\<close> of the chain.\<close>

partial_function (option) hash_walk ::
  "(hash \<Rightarrow> u64 \<Rightarrow> header option) \<Rightarrow> u64 \<Rightarrow> header option \<Rightarrow> (u64, hash) gomap \<Rightarrow> (hash \<times> (u64, hash) gomap) option" where
  "hash_walk get n h cache =
     (case h of
        None \<Rightarrow> Some (0, cache)
      | Some x \<Rightarrow>
          (case Uint64 (Number x) of
             None \<Rightarrow> None
           | Some k \<Rightarrow>
               if n = k - 1 then Some (ParentHash x, gm_put cache (k - 1) (ParentHash x))
               else hash_walk get n (get (ParentHash x) (k - 1)) (gm_put cache (k - 1) (ParentHash x))))"

definition GetHashFn ::
  "(hash \<Rightarrow> u64 \<Rightarrow> header option) \<Rightarrow> header \<Rightarrow> u64 \<Rightarrow> (u64, hash) gomap option \<Rightarrow> (hash \<times> (u64, hash) gomap) option" where
  "GetHashFn get ref n cache' =
     do { k \<leftarrow> Uint64 (Number ref);
          let cache = (case cache' of None \<Rightarrow> [(k - 1, ParentHash ref)] | Some c \<Rightarrow> c);
          case gm_get cache n of
            Some h \<Rightarrow> Some (h, cache)
          | None \<Rightarrow> hash_walk get n (get (ParentHash ref) (k - 1)) cache }"

section \<open>Applying the transactions of a block\<close>

text \<open>\<open>ApplyTransaction\<close>: the receipt with the gas used or the error, then the gas pool, the state and the used gas, which
  are shared and keep what was done before an error.\<close>

definition ApplyTransaction ::
  "'t proc_env \<Rightarrow> address option \<Rightarrow> u64 \<Rightarrow> 't stateDB \<Rightarrow> header \<Rightarrow> transaction \<Rightarrow> u64 \<Rightarrow>
     ((core_error + receipt \<times> u64) \<times> u64 \<times> 't stateDB \<times> u64) option" where
  "ApplyTransaction E author gp s h tx usedGas =
     (case AsMessage (pr_sender E) tx of
        None \<Rightarrow> Some (Inl ErrInvalidSig, gp, s, usedGas)
      | Some msg \<Rightarrow>
          do { ctx \<leftarrow> NewEVMContext E msg h author;
               (r, st) \<leftarrow> ApplyMessage (pr_state E) (ctx_Coinbase ctx) msg gp s;
               case r of
                 Inl e \<Rightarrow> Some (Inl e, st_gp st, st_state st, usedGas)
               | Inr (gas, failed) \<Rightarrow>
                   do { s1 \<leftarrow> Finalise (pr_state E) (pr_arng E) (pr_rng E) True (st_state st);
                        let usedGas1 = usedGas + gas;
                        let r1 = (NewReceipt [] failed usedGas1)\<lparr>rc_TxHash := pr_txhash E tx, rc_GasUsed := gas,
                                   rc_Logs := GetLogs (pr_txhash E tx) s1\<rparr>;
                        bl \<leftarrow> CreateBloom (pr_kec E) [r1];
                        let r2 = r1\<lparr>rc_Bloom := bl, rc_BlockHash := bhash s1, rc_BlockNumber := Number h,
                                   TransactionIndex := word_of_int (txIndex s1)\<rparr>;
                        Some (Inr (r2, gas), st_gp st, s1, usedGas1) } })"

text \<open>The loop of \<open>Process\<close>; \<open>bh\<close> is the hash of the block.\<close>

fun process_txs ::
  "'t proc_env \<Rightarrow> hash \<Rightarrow> header \<Rightarrow> nat \<Rightarrow> transaction list \<Rightarrow> u64 \<Rightarrow> 't stateDB \<Rightarrow> u64 \<Rightarrow>
     ((core_error + receipt list \<times> u64) \<times> 't stateDB) option" where
  "process_txs E bh h i [] gp s used = Some (Inr ([], used), s)"
| "process_txs E bh h i (tx # txs) gp s used =
     (case ApplyTransaction E None gp (state_Prepare (pr_txhash E tx) bh (int i) s) h tx used of
        None \<Rightarrow> None
      | Some (Inl e, gp1, s1, used1) \<Rightarrow> Some (Inl e, s1)
      | Some (Inr (r, gas), gp1, s1, used1) \<Rightarrow>
          (case process_txs E bh h (i + 1) txs gp1 s1 used1 of
             None \<Rightarrow> None
           | Some (Inl e, s2) \<Rightarrow> Some (Inl e, s2)
           | Some (Inr (rs, used2), s2) \<Rightarrow> Some (Inr (r # rs, used2), s2)))"

definition Process ::
  "'t proc_env \<Rightarrow> hash \<Rightarrow> block \<Rightarrow> 't stateDB \<Rightarrow> ((core_error + receipt list \<times> log list \<times> u64) \<times> 't stateDB) option" where
  "Process E bh b s =
     do { gp \<leftarrow> AddGas 0 (header.GasLimit (bheader b));
          (r, s1) \<leftarrow> process_txs E bh (block_Header b) 0 (transactions b) gp s 0;
          case r of
            Inl e \<Rightarrow> Some (Inl e, s1)
          | Inr (rs, used) \<Rightarrow>
              do { s2 \<leftarrow> pr_Finalize E (block_Header b) s1 (transactions b) (uncles b) rs;
                   Some (Inr (rs, concat (map rc_Logs rs), used), s2) } }"

section \<open>Validation\<close>

datatype state_error = GasMismatch | BloomMismatch | ReceiptMismatch | RootMismatch

text \<open>\<open>ValidateState\<close> computes the root of the state, which finalises it.\<close>

definition ValidateState ::
  "'t proc_env \<Rightarrow> block \<Rightarrow> 't stateDB \<Rightarrow> receipt list \<Rightarrow> u64 \<Rightarrow> (state_error option \<times> 't stateDB) option" where
  "ValidateState E b s rs usedGas =
     (if GasUsed (bheader b) \<noteq> usedGas then Some (Some GasMismatch, s)
      else do { rbloom \<leftarrow> CreateBloom (pr_kec E) rs;
                if rbloom \<noteq> Bloom (bheader b) then Some (Some BloomMismatch, s)
                else if pr_deriveReceipts E rs \<noteq> ReceiptHash (bheader b) then Some (Some ReceiptMismatch, s)
                else do { (root, s1) \<leftarrow> IntermediateRoot (pr_state E) (pr_arng E) (pr_rng E) True s;
                          Some (if Root (bheader b) \<noteq> root then Some RootMismatch else None, s1) } })"

definition GasLimitBoundDivisor :: u64 where "GasLimitBoundDivisor = 1024"
definition MinGasLimit :: u64 where "MinGasLimit = 5000"

definition CalcGasLimit :: "header \<Rightarrow> u64 \<Rightarrow> u64 \<Rightarrow> u64" where
  "CalcGasLimit parent gasFloor gasCeil =
     (let used = GasUsed parent; pl = header.GasLimit parent;
          contrib = (used + used div 2) div GasLimitBoundDivisor;
          decay = pl div GasLimitBoundDivisor - 1;
          limit0 = pl - decay + contrib;
          limit = (if limit0 < MinGasLimit then MinGasLimit else limit0)
      in if limit < gasFloor then (let l = pl + decay in if l > gasFloor then gasFloor else l)
         else if limit > gasCeil then (let l = pl - decay in if l < gasCeil then gasCeil else l)
         else limit)"

section \<open>Gas of a transition\<close>

text \<open>Whatever the state, a transition returns, and the pool loses what a transaction used.\<close>

lemma preCheck_gas:
  assumes "preCheck env msg (NewStateTransition gp s) = (None, st1)"
  shows "m_gasLimit msg \<le> gp \<and> st_gp st1 = gp - m_gasLimit msg \<and> st_gas st1 = m_gasLimit msg \<and> st_initialGas st1 = m_gasLimit msg"
  using assms
  by (auto simp: preCheck_def buyGas_def NewStateTransition_def SubGas_def Let_def not_less split: if_splits prod.splits sum.splits)

lemma evm_Call_gas: "evm_Call env depth caller addr gas val s = ((left, err), s') \<Longrightarrow> left = gas"
  by (auto simp: evm_Call_def Let_def split: if_splits prod.splits)

lemma word_sub_le: "(a :: u64) \<le> b \<Longrightarrow> b - a \<le> b"
  by (simp add: word_le_nat_alt unat_sub_if_size)

lemma unat_u64: "unat (x :: u64) < 2 ^ 64"
  using unsigned_less [of x, where ?'a = nat] by simp

lemma unat_room: "unat (MaxUint64 - x) = 2 ^ 64 - 1 - unat x"
  using unat_u64 [of x] by (simp add: MaxUint64_def unat_sub_if_size word_size unsigned_minus_1_eq_mask mask_eq_exp_minus_1)

lemma refundGas_gas:
  assumes "st_gas st \<le> st_initialGas st" "st_initialGas st \<le> gp" "st_gp st = gp - st_initialGas st"
  shows "\<exists>st'. refundGas env msg st = Some st' \<and> st_gp st' = gp - gasUsed st' \<and> gasUsed st' \<le> st_initialGas st
    \<and> st_initialGas st' = st_initialGas st \<and> uint (gasUsed st') = uint (st_initialGas st) - uint (st_gas st')"
proof -
  let ?gl = "st_initialGas st" and ?g = "st_gas st"
  define rf where "rf = (if gasUsed st div 2 > GetRefund (st_state st) then GetRefund (st_state st) else gasUsed st div 2)"
  have u: "gasUsed st = ?gl - ?g" by (simp add: gasUsed_def)
  have "rf \<le> gasUsed st div 2" by (auto simp: rf_def)
  moreover have "gasUsed st div 2 \<le> gasUsed st" by (simp add: word_le_nat_alt unat_div)
  ultimately have rf: "rf \<le> ?gl - ?g" using u by simp
  have n: "unat (?g + rf) = unat ?g + unat rf" "unat ?g + unat rf \<le> unat ?gl"
    using rf assms(1) unat_u64 [of ?gl] by (simp_all add: word_le_nat_alt unat_sub_if_size unat_add_lem [THEN iffD1])
  have gas: "?g + rf \<le> ?gl" using n by (simp add: word_le_nat_alt)
  have fits: "\<not> st_gp st > MaxUint64 - (?g + rf)"
  proof -
    have "unat (st_gp st) + unat (?g + rf) \<le> unat gp" using assms(2,3) n by (simp add: word_le_nat_alt unat_sub_if_size)
    then show ?thesis using unat_u64 [of gp] by (simp add: word_less_nat_alt unat_room)
  qed
  define st' where "st' = st\<lparr>st_gas := ?g + rf, st_gp := st_gp st + (?g + rf),
    st_state := AddBalance env (m_from msg) (uint (?g + rf) * m_gasPrice msg) (st_state st)\<rparr>"
  have "refundGas env msg st = Some st'"
    using fits by (simp add: refundGas_def Let_def AddGas_def st'_def rf_def)
  moreover have "gasUsed st' = ?gl - (?g + rf)" "st_initialGas st' = ?gl" by (simp_all add: st'_def gasUsed_def)
  moreover have "st_gp st' = gp - (?gl - (?g + rf))" by (simp add: st'_def assms(3))
  moreover have "uint (?gl - (?g + rf)) = uint ?gl - uint (?g + rf)" using gas by (simp add: uint_sub_lem [THEN iffD1] word_le_def)
  ultimately show ?thesis using word_sub_le [OF gas] by (simp add: st'_def)
qed

lemma TransitionDb_gas:
  shows "\<exists>r st'. TransitionDb env coinbase msg (NewStateTransition gp s) = Some (r, st')
    \<and> (\<forall>used failed. r = Inr (used, failed) \<longrightarrow> used \<le> m_gasLimit msg \<and> m_gasLimit msg \<le> gp \<and> st_gp st' = gp - used)"
proof -
  obtain e st1 where p: "preCheck env msg (NewStateTransition gp s) = (e, st1)" by fastforce
  show ?thesis
  proof (cases e)
    case (Some x)
    then show ?thesis using p by (simp add: TransitionDb_def)
  next
    case None
    note g1 = preCheck_gas [OF p [unfolded None]]
    show ?thesis
    proof (cases "IntrinsicGas (m_data msg) False")
      case (Inl x)
      then show ?thesis using p None by (simp add: TransitionDb_def)
    next
      case (Inr ig)
      show ?thesis
      proof (cases "st_gas st1 < ig")
        case True
        then show ?thesis using p None Inr by (simp add: TransitionDb_def useGas_def)
      next
        case False
        obtain nonce s3 where n: "GetNonce env (m_from msg) (st_state st1) = (nonce, s3)" by fastforce
        obtain left err s5 where c: "evm_Call env 0 (m_from msg) (st_to msg) (st_gas st1 - ig) (m_amount msg)
            (SetNonce env (m_from msg) (nonce + 1) s3) = ((left, err), s5)" by (metis prod.collapse)
        note l = evm_Call_gas [OF c]
        let ?st3 = "st1\<lparr>st_gas := left, st_state := s5\<rparr>"
        have "st_gas ?st3 \<le> m_gasLimit msg" using l False g1 word_sub_le by (simp add: not_less)
        then obtain st4 where st4: "refundGas env msg ?st3 = Some st4" "st_gp st4 = gp - gasUsed st4" "gasUsed st4 \<le> m_gasLimit msg"
          using refundGas_gas [of ?st3 gp env msg] g1 by auto
        show ?thesis using p None Inr False n c st4 g1
          by (auto simp: TransitionDb_def useGas_def gasUsed_def)
      qed
    qed
  qed
qed

section \<open>Gas of a block\<close>

lemma ApplyTransaction_gas:
  assumes "ApplyTransaction E author gp s h tx used = Some (Inr (r, gas), gp1, s1, used1)"
  shows "gas \<le> transaction.GasLimit tx" "gas \<le> gp" "gp1 = gp - gas" "used1 = used + gas" "CumulativeGasUsed r = used + gas"
    "rc_GasUsed r = gas" "rc_TxHash r = pr_txhash E tx" "ContractAddress r = 0" "PostState r = []" "rc_Status r \<le> 1"
    "CreateBloom (pr_kec E) [r] = Some (rc_Bloom r)" "rc_BlockNumber r = Number h" "rc_Logs r = GetLogs (pr_txhash E tx) s1"
    "rc_BlockHash r = bhash s1" "TransactionIndex r = word_of_int (txIndex s1)"
proof -
  obtain msg where msg: "AsMessage (pr_sender E) tx = Some msg" using assms by (auto simp: ApplyTransaction_def split: option.splits)
  then have gl: "m_gasLimit msg = transaction.GasLimit tx" by (auto simp: AsMessage_def NewMessage_def split: option.splits)
  obtain ctx q st where q: "NewEVMContext E msg h author = Some ctx" "ApplyMessage (pr_state E) (ctx_Coinbase ctx) msg gp s = Some (q, st)"
    using assms msg by (force simp: ApplyTransaction_def bind_eq_Some_conv)
  obtain failed where q': "q = Inr (gas, failed)"
    using assms msg q by (cases q) (auto simp: ApplyTransaction_def bind_eq_Some_conv Let_def)
  obtain bl where 1: "ApplyMessage (pr_state E) (ctx_Coinbase ctx) msg gp s = Some (Inr (gas, failed), st)"
    "gp1 = st_gp st" "used1 = used + gas"
    "CreateBloom (pr_kec E) [(NewReceipt [] failed (used + gas))\<lparr>rc_TxHash := pr_txhash E tx, rc_GasUsed := gas,
                                   rc_Logs := GetLogs (pr_txhash E tx) s1\<rparr>] = Some bl"
    "r = (NewReceipt [] failed (used + gas))\<lparr>rc_TxHash := pr_txhash E tx, rc_GasUsed := gas, rc_Logs := GetLogs (pr_txhash E tx) s1,
       rc_Bloom := bl, rc_BlockHash := bhash s1, rc_BlockNumber := Number h, TransactionIndex := word_of_int (txIndex s1)\<rparr>"
    using assms msg q unfolding q' by (auto simp: ApplyTransaction_def bind_eq_Some_conv Let_def)
  have g: "gas \<le> m_gasLimit msg \<and> m_gasLimit msg \<le> gp \<and> st_gp st = gp - gas"
    using TransitionDb_gas [of "pr_state E" "ctx_Coinbase ctx" msg gp s] 1(1) by (auto simp: ApplyMessage_def)
  have "CreateBloom (pr_kec E) [r] = Some bl" using 1(4) by (simp add: CreateBloom_def 1(5))
  then show "gas \<le> transaction.GasLimit tx" "gas \<le> gp" "gp1 = gp - gas" "used1 = used + gas" "CumulativeGasUsed r = used + gas"
    "rc_GasUsed r = gas" "rc_TxHash r = pr_txhash E tx" "ContractAddress r = 0" "PostState r = []" "rc_Status r \<le> 1"
    "CreateBloom (pr_kec E) [r] = Some (rc_Bloom r)" "rc_BlockNumber r = Number h" "rc_Logs r = GetLogs (pr_txhash E tx) s1"
    "rc_BlockHash r = bhash s1" "TransactionIndex r = word_of_int (txIndex s1)"
    using g gl 1(2,3)
    by (auto simp: 1(5) NewReceipt_def zero_receipt_def ReceiptStatusFailed_def ReceiptStatusSuccessful_def)
qed

text \<open>The cumulative gas of the receipts, over the natural numbers.\<close>

fun gas_sums :: "nat \<Rightarrow> receipt list \<Rightarrow> bool" where
  "gas_sums c [] \<longleftrightarrow> True"
| "gas_sums c (r # rs) \<longleftrightarrow> unat (CumulativeGasUsed r) = c + unat (rc_GasUsed r) \<and> gas_sums (c + unat (rc_GasUsed r)) rs"

lemma process_txs_gas:
  assumes "process_txs E bh h i txs gp s used = Some (Inr (rs, used'), s')" "unat used + unat gp < 2 ^ 64"
  shows "length rs = length txs \<and> gas_sums (unat used) rs \<and> unat used' = unat used + (\<Sum>r \<leftarrow> rs. unat (rc_GasUsed r))
    \<and> (\<Sum>r \<leftarrow> rs. unat (rc_GasUsed r)) \<le> unat gp \<and> list_all2 (\<lambda>r tx. rc_GasUsed r \<le> transaction.GasLimit tx \<and> rc_TxHash r = pr_txhash E tx) rs txs"
  using assms
proof (induction txs arbitrary: i gp s used rs used')
  case (Cons tx txs)
  obtain r gas gp1 s1 used1 rs1 where a: "ApplyTransaction E None gp (state_Prepare (pr_txhash E tx) bh (int i) s) h tx used
      = Some (Inr (r, gas), gp1, s1, used1)"
    and p: "process_txs E bh h (i + 1) txs gp1 s1 used1 = Some (Inr (rs1, used'), s')" and rs: "rs = r # rs1"
    using Cons.prems(1) by (auto split: option.splits sum.splits prod.splits)
  note g = ApplyTransaction_gas [OF a]
  have u1: "unat used1 = unat used + unat gas" "unat gp1 = unat gp - unat gas" "unat gas \<le> unat gp"
    using g(2-4) Cons.prems(2) by (simp_all add: word_le_nat_alt unat_sub_if_size unat_add_lem [THEN iffD1])
  have "unat used1 + unat gp1 < 2 ^ 64" using u1 Cons.prems(2) by simp
  from Cons.IH [OF p this] show ?case using g u1 unfolding rs by auto
qed auto

text \<open>C18: When a block is processed, the gas of its transactions fits into its gas limit, and so no sum wraps: the receipts,
  one for each transaction in their order, add up their gas, each at most the limit of its transaction, and the used gas
  is the sum.\<close>

theorem block_gas_within_limit:
  assumes "Process E bh b s = Some (Inr (rs, ls, used), s')"
  shows "length rs = length (transactions b) \<and> gas_sums 0 rs \<and> unat used = (\<Sum>r \<leftarrow> rs. unat (rc_GasUsed r))
    \<and> used \<le> header.GasLimit (bheader b)
    \<and> list_all2 (\<lambda>r tx. rc_GasUsed r \<le> transaction.GasLimit tx \<and> rc_TxHash r = pr_txhash E tx) rs (transactions b)"
proof -
  obtain q s1 where q: "process_txs E bh (block_Header b) 0 (transactions b) (header.GasLimit (bheader b)) s 0 = Some (q, s1)"
    using assms by (force simp: Process_def AddGas_def bind_eq_Some_conv split: if_splits)
  have p: "process_txs E bh (block_Header b) 0 (transactions b) (header.GasLimit (bheader b)) s 0 = Some (Inr (rs, used), s1)"
    using assms q by (cases q) (auto simp: Process_def AddGas_def bind_eq_Some_conv split: if_splits)
  show ?thesis using process_txs_gas [OF p] unat_u64 [of "header.GasLimit (bheader b)"] by (auto simp: word_le_nat_alt)
qed

end
