(* ===== verification/Block_Chain.thy ===== *)
theory Block_Chain
  imports Header_Chain State_Process Prque
begin

text \<open>
  The chain of blocks, \<open>core/blockchain.go\<close>: its state, lookups, the canonical chain, writing a block, reorganisation.

  A method returns the new chain; \<^const>\<open>None\<close> is a panic or a loop that does not end. Arguments are: the LRU caches, the
  engine's \<open>VerifyHeaders\<close> and \<open>VerifyUncles\<close>, the commit of a state and the store of tries (\<open>trie/database.go\<close>, in the record
  \<open>trie_store\<close>), the order of the range over the preimages, the tosses of \<open>mrand.Float64() < 0.5\<close> (\<open>be_toss\<close>, counted by
  \<open>bc_tosses\<close>), sizes and times. Listeners are represented by the list of the events they are sent. Logs and metrics
  are left out.
\<close>

record ('s, 't) trie_store =
  ts_env :: "'s \<Rightarrow> 't senv"
  ts_StateCommit :: "'s \<Rightarrow> 't stateDB \<Rightarrow> hash option \<times> 't stateDB \<times> 's"
  ts_Commit :: "'s \<Rightarrow> memdb \<Rightarrow> hash \<Rightarrow> bool \<times> 's \<times> memdb"
  ts_Cap :: "'s \<Rightarrow> memdb \<Rightarrow> int \<Rightarrow> 's \<times> memdb"
  ts_Reference :: "'s \<Rightarrow> hash \<Rightarrow> 's"
  ts_Dereference :: "'s \<Rightarrow> hash \<Rightarrow> 's"
  ts_Size :: "'s \<Rightarrow> int \<times> int"

record cacheConfig =
  TrieDirtyLimit :: int
  TrieCleanNoPrefetch :: bool
  TrieDirtyDisabled :: bool
  TrieTimeLimit :: "64 word"

record ('s, 't, 'c) bc_env =
  be_hc :: "'c hc_env"
  bodyLru :: "('c, body) lru"
  bodyRLPLru :: "('c, bytes) lru"
  receiptsLru :: "('c, receipt list) lru"
  blockLru :: "('c, block) lru"
  be_store :: "('s, 't) trie_store"
  be_proc :: "'t proc_env"
  be_VerifyUncles :: "block \<Rightarrow> chain_error option"
  be_VerifyHeaders :: "memdb \<Rightarrow> header list \<Rightarrow> bool list \<Rightarrow> chain_error option list"
  be_config :: cacheConfig
  be_shouldPreserve :: "(block \<Rightarrow> bool) option"
  be_toss :: "nat \<Rightarrow> bool"
  be_rng :: "hash list \<Rightarrow> hash list"
  be_now :: u64
  be_proctime :: "block \<Rightarrow> 64 word"
  be_size :: "block \<Rightarrow> int"
  be_sort :: "block list \<Rightarrow> block list"

datatype chain_event = ChainEvent block hash | ChainHeadEvent block | ChainSideEvent block | LogsEvent "log list" | BlockProcEvent bool

text \<open>\<open>currentBlock\<close> and \<open>currentFastBlock\<close> are \<open>atomic.Value\<close>s: loading one that was never stored panics; what is stored may be a
  nil pointer.\<close>

record ('s, 'c) blockChain =
  bc_hc :: "'c headerChain"
  bc_store :: 's
  triegc :: "hash prque"
  gcproc :: "64 word"
  lastWrite :: u64
  genesisBlock :: "block option"
  currentBlock :: "block option option"
  currentFastBlock :: "block option option"
  bodyCache :: 'c
  bodyRLPCache :: 'c
  receiptsCache :: 'c
  blockCache :: 'c
  futureBlocks :: 'c
  badBlocks :: 'c
  bc_running :: bool
  procInterrupt :: bool
  bc_tosses :: nat
  bc_events :: "chain_event list"

definition triesInMemory :: u64 where "triesInMemory = 128"
definition maxTimeFutureBlocks :: u64 where "maxTimeFutureBlocks = 30"
definition IdealBatchSize :: int where "IdealBatchSize = 100 * 1024"

abbreviation cdc :: "('s, 't, 'c) bc_env \<Rightarrow> chain_codec" where "cdc E \<equiv> hc_codec (be_hc E)"
abbreviation bc_db :: "('s, 'c) blockChain \<Rightarrow> memdb" where "bc_db bc \<equiv> chainDb (bc_hc bc)"
abbreviation bnum :: "block \<Rightarrow> u64 option" where "bnum b \<equiv> Uint64 (Number (bheader b))"
abbreviation blk_hash :: "('s, 't, 'c) bc_env \<Rightarrow> block \<Rightarrow> hash" where "blk_hash E b \<equiv> block_hash (cdc E) b"

definition set_db :: "memdb \<Rightarrow> ('s, 'c) blockChain \<Rightarrow> ('s, 'c) blockChain" where
  "set_db db bc = bc\<lparr>bc_hc := (bc_hc bc)\<lparr>chainDb := db\<rparr>\<rparr>"

text \<open>The operations of the header chain on the chain of blocks.\<close>

definition on_hc :: "('c headerChain \<Rightarrow> 'a \<times> 'c headerChain) \<Rightarrow> ('s, 'c) blockChain \<Rightarrow> 'a \<times> ('s, 'c) blockChain" where
  "on_hc f bc = (case f (bc_hc bc) of (r, hc) \<Rightarrow> (r, bc\<lparr>bc_hc := hc\<rparr>))"

abbreviation bc_GetTd :: "('s, 't, 'c) bc_env \<Rightarrow> hash \<Rightarrow> u64 \<Rightarrow> ('s, 'c) blockChain \<Rightarrow> bigint option \<times> ('s, 'c) blockChain" where
  "bc_GetTd E h n \<equiv> on_hc (GetTd (be_hc E) h n)"

abbreviation bc_GetHeader :: "('s, 't, 'c) bc_env \<Rightarrow> hash \<Rightarrow> u64 \<Rightarrow> ('s, 'c) blockChain \<Rightarrow> header option \<times> ('s, 'c) blockChain" where
  "bc_GetHeader E h n \<equiv> on_hc (hc_GetHeader (be_hc E) h n)"

definition feed :: "chain_event \<Rightarrow> ('s, 'c) blockChain \<Rightarrow> ('s, 'c) blockChain" where
  "feed ev bc = bc\<lparr>bc_events := bc_events bc @ [ev]\<rparr>"

section \<open>Lookups\<close>

definition bc_GetBody :: "('s, 't, 'c) bc_env \<Rightarrow> hash \<Rightarrow> ('s, 'c) blockChain \<Rightarrow> body option \<times> ('s, 'c) blockChain" where
  "bc_GetBody E h bc =
     (case lru_Get (bodyLru E) (bodyCache bc) h of
        (Some b, c) \<Rightarrow> (Some b, bc\<lparr>bodyCache := c\<rparr>)
      | (None, c) \<Rightarrow>
          (case on_hc (GetBlockNumber (be_hc E) h) (bc\<lparr>bodyCache := c\<rparr>) of
             (None, bc1) \<Rightarrow> (None, bc1)
           | (Some n, bc1) \<Rightarrow>
               (case ReadBody (cdc E) (bc_db bc1) h n of
                  None \<Rightarrow> (None, bc1)
                | Some b \<Rightarrow> (Some b, bc1\<lparr>bodyCache := lru_Add (bodyLru E) (bodyCache bc1) h b\<rparr>))))"

definition bc_GetBodyRLP :: "('s, 't, 'c) bc_env \<Rightarrow> hash \<Rightarrow> ('s, 'c) blockChain \<Rightarrow> bytes option \<times> ('s, 'c) blockChain" where
  "bc_GetBodyRLP E h bc =
     (case lru_Get (bodyRLPLru E) (bodyRLPCache bc) h of
        (Some b, c) \<Rightarrow> (Some b, bc\<lparr>bodyRLPCache := c\<rparr>)
      | (None, c) \<Rightarrow>
          (case on_hc (GetBlockNumber (be_hc E) h) (bc\<lparr>bodyRLPCache := c\<rparr>) of
             (None, bc1) \<Rightarrow> (None, bc1)
           | (Some n, bc1) \<Rightarrow>
               (let b = ReadBodyRLP (bc_db bc1) h n in
                if length b = 0 then (None, bc1)
                else (Some b, bc1\<lparr>bodyRLPCache := lru_Add (bodyRLPLru E) (bodyRLPCache bc1) h b\<rparr>))))"

definition HasBlock :: "('s, 't, 'c) bc_env \<Rightarrow> hash \<Rightarrow> u64 \<Rightarrow> ('s, 'c) blockChain \<Rightarrow> bool" where
  "HasBlock E h n bc = (if lru_Contains (blockLru E) (blockCache bc) h then True else HasBody (bc_db bc) h n)"

definition HasFastBlock :: "('s, 't, 'c) bc_env \<Rightarrow> hash \<Rightarrow> u64 \<Rightarrow> ('s, 'c) blockChain \<Rightarrow> bool" where
  "HasFastBlock E h n bc =
     (if \<not> HasBlock E h n bc then False
      else if lru_Contains (receiptsLru E) (receiptsCache bc) h then True else rawdb_HasReceipts (bc_db bc) h n)"

definition HasState :: "('s, 't, 'c) bc_env \<Rightarrow> hash \<Rightarrow> ('s, 'c) blockChain \<Rightarrow> bool" where
  "HasState E root bc = (case OpenTrie (ts_env (be_store E) (bc_store bc)) root of Inl _ \<Rightarrow> False | Inr _ \<Rightarrow> True)"

definition GetBlock :: "('s, 't, 'c) bc_env \<Rightarrow> hash \<Rightarrow> u64 \<Rightarrow> ('s, 'c) blockChain \<Rightarrow> block option \<times> ('s, 'c) blockChain" where
  "GetBlock E h n bc =
     (case lru_Get (blockLru E) (blockCache bc) h of
        (Some b, c) \<Rightarrow> (Some b, bc\<lparr>blockCache := c\<rparr>)
      | (None, c) \<Rightarrow>
          (case ReadBlock (cdc E) (bc_db bc) h n of
             None \<Rightarrow> (None, bc\<lparr>blockCache := c\<rparr>)
           | Some b \<Rightarrow> (Some b, bc\<lparr>blockCache := lru_Add (blockLru E) c (blk_hash E b) b\<rparr>)))"

definition HasBlockAndState :: "('s, 't, 'c) bc_env \<Rightarrow> hash \<Rightarrow> u64 \<Rightarrow> ('s, 'c) blockChain \<Rightarrow> bool \<times> ('s, 'c) blockChain" where
  "HasBlockAndState E h n bc =
     (case GetBlock E h n bc of (None, bc1) \<Rightarrow> (False, bc1) | (Some b, bc1) \<Rightarrow> (HasState E (Root (bheader b)) bc1, bc1))"

definition GetBlockByHash :: "('s, 't, 'c) bc_env \<Rightarrow> hash \<Rightarrow> ('s, 'c) blockChain \<Rightarrow> block option \<times> ('s, 'c) blockChain" where
  "GetBlockByHash E h bc =
     (case on_hc (GetBlockNumber (be_hc E) h) bc of (None, bc1) \<Rightarrow> (None, bc1) | (Some n, bc1) \<Rightarrow> GetBlock E h n bc1)"

definition GetBlockByNumber :: "('s, 't, 'c) bc_env \<Rightarrow> u64 \<Rightarrow> ('s, 'c) blockChain \<Rightarrow> block option \<times> ('s, 'c) blockChain" where
  "GetBlockByNumber E n bc = (let h = ReadCanonicalHash (bc_db bc) n in if h = 0 then (None, bc) else GetBlock E h n bc)"

definition GetReceiptsByHash :: "('s, 't, 'c) bc_env \<Rightarrow> hash \<Rightarrow> ('s, 'c) blockChain \<Rightarrow> receipt list option \<times> ('s, 'c) blockChain" where
  "GetReceiptsByHash E h bc =
     (case lru_Get (receiptsLru E) (receiptsCache bc) h of
        (Some rs, c) \<Rightarrow> (Some rs, bc\<lparr>receiptsCache := c\<rparr>)
      | (None, c) \<Rightarrow>
          (let bc1 = bc\<lparr>receiptsCache := c\<rparr> in
           case ReadHeaderNumber (bc_db bc) h of
             None \<Rightarrow> (None, bc1)
           | Some n \<Rightarrow>
               (case ReadReceipts (cdc E) (bc_db bc) h n of
                  None \<Rightarrow> (None, bc1)
                | Some rs \<Rightarrow> (Some rs, bc1\<lparr>receiptsCache := lru_Add (receiptsLru E) c h rs\<rparr>))))"

fun blocks_loop :: "('s, 't, 'c) bc_env \<Rightarrow> nat \<Rightarrow> hash \<Rightarrow> u64 \<Rightarrow> ('s, 'c) blockChain \<Rightarrow> block list \<times> ('s, 'c) blockChain" where
  "blocks_loop E 0 h n bc = ([], bc)"
| "blocks_loop E (Suc k) h n bc =
     (case GetBlock E h n bc of
        (None, bc1) \<Rightarrow> ([], bc1)
      | (Some b, bc1) \<Rightarrow> (case blocks_loop E k (ParentHash (bheader b)) (n - 1) bc1 of (bs, bc2) \<Rightarrow> (b # bs, bc2)))"

definition GetBlocksFromHash :: "('s, 't, 'c) bc_env \<Rightarrow> hash \<Rightarrow> int \<Rightarrow> ('s, 'c) blockChain \<Rightarrow> block list \<times> ('s, 'c) blockChain" where
  "GetBlocksFromHash E h n bc =
     (case on_hc (GetBlockNumber (be_hc E) h) bc of
        (None, bc1) \<Rightarrow> ([], bc1)
      | (Some k, bc1) \<Rightarrow> blocks_loop E (nat n) h k bc1)"

fun uncles_loop :: "('s, 't, 'c) bc_env \<Rightarrow> nat \<Rightarrow> block option \<Rightarrow> ('s, 'c) blockChain \<Rightarrow> (header list \<times> ('s, 'c) blockChain) option" where
  "uncles_loop E 0 b bc = Some ([], bc)"
| "uncles_loop E (Suc k) None bc = Some ([], bc)"
| "uncles_loop E (Suc k) (Some b) bc =
     (case bnum b of
        None \<Rightarrow> None
      | Some n \<Rightarrow>
          (case GetBlock E (ParentHash (bheader b)) (n - 1) bc of
             (p, bc1) \<Rightarrow> map_option (\<lambda>(us, bc2). (uncles b @ us, bc2)) (uncles_loop E k p bc1)))"

definition GetUnclesInChain :: "('s, 't, 'c) bc_env \<Rightarrow> block option \<Rightarrow> int \<Rightarrow> ('s, 'c) blockChain \<Rightarrow> (header list \<times> ('s, 'c) blockChain) option" where
  "GetUnclesInChain E b n bc = uncles_loop E (nat n) b bc"

section \<open>The head of the canonical chain\<close>

definition bc_insert :: "('s, 't, 'c) bc_env \<Rightarrow> block \<Rightarrow> ('s, 'c) blockChain \<Rightarrow> ('s, 'c) blockChain option" where
  "bc_insert E b bc =
     do { n \<leftarrow> bnum b;
          let updateHeads = (ReadCanonicalHash (bc_db bc) n \<noteq> blk_hash E b);
          db1 \<leftarrow> WriteCanonicalHash db_writer (bc_db bc) (blk_hash E b) n;
          db2 \<leftarrow> WriteHeadBlockHash db_writer db1 (blk_hash E b);
          let bc1 = (set_db db2 bc)\<lparr>currentBlock := Some (Some b)\<rparr>;
          if updateHeads then
            do { hc \<leftarrow> SetCurrentHeader (be_hc E) (block_Header b) (bc_hc bc1);
                 db3 \<leftarrow> WriteHeadFastBlockHash db_writer (chainDb hc) (blk_hash E b);
                 Some ((bc1\<lparr>bc_hc := hc\<lparr>chainDb := db3\<rparr>\<rparr>)\<lparr>currentFastBlock := Some (Some b)\<rparr>) }
          else Some bc1 }"

section \<open>Reorganisation\<close>

text \<open>The logs of a block, marked as removed or not. The lists that \<open>reorg\<close> collects of them are not used: the calls that
  send them are commented out.\<close>

definition collectLogs :: "('s, 't, 'c) bc_env \<Rightarrow> hash \<Rightarrow> bool \<Rightarrow> ('s, 'c) blockChain \<Rightarrow> log list \<times> ('s, 'c) blockChain" where
  "collectLogs E h removed bc =
     (case on_hc (GetBlockNumber (be_hc E) h) bc of
        (None, bc1) \<Rightarrow> ([], bc1)
      | (Some n, bc1) \<Rightarrow>
          (case ReadReceipts (cdc E) (bc_db bc1) h n of
             None \<Rightarrow> ([], bc1)
           | Some rs \<Rightarrow> (map (\<lambda>l. if removed then l\<lparr>l_Removed := True\<rparr> else l) (concat (map rc_Logs rs)), bc1)))"

text \<open>Down the old and the new chain to a number, gathering the blocks.\<close>

partial_function (option) reorg_old ::
  "('s, 't, 'c) bc_env \<Rightarrow> u64 \<Rightarrow> block option \<Rightarrow> block list \<Rightarrow> ('s, 'c) blockChain \<Rightarrow> (block option \<times> block list \<times> ('s, 'c) blockChain) option" where
  "reorg_old E m old oldChain bc =
     (case old of
        None \<Rightarrow> Some (None, oldChain, bc)
      | Some b \<Rightarrow>
          (case bnum b of
             None \<Rightarrow> None
           | Some n \<Rightarrow>
               if n = m then Some (Some b, oldChain, bc)
               else (case GetBlock E (ParentHash (bheader b)) (n - 1) (snd (collectLogs E (blk_hash E b) True bc)) of
                       (p, bc1) \<Rightarrow> reorg_old E m p (oldChain @ [b]) bc1)))"

partial_function (option) reorg_new ::
  "('s, 't, 'c) bc_env \<Rightarrow> u64 \<Rightarrow> block option \<Rightarrow> block list \<Rightarrow> ('s, 'c) blockChain \<Rightarrow> (block option \<times> block list \<times> ('s, 'c) blockChain) option" where
  "reorg_new E m new newChain bc =
     (case new of
        None \<Rightarrow> Some (None, newChain, bc)
      | Some b \<Rightarrow>
          (case bnum b of
             None \<Rightarrow> None
           | Some n \<Rightarrow>
               if n = m then Some (Some b, newChain, bc)
               else (case GetBlock E (ParentHash (bheader b)) (n - 1) bc of
                       (p, bc1) \<Rightarrow> reorg_new E m p (newChain @ [b]) bc1)))"

text \<open>Down both chains to the common ancestor.\<close>

partial_function (option) reorg_meet ::
  "('s, 't, 'c) bc_env \<Rightarrow> block \<Rightarrow> block \<Rightarrow> block list \<Rightarrow> block list \<Rightarrow> ('s, 'c) blockChain \<Rightarrow>
     ((chain_error + block list \<times> block list) \<times> ('s, 'c) blockChain) option" where
  "reorg_meet E old new oldChain newChain bc =
     (if blk_hash E old = blk_hash E new then Some (Inr (oldChain, newChain), bc)
      else case bnum old of
             None \<Rightarrow> None
           | Some on \<Rightarrow>
               (case GetBlock E (ParentHash (bheader old)) (on - 1) (snd (collectLogs E (blk_hash E old) True bc)) of
                  (None, bc1) \<Rightarrow> Some (Inl errInvalidOldChain, bc1)
                | (Some old1, bc1) \<Rightarrow>
                    (case bnum new of
                       None \<Rightarrow> None
                     | Some nn \<Rightarrow>
                         (case GetBlock E (ParentHash (bheader new)) (nn - 1) bc1 of
                            (None, bc2) \<Rightarrow> Some (Inl errInvalidNewChain, bc2)
                          | (Some new1, bc2) \<Rightarrow> reorg_meet E old1 new1 (oldChain @ [old]) (newChain @ [new]) bc2))))"

text \<open>The new blocks become canonical, the lowest first; the last one in this list is the new head.\<close>

fun reorg_insert :: "('s, 't, 'c) bc_env \<Rightarrow> block list \<Rightarrow> ('s, 'c) blockChain \<Rightarrow> ('s, 'c) blockChain option" where
  "reorg_insert E [] bc = Some bc"
| "reorg_insert E (b # bs) bc =
     do { bc1 \<leftarrow> bc_insert E b bc;
          let bc2 = (if bs \<noteq> [] then snd (collectLogs E (blk_hash E b) False bc1) else bc1);
          db \<leftarrow> WriteTxLookupEntries (cdc E) db_writer (bc_db bc2) b;
          reorg_insert E bs (set_db db bc2) }"

definition reorg :: "('s, 't, 'c) bc_env \<Rightarrow> block \<Rightarrow> block \<Rightarrow> ('s, 'c) blockChain \<Rightarrow> (chain_error option \<times> ('s, 'c) blockChain) option" where
  "reorg E old new bc =
     do { on \<leftarrow> bnum old;
          nn \<leftarrow> bnum new;
          (old1, oldChain, bc1) \<leftarrow> (if on > nn then reorg_old E nn (Some old) [] bc else Some (Some old, [], bc));
          (new1, newChain, bc2) \<leftarrow> (if on > nn then Some (Some new, [], bc1) else reorg_new E on (Some new) [] bc1);
          case (old1, new1) of
            (None, _) \<Rightarrow> Some (Some errInvalidOldChain, bc2)
          | (Some _, None) \<Rightarrow> Some (Some errInvalidNewChain, bc2)
          | (Some old2, Some new2) \<Rightarrow>
              do { (r, bc3) \<leftarrow> reorg_meet E old2 new2 oldChain newChain bc2;
                   case r of
                     Inl e \<Rightarrow> Some (Some e, bc3)
                   | Inr (oldChain, newChain) \<Rightarrow>
                       do { bc4 \<leftarrow> reorg_insert E (rev newChain) bc3;
                            let deletedTxs = concat (map transactions oldChain);
                            let addedTxs = concat (map transactions (rev newChain));
                            let txhash = de_txhash (cc_derive (cdc E));
                            let b = fold (\<lambda>tx b. DeleteTxLookupEntry batch_writer b (txhash tx))
                                      (TxDifference txhash deletedTxs addedTxs) NewBatch;
                            db \<leftarrow> batch_Write b (bc_db bc4);
                            Some (None, fold (\<lambda>b. feed (ChainSideEvent b)) oldChain (set_db db bc4)) } } }"

section \<open>Writing blocks\<close>

definition WriteBlockWithoutState :: "('s, 't, 'c) bc_env \<Rightarrow> block \<Rightarrow> bigint \<Rightarrow> ('s, 'c) blockChain \<Rightarrow> ('s, 'c) blockChain option" where
  "WriteBlockWithoutState E b d bc =
     do { n \<leftarrow> bnum b;
          hc \<leftarrow> hc_WriteTd (be_hc E) (blk_hash E b) n d (bc_hc bc);
          db \<leftarrow> WriteBlock (cdc E) db_writer (chainDb hc) b;
          Some (bc\<lparr>bc_hc := hc\<lparr>chainDb := db\<rparr>\<rparr>) }"

text \<open>Tries below the retained numbers are dereferenced; the first one that is not is put back.\<close>

partial_function (option) gc_tries :: "('s, 't, 'c) bc_env \<Rightarrow> u64 \<Rightarrow> ('s, 'c) blockChain \<Rightarrow> ('s, 'c) blockChain option" where
  "gc_tries E chosen bc =
     (if pq_Empty (triegc bc) then Some bc
      else case pq_Pop (triegc bc) of
             None \<Rightarrow> None
           | Some ((root, number), q) \<Rightarrow>
               if - number > chosen then Some (bc\<lparr>triegc := pq_Push root number q\<rparr>)
               else gc_tries E chosen (bc\<lparr>triegc := q, bc_store := ts_Dereference (be_store E) (bc_store bc) root\<rparr>))"

text \<open>A trie is flushed when the time limit for processing is over, if the header at the chosen number is canonical.\<close>

definition flush_chosen :: "('s, 't, 'c) bc_env \<Rightarrow> u64 \<Rightarrow> ('s, 'c) blockChain \<Rightarrow> ('s, 'c) blockChain" where
  "flush_chosen E chosen bc =
     (if sint (gcproc bc) > sint (TrieTimeLimit (be_config E)) then
        (case on_hc (hc_GetHeaderByNumber (be_hc E) chosen) bc of
           (None, bc1) \<Rightarrow> bc1
         | (Some x, bc1) \<Rightarrow>
             (case ts_Commit (be_store E) (bc_store bc1) (bc_db bc1) (Root x) of
                (ok, s, db) \<Rightarrow> (set_db db bc1)\<lparr>bc_store := s, lastWrite := chosen, gcproc := 0\<rparr>))
      else bc)"

definition retain_trie :: "('s, 't, 'c) bc_env \<Rightarrow> hash \<Rightarrow> u64 \<Rightarrow> ('s, 'c) blockChain \<Rightarrow> ('s, 'c) blockChain option" where
  "retain_trie E root current bc =
     (let bc1 = bc\<lparr>bc_store := ts_Reference (be_store E) (bc_store bc) root, triegc := pq_Push root (- current) (triegc bc)\<rparr> in
      if current > triesInMemory then
        (let (nodes, imgs) = ts_Size (be_store E) (bc_store bc1);
             limit = TrieDirtyLimit (be_config E) * 1024 * 1024;
             bc2 = (if nodes > limit \<or> imgs > 4 * 1024 * 1024
                    then (case ts_Cap (be_store E) (bc_store bc1) (bc_db bc1) (limit - IdealBatchSize) of
                            (s, db) \<Rightarrow> (set_db db bc1)\<lparr>bc_store := s\<rparr>)
                    else bc1);
             chosen = current - triesInMemory
         in gc_tries E chosen (flush_chosen E chosen bc2))
      else Some bc1)"

definition persist_trie :: "('s, 't, 'c) bc_env \<Rightarrow> hash \<Rightarrow> u64 \<Rightarrow> ('s, 'c) blockChain \<Rightarrow> (bool \<times> ('s, 'c) blockChain) option" where
  "persist_trie E root current bc =
     (if TrieDirtyDisabled (be_config E)
      then (case ts_Commit (be_store E) (bc_store bc) (bc_db bc) root of
              (ok, s, db) \<Rightarrow> Some (ok, (set_db db bc)\<lparr>bc_store := s\<rparr>))
      else map_option (Pair True) (retain_trie E root current bc))"

text \<open>Whether the block is the new head: the greater total difficulty; then the smaller number, the block that is to be
  preserved, or a toss.\<close>

definition fork_choice ::
  "('s, 't, 'c) bc_env \<Rightarrow> bigint \<Rightarrow> bigint \<Rightarrow> u64 \<Rightarrow> u64 \<Rightarrow> block \<Rightarrow> block \<Rightarrow> ('s, 'c) blockChain \<Rightarrow> bool \<times> ('s, 'c) blockChain" where
  "fork_choice E externTd localTd n cn b cur bc =
     (if externTd > localTd then (True, bc)
      else if externTd = localTd then
        (if n < cn then (True, bc)
         else if n = cn then
           (let (cp, bp) = (case be_shouldPreserve E of None \<Rightarrow> (False, False) | Some f \<Rightarrow> (f cur, f b)) in
            if cp then (False, bc)
            else if bp then (True, bc)
            else (be_toss E (bc_tosses bc), bc\<lparr>bc_tosses := Suc (bc_tosses bc)\<rparr>))
         else (False, bc))
      else (False, bc))"

text \<open>\<open>writeBlockWithState\<close>: the new status or the error.\<close>

definition writeBlockWithState ::
  "('s, 't, 'c) bc_env \<Rightarrow> block \<Rightarrow> receipt list \<Rightarrow> 't stateDB \<Rightarrow> ('s, 'c) blockChain \<Rightarrow>
     ((chain_error + writeStatus) \<times> ('s, 'c) blockChain) option" where
  "writeBlockWithState E b receipts s bc =
     do { n \<leftarrow> bnum b;
          case bc_GetTd E (ParentHash (bheader b)) (n - 1) bc of
            (None, bc1) \<Rightarrow> Some (Inl (EngineErr ErrUnknownAncestor), bc1)
          | (Some ptd, bc1) \<Rightarrow>
              do { cur' \<leftarrow> currentBlock bc1;
                   cur \<leftarrow> cur';
                   cn \<leftarrow> bnum cur;
                   let (localTd, bc2) = bc_GetTd E (blk_hash E cur) cn bc1;
                   d \<leftarrow> Difficulty (bheader b);
                   let externTd = d + ptd;
                   bc3 \<leftarrow> WriteBlockWithoutState E b externTd bc2;
                   case ts_StateCommit (be_store E) (bc_store bc3) s of
                     (None, s1, st) \<Rightarrow> Some (Inl errCommit, bc3\<lparr>bc_store := st\<rparr>)
                   | (Some root, s1, st) \<Rightarrow>
                       do { (ok, bc4) \<leftarrow> persist_trie E root n (bc3\<lparr>bc_store := st\<rparr>);
                            if \<not> ok then Some (Inl errCommit, bc4)
                            else
                              do { ba1 \<leftarrow> WriteReceipts (cdc E) batch_writer NewBatch (blk_hash E b) n receipts;
                                   ltd \<leftarrow> localTd;
                                   let (canon, bc5) = fork_choice E externTd ltd n cn b cur bc4;
                                   (r, ba2, bc6) \<leftarrow>
                                     (if canon then
                                        do { (e, bc6) \<leftarrow> (if ParentHash (bheader b) \<noteq> blk_hash E cur then reorg E cur b bc5
                                                          else Some (None, bc5));
                                             case e of
                                               Some e \<Rightarrow> Some (Inl e, ba1, bc6)
                                             | None \<Rightarrow>
                                                 do { ba2 \<leftarrow> WriteTxLookupEntries (cdc E) batch_writer ba1 b;
                                                      ba3 \<leftarrow> WritePreimages batch_writer (be_rng E) ba2 (sdb_preimages s1);
                                                      Some (Inr CanonStatTy, ba3, bc6) } }
                                      else Some (Inr SideStatTy, ba1, bc5));
                                   case r of
                                     Inl e \<Rightarrow> Some (Inl e, bc6)
                                   | Inr status \<Rightarrow>
                                       do { db \<leftarrow> batch_Write ba2 (bc_db bc6);
                                            bc7 \<leftarrow> (if status = CanonStatTy then bc_insert E b (set_db db bc6)
                                                    else Some (set_db db bc6));
                                            Some (Inr status, bc7\<lparr>futureBlocks := lru_Remove (blockLru E) (futureBlocks bc7) (blk_hash E b)\<rparr>) } } } } }"

end
