(* ===== verification/Block_Import.thy ===== *)
theory Block_Import
  imports Block_Chain
begin

text \<open>
  Importing blocks: \<open>InsertChain\<close> of \<open>core/blockchain.go\<close> with its iterator (\<open>core/blockchain_insert.go\<close>), the validation of a body
  (\<open>core/block_validator.go\<close>) and the prefetcher (\<open>core/state_prefetcher.go\<close>).

  \<open>insertChain\<close> and \<open>insertSidechain\<close> call each other: the argument \<open>depth\<close> bounds the nesting, and \<^const>\<open>None\<close> is also running out of it.
  The results of \<open>VerifyHeaders\<close> are a function of the database at the start of the import. What is logged or counted for
  reports is left out.
\<close>

section \<open>Validation of a body\<close>

definition ValidateBody :: "('s, 't, 'c) bc_env \<Rightarrow> block \<Rightarrow> ('s, 'c) blockChain \<Rightarrow> (chain_error option \<times> ('s, 'c) blockChain) option" where
  "ValidateBody E b bc =
     do { n \<leftarrow> bnum b;
          let (known, bc1) = HasBlockAndState E (blk_hash E b) n bc;
          if known then Some (Some ErrKnownBlock, bc1)
          else case be_VerifyUncles E b of
                 Some e \<Rightarrow> Some (Some e, bc1)
               | None \<Rightarrow>
                   if CalcUncleHash (cc_crypto (cdc E)) (uncles b) \<noteq> UncleHash (block_Header b) then Some (Some errUncleRoot, bc1)
                   else if pr_deriveTxs (be_proc E) (transactions b) \<noteq> TxHash (block_Header b) then Some (Some errTxRoot, bc1)
                   else (case HasBlockAndState E (ParentHash (bheader b)) (n - 1) bc1 of
                           (True, bc2) \<Rightarrow> Some (None, bc2)
                         | (False, bc2) \<Rightarrow>
                             Some (Some (if HasBlock E (ParentHash (bheader b)) (n - 1) bc2 then ErrPrunedAncestor
                                         else EngineErr ErrUnknownAncestor), bc2)) }"

section \<open>The iterator\<close>

record insertIterator =
  it_chain :: "block list"
  it_results :: "chain_error option list"
  it_errors :: "chain_error option list"
  it_index :: int

definition newInsertIterator :: "block list \<Rightarrow> chain_error option list \<Rightarrow> insertIterator" where
  "newInsertIterator chain results = \<lparr>it_chain = chain, it_results = results, it_errors = [], it_index = - 1\<rparr>"

text \<open>Waiting for the result of a header, unless it was there. A result that never comes is \<^const>\<open>None\<close>.\<close>

definition await_result :: "int \<Rightarrow> insertIterator \<Rightarrow> (chain_error option \<times> insertIterator) option" where
  "await_result i it =
     (if int (length (it_errors it)) \<le> i then
        (case it_results it of
           [] \<Rightarrow> None
         | r # rs \<Rightarrow>
             (let it1 = it\<lparr>it_errors := it_errors it @ [r], it_results := rs\<rparr> in
              if nat i < length (it_errors it1) then Some (it_errors it1 ! nat i, it1) else None))
      else Some (it_errors it ! nat i, it))"

definition it_next ::
  "('s, 't, 'c) bc_env \<Rightarrow> insertIterator \<Rightarrow> ('s, 'c) blockChain \<Rightarrow>
     ((block option \<times> chain_error option) \<times> insertIterator \<times> ('s, 'c) blockChain) option" where
  "it_next E it bc =
     (let i = it_index it + 1 in
      if i \<ge> int (length (it_chain it)) then Some ((None, None), it\<lparr>it_index := int (length (it_chain it))\<rparr>, bc)
      else do { (e, it1) \<leftarrow> await_result i (it\<lparr>it_index := i\<rparr>);
                let b = it_chain it ! nat i;
                case e of
                  Some e \<Rightarrow> Some ((Some b, Some e), it1, bc)
                | None \<Rightarrow> do { (v, bc1) \<leftarrow> ValidateBody E b bc; Some ((Some b, v), it1, bc1) } })"

definition it_peek :: "insertIterator \<Rightarrow> ((block option \<times> chain_error option) \<times> insertIterator) option" where
  "it_peek it =
     (let i = it_index it + 1 in
      if i \<ge> int (length (it_chain it)) then Some ((None, None), it)
      else do { (e, it1) \<leftarrow> await_result i it; Some ((Some (it_chain it ! nat i), e), it1) })"

definition it_previous :: "insertIterator \<Rightarrow> header option" where
  "it_previous it = (if it_index it < 1 then None else Some (block_Header (it_chain it ! nat (it_index it - 1))))"

definition it_first :: "insertIterator \<Rightarrow> block option" where
  "it_first it = (case it_chain it of [] \<Rightarrow> None | b # _ \<Rightarrow> Some b)"

section \<open>Queues of blocks\<close>

definition addFutureBlock :: "('s, 't, 'c) bc_env \<Rightarrow> block \<Rightarrow> ('s, 'c) blockChain \<Rightarrow> chain_error option \<times> ('s, 'c) blockChain" where
  "addFutureBlock E b bc =
     (if Time (bheader b) > be_now E + maxTimeFutureBlocks then (Some errFutureTime, bc)
      else (None, bc\<lparr>futureBlocks := lru_Add (blockLru E) (futureBlocks bc) (blk_hash E b) b\<rparr>))"

definition reportBlock :: "('s, 't, 'c) bc_env \<Rightarrow> block \<Rightarrow> ('s, 'c) blockChain \<Rightarrow> ('s, 'c) blockChain" where
  "reportBlock E b bc = bc\<lparr>badBlocks := lru_Add (blockLru E) (badBlocks bc) (blk_hash E b) b\<rparr>"

fun peek_all :: "('s, 't, 'c) bc_env \<Rightarrow> 'c \<Rightarrow> hash list \<Rightarrow> block list" where
  "peek_all E c [] = []"
| "peek_all E c (h # hs) = (case lru_Peek (blockLru E) c h of None \<Rightarrow> peek_all E c hs | Some b \<Rightarrow> b # peek_all E c hs)"

definition BadBlocks :: "('s, 't, 'c) bc_env \<Rightarrow> ('s, 'c) blockChain \<Rightarrow> block list" where
  "BadBlocks E bc = peek_all E (badBlocks bc) (lru_Keys (blockLru E) (badBlocks bc))"

section \<open>Processing one block\<close>

definition proc_of :: "('s, 't, 'c) bc_env \<Rightarrow> ('s, 'c) blockChain \<Rightarrow> 't proc_env" where
  "proc_of E bc = (be_proc E)\<lparr>pr_state := ts_env (be_store E) (bc_store bc)\<rparr>"

text \<open>\<open>Prefetch\<close> runs the next block on a state that is thrown away; an error only ends it. It can panic like the processor.\<close>

definition precacheTransaction ::
  "'t proc_env \<Rightarrow> u64 \<Rightarrow> 't stateDB \<Rightarrow> header \<Rightarrow> transaction \<Rightarrow> (bool \<times> u64 \<times> 't stateDB) option" where
  "precacheTransaction P gp s h tx =
     (case AsMessage (pr_sender P) tx of
        None \<Rightarrow> Some (False, gp, s)
      | Some msg \<Rightarrow>
          do { ctx \<leftarrow> NewEVMContext P msg h None;
               (r, st) \<leftarrow> ApplyMessage (pr_state P) (ctx_Coinbase ctx) msg gp s;
               Some ((case r of Inl _ \<Rightarrow> False | Inr _ \<Rightarrow> True), st_gp st, st_state st) })"

fun prefetch_txs :: "'t proc_env \<Rightarrow> hash \<Rightarrow> header \<Rightarrow> nat \<Rightarrow> transaction list \<Rightarrow> u64 \<Rightarrow> 't stateDB \<Rightarrow> unit option" where
  "prefetch_txs P bh h i [] gp s = Some ()"
| "prefetch_txs P bh h i (tx # txs) gp s =
     (case precacheTransaction P gp (state_Prepare (pr_txhash P tx) bh (int i) s) h tx of
        None \<Rightarrow> None
      | Some (ok, gp1, s1) \<Rightarrow> if ok then prefetch_txs P bh h (i + 1) txs gp1 s1 else Some ())"

definition Prefetch :: "'t proc_env \<Rightarrow> hash \<Rightarrow> block \<Rightarrow> 't stateDB \<Rightarrow> unit option" where
  "Prefetch P bh b s =
     do { gp \<leftarrow> AddGas 0 (header.GasLimit (bheader b)); prefetch_txs P bh (block_Header b) 0 (transactions b) gp s }"

fun state_chain_error :: "state_error \<Rightarrow> chain_error" where
  "state_chain_error GasMismatch = errGasUsed"
| "state_chain_error BloomMismatch = errBloom"
| "state_chain_error ReceiptMismatch = errReceiptRoot"
| "state_chain_error RootMismatch = errStateRoot"

definition prefetch_next ::
  "('s, 't, 'c) bc_env \<Rightarrow> insertIterator \<Rightarrow> 't stateDB \<Rightarrow> ('s, 'c) blockChain \<Rightarrow> insertIterator option" where
  "prefetch_next E it s bc =
     (if TrieCleanNoPrefetch (be_config E) then Some it
      else do { ((followup, e), it1) \<leftarrow> it_peek it;
                case (followup, e) of
                  (Some f, None) \<Rightarrow> do { _ \<leftarrow> Prefetch (proc_of E bc) (blk_hash E f) f s; Some it1 }
                | _ \<Rightarrow> Some it1 })"

definition import_block ::
  "('s, 't, 'c) bc_env \<Rightarrow> block \<Rightarrow> insertIterator \<Rightarrow> ('s, 'c) blockChain \<Rightarrow>
     ((chain_error + writeStatus \<times> log list) \<times> insertIterator \<times> ('s, 'c) blockChain) option" where
  "import_block E b it bc =
     do { (parent, bc1) \<leftarrow> (case it_previous it of
                               Some h \<Rightarrow> Some (Some h, bc)
                             | None \<Rightarrow> map_option (\<lambda>n. bc_GetHeader E (ParentHash (bheader b)) (n - 1) bc) (bnum b));
          p \<leftarrow> parent;
          case state_New (ts_env (be_store E) (bc_store bc1)) (Root p) of
            Inl _ \<Rightarrow> Some (Inl errStateMissing, it, bc1)
          | Inr s \<Rightarrow>
              do { it1 \<leftarrow> prefetch_next E it s bc1;
                   (r, s1) \<leftarrow> Process (proc_of E bc1) (blk_hash E b) b s;
                   case r of
                     Inl _ \<Rightarrow> Some (Inl errProcess, it1, reportBlock E b bc1)
                   | Inr (receipts, logs, usedGas) \<Rightarrow>
                       do { (v, s2) \<leftarrow> ValidateState (proc_of E bc1) b s1 receipts usedGas;
                            case v of
                              Some e \<Rightarrow> Some (Inl (state_chain_error e), it1, reportBlock E b bc1)
                            | None \<Rightarrow>
                                do { (w, bc2) \<leftarrow> writeBlockWithState E b receipts s2 bc1;
                                     Some (map_sum id (\<lambda>st. (st, logs)) w, it1, bc2) } } } }"

section \<open>Importing a chain\<close>

type_synonym import_result = "int \<times> chain_event list \<times> log list \<times> chain_error option"

text \<open>The blocks one after the other. The result is an early return or what the loop leaves behind.\<close>

partial_function (option) import_loop ::
  "('s, 't, 'c) bc_env \<Rightarrow> block option \<Rightarrow> chain_error option \<Rightarrow> insertIterator \<Rightarrow> chain_event list \<Rightarrow> log list \<Rightarrow> block option \<Rightarrow>
     ('s, 'c) blockChain \<Rightarrow>
     ((import_result + (block option \<times> chain_error option \<times> insertIterator \<times> chain_event list \<times> log list \<times> block option))
        \<times> ('s, 'c) blockChain) option" where
  "import_loop E block err it events logs lastCanon bc =
     (case block of
        None \<Rightarrow> Some (Inr (None, err, it, events, logs, lastCanon), bc)
      | Some b \<Rightarrow>
          if err \<noteq> None \<or> procInterrupt bc then Some (Inr (block, err, it, events, logs, lastCanon), bc)
          else
            case import_block E b it bc of
              None \<Rightarrow> None
            | Some (Inl e, it1, bc1) \<Rightarrow> Some (Inl (it_index it1, events, logs, Some e), bc1)
            | Some (Inr (status, ls), it1, bc1) \<Rightarrow>
                (let canon = (status = CanonStatTy);
                     bc2 = (if canon then bc1\<lparr>gcproc := gcproc bc1 + be_proctime E b\<rparr> else bc1);
                     events1 = (if canon then events @ [ChainEvent b (blk_hash E b)]
                                else if status = SideStatTy then events @ [ChainSideEvent b] else events);
                     logs1 = (if canon then logs @ ls else logs)
                 in case it_next E it1 bc2 of
                      None \<Rightarrow> None
                    | Some ((block1, err1), it2, bc3) \<Rightarrow>
                        import_loop E block1 err1 it2 events1 logs1 (if canon then Some b else lastCanon) bc3))"

text \<open>Blocks whose turn has not come, and their children, are queued: \<open>first\<close> is the condition \<open>it.index == 0\<close> of the first loop.\<close>

partial_function (option) queue_future ::
  "('s, 't, 'c) bc_env \<Rightarrow> bool \<Rightarrow> block option \<Rightarrow> chain_error option \<Rightarrow> insertIterator \<Rightarrow> ('s, 'c) blockChain \<Rightarrow>
     ((chain_error + chain_error option) \<times> insertIterator \<times> ('s, 'c) blockChain) option" where
  "queue_future E first block err it bc =
     (case block of
        None \<Rightarrow> Some (Inr err, it, bc)
      | Some b \<Rightarrow>
          if (first \<and> it_index it = 0) \<or> err = Some (EngineErr ErrUnknownAncestor) then
            (case addFutureBlock E b bc of
               (Some e, bc1) \<Rightarrow> Some (Inl e, it, bc1)
             | (None, bc1) \<Rightarrow>
                 (case it_next E it bc1 of
                    None \<Rightarrow> None
                  | Some ((block1, err1), it1, bc2) \<Rightarrow> queue_future E first block1 err1 it1 bc2))
          else Some (Inr err, it, bc))"

partial_function (option) skip_known ::
  "('s, 't, 'c) bc_env \<Rightarrow> u64 \<Rightarrow> block option \<Rightarrow> chain_error option \<Rightarrow> insertIterator \<Rightarrow> ('s, 'c) blockChain \<Rightarrow>
     ((block option \<times> chain_error option) \<times> insertIterator \<times> ('s, 'c) blockChain) option" where
  "skip_known E current block err it bc =
     (case block of
        None \<Rightarrow> Some ((block, err), it, bc)
      | Some b \<Rightarrow>
          if err \<noteq> Some ErrKnownBlock then Some ((block, err), it, bc)
          else case bnum b of
                 None \<Rightarrow> None
               | Some n \<Rightarrow>
                   if current \<ge> n then
                     (case it_next E it bc of
                        None \<Rightarrow> None
                      | Some ((block1, err1), it1, bc1) \<Rightarrow> skip_known E current block1 err1 it1 bc1)
                   else Some ((block, err), it, bc))"

text \<open>After the loop: a future block and its children are queued; the head event, if there was progress.\<close>

definition finish_import ::
  "('s, 't, 'c) bc_env \<Rightarrow> block option \<Rightarrow> chain_error option \<Rightarrow> insertIterator \<Rightarrow> chain_event list \<Rightarrow> log list \<Rightarrow> block option \<Rightarrow>
     ('s, 'c) blockChain \<Rightarrow> (import_result \<times> ('s, 'c) blockChain) option" where
  "finish_import E block err it events logs lastCanon bc =
     do { (r, it1, bc1) \<leftarrow>
            (case (block, err) of
               (Some b, Some (EngineErr ErrFutureBlock)) \<Rightarrow>
                 (case addFutureBlock E b bc of
                    (Some e, bc1) \<Rightarrow> Some (Inl e, it, bc1)
                  | (None, bc1) \<Rightarrow>
                      do { ((block1, err1), it1, bc2) \<leftarrow> it_next E it bc1; queue_future E False block1 err1 it1 bc2 })
             | _ \<Rightarrow> Some (Inr err, it, bc));
          case r of
            Inl e \<Rightarrow> Some ((it_index it1, events, logs, Some e), bc1)
          | Inr err1 \<Rightarrow>
              do { events1 \<leftarrow>
                     (case lastCanon of
                        None \<Rightarrow> Some events
                      | Some l \<Rightarrow>
                          do { cur' \<leftarrow> currentBlock bc1; cur \<leftarrow> cur';
                               Some (if blk_hash E cur = blk_hash E l then events @ [ChainHeadEvent l] else events) });
                   Some ((it_index it1, events1, logs, err1), bc1) } }"

section \<open>Side chains without state\<close>

partial_function (option) side_loop ::
  "('s, 't, 'c) bc_env \<Rightarrow> block \<Rightarrow> block option \<Rightarrow> chain_error option \<Rightarrow> insertIterator \<Rightarrow> bigint option \<Rightarrow> ('s, 'c) blockChain \<Rightarrow>
     ((import_result + (chain_error option \<times> insertIterator \<times> bigint option)) \<times> ('s, 'c) blockChain) option" where
  "side_loop E cur block err it externTd bc =
     (case block of
        None \<Rightarrow> Some (Inr (err, it, externTd), bc)
      | Some b \<Rightarrow>
          if err \<noteq> Some ErrPrunedAncestor then Some (Inr (err, it, externTd), bc)
          else case (bnum b, bnum cur) of
                 (None, _) \<Rightarrow> None
               | (_, None) \<Rightarrow> None
               | (Some n, Some cn) \<Rightarrow>
                   (case (if cn \<ge> n then GetBlockByNumber E n bc else (None, bc)) of
                      (canonical, bc1) \<Rightarrow>
                        if (case canonical of None \<Rightarrow> False | Some c \<Rightarrow> blk_hash E c = blk_hash E b) then
                          (case it_next E it bc1 of
                             None \<Rightarrow> None
                           | Some ((block1, err1), it1, bc2) \<Rightarrow> side_loop E cur block1 err1 it1 externTd bc2)
                        else if (case canonical of None \<Rightarrow> False | Some c \<Rightarrow> Root (bheader c) = Root (bheader b)) then
                          Some (Inl (it_index it, [], [], Some errGhostState), bc1)
                        else
                          (case (case externTd of None \<Rightarrow> bc_GetTd E (ParentHash (bheader b)) (n - 1) bc1 | Some d \<Rightarrow> (Some d, bc1)) of
                             (None, _) \<Rightarrow> None
                           | (Some ptd, bc2) \<Rightarrow>
                               (case Difficulty (bheader b) of
                                  None \<Rightarrow> None
                                | Some d \<Rightarrow>
                                    (case (if HasBlock E (blk_hash E b) n bc2 then Some bc2
                                           else WriteBlockWithoutState E b (ptd + d) bc2) of
                                       None \<Rightarrow> None
                                     | Some bc3 \<Rightarrow>
                                         (case it_next E it bc3 of
                                            None \<Rightarrow> None
                                          | Some ((block1, err1), it1, bc4) \<Rightarrow>
                                              side_loop E cur block1 err1 it1 (Some (ptd + d)) bc4))))))"

text \<open>The headers down to the first one with a state.\<close>

partial_function (option) gather ::
  "('s, 't, 'c) bc_env \<Rightarrow> header option \<Rightarrow> (hash \<times> u64) list \<Rightarrow> ('s, 'c) blockChain \<Rightarrow>
     (header option \<times> (hash \<times> u64) list \<times> ('s, 'c) blockChain) option" where
  "gather E parent hashes bc =
     (case parent of
        None \<Rightarrow> Some (None, hashes, bc)
      | Some p \<Rightarrow>
          if HasState E (Root p) bc then Some (Some p, hashes, bc)
          else case Uint64 (Number p) of
                 None \<Rightarrow> None
               | Some n \<Rightarrow>
                   (case bc_GetHeader E (ParentHash p) (n - 1) bc of
                      (q, bc1) \<Rightarrow> gather E q (hashes @ [(hdr_hash (be_hc E) p, n)]) bc1))"

text \<open>The blocks of a side chain, the lowest first, are imported in segments by \<open>ins\<close>.\<close>

fun import_segments ::
  "('s, 't, 'c) bc_env \<Rightarrow> (block list \<Rightarrow> ('s, 'c) blockChain \<Rightarrow> (import_result \<times> ('s, 'c) blockChain) option) \<Rightarrow>
     (hash \<times> u64) list \<Rightarrow> block list \<Rightarrow> int \<Rightarrow> ('s, 'c) blockChain \<Rightarrow> (import_result \<times> ('s, 'c) blockChain) option" where
  "import_segments E ins [] blocks memory bc =
     (if length blocks > 0 then ins blocks bc else Some ((0, [], [], None), bc))"
| "import_segments E ins ((h, n) # hs) blocks memory bc =
     (case GetBlock E h n bc of
        (None, _) \<Rightarrow> None
      | (Some b, bc1) \<Rightarrow>
          (let blocks1 = blocks @ [b]; memory1 = memory + be_size E b in
           if length blocks1 \<ge> 2048 \<or> memory1 > 64 * 1024 * 1024 then
             (case ins blocks1 bc1 of
                None \<Rightarrow> None
              | Some ((_, _, _, Some e), bc2) \<Rightarrow> Some ((0, [], [], Some e), bc2)
              | Some ((_, _, _, None), bc2) \<Rightarrow>
                  if procInterrupt bc2 then Some ((0, [], [], None), bc2) else import_segments E ins hs [] 0 bc2)
           else import_segments E ins hs blocks1 memory1 bc1))"

definition insertSidechain ::
  "('s, 't, 'c) bc_env \<Rightarrow> (block list \<Rightarrow> ('s, 'c) blockChain \<Rightarrow> (import_result \<times> ('s, 'c) blockChain) option) \<Rightarrow>
     block option \<Rightarrow> insertIterator \<Rightarrow> ('s, 'c) blockChain \<Rightarrow> (import_result \<times> ('s, 'c) blockChain) option" where
  "insertSidechain E ins block it bc =
     do { cur' \<leftarrow> currentBlock bc;
          cur \<leftarrow> cur';
          (r, bc1) \<leftarrow> side_loop E cur block (Some ErrPrunedAncestor) it None bc;
          case r of
            Inl q \<Rightarrow> Some (q, bc1)
          | Inr (err, it1, externTd) \<Rightarrow>
              do { cn \<leftarrow> bnum cur;
                   let (localTd, bc2) = bc_GetTd E (blk_hash E cur) cn bc1;
                   ltd \<leftarrow> localTd;
                   etd \<leftarrow> externTd;
                   if ltd > etd then do { _ \<leftarrow> it_previous it1; Some ((it_index it1, [], [], err), bc2) }
                   else
                     do { (parent, hashes, bc3) \<leftarrow> gather E (it_previous it1) [] bc2;
                          case parent of
                            None \<Rightarrow> Some ((it_index it1, [], [], Some errMissingParent), bc3)
                          | Some _ \<Rightarrow> import_segments E ins (rev hashes) [] 0 bc3 } } }"

section \<open>\<open>InsertChain\<close>\<close>

definition insertChain_body ::
  "('s, 't, 'c) bc_env \<Rightarrow> (block list \<Rightarrow> ('s, 'c) blockChain \<Rightarrow> (import_result \<times> ('s, 'c) blockChain) option) \<Rightarrow>
     block list \<Rightarrow> bool \<Rightarrow> ('s, 'c) blockChain \<Rightarrow> (import_result \<times> ('s, 'c) blockChain) option" where
  "insertChain_body E ins chain verifySeals bc =
     (if procInterrupt bc then Some ((0, [], [], None), bc)
      else
        do { let results = be_VerifyHeaders E (bc_db bc) (map block_Header chain) (replicate (length chain) verifySeals);
             ((block0, err0), it0, bc0) \<leftarrow> it_next E (newInsertIterator chain results) bc;
             ((block, err), it, bc1) \<leftarrow>
               (if err0 = Some ErrKnownBlock then
                  do { cur' \<leftarrow> currentBlock bc0; cur \<leftarrow> cur'; cn \<leftarrow> bnum cur; skip_known E cn block0 err0 it0 bc0 }
                else Some ((block0, err0), it0, bc0));
             case err of
               Some e \<Rightarrow>
                 if e = ErrPrunedAncestor then insertSidechain E ins block it bc1
                 else if e = EngineErr ErrFutureBlock
                        \<or> (e = EngineErr ErrUnknownAncestor
                           \<and> (case it_first it of None \<Rightarrow> False
                               | Some f \<Rightarrow> lru_Contains (blockLru E) (futureBlocks bc1) (ParentHash (bheader f)))) then
                   do { (r, it1, bc2) \<leftarrow> queue_future E True block err it bc1;
                        Some ((it_index it1, [], [], case r of Inl e \<Rightarrow> Some e | Inr err1 \<Rightarrow> err1), bc2) }
                 else do { b \<leftarrow> block; Some ((it_index it, [], [], err), reportBlock E b bc1) }
             | None \<Rightarrow>
                 do { (r, bc2) \<leftarrow> import_loop E block None it [] [] None bc1;
                      case r of
                        Inl q \<Rightarrow> Some (q, bc2)
                      | Inr (block1, err1, it1, events, logs, lastCanon) \<Rightarrow>
                          finish_import E block1 err1 it1 events logs lastCanon bc2 } })"

primrec insertChain ::
  "nat \<Rightarrow> ('s, 't, 'c) bc_env \<Rightarrow> block list \<Rightarrow> bool \<Rightarrow> ('s, 'c) blockChain \<Rightarrow> (import_result \<times> ('s, 'c) blockChain) option" where
  "insertChain 0 E chain verifySeals bc = None"
| "insertChain (Suc depth) E chain verifySeals bc =
     insertChain_body E (\<lambda>blocks. insertChain depth E blocks False) chain verifySeals bc"

definition PostChainEvents :: "chain_event list \<Rightarrow> log list \<Rightarrow> ('s, 'c) blockChain \<Rightarrow> ('s, 'c) blockChain" where
  "PostChainEvents events logs bc = fold feed events (if logs \<noteq> [] then feed (LogsEvent logs) bc else bc)"

fun contiguous_blocks :: "('s, 't, 'c) bc_env \<Rightarrow> block list \<Rightarrow> bool option" where
  "contiguous_blocks E (a # b # bs) =
     do { bn \<leftarrow> bnum b;
          an \<leftarrow> bnum a;
          if bn \<noteq> an + 1 \<or> ParentHash (bheader b) \<noteq> blk_hash E a then Some False else contiguous_blocks E (b # bs) }"
| "contiguous_blocks E _ = Some True"

definition InsertChain ::
  "nat \<Rightarrow> ('s, 't, 'c) bc_env \<Rightarrow> block list \<Rightarrow> ('s, 'c) blockChain \<Rightarrow> ((int \<times> chain_error option) \<times> ('s, 'c) blockChain) option" where
  "InsertChain depth E chain bc =
     (if length chain = 0 then Some ((0, None), bc)
      else do { let bc1 = feed (BlockProcEvent True) bc;
                ordered \<leftarrow> contiguous_blocks E chain;
                if \<not> ordered then Some ((0, Some errNonContiguous), feed (BlockProcEvent False) bc1)
                else do { ((n, events, logs, err), bc2) \<leftarrow> insertChain depth E chain True bc1;
                          Some ((n, err), feed (BlockProcEvent False) (PostChainEvents events logs bc2)) } })"

fun insert_each :: "nat \<Rightarrow> ('s, 't, 'c) bc_env \<Rightarrow> block list \<Rightarrow> ('s, 'c) blockChain \<Rightarrow> ('s, 'c) blockChain option" where
  "insert_each depth E [] bc = Some bc"
| "insert_each depth E (b # bs) bc =
     (case InsertChain depth E [b] bc of None \<Rightarrow> None | Some (_, bc1) \<Rightarrow> insert_each depth E bs bc1)"

definition procFutureBlocks :: "nat \<Rightarrow> ('s, 't, 'c) bc_env \<Rightarrow> ('s, 'c) blockChain \<Rightarrow> ('s, 'c) blockChain option" where
  "procFutureBlocks depth E bc =
     (let blocks = peek_all E (futureBlocks bc) (lru_Keys (blockLru E) (futureBlocks bc)) in
      if length blocks > 0 then insert_each depth E (be_sort E blocks) bc else Some bc)"

text \<open>\<open>InsertHeaderChain\<close>: the coins are those of the header chain.\<close>

definition bc_InsertHeaderChain ::
  "('s, 't, 'c) bc_env \<Rightarrow> (nat \<Rightarrow> nat) \<Rightarrow> (nat \<Rightarrow> bool) \<Rightarrow> header list \<Rightarrow> nat \<Rightarrow> ('s, 'c) blockChain \<Rightarrow>
     ((nat \<times> chain_error option) \<times> ('s, 'c) blockChain) option" where
  "bc_InsertHeaderChain E draw coin chain checkFreq bc =
     do { (i, err) \<leftarrow> ValidateHeaderChain (be_hc E) (be_VerifyHeaders E (bc_db bc)) (procInterrupt bc) draw chain checkFreq;
          case err of
            Some e \<Rightarrow> Some ((i, Some e), bc)
          | None \<Rightarrow>
              do { (r, hc) \<leftarrow> hc_InsertHeaderChain (be_hc E)
                     (\<lambda>k x hc. map_option (\<lambda>((_, e), hc1). (e, hc1)) (hc_WriteHeader (be_hc E) (coin k) x hc))
                     (procInterrupt bc) chain (bc_hc bc);
                   Some (r, bc\<lparr>bc_hc := hc\<rparr>) } }"

end
