(* ===== verification/Header_Inv.thy ===== *)
theory Header_Inv
  imports Header_Chain
begin

text \<open>
  The invariant of the header chain (\<open>core/headerchain.go\<close>) over the maps of the store: what is stored is a tree of
  headers with their total difficulties, the caches agree with it, and the canonical numbers are the path to the head.
\<close>

section \<open>The invariant\<close>

definition stored_ok :: "'c hc_env \<Rightarrow> hash \<Rightarrow> chain_view \<Rightarrow> bool" where
  "stored_ok E g V \<longleftrightarrow>
     (\<forall>h n x. vw_header V (h, n) = Some x \<longrightarrow>
        hdr_hash E x = h \<and> h \<noteq> 0 \<and> Number x = Some (uint n) \<and> Difficulty x \<noteq> None \<and> n \<noteq> - 1 \<and> vw_number V h = Some n
        \<and> (n = 0 \<longrightarrow> h = g) \<and> vw_td V (h, n) \<noteq> None
        \<and> (n \<noteq> 0 \<longrightarrow> vw_header V (ParentHash x, n - 1) \<noteq> None
             \<and> vw_td V (h, n) = Some (the (Difficulty x) + the (vw_td V (ParentHash x, n - 1)))))
   \<and> (\<forall>h n. vw_number V h = Some n \<longrightarrow> vw_header V (h, n) \<noteq> None)
   \<and> (\<forall>h n d. vw_td V (h, n) = Some d \<longrightarrow> vw_header V (h, n) \<noteq> None \<and> 0 \<le> d)"

text \<open>The canonical numbers lead from the head \<open>hh\<close> at number \<open>hn\<close> down to the genesis block.\<close>

definition canon_ok :: "chain_view \<Rightarrow> hash \<Rightarrow> u64 \<Rightarrow> bool" where
  "canon_ok V hh hn \<longleftrightarrow> vw_canon V hn = hh
     \<and> (\<forall>n \<le> hn. \<exists>x. vw_header V (vw_canon V n, n) = Some x \<and> (n \<noteq> 0 \<longrightarrow> ParentHash x = vw_canon V (n - 1)))"

definition nothing_above :: "chain_view \<Rightarrow> u64 \<Rightarrow> bool" where
  "nothing_above V hn \<longleftrightarrow> (\<forall>n > hn. vw_canon V n = 0)"

definition lrus_ok ::
  "'c hc_env \<Rightarrow> ('c \<Rightarrow> hash \<rightharpoonup> header) \<Rightarrow> ('c \<Rightarrow> hash \<rightharpoonup> bigint) \<Rightarrow> ('c \<Rightarrow> hash \<rightharpoonup> u64) \<Rightarrow> bool" where
  "lrus_ok E hv tv nv \<longleftrightarrow> lru_ok (headerLru E) hv \<and> lru_ok (tdLru E) tv \<and> lru_ok (numberLru E) nv"

definition caches_ok ::
  "('c \<Rightarrow> hash \<rightharpoonup> header) \<Rightarrow> ('c \<Rightarrow> hash \<rightharpoonup> bigint) \<Rightarrow> ('c \<Rightarrow> hash \<rightharpoonup> u64) \<Rightarrow> chain_view \<Rightarrow> 'c headerChain \<Rightarrow> bool" where
  "caches_ok hv tv nv V hc \<longleftrightarrow>
     (\<forall>h x. hv (headerCache hc) h = Some x \<longrightarrow> (\<exists>n. vw_header V (h, n) = Some x))
   \<and> (\<forall>h d. tv (tdCache hc) h = Some d \<longrightarrow> (\<exists>n. vw_td V (h, n) = Some d))
   \<and> (\<forall>h n. nv (numberCache hc) h = Some n \<longrightarrow> vw_number V h = Some n)"

text \<open>The operations that only read change nothing but the caches.\<close>

definition same_chain :: "'c headerChain \<Rightarrow> 'c headerChain \<Rightarrow> bool" where
  "same_chain hc hc' \<longleftrightarrow> chainDb hc' = chainDb hc \<and> genesisHeader hc' = genesisHeader hc
     \<and> currentHeader hc' = currentHeader hc \<and> currentHeaderHash hc' = currentHeaderHash hc"

lemma same_chain_refl [simp]: "same_chain hc hc"
  by (simp add: same_chain_def)

lemma same_chain_trans: "same_chain hc hc1 \<Longrightarrow> same_chain hc1 hc2 \<Longrightarrow> same_chain hc hc2"
  by (simp add: same_chain_def)

abbreviation hc_view :: "'c hc_env \<Rightarrow> 'c headerChain \<Rightarrow> chain_view" where
  "hc_view E hc \<equiv> db_view (hc_codec E) (chainDb hc)"

lemma same_chain_view: "same_chain hc hc' \<Longrightarrow> hc_view E hc' = hc_view E hc"
  by (simp add: same_chain_def)

section \<open>Using the invariant\<close>

lemma stored_header:
  assumes "stored_ok E g V" "vw_header V (h, n) = Some x"
  shows "hdr_hash E x = h" "h \<noteq> 0" "Number x = Some (uint n)" "Difficulty x \<noteq> None" "n \<noteq> - 1" "vw_number V h = Some n"
    "n = 0 \<Longrightarrow> h = g" "vw_td V (h, n) \<noteq> None"
    "n \<noteq> 0 \<Longrightarrow> \<exists>p. vw_header V (ParentHash x, n - 1) = Some p"
    "n \<noteq> 0 \<Longrightarrow> vw_td V (h, n) = Some (the (Difficulty x) + the (vw_td V (ParentHash x, n - 1)))"
proof -
  have a: "hdr_hash E x = h \<and> h \<noteq> 0 \<and> Number x = Some (uint n) \<and> Difficulty x \<noteq> None \<and> n \<noteq> - 1 \<and> vw_number V h = Some n
        \<and> (n = 0 \<longrightarrow> h = g) \<and> vw_td V (h, n) \<noteq> None
        \<and> (n \<noteq> 0 \<longrightarrow> vw_header V (ParentHash x, n - 1) \<noteq> None
             \<and> vw_td V (h, n) = Some (the (Difficulty x) + the (vw_td V (ParentHash x, n - 1))))"
    using assms(1) [unfolded stored_ok_def, THEN conjunct1] assms(2) by blast
  then show "hdr_hash E x = h" "h \<noteq> 0" "Number x = Some (uint n)" "Difficulty x \<noteq> None" "n \<noteq> - 1" "vw_number V h = Some n"
    "n = 0 \<Longrightarrow> h = g" "vw_td V (h, n) \<noteq> None"
    "n \<noteq> 0 \<Longrightarrow> vw_td V (h, n) = Some (the (Difficulty x) + the (vw_td V (ParentHash x, n - 1)))"
    by simp_all
  show "n \<noteq> 0 \<Longrightarrow> \<exists>p. vw_header V (ParentHash x, n - 1) = Some p" using a by blast
qed

lemma stored_number: "stored_ok E g V \<Longrightarrow> vw_number V h = Some n \<Longrightarrow> \<exists>x. vw_header V (h, n) = Some x"
  unfolding stored_ok_def by blast

lemma stored_td: "stored_ok E g V \<Longrightarrow> vw_td V (h, n) = Some d \<Longrightarrow> (\<exists>x. vw_header V (h, n) = Some x) \<and> 0 \<le> d"
  unfolding stored_ok_def by blast

text \<open>A hash determines its number.\<close>

lemma stored_unique:
  "stored_ok E g V \<Longrightarrow> vw_header V (h, n) = Some x \<Longrightarrow> vw_header V (h, n') = Some x' \<Longrightarrow> n' = n \<and> x' = x"
  using stored_header(6) by (metis option.inject)

lemma stored_Uint64: "stored_ok E g V \<Longrightarrow> vw_header V (h, n) = Some x \<Longrightarrow> Uint64 (Number x) = Some n"
  by (simp add: stored_header(3))

section \<open>Reading through the caches\<close>

lemma lru_GetD: "lru_ok L view \<Longrightarrow> lru_Get L c k = (r, c') \<Longrightarrow> r = view c k \<and> view c' = view c"
  unfolding lru_ok_def by (metis fst_conv snd_conv)

lemma lru_AddD: "lru_ok L view \<Longrightarrow> view (lru_Add L c k v) k' = Some x \<Longrightarrow> (k' = k \<and> x = v) \<or> view c k' = Some x"
  unfolding lru_ok_def map_le_def dom_def by (metis (mono_tags, lifting) fun_upd_apply mem_Collect_eq option.inject option.discI)

lemma lru_Add_same: "lru_ok L view \<Longrightarrow> view (lru_Add L c k v) k = Some v"
  by (simp add: lru_ok_def)

lemma lru_Add_all:
  "lru_ok L view \<Longrightarrow> \<forall>h x. view c h = Some x \<longrightarrow> P h x \<Longrightarrow> P k v \<Longrightarrow> \<forall>h x. view (lru_Add L c k v) h = Some x \<longrightarrow> P h x"
  using lru_AddD by fast

lemma cached_td: "caches_ok hv tv nv V hc \<Longrightarrow> tv (tdCache hc) h = Some d \<Longrightarrow> \<exists>n. vw_td V (h, n) = Some d"
  and cached_header: "caches_ok hv tv nv V hc \<Longrightarrow> hv (headerCache hc) h = Some x \<Longrightarrow> \<exists>n. vw_header V (h, n) = Some x"
  and cached_number: "caches_ok hv tv nv V hc \<Longrightarrow> nv (numberCache hc) h = Some n \<Longrightarrow> vw_number V h = Some n"
  unfolding caches_ok_def by blast+

lemma GetBlockNumber_ok:
  assumes "lrus_ok E hv tv nv" "caches_ok hv tv nv (hc_view E hc) hc" "GetBlockNumber E h hc = (r, hc')"
  shows "r = vw_number (hc_view E hc) h \<and> same_chain hc hc' \<and> caches_ok hv tv nv (hc_view E hc) hc'"
proof -
  let ?V = "hc_view E hc"
  have L: "lru_ok (numberLru E) nv" using assms(1) by (simp add: lrus_ok_def)
  obtain q c where q: "lru_Get (numberLru E) (numberCache hc) h = (q, c)" by fastforce
  from lru_GetD [OF L q] have v: "q = nv (numberCache hc) h" "nv c = nv (numberCache hc)" by simp_all
  have keep: "caches_ok hv tv nv ?V (hc\<lparr>numberCache := c\<rparr>)" using assms(2) v(2) by (simp add: caches_ok_def)
  have c: "\<forall>h n. nv c h = Some n \<longrightarrow> vw_number ?V h = Some n" using assms(2) v(2) by (simp add: caches_ok_def)
  show ?thesis
  proof (cases q)
    case (Some n)
    then have "vw_number ?V h = Some n" using cached_number [OF assms(2)] v(1) by metis
    then show ?thesis using assms(3) q Some keep by (auto simp: GetBlockNumber_def same_chain_def)
  next
    case None
    show ?thesis
    proof (cases "vw_number ?V h")
      case (Some n)
      have "caches_ok hv tv nv ?V (hc\<lparr>numberCache := lru_Add (numberLru E) c h n\<rparr>)"
        using assms(2) lru_Add_all [OF L c Some] by (simp add: caches_ok_def)
      then show ?thesis using assms(3) q None Some
        by (auto simp: GetBlockNumber_def same_chain_def reads_view [where cc = "hc_codec E"])
    qed (use assms(3) q None keep in \<open>auto simp: GetBlockNumber_def same_chain_def reads_view [where cc = "hc_codec E"]\<close>)
  qed
qed

lemma GetTd_ok:
  assumes "lrus_ok E hv tv nv" "caches_ok hv tv nv (hc_view E hc) hc" "stored_ok E g (hc_view E hc)"
    "vw_number (hc_view E hc) h = None \<or> vw_number (hc_view E hc) h = Some n" "GetTd E h n hc = (r, hc')"
  shows "r = vw_td (hc_view E hc) (h, n) \<and> same_chain hc hc' \<and> caches_ok hv tv nv (hc_view E hc) hc'"
proof -
  let ?V = "hc_view E hc"
  have L: "lru_ok (tdLru E) tv" using assms(1) by (simp add: lrus_ok_def)
  obtain q c where q: "lru_Get (tdLru E) (tdCache hc) h = (q, c)" by fastforce
  from lru_GetD [OF L q] have v: "q = tv (tdCache hc) h" "tv c = tv (tdCache hc)" by simp_all
  have keep: "caches_ok hv tv nv ?V (hc\<lparr>tdCache := c\<rparr>)" using assms(2) v(2) by (simp add: caches_ok_def)
  have c: "\<forall>h d. tv c h = Some d \<longrightarrow> (\<exists>n. vw_td ?V (h, n) = Some d)" using assms(2) v(2) by (simp add: caches_ok_def)
  show ?thesis
  proof (cases q)
    case (Some d)
    then obtain n' where n': "vw_td ?V (h, n') = Some d" using cached_td [OF assms(2)] v(1) by metis
    then have "vw_number ?V h = Some n'" using stored_td [OF assms(3) n'] stored_header(6) [OF assms(3)] by blast
    then have "vw_td ?V (h, n) = Some d" using assms(4) n' by auto
    then show ?thesis using assms(5) q Some keep by (auto simp: GetTd_def same_chain_def)
  next
    case None
    show ?thesis
    proof (cases "vw_td ?V (h, n)")
      case (Some d)
      then have "caches_ok hv tv nv ?V (hc\<lparr>tdCache := lru_Add (tdLru E) c h d\<rparr>)"
        using assms(2) lru_Add_all [OF L c, of h d] by (auto simp: caches_ok_def)
      then show ?thesis using assms(5) q None Some by (auto simp: GetTd_def same_chain_def reads_view [where cc = "hc_codec E"])
    qed (use assms(5) q None keep in \<open>auto simp: GetTd_def same_chain_def reads_view [where cc = "hc_codec E"]\<close>)
  qed
qed

lemma hc_GetHeader_ok:
  assumes "lrus_ok E hv tv nv" "caches_ok hv tv nv (hc_view E hc) hc" "stored_ok E g (hc_view E hc)"
    "vw_number (hc_view E hc) h = None \<or> vw_number (hc_view E hc) h = Some n" "hc_GetHeader E h n hc = (r, hc')"
  shows "r = vw_header (hc_view E hc) (h, n) \<and> same_chain hc hc' \<and> caches_ok hv tv nv (hc_view E hc) hc'"
proof -
  let ?V = "hc_view E hc"
  have L: "lru_ok (headerLru E) hv" using assms(1) by (simp add: lrus_ok_def)
  obtain q c where q: "lru_Get (headerLru E) (headerCache hc) h = (q, c)" by fastforce
  from lru_GetD [OF L q] have v: "q = hv (headerCache hc) h" "hv c = hv (headerCache hc)" by simp_all
  have keep: "caches_ok hv tv nv ?V (hc\<lparr>headerCache := c\<rparr>)" using assms(2) v(2) by (simp add: caches_ok_def)
  have c: "\<forall>h x. hv c h = Some x \<longrightarrow> (\<exists>n. vw_header ?V (h, n) = Some x)" using assms(2) v(2) by (simp add: caches_ok_def)
  show ?thesis
  proof (cases q)
    case (Some x)
    then obtain n' where n': "vw_header ?V (h, n') = Some x" using cached_header [OF assms(2)] v(1) by metis
    then have "vw_number ?V h = Some n'" using stored_header(6) [OF assms(3)] by blast
    then have "vw_header ?V (h, n) = Some x" using assms(4) n' by auto
    then show ?thesis using assms(5) q Some keep by (auto simp: hc_GetHeader_def same_chain_def)
  next
    case None
    show ?thesis
    proof (cases "vw_header ?V (h, n)")
      case (Some x)
      then have "caches_ok hv tv nv ?V (hc\<lparr>headerCache := lru_Add (headerLru E) c h x\<rparr>)"
        using assms(2) lru_Add_all [OF L c, of h x] by (auto simp: caches_ok_def)
      then show ?thesis using assms(5) q None Some
        by (auto simp: hc_GetHeader_def same_chain_def reads_view [where cc = "hc_codec E"])
    qed (use assms(5) q None keep in \<open>auto simp: hc_GetHeader_def same_chain_def reads_view [where cc = "hc_codec E"]\<close>)
  qed
qed

lemma hc_GetHeaderByHash_ok:
  assumes "lrus_ok E hv tv nv" "caches_ok hv tv nv (hc_view E hc) hc" "stored_ok E g (hc_view E hc)"
    "hc_GetHeaderByHash E h hc = (r, hc')"
  shows "(\<forall>n. vw_number (hc_view E hc) h = Some n \<longrightarrow> r = vw_header (hc_view E hc) (h, n))
    \<and> (vw_number (hc_view E hc) h = None \<longrightarrow> r = None) \<and> same_chain hc hc' \<and> caches_ok hv tv nv (hc_view E hc) hc'"
proof -
  obtain q hc1 where q: "GetBlockNumber E h hc = (q, hc1)" by fastforce
  note n = GetBlockNumber_ok [OF assms(1,2) q]
  have v: "hc_view E hc1 = hc_view E hc" using n same_chain_view by blast
  show ?thesis
  proof (cases q)
    case None
    then show ?thesis using n assms(4) q by (auto simp: hc_GetHeaderByHash_def)
  next
    case (Some m)
    then have "hc_GetHeader E h m hc1 = (r, hc')" using assms(4) q by (simp add: hc_GetHeaderByHash_def)
    from hc_GetHeader_ok [OF assms(1) _ _ _ this, unfolded v] n Some assms(3)
    show ?thesis using same_chain_trans by fastforce
  qed
qed

section \<open>A header is stored\<close>

definition header_fits :: "'c hc_env \<Rightarrow> hash \<Rightarrow> chain_view \<Rightarrow> header \<Rightarrow> bool" where
  "header_fits E g V x \<longleftrightarrow> (\<exists>n. Number x = Some (uint n) \<and> n \<noteq> 0 \<and> n \<noteq> - 1 \<and> vw_number V (ParentHash x) \<in> {None, Some (n - 1)})
     \<and> Difficulty x \<noteq> None \<and> header_encodable x \<and> hdr_hash E x \<noteq> 0
     \<and> (\<forall>n y. vw_header V (hdr_hash E x, n) = Some y \<longrightarrow> y = x)"

lemma header_fits_number: "header_fits E g V x \<Longrightarrow> Number x = Some (uint (num_of x)) \<and> num_of x \<noteq> 0 \<and> num_of x \<noteq> - 1
    \<and> Uint64 (Number x) = Some (num_of x) \<and> vw_number V (ParentHash x) \<in> {None, Some (num_of x - 1)}"
  by (auto simp: header_fits_def num_of_def)

definition with_header :: "'c hc_env \<Rightarrow> header \<Rightarrow> bigint \<Rightarrow> chain_view \<Rightarrow> chain_view" where
  "with_header E x d V =
     V\<lparr>vw_td := (vw_td V)((hdr_hash E x, num_of x) \<mapsto> d), vw_number := (vw_number V)(hdr_hash E x \<mapsto> num_of x),
       vw_header := (vw_header V)((hdr_hash E x, num_of x) \<mapsto> x)\<rparr>"

lemma with_header_other [simp]:
  "vw_canon (with_header E x d V) = vw_canon V" "vw_body (with_header E x d V) = vw_body V"
  "vw_receipts (with_header E x d V) = vw_receipts V" "vw_lookup (with_header E x d V) = vw_lookup V"
  "vw_headHeader (with_header E x d V) = vw_headHeader V" "vw_headBlock (with_header E x d V) = vw_headBlock V"
  "vw_headFast (with_header E x d V) = vw_headFast V"
  by (simp_all add: with_header_def)

lemma with_header_keeps:
  assumes "stored_ok E g V" "header_fits E g V x" "vw_header V (h, n) = Some y"
  shows "vw_header (with_header E x d V) (h, n) = Some y"
  using assms(2,3) by (auto simp: with_header_def header_fits_def)

lemma with_header_at [simp]: "vw_header (with_header E x d V) (hdr_hash E x, num_of x) = Some x"
  "vw_td (with_header E x d V) (hdr_hash E x, num_of x) = Some d"
  by (simp_all add: with_header_def)

text \<open>A header that was there before has its difficulty already.\<close>

lemma known_header_td:
  assumes "stored_ok E g V" "header_fits E g V x" "vw_td V (ParentHash x, num_of x - 1) = Some pd"
    "vw_header V (hdr_hash E x, n) = Some y"
  shows "y = x \<and> n = num_of x \<and> vw_td V (hdr_hash E x, n) = Some (the (Difficulty x) + pd)"
proof -
  note f = header_fits_number [OF assms(2)]
  have y: "y = x" using assms(2,4) by (auto simp: header_fits_def)
  have "Number x = Some (uint n)" using stored_header(3) [OF assms(1,4)] y by simp
  then have n: "n = num_of x" using f by (simp add: word_uint_eq_iff)
  then show ?thesis using stored_header(10) [OF assms(1,4)] y f assms(3) by simp
qed

lemma with_header_stored:
  assumes "stored_ok E g V" "header_fits E g V x" "vw_td V (ParentHash x, num_of x - 1) = Some pd"
  shows "stored_ok E g (with_header E x (the (Difficulty x) + pd) V)"
proof -
  let ?h = "hdr_hash E x" and ?n = "num_of x" and ?d = "the (Difficulty x) + pd"
  let ?V = "with_header E x ?d V"
  note f = header_fits_number [OF assms(2)]
  note known = known_header_td [OF assms]
  obtain p where p: "vw_header V (ParentHash x, ?n - 1) = Some p" and pd: "0 \<le> pd" using stored_td [OF assms(1,3)] by blast
  have h0: "?h \<noteq> 0" "Difficulty x \<noteq> None" using assms(2) by (simp_all add: header_fits_def)
  have d0: "0 \<le> ?d" using assms(2) pd by (auto simp: header_fits_def header_encodable_def)
  have old_td: "vw_td ?V (h, n) = vw_td V (h, n)" if "vw_header V (h, n) = Some y" for h n y
  proof (cases "(h, n) = (?h, ?n)")
    case True
    then have "vw_td V (h, n) = Some ?d" using known [of n y] that by simp
    then show ?thesis using True by (simp add: with_header_def)
  qed (auto simp: with_header_def)
  have keep: "vw_header ?V (h, n) = Some y" if "vw_header V (h, n) = Some y" for h n y
    by (rule with_header_keeps [OF assms(1,2) that])
  have new: "(h = ?h \<and> n = ?n \<and> y = x) \<or> vw_header V (h, n) = Some y" if "vw_header ?V (h, n) = Some y" for h n y
    using that by (auto simp: with_header_def split: if_splits)
  have self_parent: "(ParentHash x, ?n - 1) \<noteq> (?h, ?n)" by simp
  have 1: "hdr_hash E y = h \<and> h \<noteq> 0 \<and> Number y = Some (uint n) \<and> Difficulty y \<noteq> None \<and> n \<noteq> - 1 \<and> vw_number ?V h = Some n
        \<and> (n = 0 \<longrightarrow> h = g) \<and> vw_td ?V (h, n) \<noteq> None
        \<and> (n \<noteq> 0 \<longrightarrow> vw_header ?V (ParentHash y, n - 1) \<noteq> None
             \<and> vw_td ?V (h, n) = Some (the (Difficulty y) + the (vw_td ?V (ParentHash y, n - 1))))"
    if hy: "vw_header ?V (h, n) = Some y" for h n y
  proof (cases "vw_header V (h, n) = Some y")
    case True
    note s = stored_header [OF assms(1) True]
    have num: "vw_number ?V h = Some n"
    proof (cases "h = ?h")
      case True
      then show ?thesis using known [of n y] \<open>vw_header V (h, n) = Some y\<close> by (simp add: with_header_def)
    qed (simp add: with_header_def s(6))
    have "vw_header ?V (ParentHash y, n - 1) \<noteq> None \<and> vw_td ?V (h, n) = Some (the (Difficulty y) + the (vw_td ?V (ParentHash y, n - 1)))"
      if n: "n \<noteq> 0"
    proof -
      obtain q where q: "vw_header V (ParentHash y, n - 1) = Some q" using s(9) [OF n] by blast
      show ?thesis using keep [OF q] old_td [OF q] old_td [OF True] s(10) [OF n] by simp
    qed
    then show ?thesis using s(1-5,7,8) num old_td [OF True] by simp
  next
    case False
    then have e: "h = ?h" "n = ?n" "y = x" using new [OF hy] by blast+
    show ?thesis unfolding e using f h0 keep [OF p] old_td [OF p] assms(3)
      by (simp add: with_header_def)
  qed
  have 2: "vw_header ?V (h, n) \<noteq> None" if "vw_number ?V h = Some n" for h n
  proof (cases "h = ?h")
    case True
    then show ?thesis using that by (simp add: with_header_def)
  next
    case False
    then have "vw_number V h = Some n" using that by (simp add: with_header_def)
    then show ?thesis using stored_number [OF assms(1)] keep by blast
  qed
  have 3: "vw_header ?V (h, n) \<noteq> None \<and> 0 \<le> d" if "vw_td ?V (h, n) = Some d" for h n d
  proof (cases "(h, n) = (?h, ?n)")
    case True
    then show ?thesis using that d0 by (simp add: with_header_def)
  next
    case False
    then have "vw_td V (h, n) = Some d" using that by (auto simp: with_header_def)
    then show ?thesis using stored_td [OF assms(1)] keep by blast
  qed
  show ?thesis unfolding stored_ok_def using 1 2 3 by blast
qed

section \<open>The canonical numbers\<close>

text \<open>Up to \<open>hn\<close> the numbers form a path of stored headers.\<close>

definition path_to :: "chain_view \<Rightarrow> u64 \<Rightarrow> bool" where
  "path_to V hn \<longleftrightarrow> (\<forall>n \<le> hn. \<exists>x. vw_header V (vw_canon V n, n) = Some x \<and> (n \<noteq> 0 \<longrightarrow> ParentHash x = vw_canon V (n - 1)))"

lemma canon_ok_path: "canon_ok V hh hn \<longleftrightarrow> vw_canon V hn = hh \<and> path_to V hn"
  by (simp add: canon_ok_def path_to_def)

lemma path_header: "path_to V hn \<Longrightarrow> n \<le> hn \<Longrightarrow> \<exists>x. vw_header V (vw_canon V n, n) = Some x"
  unfolding path_to_def by blast

lemma path_nonzero: "stored_ok E g V \<Longrightarrow> path_to V hn \<Longrightarrow> n \<le> hn \<Longrightarrow> vw_canon V n \<noteq> 0"
  using path_header stored_header(2) by metis

lemma path_genesis: "stored_ok E g V \<Longrightarrow> path_to V hn \<Longrightarrow> vw_canon V 0 = g"
  using path_header [of V hn 0] stored_header(7) by (metis word_zero_le)

lemma stored_ok_canon [simp]: "stored_ok E g (V\<lparr>vw_canon := c\<rparr>) = stored_ok E g V"
  "stored_ok E g (V\<lparr>vw_headHeader := h\<rparr>) = stored_ok E g V"
  by (simp_all add: stored_ok_def)

lemma caches_ok_canon [simp]: "caches_ok hv tv nv (V\<lparr>vw_canon := c\<rparr>) hc = caches_ok hv tv nv V hc"
  "caches_ok hv tv nv (V\<lparr>vw_headHeader := h\<rparr>) hc = caches_ok hv tv nv V hc"
  "caches_ok hv tv nv V (hc\<lparr>chainDb := db\<rparr>) = caches_ok hv tv nv V hc"
  by (simp_all add: caches_ok_def)

lemma unat_below_max: "(n :: u64) \<noteq> - 1 \<Longrightarrow> unat n + 1 < 2 ^ 64"
proof -
  assume "n \<noteq> - 1"
  then have "n < - 1" using word_order.not_eq_extremum by blast
  then have "unat n < unat (- 1 :: u64)" by (simp only: word_less_nat_alt)
  then show ?thesis by (simp add: unsigned_minus_1_eq_mask mask_eq_exp_minus_1)
qed

lemma delete_above_ok:
  assumes "\<forall>n. i \<le> n \<and> n \<le> hn \<longrightarrow> vw_canon (db_view cc db) n \<noteq> 0" "\<forall>n > hn. vw_canon (db_view cc db) n = 0" "hn \<noteq> - 1"
  shows "\<exists>b'. delete_above db i b = Some b' \<and> cview cc (batch_at m b')
    = (cview cc (batch_at m b))\<lparr>vw_canon := (\<lambda>n. if i \<le> n \<and> n \<le> hn then 0 else vw_canon (cview cc (batch_at m b)) n)\<rparr>"
  using assms(1)
proof (induction "unat hn + 1 - unat i" arbitrary: i b rule: less_induct)
  case less
  show ?case
  proof (cases "i \<le> hn")
    case False
    then have "ReadCanonicalHash db i = 0" using assms(2) by (simp add: reads_view [where cc = cc])
    moreover have "(\<lambda>n. if i \<le> n \<and> n \<le> hn then 0 else f n) = f" for f :: "u64 \<Rightarrow> hash"
      using False by (auto simp: fun_eq_iff)
    ultimately show ?thesis by (subst delete_above.simps) simp
  next
    case True
    obtain b1 where b1: "DeleteCanonicalHash batch_writer b i = Some b1"
      "cview cc (batch_at m b1) = (cview cc (batch_at m b))\<lparr>vw_canon := (vw_canon (cview cc (batch_at m b)))(i := 0)\<rparr>"
      using batchw.DeleteCanonicalHash_view [where m = m and w = b and cc = cc and n = i] by (auto simp: batchw.writes_view_def)
    have i: "unat i + 1 < 2 ^ 64"
      using unat_below_max [OF assms(3)] True by (simp add: word_le_nat_alt)
    have s: "unat (i + 1) = unat i + 1" by (rule unat_Suc_u64 [OF i])
    have le: "i + 1 \<le> n \<longleftrightarrow> i < n" for n using s by (auto simp: word_le_nat_alt word_less_nat_alt)
    have c1: "vw_canon (cview cc (batch_at m b1)) = (vw_canon (cview cc (batch_at m b)))(i := 0)" by (simp add: b1(2))
    have IH: "\<exists>b'. delete_above db (i + 1) b1 = Some b' \<and> cview cc (batch_at m b')
      = (cview cc (batch_at m b1))\<lparr>vw_canon := (\<lambda>n. if i + 1 \<le> n \<and> n \<le> hn then 0 else vw_canon (cview cc (batch_at m b1)) n)\<rparr>"
      using less.prems s True by (intro less.hyps) (auto simp: word_le_nat_alt)
    moreover have "(\<lambda>n. if i + 1 \<le> n \<and> n \<le> hn then 0 else ((vw_canon (cview cc (batch_at m b)))(i := 0)) n)
      = (\<lambda>n. if i \<le> n \<and> n \<le> hn then 0 else vw_canon (cview cc (batch_at m b)) n)"
      unfolding le using True by (auto simp: fun_eq_iff)
    moreover have "ReadCanonicalHash db i \<noteq> 0" using less.prems True by (simp add: reads_view [where cc = cc])
    ultimately show ?thesis using b1 IH [unfolded c1] by (subst delete_above.simps) auto
  qed
qed

lemma word_minus_one_le: "(n :: u64) \<noteq> 0 \<Longrightarrow> k \<le> n - 1 \<longleftrightarrow> k < n" "(n :: u64) \<noteq> 0 \<Longrightarrow> unat (n - 1) < unat n"
proof -
  assume "n \<noteq> 0"
  then have "unat n > 0" by (simp add: unat_gt_0)
  then show "k \<le> n - 1 \<longleftrightarrow> k < n" "unat (n - 1) < unat n"
    using \<open>n \<noteq> 0\<close> by (simp_all add: unat_minus_one word_le_nat_alt word_less_nat_alt) linarith
qed

lemma overwrite_ok:
  assumes "lrus_ok E hv tv nv" "stored_ok E g (hc_view E hc)" "caches_ok hv tv nv (hc_view E hc) hc" "db_open (chainDb hc)"
    "path_to (hc_view E hc) hn" "\<forall>k \<le> n. k > hn \<longrightarrow> vw_canon (hc_view E hc) k = 0"
    "vw_header (hc_view E hc) (h, n) = Some x"
  shows "\<exists>hc' c'. overwrite_canonical E h n (Some x) hc = Some hc' \<and> hc_view E hc' = (hc_view E hc)\<lparr>vw_canon := c'\<rparr>
    \<and> db_open (chainDb hc') \<and> caches_ok hv tv nv (hc_view E hc) hc' \<and> c' n = h \<and> (\<forall>k > n. c' k = vw_canon (hc_view E hc) k)
    \<and> path_to ((hc_view E hc)\<lparr>vw_canon := c'\<rparr>) n \<and> genesisHeader hc' = genesisHeader hc
    \<and> currentHeader hc' = currentHeader hc \<and> currentHeaderHash hc' = currentHeaderHash hc"
  using assms(2-7)
proof (induction "unat n" arbitrary: n h x hc hn rule: less_induct)
  case less
  let ?V = "hc_view E hc"
  note st = less.prems(1) and hx = less.prems(6)
  show ?case
  proof (cases "vw_canon ?V n = h")
    case True
    then have "n \<le> hn" using less.prems(5) stored_header(2) [OF st hx] by (meson leI order_refl)
    then have "path_to ?V n" using less.prems(4) unfolding path_to_def by (meson order_trans)
    then show ?thesis using True less.prems(2,3)
      by (intro exI [of _ hc] exI [of _ "vw_canon ?V"], subst overwrite_canonical.simps)
        (simp add: reads_view [where cc = "hc_codec E"])
  next
    case False
    have n0: "n \<noteq> 0" using False path_genesis [OF st less.prems(4)] stored_header(7) [OF st hx] by blast
    obtain p where p: "vw_header ?V (ParentHash x, n - 1) = Some p" using stored_header(9) [OF st hx n0] by blast
    obtain db1 where db1: "WriteCanonicalHash db_writer (chainDb hc) h n = Some db1" "db_open db1"
      "db_view (hc_codec E) db1 = ?V\<lparr>vw_canon := (vw_canon ?V)(n := h)\<rparr>"
      using dbw.WriteCanonicalHash_view [OF less.prems(3), of "hc_codec E" h n] by (auto simp: dbw.writes_view_def)
    let ?hc1 = "hc\<lparr>chainDb := db1\<rparr>"
    let ?V1 = "?V\<lparr>vw_canon := (vw_canon ?V)(n := h)\<rparr>"
    have v1: "hc_view E ?hc1 = ?V1" by (simp add: db1)
    obtain r hc2 where r: "hc_GetHeader E (ParentHash x) (n - 1) ?hc1 = (r, hc2)" by fastforce
    have num: "vw_number ?V1 (ParentHash x) = Some (n - 1)" using stored_header(6) [OF st p] by simp
    have g: "r = vw_header ?V1 (ParentHash x, n - 1) \<and> same_chain ?hc1 hc2 \<and> caches_ok hv tv nv ?V1 hc2"
      using hc_GetHeader_ok [OF assms(1) _ _ _ r, unfolded v1] st less.prems(2) num by simp
    then have r': "r = Some p" and v2: "hc_view E hc2 = ?V1" and o2: "db_open (chainDb hc2)"
      using p db1 by (simp_all add: same_chain_def)
    let ?hm = "min hn (n - 1)"
    have below: "k < n \<Longrightarrow> vw_canon ?V1 k = vw_canon ?V k" for k by auto
    have pm: "path_to ?V1 ?hm"
      unfolding path_to_def
    proof (intro allI impI)
      fix k assume k: "k \<le> ?hm"
      then have kn: "k < n" "k \<le> hn" using word_minus_one_le(1) [OF n0] by auto
      then obtain y where y: "vw_header ?V (vw_canon ?V k, k) = Some y" "k \<noteq> 0 \<longrightarrow> ParentHash y = vw_canon ?V (k - 1)"
        using less.prems(4) unfolding path_to_def by blast
      have "k \<noteq> 0 \<longrightarrow> k - 1 < n" using kn(1) word_minus_one_le(2) [of k] by (auto simp: word_less_nat_alt)
      then show "\<exists>y. vw_header ?V1 (vw_canon ?V1 k, k) = Some y \<and> (k \<noteq> 0 \<longrightarrow> ParentHash y = vw_canon ?V1 (k - 1))"
        using y kn by auto
    qed
    have z: "\<forall>k \<le> n - 1. k > ?hm \<longrightarrow> vw_canon ?V1 k = 0"
    proof (intro allI impI)
      fix k assume k: "k \<le> n - 1" "k > ?hm"
      then have "k < n" "hn < k" using word_minus_one_le(1) [OF n0, of k] by (auto simp: min_less_iff_disj)
      then show "vw_canon ?V1 k = 0" using less.prems(5) by auto
    qed
    have IH: "\<exists>hc' c'. overwrite_canonical E (ParentHash x) (n - 1) (Some p) hc2 = Some hc' \<and> hc_view E hc' = ?V1\<lparr>vw_canon := c'\<rparr>
      \<and> db_open (chainDb hc') \<and> caches_ok hv tv nv ?V1 hc' \<and> c' (n - 1) = ParentHash x \<and> (\<forall>k > n - 1. c' k = vw_canon ?V1 k)
      \<and> path_to (?V1\<lparr>vw_canon := c'\<rparr>) (n - 1) \<and> genesisHeader hc' = genesisHeader hc2
      \<and> currentHeader hc' = currentHeader hc2 \<and> currentHeaderHash hc' = currentHeaderHash hc2"
      using less.hyps [of "n - 1" hc2 ?hm "ParentHash x" p, unfolded v2] word_minus_one_le(2) [OF n0] st g o2 pm z p by simp
    then obtain hc' c' where c': "overwrite_canonical E (ParentHash x) (n - 1) (Some p) hc2 = Some hc'"
      "hc_view E hc' = ?V1\<lparr>vw_canon := c'\<rparr>" "db_open (chainDb hc')" "caches_ok hv tv nv ?V1 hc'" "c' (n - 1) = ParentHash x"
      "\<forall>k > n - 1. c' k = vw_canon ?V1 k" "path_to (?V1\<lparr>vw_canon := c'\<rparr>) (n - 1)" "genesisHeader hc' = genesisHeader hc2"
      "currentHeader hc' = currentHeader hc2" "currentHeaderHash hc' = currentHeaderHash hc2" by blast
    have gt: "k > n - 1 \<longleftrightarrow> k \<ge> n" for k using word_minus_one_le(1) [OF n0, of k] by auto
    have cn: "c' n = h" "\<forall>k > n. c' k = vw_canon ?V k" using c'(6) by (auto simp: gt)
    have "path_to (?V\<lparr>vw_canon := c'\<rparr>) n"
      unfolding path_to_def
    proof (intro allI impI)
      fix k assume k: "k \<le> n"
      show "\<exists>y. vw_header (?V\<lparr>vw_canon := c'\<rparr>) (vw_canon (?V\<lparr>vw_canon := c'\<rparr>) k, k) = Some y
        \<and> (k \<noteq> 0 \<longrightarrow> ParentHash y = vw_canon (?V\<lparr>vw_canon := c'\<rparr>) (k - 1))"
      proof (cases "k = n")
        case True
        then show ?thesis using cn hx c'(5) by simp
      next
        case False
        then have "k \<le> n - 1" using k word_minus_one_le(1) [OF n0] by auto
        then show ?thesis using c'(7) unfolding path_to_def by simp
      qed
    qed
    moreover have "overwrite_canonical E h n (Some x) hc = Some hc'"
      using False db1(1) stored_Uint64 [OF st hx] r r' c'(1)
      by (subst overwrite_canonical.simps) (simp add: reads_view [where cc = "hc_codec E"])
    ultimately show ?thesis using c' cn g
      by (intro exI [of _ hc'] exI [of _ c']) (simp add: same_chain_def)
  qed
qed

section \<open>Writing a header\<close>

lemma caches_ok_mono:
  assumes "caches_ok hv tv nv V hc" "\<forall>k x. vw_header V k = Some x \<longrightarrow> vw_header V' k = Some x"
    "\<forall>k d. vw_td V k = Some d \<longrightarrow> vw_td V' k = Some d" "\<forall>h n. vw_number V h = Some n \<longrightarrow> vw_number V' h = Some n"
  shows "caches_ok hv tv nv V' hc"
  using assms unfolding caches_ok_def by blast

lemma with_header_mono:
  assumes "stored_ok E g V" "header_fits E g V x" "vw_td V (ParentHash x, num_of x - 1) = Some pd"
  defines "V' \<equiv> with_header E x (the (Difficulty x) + pd) V"
  shows "vw_header V k = Some y \<Longrightarrow> vw_header V' k = Some y" "vw_td V k = Some d \<Longrightarrow> vw_td V' k = Some d"
    "vw_number V h = Some n \<Longrightarrow> vw_number V' h = Some n"
proof -
  note known = known_header_td [OF assms(1-3)]
  show "vw_header V k = Some y \<Longrightarrow> vw_header V' k = Some y"
    unfolding V'_def using with_header_keeps [OF assms(1,2)] by (metis surj_pair)
  show "vw_number V' h = Some n" if "vw_number V h = Some n"
    using that stored_number [OF assms(1) that] known [of n] by (auto simp: V'_def with_header_def)
  show "vw_td V' k = Some d" if k: "vw_td V k = Some d"
  proof (cases "k = (hdr_hash E x, num_of x)")
    case True
    then obtain y where "vw_header V (hdr_hash E x, num_of x) = Some y" using stored_td [OF assms(1)] k by blast
    from known [OF this] k True show ?thesis by (simp add: V'_def with_header_def)
  qed (use k in \<open>simp add: V'_def with_header_def\<close>)
qed

lemma path_to_mono:
  assumes "path_to V hn" "\<forall>k x. vw_header V k = Some x \<longrightarrow> vw_header V' k = Some x" "vw_canon V' = vw_canon V"
  shows "path_to V' hn"
  using assms unfolding path_to_def by metis

text \<open>The total difficulty and the header itself are written in any case.\<close>

lemma store_header_ok:
  assumes "lrus_ok E hv tv nv" "codec_ok (hc_codec E)" "stored_ok E g (hc_view E hc)" "caches_ok hv tv nv (hc_view E hc) hc"
    "db_open (chainDb hc)" "header_fits E g (hc_view E hc) x" "vw_td (hc_view E hc) (ParentHash x, num_of x - 1) = Some pd"
  defines "d \<equiv> the (Difficulty x) + pd"
  shows "\<exists>hc3 db. hc_WriteTd E (hdr_hash E x) (num_of x) d hc = Some hc3
    \<and> WriteHeader (hc_codec E) db_writer (chainDb hc3) x = Some db \<and> db_open db
    \<and> db_view (hc_codec E) db = with_header E x d (hc_view E hc)
    \<and> caches_ok hv tv nv (db_view (hc_codec E) db) (hc3\<lparr>chainDb := db\<rparr>) \<and> genesisHeader hc3 = genesisHeader hc
    \<and> currentHeader hc3 = currentHeader hc \<and> currentHeaderHash hc3 = currentHeaderHash hc"
proof -
  let ?V = "hc_view E hc" and ?h = "hdr_hash E x" and ?n = "num_of x"
  have L: "lru_ok (tdLru E) tv" using assms(1) by (simp add: lrus_ok_def)
  note f = header_fits_number [OF assms(6)]
  have e: "header_encodable x" "Difficulty x \<noteq> None" using assms(6) by (simp_all add: header_fits_def)
  have d0: "0 \<le> d" using stored_td [OF assms(3,7)] e by (auto simp: d_def header_encodable_def)
  obtain db1 where db1: "WriteTd (hc_codec E) db_writer (chainDb hc) ?h ?n d = Some db1" "db_open db1"
    "db_view (hc_codec E) db1 = ?V\<lparr>vw_td := (vw_td ?V)((?h, ?n) \<mapsto> d)\<rparr>"
    using dbw.WriteTd_view [OF assms(5,2) d0, of ?h ?n] by (auto simp: dbw.writes_view_def)
  let ?hc3 = "hc\<lparr>chainDb := db1, tdCache := lru_Add (tdLru E) (tdCache hc) ?h d\<rparr>"
  have c: "CopyHeader x = x" using f e by (intro CopyHeader_id) simp_all
  obtain db where db: "WriteHeader (hc_codec E) db_writer db1 x = Some db" "db_open db"
    "db_view (hc_codec E) db = with_header E x d ?V"
    using dbw.WriteHeader_view [OF db1(2) assms(2) e(1), of ?n] f
    by (auto simp: dbw.writes_view_def db1(3) with_header_def c)
  have m: "caches_ok hv tv nv (with_header E x d ?V) hc"
    using caches_ok_mono [OF assms(4)] with_header_mono [OF assms(3,6,7)] unfolding d_def by blast
  have "\<forall>h e. tv (lru_Add (tdLru E) (tdCache hc) ?h d) h = Some e \<longrightarrow> (\<exists>n. vw_td (with_header E x d ?V) (h, n) = Some e)"
    by (rule lru_Add_all [OF L]) (use m in \<open>auto simp: caches_ok_def intro: exI [of _ ?n]\<close>)
  then have "caches_ok hv tv nv (db_view (hc_codec E) db) (?hc3\<lparr>chainDb := db\<rparr>)"
    using m unfolding db(3) by (simp add: caches_ok_def)
  then show ?thesis using db1(1) db by (intro exI [of _ ?hc3] exI [of _ db]) (simp add: hc_WriteTd_def)
qed

definition head_ok :: "'c hc_env \<Rightarrow> hash \<Rightarrow> chain_view \<Rightarrow> 'c headerChain \<Rightarrow> header \<Rightarrow> bool" where
  "head_ok E g V hc x \<longleftrightarrow> currentHeader hc = Some x \<and> currentHeaderHash hc = hdr_hash E x
     \<and> vw_header V (hdr_hash E x, num_of x) = Some x \<and> vw_headHeader V = hdr_hash E x"

definition chain_inv ::
  "'c hc_env \<Rightarrow> ('c \<Rightarrow> hash \<rightharpoonup> header) \<Rightarrow> ('c \<Rightarrow> hash \<rightharpoonup> bigint) \<Rightarrow> ('c \<Rightarrow> hash \<rightharpoonup> u64) \<Rightarrow> hash \<Rightarrow> 'c headerChain \<Rightarrow> bool" where
  "chain_inv E hv tv nv g hc \<longleftrightarrow> db_open (chainDb hc) \<and> stored_ok E g (hc_view E hc) \<and> caches_ok hv tv nv (hc_view E hc) hc
     \<and> (\<exists>x. head_ok E g (hc_view E hc) hc x \<and> canon_ok (hc_view E hc) (hdr_hash E x) (num_of x)
            \<and> nothing_above (hc_view E hc) (num_of x))"

text \<open>The new head: the numbers below it are its ancestors, and there are none above it.\<close>

lemma make_canonical_ok:
  assumes "lrus_ok E hv tv nv" "stored_ok E g (hc_view E hc)" "caches_ok hv tv nv (hc_view E hc) hc" "db_open (chainDb hc)"
    "path_to (hc_view E hc) hn" "hn \<noteq> - 1" "nothing_above (hc_view E hc) hn"
    "vw_header (hc_view E hc) (hdr_hash E x, num_of x) = Some x" "num_of x \<noteq> 0"
  shows "\<exists>hc' c'. make_canonical E x (hdr_hash E x) (num_of x) hc = Some hc'
    \<and> hc_view E hc' = (hc_view E hc)\<lparr>vw_canon := c', vw_headHeader := hdr_hash E x\<rparr>
    \<and> db_open (chainDb hc') \<and> caches_ok hv tv nv (hc_view E hc) hc'
    \<and> canon_ok (hc_view E hc') (hdr_hash E x) (num_of x) \<and> nothing_above (hc_view E hc') (num_of x)
    \<and> genesisHeader hc' = genesisHeader hc \<and> currentHeader hc' = Some x \<and> currentHeaderHash hc' = hdr_hash E x"
proof -
  let ?V = "hc_view E hc" and ?h = "hdr_hash E x" and ?n = "num_of x"
  note st = assms(2) and hx = assms(8)
  have nm: "?n \<noteq> - 1" by (rule stored_header(5) [OF st hx])
  have n1: "unat (?n + 1) = unat ?n + 1" by (rule unat_Suc_u64 [OF unat_below_max [OF nm]])
  have ge: "?n + 1 \<le> k \<longleftrightarrow> ?n < k" for k using n1 by (auto simp: word_le_nat_alt word_less_nat_alt)
  obtain m where m: "chainDb hc = Some m" using assms(4) by (auto simp: db_open_def)
  have nz: "\<forall>k. ?n + 1 \<le> k \<and> k \<le> hn \<longrightarrow> vw_canon ?V k \<noteq> 0" using path_nonzero [OF st assms(5)] by blast
  have ab: "\<forall>k > hn. vw_canon ?V k = 0" using assms(7) by (simp add: nothing_above_def)
  have bn: "cview (hc_codec E) (batch_at m NewBatch) = ?V" by (simp add: batch_at_new m)
  obtain b where b: "delete_above (chainDb hc) (?n + 1) NewBatch = Some b" "cview (hc_codec E) (batch_at m b)
    = ?V\<lparr>vw_canon := (\<lambda>k. if ?n < k \<and> k \<le> hn then 0 else vw_canon ?V k)\<rparr>"
    using delete_above_ok [OF nz ab assms(6), where m = m and b = NewBatch, unfolded bn ge] by blast
  obtain m1 where m1: "batch_Write b (Some m) = Some (Some m1)" "db_at (Some m1) = batch_at m b" using batch_Write_at by blast
  let ?c5 = "\<lambda>k. if ?n < k \<and> k \<le> hn then 0 else vw_canon ?V k"
  let ?V5 = "?V\<lparr>vw_canon := ?c5\<rparr>" and ?hc5 = "hc\<lparr>chainDb := Some m1\<rparr>"
  have v5: "hc_view E ?hc5 = ?V5" by (simp add: m1(2) b(2))
  obtain p where p: "vw_header ?V (ParentHash x, ?n - 1) = Some p" using stored_header(9) [OF st hx assms(9)] by blast
  obtain r hc6 where r: "hc_GetHeader E (ParentHash x) (?n - 1) ?hc5 = (r, hc6)" by fastforce
  have "r = vw_header ?V5 (ParentHash x, ?n - 1) \<and> same_chain ?hc5 hc6 \<and> caches_ok hv tv nv ?V5 hc6"
    using hc_GetHeader_ok [OF assms(1) _ _ _ r, unfolded v5] st assms(3) stored_header(6) [OF st p] by simp
  then have r': "r = Some p" and sc: "same_chain ?hc5 hc6" and c6: "caches_ok hv tv nv ?V5 hc6" using p by simp_all
  have v6: "hc_view E hc6 = ?V5" and o6: "db_open (chainDb hc6)" using sc v5 by (simp_all add: same_chain_def db_open_def)
  have pm: "path_to ?V5 (min hn ?n)"
    unfolding path_to_def
  proof (intro allI impI)
    fix k assume k: "k \<le> min hn ?n"
    then obtain y where y: "vw_header ?V (vw_canon ?V k, k) = Some y" "k \<noteq> 0 \<longrightarrow> ParentHash y = vw_canon ?V (k - 1)"
      using assms(5) unfolding path_to_def by auto
    have "?c5 k = vw_canon ?V k" using k by auto
    moreover have "k \<noteq> 0 \<longrightarrow> ?c5 (k - 1) = vw_canon ?V (k - 1)"
      using k word_minus_one_le(2) [of k] by (auto simp: word_le_nat_alt word_less_nat_alt)
    ultimately show "\<exists>y. vw_header ?V5 (vw_canon ?V5 k, k) = Some y \<and> (k \<noteq> 0 \<longrightarrow> ParentHash y = vw_canon ?V5 (k - 1))"
      using y by simp
  qed
  have z: "\<forall>k \<le> ?n - 1. k > min hn ?n \<longrightarrow> vw_canon ?V5 k = 0"
    using word_minus_one_le(1) [OF assms(9)] ab by (auto simp: min_less_iff_disj)
  obtain hc7 c7 where c7: "overwrite_canonical E (ParentHash x) (?n - 1) (Some p) hc6 = Some hc7"
    "hc_view E hc7 = ?V5\<lparr>vw_canon := c7\<rparr>" "db_open (chainDb hc7)" "caches_ok hv tv nv ?V5 hc7" "c7 (?n - 1) = ParentHash x"
    "\<forall>k > ?n - 1. c7 k = ?c5 k" "path_to (?V5\<lparr>vw_canon := c7\<rparr>) (?n - 1)" "genesisHeader hc7 = genesisHeader hc6"
    using overwrite_ok [OF assms(1), of g hc6 "min hn ?n" "?n - 1" "ParentHash x" p, unfolded v6] st c6 o6 pm z p by auto
  obtain db8 where db8: "WriteCanonicalHash db_writer (chainDb hc7) ?h ?n = Some db8" "db_open db8"
    "db_view (hc_codec E) db8 = ?V\<lparr>vw_canon := c7(?n := ?h)\<rparr>"
    using dbw.WriteCanonicalHash_view [OF c7(3), of "hc_codec E" ?h ?n] by (auto simp: dbw.writes_view_def c7(2))
  obtain db9 where db9: "WriteHeadHeaderHash db_writer db8 ?h = Some db9" "db_open db9"
    "db_view (hc_codec E) db9 = ?V\<lparr>vw_canon := c7(?n := ?h), vw_headHeader := ?h\<rparr>"
    using dbw.WriteHeadHeaderHash_view [OF db8(2), of "hc_codec E" ?h] by (auto simp: dbw.writes_view_def db8(3))
  have c: "CopyHeader x = x" using stored_header(3,4) [OF st hx] by (intro CopyHeader_id) simp_all
  let ?hc' = "hc7\<lparr>chainDb := db9, currentHeaderHash := ?h, currentHeader := Some x\<rparr>"
  have "make_canonical E x ?h ?n hc = Some ?hc'"
    using b(1) m1(1) r r' c7(1) db8(1) db9(1) by (simp add: make_canonical_def m c)
  moreover have gt: "k > ?n - 1 \<longleftrightarrow> k \<ge> ?n" for k using word_minus_one_le(1) [OF assms(9), of k] by auto
  have "path_to (?V\<lparr>vw_canon := c7(?n := ?h), vw_headHeader := ?h\<rparr>) ?n"
    unfolding path_to_def
  proof (intro allI impI)
    fix k assume k: "k \<le> ?n"
    show "\<exists>y. vw_header (?V\<lparr>vw_canon := c7(?n := ?h), vw_headHeader := ?h\<rparr>)
        (vw_canon (?V\<lparr>vw_canon := c7(?n := ?h), vw_headHeader := ?h\<rparr>) k, k) = Some y
      \<and> (k \<noteq> 0 \<longrightarrow> ParentHash y = vw_canon (?V\<lparr>vw_canon := c7(?n := ?h), vw_headHeader := ?h\<rparr>) (k - 1))"
    proof (cases "k = ?n")
      case True
      then show ?thesis using hx c7(5) by simp
    next
      case False
      then have "k < ?n" using k by simp
      moreover have "k - 1 \<noteq> ?n" if "k \<noteq> 0" using word_minus_one_le(2) [OF that] \<open>k < ?n\<close> by (auto simp: word_less_nat_alt)
      ultimately show ?thesis using c7(7) word_minus_one_le(1) [OF assms(9), of k] unfolding path_to_def by auto
    qed
  qed
  moreover have "(c7(?n := ?h)) k = 0" if "k > ?n" for k
  proof -
    have "c7 k = ?c5 k" using c7(6) that by (simp add: gt)
    then show ?thesis using that ab by (cases "k \<le> hn") auto
  qed
  ultimately show ?thesis using c7 db9 sc
    by (intro exI [of _ ?hc'] exI [of _ "c7(?n := ?h)"]) (simp add: canon_ok_path nothing_above_def same_chain_def caches_ok_def)
qed

lemma caches_ok_add_header:
  assumes "lrus_ok E hv tv nv" "caches_ok hv tv nv V hc" "vw_header V (h, n) = Some x" "vw_number V h = Some n"
  shows "caches_ok hv tv nv V (hc\<lparr>headerCache := lru_Add (headerLru E) (headerCache hc) h x,
     numberCache := lru_Add (numberLru E) (numberCache hc) h n\<rparr>)"
proof -
  have L: "lru_ok (headerLru E) hv" "lru_ok (numberLru E) nv" using assms(1) by (simp_all add: lrus_ok_def)
  have "\<forall>k y. hv (lru_Add (headerLru E) (headerCache hc) h x) k = Some y \<longrightarrow> (\<exists>n. vw_header V (k, n) = Some y)"
    by (rule lru_Add_all [OF L(1)]) (use assms(2,3) in \<open>auto simp: caches_ok_def\<close>)
  moreover have "\<forall>k m. nv (lru_Add (numberLru E) (numberCache hc) h n) k = Some m \<longrightarrow> vw_number V k = Some m"
    by (rule lru_Add_all [OF L(2)]) (use assms(2,4) in \<open>auto simp: caches_ok_def\<close>)
  ultimately show ?thesis using assms(2) by (simp add: caches_ok_def)
qed

text \<open>The total difficulty of the head.\<close>

definition head_td :: "'c hc_env \<Rightarrow> 'c headerChain \<Rightarrow> bigint" where
  "head_td E hc = the (vw_td (hc_view E hc) (currentHeaderHash hc, num_of (the (currentHeader hc))))"

lemma WriteHeader_unknown:
  assumes "lrus_ok E hv tv nv" "chain_inv E hv tv nv g hc" "header_fits E g (hc_view E hc) x"
    "vw_td (hc_view E hc) (ParentHash x, num_of x - 1) = None"
  shows "\<exists>hc'. hc_WriteHeader E coin x hc = Some ((NonStatTy, Some (EngineErr ErrUnknownAncestor)), hc')
    \<and> same_chain hc hc' \<and> chain_inv E hv tv nv g hc'"
proof -
  note f = header_fits_number [OF assms(3)]
  have i: "stored_ok E g (hc_view E hc)" "caches_ok hv tv nv (hc_view E hc) hc" using assms(2) by (simp_all add: chain_inv_def)
  obtain r hc1 where r: "GetTd E (ParentHash x) (num_of x - 1) hc = (r, hc1)" by fastforce
  have "r = None \<and> same_chain hc hc1 \<and> caches_ok hv tv nv (hc_view E hc) hc1"
    using GetTd_ok [OF assms(1) i(2,1) _ r] f assms(4) by simp
  then show ?thesis using f r assms(2)
    by (intro exI [of _ hc1]) (auto simp: hc_WriteHeader_def same_chain_def chain_inv_def head_ok_def)
qed

lemma WriteHeader_known:
  assumes "lrus_ok E hv tv nv" "codec_ok (hc_codec E)" "chain_inv E hv tv nv g hc" "header_fits E g (hc_view E hc) x"
    "vw_td (hc_view E hc) (ParentHash x, num_of x - 1) = Some pd"
  defines "d \<equiv> the (Difficulty x) + pd"
  shows "\<exists>hc'. hc_WriteHeader E coin x hc
      = Some ((if d > head_td E hc \<or> (d = head_td E hc \<and> coin) then CanonStatTy else SideStatTy, None), hc')
    \<and> chain_inv E hv tv nv g hc' \<and> genesisHeader hc' = genesisHeader hc
    \<and> currentHeader hc' = (if d > head_td E hc \<or> (d = head_td E hc \<and> coin) then Some x else currentHeader hc)
    \<and> vw_header (hc_view E hc') = (vw_header (hc_view E hc))((hdr_hash E x, num_of x) \<mapsto> x)
    \<and> vw_td (hc_view E hc') = (vw_td (hc_view E hc))((hdr_hash E x, num_of x) \<mapsto> d)"
proof -
  let ?V = "hc_view E hc" and ?h = "hdr_hash E x" and ?n = "num_of x"
  note f = header_fits_number [OF assms(4)]
  have i: "stored_ok E g ?V" "caches_ok hv tv nv ?V hc" "db_open (chainDb hc)" using assms(3) by (simp_all add: chain_inv_def)
  obtain y where y: "head_ok E g ?V hc y" "canon_ok ?V (hdr_hash E y) (num_of y)" "nothing_above ?V (num_of y)"
    using assms(3) by (auto simp: chain_inv_def)
  have hy: "vw_header ?V (hdr_hash E y, num_of y) = Some y" "currentHeader hc = Some y" "currentHeaderHash hc = hdr_hash E y"
    "vw_headHeader ?V = hdr_hash E y" using y(1) by (simp_all add: head_ok_def)
  obtain r hc1 where r: "GetTd E (ParentHash x) (?n - 1) hc = (r, hc1)" by fastforce
  have g1: "r = Some pd \<and> same_chain hc hc1 \<and> caches_ok hv tv nv ?V hc1"
    using GetTd_ok [OF assms(1) i(2,1) _ r] f assms(5) by simp
  then have v1: "hc_view E hc1 = ?V" by (simp add: same_chain_def)
  obtain q hc2 where q: "GetTd E (hdr_hash E y) (num_of y) hc1 = (q, hc2)" by fastforce
  have g2: "q = vw_td ?V (hdr_hash E y, num_of y) \<and> same_chain hc1 hc2 \<and> caches_ok hv tv nv ?V hc2"
    using GetTd_ok [OF assms(1) _ _ _ q, unfolded v1] g1 i(1) stored_header(6) [OF i(1) hy(1)] by simp
  have v2: "hc_view E hc2 = ?V" and s2: "same_chain hc hc2" using g1 g2 by (simp_all add: same_chain_def)
  have o2: "db_open (chainDb hc2)" using s2 i(3) by (simp add: same_chain_def)
  have ltd: "q = Some (head_td E hc)" using g2 stored_header(8) [OF i(1) hy(1)] by (auto simp: head_td_def hy)
  obtain hc3 db where w: "hc_WriteTd E ?h ?n d hc2 = Some hc3" "WriteHeader (hc_codec E) db_writer (chainDb hc3) x = Some db"
    "db_open db" "db_view (hc_codec E) db = with_header E x d ?V"
    "caches_ok hv tv nv (with_header E x d ?V) (hc3\<lparr>chainDb := db\<rparr>)" "genesisHeader hc3 = genesisHeader hc2"
    "currentHeader hc3 = currentHeader hc2" "currentHeaderHash hc3 = currentHeaderHash hc2"
    using store_header_ok [OF assms(1,2), of g hc2 x pd, unfolded v2] i(1) g2 o2 assms(4,5) unfolding d_def by auto
  let ?W = "with_header E x d ?V" and ?hc4 = "hc3\<lparr>chainDb := db\<rparr>"
  let ?canon = "d > head_td E hc \<or> (d = head_td E hc \<and> coin)"
  have stW: "stored_ok E g ?W" unfolding d_def by (rule with_header_stored [OF i(1) assms(4,5)])
  note mono = with_header_mono [OF i(1) assms(4,5), folded d_def]
  have pathW: "path_to ?W (num_of y)"
    using path_to_mono [of ?V "num_of y" ?W] y(2) mono(1) by (simp add: canon_ok_path)
  have aboveW: "nothing_above ?W (num_of y)" using y(3) by (simp add: nothing_above_def)
  obtain dd where dd: "Difficulty x = Some dd" using assms(4) by (auto simp: header_fits_def)
  then have d_eq: "d = dd + pd" by (simp add: d_def)
  have "\<exists>hc5. (if ?canon then map_option (Pair CanonStatTy) (make_canonical E x ?h ?n ?hc4) else Some (SideStatTy, ?hc4))
       = Some (if ?canon then CanonStatTy else SideStatTy, hc5)
     \<and> db_open (chainDb hc5) \<and> caches_ok hv tv nv ?W hc5 \<and> genesisHeader hc5 = genesisHeader hc
     \<and> (\<exists>c' hh. hc_view E hc5 = ?W\<lparr>vw_canon := c', vw_headHeader := hh\<rparr>)
     \<and> head_ok E g (hc_view E hc5) hc5 (if ?canon then x else y)
     \<and> canon_ok (hc_view E hc5) (hdr_hash E (if ?canon then x else y)) (num_of (if ?canon then x else y))
     \<and> nothing_above (hc_view E hc5) (num_of (if ?canon then x else y))"
  proof (cases ?canon)
    case True
    have "\<exists>hc' c'. make_canonical E x ?h ?n ?hc4 = Some hc' \<and> hc_view E hc' = ?W\<lparr>vw_canon := c', vw_headHeader := ?h\<rparr>
      \<and> db_open (chainDb hc') \<and> caches_ok hv tv nv ?W hc' \<and> canon_ok (hc_view E hc') ?h ?n \<and> nothing_above (hc_view E hc') ?n
      \<and> genesisHeader hc' = genesisHeader ?hc4 \<and> currentHeader hc' = Some x \<and> currentHeaderHash hc' = ?h"
      using make_canonical_ok [OF assms(1), of g ?hc4 "num_of y" x] stW w(3-5) pathW aboveW f stored_header(5) [OF i(1) hy(1)]
      by simp
    then obtain hc' c' where hc': "make_canonical E x ?h ?n ?hc4 = Some hc'" "hc_view E hc' = ?W\<lparr>vw_canon := c', vw_headHeader := ?h\<rparr>"
      "db_open (chainDb hc')" "caches_ok hv tv nv ?W hc'" "canon_ok (hc_view E hc') ?h ?n" "nothing_above (hc_view E hc') ?n"
      "genesisHeader hc' = genesisHeader ?hc4" "currentHeader hc' = Some x" "currentHeaderHash hc' = ?h" by blast
    have "head_ok E g (hc_view E hc') hc' x" using hc'(2,8,9) by (simp add: head_ok_def)
    then show ?thesis using True hc' w(6) s2 by (intro exI [of _ hc']) (auto simp: same_chain_def)
  next
    case False
    have v4: "hc_view E ?hc4 = ?W" by (simp add: w(4))
    have "\<exists>c' hh. ?W = ?W\<lparr>vw_canon := c', vw_headHeader := hh\<rparr>"
      by (rule exI [of _ "vw_canon ?W"], rule exI [of _ "vw_headHeader ?W"]) simp
    moreover have "head_ok E g ?W ?hc4 y" using mono(1) [OF hy(1)] hy s2 w(7,8) by (simp add: head_ok_def same_chain_def)
    moreover have "canon_ok ?W (hdr_hash E y) (num_of y)" using pathW y(2) by (simp add: canon_ok_path)
    ultimately show ?thesis using False v4 w s2 aboveW by (intro exI [of _ ?hc4]) (auto simp: same_chain_def)
  qed
  then obtain hc5 c' hh where hc5: "(if ?canon then map_option (Pair CanonStatTy) (make_canonical E x ?h ?n ?hc4) else Some (SideStatTy, ?hc4))
       = Some (if ?canon then CanonStatTy else SideStatTy, hc5)"
    "db_open (chainDb hc5)" "caches_ok hv tv nv ?W hc5" "genesisHeader hc5 = genesisHeader hc"
    "hc_view E hc5 = ?W\<lparr>vw_canon := c', vw_headHeader := hh\<rparr>" "head_ok E g (hc_view E hc5) hc5 (if ?canon then x else y)"
    "canon_ok (hc_view E hc5) (hdr_hash E (if ?canon then x else y)) (num_of (if ?canon then x else y))"
    "nothing_above (hc_view E hc5) (num_of (if ?canon then x else y))" by blast
  let ?hc' = "hc5\<lparr>headerCache := lru_Add (headerLru E) (headerCache hc5) ?h x, numberCache := lru_Add (numberLru E) (numberCache hc5) ?h ?n\<rparr>"
  have c': "caches_ok hv tv nv ?W ?hc'"
    by (rule caches_ok_add_header [OF assms(1) hc5(3), of ?h ?n x]) (simp_all add: with_header_def)
  have v': "hc_view E ?hc' = hc_view E hc5" by simp
  have "chain_inv E hv tv nv g ?hc'" unfolding chain_inv_def
    using hc5(2,6-8) stW c' by (auto simp: hc5(5) head_ok_def)
  moreover have "hc_WriteHeader E coin x hc = Some ((if ?canon then CanonStatTy else SideStatTy, None), ?hc')"
  proof -
    have e: "Uint64 (Number x) = Some ?n" "GetTd E (ParentHash x) (?n - 1) hc = (Some pd, hc1)" "currentHeader hc1 = Some y"
      "currentHeaderHash hc1 = hdr_hash E y" "GetTd E (hdr_hash E y) (num_of y) hc1 = (Some (head_td E hc), hc2)"
      using f r g1 hy q ltd by (auto simp: same_chain_def)
    show ?thesis
      by (simp only: hc_WriteHeader_def e stored_Uint64 [OF i(1) hy(1)] Let_def option.case prod.case Option.bind.bind_lunit
          dd d_eq [symmetric] w(1,2) hc5(1))
  qed
  ultimately show ?thesis using hc5 hy by (intro exI [of _ ?hc']) (auto simp: head_ok_def with_header_def)
qed

end
