(* ===== verification/Header_Rules.thy ===== *)
theory Header_Rules
  imports Header_Inv
begin

text \<open>
  Properties of the header chain (\<open>core/headerchain.go\<close>): from a genesis block on, every written header leaves the
  canonical numbers at the path to a heaviest header; walking back by canonical numbers gives the ancestors; rewinding.
\<close>

section \<open>Reachable chains\<close>

text \<open>What \<open>Genesis.Commit\<close> leaves in an empty database.\<close>

definition genesis_db :: "'c hc_env \<Rightarrow> hash \<Rightarrow> memdb \<Rightarrow> bool" where
  "genesis_db E g db \<longleftrightarrow> db_open db
     \<and> (\<exists>x d. hdr_hash E x = g \<and> g \<noteq> 0 \<and> Number x = Some 0 \<and> Difficulty x \<noteq> None \<and> 0 \<le> d
         \<and> vw_header (db_view (hc_codec E) db) = [(g, 0) \<mapsto> x] \<and> vw_number (db_view (hc_codec E) db) = [g \<mapsto> 0]
         \<and> vw_td (db_view (hc_codec E) db) = [(g, 0) \<mapsto> d])
     \<and> vw_canon (db_view (hc_codec E) db) = (\<lambda>n. if n = 0 then g else 0)
     \<and> vw_headBlock (db_view (hc_codec E) db) = g \<and> vw_headHeader (db_view (hc_codec E) db) = g"

inductive header_reachable :: "'c hc_env \<Rightarrow> 'c \<Rightarrow> hash \<Rightarrow> 'c headerChain \<Rightarrow> bool" for E c0 g where
  start: "genesis_db E g db \<Longrightarrow> NewHeaderChain E c0 db = Inr hc \<Longrightarrow> header_reachable E c0 g hc"
| look: "header_reachable E c0 g hc \<Longrightarrow> hc_GetHeaderByHash E h hc = (r, hc') \<Longrightarrow> header_reachable E c0 g hc'"
| wrote: "header_reachable E c0 g hc \<Longrightarrow> header_fits E g (hc_view E hc) x \<Longrightarrow> hc_WriteHeader E coin x hc = Some (r, hc') \<Longrightarrow>
    header_reachable E c0 g hc'"

definition heaviest_head :: "'c hc_env \<Rightarrow> 'c headerChain \<Rightarrow> bool" where
  "heaviest_head E hc \<longleftrightarrow> (\<forall>k d. vw_td (hc_view E hc) k = Some d \<longrightarrow> d \<le> head_td E hc)"

lemma NewHeaderChain_ok:
  assumes "lrus_ok E hv tv nv" "hv c0 = Map.empty" "tv c0 = Map.empty" "nv c0 = Map.empty" "genesis_db E g db"
  shows "\<exists>hc. NewHeaderChain E c0 db = Inr hc \<and> chain_inv E hv tv nv g hc \<and> heaviest_head E hc \<and> chainDb hc = db"
proof -
  let ?V = "db_view (hc_codec E) db"
  from assms(5) obtain x d where x: "db_open db" "hdr_hash E x = g" "g \<noteq> 0" "Number x = Some 0" "Difficulty x \<noteq> None" "0 \<le> d"
    "vw_header ?V = [(g, 0) \<mapsto> x]" "vw_number ?V = [g \<mapsto> 0]" "vw_td ?V = [(g, 0) \<mapsto> d]"
    "vw_canon ?V = (\<lambda>n. if n = 0 then g else 0)" "vw_headBlock ?V = g" "vw_headHeader ?V = g"
    unfolding genesis_db_def by blast
  let ?hc = "\<lparr>chainDb = db, genesisHeader = None, currentHeader = None, currentHeaderHash = 0,
                headerCache = c0, tdCache = c0, numberCache = c0\<rparr>"
  have st: "stored_ok E g ?V" unfolding stored_ok_def using x(2-9) by auto
  have c: "caches_ok hv tv nv ?V ?hc" using assms(2-4) by (simp add: caches_ok_def)
  obtain r hc1 where r: "hc_GetHeader E g 0 ?hc = (r, hc1)" by fastforce
  have 1: "r = Some x \<and> same_chain ?hc hc1 \<and> caches_ok hv tv nv ?V hc1"
    using hc_GetHeader_ok [OF assms(1) _ _ _ r] st c x(7,8) by simp
  let ?hc2 = "hc1\<lparr>genesisHeader := Some x, currentHeader := Some x\<rparr>"
  have v2: "hc_view E ?hc2 = ?V" and c2: "caches_ok hv tv nv ?V ?hc2" using 1 by (simp_all add: same_chain_def caches_ok_def)
  obtain q hc3 where q: "hc_GetHeaderByHash E g ?hc2 = (q, hc3)" by fastforce
  have 2: "q = Some x \<and> same_chain ?hc2 hc3 \<and> caches_ok hv tv nv ?V hc3"
    using hc_GetHeaderByHash_ok [OF assms(1) _ _ q, unfolded v2] st c2 x(7,8) by simp
  let ?hc' = "hc3\<lparr>currentHeader := Some x, currentHeaderHash := g\<rparr>"
  have n: "NewHeaderChain E c0 db = Inr ?hc'"
    using r q 1 2 x(2,3) x(10,11) by (simp add: NewHeaderChain_def hc_GetHeaderByNumber_def reads_view [where cc = "hc_codec E"])
  have v': "hc_view E ?hc' = ?V" using 1 2 by (simp add: same_chain_def)
  have nx: "num_of x = 0" using x(4) by (simp add: num_of_def)
  have "chain_inv E hv tv nv g ?hc'" unfolding chain_inv_def v'
    using st 1 2 x nx
    by (auto simp: same_chain_def caches_ok_def head_ok_def canon_ok_def nothing_above_def word_gt_0 intro!: exI [of _ x])
  moreover have "heaviest_head E ?hc'" unfolding heaviest_head_def head_td_def v' using x(9) nx by (auto split: if_splits)
  moreover have "chainDb ?hc' = db" using 1 2 by (simp add: same_chain_def)
  ultimately show ?thesis using n by blast
qed

lemma header_reachable_inv:
  assumes "lrus_ok E hv tv nv" "codec_ok (hc_codec E)" "hv c0 = Map.empty" "tv c0 = Map.empty" "nv c0 = Map.empty"
    "header_reachable E c0 g hc"
  shows "chain_inv E hv tv nv g hc \<and> heaviest_head E hc"
  using assms(6)
proof induction
  case (start db hc)
  then show ?case using NewHeaderChain_ok [OF assms(1,3,4,5)] by fastforce
next
  case (look hc h r hc')
  have i: "stored_ok E g (hc_view E hc)" "caches_ok hv tv nv (hc_view E hc) hc" using look.IH by (simp_all add: chain_inv_def)
  have s: "same_chain hc hc' \<and> caches_ok hv tv nv (hc_view E hc) hc'"
    using hc_GetHeaderByHash_ok [OF assms(1) i(2,1) look.hyps(2)] by blast
  then show ?case using look.IH by (auto simp: chain_inv_def same_chain_def head_ok_def heaviest_head_def head_td_def)
next
  case (wrote hc x coin r hc')
  have i: "chain_inv E hv tv nv g hc" and w: "heaviest_head E hc" using wrote.IH by simp_all
  have st: "stored_ok E g (hc_view E hc)" using i by (simp add: chain_inv_def)
  show ?case
  proof (cases "vw_td (hc_view E hc) (ParentHash x, num_of x - 1)")
    case None
    then obtain hc1 where "hc_WriteHeader E coin x hc = Some ((NonStatTy, Some (EngineErr ErrUnknownAncestor)), hc1)"
      "same_chain hc hc1" "chain_inv E hv tv nv g hc1"
      using WriteHeader_unknown [OF assms(1) i wrote.hyps(2)] by blast
    then show ?thesis using wrote.hyps(3) w by (auto simp: same_chain_def heaviest_head_def head_td_def)
  next
    case (Some pd)
    let ?d = "the (Difficulty x) + pd"
    let ?canon = "?d > head_td E hc \<or> (?d = head_td E hc \<and> coin)"
    obtain hc1 where 1: "hc_WriteHeader E coin x hc = Some ((if ?canon then CanonStatTy else SideStatTy, None), hc1)"
      "chain_inv E hv tv nv g hc1" "currentHeader hc1 = (if ?canon then Some x else currentHeader hc)"
      "vw_td (hc_view E hc1) = (vw_td (hc_view E hc))((hdr_hash E x, num_of x) \<mapsto> ?d)"
      using WriteHeader_known [OF assms(1,2) i wrote.hyps(2) Some, of coin] by blast
    then have e: "hc1 = hc'" using wrote.hyps(3) by simp
    obtain y where y: "currentHeader hc = Some y" "currentHeaderHash hc = hdr_hash E y"
      "vw_header (hc_view E hc) (hdr_hash E y, num_of y) = Some y" using i by (auto simp: chain_inv_def head_ok_def)
    have hh: "currentHeaderHash hc1 = hdr_hash E (the (currentHeader hc1))" using 1(2) by (auto simp: chain_inv_def head_ok_def)
    have old: "vw_td (hc_view E hc) (hdr_hash E y, num_of y) = Some (head_td E hc)"
      using stored_header(8) [OF st y(3)] by (auto simp: head_td_def y)
    have "head_td E hc1 = (if ?canon then ?d else head_td E hc)"
    proof (cases ?canon)
      case True
      then show ?thesis using 1(3,4) hh by (auto simp: head_td_def)
    next
      case False
      have "?d = head_td E hc" if "(hdr_hash E y, num_of y) = (hdr_hash E x, num_of x)"
        using known_header_td [OF st wrote.hyps(2) Some, of "num_of y" y] y(3) old that by simp
      then have "vw_td (hc_view E hc1) (hdr_hash E y, num_of y) = Some (head_td E hc)" using 1(4) old by auto
      then show ?thesis using False 1(3) hh y(1) by (auto simp: head_td_def)
    qed
    then have h1: "head_td E hc1 \<ge> head_td E hc" "head_td E hc1 \<ge> ?d" by auto
    have "d \<le> head_td E hc1" if "vw_td (hc_view E hc1) k = Some d" for k d
      using that w h1 unfolding 1(4) heaviest_head_def by (fastforce split: if_splits)
    then have "heaviest_head E hc1" by (simp add: heaviest_head_def)
    then show ?thesis using 1(2) e by simp
  qed
qed

text \<open>C11: Start from a genesis block and write headers that fit, in any order, with any coin tosses and lookups in
  between. Then the head is a header of the greatest total difficulty that was ever written, the number of the head has
  its hash, every number below has the hash of the parent of the next, and no number above has any.\<close>

theorem header_chain_heaviest:
  assumes "lrus_ok E hv tv nv" "codec_ok (hc_codec E)" "hv c0 = Map.empty" "tv c0 = Map.empty" "nv c0 = Map.empty"
    "header_reachable E c0 g hc"
  shows "\<exists>x. currentHeader hc = Some x \<and> currentHeaderHash hc = hdr_hash E x
    \<and> (\<forall>h n d. ReadTd (hc_codec E) (chainDb hc) h n = Some d \<longrightarrow>
         (\<exists>dx. ReadTd (hc_codec E) (chainDb hc) (hdr_hash E x) (num_of x) = Some dx \<and> d \<le> dx))
    \<and> ReadCanonicalHash (chainDb hc) (num_of x) = hdr_hash E x
    \<and> (\<forall>n \<le> num_of x. \<exists>y. ReadHeader (hc_codec E) (chainDb hc) (ReadCanonicalHash (chainDb hc) n) n = Some y
         \<and> (n \<noteq> 0 \<longrightarrow> ParentHash y = ReadCanonicalHash (chainDb hc) (n - 1)))
    \<and> (\<forall>n > num_of x. ReadCanonicalHash (chainDb hc) n = 0)"
proof -
  have i: "chain_inv E hv tv nv g hc" "heaviest_head E hc" using header_reachable_inv [OF assms] by simp_all
  obtain x where x: "head_ok E g (hc_view E hc) hc x" "canon_ok (hc_view E hc) (hdr_hash E x) (num_of x)"
    "nothing_above (hc_view E hc) (num_of x)" and st: "stored_ok E g (hc_view E hc)" using i(1) by (auto simp: chain_inv_def)
  have hx: "currentHeader hc = Some x" "currentHeaderHash hc = hdr_hash E x"
    "vw_header (hc_view E hc) (hdr_hash E x, num_of x) = Some x" using x(1) by (simp_all add: head_ok_def)
  have "vw_td (hc_view E hc) (hdr_hash E x, num_of x) = Some (head_td E hc)"
    using stored_header(8) [OF st hx(3)] by (auto simp: head_td_def hx)
  then show ?thesis using hx(1,2) i(2) x(2,3)
    by (auto simp: reads_view [where cc = "hc_codec E"] heaviest_head_def canon_ok_def nothing_above_def intro!: exI [of _ x])
qed

section \<open>Ancestors\<close>

text \<open>The specification: one parent after the other.\<close>

fun nth_ancestor :: "chain_view \<Rightarrow> nat \<Rightarrow> hash \<Rightarrow> u64 \<Rightarrow> hash" where
  "nth_ancestor V 0 h n = h"
| "nth_ancestor V (Suc k) h n =
     (case vw_header V (h, n) of None \<Rightarrow> 0 | Some x \<Rightarrow> nth_ancestor V k (ParentHash x) (n - 1))"

lemma word_sub_Suc: "(n :: u64) - 1 - of_nat k = n - of_nat (Suc k)"
  by simp

lemma canonical_ancestor:
  assumes "path_to V hn" "n \<le> hn" "vw_canon V n = h" "k \<le> unat n"
  shows "nth_ancestor V k h n = vw_canon V (n - of_nat k)"
  using assms(2-4)
proof (induction k arbitrary: n h)
  case (Suc k)
  obtain x where x: "vw_header V (h, n) = Some x" "n \<noteq> 0 \<longrightarrow> ParentHash x = vw_canon V (n - 1)"
    using assms(1) Suc.prems(1,2) unfolding path_to_def by blast
  have n0: "n \<noteq> 0" using Suc.prems(3) by auto
  have "nth_ancestor V k (ParentHash x) (n - 1) = vw_canon V (n - 1 - of_nat k)"
    using Suc.IH [of "n - 1" "ParentHash x"] Suc.prems x n0 word_minus_one_le(2) [OF n0]
    by (auto simp: unat_minus_one word_le_nat_alt)
  then show ?case using x by (simp only: nth_ancestor.simps option.case word_sub_Suc)
qed simp

lemma ancestor_loop_ok:
  assumes "lrus_ok E hv tv nv" "stored_ok E g (hc_view E hc)" "caches_ok hv tv nv (hc_view E hc) hc"
    "path_to (hc_view E hc) hn" "nothing_above (hc_view E hc) hn"
    "vw_header (hc_view E hc) (h, n) = Some x" "a \<le> unat n" "ancestor_loop E a h n m hc = (r, m', hc')"
  shows "same_chain hc hc' \<and> caches_ok hv tv nv (hc_view E hc) hc'
    \<and> (r = (nth_ancestor (hc_view E hc) a h n, n - of_nat a)
       \<or> r = (0, 0) \<and> unat m < a \<and> (\<forall>k \<le> unat m. vw_canon (hc_view E hc) (n - of_nat k) \<noteq> nth_ancestor (hc_view E hc) k h n))"
  using assms(2-8)
proof (induction a arbitrary: h n m x hc)
  case 0
  then show ?case by simp
next
  case (Suc a)
  let ?V = "hc_view E hc"
  note st = Suc.prems(1) and hx = Suc.prems(5)
  show ?case
  proof (cases "vw_canon ?V n = h")
    case True
    then have "n \<le> hn" using Suc.prems(4) stored_header(2) [OF st hx] by (auto simp: nothing_above_def not_le [symmetric])
    then have "nth_ancestor ?V (Suc a) h n = vw_canon ?V (n - of_nat (Suc a))"
      using canonical_ancestor [OF Suc.prems(3) _ True Suc.prems(6)] by blast
    then show ?thesis using True Suc.prems(2,7) by (auto simp: reads_view [where cc = "hc_codec E"])
  next
    case False
    show ?thesis
    proof (cases "m = 0")
      case True
      then show ?thesis using False Suc.prems(2,7) by (auto simp: reads_view [where cc = "hc_codec E"])
    next
      case m0: False
      have n0: "n \<noteq> 0" using Suc.prems(6) by auto
      obtain q hc1 where q: "hc_GetHeader E h n hc = (q, hc1)" by fastforce
      have g: "q = Some x \<and> same_chain hc hc1 \<and> caches_ok hv tv nv ?V hc1"
        using hc_GetHeader_ok [OF assms(1) Suc.prems(2) st _ q] stored_header(6) [OF st hx] hx by simp
      then have v1: "hc_view E hc1 = ?V" by (simp add: same_chain_def)
      obtain p where p: "vw_header ?V (ParentHash x, n - 1) = Some p" using stored_header(9) [OF st hx n0] by blast
      have l: "ancestor_loop E a (ParentHash x) (n - 1) (m - 1) hc1 = (r, m', hc')"
        using False m0 q g Suc.prems(7) by (simp add: reads_view [where cc = "hc_codec E"])
      have an: "a \<le> unat (n - 1)" using Suc.prems(6) n0 by (simp add: unat_minus_one)
      have IH: "same_chain hc1 hc' \<and> caches_ok hv tv nv ?V hc'
        \<and> (r = (nth_ancestor ?V a (ParentHash x) (n - 1), n - 1 - of_nat a)
           \<or> r = (0, 0) \<and> unat (m - 1) < a
             \<and> (\<forall>k \<le> unat (m - 1). vw_canon ?V (n - 1 - of_nat k) \<noteq> nth_ancestor ?V k (ParentHash x) (n - 1)))"
        using Suc.IH [of hc1 "ParentHash x" "n - 1" p "m - 1", unfolded v1] st g Suc.prems(3,4) p an l by blast
      have m1: "unat m = Suc (unat (m - 1))" using m0 by (simp add: unat_minus_one unat_gt_0)
      have anc: "nth_ancestor ?V (Suc k) h n = nth_ancestor ?V k (ParentHash x) (n - 1)" for k using hx by simp
      have "vw_canon ?V (n - of_nat k) \<noteq> nth_ancestor ?V k h n"
        if "\<forall>k \<le> unat (m - 1). vw_canon ?V (n - 1 - of_nat k) \<noteq> nth_ancestor ?V k (ParentHash x) (n - 1)" "k \<le> unat m" for k
      proof (cases k)
        case 0
        then show ?thesis using False by simp
      next
        case (Suc j)
        then have "vw_canon ?V (n - 1 - of_nat j) \<noteq> nth_ancestor ?V j (ParentHash x) (n - 1)" using that m1 by simp
        then show ?thesis unfolding Suc anc word_sub_Suc .
      qed
      then show ?thesis using IH g same_chain_trans m1 unfolding anc word_sub_Suc by auto
    qed
  qed
qed

text \<open>C13: On a reachable chain \<open>GetAncestor\<close>, which jumps along the canonical numbers as soon as it meets them, gives what
  walking from parent to parent gives. It gives up, with the zero hash, only when \<open>maxNonCanonical\<close> is smaller than the
  distance and it met no canonical header in that many steps.\<close>

theorem get_ancestor_walks:
  assumes "lrus_ok E hv tv nv" "codec_ok (hc_codec E)" "hv c0 = Map.empty" "tv c0 = Map.empty" "nv c0 = Map.empty"
    "header_reachable E c0 g hc" "ReadHeader (hc_codec E) (chainDb hc) h n = Some x" "a \<le> n"
    "hc_GetAncestor E h n a m hc = (r, m', hc')"
  shows "r = (nth_ancestor (hc_view E hc) (unat a) h n, n - a)
    \<or> r = (0, 0) \<and> m < a \<and> (\<forall>k \<le> unat m. ReadCanonicalHash (chainDb hc) (n - of_nat k) \<noteq> nth_ancestor (hc_view E hc) k h n)"
proof -
  let ?V = "hc_view E hc"
  have i: "chain_inv E hv tv nv g hc" using header_reachable_inv [OF assms(1-6)] by simp
  obtain y where y: "head_ok E g ?V hc y" "canon_ok ?V (hdr_hash E y) (num_of y)" "nothing_above ?V (num_of y)"
    and st: "stored_ok E g ?V" "caches_ok hv tv nv ?V hc" using i by (auto simp: chain_inv_def)
  have hx: "vw_header ?V (h, n) = Some x" using assms(7) by (simp add: reads_view [where cc = "hc_codec E"])
  show ?thesis
  proof (cases "a = 1")
    case True
    obtain q hc1 where q: "hc_GetHeader E h n hc = (q, hc1)" by fastforce
    have "q = Some x" using hc_GetHeader_ok [OF assms(1) st(2,1) _ q] stored_header(6) [OF st(1) hx] hx by simp
    moreover have "n \<noteq> 0" using assms(8) True by auto
    moreover have "\<not> a > n" using assms(8) by simp
    ultimately have "r = (ParentHash x, n - 1)" using assms(9) True q unfolding hc_GetAncestor_def by simp
    then show ?thesis using True hx by simp
  next
    case False
    moreover have "\<not> a > n" using assms(8) by simp
    ultimately have l: "ancestor_loop E (unat a) h n m hc = (r, m', hc')" using assms(9) by (simp add: hc_GetAncestor_def)
    have "unat a \<le> unat n" using assms(8) by (simp add: word_le_nat_alt)
    then show ?thesis
      using ancestor_loop_ok [OF assms(1) st(1,2) _ y(3) hx _ l] y(2)
      by (auto simp: canon_ok_path word_less_nat_alt reads_view [where cc = "hc_codec E"])
  qed
qed

section \<open>Rewinding\<close>

text \<open>\<open>wiped c lo hi\<close>: the headers and difficulties of the canonical numbers between are gone. Bodies are the business of
  the callback and are not compared.\<close>

definition no_bodies :: "chain_view \<Rightarrow> chain_view" where
  "no_bodies V = V\<lparr>vw_body := Map.empty\<rparr>"

definition in_range :: "u64 \<Rightarrow> u64 \<Rightarrow> u64 \<Rightarrow> bool" where
  "in_range lo hi n \<longleftrightarrow> lo < n \<and> n \<le> hi"

definition wipe_at :: "(u64 \<Rightarrow> hash) \<Rightarrow> u64 \<Rightarrow> u64 \<Rightarrow> (hash \<times> u64 \<Rightarrow> 'a option) \<Rightarrow> hash \<times> u64 \<Rightarrow> 'a option" where
  "wipe_at c lo hi f = (\<lambda>(h, n). if in_range lo hi n \<and> h = c n then None else f (h, n))"

definition wipe_number :: "(u64 \<Rightarrow> hash) \<Rightarrow> u64 \<Rightarrow> u64 \<Rightarrow> (hash \<Rightarrow> u64 option) \<Rightarrow> hash \<Rightarrow> u64 option" where
  "wipe_number c lo hi f = (\<lambda>h. if \<exists>n. in_range lo hi n \<and> h = c n then None else f h)"

definition wiped :: "(u64 \<Rightarrow> hash) \<Rightarrow> u64 \<Rightarrow> u64 \<Rightarrow> chain_view \<Rightarrow> chain_view" where
  "wiped c lo hi V =
     V\<lparr>vw_header := wipe_at c lo hi (vw_header V), vw_td := wipe_at c lo hi (vw_td V), vw_number := wipe_number c lo hi (vw_number V)\<rparr>"

lemma in_range_step: "lo < n \<Longrightarrow> in_range lo n k \<longleftrightarrow> in_range lo (n - 1) k \<or> k = n"
proof -
  assume "lo < n"
  then have "n \<noteq> 0" by auto
  then show ?thesis using \<open>lo < n\<close> word_minus_one_le(1) [of n k] by (auto simp: in_range_def)
qed

lemma wipe_step:
  assumes "lo < n"
  shows "wipe_at c lo (n - 1) (f((c n, n) := None)) = wipe_at c lo n f"
    "wipe_number c lo (n - 1) (w(c n := None)) = wipe_number c lo n w"
  using in_range_step [OF assms] by (auto simp: wipe_at_def wipe_number_def fun_eq_iff)

lemma wiped_step:
  assumes "lo < n" "c n = h"
  shows "wiped c lo (n - 1) (V\<lparr>vw_header := (vw_header V)((h, n) := None), vw_number := (vw_number V)(h := None),
      vw_td := (vw_td V)((h, n) := None)\<rparr>) = wiped c lo n V"
  by (simp add: wiped_def wipe_step [OF assms(1), of c, unfolded assms(2)])

lemma wiped_empty: "\<not> lo < hi \<Longrightarrow> wiped c lo hi V = V"
proof -
  assume "\<not> lo < hi"
  then have "\<not> in_range lo hi n" for n by (auto simp: in_range_def)
  then show ?thesis by (simp add: wiped_def wipe_at_def wipe_number_def)
qed

definition only_bodies :: "chain_codec \<Rightarrow> (bytes, bytes) gomap \<Rightarrow> (batch \<Rightarrow> hash \<Rightarrow> u64 \<Rightarrow> batch option) option \<Rightarrow> bool" where
  "only_bodies cc m delFn \<longleftrightarrow> (\<forall>f. delFn = Some f \<longrightarrow>
     (\<forall>b h n. \<exists>b'. f b h n = Some b' \<and> no_bodies (cview cc (batch_at m b')) = no_bodies (cview cc (batch_at m b))))"

lemma no_bodies_simps:
  "no_bodies (V\<lparr>vw_header := x\<rparr>) = (no_bodies V)\<lparr>vw_header := x\<rparr>" "no_bodies (V\<lparr>vw_td := y\<rparr>) = (no_bodies V)\<lparr>vw_td := y\<rparr>"
  "no_bodies (V\<lparr>vw_number := z\<rparr>) = (no_bodies V)\<lparr>vw_number := z\<rparr>" "no_bodies (V\<lparr>vw_canon := c\<rparr>) = (no_bodies V)\<lparr>vw_canon := c\<rparr>"
  "vw_header (no_bodies V) = vw_header V" "vw_td (no_bodies V) = vw_td V" "vw_number (no_bodies V) = vw_number V"
  "vw_canon (no_bodies V) = vw_canon V"
  by (simp_all add: no_bodies_def)

lemma no_bodies_eqD: "no_bodies V = no_bodies V' \<Longrightarrow> vw_header V = vw_header V' \<and> vw_td V = vw_td V' \<and> vw_number V = vw_number V'
    \<and> vw_canon V = vw_canon V'"
  by (metis no_bodies_simps(5-8))

text \<open>One block is deleted: first what the callback deletes, then the header with its number, then the difficulty.\<close>

lemma delete_one:
  assumes "only_bodies cc m delFn"
  shows "\<exists>b'. Option.bind (case delFn of None \<Rightarrow> Some b | Some f \<Rightarrow> f b h n)
      (\<lambda>b. Option.bind (DeleteHeader batch_writer b h n) (\<lambda>b. DeleteTd batch_writer b h n)) = Some b'
    \<and> no_bodies (cview cc (batch_at m b')) = (no_bodies (cview cc (batch_at m b)))
        \<lparr>vw_header := (vw_header (cview cc (batch_at m b)))((h, n) := None),
         vw_number := (vw_number (cview cc (batch_at m b)))(h := None),
         vw_td := (vw_td (cview cc (batch_at m b)))((h, n) := None)\<rparr>"
proof -
  obtain b1 where b1: "(case delFn of None \<Rightarrow> Some b | Some f \<Rightarrow> f b h n) = Some b1"
    "no_bodies (cview cc (batch_at m b1)) = no_bodies (cview cc (batch_at m b))"
    
  proof (cases delFn)
    case (Some f)
    then show ?thesis using that assms unfolding only_bodies_def by fastforce
  qed (use that in simp)
  obtain b2 where b2: "DeleteHeader batch_writer b1 h n = Some b2" "cview cc (batch_at m b2) = (cview cc (batch_at m b1))
      \<lparr>vw_header := (vw_header (cview cc (batch_at m b1)))((h, n) := None), vw_number := (vw_number (cview cc (batch_at m b1)))(h := None)\<rparr>"
    using batchw.DeleteHeader_view [where m = m and w = b1 and cc = cc and n = n and h = h] by (auto simp: batchw.writes_view_def)
  obtain b3 where b3: "DeleteTd batch_writer b2 h n = Some b3" "cview cc (batch_at m b3) = (cview cc (batch_at m b2))
      \<lparr>vw_td := (vw_td (cview cc (batch_at m b2)))((h, n) := None)\<rparr>"
    using batchw.DeleteTd_view [where m = m and w = b2 and cc = cc and n = n and h = h] by (auto simp: batchw.writes_view_def)
  show ?thesis using b1(1) b2(1) b3(1) no_bodies_eqD [OF b1(2)]
    by (intro exI [of _ b3]) (simp add: b3(2) b2(2) no_bodies_simps b1(2))
qed

lemma rewind_ok:
  assumes "lrus_ok E hv tv nv" "stored_ok E g (hc_view E hc)" "only_bodies (hc_codec E) m delFn"
    "caches_ok hv tv nv (hc_view E hc) hc" "currentHeader hc = Some y" "num_of y = n" "vw_canon (hc_view E hc) n = hdr_hash E y"
    "path_to (hc_view E hc) n" "vw_header (hc_view E hc) (hdr_hash E y, n) = Some y"
  shows "\<exists>b' hc' z. rewind E delFn head b hc = Some (b', hc') \<and> chainDb hc' = chainDb hc \<and> genesisHeader hc' = genesisHeader hc
    \<and> caches_ok hv tv nv (hc_view E hc) hc' \<and> currentHeader hc' = Some z \<and> num_of z = min head n
    \<and> hdr_hash E z = vw_canon (hc_view E hc) (min head n) \<and> vw_header (hc_view E hc) (hdr_hash E z, min head n) = Some z
    \<and> no_bodies (cview (hc_codec E) (batch_at m b')) = wiped (vw_canon (hc_view E hc)) head n (no_bodies (cview (hc_codec E) (batch_at m b)))"
  using assms(2,4-9)
proof (induction "unat n" arbitrary: n y hc b rule: less_induct)
  case less
  let ?V = "hc_view E hc" and ?h = "hdr_hash E y"
  note st = less.prems(1) and hy = less.prems(7)
  have u: "Uint64 (Number y) = Some n" by (rule stored_Uint64 [OF st hy])
  show ?case
  proof (cases "n > head")
    case False
    have "rewind E delFn head b hc = Some (b, hc)" using less.prems(3) u False by (subst rewind.simps) simp
    then show ?thesis using less.prems False by (intro exI [of _ b] exI [of _ hc] exI [of _ y]) (simp add: wiped_empty min_def not_less)
  next
    case True
    then have n0: "n \<noteq> 0" by auto
    obtain b1 where b1: "Option.bind (case delFn of None \<Rightarrow> Some b | Some f \<Rightarrow> f b ?h n)
        (\<lambda>b. Option.bind (DeleteHeader batch_writer b ?h n) (\<lambda>b. DeleteTd batch_writer b ?h n)) = Some b1"
      "no_bodies (cview (hc_codec E) (batch_at m b1)) = (no_bodies (cview (hc_codec E) (batch_at m b)))
        \<lparr>vw_header := (vw_header (cview (hc_codec E) (batch_at m b)))((?h, n) := None),
         vw_number := (vw_number (cview (hc_codec E) (batch_at m b)))(?h := None),
         vw_td := (vw_td (cview (hc_codec E) (batch_at m b)))((?h, n) := None)\<rparr>"
      using delete_one [OF assms(3)] by blast
    obtain p where p: "vw_header ?V (ParentHash y, n - 1) = Some p" using stored_header(9) [OF st hy n0] by blast
    obtain r hc1 where r: "hc_GetHeader E (ParentHash y) (n - 1) hc = (r, hc1)" by fastforce
    have g: "r = Some p \<and> same_chain hc hc1 \<and> caches_ok hv tv nv ?V hc1"
      using hc_GetHeader_ok [OF assms(1) less.prems(2) st _ r] stored_header(6) [OF st p] p by simp
    let ?hc2 = "hc1\<lparr>currentHeader := Some p\<rparr>"
    have v2: "hc_view E ?hc2 = ?V" using g by (simp add: same_chain_def)
    have ph: "hdr_hash E p = ParentHash y" using stored_header(1) [OF st p] .
    have "Number p = Some (uint (n - 1))" using stored_header(3) [OF st p] .
    then have np: "num_of p = n - 1" by (simp add: num_of_def)
    have py: "ParentHash y = vw_canon ?V (n - 1)" using less.prems(5,6) hy n0 unfolding path_to_def by fastforce
    have path: "path_to ?V (n - 1)" using less.prems(6) word_minus_one_le(1) [OF n0] unfolding path_to_def by auto
    have "\<exists>b' hc' z. rewind E delFn head b1 ?hc2 = Some (b', hc') \<and> chainDb hc' = chainDb ?hc2 \<and> genesisHeader hc' = genesisHeader ?hc2
      \<and> caches_ok hv tv nv ?V hc' \<and> currentHeader hc' = Some z \<and> num_of z = min head (n - 1)
      \<and> hdr_hash E z = vw_canon ?V (min head (n - 1)) \<and> vw_header ?V (hdr_hash E z, min head (n - 1)) = Some z
      \<and> no_bodies (cview (hc_codec E) (batch_at m b')) = wiped (vw_canon ?V) head (n - 1) (no_bodies (cview (hc_codec E) (batch_at m b1)))"
      using less.hyps [of "n - 1" ?hc2 p b1, unfolded v2] word_minus_one_le(2) [OF n0] st g ph np py path p
      by (simp add: caches_ok_def)
    then obtain b' hc' z where z: "rewind E delFn head b1 ?hc2 = Some (b', hc')" "chainDb hc' = chainDb ?hc2" "genesisHeader hc' = genesisHeader ?hc2"
      "caches_ok hv tv nv ?V hc'" "currentHeader hc' = Some z" "num_of z = min head (n - 1)"
      "hdr_hash E z = vw_canon ?V (min head (n - 1))" "vw_header ?V (hdr_hash E z, min head (n - 1)) = Some z"
      "no_bodies (cview (hc_codec E) (batch_at m b')) = wiped (vw_canon ?V) head (n - 1) (no_bodies (cview (hc_codec E) (batch_at m b1)))"
      by blast
    have mm: "min head (n - 1) = min head n" using True word_minus_one_le(1) [OF n0, of head] by (auto simp: min_def)
    have "wiped (vw_canon ?V) head (n - 1) (no_bodies (cview (hc_codec E) (batch_at m b1)))
        = wiped (vw_canon ?V) head n (no_bodies (cview (hc_codec E) (batch_at m b)))"
      unfolding b1(2) using wiped_step [of head n "vw_canon ?V" ?h "no_bodies (cview (hc_codec E) (batch_at m b))"] True less.prems(5)
      by (simp add: no_bodies_simps)
    moreover have "rewind E delFn head b hc = Some (b', hc')"
      using less.prems(3) u True b1(1) r g z(1) by (subst rewind.simps) simp
    ultimately show ?thesis using z g unfolding mm
      by (intro exI [of _ b'] exI [of _ hc'] exI [of _ z]) (simp add: same_chain_def)
  qed
qed

lemma delete_numbers_ok:
  assumes "i < 2 ^ 64"
  shows "\<exists>b'. delete_numbers i head b = Some b' \<and> cview cc (batch_at m b')
    = (cview cc (batch_at m b))\<lparr>vw_canon := (\<lambda>n. if in_range head (of_nat i) n then 0 else vw_canon (cview cc (batch_at m b)) n)\<rparr>"
  using assms
proof (induction i arbitrary: b)
  case 0
  have "\<not> in_range head 0 n" for n by (auto simp: in_range_def)
  then show ?case by simp
next
  case (Suc i)
  define k where "k = (of_nat (Suc i) :: u64)"
  have s: "k - 1 = of_nat i" by (simp add: k_def)
  show ?case unfolding k_def [symmetric]
  proof (cases "k > head")
    case False
    then have "\<not> in_range head k n" for n by (auto simp: in_range_def)
    then show "\<exists>b'. delete_numbers (Suc i) head b = Some b' \<and> cview cc (batch_at m b')
      = (cview cc (batch_at m b))\<lparr>vw_canon := (\<lambda>n. if in_range head k n then 0 else vw_canon (cview cc (batch_at m b)) n)\<rparr>"
      using False by (simp add: k_def)
  next
    case True
    obtain b1 where b1: "DeleteCanonicalHash batch_writer b k = Some b1"
      "cview cc (batch_at m b1) = (cview cc (batch_at m b))\<lparr>vw_canon := (vw_canon (cview cc (batch_at m b)))(k := 0)\<rparr>"
      using batchw.DeleteCanonicalHash_view [where m = m and w = b and cc = cc and n = k] by (auto simp: batchw.writes_view_def)
    have c1: "vw_canon (cview cc (batch_at m b1)) = (vw_canon (cview cc (batch_at m b)))(k := 0)" by (simp add: b1(2))
    have e: "(\<lambda>n. if in_range head (of_nat i) n then 0 else ((vw_canon (cview cc (batch_at m b)))(k := 0)) n)
        = (\<lambda>n. if in_range head k n then 0 else vw_canon (cview cc (batch_at m b)) n)"
      using in_range_step [OF True] unfolding s by (auto simp: fun_eq_iff)
    obtain b' where b': "delete_numbers i head b1 = Some b'" "cview cc (batch_at m b')
      = (cview cc (batch_at m b1))\<lparr>vw_canon := (\<lambda>n. if in_range head (of_nat i) n then 0 else vw_canon (cview cc (batch_at m b1)) n)\<rparr>"
      using Suc.IH [of b1] Suc.prems by auto
    have "cview cc (batch_at m b') = (cview cc (batch_at m b))\<lparr>vw_canon := (\<lambda>n. if in_range head k n then 0 else vw_canon (cview cc (batch_at m b)) n)\<rparr>"
      unfolding b'(2) [unfolded c1 e] by (simp add: b1(2))
    moreover have "delete_numbers (Suc i) head b = Some b'" using True b1(1) b'(1) by (simp add: k_def)
    ultimately show "\<exists>b'. delete_numbers (Suc i) head b = Some b' \<and> cview cc (batch_at m b')
      = (cview cc (batch_at m b))\<lparr>vw_canon := (\<lambda>n. if in_range head k n then 0 else vw_canon (cview cc (batch_at m b)) n)\<rparr>"
      by blast
  qed
qed

text \<open>C12: Rewinding a reachable chain to number \<open>head\<close> returns. The new head is the canonical header of that number, or
  the old head when it is not above it; the canonical numbers above are gone and those below are kept; the headers and the
  difficulties of exactly the canonical blocks above are deleted. Side chains stay, also those that branch off above.\<close>

theorem set_head_rewinds:
  assumes "lrus_ok E hv tv nv" "codec_ok (hc_codec E)" "hv c0 = Map.empty" "tv c0 = Map.empty" "nv c0 = Map.empty"
    "header_reachable E c0 g hc" "chainDb hc = Some m" "only_bodies (hc_codec E) m delFn" "currentHeader hc = Some y"
  shows "\<exists>hc' z. hc_SetHead E head delFn hc = Some hc' \<and> currentHeader hc' = Some z \<and> currentHeaderHash hc' = hdr_hash E z
    \<and> num_of z = min head (num_of y) \<and> hdr_hash E z = ReadCanonicalHash (chainDb hc) (min head (num_of y))
    \<and> (\<forall>n. ReadCanonicalHash (chainDb hc') n = (if n > head then 0 else ReadCanonicalHash (chainDb hc) n))
    \<and> (\<forall>h n. ReadHeader (hc_codec E) (chainDb hc') h n
         = (if n > head \<and> n \<le> num_of y \<and> h = ReadCanonicalHash (chainDb hc) n then None else ReadHeader (hc_codec E) (chainDb hc) h n))
    \<and> (\<forall>h n. ReadTd (hc_codec E) (chainDb hc') h n
         = (if n > head \<and> n \<le> num_of y \<and> h = ReadCanonicalHash (chainDb hc) n then None else ReadTd (hc_codec E) (chainDb hc) h n))"
proof -
  let ?V = "hc_view E hc" and ?cc = "hc_codec E" and ?n = "num_of y"
  have i: "chain_inv E hv tv nv g hc" using header_reachable_inv [OF assms(1-6)] by simp
  have y: "head_ok E g ?V hc y" "canon_ok ?V (hdr_hash E y) ?n" "nothing_above ?V ?n" "stored_ok E g ?V" "caches_ok hv tv nv ?V hc"
    using i assms(9) by (auto simp: chain_inv_def head_ok_def)
  have hy: "vw_header ?V (hdr_hash E y, ?n) = Some y" using y(1) by (simp add: head_ok_def)
  obtain b hc1 z where r: "rewind E delFn head NewBatch hc = Some (b, hc1)" "chainDb hc1 = chainDb hc" "currentHeader hc1 = Some z"
    "num_of z = min head ?n" "hdr_hash E z = vw_canon ?V (min head ?n)" "vw_header ?V (hdr_hash E z, min head ?n) = Some z"
    "no_bodies (cview ?cc (batch_at m b)) = wiped (vw_canon ?V) head ?n (no_bodies (cview ?cc (batch_at m NewBatch)))"
    using rewind_ok [OF assms(1) y(4) assms(8) y(5) assms(9) refl _ _ hy, of head NewBatch] y(2) unfolding canon_ok_path by blast
  have bn: "cview ?cc (batch_at m NewBatch) = ?V" by (simp add: batch_at_new assms(7))
  obtain b2 where b2: "delete_numbers (unat ?n) head b = Some b2" "cview ?cc (batch_at m b2)
      = (cview ?cc (batch_at m b))\<lparr>vw_canon := (\<lambda>k. if in_range head ?n k then 0 else vw_canon (cview ?cc (batch_at m b)) k)\<rparr>"
    using delete_numbers_ok [of "unat ?n" head b ?cc m] unsigned_less [of ?n] by auto
  obtain m1 where m1: "batch_Write b2 (Some m) = Some (Some m1)" "db_at (Some m1) = batch_at m b2" using batch_Write_at by blast
  obtain db3 where db3: "WriteHeadHeaderHash db_writer (Some m1) (hdr_hash E z) = Some db3"
    "db_view ?cc db3 = (db_view ?cc (Some m1))\<lparr>vw_headHeader := hdr_hash E z\<rparr>"
    using dbw.WriteHeadHeaderHash_view [of "Some m1" ?cc "hdr_hash E z"] by (auto simp: dbw.writes_view_def db_open_def)
  have u: "Uint64 (Number y) = Some ?n" by (rule stored_Uint64 [OF y(4) hy])
  let ?hc' = "hc1\<lparr>chainDb := db3, headerCache := lru_Purge (headerLru E) (headerCache hc1), tdCache := lru_Purge (tdLru E) (tdCache hc1),
      numberCache := lru_Purge (numberLru E) (numberCache hc1), currentHeaderHash := hdr_hash E z\<rparr>"
  have s: "hc_SetHead E head delFn hc = Some ?hc'"
    using assms(7,9) u r(1-3) b2(1) m1(1) db3(1) by (simp add: hc_SetHead_def)
  have cb: "vw_canon (cview ?cc (batch_at m b)) = vw_canon ?V"
    using arg_cong [OF r(7), of vw_canon] by (simp add: no_bodies_simps wiped_def bn)
  have hb: "vw_header (cview ?cc (batch_at m b)) = wipe_at (vw_canon ?V) head ?n (vw_header ?V)"
    "vw_td (cview ?cc (batch_at m b)) = wipe_at (vw_canon ?V) head ?n (vw_td ?V)"
    using arg_cong [OF r(7), of vw_header] arg_cong [OF r(7), of vw_td] by (simp_all add: no_bodies_simps wiped_def bn)
  have v3: "vw_canon (db_view ?cc db3) = (\<lambda>k. if in_range head ?n k then 0 else vw_canon ?V k)"
    "vw_header (db_view ?cc db3) = wipe_at (vw_canon ?V) head ?n (vw_header ?V)"
    "vw_td (db_view ?cc db3) = wipe_at (vw_canon ?V) head ?n (vw_td ?V)"
    by (simp_all add: db3(2) m1(2) b2(2) [unfolded cb] hb)
  have "(if in_range head ?n k then 0 else vw_canon ?V k) = (if k > head then 0 else vw_canon ?V k)" for k
    using y(3) by (auto simp: in_range_def nothing_above_def)
  then show ?thesis using s r
    by (intro exI [of _ ?hc'] exI [of _ z]) (auto simp: reads_view [where cc = ?cc] v3 wipe_at_def in_range_def)
qed

end
