(* ===== verification/Codec_Instance.thy ===== *)
theory Codec_Instance
  imports Header_Inv
begin

text \<open>
  An instance of the libraries the chain is parametrised by: a serializer that is not RLP but satisfies the laws
  \<open>codec_ok\<close>, and a cache that satisfies \<open>lru_ok\<close>. It shows that the laws can hold and carries the examples.
\<close>

section \<open>Lists of byte strings\<close>

text \<open>Each string comes after its length in unary, and the list ends with a 2.\<close>

fun pack :: "bytes list \<Rightarrow> bytes" where
  "pack [] = [2]"
| "pack (b # bs) = replicate (length b) 1 @ 0 # b @ pack bs"

function unpack :: "bytes \<Rightarrow> bytes list" where
  "unpack bs =
     (if bs = [] \<or> hd bs = 2 then []
      else let n = length (takeWhile (\<lambda>x. x = 1) bs); r = drop (Suc n) bs in take n r # unpack (drop n r))"
  by pat_completeness auto
termination by (relation "measure length") auto

declare unpack.simps [simp del]

lemma takeWhile_ones: "takeWhile (\<lambda>x. x = (1 :: byte)) (replicate n 1 @ 0 # r) = replicate n 1"
  by (induction n) simp_all

lemma unpack_pack [simp]: "unpack (pack bs) = bs"
proof (induction bs)
  case (Cons b bs)
  have ne: "pack (b # bs) \<noteq> []" "hd (pack (b # bs)) \<noteq> 2" by (cases b; simp)+
  show ?case using ne by (subst unpack.simps) (simp add: takeWhile_ones Let_def Cons)
qed (simp add: unpack.simps)

lemma pack_ne [simp]: "pack bs \<noteq> []"
  by (cases bs) simp_all

declare pack.simps [simp del]

section \<open>The data of a chain\<close>

definition word_out :: "'a :: len word \<Rightarrow> bytes" where
  "word_out w = big_Bytes (uint w)"

definition word_in :: "bytes \<Rightarrow> 'a :: len word" where
  "word_in bs = word_of_int (big_SetBytes bs)"

lemma word_back [simp]: "word_in (word_out w) = w"
  by (simp add: word_in_def word_out_def)

definition addr_out :: "address option \<Rightarrow> bytes" where
  "addr_out a = (case a of None \<Rightarrow> [] | Some w \<Rightarrow> 1 # word_out w)"

definition addr_in :: "bytes \<Rightarrow> address option" where
  "addr_in bs = (case bs of [] \<Rightarrow> None | _ # r \<Rightarrow> Some (word_in r))"

lemma addr_back [simp]: "addr_in (addr_out a) = a"
  by (simp add: addr_in_def addr_out_def split: option.split)

definition nonneg :: "bigint option \<Rightarrow> bool" where
  "nonneg x = (case x of None \<Rightarrow> True | Some n \<Rightarrow> 0 \<le> n)"

definition header_out :: "header \<Rightarrow> bytes option" where
  "header_out h =
     (if nonneg (Number h) \<and> nonneg (Difficulty h) then
        Some (pack [word_out (ParentHash h), word_out (UncleHash h), word_out (Coinbase h), word_out (Root h), word_out (TxHash h),
          word_out (ReceiptHash h), Bloom h, big_Bytes (case Difficulty h of None \<Rightarrow> 0 | Some d \<Rightarrow> d),
          big_Bytes (case Number h of None \<Rightarrow> 0 | Some n \<Rightarrow> n), word_out (header.GasLimit h), word_out (GasUsed h), word_out (Time h), Extra h,
          word_out (MixDigest h), Nonce h])
      else None)"

definition header_in :: "bytes \<Rightarrow> header option" where
  "header_in bs =
     (case unpack bs of [a, b, c, d, e, f, g, i, j, k, l, m, n, p, q] \<Rightarrow>
        Some \<lparr>ParentHash = word_in a, UncleHash = word_in b, Coinbase = word_in c, Root = word_in d, TxHash = word_in e,
          ReceiptHash = word_in f, Bloom = g, Difficulty = Some (big_SetBytes i), Number = Some (big_SetBytes j),
          GasLimit = word_in k, GasUsed = word_in l, Time = word_in m, Extra = n, MixDigest = word_in p, Nonce = q\<rparr>
      | _ \<Rightarrow> None)"

lemma header_back: "header_out h = Some bs \<Longrightarrow> bs \<noteq> [] \<and> header_in bs = Some (CopyHeader h)"
  by (cases h) (auto simp: header_out_def header_in_def CopyHeader_def nonneg_def split: if_splits option.splits)

definition tx_out :: "transaction \<Rightarrow> bytes" where
  "tx_out t = pack [word_out (AccountNonce t), big_Bytes (Price t), word_out (transaction.GasLimit t), addr_out (Recipient t),
     big_Bytes (Amount t), Payload t, big_Bytes (sigV t), big_Bytes (sigR t), big_Bytes (sigS t)]"

definition tx_in :: "bytes \<Rightarrow> transaction option" where
  "tx_in bs = (case unpack bs of [a, b, c, d, e, f, g, i, j] \<Rightarrow>
     Some \<lparr>AccountNonce = word_in a, Price = big_SetBytes b, GasLimit = word_in c, Recipient = addr_in d, Amount = big_SetBytes e,
       Payload = f, sigV = big_SetBytes g, sigR = big_SetBytes i, sigS = big_SetBytes j\<rparr>
   | _ \<Rightarrow> None)"

definition tx_nonneg :: "transaction \<Rightarrow> bool" where
  "tx_nonneg t \<longleftrightarrow> 0 \<le> Price t \<and> 0 \<le> Amount t \<and> 0 \<le> sigV t \<and> 0 \<le> sigR t \<and> 0 \<le> sigS t"

lemma tx_back: "tx_nonneg t \<Longrightarrow> tx_in (tx_out t) = Some t"
  by (cases t) (simp add: tx_in_def tx_out_def tx_nonneg_def)

definition body_out :: "body \<Rightarrow> bytes option" where
  "body_out b =
     (if list_all tx_nonneg (bd_Transactions b)
      then map_option (\<lambda>us. pack [pack (map tx_out (bd_Transactions b)), pack us]) (all_some (map header_out (bd_Uncles b))) else None)"

definition body_in :: "bytes \<Rightarrow> body option" where
  "body_in bs =
     (case unpack bs of [ts, us] \<Rightarrow>
        (case all_some (map tx_in (unpack ts)) of None \<Rightarrow> None
         | Some txs \<Rightarrow> map_option (\<lambda>hs. \<lparr>bd_Transactions = txs, bd_Uncles = hs\<rparr>) (all_some (map header_in (unpack us))))
      | _ \<Rightarrow> None)"

lemma headers_back: "all_some (map header_out hs) = Some us \<Longrightarrow> all_some (map header_in us) = Some (map CopyHeader hs)"
  by (induction hs arbitrary: us) (auto split: option.splits dest: header_back)

lemma txs_back: "list_all tx_nonneg ts \<Longrightarrow> all_some (map tx_in (map tx_out ts)) = Some ts"
  using all_some_map [of ts "tx_in \<circ> tx_out" id] by (simp add: tx_back list_all_iff)

lemma body_back:
  "body_out b = Some bs \<Longrightarrow> bs \<noteq> [] \<and> body_in bs = Some \<lparr>bd_Transactions = bd_Transactions b, bd_Uncles = map CopyHeader (bd_Uncles b)\<rparr>"
  using txs_back [of "bd_Transactions b"] headers_back [of "bd_Uncles b"]
  by (auto simp: body_out_def body_in_def split: if_splits option.splits)

lemma header_out_total: "header_encodable h \<Longrightarrow> header_out h \<noteq> None"
  by (auto simp: header_encodable_def header_out_def nonneg_def split: option.splits)

lemma headers_out_total: "\<forall>h \<in> set hs. header_encodable h \<Longrightarrow> all_some (map header_out hs) \<noteq> None"
  by (induction hs) (use header_out_total in \<open>fastforce split: option.splits\<close>)+

lemma body_out_total: "body_encodable b \<Longrightarrow> body_out b \<noteq> None"
  using headers_out_total [of "bd_Uncles b"] by (auto simp: body_encodable_def body_out_def list_all_iff tx_nonneg_def)

section \<open>Receipts\<close>

definition log_out :: "rlpLog \<Rightarrow> bytes" where
  "log_out l = pack [word_out (rl_Address l), pack (map word_out (rl_Topics l)), rl_Data l]"

definition log_in :: "bytes \<Rightarrow> rlpLog option" where
  "log_in bs = (case unpack bs of [a, t, d] \<Rightarrow> Some \<lparr>rl_Address = word_in a, rl_Topics = map word_in (unpack t), rl_Data = d\<rparr> | _ \<Rightarrow> None)"

definition stored_out :: "storedReceiptRLP \<Rightarrow> bytes" where
  "stored_out s = pack [sr_PostStateOrStatus s, word_out (sr_CumulativeGasUsed s), pack (sr_Logs s)]"

definition stored_in :: "bytes \<Rightarrow> storedReceiptRLP option" where
  "stored_in bs = (case unpack bs of [p, c, l] \<Rightarrow>
     Some \<lparr>sr_PostStateOrStatus = p, sr_CumulativeGasUsed = word_in c, sr_Logs = unpack l\<rparr> | _ \<Rightarrow> None)"

definition toy_receipts :: receipt_codec where
  "toy_receipts = \<lparr>enc_log = log_out, dec_log = log_in, dec_legacy_log = (\<lambda>_. None), enc_stored = stored_out, dec_stored = stored_in,
     dec_v3 = (\<lambda>_. None), dec_v4 = (\<lambda>_. None), enc_list = pack, dec_list = (\<lambda>bs. Some (unpack bs))\<rparr>"

lemma word_map_back: "map (word_in \<circ> word_out) ws = ws"
  by (induction ws) simp_all

lemma toy_receipts_ok: "receipt_codec_ok toy_receipts"
  by (simp add: receipt_codec_ok_def toy_receipts_def log_out_def log_in_def stored_out_def stored_in_def word_map_back)

section \<open>The codec\<close>

text \<open>The hash of a string is its length, the string of a header its extra data.\<close>

definition codec_crypto :: crypto where
  "codec_crypto = \<lparr>rlp_header = Extra, rlp_headers = (\<lambda>_. [7]), keccak256 = (\<lambda>bs. of_nat (length bs)), Ecrecover_lib = (\<lambda>_ _. None)\<rparr>"

definition toy_codec :: chain_codec where
  "toy_codec = \<lparr>cc_crypto = codec_crypto, enc_header = header_out, dec_header = header_in, enc_body = body_out, dec_body = body_in,
     enc_td = (\<lambda>d. if 0 \<le> d then Some (pack [big_Bytes d]) else None), dec_td = (\<lambda>bs. Some (big_SetBytes (concat (unpack bs)))),
     enc_u64 = word_out, dec_u64 = (\<lambda>bs. Some (word_in bs)), cc_receipts = toy_receipts,
     cc_derive = \<lparr>de_txhash = (\<lambda>t. ucast (AccountNonce t) + 1), de_sender = (\<lambda>_. Some 5), de_CreateAddress = (\<lambda>a n. a + ucast n)\<rparr>,
     dec_entry = (\<lambda>_. None)\<rparr>"

lemma toy_codec_ok: "codec_ok toy_codec"
  unfolding codec_ok_def toy_codec_def
  using header_back header_out_total body_back body_out_total toy_receipts_ok by auto

section \<open>The cache\<close>

datatype toy_value = HeaderValue header | TdValue bigint | NumberValue u64 | BlockValue block
  | BodyValue body | BytesValue bytes | ReceiptsValue "receipt list"

type_synonym toy_cache = "(hash \<times> toy_value) list"

fun as_header :: "toy_value \<Rightarrow> header option" where
  "as_header (HeaderValue x) = Some x" | "as_header _ = None"

fun as_td :: "toy_value \<Rightarrow> bigint option" where
  "as_td (TdValue x) = Some x" | "as_td _ = None"

fun as_number :: "toy_value \<Rightarrow> u64 option" where
  "as_number (NumberValue x) = Some x" | "as_number _ = None"

fun as_block :: "toy_value \<Rightarrow> block option" where
  "as_block (BlockValue x) = Some x" | "as_block _ = None"

fun as_body :: "toy_value \<Rightarrow> body option" where
  "as_body (BodyValue x) = Some x" | "as_body _ = None"

fun as_bytes :: "toy_value \<Rightarrow> bytes option" where
  "as_bytes (BytesValue x) = Some x" | "as_bytes _ = None"

fun as_receipts :: "toy_value \<Rightarrow> receipt list option" where
  "as_receipts (ReceiptsValue x) = Some x" | "as_receipts _ = None"

definition cache_view :: "(toy_value \<Rightarrow> 'v option) \<Rightarrow> toy_cache \<Rightarrow> hash \<rightharpoonup> 'v" where
  "cache_view as c k = Option.bind (map_of c k) as"

definition toy_lru :: "('v \<Rightarrow> toy_value) \<Rightarrow> (toy_value \<Rightarrow> 'v option) \<Rightarrow> (toy_cache, 'v) lru" where
  "toy_lru mk as = \<lparr>lru_Get = (\<lambda>c k. (cache_view as c k, c)), lru_Add = (\<lambda>c k v. (k, mk v) # c),
     lru_Contains = (\<lambda>c k. cache_view as c k \<noteq> None), lru_Purge = (\<lambda>_. []), lru_Remove = (\<lambda>c k. filter (\<lambda>p. fst p \<noteq> k) c),
     lru_Keys = (\<lambda>c. filter (\<lambda>k. cache_view as c k \<noteq> None) (remdups (map fst c))), lru_Peek = (\<lambda>c k. cache_view as c k)\<rparr>"

lemma map_of_removed: "map_of (filter (\<lambda>p. fst p \<noteq> k) c) = (map_of c)(k := None)"
  by (induction c) (auto simp: fun_eq_iff)

lemma toy_lru_ok:
  assumes "\<And>v. as (mk v) = Some v"
  shows "lru_ok (toy_lru mk as) (cache_view as)"
proof -
  have "set (filter (\<lambda>k. cache_view as c k \<noteq> None) (remdups (map fst c))) = dom (cache_view as c)" for c
    by (force simp: cache_view_def dom_def bind_eq_Some_conv dest: map_of_SomeD)
  moreover have "cache_view as (filter (\<lambda>p. fst p \<noteq> k) c) = (cache_view as c)(k := None)" for c k
    by (auto simp: cache_view_def map_of_removed fun_eq_iff)
  moreover have "cache_view as ((k, mk v) # c) = (cache_view as c)(k \<mapsto> v)" for c k v
    by (simp add: cache_view_def fun_eq_iff assms)
  moreover have "cache_view as [] = Map.empty" by (simp add: cache_view_def fun_eq_iff)
  ultimately show ?thesis by (simp add: lru_ok_def toy_lru_def)
qed

definition toy_chain_env :: "toy_cache hc_env" where
  "toy_chain_env = \<lparr>hc_codec = toy_codec, headerLru = toy_lru HeaderValue as_header, tdLru = toy_lru TdValue as_td,
     numberLru = toy_lru NumberValue as_number\<rparr>"

lemma toy_chain_env_simps [simp]: "hc_codec toy_chain_env = toy_codec" "cc_crypto toy_codec = codec_crypto"
  by (simp_all add: toy_chain_env_def toy_codec_def)

lemma toy_env_codec: "codec_ok (hc_codec toy_chain_env)"
  by (simp add: toy_codec_ok)

lemma toy_lrus_ok: "lrus_ok toy_chain_env (cache_view as_header) (cache_view as_td) (cache_view as_number)"
  by (simp add: lrus_ok_def toy_chain_env_def toy_lru_ok)

lemma toy_caches_empty: "cache_view as [] = Map.empty"
  by (simp add: cache_view_def fun_eq_iff)

lemmas toy_env_ok = toy_lrus_ok toy_env_codec toy_caches_empty toy_caches_empty toy_caches_empty

end
