(* ===== verification/Genesis_Block.thy ===== *)
theory Genesis_Block
  imports Header_Rules Codec_Instance State_Ops Aura_Engine
begin

text \<open>
  The genesis block (\<open>core/genesis.go\<close>): the state of the allocation, the header, and what \<open>Commit\<close> stores.

  \<^verbatim>\<open>flush\<close> stands for \<open>StateDB.Commit\<close> with \<open>TrieDB().Commit\<close>, which the development does not have: the nodes by hash and the
  preimages that they put into the database; errors there are ignored, as in the code. The sealers of the simulation, the
  order of the ranges over maps and the JSON encoder are arguments. A nil pointer and \<open>log.Crit\<close> are \<^const>\<open>None\<close>.
\<close>

section \<open>The genesis specification\<close>

record genesisAccount =
  ga_Code :: "bytes option"
  ga_Storage :: "(hash, hash) gomap"
  ga_Balance :: "bigint option"
  ga_Nonce :: u64

record chainConfig =
  cfg_Clique :: "cliqueConfig option"
  cfg_Aura :: "auraConfig option"

record genesis =
  g_Config :: chainConfig
  g_Nonce :: u64
  g_Timestamp :: u64
  g_ExtraData :: bytes
  g_GasLimit :: u64
  g_Difficulty :: "bigint option"
  g_Mixhash :: hash
  g_Coinbase :: address
  g_Alloc :: "(address, genesisAccount) gomap"

definition GenesisGasLimit :: u64 where "GenesisGasLimit = 4712388"

datatype engine_name = CLIQUE | AURA | OTHER_ENGINE

text \<open>The part of the configuration of the simulation that \<open>SetupGenesisBlockWithOverride\<close> reads.\<close>

record ethereumConfig =
  ec_Engine :: engine_name
  ec_CliquePeriod :: u64
  ec_CliqueEpoch :: u64
  ec_AuraPeriod :: u64
  ec_GasFloor :: u64

definition bigFunds :: bigint where "bigFunds = 10000000000000000000000000000000"

text \<open>\<open>decodePrealloc\<close> over the addresses of the bank and of the generated actors.\<close>

definition decodePrealloc :: "address \<Rightarrow> address list \<Rightarrow> (address, genesisAccount) gomap" where
  "decodePrealloc bank actors =
     fold (\<lambda>a m. gm_put m a \<lparr>ga_Code = None, ga_Storage = [], ga_Balance = Some bigFunds, ga_Nonce = 0\<rparr>) (bank # actors) []"

section \<open>The block\<close>

definition setExtraData :: "address list \<Rightarrow> genesis \<Rightarrow> genesis" where
  "setExtraData sealers g =
     g\<lparr>g_ExtraData := replicate 32 0 @ concat (map address_bytes sealers) @ replicate 65 0\<rparr>"

fun alloc_storage :: "'t senv \<Rightarrow> address \<Rightarrow> (hash, hash) gomap \<Rightarrow> hash list \<Rightarrow> 't stateDB \<Rightarrow> 't stateDB" where
  "alloc_storage env addr st [] s = s"
| "alloc_storage env addr st (k # ks) s =
     alloc_storage env addr st ks (case gm_get st k of None \<Rightarrow> s | Some v \<Rightarrow> SetState env addr k v s)"

fun alloc_accounts ::
  "'t senv \<Rightarrow> (hash list \<Rightarrow> hash list) \<Rightarrow> (address, genesisAccount) gomap \<Rightarrow> address list \<Rightarrow> 't stateDB \<Rightarrow> 't stateDB option" where
  "alloc_accounts env rng al [] s = Some s"
| "alloc_accounts env rng al (a # as) s =
     (case gm_get al a of
        None \<Rightarrow> alloc_accounts env rng al as s
      | Some x \<Rightarrow>
          (case ga_Balance x of
             None \<Rightarrow> None
           | Some bal \<Rightarrow>
               alloc_accounts env rng al as
                 (alloc_storage env a (ga_Storage x) (rng (gm_keys (ga_Storage x)))
                   (SetNonce env a (ga_Nonce x) (SetCode env a (ga_Code x) (AddBalance env a bal s))))))"

definition genesis_header :: "genesis \<Rightarrow> hash \<Rightarrow> header" where
  "genesis_header g root =
     \<lparr>ParentHash = 0, UncleHash = 0, Coinbase = g_Coinbase g, Root = root, TxHash = 0, ReceiptHash = 0, Bloom = replicate 256 0,
      Difficulty = g_Difficulty g, Number = Some 0, GasLimit = (if g_GasLimit g = 0 then GenesisGasLimit else g_GasLimit g),
      GasUsed = 0, Time = g_Timestamp g, Extra = g_ExtraData g, MixDigest = g_Mixhash g, Nonce = EncodeNonce (g_Nonce g)\<rparr>"

definition put_node :: "bytes \<times> bytes \<Rightarrow> memdb \<Rightarrow> memdb" where
  "put_node kv mdb = (case memdb_Put mdb (fst kv) (snd kv) of Inl _ \<Rightarrow> mdb | Inr mdb' \<Rightarrow> mdb')"

text \<open>The order of the ranges over the accounts, the dirty accounts and the slots.\<close>

record ranges =
  rg_alloc :: "address list \<Rightarrow> address list"
  rg_dirty :: "address list \<Rightarrow> address list"
  rg_slots :: "hash list \<Rightarrow> hash list"

record 't genesis_env =
  ge_state :: "'t senv"
  ge_ranges :: ranges
  ge_flush :: "'t stateDB \<Rightarrow> hash \<Rightarrow> (hash \<times> bytes) list \<times> (hash \<times> bytes) list"
  ge_deriveTxs :: "transaction list \<Rightarrow> hash"
  ge_deriveReceipts :: "receipt list \<Rightarrow> hash"
  ge_createBloom :: "receipt list \<Rightarrow> bytes"
  ge_Marshal :: "chainConfig \<Rightarrow> bytes option"
  ge_Sealers :: "address list"

definition flush_state :: "(hash \<times> bytes) list \<times> (hash \<times> bytes) list \<Rightarrow> memdb \<Rightarrow> memdb" where
  "flush_state w mdb =
     fold put_node (map (\<lambda>(h, bs). (hash_bytes h, bs)) (fst w)) (fold put_node (map (\<lambda>(h, bs). (preimageKey h, bs)) (snd w)) mdb)"

text \<open>\<open>ToBlock\<close> changes the extra data and, for Aura, the authorities of the specification.\<close>

definition ToBlock :: "crypto \<Rightarrow> 't genesis_env \<Rightarrow> genesis \<Rightarrow> memdb \<Rightarrow> (block \<times> genesis \<times> memdb) option" where
  "ToBlock cr ge g mdb =
     (case state_New (ge_state ge) 0 of
        Inl _ \<Rightarrow> None
      | Inr s0 \<Rightarrow>
          do { s1 \<leftarrow> alloc_accounts (ge_state ge) (rg_slots (ge_ranges ge)) (g_Alloc g) (rg_alloc (ge_ranges ge) (gm_keys (g_Alloc g))) s0;
               let g1 = setExtraData (ge_Sealers ge) g;
               let g2 = (case cfg_Aura (g_Config g1) of
                           None \<Rightarrow> g1
                         | Some a \<Rightarrow> g1\<lparr>g_Config := (g_Config g1)\<lparr>cfg_Aura := Some (a\<lparr>Authorities := Authorities a @ ge_Sealers ge\<rparr>)\<rparr>\<rparr>);
               (root, s2) \<leftarrow> IntermediateRoot (ge_state ge) (rg_dirty (ge_ranges ge)) (rg_slots (ge_ranges ge)) False s1;
               let db1 = flush_state (ge_flush ge s2 root) mdb;
               Some (NewBlock cr (ge_deriveTxs ge) (ge_deriveReceipts ge) (ge_createBloom ge) (genesis_header g2 root) [] [] ([] :: receipt list),
                     g2, db1) })"

text \<open>\<open>Commit\<close>: an error is \<open>Inl\<close>, with the state of the database. A nil difficulty is encoded as zero.\<close>

definition genesis_Commit ::
  "chain_codec \<Rightarrow> 't genesis_env \<Rightarrow> genesis \<Rightarrow> memdb \<Rightarrow> ((unit + block) \<times> genesis \<times> memdb) option" where
  "genesis_Commit cc ge g mdb =
     do { (b, g1, db1) \<leftarrow> ToBlock (cc_crypto cc) ge g mdb;
          number \<leftarrow> Number (bheader b);
          if number \<noteq> 0 then Some (Inl (), g1, db1)
          else do {
            n \<leftarrow> Uint64 (Number (bheader b));
            let h = block_hash cc b;
            db2 \<leftarrow> WriteTd cc db_writer db1 h n (case g_Difficulty g1 of None \<Rightarrow> 0 | Some d \<Rightarrow> d);
            db3 \<leftarrow> WriteBlock cc db_writer db2 b;
            db4 \<leftarrow> WriteReceipts cc db_writer db3 h n [];
            db5 \<leftarrow> WriteCanonicalHash db_writer db4 h n;
            db6 \<leftarrow> WriteHeadBlockHash db_writer db5 h;
            db7 \<leftarrow> WriteHeadHeaderHash db_writer db6 h;
            db8 \<leftarrow> WriteChainConfig (ge_Marshal ge) db_writer db7 h (Some (g_Config g1));
            Some (Inr b, g1, db8) } }"

definition MustCommit :: "chain_codec \<Rightarrow> 't genesis_env \<Rightarrow> genesis \<Rightarrow> memdb \<Rightarrow> (block \<times> genesis \<times> memdb) option" where
  "MustCommit cc ge g mdb =
     (case genesis_Commit cc ge g mdb of Some (Inr b, g1, db1) \<Rightarrow> Some (b, g1, db1) | _ \<Rightarrow> None)"

definition genesis_spec :: "ethereumConfig \<Rightarrow> (address, genesisAccount) gomap \<Rightarrow> genesis option" where
  "genesis_spec ec al =
     (let spec = \<lambda>cl au. Some \<lparr>g_Config = \<lparr>cfg_Clique = cl, cfg_Aura = au\<rparr>, g_Nonce = 0, g_Timestamp = 0, g_ExtraData = [],
                  g_GasLimit = ec_GasFloor ec, g_Difficulty = Some 1, g_Mixhash = 0, g_Coinbase = 0, g_Alloc = al\<rparr> in
      case ec_Engine ec of
        CLIQUE \<Rightarrow> spec (Some \<lparr>Period = ec_CliquePeriod ec, Epoch = ec_CliqueEpoch ec\<rparr>) None
      | AURA \<Rightarrow> spec None (Some \<lparr>aPeriod = ec_AuraPeriod ec, aEpoch = 0, Authorities = [], aDifficulty = Some 1\<rparr>)
      | OTHER_ENGINE \<Rightarrow> None)"

text \<open>\<open>SetupGenesisBlockWithOverride\<close>; after an error the hash of a nil block is taken, which panics.\<close>

definition SetupGenesisBlockWithOverride ::
  "chain_codec \<Rightarrow> 't genesis_env \<Rightarrow> ethereumConfig \<Rightarrow> (address, genesisAccount) gomap \<Rightarrow> memdb \<Rightarrow> ((chainConfig \<times> hash) \<times> memdb) option" where
  "SetupGenesisBlockWithOverride cc ge ec prealloc mdb =
     do { g \<leftarrow> genesis_spec ec prealloc;
          (b, g1, db1) \<leftarrow> MustCommit cc ge g mdb;
          Some ((g_Config g1, block_hash cc b), db1) }"

section \<open>What Commit leaves\<close>

lemma cview_node: "cview cc (f(NodeKey h \<mapsto> bs)) = cview cc f" "cview cc (f(ConfigKey h \<mapsto> bs)) = cview cc f"
  by (simp_all add: cview_def at_upd fun_eq_iff)

lemma put_node_view:
  assumes "db_open mdb" "kv = (key_bytes k, bs)" "\<And>f. cview cc (f(k \<mapsto> bs)) = cview cc f"
  shows "db_open (put_node kv mdb) \<and> db_view cc (put_node kv mdb) = db_view cc mdb"
proof -
  obtain w where w: "memdb_Put mdb (key_bytes k) bs = Inr w" "db_open w" "db_at w = (db_at mdb)(k \<mapsto> bs)"
    using dbw.put [OF assms(1), of k bs] by (auto simp: db_writer_def)
  then show ?thesis by (simp add: put_node_def assms(2,3))
qed

lemma fold_put_node_view:
  assumes "db_open mdb" "\<forall>kv \<in> set kvs. \<exists>k bs. kv = (key_bytes k, bs) \<and> (\<forall>f. cview cc (f(k \<mapsto> bs)) = cview cc f)"
  shows "db_open (fold put_node kvs mdb) \<and> db_view cc (fold put_node kvs mdb) = db_view cc mdb"
  using assms
proof (induction kvs arbitrary: mdb)
  case (Cons kv kvs)
  from Cons.prems(2) obtain k bs where "kv = (key_bytes k, bs)" "\<forall>f. cview cc (f(k \<mapsto> bs)) = cview cc f"
    unfolding list.set ball_simps(7) by blast
  then have 1: "db_open (put_node kv mdb) \<and> db_view cc (put_node kv mdb) = db_view cc mdb"
    using put_node_view [OF Cons.prems(1), of kv k bs cc] by blast
  have "db_open (fold put_node kvs (put_node kv mdb)) \<and> db_view cc (fold put_node kvs (put_node kv mdb)) = db_view cc (put_node kv mdb)"
    using Cons.IH [OF conjunct1 [OF 1]] Cons.prems(2) by simp
  then show ?case using 1 by simp
qed simp

text \<open>The state is stored under keys of its own.\<close>

lemma flush_state_view:
  assumes "db_open mdb"
  shows "db_open (flush_state w mdb) \<and> db_view cc (flush_state w mdb) = db_view cc mdb"
proof -
  let ?p = "map (\<lambda>(h, bs). (preimageKey h, bs)) (snd w)" and ?n = "map (\<lambda>(h, bs). (hash_bytes h, bs)) (fst w)"
  have "\<forall>kv \<in> set ?p. \<exists>k bs. kv = (key_bytes k, bs) \<and> (\<forall>f. cview cc (f(k \<mapsto> bs)) = cview cc f)"
  proof (clarsimp)
    fix h bs show "\<exists>k. preimageKey h = key_bytes k \<and> (\<forall>f. cview cc (f(k \<mapsto> bs)) = cview cc f)"
      by (rule exI [of _ "PreimageKey h"]) (simp add: cview_put)
  qed
  note 1 = fold_put_node_view [OF assms this]
  have "\<forall>kv \<in> set ?n. \<exists>k bs. kv = (key_bytes k, bs) \<and> (\<forall>f. cview cc (f(k \<mapsto> bs)) = cview cc f)"
  proof (clarsimp)
    fix h bs show "\<exists>k. hash_bytes h = key_bytes k \<and> (\<forall>f. cview cc (f(k \<mapsto> bs)) = cview cc f)"
      by (rule exI [of _ "NodeKey h"]) (simp add: cview_node)
  qed
  note 2 = fold_put_node_view [OF conjunct1 [OF 1] this]
  show ?thesis unfolding flush_state_def using 1 2 by simp
qed

lemma WriteChainConfig_view:
  "db_open mdb \<Longrightarrow> marshal c = Some data \<Longrightarrow> dbw.writes_view cc mdb (WriteChainConfig marshal db_writer mdb h (Some c)) (\<lambda>v. v)"
  using dbw.writes_view_put [of mdb "ConfigKey h" "configKey h"] by (simp add: WriteChainConfig_def cview_node)

lemma ToBlock_block:
  assumes "ToBlock cr ge g mdb = Some (b, g1, mdb1)"
  shows "\<exists>root. bheader b = (CopyHeader (genesis_header (setExtraData (ge_Sealers ge) g) root))
      \<lparr>TxHash := ge_deriveTxs ge [], ReceiptHash := ge_deriveTxs ge [], UncleHash := EmptyUncleHash cr\<rparr>
    \<and> uncles b = [] \<and> transactions b = [] \<and> td b = Some 0 \<and> g_Difficulty g1 = g_Difficulty g
    \<and> (\<exists>w. mdb1 = flush_state w mdb)"
proof -
  have "\<exists>root s2. bheader b = (CopyHeader (genesis_header (setExtraData (ge_Sealers ge) g) root))
      \<lparr>TxHash := ge_deriveTxs ge [], ReceiptHash := ge_deriveTxs ge [], UncleHash := EmptyUncleHash cr\<rparr>
    \<and> uncles b = [] \<and> transactions b = [] \<and> td b = Some 0 \<and> g_Difficulty g1 = g_Difficulty g
    \<and> mdb1 = flush_state (ge_flush ge s2 root) mdb"
    using assms
    by (auto simp: ToBlock_def NewBlock_def genesis_header_def setExtraData_def Let_def bind_eq_Some_conv
        split: sum.splits option.splits)
  then show ?thesis by blast
qed

definition no_chain :: "chain_view \<Rightarrow> bool" where
  "no_chain V \<longleftrightarrow> vw_header V = Map.empty \<and> vw_number V = Map.empty \<and> vw_td V = Map.empty \<and> vw_canon V = (\<lambda>_. 0)"

lemma genesis_commit_db:
  assumes "codec_ok (hc_codec E)" "db_open mdb" "no_chain (db_view (hc_codec E) mdb)"
    "ToBlock (cc_crypto (hc_codec E)) ge g mdb = Some (b, g1, mdb1)" "g_Difficulty g = Some d" "0 \<le> d"
    "block_hash (hc_codec E) b \<noteq> 0" "ge_Marshal ge (g_Config g1) \<noteq> None"
  shows "\<exists>mdb2 bd. genesis_Commit (hc_codec E) ge g mdb = Some (Inr b, g1, mdb2)
    \<and> genesis_db E (block_hash (hc_codec E) b) mdb2
    \<and> vw_header (db_view (hc_codec E) mdb2) = [(block_hash (hc_codec E) b, 0) \<mapsto> bheader b]
    \<and> vw_td (db_view (hc_codec E) mdb2) = [(block_hash (hc_codec E) b, 0) \<mapsto> d]
    \<and> vw_receipts (db_view (hc_codec E) mdb2) (block_hash (hc_codec E) b, 0) = Some []
    \<and> vw_body (db_view (hc_codec E) mdb2) (block_hash (hc_codec E) b, 0) = Some bd \<and> bd_Transactions bd = []
    \<and> vw_body (db_view (hc_codec E) mdb2)
        = (vw_body (db_view (hc_codec E) mdb))((block_hash (hc_codec E) b, 0) \<mapsto> \<lparr>bd_Transactions = [], bd_Uncles = []\<rparr>)"
proof -
  let ?cc = "hc_codec E" and ?h = "block_hash (hc_codec E) b"
  obtain root w where b: "bheader b = (CopyHeader (genesis_header (setExtraData (ge_Sealers ge) g) root))
      \<lparr>TxHash := ge_deriveTxs ge [], ReceiptHash := ge_deriveTxs ge [], UncleHash := EmptyUncleHash (cc_crypto ?cc)\<rparr>"
    "uncles b = []" "transactions b = []" "g_Difficulty g1 = Some d" "mdb1 = flush_state w mdb"
    using ToBlock_block [OF assms(4)] assms(5) by auto
  have f: "db_open mdb1" "db_view ?cc mdb1 = db_view ?cc mdb" using flush_state_view [OF assms(2)] b(5) by simp_all
  have hd: "Number (bheader b) = Some 0" "Difficulty (bheader b) = Some d"
    "Extra (bheader b) = replicate 32 0 @ concat (map address_bytes (ge_Sealers ge)) @ replicate 65 0"
    using assms(5) by (simp_all add: b(1) CopyHeader_def genesis_header_def setExtraData_def)
  have enc: "header_encodable (bheader b)" "body_encodable (block_Body b)"
    using hd assms(6) by (simp_all add: header_encodable_def body_encodable_def block_Body_def b(2,3))
  obtain m2 where m2: "WriteTd ?cc db_writer mdb1 ?h 0 d = Some m2" "db_open m2"
    "db_view ?cc m2 = (db_view ?cc mdb)\<lparr>vw_td := (vw_td (db_view ?cc mdb))((?h, 0) \<mapsto> d)\<rparr>"
    using dbw.WriteTd_view [OF f(1) assms(1,6), of ?h 0] by (auto simp: dbw.writes_view_def f(2))
  obtain m3 where m3: "WriteBlock ?cc db_writer m2 b = Some m3" "db_open m3" "db_view ?cc m3 = (db_view ?cc m2)
      \<lparr>vw_body := (vw_body (db_view ?cc m2))((?h, 0) \<mapsto> \<lparr>bd_Transactions = transactions b, bd_Uncles = map CopyHeader (uncles b)\<rparr>),
       vw_number := (vw_number (db_view ?cc m2))(?h \<mapsto> 0), vw_header := (vw_header (db_view ?cc m2))((?h, 0) \<mapsto> bheader b)\<rparr>"
    using dbw.WriteBlock_view [OF m2(2) assms(1) enc, of 0] hd by (auto simp: dbw.writes_view_def)
  obtain m4 where m4: "WriteReceipts ?cc db_writer m3 ?h 0 [] = Some m4" "db_open m4"
    "db_view ?cc m4 = (db_view ?cc m3)\<lparr>vw_receipts := (vw_receipts (db_view ?cc m3))((?h, 0) \<mapsto> [])\<rparr>"
    using dbw.WriteReceipts_view [OF m3(2) assms(1), of "[]" ?h 0] by (auto simp: dbw.writes_view_def)
  obtain m5 where m5: "WriteCanonicalHash db_writer m4 ?h 0 = Some m5" "db_open m5"
    "db_view ?cc m5 = (db_view ?cc m4)\<lparr>vw_canon := (vw_canon (db_view ?cc m4))(0 := ?h)\<rparr>"
    using dbw.WriteCanonicalHash_view [OF m4(2), of ?cc ?h 0] by (auto simp: dbw.writes_view_def)
  obtain m6 where m6: "WriteHeadBlockHash db_writer m5 ?h = Some m6" "db_open m6"
    "db_view ?cc m6 = (db_view ?cc m5)\<lparr>vw_headBlock := ?h\<rparr>"
    using dbw.WriteHeadBlockHash_view [OF m5(2), of ?cc ?h] by (auto simp: dbw.writes_view_def)
  obtain m7 where m7: "WriteHeadHeaderHash db_writer m6 ?h = Some m7" "db_open m7"
    "db_view ?cc m7 = (db_view ?cc m6)\<lparr>vw_headHeader := ?h\<rparr>"
    using dbw.WriteHeadHeaderHash_view [OF m6(2), of ?cc ?h] by (auto simp: dbw.writes_view_def)
  obtain data where data: "ge_Marshal ge (g_Config g1) = Some data" using assms(8) by blast
  obtain m8 where m8: "WriteChainConfig (ge_Marshal ge) db_writer m7 ?h (Some (g_Config g1)) = Some m8" "db_open m8"
    "db_view ?cc m8 = db_view ?cc m7"
    using WriteChainConfig_view [where mdb = m7 and cc = ?cc and h = ?h and marshal = "ge_Marshal ge" and c = "g_Config g1", OF m7(2) data] by (auto simp: dbw.writes_view_def)
  have c: "genesis_Commit ?cc ge g mdb = Some (Inr b, g1, m8)"
    by (simp add: genesis_Commit_def assms(4) hd(1) Uint64_def b(4) m2(1) m3(1) m4(1) m5(1) m6(1) m7(1) m8(1) Let_def)
  have v: "vw_header (db_view ?cc m8) = [(?h, 0) \<mapsto> bheader b]" "vw_number (db_view ?cc m8) = [?h \<mapsto> 0]"
    "vw_td (db_view ?cc m8) = [(?h, 0) \<mapsto> d]" "vw_canon (db_view ?cc m8) = (\<lambda>n. if n = 0 then ?h else 0)"
    "vw_headBlock (db_view ?cc m8) = ?h" "vw_headHeader (db_view ?cc m8) = ?h"
    "vw_receipts (db_view ?cc m8) (?h, 0) = Some []"
    using assms(3) by (auto simp: m8(3) m7(3) m6(3) m5(3) m4(3) m3(3) m2(3) no_chain_def)
  have g: "genesis_db E ?h m8" unfolding genesis_db_def v
    using m8(2) assms(6,7) hd by (auto simp: block_hash_def intro!: exI [of _ "bheader b"] exI [of _ d])
  obtain bd where bd: "vw_body (db_view ?cc m8) (?h, 0) = Some bd" "bd_Transactions bd = []"
    by (auto simp: m8(3) m7(3) m6(3) m5(3) m4(3) m3(3) b(3))
  have "vw_body (db_view ?cc m8) = (vw_body (db_view ?cc mdb))((?h, 0) \<mapsto> \<lparr>bd_Transactions = [], bd_Uncles = []\<rparr>)"
    by (simp add: m8(3) m7(3) m6(3) m5(3) m4(3) m3(3) m2(3) b(2,3) f(2))
  then show ?thesis using c g v bd by blast
qed

lemma genesis_extra:
  "ToBlock cr ge g mdb = Some (b, g1, mdb1) \<Longrightarrow> Number (bheader b) = Some 0
     \<and> Extra (bheader b) = replicate 32 0 @ concat (map address_bytes (ge_Sealers ge)) @ replicate 65 0"
  using ToBlock_block [of cr ge g mdb b g1 mdb1] by (auto simp: CopyHeader_def genesis_header_def setExtraData_def)

text \<open>C14: Committing a genesis specification to a database that holds no chain stores a genesis block with which a header
  chain starts: its head is that block, the only header, with the difficulty of the specification as its total
  difficulty; its extra data are 32 zero bytes, the addresses of the sealers and 65 zero bytes.\<close>

theorem genesis_commit_starts_chain:
  assumes "lrus_ok E hv tv nv" "codec_ok (hc_codec E)" "hv c0 = Map.empty" "tv c0 = Map.empty" "nv c0 = Map.empty"
    "db_open mdb" "no_chain (db_view (hc_codec E) mdb)"
    "ToBlock (cc_crypto (hc_codec E)) ge g mdb = Some (b, g1, mdb1)" "g_Difficulty g = Some d" "0 \<le> d"
    "block_hash (hc_codec E) b \<noteq> 0" "ge_Marshal ge (g_Config g1) \<noteq> None"
  shows "\<exists>mdb2 hc. genesis_Commit (hc_codec E) ge g mdb = Some (Inr b, g1, mdb2)
    \<and> NewHeaderChain E c0 mdb2 = Inr hc \<and> header_reachable E c0 (block_hash (hc_codec E) b) hc
    \<and> currentHeader hc = Some (bheader b) \<and> Number (bheader b) = Some 0
    \<and> Extra (bheader b) = replicate 32 0 @ concat (map address_bytes (ge_Sealers ge)) @ replicate 65 0
    \<and> (\<forall>h n. ReadTd (hc_codec E) mdb2 h n = (if h = block_hash (hc_codec E) b \<and> n = 0 then Some d else None))
    \<and> ReadReceipts (hc_codec E) mdb2 (block_hash (hc_codec E) b) 0 = Some []"
proof -
  let ?cc = "hc_codec E" and ?h = "block_hash (hc_codec E) b"
  obtain m8 bd where m8: "genesis_Commit ?cc ge g mdb = Some (Inr b, g1, m8)" "genesis_db E ?h m8"
    "vw_header (db_view ?cc m8) = [(?h, 0) \<mapsto> bheader b]" "vw_td (db_view ?cc m8) = [(?h, 0) \<mapsto> d]"
    "vw_receipts (db_view ?cc m8) (?h, 0) = Some []" "vw_body (db_view ?cc m8) (?h, 0) = Some bd" "bd_Transactions bd = []"
    using genesis_commit_db [OF assms(2,6-12)] by blast
  obtain hc where hc: "NewHeaderChain E c0 m8 = Inr hc" "chain_inv E hv tv nv ?h hc" "chainDb hc = m8"
    using NewHeaderChain_ok [OF assms(1,3-5) m8(2)] by blast
  have r: "header_reachable E c0 ?h hc" by (rule header_reachable.start [OF m8(2) hc(1)])
  obtain x where x: "head_ok E ?h (hc_view E hc) hc x" using hc(2) by (auto simp: chain_inv_def)
  then have "x = bheader b" by (auto simp: head_ok_def hc(3) m8(3) split: if_splits)
  then have cur: "currentHeader hc = Some (bheader b)" using x by (simp add: head_ok_def)
  have rc: "ReadReceipts ?cc m8 ?h 0 = Some []"
    by (simp add: ReadReceipts_def reads_view [where cc = ?cc] m8(5-7) DeriveFields_def)
  show ?thesis using m8(1) hc(1) r cur genesis_extra [OF assms(8)] rc
    by (intro exI [of _ m8] exI [of _ hc]) (simp add: reads_view [where cc = ?cc] m8(4))
qed

end
