(* ===== verification/Process_Rules.thy ===== *)
theory Process_Rules
  imports State_Process Raw_View
begin

text \<open>
  What processing a block promises: the receipts it makes are those that come back from the database, and the gas limit of
  the next block stays near that of its parent.
\<close>

section \<open>What a transition does not touch\<close>

definition tx_meta :: "'t stateDB \<Rightarrow> hash \<times> int \<times> (hash, log list) gomap" where
  "tx_meta s = (bhash s, txIndex s, sdb_logs s)"

lemma tx_meta_update [simp]:
  "tx_meta (s\<lparr>sdb_trie := t\<rparr>) = tx_meta s" "tx_meta (s\<lparr>stateObjects := so\<rparr>) = tx_meta s"
  "tx_meta (s\<lparr>stateObjectsDirty := d\<rparr>) = tx_meta s" "tx_meta (s\<lparr>j_entries := je\<rparr>) = tx_meta s"
  "tx_meta (s\<lparr>j_dirties := jd\<rparr>) = tx_meta s" "tx_meta (setStateObject x s) = tx_meta s"
  "tx_meta (sdb_setError e s) = tx_meta s" "tx_meta (clearJournalAndRefund s) = tx_meta s"
  by (simp_all add: tx_meta_def setStateObject_def sdb_setError_def clearJournalAndRefund_def)

lemma tx_meta_journal [simp]: "tx_meta (journal_dirty a s) = tx_meta s" "tx_meta (journal_append e s) = tx_meta s"
  by (auto simp: tx_meta_def journal_dirty_def journal_append_def split: option.split)

lemma tx_meta_get: "getStateObject env a s = (r, s') \<Longrightarrow> tx_meta s' = tx_meta s"
  by (auto simp: getStateObject_def Let_def split: option.splits prod.splits if_splits)

lemma tx_meta_create: "createObject env a s = ((x, p), s') \<Longrightarrow> tx_meta s' = tx_meta s"
  by (auto simp: createObject_def Let_def dest: tx_meta_get split: prod.splits)

lemma tx_meta_getOrNew: "GetOrNewStateObject env a s = (x, s') \<Longrightarrow> tx_meta s' = tx_meta s"
  by (auto simp: GetOrNewStateObject_def Let_def dest!: tx_meta_get tx_meta_create split: option.splits prod.splits if_splits)

lemma tx_meta_setters [simp]:
  "tx_meta (AddBalance env a v s) = tx_meta s" "tx_meta (SubBalance env a v s) = tx_meta s" "tx_meta (SetNonce env a n s) = tx_meta s"
  by (auto simp: AddBalance_def SubBalance_def SetNonce_def so_AddBalance_def so_SubBalance_def so_SetBalance_def so_SetNonce_def so_touch_def Let_def
      dest: tx_meta_getOrNew split: prod.splits)

lemma tx_meta_CreateAccount [simp]: "tx_meta (CreateAccount env a s) = tx_meta s"
  by (auto simp: CreateAccount_def Let_def dest!: tx_meta_create split: prod.splits option.splits)

lemma tx_meta_readers:
  "GetBalance env a s = (b, s') \<Longrightarrow> tx_meta s' = tx_meta s" "GetNonce env a s = (n, s') \<Longrightarrow> tx_meta s' = tx_meta s"
  "Exist env a s = (e, s') \<Longrightarrow> tx_meta s' = tx_meta s"
  by (auto simp: GetBalance_def GetNonce_def Exist_def Let_def dest!: tx_meta_get split: prod.splits)

lemma tx_meta_call: "evm_Call env depth caller addr gas val s = (r, s') \<Longrightarrow> tx_meta s' = tx_meta s"
  by (auto simp: evm_Call_def CanTransfer_def Transfer_def Let_def dest!: tx_meta_readers split: prod.splits if_splits)

lemma tx_meta_preCheck: "preCheck env msg st = (e, st') \<Longrightarrow> tx_meta (st_state st') = tx_meta (st_state st)"
  by (auto simp: preCheck_def buyGas_def Let_def dest!: tx_meta_readers split: prod.splits if_splits sum.splits)

lemma tx_meta_useGas: "useGas g st = (e, st') \<Longrightarrow> st_state st' = st_state st"
  by (auto simp: useGas_def split: if_splits)

lemma tx_meta_refundGas: "refundGas env msg st = Some st' \<Longrightarrow> tx_meta (st_state st') = tx_meta (st_state st)"
  by (auto simp: refundGas_def Let_def split: option.splits)

lemma tx_meta_transition:
  assumes "TransitionDb env coinbase msg st = Some (Inr r, st')"
  shows "tx_meta (st_state st') = tx_meta (st_state st)"
proof -
  obtain st1 where p: "preCheck env msg st = (None, st1)"
    using assms by (cases "preCheck env msg st") (auto simp: TransitionDb_def split: option.splits)
  obtain gas where g: "IntrinsicGas (m_data msg) False = Inr gas" using assms p
    by (cases "IntrinsicGas (m_data msg) False") (auto simp: TransitionDb_def)
  obtain st2 where u: "useGas gas st1 = (None, st2)" using assms p g
    by (cases "useGas gas st1") (auto simp: TransitionDb_def split: option.splits)
  obtain nonce s3 where n: "GetNonce env (m_from msg) (st_state st2) = (nonce, s3)" by fastforce
  obtain left vmerr s5 where c: "evm_Call env 0 (m_from msg) (st_to msg) (st_gas st2) (m_amount msg)
      (SetNonce env (m_from msg) (nonce + 1) s3) = ((left, vmerr), s5)" by (metis prod.collapse)
  obtain st4 where f: "refundGas env msg (st2\<lparr>st_gas := left, st_state := s5\<rparr>) = Some st4"
    and st': "st' = st4\<lparr>st_state := AddBalance env coinbase (uint (gasUsed st4) * m_gasPrice msg) (st_state st4)\<rparr>"
    using assms p g u n c by (auto simp: TransitionDb_def Let_def split: if_splits option.splits)
  show ?thesis
    using tx_meta_refundGas [OF f] tx_meta_call [OF c] tx_meta_readers(2) [OF n] tx_meta_useGas [OF u] tx_meta_preCheck [OF p]
    by (simp add: st')
qed

lemma tx_meta_step: "finalise_step env rng del a s = Some s' \<Longrightarrow> tx_meta s' = tx_meta s"
  by (auto simp: finalise_step_def deleteStateObject_def updateStateObject_def Let_def split: option.splits if_splits prod.splits)

lemma tx_meta_finalise_loop: "finalise_loop env rng del as s = Some s' \<Longrightarrow> tx_meta s' = tx_meta s"
  by (induction env rng del as s rule: finalise_loop.induct) (auto dest: tx_meta_step split: option.splits)

lemma tx_meta_Finalise: "Finalise env arng rng del s = Some s' \<Longrightarrow> tx_meta s' = tx_meta s"
  by (auto simp: Finalise_def dest: tx_meta_finalise_loop)

lemma ApplyTransaction_meta:
  assumes "ApplyTransaction E author gp s h tx used = Some (Inr r, gp1, s1, used1)"
  shows "tx_meta s1 = tx_meta s"
proof -
  obtain msg where msg: "AsMessage (pr_sender E) tx = Some msg" using assms by (auto simp: ApplyTransaction_def split: option.splits)
  obtain ctx q st where q: "NewEVMContext E msg h author = Some ctx" "ApplyMessage (pr_state E) (ctx_Coinbase ctx) msg gp s = Some (q, st)"
    using assms msg by (force simp: ApplyTransaction_def bind_eq_Some_conv)
  obtain p where p: "q = Inr p" using assms msg q by (cases q) (auto simp: ApplyTransaction_def)
  have "Finalise (pr_state E) (pr_arng E) (pr_rng E) True (st_state st) = Some s1"
    using assms msg q unfolding p by (cases p) (auto simp: ApplyTransaction_def bind_eq_Some_conv Let_def)
  then show ?thesis using tx_meta_Finalise tx_meta_transition [OF q(2) [unfolded p ApplyMessage_def]]
    by (fastforce simp: NewStateTransition_def)
qed

section \<open>Receipts come back\<close>

lemma process_txs_derive:
  assumes "process_txs E bh h i txs gp s used = Some (Inr (rs, used'), s')" "sdb_logs s = []" "Number h = Some (uint n)"
    "de_txhash de = pr_txhash E" "\<forall>tx \<in> set txs. Recipient tx \<noteq> None"
  shows "derive_loop de bh n (of_nat i) used k (map (stored_receipt (pr_kec E)) rs) txs = rs \<and> (\<forall>r \<in> set rs. receipt_ok (pr_kec E) r)"
  using assms
proof (induction txs arbitrary: i gp s used rs k)
  case Nil
  then show ?case by simp
next
  case (Cons tx txs)
  obtain r gas gp1 s1 used1 rs1 where a: "ApplyTransaction E None gp (state_Prepare (pr_txhash E tx) bh (int i) s) h tx used
      = Some (Inr (r, gas), gp1, s1, used1)"
    and p: "process_txs E bh h (i + 1) txs gp1 s1 used1 = Some (Inr (rs1, used'), s')" and rs: "rs = r # rs1"
    using Cons.prems(1) by (auto split: option.splits sum.splits prod.splits)
  note g = ApplyTransaction_gas [OF a]
  have m: "bhash s1 = bh" "txIndex s1 = int i" "sdb_logs s1 = []"
    using ApplyTransaction_meta [OF a] Cons.prems(2) by (simp_all add: tx_meta_def state_Prepare_def)
  have l: "rc_Logs r = []" using g(13) m(3) by (simp add: GetLogs_def)
  have IH: "derive_loop de bh n (of_nat (i + 1)) used1 k (map (stored_receipt (pr_kec E)) rs1) txs = rs1
      \<and> (\<forall>r \<in> set rs1. receipt_ok (pr_kec E) r)" for k
    using Cons.IH [OF p m(3) Cons.prems(3,4)] Cons.prems(5) by simp
  have e: "CumulativeGasUsed r = used1" using g(4,5) by simp
  have sr: "rc_Logs (stored_receipt (pr_kec E) r) = []" "ContractAddress (stored_receipt (pr_kec E) r) = 0"
    "CumulativeGasUsed (stored_receipt (pr_kec E) r) = used1"
    by (simp_all add: stored_receipt_def zero_receipt_def l e)
  have same: "(stored_receipt (pr_kec E) r)\<lparr>rc_TxHash := pr_txhash E tx, rc_BlockHash := bh, rc_BlockNumber := Some (uint n),
      TransactionIndex := of_nat i, ContractAddress := 0, rc_GasUsed := used1 - used, rc_Logs := []\<rparr> = r"
    using g l m e Cons.prems(3) by (cases r) (simp add: stored_receipt_def zero_receipt_def)
  have "Recipient tx \<noteq> None" using Cons.prems(5) by simp
  then obtain to where "Recipient tx = Some to" by blast
  then have "derive_loop de bh n (of_nat i) used k (map (stored_receipt (pr_kec E)) rs) (tx # txs) = r # rs1"
    using IH [of k] same unfolding rs by (simp add: sr Let_def Cons.prems(4) add.commute)
  moreover have "receipt_ok (pr_kec E) r" using g(8-11) l by (simp add: receipt_ok_def status_ok_def)
  ultimately show ?case using IH by (simp add: rs)
qed

text \<open>C17: The receipts of a processed block whose transactions have recipients are, field by field, those that reading
  them back from the database derives for it: nothing that a receipt does not store is lost. (For a contract creation the
  contract's address is derived on reading only.)\<close>

theorem processed_receipts_read_back:
  assumes "Process E (block_hash cc b) b s = Some (Inr (rs, ls, used), s')" "sdb_logs s = []" "Number (bheader b) = Some (uint n)"
    "pr_kec E = keccak256 (cc_crypto cc)" "de_txhash (cc_derive cc) = pr_txhash E" "\<forall>tx \<in> set (transactions b). Recipient tx \<noteq> None"
    "codec_ok cc" "storable b" "db_open db"
  shows "\<exists>db1 db2. WriteBlock cc db_writer db b = Some db1 \<and> WriteReceipts cc db_writer db1 (block_hash cc b) n rs = Some db2
    \<and> ReadReceipts cc db2 (block_hash cc b) n = Some rs"
proof -
  let ?h = "block_hash cc b"
  obtain q s1 where q: "process_txs E ?h (block_Header b) 0 (transactions b) (header.GasLimit (bheader b)) s 0 = Some (q, s1)"
    using assms(1) by (force simp: Process_def AddGas_def bind_eq_Some_conv split: if_splits)
  have p: "process_txs E ?h (block_Header b) 0 (transactions b) (header.GasLimit (bheader b)) s 0 = Some (Inr (rs, used), s1)"
    using assms(1) q by (cases q) (auto simp: Process_def AddGas_def bind_eq_Some_conv split: if_splits)
  have hn: "Number (block_Header b) = Some (uint n)" using assms(3) by (simp add: block_Header_def CopyHeader_def)
  note d0 = process_txs_derive [OF p assms(2) hn assms(5,6), where k = 0, unfolded assms(4)]
  have d: "derive_loop (cc_derive cc) ?h n 0 0 0 (map (stored_receipt (keccak256 (cc_crypto cc))) rs) (transactions b) = rs"
    using d0 by simp
  have len: "length rs = length (transactions b)"
    using process_txs_gas [OF p] unat_u64 [of "header.GasLimit (bheader b)"] by simp
  have nn: "num_of (bheader b) = n" using assms(3) by (simp add: num_of_def)
  obtain db1 where db1: "WriteBlock cc db_writer db b = Some db1" "db_open db1" "db_view cc db1 =
    (db_view cc db)\<lparr>vw_body := (vw_body (db_view cc db))((?h, n) \<mapsto> block_Body b), vw_number := (vw_number (db_view cc db))(?h \<mapsto> n),
      vw_header := (vw_header (db_view cc db))((?h, n) \<mapsto> bheader b)\<rparr>"
    using WriteBlock_stores [OF assms(7-9)] nn by auto
  have "\<forall>r \<in> set rs. status_ok r" using d0 by (simp add: receipt_ok_def)
  from dbw.WriteReceipts_view [OF db1(2) assms(7) this, of ?h n]
  obtain db2 where db2: "WriteReceipts cc db_writer db1 ?h n rs = Some db2"
    "db_view cc db2 = (db_view cc db1)\<lparr>vw_receipts := (vw_receipts (db_view cc db1))((?h, n) \<mapsto> map (stored_receipt (keccak256 (cc_crypto cc))) rs)\<rparr>"
    by (auto simp: dbw.writes_view_def)
  show ?thesis using db1(1) db2(1)
    by - (rule exI [of _ db1], rule exI [of _ db2],
      simp add: ReadReceipts_def reads_view [where cc = cc] db2(2) db1(3) block_Body_def DeriveFields_def len d cong: option.case_cong)
qed

section \<open>The next gas limit\<close>

text \<open>The computation over the natural numbers.\<close>

definition next_limit :: "nat \<Rightarrow> nat \<Rightarrow> nat \<Rightarrow> nat \<Rightarrow> nat" where
  "next_limit pl used fl ceil =
     (let decay = pl div 1024 - 1; l = Orderings.max 5000 (pl - decay + (used + used div 2) div 1024)
      in if l < fl then Orderings.min fl (pl + decay) else if l > ceil then Orderings.max ceil (pl - decay) else l)"

lemma next_limit_near:
  assumes "5000 \<le> fl" "fl \<le> ceil" "5000 \<le> pl" "used \<le> pl"
  shows "5000 \<le> next_limit pl used fl ceil \<and> pl \<le> next_limit pl used fl ceil + pl div 1024
    \<and> next_limit pl used fl ceil \<le> pl + pl div 1024
    \<and> (pl \<le> fl \<longrightarrow> pl \<le> next_limit pl used fl ceil) \<and> (ceil \<le> pl \<longrightarrow> next_limit pl used fl ceil \<le> pl)"
proof -
  define k where "k = pl div 1024"
  define c where "c = (used + used div 2) div 1024"
  have k: "1024 * k \<le> pl" "pl < 1024 * k + 1024" by (simp_all add: k_def)
  have "used + used div 2 \<le> pl + pl div 2" using assms(4) by (simp add: add_mono div_le_mono)
  then have "2 * (1024 * c) \<le> 2 * (pl + pl div 2)" unfolding c_def by (meson div_times_less_eq_dividend le_trans mult_le_mono2 times_div_less_eq_dividend)
  then have c: "2048 * c \<le> 3 * pl" by (simp add: algebra_simps)
  have k4: "4 \<le> k" using k assms(3) by simp
  have up: "c + 1 \<le> 2 * k"
  proof (rule ccontr)
    assume "\<not> c + 1 \<le> 2 * k"
    then have "2048 * (2 * k) \<le> 3 * pl" using c by simp
    then show False using k k4 by simp
  qed
  show ?thesis unfolding next_limit_def Let_def k_def [symmetric] c_def [symmetric]
    using assms k k4 up by (auto simp: min_def max_def)
qed

lemma CalcGasLimit_nat:
  assumes "5000 \<le> unat (header.GasLimit p)" "unat (header.GasLimit p) < 2 ^ 62" "GasUsed p \<le> header.GasLimit p"
  shows "unat (CalcGasLimit p fl ceil) = next_limit (unat (header.GasLimit p)) (unat (GasUsed p)) (unat fl) (unat ceil)"
proof -
  define P U where "P = header.GasLimit p" and "U = GasUsed p"
  define k where "k = unat P div 1024"
  have b: "5000 \<le> unat P" "unat P < 2 ^ 62" "unat U \<le> unat P" using assms by (simp_all add: P_def U_def word_le_nat_alt)
  have k: "k \<noteq> 0" "k \<le> unat P" using b(1) by (simp_all add: k_def)
  have d1: "unat (P div GasLimitBoundDivisor) = k" by (simp add: GasLimitBoundDivisor_def unat_div k_def)
  then have d: "unat (P div GasLimitBoundDivisor - 1) = k - 1" using k(1) by (metis unat_0 unat_minus_one)
  have "unat (U div 2) = unat U div 2" by (simp add: unat_div)
  moreover have "unat U + unat U div 2 < 2 ^ 64" using b(2,3) by simp
  ultimately have "unat (U + U div 2) = unat U + unat U div 2" by (simp add: unat_add_lem [THEN iffD1])
  then have c: "unat ((U + U div 2) div GasLimitBoundDivisor) = (unat U + unat U div 2) div 1024"
    by (simp add: GasLimitBoundDivisor_def unat_div)
  have m: "unat (P - (P div GasLimitBoundDivisor - 1)) = unat P - (k - 1)" using d k(2) by (simp add: unat_sub_if_size)
  have "(unat U + unat U div 2) div 1024 \<le> unat U + unat U div 2" by simp
  then have s: "unat (P - (P div GasLimitBoundDivisor - 1) + (U + U div 2) div GasLimitBoundDivisor)
      = unat P - (k - 1) + (unat U + unat U div 2) div 1024"
    using b m c by (simp add: unat_add_lem [THEN iffD1])
  have a: "unat (P + (P div GasLimitBoundDivisor - 1)) = unat P + (k - 1)"
    using b(2) d k(2) by (simp add: unat_add_lem [THEN iffD1])
  have mg: "unat MinGasLimit = 5000" by (simp add: MinGasLimit_def)
  show ?thesis unfolding CalcGasLimit_def next_limit_def Let_def P_def [symmetric] U_def [symmetric] k_def [symmetric]
    using k(1) by (simp add: word_less_nat_alt s a m mg min_def max_def not_less)
qed

text \<open>C19: The gas limit of the next block, for a floor of at least the minimum and a ceiling above the floor: it is never
  below the minimum, differs from that of the parent by at most a 1024th of it, and never moves away from the
  allowed range: below the floor it does not fall, and above the ceiling it does not rise.\<close>

theorem next_gas_limit:
  assumes "MinGasLimit \<le> gasFloor" "gasFloor \<le> gasCeil" "MinGasLimit \<le> header.GasLimit p" "unat (header.GasLimit p) < 2 ^ 62"
    "GasUsed p \<le> header.GasLimit p"
  defines "l \<equiv> unat (CalcGasLimit p gasFloor gasCeil)" and "pl \<equiv> unat (header.GasLimit p)"
  shows "5000 \<le> l \<and> pl \<le> l + pl div 1024 \<and> l \<le> pl + pl div 1024
    \<and> (header.GasLimit p \<le> gasFloor \<longrightarrow> pl \<le> l) \<and> (gasCeil \<le> header.GasLimit p \<longrightarrow> l \<le> pl)"
proof -
  have m: "unat MinGasLimit = 5000" by (simp add: MinGasLimit_def)
  show ?thesis
    using next_limit_near [of "unat gasFloor" "unat gasCeil" pl "unat (GasUsed p)"] CalcGasLimit_nat [of p gasFloor gasCeil] assms m
    by (simp add: word_le_nat_alt)
qed

end
