(* ===== verification/Chain_Examples.thy ===== *)
theory Chain_Examples
  imports Genesis_Block Process_Rules
begin

text \<open>
  Examples for the database, the genesis block and the header chain, over the serializer and the cache of
  \<open>Codec_Instance\<close>: a genesis block with one sealer, one header on it, and a block with a transaction and its receipt.
\<close>

section \<open>A genesis block\<close>

definition toy_state_libs :: "unit senv" where
  "toy_state_libs = \<lparr>keccak = (\<lambda>_. 0), OpenTrie = (\<lambda>_. Inr ()), OpenStorageTrie = (\<lambda>_ _. Inr ()),
     CopyTrie = id, ContractCode = (\<lambda>_ _. (None, None)), ContractCodeSize = (\<lambda>_ _. (0, None)),
     t_TryGet = (\<lambda>t _. ([], None, t)), t_TryUpdate = (\<lambda>t _ _. (None, t)), t_TryDelete = (\<lambda>t _. (None, t)), t_Hash = (\<lambda>t. (7, t)),
     decodeAccount = (\<lambda>_. None), encodeAccount = (\<lambda>_. Some [1]), rlp_Split = (\<lambda>b. (b, None)), rlp_bytes = (\<lambda>b. b)\<rparr>"

definition toy_genesis_env :: "unit genesis_env" where
  "toy_genesis_env = \<lparr>ge_state = toy_state_libs, ge_ranges = \<lparr>rg_alloc = id, rg_dirty = id, rg_slots = id\<rparr>,
     ge_flush = (\<lambda>_ root. ([(root, [3])], [])), ge_deriveTxs = (\<lambda>_. 0), ge_deriveReceipts = (\<lambda>_. 0),
     ge_createBloom = (\<lambda>_. []), ge_Marshal = (\<lambda>_. Some [4]), ge_Sealers = [9]\<rparr>"

definition toy_genesis :: genesis where
  "toy_genesis = the (genesis_spec \<lparr>ec_Engine = CLIQUE, ec_CliquePeriod = 15, ec_CliqueEpoch = 30000, ec_AuraPeriod = 0, ec_GasFloor = 8000000\<rparr>
     (decodePrealloc 5 [6]))"

lemma toy_genesis_difficulty: "g_Difficulty toy_genesis = Some 1"
  by (simp add: toy_genesis_def genesis_spec_def)

lemma toy_ToBlock: "\<exists>b g1 mdb1. ToBlock codec_crypto toy_genesis_env toy_genesis memdb_New = Some (b, g1, mdb1)"
proof -
  have "map_option (\<lambda>(b, g1, mdb1). Root (bheader b)) (ToBlock codec_crypto toy_genesis_env toy_genesis memdb_New) = Some 7" by code_simp
  then show ?thesis by auto
qed

lemma toy_hash: "header_Hash codec_crypto x = of_nat (length (Extra x))"
  by (simp add: header_Hash_def codec_crypto_def)

lemma toy_genesis_hash:
  assumes "ToBlock codec_crypto toy_genesis_env toy_genesis memdb_New = Some (b, g1, mdb1)"
  shows "block_hash toy_codec b = 117"
  using genesis_extra [OF assms] toy_hash [of "bheader b"]
  by (simp add: block_hash_def toy_genesis_env_def address_bytes_def)

lemma empty_no_chain: "db_open memdb_New" "no_chain (db_view cc memdb_New)"
  by (auto simp: db_open_def memdb_New_def no_chain_def cview_def db_at_def at_hash_def at_data_def at_rlp_def fun_eq_iff)

theorem genesis_commit_starts_chain_witness:
  "\<exists>b g1 mdb1 mdb2 hc. ToBlock codec_crypto toy_genesis_env toy_genesis memdb_New = Some (b, g1, mdb1)
     \<and> genesis_Commit toy_codec toy_genesis_env toy_genesis memdb_New = Some (Inr b, g1, mdb2)
     \<and> NewHeaderChain toy_chain_env [] mdb2 = Inr hc \<and> currentHeader hc = Some (bheader b)
     \<and> ReadTd toy_codec mdb2 117 0 = Some 1 \<and> ReadTd toy_codec mdb2 117 1 = None"
proof -
  obtain b g1 mdb1 where b: "ToBlock codec_crypto toy_genesis_env toy_genesis memdb_New = Some (b, g1, mdb1)" using toy_ToBlock by blast
  note h = toy_genesis_hash [OF b]
  have "ge_Marshal toy_genesis_env (g_Config g1) \<noteq> None" by (simp add: toy_genesis_env_def)
  then show ?thesis
    using genesis_commit_starts_chain [OF toy_env_ok empty_no_chain, of toy_genesis_env toy_genesis b g1 mdb1 1]
      b h toy_genesis_difficulty by auto
qed

section \<open>A header on it\<close>

definition child_header :: header where
  "child_header = \<lparr>ParentHash = 117, UncleHash = 0, Coinbase = 0, Root = 0, TxHash = 0, ReceiptHash = 0, Bloom = [], Difficulty = Some 2,
     Number = Some 1, GasLimit = 50000, GasUsed = 0, Time = 15, Extra = [1], MixDigest = 0, Nonce = []\<rparr>"

text \<open>The genesis block and the header have the hashes 117 and 1.\<close>

lemma child: "header_Hash codec_crypto child_header = 1" "num_of child_header = 1" "ParentHash child_header = 117"
    "Difficulty child_header = Some 2" "Number child_header = Some 1" "header_encodable child_header"
  by (simp_all add: toy_hash) (simp_all add: child_header_def num_of_def header_encodable_def)

lemma child_chain:
  "\<exists>m hc. header_reachable toy_chain_env [] 117 hc \<and> chainDb hc = Some m \<and> currentHeader hc = Some child_header
     \<and> ReadHeader toy_codec (chainDb hc) 1 1 = Some child_header"
proof -
  obtain b g1 mdb1 where b: "ToBlock codec_crypto toy_genesis_env toy_genesis memdb_New = Some (b, g1, mdb1)" using toy_ToBlock by blast
  note h = toy_genesis_hash [OF b]
  have "ge_Marshal toy_genesis_env (g_Config g1) \<noteq> None" by (simp add: toy_genesis_env_def)
  then obtain mdb2 where g: "genesis_db toy_chain_env 117 mdb2" "vw_td (db_view toy_codec mdb2) = [(117, 0) \<mapsto> 1]"
    "vw_header (db_view toy_codec mdb2) = [(117, 0) \<mapsto> bheader b]"
    using genesis_commit_db [of toy_chain_env memdb_New toy_genesis_env toy_genesis b g1 mdb1 1]
      b h toy_codec_ok toy_genesis_difficulty empty_no_chain by auto
  obtain hc0 where hc0: "NewHeaderChain toy_chain_env [] mdb2 = Inr hc0" "chainDb hc0 = mdb2"
    "chain_inv toy_chain_env (cache_view as_header) (cache_view as_td) (cache_view as_number) 117 hc0"
    using NewHeaderChain_ok [OF toy_lrus_ok toy_caches_empty toy_caches_empty toy_caches_empty g(1)] by blast
  have r0: "header_reachable toy_chain_env [] 117 hc0" by (rule header_reachable.start [OF g(1) hc0(1)])
  have f: "header_fits toy_chain_env 117 (hc_view toy_chain_env hc0) child_header"
    using g(1) unfolding header_fits_def hc0(2) genesis_db_def
    by (auto simp: child g(3) intro!: exI [of _ 1])
  have td: "vw_td (hc_view toy_chain_env hc0) (ParentHash child_header, num_of child_header - 1) = Some 1"
    by (simp add: hc0(2) g(2) child)
  obtain x where x: "head_ok toy_chain_env 117 (hc_view toy_chain_env hc0) hc0 x" using hc0(3) by (auto simp: chain_inv_def)
  then have "x = bheader b" "num_of x = 0" "hdr_hash toy_chain_env x = 117"
    by (auto simp: head_ok_def hc0(2) g(3) split: if_splits)
  then have "head_td toy_chain_env hc0 = 1" using x by (simp add: head_td_def head_ok_def hc0(2) g(2))
  then obtain hc where hc: "hc_WriteHeader toy_chain_env False child_header hc0 = Some ((CanonStatTy, None), hc)"
    "chain_inv toy_chain_env (cache_view as_header) (cache_view as_td) (cache_view as_number) 117 hc" "currentHeader hc = Some child_header"
    "vw_header (hc_view toy_chain_env hc) = (vw_header (hc_view toy_chain_env hc0))((1, 1) \<mapsto> child_header)"
    using WriteHeader_known [OF toy_lrus_ok toy_env_codec hc0(3) f td, of False] by (auto simp: child)
  have "header_reachable toy_chain_env [] 117 hc" by (rule header_reachable.wrote [OF r0 f hc(1)])
  moreover obtain m where "chainDb hc = Some m" using hc(2) by (auto simp: chain_inv_def db_open_def)
  moreover have "ReadHeader toy_codec (chainDb hc) 1 1 = Some child_header"
    using hc(4) by (simp add: reads_view [where cc = toy_codec])
  ultimately show ?thesis using hc(3) by blast
qed

theorem header_chain_heaviest_witness:
  "\<exists>hc. header_reachable toy_chain_env [] 117 hc \<and> currentHeader hc = Some child_header \<and> ReadCanonicalHash (chainDb hc) 1 = 1
     \<and> ReadCanonicalHash (chainDb hc) 0 = 117 \<and> ReadCanonicalHash (chainDb hc) 2 = 0"
proof -
  obtain hc where hc: "header_reachable toy_chain_env [] 117 hc" "currentHeader hc = Some child_header"
    "ReadHeader toy_codec (chainDb hc) 1 1 = Some child_header" using child_chain by blast
  have "ReadCanonicalHash (chainDb hc) 1 = 1 \<and> (\<forall>n \<le> 1. \<exists>y. ReadHeader toy_codec (chainDb hc) (ReadCanonicalHash (chainDb hc) n) n = Some y
         \<and> (n \<noteq> 0 \<longrightarrow> ParentHash y = ReadCanonicalHash (chainDb hc) (n - 1))) \<and> (\<forall>n > 1. ReadCanonicalHash (chainDb hc) n = 0)"
    using header_chain_heaviest [OF toy_env_ok hc(1)] hc(2) by (auto simp: child)
  moreover from this have "ReadCanonicalHash (chainDb hc) 0 = 117" using hc(3) by (fastforce simp: child)
  moreover have "(2 :: u64) > 1" by simp
  ultimately show ?thesis using hc(1,2) by blast
qed

theorem get_ancestor_walks_witness:
  "\<exists>hc m' hc'. header_reachable toy_chain_env [] 117 hc \<and> hc_GetAncestor toy_chain_env 1 1 1 5 hc = ((117, 0), m', hc')"
proof -
  obtain hc where hc: "header_reachable toy_chain_env [] 117 hc" "currentHeader hc = Some child_header"
    "ReadHeader toy_codec (chainDb hc) 1 1 = Some child_header" using child_chain by blast
  obtain r m' hc' where g: "hc_GetAncestor toy_chain_env 1 1 1 5 hc = (r, m', hc')" by (cases "hc_GetAncestor toy_chain_env 1 1 1 5 hc") auto
  have "r = (nth_ancestor (hc_view toy_chain_env hc) 1 1 1, 0)"
    using get_ancestor_walks [OF toy_env_ok hc(1) _ _ g] hc(3) by auto
  moreover have "nth_ancestor (hc_view toy_chain_env hc) 1 1 1 = 117"
    using hc(3) by (simp add: reads_view [where cc = toy_codec] child)
  ultimately show ?thesis using hc(1) g by auto
qed

theorem set_head_rewinds_witness:
  "\<exists>hc hc' z. header_reachable toy_chain_env [] 117 hc \<and> currentHeader hc = Some child_header
     \<and> hc_SetHead toy_chain_env 0 None hc = Some hc' \<and> currentHeader hc' = Some z \<and> num_of z = 0
     \<and> ReadHeader toy_codec (chainDb hc') 1 1 = None"
proof -
  obtain m hc where hc: "header_reachable toy_chain_env [] 117 hc" "chainDb hc = Some m" "currentHeader hc = Some child_header"
    "ReadHeader toy_codec (chainDb hc) 1 1 = Some child_header" using child_chain by blast
  have b: "only_bodies toy_codec m None" by (simp add: only_bodies_def)
  have c: "chain_inv toy_chain_env (cache_view as_header) (cache_view as_td) (cache_view as_number) 117 hc"
    using header_reachable_inv [OF toy_env_ok hc(1)] by simp
  then have "ReadCanonicalHash (chainDb hc) 1 = 1"
    using hc(3) by (auto simp: chain_inv_def head_ok_def canon_ok_def child reads_view [where cc = toy_codec])
  then show ?thesis
    using set_head_rewinds [OF toy_env_ok hc(1,2) _ hc(3), of None 0] b hc(1,3)
    by (fastforce simp: child word_gt_0)
qed

section \<open>A block with a receipt\<close>

definition child_tx :: transaction where
  "child_tx = \<lparr>AccountNonce = 3, Price = 1, GasLimit = 21000, Recipient = Some 8, Amount = 10, Payload = [], sigV = 27, sigR = 1, sigS = 1\<rparr>"

definition child_block :: block where
  "child_block = \<lparr>bheader = child_header, uncles = [], transactions = [child_tx], td = None\<rparr>"

definition bare_receipt :: receipt where
  "bare_receipt = zero_receipt\<lparr>rc_Status := 1, CumulativeGasUsed := 21000,
     rc_Logs := [\<lparr>l_Address = 8, l_Topics = [2], l_Data = [5], l_BlockNumber = 0, l_TxHash = 0, l_TxIndex = 0, l_BlockHash = 0,
       l_Index = 0, l_Removed = False\<rparr>]\<rparr>"

definition toy_receipt :: receipt where
  "toy_receipt = bare_receipt\<lparr>rc_Bloom := the (CreateBloom (keccak256 codec_crypto) [bare_receipt])\<rparr>"

lemma toy_receipt_ok: "receipt_ok (keccak256 codec_crypto) toy_receipt"
proof -
  obtain bl where bl: "CreateBloom (keccak256 codec_crypto) [bare_receipt] = Some bl" using CreateBloom_total by blast
  moreover have "CreateBloom (keccak256 codec_crypto) [toy_receipt] = CreateBloom (keccak256 codec_crypto) [bare_receipt]"
    by (simp add: CreateBloom_def toy_receipt_def)
  ultimately show ?thesis
    by (simp add: receipt_ok_def toy_receipt_def) (simp add: bare_receipt_def status_ok_def zero_receipt_def)
qed

theorem stored_block_read_back_witness:
  "\<exists>db1 db2. WriteBlock toy_codec db_writer memdb_New child_block = Some db1
     \<and> WriteReceipts toy_codec db_writer db1 1 1 [toy_receipt] = Some db2 \<and> ReadBlock toy_codec db2 1 1 = Some child_block
     \<and> ReadReceipts toy_codec db2 1 1 = DeriveFields (cc_derive toy_codec) 1 1 [child_tx] [toy_receipt]"
proof -
  have "storable child_block" "td child_block = None"
    by (simp_all add: storable_def child_block_def child body_encodable_def block_Body_def child_tx_def)
  moreover have "block_hash toy_codec child_block = 1" "num_of (bheader child_block) = 1"
    by (simp_all add: block_hash_def child_block_def child)
  ultimately show ?thesis
    using stored_block_read_back [OF toy_codec_ok _ _ empty_no_chain(1), of child_block "[toy_receipt]"] toy_receipt_ok
    by (auto simp: child_block_def)
qed

theorem bloom_never_misses_witness:
  "\<exists>bl. CreateBloom (keccak256 codec_crypto) [bare_receipt] = Some bl \<and> BloomLookup (keccak256 codec_crypto) bl (address_bytes 8)
     \<and> BloomLookup (keccak256 codec_crypto) bl (hash_bytes 2)"
proof -
  obtain l where "rc_Logs bare_receipt = [l]" "l_Address l = 8" "l_Topics l = [2]" by (simp add: bare_receipt_def)
  then show ?thesis using bloom_never_misses [of "keccak256 codec_crypto" "[bare_receipt]"] by auto
qed

section \<open>Processing a block\<close>

text \<open>Every account has nonce 3 and a balance of \<open>10\<^sup>9\<close>.\<close>

definition rich_libs :: "unit senv" where
  "rich_libs = toy_state_libs\<lparr>t_TryGet := (\<lambda>t _. ([1], None, t)),
     decodeAccount := (\<lambda>_. Some \<lparr>a_Nonce = 3, a_Balance = 10 ^ 9, a_Root = 0, a_CodeHash = []\<rparr>)\<rparr>"

definition child_env :: "unit proc_env" where
  "child_env = \<lparr>pr_state = rich_libs, pr_sender = (\<lambda>_. Some 5), pr_txhash = (\<lambda>t. ucast (AccountNonce t) + 1), pr_arng = id, pr_rng = id,
     pr_Author = (\<lambda>_. 4), pr_Finalize = (\<lambda>_ s _ _ _. Some s), pr_kec = keccak256 codec_crypto, pr_deriveTxs = (\<lambda>_. 0), pr_deriveReceipts = (\<lambda>_. 0)\<rparr>"

lemma child_processed:
  "\<exists>rs ls s'. Process child_env 1 child_block (fresh_stateDB ()) = Some (Inr (rs, ls, 21000), s')"
proof -
  have "map_option (\<lambda>(r, _). case r of Inl _ \<Rightarrow> 0 | Inr (_, _, used) \<Rightarrow> used) (Process child_env 1 child_block (fresh_stateDB ())) = Some 21000"
    by code_simp
  then obtain r s' where r: "Process child_env 1 child_block (fresh_stateDB ()) = Some (r, s')"
    "(case r of Inl _ \<Rightarrow> 0 | Inr (_, _, used) \<Rightarrow> used) = 21000" by auto
  then show ?thesis by (cases r) auto
qed

theorem block_gas_within_limit_witness:
  "\<exists>rs ls s'. Process child_env 1 child_block (fresh_stateDB ()) = Some (Inr (rs, ls, 21000), s')
     \<and> length rs = 1 \<and> (\<Sum>r \<leftarrow> rs. unat (rc_GasUsed r)) = 21000"
proof -
  obtain rs ls s' where p: "Process child_env 1 child_block (fresh_stateDB ()) = Some (Inr (rs, ls, 21000), s')"
    using child_processed by blast
  show ?thesis using p block_gas_within_limit [OF p] by (auto simp: child_block_def)
qed

lemma child_storable: "storable child_block"
  by (simp add: storable_def child_block_def child body_encodable_def block_Body_def child_tx_def)

theorem processed_receipts_read_back_witness:
  "\<exists>rs ls s' db1 db2. Process child_env 1 child_block (fresh_stateDB ()) = Some (Inr (rs, ls, 21000), s')
     \<and> WriteBlock toy_codec db_writer memdb_New child_block = Some db1 \<and> WriteReceipts toy_codec db_writer db1 1 1 rs = Some db2
     \<and> ReadReceipts toy_codec db2 1 1 = Some rs"
proof -
  have h: "block_hash toy_codec child_block = 1" by (simp add: block_hash_def child_block_def child)
  obtain rs ls s' where p: "Process child_env 1 child_block (fresh_stateDB ()) = Some (Inr (rs, ls, 21000), s')"
    using child_processed by blast
  have "sdb_logs (fresh_stateDB ()) = []" "Number (bheader child_block) = Some (uint (1 :: u64))"
    "pr_kec child_env = keccak256 (cc_crypto toy_codec)" "de_txhash (cc_derive toy_codec) = pr_txhash child_env"
    "\<forall>tx \<in> set (transactions child_block). Recipient tx \<noteq> None"
    by (simp_all add: fresh_stateDB_def child_block_def child child_env_def toy_codec_def child_tx_def)
  from processed_receipts_read_back [OF p [folded h] this toy_codec_ok child_storable empty_no_chain(1)]
  show ?thesis using p h by auto
qed

theorem next_gas_limit_witness:
  "50000 \<le> unat (CalcGasLimit child_header 60000 80000) + 48 \<and> 50000 \<le> unat (CalcGasLimit child_header 60000 80000)"
  using next_gas_limit [of 60000 80000 child_header] by (simp add: MinGasLimit_def child_header_def)

end
