(* ===== verification/Block_Inv.thy ===== *)
theory Block_Inv
  imports Block_Chain Header_Rules
begin

text \<open>
  The invariant of the chain of blocks (\<open>core/blockchain.go\<close>): headers with bodies and difficulties are stored as a tree, the caches
  agree with the store, and the canonical numbers up to the head block are its ancestors. Above the head block nothing is
  said of them.
\<close>

section \<open>Stored blocks\<close>

abbreviation bview :: "('s, 't, 'c) bc_env \<Rightarrow> ('s, 'c) blockChain \<Rightarrow> chain_view" where
  "bview E bc \<equiv> db_view (cdc E) (bc_db bc)"

definition blk_at :: "chain_view \<Rightarrow> hash \<Rightarrow> u64 \<Rightarrow> block \<Rightarrow> bool" where
  "blk_at V h n b \<longleftrightarrow> vw_header V (h, n) = Some (bheader b) \<and> vw_body V (h, n) = Some (block_Body b)"

definition bodies_ok :: "chain_view \<Rightarrow> bool" where
  "bodies_ok V \<longleftrightarrow> (\<forall>k x. vw_header V k = Some x \<longrightarrow> (\<exists>bd. vw_body V k = Some bd))
     \<and> (\<forall>k bd. vw_body V k = Some bd \<longrightarrow> map CopyHeader (bd_Uncles bd) = bd_Uncles bd)"

definition bcache_ok :: "('c \<Rightarrow> hash \<rightharpoonup> block) \<Rightarrow> chain_view \<Rightarrow> ('s, 'c) blockChain \<Rightarrow> bool" where
  "bcache_ok bv V bc \<longleftrightarrow> (\<forall>h b. bv (blockCache bc) h = Some b \<longrightarrow> (\<exists>n. blk_at V h n b))"

text \<open>The laws of the caches, and of the store of tries: it writes nothing but nodes.\<close>

definition store_ok :: "chain_codec \<Rightarrow> ('s, 't) trie_store \<Rightarrow> bool" where
  "store_ok cc S \<longleftrightarrow>
     (\<forall>s db r. db_open db \<longrightarrow> (case ts_Commit S s db r of (ok, s', db') \<Rightarrow> db_open db' \<and> db_view cc db' = db_view cc db))
   \<and> (\<forall>s db l. db_open db \<longrightarrow> (case ts_Cap S s db l of (s', db') \<Rightarrow> db_open db' \<and> db_view cc db' = db_view cc db))"

definition env_ok ::
  "('s, 't, 'c) bc_env \<Rightarrow> ('c \<Rightarrow> hash \<rightharpoonup> header) \<Rightarrow> ('c \<Rightarrow> hash \<rightharpoonup> bigint) \<Rightarrow> ('c \<Rightarrow> hash \<rightharpoonup> u64) \<Rightarrow> ('c \<Rightarrow> hash \<rightharpoonup> block) \<Rightarrow> bool" where
  "env_ok E hv tv nv bv \<longleftrightarrow> lrus_ok (be_hc E) hv tv nv \<and> lru_ok (blockLru E) bv \<and> codec_ok (cdc E) \<and> store_ok (cdc E) (be_store E)"

definition base_ok ::
  "('s, 't, 'c) bc_env \<Rightarrow> ('c \<Rightarrow> hash \<rightharpoonup> header) \<Rightarrow> ('c \<Rightarrow> hash \<rightharpoonup> bigint) \<Rightarrow> ('c \<Rightarrow> hash \<rightharpoonup> u64) \<Rightarrow> ('c \<Rightarrow> hash \<rightharpoonup> block) \<Rightarrow>
     hash \<Rightarrow> ('s, 'c) blockChain \<Rightarrow> bool" where
  "base_ok E hv tv nv bv g bc \<longleftrightarrow> db_open (bc_db bc) \<and> stored_ok (be_hc E) g (bview E bc) \<and> bodies_ok (bview E bc)
     \<and> caches_ok hv tv nv (bview E bc) (bc_hc bc) \<and> bcache_ok bv (bview E bc) bc"

text \<open>What a step that only reads leaves as it is.\<close>

definition reads_only :: "('s, 't, 'c) bc_env \<Rightarrow> ('s, 'c) blockChain \<Rightarrow> ('s, 'c) blockChain \<Rightarrow> bool" where
  "reads_only E bc bc' \<longleftrightarrow> bview E bc' = bview E bc \<and> currentBlock bc' = currentBlock bc
     \<and> currentFastBlock bc' = currentFastBlock bc \<and> genesisBlock bc' = genesisBlock bc
     \<and> currentHeader (bc_hc bc') = currentHeader (bc_hc bc) \<and> bc_events bc' = bc_events bc"

lemma reads_only_refl [simp]: "reads_only E bc bc"
  by (simp add: reads_only_def)

lemma reads_only_trans: "reads_only E bc bc1 \<Longrightarrow> reads_only E bc1 bc2 \<Longrightarrow> reads_only E bc bc2"
  by (simp add: reads_only_def)

lemma set_db_simps [simp]:
  "bc_db (set_db mdb bc) = mdb" "currentBlock (set_db mdb bc) = currentBlock bc" "currentFastBlock (set_db mdb bc) = currentFastBlock bc"
  "genesisBlock (set_db mdb bc) = genesisBlock bc" "currentHeader (bc_hc (set_db mdb bc)) = currentHeader (bc_hc bc)"
  "bc_events (set_db mdb bc) = bc_events bc" "blockCache (set_db mdb bc) = blockCache bc" "bc_tosses (set_db mdb bc) = bc_tosses bc"
  "caches_ok hv tv nv V (bc_hc (set_db mdb bc)) = caches_ok hv tv nv V (bc_hc bc)"
  "triegc (set_db mdb bc) = triegc bc" "futureBlocks (set_db mdb bc) = futureBlocks bc" "bc_store (set_db mdb bc) = bc_store bc"
  by (simp_all add: set_db_def caches_ok_def)

text \<open>The invariant sees the store through its view.\<close>

lemma base_ok_cong:
  assumes "base_ok E hv tv nv bv g bc" "db_open (bc_db bc')" "bview E bc' = bview E bc" "caches_ok hv tv nv (bview E bc) (bc_hc bc')"
    "blockCache bc' = blockCache bc"
  shows "base_ok E hv tv nv bv g bc'"
  using assms by (simp add: base_ok_def bcache_ok_def)

lemma blk_number: "stored_ok E g V \<Longrightarrow> blk_at V h n b \<Longrightarrow> bnum b = Some n"
  using stored_Uint64 unfolding blk_at_def by blast

lemma blk_hashes: "stored_ok (be_hc E) g V \<Longrightarrow> blk_at V h n b \<Longrightarrow> blk_hash E b = h"
  using stored_header(1) unfolding blk_at_def block_hash_def by blast

lemma blk_parent:
  assumes "stored_ok E g V" "bodies_ok V" "blk_at V h n b" "n \<noteq> 0"
  shows "\<exists>p. blk_at V (ParentHash (bheader b)) (n - 1) p"
proof -
  obtain x where x: "vw_header V (ParentHash (bheader b), n - 1) = Some x"
    using stored_header(9) [OF assms(1)] assms(3,4) unfolding blk_at_def by blast
  then obtain bd where "vw_body V (ParentHash (bheader b), n - 1) = Some bd" using assms(2) unfolding bodies_ok_def by blast
  then show ?thesis using x
    by (intro exI [of _ "\<lparr>bheader = x, uncles = bd_Uncles bd, transactions = bd_Transactions bd, td = None\<rparr>"])
      (simp add: blk_at_def block_Body_def)
qed

lemma blk_at_unique:
  "stored_ok E g V \<Longrightarrow> blk_at V h n b \<Longrightarrow> blk_at V h n' b' \<Longrightarrow> n' = n \<and> bheader b' = bheader b \<and> block_Body b' = block_Body b"
  using stored_unique unfolding blk_at_def by (metis option.inject)

section \<open>Reading\<close>

lemma on_hc_reads:
  assumes "base_ok E hv tv nv bv g bc" "on_hc f bc = (r, bc')" "f (bc_hc bc) = (r, hc')" "same_chain (bc_hc bc) hc'"
    "caches_ok hv tv nv (bview E bc) hc'"
  shows "reads_only E bc bc' \<and> base_ok E hv tv nv bv g bc'"
  using assms by (auto simp: on_hc_def reads_only_def same_chain_def base_ok_def bcache_ok_def)

lemma bc_GetTd_ok:
  assumes "env_ok E hv tv nv bv" "base_ok E hv tv nv bv g bc" "vw_number (bview E bc) h = None \<or> vw_number (bview E bc) h = Some n"
    "bc_GetTd E h n bc = (r, bc')"
  shows "r = vw_td (bview E bc) (h, n) \<and> reads_only E bc bc' \<and> base_ok E hv tv nv bv g bc'"
proof -
  obtain q hc' where q: "GetTd (be_hc E) h n (bc_hc bc) = (q, hc')" by fastforce
  have r: "q = r" using assms(4) q by (simp add: on_hc_def)
  have 1: "q = vw_td (bview E bc) (h, n) \<and> same_chain (bc_hc bc) hc' \<and> caches_ok hv tv nv (bview E bc) hc'"
    by (rule GetTd_ok [OF _ _ _ assms(3) q]) (use assms(1,2) in \<open>auto simp: env_ok_def base_ok_def\<close>)
  then show ?thesis using on_hc_reads [OF assms(2,4) q [unfolded r]] r by simp
qed

lemma bc_GetHeaderByNumber_ok:
  assumes "env_ok E hv tv nv bv" "base_ok E hv tv nv bv g bc" "on_hc (hc_GetHeaderByNumber (be_hc E) n) bc = (r, bc')"
    "vw_canon (bview E bc) n \<noteq> 0 \<longrightarrow> vw_number (bview E bc) (vw_canon (bview E bc) n) \<in> {None, Some n}"
  shows "reads_only E bc bc' \<and> base_ok E hv tv nv bv g bc'"
proof (cases "vw_canon (bview E bc) n = 0")
  case True
  then show ?thesis using assms(2,3)
    by (auto simp: on_hc_def hc_GetHeaderByNumber_def reads_view [where cc = "cdc E"])
next
  case False
  let ?h = "vw_canon (bview E bc) n"
  obtain q hc' where q: "hc_GetHeader (be_hc E) ?h n (bc_hc bc) = (q, hc')" by fastforce
  have e: "hc_GetHeaderByNumber (be_hc E) n (bc_hc bc) = (q, hc')"
    using False q by (simp add: hc_GetHeaderByNumber_def reads_view [where cc = "cdc E"])
  have r: "q = r" using assms(3) e by (simp add: on_hc_def)
  have "same_chain (bc_hc bc) hc' \<and> caches_ok hv tv nv (bview E bc) hc'"
    using hc_GetHeader_ok [OF _ _ _ _ q] assms(1,2,4) False by (auto simp: env_ok_def base_ok_def)
  then show ?thesis using on_hc_reads [OF assms(2,3) e [unfolded r]] by simp
qed

lemma collectLogs_ok:
  assumes "env_ok E hv tv nv bv" "base_ok E hv tv nv bv g bc"
  shows "reads_only E bc (snd (collectLogs E h rm bc)) \<and> base_ok E hv tv nv bv g (snd (collectLogs E h rm bc))"
proof -
  obtain r bc' where r: "on_hc (GetBlockNumber (be_hc E) h) bc = (r, bc')" by fastforce
  obtain q hc' where q: "GetBlockNumber (be_hc E) h (bc_hc bc) = (q, hc')" by fastforce
  have e: "q = r" using r q by (simp add: on_hc_def)
  have "same_chain (bc_hc bc) hc' \<and> caches_ok hv tv nv (bview E bc) hc'"
    using GetBlockNumber_ok [of "be_hc E" hv tv nv "bc_hc bc" h q hc'] q assms by (simp add: env_ok_def base_ok_def)
  then have "reads_only E bc bc' \<and> base_ok E hv tv nv bv g bc'" using on_hc_reads [OF assms(2) r q [unfolded e]] by simp
  moreover have "snd (collectLogs E h rm bc) = bc'" by (simp add: collectLogs_def r split: option.split)
  ultimately show ?thesis by simp
qed

text \<open>A block that is read is the stored one; a block that is there is found, whatever is cached.\<close>

lemma ReadBlock_at:
  assumes "stored_ok (be_hc E) g (db_view (cdc E) mdb)" "bodies_ok (db_view (cdc E) mdb)"
  shows "case ReadBlock (cdc E) mdb h n of
           None \<Rightarrow> vw_header (db_view (cdc E) mdb) (h, n) = None
         | Some b \<Rightarrow> blk_at (db_view (cdc E) mdb) h n b"
proof (cases "vw_header (db_view (cdc E) mdb) (h, n)")
  case None
  then show ?thesis by (simp add: ReadBlock_def reads_view [where cc = "cdc E"])
next
  case (Some x)
  then obtain bd where bd: "vw_body (db_view (cdc E) mdb) (h, n) = Some bd" using assms(2) unfolding bodies_ok_def by blast
  then have u: "map CopyHeader (bd_Uncles bd) = bd_Uncles bd" using assms(2) by (auto simp: bodies_ok_def)
  have "Number x \<noteq> None" "Difficulty x \<noteq> None" using stored_header(3,4) [OF assms(1) Some] by simp_all
  then have "CopyHeader x = x" by (rule CopyHeader_id)
  then show ?thesis using Some bd u
    by (simp add: ReadBlock_def reads_view [where cc = "cdc E"] WithBody_def NewBlockWithHeader_def blk_at_def block_Body_def)
qed

lemma GetBlock_ok:
  assumes "env_ok E hv tv nv bv" "base_ok E hv tv nv bv g bc" "vw_number (bview E bc) h = None \<or> vw_number (bview E bc) h = Some n"
    "GetBlock E h n bc = (r, bc')"
  shows "reads_only E bc bc' \<and> base_ok E hv tv nv bv g bc'
    \<and> (case r of None \<Rightarrow> vw_header (bview E bc) (h, n) = None | Some b \<Rightarrow> blk_at (bview E bc) h n b)"
proof -
  let ?V = "bview E bc"
  have L: "lru_ok (blockLru E) bv" using assms(1) by (simp add: env_ok_def)
  have b: "stored_ok (be_hc E) g ?V" "bodies_ok ?V" "bcache_ok bv ?V bc" using assms(2) by (simp_all add: base_ok_def)
  obtain q c where q: "lru_Get (blockLru E) (blockCache bc) h = (q, c)" by fastforce
  from lru_GetD [OF L q] have v: "q = bv (blockCache bc) h" "bv c = bv (blockCache bc)" by simp_all
  have keep: "reads_only E bc (bc\<lparr>blockCache := c\<rparr>) \<and> base_ok E hv tv nv bv g (bc\<lparr>blockCache := c\<rparr>)"
    using assms(2) v(2) by (simp add: reads_only_def base_ok_def bcache_ok_def)
  show ?thesis
  proof (cases q)
    case (Some x)
    then obtain n' where n': "blk_at ?V h n' x" using b(3) v(1) by (auto simp: bcache_ok_def)
    then have "vw_number ?V h = Some n'" using stored_header(6) [OF b(1)] by (auto simp: blk_at_def)
    then have "blk_at ?V h n x" using assms(3) n' by auto
    then show ?thesis using assms(4) q Some keep by (auto simp: GetBlock_def)
  next
    case None
    show ?thesis
    proof (cases "ReadBlock (cdc E) (bc_db bc) h n")
      case None2: None
      then show ?thesis using ReadBlock_at [OF b(1,2), of h n] assms(4) q None keep by (auto simp: GetBlock_def)
    next
      case (Some x)
      then have x: "blk_at ?V h n x" using ReadBlock_at [OF b(1,2), of h n] by simp
      have hx: "blk_hash E x = h" by (rule blk_hashes [OF b(1) x])
      have "\<forall>k y. bv c k = Some y \<longrightarrow> (\<exists>n. blk_at ?V k n y)" using b(3) v(2) by (simp add: bcache_ok_def)
      then have "\<forall>k y. bv (lru_Add (blockLru E) c h x) k = Some y \<longrightarrow> (\<exists>n. blk_at ?V k n y)"
        using lru_Add_all [OF L, of c "\<lambda>k y. \<exists>n. blk_at ?V k n y" h x] x by blast
      then have "base_ok E hv tv nv bv g (bc\<lparr>blockCache := lru_Add (blockLru E) c h x\<rparr>)"
        using assms(2) by (simp add: base_ok_def bcache_ok_def)
      moreover have "r = Some x \<and> bc' = bc\<lparr>blockCache := lru_Add (blockLru E) c h x\<rparr>"
        using assms(4) q None Some hx by (simp add: GetBlock_def)
      ultimately show ?thesis using x by (simp add: reads_only_def)
    qed
  qed
qed

text \<open>The parent of a stored block.\<close>

lemma GetBlock_parent:
  assumes "env_ok E hv tv nv bv" "base_ok E hv tv nv bv g bc" "blk_at (bview E bc) h n b" "n \<noteq> 0"
  shows "\<exists>p bc'. GetBlock E (ParentHash (bheader b)) (n - 1) bc = (Some p, bc') \<and> blk_at (bview E bc) (ParentHash (bheader b)) (n - 1) p
    \<and> reads_only E bc bc' \<and> base_ok E hv tv nv bv g bc'"
proof -
  have b: "stored_ok (be_hc E) g (bview E bc)" "bodies_ok (bview E bc)" using assms(2) by (simp_all add: base_ok_def)
  obtain p where p: "blk_at (bview E bc) (ParentHash (bheader b)) (n - 1) p" using blk_parent [OF b assms(3,4)] by blast
  obtain r bc' where r: "GetBlock E (ParentHash (bheader b)) (n - 1) bc = (r, bc')" by fastforce
  have "vw_number (bview E bc) (ParentHash (bheader b)) = Some (n - 1)"
    using stored_header(6) [OF b(1)] p unfolding blk_at_def by blast
  from GetBlock_ok [OF assms(1,2) disjI2 [OF this] r] p show ?thesis
    by (cases r) (auto simp: blk_at_def r)
qed

section \<open>Walking down\<close>

text \<open>The blocks from one stored block (inclusive) to an ancestor (exclusive).\<close>

fun chain_down :: "chain_view \<Rightarrow> hash \<Rightarrow> u64 \<Rightarrow> block list \<Rightarrow> hash \<Rightarrow> u64 \<Rightarrow> bool" where
  "chain_down V h n [] h' n' \<longleftrightarrow> h' = h \<and> n' = n"
| "chain_down V h n (b # bs) h' n' \<longleftrightarrow> blk_at V h n b \<and> n \<noteq> 0 \<and> chain_down V (ParentHash (bheader b)) (n - 1) bs h' n'"

lemma chain_down_append:
  "chain_down V h n (bs @ cs) h' n' \<longleftrightarrow> (\<exists>k m. chain_down V h n bs k m \<and> chain_down V k m cs h' n')"
  by (induction bs arbitrary: h n) auto

lemma chain_down_le: "chain_down V h n bs h' n' \<Longrightarrow> n' \<le> n"
proof (induction bs arbitrary: h n)
  case (Cons b bs)
  then have "n' \<le> n - 1" "n \<noteq> 0" by auto
  then show ?case using word_minus_one_le(1) by (simp add: less_imp_le)
qed simp

lemma reorg_old_ok:
  assumes "env_ok E hv tv nv bv" "base_ok E hv tv nv bv g bc" "blk_at (bview E bc) h n b" "m \<le> n"
  shows "\<exists>l b' h' bc'. reorg_old E m (Some b) acc bc = Some (Some b', acc @ l, bc') \<and> reads_only E bc bc' \<and> base_ok E hv tv nv bv g bc'
    \<and> chain_down (bview E bc) h n l h' m \<and> blk_at (bview E bc) h' m b' \<and> (n = m \<longrightarrow> l = [])"
  using assms(2-4)
proof (induction "unat n" arbitrary: n h b acc bc rule: less_induct)
  case less
  have st: "stored_ok (be_hc E) g (bview E bc)" using less.prems(1) by (simp add: base_ok_def)
  have bn: "bnum b = Some n" by (rule blk_number [OF st less.prems(2)])
  have bh: "blk_hash E b = h" by (rule blk_hashes [OF st less.prems(2)])
  show ?case
  proof (cases "n = m")
    case True
    then show ?thesis using bn less.prems by (auto simp: reorg_old.simps)
  next
    case False
    then have mn: "m < n" using less.prems(3) by simp
    then have n0: "n \<noteq> 0" by auto
    let ?bc1 = "snd (collectLogs E h True bc)"
    have 1: "reads_only E bc ?bc1" "base_ok E hv tv nv bv g ?bc1" using collectLogs_ok [OF assms(1) less.prems(1)] by simp_all
    then have v1: "bview E ?bc1 = bview E bc" by (simp add: reads_only_def)
    obtain p bc2 where p: "GetBlock E (ParentHash (bheader b)) (n - 1) ?bc1 = (Some p, bc2)"
      "blk_at (bview E bc) (ParentHash (bheader b)) (n - 1) p" "reads_only E ?bc1 bc2" "base_ok E hv tv nv bv g bc2"
      using GetBlock_parent [OF assms(1) 1(2), unfolded v1, OF less.prems(2) n0] by blast
    have v2: "bview E bc2 = bview E bc" using p(3) v1 by (simp add: reads_only_def)
    have "m \<le> n - 1" using mn n0 word_minus_one_le(1) by blast
    from less.hyps [OF word_minus_one_le(2) [OF n0] p(4), unfolded v2, OF p(2) this, of "acc @ [b]"]
    obtain l b' h' bc' where l: "reorg_old E m (Some p) (acc @ [b]) bc2 = Some (Some b', (acc @ [b]) @ l, bc')" "reads_only E bc2 bc'"
      "base_ok E hv tv nv bv g bc'" "chain_down (bview E bc) (ParentHash (bheader b)) (n - 1) l h' m" "blk_at (bview E bc) h' m b'"
      by blast
    have "reorg_old E m (Some b) acc bc = Some (Some b', acc @ (b # l), bc')"
      using l(1) bn bh False p(1) by (simp add: reorg_old.simps [of _ _ "Some b"])
    moreover have "chain_down (bview E bc) h n (b # l) h' m" using l(4) less.prems(2) n0 by simp
    ultimately show ?thesis using l(2,3,5) 1(1) p(3) reads_only_trans False by metis
  qed
qed

lemma reorg_new_ok:
  assumes "env_ok E hv tv nv bv" "base_ok E hv tv nv bv g bc" "blk_at (bview E bc) h n b" "m \<le> n"
  shows "\<exists>l b' h' bc'. reorg_new E m (Some b) acc bc = Some (Some b', acc @ l, bc') \<and> reads_only E bc bc' \<and> base_ok E hv tv nv bv g bc'
    \<and> chain_down (bview E bc) h n l h' m \<and> blk_at (bview E bc) h' m b' \<and> (l = [] \<longrightarrow> b' = b) \<and> (l \<noteq> [] \<longrightarrow> hd l = b)"
  using assms(2-4)
proof (induction "unat n" arbitrary: n h b acc bc rule: less_induct)
  case less
  have st: "stored_ok (be_hc E) g (bview E bc)" using less.prems(1) by (simp add: base_ok_def)
  have bn: "bnum b = Some n" by (rule blk_number [OF st less.prems(2)])
  show ?case
  proof (cases "n = m")
    case True
    then show ?thesis using bn less.prems by (intro exI [of _ "[]"]) (auto simp: reorg_new.simps)
  next
    case False
    then have mn: "m < n" using less.prems(3) by simp
    then have n0: "n \<noteq> 0" by auto
    obtain p bc2 where p: "GetBlock E (ParentHash (bheader b)) (n - 1) bc = (Some p, bc2)"
      "blk_at (bview E bc) (ParentHash (bheader b)) (n - 1) p" "reads_only E bc bc2" "base_ok E hv tv nv bv g bc2"
      using GetBlock_parent [OF assms(1) less.prems(1,2) n0] by blast
    have v2: "bview E bc2 = bview E bc" using p(3) by (simp add: reads_only_def)
    have "m \<le> n - 1" using mn n0 word_minus_one_le(1) by blast
    from less.hyps [OF word_minus_one_le(2) [OF n0] p(4), unfolded v2, OF p(2) this, of "acc @ [b]"]
    obtain l b' h' bc' where l: "reorg_new E m (Some p) (acc @ [b]) bc2 = Some (Some b', (acc @ [b]) @ l, bc')" "reads_only E bc2 bc'"
      "base_ok E hv tv nv bv g bc'" "chain_down (bview E bc) (ParentHash (bheader b)) (n - 1) l h' m" "blk_at (bview E bc) h' m b'"
      by blast
    have e: "reorg_new E m (Some b) acc bc = Some (Some b', acc @ (b # l), bc')"
      using l(1) bn False p(1) by (simp add: reorg_new.simps [of _ _ "Some b"])
    have d: "chain_down (bview E bc) h n (b # l) h' m" using l(4) less.prems(2) n0 by simp
    show ?thesis using e d l(2,3,5) reads_only_trans [OF p(3)] by (intro exI [of _ "b # l"]) auto
  qed
qed

lemma reorg_meet_ok:
  assumes "env_ok E hv tv nv bv" "base_ok E hv tv nv bv g bc" "blk_at (bview E bc) h n b" "blk_at (bview E bc) h' n b'"
  shows "\<exists>l l' k m bc'. reorg_meet E b b' acc acc' bc = Some (Inr (acc @ l, acc' @ l'), bc') \<and> reads_only E bc bc'
    \<and> base_ok E hv tv nv bv g bc' \<and> chain_down (bview E bc) h n l k m \<and> chain_down (bview E bc) h' n l' k m
    \<and> (h \<noteq> h' \<longrightarrow> l \<noteq> [] \<and> hd l = b \<and> l' \<noteq> [] \<and> hd l' = b') \<and> (h = h' \<longrightarrow> l = [] \<and> l' = [])"
  using assms(2-4)
proof (induction "unat n" arbitrary: n h b h' b' acc acc' bc rule: less_induct)
  case less
  have st: "stored_ok (be_hc E) g (bview E bc)" using less.prems(1) by (simp add: base_ok_def)
  have bn: "bnum b = Some n" "bnum b' = Some n" using blk_number [OF st] less.prems(2,3) by blast+
  have bh: "blk_hash E b = h" "blk_hash E b' = h'" using blk_hashes [OF st] less.prems(2,3) by blast+
  show ?case
  proof (cases "h = h'")
    case True
    then show ?thesis using bh less.prems by (intro exI [of _ "[]"]) (auto simp: reorg_meet.simps)
  next
    case False
    have n0: "n \<noteq> 0"
    proof
      assume "n = 0"
      then show False using stored_header(7) [OF st] less.prems(2,3) False unfolding blk_at_def by metis
    qed
    let ?bc1 = "snd (collectLogs E h True bc)"
    have 1: "reads_only E bc ?bc1" "base_ok E hv tv nv bv g ?bc1" using collectLogs_ok [OF assms(1) less.prems(1)] by simp_all
    then have v1: "bview E ?bc1 = bview E bc" by (simp add: reads_only_def)
    obtain p bc2 where p: "GetBlock E (ParentHash (bheader b)) (n - 1) ?bc1 = (Some p, bc2)"
      "blk_at (bview E bc) (ParentHash (bheader b)) (n - 1) p" "reads_only E ?bc1 bc2" "base_ok E hv tv nv bv g bc2"
      using GetBlock_parent [OF assms(1) 1(2), unfolded v1, OF less.prems(2) n0] by blast
    have v2: "bview E bc2 = bview E bc" using p(3) v1 by (simp add: reads_only_def)
    obtain p' bc3 where p': "GetBlock E (ParentHash (bheader b')) (n - 1) bc2 = (Some p', bc3)"
      "blk_at (bview E bc) (ParentHash (bheader b')) (n - 1) p'" "reads_only E bc2 bc3" "base_ok E hv tv nv bv g bc3"
      using GetBlock_parent [OF assms(1) p(4), unfolded v2, OF less.prems(3) n0] by blast
    have v3: "bview E bc3 = bview E bc" using p'(3) v2 by (simp add: reads_only_def)
    have r3: "reads_only E bc bc3" using 1(1) p(3) p'(3) reads_only_trans by blast
    from less.hyps [OF word_minus_one_le(2) [OF n0] p'(4), unfolded v3, OF p(2) p'(2), of "acc @ [b]" "acc' @ [b']"]
    obtain l l' k m bc' where l: "reorg_meet E p p' (acc @ [b]) (acc' @ [b']) bc3 = Some (Inr ((acc @ [b]) @ l, (acc' @ [b']) @ l'), bc')"
      "reads_only E bc3 bc'" "base_ok E hv tv nv bv g bc'" "chain_down (bview E bc) (ParentHash (bheader b)) (n - 1) l k m"
      "chain_down (bview E bc) (ParentHash (bheader b')) (n - 1) l' k m"
      by blast
    have e: "reorg_meet E b b' acc acc' bc = Some (Inr (acc @ (b # l), acc' @ (b' # l')), bc')"
      using l(1) bn bh False p(1) p'(1) by (simp add: reorg_meet.simps [of _ b])
    have d: "chain_down (bview E bc) h n (b # l) k m" "chain_down (bview E bc) h' n (b' # l') k m"
      using l(4,5) less.prems(2,3) n0 by simp_all
    show ?thesis using e d l(3) reads_only_trans [OF r3 l(2)] False by (intro exI [of _ "b # l"] exI [of _ "b' # l'"]) auto
  qed
qed

end
