(* ===== verification/Block_Write.thy ===== *)
theory Block_Write
  imports Block_Inv
begin

text \<open>
  What a reorganisation and \<open>writeBlockWithState\<close> (\<open>core/blockchain.go\<close>) do to the store: the invariant of \<open>Block_Inv\<close> is kept, and
  the new head, the canonical numbers and the transaction lookups are determined.
\<close>

section \<open>Updates that leave the tree of blocks\<close>

definition tree_eq :: "chain_view \<Rightarrow> chain_view \<Rightarrow> bool" where
  "tree_eq V V' \<longleftrightarrow> vw_header V' = vw_header V \<and> vw_body V' = vw_body V \<and> vw_td V' = vw_td V \<and> vw_number V' = vw_number V"

lemma tree_eq_stored: "tree_eq V V' \<Longrightarrow> stored_ok E g V' = stored_ok E g V"
  and tree_eq_bodies: "tree_eq V V' \<Longrightarrow> bodies_ok V' = bodies_ok V"
  and tree_eq_blk: "tree_eq V V' \<Longrightarrow> blk_at V' h n b = blk_at V h n b"
  by (simp_all add: tree_eq_def stored_ok_def bodies_ok_def blk_at_def)

lemma tree_eq_trans: "tree_eq V V' \<Longrightarrow> tree_eq V' V'' \<Longrightarrow> tree_eq V V''"
  by (simp add: tree_eq_def)

lemma tree_eq_down: "tree_eq V V' \<Longrightarrow> chain_down V' h n bs k m = chain_down V h n bs k m"
  by (induction bs arbitrary: h n) (simp_all add: tree_eq_blk)

lemma base_ok_tree:
  assumes "base_ok E hv tv nv bv g bc" "db_open (bc_db bc')" "tree_eq (bview E bc) (bview E bc')" "blockCache bc' = blockCache bc"
    "headerCache (bc_hc bc') = headerCache (bc_hc bc)" "tdCache (bc_hc bc') = tdCache (bc_hc bc)"
    "numberCache (bc_hc bc') = numberCache (bc_hc bc)"
  shows "base_ok E hv tv nv bv g bc'"
proof -
  have v: "vw_header (bview E bc') = vw_header (bview E bc)" "vw_td (bview E bc') = vw_td (bview E bc)"
    "vw_number (bview E bc') = vw_number (bview E bc)" using assms(3) by (simp_all add: tree_eq_def)
  have c: "caches_ok hv tv nv (bview E bc') (bc_hc bc') = caches_ok hv tv nv (bview E bc) (bc_hc bc)"
    by (simp only: caches_ok_def v assms(5-7))
  have b: "bcache_ok bv (bview E bc') bc' = bcache_ok bv (bview E bc) bc"
    by (simp only: bcache_ok_def tree_eq_blk [OF assms(3)] assms(4))
  show ?thesis using assms(1,2)
    by (simp only: base_ok_def c b tree_eq_stored [OF assms(3)] tree_eq_bodies [OF assms(3)])
qed

section \<open>A new head\<close>

text \<open>All three heads are the block.\<close>

definition headed :: "block \<Rightarrow> ('s, 'c) blockChain \<Rightarrow> bool" where
  "headed b bc \<longleftrightarrow> currentBlock bc = Some (Some b) \<and> currentFastBlock bc = Some (Some b)
     \<and> currentHeader (bc_hc bc) = Some (bheader b)"

lemma bc_insert_ok:
  assumes "base_ok E hv tv nv bv g bc" "blk_at (bview E bc) h n b"
  shows "\<exists>bc' hh hf. bc_insert E b bc = Some bc' \<and> base_ok E hv tv nv bv g bc'
    \<and> bview E bc' = (bview E bc)\<lparr>vw_canon := (vw_canon (bview E bc))(n := h), vw_headBlock := h, vw_headHeader := hh, vw_headFast := hf\<rparr>
    \<and> currentBlock bc' = Some (Some b) \<and> genesisBlock bc' = genesisBlock bc \<and> bc_events bc' = bc_events bc
    \<and> (vw_canon (bview E bc) n \<noteq> h \<or> headed b bc \<longrightarrow> headed b bc')"
proof -
  let ?V = "bview E bc"
  have st: "stored_ok (be_hc E) g ?V" and o: "db_open (bc_db bc)" using assms(1) by (simp_all add: base_ok_def)
  have bn: "bnum b = Some n" by (rule blk_number [OF st assms(2)])
  have bh: "blk_hash E b = h" by (rule blk_hashes [OF st assms(2)])
  have hx: "vw_header ?V (h, n) = Some (bheader b)" using assms(2) by (simp add: blk_at_def)
  have "Number (bheader b) \<noteq> None" "Difficulty (bheader b) \<noteq> None" using stored_header(3,4) [OF st hx] by simp_all
  then have bH: "block_Header b = bheader b" by (simp add: block_Header_def CopyHeader_id)
  have hh: "hdr_hash (be_hc E) (bheader b) = h" by (rule stored_header(1) [OF st hx])
  obtain db1 where db1: "WriteCanonicalHash db_writer (bc_db bc) h n = Some db1" "db_open db1"
    "db_view (cdc E) db1 = ?V\<lparr>vw_canon := (vw_canon ?V)(n := h)\<rparr>"
    using dbw.WriteCanonicalHash_view [OF o, of "cdc E" h n] by (auto simp: dbw.writes_view_def)
  obtain db2 where db2: "WriteHeadBlockHash db_writer db1 h = Some db2" "db_open db2"
    "db_view (cdc E) db2 = ?V\<lparr>vw_canon := (vw_canon ?V)(n := h), vw_headBlock := h\<rparr>"
    using dbw.WriteHeadBlockHash_view [OF db1(2), of "cdc E" h] by (auto simp: dbw.writes_view_def db1(3))
  let ?bc1 = "(set_db db2 bc)\<lparr>currentBlock := Some (Some b)\<rparr>"
  show ?thesis
  proof (cases "vw_canon ?V n = h")
    case True
    have i: "bc_insert E b bc = Some ?bc1"
      using True bn bh db1(1) db2(1) by (simp add: bc_insert_def reads_view [where cc = "cdc E"])
    have v: "bview E ?bc1 = ?V\<lparr>vw_canon := (vw_canon ?V)(n := h), vw_headBlock := h, vw_headHeader := vw_headHeader ?V,
        vw_headFast := vw_headFast ?V\<rparr>"
      by (simp add: db2(3))
    have "base_ok E hv tv nv bv g ?bc1"
      by (rule base_ok_tree [OF assms(1)]) (simp_all add: db2 tree_eq_def set_db_def)
    then show ?thesis using i v True
      by (intro exI [of _ ?bc1] exI [of _ "vw_headHeader ?V"] exI [of _ "vw_headFast ?V"]) (simp add: headed_def)
  next
    case False
    obtain db3 where db3: "WriteHeadHeaderHash db_writer db2 h = Some db3" "db_open db3"
      "db_view (cdc E) db3 = ?V\<lparr>vw_canon := (vw_canon ?V)(n := h), vw_headBlock := h, vw_headHeader := h\<rparr>"
      using dbw.WriteHeadHeaderHash_view [OF db2(2), of "cdc E" h] by (auto simp: dbw.writes_view_def db2(3))
    obtain db4 where db4: "WriteHeadFastBlockHash db_writer db3 h = Some db4" "db_open db4"
      "db_view (cdc E) db4 = ?V\<lparr>vw_canon := (vw_canon ?V)(n := h), vw_headBlock := h, vw_headHeader := h, vw_headFast := h\<rparr>"
      using dbw.WriteHeadFastBlockHash_view [OF db3(2), of "cdc E" h] by (auto simp: dbw.writes_view_def db3(3))
    let ?bc' = "?bc1\<lparr>bc_hc := (bc_hc ?bc1)\<lparr>chainDb := db4, currentHeader := Some (bheader b), currentHeaderHash := h\<rparr>,
      currentFastBlock := Some (Some b)\<rparr>"
    have i: "bc_insert E b bc = Some ?bc'"
      using False bn bh bH hh db1(1) db2(1) db3(1) db4(1)
      by (simp add: bc_insert_def reads_view [where cc = "cdc E"] SetCurrentHeader_def set_db_def)
    have "base_ok E hv tv nv bv g ?bc'"
      by (rule base_ok_tree [OF assms(1)]) (simp_all add: db4 tree_eq_def set_db_def)
    then show ?thesis using i db4(3)
      by (intro exI [of _ ?bc'] exI [of _ h]) (simp add: headed_def)
  qed
qed

section \<open>New blocks become canonical\<close>

definition canon_with :: "('s, 't, 'c) bc_env \<Rightarrow> block list \<Rightarrow> (u64 \<Rightarrow> hash) \<Rightarrow> u64 \<Rightarrow> hash" where
  "canon_with E bs c = fold (\<lambda>b c. c(num_of (bheader b) := blk_hash E b)) bs c"

abbreviation tx_hash :: "('s, 't, 'c) bc_env \<Rightarrow> transaction \<Rightarrow> hash" where
  "tx_hash E \<equiv> de_txhash (cc_derive (cdc E))"

definition lookups_with :: "('s, 't, 'c) bc_env \<Rightarrow> block list \<Rightarrow> (hash \<Rightarrow> hash) \<Rightarrow> hash \<Rightarrow> hash" where
  "lookups_with E bs t = fold (\<lambda>b t. fold (\<lambda>tx t. t(tx_hash E tx := blk_hash E b)) (transactions b) t) bs t"

lemma fold_lookup:
  "fold (\<lambda>tx v. v\<lparr>vw_lookup := (vw_lookup v)(f tx := bh)\<rparr>) txs V = V\<lparr>vw_lookup := fold (\<lambda>tx t. t(f tx := bh)) txs (vw_lookup V)\<rparr>"
  by (induction txs arbitrary: V) simp_all

text \<open>A header is numbered as it is stored.\<close>

lemma blk_num_of: "stored_ok E g V \<Longrightarrow> blk_at V h n b \<Longrightarrow> num_of (bheader b) = n"
  using stored_header(3) unfolding blk_at_def num_of_def by fastforce

lemma reorg_insert_ok:
  assumes "env_ok E hv tv nv bv" "base_ok E hv tv nv bv g bc" "\<forall>b \<in> set bs. \<exists>h n. blk_at (bview E bc) h n b"
  shows "\<exists>bc' hb hh hf. reorg_insert E bs bc = Some bc' \<and> base_ok E hv tv nv bv g bc'
    \<and> bview E bc' = (bview E bc)\<lparr>vw_canon := canon_with E bs (vw_canon (bview E bc)),
        vw_lookup := lookups_with E bs (vw_lookup (bview E bc)), vw_headBlock := hb, vw_headHeader := hh, vw_headFast := hf\<rparr>
    \<and> genesisBlock bc' = genesisBlock bc \<and> bc_events bc' = bc_events bc
    \<and> (bs \<noteq> [] \<and> canon_with E (butlast bs) (vw_canon (bview E bc)) (num_of (bheader (last bs))) \<noteq> blk_hash E (last bs)
         \<longrightarrow> headed (last bs) bc')
    \<and> (bs = [] \<longrightarrow> bc' = bc)"
  using assms(2,3)
proof (induction bs arbitrary: bc)
  case Nil
  then show ?case
    by (intro exI [of _ bc] exI [of _ "vw_headBlock (bview E bc)"] exI [of _ "vw_headHeader (bview E bc)"]
        exI [of _ "vw_headFast (bview E bc)"]) (simp add: canon_with_def lookups_with_def)
next
  case (Cons b bs)
  let ?V = "bview E bc"
  obtain h n where b: "blk_at ?V h n b" using Cons.prems(2) by auto
  have st: "stored_ok (be_hc E) g ?V" using Cons.prems(1) by (simp add: base_ok_def)
  have bh: "blk_hash E b = h" by (rule blk_hashes [OF st b])
  have bn: "num_of (bheader b) = n" by (rule blk_num_of [OF st b])
  obtain bc1 hh hf where 1: "bc_insert E b bc = Some bc1" "base_ok E hv tv nv bv g bc1"
    "bview E bc1 = ?V\<lparr>vw_canon := (vw_canon ?V)(n := h), vw_headBlock := h, vw_headHeader := hh, vw_headFast := hf\<rparr>"
    "genesisBlock bc1 = genesisBlock bc" "bc_events bc1 = bc_events bc" "vw_canon ?V n \<noteq> h \<longrightarrow> headed b bc1"
    using bc_insert_ok [OF Cons.prems(1) b] by blast
  define bc2 where "bc2 = (if bs \<noteq> [] then snd (collectLogs E (blk_hash E b) False bc1) else bc1)"
  have 2: "reads_only E bc1 bc2" "base_ok E hv tv nv bv g bc2"
    using collectLogs_ok [OF assms(1) 1(2), of "blk_hash E b" False] 1(2) by (simp_all add: bc2_def)
  have o2: "db_open (bc_db bc2)" using 2(2) by (simp add: base_ok_def)
  obtain mdb where mdb: "WriteTxLookupEntries (cdc E) db_writer (bc_db bc2) b = Some mdb" "db_open mdb"
    "db_view (cdc E) mdb = (bview E bc2)\<lparr>vw_lookup := fold (\<lambda>tx t. t(tx_hash E tx := blk_hash E b)) (transactions b) (vw_lookup (bview E bc2))\<rparr>"
    using dbw.WriteTxLookup_view [OF o2, of "cdc E" "blk_hash E b" "transactions b"]
    by (auto simp: dbw.writes_view_def WriteTxLookupEntries_def fold_lookup)
  let ?bc3 = "set_db mdb bc2"
  have v3: "bview E ?bc3 = ?V\<lparr>vw_canon := (vw_canon ?V)(n := h), vw_headBlock := h, vw_headHeader := hh, vw_headFast := hf,
      vw_lookup := fold (\<lambda>tx t. t(tx_hash E tx := blk_hash E b)) (transactions b) (vw_lookup ?V)\<rparr>"
    using 2(1) mdb(3) by (simp add: reads_only_def 1(3))
  have t3: "tree_eq ?V (bview E ?bc3)" unfolding v3 by (simp add: tree_eq_def)
  have "tree_eq (bview E bc2) (bview E ?bc3)" using mdb(3) by (simp add: tree_eq_def)
  then have b3: "base_ok E hv tv nv bv g ?bc3"
    by (intro base_ok_tree [OF 2(2)]) (simp_all add: mdb(2) set_db_def)
  have in3: "\<forall>x \<in> set bs. \<exists>h n. blk_at (bview E ?bc3) h n x"
    using Cons.prems(2) unfolding tree_eq_blk [OF t3] by simp
  have e: "reorg_insert E (b # bs) bc = reorg_insert E bs ?bc3" using 1(1) mdb(1) by (simp add: bc2_def)
  obtain bc' hb' hh' hf' where c: "reorg_insert E bs ?bc3 = Some bc'" "base_ok E hv tv nv bv g bc'"
    "bview E bc' = (bview E ?bc3)\<lparr>vw_canon := canon_with E bs (vw_canon (bview E ?bc3)),
        vw_lookup := lookups_with E bs (vw_lookup (bview E ?bc3)), vw_headBlock := hb', vw_headHeader := hh', vw_headFast := hf'\<rparr>"
    "genesisBlock bc' = genesisBlock ?bc3" "bc_events bc' = bc_events ?bc3"
    "bs \<noteq> [] \<and> canon_with E (butlast bs) (vw_canon (bview E ?bc3)) (num_of (bheader (last bs))) \<noteq> blk_hash E (last bs)
         \<longrightarrow> headed (last bs) bc'" "bs = [] \<longrightarrow> bc' = ?bc3"
    using Cons.IH [OF b3 in3] by blast
  have v: "bview E bc' = ?V\<lparr>vw_canon := canon_with E (b # bs) (vw_canon ?V),
        vw_lookup := lookups_with E (b # bs) (vw_lookup ?V), vw_headBlock := hb', vw_headHeader := hh', vw_headFast := hf'\<rparr>"
    unfolding c(3) v3 by (simp add: canon_with_def lookups_with_def bn bh)
  have s: "genesisBlock bc' = genesisBlock bc" "bc_events bc' = bc_events bc"
    using c(4,5) 1(4,5) 2(1) by (simp_all add: reads_only_def)
  have hd: "headed (last (b # bs)) bc'"
    if a: "canon_with E (butlast (b # bs)) (vw_canon ?V) (num_of (bheader (last (b # bs)))) \<noteq> blk_hash E (last (b # bs))"
  proof (cases "bs = []")
    case True
    then have "headed b bc1" using a 1(6) by (simp add: canon_with_def bn bh)
    then show ?thesis using True c(7) 2(1) by (simp add: headed_def reads_only_def)
  next
    case False
    have "vw_canon (bview E ?bc3) = (vw_canon ?V)(n := h)" unfolding v3 by simp
    then show ?thesis using c(6) a False by (simp add: canon_with_def bn bh)
  qed
  show ?case using c(1,2) v s hd e
    by (intro exI [of _ bc'] exI [of _ hb'] exI [of _ hh'] exI [of _ hf']) simp
qed

section \<open>The canonical path after a reorganisation\<close>

lemma path_to_canon: "path_to (V\<lparr>vw_canon := c\<rparr>) m \<longleftrightarrow>
    (\<forall>i \<le> m. \<exists>x. vw_header V (c i, i) = Some x \<and> (i \<noteq> 0 \<longrightarrow> ParentHash x = c (i - 1)))"
  by (simp add: path_to_def)

text \<open>A stored ancestor of a canonical block is canonical.\<close>

lemma canonical_down:
  assumes "chain_down V h n l k m" "vw_canon V n = h" "path_to V n"
  shows "vw_canon V m = k \<and> path_to V m"
  using assms
proof (induction l arbitrary: h n)
  case (Cons b l)
  then have b: "blk_at V h n b" "n \<noteq> 0" "chain_down V (ParentHash (bheader b)) (n - 1) l k m" by simp_all
  obtain x where "vw_header V (vw_canon V n, n) = Some x" "ParentHash x = vw_canon V (n - 1)"
    using Cons.prems(3) b(2) unfolding path_to_def by blast
  then have "vw_canon V (n - 1) = ParentHash (bheader b)" using b(1) Cons.prems(2) by (simp add: blk_at_def)
  moreover have "path_to V (n - 1)"
    using Cons.prems(3) word_minus_one_le(1) [OF b(2)] unfolding path_to_def by (meson less_imp_le)
  ultimately show ?case using Cons.IH [OF b(3)] by blast
qed simp

text \<open>The numbers of the new blocks are set; the others stay.\<close>

lemma canon_with_chain:
  assumes "stored_ok (be_hc E) g V" "chain_down V h n l k m" "c m = k" "path_to (V\<lparr>vw_canon := c\<rparr>) m"
  shows "canon_with E (rev l) c n = h \<and> path_to (V\<lparr>vw_canon := canon_with E (rev l) c\<rparr>) n
    \<and> (\<forall>i. i \<le> m \<or> n < i \<longrightarrow> canon_with E (rev l) c i = c i)"
  using assms(2)
proof (induction l arbitrary: h n)
  case Nil
  then show ?case using assms(3,4) by (simp add: canon_with_def)
next
  case (Cons b l)
  then have b: "blk_at V h n b" "n \<noteq> 0" "chain_down V (ParentHash (bheader b)) (n - 1) l k m" by simp_all
  let ?c = "canon_with E (rev l) c"
  have IH: "?c (n - 1) = ParentHash (bheader b)" "path_to (V\<lparr>vw_canon := ?c\<rparr>) (n - 1)"
    "\<forall>i. i \<le> m \<or> n - 1 < i \<longrightarrow> ?c i = c i"
    using Cons.IH [OF b(3)] by simp_all
  have e: "canon_with E (rev (b # l)) c = ?c(n := h)"
    using blk_hashes [OF assms(1) b(1)] blk_num_of [OF assms(1) b(1)] by (simp add: canon_with_def)
  have lt: "i \<le> n \<longleftrightarrow> i = n \<or> i \<le> n - 1" for i
    unfolding word_minus_one_le(1) [OF b(2)] le_less [of i n] by blast
  have ne: "i \<noteq> n" "i \<noteq> 0 \<longrightarrow> i - 1 \<noteq> n" if "i \<le> n - 1" for i
  proof -
    have l: "i < n" using that word_minus_one_le(1) [OF b(2)] by blast
    then show "i \<noteq> n" by simp
    have "i - 1 < i" if "i \<noteq> 0" using word_minus_one_le(1) [OF that, of "i - 1"] by simp
    then show "i \<noteq> 0 \<longrightarrow> i - 1 \<noteq> n" using less_trans [OF _ l] less_imp_neq by blast
  qed
  have hx: "vw_header V (h, n) = Some (bheader b)" using b(1) by (simp add: blk_at_def)
  have "path_to (V\<lparr>vw_canon := ?c(n := h)\<rparr>) n"
    unfolding path_to_canon lt
  proof (intro allI impI)
    fix i assume "i = n \<or> i \<le> n - 1"
    then show "\<exists>x. vw_header V ((?c(n := h)) i, i) = Some x \<and> (i \<noteq> 0 \<longrightarrow> ParentHash x = (?c(n := h)) (i - 1))"
    proof
      assume "i = n"
      then show ?thesis using hx IH(1) b(2) by simp
    next
      assume i: "i \<le> n - 1"
      then show ?thesis using IH(2) ne [OF i] unfolding path_to_canon by simp
    qed
  qed
  moreover have "(?c(n := h)) i = c i" if "i \<le> m \<or> n < i" for i
  proof -
    have m1: "m \<le> n - 1" by (rule chain_down_le [OF b(3)])
    have n1: "n - 1 < n" using word_minus_one_le(1) [OF b(2), of "n - 1"] by simp
    have "i \<noteq> n"
    proof
      assume "i = n"
      then have "n \<le> n - 1" using that m1 order_trans by blast
      then show False using n1 leD by blast
    qed
    moreover have "i \<le> m \<or> n - 1 < i" using that less_trans [OF n1] by blast
    then have "?c i = c i" using IH(3) by blast
    ultimately show ?thesis by simp
  qed
  ultimately show ?case unfolding e using fun_upd_same [of ?c n h] by blast
qed

section \<open>Reorganisation\<close>

lemma delete_lookups_view:
  "cview cc (batch_at m (fold (\<lambda>tx b. DeleteTxLookupEntry batch_writer b (f tx)) txs ba))
    = (cview cc (batch_at m ba))\<lparr>vw_lookup := (\<lambda>h. if h \<in> f ` set txs then 0 else vw_lookup (cview cc (batch_at m ba)) h)\<rparr>"
proof (induction txs arbitrary: ba)
  case (Cons tx txs)
  have "cview cc (batch_at m (DeleteTxLookupEntry batch_writer ba (f tx)))
      = (cview cc (batch_at m ba))\<lparr>vw_lookup := (vw_lookup (cview cc (batch_at m ba)))(f tx := 0)\<rparr>"
    using batchw.DeleteTxLookupEntry_view [where m = m and w = ba and cc = cc and h = "f tx"] by (simp add: batchw.writes_view_def)
  then show ?case using Cons.IH [of "DeleteTxLookupEntry batch_writer ba (f tx)"] by (simp add: fun_eq_iff)
qed simp

lemma TxDifference_set: "set (TxDifference f a b) = {tx \<in> set a. f tx \<notin> f ` set b}"
proof -
  have "fold (\<lambda>tx r. insert (f tx) r) b S = f ` set b \<union> S" for S by (induction b arbitrary: S) auto
  then show ?thesis by (simp add: TxDifference_def)
qed

text \<open>Of the hashes of the transactions of a list of blocks.\<close>

definition txs_of :: "('s, 't, 'c) bc_env \<Rightarrow> block list \<Rightarrow> hash set" where
  "txs_of E bs = (\<Union>b \<in> set bs. tx_hash E ` set (transactions b))"

lemma chain_down_in: "chain_down V h n l k m \<Longrightarrow> b \<in> set l \<Longrightarrow> \<exists>h n. blk_at V h n b"
  by (induction l arbitrary: h n) auto

lemma feed_fold: "fold (\<lambda>b. feed (f b)) bs bc = bc\<lparr>bc_events := bc_events bc @ map f bs\<rparr>"
  by (induction bs arbitrary: bc) (simp_all add: feed_def)

definition reorg_view ::
  "('s, 't, 'c) bc_env \<Rightarrow> block list \<Rightarrow> block list \<Rightarrow> chain_view \<Rightarrow> chain_view \<Rightarrow> bool" where
  "reorg_view E l l' V V' \<longleftrightarrow> tree_eq V V' \<and> vw_receipts V' = vw_receipts V \<and> vw_canon V' = canon_with E (rev l') (vw_canon V)
     \<and> vw_lookup V' = (\<lambda>t. if t \<in> txs_of E l - txs_of E l' then 0 else lookups_with E (rev l') (vw_lookup V) t)"

lemma reorg_ok:
  assumes "env_ok E hv tv nv bv" "base_ok E hv tv nv bv g bc" "blk_at (bview E bc) h n old" "blk_at (bview E bc) h' n' new"
  shows "\<exists>bc' l l' k m. reorg E old new bc = Some (None, bc') \<and> base_ok E hv tv nv bv g bc'
    \<and> chain_down (bview E bc) h n l k m \<and> chain_down (bview E bc) h' n' l' k m \<and> reorg_view E l l' (bview E bc) (bview E bc')
    \<and> bc_events bc' = bc_events bc @ map ChainSideEvent l \<and> genesisBlock bc' = genesisBlock bc
    \<and> (l' = [] \<longrightarrow> currentBlock bc' = currentBlock bc)
    \<and> (l' \<noteq> [] \<longrightarrow> hd l' = new \<and> (canon_with E (butlast (rev l')) (vw_canon (bview E bc)) n' \<noteq> h' \<longrightarrow> headed new bc'))"
proof -
  let ?V = "bview E bc"
  have st: "stored_ok (be_hc E) g ?V" using assms(2) by (simp add: base_ok_def)
  have bn: "bnum old = Some n" "bnum new = Some n'" using blk_number [OF st] assms(3,4) by blast+
  define R where "R = (\<lambda>old2 new2 oc nc bc2. do { (r, bc3) \<leftarrow> reorg_meet E old2 new2 oc nc bc2;
       case r of
         Inl e \<Rightarrow> Some (Some e, bc3)
       | Inr (oldChain, newChain) \<Rightarrow>
           do { bc4 \<leftarrow> reorg_insert E (rev newChain) bc3;
                db \<leftarrow> batch_Write (fold (\<lambda>tx b. DeleteTxLookupEntry batch_writer b (tx_hash E tx))
                  (TxDifference (tx_hash E) (concat (map transactions oldChain)) (concat (map transactions (rev newChain)))) NewBatch) (bc_db bc4);
                Some (None, fold (\<lambda>b. feed (ChainSideEvent b)) oldChain (set_db db bc4)) } })"
  text \<open>Both chains are brought to the same number.\<close>
  have "\<exists>old2 new2 oc nc k2 k2' m2 bc2. reorg E old new bc = R old2 new2 oc nc bc2
      \<and> reads_only E bc bc2 \<and> base_ok E hv tv nv bv g bc2 \<and> chain_down ?V h n oc k2 m2 \<and> chain_down ?V h' n' nc k2' m2
      \<and> blk_at ?V k2 m2 old2 \<and> blk_at ?V k2' m2 new2 \<and> (nc = [] \<longrightarrow> new2 = new) \<and> (nc \<noteq> [] \<longrightarrow> hd nc = new)"
  proof (cases "n > n'")
    case True
    obtain l b' h2 bc2 where 1: "reorg_old E n' (Some old) [] bc = Some (Some b', l, bc2)" "reads_only E bc bc2"
      "base_ok E hv tv nv bv g bc2" "chain_down ?V h n l h2 n'" "blk_at ?V h2 n' b'"
      using reorg_old_ok [OF assms(1-3) less_imp_le [OF True], of "[]"] by auto
    then have "reorg E old new bc = R b' new l [] bc2" using True unfolding reorg_def R_def Let_def by (simp add: bn)
    then show ?thesis using 1 assms(4)
      by (intro exI [of _ b'] exI [of _ new] exI [of _ l] exI [of _ "[]"] exI [of _ h2] exI [of _ h'] exI [of _ n'] exI [of _ bc2]) simp
  next
    case False
    then have le: "n \<le> n'" by simp
    obtain l b' h2 bc2 where 1: "reorg_new E n (Some new) [] bc = Some (Some b', l, bc2)" "reads_only E bc bc2"
      "base_ok E hv tv nv bv g bc2" "chain_down ?V h' n' l h2 n" "blk_at ?V h2 n b'" "l = [] \<longrightarrow> b' = new" "l \<noteq> [] \<longrightarrow> hd l = new"
      using reorg_new_ok [OF assms(1,2,4) le, of "[]"] by auto
    then have "reorg E old new bc = R old b' [] l bc2" using False unfolding reorg_def R_def Let_def by (simp add: bn)
    then show ?thesis using 1 assms(3)
      by (intro exI [of _ old] exI [of _ b'] exI [of _ "[]"] exI [of _ l] exI [of _ h] exI [of _ h2] exI [of _ n] exI [of _ bc2]) simp
  qed
  then obtain old2 new2 oc nc k2 k2' m2 bc2 where 2: "reorg E old new bc = R old2 new2 oc nc bc2"
      "reads_only E bc bc2" "base_ok E hv tv nv bv g bc2" "chain_down ?V h n oc k2 m2" "chain_down ?V h' n' nc k2' m2"
      "blk_at ?V k2 m2 old2" "blk_at ?V k2' m2 new2" "nc = [] \<longrightarrow> new2 = new" "nc \<noteq> [] \<longrightarrow> hd nc = new"
    by blast
  have v2: "bview E bc2 = ?V" using 2(2) by (simp add: reads_only_def)
  obtain l l' k m bc3 where 3: "reorg_meet E old2 new2 oc nc bc2 = Some (Inr (oc @ l, nc @ l'), bc3)" "reads_only E bc2 bc3"
    "base_ok E hv tv nv bv g bc3" "chain_down ?V k2 m2 l k m" "chain_down ?V k2' m2 l' k m" "k2 \<noteq> k2' \<longrightarrow> hd l' = new2" "k2 = k2' \<longrightarrow> l' = []"
    using reorg_meet_ok [OF assms(1) 2(3), unfolded v2, OF 2(6,7), of oc nc] by metis
  have v3: "bview E bc3 = ?V" using 3(2) v2 by (simp add: reads_only_def)
  define ol nl where "ol = oc @ l" and "nl = nc @ l'"
  have d: "chain_down ?V h n ol k m" "chain_down ?V h' n' nl k m"
    unfolding ol_def nl_def chain_down_append using 2(4,5) 3(4,5) by blast+
  have nl: "nl \<noteq> [] \<longrightarrow> hd nl = new"
    using 2(8,9) 3(6,7) by (cases nc; cases "k2 = k2'") (simp_all add: nl_def)
  have inV: "\<forall>b \<in> set (rev nl). \<exists>h n. blk_at (bview E bc3) h n b" using chain_down_in [OF d(2)] unfolding v3 by simp
  obtain bc4 hb hh hf where 4: "reorg_insert E (rev nl) bc3 = Some bc4" "base_ok E hv tv nv bv g bc4"
    "bview E bc4 = ?V\<lparr>vw_canon := canon_with E (rev nl) (vw_canon ?V), vw_lookup := lookups_with E (rev nl) (vw_lookup ?V),
       vw_headBlock := hb, vw_headHeader := hh, vw_headFast := hf\<rparr>"
    "genesisBlock bc4 = genesisBlock bc3" "bc_events bc4 = bc_events bc3"
    "rev nl \<noteq> [] \<and> canon_with E (butlast (rev nl)) (vw_canon ?V) (num_of (bheader (last (rev nl)))) \<noteq> blk_hash E (last (rev nl))
         \<longrightarrow> headed (last (rev nl)) bc4" "rev nl = [] \<longrightarrow> bc4 = bc3"
    using reorg_insert_ok [OF assms(1) 3(3) inV, unfolded v3] by blast
  obtain mdb where mdb: "bc_db bc4 = Some mdb" using 4(2) by (auto simp: base_ok_def db_open_def)
  define ba where "ba = fold (\<lambda>tx b. DeleteTxLookupEntry batch_writer b (tx_hash E tx))
    (TxDifference (tx_hash E) (concat (map transactions ol)) (concat (map transactions (rev nl)))) NewBatch"
  obtain m1 where m1: "batch_Write ba (Some mdb) = Some (Some m1)" "db_at (Some m1) = batch_at mdb ba" using batch_Write_at by blast
  let ?bc' = "(set_db (Some m1) bc4)\<lparr>bc_events := bc_events bc4 @ map ChainSideEvent ol\<rparr>"
  have r: "reorg E old new bc = Some (None, ?bc')"
    using 2(1) 3(1) 4(1) m1(1) by (simp add: R_def ol_def [symmetric] nl_def [symmetric] ba_def [symmetric] mdb feed_fold)
  have tx: "tx_hash E ` set (TxDifference (tx_hash E) (concat (map transactions ol)) (concat (map transactions (rev nl))))
      = txs_of E ol - txs_of E nl"
    by (auto simp: TxDifference_set txs_of_def)
  have v': "bview E ?bc' = (bview E bc4)\<lparr>vw_lookup := (\<lambda>t. if t \<in> txs_of E ol - txs_of E nl then 0 else vw_lookup (bview E bc4) t)\<rparr>"
    unfolding ba_def
    by (simp add: m1(2) ba_def delete_lookups_view tx mdb batch_at_new cong: if_cong)
  have rv: "reorg_view E ol nl ?V (bview E ?bc')" unfolding v' 4(3) by (simp add: reorg_view_def tree_eq_def cong: if_cong)
  have t: "tree_eq (bview E bc4) (bview E ?bc')" unfolding v' by (simp add: tree_eq_def)
  have "base_ok E hv tv nv bv g ?bc'"
    by (rule base_ok_tree [OF 4(2) _ t]) (simp_all add: db_open_def set_db_def)
  moreover have "nl = [] \<longrightarrow> currentBlock ?bc' = currentBlock bc" using 4(7) 3(2) 2(2) by (simp add: reads_only_def)
  moreover have "headed new ?bc'" if "nl \<noteq> []" "canon_with E (butlast (rev nl)) (vw_canon ?V) n' \<noteq> h'"
  proof -
    have ln: "last (rev nl) = new" using nl that(1) by (simp add: last_rev)
    have "num_of (bheader new) = n'" "blk_hash E new = h'" using blk_num_of [OF st assms(4)] blk_hashes [OF st assms(4)] by simp_all
    then have "headed new bc4" using 4(6) that ln by simp
    then show ?thesis by (simp add: headed_def)
  qed
  moreover have "bc_events ?bc' = bc_events bc @ map ChainSideEvent ol" "genesisBlock ?bc' = genesisBlock bc"
    using 4(4,5) 3(2) 2(2) by (simp_all add: reads_only_def)
  ultimately show ?thesis using r d rv nl by blast
qed

section \<open>A block is stored\<close>

definition block_fits :: "('s, 't, 'c) bc_env \<Rightarrow> hash \<Rightarrow> chain_view \<Rightarrow> block \<Rightarrow> bool" where
  "block_fits E g V b \<longleftrightarrow> header_fits (be_hc E) g V (bheader b) \<and> storable b
     \<and> (\<forall>n bd. vw_body V (blk_hash E b, n) = Some bd \<longrightarrow> bd = block_Body b)"

definition with_block :: "('s, 't, 'c) bc_env \<Rightarrow> block \<Rightarrow> bigint \<Rightarrow> chain_view \<Rightarrow> chain_view" where
  "with_block E b d V = (with_header (be_hc E) (bheader b) d V)
     \<lparr>vw_body := (vw_body V)((blk_hash E b, num_of (bheader b)) \<mapsto> block_Body b)\<rparr>"

lemma stored_ok_body [simp]: "stored_ok E g (V\<lparr>vw_body := x\<rparr>) = stored_ok E g V"
  by (simp add: stored_ok_def)

lemma with_block_blk: "blk_at (with_block E b d V) (blk_hash E b) (num_of (bheader b)) b"
  by (simp add: blk_at_def with_block_def block_hash_def)

lemma with_block_mono:
  assumes "stored_ok (be_hc E) g V" "block_fits E g V b" "vw_td V (ParentHash (bheader b), num_of (bheader b) - 1) = Some pd"
  defines "V' \<equiv> with_block E b (the (Difficulty (bheader b)) + pd) V"
  shows "vw_header V k = Some y \<Longrightarrow> vw_header V' k = Some y" "vw_td V k = Some d \<Longrightarrow> vw_td V' k = Some d"
    "vw_number V h = Some n \<Longrightarrow> vw_number V' h = Some n" "blk_at V h n b' \<Longrightarrow> blk_at V' h n b'"
proof -
  have f: "header_fits (be_hc E) g V (bheader b)" using assms(2) by (simp add: block_fits_def)
  note m = with_header_mono [OF assms(1) f assms(3)]
  show h: "vw_header V k = Some y \<Longrightarrow> vw_header V' k = Some y" "vw_td V k = Some d \<Longrightarrow> vw_td V' k = Some d"
    "vw_number V h = Some n \<Longrightarrow> vw_number V' h = Some n" for k y d h n
    using m by (simp_all add: V'_def with_block_def)
  show "blk_at V h n b' \<Longrightarrow> blk_at V' h n b'"
    using h(1) assms(2) unfolding blk_at_def by (auto simp: V'_def with_block_def block_fits_def)
qed

lemma store_block_ok:
  assumes "env_ok E hv tv nv bv" "base_ok E hv tv nv bv g bc" "block_fits E g (bview E bc) b"
    "vw_td (bview E bc) (ParentHash (bheader b), num_of (bheader b) - 1) = Some pd"
  defines "d \<equiv> the (Difficulty (bheader b)) + pd"
  shows "\<exists>bc'. WriteBlockWithoutState E b d bc = Some bc' \<and> base_ok E hv tv nv bv g bc' \<and> bview E bc' = with_block E b d (bview E bc)
    \<and> currentBlock bc' = currentBlock bc \<and> currentFastBlock bc' = currentFastBlock bc \<and> genesisBlock bc' = genesisBlock bc
    \<and> currentHeader (bc_hc bc') = currentHeader (bc_hc bc) \<and> bc_events bc' = bc_events bc"
proof -
  let ?V = "bview E bc" and ?x = "bheader b" and ?h = "blk_hash E b" and ?n = "num_of (bheader b)"
  have i: "db_open (bc_db bc)" "stored_ok (be_hc E) g ?V" "bodies_ok ?V" "caches_ok hv tv nv ?V (bc_hc bc)" "bcache_ok bv ?V bc"
    using assms(2) by (simp_all add: base_ok_def)
  have L: "lru_ok (tdLru (be_hc E)) tv" and cc: "codec_ok (cdc E)" using assms(1) by (simp_all add: env_ok_def lrus_ok_def)
  have f: "header_fits (be_hc E) g ?V ?x" and sb: "storable b" using assms(3) by (simp_all add: block_fits_def)
  note hn = header_fits_number [OF f]
  have hh: "hdr_hash (be_hc E) ?x = ?h" by (simp add: block_hash_def)
  have d0: "0 \<le> d" using stored_td [OF i(2) assms(4)] f by (auto simp: d_def header_fits_def header_encodable_def)
  obtain db1 where db1: "WriteTd (cdc E) db_writer (bc_db bc) ?h ?n d = Some db1" "db_open db1"
    "db_view (cdc E) db1 = ?V\<lparr>vw_td := (vw_td ?V)((?h, ?n) \<mapsto> d)\<rparr>"
    using dbw.WriteTd_view [OF i(1) cc d0, of ?h ?n] by (auto simp: dbw.writes_view_def)
  obtain db2 where db2: "WriteBlock (cdc E) db_writer db1 b = Some db2" "db_open db2" "db_view (cdc E) db2 = with_block E b d ?V"
    using WriteBlock_stores [OF cc sb db1(2)] by (auto simp: db1(3) with_block_def with_header_def hh)
  let ?hc = "(bc_hc bc)\<lparr>chainDb := db2, tdCache := lru_Add (tdLru (be_hc E)) (tdCache (bc_hc bc)) ?h d\<rparr>"
  let ?bc' = "bc\<lparr>bc_hc := ?hc\<rparr>"
  have w: "WriteBlockWithoutState E b d bc = Some ?bc'"
    using hn db1(1) db2(1) by (simp add: WriteBlockWithoutState_def hc_WriteTd_def)
  note mono = with_block_mono [OF i(2) assms(3,4), folded d_def]
  have st: "stored_ok (be_hc E) g (with_block E b d ?V)"
    using with_header_stored [OF i(2) f assms(4)] by (simp add: with_block_def d_def)
  have us: "map CopyHeader (uncles b) = uncles b" using sb copied_uncles by (simp add: storable_def)
  have bo: "bodies_ok (with_block E b d ?V)" using i(3) us
    unfolding bodies_ok_def by (auto simp: with_block_def with_header_def block_Body_def hh split: if_splits)
  have m: "caches_ok hv tv nv (with_block E b d ?V) (bc_hc bc)"
    using caches_ok_mono [OF i(4)] mono(1-3) by blast
  have new: "vw_td (with_block E b d ?V) (?h, ?n) = Some d" by (simp add: with_block_def with_header_def hh)
  have "\<forall>h e. tv (lru_Add (tdLru (be_hc E)) (tdCache (bc_hc bc)) ?h d) h = Some e \<longrightarrow> (\<exists>n. vw_td (with_block E b d ?V) (h, n) = Some e)"
    by (rule lru_Add_all [OF L]) (use m new in \<open>auto simp: caches_ok_def\<close>)
  then have c: "caches_ok hv tv nv (with_block E b d ?V) ?hc" using m by (simp add: caches_ok_def)
  have "bcache_ok bv (with_block E b d ?V) ?bc'" using i(5) mono(4) unfolding bcache_ok_def by fastforce
  then have "base_ok E hv tv nv bv g ?bc'" using db2(2,3) st bo c by (simp add: base_ok_def)
  then show ?thesis using w db2(3) by (intro exI [of _ ?bc']) simp
qed

section \<open>The tries are persisted\<close>

text \<open>Every canonical number, also a stale one above the head, names a stored header of that number.\<close>

definition canon_tidy :: "chain_view \<Rightarrow> bool" where
  "canon_tidy V \<longleftrightarrow> (\<forall>n. vw_canon V n \<noteq> 0 \<longrightarrow> vw_number V (vw_canon V n) = Some n)"

lemma base_ok_trie:
  "base_ok E hv tv nv bv g (bc\<lparr>triegc := q, bc_store := s\<rparr>) = base_ok E hv tv nv bv g bc"
  "reads_only E bc (bc\<lparr>triegc := q, bc_store := s\<rparr>)" "reads_only E bc (bc\<lparr>bc_store := s\<rparr>)" "reads_only E bc (bc\<lparr>triegc := q\<rparr>)"
  "base_ok E hv tv nv bv g (bc\<lparr>bc_store := s\<rparr>) = base_ok E hv tv nv bv g bc"
  "base_ok E hv tv nv bv g (bc\<lparr>triegc := q\<rparr>) = base_ok E hv tv nv bv g bc"
  "base_ok E hv tv nv bv g (bc\<lparr>bc_store := s, triegc := q\<rparr>) = base_ok E hv tv nv bv g bc"
  "reads_only E bc (bc\<lparr>bc_store := s, triegc := q\<rparr>)"
  by (simp_all add: base_ok_def bcache_ok_def reads_only_def)

lemma gc_tries_ok:
  assumes "base_ok E hv tv nv bv g bc"
  shows "\<exists>bc'. gc_tries E chosen bc = Some bc' \<and> reads_only E bc bc' \<and> base_ok E hv tv nv bv g bc'"
  using assms
proof (induction "length (triegc bc)" arbitrary: bc rule: less_induct)
  case less
  show ?case
  proof (cases "triegc bc = []")
    case True
    then show ?thesis using less.prems by (simp add: gc_tries.simps [of E chosen bc] pq_Empty_def)
  next
    case False
    then have "heap_pop sstack_Less (triegc bc) \<noteq> None" by (simp add: heap_pop_None_iff)
    then obtain it q where p: "heap_pop sstack_Less (triegc bc) = Some (it, q)" by (cases "heap_pop sstack_Less (triegc bc)") auto
    have l: "length q < length (triegc bc)" using heap_pop_cases [OF p] False by (cases "triegc bc") auto
    let ?bc1 = "bc\<lparr>triegc := q, bc_store := ts_Dereference (be_store E) (bc_store bc) (pq_value it)\<rparr>"
    show ?thesis
    proof (cases "- pq_priority it > chosen")
      case True
      then show ?thesis using less.prems False p
        by (intro exI [of _ "bc\<lparr>triegc := pq_Push (pq_value it) (pq_priority it) q\<rparr>"])
          (simp add: gc_tries.simps [of E chosen bc] pq_Empty_def pq_Pop_def base_ok_trie)
    next
      case F: False
      have e: "gc_tries E chosen bc = gc_tries E chosen ?bc1"
        using False p F by (simp add: gc_tries.simps [of E chosen bc] pq_Empty_def pq_Pop_def)
      have "length (triegc ?bc1) < length (triegc bc)" "base_ok E hv tv nv bv g ?bc1" using l less.prems by (simp_all add: base_ok_trie)
      from less.hyps [OF this] obtain bc' where "gc_tries E chosen ?bc1 = Some bc'" "reads_only E ?bc1 bc'" "base_ok E hv tv nv bv g bc'" by blast
      then show ?thesis using e reads_only_trans [OF base_ok_trie(2)] by auto
    qed
  qed
qed

lemma store_ok_Commit:
  assumes "store_ok cc S" "db_open mdb" "ts_Commit S s mdb r = (ok, s', mdb')"
  shows "db_open mdb' \<and> db_view cc mdb' = db_view cc mdb"
  using assms(1) [unfolded store_ok_def, THEN conjunct1, rule_format, OF assms(2), of s r] by (simp add: assms(3))

lemma store_ok_Cap:
  assumes "store_ok cc S" "db_open mdb" "ts_Cap S s mdb l = (s', mdb')"
  shows "db_open mdb' \<and> db_view cc mdb' = db_view cc mdb"
  using assms(1) [unfolded store_ok_def, THEN conjunct2, rule_format, OF assms(2), of s l] by (simp add: assms(3))

lemma store_db_ok:
  assumes "base_ok E hv tv nv bv g bc" "db_open mdb" "db_view (cdc E) mdb = bview E bc"
  shows "base_ok E hv tv nv bv g (set_db mdb bc) \<and> reads_only E bc (set_db mdb bc)"
  using assms by (auto simp: base_ok_def bcache_ok_def reads_only_def)

lemma flush_chosen_ok:
  assumes "env_ok E hv tv nv bv" "base_ok E hv tv nv bv g bc" "canon_tidy (bview E bc)"
  shows "reads_only E bc (flush_chosen E chosen bc) \<and> base_ok E hv tv nv bv g (flush_chosen E chosen bc)"
proof -
  obtain r bc1 where r: "on_hc (hc_GetHeaderByNumber (be_hc E) chosen) bc = (r, bc1)" by fastforce
  have 1: "reads_only E bc bc1" "base_ok E hv tv nv bv g bc1"
    using bc_GetHeaderByNumber_ok [OF assms(1,2) r] assms(3) unfolding canon_tidy_def by auto
  have "reads_only E bc bc2 \<and> base_ok E hv tv nv bv g bc2"
    if c: "ts_Commit (be_store E) (bc_store bc1) (bc_db bc1) root = (ok, s, mdb)"
      "bc2 = (set_db mdb bc1)\<lparr>bc_store := s, lastWrite := chosen, gcproc := 0\<rparr>" for root ok s mdb bc2
  proof -
    have o: "db_open (bc_db bc1)" using 1(2) by (simp add: base_ok_def)
    have "store_ok (cdc E) (be_store E)" using assms(1) by (simp add: env_ok_def)
    from store_ok_Commit [OF this o c(1)] have "db_open mdb" "db_view (cdc E) mdb = bview E bc1" by simp_all
    from store_db_ok [OF 1(2) this] reads_only_trans [OF 1(1)] show ?thesis unfolding c(2)
      by (auto simp: base_ok_def bcache_ok_def reads_only_def)
  qed
  then show ?thesis using 1 assms(2) r by (auto simp: flush_chosen_def split: option.split prod.split)
qed

lemma persist_trie_ok:
  assumes "env_ok E hv tv nv bv" "base_ok E hv tv nv bv g bc" "canon_tidy (bview E bc)"
  shows "\<exists>ok bc'. persist_trie E root n bc = Some (ok, bc') \<and> reads_only E bc bc' \<and> base_ok E hv tv nv bv g bc'"
proof (cases "TrieDirtyDisabled (be_config E)")
  case True
  obtain ok s mdb where c: "ts_Commit (be_store E) (bc_store bc) (bc_db bc) root = (ok, s, mdb)" using prod_cases3 by blast
  have o: "db_open (bc_db bc)" using assms(2) by (simp add: base_ok_def)
  have "store_ok (cdc E) (be_store E)" using assms(1) by (simp add: env_ok_def)
  from store_ok_Commit [OF this o c] have "db_open mdb" "db_view (cdc E) mdb = bview E bc" by simp_all
  from store_db_ok [OF assms(2) this] show ?thesis using True c
    by (simp add: persist_trie_def base_ok_trie) (simp add: reads_only_def)
next
  case False
  let ?bc1 = "bc\<lparr>bc_store := ts_Reference (be_store E) (bc_store bc) root, triegc := pq_Push root (- n) (triegc bc)\<rparr>"
  have 1: "reads_only E bc ?bc1" "base_ok E hv tv nv bv g ?bc1" using assms(2) by (simp_all add: base_ok_trie)
  obtain nodes imgs where sz: "ts_Size (be_store E) (bc_store ?bc1) = (nodes, imgs)" by fastforce
  define limit where "limit = TrieDirtyLimit (be_config E) * 1024 * 1024"
  obtain s mdb where c: "ts_Cap (be_store E) (bc_store ?bc1) (bc_db ?bc1) (limit - IdealBatchSize) = (s, mdb)" by fastforce
  define bc2 where "bc2 = (if nodes > limit \<or> imgs > 4 * 1024 * 1024 then (set_db mdb ?bc1)\<lparr>bc_store := s\<rparr> else ?bc1)"
  have o: "db_open (bc_db ?bc1)" using 1(2) by (simp add: base_ok_def)
  have "store_ok (cdc E) (be_store E)" using assms(1) by (simp add: env_ok_def)
  from store_ok_Cap [OF this o c] have "db_open mdb" "db_view (cdc E) mdb = bview E ?bc1" by simp_all
  from store_db_ok [OF 1(2) this] have 2: "reads_only E bc bc2" "base_ok E hv tv nv bv g bc2"
    using 1 by (auto simp: bc2_def base_ok_trie reads_only_def)
  have "canon_tidy (bview E bc2)" using assms(3) 2(1) by (simp add: reads_only_def)
  from flush_chosen_ok [OF assms(1) 2(2) this, of "n - triesInMemory"]
  have 3: "reads_only E bc (flush_chosen E (n - triesInMemory) bc2)" "base_ok E hv tv nv bv g (flush_chosen E (n - triesInMemory) bc2)"
    using reads_only_trans [OF 2(1)] by simp_all
  from gc_tries_ok [OF 3(2), of "n - triesInMemory"] obtain bc3 where 4: "gc_tries E (n - triesInMemory) (flush_chosen E (n - triesInMemory) bc2) = Some bc3"
    "reads_only E bc bc3" "base_ok E hv tv nv bv g bc3"
    using reads_only_trans [OF 3(1)] by blast
  have e: "retain_trie E root n bc = (if n > triesInMemory then Some bc3 else Some ?bc1)"
    using sz c 4(1) unfolding retain_trie_def bc2_def limit_def Let_def by (auto split: if_splits)
  show ?thesis using False 1 4(2,3) unfolding persist_trie_def e by auto
qed

end
