(* ===== verification/Block_Rewind.thy ===== *)
theory Block_Rewind
  imports Block_Chain
begin

text \<open>
  The rest of \<open>core/blockchain.go\<close>: starting from a database, rewinding, resetting, fast synchronisation, export.

  \<open>SetHead\<close>, \<open>loadLastState\<close>, \<open>Reset\<close> and \<open>ResetWithGenesisBlock\<close> call each other in a circle: the argument \<open>depth\<close> bounds the nesting.
\<close>

definition store_err :: "('s, 't, 'c) bc_env \<Rightarrow> hash \<Rightarrow> ('s, 'c) blockChain \<Rightarrow> bool" where
  "store_err E root bc = (case state_New (ts_env (be_store E) (bc_store bc)) root of Inl _ \<Rightarrow> True | Inr _ \<Rightarrow> False)"

text \<open>Back to a block with a state. An error leaves the block where the parents ended.\<close>

partial_function (option) repair ::
  "('s, 't, 'c) bc_env \<Rightarrow> block \<Rightarrow> ('s, 'c) blockChain \<Rightarrow> ((chain_error option \<times> block) \<times> ('s, 'c) blockChain) option" where
  "repair E b bc =
     (if \<not> store_err E (Root (bheader b)) bc then Some ((None, b), bc)
      else case bnum b of
             None \<Rightarrow> None
           | Some n \<Rightarrow>
               (case GetBlock E (ParentHash (bheader b)) (n - 1) bc of
                  (None, bc1) \<Rightarrow> Some ((Some errMissingBlock, b), bc1)
                | (Some p, bc1) \<Rightarrow> repair E p bc1))"

text \<open>\<open>loadLastState\<close>; \<open>rst\<close> is \<open>Reset\<close>. The difficulties are read for the status log, through the cache.\<close>

definition load_heads :: "('s, 't, 'c) bc_env \<Rightarrow> block \<Rightarrow> ('s, 'c) blockChain \<Rightarrow> ('s, 'c) blockChain option" where
  "load_heads E b bc =
     do { let bc1 = bc\<lparr>currentBlock := Some (Some b)\<rparr>;
          let headH = ReadHeadHeaderHash (bc_db bc1);
          let (x', bc2) = (if headH \<noteq> 0 then on_hc (hc_GetHeaderByHash (be_hc E) headH) bc1 else (None, bc1));
          let x = (case x' of None \<Rightarrow> block_Header b | Some x \<Rightarrow> x);
          hc \<leftarrow> SetCurrentHeader (be_hc E) x (bc_hc bc2);
          let bc3 = bc2\<lparr>bc_hc := hc, currentFastBlock := Some (Some b)\<rparr>;
          let headF = ReadHeadFastBlockHash (bc_db bc3);
          let (f', bc4) = (if headF \<noteq> 0 then GetBlockByHash E headF bc3 else (None, bc3));
          let f = (case f' of None \<Rightarrow> b | Some f \<Rightarrow> f);
          let bc5 = bc4\<lparr>currentFastBlock := Some (Some f)\<rparr>;
          xn \<leftarrow> Uint64 (Number x);
          let (_, bc6) = bc_GetTd E (hdr_hash (be_hc E) x) xn bc5;
          bn \<leftarrow> bnum b;
          let (_, bc7) = bc_GetTd E (blk_hash E b) bn bc6;
          fn \<leftarrow> bnum f;
          let (_, bc8) = bc_GetTd E (blk_hash E f) fn bc7;
          Some bc8 }"

definition loadLastState ::
  "('s, 't, 'c) bc_env \<Rightarrow> (('s, 'c) blockChain \<Rightarrow> (chain_error option \<times> ('s, 'c) blockChain) option) \<Rightarrow> ('s, 'c) blockChain \<Rightarrow>
     (chain_error option \<times> ('s, 'c) blockChain) option" where
  "loadLastState E rst bc =
     (let head = ReadHeadBlockHash (bc_db bc) in
      if head = 0 then rst bc
      else case GetBlockByHash E head bc of
             (None, bc1) \<Rightarrow> rst bc1
           | (Some b, bc1) \<Rightarrow>
               do { ((err, b1), bc2) \<leftarrow> (if store_err E (Root (bheader b)) bc1 then repair E b bc1 else Some ((None, b), bc1));
                    case err of
                      Some e \<Rightarrow> Some (Some e, bc2)
                    | None \<Rightarrow> map_option (Pair None) (load_heads E b1 bc2) })"

text \<open>\<open>SetHead\<close> before it loads the state again. A head that is now nil, or was rewound past its state, is the genesis block.\<close>

definition purge_caches :: "('s, 't, 'c) bc_env \<Rightarrow> ('s, 'c) blockChain \<Rightarrow> ('s, 'c) blockChain" where
  "purge_caches E bc =
     bc\<lparr>bodyCache := lru_Purge (bodyLru E) (bodyCache bc), bodyRLPCache := lru_Purge (bodyRLPLru E) (bodyRLPCache bc),
        receiptsCache := lru_Purge (receiptsLru E) (receiptsCache bc), blockCache := lru_Purge (blockLru E) (blockCache bc),
        futureBlocks := lru_Purge (blockLru E) (futureBlocks bc)\<rparr>"

definition rewound_head ::
  "('s, 't, 'c) bc_env \<Rightarrow> header \<Rightarrow> block option \<Rightarrow> ('s, 'c) blockChain \<Rightarrow> (block option \<times> ('s, 'c) blockChain) option" where
  "rewound_head E x cur bc =
     (case cur of
        None \<Rightarrow> Some (None, bc)
      | Some b \<Rightarrow>
          do { xn \<leftarrow> Uint64 (Number x);
               bn \<leftarrow> bnum b;
               Some (if xn < bn then GetBlock E (hdr_hash (be_hc E) x) xn bc else (Some b, bc)) })"

definition rewind_blocks :: "('s, 't, 'c) bc_env \<Rightarrow> u64 \<Rightarrow> ('s, 'c) blockChain \<Rightarrow> ('s, 'c) blockChain option" where
  "rewind_blocks E head bc =
     do { hc \<leftarrow> hc_SetHead (be_hc E) head (Some (DeleteBody batch_writer)) (bc_hc bc);
          x \<leftarrow> currentHeader hc;
          let bc1 = purge_caches E (bc\<lparr>bc_hc := hc\<rparr>);
          cur \<leftarrow> currentBlock bc1;
          (cur1, bc2) \<leftarrow> rewound_head E x cur bc1;
          let cur2 = (case cur1 of
                        None \<Rightarrow> None
                      | Some b \<Rightarrow> if store_err E (Root (bheader b)) bc2 then genesisBlock bc2 else Some b);
          fast \<leftarrow> currentFastBlock bc2;
          (fast1, bc3) \<leftarrow> rewound_head E x fast bc2;
          let cur3 = (case cur2 of None \<Rightarrow> genesisBlock bc3 | Some b \<Rightarrow> Some b);
          let fast2 = (case fast1 of None \<Rightarrow> genesisBlock bc3 | Some b \<Rightarrow> Some b);
          b \<leftarrow> cur3;
          f \<leftarrow> fast2;
          db1 \<leftarrow> WriteHeadBlockHash db_writer (bc_db bc3) (blk_hash E b);
          db2 \<leftarrow> WriteHeadFastBlockHash db_writer db1 (blk_hash E f);
          Some ((set_db db2 bc3)\<lparr>currentBlock := Some cur3, currentFastBlock := Some fast2\<rparr>) }"

definition reset_genesis :: "('s, 't, 'c) bc_env \<Rightarrow> block option \<Rightarrow> ('s, 'c) blockChain \<Rightarrow> ('s, 'c) blockChain option" where
  "reset_genesis E genesis bc =
     do { g \<leftarrow> genesis;
          n \<leftarrow> bnum g;
          d \<leftarrow> Difficulty (bheader g);
          hc \<leftarrow> hc_WriteTd (be_hc E) (blk_hash E g) n d (bc_hc bc);
          db \<leftarrow> WriteBlock (cdc E) db_writer (chainDb hc) g;
          bc1 \<leftarrow> bc_insert E g (bc\<lparr>bc_hc := hc\<lparr>chainDb := db\<rparr>, genesisBlock := Some g\<rparr>);
          hc2 \<leftarrow> SetCurrentHeader (be_hc E) (block_Header g) (SetGenesis (block_Header g) (bc_hc bc1));
          Some (bc1\<lparr>bc_hc := hc2, currentBlock := Some (Some g), currentFastBlock := Some (Some g)\<rparr>) }"

fun bc_SetHead :: "nat \<Rightarrow> ('s, 't, 'c) bc_env \<Rightarrow> u64 \<Rightarrow> ('s, 'c) blockChain \<Rightarrow> (chain_error option \<times> ('s, 'c) blockChain) option"
  and ResetWithGenesisBlock ::
    "nat \<Rightarrow> ('s, 't, 'c) bc_env \<Rightarrow> block option \<Rightarrow> ('s, 'c) blockChain \<Rightarrow> (chain_error option \<times> ('s, 'c) blockChain) option" where
  "bc_SetHead 0 E head bc = None"
| "bc_SetHead (Suc depth) E head bc =
     (case rewind_blocks E head bc of
        None \<Rightarrow> None
      | Some bc1 \<Rightarrow> loadLastState E (\<lambda>bc. ResetWithGenesisBlock depth E (genesisBlock bc) bc) bc1)"
| "ResetWithGenesisBlock 0 E genesis bc = None"
| "ResetWithGenesisBlock (Suc depth) E genesis bc =
     (case bc_SetHead depth E 0 bc of
        None \<Rightarrow> None
      | Some (Some e, bc1) \<Rightarrow> Some (Some e, bc1)
      | Some (None, bc1) \<Rightarrow> map_option (Pair None) (reset_genesis E genesis bc1))"

definition bc_Reset :: "nat \<Rightarrow> ('s, 't, 'c) bc_env \<Rightarrow> ('s, 'c) blockChain \<Rightarrow> (chain_error option \<times> ('s, 'c) blockChain) option" where
  "bc_Reset depth E bc = ResetWithGenesisBlock depth E (genesisBlock bc) bc"

text \<open>\<open>NewBlockChain\<close>: \<open>c0\<close> is a new cache, \<open>s0\<close> the store of tries over the database.\<close>

definition NewBlockChain ::
  "nat \<Rightarrow> ('s, 't, 'c) bc_env \<Rightarrow> 'c \<Rightarrow> 's \<Rightarrow> memdb \<Rightarrow> (chain_error + ('s, 'c) blockChain) option" where
  "NewBlockChain depth E c0 s0 db =
     (case NewHeaderChain (be_hc E) c0 db of
        Inl e \<Rightarrow> Some (Inl e)
      | Inr hc \<Rightarrow>
          (let bc = \<lparr>bc_hc = hc, bc_store = s0, triegc = pq_New, gcproc = 0, lastWrite = 0, genesisBlock = None, currentBlock = None,
                     currentFastBlock = None, bodyCache = c0, bodyRLPCache = c0, receiptsCache = c0, blockCache = c0,
                     futureBlocks = c0, badBlocks = c0, bc_running = False, procInterrupt = False, bc_tosses = 0, bc_events = []\<rparr> in
           case GetBlockByNumber E 0 bc of
             (None, _) \<Rightarrow> Some (Inl ErrNoGenesis)
           | (Some g, bc1) \<Rightarrow>
               do { (err, bc2) \<leftarrow> loadLastState E (bc_Reset depth E) (bc1\<lparr>genesisBlock := Some g\<rparr>);
                    Some (case err of Some e \<Rightarrow> Inl e | None \<Rightarrow> Inr bc2) }))"

text \<open>\<open>Stop\<close> and \<open>Start\<close>: the flag \<open>running\<close> is 1 when the chain is stopped.\<close>

definition bc_Stop :: "('s, 'c) blockChain \<Rightarrow> ('s, 'c) blockChain" where
  "bc_Stop bc = (if bc_running bc then bc else bc\<lparr>bc_running := True, procInterrupt := True\<rparr>)"

definition bc_Start :: "('s, 'c) blockChain \<Rightarrow> ('s, 'c) blockChain" where
  "bc_Start bc = (if bc_running bc then bc\<lparr>bc_running := False, procInterrupt := False\<rparr> else bc)"

definition FastSyncCommitHead ::
  "('s, 't, 'c) bc_env \<Rightarrow> hash \<Rightarrow> ('s, 'c) blockChain \<Rightarrow> chain_error option \<times> ('s, 'c) blockChain" where
  "FastSyncCommitHead E h bc =
     (case GetBlockByHash E h bc of
        (None, bc1) \<Rightarrow> (Some errMissingBlock, bc1)
      | (Some b, bc1) \<Rightarrow>
          if \<not> HasState E (Root (bheader b)) bc1 then (Some errStateMissing, bc1)
          else (None, bc1\<lparr>currentBlock := Some (Some b)\<rparr>))"

text \<open>\<open>ExportN\<close>, over a writer \<open>enc\<close> that may fail. The number wraps around after the greatest one.\<close>

partial_function (option) export_loop ::
  "('s, 't, 'c) bc_env \<Rightarrow> (block \<Rightarrow> 'w \<Rightarrow> bool \<times> 'w) \<Rightarrow> u64 \<Rightarrow> u64 \<Rightarrow> 'w \<Rightarrow> ('s, 'c) blockChain \<Rightarrow>
     (bool \<times> 'w \<times> ('s, 'c) blockChain) option" where
  "export_loop E enc nr m w bc =
     (if nr \<le> m then
        (case GetBlockByNumber E nr bc of
           (None, bc1) \<Rightarrow> Some (False, w, bc1)
         | (Some b, bc1) \<Rightarrow>
             (case enc b w of
                (ok, w1) \<Rightarrow> if ok then export_loop E enc (nr + 1) m w1 bc1 else Some (False, w1, bc1)))
      else Some (True, w, bc))"

definition ExportN ::
  "('s, 't, 'c) bc_env \<Rightarrow> (block \<Rightarrow> 'w \<Rightarrow> bool \<times> 'w) \<Rightarrow> u64 \<Rightarrow> u64 \<Rightarrow> 'w \<Rightarrow> ('s, 'c) blockChain \<Rightarrow> (bool \<times> 'w \<times> ('s, 'c) blockChain) option" where
  "ExportN E enc fst_nr m w bc = (if fst_nr > m then Some (False, w, bc) else export_loop E enc fst_nr m w bc)"

section \<open>Fast synchronisation\<close>

text \<open>The links of the chain are undone from the last one; the new heads are the parents, which must be there.\<close>

definition rollback_one :: "('s, 't, 'c) bc_env \<Rightarrow> hash \<Rightarrow> ('s, 'c) blockChain \<Rightarrow> ('s, 'c) blockChain option" where
  "rollback_one E h bc =
     do { x \<leftarrow> currentHeader (bc_hc bc);
          bc1 \<leftarrow> (if hdr_hash (be_hc E) x = h then
                    do { n \<leftarrow> Uint64 (Number x);
                         let (p, bc1) = bc_GetHeader E (ParentHash x) (n - 1) bc;
                         p1 \<leftarrow> p;
                         hc \<leftarrow> SetCurrentHeader (be_hc E) p1 (bc_hc bc1);
                         Some (bc1\<lparr>bc_hc := hc\<rparr>) }
                  else Some bc);
          fast' \<leftarrow> currentFastBlock bc1;
          fast \<leftarrow> fast';
          bc3 \<leftarrow> (if blk_hash E fast = h then
                    do { n \<leftarrow> bnum fast;
                         let (p, bc2) = GetBlock E (ParentHash (bheader fast)) (n - 1) bc1;
                         p1 \<leftarrow> p;
                         db \<leftarrow> WriteHeadFastBlockHash db_writer (bc_db bc2) (blk_hash E p1);
                         Some ((set_db db bc2)\<lparr>currentFastBlock := Some p\<rparr>) }
                  else Some bc1);
          cur' \<leftarrow> currentBlock bc3;
          cur \<leftarrow> cur';
          if blk_hash E cur = h then
            do { n \<leftarrow> bnum cur;
                 let (p, bc4) = GetBlock E (ParentHash (bheader cur)) (n - 1) bc3;
                 p1 \<leftarrow> p;
                 db \<leftarrow> WriteHeadBlockHash db_writer (bc_db bc4) (blk_hash E p1);
                 Some ((set_db db bc4)\<lparr>currentBlock := Some p\<rparr>) }
          else Some bc3 }"

definition Rollback :: "('s, 't, 'c) bc_env \<Rightarrow> hash list \<Rightarrow> ('s, 'c) blockChain \<Rightarrow> ('s, 'c) blockChain option" where
  "Rollback E chain bc = fold (\<lambda>h r. Option.bind r (rollback_one E h)) (rev chain) (Some bc)"

text \<open>The loop of \<open>InsertReceiptChain\<close>: an early return, or the batch that is left to write.\<close>

fun receipts_loop ::
  "('s, 't, 'c) bc_env \<Rightarrow> nat \<Rightarrow> block list \<Rightarrow> receipt list list \<Rightarrow> batch \<Rightarrow> ('s, 'c) blockChain \<Rightarrow>
     (((nat \<times> chain_error option) + batch) \<times> ('s, 'c) blockChain) option" where
  "receipts_loop E i [] rss ba bc = Some (Inr ba, bc)"
| "receipts_loop E i (b # bs) [] ba bc = None"
| "receipts_loop E i (b # bs) (rs # rss) ba bc =
     (case bnum b of
        None \<Rightarrow> None
      | Some n \<Rightarrow>
          if procInterrupt bc then Some (Inl (0, None), bc)
          else if \<not> hc_HasHeader (be_hc E) (blk_hash E b) n (bc_hc bc) then Some (Inl (i, Some errMissingBlock), bc)
          else if HasBlock E (blk_hash E b) n bc then receipts_loop E (i + 1) bs rss ba bc
          else case DeriveFields (cc_derive (cdc E)) (blk_hash E b) n (transactions b) rs of
                 None \<Rightarrow> Some (Inl (i, Some errReceiptRoot), bc)
               | Some rs1 \<Rightarrow>
                   (case do { ba1 \<leftarrow> WriteBody (cdc E) batch_writer ba (blk_hash E b) n (block_Body b);
                              ba2 \<leftarrow> WriteReceipts (cdc E) batch_writer ba1 (blk_hash E b) n rs1;
                              WriteTxLookupEntries (cdc E) batch_writer ba2 b } of
                      None \<Rightarrow> None
                    | Some ba3 \<Rightarrow>
                        if batch_size ba3 \<ge> IdealBatchSize then
                          (case batch_Write ba3 (bc_db bc) of
                             None \<Rightarrow> None
                           | Some mdb \<Rightarrow> receipts_loop E (i + 1) bs rss (batch_Reset ba3) (set_db mdb bc))
                        else receipts_loop E (i + 1) bs rss ba3 bc))"

fun linked_blocks :: "('s, 't, 'c) bc_env \<Rightarrow> block list \<Rightarrow> bool option" where
  "linked_blocks E (a # b # bs) =
     do { bn \<leftarrow> bnum b;
          an \<leftarrow> bnum a;
          if bn \<noteq> an + 1 \<or> ParentHash (bheader b) \<noteq> blk_hash E a then Some False else linked_blocks E (b # bs) }"
| "linked_blocks E _ = Some True"

definition InsertReceiptChain ::
  "('s, 't, 'c) bc_env \<Rightarrow> block list \<Rightarrow> receipt list list \<Rightarrow> ('s, 'c) blockChain \<Rightarrow>
     ((nat \<times> chain_error option) \<times> ('s, 'c) blockChain) option" where
  "InsertReceiptChain E chain rss bc =
     do { ordered \<leftarrow> linked_blocks E chain;
          if \<not> ordered then Some ((0, Some errNonContiguous), bc)
          else
            do { (r, bc1) \<leftarrow> receipts_loop E 0 chain rss NewBatch bc;
                 case r of
                   Inl q \<Rightarrow> Some (q, bc1)
                 | Inr ba \<Rightarrow>
                     do { db \<leftarrow> (if batch_size ba > 0 then batch_Write ba (bc_db bc1) else Some (bc_db bc1));
                          let bc2 = set_db db bc1;
                          head \<leftarrow> (if chain = [] then None else Some (last chain));
                          hn \<leftarrow> bnum head;
                          case bc_GetTd E (blk_hash E head) hn bc2 of
                            (None, bc3) \<Rightarrow> Some ((0, None), bc3)
                          | (Some d, bc3) \<Rightarrow>
                              do { fast' \<leftarrow> currentFastBlock bc3;
                                   fast \<leftarrow> fast';
                                   fn \<leftarrow> bnum fast;
                                   let (fd', bc4) = bc_GetTd E (blk_hash E fast) fn bc3;
                                   fd \<leftarrow> fd';
                                   if fd < d then
                                     do { db \<leftarrow> WriteHeadFastBlockHash db_writer (bc_db bc4) (blk_hash E head);
                                          Some ((0, None), (set_db db bc4)\<lparr>currentFastBlock := Some (Some head)\<rparr>) }
                                   else Some ((0, None), bc4) } } } }"

end
