(* ===== verification/Block_Rules.thy ===== *)
theory Block_Rules
  imports Block_Write Block_Rewind
begin

text \<open>
  Properties of writing blocks (\<open>core/blockchain.go\<close>): every write leaves a stored head block, of a total difficulty no less than
  that of any block whose write succeeded, with its ancestors as the canonical blocks up to its number; the lookups of transactions follow a
  reorganisation; the canonical numbers above a new head stay.
\<close>

section \<open>The invariant\<close>

definition head_at :: "chain_view \<Rightarrow> ('s, 'c) blockChain \<Rightarrow> block \<Rightarrow> hash \<Rightarrow> u64 \<Rightarrow> bool" where
  "head_at V bc b h n \<longleftrightarrow> currentBlock bc = Some (Some b) \<and> blk_at V h n b \<and> vw_canon V n = h \<and> path_to V n"

definition bc_inv ::
  "('s, 't, 'c) bc_env \<Rightarrow> ('c \<Rightarrow> hash \<rightharpoonup> header) \<Rightarrow> ('c \<Rightarrow> hash \<rightharpoonup> bigint) \<Rightarrow> ('c \<Rightarrow> hash \<rightharpoonup> u64) \<Rightarrow> ('c \<Rightarrow> hash \<rightharpoonup> block) \<Rightarrow>
     hash \<Rightarrow> ('s, 'c) blockChain \<Rightarrow> bool" where
  "bc_inv E hv tv nv bv g bc \<longleftrightarrow> base_ok E hv tv nv bv g bc \<and> canon_tidy (bview E bc) \<and> (\<exists>b h n. head_at (bview E bc) bc b h n)"

text \<open>The total difficulty of the head block.\<close>

definition head_block_td :: "('s, 't, 'c) bc_env \<Rightarrow> ('s, 'c) blockChain \<Rightarrow> bigint" where
  "head_block_td E bc = (case currentBlock bc of
     Some (Some b) \<Rightarrow> the (vw_td (bview E bc) (blk_hash E b, num_of (bheader b))) | _ \<Rightarrow> 0)"

lemma head_block_td_at:
  assumes "base_ok E hv tv nv bv g bc" "head_at (bview E bc) bc b h n"
  shows "vw_td (bview E bc) (h, n) = Some (head_block_td E bc)"
proof -
  have st: "stored_ok (be_hc E) g (bview E bc)" using assms(1) by (simp add: base_ok_def)
  have b: "blk_at (bview E bc) h n b" and c: "currentBlock bc = Some (Some b)" using assms(2) by (simp_all add: head_at_def)
  have "vw_td (bview E bc) (h, n) \<noteq> None" using stored_header(8) [OF st] b unfolding blk_at_def by blast
  then show ?thesis using blk_hashes [OF st b] blk_num_of [OF st b] by (auto simp: head_block_td_def c)
qed

lemma head_at_reads:
  "reads_only E bc bc' \<Longrightarrow> head_at (bview E bc') bc' b h n = head_at (bview E bc) bc b h n"
  by (simp add: head_at_def reads_only_def)

lemma bc_inv_reads:
  "bc_inv E hv tv nv bv g bc \<Longrightarrow> reads_only E bc bc' \<Longrightarrow> base_ok E hv tv nv bv g bc' \<Longrightarrow> bc_inv E hv tv nv bv g bc'"
  unfolding bc_inv_def using head_at_reads [of E bc bc'] by (metis reads_only_def)

section \<open>What a write does\<close>

text \<open>The lookups after a write: those of the abandoned blocks \<open>l\<close> are deleted unless the transaction is in the new
  blocks \<open>l'\<close>, those of the new blocks are set, the lowest first, and those of the head last.\<close>

definition write_lookups ::
  "('s, 't, 'c) bc_env \<Rightarrow> block list \<Rightarrow> block list \<Rightarrow> block \<Rightarrow> (hash \<Rightarrow> hash) \<Rightarrow> hash \<Rightarrow> hash" where
  "write_lookups E l l' b t = lookups_with E [b] (\<lambda>k. if k \<in> txs_of E l - txs_of E l' then 0 else lookups_with E (rev l') t k)"

definition wrote_canonical ::
  "('s, 't, 'c) bc_env \<Rightarrow> block \<Rightarrow> ('s, 'c) blockChain \<Rightarrow> ('s, 'c) blockChain \<Rightarrow> chain_view \<Rightarrow> block list \<Rightarrow> block list \<Rightarrow> bool" where
  "wrote_canonical E b bc bc' V l l' \<longleftrightarrow>
     (\<exists>ob oh on k m. head_at V bc ob oh on \<and> chain_down V oh on l k m \<and> chain_down V (blk_hash E b) (num_of (bheader b)) l' k m)
   \<and> currentBlock bc' = Some (Some b)
   \<and> vw_canon (bview E bc') = (canon_with E (rev l') (vw_canon V))(num_of (bheader b) := blk_hash E b)
   \<and> vw_lookup (bview E bc') = write_lookups E l l' b (vw_lookup V)
   \<and> vw_headBlock (bview E bc') = blk_hash E b"

definition wrote_side :: "('s, 't, 'c) bc_env \<Rightarrow> ('s, 'c) blockChain \<Rightarrow> ('s, 'c) blockChain \<Rightarrow> chain_view \<Rightarrow> bool" where
  "wrote_side E bc bc' V \<longleftrightarrow> currentBlock bc' = currentBlock bc \<and> vw_canon (bview E bc') = vw_canon V
     \<and> vw_lookup (bview E bc') = vw_lookup V \<and> vw_headBlock (bview E bc') = vw_headBlock V"

lemma write_unknown:
  assumes "env_ok E hv tv nv bv" "bc_inv E hv tv nv bv g bc" "block_fits E g (bview E bc) b"
    "vw_td (bview E bc) (ParentHash (bheader b), num_of (bheader b) - 1) = None"
  shows "\<exists>bc'. writeBlockWithState E b rs s bc = Some (Inl (EngineErr ErrUnknownAncestor), bc') \<and> reads_only E bc bc'
    \<and> bc_inv E hv tv nv bv g bc'"
proof -
  have base: "base_ok E hv tv nv bv g bc" using assms(2) by (simp add: bc_inv_def)
  have f: "header_fits (be_hc E) g (bview E bc) (bheader b)" using assms(3) by (simp add: block_fits_def)
  note hn = header_fits_number [OF f]
  obtain r bc1 where r: "bc_GetTd E (ParentHash (bheader b)) (num_of (bheader b) - 1) bc = (r, bc1)" by fastforce
  have vn: "vw_number (bview E bc) (ParentHash (bheader b)) = None \<or> vw_number (bview E bc) (ParentHash (bheader b)) = Some (num_of (bheader b) - 1)"
    using hn by auto
  have 1: "r = None" "reads_only E bc bc1" "base_ok E hv tv nv bv g bc1"
    using bc_GetTd_ok [OF assms(1) base vn r] assms(4) by simp_all
  then have "writeBlockWithState E b rs s bc = Some (Inl (EngineErr ErrUnknownAncestor), bc1)"
    using hn r by (simp add: writeBlockWithState_def)
  then show ?thesis using 1(2,3) bc_inv_reads [OF assms(2)] by blast
qed

text \<open>Up to the fork choice: the block is stored and its trie persisted, unless the commit fails.\<close>

lemma fork_choice_ok:
  assumes "fork_choice E etd ltd n cn b cur bc = (canon, bc')"
  shows "reads_only E bc bc' \<and> base_ok E hv tv nv bv g bc' = base_ok E hv tv nv bv g bc \<and> bc_db bc' = bc_db bc
    \<and> (canon \<longrightarrow> ltd \<le> etd) \<and> (\<not> canon \<longrightarrow> etd \<le> ltd)"
  using assms by (auto simp: fork_choice_def Let_def reads_only_def base_ok_def bcache_ok_def split: if_splits option.splits)

lemma lookups_one: "lookups_with E [b] t = (\<lambda>k. if k \<in> txs_of E [b] then blk_hash E b else t k)"
proof -
  have "fold (\<lambda>tx t. t(tx_hash E tx := v)) txs t = (\<lambda>k. if k \<in> tx_hash E ` set txs then v else t k)" for txs v
    by (induction txs arbitrary: t) (auto simp: fun_eq_iff)
  then show ?thesis by (simp add: lookups_with_def txs_of_def)
qed

lemma canonical_step:
  assumes "env_ok E hv tv nv bv" "base_ok E hv tv nv bv g bc" "head_at (bview E bc) bc ob oh on" "blk_at (bview E bc) h n b" "n \<noteq> 0"
  shows "\<exists>bc' l l' k m. (if ParentHash (bheader b) \<noteq> blk_hash E ob then reorg E ob b bc else Some (None, bc)) = Some (None, bc')
    \<and> base_ok E hv tv nv bv g bc' \<and> chain_down (bview E bc) oh on l k m \<and> chain_down (bview E bc) h n l' k m
    \<and> (vw_canon (bview E bc'))(n := h) = (canon_with E (rev l') (vw_canon (bview E bc)))(n := h)
    \<and> lookups_with E [b] (vw_lookup (bview E bc')) = write_lookups E l l' b (vw_lookup (bview E bc))
    \<and> tree_eq (bview E bc) (bview E bc') \<and> vw_receipts (bview E bc') = vw_receipts (bview E bc)"
proof (cases "ParentHash (bheader b) = blk_hash E ob")
  case False
  have o: "blk_at (bview E bc) oh on ob" using assms(3) by (simp add: head_at_def)
  obtain bc' l l' k m where 1: "reorg E ob b bc = Some (None, bc')" "base_ok E hv tv nv bv g bc'"
    "chain_down (bview E bc) oh on l k m" "chain_down (bview E bc) h n l' k m" "reorg_view E l l' (bview E bc) (bview E bc')"
    using reorg_ok [OF assms(1,2) o assms(4)] by blast
  then show ?thesis using False
    by (intro exI [of _ bc'] exI [of _ l] exI [of _ l'] exI [of _ k] exI [of _ m])
      (simp add: reorg_view_def write_lookups_def)
next
  case True
  have st: "stored_ok (be_hc E) g (bview E bc)" "bodies_ok (bview E bc)" using assms(2) by (simp_all add: base_ok_def)
  have o: "blk_at (bview E bc) oh on ob" using assms(3) by (simp add: head_at_def)
  have p: "ParentHash (bheader b) = oh" using True blk_hashes [OF st(1) o] by simp
  obtain q where "blk_at (bview E bc) oh (n - 1) q" using blk_parent [OF st assms(4,5)] p by auto
  then have on: "on = n - 1" using blk_at_unique [OF st(1) _ o] by blast
  have e: "blk_hash E b = h" "num_of (bheader b) = n" using blk_hashes [OF st(1) assms(4)] blk_num_of [OF st(1) assms(4)] by simp_all
  have "chain_down (bview E bc) h n [b] oh on" using assms(4,5) p on by simp
  moreover have "lookups_with E [b] t = write_lookups E [] [b] b t" for t
    by (simp add: write_lookups_def txs_of_def [of _ "[]"]) (simp add: lookups_one fun_eq_iff)
  ultimately show ?thesis using True assms(2) e
    by (intro exI [of _ bc] exI [of _ "[]"] exI [of _ "[b]"] exI [of _ oh] exI [of _ on]) (simp add: canon_with_def tree_eq_def)
qed

text \<open>The commits of states and tries never fail.\<close>

definition commits_succeed :: "('s, 't, 'c) bc_env \<Rightarrow> bool" where
  "commits_succeed E \<longleftrightarrow> (\<forall>st s. fst (ts_StateCommit (be_store E) st s) \<noteq> None)
     \<and> (TrieDirtyDisabled (be_config E) \<longrightarrow> (\<forall>st mdb r. fst (ts_Commit (be_store E) st mdb r)))"

lemma write_known:
  assumes "env_ok E hv tv nv bv" "bc_inv E hv tv nv bv g bc" "block_fits E g (bview E bc) b" "\<forall>r \<in> set rs. status_ok r"
    "vw_td (bview E bc) (ParentHash (bheader b), num_of (bheader b) - 1) = Some pd"
  defines "d \<equiv> the (Difficulty (bheader b)) + pd" and "h \<equiv> blk_hash E b" and "n \<equiv> num_of (bheader b)"
  shows "\<exists>r bc'. writeBlockWithState E b rs s bc = Some (r, bc') \<and> bc_inv E hv tv nv bv g bc'
    \<and> tree_eq (with_block E b d (bview E bc)) (bview E bc')
    \<and> ((r = Inl errCommit \<and> \<not> commits_succeed E \<and> wrote_side E bc bc' (bview E bc) \<and> vw_receipts (bview E bc') = vw_receipts (bview E bc))
     \<or> (r = Inr SideStatTy \<and> wrote_side E bc bc' (bview E bc) \<and> d \<le> head_block_td E bc
          \<and> vw_receipts (bview E bc') = (vw_receipts (bview E bc))((h, n) \<mapsto> map (stored_receipt (keccak256 (cc_crypto (cdc E)))) rs))
     \<or> (r = Inr CanonStatTy \<and> head_block_td E bc \<le> d
          \<and> (\<exists>l l'. wrote_canonical E b bc bc' (with_block E b d (bview E bc)) l l')
          \<and> vw_receipts (bview E bc') = (vw_receipts (bview E bc))((h, n) \<mapsto> map (stored_receipt (keccak256 (cc_crypto (cdc E)))) rs)))"
proof -
  let ?V = "bview E bc" and ?W = "with_block E b d (bview E bc)" and ?kec = "keccak256 (cc_crypto (cdc E))"
  have base: "base_ok E hv tv nv bv g bc" and tidy: "canon_tidy ?V" using assms(2) by (simp_all add: bc_inv_def)
  obtain ob oh on where hd: "head_at ?V bc ob oh on" using assms(2) by (auto simp: bc_inv_def)
  have st: "stored_ok (be_hc E) g ?V" using base by (simp add: base_ok_def)
  have f: "header_fits (be_hc E) g ?V (bheader b)" using assms(3) by (simp add: block_fits_def)
  note hn = header_fits_number [OF f, folded n_def]
  have cc: "codec_ok (cdc E)" using assms(1) by (simp add: env_ok_def)
  obtain diff where diff: "Difficulty (bheader b) = Some diff" using f by (auto simp: header_fits_def)
  have dd: "d = diff + pd" by (simp add: d_def diff)
  have ob: "blk_at ?V oh on ob" "currentBlock bc = Some (Some ob)" using hd by (simp_all add: head_at_def)
  have obn: "bnum ob = Some on" "blk_hash E ob = oh" using blk_number [OF st ob(1)] blk_hashes [OF st ob(1)] by simp_all
  text \<open>The difficulties.\<close>
  have vn: "vw_number ?V (ParentHash (bheader b)) = None \<or> vw_number ?V (ParentHash (bheader b)) = Some (n - 1)" using hn by auto
  obtain r bc1 where r: "bc_GetTd E (ParentHash (bheader b)) (n - 1) bc = (r, bc1)" by fastforce
  have 1: "r = Some pd" "reads_only E bc bc1" "base_ok E hv tv nv bv g bc1"
    using bc_GetTd_ok [OF assms(1) base vn r] assms(5) by (simp_all add: n_def)
  have v1: "bview E bc1 = ?V" and c1: "currentBlock bc1 = Some (Some ob)" using 1(2) ob(2) by (simp_all add: reads_only_def)
  obtain q bc2 where q: "bc_GetTd E oh on bc1 = (q, bc2)" by fastforce
  have "vw_number (bview E bc1) oh = Some on" using stored_header(6) [OF st] ob(1) unfolding v1 blk_at_def by blast
  from bc_GetTd_ok [OF assms(1) 1(3) disjI2 [OF this] q, unfolded v1]
  have 2: "q = Some (head_block_td E bc)" "reads_only E bc1 bc2" "base_ok E hv tv nv bv g bc2"
    using head_block_td_at [OF base hd] by simp_all
  have v2: "bview E bc2 = ?V" and c2: "currentBlock bc2 = Some (Some ob)" using 2(2) v1 c1 by (simp_all add: reads_only_def)
  text \<open>The block is stored.\<close>
  obtain bc3 where 3: "WriteBlockWithoutState E b d bc2 = Some bc3" "base_ok E hv tv nv bv g bc3" "bview E bc3 = ?W"
    "currentBlock bc3 = Some (Some ob)"
    using store_block_ok [OF assms(1) 2(3), unfolded v2, OF assms(3,5)] c2 unfolding d_def by auto
  note mono = with_block_mono [OF st assms(3,5), folded d_def]
  have tidyW: "canon_tidy ?W" using tidy mono(3) unfolding canon_tidy_def by (simp add: with_block_def)
  have headW: "head_at ?W bc' ob oh on" if "currentBlock bc' = Some (Some ob)" for bc' :: "('a, 'c) blockChain"
    using hd that mono(1,4) path_to_mono [of ?V on ?W] by (simp add: head_at_def with_block_def)
  have side: "wrote_side E bc bc' ?V \<and> bc_inv E hv tv nv bv g bc' \<and> tree_eq ?W (bview E bc')"
    if "base_ok E hv tv nv bv g bc'" "bview E bc' = ?W\<lparr>vw_receipts := x\<rparr>" "currentBlock bc' = Some (Some ob)" for bc' x
  proof -
    have "head_at (bview E bc') bc' ob oh on"
      using headW [OF that(3)] that(2) by (simp add: head_at_def blk_at_def path_to_def)
    moreover have "canon_tidy (bview E bc')" using tidyW that(2) by (simp add: canon_tidy_def)
    ultimately show ?thesis using that ob(2) unfolding bc_inv_def
      by (auto simp: wrote_side_def tree_eq_def with_block_def)
  qed
  have inW: "bc_inv E hv tv nv bv g bc'"
    if "base_ok E hv tv nv bv g bc'" "reads_only E bc3 bc'" for bc'
    using that headW [of bc'] tidyW 3(3,4) unfolding bc_inv_def by (auto simp: reads_only_def)
  have rW: "?W\<lparr>vw_receipts := vw_receipts ?V\<rparr> = ?W" "vw_receipts ?W = vw_receipts ?V"
    by (simp_all add: with_block_def with_header_def)
  obtain so s1 sto where sc: "ts_StateCommit (be_store E) (bc_store bc3) s = (so, s1, sto)" using prod_cases3 by blast
  let ?bc3 = "bc3\<lparr>bc_store := sto\<rparr>"
  have 4: "base_ok E hv tv nv bv g ?bc3" "reads_only E bc3 ?bc3" "bview E ?bc3 = ?W"
    using 3(2,3) by (simp_all add: base_ok_trie)
  show ?thesis
  proof (cases so)
    case None
    have "writeBlockWithState E b rs s bc = Some (Inl errCommit, ?bc3)"
      using hn r 1(1) c1 obn q diff 3(1) sc None by (simp add: writeBlockWithState_def dd)
    moreover have "\<not> commits_succeed E" using sc None unfolding commits_succeed_def by (metis fst_conv)
    ultimately show ?thesis using side [OF 4(1), of "vw_receipts ?V"] 4(3) 3(4) rW by auto
  next
    case (Some root)
    obtain ok bc4 where 5: "persist_trie E root n ?bc3 = Some (ok, bc4)" "reads_only E ?bc3 bc4" "base_ok E hv tv nv bv g bc4"
      using persist_trie_ok [OF assms(1) 4(1), of root n] tidyW 4(3) by auto
    have v4: "bview E bc4 = ?W" "currentBlock bc4 = Some (Some ob)" using 5(2) 4(3) 3(4) by (simp_all add: reads_only_def)
    show ?thesis
    proof (cases ok)
      case False
      have "writeBlockWithState E b rs s bc = Some (Inl errCommit, bc4)"
        using hn r 1(1) c1 obn q diff 3(1) sc Some 5(1) False by (simp add: writeBlockWithState_def dd)
      moreover have "\<not> commits_succeed E"
        using 5(1) False by (auto simp: persist_trie_def commits_succeed_def split: if_splits prod.splits)
          (metis fst_conv)
      ultimately show ?thesis using side [OF 5(3), of "vw_receipts ?V"] v4 rW by auto
    next
      case True
      obtain canon bc5 where fc: "fork_choice E d (head_block_td E bc) n on b ob bc4 = (canon, bc5)" by fastforce
      note fc' = fork_choice_ok [OF fc]
      have 6: "base_ok E hv tv nv bv g bc5" "bview E bc5 = ?W" "currentBlock bc5 = Some (Some ob)"
        using fc' 5(3) v4 by (auto simp: reads_only_def)
      show ?thesis
      proof (cases canon)
        case False
        obtain mdb where mdb: "bc_db bc5 = Some mdb" using 6(1) by (auto simp: base_ok_def db_open_def)
        obtain ba1 where ba1: "WriteReceipts (cdc E) batch_writer NewBatch h n rs = Some ba1"
          "cview (cdc E) (batch_at mdb ba1) = ?W\<lparr>vw_receipts := (vw_receipts ?W)((h, n) \<mapsto> map (stored_receipt ?kec) rs)\<rparr>"
          using batchw.WriteReceipts_view [where m = mdb and w = NewBatch and cc = "cdc E" and h = h and n = n, OF TrueI cc assms(4)]
            6(2) by (auto simp: batchw.writes_view_def batch_at_new mdb)
        obtain m1 where m1: "batch_Write ba1 (Some mdb) = Some (Some m1)" "db_at (Some m1) = batch_at mdb ba1" using batch_Write_at by blast
        let ?bc' = "(set_db (Some m1) bc5)\<lparr>futureBlocks := lru_Remove (blockLru E) (futureBlocks bc5) h\<rparr>"
        have w: "writeBlockWithState E b rs s bc = Some (Inr SideStatTy, ?bc')"
          using hn r 1(1) c1 obn q 2(1) diff 3(1) sc Some 5(1) True fc False ba1(1) mdb m1(1)
          by (simp add: writeBlockWithState_def dd h_def)
        have v': "bview E ?bc' = ?W\<lparr>vw_receipts := (vw_receipts ?W)((h, n) \<mapsto> map (stored_receipt ?kec) rs)\<rparr>"
          by (simp add: m1(2) ba1(2))
        have "base_ok E hv tv nv bv g ?bc'"
          by (rule base_ok_tree [OF 6(1)]) (simp_all add: db_open_def set_db_def m1(2) ba1(2) 6(2) [simplified] tree_eq_def)
        from side [OF this v'] w v' rW(2) fc' False 6(3) show ?thesis by auto
      next
        case canon: True
        have hd5: "head_at (bview E bc5) bc5 ob oh on" using headW [OF 6(3)] 6(2) by simp
        have blk5: "blk_at (bview E bc5) h n b" unfolding 6(2) h_def n_def by (rule with_block_blk)
        have n0: "n \<noteq> 0" using hn by simp
        obtain bc6 l l' k m where cs:
          "(if ParentHash (bheader b) \<noteq> blk_hash E ob then reorg E ob b bc5 else Some (None, bc5)) = Some (None, bc6)"
          "base_ok E hv tv nv bv g bc6" "chain_down ?W oh on l k m" "chain_down ?W h n l' k m"
          "(vw_canon (bview E bc6))(n := h) = (canon_with E (rev l') (vw_canon ?W))(n := h)"
          "lookups_with E [b] (vw_lookup (bview E bc6)) = write_lookups E l l' b (vw_lookup ?W)"
          "tree_eq ?W (bview E bc6)" "vw_receipts (bview E bc6) = vw_receipts ?W"
          using canonical_step [OF assms(1) 6(1) hd5 blk5 n0, unfolded 6(2)] by blast
        obtain mdb where mdb: "bc_db bc6 = Some mdb" using cs(2) by (auto simp: base_ok_def db_open_def)
        let ?rs = "map (stored_receipt ?kec) rs"
        obtain ba1 where ba1: "WriteReceipts (cdc E) batch_writer NewBatch h n rs = Some ba1"
          "cview (cdc E) (batch_at mdb ba1) = (bview E bc6)\<lparr>vw_receipts := (vw_receipts ?W)((h, n) \<mapsto> ?rs)\<rparr>"
          using batchw.WriteReceipts_view [where m = mdb and w = NewBatch and cc = "cdc E" and h = h and n = n, OF TrueI cc assms(4)]
            cs(8) by (auto simp: batchw.writes_view_def batch_at_new mdb)
        obtain ba2 where ba2: "WriteTxLookupEntries (cdc E) batch_writer ba1 b = Some ba2"
          "cview (cdc E) (batch_at mdb ba2) = (bview E bc6)\<lparr>vw_receipts := (vw_receipts ?W)((h, n) \<mapsto> ?rs),
             vw_lookup := lookups_with E [b] (vw_lookup (bview E bc6))\<rparr>"
          using batchw.WriteTxLookup_view [where m = mdb and w = ba1 and cc = "cdc E" and bh = "blk_hash E b" and txs = "transactions b", OF TrueI]
          by (auto simp: batchw.writes_view_def WriteTxLookupEntries_def fold_lookup ba1(2) lookups_with_def)
        obtain ba3 where ba3: "WritePreimages batch_writer (be_rng E) ba2 (sdb_preimages s1) = Some ba3"
          "cview (cdc E) (batch_at mdb ba3) = cview (cdc E) (batch_at mdb ba2)"
          using batchw.WritePreimages_view [where m = mdb and w = ba2 and cc = "cdc E" and rng = "be_rng E" and ps = "sdb_preimages s1", OF TrueI]
          by (auto simp: batchw.writes_view_def)
        obtain m1 where m1: "batch_Write ba3 (Some mdb) = Some (Some m1)" "db_at (Some m1) = batch_at mdb ba3" using batch_Write_at by blast
        let ?bc7 = "set_db (Some m1) bc6"
        have v7: "bview E ?bc7 = (bview E bc6)\<lparr>vw_receipts := (vw_receipts ?W)((h, n) \<mapsto> ?rs),
             vw_lookup := lookups_with E [b] (vw_lookup (bview E bc6))\<rparr>"
          by (simp add: m1(2) ba3(2) ba2(2))
        have t7: "tree_eq (bview E bc6) (bview E ?bc7)" unfolding v7 by (simp add: tree_eq_def)
        have b7: "base_ok E hv tv nv bv g ?bc7"
          by (rule base_ok_tree [OF cs(2) _ t7]) (simp_all add: db_open_def set_db_def)
        have tW7: "tree_eq ?W (bview E ?bc7)" by (rule tree_eq_trans [OF cs(7) t7])
        have blk7: "blk_at (bview E ?bc7) h n b" unfolding tree_eq_blk [OF tW7] using blk5 6(2) by simp
        obtain bc8 hh hf where 8: "bc_insert E b ?bc7 = Some bc8" "base_ok E hv tv nv bv g bc8"
          "bview E bc8 = (bview E ?bc7)\<lparr>vw_canon := (vw_canon (bview E ?bc7))(n := h), vw_headBlock := h, vw_headHeader := hh, vw_headFast := hf\<rparr>"
          "currentBlock bc8 = Some (Some b)"
          using bc_insert_ok [OF b7 blk7] by blast
        let ?c = "canon_with E (rev l') (vw_canon ?W)"
        let ?bc' = "bc8\<lparr>futureBlocks := lru_Remove (blockLru E) (futureBlocks bc8) h\<rparr>"
        have w: "writeBlockWithState E b rs s bc = Some (Inr CanonStatTy, ?bc')"
          using hn r 1(1) c1 obn q 2(1) diff 3(1) sc Some 5(1) True fc canon ba1(1) ba2(1) ba3(1) mdb m1(1) 8(1) cs(1)
          by (simp add: writeBlockWithState_def dd h_def)
        have stW: "stored_ok (be_hc E) g ?W" using 6(1,2) by (simp add: base_ok_def)
        have hdW: "vw_canon ?W on = oh" "path_to ?W on" using hd5 6(2) by (simp_all add: head_at_def)
        have km: "vw_canon ?W m = k" "path_to ?W m" using canonical_down [OF cs(3) hdW] by simp_all
        have cw: "?c n = h" "path_to (?W\<lparr>vw_canon := ?c\<rparr>) n" "\<forall>i. i \<le> m \<or> n < i \<longrightarrow> ?c i = vw_canon ?W i"
          using canon_with_chain [OF stW cs(4), where c = "vw_canon ?W", OF km(1)] km(2) by simp_all
        have cn: "?c(n := h) = ?c" using cw(1) by auto
        have t8: "tree_eq ?W (bview E bc8)" using tW7 unfolding 8(3) by (simp add: tree_eq_def)
        have canon8: "vw_canon (bview E bc8) = ?c" using cs(5) cn unfolding 8(3) v7 by simp
        have path8: "path_to (bview E bc8) n"
          using cw(2) t8 canon8 by (simp add: path_to_def tree_eq_def)
        have "head_at (bview E ?bc') ?bc' b h n"
          using 8(4) path8 canon8 cw(1) blk5 6(2) tree_eq_blk [OF t8] by (simp add: head_at_def)
        moreover have "canon_tidy (bview E ?bc')"
          unfolding canon_tidy_def
        proof (intro allI impI)
          fix i assume i: "vw_canon (bview E ?bc') i \<noteq> 0"
          have nb: "vw_number (bview E bc8) = vw_number ?W" using t8 by (simp add: tree_eq_def)
          show "vw_number (bview E ?bc') (vw_canon (bview E ?bc') i) = Some i"
          proof (cases "i \<le> n")
            case True
            then obtain x where "vw_header ?W (?c i, i) = Some x" using cw(2) unfolding path_to_canon by blast
            then show ?thesis using stored_header(6) [OF stW] by (simp add: canon8 nb)
          next
            case False
            then show ?thesis using i tidyW cw(3) unfolding canon_tidy_def by (simp add: canon8 nb)
          qed
        qed
        moreover have "base_ok E hv tv nv bv g ?bc'" using 8(2) by (simp add: base_ok_def bcache_ok_def)
        ultimately have inv: "bc_inv E hv tv nv bv g ?bc'" unfolding bc_inv_def by blast
        have "\<exists>ob oh on k m. head_at ?W bc ob oh on \<and> chain_down ?W oh on l k m \<and> chain_down ?W h n l' k m"
          using headW [OF ob(2)] cs(3,4) by blast
        moreover have "vw_lookup (bview E ?bc') = write_lookups E l l' b (vw_lookup ?W)" "vw_headBlock (bview E ?bc') = h"
          using 8(3) v7 cs(6) by simp_all
        ultimately have "wrote_canonical E b bc ?bc' ?W l l'"
          unfolding wrote_canonical_def using 8(4) canon8 cn by (simp add: h_def n_def)
        then show ?thesis using w inv t8 fc' canon rW(2) 8(3) v7 by auto
      qed
    qed
  qed
qed

section \<open>Starting from a genesis block\<close>

text \<open>What \<open>Genesis.Commit\<close> leaves in an empty database, with the state of the block.\<close>

definition genesis_blocks :: "('s, 't, 'c) bc_env \<Rightarrow> hash \<Rightarrow> 's \<Rightarrow> memdb \<Rightarrow> bool" where
  "genesis_blocks E g s0 mdb \<longleftrightarrow> genesis_db (be_hc E) g mdb
     \<and> (\<exists>txs. vw_body (db_view (cdc E) mdb) = [(g, 0) \<mapsto> \<lparr>bd_Transactions = txs, bd_Uncles = []\<rparr>])
     \<and> (\<forall>x. vw_header (db_view (cdc E) mdb) (g, 0) = Some x \<longrightarrow> (\<exists>t. OpenTrie (ts_env (be_store E) s0) (Root x) = Inr t))"

lemma GetBlockByHash_ok:
  assumes "env_ok E hv tv nv bv" "base_ok E hv tv nv bv g bc" "GetBlockByHash E h bc = (r, bc')"
  shows "reads_only E bc bc' \<and> base_ok E hv tv nv bv g bc' \<and> bc_store bc' = bc_store bc
    \<and> (case r of None \<Rightarrow> vw_number (bview E bc) h = None
       | Some b \<Rightarrow> \<exists>n. vw_number (bview E bc) h = Some n \<and> blk_at (bview E bc) h n b)"
proof -
  have st: "stored_ok (be_hc E) g (bview E bc)" using assms(2) by (simp add: base_ok_def)
  obtain q bc1 where q: "on_hc (GetBlockNumber (be_hc E) h) bc = (q, bc1)" by fastforce
  obtain q' hc' where q': "GetBlockNumber (be_hc E) h (bc_hc bc) = (q', hc')" by fastforce
  have e: "q' = q" using q q' by (simp add: on_hc_def)
  have n: "q = vw_number (bview E bc) h \<and> same_chain (bc_hc bc) hc' \<and> caches_ok hv tv nv (bview E bc) hc'"
    using GetBlockNumber_ok [of "be_hc E" hv tv nv "bc_hc bc" h q' hc'] q' e assms(1,2) by (simp add: env_ok_def base_ok_def)
  have 1: "reads_only E bc bc1" "base_ok E hv tv nv bv g bc1" using on_hc_reads [OF assms(2) q q' [unfolded e]] n by simp_all
  have s1: "bc_store bc1 = bc_store bc" using q by (auto simp: on_hc_def split: prod.splits)
  have v1: "bview E bc1 = bview E bc" using 1(1) by (simp add: reads_only_def)
  show ?thesis
  proof (cases q)
    case None
    then show ?thesis using assms(3) q 1 s1 n by (auto simp: GetBlockByHash_def)
  next
    case (Some k)
    then have g: "GetBlock E h k bc1 = (r, bc')" using assms(3) q by (simp add: GetBlockByHash_def)
    have vn: "vw_number (bview E bc1) h = None \<or> vw_number (bview E bc1) h = Some k" using n Some v1 by simp
    note G = GetBlock_ok [OF assms(1) 1(2) vn g, unfolded v1]
    have s2: "bc_store bc' = bc_store bc1" using g by (auto simp: GetBlock_def split: prod.splits option.splits)
    obtain x where x: "vw_header (bview E bc) (h, k) = Some x" using stored_number [OF st] n Some by metis
    have "r \<noteq> None" using G x by (auto split: option.splits)
    moreover have "vw_number (bview E bc) h = Some k" using n Some by simp
    ultimately show ?thesis using G s1 s2 reads_only_trans [OF 1(1)] by (auto split: option.splits)
  qed
qed

lemma load_heads_ok:
  assumes "env_ok E hv tv nv bv" "base_ok E hv tv nv bv g bc" "blk_at (bview E bc) h n b"
  shows "\<exists>bc'. load_heads E b bc = Some bc' \<and> base_ok E hv tv nv bv g bc' \<and> tree_eq (bview E bc) (bview E bc')
    \<and> vw_canon (bview E bc') = vw_canon (bview E bc) \<and> currentBlock bc' = Some (Some b)"
proof -
  let ?V = "bview E bc"
  have st: "stored_ok (be_hc E) g ?V" using assms(2) by (simp add: base_ok_def)
  have hx: "vw_header ?V (h, n) = Some (bheader b)" using assms(3) by (simp add: blk_at_def)
  have bH: "block_Header b = bheader b"
    using stored_header(3,4) [OF st hx] by (simp add: block_Header_def CopyHeader_id)
  let ?bc1 = "bc\<lparr>currentBlock := Some (Some b)\<rparr>"
  have 1: "base_ok E hv tv nv bv g ?bc1" using assms(2) by (simp add: base_ok_def bcache_ok_def)
  let ?headH = "vw_headHeader ?V"
  obtain x' bc2 where q: "(if ?headH \<noteq> 0 then on_hc (hc_GetHeaderByHash (be_hc E) ?headH) ?bc1 else (None, ?bc1)) = (x', bc2)" by fastforce
  have 2: "reads_only E ?bc1 bc2 \<and> base_ok E hv tv nv bv g bc2 \<and> (\<forall>x. x' = Some x \<longrightarrow> (\<exists>k. vw_header ?V (?headH, k) = Some x))"
  proof (cases "?headH = 0")
    case False
    obtain r hc' where r: "hc_GetHeaderByHash (be_hc E) ?headH (bc_hc ?bc1) = (r, hc')" by fastforce
    have e: "r = x'" using q r False by (simp add: on_hc_def)
    have "(\<forall>n. vw_number ?V ?headH = Some n \<longrightarrow> r = vw_header ?V (?headH, n)) \<and> (vw_number ?V ?headH = None \<longrightarrow> r = None)
        \<and> same_chain (bc_hc ?bc1) hc' \<and> caches_ok hv tv nv ?V hc'"
      using hc_GetHeaderByHash_ok [of "be_hc E" hv tv nv "bc_hc ?bc1" g ?headH r hc'] r assms(1) 1 by (simp add: env_ok_def base_ok_def)
    moreover have "on_hc (hc_GetHeaderByHash (be_hc E) ?headH) ?bc1 = (x', bc2)" using q False by simp
    from on_hc_reads [OF 1 this, of hc'] have "reads_only E ?bc1 bc2 \<and> base_ok E hv tv nv bv g bc2"
      using calculation r e by simp
    ultimately show ?thesis using e by (cases "vw_number ?V ?headH") auto
  qed (use q 1 in simp)
  define x where "x = (case x' of None \<Rightarrow> block_Header b | Some x \<Rightarrow> x)"
  obtain hx' k where x: "vw_header ?V (hx', k) = Some x" using 2 hx bH by (cases x') (auto simp: x_def)
  have v2: "bview E bc2 = ?V" "currentBlock bc2 = Some (Some b)" using 2 by (simp_all add: reads_only_def)
  have o2: "db_open (bc_db bc2)" using 2 by (simp add: base_ok_def)
  obtain db3 where db3: "WriteHeadHeaderHash db_writer (bc_db bc2) (hdr_hash (be_hc E) x) = Some db3" "db_open db3"
    "db_view (cdc E) db3 = ?V\<lparr>vw_headHeader := hdr_hash (be_hc E) x\<rparr>"
    using dbw.WriteHeadHeaderHash_view [OF o2, of "cdc E" "hdr_hash (be_hc E) x"] by (auto simp: dbw.writes_view_def v2(1))
  let ?bc3 = "bc2\<lparr>bc_hc := (bc_hc bc2)\<lparr>chainDb := db3, currentHeader := Some x, currentHeaderHash := hdr_hash (be_hc E) x\<rparr>,
    currentFastBlock := Some (Some b)\<rparr>"
  have t3: "tree_eq ?V (bview E ?bc3)" using db3(3) by (simp add: tree_eq_def)
  have b3: "base_ok E hv tv nv bv g ?bc3"
    by (rule base_ok_tree [of E hv tv nv bv g bc2]) (use 2 db3(2) t3 v2(1) in \<open>simp_all\<close>)
  let ?headF = "vw_headFast (bview E ?bc3)"
  obtain f' bc4 where f': "(if ?headF \<noteq> 0 then GetBlockByHash E ?headF ?bc3 else (None, ?bc3)) = (f', bc4)" by fastforce
  have 4: "reads_only E ?bc3 bc4 \<and> base_ok E hv tv nv bv g bc4 \<and> (\<forall>f. f' = Some f \<longrightarrow> (\<exists>k. blk_at (bview E ?bc3) ?headF k f))"
  proof (cases "?headF = 0")
    case False
    then have "GetBlockByHash E ?headF ?bc3 = (f', bc4)" using f' by simp
    from GetBlockByHash_ok [OF assms(1) b3 this] show ?thesis by (auto split: option.splits)
  qed (use f' b3 in simp)
  define f where "f = (case f' of None \<Rightarrow> b | Some f \<Rightarrow> f)"
  obtain hf kf where ff: "blk_at ?V hf kf f" using 4 assms(3) by (cases f') (auto simp: f_def tree_eq_blk [OF t3, simplified])
  let ?bc5 = "bc4\<lparr>currentFastBlock := Some (Some f)\<rparr>"
  have b5: "base_ok E hv tv nv bv g ?bc5" using 4 by (simp add: base_ok_def bcache_ok_def)
  have tds: "\<exists>r bc'. bc_GetTd E h n bc = (r, bc') \<and> reads_only E bc bc' \<and> base_ok E hv tv nv bv g bc'"
    if b: "base_ok E hv tv nv bv g bc" "tree_eq ?V (bview E bc)" "vw_header ?V (h, n) = Some y" for bc h n y
  proof -
    obtain r bc' where r: "bc_GetTd E h n bc = (r, bc')" by fastforce
    have "vw_number (bview E bc) h = Some n" using stored_header(6) [OF st b(3)] b(2) by (simp add: tree_eq_def)
    from bc_GetTd_ok [OF assms(1) b(1) disjI2 [OF this] r] show ?thesis using r by blast
  qed
  have t5: "tree_eq ?V (bview E ?bc5)" using t3 4 by (simp add: reads_only_def)
  obtain r6 bc6 where 6: "bc_GetTd E hx' k ?bc5 = (r6, bc6)" "reads_only E ?bc5 bc6" "base_ok E hv tv nv bv g bc6" using tds [OF b5 t5 x] by blast
  have t6: "tree_eq ?V (bview E bc6)" using t5 6(2) by (simp add: reads_only_def)
  obtain r7 bc7 where 7: "bc_GetTd E h n bc6 = (r7, bc7)" "reads_only E bc6 bc7" "base_ok E hv tv nv bv g bc7" using tds [OF 6(3) t6 hx] by blast
  have t7: "tree_eq ?V (bview E bc7)" using t6 7(2) by (simp add: reads_only_def)
  have fx: "vw_header ?V (hf, kf) = Some (bheader f)" using ff by (simp add: blk_at_def)
  obtain r8 bc8 where 8: "bc_GetTd E hf kf bc7 = (r8, bc8)" "reads_only E bc7 bc8" "base_ok E hv tv nv bv g bc8" using tds [OF 7(3) t7 fx] by blast
  have n: "Uint64 (Number x) = Some k" "hdr_hash (be_hc E) x = hx'" "bnum b = Some n" "blk_hash E b = h" "bnum f = Some kf" "blk_hash E f = hf"
    using stored_Uint64 [OF st x] stored_header(1) [OF st x] blk_number [OF st assms(3)] blk_hashes [OF st assms(3)]
      blk_number [OF st ff] blk_hashes [OF st ff] by simp_all
  have "load_heads E b bc = Some bc8"
    using q db3(1) f' 6(1) 7(1) 8(1) n
    by (simp add: load_heads_def Let_def reads_view [where cc = "cdc E"] SetCurrentHeader_def x_def [symmetric] f_def [symmetric]
        cong: if_cong split del: if_split)
  moreover have "currentBlock bc8 = Some (Some b)" "vw_canon (bview E bc8) = vw_canon ?V"
    using 8(2) 7(2) 6(2) 4 v2(2) db3(3) by (simp_all add: reads_only_def)
  moreover have "tree_eq ?V (bview E bc8)" using t7 8(2) by (simp add: reads_only_def)
  ultimately show ?thesis using 8(3) by blast
qed

definition caches_empty ::
  "('c \<Rightarrow> hash \<rightharpoonup> header) \<Rightarrow> ('c \<Rightarrow> hash \<rightharpoonup> bigint) \<Rightarrow> ('c \<Rightarrow> hash \<rightharpoonup> u64) \<Rightarrow> ('c \<Rightarrow> hash \<rightharpoonup> block) \<Rightarrow> 'c \<Rightarrow> bool" where
  "caches_empty hv tv nv bv c0 \<longleftrightarrow> hv c0 = Map.empty \<and> tv c0 = Map.empty \<and> nv c0 = Map.empty \<and> bv c0 = Map.empty"

lemma NewBlockChain_ok:
  assumes "env_ok E hv tv nv bv" "caches_empty hv tv nv bv c0" "genesis_blocks E g s0 mdb"
  shows "\<exists>bc. NewBlockChain depth E c0 s0 mdb = Some (Inr bc) \<and> bc_inv E hv tv nv bv g bc
    \<and> tree_eq (db_view (cdc E) mdb) (bview E bc)"
proof -
  let ?V = "db_view (cdc E) mdb"
  have gdb: "genesis_db (be_hc E) g mdb" using assms(3) by (simp add: genesis_blocks_def)
  have lr: "lrus_ok (be_hc E) hv tv nv" using assms(1) by (simp add: env_ok_def)
  from gdb obtain x d where x: "db_open mdb" "g \<noteq> 0" "Number x = Some 0" "vw_header ?V = [(g, 0) \<mapsto> x]" "vw_number ?V = [g \<mapsto> 0]"
    "vw_canon ?V = (\<lambda>n. if n = 0 then g else 0)" "vw_headBlock ?V = g"
    unfolding genesis_db_def by blast
  obtain txs where txs: "vw_body ?V = [(g, 0) \<mapsto> \<lparr>bd_Transactions = txs, bd_Uncles = []\<rparr>]" using assms(3) by (auto simp: genesis_blocks_def)
  obtain t where t: "OpenTrie (ts_env (be_store E) s0) (Root x) = Inr t" using assms(3) x(4) by (auto simp: genesis_blocks_def)
  obtain hc where hc: "NewHeaderChain (be_hc E) c0 mdb = Inr hc" "chain_inv (be_hc E) hv tv nv g hc" "chainDb hc = mdb"
    using NewHeaderChain_ok [OF lr _ _ _ gdb, of c0] assms(2) by (auto simp: caches_empty_def)
  define bc where "bc = \<lparr>bc_hc = hc, bc_store = s0, triegc = pq_New, gcproc = 0, lastWrite = 0, genesisBlock = None, currentBlock = None,
                     currentFastBlock = None, bodyCache = c0, bodyRLPCache = c0, receiptsCache = c0, blockCache = c0,
                     futureBlocks = c0, badBlocks = c0, bc_running = False, procInterrupt = False, bc_tosses = 0, bc_events = []\<rparr>"
  have v: "bview E bc = ?V" by (simp add: bc_def hc(3))
  have b0: "base_ok E hv tv nv bv g bc" unfolding base_ok_def v
    using hc(2,3) assms(2) x(1,4) txs
    by (auto simp: chain_inv_def bc_def caches_empty_def bcache_ok_def bodies_ok_def)
  obtain r bc1 where r: "GetBlock E g 0 bc = (r, bc1)" by fastforce
  have 1: "reads_only E bc bc1 \<and> base_ok E hv tv nv bv g bc1 \<and> (case r of None \<Rightarrow> vw_header ?V (g, 0) = None | Some b \<Rightarrow> blk_at ?V g 0 b)"
    using GetBlock_ok [OF assms(1) b0 _ r, unfolded v] x(5) by simp
  then obtain gb where gb: "r = Some gb" "blk_at ?V g 0 gb" using x(4) by (cases r) auto
  have s1: "bc_store bc1 = s0" using r by (auto simp: GetBlock_def bc_def split: prod.splits option.splits)
  let ?bc1 = "bc1\<lparr>genesisBlock := Some gb\<rparr>"
  have v1: "bview E ?bc1 = ?V" using 1 v by (simp add: reads_only_def)
  have b1: "base_ok E hv tv nv bv g ?bc1" using 1 by (simp add: base_ok_def bcache_ok_def)
  obtain q bc2 where q: "GetBlockByHash E g ?bc1 = (q, bc2)" by fastforce
  note Q = GetBlockByHash_ok [OF assms(1) b1 q, unfolded v1]
  obtain b where b: "q = Some b" "blk_at ?V g 0 b" using Q x(5) by (cases q) auto
  have v2: "bview E bc2 = ?V" and b2: "base_ok E hv tv nv bv g bc2" and s2: "bc_store bc2 = s0"
    using Q v1 s1 by (simp_all add: reads_only_def)
  have root: "Root (bheader b) = Root x" using b(2) x(4) by (simp add: blk_at_def)
  have ok: "\<not> store_err E (Root (bheader b)) bc2" by (simp add: store_err_def s2 root state_New_def t)
  obtain bc' where l: "load_heads E b bc2 = Some bc'" "base_ok E hv tv nv bv g bc'" "tree_eq ?V (bview E bc')"
    "vw_canon (bview E bc') = vw_canon ?V" "currentBlock bc' = Some (Some b)"
    using load_heads_ok [OF assms(1) b2, unfolded v2, OF b(2)] by blast
  have N: "NewBlockChain depth E c0 s0 mdb = Some (Inr bc')"
    using hc(1,3) r gb(1) q b(1) ok l(1) x(2,6,7) v1
    by (simp add: NewBlockChain_def bc_def [symmetric] GetBlockByNumber_def loadLastState_def Let_def
        reads_view [where cc = "cdc E"] v)
  have hd: "head_at (bview E bc') bc' b g 0"
    using l(4,5) b(2) tree_eq_blk [OF l(3)] x(6,4) l(3) by (simp add: head_at_def path_to_def tree_eq_def)
  have "canon_tidy (bview E bc')" using l(3,4) x(5,6) by (simp add: canon_tidy_def tree_eq_def)
  then show ?thesis using N l(2,3) hd unfolding bc_inv_def by blast
qed

section \<open>Every chain that can be reached\<close>

text \<open>From the genesis block on, by writing blocks with their state, injecting blocks of side chains, and reading.
  The second component are the blocks whose write succeeded.\<close>

inductive blocks_reachable ::
  "('s, 't, 'c) bc_env \<Rightarrow> 'c \<Rightarrow> 's \<Rightarrow> hash \<Rightarrow> ('s, 'c) blockChain \<Rightarrow> block set \<Rightarrow> bool" for E c0 s0 g where
  start: "genesis_blocks E g s0 mdb \<Longrightarrow> NewBlockChain depth E c0 s0 mdb = Some (Inr bc) \<Longrightarrow> blocks_reachable E c0 s0 g bc {}"
| looked: "blocks_reachable E c0 s0 g bc W \<Longrightarrow> GetBlockByHash E h bc = (r, bc') \<Longrightarrow> blocks_reachable E c0 s0 g bc' W"
| injected: "blocks_reachable E c0 s0 g bc W \<Longrightarrow> block_fits E g (bview E bc) b \<Longrightarrow>
    vw_td (bview E bc) (ParentHash (bheader b), num_of (bheader b) - 1) = Some pd \<Longrightarrow>
    WriteBlockWithoutState E b (the (Difficulty (bheader b)) + pd) bc = Some bc' \<Longrightarrow> blocks_reachable E c0 s0 g bc' W"
| wrote: "blocks_reachable E c0 s0 g bc W \<Longrightarrow> block_fits E g (bview E bc) b \<Longrightarrow> \<forall>r \<in> set rs. status_ok r \<Longrightarrow>
    writeBlockWithState E b rs s bc = Some (r, bc') \<Longrightarrow>
    blocks_reachable E c0 s0 g bc' (case r of Inl e \<Rightarrow> W | Inr status \<Rightarrow> insert b W)"

lemma head_block_td_reads: "reads_only E bc bc' \<Longrightarrow> head_block_td E bc' = head_block_td E bc"
  unfolding head_block_td_def reads_only_def by metis

definition lighter_than_head :: "('s, 't, 'c) bc_env \<Rightarrow> ('s, 'c) blockChain \<Rightarrow> block set \<Rightarrow> bool" where
  "lighter_than_head E bc W \<longleftrightarrow>
     (\<forall>b \<in> W. \<exists>d. vw_td (bview E bc) (blk_hash E b, num_of (bheader b)) = Some d \<and> d \<le> head_block_td E bc)"

lemma blocks_reachable_inv:
  assumes "env_ok E hv tv nv bv" "caches_empty hv tv nv bv c0" "blocks_reachable E c0 s0 g bc W"
  shows "bc_inv E hv tv nv bv g bc \<and> lighter_than_head E bc W"
  using assms(3)
proof induction
  case (start mdb depth bc)
  then show ?case using NewBlockChain_ok [OF assms(1,2) start(1), of depth] by (auto simp: lighter_than_head_def)
next
  case (looked bc W h r bc')
  then have "base_ok E hv tv nv bv g bc" by (simp add: bc_inv_def)
  from GetBlockByHash_ok [OF assms(1) this looked.hyps(2)] looked.IH
  have "reads_only E bc bc'" "bc_inv E hv tv nv bv g bc'" using bc_inv_reads by blast+
  then show ?case using looked.IH head_block_td_reads [of E bc bc'] by (simp add: lighter_than_head_def reads_only_def)
next
  case (injected bc W b pd bc')
  let ?d = "the (Difficulty (bheader b)) + pd"
  have i: "bc_inv E hv tv nv bv g bc" using injected.IH by simp
  then have base: "base_ok E hv tv nv bv g bc" and st: "stored_ok (be_hc E) g (bview E bc)" by (simp_all add: bc_inv_def base_ok_def)
  have 1: "base_ok E hv tv nv bv g bc'" "bview E bc' = with_block E b ?d (bview E bc)" "currentBlock bc' = currentBlock bc"
    using store_block_ok [OF assms(1) base injected.hyps(2,3)] injected.hyps(4) by auto
  note mono = with_block_mono [OF st injected.hyps(2,3)]
  obtain ob oh on where hd: "head_at (bview E bc) bc ob oh on" using i by (auto simp: bc_inv_def)
  then have hd': "head_at (bview E bc') bc' ob oh on"
    using mono(1,4) path_to_mono [of "bview E bc" on "bview E bc'"] 1(2,3) by (simp add: head_at_def with_block_def)
  have "canon_tidy (bview E bc')" using i mono(3) unfolding bc_inv_def canon_tidy_def 1(2) by (simp add: with_block_def)
  then have inv: "bc_inv E hv tv nv bv g bc'" using 1(1) hd' unfolding bc_inv_def by blast
  have "vw_td (bview E bc') (oh, on) = Some (head_block_td E bc)" using mono(2) head_block_td_at [OF base hd] 1(2) by simp
  then have "head_block_td E bc' = head_block_td E bc" using head_block_td_at [OF 1(1) hd'] by simp
  then show ?case using inv injected.IH mono(2) 1(2) unfolding lighter_than_head_def by metis
next
  case (wrote bc W b rs s r bc')
  let ?h = "blk_hash E b" and ?n = "num_of (bheader b)"
  have i: "bc_inv E hv tv nv bv g bc" and lt: "lighter_than_head E bc W" using wrote.IH by simp_all
  then have base: "base_ok E hv tv nv bv g bc" and st: "stored_ok (be_hc E) g (bview E bc)" by (simp_all add: bc_inv_def base_ok_def)
  show ?case
  proof (cases "vw_td (bview E bc) (ParentHash (bheader b), ?n - 1)")
    case None
    then have "r = Inl (EngineErr ErrUnknownAncestor)" "reads_only E bc bc'" "bc_inv E hv tv nv bv g bc'"
      using write_unknown [OF assms(1) i wrote.hyps(2) None, of rs s] wrote.hyps(4) by auto
    then show ?thesis using lt head_block_td_reads [of E bc bc'] by (simp add: lighter_than_head_def reads_only_def)
  next
    case (Some pd)
    let ?d = "the (Difficulty (bheader b)) + pd"
    have w: "bc_inv E hv tv nv bv g bc'" "tree_eq (with_block E b ?d (bview E bc)) (bview E bc')"
      "(r = Inl errCommit \<and> wrote_side E bc bc' (bview E bc)) \<or> (r = Inr SideStatTy \<and> wrote_side E bc bc' (bview E bc) \<and> ?d \<le> head_block_td E bc)
       \<or> (r = Inr CanonStatTy \<and> head_block_td E bc \<le> ?d \<and> currentBlock bc' = Some (Some b))"
      using write_known [OF assms(1) i wrote.hyps(2,3) Some, of s] wrote.hyps(4) by (auto simp: wrote_canonical_def)
    have td: "vw_td (bview E bc') = vw_td (with_block E b ?d (bview E bc))" using w(2) by (simp add: tree_eq_def)
    note mono = with_block_mono(2) [OF st wrote.hyps(2) Some]
    have new: "vw_td (bview E bc') (?h, ?n) = Some ?d" using td by (simp add: with_block_def with_header_def block_hash_def)
    have old: "\<forall>b' \<in> W. \<exists>d. vw_td (bview E bc') (blk_hash E b', num_of (bheader b')) = Some d \<and> d \<le> head_block_td E bc"
      using lt mono unfolding lighter_than_head_def td by blast
    obtain ob oh on where hd: "head_at (bview E bc) bc ob oh on" using i by (auto simp: bc_inv_def)
    have same: "head_block_td E bc' = head_block_td E bc" if "wrote_side E bc bc' (bview E bc)"
    proof -
      have ob: "blk_at (bview E bc) oh on ob" using hd by (simp add: head_at_def)
      have "vw_td (bview E bc') (oh, on) = Some (head_block_td E bc)" unfolding td by (rule mono [OF head_block_td_at [OF base hd]])
      then show ?thesis using that hd blk_hashes [OF st ob] blk_num_of [OF st ob]
        by (simp add: wrote_side_def head_block_td_def [of E bc'] head_at_def)
    qed
    have can: "head_block_td E bc' = ?d" if "currentBlock bc' = Some (Some b)" using new that by (simp add: head_block_td_def)
    from w(3) have "lighter_than_head E bc' (case r of Inl e \<Rightarrow> W | Inr status \<Rightarrow> insert b W)"
    proof (elim disjE conjE)
      assume "r = Inl errCommit" "wrote_side E bc bc' (bview E bc)"
      then show ?thesis using old same by (simp add: lighter_than_head_def)
    next
      assume "r = Inr SideStatTy" "wrote_side E bc bc' (bview E bc)" "?d \<le> head_block_td E bc"
      then show ?thesis using old new same by (simp add: lighter_than_head_def)
    next
      assume c: "r = Inr CanonStatTy" "head_block_td E bc \<le> ?d" "currentBlock bc' = Some (Some b)"
      then have "\<forall>b' \<in> W. \<exists>d. vw_td (bview E bc') (blk_hash E b', num_of (bheader b')) = Some d \<and> d \<le> ?d"
        using old order_trans by blast
      then show ?thesis using c new can by (simp add: lighter_than_head_def)
    qed
    with w(1) show ?thesis by (rule conjI)
  qed
qed

section \<open>The head block\<close>

text \<open>C9: However blocks were written (with their state, or injected from side chains, and reorganising the chain where
  need be), the head block of a chain is stored, its ancestors are the canonical blocks up to its number, down to the genesis
  block, all with their bodies, and no block whose write succeeded has a total difficulty above that of the head.\<close>

theorem block_chain_head:
  assumes "env_ok E hv tv nv bv" "caches_empty hv tv nv bv c0" "blocks_reachable E c0 s0 g bc W"
  shows "\<exists>b n d. currentBlock bc = Some (Some b) \<and> bnum b = Some n
    \<and> ReadHeader (cdc E) (bc_db bc) (blk_hash E b) n = Some (bheader b) \<and> ReadBody (cdc E) (bc_db bc) (blk_hash E b) n = Some (block_Body b)
    \<and> ReadCanonicalHash (bc_db bc) n = blk_hash E b
    \<and> (\<forall>i \<le> n. \<exists>x bd. ReadHeader (cdc E) (bc_db bc) (ReadCanonicalHash (bc_db bc) i) i = Some x
         \<and> ReadBody (cdc E) (bc_db bc) (ReadCanonicalHash (bc_db bc) i) i = Some bd
         \<and> (i \<noteq> 0 \<longrightarrow> ParentHash x = ReadCanonicalHash (bc_db bc) (i - 1)))
    \<and> ReadTd (cdc E) (bc_db bc) (blk_hash E b) n = Some d
    \<and> (\<forall>b' \<in> W. \<exists>d'. ReadTd (cdc E) (bc_db bc) (blk_hash E b') (num_of (bheader b')) = Some d' \<and> d' \<le> d)"
proof -
  have i: "bc_inv E hv tv nv bv g bc" "lighter_than_head E bc W" using blocks_reachable_inv [OF assms] by simp_all
  then have base: "base_ok E hv tv nv bv g bc" by (simp add: bc_inv_def)
  then have st: "stored_ok (be_hc E) g (bview E bc)" "bodies_ok (bview E bc)" by (simp_all add: base_ok_def)
  obtain b h n where hd: "head_at (bview E bc) bc b h n" using i(1) by (auto simp: bc_inv_def)
  then have b: "blk_at (bview E bc) h n b" by (simp add: head_at_def)
  note td = head_block_td_at [OF base hd]
  have path: "\<exists>x bd. vw_header (bview E bc) (vw_canon (bview E bc) i, i) = Some x \<and> vw_body (bview E bc) (vw_canon (bview E bc) i, i) = Some bd
      \<and> (i \<noteq> 0 \<longrightarrow> ParentHash x = vw_canon (bview E bc) (i - 1))" if "i \<le> n" for i
  proof -
    obtain x where x: "vw_header (bview E bc) (vw_canon (bview E bc) i, i) = Some x" "i \<noteq> 0 \<longrightarrow> ParentHash x = vw_canon (bview E bc) (i - 1)"
      using hd \<open>i \<le> n\<close> unfolding head_at_def path_to_def by blast
    then show ?thesis using st(2) unfolding bodies_ok_def by blast
  qed
  show ?thesis unfolding reads_view [where cc = "cdc E"]
    using hd b td path i(2) blk_number [OF st(1) b] blk_hashes [OF st(1) b]
    by (intro exI [of _ b] exI [of _ n] exI [of _ "head_block_td E bc"]) (simp add: head_at_def blk_at_def lighter_than_head_def)
qed

section \<open>Reorganisations\<close>

lemma lookups_with_in:
  "(k \<notin> txs_of E bs \<longrightarrow> lookups_with E bs t k = t k)
   \<and> (k \<in> txs_of E bs \<longrightarrow> (\<exists>b \<in> set bs. k \<in> tx_hash E ` set (transactions b) \<and> lookups_with E bs t k = blk_hash E b))"
proof (induction bs arbitrary: t)
  case (Cons b bs)
  have e: "lookups_with E (b # bs) t = lookups_with E bs (lookups_with E [b] t)" by (simp add: lookups_with_def)
  have "txs_of E (b # bs) = txs_of E [b] \<union> txs_of E bs" "txs_of E [b] = tx_hash E ` set (transactions b)" by (simp_all add: txs_of_def)
  then show ?case using Cons.IH [of "lookups_with E [b] t"] unfolding e by (auto simp: lookups_one)
qed (simp add: lookups_with_def txs_of_def)

text \<open>What a write that makes the block the head of a reachable chain does.\<close>

lemma write_makes_head:
  assumes "env_ok E hv tv nv bv" "caches_empty hv tv nv bv c0" "blocks_reachable E c0 s0 g bc W" "block_fits E g (bview E bc) b"
    "\<forall>r \<in> set rs. status_ok r" "writeBlockWithState E b rs s bc = Some (Inr CanonStatTy, bc')" "currentBlock bc = Some (Some ob)"
  shows "\<exists>l l' k m. chain_down (bview E bc') (blk_hash E ob) (num_of (bheader ob)) l k m
    \<and> chain_down (bview E bc') (blk_hash E b) (num_of (bheader b)) l' k m \<and> currentBlock bc' = Some (Some b)
    \<and> vw_canon (bview E bc') (num_of (bheader b)) = blk_hash E b \<and> path_to (bview E bc') (num_of (bheader b))
    \<and> (\<forall>i. num_of (bheader b) < i \<longrightarrow> vw_canon (bview E bc') i = vw_canon (bview E bc) i)
    \<and> vw_lookup (bview E bc') = write_lookups E l l' b (vw_lookup (bview E bc))"
proof -
  let ?n = "num_of (bheader b)"
  have i: "bc_inv E hv tv nv bv g bc" using blocks_reachable_inv [OF assms(1-3)] by simp
  obtain pd where pd: "vw_td (bview E bc) (ParentHash (bheader b), ?n - 1) = Some pd"
    using write_unknown [OF assms(1) i assms(4), of rs s] assms(6) by (cases "vw_td (bview E bc) (ParentHash (bheader b), ?n - 1)") auto
  let ?W = "with_block E b (the (Difficulty (bheader b)) + pd) (bview E bc)"
  obtain l l' where w: "bc_inv E hv tv nv bv g bc'" "tree_eq ?W (bview E bc')" "wrote_canonical E b bc bc' ?W l l'"
    using write_known [OF assms(1) i assms(4,5) pd, of s] assms(6) by auto
  obtain ob' oh on k m where d: "head_at ?W bc ob' oh on" "chain_down ?W oh on l k m" "chain_down ?W (blk_hash E b) ?n l' k m"
    using w(3) unfolding wrote_canonical_def by blast
  have W: "stored_ok (be_hc E) g ?W"
    using w(1) tree_eq_stored [OF w(2), of "be_hc E"] by (simp add: bc_inv_def base_ok_def)
  have o: "ob' = ob" "blk_at ?W oh on ob" "vw_canon ?W on = oh" "path_to ?W on" using d(1) assms(7) by (auto simp: head_at_def)
  have km: "vw_canon ?W m = k" "path_to ?W m" using canonical_down [OF d(2) o(3,4)] by simp_all
  have c: "canon_with E (rev l') (vw_canon ?W) ?n = blk_hash E b"
      "path_to (?W\<lparr>vw_canon := canon_with E (rev l') (vw_canon ?W)\<rparr>) ?n"
      "\<forall>i. i \<le> m \<or> ?n < i \<longrightarrow> canon_with E (rev l') (vw_canon ?W) i = vw_canon ?W i"
    using canon_with_chain [OF W d(3), where c = "vw_canon ?W", OF km(1)] km(2) by simp_all
  have v: "vw_canon (bview E bc') = canon_with E (rev l') (vw_canon ?W)" "vw_lookup (bview E bc') = write_lookups E l l' b (vw_lookup ?W)"
    "currentBlock bc' = Some (Some b)"
    using w(3) c(1) unfolding wrote_canonical_def by auto
  have same: "vw_canon ?W = vw_canon (bview E bc)" "vw_lookup ?W = vw_lookup (bview E bc)"
    by (simp_all add: with_block_def with_header_def)
  have "path_to (bview E bc') ?n" using c(2) w(2) v(1) by (simp add: path_to_def tree_eq_def)
  then show ?thesis
    using d(2,3) o blk_hashes [OF W o(2)] blk_num_of [OF W o(2)] c(1,3) v same
    unfolding tree_eq_down [OF w(2)] by auto
qed

text \<open>C10: When a write makes a block the head, of the blocks between the old head and the common ancestor and
  those between the new head and it: the lookup of each transaction of the new ones points to one of them that
  contains it, and to the head if it contains it; a transaction only in the abandoned ones has none any more; every other lookup is as before.\<close>

theorem reorg_moves_lookups:
  assumes "env_ok E hv tv nv bv" "caches_empty hv tv nv bv c0" "blocks_reachable E c0 s0 g bc W" "block_fits E g (bview E bc) b"
    "\<forall>r \<in> set rs. status_ok r" "writeBlockWithState E b rs s bc = Some (Inr CanonStatTy, bc')" "currentBlock bc = Some (Some ob)"
  shows "\<exists>l l' k m. chain_down (bview E bc') (blk_hash E ob) (num_of (bheader ob)) l k m
    \<and> chain_down (bview E bc') (blk_hash E b) (num_of (bheader b)) l' k m
    \<and> (\<forall>t. if t \<in> txs_of E [b] then ReadTxLookupEntry (cdc E) (bc_db bc') t = blk_hash E b
           else if t \<in> txs_of E l' then (\<exists>b' \<in> set l'. t \<in> txs_of E [b'] \<and> ReadTxLookupEntry (cdc E) (bc_db bc') t = blk_hash E b')
           else ReadTxLookupEntry (cdc E) (bc_db bc') t = (if t \<in> txs_of E l then 0 else ReadTxLookupEntry (cdc E) (bc_db bc) t))"
proof -
  obtain l l' k m where w: "chain_down (bview E bc') (blk_hash E ob) (num_of (bheader ob)) l k m"
      "chain_down (bview E bc') (blk_hash E b) (num_of (bheader b)) l' k m"
      "vw_lookup (bview E bc') = write_lookups E l l' b (vw_lookup (bview E bc))"
    using write_makes_head [OF assms] by blast
  have one: "txs_of E [b'] = tx_hash E ` set (transactions b')" for b' by (simp add: txs_of_def)
  have rv: "txs_of E (rev l') = txs_of E l'" by (simp add: txs_of_def)
  show ?thesis unfolding reads_view [where cc = "cdc E"] w(3) write_lookups_def lookups_one
    using w(1,2) lookups_with_in [of _ E "rev l'" "vw_lookup (bview E bc)"]
    by (intro exI [of _ l] exI [of _ l'] exI [of _ k] exI [of _ m]) (auto simp: rv one)
qed

text \<open>C31: A write that makes a block the head never deletes canonical numbers: those above the new head stay. So if a heavier
  chain is shorter, blocks of the abandoned chain, the old head among them, are still canonical afterwards.\<close>

theorem shorter_reorg_leaves_numbers:
  assumes "env_ok E hv tv nv bv" "caches_empty hv tv nv bv c0" "blocks_reachable E c0 s0 g bc W" "block_fits E g (bview E bc) b"
    "\<forall>r \<in> set rs. status_ok r" "writeBlockWithState E b rs s bc = Some (Inr CanonStatTy, bc')" "currentBlock bc = Some (Some ob)"
  shows "currentBlock bc' = Some (Some b)
    \<and> (\<forall>i. num_of (bheader b) < i \<longrightarrow> ReadCanonicalHash (bc_db bc') i = ReadCanonicalHash (bc_db bc) i)
    \<and> (num_of (bheader b) < num_of (bheader ob) \<longrightarrow> ReadCanonicalHash (bc_db bc') (num_of (bheader ob)) = blk_hash E ob)"
proof -
  have i: "bc_inv E hv tv nv bv g bc" using blocks_reachable_inv [OF assms(1-3)] by simp
  then obtain oh on where o: "head_at (bview E bc) bc ob oh on" using assms(7) by (auto simp: bc_inv_def head_at_def)
  have st: "stored_ok (be_hc E) g (bview E bc)" using i by (simp add: bc_inv_def base_ok_def)
  have b: "blk_at (bview E bc) oh on ob" using o by (simp add: head_at_def)
  have "ReadCanonicalHash (bc_db bc) (num_of (bheader ob)) = blk_hash E ob"
    using o blk_hashes [OF st b] blk_num_of [OF st b] by (simp add: head_at_def reads_view [where cc = "cdc E"])
  then show ?thesis using write_makes_head [OF assms] by (auto simp: reads_view [where cc = "cdc E"])
qed

section \<open>A database without a head block\<close>

lemma load_without_head:
  assumes "currentBlock bc = None" "ReadHeadBlockHash (bc_db bc) = 0"
  shows "loadLastState E (bc_Reset depth E) bc = None"
proof -
  have r: "rewind_blocks E h bc = None" for h
    using assms(1) by (auto simp: rewind_blocks_def purge_caches_def Let_def split: Option.bind_splits)
  have s: "bc_SetHead d E h bc = None" for d h by (cases d) (simp_all add: r)
  have "bc_Reset depth E bc = None" by (cases depth) (simp_all add: bc_Reset_def s)
  then show ?thesis by (simp add: loadLastState_def assms(2))
qed

lemma GetBlock_fresh:
  assumes "lru_ok (blockLru E) bv" "bv (blockCache bc) = Map.empty"
  shows "fst (GetBlock E h n bc) = ReadBlock (cdc E) (bc_db bc) h n \<and> bc_hc (snd (GetBlock E h n bc)) = bc_hc bc
    \<and> currentBlock (snd (GetBlock E h n bc)) = currentBlock bc"
  using assms(2) lru_GetD [OF assms(1), of "blockCache bc" h] by (auto simp: GetBlock_def split: prod.split option.split)

text \<open>C32: On a database whose head block is not set, \<open>NewBlockChain\<close> never gives a chain: without a genesis block it reports
  that, and with one it panics, because \<open>Reset\<close> calls \<open>SetHead\<close>, which loads the current block that was never stored.\<close>

theorem no_head_block_panics:
  assumes "env_ok E hv tv nv bv" "caches_empty hv tv nv bv c0" "ReadHeadBlockHash mdb = 0"
  shows "NewBlockChain depth E c0 s0 mdb =
    (if ReadCanonicalHash mdb 0 \<noteq> 0 \<and> ReadBlock (cdc E) mdb (ReadCanonicalHash mdb 0) 0 \<noteq> None then None else Some (Inl ErrNoGenesis))"
proof -
  let ?g = "ReadCanonicalHash mdb 0"
  have lru: "lru_ok (headerLru (be_hc E)) hv" "lru_ok (blockLru E) bv" using assms(1) by (simp_all add: env_ok_def lrus_ok_def)
  have e: "hv c0 = Map.empty" "bv c0 = Map.empty" using assms(2) by (simp_all add: caches_empty_def)
  show ?thesis
  proof (cases "?g \<noteq> 0 \<and> ReadHeader (cdc E) mdb ?g 0 \<noteq> None")
    case False
    then have "NewHeaderChain (be_hc E) c0 mdb = Inl ErrNoGenesis"
      using lru_GetD [OF lru(1), of c0 ?g] e(1)
      by (auto simp: NewHeaderChain_def hc_GetHeaderByNumber_def hc_GetHeader_def Let_def split: prod.split)
    moreover have "?g = 0 \<or> ReadBlock (cdc E) mdb ?g 0 = None" using False by (auto simp: ReadBlock_def)
    ultimately show ?thesis by (auto simp: NewBlockChain_def)
  next
    case True
    then obtain x where x: "?g \<noteq> 0" "ReadHeader (cdc E) mdb ?g 0 = Some x" by blast
    obtain c where "lru_Get (headerLru (be_hc E)) c0 ?g = (None, c)"
      using lru_GetD [OF lru(1), of c0 ?g] e(1) by (cases "lru_Get (headerLru (be_hc E)) c0 ?g") auto
    then have "case NewHeaderChain (be_hc E) c0 mdb of Inl e \<Rightarrow> False | Inr hc \<Rightarrow> chainDb hc = mdb"
      using x by (simp add: NewHeaderChain_def hc_GetHeaderByNumber_def hc_GetHeader_def Let_def assms(3))
    then obtain hc where hc: "NewHeaderChain (be_hc E) c0 mdb = Inr hc" "chainDb hc = mdb" by (cases "NewHeaderChain (be_hc E) c0 mdb") auto
    define bc where "bc = \<lparr>bc_hc = hc, bc_store = s0, triegc = pq_New, gcproc = 0, lastWrite = 0, genesisBlock = None, currentBlock = None,
                     currentFastBlock = None, bodyCache = c0, bodyRLPCache = c0, receiptsCache = c0, blockCache = c0,
                     futureBlocks = c0, badBlocks = c0, bc_running = False, procInterrupt = False, bc_tosses = 0, bc_events = []\<rparr>"
    obtain r bc1 where g: "GetBlockByNumber E 0 bc = (r, bc1)" by fastforce
    then have 1: "r = ReadBlock (cdc E) mdb ?g 0" "currentBlock bc1 = None" "bc_db bc1 = mdb"
      using GetBlock_fresh [OF lru(2), of bc ?g 0] True hc(2) e(2) by (simp_all add: GetBlockByNumber_def bc_def)
    have "loadLastState E (bc_Reset depth E) (bc1\<lparr>genesisBlock := Some x\<rparr>) = None" for x
      by (rule load_without_head) (simp_all add: 1 assms(3))
    then show ?thesis using g 1(1) True by (simp add: NewBlockChain_def hc bc_def [symmetric] split: option.split)
  qed
qed

end
