(* ===== verification/Block_Examples.thy ===== *)
theory Block_Examples
  imports Chain_Examples Block_Rules
begin

text \<open>
  Examples for the chain of blocks, over the libraries of \<open>Codec_Instance\<close> and a store of tries that opens every root: two
  blocks on a genesis block, and a heavier rival of the first.
\<close>

section \<open>The libraries\<close>

definition toy_store :: "(unit, unit) trie_store" where
  "toy_store = \<lparr>ts_env = (\<lambda>_. toy_state_libs), ts_StateCommit = (\<lambda>st s. (Some 7, s, st)), ts_Commit = (\<lambda>st mdb r. (True, st, mdb)),
     ts_Cap = (\<lambda>st mdb l. (st, mdb)), ts_Reference = (\<lambda>st r. st), ts_Dereference = (\<lambda>st r. st), ts_Size = (\<lambda>st. (0, 0))\<rparr>"

definition toy_bc_env :: "(unit, unit, toy_cache) bc_env" where
  "toy_bc_env = \<lparr>be_hc = toy_chain_env, bodyLru = toy_lru BodyValue as_body, bodyRLPLru = toy_lru BytesValue as_bytes,
     receiptsLru = toy_lru ReceiptsValue as_receipts, blockLru = toy_lru BlockValue as_block, be_store = toy_store, be_proc = child_env,
     be_VerifyUncles = (\<lambda>b. None), be_VerifyHeaders = (\<lambda>mdb hs ss. map (\<lambda>h. None) hs),
     be_config = \<lparr>TrieDirtyLimit = 256, TrieCleanNoPrefetch = True, TrieDirtyDisabled = False, TrieTimeLimit = 300\<rparr>,
     be_shouldPreserve = None, be_toss = even, be_rng = id, be_now = 1000, be_proctime = (\<lambda>b. 1), be_size = (\<lambda>b. 500), be_sort = id\<rparr>"

lemma toy_bc_simps [simp]: "be_hc toy_bc_env = toy_chain_env" "be_store toy_bc_env = toy_store" "blockLru toy_bc_env = toy_lru BlockValue as_block"
  by (simp_all add: toy_bc_env_def)

lemma toy_bc_ok: "env_ok toy_bc_env (cache_view as_header) (cache_view as_td) (cache_view as_number) (cache_view as_block)"
  by (simp add: env_ok_def toy_lrus_ok toy_lru_ok toy_codec_ok store_ok_def toy_store_def)

lemma toy_bc_empty: "caches_empty (cache_view as_header) (cache_view as_td) (cache_view as_number) (cache_view as_block) []"
  by (simp add: caches_empty_def toy_caches_empty)

lemma toy_commits: "commits_succeed toy_bc_env"
  by (simp add: commits_succeed_def toy_store_def)

abbreviation toy_reachable :: "(unit, toy_cache) blockChain \<Rightarrow> block set \<Rightarrow> bool" where
  "toy_reachable \<equiv> blocks_reachable toy_bc_env [] () 117"

lemma toy_write:
  assumes "toy_reachable bc W" "tree_eq V (bview toy_bc_env bc)" "block_fits toy_bc_env 117 V b"
    "vw_td V (ParentHash (bheader b), num_of (bheader b) - 1) = Some pd" "Difficulty (bheader b) = Some d"
    "head_block_td toy_bc_env bc < d + pd"
  shows "\<exists>bc'. writeBlockWithState toy_bc_env b [] s bc = Some (Inr CanonStatTy, bc') \<and> toy_reachable bc' (insert b W)
    \<and> tree_eq (with_block toy_bc_env b (d + pd) V) (bview toy_bc_env bc') \<and> head_block_td toy_bc_env bc' = d + pd
    \<and> currentBlock bc' = Some (Some b)"
proof -
  have i: "bc_inv toy_bc_env (cache_view as_header) (cache_view as_td) (cache_view as_number) (cache_view as_block) 117 bc"
    using blocks_reachable_inv [OF toy_bc_ok toy_bc_empty assms(1)] by simp
  have f: "block_fits toy_bc_env 117 (bview toy_bc_env bc) b"
    using assms(2,3) by (simp add: block_fits_def header_fits_def tree_eq_def)
  have pd: "vw_td (bview toy_bc_env bc) (ParentHash (bheader b), num_of (bheader b) - 1) = Some pd"
    using assms(2,4) by (simp add: tree_eq_def)
  have rs: "\<forall>r \<in> set []. status_ok r" by simp
  obtain bc' where w: "writeBlockWithState toy_bc_env b [] s bc = Some (Inr CanonStatTy, bc')"
    "tree_eq (with_block toy_bc_env b (d + pd) (bview toy_bc_env bc)) (bview toy_bc_env bc')" "currentBlock bc' = Some (Some b)"
    using write_known [OF toy_bc_ok i f rs pd, of s] toy_commits assms(5,6) by (auto simp: wrote_canonical_def)
  have t: "tree_eq (with_block toy_bc_env b (d + pd) V) (bview toy_bc_env bc')"
    using w(2) assms(2) by (simp add: tree_eq_def with_block_def with_header_def)
  have "toy_reachable bc' (insert b W)" using blocks_reachable.wrote [OF assms(1) f rs w(1)] by simp
  moreover have "head_block_td toy_bc_env bc' = d + pd"
    using w(3) t by (simp add: head_block_td_def tree_eq_def with_block_def with_header_def block_hash_def)
  ultimately show ?thesis using w(1,3) t by blast
qed

section \<open>The genesis block\<close>

definition genesis_view :: "header \<Rightarrow> chain_view" where
  "genesis_view x = (db_view toy_codec None)\<lparr>vw_header := [(117, 0) \<mapsto> x], vw_number := [117 \<mapsto> 0], vw_td := [(117, 0) \<mapsto> 1],
     vw_body := [(117, 0) \<mapsto> \<lparr>bd_Transactions = [], bd_Uncles = []\<rparr>]\<rparr>"

lemma toy_genesis_db:
  "\<exists>mdb2 x. genesis_blocks toy_bc_env 117 () mdb2 \<and> genesis_db toy_chain_env 117 mdb2 \<and> vw_td (db_view toy_codec mdb2) = [(117, 0) \<mapsto> 1]
     \<and> vw_header (db_view toy_codec mdb2) = [(117, 0) \<mapsto> x]
     \<and> vw_body (db_view toy_codec mdb2) = [(117, 0) \<mapsto> \<lparr>bd_Transactions = [], bd_Uncles = []\<rparr>]"
proof -
  obtain b g1 mdb1 where b: "ToBlock codec_crypto toy_genesis_env toy_genesis memdb_New = Some (b, g1, mdb1)" using toy_ToBlock by blast
  note h = toy_genesis_hash [OF b]
  have ne: "vw_body (db_view toy_codec memdb_New) = Map.empty"
    by (auto simp: memdb_New_def cview_def db_at_def at_rlp_def at_data_def fun_eq_iff)
  have "ge_Marshal toy_genesis_env (g_Config g1) \<noteq> None" by (simp add: toy_genesis_env_def)
  then obtain mdb2 where g: "genesis_db toy_chain_env 117 mdb2" "vw_td (db_view toy_codec mdb2) = [(117, 0) \<mapsto> 1]"
    "vw_header (db_view toy_codec mdb2) = [(117, 0) \<mapsto> bheader b]"
    "vw_body (db_view toy_codec mdb2) = [(117, 0) \<mapsto> \<lparr>bd_Transactions = [], bd_Uncles = []\<rparr>]"
    using genesis_commit_db [of toy_chain_env memdb_New toy_genesis_env toy_genesis b g1 mdb1 1]
      b h toy_codec_ok toy_genesis_difficulty empty_no_chain by (auto simp: ne)
  then show ?thesis by (auto simp: genesis_blocks_def toy_store_def toy_state_libs_def)
qed

lemma toy_start:
  "\<exists>bc x. toy_reachable bc {} \<and> tree_eq (genesis_view x) (bview toy_bc_env bc) \<and> head_block_td toy_bc_env bc = 1"
proof -
  obtain mdb2 x where gb: "genesis_blocks toy_bc_env 117 () mdb2" and g: "genesis_db toy_chain_env 117 mdb2"
    "vw_td (db_view toy_codec mdb2) = [(117, 0) \<mapsto> 1]" "vw_header (db_view toy_codec mdb2) = [(117, 0) \<mapsto> x]"
    "vw_body (db_view toy_codec mdb2) = [(117, 0) \<mapsto> \<lparr>bd_Transactions = [], bd_Uncles = []\<rparr>]"
    using toy_genesis_db by blast
  obtain bc where n: "NewBlockChain 0 toy_bc_env [] () mdb2 = Some (Inr bc)"
    "bc_inv toy_bc_env (cache_view as_header) (cache_view as_td) (cache_view as_number) (cache_view as_block) 117 bc"
    "tree_eq (db_view toy_codec mdb2) (bview toy_bc_env bc)"
    using NewBlockChain_ok [OF toy_bc_ok toy_bc_empty gb, of 0] by auto
  have t: "tree_eq (genesis_view x) (bview toy_bc_env bc)"
    using n(3) g by (auto simp: tree_eq_def genesis_view_def genesis_db_def)
  obtain ob oh on where hd: "head_at (bview toy_bc_env bc) bc ob oh on" using n(2) by (auto simp: bc_inv_def)
  have base: "base_ok toy_bc_env (cache_view as_header) (cache_view as_td) (cache_view as_number) (cache_view as_block) 117 bc"
    using n(2) by (simp add: bc_inv_def)
  have "oh = 117 \<and> on = 0" using hd t by (auto simp: head_at_def blk_at_def tree_eq_def genesis_view_def split: if_splits)
  then have "head_block_td toy_bc_env bc = 1" using head_block_td_at [OF base hd] t by (simp add: tree_eq_def genesis_view_def)
  then show ?thesis using blocks_reachable.start [OF gb n(1)] t by blast
qed

section \<open>Two blocks and a rival\<close>

text \<open>Their hashes are 1, 3 and 2; the first and the rival have a transaction each, of the hashes 4 and 5.\<close>

definition grandchild_block :: block where
  "grandchild_block = \<lparr>bheader = child_header\<lparr>ParentHash := 1, Number := Some 2, Extra := [1, 1, 1]\<rparr>, uncles = [], transactions = [], td = None\<rparr>"

definition rival_block :: block where
  "rival_block = \<lparr>bheader = child_header\<lparr>Difficulty := Some 9, Extra := [1, 1]\<rparr>, uncles = [],
     transactions = [child_tx\<lparr>AccountNonce := 4\<rparr>], td = None\<rparr>"

lemma toy_blocks:
  "block_hash toy_codec child_block = 1" "num_of (bheader child_block) = 1" "ParentHash (bheader child_block) = 117"
  "Difficulty (bheader child_block) = Some 2" "txs_of toy_bc_env [child_block] = {4}"
  "block_hash toy_codec grandchild_block = 3" "num_of (bheader grandchild_block) = 2" "ParentHash (bheader grandchild_block) = 1"
  "Difficulty (bheader grandchild_block) = Some 2" "txs_of toy_bc_env [grandchild_block] = {}"
  "block_hash toy_codec rival_block = 2" "num_of (bheader rival_block) = 1" "ParentHash (bheader rival_block) = 117"
  "Difficulty (bheader rival_block) = Some 9" "txs_of toy_bc_env [rival_block] = {5}"
  "header_Hash codec_crypto (bheader child_block) = 1" "header_Hash codec_crypto (bheader grandchild_block) = 3"
  "header_Hash codec_crypto (bheader rival_block) = 2"
  "Number (bheader child_block) = Some 1" "Number (bheader grandchild_block) = Some 2" "Number (bheader rival_block) = Some 1"
  by (simp_all add: block_hash_def child_block_def grandchild_block_def rival_block_def toy_hash)
    (simp_all add: child_header_def num_of_def txs_of_def child_tx_def toy_codec_def)

lemma toy_storable: "storable child_block" "storable grandchild_block" "storable rival_block"
  by (simp_all add: storable_def child_block_def grandchild_block_def rival_block_def body_encodable_def block_Body_def child_tx_def
      child_header_def header_encodable_def)

lemma toy_fits:
  assumes "storable b" "Number (bheader b) = Some (uint n)" "n \<noteq> 0" "n \<noteq> - 1" "vw_number V (ParentHash (bheader b)) \<in> {None, Some (n - 1)}"
    "blk_hash toy_bc_env b \<noteq> 0" "\<And>n. vw_header V (blk_hash toy_bc_env b, n) = None" "\<And>n. vw_body V (blk_hash toy_bc_env b, n) = None"
  shows "block_fits toy_bc_env 117 V b"
  using assms by (auto simp: block_fits_def header_fits_def storable_def block_hash_def)

text \<open>The first two blocks are written, then the rival.\<close>

lemma toy_two_blocks:
  "\<exists>bc x. toy_reachable bc {grandchild_block, child_block} \<and> currentBlock bc = Some (Some grandchild_block) \<and> head_block_td toy_bc_env bc = 5
     \<and> tree_eq (with_block toy_bc_env grandchild_block 5 (with_block toy_bc_env child_block 3 (genesis_view x))) (bview toy_bc_env bc)"
proof -
  obtain bc x where 0: "toy_reachable bc {}" "tree_eq (genesis_view x) (bview toy_bc_env bc)" "head_block_td toy_bc_env bc = 1"
    using toy_start by blast
  have f: "block_fits toy_bc_env 117 (genesis_view x) child_block"
    by (rule toy_fits [of _ 1]) (simp_all add: toy_blocks toy_storable, simp_all add: genesis_view_def)
  obtain bc1 where 1: "toy_reachable bc1 {child_block}" "head_block_td toy_bc_env bc1 = 3"
    "tree_eq (with_block toy_bc_env child_block 3 (genesis_view x)) (bview toy_bc_env bc1)"
    using toy_write [OF 0(1,2) f, of 1 2] 0(3) by (auto simp: toy_blocks genesis_view_def)
  let ?V = "with_block toy_bc_env child_block 3 (genesis_view x)"
  have f2: "block_fits toy_bc_env 117 ?V grandchild_block"
    by (rule toy_fits [of _ 2])
      (simp_all add: toy_blocks toy_storable with_block_def with_header_def genesis_view_def)
  have "vw_td ?V (ParentHash (bheader grandchild_block), num_of (bheader grandchild_block) - 1) = Some 3"
    by (simp add: toy_blocks with_block_def with_header_def)
  from toy_write [OF 1(1,3) f2 this, of 2 "fresh_stateDB ()"] 1(2) show ?thesis by (auto simp: toy_blocks)
qed

lemma toy_rival:
  "\<exists>bc x bc'. toy_reachable bc {grandchild_block, child_block} \<and> currentBlock bc = Some (Some grandchild_block)
     \<and> block_fits toy_bc_env 117 (bview toy_bc_env bc) rival_block
     \<and> writeBlockWithState toy_bc_env rival_block [] s bc = Some (Inr CanonStatTy, bc')
     \<and> tree_eq (with_block toy_bc_env rival_block 10 (with_block toy_bc_env grandchild_block 5
         (with_block toy_bc_env child_block 3 (genesis_view x)))) (bview toy_bc_env bc')"
proof -
  obtain bc x where 0: "toy_reachable bc {grandchild_block, child_block}" "currentBlock bc = Some (Some grandchild_block)"
    "head_block_td toy_bc_env bc = 5"
    "tree_eq (with_block toy_bc_env grandchild_block 5 (with_block toy_bc_env child_block 3 (genesis_view x))) (bview toy_bc_env bc)"
    using toy_two_blocks by blast
  let ?V = "with_block toy_bc_env grandchild_block 5 (with_block toy_bc_env child_block 3 (genesis_view x))"
  have f: "block_fits toy_bc_env 117 ?V rival_block"
    by (rule toy_fits [of _ 1])
      (simp_all add: toy_blocks toy_storable with_block_def with_header_def genesis_view_def)
  have f': "block_fits toy_bc_env 117 (bview toy_bc_env bc) rival_block"
    using f 0(4) by (simp add: block_fits_def header_fits_def tree_eq_def)
  have "vw_td ?V (ParentHash (bheader rival_block), num_of (bheader rival_block) - 1) = Some 1"
    by (simp add: toy_blocks with_block_def with_header_def genesis_view_def)
  from toy_write [OF 0(1,4) f this, of 9 s] 0(1,2,3) f' show ?thesis by (auto simp: toy_blocks)
qed

text \<open>The abandoned blocks and the new ones.\<close>

lemma rival_down:
  defines "V x \<equiv> with_block toy_bc_env rival_block 10 (with_block toy_bc_env grandchild_block 5
         (with_block toy_bc_env child_block 3 (genesis_view x)))"
  assumes "chain_down (V x) 3 2 l k m" "chain_down (V x) 2 1 l' k m"
  shows "txs_of toy_bc_env l = {4} \<and> txs_of toy_bc_env l' = {5}"
proof -
  have t: "transactions b = transactions b'" if "block_Body b = block_Body b'" for b b' using that by (simp add: block_Body_def)
  have b: "blk_at (V x) 3 2 b \<Longrightarrow> ParentHash (bheader b) = 1 \<and> transactions b = transactions grandchild_block"
    "blk_at (V x) 1 1 b \<Longrightarrow> ParentHash (bheader b) = 117 \<and> transactions b = transactions child_block"
    "blk_at (V x) 2 1 b \<Longrightarrow> ParentHash (bheader b) = 117 \<and> transactions b = transactions rival_block" for b
  proof -
    have "blk_at (V x) 3 2 b \<Longrightarrow> bheader b = bheader grandchild_block \<and> block_Body b = block_Body grandchild_block"
      "blk_at (V x) 1 1 b \<Longrightarrow> bheader b = bheader child_block \<and> block_Body b = block_Body child_block"
      "blk_at (V x) 2 1 b \<Longrightarrow> bheader b = bheader rival_block \<and> block_Body b = block_Body rival_block"
      by (simp_all add: blk_at_def V_def with_block_def with_header_def toy_blocks)
    then show "blk_at (V x) 3 2 b \<Longrightarrow> ParentHash (bheader b) = 1 \<and> transactions b = transactions grandchild_block"
      "blk_at (V x) 1 1 b \<Longrightarrow> ParentHash (bheader b) = 117 \<and> transactions b = transactions child_block"
      "blk_at (V x) 2 1 b \<Longrightarrow> ParentHash (bheader b) = 117 \<and> transactions b = transactions rival_block"
      by (metis t toy_blocks(3,8,13))+
  qed
  have zero: "chain_down (V x) 117 0 l k m \<longleftrightarrow> l = [] \<and> k = 117 \<and> m = 0" for l k m by (cases l) auto
  have one: "l = [] \<and> k = 1 \<and> m = 1 \<or> (\<exists>c. l = [c] \<and> k = 117 \<and> m = 0 \<and> transactions c = transactions child_block)"
    if "chain_down (V x) 1 1 l k m" for l k m
    using that by (cases l) (auto simp: zero dest: b(2))
  have two: "l = [] \<and> k = 2 \<and> m = 1 \<or> (\<exists>c. l = [c] \<and> k = 117 \<and> m = 0 \<and> transactions c = transactions rival_block)"
    if "chain_down (V x) 2 1 l k m" for l k m
    using that by (cases l) (auto simp: zero dest: b(3))
  have three: "l = [] \<and> k = 3 \<and> m = 2 \<or> (\<exists>a l2. l = a # l2 \<and> transactions a = transactions grandchild_block \<and> chain_down (V x) 1 1 l2 k m)"
    if "chain_down (V x) 3 2 l k m" for l k m
    using that by (cases l) (auto dest: b(1))
  have tx: "txs_of toy_bc_env (a # l) = de_txhash (cc_derive toy_codec) ` set (transactions a) \<union> txs_of toy_bc_env l" "txs_of toy_bc_env [] = {}" for a l
    by (simp_all add: txs_of_def)
  have set: "de_txhash (cc_derive toy_codec) ` set (transactions child_block) = {4}" "transactions grandchild_block = []"
    "de_txhash (cc_derive toy_codec) ` set (transactions rival_block) = {5}"
    using toy_blocks(5,15) by (simp_all add: txs_of_def grandchild_block_def)
  show ?thesis using two [OF assms(3)] three [OF assms(2)]
    by (elim disjE exE conjE) (use one in \<open>fastforce simp: tx set\<close>)+
qed

section \<open>The properties there\<close>

theorem block_chain_head_witness:
  "\<exists>bc. toy_reachable bc {grandchild_block, child_block} \<and> currentBlock bc = Some (Some grandchild_block)
     \<and> ReadCanonicalHash (bc_db bc) 2 = 3 \<and> ReadCanonicalHash (bc_db bc) 1 = 1
     \<and> (\<exists>d. ReadTd toy_codec (bc_db bc) 1 1 = Some d \<and> ReadTd toy_codec (bc_db bc) 3 2 = Some (d + 2))"
proof -
  obtain bc x where 0: "toy_reachable bc {grandchild_block, child_block}" "currentBlock bc = Some (Some grandchild_block)"
    "tree_eq (with_block toy_bc_env grandchild_block 5 (with_block toy_bc_env child_block 3 (genesis_view x))) (bview toy_bc_env bc)"
    using toy_two_blocks by blast
  have "ReadTd toy_codec (bc_db bc) 1 1 = Some 3" "ReadTd toy_codec (bc_db bc) 3 2 = Some 5"
    using 0(3) by (simp_all add: reads_view [where cc = toy_codec] tree_eq_def with_block_def with_header_def toy_blocks)
  moreover have "bnum grandchild_block = Some 2" by (simp add: grandchild_block_def Uint64_def)
  moreover have "(1 :: u64) \<le> 2" "ParentHash (bheader grandchild_block) = 1" by (simp_all add: toy_blocks)
  ultimately show ?thesis using block_chain_head [OF toy_bc_ok toy_bc_empty 0(1)] 0(1,2)
    by (fastforce simp: toy_blocks)
qed

theorem reorg_moves_lookups_witness:
  "\<exists>bc bc'. toy_reachable bc {grandchild_block, child_block}
     \<and> writeBlockWithState toy_bc_env rival_block [] (fresh_stateDB ()) bc = Some (Inr CanonStatTy, bc')
     \<and> ReadTxLookupEntry toy_codec (bc_db bc') 5 = 2 \<and> ReadTxLookupEntry toy_codec (bc_db bc') 4 = 0"
proof -
  obtain bc x bc' where 0: "toy_reachable bc {grandchild_block, child_block}" "currentBlock bc = Some (Some grandchild_block)"
    "block_fits toy_bc_env 117 (bview toy_bc_env bc) rival_block"
    "writeBlockWithState toy_bc_env rival_block [] (fresh_stateDB ()) bc = Some (Inr CanonStatTy, bc')"
    "tree_eq (with_block toy_bc_env rival_block 10 (with_block toy_bc_env grandchild_block 5
         (with_block toy_bc_env child_block 3 (genesis_view x)))) (bview toy_bc_env bc')"
    using toy_rival by blast
  have rs: "\<forall>r \<in> set []. status_ok r" by simp
  obtain l l' k m where r: "chain_down (bview toy_bc_env bc') 3 2 l k m" "chain_down (bview toy_bc_env bc') 2 1 l' k m"
    "\<forall>t. if t \<in> {5} then ReadTxLookupEntry toy_codec (bc_db bc') t = 2
           else if t \<in> txs_of toy_bc_env l' then (\<exists>b' \<in> set l'. t \<in> txs_of toy_bc_env [b']
             \<and> ReadTxLookupEntry toy_codec (bc_db bc') t = block_hash toy_codec b')
           else ReadTxLookupEntry toy_codec (bc_db bc') t
             = (if t \<in> txs_of toy_bc_env l then 0 else ReadTxLookupEntry toy_codec (bc_db bc) t)"
    using reorg_moves_lookups [OF toy_bc_ok toy_bc_empty 0(1,3) rs 0(4,2)] by (auto simp: toy_blocks cong: if_cong)
  have "txs_of toy_bc_env l = {4} \<and> txs_of toy_bc_env l' = {5}"
    by (rule rival_down) (use r(1,2) tree_eq_down [OF 0(5)] in simp_all)
  then have "ReadTxLookupEntry toy_codec (bc_db bc') 5 = 2" "ReadTxLookupEntry toy_codec (bc_db bc') 4 = 0"
    using r(3) by (auto split: if_splits)
  then show ?thesis using 0(1,4) by blast
qed

theorem shorter_reorg_leaves_numbers_witness:
  "\<exists>bc bc'. toy_reachable bc {grandchild_block, child_block} \<and> currentBlock bc = Some (Some grandchild_block)
     \<and> writeBlockWithState toy_bc_env rival_block [] (fresh_stateDB ()) bc = Some (Inr CanonStatTy, bc')
     \<and> currentBlock bc' = Some (Some rival_block) \<and> num_of (bheader rival_block) = 1 \<and> ReadCanonicalHash (bc_db bc') 2 = 3"
proof -
  obtain bc x bc' where 0: "toy_reachable bc {grandchild_block, child_block}" "currentBlock bc = Some (Some grandchild_block)"
    "block_fits toy_bc_env 117 (bview toy_bc_env bc) rival_block"
    "writeBlockWithState toy_bc_env rival_block [] (fresh_stateDB ()) bc = Some (Inr CanonStatTy, bc')"
    using toy_rival by blast
  have rs: "\<forall>r \<in> set []. status_ok r" by simp
  have "(1 :: u64) < 2" by simp
  then show ?thesis using shorter_reorg_leaves_numbers [OF toy_bc_ok toy_bc_empty 0(1,3) rs 0(4,2)] 0(1,2,4)
    by (auto simp: toy_blocks)
qed

text \<open>A database that has only the genesis block.\<close>

theorem no_head_block_panics_witness:
  "\<exists>mdb. db_open mdb \<and> ReadHeadBlockHash mdb = 0 \<and> ReadBlock toy_codec mdb 117 0 \<noteq> None
     \<and> NewBlockChain 9 toy_bc_env [] () mdb = None"
proof -
  obtain mdb2 where g: "genesis_blocks toy_bc_env 117 () mdb2" using toy_genesis_db by blast
  then have o: "db_open mdb2" by (simp add: genesis_blocks_def genesis_db_def)
  obtain mdb where m: "WriteHeadBlockHash db_writer mdb2 0 = Some mdb" "db_open mdb"
    "db_view toy_codec mdb = (db_view toy_codec mdb2)\<lparr>vw_headBlock := 0\<rparr>"
    using dbw.WriteHeadBlockHash_view [OF o, of toy_codec 0] by (auto simp: dbw.writes_view_def)
  have r: "ReadHeadBlockHash mdb = 0" "ReadCanonicalHash mdb 0 = 117" "ReadBlock toy_codec mdb 117 0 \<noteq> None"
    using g m(3) by (auto simp: genesis_blocks_def genesis_db_def ReadBlock_def reads_view [where cc = toy_codec])
  then show ?thesis using no_head_block_panics [OF toy_bc_ok toy_bc_empty r(1), of 9 "()"] m(2) by auto
qed

end
