(* ===== verification/Pool_On_Chain.thy ===== *)
theory Pool_On_Chain
  imports Tx_Pool_Reach Block_Rules
begin

text \<open>
  The pool over the chain of blocks (\<open>core/tx_pool.go\<close> over \<open>core/blockchain.go\<close>): the \<open>GetBlock\<close> of the modelled chain
  keeps the law \<open>chain_walks\<close> the pool relies on, and finds the head block. It is read at one state of the chain; that its
  reads move the caches changes no answer.
\<close>

definition chain_get :: "('s, 't, 'c) bc_env \<Rightarrow> ('s, 'c) blockChain \<Rightarrow> hash \<Rightarrow> u64 \<Rightarrow> block option" where
  "chain_get E bc h n = fst (GetBlock E h n bc)"

text \<open>A block that is found is stored, under the number it was asked for or, from the cache, under its own.\<close>

lemma chain_get_stored:
  assumes "env_ok E hv tv nv bv" "base_ok E hv tv nv bv g bc" "chain_get E bc h n = Some b"
  shows "\<exists>n'. blk_at (bview E bc) h n' b"
proof -
  have L: "lru_ok (blockLru E) bv" using assms(1) by (simp add: env_ok_def)
  have b: "stored_ok (be_hc E) g (bview E bc)" "bodies_ok (bview E bc)" "bcache_ok bv (bview E bc) bc"
    using assms(2) by (simp_all add: base_ok_def)
  obtain q c where q: "lru_Get (blockLru E) (blockCache bc) h = (q, c)" by fastforce
  show ?thesis
  proof (cases q)
    case (Some x)
    then have "x = b" using assms(3) q by (simp add: chain_get_def GetBlock_def)
    moreover have "bv (blockCache bc) h = Some x" using lru_GetD [OF L q] Some by simp
    ultimately show ?thesis using b(3) unfolding bcache_ok_def by blast
  next
    case None
    then have "ReadBlock (cdc E) (bc_db bc) h n = Some b"
      using assms(3) q by (auto simp: chain_get_def GetBlock_def split: option.splits)
    then show ?thesis using ReadBlock_at [OF b(1,2), of h n] by auto
  qed
qed

lemma stored_NumberU64:
  assumes "stored_ok (be_hc E) g V" "blk_at V h n b"
  shows "NumberU64 b = Some n" "block_Header b = bheader b"
proof -
  have x: "vw_header V (h, n) = Some (bheader b)" using assms(2) by (simp add: blk_at_def)
  show "NumberU64 b = Some n" using stored_Uint64 [OF assms(1) x] by (simp add: NumberU64_def)
  show "block_Header b = bheader b"
    using stored_header(3,4) [OF assms(1) x] CopyHeader_id by (simp add: block_Header_def)
qed

text \<open>The genesis block has no parent: its parent hash is of no stored block.\<close>

lemma chain_get_walks:
  assumes env: "env_ok E hv tv nv bv" and base: "base_ok E hv tv nv bv g bc"
    and root: "\<And>x. vw_header (bview E bc) (g, 0) = Some x \<Longrightarrow> vw_number (bview E bc) (ParentHash x) = None"
  shows "chain_walks (chain_get E bc)"
  unfolding chain_walks_def
proof (intro allI impI)
  fix h n b assume "chain_get E bc h n = Some b"
  then obtain k where k: "blk_at (bview E bc) h k b" using chain_get_stored [OF env base] by blast
  have st: "stored_ok (be_hc E) g (bview E bc)" using base by (simp add: base_ok_def)
  have x: "vw_header (bview E bc) (h, k) = Some (bheader b)" using k by (simp add: blk_at_def)
  note n = stored_NumberU64(1) [OF st k]
  show "parent_steps (chain_get E bc) b"
  proof (cases "k = 0")
    case False
    obtain p bc' where "GetBlock E (ParentHash (bheader b)) (k - 1) bc = (Some p, bc')"
      "blk_at (bview E bc) (ParentHash (bheader b)) (k - 1) p"
      using GetBlock_parent [OF env base k False] by blast
    then show ?thesis using n False stored_NumberU64(1) [OF st] by (simp add: parent_steps_def chain_get_def)
  next
    case True
    then have "vw_header (bview E bc) (g, 0) = Some (bheader b)" using stored_header(7) [OF st x] x by simp
    from root [OF this] have u: "vw_number (bview E bc) (ParentHash (bheader b)) = None" .
    have "chain_get E bc (ParentHash (bheader b)) (k - 1) = None"
    proof (rule ccontr)
      assume "chain_get E bc (ParentHash (bheader b)) (k - 1) \<noteq> None"
      then obtain p k' where "blk_at (bview E bc) (ParentHash (bheader b)) k' p" using chain_get_stored [OF env base] by blast
      then show False using stored_header(6) [OF st] u unfolding blk_at_def by fastforce
    qed
    then show ?thesis using n by (simp add: parent_steps_def)
  qed
qed

lemma chain_get_known:
  assumes "env_ok E hv tv nv bv" "base_ok E hv tv nv bv g bc" "blk_at (bview E bc) h n b"
  shows "chain_get E bc h n \<noteq> None" "hdr_hash (be_hc E) (block_Header b) = h" "Uint64 (Number (block_Header b)) = Some n"
proof -
  have st: "stored_ok (be_hc E) g (bview E bc)" using assms(2) by (simp add: base_ok_def)
  have x: "vw_header (bview E bc) (h, n) = Some (bheader b)" using assms(3) by (simp add: blk_at_def)
  note s = stored_NumberU64 [OF st assms(3)]
  show "hdr_hash (be_hc E) (block_Header b) = h" using stored_header(1) [OF st x] s(2) by simp
  show "Uint64 (Number (block_Header b)) = Some n" using s by (simp add: NumberU64_def)
  obtain r bc' where r: "GetBlock E h n bc = (r, bc')" by fastforce
  from GetBlock_ok [OF assms(1,2) disjI2 [OF stored_header(6) [OF st x]] r]
  have "\<exists>b'. r = Some b' \<and> blk_at (bview E bc) h n b'" using x by (auto split: option.splits)
  then show "chain_get E bc h n \<noteq> None" using r by (auto simp: chain_get_def)
qed

text \<open>A pool over a chain that is built by writing blocks, and that announces its head block, returns from every call.\<close>

lemma pool_on_chain_returns:
  assumes "env_ok E hv tv nv bv" "caches_empty hv tv nv bv c0" "blocks_reachable E c0 s0 g bc W"
    and root: "\<And>x. vw_header (bview E bc) (g, 0) = Some x \<Longrightarrow> vw_number (bview E bc) (ParentHash x) = None"
    and pool: "pe_GetBlock PE = chain_get E bc" "header_Hash (pe_crypto PE) = hdr_hash (be_hc E)" "ranges_ok PE"
      "pool_reachable PE p" "few_txs PE c p"
    and head: "\<And>b. c = CallChainHead (Some b) \<Longrightarrow> currentBlock bc = Some (Some b)"
  shows "\<exists>p'. run_call PE now c p = Some p' \<and> pool_reachable PE p' \<and> kept_fields p p'"
proof -
  have i: "bc_inv E hv tv nv bv g bc" using blocks_reachable_inv [OF assms(1-3)] by simp
  then have base: "base_ok E hv tv nv bv g bc" by (simp add: bc_inv_def)
  have "head_known PE c"
    unfolding head_known_def
  proof (intro allI impI)
    fix b assume "c = CallChainHead (Some b)"
    then obtain h n where "blk_at (bview E bc) h n b" using head i by (fastforce simp: bc_inv_def head_at_def)
    from chain_get_known [OF assms(1) base this]
    show "pe_GetBlock PE (header_Hash (pe_crypto PE) (block_Header b)) (the (Uint64 (Number (block_Header b)))) \<noteq> None"
      by (simp add: pool(1,2))
  qed
  from run_call_returns [OF pool(4,3,5) _ this] show ?thesis using chain_get_walks [OF assms(1) base root] pool(1) by simp
qed

end
