(* ===== verification/Spec2Isabelle.thy ===== *)
theory Spec2Isabelle
  imports Tx_List Tx_Priced Memory_DB Clique_Rules Aura_Rules Trie_Canonical Transition_Rules Tx_Pool_Rules Block_Import Block_Examples Pool_On_Chain
begin

text \<open>
  A verification library for PoASim, a simulator of Ethereum networks that run a proof-of-authority engine. All paths
  below are under \<open>src/src/network/eth/\<close> unless they start with \<open>src/\<close>.

  \<^bold>\<open>The program.\<close> Every simulated node is an Ethereum node without its virtual machine. A node keeps accounts in a
  \<^emph>\<open>state database\<close> (\<open>core/state\<close>) over Merkle Patricia tries (\<open>trie\<close>), and these over a key-value store
  (\<open>ethdb/memorydb\<close>). Messages are applied to the state by the \<^emph>\<open>state transition\<close> (\<open>core/state_transition.go\<close>,
  \<open>core/evm.go\<close>, \<open>core/gaspool.go\<close>). Transactions that wait for a block are in the \<^emph>\<open>transaction pool\<close>
  (\<open>core/tx_pool.go\<close>, \<open>core/tx_list.go\<close>), which reads the state at the head of the chain and sorts what can be executed
  now from what has to wait; the \<^emph>\<open>block assembler\<close> draws from it in the order of \<open>core/types/transaction.go\<close>. A
  \<^emph>\<open>consensus engine\<close>, \<open>consensus/clique\<close> or \<open>consensus/aura\<close>, decides who may sign the block, seals it and checks the
  headers of others; Clique derives the set of signers from the votes in the headers, in \<^emph>\<open>snapshots\<close>. The \<^emph>\<open>chain\<close> of a
  node (\<open>core/headerchain.go\<close>, \<open>core/genesis.go\<close>) is stored by the accessors of \<open>core/rawdb\<close> under keys of the key-value
  store: headers and total difficulties by number and hash, and the canonical hash of each number up to the head. The
  \<^emph>\<open>blockchain\<close> (\<open>core/blockchain.go\<close>, \<open>blockchain_insert.go\<close>) adds bodies, receipts and states: it validates and processes
  blocks, writes them, and reorganises the canonical chain when a heavier one appears.

  \<^bold>\<open>The theories\<close>, from the bottom up.

  \<^item> \<open>Prelude\<close>: the Go types (\<open>uint64\<close> is \<open>64 word\<close>, an address \<open>160 word\<close>, a hash \<open>256 word\<close>, \<open>*big.Int\<close> is \<open>int\<close>),
    Go maps as association lists with distinct keys and the order of \<open>range\<close> as a parameter, \<open>sort.Search\<close>, and the
    library lemmas about them.
  \<^item> \<open>Go_Heap\<close>: the package \<open>container/heap\<close> over any \<open>Less\<close>. The locale \<open>go_order\<close> is the contract it asks of \<open>Less\<close>.
  \<^item> \<open>Transactions\<close> (\<open>core/types/transaction.go\<close>), with the assembler's order: \<open>Peek\<close>, \<open>Shift\<close> and \<open>Pop\<close> yield each account's
    transactions in the order of nonces and the best price first. \<open>Blocks\<close> (\<open>core/types/block.go\<close>): headers, bodies,
    \<open>NewBlock\<close>.
  \<^item> \<open>Tx_Sorted_Map\<close>, \<open>Tx_List\<close>, \<open>Tx_Priced\<close> (\<open>core/tx_list.go\<close> and the two small types of \<open>core/tx_pool.go\<close>): one
    account's transactions by nonce with their heap and cache, the two cached bounds on top, and the heap of all
    transactions by price with stale entries. The locale \<open>nonce_store\<close> is what \<open>txList\<close> needs of \<open>txSortedMap\<close>.
  \<^item> \<open>Prque\<close>, \<open>Prque_Order\<close> (\<open>src/src/network/eth/common/prque\<close>): the priority queue.
  \<^item> \<open>Memory_DB\<close> (\<open>ethdb/memorydb/memorydb.go\<close>): the key-value store, batches, iterators.
  \<^item> \<open>Consensus\<close>, \<open>Clique_Snapshot\<close>, \<open>Clique_Engine\<close> (\<open>consensus/clique/clique.go\<close>, \<open>snapshot.go\<close>): recovery of the signer,
    snapshots and voting, verification, \<open>Prepare\<close>, \<open>Seal\<close>. The rules are proved in \<open>Clique_Voting\<close> (what a vote decides, who
    can sign when) and \<open>Clique_Rules\<close> (the search for a snapshot ends, sealed blocks are accepted, the three copies of the
    rule about recent signers). \<open>Aura_Engine\<close> and \<open>Aura_Rules\<close> are the same for \<open>consensus/aura\<close> with its API.
  \<^item> \<open>Hex_Encoding\<close>, \<open>Trie_Ops\<close>, \<open>Secure_Trie\<close> (\<open>trie/encoding.go\<close>, \<open>trie.go\<close>, \<open>node.go\<close>, \<open>secure_trie.go\<close>). \<open>Trie_Refine\<close> shows
    that a trie implements a map and that the operations return, \<open>Trie_Canonical\<close> that its shape depends on the map only.
  \<^item> \<open>State_DB\<close>, \<open>State_Ops\<close> (\<open>core/state/statedb.go\<close>, \<open>state_object.go\<close>, \<open>journal.go\<close>), \<open>Managed_State\<close>
    (\<open>managed_state.go\<close>). \<open>State_View\<close> is the abstract state, what a client can observe; \<open>State_Revert\<close>,
    \<open>State_Snapshots\<close> and \<open>State_Histories\<close> show that the journal undoes every operation on it, for nested snapshots and
    arbitrary histories; \<open>State_Secure\<close> connects the state database with the secure tries. \<open>State_Transition\<close>,
    \<open>State_Balance\<close> and \<open>Transition_Rules\<close>: the messages, their gas and their effect on balances.
  \<^item> \<open>Tx_Pool\<close>, \<open>Tx_Pool_Chain\<close>: the pool's operations. \<open>Tx_Pool_Lists\<close> and \<open>Tx_Pool_Inv\<close> set up the refinement: the pool is
    three sets of transactions, pending and queued by account and known by hash (\<open>pool_ok\<close>). \<open>Tx_Pool_Add\<close>, \<open>Tx_Pool_Promote\<close>,
    \<open>Tx_Pool_Limit\<close>, \<open>Tx_Pool_Run\<close> and \<open>Tx_Pool_Demote\<close> show for every operation that it returns and what it does to the
    sets; \<open>Tx_Pool_Walk\<close> is the law of the chain the pool relies on (\<open>chain_walks\<close>) and the end of the walk of \<open>reset\<close> under
    it; \<open>Tx_Pool_Reach\<close> follows the pool from \<open>NewTxPool\<close> through any sequence of calls and chain events;
    \<open>Tx_Pool_Rules\<close> states what this means for the fields of the pool. \<open>Pool_On_Chain\<close> proves that \<open>GetBlock\<close> of the
    blockchain below keeps that law, if no stored block is a parent of the genesis block.
  \<^item> \<open>Receipts\<close> (\<open>core/types/receipt.go\<close>, \<open>log.go\<close>, \<open>bloom9.go\<close>): receipts, their stored forms, their derived fields and
    the bloom filter. \<open>State_Process\<close> (\<open>core/state_processor.go\<close>, \<open>block_validator.go\<close>, \<open>core/evm.go\<close>): applying the transactions of a
    block, validating the result, the gas limit of the next block; \<open>Process_Rules\<close> follows the receipts into the database and back.
  \<^item> \<open>Raw_DB\<close> (\<open>core/rawdb\<close>): the key schema and the accessors, for a database and for a batch. \<open>Raw_View\<close> abstracts from
    the keys: what is stored is a record of maps (\<open>chain_view\<close>), keys of different kinds never clash, and every accessor
    reads or updates one map. The locale \<open>chain_writer\<close> is the interface of databases and batches.
  \<^item> \<open>Header_Chain\<close> (\<open>core/headerchain.go\<close>): its operations. \<open>Header_Inv\<close>: the stored headers are a tree with total
    difficulties, the canonical numbers are a path of it, the caches agree with the store. \<open>Header_Rules\<close>: from a genesis
    block on this is an invariant and the head is a heaviest header; ancestors; rewinding. \<open>Genesis_Block\<close>
    (\<open>core/genesis.go\<close>): the block a chain starts with. \<open>Codec_Instance\<close> and \<open>Chain_Examples\<close> are examples: a serializer and
    a cache that satisfy the laws, and a small chain.
  \<^item> \<open>Block_Chain\<close> (\<open>core/blockchain.go\<close>): the state of the blockchain, lookups, writing a block, reorganisation.
    \<open>Block_Import\<close>: \<open>InsertChain\<close> with its iterator (\<open>blockchain_insert.go\<close>), the validation of bodies (\<open>block_validator.go\<close>), the
    prefetcher (\<open>state_prefetcher.go\<close>) and side chains without state. \<open>Block_Rewind\<close>: starting from a database, \<open>SetHead\<close>, repairing,
    resetting, fast synchronisation. \<open>Block_Inv\<close> and \<open>Block_Write\<close>: the stored blocks are a tree and the canonical numbers up to
    the head a path of it; what an insertion, a reorganisation and the retention of tries do to the stored maps. \<open>Block_Rules\<close> follows
    this from the genesis block on. \<open>Block_Examples\<close>: two blocks and a heavier rival.

  \<^bold>\<open>Conventions.\<close> A type of the code is a record or a datatype with the code's field names; a method takes its receiver and
  returns the new one. Errors are values (a sum, or an option for Go's \<open>nil\<close>). A run-time panic is \<^const>\<open>None\<close> or a
  constructor of its own (\<open>Panic\<close>), and so is a loop that does not end, in the \<open>partial_function\<close>s. These are the loops whose end needs an argument: the
  search for a snapshot along the parents, the walks of a trie whose nodes come out of a database, the walk of the pool's
  reset to the common ancestor, the pool's two loops over its limits, and the three loops of the header chain that follow
  numbers or parents (\<open>delete_above\<close>, \<open>overwrite_canonical\<close>, \<open>rewind\<close>) and those of the blockchain down the two sides of a
  reorganisation and over the queue of tries. That they return is proved without any fuel, from
  a law of what they walk over where it comes from outside of the component: for the pool's reset this is \<open>chain_walks\<close>, and
  that the chain has the block it announces as its head. Of the import and the
  rewinding of blocks only the definitions are given; there the nesting of the calls that go in a circle
  (\<open>insertChain\<close> and \<open>insertSidechain\<close>, \<open>SetHead\<close> and \<open>Reset\<close>) is bounded by an argument \<open>depth\<close>, and \<open>no_head_block_panics\<close> holds for every depth. Where the code locks, a call is one step.

  \<^bold>\<open>Parameters.\<close> Third-party code is an argument of the definitions: RLP, Keccak and secp256k1 (record \<open>crypto\<close>, fields of
  \<open>senv\<close> and \<open>pool_env\<close>, records \<open>receipt_codec\<close> and \<open>chain_codec\<close> with the law \<open>codec_ok\<close>: what was encoded is decoded
  again), the ARC and LRU caches (\<open>arc_ok\<close> and \<open>lru_ok\<close> are their laws), JSON, the clock, the coin of the fork choice, the
  order of map iteration, and the commit of a state with the store of tries (record \<open>trie_store\<close>, law \<open>store_ok\<close>: it writes no entry of the chain). The laws are
  premises of the theorems that need them, and every such theorem has a witness on concrete functions.

  \<^bold>\<open>Bounds.\<close> The theorems about the pool ask that it holds fewer than \<open>2\<^sup>6\<^sup>2\<close> transactions, those that a call or a new head brings included, and
  that \<open>AccountQueue\<close> is below \<open>2\<^sup>6\<^sup>3\<close>: the code converts these counts to \<open>int\<close>, and the comparison of priorities subtracts them. Clique's times are
  below \<open>2\<^sup>3\<^sup>3\<close> seconds. The numbers of headers are below \<open>2\<^sup>6\<^sup>4 - 1\<close>, so that the successor of a number does not wrap. Hashes
  may collide; a header that is written must not have the hash of another stored header (\<open>header_fits\<close>).

  \<^bold>\<open>Not modelled.\<close> The network (\<open>src/src/network/discovery\<close>, \<open>devp2p\<close>, the protocol manager, fetcher and downloader) and the miner's worker are
  goroutines over channels and the discrete-event library of the simulator, which is not part of the repository. Storing and
  hashing tries (\<open>trie/database.go\<close>, \<open>hasher.go\<close>) works on RLP. Metrics, logging, configuration and the export of results have
  no logic of their own.
\<close>

end
